(* ===== verification/Prelude.thy ===== *)
theory Prelude
  imports Main "HOL-Library.Word" "HOL-Library.Monad_Syntax"
begin

text \<open>
  Shared vocabulary of the development: the machine integers of the C++ sources, the kernel's
  error codes, and the option monad in which the components are written.

  A 64-bit unsigned value (\<^verbatim>\<open>u64\<close>, \<^verbatim>\<open>VAddr\<close>, \<^verbatim>\<open>PAddr\<close>) is a natural number; every addition or
  subtraction of the source that can leave the range is written with \<open>add64\<close> and
  \<open>sub64\<close>, which wrap modulo \<open>2 ^ 64\<close>.  Flag words are \<^typ>\<open>32 word\<close>.  Signed values are
  \<^typ>\<open>int\<close>.

  Results: \<open>None\<close> stands for a run that does not return, because an \<^verbatim>\<open>ASSERT\<close> of the source
  fails, because an iterator or pointer is used where the C++ standard gives no meaning to it,
  or because a loop does not end.
\<close>

unbundle bit_operations_syntax

type_synonym u64 = nat
type_synonym u32 = nat
type_synonym s32 = int
type_synonym s64 = int
type_synonym flags32 = "32 word"

named_theorems u64_simps "exactness of wrapping 64-bit arithmetic"
named_theorems orbis_errors "values of the kernel error codes"
named_theorems model_defs "definitions a symbolic evaluation of the model unfolds"

section \<open>Unsigned 64-bit arithmetic\<close>

abbreviation U64_MOD :: nat where
  "U64_MOD \<equiv> 18446744073709551616"

definition add64 :: "u64 \<Rightarrow> u64 \<Rightarrow> u64" where
  "add64 a b = (a + b) mod U64_MOD"

definition sub64 :: "u64 \<Rightarrow> u64 \<Rightarrow> u64" where
  "sub64 a b = (a + U64_MOD - b) mod U64_MOD"

text \<open>The value \<open>-1\<close> converted to an unsigned 64-bit integer.\<close>

definition u64_minus_one :: u64 where
  "u64_minus_one = U64_MOD - 1"

definition u64_of_s64 :: "s64 \<Rightarrow> u64" where
  "u64_of_s64 x = nat (x mod int U64_MOD)"

definition u32_of_s32 :: "s32 \<Rightarrow> u32" where
  "u32_of_s32 x = nat (x mod 4294967296)"

definition u32_of_u64 :: "u64 \<Rightarrow> u32" where
  "u32_of_u64 x = x mod 4294967296"

definition s32_of_u64 :: "u64 \<Rightarrow> s32" where
  "s32_of_u64 x = (let y = int (x mod 4294967296) in if y \<ge> 2147483648 then y - 4294967296 else y)"

definition s64_of_u64 :: "u64 \<Rightarrow> s64" where
  "s64_of_u64 x = (let y = int (x mod U64_MOD) in if y \<ge> 9223372036854775808 then y - int U64_MOD else y)"

text \<open>An \<^verbatim>\<open>s32\<close> argument cast to an unsigned enumeration of flags.\<close>

definition flags_of_s32 :: "s32 \<Rightarrow> flags32" where
  "flags_of_s32 x = word_of_int x"

lemma U64_MOD_eq: "U64_MOD = 2 ^ 64"
  by simp

lemma add64_exact [simp, u64_simps]: "a + b < U64_MOD \<Longrightarrow> add64 a b = a + b"
  by (simp add: add64_def)

lemma add64_less [simp]: "add64 a b < U64_MOD"
  by (simp add: add64_def)

lemma sub64_less [simp]: "sub64 a b < U64_MOD"
  by (simp add: sub64_def)

lemma sub64_exact [simp, u64_simps]:
  assumes "b \<le> a" and "a < U64_MOD"
  shows "sub64 a b = a - b"
proof -
  from assms have "a + U64_MOD - b = (a - b) + U64_MOD"
    by simp
  then show ?thesis
    using assms unfolding sub64_def by (simp only: mod_add_self2) simp
qed

lemma sub64_wrap:
  assumes "a < b" and "b < U64_MOD"
  shows "sub64 a b = U64_MOD - (b - a)"
  using assms by (simp add: sub64_def)

lemma add64_wrap:
  assumes "U64_MOD \<le> a + b" and "a < U64_MOD" and "b < U64_MOD"
  shows "add64 a b = a + b - U64_MOD"
proof -
  from assms have "(a + b) mod U64_MOD = (a + b - U64_MOD) mod U64_MOD"
    by (simp add: le_mod_geq)
  with assms show ?thesis
    by (simp add: add64_def)
qed

lemma add64_sub64_cancel:
  assumes "a < U64_MOD" and "b < U64_MOD"
  shows "sub64 (add64 a b) b = a"
proof (cases "a + b < U64_MOD")
  case True
  then show ?thesis by simp
next
  case False
  with assms have "add64 a b = a + b - U64_MOD" and "a + b - U64_MOD < b"
    by (simp_all add: add64_wrap)
  with assms False show ?thesis
    by (simp add: sub64_wrap)
qed

lemma add64_lt_imp_le: "a + b < U64_MOD \<Longrightarrow> a \<le> add64 a b"
  by simp

section \<open>Kernel error codes\<close>

text \<open>
  \<^verbatim>\<open>orbis_error.h\<close> declares the codes as \<^verbatim>\<open>int\<close>; \<open>0x80020016\<close> is the negative number below.
\<close>

definition orbis_code :: "int \<Rightarrow> s32" where
  "orbis_code n = 0x80020000 + n - 0x100000000"

text \<open>\<^verbatim>\<open>ORBIS_KERNEL_ERROR_UNKNOWN\<close>, the base of the kernel error codes.\<close>

definition ORBIS_KERNEL_ERROR_UNKNOWN :: s32 where
  "ORBIS_KERNEL_ERROR_UNKNOWN = orbis_code 0"

definition ORBIS_OK :: s32 where
  "ORBIS_OK = 0"

definition ORBIS_KERNEL_ERROR_ENOENT :: s32 where
  "ORBIS_KERNEL_ERROR_ENOENT = orbis_code 0x02"

definition ORBIS_KERNEL_ERROR_EBADF :: s32 where
  "ORBIS_KERNEL_ERROR_EBADF = orbis_code 0x09"

definition ORBIS_KERNEL_ERROR_ENOMEM :: s32 where
  "ORBIS_KERNEL_ERROR_ENOMEM = orbis_code 0x0C"

definition ORBIS_KERNEL_ERROR_EACCES :: s32 where
  "ORBIS_KERNEL_ERROR_EACCES = orbis_code 0x0D"

definition ORBIS_KERNEL_ERROR_EFAULT :: s32 where
  "ORBIS_KERNEL_ERROR_EFAULT = orbis_code 0x0E"

definition ORBIS_KERNEL_ERROR_EBUSY :: s32 where
  "ORBIS_KERNEL_ERROR_EBUSY = orbis_code 0x10"

definition ORBIS_KERNEL_ERROR_EINVAL :: s32 where
  "ORBIS_KERNEL_ERROR_EINVAL = orbis_code 0x16"

definition ORBIS_KERNEL_ERROR_EAGAIN :: s32 where
  "ORBIS_KERNEL_ERROR_EAGAIN = orbis_code 0x23"

definition ORBIS_KERNEL_ERROR_ENAMETOOLONG :: s32 where
  "ORBIS_KERNEL_ERROR_ENAMETOOLONG = orbis_code 0x3F"

definition ORBIS_KERNEL_ERROR_EPERM :: s32 where "ORBIS_KERNEL_ERROR_EPERM = orbis_code 0x01"
definition ORBIS_KERNEL_ERROR_ESRCH :: s32 where "ORBIS_KERNEL_ERROR_ESRCH = orbis_code 0x03"
definition ORBIS_KERNEL_ERROR_ETIMEDOUT :: s32 where "ORBIS_KERNEL_ERROR_ETIMEDOUT = orbis_code 0x3C"
definition ORBIS_KERNEL_ERROR_EOVERFLOW :: s32 where "ORBIS_KERNEL_ERROR_EOVERFLOW = orbis_code 0x54"
definition ORBIS_KERNEL_ERROR_ECANCELED :: s32 where "ORBIS_KERNEL_ERROR_ECANCELED = orbis_code 0x55"

text \<open>POSIX error numbers (\<^verbatim>\<open>posix_error.h\<close>) and their translation to kernel codes.\<close>

definition POSIX_EINVAL :: s32 where "POSIX_EINVAL = 22"
definition POSIX_EAGAIN :: s32 where "POSIX_EAGAIN = 35"
definition POSIX_ETIMEDOUT :: s32 where "POSIX_ETIMEDOUT = 60"
definition POSIX_EOVERFLOW :: s32 where "POSIX_EOVERFLOW = 84"

definition ErrnoToSceKernelError :: "s32 \<Rightarrow> s32" where
  "ErrnoToSceKernelError err = err + ORBIS_KERNEL_ERROR_UNKNOWN"

lemmas posix_error_defs =
  POSIX_EINVAL_def POSIX_EAGAIN_def POSIX_ETIMEDOUT_def POSIX_EOVERFLOW_def

lemmas orbis_code_defs [orbis_errors] =
  ORBIS_KERNEL_ERROR_EPERM_def ORBIS_KERNEL_ERROR_ESRCH_def ORBIS_KERNEL_ERROR_ETIMEDOUT_def
  ORBIS_KERNEL_ERROR_EOVERFLOW_def ORBIS_KERNEL_ERROR_ECANCELED_def
  orbis_code_def ORBIS_OK_def ORBIS_KERNEL_ERROR_UNKNOWN_def ORBIS_KERNEL_ERROR_ENOENT_def ORBIS_KERNEL_ERROR_EBADF_def
  ORBIS_KERNEL_ERROR_ENOMEM_def ORBIS_KERNEL_ERROR_EACCES_def ORBIS_KERNEL_ERROR_EFAULT_def
  ORBIS_KERNEL_ERROR_EBUSY_def ORBIS_KERNEL_ERROR_EINVAL_def ORBIS_KERNEL_ERROR_EAGAIN_def
  ORBIS_KERNEL_ERROR_ENAMETOOLONG_def

section \<open>Assertions in the option monad\<close>

definition assert_opt :: "bool \<Rightarrow> unit option" where
  "assert_opt b = (if b then Some () else None)"

lemma assert_opt_simps [simp]:
  "assert_opt True = Some ()" "assert_opt False = None"
  by (simp_all add: assert_opt_def)

lemma assert_opt_eq_Some [simp]: "assert_opt b = Some u \<longleftrightarrow> b"
  by (simp add: assert_opt_def)

lemma bind_assert_opt_eq_Some [simp]:
  "(assert_opt b \<bind> (\<lambda>_. f)) = Some x \<longleftrightarrow> b \<and> f = Some x"
  by (simp add: assert_opt_def)

section \<open>Host permissions\<close>

text \<open>The flags of \<open>Core::MemoryPermission\<close> (\<^verbatim>\<open>src/src/core/address_space.h\<close>).\<close>

definition MemoryPermission_Read :: flags32 where "MemoryPermission_Read = 1"
definition MemoryPermission_Write :: flags32 where "MemoryPermission_Write = 2"
definition MemoryPermission_ReadWrite :: flags32 where "MemoryPermission_ReadWrite = 3"
definition MemoryPermission_Execute :: flags32 where "MemoryPermission_Execute = 4"

lemmas MemoryPermission_defs [model_defs] =
  MemoryPermission_Read_def MemoryPermission_Write_def MemoryPermission_ReadWrite_def
  MemoryPermission_Execute_def

section \<open>Lists\<close>

lemma sorted_wrt_snoc_Cons:
  "sorted_wrt P (xs @ x # ys) \<longleftrightarrow>
     sorted_wrt P xs \<and> sorted_wrt P ys \<and> (\<forall>a\<in>set xs. P a x) \<and> (\<forall>b\<in>set ys. P x b)
     \<and> (\<forall>a\<in>set xs. \<forall>b\<in>set ys. P a b)"
  by (auto simp: sorted_wrt_append)

end
