(* ===== verification/Ordered_Map.thy ===== *)
theory Ordered_Map
  imports Prelude
begin

text \<open>
  \<^verbatim>\<open>std::map\<close> as the memory manager uses it: an association list in strictly increasing key order.

  An iterator is the key of the element it points to (elements of a \<^verbatim>\<open>std::map\<close> never change their
  key, and insertions and erasures of other elements leave an iterator valid); \<open>end()\<close> is \<open>None\<close>.
  \<open>om_floor m k\<close> is \<^verbatim>\<open>std::prev(m.upper_bound(k))\<close>, which has no meaning when \<^verbatim>\<open>upper_bound\<close> is
  \<^verbatim>\<open>begin()\<close>: the result is \<open>None\<close> then.  The locale \<open>ordered_map\<close> states what the clients rely on.
\<close>

type_synonym ('k, 'v) omap = "('k \<times> 'v) list"

section \<open>Operations\<close>

definition om_wf :: "('k::linorder, 'v) omap \<Rightarrow> bool" where
  "om_wf m \<longleftrightarrow> sorted_wrt (\<lambda>p q. fst p < fst q) m"

definition om_begin :: "('k, 'v) omap \<Rightarrow> 'k option" where
  "om_begin m = (case m of [] \<Rightarrow> None | p # _ \<Rightarrow> Some (fst p))"

fun om_floor :: "('k::linorder, 'v) omap \<Rightarrow> 'k \<Rightarrow> 'k option" where
  "om_floor [] k = None"
| "om_floor (p # m) k =
     (if k < fst p then None
      else case om_floor m k of None \<Rightarrow> Some (fst p) | Some b \<Rightarrow> Some b)"

fun om_next :: "('k::linorder, 'v) omap \<Rightarrow> 'k \<Rightarrow> 'k option" where
  "om_next [] k = None"
| "om_next (p # m) k = (if k < fst p then Some (fst p) else om_next m k)"

fun om_prev :: "('k::linorder, 'v) omap \<Rightarrow> 'k \<Rightarrow> 'k option" where
  "om_prev [] k = None"
| "om_prev (p # m) k =
     (if fst p < k
      then (case om_prev m k of None \<Rightarrow> Some (fst p) | Some b \<Rightarrow> Some b) else None)"

fun om_put :: "'k::linorder \<Rightarrow> 'v \<Rightarrow> ('k, 'v) omap \<Rightarrow> ('k, 'v) omap" where
  "om_put k v [] = [(k, v)]"
| "om_put k v (p # m) =
     (if k < fst p then (k, v) # p # m
      else if k = fst p then (k, v) # m
      else p # om_put k v m)"

fun om_erase :: "'k \<Rightarrow> ('k, 'v) omap \<Rightarrow> ('k, 'v) omap" where
  "om_erase k [] = []"
| "om_erase k (p # m) = (if k = fst p then m else p # om_erase k m)"

text \<open>\<^verbatim>\<open>emplace\<close> and \<^verbatim>\<open>emplace_hint\<close> leave the map alone when the key is present.\<close>

definition om_emplace :: "'k::linorder \<Rightarrow> 'v \<Rightarrow> ('k, 'v) omap \<Rightarrow> ('k, 'v) omap" where
  "om_emplace k v m = (if map_of m k = None then om_put k v m else m)"

text \<open>The elements an iterator runs over from key \<open>k\<close> up to \<open>end()\<close>.\<close>

definition om_from :: "('k::linorder, 'v) omap \<Rightarrow> 'k \<Rightarrow> ('k, 'v) omap" where
  "om_from m k = dropWhile (\<lambda>p. fst p < k) m"

section \<open>The interface\<close>

locale ordered_map =
  fixes wf :: "'m \<Rightarrow> bool"
    and lookup :: "'m \<Rightarrow> 'k::linorder \<Rightarrow> 'v option"
    and put :: "'k \<Rightarrow> 'v \<Rightarrow> 'm \<Rightarrow> 'm"
    and erase :: "'k \<Rightarrow> 'm \<Rightarrow> 'm"
    and flr :: "'m \<Rightarrow> 'k \<Rightarrow> 'k option"
    and nxt :: "'m \<Rightarrow> 'k \<Rightarrow> 'k option"
    and prv :: "'m \<Rightarrow> 'k \<Rightarrow> 'k option"
  assumes wf_put: "wf m \<Longrightarrow> wf (put k v m)"
    and wf_erase: "wf m \<Longrightarrow> wf (erase k m)"
    and lookup_put: "wf m \<Longrightarrow> lookup (put k v m) = (lookup m)(k \<mapsto> v)"
    and lookup_erase: "wf m \<Longrightarrow> lookup (erase k m) = (lookup m)(k := None)"
    and flr_Some: "wf m \<Longrightarrow> flr m k = Some a \<longleftrightarrow>
        a \<in> dom (lookup m) \<and> a \<le> k \<and> (\<forall>b\<in>dom (lookup m). b \<le> k \<longrightarrow> b \<le> a)"
    and flr_None: "wf m \<Longrightarrow> flr m k = None \<longleftrightarrow> (\<forall>b\<in>dom (lookup m). k < b)"
    and nxt_Some: "wf m \<Longrightarrow> nxt m k = Some b \<longleftrightarrow>
        b \<in> dom (lookup m) \<and> k < b \<and> (\<forall>c\<in>dom (lookup m). k < c \<longrightarrow> b \<le> c)"
    and nxt_None: "wf m \<Longrightarrow> nxt m k = None \<longleftrightarrow> (\<forall>b\<in>dom (lookup m). b \<le> k)"
    and prv_Some: "wf m \<Longrightarrow> prv m k = Some a \<longleftrightarrow>
        a \<in> dom (lookup m) \<and> a < k \<and> (\<forall>c\<in>dom (lookup m). c < k \<longrightarrow> c \<le> a)"
    and prv_None: "wf m \<Longrightarrow> prv m k = None \<longleftrightarrow> (\<forall>b\<in>dom (lookup m). k \<le> b)"
begin

lemma flr_key: "wf m \<Longrightarrow> k \<in> dom (lookup m) \<Longrightarrow> flr m k = Some k"
  by (simp add: flr_Some)

lemma prv_nxt: "wf m \<Longrightarrow> a \<in> dom (lookup m) \<Longrightarrow> nxt m a = Some b \<Longrightarrow> prv m b = Some a"
  by (auto simp: nxt_Some prv_Some) (meson domI leD leI)

lemma nxt_prv: "wf m \<Longrightarrow> b \<in> dom (lookup m) \<Longrightarrow> prv m b = Some a \<Longrightarrow> nxt m a = Some b"
  by (auto simp: nxt_Some prv_Some) (meson domI leD leI)

text \<open>A lookup by address between an element and its successor finds that element.\<close>

lemma flr_between:
  assumes "wf m" "a \<in> dom (lookup m)" "a \<le> k" "\<And>b. nxt m a = Some b \<Longrightarrow> k < b"
  shows "flr m k = Some a"
proof (cases "nxt m a")
  case None
  with assms show ?thesis by (auto simp: flr_Some nxt_None)
next
  case (Some b)
  then have b: "\<forall>c\<in>dom (lookup m). a < c \<longrightarrow> b \<le> c" and "k < b"
    using assms by (auto simp: nxt_Some)
  have "c \<le> a" if "c \<in> dom (lookup m)" "c \<le> k" for c
    using that b \<open>k < b\<close> by (meson leD leI order_trans)
  with assms show ?thesis by (auto simp: flr_Some)
qed

lemma nxt_put_next:
  assumes "wf m" "a < b" "\<And>c. nxt m a = Some c \<Longrightarrow> b < c"
  shows "nxt (put b v m) a = Some b"
proof -
  have "b \<le> c" if "c \<in> dom (lookup m)" "a < c" for c
  proof (cases "nxt m a")
    case None
    then have "c \<le> a"
      using assms(1) that by (simp add: nxt_None)
    with that show ?thesis by simp
  next
    case (Some d)
    with assms that show ?thesis
      by (metis nxt_Some order_less_le_trans less_imp_le)
  qed
  with assms show ?thesis
    by (auto simp: nxt_Some wf_put lookup_put)
qed

end

section \<open>The association list implements it\<close>

lemma om_wf_Nil [simp]: "om_wf []"
  by (simp add: om_wf_def)

lemma om_wf_Cons [simp]:
  "om_wf (p # m) \<longleftrightarrow> om_wf m \<and> (\<forall>q\<in>set m. fst p < fst q)"
  by (auto simp: om_wf_def)

lemma om_wf_append:
  "om_wf (xs @ ys) \<longleftrightarrow> om_wf xs \<and> om_wf ys \<and> (\<forall>p\<in>set xs. \<forall>q\<in>set ys. fst p < fst q)"
  by (auto simp: om_wf_def sorted_wrt_append)

lemma om_wf_distinct: "om_wf m \<Longrightarrow> distinct (map fst m)"
  by (induction m) auto

lemma om_put_keys: "fst ` set (om_put k v m) = insert k (fst ` set m)"
  by (induction m) auto

lemma om_erase_subset: "set (om_erase k m) \<subseteq> set m"
  by (induction m) auto

lemma om_wf_put: "om_wf m \<Longrightarrow> om_wf (om_put k v m)"
proof (induction m)
  case (Cons p m)
  have "fst p < fst q" if "q \<in> set (om_put k v m)" "fst p < k" for q
  proof -
    from that(1) have "fst q \<in> insert k (fst ` set m)"
      by (simp flip: om_put_keys [of k v m])
    with that(2) Cons.prems show ?thesis by auto
  qed
  with Cons show ?case by auto
qed simp

lemma om_wf_erase: "om_wf m \<Longrightarrow> om_wf (om_erase k m)"
  using om_erase_subset by (induction m) (fastforce)+

lemma map_of_om_put: "om_wf m \<Longrightarrow> map_of (om_put k v m) = (map_of m)(k \<mapsto> v)"
  by (induction m) (auto simp: fun_eq_iff)

lemma map_of_om_erase: "om_wf m \<Longrightarrow> map_of (om_erase k m) = (map_of m)(k := None)"
proof (induction m)
  case (Cons p m)
  have "map_of m (fst p) = None"
    using Cons.prems by (auto simp: map_of_eq_None_iff)
  with Cons show ?case by (auto simp: fun_eq_iff)
qed simp

lemma om_floor_None: "om_wf m \<Longrightarrow> om_floor m k = None \<longleftrightarrow> (\<forall>b\<in>fst ` set m. k < b)"
  by (cases m) (auto split: option.splits intro: less_trans)

lemma om_floor_SomeD: "om_wf m \<Longrightarrow> om_floor m k = Some a \<Longrightarrow>
    a \<in> fst ` set m \<and> a \<le> k \<and> (\<forall>b\<in>fst ` set m. b \<le> k \<longrightarrow> b \<le> a)"
proof (induction m)
  case (Cons p m)
  show ?case
  proof (cases "om_floor m k")
    case None
    with Cons.prems have "\<forall>b\<in>fst ` set m. k < b"
      by (simp add: om_floor_None)
    with None Cons.prems show ?thesis
      by (auto split: if_splits)
  next
    case (Some b)
    with Cons show ?thesis
      by (auto split: if_splits simp: less_imp_le)
  qed
qed simp

lemma om_next_None: "om_wf m \<Longrightarrow> om_next m k = None \<longleftrightarrow> (\<forall>b\<in>fst ` set m. b \<le> k)"
  by (induction m) (auto simp: not_less)

lemma om_next_SomeD: "om_wf m \<Longrightarrow> om_next m k = Some b \<Longrightarrow>
    b \<in> fst ` set m \<and> k < b \<and> (\<forall>c\<in>fst ` set m. k < c \<longrightarrow> b \<le> c)"
  by (induction m) (auto split: if_splits simp: less_imp_le)

lemma om_prev_None: "om_wf m \<Longrightarrow> om_prev m k = None \<longleftrightarrow> (\<forall>b\<in>fst ` set m. k \<le> b)"
  by (cases m) (auto split: option.splits intro: less_imp_le le_less_trans)

lemma om_prev_SomeD: "om_wf m \<Longrightarrow> om_prev m k = Some a \<Longrightarrow>
    a \<in> fst ` set m \<and> a < k \<and> (\<forall>c\<in>fst ` set m. c < k \<longrightarrow> c \<le> a)"
proof (induction m)
  case (Cons p m)
  show ?case
  proof (cases "om_prev m k")
    case None
    with Cons.prems have "\<forall>b\<in>fst ` set m. k \<le> b"
      by (simp add: om_prev_None)
    with None Cons.prems show ?thesis
      by (auto split: if_splits)
  next
    case (Some b)
    with Cons show ?thesis
      by (auto split: if_splits simp: less_imp_le)
  qed
qed simp

interpretation om: ordered_map om_wf map_of om_put om_erase om_floor om_next om_prev
proof (unfold_locales, goal_cases)
  case (5 m k a)
  then show ?case
    by (metis (no_types, lifting) antisym dom_map_of_conv_image_fst not_None_eq om_floor_None
        om_floor_SomeD leD)
next
  case (7 m k b)
  then show ?case
    by (metis (no_types, lifting) antisym dom_map_of_conv_image_fst not_None_eq om_next_None
        om_next_SomeD leD)
next
  case (9 m k a)
  then show ?case
    by (metis (no_types, lifting) antisym dom_map_of_conv_image_fst not_None_eq om_prev_None
        om_prev_SomeD leD)
qed (auto simp: om_wf_put om_wf_erase map_of_om_put map_of_om_erase om_floor_None om_next_None
      om_prev_None dom_map_of_conv_image_fst)

section \<open>Operations at a position\<close>

text \<open>
  Most operations act on one element and its neighbours.  With the map written as
  \<open>xs @ (k, v) # ys\<close> each of them is a local list operation.
\<close>

named_theorems om_at "effect of the map operations at a position"

lemma om_wf_mid:
  "om_wf (xs @ (k, v) # ys) \<longleftrightarrow>
     om_wf xs \<and> om_wf ys \<and> (\<forall>p\<in>set xs. fst p < k) \<and> (\<forall>q\<in>set ys. k < fst q)
     \<and> (\<forall>p\<in>set xs. \<forall>q\<in>set ys. fst p < fst q)"
  by (auto simp: om_wf_append)

lemma om_position:
  assumes "map_of m k = Some v"
  obtains xs ys where "m = xs @ (k, v) # ys"
  using assms by (meson map_of_SomeD split_list)

lemma map_of_at [om_at]:
  assumes "om_wf (xs @ (k, v) # ys)"
  shows "map_of (xs @ (k, v) # ys) k = Some v"
proof -
  have "map_of xs k = None"
    using assms by (auto simp: om_wf_mid map_of_eq_None_iff)
  then show ?thesis by (simp add: map_add_def)
qed

declare map_of_append [simp del]

lemma om_put_at [om_at]:
  "om_wf (xs @ (k, v) # ys) \<Longrightarrow> om_put k w (xs @ (k, v) # ys) = xs @ (k, w) # ys"
  by (induction xs) auto

lemma om_put_after [om_at]:
  assumes "om_wf (xs @ (k, v) # ys)" "k < j" "\<forall>q\<in>set ys. j < fst q"
  shows "om_put j w (xs @ (k, v) # ys) = xs @ (k, v) # (j, w) # ys"
  using assms by (induction xs) (auto, cases ys, auto)

lemma om_put_snoc [om_at]:
  "om_wf xs \<Longrightarrow> \<forall>p\<in>set xs. fst p < k \<Longrightarrow> om_put k w xs = xs @ [(k, w)]"
  by (induction xs) auto

lemma om_emplace_after [om_at]:
  assumes "om_wf (xs @ (k, v) # ys)" "k < j" "\<forall>q\<in>set ys. j < fst q"
  shows "om_emplace j w (xs @ (k, v) # ys) = xs @ (k, v) # (j, w) # ys"
proof -
  have "map_of (xs @ (k, v) # ys) j = None"
    using assms by (fastforce simp: map_of_eq_None_iff om_wf_mid)
  then show ?thesis
    using om_put_after [OF assms] by (simp add: om_emplace_def)
qed

lemma om_erase_at [om_at]:
  "om_wf (xs @ (k, v) # ys) \<Longrightarrow> om_erase k (xs @ (k, v) # ys) = xs @ ys"
  by (induction xs) auto

lemma om_next_at [om_at]:
  "om_wf (xs @ (k, v) # ys) \<Longrightarrow> om_next (xs @ (k, v) # ys) k = om_begin ys"
proof (induction xs)
  case Nil
  then show ?case by (cases ys) (auto simp: om_begin_def)
next
  case (Cons p xs)
  then show ?case by (auto simp: less_not_sym)
qed

lemma om_prev_below: "\<forall>q\<in>set ys. k \<le> fst q \<Longrightarrow> om_prev ys k = None"
  by (cases ys) auto

lemma om_prev_at [om_at]:
  "om_wf (xs @ (k, v) # ys) \<Longrightarrow>
     om_prev (xs @ (k, v) # ys) k = (if xs = [] then None else Some (fst (last xs)))"
  by (induction xs) auto

lemma om_floor_at [om_at]:
  assumes "om_wf (xs @ (k, v) # ys)" "k \<le> a" "\<forall>q\<in>set ys. a < fst q"
  shows "om_floor (xs @ (k, v) # ys) a = Some k"
proof -
  have "map_of (xs @ (k, v) # ys) k = Some v"
    using assms(1) by (rule map_of_at)
  moreover have "a < b" if "om_next (xs @ (k, v) # ys) k = Some b" for b
    using that assms(1,3) by (cases ys) (auto simp: om_next_at om_begin_def)
  ultimately show ?thesis
    using assms(1,2) by (intro om.flr_between) auto
qed

lemma om_from_at [om_at]:
  "om_wf (xs @ (k, v) # ys) \<Longrightarrow> om_from (xs @ (k, v) # ys) k = (k, v) # ys"
  by (induction xs) (auto simp: om_from_def)

lemma om_floor_SomeE:
  assumes "om_wf m" "om_floor m a = Some k"
  obtains xs v ys where "m = xs @ (k, v) # ys" "k \<le> a" "\<forall>q\<in>set ys. a < fst q"
proof -
  from assms obtain v where v: "map_of m k = Some v" "k \<le> a"
    and mx: "\<forall>b\<in>dom (map_of m). b \<le> a \<longrightarrow> b \<le> k"
    by (auto simp: om.flr_Some)
  from v(1) obtain xs ys where m: "m = xs @ (k, v) # ys"
    by (rule om_position)
  have "a < fst q" if q: "q \<in> set ys" for q
  proof (rule ccontr)
    assume "\<not> a < fst q"
    moreover have "fst q \<in> dom (map_of m)"
      unfolding m dom_map_of_conv_image_fst using q by auto
    ultimately have "fst q \<le> k"
      using mx by auto
    moreover have "k < fst q"
      using q m assms(1) by (auto simp: om_wf_mid)
    ultimately show False by simp
  qed
  with m v(2) that show thesis by blast
qed

end
