(* ===== verification/Interval_Map.thy ===== *)
theory Interval_Map
  imports Ordered_Map
begin

text \<open>
  Ordered maps whose elements are intervals: the element stored at key \<open>k\<close> covers the addresses
  \<open>k, \<dots>, k + len v - 1\<close>.  The memory manager keeps four such maps (virtual areas, direct memory,
  flexible memory, the physical areas of one virtual area) and changes all of them by splitting
  an element in two and by merging neighbours.

  The theory gives the abstract content of such a map (\<open>iview\<close>: what is stored at one address)
  and two locales.  \<open>merging\<close> is what a pair of \<^verbatim>\<open>CanMergeWith\<close> and merge step has to satisfy,
  \<open>carving\<close> adds the splitting step; their lemmas say that the loops built from them never change
  the content.
\<close>

section \<open>Intervals and their content\<close>

definition ivl_disj :: "('v \<Rightarrow> nat) \<Rightarrow> (nat, 'v) omap \<Rightarrow> bool" where
  "ivl_disj len m \<longleftrightarrow> sorted_wrt (\<lambda>p q. fst p + len (snd p) \<le> fst q) m"

definition ivl_wf :: "('v \<Rightarrow> nat) \<Rightarrow> (nat \<Rightarrow> 'v \<Rightarrow> bool) \<Rightarrow> (nat, 'v) omap \<Rightarrow> bool" where
  "ivl_wf len ok m \<longleftrightarrow> ivl_disj len m \<and> (\<forall>p\<in>set m. ok (fst p) (snd p) \<and> 0 < len (snd p))"

fun ivl_contig :: "('v \<Rightarrow> nat) \<Rightarrow> (nat, 'v) omap \<Rightarrow> nat \<Rightarrow> nat \<Rightarrow> bool" where
  "ivl_contig len [] lo hi \<longleftrightarrow> lo = hi"
| "ivl_contig len (p # m) lo hi \<longleftrightarrow> fst p = lo \<and> ivl_contig len m (lo + len (snd p)) hi"

fun iview :: "('v \<Rightarrow> nat) \<Rightarrow> ('v \<Rightarrow> nat \<Rightarrow> 'c) \<Rightarrow> (nat, 'v) omap \<Rightarrow> nat \<Rightarrow> 'c option" where
  "iview len content [] a = None"
| "iview len content (p # m) a =
     (if fst p \<le> a \<and> a < fst p + len (snd p) then Some (content (snd p) (a - fst p))
      else iview len content m a)"

text \<open>Some element covers the whole range of \<open>t\<close> addresses from \<open>b\<close>.\<close>

definition within :: "('v \<Rightarrow> nat) \<Rightarrow> (nat, 'v) omap \<Rightarrow> nat \<Rightarrow> nat \<Rightarrow> bool" where
  "within len m b t \<longleftrightarrow> (\<exists>p\<in>set m. fst p \<le> b \<and> b + t \<le> fst p + len (snd p))"

lemma ivl_wf_simps [simp]:
  "ivl_wf len ok []"
  "ivl_wf len ok (p # m) \<longleftrightarrow>
     ok (fst p) (snd p) \<and> 0 < len (snd p) \<and> (\<forall>q\<in>set m. fst p + len (snd p) \<le> fst q)
     \<and> ivl_wf len ok m"
  by (auto simp: ivl_wf_def ivl_disj_def)

lemma ivl_wf_append:
  "ivl_wf len ok (xs @ ys) \<longleftrightarrow>
     ivl_wf len ok xs \<and> ivl_wf len ok ys
     \<and> (\<forall>p\<in>set xs. \<forall>q\<in>set ys. fst p + len (snd p) \<le> fst q)"
  by (auto simp: ivl_wf_def ivl_disj_def sorted_wrt_append)

lemma ivl_wf_om_wf: "ivl_wf len ok m \<Longrightarrow> om_wf m"
  by (induction m) fastforce+

lemma ivl_wf_ok: "ivl_wf len ok m \<Longrightarrow> (k, v) \<in> set m \<Longrightarrow> ok k v \<and> 0 < len v"
  by (force simp: ivl_wf_def)

lemma ivl_wf_lookup: "ivl_wf len ok m \<Longrightarrow> (k, v) \<in> set m \<Longrightarrow> map_of m k = Some v"
  by (intro map_of_is_SomeI om_wf_distinct ivl_wf_om_wf)

lemma iview_append:
  "iview len c (xs @ ys) a = (case iview len c xs a of None \<Rightarrow> iview len c ys a | Some x \<Rightarrow> Some x)"
  by (induction xs) auto

lemma iview_NoneI: "(\<And>p. p \<in> set m \<Longrightarrow> a < fst p \<or> fst p + len (snd p) \<le> a) \<Longrightarrow> iview len c m a = None"
  by (induction m) force+

lemma iview_below: "ivl_wf len ok (p # m) \<Longrightarrow> a < fst p + len (snd p) \<Longrightarrow> iview len c m a = None"
  by (rule iview_NoneI) fastforce

lemma iview_mid:
  assumes "ivl_wf len ok (xs @ (k, v) # ys)" "k \<le> a" "a < k + len v"
  shows "iview len c (xs @ (k, v) # ys) a = Some (c v (a - k))"
proof -
  have "iview len c xs a = None"
    using assms by (intro iview_NoneI) (fastforce simp: ivl_wf_append)
  with assms show ?thesis by (simp add: iview_append)
qed

lemma iview_mem:
  assumes "ivl_wf len ok m" "(k, v) \<in> set m" "k \<le> a" "a < k + len v"
  shows "iview len c m a = Some (c v (a - k))"
  using assms iview_mid by (metis split_list)

lemma iview_SomeD:
  "iview len c m a = Some x \<Longrightarrow>
     \<exists>k v. (k, v) \<in> set m \<and> k \<le> a \<and> a < k + len v \<and> x = c v (a - k)"
proof (induction m)
  case (Cons p m)
  show ?case
  proof (cases "fst p \<le> a \<and> a < fst p + len (snd p)")
    case True
    with Cons.prems show ?thesis
      by (intro exI [of _ "fst p"] exI [of _ "snd p"]) auto
  next
    case False
    with Cons show ?thesis by auto
  qed
qed simp

lemma iview_SomeE:
  assumes "iview len c m a = Some x"
  obtains k v where "(k, v) \<in> set m" "k \<le> a" "a < k + len v" "x = c v (a - k)"
  using iview_SomeD [OF assms] by blast

text \<open>\<^verbatim>\<open>std::prev(upper_bound(a))\<close> finds the interval that covers \<open>a\<close>.\<close>

lemma om_floor_ivl:
  assumes "ivl_wf len ok m" "(k, v) \<in> set m" "k \<le> a" "a < k + len v"
  shows "om_floor m a = Some k"
proof -
  obtain xs ys where m: "m = xs @ (k, v) # ys"
    using assms(2) by (meson split_list)
  have "a < fst q" if "q \<in> set ys" for q
    using that assms(1,4) by (fastforce simp: m ivl_wf_append)
  with assms show ?thesis
    unfolding m by (intro om_floor_at) (auto dest: ivl_wf_om_wf)
qed

text \<open>The lookup by address and the iteration from there.\<close>

lemma iview_floorE:
  assumes wf: "ivl_wf len ok m" and x: "iview len c m x \<noteq> None"
  obtains xs k v ys where "m = xs @ (k, v) # ys" "k \<le> x" "x < k + len v"
    "om_floor m x = Some k" "map_of m k = Some v" "om_from m k = (k, v) # ys" "ok k v"
proof -
  obtain y where "iview len c m x = Some y" using x by auto
  then obtain k v where kv: "(k, v) \<in> set m" "k \<le> x" "x < k + len v"
    by (rule iview_SomeE)
  obtain xs ys where m: "m = xs @ (k, v) # ys"
    using kv(1) by (meson split_list)
  have "om_from m k = (k, v) # ys"
    using om_from_at [OF ivl_wf_om_wf [OF wf [unfolded m]]] by (simp only: m)
  moreover have "ok k v" using ivl_wf_ok [OF wf kv(1)] by simp
  ultimately show thesis
    using that [OF m kv(2,3) om_floor_ivl [OF wf kv] ivl_wf_lookup [OF wf kv(1)]] by blast
qed

section \<open>Covered ranges\<close>

text \<open>Every address of the range lies in some interval.\<close>

definition covers :: "('v \<Rightarrow> nat) \<Rightarrow> (nat, 'v) omap \<Rightarrow> nat \<Rightarrow> nat \<Rightarrow> bool" where
  "covers len m a s \<longleftrightarrow> (\<forall>x. a \<le> x \<and> x < a + s \<longrightarrow> iview len (\<lambda>_ _. ()) m x \<noteq> None)"

lemma iview_dom: "iview len c m x = None \<longleftrightarrow> iview len d m x = None"
  by (induction m) auto

lemma covers_iff: "covers len m a s \<longleftrightarrow> (\<forall>x. a \<le> x \<and> x < a + s \<longrightarrow> iview len c m x \<noteq> None)"
  using iview_dom [of len c m _ "\<lambda>_ _. ()"] by (simp add: covers_def)

lemma coversD: "covers len m a s \<Longrightarrow> a \<le> x \<Longrightarrow> x < a + s \<Longrightarrow> iview len c m x \<noteq> None"
  using iview_dom [of len c m x "\<lambda>_ _. ()"] by (simp add: covers_def)

lemma covers_Cons:
  assumes wf: "ivl_wf len ok ((k, v) # m)" and a: "k \<le> a" "a < k + len v" and s: "0 < s"
  shows "covers len ((k, v) # m) a s \<longleftrightarrow>
     a + s \<le> k + len v \<or> (\<exists>k' v' r. m = (k', v') # r \<and> k' = k + len v \<and> covers len m k' (a + s - k'))"
proof (cases "a + s \<le> k + len v")
  case True
  then show ?thesis using a by (auto simp: covers_def)
next
  case False
  have iff: "covers len ((k, v) # m) a s \<longleftrightarrow> covers len m (k + len v) (a + s - (k + len v))"
    using False a by (auto simp: covers_def)
  have ex: "covers len m (k + len v) t \<longrightarrow> (\<exists>k' v' r. m = (k', v') # r \<and> k' = k + len v)" if "0 < t" for t
  proof
    assume "covers len m (k + len v) t"
    then have "iview len (\<lambda>_ _. ()) m (k + len v) \<noteq> None"
      using that by (auto simp: covers_def)
    then obtain y where "iview len (\<lambda>_ _. ()) m (k + len v) = Some y" by auto
    then obtain k1 v1 where 1: "(k1, v1) \<in> set m" "k1 \<le> k + len v"
      by (rule iview_SomeE)
    then obtain k' v' r where m: "m = (k', v') # r"
      by (cases m) auto
    then have "k' \<le> k1" "k + len v \<le> k'"
      using wf 1(1) by force+
    with 1 m show "\<exists>k' v' r. m = (k', v') # r \<and> k' = k + len v" by auto
  qed
  from False ex [of "a + s - (k + len v)"] show ?thesis
    unfolding iff by auto
qed

section \<open>Contiguous maps\<close>

lemma ivl_contig_append:
  "ivl_contig len (xs @ ys) lo hi \<longleftrightarrow> (\<exists>mid. ivl_contig len xs lo mid \<and> ivl_contig len ys mid hi)"
  by (induction xs arbitrary: lo) auto

lemma ivl_contig_le: "ivl_contig len m lo hi \<Longrightarrow> lo \<le> hi"
  by (induction m arbitrary: lo) fastforce+

lemma ivl_contig_bounds:
  "ivl_contig len m lo hi \<Longrightarrow> p \<in> set m \<Longrightarrow> lo \<le> fst p \<and> fst p + len (snd p) \<le> hi"
  by (induction m arbitrary: lo) (auto dest: ivl_contig_le, fastforce)

lemma ivl_contig_wf:
  assumes "ivl_contig len m lo hi" "\<And>p. p \<in> set m \<Longrightarrow> ok (fst p) (snd p) \<and> 0 < len (snd p)"
  shows "ivl_wf len ok m"
  using assms
proof (induction m arbitrary: lo)
  case (Cons p m)
  then show ?case
    by (auto dest: ivl_contig_bounds)
qed simp

lemma ivl_contig_view:
  assumes "ivl_contig len m lo hi"
  shows "iview len c m a \<noteq> None \<longleftrightarrow> lo \<le> a \<and> a < hi"
  using assms
proof (induction m arbitrary: lo)
  case Nil
  then show ?case by simp
next
  case (Cons p m)
  from Cons.prems have "fst p = lo" and m: "ivl_contig len m (lo + len (snd p)) hi"
    by auto
  moreover have "lo + len (snd p) \<le> hi"
    using m by (rule ivl_contig_le)
  ultimately show ?case
    using Cons.IH [OF m] by auto
qed

lemma ivl_contig_cover:
  assumes "ivl_contig len m lo hi" "lo \<le> a" "a < hi"
  obtains k v where "(k, v) \<in> set m" "k \<le> a" "a < k + len v"
proof -
  have "iview len (\<lambda>_ _. ()) m a \<noteq> None"
    using assms ivl_contig_view [OF assms(1), of "\<lambda>_ _. ()" a] by blast
  then obtain x where "iview len (\<lambda>_ _. ()) m a = Some x" by auto
  then show thesis
    by (rule iview_SomeE) (rule that)
qed

section \<open>Moving intervals\<close>

definition shift_down :: "nat \<Rightarrow> (nat, 'v) omap \<Rightarrow> (nat, 'v) omap" where
  "shift_down d m = map (\<lambda>p. (fst p - d, snd p)) m"

definition shift_up :: "nat \<Rightarrow> (nat, 'v) omap \<Rightarrow> (nat, 'v) omap" where
  "shift_up d m = map (\<lambda>p. (d + fst p, snd p)) m"

lemma iview_shift_down:
  "\<forall>p\<in>set m. d \<le> fst p \<Longrightarrow> iview len c (shift_down d m) i = iview len c m (d + i)"
  by (induction m) (auto simp: shift_down_def diff_diff_left add.commute)

lemma iview_shift_up:
  "iview len c (shift_up d m) i = (if d \<le> i then iview len c m (i - d) else None)"
proof (cases "d \<le> i")
  case True
  then obtain j where "i = d + j" using le_Suc_ex by blast
  then show ?thesis by (induction m) (auto simp: shift_up_def)
next
  case False
  then show ?thesis by (auto simp: shift_up_def intro!: iview_NoneI)
qed

lemma ivl_contig_shift_down:
  "ivl_contig len m lo hi \<Longrightarrow> d \<le> lo \<Longrightarrow> ivl_contig len (shift_down d m) (lo - d) (hi - d)"
  by (induction m arbitrary: lo) (auto simp: shift_down_def)

lemma ivl_contig_shift_up:
  "ivl_contig len m lo hi \<Longrightarrow> ivl_contig len (shift_up d m) (d + lo) (d + hi)"
  by (induction m arbitrary: lo) (auto simp: shift_up_def add.assoc)

lemma ivl_contig_om_wf:
  assumes "ivl_contig len m lo hi" "\<And>p. p \<in> set m \<Longrightarrow> 0 < len (snd p)"
  shows "om_wf m" and "\<forall>p\<in>set m. fst p < hi"
proof -
  show "om_wf m"
    using ivl_contig_wf [of len m lo hi "\<lambda>_ _. True"] assms by (auto intro: ivl_wf_om_wf)
  show "\<forall>p\<in>set m. fst p < hi"
    using assms ivl_contig_bounds by fastforce
qed

section \<open>Merging and splitting\<close>

definition ivl_split ::
  "('v \<Rightarrow> nat) \<Rightarrow> ('v \<Rightarrow> nat \<Rightarrow> 'v \<times> 'v) \<Rightarrow> (nat, 'v) omap \<Rightarrow> nat \<Rightarrow> nat
     \<Rightarrow> ((nat, 'v) omap \<times> nat) option" where
  "ivl_split len parts m k off = do {
     v \<leftarrow> map_of m k;
     assert_opt (off < len v \<and> 0 < off);
     Some (om_emplace (k + off) (snd (parts v off)) (om_put k (fst (parts v off)) m), k + off)
   }"

definition ivl_carve ::
  "('v \<Rightarrow> nat) \<Rightarrow> ('v \<Rightarrow> nat \<Rightarrow> 'v \<times> 'v) \<Rightarrow> (nat, 'v) omap \<Rightarrow> nat \<Rightarrow> nat
     \<Rightarrow> ((nat, 'v) omap \<times> nat) option" where
  "ivl_carve len parts m a s = do {
     k \<leftarrow> om_floor m a;
     v \<leftarrow> map_of m k;
     assert_opt (a - k + s \<le> len v);
     m1 \<leftarrow> (if a - k + s \<noteq> len v then map_option fst (ivl_split len parts m k (a - k + s)) else Some m);
     (if a - k \<noteq> 0 then ivl_split len parts m1 k (a - k) else Some (m1, k))
   }"

definition ivl_merge ::
  "('v \<Rightarrow> 'v \<Rightarrow> bool option) \<Rightarrow> ('v \<Rightarrow> 'v \<Rightarrow> 'v) \<Rightarrow> (nat, 'v) omap \<Rightarrow> nat
     \<Rightarrow> ((nat, 'v) omap \<times> nat) option" where
  "ivl_merge can join m k = do {
     v \<leftarrow> map_of m k;
     m1 \<leftarrow> (case om_next m k of
        None \<Rightarrow> Some m
      | Some k' \<Rightarrow> do {
          v' \<leftarrow> map_of m k';
          b \<leftarrow> can v v';
          Some (if b then om_erase k' (om_put k (join v v') m) else m) });
     v1 \<leftarrow> map_of m1 k;
     (case om_prev m1 k of
        None \<Rightarrow> Some (m1, k)
      | Some p \<Rightarrow> do {
          vp \<leftarrow> map_of m1 p;
          b \<leftarrow> can vp v1;
          Some (if b then (om_erase k (om_put p (join vp v1) m1), p) else (m1, k)) })
   }"

locale merging =
  fixes len :: "'v \<Rightarrow> nat"
    and ok :: "nat \<Rightarrow> 'v \<Rightarrow> bool"
    and content :: "'v \<Rightarrow> nat \<Rightarrow> 'c"
    and can :: "'v \<Rightarrow> 'v \<Rightarrow> bool option"
    and join :: "'v \<Rightarrow> 'v \<Rightarrow> 'v"
  assumes can_total: "ok k v \<Longrightarrow> ok k' v' \<Longrightarrow> \<exists>b. can v v' = Some b"
    and join_len: "ok k v \<Longrightarrow> ok (k + len v) v' \<Longrightarrow> can v v' = Some True \<Longrightarrow>
       len (join v v') = len v + len v'"
    and join_ok: "ok k v \<Longrightarrow> ok (k + len v) v' \<Longrightarrow> can v v' = Some True \<Longrightarrow> ok k (join v v')"
    and join_content: "ok k v \<Longrightarrow> ok (k + len v) v' \<Longrightarrow> can v v' = Some True \<Longrightarrow>
       off < len v + len v' \<Longrightarrow>
       content (join v v') off = (if off < len v then content v off else content v' (off - len v))"
begin

text \<open>Merging is only tried on neighbours that touch: by the check itself or by contiguity.\<close>

definition touching :: "(nat, 'v) omap \<Rightarrow> bool" where
  "touching m \<longleftrightarrow>
     (\<forall>k v k' v'. ok k v \<longrightarrow> ok k' v' \<longrightarrow> can v v' = Some True \<longrightarrow> k' = k + len v)
     \<or> (\<exists>lo hi. ivl_contig len m lo hi)"

lemma touchingD:
  assumes "touching (xs @ (k, v) # (k', v') # ys)" "ok k v" "ok k' v'" "can v v' = Some True"
  shows "k' = k + len v"
  using assms by (auto simp: touching_def ivl_contig_append)

lemma join_mid:
  assumes wf: "ivl_wf len ok (xs @ (k, v) # (k', v') # ys)"
    and can: "can v v' = Some True" and adj: "k' = k + len v"
  shows "ivl_wf len ok (xs @ (k, join v v') # ys)"
    and "iview len content (xs @ (k, join v v') # ys) = iview len content (xs @ (k, v) # (k', v') # ys)"
    and "ivl_contig len (xs @ (k, v) # (k', v') # ys) lo hi \<Longrightarrow>
         ivl_contig len (xs @ (k, join v v') # ys) lo hi"
proof -
  have oks: "ok k v" "ok (k + len v) v'"
    using wf adj by (auto simp: ivl_wf_append)
  note jl = join_len [OF oks can] and jok = join_ok [OF oks can]
  show "ivl_wf len ok (xs @ (k, join v v') # ys)"
    using wf jl jok adj by (auto simp: ivl_wf_append)
  show "iview len content (xs @ (k, join v v') # ys) = iview len content (xs @ (k, v) # (k', v') # ys)"
  proof
    fix a
    have "iview len content ((k, join v v') # ys) a = iview len content ((k, v) # (k', v') # ys) a"
      using join_content [OF oks can, of "a - k"] adj jl by auto
    then show "iview len content (xs @ (k, join v v') # ys) a
        = iview len content (xs @ (k, v) # (k', v') # ys) a"
      by (simp only: iview_append)
  qed
  show "ivl_contig len (xs @ (k, join v v') # ys) lo hi"
    if "ivl_contig len (xs @ (k, v) # (k', v') # ys) lo hi"
    using that jl by (auto simp: ivl_contig_append add.assoc)
qed

text \<open>What merging may do to a map: everything a client can observe by address stays.\<close>

definition same_map :: "(nat, 'v) omap \<Rightarrow> (nat, 'v) omap \<Rightarrow> bool" where
  "same_map m m' \<longleftrightarrow>
     ivl_wf len ok m' \<and> iview len content m' = iview len content m
     \<and> (\<forall>lo hi. ivl_contig len m lo hi \<longrightarrow> ivl_contig len m' lo hi)"

lemma same_map_refl: "ivl_wf len ok m \<Longrightarrow> same_map m m"
  by (simp add: same_map_def)

lemma same_map_trans: "same_map m m1 \<Longrightarrow> same_map m1 m2 \<Longrightarrow> same_map m m2"
  by (simp add: same_map_def)

text \<open>Merging only makes elements longer.\<close>

definition coarsens :: "(nat, 'v) omap \<Rightarrow> (nat, 'v) omap \<Rightarrow> bool" where
  "coarsens m m' \<longleftrightarrow> same_map m m' \<and> (\<forall>b t. within len m b t \<longrightarrow> within len m' b t)"

lemma coarsens_same: "coarsens m m' \<Longrightarrow> same_map m m'"
  by (simp add: coarsens_def)

lemma coarsens_refl: "ivl_wf len ok m \<Longrightarrow> coarsens m m"
  by (simp add: coarsens_def same_map_refl)

lemma coarsens_trans: "coarsens m m1 \<Longrightarrow> coarsens m1 m2 \<Longrightarrow> coarsens m m2"
  unfolding coarsens_def using same_map_trans by blast

lemma coarsens_join:
  assumes "ivl_wf len ok (xs @ (k, v) # (k', v') # ys)" "touching (xs @ (k, v) # (k', v') # ys)"
    and "can v v' = Some True"
  shows "coarsens (xs @ (k, v) # (k', v') # ys) (xs @ (k, join v v') # ys)"
proof -
  have oks: "ok k v" "ok k' v'"
    using assms(1) by (auto simp: ivl_wf_append)
  then have adj: "k' = k + len v"
    using touchingD [OF assms(2)] assms(3) by blast
  have "same_map (xs @ (k, v) # (k', v') # ys) (xs @ (k, join v v') # ys)"
    using join_mid [OF assms(1,3) adj] by (simp add: same_map_def)
  moreover have "within len (xs @ (k, join v v') # ys) b t"
    if "within len (xs @ (k, v) # (k', v') # ys) b t" for b t
    using that join_len [OF oks(1) _ assms(3)] oks(2) adj by (fastforce simp: within_def)
  ultimately show ?thesis
    by (simp add: coarsens_def)
qed

lemma touching_same: "touching m \<Longrightarrow> same_map m m' \<Longrightarrow> touching m'"
  by (auto simp: touching_def same_map_def)

lemma merge_next:
  assumes wf: "ivl_wf len ok (xs @ (k, v) # ys)" and t: "touching (xs @ (k, v) # ys)"
  obtains v1 ys1 where
    "(case om_next (xs @ (k, v) # ys) k of
        None \<Rightarrow> Some (xs @ (k, v) # ys)
      | Some k' \<Rightarrow> do {
          v' \<leftarrow> map_of (xs @ (k, v) # ys) k';
          b \<leftarrow> can v v';
          Some (if b then om_erase k' (om_put k (join v v') (xs @ (k, v) # ys))
                else xs @ (k, v) # ys) })
     = Some (xs @ (k, v1) # ys1)"
    and "coarsens (xs @ (k, v) # ys) (xs @ (k, v1) # ys1)" and "len v \<le> len v1"
proof (cases ys)
  case Nil
  with wf show thesis
    by (intro that [of v "[]"]) (auto simp: om_next_at om_begin_def coarsens_refl dest: ivl_wf_om_wf)
next
  case (Cons q ys')
  obtain k' v' where q: "q = (k', v')" by (cases q)
  let ?m = "xs @ (k, v) # (k', v') # ys'"
  have wf': "ivl_wf len ok ?m" and om: "om_wf ?m"
    using wf Cons q ivl_wf_om_wf by auto
  have oks: "ok k v" "ok k' v'"
    using wf' by (auto simp: ivl_wf_append)
  have nx: "om_next ?m k = Some k'"
    using om by (simp add: om_next_at om_begin_def)
  have look: "map_of ?m k' = Some v'"
    using om map_of_at [of "xs @ [(k, v)]" k' v' ys'] by simp
  obtain b where b: "can v v' = Some b"
    using can_total [OF oks] by auto
  show thesis
  proof (cases b)
    case False
    then show thesis
      using nx look b Cons q wf by (intro that [of v ys]) (simp_all add: coarsens_refl)
  next
    case True
    let ?m1 = "xs @ (k, join v v') # ys'"
    have sm: "coarsens ?m ?m1"
      using wf' t b True Cons q by (intro coarsens_join) auto
    have "om_wf ((xs @ [(k, join v v')]) @ (k', v') # ys')"
      using om by (simp add: om_wf_append)
    then have er: "om_erase k' (xs @ (k, join v v') # (k', v') # ys') = ?m1"
      using om_erase_at [of "xs @ [(k, join v v')]" k' v' ys'] by simp
    have "ok (k + len v) v'"
      using touchingD [of xs k v k' v' ys'] t oks b True Cons q by auto
    then have "len (join v v') = len v + len v'"
      using join_len [of k v v'] oks b True by simp
    then show thesis
      using nx look b True er sm om Cons q
      by (intro that [of "join v v'" ys']) (simp_all add: om_put_at)
  qed
qed

lemma merge_prev:
  assumes wf: "ivl_wf len ok (xs @ (k, v) # ys)" and t: "touching (xs @ (k, v) # ys)"
  obtains m' k' v' where
    "(case om_prev (xs @ (k, v) # ys) k of
        None \<Rightarrow> Some (xs @ (k, v) # ys, k)
      | Some p \<Rightarrow> do {
          vp \<leftarrow> map_of (xs @ (k, v) # ys) p;
          b \<leftarrow> can vp v;
          Some (if b then (om_erase k (om_put p (join vp v) (xs @ (k, v) # ys)), p)
                else (xs @ (k, v) # ys, k)) })
     = Some (m', k')"
    and "coarsens (xs @ (k, v) # ys) m'" and "(k', v') \<in> set m'" and "k' \<le> k"
    and "k + len v \<le> k' + len v'"
proof (cases xs rule: rev_cases)
  case Nil
  with wf show thesis
    by (intro that [of "(k, v) # ys" k v]) (auto simp: om_prev_at coarsens_refl dest: ivl_wf_om_wf)
next
  case (snoc xs' q)
  obtain p vp where q: "q = (p, vp)" by (cases q)
  let ?m = "xs' @ (p, vp) # (k, v) # ys"
  have wf': "ivl_wf len ok ?m" and om: "om_wf ?m"
    using wf snoc q ivl_wf_om_wf by auto
  have oks: "ok p vp" "ok k v"
    using wf' by (auto simp: ivl_wf_append)
  have pv: "om_prev ?m k = Some p"
    using om om_prev_at [of "xs' @ [(p, vp)]" k v ys] by simp
  have look: "map_of ?m p = Some vp"
    using om by (rule map_of_at)
  obtain b where b: "can vp v = Some b"
    using can_total [OF oks] by auto
  show thesis
  proof (cases b)
    case False
    then show thesis
      using pv look b snoc q wf by (intro that [of "xs @ (k, v) # ys" k v]) (simp_all add: coarsens_refl)
  next
    case True
    let ?m1 = "xs' @ (p, join vp v) # ys"
    have sm: "coarsens ?m ?m1"
      using wf' t b True snoc q by (intro coarsens_join) auto
    have "om_wf ((xs' @ [(p, join vp v)]) @ (k, v) # ys)"
      using om by (simp add: om_wf_append)
    then have er: "om_erase k (xs' @ (p, join vp v) # (k, v) # ys) = ?m1"
      using om_erase_at [of "xs' @ [(p, join vp v)]" k v ys] by simp
    have adj: "k = p + len vp"
      using touchingD [of xs' p vp k v ys] t oks b True snoc q by auto
    then have "len (join vp v) = len vp + len v"
      using join_len [of p vp v] oks b True by simp
    then show thesis
      using pv look b True er sm om adj snoc q
      by (intro that [of ?m1 p "join vp v"]) (simp_all add: om_put_at)
  qed
qed

text \<open>
  \<^verbatim>\<open>MergeAdjacent\<close>: it returns, it keeps the map well formed and its content, and the iterator it
  returns points to an element that covers the one it was given.
\<close>

lemma merge_ok:
  assumes wf: "ivl_wf len ok m" and t: "touching m" and mem: "(k, v) \<in> set m"
  obtains m' k' v' where "ivl_merge can join m k = Some (m', k')" "coarsens m m'"
    "(k', v') \<in> set m'" "k' \<le> k" "k + len v \<le> k' + len v'"
proof -
  obtain xs ys where m: "m = xs @ (k, v) # ys"
    using mem by (meson split_list)
  obtain v1 ys1 where n: "(case om_next (xs @ (k, v) # ys) k of
        None \<Rightarrow> Some (xs @ (k, v) # ys)
      | Some k' \<Rightarrow> do {
          v' \<leftarrow> map_of (xs @ (k, v) # ys) k';
          b \<leftarrow> can v v';
          Some (if b then om_erase k' (om_put k (join v v') (xs @ (k, v) # ys))
                else xs @ (k, v) # ys) })
     = Some (xs @ (k, v1) # ys1)"
    and s1: "coarsens m (xs @ (k, v1) # ys1)" and l1: "len v \<le> len v1"
    using merge_next [of xs k v ys] wf t unfolding m by blast
  have wf1: "ivl_wf len ok (xs @ (k, v1) # ys1)"
    using s1 by (simp add: coarsens_def same_map_def)
  have t1: "touching (xs @ (k, v1) # ys1)"
    using t coarsens_same [OF s1] by (rule touching_same)
  obtain m' k' v' where p: "(case om_prev (xs @ (k, v1) # ys1) k of
        None \<Rightarrow> Some (xs @ (k, v1) # ys1, k)
      | Some p \<Rightarrow> do {
          vp \<leftarrow> map_of (xs @ (k, v1) # ys1) p;
          b \<leftarrow> can vp v1;
          Some (if b then (om_erase k (om_put p (join vp v1) (xs @ (k, v1) # ys1)), p)
                else (xs @ (k, v1) # ys1, k)) })
     = Some (m', k')" and s2: "coarsens (xs @ (k, v1) # ys1) m'"
    and mem': "(k', v') \<in> set m'" "k' \<le> k" "k + len v1 \<le> k' + len v'"
    using merge_prev [OF wf1 t1] by blast
  have "map_of m k = Some v" "map_of (xs @ (k, v1) # ys1) k = Some v1"
    using wf wf1 ivl_wf_om_wf map_of_at unfolding m by metis+
  then have "ivl_merge can join m k = Some (m', k')"
    using n p unfolding ivl_merge_def m by simp
  moreover have "coarsens m m'"
    using s1 s2 by (rule coarsens_trans)
  ultimately show thesis
    using mem' l1 by (intro that) auto
qed

end

locale carving = merging len ok content can join
  for len :: "'v \<Rightarrow> nat"
    and ok :: "nat \<Rightarrow> 'v \<Rightarrow> bool"
    and content :: "'v \<Rightarrow> nat \<Rightarrow> 'c"
    and can :: "'v \<Rightarrow> 'v \<Rightarrow> bool option"
    and join :: "'v \<Rightarrow> 'v \<Rightarrow> 'v" +
  fixes parts :: "'v \<Rightarrow> nat \<Rightarrow> 'v \<times> 'v"
  assumes parts_len: "ok k v \<Longrightarrow> 0 < off \<Longrightarrow> off < len v \<Longrightarrow>
       len (fst (parts v off)) = off \<and> len (snd (parts v off)) = len v - off"
    and parts_ok: "ok k v \<Longrightarrow> 0 < off \<Longrightarrow> off < len v \<Longrightarrow>
       ok k (fst (parts v off)) \<and> ok (k + off) (snd (parts v off))"
    and parts_content1: "ok k v \<Longrightarrow> 0 < off \<Longrightarrow> off < len v \<Longrightarrow> i < off \<Longrightarrow>
       content (fst (parts v off)) i = content v i"
    and parts_content2: "ok k v \<Longrightarrow> 0 < off \<Longrightarrow> off < len v \<Longrightarrow> i < len v - off \<Longrightarrow>
       content (snd (parts v off)) i = content v (off + i)"
begin

lemma split_at:
  assumes wf: "ivl_wf len ok (xs @ (k, v) # ys)" and off: "0 < off" "off < len v"
  defines "m' \<equiv> xs @ (k, fst (parts v off)) # (k + off, snd (parts v off)) # ys"
  shows "ivl_split len parts (xs @ (k, v) # ys) k off = Some (m', k + off)"
    and "same_map (xs @ (k, v) # ys) m'"
proof -
  have okv: "ok k v" and om: "om_wf (xs @ (k, v) # ys)"
    using wf ivl_wf_om_wf [OF wf] by (auto simp: ivl_wf_append)
  note pl = parts_len [OF okv off] and po = parts_ok [OF okv off]
  have after: "\<forall>q\<in>set ys. k + off < fst q"
    using wf off by (fastforce simp: ivl_wf_append)
  have om1: "om_wf (xs @ (k, fst (parts v off)) # ys)"
    using om by (simp add: om_wf_append)
  have "om_emplace (k + off) (snd (parts v off)) (xs @ (k, fst (parts v off)) # ys) = m'"
    using om_emplace_after [OF om1 _ after] off by (simp add: m'_def)
  then show "ivl_split len parts (xs @ (k, v) # ys) k off = Some (m', k + off)"
    using om off by (simp add: ivl_split_def map_of_at om_put_at)
  have "ivl_wf len ok m'"
    using wf pl po off unfolding m'_def by (auto simp: ivl_wf_append)
  moreover have "iview len content m' = iview len content (xs @ (k, v) # ys)"
  proof
    fix a
    have "iview len content ((k, fst (parts v off)) # (k + off, snd (parts v off)) # ys) a
        = iview len content ((k, v) # ys) a"
      using pl off parts_content1 [OF okv off, of "a - k"]
        parts_content2 [OF okv off, of "a - (k + off)"] by auto
    then show "iview len content m' a = iview len content (xs @ (k, v) # ys) a"
      unfolding m'_def by (simp only: iview_append)
  qed
  moreover have "ivl_contig len m' lo hi" if "ivl_contig len (xs @ (k, v) # ys) lo hi" for lo hi
    using that pl off unfolding m'_def by (auto simp: ivl_contig_append)
  ultimately show "same_map (xs @ (k, v) # ys) m'"
    by (simp add: same_map_def)
qed

text \<open>
  Carving \<open>s\<close> bytes at \<open>a\<close> out of the interval that covers them leaves an element of exactly that
  extent, between what remains of the old element.
\<close>

lemma carve_at:
  assumes wf: "ivl_wf len ok (xs @ (k, v) # ys)"
    and a: "k \<le> a" "0 < s" "a + s \<le> k + len v"
  obtains pre w post where
    "ivl_carve len parts (xs @ (k, v) # ys) a s = Some (xs @ pre @ (a, w) # post @ ys, a)"
    "same_map (xs @ (k, v) # ys) (xs @ pre @ (a, w) # post @ ys)" "len w = s"
    "ivl_contig len (pre @ (a, w) # post) k (k + len v)" "length pre \<le> 1" "length post \<le> 1"
proof -
  let ?m = "xs @ (k, v) # ys"
  have om: "om_wf ?m" and okv: "ok k v"
    using wf ivl_wf_om_wf [OF wf] by (auto simp: ivl_wf_append)
  have fl: "om_floor ?m a = Some k"
    using a by (intro om_floor_ivl [OF wf]) auto
  obtain v1 post where m1: "(if a - k + s \<noteq> len v
        then map_option fst (ivl_split len parts ?m k (a - k + s)) else Some ?m)
      = Some (xs @ (k, v1) # post @ ys)"
    and s1: "same_map ?m (xs @ (k, v1) # post @ ys)" and l1: "len v1 = a - k + s"
    and c1: "ivl_contig len ((k, v1) # post) k (k + len v)" and p1: "length post \<le> 1"
  proof (cases "a - k + s = len v")
    case True
    with wf show thesis
      by (intro that [of v "[]"]) (simp_all add: same_map_refl)
  next
    case False
    then have off: "0 < a - k + s" "a - k + s < len v"
      using a by auto
    from split_at [OF wf off] parts_len [OF okv off] False off show thesis
      by (intro that [of "fst (parts v (a - k + s))" "[(k + (a - k + s), snd (parts v (a - k + s)))]"])
        (simp_all add: add.assoc)
  qed
  have wf1: "ivl_wf len ok (xs @ (k, v1) # post @ ys)"
    using s1 by (simp add: same_map_def)
  have carve: "ivl_carve len parts ?m a s =
      (if a - k \<noteq> 0 then ivl_split len parts (xs @ (k, v1) # post @ ys) k (a - k)
       else Some (xs @ (k, v1) # post @ ys, k))"
  proof -
    have "a - k + s \<le> len v" using a by linarith
    with fl om m1 show ?thesis by (simp add: ivl_carve_def map_of_at)
  qed
  show thesis
  proof (cases "a = k")
    case True
    with carve s1 l1 c1 p1 show thesis
      by (intro that [of "[]" v1 post]) auto
  next
    case False
    then have off: "0 < a - k" "a - k < len v1"
      using a l1 by auto
    have okv1: "ok k v1"
      using wf1 by (auto simp: ivl_wf_append)
    from split_at [OF wf1 off] carve False parts_len [OF okv1 off] s1 l1 c1 p1 a show thesis
      by (intro that [of "[(k, fst (parts v1 (a - k)))]" "snd (parts v1 (a - k))" post])
        (auto intro: same_map_trans)
  qed
qed

definition keyed :: bool where
  "keyed \<longleftrightarrow> (\<forall>k v k' v'. ok k v \<longrightarrow> ok k' v' \<longrightarrow> can v v' = Some True \<longrightarrow> k' = k + len v)"

lemma keyed_touching: "keyed \<Longrightarrow> touching m"
  by (simp add: keyed_def touching_def)

text \<open>Replacing the value of one element by one of the same extent.\<close>

lemma replace_at:
  assumes "ivl_wf len ok (xs @ (a, w) # ys)" "ok a w'" "len w' = len w"
  shows "ivl_wf len ok (xs @ (a, w') # ys)"
    and "iview len content (xs @ (a, w') # ys) x =
         (if a \<le> x \<and> x < a + len w then Some (content w' (x - a))
          else iview len content (xs @ (a, w) # ys) x)"
    and "ivl_contig len (xs @ (a, w) # ys) lo hi \<Longrightarrow> ivl_contig len (xs @ (a, w') # ys) lo hi"
proof -
  show wf': "ivl_wf len ok (xs @ (a, w') # ys)"
    using assms by (auto simp: ivl_wf_append)
  show "iview len content (xs @ (a, w') # ys) x =
         (if a \<le> x \<and> x < a + len w then Some (content w' (x - a))
          else iview len content (xs @ (a, w) # ys) x)"
    using iview_mid [OF wf', of x content] assms(3)
    by (auto simp: iview_append split: option.splits)
  show "ivl_contig len (xs @ (a, w') # ys) lo hi" if "ivl_contig len (xs @ (a, w) # ys) lo hi"
    using that assms(3) by (auto simp: ivl_contig_append)
qed

text \<open>
  Carving in terms of elements: the carved element has exactly the requested extent, and a range
  that one element covered and that misses the carved one is still covered by one element.
\<close>

lemma carve_ok:
  assumes wf: "ivl_wf len ok m" and mem: "(k, v) \<in> set m"
    and a: "k \<le> a" "0 < s" "a + s \<le> k + len v"
  obtains X w Y where "ivl_carve len parts m a s = Some (X @ (a, w) # Y, a)"
    "same_map m (X @ (a, w) # Y)" "ok a w" "len w = s" "map_of (X @ (a, w) # Y) a = Some w"
    "k \<in> fst ` set (X @ (a, w) # Y)"
    "\<And>b t. within len m b t \<Longrightarrow> 0 < t \<Longrightarrow> b + t \<le> a \<or> a + s \<le> b \<Longrightarrow> within len (X @ Y) b t"
proof -
  obtain xs ys where m: "m = xs @ (k, v) # ys"
    using mem by (meson split_list)
  obtain pre w post where c: "ivl_carve len parts m a s = Some (xs @ pre @ (a, w) # post @ ys, a)"
    and sm: "same_map m (xs @ pre @ (a, w) # post @ ys)" and lw: "len w = s"
    and cc: "ivl_contig len (pre @ (a, w) # post) k (k + len v)" "length pre \<le> 1" "length post \<le> 1"
    using carve_at [OF wf [unfolded m] a] unfolding m by metis
  have wf1: "ivl_wf len ok ((xs @ pre) @ (a, w) # post @ ys)"
    using sm by (simp add: same_map_def)
  then have okw: "ok a w"
    by (auto simp: ivl_wf_append)
  have look: "map_of ((xs @ pre) @ (a, w) # post @ ys) a = Some w"
    by (rule ivl_wf_lookup [OF wf1]) simp
  have wi: "within len ((xs @ pre) @ post @ ys) b t"
    if in_m: "within len m b t" and t: "0 < t" and dis: "b + t \<le> a \<or> a + s \<le> b" for b t
  proof (cases "k \<le> b \<and> b + t \<le> k + len v")
    case True
    have pre: "ivl_contig len pre k a" and post: "ivl_contig len post (a + s) (k + len v)"
      using cc(1) lw by (auto simp: ivl_contig_append)
    show ?thesis
    proof (cases "b + t \<le> a")
      case left: True
      with pre True t cc(2) obtain p where "pre = [p]"
        by (cases pre) auto
      with pre True left show ?thesis by (auto simp: within_def)
    next
      case False
      with post True t cc(3) dis obtain p where "post = [p]"
        by (cases post) auto
      with post True False dis show ?thesis by (auto simp: within_def)
    qed
  next
    case False
    with in_m show ?thesis unfolding m by (fastforce simp: within_def)
  qed
  have "k \<in> fst ` set (pre @ (a, w) # post)"
    using cc(1) by (cases pre) force+
  then have key: "k \<in> fst ` set ((xs @ pre) @ (a, w) # post @ ys)" by auto
  have c': "ivl_carve len parts m a s = Some ((xs @ pre) @ (a, w) # post @ ys, a)"
    and sm': "same_map m ((xs @ pre) @ (a, w) # post @ ys)"
    using c sm by simp_all
  show thesis
    by (rule that [OF c' sm' okw lw look key wi])
qed

text \<open>
  Carve a range out of the element that covers it and change the carved element: by address,
  exactly the carved range changes.
\<close>

lemma carve_put:
  assumes wf: "ivl_wf len ok m" and mem: "(k, v) \<in> set m" and a: "k \<le> a" "0 < s" "a + s \<le> k + len v"
    and f: "\<And>w. ok a w \<Longrightarrow> len w = s \<Longrightarrow> ok a (f w) \<and> len (f w) = s"
    and g: "\<And>w i. ok a w \<Longrightarrow> len w = s \<Longrightarrow> i < s \<Longrightarrow> content (f w) i = g i (content w i)"
  obtains m1 w m2 where
    "ivl_carve len parts m a s = Some (m1, a)" "map_of m1 a = Some w" "same_map m m1" "len w = s" "ok a w"
    "m2 = om_put a (f w) m1" "ivl_wf len ok m2" "(a, f w) \<in> set m2" "k \<in> fst ` set m2"
    "\<And>x. iview len content m2 x =
       (if a \<le> x \<and> x < a + s then map_option (g (x - a)) (iview len content m x)
        else iview len content m x)"
    "\<And>lo hi. ivl_contig len m lo hi \<Longrightarrow> ivl_contig len m2 lo hi"
    "\<And>b t. within len m b t \<Longrightarrow> 0 < t \<Longrightarrow> b + t \<le> a \<or> a + s \<le> b \<Longrightarrow> within len m2 b t"
proof -
  obtain X w Y where c: "ivl_carve len parts m a s = Some (X @ (a, w) # Y, a)"
    and sm: "same_map m (X @ (a, w) # Y)" and okw: "ok a w" and lw: "len w = s"
    and look: "map_of (X @ (a, w) # Y) a = Some w" and key: "k \<in> fst ` set (X @ (a, w) # Y)"
    and wi: "\<And>b t. within len m b t \<Longrightarrow> 0 < t \<Longrightarrow> b + t \<le> a \<or> a + s \<le> b \<Longrightarrow> within len (X @ Y) b t"
    using carve_ok [OF wf mem a] by blast
  from sm have wf1: "ivl_wf len ok (X @ (a, w) # Y)" and v1: "iview len content (X @ (a, w) # Y) = iview len content m"
    and c1: "\<And>lo hi. ivl_contig len m lo hi \<Longrightarrow> ivl_contig len (X @ (a, w) # Y) lo hi"
    by (auto simp: same_map_def)
  note om = ivl_wf_om_wf [OF wf1] and fw = f [OF okw lw] and rep = replace_at [OF wf1, of "f w"]
  let ?m2 = "X @ (a, f w) # Y"
  have pt: "?m2 = om_put a (f w) (X @ (a, w) # Y)"
    using om by (rule om_put_at [symmetric])
  have wf2: "ivl_wf len ok ?m2"
    using rep(1) fw lw by simp
  have old: "iview len content m x = Some (content w (x - a))" if "a \<le> x" "x < a + s" for x
    using iview_mid [OF wf1, of x content] v1 lw that by simp
  have view: "iview len content ?m2 x =
       (if a \<le> x \<and> x < a + s then map_option (g (x - a)) (iview len content m x)
        else iview len content m x)" for x
    using rep(2) [of x] fw lw v1 old [of x] g [OF okw lw, of "x - a"] by auto
  have wi': "within len ?m2 b t" if "within len m b t" "0 < t" "b + t \<le> a \<or> a + s \<le> b" for b t
    using wi [OF that] by (auto simp: within_def)
  have cont: "ivl_contig len ?m2 lo hi" if "ivl_contig len m lo hi" for lo hi
    using rep(3) [OF _ _ c1 [OF that]] fw lw by simp
  have key2: "k \<in> fst ` set ?m2" using key by simp
  have mem2: "(a, f w) \<in> set ?m2" by simp
  show thesis
    by (rule that [OF c look sm lw okw pt wf2 mem2 key2 view cont wi'])
qed

text \<open>
  The pattern of most operations of the memory manager: carve, change, and merge the result with
  its neighbours.
\<close>

lemma carve_update_merge:
  assumes wf: "ivl_wf len ok m" and kd: "keyed"
    and mem: "(k, v) \<in> set m" and a: "k \<le> a" "0 < s" "a + s \<le> k + len v"
    and f: "\<And>w. ok a w \<Longrightarrow> len w = s \<Longrightarrow> ok a (f w) \<and> len (f w) = s"
    and g: "\<And>w i. ok a w \<Longrightarrow> len w = s \<Longrightarrow> i < s \<Longrightarrow> content (f w) i = g i (content w i)"
  obtains m1 w m' k' v' where
    "ivl_carve len parts m a s = Some (m1, a)" "map_of m1 a = Some w" "same_map m m1" "len w = s"
    "ivl_merge can join (om_put a (f w) m1) a = Some (m', k')"
    "ivl_wf len ok m'"
    "\<And>x. iview len content m' x =
       (if a \<le> x \<and> x < a + s then map_option (g (x - a)) (iview len content m x)
        else iview len content m x)"
    "\<And>lo hi. ivl_contig len m lo hi \<Longrightarrow> ivl_contig len m' lo hi"
    "(k', v') \<in> set m'" "k' \<le> a" "a + s \<le> k' + len v'"
    "\<And>b t. within len m b t \<Longrightarrow> 0 < t \<Longrightarrow> b + t \<le> a \<or> a + s \<le> b \<Longrightarrow> within len m' b t"
proof (rule carve_put [where f = f and g = g, OF wf mem a f g])
  fix m1 w m2
  assume c: "ivl_carve len parts m a s = Some (m1, a)" "map_of m1 a = Some w"
      "same_map m m1" "len w = s" and okw: "ok a w"
    and m2: "m2 = om_put a (f w) m1" "ivl_wf len ok m2" "(a, f w) \<in> set m2"
    and view: "\<And>x. iview len content m2 x =
       (if a \<le> x \<and> x < a + s then map_option (g (x - a)) (iview len content m x)
        else iview len content m x)"
    and cont: "\<And>lo hi. ivl_contig len m lo hi \<Longrightarrow> ivl_contig len m2 lo hi"
    and wi: "\<And>b t. within len m b t \<Longrightarrow> 0 < t \<Longrightarrow> b + t \<le> a \<or> a + s \<le> b \<Longrightarrow> within len m2 b t"
  obtain m' k' v' where mg: "ivl_merge can join m2 a = Some (m', k')" and co: "coarsens m2 m'"
    and ret: "(k', v') \<in> set m'" "k' \<le> a" "a + len (f w) \<le> k' + len v'"
    by (rule merge_ok [OF m2(2) keyed_touching [OF kd] m2(3)])
  have s2: "ivl_wf len ok m'" "iview len content m' = iview len content m2"
    "\<And>lo hi. ivl_contig len m2 lo hi \<Longrightarrow> ivl_contig len m' lo hi"
    using coarsens_same [OF co] by (auto simp: same_map_def)
  have wi': "within len m' b t" if "within len m b t" "0 < t" "b + t \<le> a \<or> a + s \<le> b" for b t
    using co wi [OF that] by (simp add: coarsens_def)
  show thesis
    by (rule that [OF c, folded m2(1), OF mg s2(1) _ _ ret(1,2) _ wi'])
      (use ret(3) f [OF okw c(4)] s2 view cont in simp_all)
qed

end

end
