(* ===== verification/Alignment.thy ===== *)
theory Alignment
  imports Prelude
begin

text \<open>
  \<^verbatim>\<open>src/common/alignment.h\<close>: rounding to a multiple and the alignment predicates, at 64 bits.
  \<open>AlignUp\<close> and \<open>AlignDown\<close> divide by their second argument; the callers of the model establish
  that it is not zero before they call.
\<close>

definition AlignUp :: "u64 \<Rightarrow> u64 \<Rightarrow> u64" where
  "AlignUp value sz =
     (let md = value mod sz; value' = value - md
      in if md = 0 then value' else add64 value' sz)"

definition AlignDown :: "u64 \<Rightarrow> u64 \<Rightarrow> u64" where
  "AlignDown value sz = value - value mod sz"

definition IsAligned :: "u64 \<Rightarrow> u64 \<Rightarrow> bool" where
  "IsAligned value alignment \<longleftrightarrow> (value AND sub64 alignment 1) = 0"

definition Is16KBAligned :: "u64 \<Rightarrow> bool" where
  "Is16KBAligned value \<longleftrightarrow> (value AND 0x3FFF) = 0"

definition Is64KBAligned :: "u64 \<Rightarrow> bool" where
  "Is64KBAligned value \<longleftrightarrow> (value AND 0xFFFF) = 0"

definition Is2MBAligned :: "u64 \<Rightarrow> bool" where
  "Is2MBAligned value \<longleftrightarrow> (value AND 0x1FFFFF) = 0"

text \<open>\<^verbatim>\<open>std::has_single_bit\<close> of the standard library.\<close>

definition has_single_bit :: "u64 \<Rightarrow> bool" where
  "has_single_bit x \<longleftrightarrow> x \<noteq> 0 \<and> (x AND (x - 1)) = 0"

abbreviation KB16 :: u64 where "KB16 \<equiv> 16384"
abbreviation KB64 :: u64 where "KB64 \<equiv> 65536"
abbreviation MB1 :: u64 where "MB1 \<equiv> 1048576"
abbreviation MB2 :: u64 where "MB2 \<equiv> 2097152"
abbreviation GB1 :: u64 where "GB1 \<equiv> 1073741824"

section \<open>The predicates are divisibility\<close>

lemma and_mask_nat: "(x::nat) AND (2 ^ n - 1) = x mod 2 ^ n"
  by (metis mask_eq_exp_minus_1 take_bit_eq_mask take_bit_eq_mod)

lemma Is16KBAligned_dvd: "Is16KBAligned x \<longleftrightarrow> KB16 dvd x"
  using and_mask_nat [of x 14] by (simp add: Is16KBAligned_def dvd_eq_mod_eq_0)

lemma Is64KBAligned_dvd: "Is64KBAligned x \<longleftrightarrow> KB64 dvd x"
  using and_mask_nat [of x 16] by (simp add: Is64KBAligned_def dvd_eq_mod_eq_0)

lemma Is2MBAligned_dvd: "Is2MBAligned x \<longleftrightarrow> MB2 dvd x"
  using and_mask_nat [of x 21] by (simp add: Is2MBAligned_def dvd_eq_mod_eq_0)

section \<open>Rounding\<close>

lemma AlignDown_le: "AlignDown v s \<le> v"
  by (simp add: AlignDown_def)

lemma AlignDown_dvd: "s dvd AlignDown v s"
  by (simp add: AlignDown_def dvd_minus_mod)

lemma AlignDown_gap: "0 < s \<Longrightarrow> v < AlignDown v s + s"
proof -
  assume "0 < s"
  then have "v mod s < s" "v mod s \<le> v" by simp_all
  then show ?thesis unfolding AlignDown_def by linarith
qed

lemma AlignUp_aligned [simp]: "s dvd v \<Longrightarrow> AlignUp v s = v"
  by (simp add: AlignUp_def Let_def dvd_eq_mod_eq_0)

lemma AlignUp_spec:
  assumes "0 < s" and "v + s \<le> U64_MOD"
  shows AlignUp_ge: "v \<le> AlignUp v s"
    and AlignUp_dvd: "s dvd AlignUp v s"
    and AlignUp_gap: "AlignUp v s < v + s"
proof -
  let ?m = "v mod s"
  have ms: "?m < s" "?m \<le> v"
    using assms by simp_all
  have dv: "s dvd v - ?m"
    by (rule dvd_minus_mod)
  have "v \<le> AlignUp v s \<and> s dvd AlignUp v s \<and> AlignUp v s < v + s"
  proof (cases "?m = 0")
    case True
    then show ?thesis
      using assms dv by (simp add: AlignUp_def Let_def)
  next
    case False
    then have "v - ?m + s < U64_MOD"
      using assms ms by linarith
    then have eq: "AlignUp v s = v - ?m + s"
      using False by (simp add: AlignUp_def Let_def)
    have "s dvd v - ?m + s"
      using dv by (rule dvd_add) simp
    moreover have "v \<le> v - ?m + s" and "v - ?m + s < v + s"
      using ms False by linarith+
    ultimately show ?thesis
      unfolding eq by blast
  qed
  then show "v \<le> AlignUp v s" "s dvd AlignUp v s" "AlignUp v s < v + s"
    by simp_all
qed

text \<open>\<open>AlignUp\<close> returns the least multiple that is not below its argument.\<close>

lemma AlignUp_least:
  assumes "0 < s" and "v + s \<le> U64_MOD" and "s dvd w" and "v \<le> w"
  shows "AlignUp v s \<le> w"
proof (rule ccontr)
  assume "\<not> AlignUp v s \<le> w"
  then have lt: "w < AlignUp v s" by simp
  obtain a b where a: "AlignUp v s = s * a" and b: "w = s * b"
    using AlignUp_dvd [OF assms(1,2)] assms(3) by (auto elim!: dvdE)
  from lt a b have "b < a" by simp
  then have "s * (b + 1) \<le> s * a"
    by (intro mult_le_mono2) simp
  then have "w + s \<le> AlignUp v s"
    using a b by (simp add: algebra_simps)
  with AlignUp_gap [OF assms(1,2)] assms(4) show False by simp
qed

end
