(* ===== verification/Physical_Memory.thy ===== *)
theory Physical_Memory
  imports Interval_Map Alignment
begin

text \<open>
  The maps of physical memory of \<^verbatim>\<open>Core::MemoryManager\<close> (\<^verbatim>\<open>src/core/memory.h\<close>, \<^verbatim>\<open>memory.cpp\<close>): the
  direct memory map and the flexible memory map, both a \<^verbatim>\<open>std::map<PAddr, PhysicalMemoryArea>\<close>, and
  the operations \<^verbatim>\<open>Split\<close>, \<^verbatim>\<open>MergeAdjacent\<close> and \<^verbatim>\<open>CarvePhysArea\<close> on them.

  The interpretations \<open>pm\<close> (content: the kind of memory at a physical address) and \<open>pb\<close> (content:
  the physical byte behind an offset, for the physical areas of one virtual area) instantiate the
  interval-map interfaces.
\<close>

section \<open>Data\<close>

datatype PhysicalMemoryType = PFree | PAllocated | PMapped | PPooled | PCommitted | PFlexible

record PhysicalMemoryArea =
  pa_base :: u64
  pa_size :: u64
  pa_memory_type :: s32
  pa_dma_type :: PhysicalMemoryType

type_synonym PhysMap = "(u64, PhysicalMemoryArea) omap"

definition GetEnd :: "PhysicalMemoryArea \<Rightarrow> u64" where
  "GetEnd a = add64 (pa_base a) (pa_size a)"

definition Phys_CanMergeWith :: "PhysicalMemoryArea \<Rightarrow> PhysicalMemoryArea \<Rightarrow> bool" where
  "Phys_CanMergeWith a next \<longleftrightarrow>
     (if add64 (pa_base a) (pa_size a) \<noteq> pa_base next then False
      else if pa_memory_type a \<noteq> pa_memory_type next then False
      else if pa_dma_type a \<noteq> pa_dma_type next then False
      else True)"

section \<open>Operations\<close>

definition Split_phys :: "PhysMap \<Rightarrow> u64 \<Rightarrow> u64 \<Rightarrow> (PhysMap \<times> u64) option" where
  "Split_phys m phys_handle offset_in_area = do {
     old_area \<leftarrow> map_of m phys_handle;
     assert_opt (offset_in_area < pa_size old_area \<and> offset_in_area > 0);
     let new_area = old_area\<lparr>pa_memory_type := pa_memory_type old_area,
                             pa_base := add64 (pa_base old_area) offset_in_area,
                             pa_size := sub64 (pa_size old_area) offset_in_area\<rparr>;
     Some (om_emplace (pa_base new_area) new_area
             (om_put phys_handle (old_area\<lparr>pa_size := offset_in_area\<rparr>) m),
           pa_base new_area)
   }"

definition CarvePhysArea :: "PhysMap \<Rightarrow> u64 \<Rightarrow> u64 \<Rightarrow> (PhysMap \<times> u64) option" where
  "CarvePhysArea m addr sz = do {
     pmem_handle \<leftarrow> om_floor m addr;
     area \<leftarrow> map_of m pmem_handle;
     assert_opt (addr \<le> GetEnd area);
     assert_opt (pa_base area \<le> addr);
     let start_in_area = sub64 addr (pa_base area);
     let end_in_vma = add64 start_in_area sz;
     assert_opt (end_in_vma \<le> pa_size area);
     m1 \<leftarrow> (if end_in_vma \<noteq> pa_size area
           then map_option fst (Split_phys m pmem_handle end_in_vma) else Some m);
     (if start_in_area \<noteq> 0 then Split_phys m1 pmem_handle start_in_area
      else Some (m1, pmem_handle))
   }"

definition phys_grow :: "PhysicalMemoryArea \<Rightarrow> PhysicalMemoryArea \<Rightarrow> PhysicalMemoryArea" where
  "phys_grow a next = a\<lparr>pa_size := add64 (pa_size a) (pa_size next)\<rparr>"

definition MergeAdjacent_phys :: "PhysMap \<Rightarrow> u64 \<Rightarrow> (PhysMap \<times> u64) option" where
  "MergeAdjacent_phys m iter = do {
     area \<leftarrow> map_of m iter;
     m1 \<leftarrow> (case om_next m iter of
        None \<Rightarrow> Some m
      | Some next_vma \<Rightarrow> do {
          next_area \<leftarrow> map_of m next_vma;
          Some (if Phys_CanMergeWith area next_area
                then om_erase next_vma (om_put iter (phys_grow area next_area) m) else m) });
     area1 \<leftarrow> map_of m1 iter;
     (case om_prev m1 iter of
        None \<Rightarrow> Some (m1, iter)
      | Some prev_vma \<Rightarrow> do {
          prev_area \<leftarrow> map_of m1 prev_vma;
          Some (if Phys_CanMergeWith prev_area area1
                then (om_erase iter (om_put prev_vma (phys_grow prev_area area1) m1), prev_vma)
                else (m1, iter)) })
   }"

text \<open>
  The block that every operation repeats: carve a range, change the kind of the carved area, merge
  it with its neighbours.  The result is the new map, the changed area and the iterator of the
  merged element.
\<close>

definition retag_phys ::
  "(PhysicalMemoryArea \<Rightarrow> PhysicalMemoryArea) \<Rightarrow> PhysMap \<Rightarrow> u64 \<Rightarrow> u64
     \<Rightarrow> (PhysMap \<times> PhysicalMemoryArea \<times> u64) option" where
  "retag_phys f m addr sz = do {
     (m1, handle) \<leftarrow> CarvePhysArea m addr sz;
     area \<leftarrow> map_of m1 handle;
     (m2, handle') \<leftarrow> MergeAdjacent_phys (om_put handle (f area) m1) handle;
     Some (m2, f area, handle')
   }"

section \<open>The maps as intervals\<close>

definition phys_ok :: "u64 \<Rightarrow> PhysicalMemoryArea \<Rightarrow> bool" where
  "phys_ok k a \<longleftrightarrow> pa_base a = k \<and> 0 < pa_size a \<and> k + pa_size a < U64_MOD"

text \<open>The kind of memory at a physical address.\<close>

definition phys_kind :: "PhysicalMemoryArea \<Rightarrow> nat \<Rightarrow> PhysicalMemoryType \<times> s32" where
  "phys_kind a off = (pa_dma_type a, pa_memory_type a)"

definition phys_parts :: "PhysicalMemoryArea \<Rightarrow> u64 \<Rightarrow> PhysicalMemoryArea \<times> PhysicalMemoryArea" where
  "phys_parts a off =
     (a\<lparr>pa_size := off\<rparr>, a\<lparr>pa_base := add64 (pa_base a) off, pa_size := sub64 (pa_size a) off\<rparr>)"

abbreviation phys_can :: "PhysicalMemoryArea \<Rightarrow> PhysicalMemoryArea \<Rightarrow> bool option" where
  "phys_can a b \<equiv> Some (Phys_CanMergeWith a b)"

abbreviation phys_wf :: "PhysMap \<Rightarrow> bool" where
  "phys_wf m \<equiv> ivl_wf pa_size phys_ok m"

abbreviation phys_view :: "PhysMap \<Rightarrow> u64 \<Rightarrow> (PhysicalMemoryType \<times> s32) option" where
  "phys_view m \<equiv> iview pa_size phys_kind m"

lemma Phys_CanMergeWith_iff:
  "Phys_CanMergeWith a b \<longleftrightarrow>
     add64 (pa_base a) (pa_size a) = pa_base b \<and> pa_memory_type a = pa_memory_type b
     \<and> pa_dma_type a = pa_dma_type b"
  by (simp add: Phys_CanMergeWith_def)

interpretation pm: carving pa_size phys_ok phys_kind phys_can phys_grow phys_parts
  by unfold_locales
    (auto simp: phys_ok_def phys_kind_def phys_grow_def phys_parts_def Phys_CanMergeWith_iff)

lemma phys_keyed: "pm.keyed"
  unfolding pm.keyed_def by (auto simp: phys_ok_def Phys_CanMergeWith_iff)

text \<open>
  The physical areas of a virtual area are keyed by their offset in it; an area there stands for
  a run of physical bytes.
\<close>

definition backing_ok :: "u64 \<Rightarrow> PhysicalMemoryArea \<Rightarrow> bool" where
  "backing_ok k a \<longleftrightarrow> 0 < pa_size a \<and> pa_base a + pa_size a < U64_MOD \<and> k + pa_size a < U64_MOD"

definition backing_byte :: "PhysicalMemoryArea \<Rightarrow> nat \<Rightarrow> u64 \<times> s32 \<times> PhysicalMemoryType" where
  "backing_byte a off = (pa_base a + off, pa_memory_type a, pa_dma_type a)"

interpretation pb: merging pa_size backing_ok backing_byte phys_can phys_grow
  by unfold_locales
    (auto simp: backing_ok_def backing_byte_def phys_grow_def Phys_CanMergeWith_iff)

section \<open>The operations are the generic ones\<close>

lemma MergeAdjacent_phys_eq: "MergeAdjacent_phys m k = ivl_merge phys_can phys_grow m k"
  by (simp add: MergeAdjacent_phys_def ivl_merge_def cong: option.case_cong)

lemma Split_phys_eq:
  assumes "phys_wf m" "(k, a) \<in> set m" "off < pa_size a"
  shows "Split_phys m k off = ivl_split pa_size phys_parts m k off"
proof -
  have "phys_ok k a"
    using ivl_wf_ok [OF assms(1,2)] by simp
  moreover have "map_of m k = Some a"
    using assms(1,2) by (rule ivl_wf_lookup)
  ultimately show ?thesis
    using assms(3) by (auto simp: Split_phys_def ivl_split_def phys_parts_def phys_ok_def Let_def assert_opt_def)
qed

lemma CarvePhysArea_eq:
  assumes wf: "phys_wf m" and mem: "(k, v) \<in> set m" and a: "k \<le> a" "0 < s" "a + s \<le> k + pa_size v"
  shows "CarvePhysArea m a s = ivl_carve pa_size phys_parts m a s"
proof -
  have ok: "phys_ok k v"
    using ivl_wf_ok [OF wf mem] by simp
  have look: "map_of m k = Some v"
    using wf mem by (rule ivl_wf_lookup)
  have fl: "om_floor m a = Some k"
    using a by (intro om_floor_ivl [OF wf mem]) auto
  obtain xs ys where m: "m = xs @ (k, v) # ys"
    using mem by (meson split_list)
  have bounds: "sub64 a (pa_base v) = a - k" "add64 (a - k) s = a - k + s" "a \<le> GetEnd v" "pa_base v \<le> a"
    "a - k + s \<le> pa_size v"
    using ok a by (auto simp: phys_ok_def GetEnd_def)
  have first: "Split_phys m k (a - k + s) = ivl_split pa_size phys_parts m k (a - k + s)"
    if "a - k + s \<noteq> pa_size v"
    using that bounds(5) by (intro Split_phys_eq [OF wf mem]) simp
  have second: "Split_phys m1 k (a - k) = ivl_split pa_size phys_parts m1 k (a - k)"
    if "(if a - k + s \<noteq> pa_size v then map_option fst (ivl_split pa_size phys_parts m k (a - k + s))
         else Some m) = Some m1" for m1
  proof (cases "a - k + s = pa_size v")
    case True
    with that have "m1 = m" by simp
    with a True show ?thesis by (auto intro!: Split_phys_eq [OF wf mem])
  next
    case False
    then have off: "0 < a - k + s" "a - k + s < pa_size v"
      using a bounds(5) by auto
    have "m1 = xs @ (k, fst (phys_parts v (a - k + s))) # (k + (a - k + s), snd (phys_parts v (a - k + s))) # ys"
      "pm.same_map m m1"
      using pm.split_at [OF wf [unfolded m] off] that False unfolding m by auto
    then show ?thesis
      using a by (intro Split_phys_eq [of _ _ "fst (phys_parts v (a - k + s))"])
        (auto simp: pm.same_map_def phys_parts_def)
  qed
  let ?gen = "if a - k + s \<noteq> pa_size v
      then map_option fst (ivl_split pa_size phys_parts m k (a - k + s)) else Some m"
  have eq1: "(if a - k + s \<noteq> pa_size v then map_option fst (Split_phys m k (a - k + s)) else Some m) = ?gen"
    using first by auto
  have carve: "CarvePhysArea m a s =
      ?gen \<bind> (\<lambda>m1. if a - k \<noteq> 0 then Split_phys m1 k (a - k) else Some (m1, k))"
    unfolding CarvePhysArea_def
    by (simp only: fl look bounds Let_def Option.bind.simps assert_opt_simps eq1)
  have gen: "ivl_carve pa_size phys_parts m a s =
      ?gen \<bind> (\<lambda>m1. if a - k \<noteq> 0 then ivl_split pa_size phys_parts m1 k (a - k) else Some (m1, k))"
    unfolding ivl_carve_def
    by (simp only: fl look bounds Option.bind.simps assert_opt_simps)
  show ?thesis
  proof (cases ?gen)
    case None
    then show ?thesis unfolding carve gen by simp
  next
    case (Some m1)
    then show ?thesis unfolding carve gen Some using second [OF Some] by simp
  qed
qed

text \<open>A change of kind keeps the extent of an area.\<close>

definition kind_update :: "(PhysicalMemoryArea \<Rightarrow> PhysicalMemoryArea)
    \<Rightarrow> (PhysicalMemoryType \<times> s32 \<Rightarrow> PhysicalMemoryType \<times> s32) \<Rightarrow> bool" where
  "kind_update f g \<longleftrightarrow>
     (\<forall>a. pa_base (f a) = pa_base a \<and> pa_size (f a) = pa_size a
        \<and> (pa_dma_type (f a), pa_memory_type (f a)) = g (pa_dma_type a, pa_memory_type a))"

lemma retag_phys_ok:
  assumes wf: "phys_wf m" and mem: "(k, v) \<in> set m"
    and a: "k \<le> a" "0 < s" "a + s \<le> k + pa_size v" and f: "kind_update f g"
  obtains m' area h v' where "retag_phys f m a s = Some (m', area, h)"
    "phys_wf m'" "pa_base area = a" "pa_size area = s"
    "(pa_dma_type area, pa_memory_type area) = g (pa_dma_type v, pa_memory_type v)"
    "\<forall>x. phys_view m' x = (if a \<le> x \<and> x < a + s then map_option g (phys_view m x) else phys_view m x)"
    "\<forall>lo hi. ivl_contig pa_size m lo hi \<longrightarrow> ivl_contig pa_size m' lo hi"
    "(h, v') \<in> set m'" "h \<le> a" "a + s \<le> h + pa_size v'"
    "\<forall>b t. within pa_size m b t \<longrightarrow> 0 < t \<longrightarrow> b + t \<le> a \<or> a + s \<le> b \<longrightarrow> within pa_size m' b t"
proof -
  have fok: "phys_ok a (f w) \<and> pa_size (f w) = s" if "phys_ok a w" "pa_size w = s" for w
    using that f by (auto simp: phys_ok_def kind_update_def)
  have gk: "phys_kind (f w) i = g (phys_kind w i)" for w i
    using f by (simp add: phys_kind_def kind_update_def)
  obtain m1 w m' k' v' where r: "ivl_carve pa_size phys_parts m a s = Some (m1, a)"
      "map_of m1 a = Some w" "pm.same_map m m1" "pa_size w = s"
      "ivl_merge phys_can phys_grow (om_put a (f w) m1) a = Some (m', k')" "phys_wf m'"
    and view: "\<And>x. phys_view m' x =
       (if a \<le> x \<and> x < a + s then map_option g (phys_view m x) else phys_view m x)"
    and contig: "\<And>lo hi. ivl_contig pa_size m lo hi \<Longrightarrow> ivl_contig pa_size m' lo hi"
    and ret: "(k', v') \<in> set m'" "k' \<le> a" "a + s \<le> k' + pa_size v'"
    and wi: "\<And>b t. within pa_size m b t \<Longrightarrow> 0 < t \<Longrightarrow> b + t \<le> a \<or> a + s \<le> b \<Longrightarrow> within pa_size m' b t"
    by (rule pm.carve_update_merge [OF wf phys_keyed mem a, of f "\<lambda>_. g"])
      (use fok gk in auto)
  have wf1: "phys_wf m1"
    using r(3) by (simp add: pm.same_map_def)
  have memw: "(a, w) \<in> set m1"
    using r(2) by (rule map_of_SomeD)
  have "phys_view m1 a = Some (pa_dma_type w, pa_memory_type w)"
    using iview_mem [OF wf1 memw, of a phys_kind] r(4) a by (simp add: phys_kind_def)
  moreover have "phys_view m a = Some (pa_dma_type v, pa_memory_type v)"
    using iview_mem [OF wf mem, of a phys_kind] a by (simp add: phys_kind_def)
  ultimately have wk: "pa_dma_type w = pa_dma_type v" "pa_memory_type w = pa_memory_type v"
    using r(3) by (auto simp: pm.same_map_def)
  have eq: "retag_phys f m a s = Some (m', f w, k')"
    using r by (simp add: retag_phys_def CarvePhysArea_eq [OF wf mem a] MergeAdjacent_phys_eq)
  have "phys_ok a w"
    using ivl_wf_ok [OF wf1 memw] by simp
  with fok r(4) have fw: "pa_base (f w) = a" "pa_size (f w) = s"
    by (auto simp: phys_ok_def)
  have "(pa_dma_type (f w), pa_memory_type (f w)) = g (pa_dma_type v, pa_memory_type v)"
    using wk f by (simp add: kind_update_def)
  then show thesis
    by (rule that [OF eq r(6) fw _ _ _ ret]) (use view contig wi in blast)+
qed

lemma carve_put_phys:
  assumes wf: "phys_wf m" and mem: "(k, v) \<in> set m" and a: "k \<le> a" "0 < s" "a + s \<le> k + pa_size v"
    and f: "kind_update f g"
  obtains m1 w m2 where "CarvePhysArea m a s = Some (m1, a)" "map_of m1 a = Some w"
    "m2 = om_put a (f w) m1" "phys_wf m2" "k \<in> fst ` set m2"
    "\<forall>x. phys_view m2 x = (if a \<le> x \<and> x < a + s then map_option g (phys_view m x) else phys_view m x)"
    "\<forall>lo hi. ivl_contig pa_size m lo hi \<longrightarrow> ivl_contig pa_size m2 lo hi"
    "\<forall>b t. within pa_size m b t \<longrightarrow> 0 < t \<longrightarrow> b + t \<le> a \<or> a + s \<le> b \<longrightarrow> within pa_size m2 b t"
proof (rule pm.carve_put [where f = f and g = "\<lambda>_. g", OF wf mem a])
  show "phys_ok a (f w) \<and> pa_size (f w) = s" if "phys_ok a w" "pa_size w = s" for w
    using that f by (auto simp: phys_ok_def kind_update_def)
  show "phys_kind (f w) i = g (phys_kind w i)" for w i
    using f by (simp add: phys_kind_def kind_update_def)
  fix m1 w m2
  assume *: "ivl_carve pa_size phys_parts m a s = Some (m1, a)" "map_of m1 a = Some w"
    "m2 = om_put a (f w) m1" "phys_wf m2" "k \<in> fst ` set m2"
    "\<And>x. phys_view m2 x = (if a \<le> x \<and> x < a + s then map_option g (phys_view m x) else phys_view m x)"
    "\<And>lo hi. ivl_contig pa_size m lo hi \<Longrightarrow> ivl_contig pa_size m2 lo hi"
    "\<And>b t. within pa_size m b t \<Longrightarrow> 0 < t \<Longrightarrow> b + t \<le> a \<or> a + s \<le> b \<Longrightarrow> within pa_size m2 b t"
  show thesis
    by (rule that [OF *(1) [folded CarvePhysArea_eq [OF wf mem a]] *(2-5)]) (use * in blast)+
qed

section \<open>Refinement of the physical maps\<close>

text \<open>
  C26.  \<^verbatim>\<open>CarvePhysArea\<close> on a well-formed map of physical memory, for a range inside one area: no
  assertion fails, the area it returns is exactly the requested range, the map stays well formed
  and the kind of memory at every physical address is what it was.
\<close>

theorem CarvePhysArea_refines:
  assumes "phys_wf m" "(k, v) \<in> set m" "k \<le> a" "0 < s" "a + s \<le> k + pa_size v"
  shows "\<exists>m' w. CarvePhysArea m a s = Some (m', a) \<and> map_of m' a = Some w \<and> pa_base w = a \<and> pa_size w = s
     \<and> phys_wf m' \<and> phys_view m' = phys_view m"
proof -
  obtain X w Y where "ivl_carve pa_size phys_parts m a s = Some (X @ (a, w) # Y, a)"
    "pm.same_map m (X @ (a, w) # Y)" "phys_ok a w" "pa_size w = s" "map_of (X @ (a, w) # Y) a = Some w"
    by (rule pm.carve_ok [OF assms], rule that)
  then show ?thesis
    using CarvePhysArea_eq [OF assms] by (auto simp: phys_ok_def pm.same_map_def)
qed

theorem CarvePhysArea_refines_witness:
  "\<exists>m' w. CarvePhysArea [(0, \<lparr>pa_base = 0, pa_size = 0x10000, pa_memory_type = 0, pa_dma_type = PFree\<rparr>)] 0x4000 0x8000
       = Some (m', 0x4000)
     \<and> map_of m' 0x4000 = Some w \<and> pa_base w = 0x4000 \<and> pa_size w = 0x8000 \<and> phys_wf m'
     \<and> phys_view m' = phys_view [(0, \<lparr>pa_base = 0, pa_size = 0x10000, pa_memory_type = 0, pa_dma_type = PFree\<rparr>)]"
  by (rule CarvePhysArea_refines) (auto simp: phys_ok_def)

text \<open>
  \<^verbatim>\<open>MergeAdjacent\<close> on a well-formed map of physical memory returns, keeps the map well formed,
  changes the kind of memory at no address, and returns an iterator to an area that covers the one
  it was given.
\<close>

lemma MergeAdjacent_phys_refines:
  assumes "phys_wf m" "(k, v) \<in> set m"
  shows "\<exists>m' k' v'. MergeAdjacent_phys m k = Some (m', k') \<and> phys_wf m' \<and> phys_view m' = phys_view m
     \<and> map_of m' k' = Some v' \<and> k' \<le> k \<and> k + pa_size v \<le> k' + pa_size v'"
proof -
  obtain m' k' v' where r: "ivl_merge phys_can phys_grow m k = Some (m', k')" "pm.coarsens m m'"
    "(k', v') \<in> set m'" "k' \<le> k" "k + pa_size v \<le> k' + pa_size v'"
    by (rule pm.merge_ok [OF assms(1) pm.keyed_touching [OF phys_keyed] assms(2)])
  have "phys_wf m'" "phys_view m' = phys_view m"
    using pm.coarsens_same [OF r(2)] by (auto simp: pm.same_map_def)
  moreover from this(1) r(3) have "map_of m' k' = Some v'"
    by (rule ivl_wf_lookup)
  ultimately show ?thesis
    using r by (auto simp: MergeAdjacent_phys_eq)
qed

end
