(* ===== verification/Virtual_Memory.thy ===== *)
theory Virtual_Memory
  imports Physical_Memory
begin

text \<open>
  Virtual memory areas (\<^verbatim>\<open>src/core/memory.h\<close>, \<^verbatim>\<open>memory.cpp\<close>): the record \<^verbatim>\<open>VirtualMemoryArea\<close>, its
  predicates, and the overloads of \<^verbatim>\<open>Split\<close>, \<^verbatim>\<open>MergeAdjacent\<close> and \<^verbatim>\<open>CarveVMA\<close> on the map of
  areas, which also split and join the physical areas behind a virtual one.

  The interpretation \<open>vm\<close> makes the map an interval map whose content at an address is the type,
  the protection, the name, the merge flag and the physical byte behind the address.
\<close>

section \<open>Data\<close>

datatype VMAType = VFree | VReserved | VDirect | VFlexible | VPooled | VPoolReserved | VStack | VCode | VFile

definition MemoryProt_CpuRead :: flags32 where "MemoryProt_CpuRead = 1"
definition MemoryProt_CpuWrite :: flags32 where "MemoryProt_CpuWrite = 2"
definition MemoryProt_CpuReadWrite :: flags32 where "MemoryProt_CpuReadWrite = 3"
definition MemoryProt_CpuExec :: flags32 where "MemoryProt_CpuExec = 4"
definition MemoryProt_GpuRead :: flags32 where "MemoryProt_GpuRead = 16"
definition MemoryProt_GpuWrite :: flags32 where "MemoryProt_GpuWrite = 32"
definition MemoryProt_GpuReadWrite :: flags32 where "MemoryProt_GpuReadWrite = 48"

lemmas MemoryProt_defs [model_defs] =
  MemoryProt_CpuRead_def MemoryProt_CpuWrite_def MemoryProt_CpuReadWrite_def MemoryProt_CpuExec_def
  MemoryProt_GpuRead_def MemoryProt_GpuWrite_def MemoryProt_GpuReadWrite_def

definition MapFlag_Fixed :: flags32 where "MapFlag_Fixed = 0x10"
definition MapFlag_NoOverwrite :: flags32 where "MapFlag_NoOverwrite = 0x80"
definition MapFlag_Void :: flags32 where "MapFlag_Void = 0x100"
definition MapFlag_Stack :: flags32 where "MapFlag_Stack = 0x400"
definition MapFlag_Anon :: flags32 where "MapFlag_Anon = 0x1000"
definition MapFlag_NoCoalesce :: flags32 where "MapFlag_NoCoalesce = 0x400000"

lemmas MapFlag_defs [model_defs] =
  MapFlag_Fixed_def MapFlag_NoOverwrite_def MapFlag_Void_def MapFlag_Stack_def MapFlag_Anon_def
  MapFlag_NoCoalesce_def

text \<open>\<^verbatim>\<open>True(a & b)\<close> of \<^verbatim>\<open>DECLARE_ENUM_FLAG_OPERATORS\<close>: some bit of \<open>b\<close> is set in \<open>a\<close>.\<close>

definition has_flag :: "flags32 \<Rightarrow> flags32 \<Rightarrow> bool" where
  "has_flag a b \<longleftrightarrow> (a AND b) \<noteq> 0"

record VirtualMemoryArea =
  vma_base :: u64
  vma_size :: u64
  vma_phys_areas :: PhysMap
  vma_type :: VMAType
  vma_prot :: flags32
  vma_name :: string
  vma_fd :: s32
  vma_disallow_merge :: bool

type_synonym VMAMap = "(u64, VirtualMemoryArea) omap"

section \<open>Predicates of an area\<close>

definition VMA_Contains :: "VirtualMemoryArea \<Rightarrow> u64 \<Rightarrow> u64 \<Rightarrow> bool" where
  "VMA_Contains v addr sz \<longleftrightarrow>
     addr \<ge> vma_base v \<and> add64 addr sz \<le> add64 (vma_base v) (vma_size v)"

definition VMA_Overlaps :: "VirtualMemoryArea \<Rightarrow> u64 \<Rightarrow> u64 \<Rightarrow> bool" where
  "VMA_Overlaps v addr sz \<longleftrightarrow>
     addr < add64 (vma_base v) (vma_size v) \<and> add64 addr sz > vma_base v"

definition IsFree :: "VirtualMemoryArea \<Rightarrow> bool" where
  "IsFree v \<longleftrightarrow> vma_type v = VFree"

definition IsMapped :: "VirtualMemoryArea \<Rightarrow> bool" where
  "IsMapped v \<longleftrightarrow> vma_type v \<noteq> VFree \<and> vma_type v \<noteq> VReserved \<and> vma_type v \<noteq> VPoolReserved"

definition HasPhysicalBacking :: "VirtualMemoryArea \<Rightarrow> bool" where
  "HasPhysicalBacking v \<longleftrightarrow> vma_type v = VDirect \<or> vma_type v = VFlexible \<or> vma_type v = VPooled"

text \<open>\<^verbatim>\<open>std::prev(m.end())->second\<close> and \<^verbatim>\<open>m.begin()->second\<close>.\<close>

definition last_area :: "PhysMap \<Rightarrow> PhysicalMemoryArea option" where
  "last_area m = (if m = [] then None else Some (snd (last m)))"

definition first_area :: "PhysMap \<Rightarrow> PhysicalMemoryArea option" where
  "first_area m = (if m = [] then None else Some (snd (hd m)))"

definition VMA_CanMergeWith :: "VirtualMemoryArea \<Rightarrow> VirtualMemoryArea \<Rightarrow> bool option" where
  "VMA_CanMergeWith v next =
     (if vma_disallow_merge v \<or> vma_disallow_merge next then Some False
      else if add64 (vma_base v) (vma_size v) \<noteq> vma_base next then Some False
      else do {
        direct_mismatch \<leftarrow>
          (if vma_type v = VDirect \<and> vma_type next = VDirect then do {
             last_phys \<leftarrow> last_area (vma_phys_areas v);
             first_next_phys \<leftarrow> first_area (vma_phys_areas next);
             Some (add64 (pa_base last_phys) (pa_size last_phys) \<noteq> pa_base first_next_phys
                   \<or> pa_memory_type last_phys \<noteq> pa_memory_type first_next_phys)
           } else Some False);
        Some (if direct_mismatch then False
              else if vma_prot v \<noteq> vma_prot next \<or> vma_type v \<noteq> vma_type next then False
              else if vma_name v \<noteq> vma_name next then False
              else True)
      })"

section \<open>Splitting, merging, carving\<close>

text \<open>One round of the loop of \<^verbatim>\<open>Split\<close> over the physical areas of the old area.\<close>

definition split_area_step ::
  "u64 \<Rightarrow> PhysMap \<times> PhysMap \<Rightarrow> u64 \<times> PhysicalMemoryArea \<Rightarrow> PhysMap \<times> PhysMap" where
  "split_area_step offset_in_vma acc area =
     (let old_areas = fst acc; new_areas = snd acc; off = fst area; region = snd area;
          old1 = (if add64 off (pa_size region) \<le> offset_in_vma
                  then om_put off region old_areas else old_areas);
          both = off < offset_in_vma \<and> add64 off (pa_size region) > offset_in_vma;
          size_in_old = sub64 offset_in_vma off;
          old2 = (if both then om_put off (region\<lparr>pa_size := size_in_old\<rparr>) old1 else old1);
          new2 = (if both
                  then om_put 0 (region\<lparr>pa_base := add64 (pa_base region) size_in_old,
                                        pa_size := sub64 (pa_size region) size_in_old\<rparr>) new_areas
                  else new_areas);
          new3 = (if off \<ge> offset_in_vma then om_put (sub64 off offset_in_vma) region new2 else new2)
      in (old2, new3))"

definition vma_split_parts :: "VirtualMemoryArea \<Rightarrow> u64 \<Rightarrow> VirtualMemoryArea \<times> VirtualMemoryArea" where
  "vma_split_parts old off =
     (let old1 = old\<lparr>vma_size := off\<rparr>;
          new1 = old\<lparr>vma_base := add64 (vma_base old) off, vma_size := sub64 (vma_size old) off\<rparr>
      in if HasPhysicalBacking new1
         then let (old_areas, new_areas) = foldl (split_area_step off) ([], []) (vma_phys_areas old)
              in (old1\<lparr>vma_phys_areas := old_areas\<rparr>, new1\<lparr>vma_phys_areas := new_areas\<rparr>)
         else (old1, new1))"

definition Split_vma :: "VMAMap \<Rightarrow> u64 \<Rightarrow> u64 \<Rightarrow> (VMAMap \<times> u64) option" where
  "Split_vma m vma_handle offset_in_vma = do {
     old_vma \<leftarrow> map_of m vma_handle;
     assert_opt (offset_in_vma < vma_size old_vma \<and> offset_in_vma > 0);
     let (old', new_vma) = vma_split_parts old_vma offset_in_vma;
     Some (om_emplace (vma_base new_vma) new_vma (om_put vma_handle old' m), vma_base new_vma)
   }"

definition CarveVMA :: "VMAMap \<Rightarrow> u64 \<Rightarrow> u64 \<Rightarrow> (VMAMap \<times> u64) option" where
  "CarveVMA m virtual_addr sz = do {
     vma_handle \<leftarrow> om_floor m virtual_addr;
     vma \<leftarrow> map_of m vma_handle;
     assert_opt (vma_base vma \<le> virtual_addr);
     let start_in_vma = sub64 virtual_addr (vma_base vma);
     let end_in_vma = add64 start_in_vma sz;
     (if start_in_vma = 0 \<and> sz = vma_size vma then Some (m, vma_handle)
      else do {
        assert_opt (end_in_vma \<le> vma_size vma);
        m1 \<leftarrow> (if end_in_vma \<noteq> vma_size vma
              then map_option fst (Split_vma m vma_handle end_in_vma) else Some m);
        (if start_in_vma \<noteq> 0 then Split_vma m1 vma_handle start_in_vma
         else Some (m1, vma_handle))
      })
   }"

text \<open>\<^verbatim>\<open>iter->second.phys_areas[base_offset + area.first] = area.second\<close> for every area of the next one.\<close>

definition append_areas :: "u64 \<Rightarrow> PhysMap \<Rightarrow> PhysMap \<Rightarrow> PhysMap" where
  "append_areas base_offset dst src =
     foldl (\<lambda>m area. om_put (add64 base_offset (fst area)) (snd area) m) dst src"

definition vma_grow :: "VirtualMemoryArea \<Rightarrow> VirtualMemoryArea \<Rightarrow> VirtualMemoryArea" where
  "vma_grow v next =
     v\<lparr>vma_size := add64 (vma_size v) (vma_size next),
       vma_phys_areas := append_areas (vma_size v) (vma_phys_areas v) (vma_phys_areas next)\<rparr>"

definition MergeAdjacent_vma :: "VMAMap \<Rightarrow> u64 \<Rightarrow> (VMAMap \<times> u64) option" where
  "MergeAdjacent_vma m iter = do {
     vma \<leftarrow> map_of m iter;
     m1 \<leftarrow> (case om_next m iter of
        None \<Rightarrow> Some m
      | Some next_vma \<Rightarrow> do {
          next_area \<leftarrow> map_of m next_vma;
          mergeable \<leftarrow> VMA_CanMergeWith vma next_area;
          Some (if mergeable then om_erase next_vma (om_put iter (vma_grow vma next_area) m) else m) });
     vma1 \<leftarrow> map_of m1 iter;
     (case om_prev m1 iter of
        None \<Rightarrow> Some (m1, iter)
      | Some prev_vma \<Rightarrow> do {
          prev_area \<leftarrow> map_of m1 prev_vma;
          mergeable \<leftarrow> VMA_CanMergeWith prev_area vma1;
          Some (if mergeable
                then (om_erase iter (om_put prev_vma (vma_grow prev_area vma1) m1), prev_vma)
                else (m1, iter)) })
   }"

section \<open>Well-formed areas and their content\<close>

definition backing_wf :: "PhysMap \<Rightarrow> u64 \<Rightarrow> bool" where
  "backing_wf m sz \<longleftrightarrow> ivl_contig pa_size m 0 sz \<and> (\<forall>p\<in>set m. backing_ok (fst p) (snd p))"

definition vma_ok :: "u64 \<Rightarrow> VirtualMemoryArea \<Rightarrow> bool" where
  "vma_ok k v \<longleftrightarrow>
     vma_base v = k \<and> 0 < vma_size v \<and> k + vma_size v < U64_MOD
     \<and> (if HasPhysicalBacking v then backing_wf (vma_phys_areas v) (vma_size v)
        else vma_phys_areas v = [])"

type_synonym byte_info =
  "VMAType \<times> flags32 \<times> string \<times> bool \<times> (u64 \<times> s32 \<times> PhysicalMemoryType) option"

definition vma_byte :: "VirtualMemoryArea \<Rightarrow> nat \<Rightarrow> byte_info" where
  "vma_byte v off =
     (vma_type v, vma_prot v, vma_name v, vma_disallow_merge v,
      iview pa_size backing_byte (vma_phys_areas v) off)"

abbreviation vma_wf :: "VMAMap \<Rightarrow> bool" where
  "vma_wf m \<equiv> ivl_wf vma_size vma_ok m"

abbreviation vma_view :: "VMAMap \<Rightarrow> u64 \<Rightarrow> byte_info option" where
  "vma_view m \<equiv> iview vma_size vma_byte m"

section \<open>The physical areas of an area under splitting and joining\<close>

lemma backing_wfD:
  assumes "backing_wf m sz"
  shows "ivl_contig pa_size m 0 sz" "om_wf m" "\<forall>p\<in>set m. fst p < sz"
    "\<And>p. p \<in> set m \<Longrightarrow> backing_ok (fst p) (snd p)"
    "\<And>p. p \<in> set m \<Longrightarrow> 0 < pa_size (snd p)"
    "\<And>p. p \<in> set m \<Longrightarrow> fst p + pa_size (snd p) \<le> sz"
proof -
  show c: "ivl_contig pa_size m 0 sz" and ok: "\<And>p. p \<in> set m \<Longrightarrow> backing_ok (fst p) (snd p)"
    using assms by (auto simp: backing_wf_def)
  show pos: "\<And>p. p \<in> set m \<Longrightarrow> 0 < pa_size (snd p)"
    using ok by (auto simp: backing_ok_def)
  show "om_wf m" "\<forall>p\<in>set m. fst p < sz"
    using ivl_contig_om_wf [OF c pos] by auto
  show "\<And>p. p \<in> set m \<Longrightarrow> fst p + pa_size (snd p) \<le> sz"
    using ivl_contig_bounds [OF c] by blast
qed

lemma split_areas_before:
  assumes "ivl_contig pa_size m lo hi" "hi \<le> off" "ivl_contig pa_size old 0 lo"
    and "\<forall>p\<in>set old \<union> set m. 0 < pa_size (snd p) \<and> fst p + pa_size (snd p) < U64_MOD"
  shows "foldl (split_area_step off) (old, new) m = (old @ m, new)"
  using assms
proof (induction m arbitrary: lo old)
  case (Cons p m)
  have lo: "fst p = lo" and m: "ivl_contig pa_size m (lo + pa_size (snd p)) hi"
    using Cons.prems(1) by auto
  have "lo + pa_size (snd p) \<le> off"
    using ivl_contig_le [OF m] Cons.prems(2) by simp
  moreover have "om_wf old" "\<forall>q\<in>set old. fst q < lo"
    using ivl_contig_om_wf [OF Cons.prems(3)] Cons.prems(4) by auto
  ultimately have step: "split_area_step off (old, new) p = (old @ [p], new)"
    using Cons.prems(4) lo [symmetric] by (simp add: split_area_step_def Let_def om_put_snoc)
  have "ivl_contig pa_size (old @ [p]) 0 (lo + pa_size (snd p))"
    using Cons.prems(3) lo by (auto simp: ivl_contig_append)
  from Cons.IH [OF m Cons.prems(2) this] Cons.prems(4) step show ?case
    by simp
qed simp

lemma split_areas_after:
  assumes "ivl_contig pa_size m lo hi" "off \<le> lo" "hi < U64_MOD" "ivl_contig pa_size new 0 (lo - off)"
    and "\<forall>p\<in>set new \<union> set m. 0 < pa_size (snd p)"
  shows "foldl (split_area_step off) (old, new) m = (old, new @ shift_down off m)"
  using assms
proof (induction m arbitrary: lo new)
  case (Cons p m)
  have lo: "fst p = lo" and m: "ivl_contig pa_size m (lo + pa_size (snd p)) hi"
    using Cons.prems(1) by auto
  have hi: "lo + pa_size (snd p) \<le> hi"
    using ivl_contig_le [OF m] .
  have pos: "0 < pa_size (snd p)"
    using Cons.prems(5) by simp
  have new: "om_wf new" "\<forall>q\<in>set new. fst q < lo - off"
    using ivl_contig_om_wf [OF Cons.prems(4)] Cons.prems(5) by auto
  have step: "split_area_step off (old, new) p = (old, new @ [(lo - off, snd p)])"
    using lo hi pos new Cons.prems(2,3)
    by (simp add: split_area_step_def Let_def om_put_snoc)
  have "ivl_contig pa_size (new @ [(lo - off, snd p)]) 0 (lo + pa_size (snd p) - off)"
    using Cons.prems(2,4) by (auto simp: ivl_contig_append)
  from Cons.IH [OF m _ Cons.prems(3) this] Cons.prems(2,5) step lo show ?case
    by (simp add: shift_down_def)
qed (simp add: shift_down_def)

lemma append_areas_eq:
  assumes "ivl_contig pa_size src lo hi" "base + hi < U64_MOD"
    and "ivl_contig pa_size dst 0 (base + lo)" "\<forall>p\<in>set src \<union> set dst. 0 < pa_size (snd p)"
  shows "append_areas base dst src = dst @ shift_up base src"
  using assms
proof (induction src arbitrary: lo dst)
  case (Cons p src)
  have lo: "fst p = lo" and src: "ivl_contig pa_size src (lo + pa_size (snd p)) hi"
    using Cons.prems(1) by auto
  have hi: "lo + pa_size (snd p) \<le> hi"
    using ivl_contig_le [OF src] .
  have dst: "om_wf dst" "\<forall>q\<in>set dst. fst q < base + lo"
    using ivl_contig_om_wf [OF Cons.prems(3)] Cons.prems(4) by auto
  have "om_put (add64 base (fst p)) (snd p) dst = dst @ [(base + lo, snd p)]"
    using lo hi dst Cons.prems(2) by (simp add: om_put_snoc)
  moreover have "ivl_contig pa_size (dst @ [(base + lo, snd p)]) 0 (base + (lo + pa_size (snd p)))"
    using Cons.prems(3) by (auto simp: ivl_contig_append)
  ultimately show ?case
    using Cons.IH [OF src Cons.prems(2), of "dst @ [(base + lo, snd p)]"] Cons.prems(4) lo
    by (simp add: append_areas_def shift_up_def)
qed (simp add: append_areas_def shift_up_def)

lemma backing_ok_le: "backing_ok k a \<Longrightarrow> k' \<le> k \<Longrightarrow> backing_ok k' a"
  by (simp add: backing_ok_def)

lemma backing_ok_cut:
  assumes "backing_ok k r" "0 < d" "d < pa_size r"
  shows "backing_ok k (r\<lparr>pa_size := d\<rparr>)"
    and "backing_ok 0 (r\<lparr>pa_base := add64 (pa_base r) d, pa_size := sub64 (pa_size r) d\<rparr>)"
  using assms by (auto simp: backing_ok_def)

lemma split_areas_eq:
  assumes xs: "ivl_contig pa_size xs 0 k" and ys: "ivl_contig pa_size ys (k + pa_size r) sz"
    and sz: "sz < U64_MOD" and off: "k \<le> off" "off < k + pa_size r"
    and ok: "\<forall>p\<in>set (xs @ (k, r) # ys). backing_ok (fst p) (snd p)"
  shows "foldl (split_area_step off) ([], []) (xs @ (k, r) # ys) =
    (if k = off then (xs, (0, r) # shift_down off ys)
     else (xs @ [(k, r\<lparr>pa_size := off - k\<rparr>)],
           (0, r\<lparr>pa_base := add64 (pa_base r) (off - k), pa_size := sub64 (pa_size r) (off - k)\<rparr>)
           # shift_down off ys))"
proof -
  have le: "k + pa_size r \<le> sz"
    using ys by (rule ivl_contig_le)
  have pos: "\<forall>p\<in>set xs. 0 < pa_size (snd p) \<and> fst p + pa_size (snd p) < U64_MOD"
    "\<forall>p\<in>set ys. 0 < pa_size (snd p)" "0 < pa_size r"
    using ok by (auto simp: backing_ok_def)
  have 1: "foldl (split_area_step off) ([], []) xs = (xs, [])"
    using split_areas_before [OF xs, of off "[]" "[]"] off pos by simp
  have om: "om_wf xs" "\<forall>p\<in>set xs. fst p < k"
    using ivl_contig_om_wf [OF xs] pos by auto
  show ?thesis
  proof (cases "k = off")
    case True
    then have "split_area_step off (xs, []) (k, r) = (xs, [(0, r)])"
      using le sz pos by (simp add: split_area_step_def Let_def)
    moreover have "foldl (split_area_step off) (xs, [(0, r)]) ys = (xs, [(0, r)] @ shift_down off ys)"
      using True pos sz by (intro split_areas_after [OF ys]) auto
    ultimately show ?thesis using 1 True by simp
  next
    case False
    let ?r2 = "r\<lparr>pa_base := add64 (pa_base r) (off - k), pa_size := sub64 (pa_size r) (off - k)\<rparr>"
    have step: "split_area_step off (xs, []) (k, r) = (xs @ [(k, r\<lparr>pa_size := off - k\<rparr>)], [(0, ?r2)])"
      using False off le sz pos om by (simp add: split_area_step_def Let_def om_put_snoc)
    have "pa_size ?r2 = k + pa_size r - off"
      using off le sz False by simp
    then have "foldl (split_area_step off) (xs @ [(k, r\<lparr>pa_size := off - k\<rparr>)], [(0, ?r2)]) ys
        = (xs @ [(k, r\<lparr>pa_size := off - k\<rparr>)], [(0, ?r2)] @ shift_down off ys)"
      using off pos sz by (intro split_areas_after [OF ys]) auto
    then show ?thesis using 1 step False by simp
  qed
qed

text \<open>
  Splitting the physical areas at an offset: both halves are again contiguous from \<open>0\<close>, and every
  offset keeps its physical byte.
\<close>

lemma split_areas:
  assumes wf: "backing_wf m sz" and sz: "sz < U64_MOD" and off: "0 < off" "off < sz"
  obtains old new where "foldl (split_area_step off) ([], []) m = (old, new)"
    "backing_wf old off" "backing_wf new (sz - off)"
    "\<And>i. i < off \<Longrightarrow> iview pa_size backing_byte old i = iview pa_size backing_byte m i"
    "\<And>i. iview pa_size backing_byte new i = iview pa_size backing_byte m (off + i)"
proof -
  note D = backing_wfD [OF wf]
  obtain k r where kr: "(k, r) \<in> set m" "k \<le> off" "off < k + pa_size r"
    using ivl_contig_cover [OF D(1), of off] off by auto
  obtain xs ys where m: "m = xs @ (k, r) # ys"
    using kr(1) by (meson split_list)
  have xs: "ivl_contig pa_size xs 0 k" and ys: "ivl_contig pa_size ys (k + pa_size r) sz"
    using D(1) by (auto simp: m ivl_contig_append)
  have ok: "\<forall>p\<in>set (xs @ (k, r) # ys). backing_ok (fst p) (snd p)"
    using D(4) by (simp add: m)
  note eq = split_areas_eq [OF xs ys sz kr(2,3) ok, folded m]
  have ysb: "\<forall>p\<in>set ys. off \<le> fst p"
    using ivl_contig_bounds [OF ys] kr(3) by fastforce
  have xsb: "\<forall>p\<in>set xs. fst p + pa_size (snd p) \<le> k"
    using ivl_contig_bounds [OF xs] by blast
  have sdok: "\<forall>p\<in>set (shift_down off ys). backing_ok (fst p) (snd p)"
    using ok by (auto simp: shift_down_def intro: backing_ok_le)
  have sdc: "ivl_contig pa_size (shift_down off ys) (k + pa_size r - off) (sz - off)"
    using ivl_contig_shift_down [OF ys, of off] kr(3) by simp
  have xsN: "iview pa_size backing_byte xs i = None" if "k \<le> i" for i
    using xsb that by (intro iview_NoneI) fastforce
  have okr: "backing_ok k r"
    using ok by simp
  show thesis
  proof (cases "k = off")
    case True
    show thesis
    proof (rule that [of xs "(0, r) # shift_down off ys"])
      show "backing_wf xs off" "backing_wf ((0, r) # shift_down off ys) (sz - off)"
        using xs ok True sdok sdc okr backing_ok_le [of k r 0] by (auto simp: backing_wf_def)
      show "iview pa_size backing_byte xs i = iview pa_size backing_byte m i" if "i < off" for i
        using that True ysb unfolding m iview_append
        by (auto split: option.splits intro!: iview_NoneI [symmetric])
      show "iview pa_size backing_byte ((0, r) # shift_down off ys) i = iview pa_size backing_byte m (off + i)" for i
        using True ysb xsN [of "off + i"] by (simp add: m iview_append iview_shift_down)
    qed (use eq True in simp)
  next
    case False
    let ?r1 = "r\<lparr>pa_size := off - k\<rparr>"
    let ?r2 = "r\<lparr>pa_base := add64 (pa_base r) (off - k), pa_size := sub64 (pa_size r) (off - k)\<rparr>"
    have d: "0 < off - k" "off - k < pa_size r"
      using False kr by auto
    have rb: "pa_base r + pa_size r < U64_MOD"
      using okr by (simp add: backing_ok_def)
    have r2: "pa_size ?r2 = k + pa_size r - off" "pa_base ?r2 = pa_base r + (off - k)"
      using d rb kr False by (auto simp: sub64_exact)
    show thesis
    proof (rule that [of "xs @ [(k, ?r1)]" "(0, ?r2) # shift_down off ys"])
      show "backing_wf (xs @ [(k, ?r1)]) off"
        using xs ok kr(2) backing_ok_cut(1) [OF okr d] by (auto simp: backing_wf_def ivl_contig_append)
      show "backing_wf ((0, ?r2) # shift_down off ys) (sz - off)"
        using sdok sdc backing_ok_cut(2) [OF okr d] r2 by (auto simp: backing_wf_def)
      show "iview pa_size backing_byte (xs @ [(k, ?r1)]) i = iview pa_size backing_byte m i" if "i < off" for i
        using that kr ysb unfolding m iview_append
        by (auto simp: backing_byte_def split: option.splits intro!: iview_NoneI [symmetric])
      show "iview pa_size backing_byte ((0, ?r2) # shift_down off ys) i = iview pa_size backing_byte m (off + i)" for i
        using r2 kr(2,3) ysb xsN [of "off + i"]
        by (auto simp: m iview_append iview_shift_down backing_byte_def)
    qed (use eq False in simp)
  qed
qed

lemma join_areas:
  assumes a: "backing_wf m sz" and b: "backing_wf m' sz'" and lim: "sz + sz' < U64_MOD"
  shows "append_areas sz m m' = m @ shift_up sz m'" "backing_wf (append_areas sz m m') (sz + sz')"
    "\<And>i. i < sz \<Longrightarrow> iview pa_size backing_byte (append_areas sz m m') i = iview pa_size backing_byte m i"
    "\<And>i. sz \<le> i \<Longrightarrow> iview pa_size backing_byte (append_areas sz m m') i = iview pa_size backing_byte m' (i - sz)"
proof -
  note A = backing_wfD [OF a] and B = backing_wfD [OF b]
  show eq: "append_areas sz m m' = m @ shift_up sz m'"
    using A(1,5) B(1,5) lim by (intro append_areas_eq [of _ 0 sz']) auto
  have "backing_ok (sz + fst p) (snd p)" if "p \<in> set m'" for p
    using B(4) [OF that] B(6) [OF that] lim by (auto simp: backing_ok_def)
  then show "backing_wf (append_areas sz m m') (sz + sz')"
    using A(1,4) ivl_contig_shift_up [OF B(1), of sz]
    unfolding eq backing_wf_def by (auto simp: ivl_contig_append shift_up_def)
  show "iview pa_size backing_byte (append_areas sz m m') i = iview pa_size backing_byte m i" if "i < sz" for i
    using that unfolding eq by (simp add: iview_append iview_shift_up split: option.splits)
  have "iview pa_size backing_byte m i = None" if "sz \<le> i" for i
    using that A(6) by (intro iview_NoneI) fastforce
  then show "iview pa_size backing_byte (append_areas sz m m') i = iview pa_size backing_byte m' (i - sz)"
    if "sz \<le> i" for i
    using that unfolding eq by (simp add: iview_append iview_shift_up)
qed

section \<open>The map of virtual areas as an interval map\<close>

lemma VMA_CanMergeWith_TrueD:
  "VMA_CanMergeWith v v' = Some True \<Longrightarrow>
     add64 (vma_base v) (vma_size v) = vma_base v' \<and> vma_type v = vma_type v'
     \<and> vma_prot v = vma_prot v' \<and> vma_name v = vma_name v'
     \<and> \<not> vma_disallow_merge v \<and> \<not> vma_disallow_merge v'"
  by (auto simp: VMA_CanMergeWith_def split: if_splits bind_splits)

lemma backing_wf_nonempty: "backing_wf m sz \<Longrightarrow> 0 < sz \<Longrightarrow> m \<noteq> []"
  by (auto simp: backing_wf_def)

lemma vma_can_total:
  assumes "vma_ok k v" "vma_ok k' v'"
  shows "\<exists>b. VMA_CanMergeWith v v' = Some b"
proof (cases "vma_type v = VDirect \<and> vma_type v' = VDirect")
  case True
  then have "vma_phys_areas v \<noteq> []" "vma_phys_areas v' \<noteq> []"
    using assms backing_wf_nonempty by (auto simp: vma_ok_def HasPhysicalBacking_def)
  then show ?thesis
    by (auto simp: VMA_CanMergeWith_def last_area_def first_area_def)
next
  case False
  then show ?thesis by (auto simp: VMA_CanMergeWith_def)
qed

lemma vma_grow_props:
  assumes "vma_ok k v" "vma_ok (k + vma_size v) v'" "VMA_CanMergeWith v v' = Some True"
  shows "vma_size (vma_grow v v') = vma_size v + vma_size v'" "vma_ok k (vma_grow v v')"
    "off < vma_size v + vma_size v' \<Longrightarrow> vma_byte (vma_grow v v') off =
       (if off < vma_size v then vma_byte v off else vma_byte v' (off - vma_size v))"
proof -
  note T = VMA_CanMergeWith_TrueD [OF assms(3)]
  have lim: "k + vma_size v + vma_size v' < U64_MOD"
    using assms(2) by (simp add: vma_ok_def)
  have hb: "HasPhysicalBacking v' = HasPhysicalBacking v" "HasPhysicalBacking (vma_grow v v') = HasPhysicalBacking v"
    using T by (auto simp: HasPhysicalBacking_def vma_grow_def)
  show sz: "vma_size (vma_grow v v') = vma_size v + vma_size v'"
    using lim by (simp add: vma_grow_def)
  have "(if HasPhysicalBacking v
         then backing_wf (vma_phys_areas (vma_grow v v')) (vma_size v + vma_size v')
         else vma_phys_areas (vma_grow v v') = [])
      \<and> (off < vma_size v + vma_size v' \<longrightarrow> vma_byte (vma_grow v v') off =
           (if off < vma_size v then vma_byte v off else vma_byte v' (off - vma_size v)))"
  proof (cases "HasPhysicalBacking v")
    case True
    then have "backing_wf (vma_phys_areas v) (vma_size v)" "backing_wf (vma_phys_areas v') (vma_size v')"
      using assms hb by (auto simp: vma_ok_def)
    from join_areas [OF this] lim True T show ?thesis
      by (auto simp: vma_grow_def vma_byte_def)
  next
    case False
    then have "vma_phys_areas v = []" "vma_phys_areas v' = []"
      using assms hb by (auto simp: vma_ok_def)
    then show ?thesis
      using False T by (auto simp: vma_grow_def vma_byte_def append_areas_def)
  qed
  then show "vma_ok k (vma_grow v v')"
    and "off < vma_size v + vma_size v' \<Longrightarrow> vma_byte (vma_grow v v') off =
       (if off < vma_size v then vma_byte v off else vma_byte v' (off - vma_size v))"
    using assms(1) sz hb lim by (auto simp: vma_ok_def vma_grow_def)
qed

lemma vma_split_parts_props:
  assumes ok: "vma_ok k v" and off: "0 < off" "off < vma_size v"
  shows "vma_size (fst (vma_split_parts v off)) = off \<and>
         vma_size (snd (vma_split_parts v off)) = vma_size v - off"
    "vma_ok k (fst (vma_split_parts v off)) \<and> vma_ok (k + off) (snd (vma_split_parts v off))"
    "i < off \<Longrightarrow> vma_byte (fst (vma_split_parts v off)) i = vma_byte v i"
    "i < vma_size v - off \<Longrightarrow> vma_byte (snd (vma_split_parts v off)) i = vma_byte v (off + i)"
    "vma_base (snd (vma_split_parts v off)) = k + off"
proof -
  have b: "vma_base v = k" "k + vma_size v < U64_MOD"
    using ok by (auto simp: vma_ok_def)
  have hb: "HasPhysicalBacking (v\<lparr>vma_base := x, vma_size := y\<rparr>) = HasPhysicalBacking v" for x y
    by (simp add: HasPhysicalBacking_def)
  have "vma_size (fst (vma_split_parts v off)) = off \<and>
        vma_size (snd (vma_split_parts v off)) = vma_size v - off \<and>
        vma_ok k (fst (vma_split_parts v off)) \<and> vma_ok (k + off) (snd (vma_split_parts v off)) \<and>
        (i < off \<longrightarrow> vma_byte (fst (vma_split_parts v off)) i = vma_byte v i) \<and>
        (i < vma_size v - off \<longrightarrow> vma_byte (snd (vma_split_parts v off)) i = vma_byte v (off + i)) \<and>
        vma_base (snd (vma_split_parts v off)) = k + off"
  proof (cases "HasPhysicalBacking v")
    case True
    then have "backing_wf (vma_phys_areas v) (vma_size v)"
      using ok by (simp add: vma_ok_def)
    then obtain old new where "foldl (split_area_step off) ([], []) (vma_phys_areas v) = (old, new)"
      "backing_wf old off" "backing_wf new (vma_size v - off)"
      "\<And>i. i < off \<Longrightarrow> iview pa_size backing_byte old i = iview pa_size backing_byte (vma_phys_areas v) i"
      "\<And>i. iview pa_size backing_byte new i = iview pa_size backing_byte (vma_phys_areas v) (off + i)"
      using split_areas [of "vma_phys_areas v" "vma_size v" off] off b by auto
    with True b off hb show ?thesis
      by (auto simp: vma_split_parts_def Let_def vma_ok_def vma_byte_def HasPhysicalBacking_def)
  next
    case False
    then have "vma_phys_areas v = []"
      using ok by (simp add: vma_ok_def)
    with False b off hb show ?thesis
      by (auto simp: vma_split_parts_def Let_def vma_ok_def vma_byte_def HasPhysicalBacking_def)
  qed
  then show "vma_size (fst (vma_split_parts v off)) = off \<and>
         vma_size (snd (vma_split_parts v off)) = vma_size v - off"
    "vma_ok k (fst (vma_split_parts v off)) \<and> vma_ok (k + off) (snd (vma_split_parts v off))"
    "i < off \<Longrightarrow> vma_byte (fst (vma_split_parts v off)) i = vma_byte v i"
    "i < vma_size v - off \<Longrightarrow> vma_byte (snd (vma_split_parts v off)) i = vma_byte v (off + i)"
    "vma_base (snd (vma_split_parts v off)) = k + off"
    by blast+
qed

interpretation vm: carving vma_size vma_ok vma_byte VMA_CanMergeWith vma_grow vma_split_parts
  by (unfold_locales; (rule vma_can_total | rule vma_grow_props | rule vma_split_parts_props); assumption)

lemma vma_keyed: "vm.keyed"
  unfolding vm.keyed_def by (auto simp: vma_ok_def dest!: VMA_CanMergeWith_TrueD)

lemma MergeAdjacent_vma_eq: "MergeAdjacent_vma m k = ivl_merge VMA_CanMergeWith vma_grow m k"
  by (simp add: MergeAdjacent_vma_def ivl_merge_def cong: option.case_cong)

lemma Split_vma_eq:
  assumes "vma_wf m" "(k, v) \<in> set m" "off < vma_size v"
  shows "Split_vma m k off = ivl_split vma_size vma_split_parts m k off"
proof (cases "0 < off")
  case True
  have ok: "vma_ok k v"
    using ivl_wf_ok [OF assms(1,2)] by simp
  have "map_of m k = Some v"
    using assms(1,2) by (rule ivl_wf_lookup)
  with vma_split_parts_props(5) [OF ok True assms(3)] True show ?thesis
    by (simp add: Split_vma_def ivl_split_def split_beta)
next
  case False
  then show ?thesis
    by (simp add: Split_vma_def ivl_split_def)
qed

text \<open>
  \<^verbatim>\<open>CarveVMA\<close> returns early when the whole area is asked for; the generic carving does the same work
  in the other cases.
\<close>

lemma CarveVMA_eq:
  assumes wf: "vma_wf m" and mem: "(k, v) \<in> set m" and a: "k \<le> a" "0 < s" "a + s \<le> k + vma_size v"
  shows "CarveVMA m a s = ivl_carve vma_size vma_split_parts m a s"
proof -
  have ok: "vma_ok k v"
    using ivl_wf_ok [OF wf mem] by simp
  have look: "map_of m k = Some v"
    using wf mem by (rule ivl_wf_lookup)
  have fl: "om_floor m a = Some k"
    using a by (intro om_floor_ivl [OF wf mem]) auto
  obtain xs ys where m: "m = xs @ (k, v) # ys"
    using mem by (meson split_list)
  have bounds: "sub64 a (vma_base v) = a - k" "add64 (a - k) s = a - k + s" "vma_base v \<le> a"
    "a - k + s \<le> vma_size v"
    using ok a by (auto simp: vma_ok_def)
  let ?gen = "if a - k + s \<noteq> vma_size v
      then map_option fst (ivl_split vma_size vma_split_parts m k (a - k + s)) else Some m"
  have eq1: "(if a - k + s \<noteq> vma_size v then map_option fst (Split_vma m k (a - k + s)) else Some m) = ?gen"
    using bounds(4) Split_vma_eq [OF wf mem, of "a - k + s"] by auto
  have second: "Split_vma m1 k (a - k) = ivl_split vma_size vma_split_parts m1 k (a - k)"
    if "?gen = Some m1" for m1
  proof (cases "a - k + s = vma_size v")
    case True
    with that have "m1 = m" by simp
    with a True show ?thesis by (auto intro!: Split_vma_eq [OF wf mem])
  next
    case False
    then have off: "0 < a - k + s" "a - k + s < vma_size v"
      using a bounds(4) by auto
    have m1: "(k, fst (vma_split_parts v (a - k + s))) \<in> set m1" "vma_wf m1"
      using vm.split_at [OF wf [unfolded m] off] that False unfolding m by (auto simp: vm.same_map_def)
    then show ?thesis
      using a vma_split_parts_props(1) [OF ok off] by (intro Split_vma_eq [OF m1(2,1)]) auto
  qed
  have carve: "CarveVMA m a s = (if a - k = 0 \<and> s = vma_size v then Some (m, k)
      else ?gen \<bind> (\<lambda>m1. if a - k \<noteq> 0 then Split_vma m1 k (a - k) else Some (m1, k)))"
    unfolding CarveVMA_def
    by (simp only: fl look bounds Let_def Option.bind.simps assert_opt_simps eq1)
  have gen: "ivl_carve vma_size vma_split_parts m a s =
      ?gen \<bind> (\<lambda>m1. if a - k \<noteq> 0 then ivl_split vma_size vma_split_parts m1 k (a - k) else Some (m1, k))"
    unfolding ivl_carve_def
    by (simp only: fl look bounds Option.bind.simps assert_opt_simps)
  show ?thesis
  proof (cases "a - k = 0 \<and> s = vma_size v")
    case True
    then show ?thesis unfolding carve gen by simp
  next
    case False
    then have "CarveVMA m a s =
        ?gen \<bind> (\<lambda>m1. if a - k \<noteq> 0 then Split_vma m1 k (a - k) else Some (m1, k))"
      unfolding carve by (rule if_not_P)
    then show ?thesis
      unfolding gen using second by (cases ?gen) simp_all
  qed
qed

section \<open>Refinement of the virtual map\<close>

text \<open>A direct mapping of two separate runs of physical memory, used as an example below.\<close>

definition demo_vma :: VirtualMemoryArea where
  "demo_vma = \<lparr>vma_base = 0x200000000, vma_size = 0x10000,
     vma_phys_areas = [(0, \<lparr>pa_base = 0x100000, pa_size = 0x8000, pa_memory_type = 3, pa_dma_type = PMapped\<rparr>),
                       (0x8000, \<lparr>pa_base = 0x400000, pa_size = 0x8000, pa_memory_type = 3, pa_dma_type = PMapped\<rparr>)],
     vma_type = VDirect, vma_prot = 3, vma_name = ''anon'', vma_fd = 0, vma_disallow_merge = False\<rparr>"

lemma demo_vma_wf: "vma_wf [(0x200000000, demo_vma)]"
  by (simp add: demo_vma_def vma_ok_def HasPhysicalBacking_def backing_wf_def backing_ok_def)

text \<open>
  C27.  \<^verbatim>\<open>CarveVMA\<close> on a well-formed map of virtual areas, for a range inside one area: no assertion
  fails, the area it returns is exactly the requested range, the map stays well formed, and at
  every address the type, protection, name, merge flag and the physical byte behind it are what
  they were.
\<close>

theorem CarveVMA_refines:
  assumes "vma_wf m" "(k, v) \<in> set m" "k \<le> a" "0 < s" "a + s \<le> k + vma_size v"
  shows "\<exists>m' w. CarveVMA m a s = Some (m', a) \<and> map_of m' a = Some w \<and> vma_base w = a \<and> vma_size w = s
     \<and> vma_wf m' \<and> vma_view m' = vma_view m"
proof -
  obtain X w Y where "ivl_carve vma_size vma_split_parts m a s = Some (X @ (a, w) # Y, a)"
    "vm.same_map m (X @ (a, w) # Y)" "vma_ok a w" "vma_size w = s" "map_of (X @ (a, w) # Y) a = Some w"
    by (rule vm.carve_ok [OF assms], rule that)
  then show ?thesis
    using CarveVMA_eq [OF assms] by (auto simp: vma_ok_def vm.same_map_def)
qed

theorem CarveVMA_refines_witness:
  "\<exists>m' w. CarveVMA [(0x200000000, demo_vma)] 0x200004000 0x8000 = Some (m', 0x200004000)
     \<and> map_of m' 0x200004000 = Some w \<and> vma_base w = 0x200004000 \<and> vma_size w = 0x8000 \<and> vma_wf m'
     \<and> vma_view m' = vma_view [(0x200000000, demo_vma)]"
  by (rule CarveVMA_refines [OF demo_vma_wf]) (auto simp: demo_vma_def)

text \<open>
  C28.  \<^verbatim>\<open>MergeAdjacent\<close> on a well-formed map of virtual areas returns, keeps the map well formed,
  changes what is mapped at no address (physical bytes included), and returns an iterator to an
  area that covers the one it was given.
\<close>

theorem MergeAdjacent_vma_refines:
  assumes "vma_wf m" "(k, v) \<in> set m"
  shows "\<exists>m' k' v'. MergeAdjacent_vma m k = Some (m', k') \<and> vma_wf m' \<and> vma_view m' = vma_view m
     \<and> map_of m' k' = Some v' \<and> k' \<le> k \<and> k + vma_size v \<le> k' + vma_size v'"
proof -
  obtain m' k' v' where r: "ivl_merge VMA_CanMergeWith vma_grow m k = Some (m', k')" "vm.coarsens m m'"
    "(k', v') \<in> set m'" "k' \<le> k" "k + vma_size v \<le> k' + vma_size v'"
    by (rule vm.merge_ok [OF assms(1) vm.keyed_touching [OF vma_keyed] assms(2)])
  have "vma_wf m'" "vma_view m' = vma_view m"
    using vm.coarsens_same [OF r(2)] by (auto simp: vm.same_map_def)
  moreover from this(1) r(3) have "map_of m' k' = Some v'"
    by (rule ivl_wf_lookup)
  ultimately show ?thesis
    using r by (auto simp: MergeAdjacent_vma_eq)
qed

theorem MergeAdjacent_vma_refines_witness:
  "\<exists>m' k' v'. MergeAdjacent_vma [(0x200000000, demo_vma)] 0x200000000 = Some (m', k') \<and> vma_wf m'
     \<and> vma_view m' = vma_view [(0x200000000, demo_vma)] \<and> map_of m' k' = Some v' \<and> k' \<le> 0x200000000
     \<and> 0x200000000 + vma_size demo_vma \<le> k' + vma_size v'"
  by (rule MergeAdjacent_vma_refines [OF demo_vma_wf]) simp

end
