(* ===== verification/Memory_Manager.thy ===== *)
theory Memory_Manager
  imports Virtual_Memory
begin

text \<open>
  The state of \<^verbatim>\<open>Core::MemoryManager\<close> (\<^verbatim>\<open>src/core/memory.h\<close>), its construction, the direct memory
  allocator (\<^verbatim>\<open>Allocate\<close>, \<^verbatim>\<open>PoolExpand\<close>) and the operations that only read the state (validity,
  searches and queries), from \<^verbatim>\<open>src/core/memory.cpp\<close>.

  The calls to the host address space (\<^verbatim>\<open>impl.Map\<close>, \<^verbatim>\<open>impl.Unmap\<close>, \dots), to the rasterizer and the
  clearing of backing memory are recorded, in order, in the field \<open>trace\<close>.  Every operation runs
  under the manager's locks in the source and is one transition here.
\<close>

section \<open>State\<close>

datatype effect =
    GpuMap u64 u64
  | GpuUnmap u64 u64
  | GpuInvalidate u64 u64
  | HostMap u64 u64 u64 bool
  | HostMapFile u64 u64 u64 flags32 u64
  | HostUnmap u64 u64
  | HostProtect u64 u64 flags32
  | ZeroBacking u64 u64

record PrtArea =
  prt_start :: u64
  prt_end :: u64
  prt_mapped :: bool

record AddressSpace =
  system_managed_base :: u64
  system_reserved_base :: u64
  user_base :: u64
  user_size :: u64

record MemoryManager =
  impl :: AddressSpace
  dmem_map :: PhysMap
  fmem_map :: PhysMap
  vma_map :: VMAMap
  mapping_generation :: u64
  total_direct_size :: u64
  total_flexible_size :: u64
  flexible_usage :: u64
  pool_budget :: u64
  sdk_version :: s32
  rasterizer :: bool
  prt_areas :: "PrtArea list"
  trace :: "effect list"

abbreviation DEFAULT_MAPPING_BASE :: u64 where "DEFAULT_MAPPING_BASE \<equiv> 0x200000000"
abbreviation ORBIS_KERNEL_TOTAL_MEM :: u64 where "ORBIS_KERNEL_TOTAL_MEM \<equiv> 5248 * MB1"
abbreviation ORBIS_KERNEL_TOTAL_MEM_PRO :: u64 where "ORBIS_KERNEL_TOTAL_MEM_PRO \<equiv> 5888 * MB1"
abbreviation ORBIS_KERNEL_TOTAL_MEM_DEV :: u64 where "ORBIS_KERNEL_TOTAL_MEM_DEV \<equiv> 6656 * MB1"
abbreviation ORBIS_KERNEL_TOTAL_MEM_DEV_PRO :: u64 where "ORBIS_KERNEL_TOTAL_MEM_DEV_PRO \<equiv> 7936 * MB1"
abbreviation ORBIS_KERNEL_FLEXIBLE_MEMORY_BASE :: u64 where "ORBIS_KERNEL_FLEXIBLE_MEMORY_BASE \<equiv> 64 * MB1"
abbreviation ORBIS_KERNEL_FLEXIBLE_MEMORY_SIZE :: u64 where "ORBIS_KERNEL_FLEXIBLE_MEMORY_SIZE \<equiv> 512 * MB1"
abbreviation FW_170 :: u32 where "FW_170 \<equiv> 0x1700000"
abbreviation FW_200 :: u32 where "FW_200 \<equiv> 0x2000000"
abbreviation FW_250 :: u32 where "FW_250 \<equiv> 0x2500000"

definition emit :: "effect \<Rightarrow> MemoryManager \<Rightarrow> MemoryManager" where
  "emit e mm = mm\<lparr>trace := trace mm @ [e]\<rparr>"

text \<open>A call through the rasterizer pointer, which is null until \<^verbatim>\<open>SetRasterizer\<close>.\<close>

definition gpu_call :: "effect \<Rightarrow> MemoryManager \<Rightarrow> MemoryManager option" where
  "gpu_call e mm = (if rasterizer mm then Some (emit e mm) else None)"

definition SetRasterizer :: "bool \<Rightarrow> MemoryManager \<Rightarrow> MemoryManager" where
  "SetRasterizer r mm = mm\<lparr>rasterizer := r\<rparr>"

text \<open>\<^verbatim>\<open>MemoryMapGeneration\<close>: one step when a mutation begins, one when it finishes.\<close>

definition BeginMutation :: "MemoryManager \<Rightarrow> MemoryManager" where
  "BeginMutation mm = mm\<lparr>mapping_generation := add64 (mapping_generation mm) 1\<rparr>"

definition FinishMutation :: "MemoryManager \<Rightarrow> MemoryManager" where
  "FinishMutation mm = mm\<lparr>mapping_generation := add64 (mapping_generation mm) 1\<rparr>"

definition free_vma :: "u64 \<Rightarrow> u64 \<Rightarrow> VirtualMemoryArea" where
  "free_vma b sz = \<lparr>vma_base = b, vma_size = sz, vma_phys_areas = [], vma_type = VFree, vma_prot = 0,
                   vma_name = '''', vma_fd = 0, vma_disallow_merge = False\<rparr>"

definition free_phys :: "u64 \<Rightarrow> u64 \<Rightarrow> PhysicalMemoryArea" where
  "free_phys b sz = \<lparr>pa_base = b, pa_size = sz, pa_memory_type = 0, pa_dma_type = PFree\<rparr>"

section \<open>Construction\<close>

text \<open>
  The constructor.  \<open>regions\<close> are the usable regions \<^verbatim>\<open>AddressSpace::GetUsableRegions\<close> reports, as
  pairs of lower and upper bound; \<open>extra_dmem\<close> and \<open>sdk\<close> are the values of the setting
  \<^verbatim>\<open>extraDmemInMBytes\<close> and of the compiled SDK version.
\<close>

definition MemoryManager_init ::
  "AddressSpace \<Rightarrow> (u64 \<times> u64) list \<Rightarrow> s32 \<Rightarrow> s32 \<Rightarrow> MemoryManager" where
  "MemoryManager_init as regions extra_dmem sdk =
     (let total = (if extra_dmem \<noteq> 0
                   then add64 ORBIS_KERNEL_TOTAL_MEM_DEV_PRO ((u64_of_s64 extra_dmem * MB1) mod U64_MOD)
                   else ORBIS_KERNEL_TOTAL_MEM_DEV_PRO)
      in \<lparr>impl = as,
          dmem_map = [(0, free_phys 0 total)],
          fmem_map = [(total, free_phys total ORBIS_KERNEL_FLEXIBLE_MEMORY_SIZE)],
          vma_map = foldl (\<lambda>m r. om_emplace (fst r) (free_vma (fst r) (sub64 (snd r) (fst r))) m) [] regions,
          mapping_generation = 0,
          total_direct_size = total,
          total_flexible_size = ORBIS_KERNEL_FLEXIBLE_MEMORY_SIZE,
          flexible_usage = 0,
          pool_budget = 0,
          sdk_version = sdk,
          rasterizer = False,
          prt_areas = replicate 3 \<lparr>prt_start = 0, prt_end = 0, prt_mapped = False\<rparr>,
          trace = []\<rparr>)"

definition SetupMemoryRegions ::
  "bool \<Rightarrow> bool \<Rightarrow> s32 \<Rightarrow> u64 \<Rightarrow> bool \<Rightarrow> bool \<Rightarrow> MemoryManager \<Rightarrow> MemoryManager option" where
  "SetupMemoryRegions is_neo is_devkit extra_dmem flexible_size use_extended_mem1 use_extended_mem2 mm = do {
     let total0 = (if is_devkit
                   then (if is_neo then ORBIS_KERNEL_TOTAL_MEM_DEV_PRO else ORBIS_KERNEL_TOTAL_MEM_DEV)
                   else (if is_neo then ORBIS_KERNEL_TOTAL_MEM_PRO else ORBIS_KERNEL_TOTAL_MEM));
     let total1 = (if extra_dmem \<noteq> 0 then add64 total0 ((u64_of_s64 extra_dmem * MB1) mod U64_MOD) else total0);
     let total2 = (if \<not> use_extended_mem1 \<and> is_neo then sub64 total1 (256 * MB1) else total1);
     let total = (if \<not> use_extended_mem2 \<and> \<not> is_neo then sub64 total2 (128 * MB1) else total2);
     let new_flexible = sub64 flexible_size ORBIS_KERNEL_FLEXIBLE_MEMORY_BASE;
     assert_opt (new_flexible \<ge> flexible_usage mm);
     let old_direct_size = total_direct_size mm;
     let new_direct = sub64 total flexible_size;
     handle \<leftarrow> om_floor (dmem_map mm) new_direct;
     area \<leftarrow> map_of (dmem_map mm) handle;
     assert_opt (pa_dma_type area = PFree \<and> pa_size area \<ge> sub64 old_direct_size new_direct);
     Some (mm\<lparr>total_flexible_size := new_flexible, total_direct_size := new_direct,
              dmem_map := om_put handle
                (area\<lparr>pa_size := sub64 (pa_size area) (sub64 old_direct_size new_direct)\<rparr>) (dmem_map mm)\<rparr>)
   }"

section \<open>Validity of address ranges\<close>

definition IsValidGpuMapping :: "u64 \<Rightarrow> u64 \<Rightarrow> bool" where
  "IsValidGpuMapping virtual_addr sz \<longleftrightarrow> add64 virtual_addr sz < 0x10000000000"

definition FindVMA :: "MemoryManager \<Rightarrow> u64 \<Rightarrow> u64 option" where
  "FindVMA mm target = om_floor (vma_map mm) target"

definition FindDmemArea :: "MemoryManager \<Rightarrow> u64 \<Rightarrow> u64 option" where
  "FindDmemArea mm target = om_floor (dmem_map mm) target"

primrec valid_mapping_loop :: "VMAMap \<Rightarrow> u64 \<Rightarrow> u64 \<Rightarrow> bool" where
  "valid_mapping_loop [] addr_to_check size_to_validate = (size_to_validate = 0)"
| "valid_mapping_loop (p # rest) addr_to_check size_to_validate =
     (if size_to_validate > 0
      then let offset_in_vma = sub64 addr_to_check (vma_base (snd p));
               size_in_vma = min (sub64 (vma_size (snd p)) offset_in_vma) size_to_validate;
               size' = sub64 size_to_validate size_in_vma;
               addr' = add64 addr_to_check size_in_vma
           in if size' > 0 \<and> rest \<noteq> [] \<and> addr' \<noteq> vma_base (snd (hd rest)) then False
              else valid_mapping_loop rest addr' size'
      else True)"

definition IsValidMapping :: "MemoryManager \<Rightarrow> u64 \<Rightarrow> u64 \<Rightarrow> bool option" where
  "IsValidMapping mm virtual_addr sz = do {
     let m = vma_map mm;
     assert_opt (m \<noteq> []);
     let end_addr = add64 (fst (last m)) (vma_size (snd (last m)));
     (if virtual_addr < fst (hd m) \<or> virtual_addr \<ge> end_addr then Some False
      else if sz = 0 then Some True
      else do {
        vma_handle \<leftarrow> FindVMA mm virtual_addr;
        Some (valid_mapping_loop (om_from m vma_handle) virtual_addr sz)
      })
   }"

definition assert_valid :: "MemoryManager \<Rightarrow> u64 \<Rightarrow> u64 \<Rightarrow> unit option" where
  "assert_valid mm virtual_addr sz = do {
     b \<leftarrow> IsValidMapping mm virtual_addr sz;
     assert_opt b
   }"

primrec clamp_loop :: "VMAMap \<Rightarrow> u64 \<Rightarrow> u64 \<Rightarrow> u64" where
  "clamp_loop [] clamped_size sz = clamped_size"
| "clamp_loop (p # rest) clamped_size sz =
     (if IsMapped (snd p) \<and> clamped_size < sz
      then clamp_loop rest (add64 clamped_size (vma_size (snd p))) sz else clamped_size)"

definition ClampRangeSize :: "MemoryManager \<Rightarrow> u64 \<Rightarrow> u64 \<Rightarrow> u64 option" where
  "ClampRangeSize mm virtual_addr sz =
     (if sz < GB1 then Some sz
      else do {
        assert_valid mm virtual_addr 0;
        vma \<leftarrow> FindVMA mm virtual_addr;
        area \<leftarrow> map_of (vma_map mm) vma;
        let clamped = sub64 (add64 (vma_base area) (vma_size area)) virtual_addr;
        Some (min (clamp_loop (tl (om_from (vma_map mm) vma)) clamped sz) sz)
      })"

section \<open>Sparse reads and backing writes\<close>

definition SetPrtArea :: "u32 \<Rightarrow> u64 \<Rightarrow> u64 \<Rightarrow> MemoryManager \<Rightarrow> MemoryManager option" where
  "SetPrtArea area_id address sz mm = do {
     assert_opt (area_id < length (prt_areas mm));
     let area = prt_areas mm ! area_id;
     mm1 \<leftarrow> (if prt_mapped area
            then gpu_call (GpuUnmap (prt_start area) (sub64 (prt_end area) (prt_start area))) mm
            else Some mm);
     let mm2 = mm1\<lparr>prt_areas := (prt_areas mm1)[area_id :=
                  \<lparr>prt_start = address, prt_end = add64 address sz, prt_mapped = True\<rparr>]\<rparr>;
     gpu_call (GpuMap address sz) mm2
   }"

text \<open>
  What \<^verbatim>\<open>CopySparseMemory\<close> writes to its destination, as consecutive chunks: bytes copied from guest
  memory or zeros.
\<close>

datatype chunk = CopyFrom u64 u64 | ZeroFill u64

primrec copy_sparse_loop :: "VMAMap \<Rightarrow> u64 \<Rightarrow> u64 \<Rightarrow> chunk list option" where
  "copy_sparse_loop [] virtual_addr sz = (if sz = 0 then Some [] else None)"
| "copy_sparse_loop (p # rest) virtual_addr sz =
     (if sz = 0 then Some []
      else let copy_size = min (sub64 (vma_size (snd p)) (sub64 virtual_addr (fst p))) sz
           in map_option (Cons (if IsMapped (snd p) then CopyFrom virtual_addr copy_size else ZeroFill copy_size))
                (copy_sparse_loop rest (add64 virtual_addr copy_size) (sub64 sz copy_size)))"

definition CopySparseMemory :: "MemoryManager \<Rightarrow> u64 \<Rightarrow> u64 \<Rightarrow> chunk list option" where
  "CopySparseMemory mm virtual_addr sz = do {
     assert_valid mm virtual_addr 0;
     vma \<leftarrow> FindVMA mm virtual_addr;
     copy_sparse_loop (om_from (vma_map mm) vma) virtual_addr sz
   }"

text \<open>The areas the first loop of \<^verbatim>\<open>TryWriteBacking\<close> collects; \<open>None\<close> past the end of the map.\<close>

primrec backing_vmas :: "VMAMap \<Rightarrow> u64 \<Rightarrow> u64 \<Rightarrow> VirtualMemoryArea list option" where
  "backing_vmas [] virtual_addr sz = None"
| "backing_vmas (p # rest) virtual_addr sz =
     (if VMA_Overlaps (snd p) virtual_addr sz \<and> HasPhysicalBacking (snd p)
      then map_option (Cons (snd p)) (backing_vmas rest virtual_addr sz)
      else Some [])"

text \<open>
  A write of \<open>bw_len\<close> bytes, taken from offset \<open>bw_data\<close> of the caller's buffer, to backing offset
  \<open>bw_phys\<close>.
\<close>

record backing_write =
  bw_phys :: u64
  bw_data :: u64
  bw_len :: u64

primrec write_areas_loop :: "PhysMap \<Rightarrow> u64 \<Rightarrow> u64 \<Rightarrow> backing_write list \<times> u64" where
  "write_areas_loop [] start_in_vma sz = ([], sz)"
| "write_areas_loop (p # rest) start_in_vma sz =
     (if sz = 0 then ([], sz)
      else let start_in_dma = sub64 (max start_in_vma (fst p)) (fst p);
               copy_size = min sz (sub64 (pa_size (snd p)) start_in_dma);
               (ws, sz') = write_areas_loop rest start_in_vma (sub64 sz copy_size)
           in (\<lparr>bw_phys = add64 (pa_base (snd p)) start_in_dma, bw_data = 0, bw_len = copy_size\<rparr> # ws, sz'))"

primrec write_vmas_loop :: "VirtualMemoryArea list \<Rightarrow> u64 \<Rightarrow> u64 \<Rightarrow> backing_write list option" where
  "write_vmas_loop [] virtual_addr sz = Some []"
| "write_vmas_loop (vma # rest) virtual_addr sz = do {
     let start_in_vma = sub64 (max virtual_addr (vma_base vma)) (vma_base vma);
     handle \<leftarrow> om_floor (vma_phys_areas vma) start_in_vma;
     let (ws, sz') = write_areas_loop (om_from (vma_phys_areas vma) handle) start_in_vma sz;
     map_option (append ws) (write_vmas_loop rest virtual_addr sz')
   }"

definition TryWriteBacking :: "MemoryManager \<Rightarrow> u64 \<Rightarrow> u64 \<Rightarrow> (bool \<times> backing_write list) option" where
  "TryWriteBacking mm virtual_addr sz = do {
     assert_valid mm virtual_addr sz;
     current_vma \<leftarrow> FindVMA mm virtual_addr;
     vmas \<leftarrow> backing_vmas (om_from (vma_map mm) current_vma) virtual_addr sz;
     (if vmas = [] then Some (False, [])
      else map_option (Pair True) (write_vmas_loop vmas virtual_addr sz))
   }"

section \<open>Direct memory allocation\<close>

text \<open>
  The search loop of \<^verbatim>\<open>Allocate\<close> and \<^verbatim>\<open>PoolExpand\<close>: from the given position, the first free area that
  ends no earlier than the candidate range; \<open>None\<close> when the loop reaches the end of the map.
\<close>

primrec dmem_search :: "PhysMap \<Rightarrow> u64 \<Rightarrow> u64 \<Rightarrow> u64 \<Rightarrow> (u64 \<times> u64) option" where
  "dmem_search [] mapping_start sz alignment = None"
| "dmem_search (p # rest) mapping_start sz alignment =
     (if pa_dma_type (snd p) \<noteq> PFree \<or> GetEnd (snd p) < add64 mapping_start sz
      then (case rest of
              [] \<Rightarrow> None
            | q # _ \<Rightarrow> dmem_search rest (AlignUp (pa_base (snd q)) alignment) sz alignment)
      else Some (fst p, mapping_start))"

definition PoolExpand :: "u64 \<Rightarrow> u64 \<Rightarrow> u64 \<Rightarrow> u64 \<Rightarrow> MemoryManager \<Rightarrow> (u64 \<times> MemoryManager) option" where
  "PoolExpand search_start search_end sz alignment0 mm = do {
     let alignment = (if alignment0 > 0 then alignment0 else KB64);
     dmem_area \<leftarrow> FindDmemArea mm search_start;
     area0 \<leftarrow> map_of (dmem_map mm) dmem_area;
     let mapping_start0 = (if search_start > pa_base area0 then AlignUp search_start alignment
                           else AlignUp (pa_base area0) alignment);
     (case dmem_search (om_from (dmem_map mm) dmem_area) mapping_start0 sz alignment of
        None \<Rightarrow> Some (u64_minus_one, mm)
      | Some (found, mapping_start) \<Rightarrow> do {
          (m1, handle) \<leftarrow> CarvePhysArea (dmem_map mm) mapping_start sz;
          area \<leftarrow> map_of m1 handle;
          let m2 = om_put handle (area\<lparr>pa_dma_type := PPooled, pa_memory_type := 3\<rparr>) m1;
          Some (mapping_start, mm\<lparr>dmem_map := m2, pool_budget := add64 (pool_budget mm) sz\<rparr>)
        })
   }"

definition Allocate ::
  "u64 \<Rightarrow> u64 \<Rightarrow> u64 \<Rightarrow> u64 \<Rightarrow> s32 \<Rightarrow> MemoryManager \<Rightarrow> (u64 \<times> MemoryManager) option" where
  "Allocate search_start search_end sz alignment0 memory_type mm = do {
     let alignment = (if alignment0 > 0 then alignment0 else KB16);
     dmem_area \<leftarrow> FindDmemArea mm search_start;
     area0 \<leftarrow> map_of (dmem_map mm) dmem_area;
     let mapping_start0 = AlignUp (max search_start (pa_base area0)) alignment;
     (case dmem_search (om_from (dmem_map mm) dmem_area) mapping_start0 sz alignment of
        None \<Rightarrow> Some (u64_minus_one, mm)
      | Some (found, mapping_start) \<Rightarrow>
          (if add64 mapping_start sz > search_end then Some (u64_minus_one, mm)
           else do {
             (m1, handle) \<leftarrow> CarvePhysArea (dmem_map mm) mapping_start sz;
             area \<leftarrow> map_of m1 handle;
             let m2 = om_put handle (area\<lparr>pa_memory_type := memory_type, pa_dma_type := PAllocated\<rparr>) m1;
             (m3, _) \<leftarrow> MergeAdjacent_phys m2 found;
             Some (mapping_start, mm\<lparr>dmem_map := m3\<rparr>)
           }))
   }"

section \<open>Queries of direct memory\<close>

record OrbisQueryInfo =
  qi_start :: u64
  qi_end :: u64
  qi_memoryType :: s32

primrec skip_free_phys :: "PhysMap \<Rightarrow> PhysMap" where
  "skip_free_phys [] = []"
| "skip_free_phys (p # rest) = (if pa_dma_type (snd p) = PFree then skip_free_phys rest else p # rest)"

primrec dmem_query_end :: "PhysMap \<Rightarrow> s32 \<Rightarrow> u64 \<Rightarrow> u64" where
  "dmem_query_end [] memory_type cur = cur"
| "dmem_query_end (p # rest) memory_type cur =
     (if pa_memory_type (snd p) = memory_type
         \<and> (pa_dma_type (snd p) = PMapped \<or> pa_dma_type (snd p) = PAllocated)
      then dmem_query_end rest memory_type (GetEnd (snd p)) else cur)"

definition DirectMemoryQuery ::
  "MemoryManager \<Rightarrow> u64 \<Rightarrow> bool \<Rightarrow> OrbisQueryInfo \<Rightarrow> (s32 \<times> OrbisQueryInfo) option" where
  "DirectMemoryQuery mm addr find_next out_info =
     (if addr \<ge> total_direct_size mm then Some (ORBIS_KERNEL_ERROR_EACCES, out_info)
      else do {
        dmem_area \<leftarrow> FindDmemArea mm addr;
        let from0 = om_from (dmem_map mm) dmem_area;
        let areas = (if find_next then skip_free_phys from0 else from0);
        (case areas of
           [] \<Rightarrow> Some (ORBIS_KERNEL_ERROR_EACCES, out_info)
         | p # _ \<Rightarrow>
             (if pa_dma_type (snd p) = PFree then Some (ORBIS_KERNEL_ERROR_EACCES, out_info)
              else Some (ORBIS_OK,
                out_info\<lparr>qi_start := pa_base (snd p), qi_memoryType := pa_memory_type (snd p),
                         qi_end := dmem_query_end areas (pa_memory_type (snd p)) (qi_end out_info)\<rparr>)))
      })"

definition available_in_area :: "PhysicalMemoryArea \<Rightarrow> u64 \<Rightarrow> u64 \<Rightarrow> u64 \<Rightarrow> u64 \<times> u64" where
  "available_in_area area search_start search_end alignment =
     (let aligned_base = (if alignment > 0 then AlignUp (pa_base area) alignment else pa_base area);
          alignment_size = sub64 aligned_base (pa_base area);
          remaining = (if pa_size area \<ge> alignment_size then sub64 (pa_size area) alignment_size else 0);
          before = sub64 search_start (pa_base area);
          (base1, remaining1) =
            (if pa_base area < search_start
             then (if alignment > 0 then AlignUp search_start alignment else search_start,
                   if remaining > before then sub64 remaining before else 0)
             else (aligned_base, remaining));
          beyond = sub64 (GetEnd area) search_end;
          remaining2 = (if GetEnd area > search_end
                        then (if remaining1 > beyond then sub64 remaining1 beyond else 0)
                        else remaining1)
      in (base1, remaining2))"

primrec query_available_loop :: "PhysMap \<Rightarrow> u64 \<Rightarrow> u64 \<Rightarrow> u64 \<Rightarrow> u64 \<Rightarrow> u64 \<Rightarrow> u64 \<times> u64" where
  "query_available_loop [] search_start search_end alignment paddr max_size = (paddr, max_size)"
| "query_available_loop (p # rest) search_start search_end alignment paddr max_size =
     (if pa_dma_type (snd p) \<noteq> PFree
      then query_available_loop rest search_start search_end alignment paddr max_size
      else let (aligned_base, remaining) = available_in_area (snd p) search_start search_end alignment
           in if remaining > max_size
              then query_available_loop rest search_start search_end alignment aligned_base remaining
              else query_available_loop rest search_start search_end alignment paddr max_size)"

definition DirectQueryAvailable ::
  "MemoryManager \<Rightarrow> u64 \<Rightarrow> u64 \<Rightarrow> u64 \<Rightarrow> (s32 \<times> u64 \<times> u64) option" where
  "DirectQueryAvailable mm search_start search_end alignment = do {
     dmem_area \<leftarrow> FindDmemArea mm search_start;
     let (paddr, max_size) =
       query_available_loop (om_from (dmem_map mm) dmem_area) search_start search_end alignment 0 0;
     Some (ORBIS_OK, paddr, max_size)
   }"

definition GetDirectMemoryType :: "MemoryManager \<Rightarrow> u64 \<Rightarrow> (s32 \<times> (s32 \<times> u64 \<times> u64) option) option" where
  "GetDirectMemoryType mm addr =
     (if addr \<ge> total_direct_size mm then Some (ORBIS_KERNEL_ERROR_ENOENT, None)
      else do {
        handle \<leftarrow> FindDmemArea mm addr;
        dmem_area \<leftarrow> map_of (dmem_map mm) handle;
        (if pa_dma_type dmem_area = PFree then Some (ORBIS_KERNEL_ERROR_ENOENT, None)
         else Some (ORBIS_OK, Some (pa_memory_type dmem_area, pa_base dmem_area, GetEnd dmem_area)))
      })"

primrec committed_size_loop :: "PhysMap \<Rightarrow> u64 \<Rightarrow> u64" where
  "committed_size_loop [] committed_size = committed_size"
| "committed_size_loop (p # rest) committed_size =
     committed_size_loop rest
       (if pa_dma_type (snd p) = PCommitted then add64 committed_size (pa_size (snd p)) else committed_size)"

record OrbisKernelMemoryPoolBlockStats =
  available_flushed_blocks :: s32
  available_cached_blocks :: s32
  allocated_flushed_blocks :: s32
  allocated_cached_blocks :: s32

definition GetMemoryPoolStats :: "MemoryManager \<Rightarrow> OrbisKernelMemoryPoolBlockStats" where
  "GetMemoryPoolStats mm =
     (let committed_size = committed_size_loop (dmem_map mm) 0
      in \<lparr>available_flushed_blocks = s32_of_u64 (committed_size div KB64), available_cached_blocks = 0,
          allocated_flushed_blocks = s32_of_u64 (committed_size div KB64), allocated_cached_blocks = 0\<rparr>)"

section \<open>Queries of virtual memory\<close>

definition QueryProtection ::
  "MemoryManager \<Rightarrow> u64 \<Rightarrow> (s32 \<times> (u64 \<times> u64 \<times> flags32 \<times> u64) option) option" where
  "QueryProtection mm addr =
     (if addr < system_managed_base (impl mm) then Some (ORBIS_KERNEL_ERROR_EACCES, None)
      else do {
        it \<leftarrow> FindVMA mm addr;
        vma \<leftarrow> map_of (vma_map mm) it;
        (if IsFree vma then Some (ORBIS_KERNEL_ERROR_EACCES, None)
         else Some (ORBIS_OK, Some (vma_base vma, add64 (vma_base vma) (vma_size vma), vma_prot vma,
                                    mapping_generation mm)))
      })"

record OrbisVirtualQueryInfo =
  vqi_start :: u64
  vqi_end :: u64
  vqi_offset :: u64
  vqi_protection :: flags32
  vqi_memory_type :: s32
  vqi_is_flexible :: bool
  vqi_is_direct :: bool
  vqi_is_stack :: bool
  vqi_is_pooled :: bool
  vqi_is_committed :: bool
  vqi_name :: string

primrec skip_free_vma :: "VMAMap \<Rightarrow> VMAMap" where
  "skip_free_vma [] = []"
| "skip_free_vma (p # rest) = (if vma_type (snd p) = VFree then skip_free_vma rest else p # rest)"

definition virtual_query_info :: "VirtualMemoryArea \<Rightarrow> OrbisVirtualQueryInfo option" where
  "virtual_query_info vma = do {
     (offset, memory_type) \<leftarrow>
       (if vma_type vma = VDirect
        then map_option (\<lambda>a. (pa_base a, pa_memory_type a)) (first_area (vma_phys_areas vma))
        else Some (0, 0));
     Some \<lparr>vqi_start = vma_base vma,
           vqi_end = add64 (vma_base vma) (vma_size vma),
           vqi_offset = offset,
           vqi_protection = (if vma_type vma = VReserved \<or> vma_type vma = VPoolReserved then 0 else vma_prot vma),
           vqi_memory_type = memory_type,
           vqi_is_flexible = (vma_type vma = VFlexible),
           vqi_is_direct = (vma_type vma = VDirect),
           vqi_is_stack = (vma_type vma = VStack),
           vqi_is_pooled = (vma_type vma = VPoolReserved \<or> vma_type vma = VPooled),
           vqi_is_committed = IsMapped vma,
           vqi_name = take 32 (vma_name vma)\<rparr>
   }"

definition VirtualQuery ::
  "MemoryManager \<Rightarrow> u64 \<Rightarrow> s32 \<Rightarrow> (s32 \<times> OrbisVirtualQueryInfo option) option" where
  "VirtualQuery mm addr flags =
     (let lowest = system_managed_base (impl mm);
          query_addr = (if addr < lowest then lowest else addr)
      in if addr < query_addr \<and> flags = 0 then Some (ORBIS_KERNEL_ERROR_EACCES, None)
         else do {
           it \<leftarrow> FindVMA mm query_addr;
           let areas = (if flags = 1 then skip_free_vma (om_from (vma_map mm) it) else om_from (vma_map mm) it);
           (case areas of
              [] \<Rightarrow> Some (ORBIS_KERNEL_ERROR_EACCES, None)
            | p # _ \<Rightarrow>
                (if vma_type (snd p) = VFree then Some (ORBIS_KERNEL_ERROR_EACCES, None)
                 else map_option (\<lambda>info. (ORBIS_OK, Some info)) (virtual_query_info (snd p))))
         })"

definition IsStack :: "MemoryManager \<Rightarrow> u64 \<Rightarrow> (s32 \<times> (u64 \<times> u64) option) option" where
  "IsStack mm addr = do {
     assert_valid mm addr 0;
     it \<leftarrow> FindVMA mm addr;
     vma \<leftarrow> map_of (vma_map mm) it;
     (if IsFree vma then Some (ORBIS_KERNEL_ERROR_EACCES, None)
      else Some (ORBIS_OK, Some (if vma_type vma = VStack
                                 then (vma_base vma, add64 (vma_base vma) (vma_size vma)) else (0, 0))))
   }"

definition InvalidateMemory :: "u64 \<Rightarrow> u64 \<Rightarrow> MemoryManager \<Rightarrow> MemoryManager" where
  "InvalidateMemory addr sz mm = (if rasterizer mm then emit (GpuInvalidate addr sz) mm else mm)"

section \<open>Search for free virtual addresses\<close>

primrec search_free_loop :: "VMAMap \<Rightarrow> u64 \<Rightarrow> u64 \<Rightarrow> u64 \<Rightarrow> u64" where
  "search_free_loop [] sz alignment max_search_address = u64_minus_one"
| "search_free_loop (p # rest) sz alignment max_search_address =
     (let vma = snd p; virtual_addr = AlignUp (vma_base vma) alignment;
          vma_end = add64 (vma_base vma) (vma_size vma)
      in if \<not> IsFree vma then search_free_loop rest sz alignment max_search_address
         else if virtual_addr > vma_end then search_free_loop rest sz alignment max_search_address
         else if virtual_addr \<ge> max_search_address then u64_minus_one
         else if sub64 vma_end virtual_addr \<ge> sz then virtual_addr
         else search_free_loop rest sz alignment max_search_address)"

definition SearchFree :: "MemoryManager \<Rightarrow> u64 \<Rightarrow> u64 \<Rightarrow> u64 \<Rightarrow> u64 option" where
  "SearchFree mm virtual_addr0 sz alignment0 = do {
     let alignment = u32_of_u64 alignment0;
     let min_search_address = system_managed_base (impl mm);
     let max_search_address = add64 (user_base (impl mm)) (user_size (impl mm));
     let virtual_addr1 = (if virtual_addr0 < min_search_address then min_search_address else virtual_addr0);
     assert_valid mm virtual_addr1 0;
     assert_opt (alignment \<noteq> 0);
     let virtual_addr = AlignUp virtual_addr1 alignment;
     it \<leftarrow> FindVMA mm virtual_addr;
     vma \<leftarrow> map_of (vma_map mm) it;
     (if IsFree vma \<and> VMA_Contains vma virtual_addr sz then Some virtual_addr
      else Some (search_free_loop (tl (om_from (vma_map mm) it)) sz alignment max_search_address))
   }"

definition GetAvailableFlexibleSize :: "MemoryManager \<Rightarrow> u64" where
  "GetAvailableFlexibleSize mm = sub64 (total_flexible_size mm) (flexible_usage mm)"

end
