(* ===== verification/Memory_Mapping.thy ===== *)
theory Memory_Mapping
  imports Memory_Manager
begin

text \<open>
  The operations of \<^verbatim>\<open>Core::MemoryManager\<close> that change mappings (\<^verbatim>\<open>src/core/memory.cpp\<close>): unmapping,
  creating areas, mapping memory and files, pool commit and decommit, release of direct memory,
  protection, memory types and names.

  Loops that change the maps they run over are \<open>partial_function\<close>s: \<open>None\<close> is a failed assertion,
  undefined behaviour or a loop that does not end.
\<close>

section \<open>Carve, change, merge\<close>

definition retag_vma ::
  "(VirtualMemoryArea \<Rightarrow> VirtualMemoryArea) \<Rightarrow> VMAMap \<Rightarrow> u64 \<Rightarrow> u64 \<Rightarrow> (VMAMap \<times> u64) option" where
  "retag_vma f m addr sz = do {
     (m1, handle) \<leftarrow> CarveVMA m addr sz;
     vma \<leftarrow> map_of m1 handle;
     MergeAdjacent_vma (om_put handle (f vma) m1) handle
   }"

section \<open>Unmapping\<close>

definition set_dma :: "PhysicalMemoryType \<Rightarrow> PhysicalMemoryArea \<Rightarrow> PhysicalMemoryArea" where
  "set_dma t a = a\<lparr>pa_dma_type := t\<rparr>"

text \<open>One physical area of an unmapped range: give it back to the map it came from.\<close>

definition release_phys :: "VMAType \<Rightarrow> u64 \<Rightarrow> u64 \<Rightarrow> MemoryManager \<Rightarrow> MemoryManager option" where
  "release_phys ty phys_addr sz mm =
     (if ty = VDirect then do {
        (m, _) \<leftarrow> retag_phys (set_dma PAllocated) (dmem_map mm) phys_addr sz;
        Some (mm\<lparr>dmem_map := m\<rparr>)
      } else if ty = VFlexible then do {
        (m, _) \<leftarrow> retag_phys (set_dma PFree) (fmem_map mm) phys_addr sz;
        Some (emit (ZeroBacking phys_addr sz)
                (mm\<lparr>fmem_map := m, flexible_usage := sub64 (flexible_usage mm) sz\<rparr>))
      } else Some mm)"

primrec unmap_phys_loop ::
  "PhysMap \<Rightarrow> u64 \<Rightarrow> u64 \<Rightarrow> VMAType \<Rightarrow> MemoryManager \<Rightarrow> (u64 \<times> MemoryManager) option" where
  "unmap_phys_loop [] start_in_vma size_to_free ty mm = Some (size_to_free, mm)"
| "unmap_phys_loop (p # rest) start_in_vma size_to_free ty mm =
     (if size_to_free > 0 then do {
        let dma_offset = sub64 (max (fst p) start_in_vma) (fst p);
        let phys_addr = add64 (pa_base (snd p)) dma_offset;
        let size_in_dma = min size_to_free (sub64 (pa_size (snd p)) dma_offset);
        mm1 \<leftarrow> release_phys ty phys_addr size_in_dma mm;
        unmap_phys_loop rest start_in_vma (sub64 size_to_free size_in_dma) ty mm1
      } else Some (size_to_free, mm))"

definition make_free :: "VirtualMemoryArea \<Rightarrow> VirtualMemoryArea" where
  "make_free v = v\<lparr>vma_type := VFree, vma_prot := 0, vma_phys_areas := [], vma_disallow_merge := False,
                   vma_name := ''''\<rparr>"

definition UnmapBytesFromEntry ::
  "u64 \<Rightarrow> VirtualMemoryArea \<Rightarrow> u64 \<Rightarrow> MemoryManager \<Rightarrow> (u64 \<times> MemoryManager) option" where
  "UnmapBytesFromEntry virtual_addr entry sz mm =
     (let start_in_vma = sub64 virtual_addr (vma_base entry);
          size_in_vma = min (sub64 (vma_size entry) start_in_vma) sz;
          ty = vma_type entry
      in if ty = VFree \<or> ty = VPooled then Some (size_in_vma, mm)
         else do {
           mm1 \<leftarrow> (if vma_phys_areas entry \<noteq> [] then do {
                    phys_handle \<leftarrow> om_floor (vma_phys_areas entry) start_in_vma;
                    (left, mm') \<leftarrow> unmap_phys_loop (om_from (vma_phys_areas entry) phys_handle)
                                     start_in_vma size_in_vma ty mm;
                    assert_opt (left = 0);
                    Some mm'
                  } else Some mm);
           (m, _) \<leftarrow> retag_vma make_free (vma_map mm1) virtual_addr size_in_vma;
           let mm2 = mm1\<lparr>vma_map := m\<rparr>;
           Some (size_in_vma,
                 if ty \<noteq> VReserved \<and> ty \<noteq> VPoolReserved then emit (HostUnmap virtual_addr size_in_vma) mm2
                 else mm2)
         })"

partial_function (option) unmap_loop ::
  "u64 \<Rightarrow> u64 \<Rightarrow> u64 \<Rightarrow> MemoryManager \<Rightarrow> MemoryManager option" where
  "unmap_loop virtual_addr sz unmapped_bytes mm = do {
     it \<leftarrow> FindVMA mm (add64 virtual_addr unmapped_bytes);
     entry \<leftarrow> map_of (vma_map mm) it;
     r \<leftarrow> UnmapBytesFromEntry (add64 virtual_addr unmapped_bytes) entry (sub64 sz unmapped_bytes) mm;
     assert_opt (fst r > 0);
     (if add64 unmapped_bytes (fst r) < sz
      then unmap_loop virtual_addr sz (add64 unmapped_bytes (fst r)) (snd r)
      else Some (snd r))
   }"

definition UnmapMemoryImpl :: "u64 \<Rightarrow> u64 \<Rightarrow> MemoryManager \<Rightarrow> (s32 \<times> MemoryManager) option" where
  "UnmapMemoryImpl virtual_addr sz mm = map_option (Pair ORBIS_OK) (unmap_loop virtual_addr sz 0 mm)"

definition early_gpu_unmap :: "u64 \<Rightarrow> u64 \<Rightarrow> MemoryManager \<Rightarrow> MemoryManager option" where
  "early_gpu_unmap virtual_addr sz mm =
     (if IsValidGpuMapping virtual_addr sz then gpu_call (GpuUnmap virtual_addr sz) mm else Some mm)"

definition late_gpu_map :: "u64 \<Rightarrow> u64 \<Rightarrow> MemoryManager \<Rightarrow> MemoryManager option" where
  "late_gpu_map virtual_addr sz mm =
     (if IsValidGpuMapping virtual_addr sz then gpu_call (GpuMap virtual_addr sz) mm else Some mm)"

definition UnmapMemory :: "u64 \<Rightarrow> u64 \<Rightarrow> MemoryManager \<Rightarrow> (s32 \<times> MemoryManager) option" where
  "UnmapMemory virtual_addr0 sz0 mm =
     (if sz0 = 0 then Some (ORBIS_OK, mm)
      else do {
        let virtual_addr = AlignDown virtual_addr0 KB16;
        let sz = AlignUp sz0 KB16;
        assert_valid mm virtual_addr sz;
        mm1 \<leftarrow> early_gpu_unmap virtual_addr sz mm;
        (r, mm2) \<leftarrow> UnmapMemoryImpl virtual_addr sz (BeginMutation mm1);
        Some (r, FinishMutation mm2)
      })"

section \<open>Creating an area\<close>

partial_function (option) create_unmap_loop ::
  "u64 \<Rightarrow> u64 \<Rightarrow> VirtualMemoryArea \<Rightarrow> MemoryManager \<Rightarrow> MemoryManager option" where
  "create_unmap_loop unmap_addr unmap_size vma mm =
     (if unmap_size > 0 then do {
        r \<leftarrow> UnmapBytesFromEntry unmap_addr vma unmap_size mm;
        it \<leftarrow> FindVMA (snd r) (add64 unmap_addr (fst r));
        vma' \<leftarrow> map_of (vma_map (snd r)) it;
        create_unmap_loop (add64 unmap_addr (fst r)) (sub64 unmap_size (fst r)) vma' (snd r)
      } else Some mm)"

definition add_read :: "flags32 \<Rightarrow> flags32" where
  "add_read prot = (if has_flag prot MemoryProt_CpuWrite then prot OR MemoryProt_CpuRead else prot)"

definition CreateArea ::
  "u64 \<Rightarrow> u64 \<Rightarrow> flags32 \<Rightarrow> flags32 \<Rightarrow> VMAType \<Rightarrow> string \<Rightarrow> MemoryManager
     \<Rightarrow> (u64 \<times> MemoryManager) option" where
  "CreateArea virtual_addr sz prot flags ty name mm = do {
     it0 \<leftarrow> FindVMA mm virtual_addr;
     vma0 \<leftarrow> map_of (vma_map mm) it0;
     mm1 \<leftarrow> (if has_flag flags MapFlag_Fixed then create_unmap_loop virtual_addr sz vma0 mm else Some mm);
     it \<leftarrow> FindVMA mm1 virtual_addr;
     vma \<leftarrow> map_of (vma_map mm1) it;
     assert_opt (IsFree vma);
     (m, new_vma_handle) \<leftarrow> CarveVMA (vma_map mm1) virtual_addr sz;
     new_vma \<leftarrow> map_of m new_vma_handle;
     let new_vma' = new_vma\<lparr>vma_disallow_merge := has_flag flags MapFlag_NoCoalesce,
                            vma_prot := add_read prot, vma_name := name, vma_type := ty,
                            vma_phys_areas := []\<rparr>;
     Some (new_vma_handle, mm1\<lparr>vma_map := om_put new_vma_handle new_vma' m\<rparr>)
   }"

section \<open>Mapping memory\<close>

text \<open>The check of the direct memory a call asks for: the error code, \<open>ORBIS_OK\<close> when all is well.\<close>

primrec validate_dmem_loop :: "PhysMap \<Rightarrow> u64 \<Rightarrow> bool \<Rightarrow> s32" where
  "validate_dmem_loop [] end_addr validate_dmem = ORBIS_OK"
| "validate_dmem_loop (p # rest) end_addr validate_dmem =
     (if \<not> pa_base (snd p) < end_addr then ORBIS_OK
      else if pa_dma_type (snd p) \<noteq> PAllocated \<and> pa_dma_type (snd p) \<noteq> PMapped then ORBIS_KERNEL_ERROR_ENOMEM
      else if validate_dmem \<and> pa_dma_type (snd p) = PMapped then ORBIS_KERNEL_ERROR_EBUSY
      else validate_dmem_loop rest end_addr validate_dmem)"

definition validate_phys :: "MemoryManager \<Rightarrow> u64 \<Rightarrow> u64 \<Rightarrow> bool \<Rightarrow> s32 option" where
  "validate_phys mm phys_addr sz validate_dmem =
     (if phys_addr = u64_minus_one then Some ORBIS_OK
      else if total_direct_size mm < add64 phys_addr sz then Some ORBIS_KERNEL_ERROR_ENOMEM
      else do {
        dmem_area \<leftarrow> FindDmemArea mm phys_addr;
        Some (validate_dmem_loop (om_from (dmem_map mm) dmem_area) (add64 phys_addr sz) validate_dmem)
      })"

text \<open>
  The choice of the virtual address: fixed, fixed without overwriting, or searched for.  \<open>Inl\<close> is
  the error code.
\<close>

definition choose_address ::
  "MemoryManager \<Rightarrow> u64 \<Rightarrow> u64 \<Rightarrow> flags32 \<Rightarrow> u64 \<Rightarrow> (s32 + u64) option" where
  "choose_address mm virtual_addr sz flags alignment =
     (if has_flag flags MapFlag_Fixed \<and> has_flag flags MapFlag_NoOverwrite then do {
        assert_valid mm virtual_addr sz;
        it \<leftarrow> FindVMA mm virtual_addr;
        vma \<leftarrow> map_of (vma_map mm) it;
        let remaining_size = sub64 (add64 (vma_base vma) (vma_size vma)) virtual_addr;
        Some (if \<not> IsFree vma \<or> remaining_size < sz then Inl ORBIS_KERNEL_ERROR_ENOMEM else Inr virtual_addr)
      } else if \<not> has_flag flags MapFlag_Fixed then do {
        found \<leftarrow> SearchFree mm (if virtual_addr = 0 then DEFAULT_MAPPING_BASE else virtual_addr) sz
                  (if alignment > 0 then alignment else KB16);
        Some (if found = u64_minus_one then Inl ORBIS_KERNEL_ERROR_ENOMEM else Inr found)
      } else Some (Inr virtual_addr))"

text \<open>\<^verbatim>\<open>phys_areas[off] = area; MergeAdjacent(phys_areas, phys_areas.find(off))\<close>.\<close>

definition add_backing :: "u64 \<Rightarrow> PhysicalMemoryArea \<Rightarrow> PhysMap \<Rightarrow> PhysMap option" where
  "add_backing off area m = map_option fst (MergeAdjacent_phys (om_put off area m) off)"

text \<open>
  The loop that takes flexible memory for a new area: the iterator, the bytes still to map, the
  address reached; it returns the bytes left over, the flexible map, the physical areas and the
  updated manager.
\<close>

partial_function (option) flexible_map_loop ::
  "u64 option \<Rightarrow> u64 \<Rightarrow> u64 \<Rightarrow> u64 \<Rightarrow> bool \<Rightarrow> PhysMap \<Rightarrow> MemoryManager
     \<Rightarrow> (u64 \<times> PhysMap \<times> MemoryManager) option" where
  "flexible_map_loop handle remaining_size current_addr mapped_addr is_exec areas mm =
     (case handle of
        None \<Rightarrow> Some (remaining_size, areas, mm)
      | Some h \<Rightarrow>
          (if remaining_size = 0 then Some (remaining_size, areas, mm)
           else do {
             area \<leftarrow> map_of (fmem_map mm) h;
             (if pa_dma_type area \<noteq> PFree
              then flexible_map_loop (om_next (fmem_map mm) h) remaining_size current_addr mapped_addr is_exec areas mm
              else do {
                r \<leftarrow> retag_phys (set_dma PFlexible) (fmem_map mm) (pa_base area) (min remaining_size (pa_size area));
                areas' \<leftarrow> add_backing (sub64 current_addr mapped_addr) (fst (snd r)) areas;
                flexible_map_loop (om_next (fst r) (snd (snd r)))
                  (sub64 remaining_size (min remaining_size (pa_size area)))
                  (add64 current_addr (min remaining_size (pa_size area))) mapped_addr is_exec areas'
                  (emit (HostMap current_addr (min remaining_size (pa_size area)) (pa_base (fst (snd r))) is_exec)
                     (mm\<lparr>fmem_map := fst r,
                         flexible_usage := add64 (flexible_usage mm) (min remaining_size (pa_size area))\<rparr>))
              })
           }))"

text \<open>The loop that marks the direct memory of a new area as mapped.\<close>

partial_function (option) direct_map_loop ::
  "u64 option \<Rightarrow> u64 \<Rightarrow> u64 \<Rightarrow> u64 \<Rightarrow> PhysMap \<Rightarrow> MemoryManager
     \<Rightarrow> (u64 \<times> PhysMap \<times> MemoryManager) option" where
  "direct_map_loop handle remaining_size current_phys_addr phys_addr areas mm =
     (case handle of
        None \<Rightarrow> None
      | Some h \<Rightarrow>
          (if remaining_size = 0 then Some (remaining_size, areas, mm)
           else do {
             area \<leftarrow> map_of (dmem_map mm) h;
             let start_phys_addr = max current_phys_addr (pa_base area);
             let offset_in_dma = sub64 start_phys_addr (pa_base area);
             let size_in_dma = min (sub64 (pa_size area) offset_in_dma) remaining_size;
             r \<leftarrow> retag_phys (set_dma PMapped) (dmem_map mm) start_phys_addr size_in_dma;
             areas' \<leftarrow> add_backing (sub64 current_phys_addr phys_addr) (fst (snd r)) areas;
             direct_map_loop (om_floor (fst r) (add64 current_phys_addr size_in_dma))
               (sub64 remaining_size size_in_dma) (add64 current_phys_addr size_in_dma) phys_addr areas'
               (mm\<lparr>dmem_map := fst r\<rparr>)
           }))"

definition attach_backing ::
  "VMAType \<Rightarrow> u64 \<Rightarrow> u64 \<Rightarrow> u64 \<Rightarrow> bool \<Rightarrow> MemoryManager \<Rightarrow> (u64 \<times> PhysMap \<times> MemoryManager) option" where
  "attach_backing ty sz phys_addr mapped_addr is_exec mm =
     (if ty = VFlexible
      then flexible_map_loop (om_begin (fmem_map mm)) sz mapped_addr mapped_addr is_exec [] mm
      else if ty = VDirect then do {
        dmem_area \<leftarrow> FindDmemArea mm phys_addr;
        direct_map_loop (Some dmem_area) sz phys_addr phys_addr [] mm
      } else Some (0, [], mm))"

definition MapMemory ::
  "u64 \<Rightarrow> u64 \<Rightarrow> flags32 \<Rightarrow> flags32 \<Rightarrow> VMAType \<Rightarrow> string \<Rightarrow> bool \<Rightarrow> u64 \<Rightarrow> u64
     \<Rightarrow> MemoryManager \<Rightarrow> (s32 \<times> u64 option \<times> MemoryManager) option" where
  "MapMemory virtual_addr0 sz prot flags ty name validate_dmem phys_addr alignment mm =
     (if ty = VFlexible \<and> add64 (flexible_usage mm) sz > total_flexible_size mm
      then Some (ORBIS_KERNEL_ERROR_EINVAL, None, mm)
      else do {
        err \<leftarrow> validate_phys mm phys_addr sz validate_dmem;
        (if err \<noteq> ORBIS_OK then Some (err, None, mm)
         else do {
           chosen \<leftarrow> choose_address mm virtual_addr0 sz flags alignment;
           (case chosen of
              Inl e \<Rightarrow> Some (e, None, mm)
            | Inr virtual_addr \<Rightarrow> do {
                mm1 \<leftarrow> early_gpu_unmap virtual_addr sz mm;
                (handle, mm2) \<leftarrow> CreateArea virtual_addr sz prot flags ty name (BeginMutation mm1);
                new_vma \<leftarrow> map_of (vma_map mm2) handle;
                let mapped_addr = vma_base new_vma;
                let is_exec = has_flag prot MemoryProt_CpuExec;
                (left, areas, mm3) \<leftarrow> attach_backing ty sz phys_addr mapped_addr is_exec mm2;
                assert_opt (left = 0);
                let vm = om_put handle (new_vma\<lparr>vma_phys_areas := areas\<rparr>) (vma_map mm3);
                vm' \<leftarrow> (if ty \<noteq> VDirect \<or> u32_of_s32 (sdk_version mm3) \<ge> FW_200
                       then map_option fst (MergeAdjacent_vma vm handle) else Some vm);
                let mm4 = mm3\<lparr>vma_map := vm'\<rparr>;
                (if ty \<noteq> VReserved \<and> ty \<noteq> VPoolReserved then do {
                   let mm5 = (if ty \<noteq> VFlexible then emit (HostMap mapped_addr sz phys_addr is_exec) mm4 else mm4);
                   mm6 \<leftarrow> late_gpu_map mapped_addr sz (FinishMutation mm5);
                   Some (ORBIS_OK, Some mapped_addr, mm6)
                 } else Some (ORBIS_OK, Some mapped_addr, FinishMutation mm4))
              })
         })
      })"

end
