(* ===== verification/Memory_Operations.thy ===== *)
theory Memory_Operations
  imports Memory_Mapping
begin

text \<open>
  The remaining operations of \<^verbatim>\<open>Core::MemoryManager\<close> (\<^verbatim>\<open>src/core/memory.cpp\<close>): release of direct memory,
  pool commit and decommit, file mappings, protection, memory types and names of ranges.
\<close>

section \<open>Releasing direct memory\<close>

text \<open>The areas to free, in order; \<open>None\<close> when a checked release meets free memory.\<close>

primrec free_scan :: "PhysMap \<Rightarrow> u64 \<Rightarrow> u64 \<Rightarrow> bool \<Rightarrow> (u64 \<times> u64) list option" where
  "free_scan [] phys_addr remaining_size is_checked = Some []"
| "free_scan (p # rest) phys_addr remaining_size is_checked =
     (if remaining_size = 0 then Some []
      else if pa_dma_type (snd p) = PFree
      then (if is_checked then None else free_scan rest phys_addr remaining_size is_checked)
      else let current_phys_addr = max phys_addr (fst p);
               start_in_dma = sub64 current_phys_addr (fst p);
               size_in_dma = min remaining_size (sub64 (pa_size (snd p)) start_in_dma)
           in map_option (Cons (current_phys_addr, size_in_dma))
                (free_scan rest phys_addr (sub64 remaining_size size_in_dma) is_checked))"

text \<open>The virtual ranges of one area that refer to the released physical range.\<close>

definition remove_ranges_of :: "u64 \<Rightarrow> u64 \<Rightarrow> VirtualMemoryArea \<Rightarrow> (u64 \<times> u64) list" where
  "remove_ranges_of phys_addr sz mapping =
     (if vma_type mapping \<noteq> VDirect then []
      else List.map_filter (\<lambda>(offset_in_vma, phys_mapping).
             if add64 phys_addr sz > pa_base phys_mapping
                \<and> phys_addr < add64 (pa_base phys_mapping) (pa_size phys_mapping)
             then let phys_offset = sub64 (max (pa_base phys_mapping) phys_addr) (pa_base phys_mapping)
                  in Some (add64 (add64 (vma_base mapping) offset_in_vma) phys_offset,
                           min (sub64 (pa_size phys_mapping) phys_offset) sz)
             else None)
           (vma_phys_areas mapping))"

definition remove_list :: "VMAMap \<Rightarrow> u64 \<Rightarrow> u64 \<Rightarrow> (u64 \<times> u64) list" where
  "remove_list m phys_addr sz = concat (map (\<lambda>p. remove_ranges_of phys_addr sz (snd p)) m)"

primrec gpu_unmap_all :: "(u64 \<times> u64) list \<Rightarrow> MemoryManager \<Rightarrow> MemoryManager option" where
  "gpu_unmap_all [] mm = Some mm"
| "gpu_unmap_all (r # rs) mm = early_gpu_unmap (fst r) (snd r) mm \<bind> gpu_unmap_all rs"

primrec unmap_all :: "(u64 \<times> u64) list \<Rightarrow> MemoryManager \<Rightarrow> MemoryManager option" where
  "unmap_all [] mm = Some mm"
| "unmap_all (r # rs) mm = map_option snd (UnmapMemoryImpl (fst r) (snd r) mm) \<bind> unmap_all rs"

definition make_phys_free :: "PhysicalMemoryArea \<Rightarrow> PhysicalMemoryArea" where
  "make_phys_free a = a\<lparr>pa_dma_type := PFree, pa_memory_type := 0\<rparr>"

primrec free_all :: "(u64 \<times> u64) list \<Rightarrow> PhysMap \<Rightarrow> PhysMap option" where
  "free_all [] m = Some m"
| "free_all (r # rs) m = map_option fst (retag_phys make_phys_free m (fst r) (snd r)) \<bind> free_all rs"

definition Free :: "u64 \<Rightarrow> u64 \<Rightarrow> bool \<Rightarrow> MemoryManager \<Rightarrow> (s32 \<times> MemoryManager) option" where
  "Free phys_addr sz is_checked mm =
     (if phys_addr > total_direct_size mm \<or> (is_checked \<and> add64 phys_addr sz > total_direct_size mm)
      then Some (if is_checked then ORBIS_KERNEL_ERROR_ENOENT else ORBIS_OK, mm)
      else do {
        phys_handle \<leftarrow> FindDmemArea mm phys_addr;
        (case free_scan (om_from (dmem_map mm) phys_handle) phys_addr sz is_checked of
           None \<Rightarrow> Some (ORBIS_KERNEL_ERROR_ENOENT, mm)
         | Some free_list \<Rightarrow> do {
             let removed = remove_list (vma_map mm) phys_addr sz;
             mm1 \<leftarrow> gpu_unmap_all removed mm;
             mm2 \<leftarrow> unmap_all removed (BeginMutation mm1);
             m \<leftarrow> free_all free_list (dmem_map mm2);
             Some (ORBIS_OK, FinishMutation (mm2\<lparr>dmem_map := m\<rparr>))
           })
      })"

section \<open>Pools\<close>

text \<open>The loop of \<^verbatim>\<open>PoolCommit\<close> over the direct memory map; it returns the bytes left over.\<close>

definition commit_phys :: "s32 \<Rightarrow> PhysicalMemoryArea \<Rightarrow> PhysicalMemoryArea" where
  "commit_phys mtype a = a\<lparr>pa_dma_type := PCommitted, pa_memory_type := mtype\<rparr>"

partial_function (option) pool_commit_loop ::
  "u64 option \<Rightarrow> u64 \<Rightarrow> u64 \<Rightarrow> u64 \<Rightarrow> s32 \<Rightarrow> PhysMap \<Rightarrow> MemoryManager
     \<Rightarrow> (u64 \<times> PhysMap \<times> MemoryManager) option" where
  "pool_commit_loop handle remaining_size current_addr mapped_addr mtype areas mm =
     (case handle of
        None \<Rightarrow> Some (remaining_size, areas, mm)
      | Some h \<Rightarrow>
          (if remaining_size = 0 then Some (remaining_size, areas, mm)
           else do {
             area \<leftarrow> map_of (dmem_map mm) h;
             (if pa_dma_type area \<noteq> PPooled
              then pool_commit_loop (om_next (dmem_map mm) h) remaining_size current_addr mapped_addr mtype areas mm
              else do {
                r \<leftarrow> retag_phys (commit_phys mtype) (dmem_map mm) (pa_base area) (min remaining_size (pa_size area));
                areas' \<leftarrow> add_backing (sub64 current_addr mapped_addr) (fst (snd r)) areas;
                pool_commit_loop (om_next (fst r) (snd (snd r)))
                  (sub64 remaining_size (min remaining_size (pa_size area)))
                  (add64 current_addr (min remaining_size (pa_size area))) mapped_addr mtype areas'
                  (emit (HostMap current_addr (min remaining_size (pa_size area)) (pa_base (fst (snd r))) False)
                     (mm\<lparr>dmem_map := fst r\<rparr>))
              })
           }))"

definition PoolCommit :: "u64 \<Rightarrow> u64 \<Rightarrow> flags32 \<Rightarrow> s32 \<Rightarrow> MemoryManager \<Rightarrow> (s32 \<times> MemoryManager) option" where
  "PoolCommit virtual_addr sz prot mtype mm0 = do {
     let mm = BeginMutation mm0;
     assert_valid mm virtual_addr sz;
     let mapped_addr = AlignUp virtual_addr KB64;
     it \<leftarrow> FindVMA mm mapped_addr;
     vma \<leftarrow> map_of (vma_map mm) it;
     (if vma_type vma \<noteq> VPoolReserved then Some (ORBIS_KERNEL_ERROR_EINVAL, FinishMutation mm)
      else if \<not> VMA_Contains vma mapped_addr sz then Some (ORBIS_KERNEL_ERROR_EINVAL, FinishMutation mm)
      else if pool_budget mm \<le> sz then Some (ORBIS_KERNEL_ERROR_ENOMEM, FinishMutation mm)
      else do {
        let mm1 = mm\<lparr>pool_budget := sub64 (pool_budget mm) sz\<rparr>;
        (m, handle) \<leftarrow> CarveVMA (vma_map mm1) virtual_addr sz;
        new_vma \<leftarrow> map_of m handle;
        (left, areas, mm2) \<leftarrow> pool_commit_loop (om_begin (dmem_map mm1)) sz mapped_addr mapped_addr mtype [] mm1;
        assert_opt (left = 0);
        (m', _) \<leftarrow> MergeAdjacent_vma
                    (om_put handle (new_vma\<lparr>vma_disallow_merge := False, vma_prot := add_read prot,
                                            vma_name := ''anon'', vma_type := VPooled,
                                            vma_phys_areas := areas\<rparr>) m) handle;
        mm3 \<leftarrow> late_gpu_map mapped_addr sz (FinishMutation (mm2\<lparr>vma_map := m'\<rparr>));
        Some (ORBIS_OK, mm3)
      })
   }"

text \<open>The initial check of \<^verbatim>\<open>PoolDecommit\<close>: every area that ends inside the range is pooled.\<close>

primrec decommit_check :: "VMAMap \<Rightarrow> u64 \<Rightarrow> bool" where
  "decommit_check [] end_addr = True"
| "decommit_check (p # rest) end_addr =
     (if add64 (vma_base (snd p)) (vma_size (snd p)) \<le> end_addr
      then (if vma_type (snd p) \<noteq> VPoolReserved \<and> vma_type (snd p) \<noteq> VPooled then False
            else decommit_check rest end_addr)
      else True)"

primrec repool_loop :: "PhysMap \<Rightarrow> u64 \<Rightarrow> u64 \<Rightarrow> PhysMap \<Rightarrow> (u64 \<times> PhysMap) option" where
  "repool_loop [] start_in_vma size_to_free m = Some (size_to_free, m)"
| "repool_loop (p # rest) start_in_vma size_to_free m =
     (if size_to_free > 0 then do {
        let dma_offset = sub64 (max (fst p) start_in_vma) (fst p);
        let phys_addr = add64 (pa_base (snd p)) dma_offset;
        let size_in_dma = min size_to_free (sub64 (pa_size (snd p)) dma_offset);
        (m1, _) \<leftarrow> retag_phys (set_dma PPooled) m phys_addr size_in_dma;
        repool_loop rest start_in_vma (sub64 size_to_free size_in_dma) m1
      } else Some (size_to_free, m))"

definition make_pool_reserved :: "VirtualMemoryArea \<Rightarrow> VirtualMemoryArea" where
  "make_pool_reserved v = v\<lparr>vma_type := VPoolReserved, vma_prot := 0, vma_disallow_merge := False,
                            vma_name := ''anon'', vma_phys_areas := []\<rparr>"

definition decommit_step :: "u64 \<Rightarrow> u64 \<Rightarrow> MemoryManager \<Rightarrow> (u64 \<times> MemoryManager) option" where
  "decommit_step current_addr remaining_size mm = do {
     handle \<leftarrow> FindVMA mm current_addr;
     entry \<leftarrow> map_of (vma_map mm) handle;
     let start_in_vma = sub64 current_addr (vma_base entry);
     let size_in_vma = min remaining_size (sub64 (vma_size entry) start_in_vma);
     mm1 \<leftarrow> (if vma_type entry = VPooled then do {
               phys_handle \<leftarrow> om_floor (vma_phys_areas entry) start_in_vma;
               (left, m) \<leftarrow> repool_loop (om_from (vma_phys_areas entry) phys_handle) start_in_vma size_in_vma
                              (dmem_map mm);
               assert_opt (left = 0);
               Some (mm\<lparr>pool_budget := add64 (pool_budget mm) size_in_vma, dmem_map := m\<rparr>)
             } else Some mm);
     (m', _) \<leftarrow> retag_vma make_pool_reserved (vma_map mm1) current_addr size_in_vma;
     Some (size_in_vma, mm1\<lparr>vma_map := m'\<rparr>)
   }"

partial_function (option) decommit_loop :: "u64 \<Rightarrow> u64 \<Rightarrow> MemoryManager \<Rightarrow> MemoryManager option" where
  "decommit_loop current_addr remaining_size mm =
     (if remaining_size \<noteq> 0 then do {
        r \<leftarrow> decommit_step current_addr remaining_size mm;
        decommit_loop (add64 current_addr (fst r)) (sub64 remaining_size (fst r)) (snd r)
      } else Some mm)"

definition PoolDecommit :: "u64 \<Rightarrow> u64 \<Rightarrow> MemoryManager \<Rightarrow> (s32 \<times> MemoryManager) option" where
  "PoolDecommit virtual_addr sz mm = do {
     assert_valid mm virtual_addr sz;
     it \<leftarrow> FindVMA mm virtual_addr;
     (if \<not> decommit_check (om_from (vma_map mm) it) (add64 virtual_addr sz)
      then Some (ORBIS_KERNEL_ERROR_EINVAL, mm)
      else do {
        mm1 \<leftarrow> early_gpu_unmap virtual_addr sz mm;
        mm2 \<leftarrow> decommit_loop virtual_addr sz (BeginMutation mm1);
        Some (ORBIS_OK, FinishMutation (emit (HostUnmap virtual_addr sz) mm2))
      })
   }"

section \<open>File mappings\<close>

text \<open>
  What \<^verbatim>\<open>MapFile\<close> reads of an open file of the handle table: its type, the mapping handle, the access
  mode and the size.  The table itself and the host's page size are parameters.
\<close>

record FileInfo =
  file_regular :: bool
  file_mapping :: u64
  file_write :: bool
  file_append :: bool
  file_size :: u64

definition file_prot :: "FileInfo \<Rightarrow> flags32 \<Rightarrow> flags32" where
  "file_prot file prot =
     (let prot1 = add_read prot
      in if \<not> file_write file \<and> \<not> file_append file then prot1 AND NOT MemoryProt_CpuWrite else prot1)"

definition MapFile ::
  "(s32 \<Rightarrow> FileInfo option) \<Rightarrow> u64 \<Rightarrow> u64 \<Rightarrow> u64 \<Rightarrow> flags32 \<Rightarrow> flags32 \<Rightarrow> s32 \<Rightarrow> s64 \<Rightarrow> MemoryManager
     \<Rightarrow> (s32 \<times> u64 option \<times> MemoryManager) option" where
  "MapFile GetFile host_page virtual_addr0 sz prot0 flags fd phys_addr mm =
     (case GetFile fd of
        None \<Rightarrow> Some (ORBIS_KERNEL_ERROR_EBADF, None, mm)
      | Some file \<Rightarrow>
          (if \<not> file_regular file then Some (ORBIS_KERNEL_ERROR_EBADF, None, mm)
           else do {
             let prot1 = file_prot file prot0;
             assert_opt (\<not> prot1 \<ge> MemoryProt_GpuRead);
             let prot = (if has_flag prot1 MemoryProt_CpuExec then prot1 AND NOT MemoryProt_CpuExec else prot1);
             chosen \<leftarrow> choose_address mm virtual_addr0 sz flags KB16;
             (case chosen of
                Inl e \<Rightarrow> Some (e, None, mm)
              | Inr virtual_addr \<Rightarrow> do {
                  mm1 \<leftarrow> early_gpu_unmap virtual_addr sz mm;
                  (handle, mm2) \<leftarrow> CreateArea virtual_addr sz prot flags VFile ''anon'' (BeginMutation mm1);
                  new_vma \<leftarrow> map_of (vma_map mm2) handle;
                  let mapped_addr = vma_base new_vma;
                  let mm3 = mm2\<lparr>vma_map := om_put handle (new_vma\<lparr>vma_fd := fd\<rparr>) (vma_map mm2)\<rparr>;
                  let mm4 = emit (HostMapFile mapped_addr sz (u64_of_s64 phys_addr) prot (file_mapping file)) mm3;
                  let file_bytes = (if file_size file > u64_of_s64 phys_addr
                                    then sub64 (file_size file) (u64_of_s64 phys_addr) else 0);
                  let valid_size = min sz (AlignUp file_bytes host_page);
                  let mm5 = (if valid_size < sz
                             then emit (HostMap (add64 mapped_addr valid_size) (sub64 sz valid_size) u64_minus_one False) mm4
                             else mm4);
                  Some (ORBIS_OK, Some mapped_addr, FinishMutation mm5)
                })
           }))"

section \<open>Protection\<close>

definition perm_if :: "flags32 \<Rightarrow> flags32 \<Rightarrow> flags32 \<Rightarrow> flags32 \<Rightarrow> flags32" where
  "perm_if prot flag perm perms = (if has_flag prot flag then perms OR perm else perms)"

definition protect_perms :: "flags32 \<Rightarrow> flags32" where
  "protect_perms prot =
     perm_if prot MemoryProt_GpuReadWrite MemoryPermission_ReadWrite
       (perm_if prot MemoryProt_GpuWrite MemoryPermission_Write
         (perm_if prot MemoryProt_GpuRead MemoryPermission_Read
           (perm_if prot MemoryProt_CpuExec MemoryPermission_Execute
             (perm_if prot MemoryProt_CpuReadWrite MemoryPermission_ReadWrite
               (perm_if prot MemoryProt_CpuRead MemoryPermission_Read 0)))))"

text \<open>
  \<^verbatim>\<open>ProtectBytes\<close> gets its area by reference (\<open>handle\<close> is the key of the element) and reads its type
  again after the merge; when the merge has erased that element, the read has no meaning.
\<close>

definition ProtectBytes :: "u64 \<Rightarrow> u64 \<Rightarrow> u64 \<Rightarrow> flags32 \<Rightarrow> MemoryManager \<Rightarrow> (u64 \<times> MemoryManager) option" where
  "ProtectBytes addr handle sz prot0 mm = do {
     entry \<leftarrow> map_of (vma_map mm) handle;
     let start_in_vma = sub64 addr (vma_base entry);
     let adjusted_size = min (sub64 (vma_size entry) start_in_vma) sz;
     let old_prot = vma_prot entry;
     (if vma_type entry = VFree \<or> vma_type entry = VPoolReserved then Some (adjusted_size, mm)
      else do {
        let prot1 = add_read prot0;
        let perms = protect_perms prot1;
        let prot = (if vma_type entry = VDirect \<or> vma_type entry = VPooled \<or> vma_type entry = VFile
                    then prot1 AND NOT MemoryProt_CpuExec else prot1);
        (m, _) \<leftarrow> retag_vma (\<lambda>v. v\<lparr>vma_prot := prot\<rparr>) (vma_map mm) addr adjusted_size;
        entry' \<leftarrow> map_of m handle;
        let mm1 = mm\<lparr>vma_map := m\<rparr>;
        Some (adjusted_size,
              if vma_type entry' = VReserved then mm1
              else if prot0 \<noteq> old_prot then emit (HostProtect addr adjusted_size perms) mm1
              else mm1)
      })
   }"

partial_function (option) protect_loop ::
  "u64 \<Rightarrow> u64 \<Rightarrow> flags32 \<Rightarrow> u64 \<Rightarrow> MemoryManager \<Rightarrow> (s32 \<times> MemoryManager) option" where
  "protect_loop addr sz prot protected_bytes mm =
     (if protected_bytes < sz then do {
        it \<leftarrow> FindVMA mm (add64 addr protected_bytes);
        entry \<leftarrow> map_of (vma_map mm) it;
        let bytes = (if vma_base entry > add64 addr protected_bytes
                     then add64 protected_bytes (sub64 (vma_base entry) (add64 addr protected_bytes))
                     else protected_bytes);
        r \<leftarrow> ProtectBytes (add64 addr bytes) it (sub64 sz bytes) prot mm;
        (if fst r \<ge> 9223372036854775808 then Some (s32_of_u64 (fst r), snd r)
         else protect_loop addr sz prot (add64 bytes (fst r)) (snd r))
      } else Some (ORBIS_OK, mm))"

definition Protect :: "u64 \<Rightarrow> u64 \<Rightarrow> flags32 \<Rightarrow> MemoryManager \<Rightarrow> (s32 \<times> MemoryManager) option" where
  "Protect addr sz prot mm0 =
     (if sz = 0 then Some (ORBIS_OK, mm0)
      else do {
        let mm = BeginMutation mm0;
        assert_valid mm addr sz;
        (r, mm1) \<leftarrow> protect_loop addr sz prot 0 mm;
        Some (r, FinishMutation mm1)
      })"

partial_function (option) seal_loop :: "MemoryManager \<Rightarrow> u64 \<Rightarrow> u64 \<Rightarrow> s32 option" where
  "seal_loop mm cursor end_addr =
     (if cursor < end_addr then do {
        it \<leftarrow> FindVMA mm cursor;
        vma \<leftarrow> map_of (vma_map mm) it;
        (if vma_base vma > cursor \<or> IsFree vma \<or> vma_type vma = VReserved \<or> vma_type vma = VPoolReserved
            \<or> \<not> has_flag (vma_prot vma) MemoryProt_CpuExec \<or> has_flag (vma_prot vma) MemoryProt_CpuWrite
         then Some ORBIS_KERNEL_ERROR_EACCES
         else if add64 (vma_base vma) (vma_size vma) \<le> cursor then Some ORBIS_KERNEL_ERROR_EACCES
         else seal_loop mm (min end_addr (add64 (vma_base vma) (vma_size vma))) end_addr)
      } else Some ORBIS_OK)"

definition SealGuestExecutable :: "u64 \<Rightarrow> u64 \<Rightarrow> MemoryManager \<Rightarrow> (s32 \<times> MemoryManager) option" where
  "SealGuestExecutable addr sz mm =
     (if sz = 0 then Some (ORBIS_OK, mm)
      else do {
        valid \<leftarrow> IsValidMapping mm addr sz;
        (if \<not> valid \<or> addr > U64_MOD - 1 - sz then Some (ORBIS_KERNEL_ERROR_EACCES, mm)
         else do {
           err \<leftarrow> seal_loop mm addr (add64 addr sz);
           Some (if err \<noteq> ORBIS_OK then (err, mm)
                 else (ORBIS_OK, emit (HostProtect addr sz (MemoryPermission_Read OR MemoryPermission_Execute)) mm))
         })
      })"

section \<open>Memory types and names\<close>

primrec set_type_loop :: "PhysMap \<Rightarrow> s32 \<Rightarrow> PhysMap \<Rightarrow> PhysMap option" where
  "set_type_loop [] memory_type m = Some m"
| "set_type_loop (p # rest) memory_type m = do {
     (m1, handle) \<leftarrow> CarvePhysArea m (pa_base (snd p)) (pa_size (snd p));
     area \<leftarrow> map_of m1 handle;
     set_type_loop rest memory_type (om_put handle (area\<lparr>pa_memory_type := memory_type\<rparr>) m1)
   }"

definition set_type_step ::
  "u64 \<Rightarrow> u64 \<Rightarrow> u64 \<Rightarrow> s32 \<Rightarrow> MemoryManager \<Rightarrow> (u64 \<times> MemoryManager) option" where
  "set_type_step handle current_addr size_in_vma memory_type mm = do {
     vma \<leftarrow> map_of (vma_map mm) handle;
     (if vma_type vma = VDirect \<or> vma_type vma = VPooled then do {
        (m, handle') \<leftarrow> CarveVMA (vma_map mm) current_addr size_in_vma;
        carved \<leftarrow> map_of m handle';
        d \<leftarrow> set_type_loop (vma_phys_areas carved) memory_type (dmem_map mm);
        let areas = map (\<lambda>p. (fst p, (snd p)\<lparr>pa_memory_type := memory_type\<rparr>)) (vma_phys_areas carved);
        Some (handle', mm\<lparr>vma_map := om_put handle' (carved\<lparr>vma_phys_areas := areas\<rparr>) m, dmem_map := d\<rparr>)
      } else Some (handle, mm))
   }"

definition advance_past :: "VMAMap \<Rightarrow> u64 \<Rightarrow> u64 \<Rightarrow> u64 option option" where
  "advance_past m handle current_addr = do {
     vma \<leftarrow> map_of m handle;
     Some (if add64 (vma_base vma) (vma_size vma) \<le> current_addr then om_next m handle else Some handle)
   }"

partial_function (option) set_type_vma_loop ::
  "u64 option \<Rightarrow> u64 \<Rightarrow> u64 \<Rightarrow> s32 \<Rightarrow> MemoryManager \<Rightarrow> MemoryManager option" where
  "set_type_vma_loop handle current_addr remaining_size memory_type mm =
     (case handle of
        None \<Rightarrow> Some mm
      | Some h \<Rightarrow>
          (if remaining_size > 0 then do {
             vma \<leftarrow> map_of (vma_map mm) h;
             let size_in_vma = min remaining_size (sub64 (vma_size vma) (sub64 current_addr (vma_base vma)));
             r \<leftarrow> set_type_step h current_addr size_in_vma memory_type mm;
             s \<leftarrow> MergeAdjacent_vma (vma_map (snd r)) (fst r);
             handle' \<leftarrow> advance_past (fst s) (snd s) (add64 current_addr size_in_vma);
             set_type_vma_loop handle' (add64 current_addr size_in_vma) (sub64 remaining_size size_in_vma) memory_type
               ((snd r)\<lparr>vma_map := fst s\<rparr>)
           } else Some mm))"

definition SetDirectMemoryType :: "u64 \<Rightarrow> u64 \<Rightarrow> s32 \<Rightarrow> MemoryManager \<Rightarrow> (s32 \<times> MemoryManager) option" where
  "SetDirectMemoryType addr sz memory_type mm0 = do {
     let mm = BeginMutation mm0;
     assert_valid mm addr sz;
     it \<leftarrow> FindVMA mm addr;
     mm1 \<leftarrow> set_type_vma_loop (Some it) addr sz memory_type mm;
     Some (ORBIS_OK, FinishMutation mm1)
   }"

definition name_step :: "u64 \<Rightarrow> u64 \<Rightarrow> u64 \<Rightarrow> string \<Rightarrow> VMAMap \<Rightarrow> (u64 \<times> VMAMap) option" where
  "name_step handle current_addr size_in_vma name m = do {
     vma \<leftarrow> map_of m handle;
     (if \<not> IsFree vma then
        (if size_in_vma < vma_size vma then do {
           (m1, handle') \<leftarrow> CarveVMA m current_addr size_in_vma;
           new_vma \<leftarrow> map_of m1 handle';
           Some (handle', om_put handle' (new_vma\<lparr>vma_name := name\<rparr>) m1)
         } else Some (handle, om_put handle (vma\<lparr>vma_name := name\<rparr>) m))
      else Some (handle, m))
   }"

partial_function (option) name_loop ::
  "u64 option \<Rightarrow> u64 \<Rightarrow> u64 \<Rightarrow> string \<Rightarrow> VMAMap \<Rightarrow> VMAMap option" where
  "name_loop handle current_addr remaining_size name m =
     (case handle of
        None \<Rightarrow> Some m
      | Some h \<Rightarrow>
          (if remaining_size > 0 then do {
             vma \<leftarrow> map_of m h;
             let size_in_vma = min remaining_size (sub64 (vma_size vma) (sub64 current_addr (vma_base vma)));
             r \<leftarrow> name_step h current_addr size_in_vma name m;
             s \<leftarrow> MergeAdjacent_vma (snd r) (fst r);
             handle' \<leftarrow> advance_past (fst s) (snd s) (add64 current_addr size_in_vma);
             name_loop handle' (add64 current_addr size_in_vma) (sub64 remaining_size size_in_vma) name (fst s)
           } else Some m))"

definition NameVirtualRange :: "u64 \<Rightarrow> u64 \<Rightarrow> string \<Rightarrow> MemoryManager \<Rightarrow> MemoryManager option" where
  "NameVirtualRange virtual_addr sz name mm0 = do {
     let mm = BeginMutation mm0;
     let aligned_size = AlignUp sz KB16;
     let aligned_addr = AlignDown virtual_addr KB16;
     assert_valid mm aligned_addr aligned_size;
     it \<leftarrow> FindVMA mm aligned_addr;
     m \<leftarrow> name_loop (Some it) aligned_addr aligned_size name (vma_map mm);
     Some (FinishMutation (mm\<lparr>vma_map := m\<rparr>))
   }"

end
