(* ===== verification/Kernel_Memory.thy ===== *)
theory Kernel_Memory
  imports Memory_Operations
begin

text \<open>
  The memory calls of the guest kernel library (\<^verbatim>\<open>src/core/libraries/kernel/memory.cpp\<close>): argument
  checks, alignment, the translation of errors to \<^verbatim>\<open>errno\<close>, batches, and the calls of the memory
  manager.

  A call returns its result code, what it stores through its output pointers, and the new state.
  Pointer arguments that the source compares with \<^verbatim>\<open>nullptr\<close> are options; an output that is not
  written stays \<open>None\<close>.  Log output is not modelled, but a pointer that is dereferenced for a log
  line is dereferenced here.
\<close>

section \<open>State\<close>

record KernelMemory =
  km_memory :: MemoryManager
  g_sdk_version :: s32
  g_alias_dmem :: bool
  PrtApertures :: "(u64 \<times> u64) list"
  g_posix_errno :: s32

abbreviation ORBIS_KERNEL_MAXIMUM_NAME_LENGTH :: nat where "ORBIS_KERNEL_MAXIMUM_NAME_LENGTH \<equiv> 32"
abbreviation ORBIS_KERNEL_MAP_FIXED :: s32 where "ORBIS_KERNEL_MAP_FIXED \<equiv> 0x10"
abbreviation MAX_PRT_APERTURES :: s32 where "MAX_PRT_APERTURES \<equiv> 3"
abbreviation PRT_AREA_START_ADDR :: u64 where "PRT_AREA_START_ADDR \<equiv> 0x1000000000"
abbreviation PRT_AREA_SIZE :: u64 where "PRT_AREA_SIZE \<equiv> 0xec00000000"

definition with_memory :: "KernelMemory \<Rightarrow> MemoryManager \<Rightarrow> KernelMemory" where
  "with_memory st mm = st\<lparr>km_memory := mm\<rparr>"

text \<open>\<^verbatim>\<open>RegisterMemory\<close> reads the compiled SDK version; the other globals have their initial values.\<close>

definition RegisterMemory :: "s32 \<Rightarrow> MemoryManager \<Rightarrow> KernelMemory" where
  "RegisterMemory sdk mm =
     \<lparr>km_memory = mm, g_sdk_version = sdk, g_alias_dmem = False, PrtApertures = replicate 3 (0, 0),
      g_posix_errno = 0\<rparr>"

section \<open>Error translation\<close>

definition ErrSceToPosix :: "s32 \<Rightarrow> KernelMemory \<Rightarrow> KernelMemory" where
  "ErrSceToPosix err st = st\<lparr>g_posix_errno := err - ORBIS_KERNEL_ERROR_UNKNOWN\<rparr>"

definition sceKernelError :: "s32 \<Rightarrow> s32" where
  "sceKernelError posix_error =
     (if posix_error = 0 then 0 else posix_error + ORBIS_KERNEL_ERROR_UNKNOWN)"

section \<open>Direct memory\<close>

definition sceKernelGetDirectMemorySize :: "KernelMemory \<Rightarrow> u64" where
  "sceKernelGetDirectMemorySize st = total_direct_size (km_memory st)"

definition sceKernelEnableDmemAliasing :: "KernelMemory \<Rightarrow> s32 \<times> KernelMemory" where
  "sceKernelEnableDmemAliasing st = (ORBIS_OK, st\<lparr>g_alias_dmem := True\<rparr>)"

text \<open>\<open>has_out\<close> is whether \<^verbatim>\<open>physAddrOut\<close> is not null.\<close>

definition sceKernelAllocateDirectMemory ::
  "s64 \<Rightarrow> s64 \<Rightarrow> u64 \<Rightarrow> u64 \<Rightarrow> s32 \<Rightarrow> bool \<Rightarrow> KernelMemory \<Rightarrow> (s32 \<times> s64 option \<times> KernelMemory) option" where
  "sceKernelAllocateDirectMemory searchStart searchEnd len alignment memoryType has_out st =
     (if searchStart < 0 \<or> searchEnd < 0 then Some (ORBIS_KERNEL_ERROR_EINVAL, None, st)
      else if len = 0 \<or> \<not> Is16KBAligned len then Some (ORBIS_KERNEL_ERROR_EINVAL, None, st)
      else if alignment \<noteq> 0 \<and> \<not> Is16KBAligned alignment then Some (ORBIS_KERNEL_ERROR_EINVAL, None, st)
      else if memoryType > 10 then Some (ORBIS_KERNEL_ERROR_EINVAL, None, st)
      else if \<not> has_out then Some (ORBIS_KERNEL_ERROR_EINVAL, None, st)
      else if searchEnd \<le> searchStart \<or> u64_of_s64 searchEnd < len
              \<or> \<not> u64_of_s64 (searchEnd - searchStart) \<ge> len
      then Some (ORBIS_KERNEL_ERROR_EAGAIN, None, st)
      else do {
        (phys_addr, mm) \<leftarrow> Allocate (u64_of_s64 searchStart) (u64_of_s64 searchEnd) len alignment memoryType
                             (km_memory st);
        Some (if phys_addr = u64_minus_one then (ORBIS_KERNEL_ERROR_EAGAIN, None, with_memory st mm)
              else (ORBIS_OK, Some (s64_of_u64 phys_addr), with_memory st mm))
      })"

definition sceKernelAllocateMainDirectMemory ::
  "u64 \<Rightarrow> u64 \<Rightarrow> s32 \<Rightarrow> bool \<Rightarrow> KernelMemory \<Rightarrow> (s32 \<times> s64 option \<times> KernelMemory) option" where
  "sceKernelAllocateMainDirectMemory len alignment memoryType has_out st =
     sceKernelAllocateDirectMemory 0 (s64_of_u64 (sceKernelGetDirectMemorySize st)) len alignment memoryType
       has_out st"

definition sceKernelCheckedReleaseDirectMemory ::
  "u64 \<Rightarrow> u64 \<Rightarrow> KernelMemory \<Rightarrow> (s32 \<times> KernelMemory) option" where
  "sceKernelCheckedReleaseDirectMemory start len st =
     (if \<not> Is16KBAligned start \<or> \<not> Is16KBAligned len then Some (ORBIS_KERNEL_ERROR_EINVAL, st)
      else if len = 0 then Some (ORBIS_OK, st)
      else map_option (\<lambda>(r, mm). (r, with_memory st mm)) (Free start len True (km_memory st)))"

definition sceKernelReleaseDirectMemory ::
  "u64 \<Rightarrow> u64 \<Rightarrow> KernelMemory \<Rightarrow> (s32 \<times> KernelMemory) option" where
  "sceKernelReleaseDirectMemory start len st =
     (if \<not> Is16KBAligned start \<or> \<not> Is16KBAligned len then Some (ORBIS_KERNEL_ERROR_EINVAL, st)
      else if len = 0 then Some (ORBIS_OK, st)
      else map_option (\<lambda>(r, mm). (ORBIS_OK, with_memory st mm)) (Free start len False (km_memory st)))"

definition sceKernelAvailableDirectMemorySize ::
  "u64 \<Rightarrow> u64 \<Rightarrow> u64 \<Rightarrow> bool \<Rightarrow> bool \<Rightarrow> KernelMemory \<Rightarrow> (s32 \<times> (u64 \<times> u64) option) option" where
  "sceKernelAvailableDirectMemorySize searchStart searchEnd alignment has_phys has_size st =
     (if \<not> has_phys \<or> \<not> has_size then Some (ORBIS_KERNEL_ERROR_EINVAL, None)
      else do {
        (result, physAddr, sz) \<leftarrow> DirectQueryAvailable (km_memory st) searchStart searchEnd alignment;
        Some (if sz = 0 then (ORBIS_KERNEL_ERROR_ENOMEM, None) else (result, Some (physAddr, sz)))
      })"

definition sceKernelDirectMemoryQuery ::
  "u64 \<Rightarrow> s32 \<Rightarrow> OrbisQueryInfo \<Rightarrow> KernelMemory \<Rightarrow> (s32 \<times> OrbisQueryInfo) option" where
  "sceKernelDirectMemoryQuery offset flags query_info st =
     DirectMemoryQuery (km_memory st) offset (flags = 1) query_info"

definition sceKernelGetDirectMemoryType ::
  "u64 \<Rightarrow> KernelMemory \<Rightarrow> (s32 \<times> (s32 \<times> u64 \<times> u64) option) option" where
  "sceKernelGetDirectMemoryType addr st = GetDirectMemoryType (km_memory st) addr"

section \<open>Virtual memory\<close>

definition sceKernelVirtualQuery ::
  "u64 \<Rightarrow> s32 \<Rightarrow> KernelMemory \<Rightarrow> (s32 \<times> OrbisVirtualQueryInfo option) option" where
  "sceKernelVirtualQuery addr flags st = VirtualQuery (km_memory st) addr flags"

definition bad_alignment :: "u64 \<Rightarrow> bool" where
  "bad_alignment alignment \<longleftrightarrow>
     alignment \<noteq> 0 \<and> \<not> has_single_bit alignment \<and> \<not> Is16KBAligned alignment"

text \<open>A fixed mapping at address zero: an error from SDK 1.70 on, not fixed before.\<close>

definition fixed_at_zero :: "KernelMemory \<Rightarrow> u64 \<Rightarrow> flags32 \<Rightarrow> flags32 option" where
  "fixed_at_zero st in_addr map_flags =
     (if has_flag map_flags MapFlag_Fixed \<and> in_addr = 0
      then (if FW_170 \<le> u32_of_s32 (g_sdk_version st) then None else Some (map_flags AND NOT MapFlag_Fixed))
      else Some map_flags)"

text \<open>\<^verbatim>\<open>MapMemory\<close> with \<^verbatim>\<open>*addr\<close> as its output: the location keeps its value when the call fails.\<close>

definition map_at ::
  "u64 \<Rightarrow> (s32 \<times> u64 option \<times> MemoryManager) option \<Rightarrow> KernelMemory \<Rightarrow> (s32 \<times> u64 \<times> KernelMemory) option" where
  "map_at in_addr r st =
     map_option (\<lambda>(err, out, mm). (err, case out of None \<Rightarrow> in_addr | Some a \<Rightarrow> a, with_memory st mm)) r"

text \<open>The address argument is dereferenced for the log line before it is compared with \<^verbatim>\<open>nullptr\<close>.\<close>

definition sceKernelReserveVirtualRange ::
  "u64 option \<Rightarrow> u64 \<Rightarrow> s32 \<Rightarrow> u64 \<Rightarrow> KernelMemory \<Rightarrow> (s32 \<times> u64 \<times> KernelMemory) option" where
  "sceKernelReserveVirtualRange addr len flags alignment st = do {
     in_addr \<leftarrow> addr;
     (if len = 0 \<or> \<not> Is16KBAligned len then Some (ORBIS_KERNEL_ERROR_EINVAL, in_addr, st)
      else if bad_alignment alignment then Some (ORBIS_KERNEL_ERROR_EINVAL, in_addr, st)
      else case fixed_at_zero st in_addr (flags_of_s32 flags) of
             None \<Rightarrow> Some (ORBIS_KERNEL_ERROR_EINVAL, in_addr, st)
           | Some map_flags \<Rightarrow>
               map_at in_addr (MapMemory in_addr len 0 map_flags VReserved ''anon'' False u64_minus_one alignment
                                 (km_memory st)) st)
   }"

definition sceKernelMapNamedDirectMemory ::
  "u64 \<Rightarrow> u64 \<Rightarrow> s32 \<Rightarrow> s32 \<Rightarrow> s64 \<Rightarrow> u64 \<Rightarrow> string \<Rightarrow> KernelMemory \<Rightarrow> (s32 \<times> u64 \<times> KernelMemory) option" where
  "sceKernelMapNamedDirectMemory in_addr len prot flags phys_addr alignment name st =
     (if len = 0 \<or> \<not> Is16KBAligned len then Some (ORBIS_KERNEL_ERROR_EINVAL, in_addr, st)
      else if \<not> Is16KBAligned (u64_of_s64 phys_addr) then Some (ORBIS_KERNEL_ERROR_EINVAL, in_addr, st)
      else if bad_alignment alignment then Some (ORBIS_KERNEL_ERROR_EINVAL, in_addr, st)
      else if length name \<ge> ORBIS_KERNEL_MAXIMUM_NAME_LENGTH then Some (ORBIS_KERNEL_ERROR_ENAMETOOLONG, in_addr, st)
      else if has_flag (flags_of_s32 prot) MemoryProt_CpuExec then Some (ORBIS_KERNEL_ERROR_EACCES, in_addr, st)
      else let should_check = (u32_of_s32 (g_sdk_version st) \<ge> FW_250 \<and> \<not> has_flag (flags_of_s32 flags) MapFlag_Stack
                               \<and> \<not> g_alias_dmem st)
           in case fixed_at_zero st in_addr (flags_of_s32 flags) of
                None \<Rightarrow> Some (ORBIS_KERNEL_ERROR_EINVAL, in_addr, st)
              | Some map_flags \<Rightarrow>
                  map_at in_addr (MapMemory in_addr len (flags_of_s32 prot) map_flags VDirect name should_check
                                    (u64_of_s64 phys_addr) alignment (km_memory st)) st)"

definition sceKernelMapDirectMemory ::
  "u64 \<Rightarrow> u64 \<Rightarrow> s32 \<Rightarrow> s32 \<Rightarrow> s64 \<Rightarrow> u64 \<Rightarrow> KernelMemory \<Rightarrow> (s32 \<times> u64 \<times> KernelMemory) option" where
  "sceKernelMapDirectMemory in_addr len prot flags phys_addr alignment st =
     sceKernelMapNamedDirectMemory in_addr len prot flags phys_addr alignment ''anon'' st"

definition sceKernelMapDirectMemory2 ::
  "u64 \<Rightarrow> u64 \<Rightarrow> s32 \<Rightarrow> s32 \<Rightarrow> s32 \<Rightarrow> s64 \<Rightarrow> u64 \<Rightarrow> KernelMemory \<Rightarrow> (s32 \<times> u64 \<times> KernelMemory) option" where
  "sceKernelMapDirectMemory2 in_addr len type prot flags phys_addr alignment st =
     (if len = 0 \<or> \<not> Is16KBAligned len then Some (ORBIS_KERNEL_ERROR_EINVAL, in_addr, st)
      else if \<not> Is16KBAligned (u64_of_s64 phys_addr) then Some (ORBIS_KERNEL_ERROR_EINVAL, in_addr, st)
      else if bad_alignment alignment then Some (ORBIS_KERNEL_ERROR_EINVAL, in_addr, st)
      else if has_flag (flags_of_s32 prot) MemoryProt_CpuExec then Some (ORBIS_KERNEL_ERROR_EINVAL, in_addr, st)
      else do {
        (ret, out_addr, st1) \<leftarrow>
          map_at in_addr (MapMemory in_addr len (flags_of_s32 prot) (flags_of_s32 flags) VDirect ''anon''
                            (\<not> g_alias_dmem st) (u64_of_s64 phys_addr) alignment (km_memory st)) st;
        (if ret = 0 then do {
           (_, mm) \<leftarrow> SetDirectMemoryType out_addr len type (km_memory st1);
           Some (ret, out_addr, with_memory st1 mm)
         } else Some (ret, out_addr, st1))
      })"

definition sceKernelMapNamedFlexibleMemory ::
  "u64 \<Rightarrow> u64 \<Rightarrow> s32 \<Rightarrow> s32 \<Rightarrow> string option \<Rightarrow> KernelMemory \<Rightarrow> (s32 \<times> u64 \<times> KernelMemory) option" where
  "sceKernelMapNamedFlexibleMemory in_addr len prot flags name st =
     (if len = 0 \<or> \<not> Is16KBAligned len then Some (ORBIS_KERNEL_ERROR_EINVAL, in_addr, st)
      else case name of
        None \<Rightarrow> Some (ORBIS_KERNEL_ERROR_EFAULT, in_addr, st)
      | Some nm \<Rightarrow>
          (if length nm \<ge> ORBIS_KERNEL_MAXIMUM_NAME_LENGTH then Some (ORBIS_KERNEL_ERROR_ENAMETOOLONG, in_addr, st)
           else case fixed_at_zero st in_addr (flags_of_s32 flags) of
                  None \<Rightarrow> Some (ORBIS_KERNEL_ERROR_EINVAL, in_addr, st)
                | Some map_flags \<Rightarrow>
                    map_at in_addr (MapMemory in_addr len (flags_of_s32 prot) map_flags VFlexible nm False
                                      u64_minus_one 0 (km_memory st)) st))"

definition sceKernelMapFlexibleMemory ::
  "u64 \<Rightarrow> u64 \<Rightarrow> s32 \<Rightarrow> s32 \<Rightarrow> KernelMemory \<Rightarrow> (s32 \<times> u64 \<times> KernelMemory) option" where
  "sceKernelMapFlexibleMemory in_addr len prot flags st =
     sceKernelMapNamedFlexibleMemory in_addr len prot flags (Some ''anon'') st"

definition sceKernelQueryMemoryProtection ::
  "u64 \<Rightarrow> KernelMemory \<Rightarrow> (s32 \<times> (u64 \<times> u64 \<times> flags32 \<times> u64) option) option" where
  "sceKernelQueryMemoryProtection addr st = QueryProtection (km_memory st) addr"

text \<open>The range of whole pages around \<open>size\<close> bytes at \<open>addr\<close>.\<close>

definition page_range :: "u64 \<Rightarrow> u64 \<Rightarrow> u64 \<times> u64" where
  "page_range in_addr sz =
     (let aligned_addr = AlignDown in_addr KB16
      in (aligned_addr, AlignUp (sub64 (add64 sz in_addr) aligned_addr) KB16))"

definition sceKernelMprotect :: "u64 \<Rightarrow> u64 \<Rightarrow> s32 \<Rightarrow> KernelMemory \<Rightarrow> (s32 \<times> KernelMemory) option" where
  "sceKernelMprotect in_addr sz prot st =
     (let (aligned_addr, aligned_size) = page_range in_addr sz
      in if aligned_size = 0 then Some (ORBIS_OK, st)
         else do {
           (result, mm) \<leftarrow> Protect aligned_addr aligned_size (flags_of_s32 prot) (km_memory st);
           Some (result, with_memory st
             (if result = ORBIS_OK then InvalidateMemory aligned_addr aligned_size mm else mm))
         })"

definition posix_mprotect :: "u64 \<Rightarrow> u64 \<Rightarrow> s32 \<Rightarrow> KernelMemory \<Rightarrow> (s32 \<times> KernelMemory) option" where
  "posix_mprotect addr sz prot st = do {
     (result, st1) \<leftarrow> sceKernelMprotect addr sz prot st;
     Some (if result < 0 then (-1, ErrSceToPosix result st1) else (result, st1))
   }"

definition sceKernelMtypeprotect ::
  "u64 \<Rightarrow> u64 \<Rightarrow> s32 \<Rightarrow> s32 \<Rightarrow> KernelMemory \<Rightarrow> (s32 \<times> KernelMemory) option" where
  "sceKernelMtypeprotect in_addr sz mtype prot st =
     (let (aligned_addr, aligned_size) = page_range in_addr sz
      in if aligned_size = 0 then Some (ORBIS_OK, st)
         else do {
           (result, mm) \<leftarrow> Protect aligned_addr aligned_size (flags_of_s32 prot) (km_memory st);
           (if result = ORBIS_OK then do {
              (_, mm1) \<leftarrow> SetDirectMemoryType aligned_addr aligned_size mtype mm;
              Some (result, with_memory st (InvalidateMemory aligned_addr aligned_size mm1))
            } else Some (result, with_memory st mm))
         })"

definition sceKernelAvailableFlexibleMemorySize :: "KernelMemory \<Rightarrow> s32 \<times> u64" where
  "sceKernelAvailableFlexibleMemorySize st = (ORBIS_OK, GetAvailableFlexibleSize (km_memory st))"

definition sceKernelConfiguredFlexibleMemorySize :: "bool \<Rightarrow> KernelMemory \<Rightarrow> s32 \<times> u64 option" where
  "sceKernelConfiguredFlexibleMemorySize has_out st =
     (if \<not> has_out then (ORBIS_KERNEL_ERROR_EINVAL, None)
      else (ORBIS_OK, Some (total_flexible_size (km_memory st))))"

definition sceKernelIsStack :: "u64 \<Rightarrow> KernelMemory \<Rightarrow> (s32 \<times> (u64 \<times> u64) option) option" where
  "sceKernelIsStack addr st = IsStack (km_memory st) addr"

definition sceKernelIsAddressSanitizerEnabled :: "u32" where
  "sceKernelIsAddressSanitizerEnabled = 0"

definition sceKernelMunmap :: "u64 \<Rightarrow> u64 \<Rightarrow> KernelMemory \<Rightarrow> (s32 \<times> KernelMemory) option" where
  "sceKernelMunmap addr len st =
     (if len = 0 then Some (ORBIS_KERNEL_ERROR_EINVAL, st)
      else map_option (\<lambda>(r, mm). (r, with_memory st mm)) (UnmapMemory addr len (km_memory st)))"

definition posix_munmap :: "u64 \<Rightarrow> u64 \<Rightarrow> KernelMemory \<Rightarrow> (s32 \<times> KernelMemory) option" where
  "posix_munmap addr len st = do {
     (result, st1) \<leftarrow> sceKernelMunmap addr len st;
     Some (if result < 0 then (-1, ErrSceToPosix result st1) else (result, st1))
   }"

definition sceKernelSetVirtualRangeName ::
  "u64 \<Rightarrow> u64 \<Rightarrow> string option \<Rightarrow> KernelMemory \<Rightarrow> (s32 \<times> KernelMemory) option" where
  "sceKernelSetVirtualRangeName addr len name st =
     (case name of
        None \<Rightarrow> Some (ORBIS_KERNEL_ERROR_EFAULT, st)
      | Some nm \<Rightarrow>
          (if length nm \<ge> ORBIS_KERNEL_MAXIMUM_NAME_LENGTH then Some (ORBIS_KERNEL_ERROR_ENAMETOOLONG, st)
           else map_option (\<lambda>mm. (ORBIS_OK, with_memory st mm)) (NameVirtualRange addr len nm (km_memory st))))"

section \<open>Batches of mapping operations\<close>

record OrbisKernelBatchMapEntry =
  be_start :: u64
  be_offset :: u64
  be_length :: u64
  be_protection :: s32
  be_type :: s32
  be_operation :: s32

text \<open>One entry: the result, the entry with the address the call stored in it, the new state.\<close>

definition batch_map_entry ::
  "OrbisKernelBatchMapEntry \<Rightarrow> s32 \<Rightarrow> KernelMemory
     \<Rightarrow> (s32 \<times> OrbisKernelBatchMapEntry \<times> KernelMemory) option" where
  "batch_map_entry e flags st =
     (if be_operation e = 0 then
        map_option (\<lambda>(r, a, st'). (r, e\<lparr>be_start := a\<rparr>, st'))
          (sceKernelMapNamedDirectMemory (be_start e) (be_length e) (be_protection e) flags
             (s64_of_u64 (be_offset e)) 0 ''anon'' st)
      else if be_operation e = 1 then
        map_option (\<lambda>(r, st'). (r, e, st')) (sceKernelMunmap (be_start e) (be_length e) st)
      else if be_operation e = 2 then
        map_option (\<lambda>(r, st'). (r, e, st')) (sceKernelMprotect (be_start e) (be_length e) (be_protection e) st)
      else if be_operation e = 3 then
        map_option (\<lambda>(r, a, st'). (r, e\<lparr>be_start := a\<rparr>, st'))
          (sceKernelMapNamedFlexibleMemory (be_start e) (be_length e) (be_protection e) flags (Some ''anon'') st)
      else if be_operation e = 4 then
        map_option (\<lambda>(r, st'). (r, e, st'))
          (sceKernelMtypeprotect (be_start e) (be_length e) (be_type e) (be_protection e) st)
      else None)"

primrec batch_map_loop ::
  "OrbisKernelBatchMapEntry list \<Rightarrow> s32 \<Rightarrow> nat \<Rightarrow> KernelMemory
     \<Rightarrow> (s32 \<times> nat \<times> OrbisKernelBatchMapEntry list \<times> KernelMemory) option" where
  "batch_map_loop [] flags processed st = Some (ORBIS_OK, processed, [], st)"
| "batch_map_loop (e # es) flags processed st =
     (if be_length e = 0 \<or> be_operation e > 4 then Some (ORBIS_KERNEL_ERROR_EINVAL, processed, e # es, st)
      else do {
        (result, e', st1) \<leftarrow> batch_map_entry e flags st;
        (if result \<noteq> ORBIS_OK then Some (result, processed, e' # es, st1)
         else map_option (\<lambda>(r, n, es', st2). (r, n, e' # es', st2)) (batch_map_loop es flags (processed + 1) st1))
      })"

text \<open>\<open>entries\<close> is the array of \<^verbatim>\<open>numEntries\<close> entries, \<open>None\<close> a null pointer with \<open>n\<close> entries asked for.\<close>

definition sceKernelBatchMap2 ::
  "OrbisKernelBatchMapEntry list option \<Rightarrow> nat \<Rightarrow> s32 \<Rightarrow> KernelMemory
     \<Rightarrow> (s32 \<times> nat \<times> OrbisKernelBatchMapEntry list \<times> KernelMemory) option" where
  "sceKernelBatchMap2 entries n flags st =
     (case entries of
        None \<Rightarrow> Some (if n = 0 then ORBIS_OK else ORBIS_KERNEL_ERROR_EINVAL, 0, [], st)
      | Some es \<Rightarrow> (if n \<le> length es then batch_map_loop (take n es) flags 0 st else None))"

definition sceKernelBatchMap ::
  "OrbisKernelBatchMapEntry list option \<Rightarrow> nat \<Rightarrow> KernelMemory
     \<Rightarrow> (s32 \<times> nat \<times> OrbisKernelBatchMapEntry list \<times> KernelMemory) option" where
  "sceKernelBatchMap entries n st = sceKernelBatchMap2 entries n ORBIS_KERNEL_MAP_FIXED st"

section \<open>Memory pools\<close>

definition sceKernelMemoryPoolExpand ::
  "u64 \<Rightarrow> u64 \<Rightarrow> u64 \<Rightarrow> u64 \<Rightarrow> bool \<Rightarrow> KernelMemory \<Rightarrow> (s32 \<times> u64 option \<times> KernelMemory) option" where
  "sceKernelMemoryPoolExpand searchStart searchEnd len alignment has_out st =
     (if searchEnd \<le> searchStart then Some (ORBIS_KERNEL_ERROR_EINVAL, None, st)
      else if len = 0 \<or> \<not> Is64KBAligned len then Some (ORBIS_KERNEL_ERROR_EINVAL, None, st)
      else if alignment \<noteq> 0 \<and> \<not> Is64KBAligned alignment then Some (ORBIS_KERNEL_ERROR_EINVAL, None, st)
      else if \<not> has_out then Some (ORBIS_KERNEL_ERROR_EINVAL, None, st)
      else if searchEnd \<le> searchStart \<or> searchEnd < len \<or> \<not> sub64 searchEnd searchStart \<ge> len
      then Some (ORBIS_KERNEL_ERROR_ENOMEM, None, st)
      else do {
        (phys_addr, mm) \<leftarrow> PoolExpand searchStart searchEnd len alignment (km_memory st);
        Some (if phys_addr = u64_minus_one then (ORBIS_KERNEL_ERROR_ENOMEM, None, with_memory st mm)
              else (ORBIS_OK, Some phys_addr, with_memory st mm))
      })"

definition sceKernelMemoryPoolReserve ::
  "u64 \<Rightarrow> u64 \<Rightarrow> u64 \<Rightarrow> s32 \<Rightarrow> KernelMemory \<Rightarrow> (s32 \<times> u64 option \<times> KernelMemory) option" where
  "sceKernelMemoryPoolReserve addr_in len alignment flags st =
     (if len = 0 \<or> \<not> Is2MBAligned len then Some (ORBIS_KERNEL_ERROR_EINVAL, None, st)
      else if alignment \<noteq> 0 \<and> \<not> has_single_bit alignment \<and> \<not> Is2MBAligned alignment
      then Some (ORBIS_KERNEL_ERROR_EINVAL, None, st)
      else map_option (\<lambda>(r, out, mm). (r, out, with_memory st mm))
             (MapMemory addr_in len 0 (flags_of_s32 flags) VPoolReserved ''anon'' False u64_minus_one
                (if alignment = 0 then MB2 else alignment) (km_memory st)))"

definition sceKernelMemoryPoolCommit ::
  "u64 \<Rightarrow> u64 \<Rightarrow> s32 \<Rightarrow> s32 \<Rightarrow> s32 \<Rightarrow> KernelMemory \<Rightarrow> (s32 \<times> KernelMemory) option" where
  "sceKernelMemoryPoolCommit addr len type prot flags st =
     (if addr = 0 then Some (ORBIS_KERNEL_ERROR_EINVAL, st)
      else if len = 0 \<or> \<not> Is64KBAligned len then Some (ORBIS_KERNEL_ERROR_EINVAL, st)
      else if has_flag (flags_of_s32 prot) MemoryProt_CpuExec then Some (ORBIS_KERNEL_ERROR_EINVAL, st)
      else map_option (\<lambda>(r, mm). (r, with_memory st mm))
             (PoolCommit addr len (flags_of_s32 prot) type (km_memory st)))"

definition sceKernelMemoryPoolDecommit ::
  "u64 \<Rightarrow> u64 \<Rightarrow> s32 \<Rightarrow> KernelMemory \<Rightarrow> (s32 \<times> KernelMemory) option" where
  "sceKernelMemoryPoolDecommit addr len flags st =
     (if addr = 0 then Some (ORBIS_KERNEL_ERROR_EINVAL, st)
      else if len = 0 \<or> \<not> Is64KBAligned len then Some (ORBIS_KERNEL_ERROR_EINVAL, st)
      else map_option (\<lambda>(r, mm). (r, with_memory st mm)) (PoolDecommit addr len (km_memory st)))"

text \<open>The entries of \<^verbatim>\<open>sceKernelMemoryPoolBatch\<close>; \<open>PoolOther\<close> is an opcode outside the enumeration.\<close>

datatype OrbisKernelMemoryPoolBatchEntry =
    PoolCommitEntry s32 u64 u64 s32 s32
  | PoolDecommitEntry s32 u64 u64
  | PoolProtectEntry u64 u64 s32
  | PoolTypeProtectEntry u64 u64 s32 s32
  | PoolMoveEntry u64 u64 u64
  | PoolOther

primrec pool_batch_entry ::
  "OrbisKernelMemoryPoolBatchEntry \<Rightarrow> KernelMemory \<Rightarrow> (s32 \<times> KernelMemory) option" where
  "pool_batch_entry (PoolCommitEntry flags addr len prot type) st = sceKernelMemoryPoolCommit addr len type prot flags st"
| "pool_batch_entry (PoolDecommitEntry flags addr len) st = sceKernelMemoryPoolDecommit addr len flags st"
| "pool_batch_entry (PoolProtectEntry addr len prot) st = sceKernelMprotect addr len prot st"
| "pool_batch_entry (PoolTypeProtectEntry addr len prot type) st = sceKernelMtypeprotect addr len type prot st"
| "pool_batch_entry (PoolMoveEntry dest src len) st = None"
| "pool_batch_entry PoolOther st = Some (ORBIS_KERNEL_ERROR_EINVAL, st)"

primrec pool_batch_loop ::
  "OrbisKernelMemoryPoolBatchEntry list \<Rightarrow> nat \<Rightarrow> KernelMemory \<Rightarrow> (s32 \<times> nat \<times> KernelMemory) option" where
  "pool_batch_loop [] processed st = Some (ORBIS_OK, processed, st)"
| "pool_batch_loop (e # es) processed st = do {
     (result, st1) \<leftarrow> pool_batch_entry e st;
     (if result \<noteq> ORBIS_OK then Some (result, processed, st1) else pool_batch_loop es (processed + 1) st1)
   }"

definition sceKernelMemoryPoolBatch ::
  "OrbisKernelMemoryPoolBatchEntry list option \<Rightarrow> nat \<Rightarrow> KernelMemory \<Rightarrow> (s32 \<times> nat option \<times> KernelMemory) option" where
  "sceKernelMemoryPoolBatch entries count st =
     (case entries of
        None \<Rightarrow> Some (ORBIS_KERNEL_ERROR_EINVAL, None, st)
      | Some es \<Rightarrow>
          (if count \<le> length es
           then map_option (\<lambda>(r, n, st'). (r, Some n, st')) (pool_batch_loop (take count es) 0 st) else None))"

text \<open>The statistics and how many of their 16 bytes are copied to \<open>stats\<close>.\<close>

definition sceKernelMemoryPoolGetBlockStats ::
  "bool \<Rightarrow> u64 \<Rightarrow> KernelMemory \<Rightarrow> (s32 \<times> OrbisKernelMemoryPoolBlockStats \<times> u64) option" where
  "sceKernelMemoryPoolGetBlockStats has_stats sz st = do {
     assert_opt (has_stats \<or> sz = 0);
     Some (ORBIS_OK, GetMemoryPoolStats (km_memory st), if sz < 16 then sz else 16)
   }"

section \<open>The POSIX interface\<close>

text \<open>
  \<open>GetFile\<close> and \<open>host_page\<close> are the parameters of \<^const>\<open>MapFile\<close>.  The result \<^verbatim>\<open>(void*)-1\<close> is
  \<^const>\<open>u64_minus_one\<close>.
\<close>

definition posix_mmap ::
  "(s32 \<Rightarrow> FileInfo option) \<Rightarrow> u64 \<Rightarrow> u64 \<Rightarrow> u64 \<Rightarrow> s32 \<Rightarrow> s32 \<Rightarrow> s32 \<Rightarrow> s64 \<Rightarrow> KernelMemory
     \<Rightarrow> (u64 \<times> KernelMemory) option" where
  "posix_mmap GetFile host_page addr len prot flags fd phys_addr st =
     (if len = 0 then Some (u64_minus_one, ErrSceToPosix ORBIS_KERNEL_ERROR_EINVAL st)
      else
        let mem_prot = flags_of_s32 prot; mem_flags = flags_of_s32 flags;
            aligned_addr = AlignUp addr KB16; aligned_size = AlignUp len KB16
        in if has_flag mem_flags MapFlag_Fixed \<and> addr \<noteq> aligned_addr
           then Some (u64_minus_one, ErrSceToPosix ORBIS_KERNEL_ERROR_EINVAL st)
           else do {
             (result, out, mm) \<leftarrow>
               (if has_flag mem_flags MapFlag_Anon
                then MapMemory aligned_addr aligned_size mem_prot mem_flags VFlexible ''anon'' False u64_minus_one 0
                       (km_memory st)
                else if has_flag mem_flags MapFlag_Stack
                then MapMemory aligned_addr aligned_size mem_prot mem_flags VStack ''anon'' False u64_minus_one 0
                       (km_memory st)
                else if has_flag mem_flags MapFlag_Void
                then MapMemory aligned_addr aligned_size 0 mem_flags VReserved ''anon'' False u64_minus_one 0
                       (km_memory st)
                else MapFile GetFile host_page aligned_addr aligned_size mem_prot mem_flags fd phys_addr (km_memory st));
             (if result \<noteq> ORBIS_OK then Some (u64_minus_one, ErrSceToPosix result (with_memory st mm))
              else map_option (\<lambda>a. (a, with_memory st mm)) out)
           })"

definition sceKernelMmap ::
  "(s32 \<Rightarrow> FileInfo option) \<Rightarrow> u64 \<Rightarrow> u64 \<Rightarrow> u64 \<Rightarrow> s32 \<Rightarrow> s32 \<Rightarrow> s32 \<Rightarrow> s64 \<Rightarrow> KernelMemory
     \<Rightarrow> (s32 \<times> u64 option \<times> KernelMemory) option" where
  "sceKernelMmap GetFile host_page addr len prot flags fd phys_addr st = do {
     (addr_out, st1) \<leftarrow> posix_mmap GetFile host_page addr len prot flags fd phys_addr st;
     Some (if addr_out = u64_minus_one then (ErrnoToSceKernelError (g_posix_errno st1), None, st1)
           else (ORBIS_OK, Some addr_out, st1))
   }"

definition sceKernelMlock :: "u64 \<Rightarrow> u64 \<Rightarrow> s32" where
  "sceKernelMlock addr len = ORBIS_OK"

definition posix_msync :: "u64 \<Rightarrow> u64 \<Rightarrow> s32 \<Rightarrow> s32" where
  "posix_msync addr len flags = ORBIS_OK"

section \<open>Apertures of partially resident textures\<close>

definition sceKernelSetPrtAperture :: "s32 \<Rightarrow> u64 \<Rightarrow> u64 \<Rightarrow> KernelMemory \<Rightarrow> (s32 \<times> KernelMemory) option" where
  "sceKernelSetPrtAperture area_id address sz st =
     (if area_id < 0 \<or> area_id \<ge> MAX_PRT_APERTURES then Some (ORBIS_KERNEL_ERROR_EINVAL, st)
      else if address < PRT_AREA_START_ADDR \<or> add64 address sz > PRT_AREA_START_ADDR + PRT_AREA_SIZE
      then Some (ORBIS_KERNEL_ERROR_EINVAL, st)
      else if address mod 4096 \<noteq> 0 then Some (ORBIS_KERNEL_ERROR_EINVAL, st)
      else do {
        mm \<leftarrow> SetPrtArea (nat area_id) address sz (km_memory st);
        Some (ORBIS_OK, st\<lparr>km_memory := mm, PrtApertures := (PrtApertures st)[nat area_id := (address, sz)]\<rparr>)
      })"

definition sceKernelGetPrtAperture :: "s32 \<Rightarrow> KernelMemory \<Rightarrow> (s32 \<times> (u64 \<times> u64) option) option" where
  "sceKernelGetPrtAperture area_id st =
     (if area_id < 0 \<or> area_id \<ge> MAX_PRT_APERTURES then Some (ORBIS_KERNEL_ERROR_EINVAL, None)
      else if nat area_id < length (PrtApertures st) then Some (ORBIS_OK, Some (PrtApertures st ! nat area_id))
      else None)"

end
