(* ===== verification/Physical_Runs.thy ===== *)
theory Physical_Runs
  imports Memory_Operations
begin

text \<open>
  Runs of physical memory: the pieces of physical memory behind a part of a virtual area, in the order
  in which the loops of \<^verbatim>\<open>UnmapBytesFromEntry\<close> and \<^verbatim>\<open>PoolDecommit\<close> visit them, and the effect of changing
  the kind of a list of such runs in one of the physical maps.
\<close>

section \<open>Runs of physical memory\<close>

definition run_bytes :: "(u64 \<times> u64) list \<Rightarrow> u64 set" where
  "run_bytes cs = (\<Union>c\<in>set cs. {fst c..<fst c + snd c})"

lemma run_bytes_simps [simp]:
  "run_bytes [] = {}" "run_bytes (c # cs) = {fst c..<fst c + snd c} \<union> run_bytes cs"
  by (simp_all add: run_bytes_def)

definition runs_in :: "PhysMap \<Rightarrow> (u64 \<times> u64) list \<Rightarrow> bool" where
  "runs_in m cs \<longleftrightarrow> (\<forall>c\<in>set cs. 0 < snd c \<and> within pa_size m (fst c) (snd c))"

fun runs_disj :: "(u64 \<times> u64) list \<Rightarrow> bool" where
  "runs_disj [] \<longleftrightarrow> True"
| "runs_disj (c # cs) \<longleftrightarrow> {fst c..<fst c + snd c} \<inter> run_bytes cs = {} \<and> runs_disj cs"

primrec retag_all :: "(PhysicalMemoryArea \<Rightarrow> PhysicalMemoryArea) \<Rightarrow> (u64 \<times> u64) list \<Rightarrow> PhysMap \<Rightarrow> PhysMap option" where
  "retag_all f [] m = Some m"
| "retag_all f (c # cs) m = map_option fst (retag_phys f m (fst c) (snd c)) \<bind> retag_all f cs"

lemma disjoint_run:
  assumes "0 < t" "0 < s" "{a..<a + s} \<inter> {b..<b + t} = {}"
  shows "b + t \<le> a \<or> a + s \<le> (b::nat)"
proof (rule ccontr)
  assume "\<not> ?thesis"
  then have "max a b \<in> {a..<a + s} \<inter> {b..<b + t}" using assms(1,2) by auto
  with assms(3) show False by blast
qed

lemma retag_all_ok:
  assumes "phys_wf m" "runs_in m cs" "runs_disj cs" "kind_update f g"
  shows "\<exists>m'. retag_all f cs m = Some m' \<and> phys_wf m'
     \<and> (\<forall>x. phys_view m' x = (if x \<in> run_bytes cs then map_option g (phys_view m x) else phys_view m x))
     \<and> (\<forall>lo hi. ivl_contig pa_size m lo hi \<longrightarrow> ivl_contig pa_size m' lo hi)
     \<and> (\<forall>b t. within pa_size m b t \<longrightarrow> 0 < t \<longrightarrow> {b..<b + t} \<inter> run_bytes cs = {} \<longrightarrow> within pa_size m' b t)"
  using assms(1-3)
proof (induction cs arbitrary: m)
  case (Cons c cs)
  obtain b s where c: "c = (b, s)" by (cases c)
  have s: "0 < s" and w: "within pa_size m b s" and dis: "{b..<b + s} \<inter> run_bytes cs = {}"
    using Cons.prems by (auto simp: c runs_in_def)
  obtain k v where kv: "(k, v) \<in> set m" "k \<le> b" "b + s \<le> k + pa_size v"
    using w by (auto simp: within_def)
  obtain m1 area h v' where r: "retag_phys f m b s = Some (m1, area, h)" "phys_wf m1"
    and view: "\<forall>x. phys_view m1 x = (if b \<le> x \<and> x < b + s then map_option g (phys_view m x) else phys_view m x)"
    and cont: "\<forall>lo hi. ivl_contig pa_size m lo hi \<longrightarrow> ivl_contig pa_size m1 lo hi"
    and wi: "\<forall>b' t. within pa_size m b' t \<longrightarrow> 0 < t \<longrightarrow> b' + t \<le> b \<or> b + s \<le> b' \<longrightarrow> within pa_size m1 b' t"
    by (rule retag_phys_ok [OF Cons.prems(1) kv(1,2) s kv(3) assms(4)])
  have ri: "runs_in m1 cs"
    unfolding runs_in_def
  proof (intro ballI conjI)
    fix e assume e: "e \<in> set cs"
    then show e0: "0 < snd e" using Cons.prems(2) by (auto simp: runs_in_def)
    have "{b..<b + s} \<inter> {fst e..<fst e + snd e} = {}"
      using dis e unfolding run_bytes_def by blast
    then have "fst e + snd e \<le> b \<or> b + s \<le> fst e" using disjoint_run [OF e0 s] by simp
    moreover have "within pa_size m (fst e) (snd e)"
      using Cons.prems(2) e by (auto simp: runs_in_def)
    ultimately show "within pa_size m1 (fst e) (snd e)" using wi e0 by blast
  qed
  have rd: "runs_disj cs" using Cons.prems(3) by simp
  obtain m' where m': "retag_all f cs m1 = Some m'" "phys_wf m'"
    "\<forall>x. phys_view m' x = (if x \<in> run_bytes cs then map_option g (phys_view m1 x) else phys_view m1 x)"
    "\<forall>lo hi. ivl_contig pa_size m1 lo hi \<longrightarrow> ivl_contig pa_size m' lo hi"
    "\<forall>b t. within pa_size m1 b t \<longrightarrow> 0 < t \<longrightarrow> {b..<b + t} \<inter> run_bytes cs = {} \<longrightarrow> within pa_size m' b t"
    using Cons.IH [OF r(2) ri rd] by (elim exE conjE) (rule that)
  have eq: "retag_all f (c # cs) m = Some m'" using r m'(1) by (simp add: c)
  have v': "phys_view m' x = (if x \<in> run_bytes (c # cs) then map_option g (phys_view m x) else phys_view m x)" for x
    using m'(3) view dis by (auto simp: c)
  have w': "within pa_size m' b' t"
    if "within pa_size m b' t" "0 < t" "{b'..<b' + t} \<inter> run_bytes (c # cs) = {}" for b' t
  proof -
    have "{b..<b + s} \<inter> {b'..<b' + t} = {}" "{b'..<b' + t} \<inter> run_bytes cs = {}"
      using that(3) unfolding c run_bytes_simps fst_conv snd_conv by blast+
    then show ?thesis using wi m'(5) that(1,2) disjoint_run [OF that(2) s] by blast
  qed
  show ?case using eq m'(2) v' m'(4) cont w' by blast
qed simp

section \<open>The runs behind a part of an area\<close>

primrec chunks :: "PhysMap \<Rightarrow> u64 \<Rightarrow> u64 \<Rightarrow> (u64 \<times> u64) list" where
  "chunks [] st n = []"
| "chunks (p # r) st n =
     (if n = 0 then []
      else let d = max (fst p) st - fst p; t = min n (pa_size (snd p) - d)
           in (pa_base (snd p) + d, t) # chunks r st (n - t))"

definition backing_at :: "PhysMap \<Rightarrow> u64 \<Rightarrow> u64 option" where
  "backing_at m i = map_option fst (iview pa_size backing_byte m i)"

lemma backing_at_Cons:
  "backing_at (p # m) i =
     (if fst p \<le> i \<and> i < fst p + pa_size (snd p) then Some (pa_base (snd p) + (i - fst p)) else backing_at m i)"
  by (simp add: backing_at_def backing_byte_def)

text \<open>The physical bytes behind the offsets from \<open>a\<close> to \<open>b\<close>.\<close>

definition backing_range :: "PhysMap \<Rightarrow> u64 \<Rightarrow> u64 \<Rightarrow> u64 set" where
  "backing_range m a b = {y. \<exists>i. a \<le> i \<and> i < b \<and> backing_at m i = Some y}"

lemma backing_at_below:
  assumes "ivl_contig pa_size m lo hi" "i < lo"
  shows "backing_at m i = None"
proof -
  have "iview pa_size backing_byte m i = None"
    using ivl_contig_view [OF assms(1)] assms(2) by (meson leD)
  then show ?thesis by (simp add: backing_at_def)
qed

lemma backing_range_Cons:
  assumes "ivl_contig pa_size r (fst p + pa_size (snd p)) hi"
    and "fst p \<le> s" "s < fst p + pa_size (snd p)" "0 < n"
  defines "t \<equiv> min n (fst p + pa_size (snd p) - s)"
  shows "backing_range (p # r) s (s + n) =
     {pa_base (snd p) + (s - fst p)..<pa_base (snd p) + (s - fst p) + t} \<union> backing_range r (s + t) (s + n)"
proof -
  define c where "c = pa_base (snd p) + (s - fst p)"
  have t: "t \<le> n" "s + t \<le> fst p + pa_size (snd p)" "s + t < fst p + pa_size (snd p) \<Longrightarrow> t = n"
    using assms(3) by (auto simp: t_def)
  have old: "backing_at (p # r) i = Some (c + (i - s))" if "s \<le> i" "i < fst p + pa_size (snd p)" for i
    using that assms(2) by (simp add: backing_at_Cons c_def)
  have new: "backing_at (p # r) i = backing_at r i" if "s + t \<le> i" "i < s + n" for i
    using that t(3) assms(2,3) by (cases "i < fst p + pa_size (snd p)") (auto simp: backing_at_Cons)
  have "y \<in> backing_range (p # r) s (s + n) \<longleftrightarrow> y \<in> {c..<c + t} \<union> backing_range r (s + t) (s + n)" for y
  proof
    assume "y \<in> backing_range (p # r) s (s + n)"
    then obtain i where i: "s \<le> i" "i < s + n" "backing_at (p # r) i = Some y" by (auto simp: backing_range_def)
    then show "y \<in> {c..<c + t} \<union> backing_range r (s + t) (s + n)"
      using old [of i] new [of i] t by (cases "i < s + t") (auto simp: backing_range_def)
  next
    assume "y \<in> {c..<c + t} \<union> backing_range r (s + t) (s + n)"
    then show "y \<in> backing_range (p # r) s (s + n)"
    proof
      assume "y \<in> {c..<c + t}"
      then obtain d where d: "y = c + d" "d < t" using le_Suc_ex by fastforce
      then have "backing_at (p # r) (s + d) = Some y" using old [of "s + d"] t by simp
      then show ?thesis using d t unfolding backing_range_def by (intro CollectI exI [of _ "s + d"]) auto
    next
      assume "y \<in> backing_range r (s + t) (s + n)"
      then obtain i where "s + t \<le> i" "i < s + n" "backing_at (p # r) i = Some y"
        using new by (auto simp: backing_range_def)
      then show ?thesis unfolding backing_range_def by (intro CollectI exI [of _ i]) simp
    qed
  qed
  then show ?thesis unfolding c_def by blast
qed

text \<open>A range of \<open>n\<close> offsets from \<open>max lo st\<close> that the areas \<open>l\<close>, which begin at \<open>lo\<close>, cover.\<close>

definition window :: "PhysMap \<Rightarrow> u64 \<Rightarrow> u64 \<Rightarrow> u64 \<Rightarrow> u64 \<Rightarrow> bool" where
  "window l lo hi st n \<longleftrightarrow>
     ivl_contig pa_size l lo hi \<and> (\<forall>p\<in>set l. 0 < pa_size (snd p))
     \<and> (l \<noteq> [] \<longrightarrow> st < lo + pa_size (snd (hd l))) \<and> max lo st + n \<le> hi"

lemma window_Nil: "window [] lo hi st n \<Longrightarrow> n = 0"
  unfolding window_def by auto

lemma window_Cons:
  assumes w: "window (p # r) lo hi st n" and n: "n \<noteq> 0"
  defines "s \<equiv> max lo st" and "e \<equiv> lo + pa_size (snd p)"
  defines "t \<equiv> min n (e - s)"
  shows "fst p = lo" "lo \<le> s" "s < e" "0 < t" "ivl_contig pa_size r e hi"
    "chunks (p # r) st n = (pa_base (snd p) + (s - lo), t) # chunks r st (n - t)"
    "window r e hi st (n - t)" "n - t \<noteq> 0 \<Longrightarrow> s + t = e \<and> max e st = e \<and> e + (n - t) = s + n"
proof -
  show lo: "fst p = lo" and r: "ivl_contig pa_size r e hi" using w by (auto simp: window_def e_def)
  have st: "st < e" "0 < pa_size (snd p)" using w by (auto simp: window_def e_def)
  show s: "lo \<le> s" "s < e" using st by (auto simp: s_def e_def)
  show "0 < t" using s n by (simp add: t_def)
  have "pa_size (snd p) - (s - lo) = e - s" using s by (simp add: e_def)
  then show "chunks (p # r) st n = (pa_base (snd p) + (s - lo), t) # chunks r st (n - t)"
    using n lo by (simp add: Let_def s_def t_def)
  show last: "n - t \<noteq> 0 \<Longrightarrow> s + t = e \<and> max e st = e \<and> e + (n - t) = s + n"
    using s st by (auto simp: t_def)
  have "max e st + (n - t) \<le> hi"
  proof (cases "n - t = 0")
    case True
    then show ?thesis using ivl_contig_le [OF r] st by simp
  next
    case False
    then show ?thesis using last w by (simp add: window_def s_def)
  qed
  then show "window r e hi st (n - t)" using r st w by (auto simp: window_def)
qed

lemma chunks_spec:
  assumes "window l lo hi st n"
  shows "run_bytes (chunks l st n) = backing_range l (max lo st) (max lo st + n)
     \<and> sum_list (map snd (chunks l st n)) = n
     \<and> (\<forall>c\<in>set (chunks l st n). 0 < snd c
          \<and> (\<exists>p\<in>set l. pa_base (snd p) \<le> fst c \<and> fst c + snd c \<le> pa_base (snd p) + pa_size (snd p)))"
  using assms
proof (induction l arbitrary: lo n)
  case Nil
  then show ?case using window_Nil by (simp add: backing_range_def backing_at_def)
next
  case (Cons p r)
  show ?case
  proof (cases "n = 0")
    case True
    then show ?thesis by (auto simp: backing_range_def)
  next
    case False
    define s where "s = max lo st"
    define e where "e = lo + pa_size (snd p)"
    define t where "t = min n (e - s)"
    note W = window_Cons [OF Cons.prems False, folded s_def e_def, folded t_def] and IH = Cons.IH [OF W(7)]
    have tail: "backing_range r (max e st) (max e st + (n - t)) = backing_range r (s + t) (s + n)"
      using W(8) by (cases "n - t = 0") (auto simp: backing_range_def)
    have "backing_range (p # r) s (s + n) =
        {pa_base (snd p) + (s - lo)..<pa_base (snd p) + (s - lo) + t} \<union> backing_range r (s + t) (s + n)"
      using backing_range_Cons [of r p hi s n] W False by (simp add: e_def t_def)
    then have "run_bytes (chunks (p # r) st n) = backing_range (p # r) s (s + n)"
      using IH tail unfolding W(6) by simp
    moreover have "sum_list (map snd (chunks (p # r) st n)) = n"
      using IH unfolding W(6) by (simp add: t_def)
    moreover have "pa_base (snd p) + (s - lo) + t \<le> pa_base (snd p) + pa_size (snd p)"
      using W(2,3) by (simp add: t_def e_def)
    ultimately show ?thesis
      using IH W(4) unfolding W(6) s_def [symmetric] by simp
  qed
qed

text \<open>Different offsets have different physical bytes.\<close>

definition backing_inj :: "PhysMap \<Rightarrow> bool" where
  "backing_inj m \<longleftrightarrow> (\<forall>i j y. backing_at m i = Some y \<longrightarrow> backing_at m j = Some y \<longrightarrow> i = j)"

lemma backing_inj_Cons:
  assumes "backing_inj (p # r)" "ivl_contig pa_size r (fst p + pa_size (snd p)) hi"
  shows "backing_inj r"
  unfolding backing_inj_def
proof (intro allI impI)
  fix i j y assume ij: "backing_at r i = Some y" "backing_at r j = Some y"
  then have "\<not> i < fst p + pa_size (snd p)" "\<not> j < fst p + pa_size (snd p)"
    using backing_at_below [OF assms(2)] by fastforce+
  with ij assms(1) show "i = j" unfolding backing_inj_def backing_at_Cons by metis
qed

lemma chunks_disj:
  assumes "window l lo hi st n" "backing_inj l"
  shows "runs_disj (chunks l st n)"
  using assms
proof (induction l arbitrary: lo n)
  case (Cons p r)
  show ?case
  proof (cases "n = 0")
    case False
    define s where "s = max lo st"
    define e where "e = lo + pa_size (snd p)"
    define t where "t = min n (e - s)"
    note W = window_Cons [OF Cons.prems(1) False, folded s_def e_def, folded t_def]
    have inj: "backing_inj r" using backing_inj_Cons [OF Cons.prems(2)] W(1,5) by (simp add: e_def)
    have "y \<notin> run_bytes (chunks r st (n - t))"
      if "pa_base (snd p) + (s - lo) \<le> y" "y < pa_base (snd p) + (s - lo) + t" for y
    proof
      assume "y \<in> run_bytes (chunks r st (n - t))"
      then obtain j where j: "e \<le> j" "backing_at r j = Some y"
        using chunks_spec [OF W(7)] by (auto simp: backing_range_def)
      define i where "i = y - pa_base (snd p) + lo"
      have i: "lo \<le> i" "i < e" "y = pa_base (snd p) + (i - lo)"
        using that W(2,3) by (auto simp: i_def t_def)
      have "backing_at (p # r) i = Some y" "backing_at (p # r) j = Some y"
        using i j W(1) by (auto simp: backing_at_Cons e_def)
      then have "i = j" using Cons.prems(2) unfolding backing_inj_def by blast
      with i j show False by simp
    qed
    then show ?thesis using Cons.IH [OF W(7) inj] unfolding W(6) by auto
  qed simp
qed simp

section \<open>The loops over physical areas visit the runs\<close>

lemma window_arith:
  assumes w: "window (p # r) lo hi st n" and n: "n \<noteq> 0" and hi: "hi < U64_MOD" and ok: "backing_ok (fst p) (snd p)"
  defines "s \<equiv> max lo st" and "e \<equiv> lo + pa_size (snd p)"
  defines "t \<equiv> min n (e - s)"
  shows "sub64 (max (fst p) st) (fst p) = s - lo" "add64 (pa_base (snd p)) (s - lo) = pa_base (snd p) + (s - lo)"
    "min n (sub64 (pa_size (snd p)) (s - lo)) = t" "sub64 n t = n - t"
proof -
  note W = window_Cons [OF w n, folded s_def e_def, folded t_def]
  have e: "e \<le> hi" using ivl_contig_le [OF W(5)] .
  have nn: "n < U64_MOD" using w hi by (simp add: window_def)
  show "sub64 (max (fst p) st) (fst p) = s - lo" using W(1-3) e hi by (simp add: s_def)
  show "add64 (pa_base (snd p)) (s - lo) = pa_base (snd p) + (s - lo)"
    using W(2,3) ok by (intro add64_exact) (auto simp: backing_ok_def e_def)
  have "sub64 (pa_size (snd p)) (s - lo) = e - s"
    using W(2,3) e hi by (simp add: e_def)
  then show "min n (sub64 (pa_size (snd p)) (s - lo)) = t" by (simp add: t_def)
  show "sub64 n t = n - t" using nn by (simp add: t_def)
qed

primrec release_all :: "VMAType \<Rightarrow> (u64 \<times> u64) list \<Rightarrow> MemoryManager \<Rightarrow> MemoryManager option" where
  "release_all ty [] mm = Some mm"
| "release_all ty (c # cs) mm = release_phys ty (fst c) (snd c) mm \<bind> release_all ty cs"

lemma unmap_phys_loop_chunks:
  assumes "window l lo hi st n" "hi < U64_MOD" "\<forall>p\<in>set l. backing_ok (fst p) (snd p)"
  shows "unmap_phys_loop l st n ty mm = map_option (Pair 0) (release_all ty (chunks l st n) mm)"
  using assms
proof (induction l arbitrary: lo n mm)
  case Nil
  then show ?case using window_Nil by simp
next
  case (Cons p r)
  show ?case
  proof (cases "n = 0")
    case False
    define s where "s = max lo st"
    define t where "t = min n (lo + pa_size (snd p) - s)"
    have ok: "backing_ok (fst p) (snd p)" using Cons.prems(3) by simp
    note W = window_Cons [OF Cons.prems(1) False, folded s_def, folded t_def]
      and A = window_arith [OF Cons.prems(1) False Cons.prems(2) ok, folded s_def, folded t_def]
    have "unmap_phys_loop (p # r) st n ty mm =
        release_phys ty (pa_base (snd p) + (s - lo)) t mm \<bind> unmap_phys_loop r st (n - t) ty"
      using False unfolding unmap_phys_loop.simps Let_def A by simp
    also have "unmap_phys_loop r st (n - t) ty = (\<lambda>mm. map_option (Pair 0) (release_all ty (chunks r st (n - t)) mm))"
      using Cons.IH [OF W(7) Cons.prems(2)] Cons.prems(3) by auto
    finally show ?thesis
      unfolding W(6) by (cases "release_phys ty (pa_base (snd p) + (s - lo)) t mm") simp_all
  qed simp
qed

lemma repool_loop_chunks:
  assumes "window l lo hi st n" "hi < U64_MOD" "\<forall>p\<in>set l. backing_ok (fst p) (snd p)"
  shows "repool_loop l st n m = map_option (Pair 0) (retag_all (set_dma PPooled) (chunks l st n) m)"
  using assms
proof (induction l arbitrary: lo n m)
  case Nil
  then show ?case using window_Nil by simp
next
  case (Cons p r)
  show ?case
  proof (cases "n = 0")
    case False
    define s where "s = max lo st"
    define t where "t = min n (lo + pa_size (snd p) - s)"
    have ok: "backing_ok (fst p) (snd p)" using Cons.prems(3) by simp
    note W = window_Cons [OF Cons.prems(1) False, folded s_def, folded t_def]
      and A = window_arith [OF Cons.prems(1) False Cons.prems(2) ok, folded s_def, folded t_def]
    have "repool_loop (p # r) st n m =
        retag_phys (set_dma PPooled) m (pa_base (snd p) + (s - lo)) t \<bind> (\<lambda>q. repool_loop r st (n - t) (fst q))"
      using False unfolding repool_loop.simps Let_def A
      by (cases "retag_phys (set_dma PPooled) m (pa_base (snd p) + (s - lo)) t") auto
    also have "repool_loop r st (n - t) = (\<lambda>m. map_option (Pair 0) (retag_all (set_dma PPooled) (chunks r st (n - t)) m))"
      using Cons.IH [OF W(7) Cons.prems(2)] Cons.prems(3) by auto
    finally show ?thesis
      unfolding W(6) by (cases "retag_phys (set_dma PPooled) m (pa_base (snd p) + (s - lo)) t") simp_all
  qed simp
qed

end
