(* ===== verification/Memory_Queries.thy ===== *)
theory Memory_Queries
  imports Memory_Manager
begin

text \<open>
  What the validity checks, searches, allocators and queries of \<^verbatim>\<open>Core::MemoryManager\<close> promise, in
  terms of the content of its maps by address.
\<close>

text \<open>The direct memory map covers the direct memory without a gap.\<close>

definition dmem_wf :: "MemoryManager \<Rightarrow> bool" where
  "dmem_wf mm \<longleftrightarrow> phys_wf (dmem_map mm) \<and> ivl_contig pa_size (dmem_map mm) 0 (total_direct_size mm)"

section \<open>An example state\<close>

definition demo_as :: AddressSpace where
  "demo_as = \<lparr>system_managed_base = 0x400000, system_reserved_base = 0x800000000,
              user_base = 0x1000000000, user_size = 0x1000000000\<rparr>"

text \<open>A manager with two usable regions and a gap between them.\<close>

definition demo_mm :: MemoryManager where
  "demo_mm = MemoryManager_init demo_as [(0x400000, 0x800000000), (0x1000000000, 0x2000000000)] 0 0x5050001"

lemma demo_mm_vma: "vma_map demo_mm =
   [(0x400000, free_vma 0x400000 0x7FFC00000), (0x1000000000, free_vma 0x1000000000 0x1000000000)]"
  by (simp add: demo_mm_def MemoryManager_init_def Let_def om_emplace_def)

lemma demo_mm_dmem: "dmem_map demo_mm = [(0, free_phys 0 0x1F0000000)]" "total_direct_size demo_mm = 0x1F0000000"
  by (simp_all add: demo_mm_def MemoryManager_init_def Let_def)

lemma demo_mm_impl: "impl demo_mm = demo_as"
  by (simp add: demo_mm_def MemoryManager_init_def Let_def)

lemmas demo_mm_simps = demo_mm_vma demo_mm_dmem demo_mm_impl free_vma_def free_phys_def demo_as_def

lemma demo_mm_wf: "vma_wf (vma_map demo_mm)" "dmem_wf demo_mm"
  by (simp_all add: demo_mm_simps vma_ok_def HasPhysicalBacking_def dmem_wf_def phys_ok_def)

section \<open>Validity of ranges\<close>

lemma valid_loop_zero: "valid_mapping_loop m a 0"
  by (cases m) auto

lemma valid_loop_covers:
  assumes "vma_wf ((k, v) # m)" "k \<le> a" "a < k + vma_size v" "0 < s" "s < U64_MOD"
  shows "valid_mapping_loop ((k, v) # m) a s \<longleftrightarrow> covers vma_size ((k, v) # m) a s"
  using assms
proof (induction m arbitrary: k v a s)
  case Nil
  have b: "vma_base v = k" "k + vma_size v < U64_MOD"
    using Nil.prems(1) by (auto simp: vma_ok_def)
  then have "sub64 (vma_size v) (sub64 a (vma_base v)) = k + vma_size v - a"
    using Nil.prems by simp
  with Nil.prems b show ?case
    by (auto simp: covers_Cons [OF Nil.prems(1-4)] Let_def min_def)
next
  case (Cons q m)
  obtain k' v' where q: "q = (k', v')" by (cases q)
  have b: "vma_base v = k" "k + vma_size v < U64_MOD" "vma_base v' = k'" "0 < vma_size v'"
    "k' + vma_size v' < U64_MOD"
    using Cons.prems(1) q by (auto simp: vma_ok_def)
  have sz: "sub64 (vma_size v) (sub64 a k) = k + vma_size v - a"
    using Cons.prems b by simp
  show ?case
  proof (cases "a + s \<le> k + vma_size v")
    case True
    then have "min (k + vma_size v - a) s = s" using Cons.prems by auto
    with True Cons.prems sz b show ?thesis
      by (simp add: covers_Cons [OF Cons.prems(1-4)] Let_def valid_loop_zero)
  next
    case False
    then have m: "min (k + vma_size v - a) s = k + vma_size v - a"
      "sub64 s (k + vma_size v - a) = a + s - (k + vma_size v)"
      "add64 a (k + vma_size v - a) = k + vma_size v" "0 < a + s - (k + vma_size v)"
      using Cons.prems b by auto
    note step = valid_mapping_loop.simps(2) [of "(k, v)" "q # m"]
    note cv = covers_Cons [OF Cons.prems(1-4)]
    show ?thesis
    proof (cases "k + vma_size v = k'")
      case True
      have "valid_mapping_loop (q # m) (k + vma_size v) (a + s - (k + vma_size v)) \<longleftrightarrow>
          covers vma_size (q # m) (k + vma_size v) (a + s - (k + vma_size v))"
        using Cons.prems(1,3,5) q b m(4) True unfolding q by (intro Cons.IH) auto
      then show ?thesis
        using False Cons.prems(4) unfolding step cv
        by (simp add: sz m q b Let_def True [symmetric] del: valid_mapping_loop.simps)
    next
      case False': False
      then show ?thesis
        using False Cons.prems(4) m(4) unfolding step cv
        by (simp add: sz m q b Let_def del: valid_mapping_loop.simps)
    qed
  qed
qed

lemma vma_bounds:
  assumes wf: "vma_wf m" and mem: "(k, v) \<in> set m"
  shows "m \<noteq> []" "fst (hd m) \<le> k" "k + vma_size v \<le> add64 (fst (last m)) (vma_size (snd (last m)))"
proof -
  show ne: "m \<noteq> []" using mem by auto
  obtain p r where m: "m = p # r" using ne by (cases m) auto
  show "fst (hd m) \<le> k" using wf mem unfolding m by force
  obtain r' l where m': "m = r' @ [l]" using ne by (cases m rule: rev_cases) auto
  have "l \<in> set m" by (simp add: m')
  then have "vma_ok (fst l) (snd l)" using ivl_wf_ok [OF wf, of "fst l" "snd l"] by simp
  then have "add64 (fst l) (vma_size (snd l)) = fst l + vma_size (snd l)"
    by (simp add: vma_ok_def)
  moreover have "k + vma_size v \<le> fst l + vma_size (snd l)"
    using wf mem unfolding m' by (fastforce simp: ivl_wf_append)
  ultimately show "k + vma_size v \<le> add64 (fst (last m)) (vma_size (snd (last m)))"
    by (simp add: m')
qed

text \<open>
  For an address that lies in some area, \<^verbatim>\<open>IsValidMapping(addr, size)\<close> holds exactly when every
  address of the range lies in some area: no gap of the address space is inside it.
\<close>

lemma IsValidMapping_cov:
  assumes wf: "vma_wf (vma_map mm)" and a: "vma_view (vma_map mm) a \<noteq> None" and s: "s < U64_MOD"
  shows "IsValidMapping mm a s = Some (covers vma_size (vma_map mm) a s)"
proof -
  obtain xs k v ys where m: "vma_map mm = xs @ (k, v) # ys" and kv: "k \<le> a" "a < k + vma_size v"
    and look: "om_floor (vma_map mm) a = Some k" "om_from (vma_map mm) k = (k, v) # ys"
    using wf a by (rule iview_floorE)
  have "(k, v) \<in> set (vma_map mm)" by (simp add: m)
  from vma_bounds [OF wf this] kv
  have bounds: "vma_map mm \<noteq> []" "\<not> a < fst (hd (vma_map mm))"
    "\<not> add64 (fst (last (vma_map mm))) (vma_size (snd (last (vma_map mm)))) \<le> a"
    by auto
  have wf': "vma_wf ((k, v) # ys)" using wf unfolding m ivl_wf_append by blast
  have below: "iview vma_size (\<lambda>_ _. ()) xs x = None" if "a \<le> x" for x
    using wf that kv(1) unfolding m by (intro iview_NoneI) (fastforce simp: ivl_wf_append)
  have "covers vma_size (vma_map mm) a s \<longleftrightarrow> covers vma_size ((k, v) # ys) a s"
    using below by (auto simp: covers_def m iview_append)
  moreover have "valid_mapping_loop ((k, v) # ys) a s \<longleftrightarrow> covers vma_size ((k, v) # ys) a s" if "s \<noteq> 0"
    using valid_loop_covers [OF wf' kv _ s] that by simp
  moreover have "covers vma_size (vma_map mm) a 0" by (auto simp: covers_def)
  ultimately show ?thesis
    using bounds look by (auto simp: IsValidMapping_def FindVMA_def Let_def)
qed
text \<open>
  C29.  For an address that lies in some area, \<^verbatim>\<open>IsValidMapping(addr, size)\<close> holds exactly when every
  address of the range lies in some area: no gap of the address space is inside it.
\<close>

theorem IsValidMapping_correct:
  assumes "vma_wf (vma_map mm)" "vma_view (vma_map mm) a \<noteq> None" "s < U64_MOD"
  shows "IsValidMapping mm a s = Some (\<forall>x. a \<le> x \<and> x < a + s \<longrightarrow> vma_view (vma_map mm) x \<noteq> None)"
  using IsValidMapping_cov [OF assms] by (simp add: covers_iff [of _ _ _ _ vma_byte])

theorem IsValidMapping_correct_witness:
  "IsValidMapping demo_mm 0x7FFFFC000 0x4000
   = Some (\<forall>x. 0x7FFFFC000 \<le> x \<and> x < 0x7FFFFC000 + 0x4000 \<longrightarrow> vma_view (vma_map demo_mm) x \<noteq> None)"
  by (rule IsValidMapping_correct [OF demo_mm_wf(1)]) (simp_all add: demo_mm_simps)

text \<open>
  The check does not look at the gap before the next area when the address itself lies
  strictly inside a gap: the distance to the area below wraps around, and every size is accepted.
\<close>

lemma IsValidMapping_gap:
  assumes wf: "vma_wf (vma_map mm)" and mem: "(k, v) \<in> set (vma_map mm)" and mem': "(k', v') \<in> set (vma_map mm)"
    and a: "k + vma_size v < a" "a < k'" and none: "\<forall>x. k + vma_size v \<le> x \<and> x < k' \<longrightarrow> vma_view (vma_map mm) x = None"
    and s: "0 < s" "a + s \<le> U64_MOD"
  shows "IsValidMapping mm a s = Some True"
proof -
  let ?m = "vma_map mm"
  obtain xs ys where m: "?m = xs @ (k, v) # ys"
    using mem by (meson split_list)
  have ok: "vma_base v = k" "k + vma_size v < U64_MOD" "0 < vma_size v"
    using ivl_wf_ok [OF wf mem] by (auto simp: vma_ok_def)
  have ok': "0 < vma_size v'"
    using ivl_wf_ok [OF wf mem'] by (auto simp: vma_ok_def)
  have after: "k' \<le> fst q" if q: "q \<in> set ys" for q
  proof (rule ccontr)
    assume "\<not> k' \<le> fst q"
    moreover have "k + vma_size v \<le> fst q" using wf q unfolding m by (auto simp: ivl_wf_append)
    moreover have "q \<in> set ?m" using q by (simp add: m)
    then have "vma_view ?m (fst q) \<noteq> None" and "0 < vma_size (snd q)"
      using iview_mem [OF wf, of "fst q" "snd q" "fst q" vma_byte] ivl_wf_ok [OF wf, of "fst q" "snd q"] by simp_all
    ultimately show False using none by auto
  qed
  then have fl: "om_floor ?m a = Some k" and frm: "om_from ?m k = (k, v) # ys"
    using om_floor_at [of xs k v ys a] om_from_at [of xs k v ys] ivl_wf_om_wf [OF wf] a
    unfolding m by fastforce+
  have "sub64 a k = a - k" using a s by simp
  moreover have "sub64 (vma_size v) (a - k) = U64_MOD - (a - k - vma_size v)"
    using a s ok by (intro sub64_wrap) auto
  ultimately have mn: "min (sub64 (vma_size v) (sub64 a (vma_base v))) s = s"
    using a s ok by simp
  have "s < U64_MOD" using a s by simp
  then have "valid_mapping_loop ((k, v) # ys) a s"
    using s(1) mn by (simp add: Let_def valid_loop_zero)
  moreover have "fst (hd ?m) \<le> k" using vma_bounds [OF wf mem] by simp
  moreover have "k' + vma_size v' \<le> add64 (fst (last ?m)) (vma_size (snd (last ?m)))" "?m \<noteq> []"
    using vma_bounds [OF wf mem'] by auto
  ultimately show ?thesis
    using a ok' s fl frm by (simp add: IsValidMapping_def FindVMA_def Let_def)
qed

lemma IsValidMapping_gap_example: "IsValidMapping demo_mm 0x900000000 0x4000 = Some True"
  by (rule IsValidMapping_gap [where k = "0x400000" and v = "free_vma 0x400000 0x7FFC00000"
        and k' = "0x1000000000" and v' = "free_vma 0x1000000000 0x1000000000", OF demo_mm_wf(1)]) (simp_all add: demo_mm_simps)

section \<open>Search for free virtual addresses\<close>

text \<open>A properly aligned address at which a free area has room for \<open>sz\<close> bytes.\<close>

definition fits_free :: "VMAMap \<Rightarrow> u64 \<Rightarrow> u64 \<Rightarrow> u64 \<Rightarrow> bool" where
  "fits_free m al r sz \<longleftrightarrow> al dvd r \<and> (\<exists>p\<in>set m. IsFree (snd p) \<and> fst p \<le> r \<and> r + sz \<le> fst p + vma_size (snd p))"

lemma search_free_loop_spec:
  fixes m :: VMAMap and sz al mx :: u64
  assumes "vma_wf m" "0 < al" "\<forall>p\<in>set m. fst p + vma_size (snd p) + al \<le> U64_MOD"
  defines "r \<equiv> search_free_loop m sz al mx"
  shows "r = u64_minus_one \<and> (\<forall>r'. fits_free m al r' sz \<longrightarrow> mx \<le> r')
     \<or> fits_free m al r sz \<and> r < mx \<and> (\<forall>r'. fits_free m al r' sz \<longrightarrow> r \<le> r')"
  using assms(1,3) unfolding r_def
proof (induction m)
  case (Cons p m)
  let ?b = "fst p" and ?e = "fst p + vma_size (snd p)" and ?v = "AlignUp (fst p) al"
  have ok: "vma_base (snd p) = ?b" "add64 (vma_base (snd p)) (vma_size (snd p)) = ?e" "?e < U64_MOD"
    using Cons.prems(1) by (auto simp: vma_ok_def)
  have bal: "?b + al \<le> U64_MOD" using Cons.prems(2) by simp
  note up = AlignUp_ge [OF assms(2) bal] AlignUp_dvd [OF assms(2) bal] AlignUp_least [OF assms(2) bal]
  have first: "?v + sz \<le> ?e \<and> ?v \<le> r'" if "al dvd r'" "?b \<le> r'" "r' + sz \<le> ?e" for r'
    using up(3) [OF that(1,2)] that by simp
  have later: "?e \<le> r'" if "fits_free m al r' sz" for r'
    using that Cons.prems(1) by (force simp: fits_free_def)
  have split: "fits_free (p # m) al r' sz \<longleftrightarrow>
      (IsFree (snd p) \<and> al dvd r' \<and> ?b \<le> r' \<and> r' + sz \<le> ?e) \<or> fits_free m al r' sz" for r'
    by (auto simp: fits_free_def)
  have IH: "search_free_loop m sz al mx = u64_minus_one \<and> (\<forall>r'. fits_free m al r' sz \<longrightarrow> mx \<le> r')
     \<or> fits_free m al (search_free_loop m sz al mx) sz \<and> search_free_loop m sz al mx < mx
       \<and> (\<forall>r'. fits_free m al r' sz \<longrightarrow> search_free_loop m sz al mx \<le> r')"
    using Cons.IH Cons.prems by simp
  have vlt: "?v < U64_MOD" if "?v \<le> ?e" using that ok(3) by simp
  consider (fit) "IsFree (snd p)" "?v < mx" "?v + sz \<le> ?e"
    | (bound) "IsFree (snd p)" "mx \<le> ?v" "?v \<le> ?e"
    | (skip) "\<not> IsFree (snd p) \<or> ?e < ?v + sz" "\<not> (IsFree (snd p) \<and> mx \<le> ?v \<and> ?v \<le> ?e)"
    by linarith
  then show ?case
  proof cases
    case fit
    then have "sz \<le> ?e - ?v" by linarith
    with fit have "search_free_loop (p # m) sz al mx = ?v"
      using ok vlt by (simp add: Let_def)
    moreover have "?v \<le> r'" if "fits_free (p # m) al r' sz" for r'
      using that first [of r'] later [of r'] fit unfolding split by fastforce
    ultimately show ?thesis
      using fit up(1,2) unfolding split by auto
  next
    case bound
    then have "search_free_loop (p # m) sz al mx = u64_minus_one"
      using ok by (simp add: Let_def)
    moreover have "mx \<le> r'" if "fits_free (p # m) al r' sz" for r'
      using that first [of r'] later [of r'] bound unfolding split by fastforce
    ultimately show ?thesis by auto
  next
    case skip
    then have "search_free_loop (p # m) sz al mx = search_free_loop m sz al mx"
      using ok vlt by (auto simp: Let_def)
    moreover have "fits_free (p # m) al r' sz \<longleftrightarrow> fits_free m al r' sz" for r'
      using first [of r'] skip unfolding split by fastforce
    ultimately show ?thesis using IH by simp
  qed
qed (simp add: fits_free_def)

lemma fits_free_append: "fits_free (xs @ ys) al r sz \<longleftrightarrow> fits_free xs al r sz \<or> fits_free ys al r sz"
  by (auto simp: fits_free_def)

lemma assert_valid_zero:
  assumes "vma_wf (vma_map mm)" "vma_view (vma_map mm) a \<noteq> None"
  shows "assert_valid mm a 0 = Some ()"
  using IsValidMapping_cov [OF assms, of 0] by (auto simp: assert_valid_def covers_def)

text \<open>
  C30.  \<^verbatim>\<open>SearchFree\<close>, started at an address that lies in some area, returns: either the least aligned
  address from there on with room for the mapping in a free area, or \<open>-1\<close>, and then every such
  address lies at or above the end of the user region.
\<close>

theorem SearchFree_spec:
  assumes wf: "vma_wf (vma_map mm)"
    and al: "0 < al" "al < 2 ^ 32" and room: "\<forall>p\<in>set (vma_map mm). fst p + vma_size (snd p) + al \<le> U64_MOD"
    and start: "st = max va (system_managed_base (impl mm))" "vma_view (vma_map mm) st \<noteq> None"
      "st + al + sz \<le> U64_MOD" and sz: "0 < sz"
  shows "\<exists>r. SearchFree mm va sz al = Some r \<and>
     (r = u64_minus_one
        \<and> (\<forall>r'. fits_free (vma_map mm) al r' sz \<and> st \<le> r' \<longrightarrow> add64 (user_base (impl mm)) (user_size (impl mm)) \<le> r')
      \<or> fits_free (vma_map mm) al r sz \<and> st \<le> r
        \<and> (\<forall>r'. fits_free (vma_map mm) al r' sz \<and> st \<le> r' \<longrightarrow> r \<le> r'))"
proof -
  let ?m = "vma_map mm" and ?a = "AlignUp st al"
  have stal: "st + al \<le> U64_MOD" using start(3) by simp
  note up = AlignUp_ge [OF al(1) stal] AlignUp_dvd [OF al(1) stal] AlignUp_least [OF al(1) stal]
    AlignUp_gap [OF al(1) stal]
  obtain xs0 k0 v0 ys0 where m0: "?m = xs0 @ (k0, v0) # ys0" "k0 \<le> st"
    using wf start(2) by (rule iview_floorE)
  have om: "om_wf ?m" using wf by (rule ivl_wf_om_wf)
  have "om_floor ?m ?a \<noteq> None"
    using om_floor_None [OF om, of ?a] up(1) m0 by (auto simp: not_less)
  then obtain k where fl: "om_floor ?m ?a = Some k" by auto
  with om obtain xs v ys where m: "?m = xs @ (k, v) # ys" and k: "k \<le> ?a" "\<forall>q\<in>set ys. ?a < fst q"
    by (rule om_floor_SomeE)
  have ok: "vma_base v = k" "k + vma_size v < U64_MOD"
    using wf unfolding m by (auto simp: ivl_wf_append vma_ok_def)
  have look: "map_of ?m k = Some v" "om_from ?m k = (k, v) # ys"
    using map_of_at [OF om [unfolded m]] om_from_at [OF om [unfolded m]] by (simp_all only: m)
  have before: "\<not> fits_free xs al r' sz" if "?a \<le> r'" for r'
    using wf that k(1) sz unfolding m by (fastforce simp: fits_free_def ivl_wf_append)
  have least: "?a \<le> r'" if "fits_free ?m al r' sz" "st \<le> r'" for r'
    using up(3) that by (simp add: fits_free_def)
  have here: "fits_free ?m al r' sz \<and> st \<le> r' \<Longrightarrow>
      IsFree v \<and> ?a + sz \<le> k + vma_size v \<or> fits_free ys al r' sz" for r'
    using least [of r'] before [of r'] unfolding m fits_free_append
    by (auto simp: fits_free_def)
  have tails: "st \<le> r' \<and> ?a \<le> r'" if "fits_free ys al r' sz" for r'
    using that k(2) up(1) by (fastforce simp: fits_free_def)
  have cont: "VMA_Contains v ?a sz \<longleftrightarrow> ?a + sz \<le> k + vma_size v"
    using ok k(1) up(4) start(3) by (simp add: VMA_Contains_def)
  let ?mx = "add64 (user_base (impl mm)) (user_size (impl mm))"
  have run: "SearchFree mm va sz al = Some (if IsFree v \<and> ?a + sz \<le> k + vma_size v then ?a
      else search_free_loop ys sz al ?mx)"
  proof -
    have "u32_of_u64 al = al" using al by (simp add: u32_of_u64_def)
    moreover have "(if va < system_managed_base (impl mm) then system_managed_base (impl mm) else va) = st"
      using start(1) by (simp add: max_def)
    ultimately show ?thesis
      using al fl look cont assert_valid_zero [OF wf start(2)]
      by (simp add: SearchFree_def Let_def FindVMA_def)
  qed
  show ?thesis
  proof (cases "IsFree v \<and> ?a + sz \<le> k + vma_size v")
    case True
    then have "fits_free ?m al ?a sz"
      using up(2) k(1) by (auto simp: m fits_free_def)
    with True run least up(1) show ?thesis by auto
  next
    case False
    have "vma_wf ys" "\<forall>p\<in>set ys. fst p + vma_size (snd p) + al \<le> U64_MOD"
      using wf room unfolding m by (auto simp: ivl_wf_append)
    from search_free_loop_spec [OF this(1) al(1) this(2), of sz ?mx]
    have loop: "search_free_loop ys sz al ?mx = u64_minus_one \<and> (\<forall>r'. fits_free ys al r' sz \<longrightarrow> ?mx \<le> r')
       \<or> fits_free ys al (search_free_loop ys sz al ?mx) sz
         \<and> (\<forall>r'. fits_free ys al r' sz \<longrightarrow> search_free_loop ys sz al ?mx \<le> r')"
      by blast
    have sub: "fits_free ys al r' sz \<Longrightarrow> fits_free ?m al r' sz" for r'
      unfolding m by (auto simp: fits_free_def)
    have eq: "(fits_free ?m al r' sz \<and> st \<le> r') \<longleftrightarrow> fits_free ys al r' sz" for r'
      using here [of r'] tails [of r'] sub [of r'] False by blast
    show ?thesis
      unfolding run eq using False loop tails sub by auto
  qed
qed

theorem SearchFree_spec_witness:
  "\<exists>r. SearchFree demo_mm 0x200000000 0x8000 0x4000 = Some r \<and>
     (r = u64_minus_one
        \<and> (\<forall>r'. fits_free (vma_map demo_mm) 0x4000 r' 0x8000 \<and> 0x200000000 \<le> r'
             \<longrightarrow> add64 (user_base (impl demo_mm)) (user_size (impl demo_mm)) \<le> r')
      \<or> fits_free (vma_map demo_mm) 0x4000 r 0x8000 \<and> 0x200000000 \<le> r
        \<and> (\<forall>r'. fits_free (vma_map demo_mm) 0x4000 r' 0x8000 \<and> 0x200000000 \<le> r' \<longrightarrow> r \<le> r'))"
  by (rule SearchFree_spec [OF demo_mm_wf(1)]) (simp_all add: demo_mm_simps)

section \<open>Allocation of direct memory\<close>

text \<open>A properly aligned physical address at which a free area has room for \<open>sz\<close> bytes.\<close>

definition fits_dmem :: "PhysMap \<Rightarrow> u64 \<Rightarrow> u64 \<Rightarrow> u64 \<Rightarrow> bool" where
  "fits_dmem m al r sz \<longleftrightarrow>
     al dvd r \<and> (\<exists>p\<in>set m. pa_dma_type (snd p) = PFree \<and> fst p \<le> r \<and> r + sz \<le> fst p + pa_size (snd p))"

lemma fits_dmemI:
  "(f, a) \<in> set m \<Longrightarrow> pa_dma_type a = PFree \<Longrightarrow> f \<le> r \<Longrightarrow> r + sz \<le> f + pa_size a \<Longrightarrow> al dvd r \<Longrightarrow>
     fits_dmem m al r sz"
  unfolding fits_dmem_def by (intro conjI bexI [of _ "(f, a)"]) simp_all

lemma dmem_search_spec:
  fixes m :: PhysMap
  assumes "phys_wf (p # m)" "0 < al" "\<forall>q\<in>set (p # m). fst q + pa_size (snd q) + al + sz \<le> U64_MOD"
    and "fst p \<le> x" "x < fst p + pa_size (snd p)" and "0 < sz"
  shows "case dmem_search (p # m) (AlignUp x al) sz al of
      None \<Rightarrow> \<forall>r'. x \<le> r' \<longrightarrow> \<not> fits_dmem (p # m) al r' sz
    | Some (f, r) \<Rightarrow> al dvd r \<and> x \<le> r \<and>
        (\<exists>a. (f, a) \<in> set (p # m) \<and> pa_dma_type a = PFree \<and> f \<le> r \<and> r + sz \<le> f + pa_size a)
        \<and> (\<forall>r'. x \<le> r' \<and> fits_dmem (p # m) al r' sz \<longrightarrow> r \<le> r')"
  using assms(1,3-5)
proof (induction m arbitrary: p x)
  case Nil
  let ?e = "fst p + pa_size (snd p)" and ?v = "AlignUp x al"
  have ok: "GetEnd (snd p) = ?e"
    using Nil.prems(1) by (auto simp: phys_ok_def GetEnd_def)
  have xal: "x + al \<le> U64_MOD" using Nil.prems by auto
  note up = AlignUp_ge [OF assms(2) xal] AlignUp_dvd [OF assms(2) xal] AlignUp_least [OF assms(2) xal]
    AlignUp_gap [OF assms(2) xal]
  have ad: "add64 ?v sz = ?v + sz" using up(4) Nil.prems by (intro add64_exact) auto
  have least: "?v \<le> r'" if "x \<le> r'" "fits_dmem [p] al r' sz" for r'
    using up(3) that by (auto simp: fits_dmem_def)
  show ?case
  proof (cases "pa_dma_type (snd p) = PFree \<and> ?v + sz \<le> ?e")
    case True
    then have run: "dmem_search [p] ?v sz al = Some (fst p, ?v)"
      using ok ad by simp
    have "\<exists>a. (fst p, a) \<in> set [p] \<and> pa_dma_type a = PFree \<and> fst p \<le> ?v \<and> ?v + sz \<le> fst p + pa_size a"
      using True up(1) Nil.prems(3) by (intro exI [of _ "snd p"]) simp
    then show ?thesis
      using up(1,2) least unfolding run by simp
  next
    case False
    then have run: "dmem_search [p] ?v sz al = None"
      using ok ad by (auto simp: not_le)
    have "\<not> fits_dmem [p] al r' sz" if "x \<le> r'" for r'
      using least [OF that] False by (auto simp: fits_dmem_def)
    then show ?thesis unfolding run by simp
  qed
next
  case (Cons q m)
  let ?e = "fst p + pa_size (snd p)" and ?v = "AlignUp x al"
  have ok: "GetEnd (snd p) = ?e" "pa_base (snd q) = fst q" "?e \<le> fst q" "0 < pa_size (snd q)"
    using Cons.prems(1) by (auto simp: phys_ok_def GetEnd_def)
  have xal: "x + al \<le> U64_MOD" using Cons.prems by auto
  note up = AlignUp_ge [OF assms(2) xal] AlignUp_dvd [OF assms(2) xal] AlignUp_least [OF assms(2) xal]
    AlignUp_gap [OF assms(2) xal]
  have ad: "add64 ?v sz = ?v + sz" using up(4) Cons.prems by (intro add64_exact) auto
  have split: "fits_dmem (p # q # m) al r' sz \<longleftrightarrow>
     (al dvd r' \<and> pa_dma_type (snd p) = PFree \<and> fst p \<le> r' \<and> r' + sz \<le> ?e) \<or> fits_dmem (q # m) al r' sz" for r'
    unfolding fits_dmem_def by auto
  have later: "fst q \<le> r'" if "fits_dmem (q # m) al r' sz" for r'
    using that Cons.prems(1) by (force simp: fits_dmem_def)
  show ?case
  proof (cases "pa_dma_type (snd p) = PFree \<and> ?v + sz \<le> ?e")
    case True
    then have run: "dmem_search (p # q # m) ?v sz al = Some (fst p, ?v)"
      using ok ad by simp
    have "?v \<le> r'" if "x \<le> r'" "fits_dmem (p # q # m) al r' sz" for r'
      using up(3) that by (auto simp: fits_dmem_def)
    moreover have "\<exists>a. (fst p, a) \<in> set (p # q # m) \<and> pa_dma_type a = PFree \<and> fst p \<le> ?v \<and> ?v + sz \<le> fst p + pa_size a"
      using True up(1) Cons.prems(3) by (intro exI [of _ "snd p"]) simp
    ultimately show ?thesis
      using up(1,2) unfolding run by simp
  next
    case False
    then have run: "dmem_search (p # q # m) ?v sz al = dmem_search (q # m) (AlignUp (fst q) al) sz al"
      using ok ad by (auto simp: not_le)
    have eq: "x \<le> r' \<and> fits_dmem (p # q # m) al r' sz \<longleftrightarrow> fst q \<le> r' \<and> fits_dmem (q # m) al r' sz" for r'
      using up(3) [of r'] later [of r'] False ok(3) Cons.prems(4) unfolding split by fastforce
    have IH: "case dmem_search (q # m) (AlignUp (fst q) al) sz al of
        None \<Rightarrow> \<forall>r'. fst q \<le> r' \<longrightarrow> \<not> fits_dmem (q # m) al r' sz
      | Some (f, r) \<Rightarrow> al dvd r \<and> fst q \<le> r \<and>
          (\<exists>a. (f, a) \<in> set (q # m) \<and> pa_dma_type a = PFree \<and> f \<le> r \<and> r + sz \<le> f + pa_size a)
          \<and> (\<forall>r'. fst q \<le> r' \<and> fits_dmem (q # m) al r' sz \<longrightarrow> r \<le> r')"
      using Cons.prems(1,2) ok(4) by (intro Cons.IH) auto
    show ?thesis
    proof (cases "dmem_search (q # m) (AlignUp (fst q) al) sz al")
      case None
      with IH eq show ?thesis unfolding run by auto
    next
      case (Some fr)
      obtain f r where fr: "fr = (f, r)" by (cases fr)
      have "x \<le> r" if "fst q \<le> r" using that Cons.prems(4) ok(3) by simp
      with IH Some fr show ?thesis unfolding run eq by auto
    qed
  qed
qed

lemma dmem_floorE:
  assumes "dmem_wf mm" "x < total_direct_size mm"
  obtains xs k v ys where "dmem_map mm = xs @ (k, v) # ys" "k \<le> x" "x < k + pa_size v"
    "FindDmemArea mm x = Some k" "map_of (dmem_map mm) k = Some v" "om_from (dmem_map mm) k = (k, v) # ys"
    "phys_ok k v" "phys_wf ((k, v) # ys)"
proof -
  have wf: "phys_wf (dmem_map mm)" using assms by (simp add: dmem_wf_def)
  have "phys_view (dmem_map mm) x \<noteq> None"
    using ivl_contig_view [of pa_size "dmem_map mm" 0 "total_direct_size mm" phys_kind x] assms
    by (simp add: dmem_wf_def)
  with wf show thesis
  proof (rule iview_floorE)
    fix xs k v ys
    assume m: "dmem_map mm = xs @ (k, v) # ys" and r: "k \<le> x" "x < k + pa_size v" "om_floor (dmem_map mm) x = Some k"
      "map_of (dmem_map mm) k = Some v" "om_from (dmem_map mm) k = (k, v) # ys" "phys_ok k v"
    have "phys_wf ((k, v) # ys)" using wf unfolding m ivl_wf_append by blast
    with that [OF m r(1,2) _ r(4-6)] r(3) show thesis by (simp add: FindDmemArea_def)
  qed
qed

text \<open>The search of the allocator, from the area that holds the start address.\<close>

lemma dmem_search_least:
  assumes dm: "dmem_wf mm" "ss < total_direct_size mm" and al: "0 < al" and sz: "0 < sz"
    and lim: "total_direct_size mm + al + sz \<le> U64_MOD"
  obtains k v where "FindDmemArea mm ss = Some k" "map_of (dmem_map mm) k = Some v" "pa_base v = k" "k \<le> ss"
    "dmem_search (om_from (dmem_map mm) k) (AlignUp ss al) sz al = None
       \<and> (\<forall>r. ss \<le> r \<longrightarrow> \<not> fits_dmem (dmem_map mm) al r sz)
     \<or> (\<exists>f r a. dmem_search (om_from (dmem_map mm) k) (AlignUp ss al) sz al = Some (f, r)
          \<and> al dvd r \<and> ss \<le> r \<and> (f, a) \<in> set (dmem_map mm) \<and> pa_dma_type a = PFree \<and> f \<le> r \<and> r + sz \<le> f + pa_size a
          \<and> (\<forall>r'. ss \<le> r' \<and> fits_dmem (dmem_map mm) al r' sz \<longrightarrow> r \<le> r'))"
proof -
  obtain xs k v ys where m: "dmem_map mm = xs @ (k, v) # ys" and kv: "k \<le> ss" "ss < k + pa_size v"
    and look: "FindDmemArea mm ss = Some k" "map_of (dmem_map mm) k = Some v"
      "om_from (dmem_map mm) k = (k, v) # ys"
    and ok: "phys_ok k v" and wf: "phys_wf ((k, v) # ys)"
    using dm by (rule dmem_floorE)
  have "fst q + pa_size (snd q) \<le> total_direct_size mm" if "q \<in> set (dmem_map mm)" for q
    using ivl_contig_bounds that dm(1) by (fastforce simp: dmem_wf_def)
  then have room: "\<forall>q\<in>set ((k, v) # ys). fst q + pa_size (snd q) + al + sz \<le> U64_MOD"
    using lim unfolding m by fastforce
  have spec: "case dmem_search ((k, v) # ys) (AlignUp ss al) sz al of
      None \<Rightarrow> \<forall>r'. ss \<le> r' \<longrightarrow> \<not> fits_dmem ((k, v) # ys) al r' sz
    | Some (f, r) \<Rightarrow> al dvd r \<and> ss \<le> r \<and>
        (\<exists>a. (f, a) \<in> set ((k, v) # ys) \<and> pa_dma_type a = PFree \<and> f \<le> r \<and> r + sz \<le> f + pa_size a)
        \<and> (\<forall>r'. ss \<le> r' \<and> fits_dmem ((k, v) # ys) al r' sz \<longrightarrow> r \<le> r')"
    using dmem_search_spec [OF wf al room, of ss] kv sz by simp
  have below: "\<not> fits_dmem xs al r' sz" if "ss \<le> r'" for r'
  proof -
    have "phys_wf (dmem_map mm)" using dm(1) by (simp add: dmem_wf_def)
    with that kv(1) sz show ?thesis unfolding m by (fastforce simp: fits_dmem_def ivl_wf_append)
  qed
  have same: "fits_dmem (dmem_map mm) al r' sz \<longleftrightarrow> fits_dmem ((k, v) # ys) al r' sz" if "ss \<le> r'" for r'
    using below [OF that] unfolding m fits_dmem_def by auto
  have mem: "q \<in> set ((k, v) # ys) \<Longrightarrow> q \<in> set (dmem_map mm)" for q
    by (auto simp: m)
  show thesis
  proof (cases "dmem_search ((k, v) # ys) (AlignUp ss al) sz al")
    case None
    with spec same that [OF look(1,2) _ kv(1)] look ok show thesis by (simp add: phys_ok_def)
  next
    case (Some fr)
    obtain f r where fr: "fr = (f, r)" by (cases fr)
    with spec Some obtain a where "al dvd r" "ss \<le> r" "(f, a) \<in> set (dmem_map mm)" "pa_dma_type a = PFree"
      "f \<le> r" "r + sz \<le> f + pa_size a" "\<forall>r'. ss \<le> r' \<and> fits_dmem ((k, v) # ys) al r' sz \<longrightarrow> r \<le> r'"
      using mem by auto
    then show thesis
      using that [OF look(1,2) _ kv(1)] look(3) ok Some fr same by (auto simp: phys_ok_def)
  qed
qed

lemma free_range_view:
  assumes "phys_wf m" "(f, a) \<in> set m" "f \<le> r" "r + sz \<le> f + pa_size a" "r \<le> x" "x < r + sz"
  shows "phys_view m x = Some (pa_dma_type a, pa_memory_type a)"
  using iview_mem [OF assms(1,2), of x phys_kind] assms(3-) by (simp add: phys_kind_def)

lemma Allocate_ok:
  assumes dm: "dmem_wf mm" "ss < total_direct_size mm" and sz: "0 < sz"
    and al: "al = (if al0 > 0 then al0 else KB16)" and lim: "total_direct_size mm + al + sz \<le> U64_MOD"
  shows "Allocate ss se sz al0 mt mm = Some (u64_minus_one, mm)
       \<and> (\<forall>r. ss \<le> r \<and> fits_dmem (dmem_map mm) al r sz \<longrightarrow> se < r + sz)
     \<or> (\<exists>r m. Allocate ss se sz al0 mt mm = Some (r, mm\<lparr>dmem_map := m\<rparr>)
         \<and> ss \<le> r \<and> r + sz \<le> se \<and> fits_dmem (dmem_map mm) al r sz
         \<and> (\<forall>r'. ss \<le> r' \<and> fits_dmem (dmem_map mm) al r' sz \<longrightarrow> r \<le> r')
         \<and> dmem_wf (mm\<lparr>dmem_map := m\<rparr>)
         \<and> (\<forall>x. phys_view m x = (if r \<le> x \<and> x < r + sz then Some (PAllocated, mt) else phys_view (dmem_map mm) x))
         \<and> (\<forall>b t. within pa_size (dmem_map mm) b t \<longrightarrow> 0 < t \<longrightarrow> b + t \<le> r \<or> r + sz \<le> b \<longrightarrow> within pa_size m b t))"
proof -
  have wf: "phys_wf (dmem_map mm)" and ct: "ivl_contig pa_size (dmem_map mm) 0 (total_direct_size mm)"
    using dm(1) by (auto simp: dmem_wf_def)
  have al0: "0 < al" using al by auto
  obtain k v where look: "FindDmemArea mm ss = Some k" "map_of (dmem_map mm) k = Some v" "pa_base v = k" "k \<le> ss"
    and srch: "dmem_search (om_from (dmem_map mm) k) (AlignUp ss al) sz al = None
       \<and> (\<forall>r. ss \<le> r \<longrightarrow> \<not> fits_dmem (dmem_map mm) al r sz)
     \<or> (\<exists>f r a. dmem_search (om_from (dmem_map mm) k) (AlignUp ss al) sz al = Some (f, r)
          \<and> al dvd r \<and> ss \<le> r \<and> (f, a) \<in> set (dmem_map mm) \<and> pa_dma_type a = PFree \<and> f \<le> r \<and> r + sz \<le> f + pa_size a
          \<and> (\<forall>r'. ss \<le> r' \<and> fits_dmem (dmem_map mm) al r' sz \<longrightarrow> r \<le> r'))"
    by (rule dmem_search_least [OF dm al0 sz lim])
  have unf: "Allocate ss se sz al0 mt mm =
     (case dmem_search (om_from (dmem_map mm) k) (AlignUp ss al) sz al of
        None \<Rightarrow> Some (u64_minus_one, mm)
      | Some (found, r) \<Rightarrow>
          (if add64 r sz > se then Some (u64_minus_one, mm)
           else do {
             (m1, handle) \<leftarrow> CarvePhysArea (dmem_map mm) r sz;
             area \<leftarrow> map_of m1 handle;
             (m3, _) \<leftarrow> MergeAdjacent_phys
               (om_put handle (area\<lparr>pa_memory_type := mt, pa_dma_type := PAllocated\<rparr>) m1) found;
             Some (r, mm\<lparr>dmem_map := m3\<rparr>)
           }))"
    unfolding Allocate_def Let_def using look by (simp add: al [symmetric])
  from srch show ?thesis
  proof (elim disjE conjE exE)
    assume "dmem_search (om_from (dmem_map mm) k) (AlignUp ss al) sz al = None"
      "\<forall>r. ss \<le> r \<longrightarrow> \<not> fits_dmem (dmem_map mm) al r sz"
    then show ?thesis unfolding unf by (intro disjI1) auto
  next
    fix f r a
    assume s: "dmem_search (om_from (dmem_map mm) k) (AlignUp ss al) sz al = Some (f, r)"
      and r: "al dvd r" "ss \<le> r" and fa: "(f, a) \<in> set (dmem_map mm)" "pa_dma_type a = PFree"
      and fr: "f \<le> r" "r + sz \<le> f + pa_size a"
      and least: "\<forall>r'. ss \<le> r' \<and> fits_dmem (dmem_map mm) al r' sz \<longrightarrow> r \<le> r'"
    have "phys_ok f a" using ivl_wf_ok [OF wf fa(1)] by simp
    then have ad: "add64 r sz = r + sz" using fr by (simp add: phys_ok_def)
    have fit: "fits_dmem (dmem_map mm) al r sz"
      by (rule fits_dmemI [OF fa fr r(1)])
    show ?thesis
    proof (cases "r + sz \<le> se")
      case False
      then have "se < r' + sz" if "ss \<le> r'" "fits_dmem (dmem_map mm) al r' sz" for r'
        using least that by fastforce
      with False show ?thesis unfolding unf s by (intro disjI1) (auto simp: ad)
    next
      case True
      let ?f = "\<lambda>w. w\<lparr>pa_memory_type := mt, pa_dma_type := PAllocated\<rparr>"
      have ku: "kind_update ?f (\<lambda>_. (PAllocated, mt))" by (simp add: kind_update_def)
      obtain m1 w m2 where c: "CarvePhysArea (dmem_map mm) r sz = Some (m1, r)" "map_of m1 r = Some w"
        and m2: "m2 = om_put r (?f w) m1" "phys_wf m2" "f \<in> fst ` set m2"
        and view: "\<forall>x. phys_view m2 x = (if r \<le> x \<and> x < r + sz then map_option (\<lambda>_. (PAllocated, mt)) (phys_view (dmem_map mm) x)
            else phys_view (dmem_map mm) x)"
        and ct2: "\<forall>lo hi. ivl_contig pa_size (dmem_map mm) lo hi \<longrightarrow> ivl_contig pa_size m2 lo hi"
        and wi2: "\<forall>b t. within pa_size (dmem_map mm) b t \<longrightarrow> 0 < t \<longrightarrow> b + t \<le> r \<or> r + sz \<le> b \<longrightarrow> within pa_size m2 b t"
        by (rule carve_put_phys [OF wf fa(1) fr(1) sz fr(2) ku])
      obtain b where "(f, b) \<in> set m2" using m2(3) by auto
      then obtain m3 k' v' where mg: "ivl_merge phys_can phys_grow m2 f = Some (m3, k')" "pm.coarsens m2 m3"
        using pm.merge_ok [OF m2(2) pm.keyed_touching [OF phys_keyed]] by metis
      have sm: "phys_wf m3" "phys_view m3 = phys_view m2" "ivl_contig pa_size m3 0 (total_direct_size mm)"
        using pm.coarsens_same [OF mg(2)] ct2 ct by (auto simp: pm.same_map_def)
      have run: "Allocate ss se sz al0 mt mm = Some (r, mm\<lparr>dmem_map := m3\<rparr>)"
        unfolding unf s using True ad c m2(1) mg(1) by (simp add: MergeAdjacent_phys_eq)
      have vw: "phys_view m3 x = (if r \<le> x \<and> x < r + sz then Some (PAllocated, mt) else phys_view (dmem_map mm) x)" for x
        using view [rule_format, of x] free_range_view [OF wf fa(1) fr, of x] sm(2) by simp
      have wi: "\<forall>b t. within pa_size (dmem_map mm) b t \<longrightarrow> 0 < t \<longrightarrow> b + t \<le> r \<or> r + sz \<le> b \<longrightarrow> within pa_size m3 b t"
        using wi2 mg(2) by (simp add: pm.coarsens_def)
      have dw: "dmem_wf (mm\<lparr>dmem_map := m3\<rparr>)" using sm(1,3) by (simp add: dmem_wf_def)
      show ?thesis using run r(2) True fit least dw vw wi by blast
    qed
  qed
qed

text \<open>
  C31.  \<^verbatim>\<open>Allocate\<close> is a first-fit allocator.  It returns; either it reports failure, the state is
  unchanged and every aligned free range from \<^verbatim>\<open>search_start\<close> on ends beyond \<^verbatim>\<open>search_end\<close>, or it returns
  the least such address: the range was free and lies in the search window, exactly its bytes
  become allocated with the requested memory type, and the direct memory map keeps its form.
\<close>

theorem Allocate_first_fit:
  assumes dm: "dmem_wf mm" "ss < total_direct_size mm" and sz: "0 < sz"
    and al: "al = (if al0 > 0 then al0 else KB16)" and lim: "total_direct_size mm + al + sz \<le> U64_MOD"
  shows "Allocate ss se sz al0 mt mm = Some (u64_minus_one, mm)
       \<and> (\<forall>r. ss \<le> r \<and> fits_dmem (dmem_map mm) al r sz \<longrightarrow> se < r + sz)
     \<or> (\<exists>r m. Allocate ss se sz al0 mt mm = Some (r, mm\<lparr>dmem_map := m\<rparr>)
         \<and> ss \<le> r \<and> r + sz \<le> se \<and> fits_dmem (dmem_map mm) al r sz
         \<and> (\<forall>r'. ss \<le> r' \<and> fits_dmem (dmem_map mm) al r' sz \<longrightarrow> r \<le> r')
         \<and> dmem_wf (mm\<lparr>dmem_map := m\<rparr>)
         \<and> (\<forall>x. phys_view m x = (if r \<le> x \<and> x < r + sz then Some (PAllocated, mt) else phys_view (dmem_map mm) x)))"
  using Allocate_ok [OF assms, of se mt] by blast

theorem Allocate_first_fit_witness:
  "Allocate 0 0x10000000 0x8000 0 3 demo_mm = Some (u64_minus_one, demo_mm)
       \<and> (\<forall>r. 0 \<le> r \<and> fits_dmem (dmem_map demo_mm) KB16 r 0x8000 \<longrightarrow> 0x10000000 < r + 0x8000)
     \<or> (\<exists>r m. Allocate 0 0x10000000 0x8000 0 3 demo_mm = Some (r, demo_mm\<lparr>dmem_map := m\<rparr>)
         \<and> 0 \<le> r \<and> r + 0x8000 \<le> 0x10000000 \<and> fits_dmem (dmem_map demo_mm) KB16 r 0x8000
         \<and> (\<forall>r'. 0 \<le> r' \<and> fits_dmem (dmem_map demo_mm) KB16 r' 0x8000 \<longrightarrow> r \<le> r')
         \<and> dmem_wf (demo_mm\<lparr>dmem_map := m\<rparr>)
         \<and> (\<forall>x. phys_view m x = (if r \<le> x \<and> x < r + 0x8000 then Some (PAllocated, 3) else phys_view (dmem_map demo_mm) x)))"
  by (rule Allocate_first_fit [OF demo_mm_wf(2)]) (simp_all add: demo_mm_simps)

lemma PoolExpand_ok:
  assumes dm: "dmem_wf mm" "ss < total_direct_size mm" and sz: "0 < sz"
    and al: "al = (if al0 > 0 then al0 else KB64)" and lim: "total_direct_size mm + al + sz \<le> U64_MOD"
  shows "PoolExpand ss se sz al0 mm = Some (u64_minus_one, mm)
       \<and> (\<forall>r. ss \<le> r \<longrightarrow> \<not> fits_dmem (dmem_map mm) al r sz)
     \<or> (\<exists>r m. PoolExpand ss se sz al0 mm = Some (r, mm\<lparr>dmem_map := m, pool_budget := add64 (pool_budget mm) sz\<rparr>)
         \<and> ss \<le> r \<and> fits_dmem (dmem_map mm) al r sz
         \<and> (\<forall>r'. ss \<le> r' \<and> fits_dmem (dmem_map mm) al r' sz \<longrightarrow> r \<le> r')
         \<and> dmem_wf (mm\<lparr>dmem_map := m\<rparr>)
         \<and> (\<forall>x. phys_view m x = (if r \<le> x \<and> x < r + sz then Some (PPooled, 3) else phys_view (dmem_map mm) x))
         \<and> (\<forall>b t. within pa_size (dmem_map mm) b t \<longrightarrow> 0 < t \<longrightarrow> b + t \<le> r \<or> r + sz \<le> b \<longrightarrow> within pa_size m b t))"
proof -
  have wf: "phys_wf (dmem_map mm)" and ct: "ivl_contig pa_size (dmem_map mm) 0 (total_direct_size mm)"
    using dm(1) by (auto simp: dmem_wf_def)
  have al0: "0 < al" using al by auto
  obtain k v where look: "FindDmemArea mm ss = Some k" "map_of (dmem_map mm) k = Some v" "pa_base v = k" "k \<le> ss"
    and srch: "dmem_search (om_from (dmem_map mm) k) (AlignUp ss al) sz al = None
       \<and> (\<forall>r. ss \<le> r \<longrightarrow> \<not> fits_dmem (dmem_map mm) al r sz)
     \<or> (\<exists>f r a. dmem_search (om_from (dmem_map mm) k) (AlignUp ss al) sz al = Some (f, r)
          \<and> al dvd r \<and> ss \<le> r \<and> (f, a) \<in> set (dmem_map mm) \<and> pa_dma_type a = PFree \<and> f \<le> r \<and> r + sz \<le> f + pa_size a
          \<and> (\<forall>r'. ss \<le> r' \<and> fits_dmem (dmem_map mm) al r' sz \<longrightarrow> r \<le> r'))"
    by (rule dmem_search_least [OF dm al0 sz lim])
  have "(if ss > pa_base v then AlignUp ss al else AlignUp (pa_base v) al) = AlignUp ss al"
    using look by auto
  then have unf: "PoolExpand ss se sz al0 mm =
     (case dmem_search (om_from (dmem_map mm) k) (AlignUp ss al) sz al of
        None \<Rightarrow> Some (u64_minus_one, mm)
      | Some (found, r) \<Rightarrow> do {
          (m1, handle) \<leftarrow> CarvePhysArea (dmem_map mm) r sz;
          area \<leftarrow> map_of m1 handle;
          Some (r, mm\<lparr>dmem_map := om_put handle (area\<lparr>pa_dma_type := PPooled, pa_memory_type := 3\<rparr>) m1,
                      pool_budget := add64 (pool_budget mm) sz\<rparr>)
        })"
    unfolding PoolExpand_def Let_def using look by (simp add: al [symmetric])
  from srch show ?thesis
  proof (elim disjE conjE exE)
    assume "dmem_search (om_from (dmem_map mm) k) (AlignUp ss al) sz al = None"
      "\<forall>r. ss \<le> r \<longrightarrow> \<not> fits_dmem (dmem_map mm) al r sz"
    then show ?thesis unfolding unf by (intro disjI1) auto
  next
    fix f r a
    assume s: "dmem_search (om_from (dmem_map mm) k) (AlignUp ss al) sz al = Some (f, r)"
      and r: "al dvd r" "ss \<le> r" and fa: "(f, a) \<in> set (dmem_map mm)" "pa_dma_type a = PFree"
      and fr: "f \<le> r" "r + sz \<le> f + pa_size a"
      and least: "\<forall>r'. ss \<le> r' \<and> fits_dmem (dmem_map mm) al r' sz \<longrightarrow> r \<le> r'"
    have fit: "fits_dmem (dmem_map mm) al r sz"
      by (rule fits_dmemI [OF fa fr r(1)])
    let ?f = "\<lambda>w. w\<lparr>pa_dma_type := PPooled, pa_memory_type := 3\<rparr>"
    have ku: "kind_update ?f (\<lambda>_. (PPooled, 3))" by (simp add: kind_update_def)
    obtain m1 w m2 where c: "CarvePhysArea (dmem_map mm) r sz = Some (m1, r)" "map_of m1 r = Some w"
      and m2: "m2 = om_put r (?f w) m1" "phys_wf m2" "f \<in> fst ` set m2"
      and view: "\<forall>x. phys_view m2 x = (if r \<le> x \<and> x < r + sz then map_option (\<lambda>_. (PPooled, 3)) (phys_view (dmem_map mm) x)
          else phys_view (dmem_map mm) x)"
      and ct2: "\<forall>lo hi. ivl_contig pa_size (dmem_map mm) lo hi \<longrightarrow> ivl_contig pa_size m2 lo hi"
      and wi: "\<forall>b t. within pa_size (dmem_map mm) b t \<longrightarrow> 0 < t \<longrightarrow> b + t \<le> r \<or> r + sz \<le> b \<longrightarrow> within pa_size m2 b t"
      by (rule carve_put_phys [OF wf fa(1) fr(1) sz fr(2) ku])
    have run: "PoolExpand ss se sz al0 mm = Some (r, mm\<lparr>dmem_map := m2, pool_budget := add64 (pool_budget mm) sz\<rparr>)"
      unfolding unf s using c m2(1) by simp
    have vw: "phys_view m2 x = (if r \<le> x \<and> x < r + sz then Some (PPooled, 3) else phys_view (dmem_map mm) x)" for x
      using view [rule_format, of x] free_range_view [OF wf fa(1) fr, of x] by simp
    have dw: "dmem_wf (mm\<lparr>dmem_map := m2\<rparr>)" using m2(2) ct2 ct by (simp add: dmem_wf_def)
    show ?thesis using run r(2) fit least dw vw wi by blast
  qed
qed

end
