(* ===== verification/Memory_Invariant.thy ===== *)
theory Memory_Invariant
  imports Physical_Runs Memory_Queries
begin

text \<open>
  The invariant that ties the maps of the memory manager together: every physical area of a mapping lies
  inside one element of the direct or flexible memory map, no physical byte is mapped at two addresses,
  and the kind of every mapped physical byte is the one its mapping asks for.  The carving interface is
  interpreted a second time on areas that carry the first of these conditions, so that splitting and
  merging keep it.
\<close>

section \<open>Areas whose physical memory lies in the physical maps\<close>

definition backed :: "PhysMap \<Rightarrow> PhysMap \<Rightarrow> VMAType \<Rightarrow> PhysicalMemoryArea \<Rightarrow> bool" where
  "backed d f ty a \<longleftrightarrow>
     (if ty = VDirect \<or> ty = VPooled then within pa_size d (pa_base a) (pa_size a)
      else if ty = VFlexible then within pa_size f (pa_base a) (pa_size a) else True)"

definition vma_in :: "PhysMap \<Rightarrow> PhysMap \<Rightarrow> u64 \<Rightarrow> VirtualMemoryArea \<Rightarrow> bool" where
  "vma_in d f k v \<longleftrightarrow> vma_ok k v \<and> (\<forall>p\<in>set (vma_phys_areas v). backed d f (vma_type v) (snd p))"

lemma vma_inD: "vma_in d f k v \<Longrightarrow> vma_ok k v"
  by (simp add: vma_in_def)

definition part_of :: "PhysicalMemoryArea \<Rightarrow> PhysicalMemoryArea \<Rightarrow> bool" where
  "part_of a b \<longleftrightarrow> pa_base b \<le> pa_base a \<and> pa_base a + pa_size a \<le> pa_base b + pa_size b"

lemma part_of_refl [simp]: "part_of a a"
  by (simp add: part_of_def)

lemma within_sub: "within len m b t \<Longrightarrow> b \<le> b' \<Longrightarrow> b' + t' \<le> b + t \<Longrightarrow> within len m b' t'"
  unfolding within_def by (meson le_trans)

lemma backed_part: "backed d f ty b \<Longrightarrow> part_of a b \<Longrightarrow> backed d f ty a"
  by (auto simp: backed_def part_of_def intro: within_sub)

lemma split_areas_part:
  assumes wf: "backing_wf m sz" and sz: "sz < U64_MOD" and off: "0 < off" "off < sz"
    and r: "foldl (split_area_step off) ([], []) m = (old, new)" and p: "p \<in> set old \<union> set new"
  shows "\<exists>q\<in>set m. part_of (snd p) (snd q)"
proof -
  note D = backing_wfD [OF wf]
  obtain k a where ka: "(k, a) \<in> set m" "k \<le> off" "off < k + pa_size a"
    using ivl_contig_cover [OF D(1), of off] off by auto
  obtain xs ys where m: "m = xs @ (k, a) # ys"
    using ka(1) by (meson split_list)
  have xs: "ivl_contig pa_size xs 0 k" and ys: "ivl_contig pa_size ys (k + pa_size a) sz"
    using D(1) by (auto simp: m ivl_contig_append)
  have ok: "\<forall>p\<in>set (xs @ (k, a) # ys). backing_ok (fst p) (snd p)"
    using D(4) by (simp add: m)
  have lim: "pa_base a + pa_size a < U64_MOD" using ok by (simp add: backing_ok_def)
  note eq = split_areas_eq [OF xs ys sz ka(2,3) ok, folded m, unfolded r]
  have shifted: "\<exists>q\<in>set m. part_of (snd p) (snd q)" if "p \<in> set xs \<union> set (shift_down off ys)"
    using that by (force simp: m shift_down_def)
  have self: "\<exists>q\<in>set m. part_of (snd p) (snd q)" if "part_of (snd p) a"
    using that ka(1) by force
  show ?thesis
  proof (cases "k = off")
    case True
    then have "p \<in> set xs \<union> set (shift_down off ys) \<or> snd p = a"
      using eq p by auto
    then show ?thesis using shifted self by auto
  next
    case False
    then have "p \<in> set xs \<union> set (shift_down off ys) \<or> part_of (snd p) a"
      using eq p ka(2,3) lim by (auto simp: part_of_def)
    then show ?thesis using shifted self by blast
  qed
qed

lemma vma_in_grow:
  assumes "vma_in d f k v" "vma_in d f (k + vma_size v) v'" "VMA_CanMergeWith v v' = Some True"
  shows "vma_in d f k (vma_grow v v')"
proof -
  note ok = assms(1,2) [THEN vma_inD] and T = VMA_CanMergeWith_TrueD [OF assms(3)]
  have lim: "vma_size v + vma_size v' < U64_MOD" using ok(2) by (simp add: vma_ok_def)
  have "vma_phys_areas (vma_grow v v') = vma_phys_areas v @ shift_up (vma_size v) (vma_phys_areas v')"
  proof (cases "HasPhysicalBacking v")
    case True
    then have "backing_wf (vma_phys_areas v) (vma_size v)" "backing_wf (vma_phys_areas v') (vma_size v')"
      using ok T by (auto simp: vma_ok_def HasPhysicalBacking_def)
    then show ?thesis using join_areas(1) [OF _ _ lim] by (simp add: vma_grow_def)
  next
    case False
    then have "vma_phys_areas v = []" "vma_phys_areas v' = []"
      using ok T by (auto simp: vma_ok_def HasPhysicalBacking_def)
    then show ?thesis by (simp add: vma_grow_def append_areas_def shift_up_def)
  qed
  moreover have "vma_type (vma_grow v v') = vma_type v" by (simp add: vma_grow_def)
  ultimately show ?thesis
    using assms(1,2) vma_grow_props(2) [OF ok assms(3)] T by (auto simp: vma_in_def shift_up_def)
qed

lemma vma_in_parts:
  assumes "vma_in d f k v" "0 < off" "off < vma_size v"
  shows "vma_in d f k (fst (vma_split_parts v off)) \<and> vma_in d f (k + off) (snd (vma_split_parts v off))"
proof -
  note ok = vma_inD [OF assms(1)]
  have ty: "vma_type (fst (vma_split_parts v off)) = vma_type v" "vma_type (snd (vma_split_parts v off)) = vma_type v"
    by (simp_all add: vma_split_parts_def Let_def split_beta)
  have sub: "\<exists>q\<in>set (vma_phys_areas v). part_of (snd p) (snd q)"
    if "p \<in> set (vma_phys_areas (fst (vma_split_parts v off))) \<union> set (vma_phys_areas (snd (vma_split_parts v off)))" for p
  proof (cases "HasPhysicalBacking v")
    case True
    then have hb: "HasPhysicalBacking (v\<lparr>vma_base := x, vma_size := y\<rparr>)" for x y by (simp add: HasPhysicalBacking_def)
    obtain old new where on: "foldl (split_area_step off) ([], []) (vma_phys_areas v) = (old, new)" by force
    with that True hb have "p \<in> set old \<union> set new"
      by (simp add: vma_split_parts_def Let_def)
    with True ok assms(2,3) on show ?thesis
      by (intro split_areas_part [OF _ _ assms(2,3) on]) (auto simp: vma_ok_def)
  next
    case False
    then have "vma_phys_areas v = []" "\<not> HasPhysicalBacking (v\<lparr>vma_base := x, vma_size := y\<rparr>)" for x y
      using ok by (auto simp: vma_ok_def HasPhysicalBacking_def)
    with that show ?thesis by (simp add: vma_split_parts_def Let_def)
  qed
  have "backed d f (vma_type v) (snd p)"
    if "p \<in> set (vma_phys_areas (fst (vma_split_parts v off))) \<union> set (vma_phys_areas (snd (vma_split_parts v off)))" for p
    using sub [OF that] assms(1) backed_part by (auto simp: vma_in_def)
  then show ?thesis
    using vma_split_parts_props(2) [OF ok assms(2,3)] unfolding vma_in_def ty by blast
qed

interpretation vb: carving vma_size "vma_in d f" vma_byte VMA_CanMergeWith vma_grow vma_split_parts for d f
proof
  fix k k' v v' off i
  assume ok: "vma_in d f k v"
  show "\<exists>b. VMA_CanMergeWith v v' = Some b" if "vma_in d f k' v'"
    using that ok vma_inD vma_can_total by blast
  show "vma_size (vma_grow v v') = vma_size v + vma_size v'" "vma_in d f k (vma_grow v v')"
    "off < vma_size v + vma_size v' \<Longrightarrow> vma_byte (vma_grow v v') off =
       (if off < vma_size v then vma_byte v off else vma_byte v' (off - vma_size v))"
    if "vma_in d f (k + vma_size v) v'" "VMA_CanMergeWith v v' = Some True"
    using vma_in_grow [OF ok that] vma_grow_props [OF vma_inD [OF ok] vma_inD [OF that(1)] that(2)] by blast+
  assume off: "0 < off" "off < vma_size v"
  show "vma_size (fst (vma_split_parts v off)) = off \<and> vma_size (snd (vma_split_parts v off)) = vma_size v - off"
    "vma_in d f k (fst (vma_split_parts v off)) \<and> vma_in d f (k + off) (snd (vma_split_parts v off))"
    "i < off \<Longrightarrow> vma_byte (fst (vma_split_parts v off)) i = vma_byte v i"
    "i < vma_size v - off \<Longrightarrow> vma_byte (snd (vma_split_parts v off)) i = vma_byte v (off + i)"
    using vma_in_parts [OF ok off] vma_split_parts_props [OF vma_inD [OF ok] off] by blast+
qed

lemma vb_keyed: "vb.keyed d f"
  unfolding vb.keyed_def using vma_keyed vma_inD unfolding vm.keyed_def by blast

abbreviation vma_wf_in :: "PhysMap \<Rightarrow> PhysMap \<Rightarrow> VMAMap \<Rightarrow> bool" where
  "vma_wf_in d f m \<equiv> ivl_wf vma_size (vma_in d f) m"

lemma vma_wf_in_wf: "vma_wf_in d f m \<Longrightarrow> vma_wf m"
  by (auto simp: ivl_wf_def vma_in_def)

lemma retag_vma_ok:
  assumes wf: "vma_wf_in d f m" and mem: "(k, v) \<in> set m" and a: "k \<le> a" "0 < s" "a + s \<le> k + vma_size v"
    and F: "\<And>w. vma_in d f a w \<Longrightarrow> vma_size w = s \<Longrightarrow> vma_in d f a (F w) \<and> vma_size (F w) = s"
    and G: "\<And>w i. vma_in d f a w \<Longrightarrow> vma_size w = s \<Longrightarrow> i < s \<Longrightarrow> vma_byte (F w) i = G i (vma_byte w i)"
  obtains m' h v' where "retag_vma F m a s = Some (m', h)" "vma_wf_in d f m'"
    "\<forall>x. vma_view m' x = (if a \<le> x \<and> x < a + s then map_option (G (x - a)) (vma_view m x) else vma_view m x)"
    "\<forall>lo hi. ivl_contig vma_size m lo hi \<longrightarrow> ivl_contig vma_size m' lo hi"
    "(h, v') \<in> set m'" "h \<le> a" "a + s \<le> h + vma_size v'"
proof (rule vb.carve_update_merge [where f = F and g = G, OF wf vb_keyed mem a F G])
  fix m1 w m' k' v'
  assume r: "ivl_carve vma_size vma_split_parts m a s = Some (m1, a)" "map_of m1 a = Some w"
      "ivl_merge VMA_CanMergeWith vma_grow (om_put a (F w) m1) a = Some (m', k')"
    and wf': "vma_wf_in d f m'"
    and view: "\<And>x. vma_view m' x =
       (if a \<le> x \<and> x < a + s then map_option (G (x - a)) (vma_view m x) else vma_view m x)"
    and contig: "\<And>lo hi. ivl_contig vma_size m lo hi \<Longrightarrow> ivl_contig vma_size m' lo hi"
    and ret: "(k', v') \<in> set m'" "k' \<le> a" "a + s \<le> k' + vma_size v'"
  have "retag_vma F m a s = Some (m', k')"
    using r by (simp add: retag_vma_def CarveVMA_eq [OF vma_wf_in_wf [OF wf] mem a] MergeAdjacent_vma_eq)
  then show thesis
    by (rule that [OF _ wf' _ _ ret]) (use view contig in blast)+
qed

section \<open>Virtual addresses and the physical memory behind them\<close>

text \<open>The byte at \<open>x\<close> belongs to an area of a type in \<open>T\<close> and its content is the physical byte \<open>y\<close>.\<close>

definition mapped_to :: "VMAMap \<Rightarrow> VMAType set \<Rightarrow> u64 \<Rightarrow> u64 \<Rightarrow> bool" where
  "mapped_to m T x y \<longleftrightarrow>
     (\<exists>ty pr nm dm mt dt. vma_view m x = Some (ty, pr, nm, dm, Some (y, mt, dt)) \<and> ty \<in> T)"

definition no_alias :: "VMAMap \<Rightarrow> VMAType set \<Rightarrow> bool" where
  "no_alias m T \<longleftrightarrow> (\<forall>x x' y. mapped_to m T x y \<longrightarrow> mapped_to m T x' y \<longrightarrow> x = x')"

text \<open>
  The invariant of the memory manager: well-formed maps, every physical area of a mapping inside one
  element of its physical map, no physical byte mapped twice, the kind of every mapped physical byte
  as the mapping says, and \<^verbatim>\<open>flexible_usage\<close> equal to the number of flexible bytes in use.
\<close>

definition kinds_agree :: "PhysMap \<Rightarrow> PhysMap \<Rightarrow> VMAMap \<Rightarrow> bool" where
  "kinds_agree d f m \<longleftrightarrow>
     (\<forall>x ty pr nm dm y mt dt. vma_view m x = Some (ty, pr, nm, dm, Some (y, mt, dt)) \<longrightarrow>
        (ty = VDirect \<longrightarrow> phys_view d y = Some (PMapped, mt))
        \<and> (ty = VPooled \<longrightarrow> phys_view d y = Some (PCommitted, mt))
        \<and> (ty = VFlexible \<longrightarrow> phys_view f y = Some (PFlexible, mt)))"

definition used_flexible :: "PhysMap \<Rightarrow> u64 set" where
  "used_flexible f = {y. \<exists>mt. phys_view f y = Some (PFlexible, mt)}"

definition mm_inv :: "MemoryManager \<Rightarrow> bool" where
  "mm_inv mm \<longleftrightarrow>
     phys_wf (dmem_map mm) \<and> phys_wf (fmem_map mm)
     \<and> vma_wf_in (dmem_map mm) (fmem_map mm) (vma_map mm)
     \<and> no_alias (vma_map mm) {VDirect, VPooled} \<and> no_alias (vma_map mm) {VFlexible}
     \<and> kinds_agree (dmem_map mm) (fmem_map mm) (vma_map mm)
     \<and> flexible_usage mm = card (used_flexible (fmem_map mm))"

lemma vma_byte_at:
  assumes "vma_wf m" "(k, v) \<in> set m" "i < vma_size v"
  shows "vma_view m (k + i) = Some (vma_byte v i)"
  using iview_mem [OF assms(1,2), of "k + i" vma_byte] assms(3) by simp

lemma mapped_to_at:
  assumes "vma_wf m" "(k, v) \<in> set m" "i < vma_size v"
  shows "mapped_to m T (k + i) y \<longleftrightarrow> vma_type v \<in> T \<and> backing_at (vma_phys_areas v) i = Some y"
  unfolding mapped_to_def vma_byte_at [OF assms]
  by (auto simp: vma_byte_def backing_at_def)

lemma backing_wf_ivl: "backing_wf m sz \<Longrightarrow> ivl_wf pa_size backing_ok m"
  by (rule ivl_contig_wf [of _ _ 0 sz]) (auto simp: backing_wf_def backing_ok_def)

lemma area_mapped:
  assumes wf: "vma_wf m" and mem: "(k, v) \<in> set m" and p: "(off, p) \<in> set (vma_phys_areas v)"
    and y: "pa_base p \<le> y" "y < pa_base p + pa_size p" and T: "vma_type v \<in> T"
  shows "mapped_to m T (k + (off + (y - pa_base p))) y"
proof -
  have ok: "vma_ok k v" using ivl_wf_ok [OF wf mem] by simp
  then have bw: "backing_wf (vma_phys_areas v) (vma_size v)"
    using p by (auto simp: vma_ok_def split: if_splits)
  have i: "off + (y - pa_base p) < vma_size v"
    using backing_wfD(6) [OF bw p] y by simp
  have "backing_at (vma_phys_areas v) (off + (y - pa_base p)) = Some y"
    using iview_mem [OF backing_wf_ivl [OF bw] p, of "off + (y - pa_base p)" backing_byte] y
    by (simp add: backing_at_def backing_byte_def)
  then show ?thesis using mapped_to_at [OF wf mem i] T by simp
qed

lemma no_alias_inj:
  assumes "vma_wf m" "(k, v) \<in> set m" "no_alias m T" "vma_type v \<in> T" "HasPhysicalBacking v"
  shows "backing_inj (vma_phys_areas v)"
  unfolding backing_inj_def
proof (intro allI impI)
  fix i j y assume ij: "backing_at (vma_phys_areas v) i = Some y" "backing_at (vma_phys_areas v) j = Some y"
  have "vma_ok k v" using ivl_wf_ok [OF assms(1,2)] by simp
  then have "ivl_contig pa_size (vma_phys_areas v) 0 (vma_size v)"
    using assms(5) by (simp add: vma_ok_def backing_wf_def)
  then have "i < vma_size v" "j < vma_size v"
    using ij ivl_contig_view [of pa_size "vma_phys_areas v" 0 "vma_size v" backing_byte]
    by (auto simp: backing_at_def)
  then have "mapped_to m T (k + i) y" "mapped_to m T (k + j) y"
    using ij mapped_to_at [OF assms(1,2)] assms(4) by auto
  then show "i = j" using assms(3) unfolding no_alias_def by (metis add_left_cancel)
qed

text \<open>The runs of an area that the loops visit, from the iterator \<^verbatim>\<open>std::prev(upper_bound(st))\<close> on.\<close>

lemma backing_windowE:
  assumes bw: "backing_wf m sz" and st: "0 < n" "st + n \<le> sz"
  obtains h l where "om_floor m st = Some h" "om_from m h = l" "window l h sz st n" "max h st = st"
    "set l \<subseteq> set m" "backing_range l st (st + n) = backing_range m st (st + n)" "backing_inj m \<longrightarrow> backing_inj l"
proof -
  note wf = backing_wf_ivl [OF bw]
  have ne: "iview pa_size backing_byte m st \<noteq> None"
    using ivl_contig_view [OF backing_wfD(1) [OF bw], of backing_byte st] st by simp
  obtain xs h v ys where m: "m = xs @ (h, v) # ys" "h \<le> st" "st < h + pa_size v"
    and fl: "om_floor m st = Some h" "om_from m h = (h, v) # ys"
    by (rule iview_floorE [OF wf ne], rule that)
  have cx: "ivl_contig pa_size xs 0 h" and cl: "ivl_contig pa_size ((h, v) # ys) h sz"
    using backing_wfD(1) [OF bw] by (auto simp: m(1) ivl_contig_append)
  have same: "backing_at m i = backing_at ((h, v) # ys) i" if "h \<le> i" for i
  proof -
    have "iview pa_size backing_byte xs i = None"
      using ivl_contig_bounds [OF cx] that by (intro iview_NoneI) fastforce
    then show ?thesis by (simp add: backing_at_def m(1) iview_append)
  qed
  have "window ((h, v) # ys) h sz st n"
    using cl backing_wfD(5) [OF bw] m st by (auto simp: window_def)
  moreover have "backing_range ((h, v) # ys) st (st + n) = backing_range m st (st + n)"
    using same m(2) by (auto simp: backing_range_def)
  moreover have "backing_inj ((h, v) # ys)" if "backing_inj m"
    unfolding backing_inj_def
  proof (intro allI impI)
    fix i j y assume ij: "backing_at ((h, v) # ys) i = Some y" "backing_at ((h, v) # ys) j = Some y"
    then have "h \<le> i" "h \<le> j" using backing_at_below [OF cl] by (metis not_le option.distinct(1))+
    then show "i = j" using ij same that unfolding backing_inj_def by metis
  qed
  moreover have "max h st = st" "set ((h, v) # ys) \<subseteq> set m" using m(1,2) by auto
  ultimately show thesis using that [OF fl] by blast
qed

text \<open>Enlarging the physical maps keeps the areas in them.\<close>

lemma vma_wf_in_change:
  assumes wf: "vma_wf_in d f m"
    and d: "\<And>b t. within pa_size d b t \<Longrightarrow> 0 < t \<Longrightarrow> {b..<b + t} \<inter> D = {} \<Longrightarrow> within pa_size d' b t"
    and f: "\<And>b t. within pa_size f b t \<Longrightarrow> 0 < t \<Longrightarrow> {b..<b + t} \<inter> E = {} \<Longrightarrow> within pa_size f' b t"
    and D: "\<And>x y. mapped_to m {VDirect, VPooled} x y \<Longrightarrow> y \<notin> D"
    and E: "\<And>x y. mapped_to m {VFlexible} x y \<Longrightarrow> y \<notin> E"
  shows "vma_wf_in d' f' m"
proof -
  note wf0 = vma_wf_in_wf [OF wf]
  have "vma_in d' f' k v" if mem: "(k, v) \<in> set m" for k v
  proof -
    have ok: "vma_in d f k v" using ivl_wf_ok [OF wf mem] by simp
    have "backed d' f' (vma_type v) p" if p: "(off, p) \<in> set (vma_phys_areas v)" for off p
    proof -
      have bp: "backed d f (vma_type v) p" using ok p by (auto simp: vma_in_def)
      have pos: "0 < pa_size p"
        using ok p backing_wfD(5) by (fastforce simp: vma_in_def vma_ok_def split: if_splits)
      have "{pa_base p..<pa_base p + pa_size p} \<inter> D = {}" if "vma_type v \<in> {VDirect, VPooled}"
        using D area_mapped [OF wf0 mem p _ _ that] by fastforce
      moreover have "{pa_base p..<pa_base p + pa_size p} \<inter> E = {}" if "vma_type v \<in> {VFlexible}"
        using E area_mapped [OF wf0 mem p _ _ that] by fastforce
      ultimately show ?thesis using bp pos d f by (auto simp: backed_def)
    qed
    then show ?thesis using ok by (auto simp: vma_in_def)
  qed
  then show ?thesis using wf by (auto simp: ivl_wf_def)
qed

end
