(* ===== verification/Release_Memory.thy ===== *)
theory Release_Memory
  imports Memory_Invariant
begin

text \<open>
  What unmapping a range means for the manager (\<open>unmapped\<close>), how the flexible bytes in use are counted, and
  the part of \<^verbatim>\<open>UnmapBytesFromEntry\<close> that gives the physical memory behind an area back.
\<close>

section \<open>What unmapping a range means\<close>

definition free_byte :: byte_info where
  "free_byte = (VFree, 0, '''', False, None)"

definition unmap_byte :: "byte_info \<Rightarrow> byte_info" where
  "unmap_byte b = (if fst b = VFree \<or> fst b = VPooled then b else free_byte)"

definition released :: "VMAMap \<Rightarrow> VMAType set \<Rightarrow> u64 \<Rightarrow> u64 \<Rightarrow> u64 set" where
  "released m T a s = {y. \<exists>x. a \<le> x \<and> x < a + s \<and> mapped_to m T x y}"

definition same_config :: "MemoryManager \<Rightarrow> MemoryManager \<Rightarrow> bool" where
  "same_config mm mm' \<longleftrightarrow>
     impl mm' = impl mm \<and> mapping_generation mm' = mapping_generation mm
     \<and> total_direct_size mm' = total_direct_size mm \<and> total_flexible_size mm' = total_flexible_size mm
     \<and> pool_budget mm' = pool_budget mm \<and> sdk_version mm' = sdk_version mm
     \<and> rasterizer mm' = rasterizer mm \<and> prt_areas mm' = prt_areas mm
     \<and> (\<forall>lo hi. ivl_contig pa_size (dmem_map mm) lo hi \<longrightarrow> ivl_contig pa_size (dmem_map mm') lo hi)
     \<and> (\<forall>lo hi. ivl_contig pa_size (fmem_map mm) lo hi \<longrightarrow> ivl_contig pa_size (fmem_map mm') lo hi)"

lemma same_config_refl: "same_config mm mm"
  by (simp add: same_config_def)

lemma same_config_trans: "same_config a b \<Longrightarrow> same_config b c \<Longrightarrow> same_config a c"
  by (simp add: same_config_def)

definition retyped :: "PhysMap \<Rightarrow> u64 set \<Rightarrow> PhysicalMemoryType \<Rightarrow> PhysMap \<Rightarrow> bool" where
  "retyped m S t m' \<longleftrightarrow>
     (\<forall>y. phys_view m' y = (if y \<in> S then map_option (map_prod (\<lambda>_. t) id) (phys_view m y) else phys_view m y))"

definition unmapped :: "MemoryManager \<Rightarrow> u64 \<Rightarrow> u64 \<Rightarrow> MemoryManager \<Rightarrow> bool" where
  "unmapped mm a s mm' \<longleftrightarrow>
     same_config mm mm'
     \<and> (\<forall>x. vma_view (vma_map mm') x =
          (if a \<le> x \<and> x < a + s then map_option unmap_byte (vma_view (vma_map mm) x) else vma_view (vma_map mm) x))
     \<and> retyped (dmem_map mm) (released (vma_map mm) {VDirect} a s) PAllocated (dmem_map mm')
     \<and> retyped (fmem_map mm) (released (vma_map mm) {VFlexible} a s) PFree (fmem_map mm')"

lemma retyped_empty: "retyped m {} t m"
  by (simp add: retyped_def)

lemma retyped_trans: "retyped m A t m1 \<Longrightarrow> retyped m1 B t m2 \<Longrightarrow> retyped m (A \<union> B) t m2"
  unfolding retyped_def by (simp add: map_prod_def option.map_comp o_def case_prod_unfold)

lemma unmap_byte_idem [simp]: "unmap_byte (unmap_byte b) = unmap_byte b"
  by (simp add: unmap_byte_def free_byte_def)

lemma unmapped_zero: "unmapped mm a 0 mm"
  by (auto simp: unmapped_def same_config_refl released_def retyped_def)

lemma released_cong:
  assumes "\<And>x. a \<le> x \<Longrightarrow> x < a + s \<Longrightarrow> vma_view m x = vma_view m' x"
  shows "released m T a s = released m' T a s"
  using assms by (auto simp: released_def mapped_to_def)

lemma released_split: "released m T a (s + t) = released m T a s \<union> released m T (a + s) t"
proof -
  have "(a \<le> x \<and> x < a + (s + t)) = (a \<le> x \<and> x < a + s \<or> a + s \<le> x \<and> x < a + s + t)" for x by auto
  then show ?thesis unfolding released_def by blast
qed

lemma unmapped_trans:
  assumes 1: "unmapped mm a s mm1" and 2: "unmapped mm1 (a + s) t mm2"
  shows "unmapped mm a (s + t) mm2"
proof -
  have rel: "released (vma_map mm1) T (a + s) t = released (vma_map mm) T (a + s) t" for T
    using 1 by (intro released_cong) (simp add: unmapped_def)
  have v1: "vma_view (vma_map mm1) x =
      (if a \<le> x \<and> x < a + s then map_option unmap_byte (vma_view (vma_map mm) x) else vma_view (vma_map mm) x)" for x
    using 1 by (simp add: unmapped_def)
  have "vma_view (vma_map mm2) x = (if a + s \<le> x \<and> x < a + s + t then map_option unmap_byte (vma_view (vma_map mm1) x)
      else vma_view (vma_map mm1) x)" for x
    using 2 by (simp add: unmapped_def)
  then have "vma_view (vma_map mm2) x = (if a \<le> x \<and> x < a + (s + t) then map_option unmap_byte (vma_view (vma_map mm) x)
      else vma_view (vma_map mm) x)" for x
    by (auto simp: v1)
  then show ?thesis
    using 1 2 unfolding unmapped_def rel released_split by (blast intro: same_config_trans retyped_trans)
qed

section \<open>Counting flexible memory\<close>

lemma view_bound: "phys_wf m \<Longrightarrow> phys_view m y \<noteq> None \<Longrightarrow> y < U64_MOD - 1"
  by (auto elim!: iview_SomeE dest: ivl_wf_ok simp: phys_ok_def)

lemma finite_used: "phys_wf f \<Longrightarrow> finite (used_flexible f) \<and> card (used_flexible f) < U64_MOD"
proof -
  assume "phys_wf f"
  then have "used_flexible f \<subseteq> {..<U64_MOD - 1}"
    using view_bound by (force simp: used_flexible_def)
  then show ?thesis
    using card_mono [of "{..<U64_MOD - 1}" "used_flexible f"] finite_subset by fastforce
qed

lemma card_run_bytes: "runs_disj cs \<Longrightarrow> finite (run_bytes cs) \<and> card (run_bytes cs) = sum_list (map snd cs)"
proof (induction cs)
  case (Cons c cs)
  then show ?case by (auto simp: card_Un_disjoint)
qed simp

lemma set_dma_update: "kind_update (set_dma t) (map_prod (\<lambda>_. t) id)"
  by (simp add: kind_update_def set_dma_def)

lemma release_all_direct:
  "release_all VDirect cs mm = map_option (\<lambda>m. mm\<lparr>dmem_map := m\<rparr>) (retag_all (set_dma PAllocated) cs (dmem_map mm))"
proof (induction cs arbitrary: mm)
  case (Cons c cs)
  show ?case
    by (cases "retag_phys (set_dma PAllocated) (dmem_map mm) (fst c) (snd c)")
      (auto simp: release_phys_def Cons.IH split_beta intro: option.map_cong)
qed simp

lemma release_all_flexible:
  assumes "sum_list (map snd cs) \<le> flexible_usage mm" "flexible_usage mm < U64_MOD"
    and "retag_all (set_dma PFree) cs (fmem_map mm) = Some f'"
  shows "\<exists>tr. release_all VFlexible cs mm = Some (mm\<lparr>fmem_map := f', flexible_usage := flexible_usage mm - sum_list (map snd cs),
     trace := tr\<rparr>)"
  using assms
proof (induction cs arbitrary: mm)
  case Nil
  then show ?case by (intro exI [of _ "trace mm"]) simp
next
  case (Cons c cs)
  obtain r where r: "retag_phys (set_dma PFree) (fmem_map mm) (fst c) (snd c) = Some r" and
    tl: "retag_all (set_dma PFree) cs (fst r) = Some f'"
    using Cons.prems(3) by (auto simp: bind_eq_Some_conv)
  define mm1 where "mm1 = emit (ZeroBacking (fst c) (snd c))
      (mm\<lparr>fmem_map := fst r, flexible_usage := sub64 (flexible_usage mm) (snd c)\<rparr>)"
  have u1: "flexible_usage mm1 = flexible_usage mm - snd c"
    using Cons.prems(1,2) by (simp add: mm1_def emit_def)
  have "release_all VFlexible (c # cs) mm = release_all VFlexible cs mm1"
    using r by (simp add: release_phys_def mm1_def split_beta)
  moreover have f1: "fmem_map mm1 = fst r" by (simp add: mm1_def emit_def)
  have le: "sum_list (map snd cs) \<le> flexible_usage mm1" "flexible_usage mm1 < U64_MOD"
    using Cons.prems(1,2) unfolding u1 by auto
  obtain tr where "release_all VFlexible cs mm1 =
      Some (mm1\<lparr>fmem_map := f', flexible_usage := flexible_usage mm1 - sum_list (map snd cs), trace := tr\<rparr>)"
    using Cons.IH [OF le tl [folded f1]] by blast
  ultimately show ?case
    unfolding u1 by (intro exI [of _ tr]) (simp add: mm1_def emit_def)
qed

section \<open>One area\<close>

lemma make_free_ok: "vma_in d f a w \<Longrightarrow> vma_in d f a (make_free w) \<and> vma_size (make_free w) = vma_size w"
  by (auto simp: vma_in_def vma_ok_def make_free_def HasPhysicalBacking_def)

lemma make_free_byte: "vma_byte (make_free w) i = free_byte"
  by (simp add: vma_byte_def make_free_def free_byte_def)

text \<open>
  After the area at the range is free, the invariant holds for the physical maps in which the physical
  bytes behind the range have been given back.
\<close>

lemma unmap_finish:
  assumes inv: "mm_inv mm" and wf': "vma_wf_in (dmem_map mm) (fmem_map mm) m'"
    and view: "\<forall>x. vma_view m' x = (if a \<le> x \<and> x < a + s then map_option (\<lambda>_. free_byte) (vma_view (vma_map mm) x)
        else vma_view (vma_map mm) x)"
    and d: "phys_wf d'" "retyped (dmem_map mm) (released (vma_map mm) {VDirect} a s) PAllocated d'"
      "\<forall>b t. within pa_size (dmem_map mm) b t \<longrightarrow> 0 < t \<longrightarrow> {b..<b + t} \<inter> released (vma_map mm) {VDirect} a s = {} \<longrightarrow>
         within pa_size d' b t"
    and f: "phys_wf f'" "retyped (fmem_map mm) (released (vma_map mm) {VFlexible} a s) PFree f'"
      "\<forall>b t. within pa_size (fmem_map mm) b t \<longrightarrow> 0 < t \<longrightarrow> {b..<b + t} \<inter> released (vma_map mm) {VFlexible} a s = {} \<longrightarrow>
         within pa_size f' b t"
    and mm': "dmem_map mm' = d'" "fmem_map mm' = f'" "vma_map mm' = m'"
      "flexible_usage mm' = card (used_flexible f')"
  shows "mm_inv mm'"
proof -
  have inv1: "no_alias (vma_map mm) {VDirect, VPooled}" "no_alias (vma_map mm) {VFlexible}"
    and kinds: "kinds_agree (dmem_map mm) (fmem_map mm) (vma_map mm)"
    using inv by (auto simp: mm_inv_def)
  have left: "mapped_to (vma_map mm) T x y \<and> \<not> (a \<le> x \<and> x < a + s)" if "mapped_to m' T x y" for T x y
    using that view by (auto simp: mapped_to_def free_byte_def split: if_splits)
  have disj1: "y \<notin> released (vma_map mm) {VDirect} a s" if "mapped_to m' {VDirect, VPooled} x y" for x y
  proof
    assume "y \<in> released (vma_map mm) {VDirect} a s"
    then obtain x0 where "a \<le> x0" "x0 < a + s" "mapped_to (vma_map mm) {VDirect, VPooled} x0 y"
      by (auto simp: released_def mapped_to_def)
    with left [OF that] inv1(1) show False unfolding no_alias_def by blast
  qed
  have disj2: "y \<notin> released (vma_map mm) {VFlexible} a s" if "mapped_to m' {VFlexible} x y" for x y
    using left [OF that] inv1(2) unfolding released_def no_alias_def by blast
  have "vma_wf_in d' f' m'"
    by (rule vma_wf_in_change [OF wf', where D = "released (vma_map mm) {VDirect} a s" and E = "released (vma_map mm) {VFlexible} a s"])
      (use d(3) f(3) disj1 disj2 in blast)+
  moreover have "no_alias m' {VDirect, VPooled}" "no_alias m' {VFlexible}"
    using inv1 left unfolding no_alias_def by blast+
  moreover have "kinds_agree d' f' m'"
    unfolding kinds_agree_def
  proof (intro allI impI)
    fix x ty pr nm dm y mt dt
    assume v: "vma_view m' x = Some (ty, pr, nm, dm, Some (y, mt, dt))"
    then have "vma_view (vma_map mm) x = Some (ty, pr, nm, dm, Some (y, mt, dt))"
      using view by (auto simp: free_byte_def split: if_splits)
    then have k: "ty = VDirect \<longrightarrow> phys_view (dmem_map mm) y = Some (PMapped, mt)"
      "ty = VPooled \<longrightarrow> phys_view (dmem_map mm) y = Some (PCommitted, mt)"
      "ty = VFlexible \<longrightarrow> phys_view (fmem_map mm) y = Some (PFlexible, mt)"
      using kinds unfolding kinds_agree_def by blast+
    have m1: "mapped_to m' T x y" if "ty \<in> T" for T
      unfolding mapped_to_def v using that by blast
    have "phys_view d' y = phys_view (dmem_map mm) y" if "ty \<in> {VDirect, VPooled}"
      using disj1 [OF m1 [OF that]] d(2) by (simp add: retyped_def)
    moreover have "phys_view f' y = phys_view (fmem_map mm) y" if "ty \<in> {VFlexible}"
      using disj2 [OF m1 [OF that]] f(2) by (simp add: retyped_def)
    ultimately have "ty \<in> {VDirect, VPooled} \<longrightarrow> phys_view d' y = phys_view (dmem_map mm) y"
      "ty \<in> {VFlexible} \<longrightarrow> phys_view f' y = phys_view (fmem_map mm) y" by blast+
    with k show "(ty = VDirect \<longrightarrow> phys_view d' y = Some (PMapped, mt))
        \<and> (ty = VPooled \<longrightarrow> phys_view d' y = Some (PCommitted, mt))
        \<and> (ty = VFlexible \<longrightarrow> phys_view f' y = Some (PFlexible, mt))" by auto
  qed
  ultimately show ?thesis
    using d(1) f(1) by (simp add: mm_inv_def mm')
qed

section \<open>Giving the memory behind an area back\<close>

definition gives_back :: "PhysMap \<Rightarrow> u64 set \<Rightarrow> PhysicalMemoryType \<Rightarrow> PhysMap \<Rightarrow> bool" where
  "gives_back m S t m' \<longleftrightarrow>
     phys_wf m' \<and> retyped m S t m'
     \<and> (\<forall>lo hi. ivl_contig pa_size m lo hi \<longrightarrow> ivl_contig pa_size m' lo hi)
     \<and> (\<forall>b t. within pa_size m b t \<longrightarrow> 0 < t \<longrightarrow> {b..<b + t} \<inter> S = {} \<longrightarrow> within pa_size m' b t)"

lemma gives_back_refl: "phys_wf m \<Longrightarrow> gives_back m {} t m"
  by (simp add: gives_back_def retyped_empty)

lemma released_at:
  assumes wf: "vma_wf m" and mem: "(k, v) \<in> set m" and a: "k \<le> a" "a + s \<le> k + vma_size v"
  shows "released m T a s = (if vma_type v \<in> T then backing_range (vma_phys_areas v) (a - k) (a - k + s) else {})"
proof -
  have at: "mapped_to m T x y \<longleftrightarrow> vma_type v \<in> T \<and> backing_at (vma_phys_areas v) (x - k) = Some y"
    if "a \<le> x" "x < a + s" for x y
    using mapped_to_at [OF wf mem, of "x - k"] that a by simp
  have "y \<in> released m T a s \<longleftrightarrow> vma_type v \<in> T \<and> y \<in> backing_range (vma_phys_areas v) (a - k) (a - k + s)" for y
  proof
    assume "y \<in> released m T a s"
    then obtain x where x: "a \<le> x" "x < a + s" "mapped_to m T x y" by (auto simp: released_def)
    then have "backing_at (vma_phys_areas v) (x - k) = Some y" "vma_type v \<in> T" using at by auto
    moreover have "a - k \<le> x - k" "x - k < a - k + s" using x a by auto
    ultimately show "vma_type v \<in> T \<and> y \<in> backing_range (vma_phys_areas v) (a - k) (a - k + s)"
      unfolding backing_range_def by blast
  next
    assume "vma_type v \<in> T \<and> y \<in> backing_range (vma_phys_areas v) (a - k) (a - k + s)"
    then obtain i where i: "a - k \<le> i" "i < a - k + s" "backing_at (vma_phys_areas v) i = Some y" "vma_type v \<in> T"
      by (auto simp: backing_range_def)
    then have "mapped_to m T (k + i) y" using at [of "k + i" y] a by simp
    moreover have "a \<le> k + i" "k + i < a + s" using i a by auto
    ultimately show "y \<in> released m T a s" unfolding released_def by blast
  qed
  then show ?thesis by auto
qed

text \<open>The runs behind a part of a backed area, and what giving them back does to the physical map.\<close>

lemma entry_runsE:
  assumes inv: "mm_inv mm" and mem: "(k, v) \<in> set (vma_map mm)" and a: "k \<le> a" "0 < s" "a + s \<le> k + vma_size v"
    and hb: "HasPhysicalBacking v" and T: "vma_type v \<in> T" "no_alias (vma_map mm) T"
    and m: "phys_wf m" "\<forall>p\<in>set (vma_phys_areas v). within pa_size m (pa_base (snd p)) (pa_size (snd p))"
  obtains h l cs m' where "om_floor (vma_phys_areas v) (a - k) = Some h" "om_from (vma_phys_areas v) h = l"
    "chunks l (a - k) s = cs" "window l h (vma_size v) (a - k) s" "\<forall>p\<in>set l. backing_ok (fst p) (snd p)"
    "retag_all (set_dma t) cs m = Some m'" "gives_back m (released (vma_map mm) T a s) t m'"
    "finite (released (vma_map mm) T a s)" "card (released (vma_map mm) T a s) = s" "sum_list (map snd cs) = s"
proof -
  have wf: "vma_wf (vma_map mm)" using inv vma_wf_in_wf by (auto simp: mm_inv_def)
  have "vma_ok k v" using ivl_wf_ok [OF wf mem] by simp
  then have bw: "backing_wf (vma_phys_areas v) (vma_size v)" using hb by (simp add: vma_ok_def)
  have n: "a - k + s \<le> vma_size v" using a by simp
  obtain h l where h: "om_floor (vma_phys_areas v) (a - k) = Some h" "om_from (vma_phys_areas v) h = l"
      and w: "window l h (vma_size v) (a - k) s" "max h (a - k) = a - k" "set l \<subseteq> set (vma_phys_areas v)"
      and br: "backing_range l (a - k) (a - k + s) = backing_range (vma_phys_areas v) (a - k) (a - k + s)"
      and inj: "backing_inj (vma_phys_areas v) \<longrightarrow> backing_inj l"
    by (rule backing_windowE [OF bw a(2) n])
  define cs where "cs = chunks l (a - k) s"
  note sp = chunks_spec [OF w(1), folded cs_def, unfolded w(2)]
  have rel: "run_bytes cs = released (vma_map mm) T a s"
    using sp br released_at [OF wf mem a(1,3)] T(1) by simp
  have disj: "runs_disj cs"
    unfolding cs_def using inj no_alias_inj [OF wf mem T(2,1) hb] by (intro chunks_disj [OF w(1)]) blast
  have ri: "runs_in m cs"
    unfolding runs_in_def
  proof (intro ballI conjI)
    fix c assume c: "c \<in> set cs"
    then show "0 < snd c" using sp by blast
    from c obtain p where "p \<in> set l" "pa_base (snd p) \<le> fst c" "fst c + snd c \<le> pa_base (snd p) + pa_size (snd p)"
      using sp by blast
    then show "within pa_size m (fst c) (snd c)" using m(2) w(3) within_sub by blast
  qed
  obtain m' where r: "retag_all (set_dma t) cs m = Some m'" "phys_wf m'"
    "\<forall>x. phys_view m' x = (if x \<in> run_bytes cs then map_option (map_prod (\<lambda>_. t) id) (phys_view m x) else phys_view m x)"
    "\<forall>lo hi. ivl_contig pa_size m lo hi \<longrightarrow> ivl_contig pa_size m' lo hi"
    "\<forall>b t. within pa_size m b t \<longrightarrow> 0 < t \<longrightarrow> {b..<b + t} \<inter> run_bytes cs = {} \<longrightarrow> within pa_size m' b t"
    using retag_all_ok [OF m(1) ri disj set_dma_update [of t]] by (elim exE conjE) (rule that)
  have gb: "gives_back m (released (vma_map mm) T a s) t m'"
    using r unfolding gives_back_def retyped_def rel by blast
  have card: "finite (released (vma_map mm) T a s)" "card (released (vma_map mm) T a s) = s"
    using card_run_bytes [OF disj] sp unfolding rel [symmetric] by auto
  have bok: "\<forall>p\<in>set l. backing_ok (fst p) (snd p)" using w(3) backing_wfD(4) [OF bw] by blast
  show thesis using that [OF h cs_def [symmetric] w(1) bok r(1) gb card] sp by blast
qed

text \<open>The part of \<^verbatim>\<open>UnmapBytesFromEntry\<close> that gives the physical memory back.\<close>

lemma release_entry:
  assumes inv: "mm_inv mm" and mem: "(k, v) \<in> set (vma_map mm)" and a: "k \<le> a" "0 < s" "a + s \<le> k + vma_size v"
    and ty: "vma_type v \<noteq> VPooled"
  obtains d' f' u tr where
    "(if vma_phys_areas v \<noteq> [] then do {
        phys_handle \<leftarrow> om_floor (vma_phys_areas v) (a - k);
        (left, mm') \<leftarrow> unmap_phys_loop (om_from (vma_phys_areas v) phys_handle) (a - k) s (vma_type v) mm;
        assert_opt (left = 0);
        Some mm'
      } else Some mm) = Some (mm\<lparr>dmem_map := d', fmem_map := f', flexible_usage := u, trace := tr\<rparr>)"
    "gives_back (dmem_map mm) (released (vma_map mm) {VDirect} a s) PAllocated d'"
    "gives_back (fmem_map mm) (released (vma_map mm) {VFlexible} a s) PFree f'"
    "u = card (used_flexible f')"
proof -
  have wf: "vma_wf (vma_map mm)" and pwf: "phys_wf (dmem_map mm)" "phys_wf (fmem_map mm)"
    and usage: "flexible_usage mm = card (used_flexible (fmem_map mm))"
    and na: "no_alias (vma_map mm) {VDirect, VPooled}" "no_alias (vma_map mm) {VFlexible}"
    using inv vma_wf_in_wf by (auto simp: mm_inv_def)
  have "vma_in (dmem_map mm) (fmem_map mm) k v"
    using inv ivl_wf_ok [OF _ mem] unfolding mm_inv_def by blast
  then have ok: "vma_ok k v" and bk: "\<forall>p\<in>set (vma_phys_areas v). backed (dmem_map mm) (fmem_map mm) (vma_type v) (snd p)"
    by (auto simp: vma_in_def)
  note rel = released_at [OF wf mem a(1,3)]
  have lim: "vma_size v < U64_MOD" using ok by (simp add: vma_ok_def)
  have mm_id: "mm = mm\<lparr>dmem_map := dmem_map mm, fmem_map := fmem_map mm, flexible_usage := flexible_usage mm, trace := trace mm\<rparr>"
    by simp
  consider "\<not> HasPhysicalBacking v" | "vma_type v = VDirect" | "vma_type v = VFlexible"
    using ty by (auto simp: HasPhysicalBacking_def)
  then show thesis
  proof cases
    case 1
    then have "vma_phys_areas v = []" "vma_type v \<noteq> VDirect" "vma_type v \<noteq> VFlexible"
      using ok by (auto simp: vma_ok_def HasPhysicalBacking_def)
    then show thesis
      using gives_back_refl pwf rel usage mm_id by (intro that [of "trace mm" _ "fmem_map mm" "dmem_map mm"]) auto
  next
    case 2
    have hb: "HasPhysicalBacking v" using 2 by (simp add: HasPhysicalBacking_def)
    have na': "no_alias (vma_map mm) {VDirect}" using na(1) by (auto simp: no_alias_def mapped_to_def)
    have wi: "\<forall>p\<in>set (vma_phys_areas v). within pa_size (dmem_map mm) (pa_base (snd p)) (pa_size (snd p))"
      using bk 2 by (simp add: backed_def)
    obtain h l cs d' where h: "om_floor (vma_phys_areas v) (a - k) = Some h" "om_from (vma_phys_areas v) h = l"
        "chunks l (a - k) s = cs" "window l h (vma_size v) (a - k) s" "\<forall>p\<in>set l. backing_ok (fst p) (snd p)"
        "retag_all (set_dma PAllocated) cs (dmem_map mm) = Some d'"
      and gb: "gives_back (dmem_map mm) (released (vma_map mm) {VDirect} a s) PAllocated d'"
      by (rule entry_runsE [OF inv mem a hb _ na' pwf(1) wi]) (use 2 in simp, rule that)
    have ne: "vma_phys_areas v \<noteq> []" using h(1) by auto
    have "unmap_phys_loop l (a - k) s VDirect mm = Some (0, mm\<lparr>dmem_map := d'\<rparr>)"
      using unmap_phys_loop_chunks [OF h(4) lim h(5)] h(3,6) by (simp add: release_all_direct)
    moreover have "gives_back (fmem_map mm) (released (vma_map mm) {VFlexible} a s) PFree (fmem_map mm)"
      using gives_back_refl pwf(2) rel 2 by simp
    ultimately show thesis
      using ne h(1,2) 2 gb usage by (intro that [of "trace mm" _ "fmem_map mm" d']) auto
  next
    case 3
    have hb: "HasPhysicalBacking v" using 3 by (simp add: HasPhysicalBacking_def)
    have wi: "\<forall>p\<in>set (vma_phys_areas v). within pa_size (fmem_map mm) (pa_base (snd p)) (pa_size (snd p))"
      using bk 3 by (simp add: backed_def)
    obtain h l cs f' where h: "om_floor (vma_phys_areas v) (a - k) = Some h" "om_from (vma_phys_areas v) h = l"
        "chunks l (a - k) s = cs" "window l h (vma_size v) (a - k) s" "\<forall>p\<in>set l. backing_ok (fst p) (snd p)"
        "retag_all (set_dma PFree) cs (fmem_map mm) = Some f'"
      and gb: "gives_back (fmem_map mm) (released (vma_map mm) {VFlexible} a s) PFree f'"
      and card: "finite (released (vma_map mm) {VFlexible} a s)" "card (released (vma_map mm) {VFlexible} a s) = s"
      and sum: "sum_list (map snd cs) = s"
      by (rule entry_runsE [OF inv mem a hb _ na(2) pwf(2) wi]) (use 3 in simp, rule that)
    let ?R = "released (vma_map mm) {VFlexible} a s"
    have sub: "?R \<subseteq> used_flexible (fmem_map mm)"
      using inv by (fastforce simp: released_def mapped_to_def used_flexible_def mm_inv_def kinds_agree_def)
    have "used_flexible f' = used_flexible (fmem_map mm) - ?R"
      using gb by (auto simp: used_flexible_def gives_back_def retyped_def split: if_splits)
    then have u: "card (used_flexible f') = flexible_usage mm - s"
      using card_Diff_subset [OF card(1) sub] card(2) usage by simp
    have le: "sum_list (map snd cs) \<le> flexible_usage mm" "flexible_usage mm < U64_MOD"
      using sum usage card(2) card_mono [OF _ sub] finite_used [OF pwf(2)] by auto
    obtain tr where "release_all VFlexible cs mm = Some (mm\<lparr>fmem_map := f', flexible_usage := flexible_usage mm - s, trace := tr\<rparr>)"
      using release_all_flexible [OF le h(6)] sum by auto
    then have "unmap_phys_loop l (a - k) s VFlexible mm =
        Some (0, mm\<lparr>fmem_map := f', flexible_usage := flexible_usage mm - s, trace := tr\<rparr>)"
      using unmap_phys_loop_chunks [OF h(4) lim h(5)] h(3) by simp
    moreover have "gives_back (dmem_map mm) (released (vma_map mm) {VDirect} a s) PAllocated (dmem_map mm)"
      using gives_back_refl pwf(1) rel 3 by simp
    moreover have "vma_phys_areas v \<noteq> []" using h(1) by auto
    ultimately show thesis
      using h(1,2) 3 gb u by (intro that [of tr _ f' "dmem_map mm"]) auto
  qed
qed

section \<open>The invariant with the sizes of the physical maps\<close>

definition flex_ok :: "PhysMap \<Rightarrow> u64 \<Rightarrow> bool" where
  "flex_ok f tot \<longleftrightarrow> (\<forall>y k. phys_view f y = Some k \<longrightarrow> fst k = PFree \<or> fst k = PFlexible)
     \<and> tot \<le> card {y. phys_view f y \<noteq> None}"

definition mm_ok :: "MemoryManager \<Rightarrow> bool" where
  "mm_ok mm \<longleftrightarrow> mm_inv mm \<and> ivl_contig pa_size (dmem_map mm) 0 (total_direct_size mm)
     \<and> flex_ok (fmem_map mm) (total_flexible_size mm)"

lemma flex_ok_retyped:
  assumes "flex_ok f n" "retyped f S t f'" "t = PFree \<or> t = PFlexible"
  shows "flex_ok f' n"
proof -
  have v: "phys_view f' y = (if y \<in> S then map_option (map_prod (\<lambda>_. t) id) (phys_view f y) else phys_view f y)" for y
    using assms(2) by (simp add: retyped_def)
  have "phys_view f' y \<noteq> None \<longleftrightarrow> phys_view f y \<noteq> None" for y by (simp add: v del: not_None_eq)
  moreover have "fst k = PFree \<or> fst k = PFlexible" if "phys_view f' y = Some k" for y k
    using that assms(1,3) unfolding v flex_ok_def by (cases k) (auto split: if_splits)
  ultimately show ?thesis using assms(1) by (simp add: flex_ok_def)
qed

lemma mm_ok_unmapped:
  assumes "mm_ok mm" "mm_inv mm'" "unmapped mm a s mm'"
  shows "mm_ok mm'"
  using assms flex_ok_retyped unfolding mm_ok_def unmapped_def same_config_def by auto

lemma mm_ok_cong:
  assumes "mm_ok mm" "dmem_map mm' = dmem_map mm" "fmem_map mm' = fmem_map mm" "vma_map mm' = vma_map mm"
    "flexible_usage mm' = flexible_usage mm" "total_direct_size mm' = total_direct_size mm"
    "total_flexible_size mm' = total_flexible_size mm"
  shows "mm_ok mm'"
  using assms by (simp add: mm_ok_def mm_inv_def)

end
