(* ===== verification/Unmap_Correct.thy ===== *)
theory Unmap_Correct
  imports Release_Memory
begin

text \<open>
  \<^verbatim>\<open>UnmapMemory\<close> (\<^verbatim>\<open>src/core/memory.cpp\<close>): its loop ends, no assertion fails, and it keeps the invariant of
  the manager.
\<close>

section \<open>Unmapping from one area and in a loop\<close>

lemma vma_wf_inv: "mm_inv mm \<Longrightarrow> vma_wf (vma_map mm)"
  unfolding mm_inv_def by (blast intro: vma_wf_in_wf)

text \<open>\<^verbatim>\<open>UnmapBytesFromEntry\<close> on the area that contains the address.\<close>

lemma unmap_entry_ok:
  assumes inv: "mm_inv mm" and mem: "(k, v) \<in> set (vma_map mm)" and a: "k \<le> a" "a < k + vma_size v"
    and n: "0 < n"
  obtains mm' where "UnmapBytesFromEntry a v n mm = Some (min (k + vma_size v - a) n, mm')" "mm_inv mm'"
    "unmapped mm a (min (k + vma_size v - a) n) mm'"
    "vma_type v \<noteq> VPooled \<Longrightarrow> within vma_size (vma_map mm') a (min (k + vma_size v - a) n)"
proof -
  define s where "s = min (k + vma_size v - a) n"
  have s: "0 < s" "a + s \<le> k + vma_size v" using a n by (auto simp: s_def)
  note wf = vma_wf_inv [OF inv]
  have ok: "vma_ok k v" using ivl_wf_ok [OF wf mem] by simp
  then have kb: "vma_base v = k" "k + vma_size v < U64_MOD" by (auto simp: vma_ok_def)
  have st: "sub64 a (vma_base v) = a - k" "sub64 (vma_size v) (a - k) = k + vma_size v - a"
    using a kb by auto
  have vw: "vma_view (vma_map mm) x = Some (vma_byte v (x - k))" if "a \<le> x" "x < a + s" for x
    using vma_byte_at [OF wf mem, of "x - k"] that a s by simp
  show thesis
  proof (cases "vma_type v = VFree \<or> vma_type v = VPooled")
    case True
    then have "UnmapBytesFromEntry a v n mm = Some (s, mm)"
      unfolding UnmapBytesFromEntry_def Let_def st s_def by simp
    moreover have "unmapped mm a s mm"
      using True released_at [OF wf mem a(1) s(2)]
      by (auto simp: unmapped_def same_config_refl retyped_empty vw vma_byte_def unmap_byte_def)
    moreover have "within vma_size (vma_map mm) a s" using mem a(1) s(2) by (force simp: within_def)
    ultimately show thesis using that inv unfolding s_def by blast
  next
    case False
    then have np: "vma_type v \<noteq> VPooled" by simp
    obtain d' f' u tr where
      rel: "(if vma_phys_areas v \<noteq> [] then do {
        phys_handle \<leftarrow> om_floor (vma_phys_areas v) (a - k);
        (left, mm') \<leftarrow> unmap_phys_loop (om_from (vma_phys_areas v) phys_handle) (a - k) s (vma_type v) mm;
        assert_opt (left = 0);
        Some mm'
      } else Some mm) = Some (mm\<lparr>dmem_map := d', fmem_map := f', flexible_usage := u, trace := tr\<rparr>)"
      and gd: "gives_back (dmem_map mm) (released (vma_map mm) {VDirect} a s) PAllocated d'"
      and gf: "gives_back (fmem_map mm) (released (vma_map mm) {VFlexible} a s) PFree f'"
      and u: "u = card (used_flexible f')"
      by (rule release_entry [OF inv mem a(1) s np])
    have wfin: "vma_wf_in (dmem_map mm) (fmem_map mm) (vma_map mm)" using inv by (simp add: mm_inv_def)
    obtain m' h v' where rt: "retag_vma make_free (vma_map mm) a s = Some (m', h)"
      and wf': "vma_wf_in (dmem_map mm) (fmem_map mm) m'"
      and view: "\<forall>x. vma_view m' x = (if a \<le> x \<and> x < a + s then map_option (\<lambda>_. free_byte) (vma_view (vma_map mm) x)
          else vma_view (vma_map mm) x)"
      and hv: "(h, v') \<in> set m'" "h \<le> a" "a + s \<le> h + vma_size v'"
      by (rule retag_vma_ok [OF wfin mem a(1) s, where F = make_free and G = "\<lambda>_ _. free_byte"])
        (use make_free_ok make_free_byte in blast)+
    define mm' where "mm' = (let mm2 = mm\<lparr>dmem_map := d', fmem_map := f', flexible_usage := u, trace := tr, vma_map := m'\<rparr>
      in if vma_type v \<noteq> VReserved \<and> vma_type v \<noteq> VPoolReserved then emit (HostUnmap a s) mm2 else mm2)"
    have fields: "dmem_map mm' = d'" "fmem_map mm' = f'" "vma_map mm' = m'" "flexible_usage mm' = u"
      and cfg: "same_config mm mm'"
      using gd gf by (auto simp: mm'_def Let_def emit_def same_config_def gives_back_def)
    have run: "UnmapBytesFromEntry a v n mm = Some (s, mm')"
      using False rt unfolding UnmapBytesFromEntry_def Let_def st s_def [symmetric] rel mm'_def by simp
    have inv': "mm_inv mm'"
      by (rule unmap_finish [OF inv wf' view, of d' f']) (use gd gf fields u in \<open>auto simp: gives_back_def\<close>)
    have "unmapped mm a s mm'"
      using gd gf cfg view vw False
      by (auto simp: unmapped_def fields gives_back_def unmap_byte_def vma_byte_def)
    moreover have "within vma_size (vma_map mm') a s" using hv by (force simp: within_def fields)
    ultimately show thesis using that run inv' unfolding s_def by blast
  qed
qed

text \<open>The loop of \<^verbatim>\<open>UnmapMemoryImpl\<close> runs to the end of the range.\<close>

lemma unmapped_covers:
  assumes "unmapped mm a s mm'" "covers vma_size (vma_map mm) b t"
  shows "covers vma_size (vma_map mm') b t"
proof -
  have "vma_view (vma_map mm') x = None \<longleftrightarrow> vma_view (vma_map mm) x = None" for x
    using assms(1) by (simp add: unmapped_def del: not_None_eq)
  then show ?thesis using assms(2) unfolding covers_iff [of _ _ _ _ vma_byte] by blast
qed

lemma area_at:
  assumes "mm_inv mm" "vma_view (vma_map mm) x \<noteq> None"
  obtains k v where "FindVMA mm x = Some k" "map_of (vma_map mm) k = Some v" "(k, v) \<in> set (vma_map mm)"
    "k \<le> x" "x < k + vma_size v" "k + vma_size v < U64_MOD"
proof -
  note wf = vma_wf_inv [OF assms(1)]
  obtain xs k v ys where "vma_map mm = xs @ (k, v) # ys" "k \<le> x" "x < k + vma_size v"
    "om_floor (vma_map mm) x = Some k" "map_of (vma_map mm) k = Some v" "om_from (vma_map mm) k = (k, v) # ys" "vma_ok k v"
    by (rule iview_floorE [OF wf assms(2)])
  then show thesis by (intro that [of k v]) (auto simp: FindVMA_def vma_ok_def)
qed

lemma unmap_loop_ok:
  assumes "mm_inv mm" "covers vma_size (vma_map mm) (a + u) (sz - u)" "u < sz" "a + sz < U64_MOD"
  shows "\<exists>mm'. unmap_loop a sz u mm = Some mm' \<and> mm_inv mm' \<and> unmapped mm (a + u) (sz - u) mm'"
  using assms
proof (induction "sz - u" arbitrary: u mm rule: less_induct)
  case less
  have x: "add64 a u = a + u" "sub64 sz u = sz - u" using less.prems by auto
  obtain k v where kv: "FindVMA mm (a + u) = Some k" "map_of (vma_map mm) k = Some v" "(k, v) \<in> set (vma_map mm)"
    "k \<le> a + u" "a + u < k + vma_size v"
    by (rule area_at [OF less.prems(1) coversD [OF less.prems(2), of "a + u" vma_byte]]) (use less.prems(3) in auto)
  have n: "0 < sz - u" using less.prems(3) by simp
  define t where "t = min (k + vma_size v - (a + u)) (sz - u)"
  have t: "0 < t" "u + t \<le> sz" using kv(5) less.prems(3) by (auto simp: t_def)
  obtain mm1 where r: "UnmapBytesFromEntry (a + u) v (sz - u) mm = Some (t, mm1)" "mm_inv mm1"
    "unmapped mm (a + u) t mm1"
    unfolding t_def by (rule unmap_entry_ok [OF less.prems(1) kv(3-5) n])
  have ut: "add64 u t = u + t" using t less.prems(4) by simp
  note unf = unmap_loop.simps [of a sz u mm]
  show ?case
  proof (cases "u + t < sz")
    case True
    have "covers vma_size (vma_map mm) (a + (u + t)) (sz - (u + t))"
      using less.prems(2) True by (simp add: covers_def)
    then have "covers vma_size (vma_map mm1) (a + (u + t)) (sz - (u + t))"
      by (rule unmapped_covers [OF r(3)])
    moreover have "sz - (u + t) < sz - u" using t True by simp
    ultimately obtain mm' where IH: "unmap_loop a sz (u + t) mm1 = Some mm'" "mm_inv mm'"
      "unmapped mm1 (a + (u + t)) (sz - (u + t)) mm'"
      using less.hyps r(2) True less.prems(4) by blast
    have "unmapped mm (a + u) (t + (sz - (u + t))) mm'"
      using r(3) IH(3) by (intro unmapped_trans) (auto simp: add.assoc)
    moreover have "t + (sz - (u + t)) = sz - u" using True by simp
    ultimately show ?thesis
      using IH True t kv(1,2) r(1) unfolding unf x by (simp add: ut)
  next
    case False
    then have e: "t = sz - u" using t by simp
    show ?thesis
      using r(1,2) r(3) [unfolded e] t(1) kv(1,2) False unfolding unf x by (simp add: ut)
  qed
qed

section \<open>The whole call\<close>

lemma covers_bound:
  assumes wf: "vma_wf m" and c: "covers vma_size m a s" and s: "0 < s"
  shows "a + s < U64_MOD"
proof -
  have "vma_view m (a + s - 1) \<noteq> None" by (rule coversD [OF c]) (use s in auto)
  then obtain b where "vma_view m (a + s - 1) = Some b" by auto
  then obtain k v where "(k, v) \<in> set m" "k \<le> a + s - 1" "a + s - 1 < k + vma_size v"
    by (rule iview_SomeE)
  then show ?thesis using ivl_wf_ok [OF wf] by (fastforce simp: vma_ok_def)
qed

lemma assert_valid_cov:
  assumes wf: "vma_wf (vma_map mm)" and s: "0 < s" and c: "covers vma_size (vma_map mm) a s"
  shows "assert_valid mm a s = Some ()"
proof -
  have "vma_view (vma_map mm) a \<noteq> None" by (rule coversD [OF c]) (use s in auto)
  then show ?thesis using IsValidMapping_cov [OF wf] covers_bound [OF wf c s] c by (simp add: assert_valid_def)
qed

lemma UnmapMemoryImpl_ok:
  assumes inv: "mm_inv mm" and c: "covers vma_size (vma_map mm) a s" and s: "0 < s"
  obtains mm' where "UnmapMemoryImpl a s mm = Some (ORBIS_OK, mm')" "mm_inv mm'" "unmapped mm a s mm'"
  using unmap_loop_ok [OF inv, of a 0 s] c s covers_bound [OF vma_wf_inv [OF inv] c s]
  unfolding UnmapMemoryImpl_def by (auto intro: that)

lemma early_gpu_unmap_ok:
  assumes "rasterizer mm"
  obtains tr where "early_gpu_unmap a s mm = Some (mm\<lparr>trace := tr\<rparr>)"
proof (cases "IsValidGpuMapping a s")
  case True
  then show thesis using assms by (intro that [of "trace mm @ [GpuUnmap a s]"]) (simp add: early_gpu_unmap_def gpu_call_def emit_def)
next
  case False
  then show thesis by (intro that [of "trace mm"]) (simp add: early_gpu_unmap_def)
qed

section \<open>An example state with a mapping\<close>

definition demo_mapped :: MemoryManager where
  "demo_mapped = demo_mm\<lparr>rasterizer := True,
     dmem_map := [(0, \<lparr>pa_base = 0, pa_size = 0x8000, pa_memory_type = 3, pa_dma_type = PMapped\<rparr>),
                  (0x8000, free_phys 0x8000 0x1EFFF8000)],
     vma_map := [(0x400000, \<lparr>vma_base = 0x400000, vma_size = 0x8000,
                    vma_phys_areas = [(0, \<lparr>pa_base = 0, pa_size = 0x8000, pa_memory_type = 3, pa_dma_type = PMapped\<rparr>)],
                    vma_type = VDirect, vma_prot = 3, vma_name = ''anon'', vma_fd = 0, vma_disallow_merge = False\<rparr>),
                 (0x408000, free_vma 0x408000 0x7FFBF8000)]\<rparr>"

lemma demo_mapped_simps:
  "dmem_map demo_mapped = [(0, \<lparr>pa_base = 0, pa_size = 0x8000, pa_memory_type = 3, pa_dma_type = PMapped\<rparr>),
                  (0x8000, free_phys 0x8000 0x1EFFF8000)]"
  "fmem_map demo_mapped = [(0x1F0000000, free_phys 0x1F0000000 0x20000000)]"
  "vma_map demo_mapped = [(0x400000, \<lparr>vma_base = 0x400000, vma_size = 0x8000,
                    vma_phys_areas = [(0, \<lparr>pa_base = 0, pa_size = 0x8000, pa_memory_type = 3, pa_dma_type = PMapped\<rparr>)],
                    vma_type = VDirect, vma_prot = 3, vma_name = ''anon'', vma_fd = 0, vma_disallow_merge = False\<rparr>),
                 (0x408000, free_vma 0x408000 0x7FFBF8000)]"
  "rasterizer demo_mapped" "flexible_usage demo_mapped = 0"
  by (simp_all add: demo_mapped_def demo_mm_def MemoryManager_init_def Let_def)

lemma demo_mapped_inv: "mm_inv demo_mapped"
proof -
  have a: "no_alias (vma_map demo_mapped) T" for T
    by (auto simp: no_alias_def mapped_to_def demo_mapped_simps vma_byte_def backing_byte_def free_vma_def split: if_splits)
  have k: "kinds_agree (dmem_map demo_mapped) (fmem_map demo_mapped) (vma_map demo_mapped)"
    by (auto simp: kinds_agree_def demo_mapped_simps vma_byte_def backing_byte_def free_vma_def phys_kind_def split: if_splits)
  have u: "used_flexible (fmem_map demo_mapped) = {}"
    by (auto simp: used_flexible_def demo_mapped_simps phys_kind_def free_phys_def split: if_splits)
  have w: "phys_wf (dmem_map demo_mapped)" "phys_wf (fmem_map demo_mapped)"
    by (simp_all add: demo_mapped_simps phys_ok_def free_phys_def)
  have "vma_wf_in (dmem_map demo_mapped) (fmem_map demo_mapped) (vma_map demo_mapped)"
    by (simp add: demo_mapped_simps vma_in_def vma_ok_def HasPhysicalBacking_def backing_wf_def backing_ok_def
        backed_def within_def free_vma_def)
  with a k u w show ?thesis by (simp add: mm_inv_def demo_mapped_simps)
qed

lemma demo_flex: "flex_ok [(0x1F0000000, free_phys 0x1F0000000 0x20000000)] 0x20000000"
proof -
  have "{y. phys_view [(0x1F0000000, free_phys 0x1F0000000 0x20000000)] y \<noteq> None} = {0x1F0000000..<0x210000000}"
    by (auto simp: free_phys_def)
  then show ?thesis by (auto simp: flex_ok_def free_phys_def phys_kind_def simp del: not_None_eq split: if_splits)
qed

lemma demo_mapped_ok: "mm_ok demo_mapped"
  using demo_mapped_inv demo_flex
  by (simp add: mm_ok_def demo_mapped_simps free_phys_def)
    (simp add: demo_mapped_def demo_mm_def MemoryManager_init_def Let_def)

lemma UnmapMemory_ok:
  fixes v n :: u64
  defines "a \<equiv> AlignDown v KB16" and "s \<equiv> AlignUp n KB16"
  assumes ok: "mm_ok mm" and gpu: "rasterizer mm" and n: "0 < n" "n + KB16 \<le> U64_MOD"
    and cov: "\<forall>x. a \<le> x \<and> x < a + s \<longrightarrow> vma_view (vma_map mm) x \<noteq> None"
  shows "\<exists>mm'. UnmapMemory v n mm = Some (ORBIS_OK, mm') \<and> mm_ok mm'
     \<and> mapping_generation mm' = add64 (add64 (mapping_generation mm) 1) 1
     \<and> (\<forall>x. vma_view (vma_map mm') x =
          (if a \<le> x \<and> x < a + s then map_option unmap_byte (vma_view (vma_map mm) x) else vma_view (vma_map mm) x))
     \<and> retyped (dmem_map mm) (released (vma_map mm) {VDirect} a s) PAllocated (dmem_map mm')
     \<and> retyped (fmem_map mm) (released (vma_map mm) {VFlexible} a s) PFree (fmem_map mm')"
proof -
  have inv: "mm_inv mm" using ok by (simp add: mm_ok_def)
  have c: "covers vma_size (vma_map mm) a s" using cov by (simp add: covers_iff [of _ _ _ _ vma_byte])
  have s: "0 < s" using AlignUp_ge [OF _ n(2)] n(1) by (simp add: s_def)
  obtain tr where e: "early_gpu_unmap a s mm = Some (mm\<lparr>trace := tr\<rparr>)" by (rule early_gpu_unmap_ok [OF gpu])
  define mm1 where "mm1 = BeginMutation (mm\<lparr>trace := tr\<rparr>)"
  have m1: "dmem_map mm1 = dmem_map mm" "fmem_map mm1 = fmem_map mm" "vma_map mm1 = vma_map mm"
    "flexible_usage mm1 = flexible_usage mm" "mapping_generation mm1 = add64 (mapping_generation mm) 1"
    by (simp_all add: mm1_def BeginMutation_def)
  have ok1: "mm_ok mm1" by (rule mm_ok_cong [OF ok]) (simp_all add: mm1_def BeginMutation_def)
  then have inv1: "mm_inv mm1" by (simp add: mm_ok_def)
  obtain mm2 where r: "UnmapMemoryImpl a s mm1 = Some (ORBIS_OK, mm2)" "mm_inv mm2" "unmapped mm1 a s mm2"
    by (rule UnmapMemoryImpl_ok [OF inv1 _ s, of a]) (use c m1 in auto)
  have eq: "UnmapMemory v n mm = Some (ORBIS_OK, FinishMutation mm2)"
    using n(1) assert_valid_cov [OF vma_wf_inv [OF inv] s c] e r(1)
    by (simp add: UnmapMemory_def Let_def a_def s_def mm1_def)
  have "mm_ok (FinishMutation mm2)"
    by (rule mm_ok_cong [OF mm_ok_unmapped [OF ok1 r(2,3)]]) (simp_all add: FinishMutation_def)
  with eq r(3) show ?thesis by (simp add: unmapped_def same_config_def m1 FinishMutation_def)
qed

text \<open>
  The address is aligned down and the size is aligned up on its own, so that a range that starts inside a page loses its
  last page when it reaches into it by no more than it leaves out of the first: of the range from \<open>0x401000\<close> to \<open>0x405000\<close>
  the page at \<open>0x404000\<close> stays mapped.
\<close>

lemma UnmapMemory_misses_page:
  "\<exists>mm'. UnmapMemory 0x401000 0x4000 demo_mapped = Some (ORBIS_OK, mm')
     \<and> vma_view (vma_map mm') 0x404000 = Some (VDirect, 3, ''anon'', False, Some (0x4000, 3, PMapped))"
proof -
  have al: "AlignDown 0x401000 KB16 = 0x400000" "AlignUp 0x4000 KB16 = 0x4000"
    by (simp_all add: AlignDown_def AlignUp_def Let_def)
  have cov: "\<forall>x. AlignDown 0x401000 KB16 \<le> x \<and> x < AlignDown 0x401000 KB16 + AlignUp 0x4000 KB16
      \<longrightarrow> vma_view (vma_map demo_mapped) x \<noteq> None"
    by (simp add: demo_mapped_simps al)
  have at: "vma_view (vma_map demo_mapped) 0x404000 = Some (VDirect, 3, ''anon'', False, Some (0x4000, 3, PMapped))"
    by (simp add: demo_mapped_simps vma_byte_def backing_byte_def)
  show ?thesis
    using UnmapMemory_ok [OF demo_mapped_ok demo_mapped_simps(4) _ _ cov] by (auto simp: al at)
qed

text \<open>
  C2.  \<^verbatim>\<open>UnmapMemory\<close>, with a rasterizer attached: let \<open>a\<close> be the address aligned down and \<open>s\<close> the size aligned up to 16 KiB, and let all
  pages from \<open>a\<close> to \<open>a + s\<close> lie in areas.  The call returns success (every loop ends and no assertion fails), the
  invariant of the manager holds again, and exactly the bytes from \<open>a\<close> to \<open>a + s\<close> change: they
  become free, except the bytes that were pooled; the physical bytes behind
  their direct mappings go back to the allocated state and those behind their flexible mappings to the free state, and
  the generation counter has advanced by two.  These are all pages of the requested range when its address is a multiple of 16 KiB;
  otherwise the last page of the range may be left out (\<open>UnmapMemory_misses_page\<close>).
\<close>

theorem UnmapMemory_correct:
  fixes v n :: u64
  defines "a \<equiv> AlignDown v KB16" and "s \<equiv> AlignUp n KB16"
  assumes ok: "mm_ok mm" and gpu: "rasterizer mm" and n: "0 < n" "n + KB16 \<le> U64_MOD"
    and cov: "\<forall>x. a \<le> x \<and> x < a + s \<longrightarrow> vma_view (vma_map mm) x \<noteq> None"
  shows "\<exists>mm'. UnmapMemory v n mm = Some (ORBIS_OK, mm') \<and> mm_ok mm'
     \<and> mapping_generation mm' = add64 (add64 (mapping_generation mm) 1) 1
     \<and> (\<forall>x. vma_view (vma_map mm') x =
          (if a \<le> x \<and> x < a + s then map_option unmap_byte (vma_view (vma_map mm) x) else vma_view (vma_map mm) x))
     \<and> retyped (dmem_map mm) (released (vma_map mm) {VDirect} a s) PAllocated (dmem_map mm')
     \<and> retyped (fmem_map mm) (released (vma_map mm) {VFlexible} a s) PFree (fmem_map mm')"
  unfolding a_def s_def by (rule UnmapMemory_ok [OF ok gpu n cov [unfolded a_def s_def]])

theorem UnmapMemory_correct_witness:
  "\<exists>mm'. UnmapMemory 0x405000 0x3000 demo_mapped = Some (ORBIS_OK, mm') \<and> vma_view (vma_map mm') 0x404000 = Some free_byte"
proof -
  have al: "AlignDown 0x405000 KB16 = 0x404000" "AlignUp 0x3000 KB16 = 0x4000"
    by (simp_all add: AlignDown_def AlignUp_def Let_def)
  have cov: "\<forall>x. 0x404000 \<le> x \<and> x < 0x404000 + 0x4000 \<longrightarrow> vma_view (vma_map demo_mapped) x \<noteq> None"
    by (simp add: demo_mapped_simps)
  have at: "vma_view (vma_map demo_mapped) 0x404000 = Some (VDirect, 3, ''anon'', False, Some (0x4000, 3, PMapped))"
    by (simp add: demo_mapped_simps vma_byte_def backing_byte_def)
  show ?thesis
    using UnmapMemory_correct [where n = "0x3000" and v = "0x405000", unfolded al, OF demo_mapped_ok demo_mapped_simps(4) _ _ cov]
    by (auto simp: at unmap_byte_def)
qed

end
