(* ===== verification/Take_Memory.thy ===== *)
theory Take_Memory
  imports Release_Memory
begin

text \<open>
  The loops of \<^verbatim>\<open>MapMemory\<close> that take physical memory for a new area: they end, they take exactly the
  memory asked for, and the physical areas they record are runs that lie in one element of the physical
  map each.
\<close>

lemma ivl_wf_disj:
  assumes "ivl_wf len ok m" "(p, vp) \<in> set m" "(k, v) \<in> set m" "p < k"
  shows "p + len vp \<le> k"
  using assms by (induction m) fastforce+

section \<open>Neighbours of the same kind are joined\<close>

context merging
begin

text \<open>When the element before the given one can be merged with it, the two end up in one element.\<close>

lemma merge_joins:
  assumes wf: "ivl_wf len ok (xs @ (p, vp) # (k, v) # ys)" and t: "touching (xs @ (p, vp) # (k, v) # ys)"
    and can: "\<And>w. ok k w \<Longrightarrow> len v \<le> len w \<Longrightarrow> content w 0 = content v 0 \<Longrightarrow> can vp w = Some True"
    and r: "ivl_merge can join (xs @ (p, vp) # (k, v) # ys) k = Some (m', k')"
  shows "within len m' p (len vp + len v)"
proof -
  let ?xs = "xs @ [(p, vp)]"
  have wf': "ivl_wf len ok (?xs @ (k, v) # ys)" and t': "touching (?xs @ (k, v) # ys)" using wf t by simp_all
  obtain v1 ys1 where n: "(case om_next (?xs @ (k, v) # ys) k of
        None \<Rightarrow> Some (?xs @ (k, v) # ys)
      | Some k' \<Rightarrow> do {
          v' \<leftarrow> map_of (?xs @ (k, v) # ys) k';
          b \<leftarrow> can v v';
          Some (if b then om_erase k' (om_put k (join v v') (?xs @ (k, v) # ys))
                else ?xs @ (k, v) # ys) })
     = Some (?xs @ (k, v1) # ys1)"
    and co: "coarsens (?xs @ (k, v) # ys) (?xs @ (k, v1) # ys1)" and l1: "len v \<le> len v1"
    by (rule merge_next [OF wf' t'])
  have wf1: "ivl_wf len ok (?xs @ (k, v1) # ys1)"
    and vw: "iview len content (?xs @ (k, v1) # ys1) = iview len content (?xs @ (k, v) # ys)"
    using coarsens_same [OF co] by (auto simp: same_map_def)
  note om = ivl_wf_om_wf [OF wf'] and om1 = ivl_wf_om_wf [OF wf1]
  have t1: "touching (?xs @ (k, v1) # ys1)" by (rule touching_same [OF t' coarsens_same [OF co]])
  have oks: "ok p vp" "ok k v1" "0 < len v" "0 < len v1" using wf wf1 by (auto simp: ivl_wf_append)
  have "content v1 0 = content v 0"
    using iview_mid [OF wf1, of k content] iview_mid [OF wf', of k content] vw oks by simp
  then have c: "can vp v1 = Some True" using can oks(2) l1 by blast
  have t2: "touching (xs @ (p, vp) # (k, v1) # ys1)" using t1 by simp
  have adj: "k = p + len vp" using touchingD [OF t2 oks(1,2) c] .
  have len: "len (join vp v1) = len vp + len v1" using join_len [OF oks(1) _ c] oks(2) adj by simp
  have pr: "om_prev (?xs @ (k, v1) # ys1) k = Some p" using om_prev_at [OF om1] by simp
  have om2: "om_wf (xs @ (p, vp) # (k, v1) # ys1)" using om1 by simp
  have lk: "map_of (?xs @ (k, v1) # ys1) p = Some vp" using map_of_at [OF om2] by simp
  have pt: "om_put p (join vp v1) (?xs @ (k, v1) # ys1) = (xs @ [(p, join vp v1)]) @ (k, v1) # ys1"
    using om_put_at [OF om2] by simp
  have om3: "om_wf ((xs @ [(p, join vp v1)]) @ (k, v1) # ys1)" using om2 by (simp add: om_wf_append)
  have er: "om_erase k ((xs @ [(p, join vp v1)]) @ (k, v1) # ys1) = xs @ (p, join vp v1) # ys1"
    using om_erase_at [OF om3] by simp
  have "(do { vp' \<leftarrow> map_of (?xs @ (k, v1) # ys1) p; b \<leftarrow> can vp' v1;
          Some (if b then (om_erase k (om_put p (join vp' v1) (?xs @ (k, v1) # ys1)), p)
                else (?xs @ (k, v1) # ys1, k)) }) = Some (xs @ (p, join vp v1) # ys1, p)"
    unfolding lk by (simp only: bind.simps c if_True pt er)
  then have "ivl_merge can join (?xs @ (k, v) # ys) k = Some (xs @ (p, join vp v1) # ys1, p)"
    unfolding ivl_merge_def map_of_at [OF om] bind.simps n map_of_at [OF om1] pr option.case .
  then have "m' = xs @ (p, join vp v1) # ys1" using r by simp
  then show ?thesis using len l1 by (simp add: within_def)
qed

end

text \<open>
  Retagging the head of an element whose predecessor touches it and has the new kind joins the two.
\<close>

lemma retag_phys_joins:
  assumes wf: "phys_wf m" and mem: "(a, v) \<in> set m" "(p, vp) \<in> set m" and s: "0 < s" "s \<le> pa_size v"
    and p: "p + pa_size vp = a" and f: "kind_update f g"
    and kind: "g (pa_dma_type v, pa_memory_type v) = (pa_dma_type vp, pa_memory_type vp)"
    and r: "retag_phys f m a s = Some (m', area, h)"
  shows "within pa_size m' p (pa_size vp + s)"
proof -
  obtain xs ys where m: "m = xs @ (p, vp) # (a, v) # ys"
  proof -
    obtain xs zs where xz: "m = xs @ (p, vp) # zs" using mem(2) by (meson split_list)
    have vp: "0 < pa_size vp" using ivl_wf_ok [OF wf mem(2)] by simp
    have "(a, v) \<in> set zs"
      using mem(1) wf p vp unfolding xz by (fastforce simp: ivl_wf_append)
    moreover have "\<forall>q\<in>set zs. a \<le> fst q" using wf p unfolding xz by (auto simp: ivl_wf_append)
    ultimately obtain ys where "zs = (a, v) # ys"
      using wf unfolding xz by (cases zs) (force simp: ivl_wf_append)+
    then show thesis using that xz by blast
  qed
  have wf0: "phys_wf ((xs @ [(p, vp)]) @ (a, v) # ys)" using wf by (simp add: m)
  obtain pre w post where c: "ivl_carve pa_size phys_parts ((xs @ [(p, vp)]) @ (a, v) # ys) a s
        = Some ((xs @ [(p, vp)]) @ pre @ (a, w) # post @ ys, a)"
    and sm: "pm.same_map ((xs @ [(p, vp)]) @ (a, v) # ys) ((xs @ [(p, vp)]) @ pre @ (a, w) # post @ ys)"
    and lw: "pa_size w = s" and cc: "ivl_contig pa_size (pre @ (a, w) # post) a (a + pa_size v)"
    by (rule pm.carve_at [OF wf0, of a s]) (use s in auto)
  have wf1: "phys_wf ((xs @ [(p, vp)]) @ pre @ (a, w) # post @ ys)"
    and vw: "phys_view ((xs @ [(p, vp)]) @ pre @ (a, w) # post @ ys) = phys_view ((xs @ [(p, vp)]) @ (a, v) # ys)"
    using sm by (auto simp: pm.same_map_def)
  have pre: "pre = []"
    using cc wf1 by (cases pre) (auto simp: ivl_wf_append)
  let ?m1 = "xs @ (p, vp) # (a, w) # post @ ys"
  have wf2: "phys_wf ((xs @ [(p, vp)]) @ (a, w) # post @ ys)" using wf1 by (simp add: pre)
  have "phys_kind w 0 = phys_kind v 0"
    using iview_mid [OF wf2, of a phys_kind] iview_mid [OF wf0, of a phys_kind] vw s lw by (simp add: pre)
  then have k: "pa_dma_type w = pa_dma_type v" "pa_memory_type w = pa_memory_type v" by (auto simp: phys_kind_def)
  have okw: "phys_ok a w" and okp: "phys_ok p vp" using wf2 by (auto simp: ivl_wf_append)
  have fok: "phys_ok a (f w)" "pa_size (f w) = s" using okw f lw by (auto simp: phys_ok_def kind_update_def)
  have om: "om_wf ((xs @ [(p, vp)]) @ (a, w) # post @ ys)" by (rule ivl_wf_om_wf [OF wf2])
  have pt: "om_put a (f w) ?m1 = xs @ (p, vp) # (a, f w) # post @ ys" using om_put_at [OF om] by simp
  have wf3: "phys_wf (xs @ (p, vp) # (a, f w) # post @ ys)"
    using pm.replace_at(1) [OF wf2 fok(1)] fok(2) lw by simp
  have car: "CarvePhysArea m a s = Some (?m1, a)"
    using c CarvePhysArea_eq [OF wf mem(1) _ s(1)] s(2) by (simp add: m pre)
  have lk: "map_of ?m1 a = Some w" using map_of_at [OF om] by simp
  have "ivl_merge phys_can phys_grow (xs @ (p, vp) # (a, f w) # post @ ys) a = Some (m', h)"
    using r unfolding retag_phys_def car bind.simps prod.case lk pt MergeAdjacent_phys_eq
    by (auto simp: bind_eq_Some_conv)
  moreover have fk: "pa_dma_type (f w) = pa_dma_type vp" "pa_memory_type (f w) = pa_memory_type vp"
    using f [unfolded kind_update_def, rule_format, of w] k kind by simp_all
  have "phys_can vp w1 = Some True" if "phys_ok a w1" "phys_kind w1 0 = phys_kind (f w) 0" for w1
    using that fk p okp by (simp add: Phys_CanMergeWith_iff phys_kind_def phys_ok_def)
  ultimately show ?thesis
    using pm.merge_joins [OF wf3 pm.keyed_touching [OF phys_keyed]] fok(2) by blast
qed

section \<open>Recording a run in a new area\<close>

text \<open>
  The physical areas \<open>l\<close> of a new mapping, recorded up to offset \<open>off\<close>, and a run \<open>r\<close> behind them: the run is
  added at the end, or joined with the last area when that ends where the run begins.
\<close>

lemma add_backing_ok:
  assumes bw: "backing_wf l off" and r: "backing_ok off r"
  obtains l' where "add_backing off r l = Some l'" "backing_wf l' (off + pa_size r)"
    "\<forall>i. iview pa_size backing_byte l' i = (if i < off then iview pa_size backing_byte l i
        else if i < off + pa_size r then Some (backing_byte r (i - off)) else None)"
    "\<forall>q\<in>set l'. q \<in> set l \<or> q = (off, r)
       \<or> (\<exists>q0\<in>set l. pa_base (snd q) = pa_base (snd q0) \<and> pa_size (snd q) = pa_size (snd q0) + pa_size r
            \<and> pa_base (snd q0) + pa_size (snd q0) = pa_base r \<and> pa_dma_type (snd q0) = pa_dma_type r
            \<and> pa_memory_type (snd q0) = pa_memory_type r)"
proof -
  note D = backing_wfD [OF bw]
  have bw1: "backing_wf (l @ [(off, r)]) (off + pa_size r)"
    using D(1,4) r by (auto simp: backing_wf_def ivl_contig_append)
  note wf1 = backing_wf_ivl [OF bw1]
  have om: "om_wf (l @ [(off, r)])" by (rule ivl_wf_om_wf [OF wf1])
  have pt: "om_put off r l = l @ [(off, r)]"
    using om_put_snoc [of l off r] om by (simp add: om_wf_append)
  have none: "iview pa_size backing_byte l i = None" if "off \<le> i" for i
    using ivl_contig_view [OF D(1), of backing_byte i] that by (meson leD)
  have view1: "iview pa_size backing_byte (l @ [(off, r)]) i = (if i < off then iview pa_size backing_byte l i
        else if i < off + pa_size r then Some (backing_byte r (i - off)) else None)" for i
    using none [of i] by (simp add: iview_append split: option.splits)
  have touch: "pb.touching (l @ [(off, r)])" using bw1 by (auto simp: pb.touching_def backing_wf_def)
  obtain l' k' v' where mg: "ivl_merge phys_can phys_grow (l @ [(off, r)]) off = Some (l', k')"
    and co: "pb.coarsens (l @ [(off, r)]) l'"
    by (rule pb.merge_ok [OF wf1 touch, of off r], simp, rule that)
  have sm: "ivl_wf pa_size backing_ok l'" "iview pa_size backing_byte l' = iview pa_size backing_byte (l @ [(off, r)])"
    "ivl_contig pa_size l' 0 (off + pa_size r)"
    using pb.coarsens_same [OF co] bw1 by (auto simp: pb.same_map_def backing_wf_def)
  have "backing_wf l' (off + pa_size r)" using sm(1,3) by (auto simp: backing_wf_def ivl_wf_def)
  moreover have "add_backing off r l = Some l'" using mg by (simp add: add_backing_def pt MergeAdjacent_phys_eq)
  moreover have "\<forall>q\<in>set l'. q \<in> set l \<or> q = (off, r)
       \<or> (\<exists>q0\<in>set l. pa_base (snd q) = pa_base (snd q0) \<and> pa_size (snd q) = pa_size (snd q0) + pa_size r
            \<and> pa_base (snd q0) + pa_size (snd q0) = pa_base r \<and> pa_dma_type (snd q0) = pa_dma_type r
            \<and> pa_memory_type (snd q0) = pa_memory_type r)"
  proof (cases l rule: rev_cases)
    case Nil
    then have "l' = [(off, r)]" using mg by (auto simp: ivl_merge_def)
    then show ?thesis by simp
  next
    case (snoc xs q)
    obtain p vp where q: "q = (p, vp)" by (cases q)
    have om': "om_wf ((xs @ [(p, vp)]) @ (off, r) # [])" using om by (simp add: snoc q)
    have om0: "om_wf (xs @ (p, vp) # [(off, r)])" using om by (simp add: snoc q)
    have lk: "map_of ((xs @ [(p, vp)]) @ [(off, r)]) off = Some r" "map_of ((xs @ [(p, vp)]) @ [(off, r)]) p = Some vp"
      using map_of_at [OF om'] map_of_at [OF om0] by simp_all
    have nx: "om_next ((xs @ [(p, vp)]) @ [(off, r)]) off = None" "om_prev ((xs @ [(p, vp)]) @ [(off, r)]) off = Some p"
      using om_next_at [OF om'] om_prev_at [OF om'] by (simp_all add: om_begin_def)
    have pt2: "om_put p z ((xs @ [(p, vp)]) @ [(off, r)]) = (xs @ [(p, z)]) @ (off, r) # []" for z
      using om_put_at [OF om0] by simp
    have er: "om_erase off ((xs @ [(p, z)]) @ (off, r) # []) = xs @ [(p, z)]" for z
      using om_erase_at [of "xs @ [(p, z)]" off r "[]"] om' by (simp add: om_wf_append)
    have l': "l' = (if Phys_CanMergeWith vp r then xs @ [(p, phys_grow vp r)] else l @ [(off, r)])"
      using mg unfolding snoc q ivl_merge_def lk nx bind.simps option.case pt2 er by (auto simp: lk split: if_splits)
    have vp: "backing_ok p vp" using D(4) [of "(p, vp)"] by (simp add: snoc q)
    have sz: "pa_size vp + pa_size r < U64_MOD"
      using D(1) r by (auto simp: snoc q ivl_contig_append backing_ok_def)
    show ?thesis unfolding l' using vp sz
      by (auto simp: snoc q Phys_CanMergeWith_iff phys_grow_def backing_ok_def)
  qed
  ultimately show thesis using that sm(2) view1 by metis
qed

text \<open>
  The physical areas \<open>l\<close> recorded up to offset \<open>j\<close>: runs of bytes of kind \<open>T\<close>, each inside one element of
  the physical map.
\<close>

definition backs :: "PhysicalMemoryType \<Rightarrow> PhysMap \<Rightarrow> PhysMap \<Rightarrow> u64 \<Rightarrow> bool" where
  "backs T m l j \<longleftrightarrow> backing_wf l j
     \<and> (\<forall>i y mt dt. iview pa_size backing_byte l i = Some (y, mt, dt) \<longrightarrow> dt = T \<and> phys_view m y = Some (T, mt))
     \<and> (\<forall>q\<in>set l. within pa_size m (pa_base (snd q)) (pa_size (snd q)))"

lemma backs_Nil: "backs T m [] 0"
  by (simp add: backs_def backing_wf_def)

lemma backs_area:
  assumes b: "backs T m l j" and q: "q \<in> set l" and y: "pa_base (snd q) \<le> y" "y < pa_base (snd q) + pa_size (snd q)"
  shows "phys_view m y = Some (T, pa_memory_type (snd q))" "pa_dma_type (snd q) = T"
proof -
  have wf: "ivl_wf pa_size backing_ok l" using b backing_wf_ivl by (auto simp: backs_def)
  have "iview pa_size backing_byte l (fst q + (y - pa_base (snd q))) = Some (y, pa_memory_type (snd q), pa_dma_type (snd q))"
    using iview_mem [OF wf, of "fst q" "snd q" "fst q + (y - pa_base (snd q))" backing_byte] q y by (simp add: backing_byte_def)
  then show "phys_view m y = Some (T, pa_memory_type (snd q))" "pa_dma_type (snd q) = T"
    using b unfolding backs_def by blast+
qed

text \<open>One turn of the loops that take physical memory for a new area.\<close>

lemma take_run:
  assumes wf: "phys_wf m" and b: "backs T m l j" and mem: "(h, v) \<in> set m"
    and a: "h \<le> a" "0 < n" "a + n \<le> h + pa_size v" and head: "l \<noteq> [] \<longrightarrow> h = a"
    and kind: "pa_dma_type v \<noteq> T" and lim: "j + n < U64_MOD"
  obtains m' area h' v' l' where "retag_phys (set_dma T) m a n = Some (m', area, h')" "pa_base area = a"
    "gives_back m {a..<a + n} T m'" "(h', v') \<in> set m'" "h' \<le> a" "a + n \<le> h' + pa_size v'"
    "add_backing j area l = Some l'" "backs T m' l' (j + n)"
    "\<forall>i. iview pa_size backing_byte l' i = (if i < j then iview pa_size backing_byte l i
        else if i < j + n then Some (a + (i - j), pa_memory_type v, T) else None)"
proof -
  obtain m' area h' v' where r: "retag_phys (set_dma T) m a n = Some (m', area, h')"
    "phys_wf m'" "pa_base area = a" "pa_size area = n"
    "(pa_dma_type area, pa_memory_type area) = map_prod (\<lambda>_. T) id (pa_dma_type v, pa_memory_type v)"
    "\<forall>x. phys_view m' x = (if a \<le> x \<and> x < a + n then map_option (map_prod (\<lambda>_. T) id) (phys_view m x) else phys_view m x)"
    "\<forall>lo hi. ivl_contig pa_size m lo hi \<longrightarrow> ivl_contig pa_size m' lo hi"
    "(h', v') \<in> set m'" "h' \<le> a" "a + n \<le> h' + pa_size v'"
    "\<forall>b t. within pa_size m b t \<longrightarrow> 0 < t \<longrightarrow> b + t \<le> a \<or> a + n \<le> b \<longrightarrow> within pa_size m' b t"
    by (rule retag_phys_ok [OF wf mem a set_dma_update [of T]])
  have ty: "pa_dma_type area = T" "pa_memory_type area = pa_memory_type v" using r(5) by simp_all
  have wm: "within pa_size m' b t" if "within pa_size m b t" "0 < t" "{b..<b + t} \<inter> {a..<a + n} = {}" for b t
    using r(11) that disjoint_run [OF that(2) a(2)] by (metis Int_commute)
  have gb: "gives_back m {a..<a + n} T m'"
    using r(2,6,7) wm unfolding gives_back_def retyped_def by auto
  have old: "phys_view m y = Some (pa_dma_type v, pa_memory_type v)" if "a \<le> y" "y < a + n" for y
    using iview_mem [OF wf mem, of y phys_kind] that a by (simp add: phys_kind_def)
  have bw: "backing_wf l j" using b by (simp add: backs_def)
  have okv: "phys_ok h v" using ivl_wf_ok [OF wf mem] by simp
  have bok: "backing_ok j area" using r(3,4) a lim okv by (auto simp: backing_ok_def phys_ok_def)
  obtain l' where l': "add_backing j area l = Some l'" "backing_wf l' (j + pa_size area)"
    and vw: "\<forall>i. iview pa_size backing_byte l' i = (if i < j then iview pa_size backing_byte l i
        else if i < j + pa_size area then Some (backing_byte area (i - j)) else None)"
    and el: "\<forall>q\<in>set l'. q \<in> set l \<or> q = (j, area)
       \<or> (\<exists>q0\<in>set l. pa_base (snd q) = pa_base (snd q0) \<and> pa_size (snd q) = pa_size (snd q0) + pa_size area
            \<and> pa_base (snd q0) + pa_size (snd q0) = pa_base area \<and> pa_dma_type (snd q0) = pa_dma_type area
            \<and> pa_memory_type (snd q0) = pa_memory_type area)"
    by (rule add_backing_ok [OF bw bok])
  have dis: "{pa_base (snd q)..<pa_base (snd q) + pa_size (snd q)} \<inter> {a..<a + n} = {}" if "q \<in> set l" for q
    using backs_area(1) [OF b that] old kind by fastforce
  have pos: "0 < pa_size (snd q)" if "q \<in> set l" for q using backing_wfD(5) [OF bw] that by auto
  have in_m: "within pa_size m (pa_base (snd q)) (pa_size (snd q))" if "q \<in> set l" for q
    using b that by (auto simp: backs_def)
  have kept: "within pa_size m' (pa_base (snd q)) (pa_size (snd q))" if "q \<in> set l" for q
    using wm in_m pos dis that by blast
  have joined: "within pa_size m' (pa_base (snd q)) (pa_size (snd q) + n)"
    if q: "q \<in> set l" and e: "pa_base (snd q) + pa_size (snd q) = a" "pa_memory_type (snd q) = pa_memory_type v" for q
  proof -
    have ha: "h = a" using head q by auto
    obtain p vp where p: "(p, vp) \<in> set m" "p \<le> pa_base (snd q)" "a \<le> p + pa_size vp"
      using in_m [OF q] e by (auto simp: within_def)
    have "p < a" using p(2) pos [OF q] e by simp
    then have pe: "p + pa_size vp = a"
      using ivl_wf_disj [OF wf p(1) mem] p(3) ha by auto
    have "phys_view m (a - 1) = Some (T, pa_memory_type (snd q))"
      by (rule backs_area(1) [OF b q]) (use pos [OF q] e in auto)
    moreover have "phys_view m (a - 1) = Some (pa_dma_type vp, pa_memory_type vp)"
      using iview_mem [OF wf p(1), of "a - 1" phys_kind] pe \<open>p < a\<close> by (simp add: phys_kind_def)
    ultimately have "within pa_size m' p (pa_size vp + n)"
      using a e by (intro retag_phys_joins [OF wf mem [unfolded ha] p(1) a(2) _ pe set_dma_update _ r(1)]) (auto simp: ha)
    then show ?thesis by (rule within_sub) (use p(2) pe e in auto)
  qed
  have new: "within pa_size m' a n" using r(8-10) by (force simp: within_def)
  have "within pa_size m' (pa_base (snd q)) (pa_size (snd q))" if "q \<in> set l'" for q
    using el [rule_format, OF that]
  proof (elim disjE bexE conjE)
    fix q0 assume "q0 \<in> set l" "pa_base (snd q) = pa_base (snd q0)" "pa_size (snd q) = pa_size (snd q0) + pa_size area"
      "pa_base (snd q0) + pa_size (snd q0) = pa_base area" "pa_memory_type (snd q0) = pa_memory_type area"
    then show ?thesis using joined r(3,4) ty(2) by simp
  qed (use kept new r(3,4) in auto)
  moreover have "dt = T \<and> phys_view m' y = Some (T, mt)" if v: "iview pa_size backing_byte l' i = Some (y, mt, dt)" for i y mt dt
  proof (cases "i < j")
    case True
    then have "iview pa_size backing_byte l i = Some (y, mt, dt)" using v vw by simp
    then have "dt = T" "phys_view m y = Some (T, mt)" using b unfolding backs_def by blast+
    then show ?thesis using r(6) by simp
  next
    case False
    then have "a \<le> y" "y < a + n" "mt = pa_memory_type v" "dt = T"
      using v vw r(3,4) ty by (auto simp: backing_byte_def split: if_splits)
    then show ?thesis using r(6) old [of y] by simp
  qed
  ultimately have bk: "backs T m' l' (j + n)" using l'(2) r(4) by (simp add: backs_def)
  show thesis
    by (rule that [OF r(1,3) gb r(8-10) l'(1) bk]) (use vw r(3,4) ty in \<open>simp add: backing_byte_def\<close>)
qed

lemma gives_back_trans:
  assumes 1: "gives_back m A t m1" and 2: "gives_back m1 B t m2"
  shows "gives_back m (A \<union> B) t m2"
proof -
  have "within pa_size m2 b s" if "within pa_size m b s" "0 < s" "{b..<b + s} \<inter> (A \<union> B) = {}" for b s
  proof -
    have "{b..<b + s} \<inter> A = {}" "{b..<b + s} \<inter> B = {}" using that(3) by blast+
    then show ?thesis using 1 2 that(1,2) unfolding gives_back_def by blast
  qed
  moreover have "retyped m (A \<union> B) t m2"
    by (rule retyped_trans [of _ _ _ m1]) (use 1 2 in \<open>simp_all add: gives_back_def\<close>)
  ultimately show ?thesis using 1 2 by (simp add: gives_back_def)
qed

lemma gives_back_view:
  "gives_back m S t m' \<Longrightarrow> phys_view m' y = (if y \<in> S then map_option (map_prod (\<lambda>_. t) id) (phys_view m y) else phys_view m y)"
  by (simp add: gives_back_def retyped_def)

lemma backs_bounds:
  assumes "backs T m l j"
  shows "backing_at l i \<noteq> None \<longleftrightarrow> i < j"
proof -
  have "ivl_contig pa_size l 0 j" using assms by (simp add: backs_def backing_wf_def)
  from ivl_contig_view [OF this, of backing_byte i] show ?thesis by (auto simp: backing_at_def)
qed

lemma backs_pos:
  assumes "backs T m l j" "l \<noteq> []"
  shows "0 < j"
proof -
  have bw: "backing_wf l j" using assms(1) by (simp add: backs_def)
  obtain k a where "(k, a) \<in> set l" using assms(2) by (cases l) auto
  then show ?thesis using backing_wfD(5,6) [OF bw] by fastforce
qed

lemma backs_kind:
  assumes "backs T m l j" "backing_at l i = Some y"
  shows "\<exists>mt. phys_view m y = Some (T, mt) \<and> iview pa_size backing_byte l i = Some (y, mt, T)"
proof -
  obtain mt dt where "iview pa_size backing_byte l i = Some (y, mt, dt)" using assms(2) by (auto simp: backing_at_def)
  moreover from this have "dt = T" "phys_view m y = Some (T, mt)" using assms(1) unfolding backs_def by blast+
  ultimately show ?thesis by blast
qed

section \<open>Direct memory\<close>

lemma direct_loop_ok:
  assumes "phys_wf (dmem_map mm)" "backs PMapped (dmem_map mm) l j" "j \<le> s" "phys + s < U64_MOD"
    and "\<forall>y. phys + j \<le> y \<and> y < phys + s \<longrightarrow> (\<exists>mt. phys_view (dmem_map mm) y = Some (PAllocated, mt))"
    and "\<forall>i. i < j \<longrightarrow> backing_at l i = Some (phys + i)" "om_floor (dmem_map mm) (phys + j) = Some h"
  shows "\<exists>l' d'. direct_map_loop (Some h) (s - j) (phys + j) phys l mm = Some (0, l', mm\<lparr>dmem_map := d'\<rparr>)
     \<and> gives_back (dmem_map mm) {phys + j..<phys + s} PMapped d' \<and> backs PMapped d' l' s
     \<and> (\<forall>i. i < s \<longrightarrow> backing_at l' i = Some (phys + i))"
  using assms
proof (induction "s - j" arbitrary: j l mm h rule: less_induct)
  case less
  let ?m = "dmem_map mm" and ?c = "phys + j"
  note wf = less.prems(1) and bk = less.prems(2)
  show ?case
  proof (cases "j = s")
    case True
    then show ?thesis
      using less.prems gives_back_refl [OF wf] by (intro exI [of _ l] exI [of _ ?m]) (simp add: direct_map_loop.simps)
  next
    case False
    then have js: "j < s" using less.prems(3) by simp
    then obtain mt where cv: "phys_view ?m ?c = Some (PAllocated, mt)" using less.prems(5) by auto
    then have cn: "phys_view ?m ?c \<noteq> None" by simp
    obtain xs k v ys where k: "?m = xs @ (k, v) # ys" "k \<le> ?c" "?c < k + pa_size v" "om_floor ?m ?c = Some k"
        "map_of ?m k = Some v" "phys_ok k v"
      by (rule iview_floorE [OF wf cn], rule that)
    have kh: "k = h" using k(4) less.prems(7) by simp
    have mem: "(k, v) \<in> set ?m" by (simp add: k(1))
    have vk: "phys_view ?m y = Some (pa_dma_type v, pa_memory_type v)" if "k \<le> y" "y < k + pa_size v" for y
      using iview_mem [OF wf mem, of y phys_kind] that by (simp add: phys_kind_def)
    have kind: "pa_dma_type v = PAllocated" using vk [OF k(2,3)] cv by simp
    define n where "n = min (k + pa_size v - ?c) (s - j)"
    have n: "0 < n" "?c + n \<le> k + pa_size v" "j + n \<le> s" using k(3) js by (auto simp: n_def)
    have head: "l \<noteq> [] \<longrightarrow> k = ?c"
    proof (intro impI, rule ccontr)
      assume "l \<noteq> []" "k \<noteq> ?c"
      then have "0 < j" "k \<le> ?c - 1" "?c - 1 < k + pa_size v"
        using backs_pos [OF bk] k(2,3) by auto
      then show False
        using backs_kind [OF bk, of "j - 1" "?c - 1"] less.prems(6) vk [of "?c - 1"] kind by auto
    qed
    have ar: "max ?c (pa_base v) = ?c" "sub64 ?c (pa_base v) = ?c - k" "min (sub64 (pa_size v) (?c - k)) (s - j) = n"
      "sub64 ?c phys = j" "add64 ?c n = phys + (j + n)" "sub64 (s - j) n = s - (j + n)"
      using k(2,3,6) n less.prems(4) by (auto simp: phys_ok_def n_def add.commute)
    obtain m' area h' v' l' where t: "retag_phys (set_dma PMapped) ?m ?c n = Some (m', area, h')"
        "gives_back ?m {?c..<?c + n} PMapped m'" "(h', v') \<in> set m'" "h' \<le> ?c" "add_backing j area l = Some l'"
        "backs PMapped m' l' (j + n)"
      and vw: "\<forall>i. iview pa_size backing_byte l' i = (if i < j then iview pa_size backing_byte l i
        else if i < j + n then Some (?c + (i - j), pa_memory_type v, PMapped) else None)"
      by (rule take_run [OF wf bk mem k(2) n(1,2) head], use kind n(3) less.prems(4) in simp, use n(3) less.prems(4) in simp, rule that)
    have wf': "phys_wf m'" using t(2) by (simp add: gives_back_def)
    have "om_floor m' (phys + (j + n)) \<noteq> None"
      unfolding om_floor_None [OF ivl_wf_om_wf [OF wf']] using t(3,4) by force
    then obtain h2 where h2: "om_floor m' (phys + (j + n)) = Some h2" by auto
    have unf: "direct_map_loop (Some h) (s - j) ?c phys l mm =
        direct_map_loop (Some h2) (s - (j + n)) (phys + (j + n)) phys l' (mm\<lparr>dmem_map := m'\<rparr>)"
      using js k(5) [unfolded kh] t(1,5) h2 by (subst direct_map_loop.simps) (simp add: ar [unfolded kh] Let_def)
    have "\<exists>l'' d'. direct_map_loop (Some h2) (s - (j + n)) (phys + (j + n)) phys l' (mm\<lparr>dmem_map := m'\<rparr>)
          = Some (0, l'', mm\<lparr>dmem_map := m'\<rparr>\<lparr>dmem_map := d'\<rparr>)
        \<and> gives_back m' {phys + (j + n)..<phys + s} PMapped d' \<and> backs PMapped d' l'' s
        \<and> (\<forall>i. i < s \<longrightarrow> backing_at l'' i = Some (phys + i))"
    proof -
      have "\<forall>i. i < j + n \<longrightarrow> backing_at l' i = Some (phys + i)"
        using vw less.prems(6) by (auto simp: backing_at_def)
      moreover have "\<forall>y. phys + (j + n) \<le> y \<and> y < phys + s \<longrightarrow> (\<exists>mt. phys_view m' y = Some (PAllocated, mt))"
        using less.prems(5) gives_back_view [OF t(2)] by auto
      ultimately show ?thesis
        using less.hyps [of "j + n" "mm\<lparr>dmem_map := m'\<rparr>" l' h2] wf' t(6) n js h2 less.prems(4) by simp
    qed
    then obtain l'' d' where r: "direct_map_loop (Some h2) (s - (j + n)) (phys + (j + n)) phys l' (mm\<lparr>dmem_map := m'\<rparr>)
          = Some (0, l'', mm\<lparr>dmem_map := d'\<rparr>)"
        "gives_back m' {phys + (j + n)..<phys + s} PMapped d'" "backs PMapped d' l'' s" "\<forall>i. i < s \<longrightarrow> backing_at l'' i = Some (phys + i)"
      by auto
    have "{?c..<?c + n} \<union> {phys + (j + n)..<phys + s} = {?c..<phys + s}" using n js by auto
    then show ?thesis using gives_back_trans [OF t(2) r(2)] r(1,3,4) unf by auto
  qed
qed

section \<open>Flexible memory\<close>

definition free_flexible :: "PhysMap \<Rightarrow> u64 set" where
  "free_flexible f = {y. \<exists>mt. phys_view f y = Some (PFree, mt)}"

text \<open>A byte behind the element at \<open>h\<close> and outside it lies in a later element.\<close>

lemma next_before:
  assumes wf: "phys_wf m" and mem: "(h, v) \<in> set m" and y: "h + pa_size v \<le> y" "phys_view m y \<noteq> None"
  obtains h2 where "om_next m h = Some h2" "h2 \<le> y"
proof -
  note om = ivl_wf_om_wf [OF wf]
  obtain z where "phys_view m y = Some z" using y(2) by auto
  then obtain k w where k: "(k, w) \<in> set m" "k \<le> y" "y < k + pa_size w" by (rule iview_SomeE)
  have "h < k"
  proof (rule ccontr)
    assume "\<not> h < k"
    then consider "k = h" | "k < h" by linarith
    then show False
    proof cases
      case 1
      then show False using ivl_wf_lookup [OF wf mem] ivl_wf_lookup [OF wf k(1)] y(1) k(3) by simp
    next
      case 2
      then show False using ivl_wf_disj [OF wf k(1) mem] y(1) k(3) by simp
    qed
  qed
  moreover have kk: "k \<in> fst ` set m" using k(1) by force
  ultimately have "om_next m h \<noteq> None" unfolding om_next_None [OF om] by (meson leD)
  then obtain h2 where "om_next m h = Some h2" by auto
  moreover from this have "h2 \<le> k" using om_next_SomeD [OF om] \<open>h < k\<close> kk by blast
  ultimately show thesis using that k(2) by simp
qed

lemma next_mem:
  assumes "om_wf m" "om_next m h = Some h2"
  obtains v2 where "(h2, v2) \<in> set m" "h < h2"
  using om_next_SomeD [OF assms] by auto

lemma free_flexible_sub: "phys_wf f \<Longrightarrow> finite (free_flexible f)"
  by (rule finite_subset [of _ "{..<U64_MOD - 1}"]) (use view_bound in \<open>force simp: free_flexible_def\<close>, simp)

lemma backing_range_split:
  assumes "a \<le> b" "b \<le> c"
  shows "backing_range l a c = backing_range l a b \<union> backing_range l b c"
proof -
  have "(a \<le> i \<and> i < c) = (a \<le> i \<and> i < b \<or> b \<le> i \<and> i < c)" for i using assms by auto
  then show ?thesis unfolding backing_range_def by blast
qed

text \<open>
  The loop that takes flexible memory: when no free byte lies before the iterator and enough bytes are
  free, it takes exactly as many as asked for.
\<close>

definition loop_at :: "PhysMap \<Rightarrow> u64 option \<Rightarrow> bool" where
  "loop_at f handle \<longleftrightarrow> (case handle of None \<Rightarrow> free_flexible f = {}
     | Some h \<Rightarrow> h \<in> fst ` set f \<and> (\<forall>y\<in>free_flexible f. h \<le> y))"

lemma loop_at_next:
  assumes wf: "phys_wf f" and mem: "(h, v) \<in> set f" and nf: "\<And>y. y \<in> free_flexible f \<Longrightarrow> h + pa_size v \<le> y"
  shows "loop_at f (om_next f h)"
proof (cases "om_next f h")
  case None
  have "free_flexible f = {}"
  proof (rule equals0I)
    fix y assume y: "y \<in> free_flexible f"
    then have "phys_view f y \<noteq> None" by (auto simp: free_flexible_def)
    then show False using next_before [OF wf mem nf [OF y]] None by auto
  qed
  then show ?thesis by (simp add: loop_at_def None)
next
  case (Some h2)
  have "h2 \<le> y" if y: "y \<in> free_flexible f" for y
  proof -
    have "phys_view f y \<noteq> None" using y by (auto simp: free_flexible_def)
    then show ?thesis using next_before [OF wf mem nf [OF y]] Some by auto
  qed
  moreover have "h2 \<in> fst ` set f" using om_next_SomeD [OF ivl_wf_om_wf [OF wf] Some] by simp
  ultimately show ?thesis by (simp add: loop_at_def Some)
qed

lemma flexible_loop_ok:
  assumes "phys_wf (fmem_map mm)" "backs PFlexible (fmem_map mm) l j" "loop_at (fmem_map mm) handle"
    and "n \<le> card (free_flexible (fmem_map mm))" "j + n < U64_MOD" "flexible_usage mm + n < U64_MOD"
    and "va + j + n < U64_MOD"
  shows "\<exists>l' f' tr S. flexible_map_loop handle n (va + j) va ex l mm
       = Some (0, l', mm\<lparr>fmem_map := f', flexible_usage := flexible_usage mm + n, trace := tr\<rparr>)
     \<and> S \<subseteq> free_flexible (fmem_map mm) \<and> card S = n
     \<and> gives_back (fmem_map mm) S PFlexible f' \<and> backs PFlexible f' l' (j + n)
     \<and> (\<forall>i. i < j \<longrightarrow> backing_at l' i = backing_at l i) \<and> backing_range l' j (j + n) = S"
  using assms
proof (induction "case handle of None \<Rightarrow> 0 | Some h \<Rightarrow> U64_MOD - h" arbitrary: j l mm handle n rule: less_induct)
  case less
  let ?m = "fmem_map mm"
  note wf = less.prems(1) and bk = less.prems(2)
  have fin: ?case if "n = 0" "flexible_map_loop handle n (va + j) va ex l mm = Some (n, l, mm)"
    using that less.prems gives_back_refl [OF wf]
    by (intro exI [of _ l] exI [of _ ?m] exI [of _ "trace mm"] exI [of _ "{}"]) (simp add: backing_range_def)
  show ?case
  proof (cases "n = 0 \<or> handle = None")
    case True
    then have "n = 0" using less.prems(3,4) by (auto simp: loop_at_def)
    then show ?thesis by (intro fin) (auto simp: flexible_map_loop.simps split: option.split)
  next
    case False
    then obtain h where h: "handle = Some h" and n: "0 < n" by auto
    then obtain v where mem: "(h, v) \<in> set ?m" and fr: "\<And>y. y \<in> free_flexible ?m \<Longrightarrow> h \<le> y"
      using less.prems(3) by (auto simp: loop_at_def)
    have lk: "map_of ?m h = Some v" using ivl_wf_lookup [OF wf mem] .
    have ok: "phys_ok h v" using ivl_wf_ok [OF wf mem] by simp
    then have okv: "pa_base v = h" "0 < pa_size v" "h + pa_size v < U64_MOD" by (auto simp: phys_ok_def)
    have vk: "phys_view ?m y = Some (pa_dma_type v, pa_memory_type v)" if "h \<le> y" "y < h + pa_size v" for y
      using iview_mem [OF wf mem, of y phys_kind] that by (simp add: phys_kind_def)
    have smaller: "(case om_next m' h' of None \<Rightarrow> 0 | Some h \<Rightarrow> U64_MOD - h) < (case handle of None \<Rightarrow> 0 | Some h \<Rightarrow> U64_MOD - h)"
      if m': "phys_wf m'" "(h', v') \<in> set m'" "h < h' + pa_size v'" for m' h' v'
    proof (cases "om_next m' h'")
      case (Some h2)
      obtain v2 where h2: "(h2, v2) \<in> set m'" "h' < h2" by (rule next_mem [OF ivl_wf_om_wf [OF m'(1)] Some])
      then show ?thesis using ivl_wf_disj [OF m'(1,2) h2] m'(3) okv(3) by (simp add: h Some)
    qed (use okv(2,3) in \<open>simp add: h\<close>)
    show ?thesis
    proof (cases "pa_dma_type v = PFree")
      case False
      have unf: "flexible_map_loop handle n (va + j) va ex l mm = flexible_map_loop (om_next ?m h) n (va + j) va ex l mm"
        using n lk False by (subst flexible_map_loop.simps) (simp add: h)
      have "h + pa_size v \<le> y" if y: "y \<in> free_flexible ?m" for y
        using vk [of y] fr [OF y] y False by (cases "y < h + pa_size v") (auto simp: free_flexible_def)
      then have "loop_at ?m (om_next ?m h)" by (rule loop_at_next [OF wf mem])
      then show ?thesis
        unfolding unf using less.prems okv(2) by (intro less.hyps smaller [OF wf mem]) auto
    next
      case True
      define t where "t = min n (pa_size v)"
      have t: "0 < t" "t \<le> n" "h + t \<le> h + pa_size v" using n okv(2) by (auto simp: t_def)
      have jt: "j + t < U64_MOD" using t(2) less.prems(5) by simp
      have kd: "pa_dma_type v \<noteq> PFlexible" using True by simp
      obtain m' area h' v' l1 where r: "retag_phys (set_dma PFlexible) ?m h t = Some (m', area, h')" "pa_base area = h"
        "gives_back ?m {h..<h + t} PFlexible m'" "(h', v') \<in> set m'" "h' \<le> h" "h + t \<le> h' + pa_size v'"
        "add_backing j area l = Some l1" "backs PFlexible m' l1 (j + t)"
        and vw: "\<forall>i. iview pa_size backing_byte l1 i = (if i < j then iview pa_size backing_byte l i
          else if i < j + t then Some (h + (i - j), pa_memory_type v, PFlexible) else None)"
        by (rule take_run [OF wf bk mem le_refl t(1,3) impI [OF refl] kd jt], rule that)
      have wf': "phys_wf m'" using r(3) by (simp add: gives_back_def)
      define mm1 where "mm1 = emit (HostMap (va + j) t (pa_base area) ex)
          (mm\<lparr>fmem_map := m', flexible_usage := flexible_usage mm + t\<rparr>)"
      have ar: "add64 (va + j) t = va + (j + t)" "sub64 n t = n - t" "sub64 (va + j) va = j"
        "add64 (flexible_usage mm) t = flexible_usage mm + t"
        using t(2) less.prems(5-7) by auto
      have unf: "flexible_map_loop handle n (va + j) va ex l mm = flexible_map_loop (om_next m' h') (n - t) (va + (j + t)) va ex l1 mm1"
        using n lk True r(1,7) by (subst flexible_map_loop.simps) (simp add: h okv(1) t_def [symmetric] ar mm1_def)
      have seg: "{h..<h + t} \<subseteq> free_flexible ?m" using vk True t(3) by (auto simp: free_flexible_def)
      have fr': "free_flexible m' = free_flexible ?m - {h..<h + t}"
        using gives_back_view [OF r(3)] by (auto simp: free_flexible_def split: if_splits)
      have cd: "card (free_flexible m') = card (free_flexible ?m) - t"
        unfolding fr' using card_Diff_subset [OF _ seg] by simp
      have bat: "backing_at l1 i = (if i < j then backing_at l i else if i < j + t then Some (h + (i - j)) else None)" for i
        using vw by (simp add: backing_at_def)
      have rng: "backing_range l1 j (j + t) = {h..<h + t}"
      proof -
        have at: "backing_at l1 i = Some (h + (i - j))" if "j \<le> i" "i < j + t" for i using that by (simp add: bat)
        have "y \<in> backing_range l1 j (j + t)" if y: "h \<le> y" "y < h + t" for y
        proof -
          have "j \<le> j + (y - h)" "j + (y - h) < j + t" using y by auto
          moreover from at [OF this] have "backing_at l1 (j + (y - h)) = Some y" using y by simp
          ultimately show ?thesis unfolding backing_range_def by blast
        qed
        moreover have "h \<le> y \<and> y < h + t" if "y \<in> backing_range l1 j (j + t)" for y
        proof -
          from that obtain i where "j \<le> i" "i < j + t" "backing_at l1 i = Some y" unfolding backing_range_def by blast
          then show ?thesis using at [of i] by auto
        qed
        ultimately show ?thesis by auto
      qed
      show ?thesis
      proof (cases "t = n")
        case True
        have "flexible_map_loop (om_next m' h') 0 (va + (j + t)) va ex l1 mm1 = Some (0, l1, mm1)"
          by (auto simp: flexible_map_loop.simps split: option.split)
        then have "flexible_map_loop handle n (va + j) va ex l mm
            = Some (0, l1, mm\<lparr>fmem_map := m', flexible_usage := flexible_usage mm + n, trace := trace mm @ [HostMap (va + j) t (pa_base area) ex]\<rparr>)"
          unfolding unf by (simp add: mm1_def emit_def True)
        moreover have "\<forall>i. i < j \<longrightarrow> backing_at l1 i = backing_at l i" by (simp add: bat)
        moreover have "card {h..<h + t} = n" by (simp add: True)
        ultimately show ?thesis using r(3,8) seg rng unfolding True by blast
      next
        case False
        then have tn: "t < n" "t = pa_size v" using t(2) by (auto simp: t_def)
        have "h' + pa_size v' \<le> y" if y: "y \<in> free_flexible m'" for y
        proof (rule ccontr)
          assume "\<not> h' + pa_size v' \<le> y"
          moreover have "h \<le> y" using y fr fr' by blast
          ultimately have "h' \<le> y" "y < h' + pa_size v'" using r(5) by auto
          then have "phys_view m' y = Some (pa_dma_type v', pa_memory_type v')"
            using iview_mem [OF wf' r(4), of y phys_kind] by (simp add: phys_kind_def)
          moreover have "phys_view m' h = Some (pa_dma_type v', pa_memory_type v')"
            using iview_mem [OF wf' r(4), of h phys_kind] r(5,6) t(1) by (simp add: phys_kind_def)
          moreover have "phys_view m' h = Some (PFlexible, pa_memory_type v)"
            using gives_back_view [OF r(3), of h] vk [of h] t(1) okv(2) by simp
          ultimately show False using y by (auto simp: free_flexible_def)
        qed
        then have la: "loop_at (fmem_map mm1) (om_next m' h')"
          using loop_at_next [OF wf' r(4)] by (simp add: mm1_def emit_def)
        have m1: "fmem_map mm1 = m'" "flexible_usage mm1 = flexible_usage mm + t" by (simp_all add: mm1_def emit_def)
        have "h < h' + pa_size v'" using r(6) t(1) by simp
        note sm = smaller [OF wf' r(4) this]
        have "\<exists>l' f' tr S. flexible_map_loop (om_next m' h') (n - t) (va + (j + t)) va ex l1 mm1
             = Some (0, l', mm1\<lparr>fmem_map := f', flexible_usage := flexible_usage mm1 + (n - t), trace := tr\<rparr>)
           \<and> S \<subseteq> free_flexible (fmem_map mm1) \<and> card S = n - t
           \<and> gives_back (fmem_map mm1) S PFlexible f' \<and> backs PFlexible f' l' (j + t + (n - t))
           \<and> (\<forall>i. i < j + t \<longrightarrow> backing_at l' i = backing_at l1 i) \<and> backing_range l' (j + t) (j + t + (n - t)) = S"
          by (rule less.hyps [OF sm]) (use la wf' r(8) cd less.prems(4-7) tn in \<open>simp_all add: m1\<close>)
        then obtain l' f' tr S where ih: "flexible_map_loop (om_next m' h') (n - t) (va + (j + t)) va ex l1 mm1
             = Some (0, l', mm1\<lparr>fmem_map := f', flexible_usage := flexible_usage mm1 + (n - t), trace := tr\<rparr>)"
           "S \<subseteq> free_flexible m'" "card S = n - t" "gives_back m' S PFlexible f'" "backs PFlexible f' l' (j + n)"
           "\<forall>i. i < j + t \<longrightarrow> backing_at l' i = backing_at l1 i" "backing_range l' (j + t) (j + n) = S"
          using tn(1) by (auto simp: m1)
        have "finite S" using ih(2) free_flexible_sub [OF wf'] finite_subset by blast
        moreover have dis: "{h..<h + t} \<inter> S = {}" using ih(2) fr' by blast
        ultimately have "card ({h..<h + t} \<union> S) = n" using ih(3) tn(1) by (simp add: card_Un_disjoint)
        moreover have "{h..<h + t} \<union> S \<subseteq> free_flexible ?m" using seg ih(2) fr' by blast
        moreover have "backing_range l' j (j + n) = {h..<h + t} \<union> S"
        proof -
          have "backing_range l' j (j + t) = backing_range l1 j (j + t)" using ih(6) by (auto simp: backing_range_def)
          moreover have "backing_range l' j (j + n) = backing_range l' j (j + t) \<union> backing_range l' (j + t) (j + n)"
            using tn(1) by (intro backing_range_split) auto
          ultimately show ?thesis using ih(7) rng by simp
        qed
        moreover have "\<forall>i. i < j \<longrightarrow> backing_at l' i = backing_at l i" using ih(6) bat by simp
        moreover have "mm1\<lparr>fmem_map := f', flexible_usage := flexible_usage mm1 + (n - t), trace := tr\<rparr>
            = mm\<lparr>fmem_map := f', flexible_usage := flexible_usage mm + n, trace := tr\<rparr>"
          using tn(1) by (simp add: mm1_def emit_def)
        ultimately show ?thesis
          using unf ih(1,5) gives_back_trans [OF r(3) ih(4)] by (intro exI [of _ l'] exI [of _ f'] exI [of _ tr] exI [of _ "{h..<h + t} \<union> S"]) simp
      qed
    qed
  qed
qed

end
