(* ===== verification/Map_Correct.thy ===== *)
theory Map_Correct
  imports Unmap_Correct Take_Memory
begin

text \<open>
  \<^verbatim>\<open>CreateArea\<close> and \<^verbatim>\<open>MapMemory\<close> (\<^verbatim>\<open>src/core/memory.cpp\<close>): what a successful mapping does, and that it keeps the
  invariant of the manager.
\<close>

section \<open>Creating an area\<close>

definition new_area :: "VMAType \<Rightarrow> flags32 \<Rightarrow> flags32 \<Rightarrow> string \<Rightarrow> VirtualMemoryArea \<Rightarrow> VirtualMemoryArea" where
  "new_area ty prot flags name w = w\<lparr>vma_disallow_merge := has_flag flags MapFlag_NoCoalesce,
      vma_prot := add_read prot, vma_name := name, vma_type := ty, vma_phys_areas := []\<rparr>"

text \<open>One turn of the loop that clears the way for a fixed mapping inside one area.\<close>

lemma create_unmap_one:
  assumes inv: "mm_inv mm1" and vw: "vma_view (vma_map mm1) a \<noteq> None"
    and r: "UnmapBytesFromEntry a v s mm = Some (s, mm1)" and s: "0 < s" "a + s < U64_MOD"
  shows "create_unmap_loop a s v mm = Some mm1"
proof -
  note om = ivl_wf_om_wf [OF vma_wf_inv [OF inv]]
  obtain k v0 where kv: "(k, v0) \<in> set (vma_map mm1)" "k \<le> a" by (rule area_at [OF inv vw], rule that)
  then have "k \<in> fst ` set (vma_map mm1)" "\<not> a + s < k" by (simp_all add: rev_image_eqI)
  then have "om_floor (vma_map mm1) (a + s) \<noteq> None" unfolding om_floor_None [OF om] by blast
  then obtain h where h: "om_floor (vma_map mm1) (a + s) = Some h" by auto
  obtain xs v' ys where "vma_map mm1 = xs @ (h, v') # ys" by (rule om_floor_SomeE [OF om h])
  then have "map_of (vma_map mm1) h = Some v'" using om map_of_at by metis
  then show ?thesis
    using r s h create_unmap_loop.simps [of a s v mm] create_unmap_loop.simps [of "a + s" 0 v' mm1]
    by (simp add: FindVMA_def)
qed

lemma within_vmaE:
  assumes wf: "vma_wf m" and w: "within vma_size m a s" and s: "0 < s"
  obtains k v where "(k, v) \<in> set m" "k \<le> a" "a + s \<le> k + vma_size v" "om_floor m a = Some k" "map_of m k = Some v"
proof -
  obtain k v where kv: "(k, v) \<in> set m" "k \<le> a" "a + s \<le> k + vma_size v" using w by (auto simp: within_def)
  then show thesis using that om_floor_ivl [OF wf kv(1,2)] ivl_wf_lookup [OF wf kv(1)] s by auto
qed

lemma create_area_ok:
  assumes inv: "mm_inv mm" and mem: "(k, v) \<in> set (vma_map mm)" and a: "k \<le> a" "0 < s" "a + s \<le> k + vma_size v"
    and ty: "vma_type v = VFree \<or> has_flag flags MapFlag_Fixed \<and> vma_type v \<noteq> VPooled"
  obtains mm1 X w Y where
    "CreateArea a s prot flags ty name mm = Some (a, mm1\<lparr>vma_map := X @ (a, new_area ty prot flags name w) # Y\<rparr>)"
    "mm_inv mm1" "unmapped mm a s mm1" "vma_wf_in (dmem_map mm1) (fmem_map mm1) (X @ (a, w) # Y)"
    "vma_view (X @ (a, w) # Y) = vma_view (vma_map mm1)" "vma_base w = a" "vma_size w = s"
    "\<forall>lo hi. ivl_contig vma_size (vma_map mm1) lo hi \<longrightarrow> ivl_contig vma_size (X @ (a, w) # Y) lo hi"
proof -
  note wf = vma_wf_inv [OF inv]
  have lim: "a + s < U64_MOD" using ivl_wf_ok [OF wf mem] a by (auto simp: vma_ok_def)
  have mn: "min (k + vma_size v - a) s = s" using a by simp
  have av: "vma_view (vma_map mm) a = Some (vma_byte v (a - k))" using vma_byte_at [OF wf mem, of "a - k"] a by simp
  have ak: "a < k + vma_size v" and np: "vma_type v \<noteq> VPooled" using a(2,3) ty by auto
  obtain mm1 where u: "UnmapBytesFromEntry a v s mm = Some (s, mm1)" "mm_inv mm1" "unmapped mm a s mm1"
      "within vma_size (vma_map mm1) a s"
    by (rule unmap_entry_ok [OF inv mem a(1) ak a(2), unfolded mn], rule that) (use np in blast)+
  note wf1 = vma_wf_inv [OF u(2)]
  have free: "vma_view (vma_map mm1) a = Some (unmap_byte (vma_byte v (a - k)))" 
    using u(3) a(2) av by (simp add: unmapped_def)
  have fl: "FindVMA mm a = Some k" "map_of (vma_map mm) k = Some v"
    using om_floor_ivl [OF wf mem a(1)] ivl_wf_lookup [OF wf mem] a by (auto simp: FindVMA_def)
  have pre: "(if has_flag flags MapFlag_Fixed then create_unmap_loop a s v mm else Some mm) = Some mm1"
  proof (cases "has_flag flags MapFlag_Fixed")
    case True
    then show ?thesis using create_unmap_one [OF u(2) _ u(1) a(2) lim] free by simp
  next
    case False
    then have "vma_type v = VFree" using ty by simp
    then have "mm1 = mm" using u(1) by (simp add: UnmapBytesFromEntry_def Let_def)
    with False show ?thesis by simp
  qed
  obtain k1 v1 where v1: "(k1, v1) \<in> set (vma_map mm1)" "k1 \<le> a" "a + s \<le> k1 + vma_size v1"
      "om_floor (vma_map mm1) a = Some k1" "map_of (vma_map mm1) k1 = Some v1"
    by (rule within_vmaE [OF wf1 u(4) a(2)])
  have "vma_view (vma_map mm1) a = Some (vma_byte v1 (a - k1))"
    using vma_byte_at [OF wf1 v1(1), of "a - k1"] v1 a(2) by simp
  then have isf: "IsFree v1"
    using free ty by (auto simp: IsFree_def vma_byte_def unmap_byte_def free_byte_def split: if_splits)
  have wfin: "vma_wf_in (dmem_map mm1) (fmem_map mm1) (vma_map mm1)" using u(2) by (simp add: mm_inv_def)
  obtain X w Y where c: "ivl_carve vma_size vma_split_parts (vma_map mm1) a s = Some (X @ (a, w) # Y, a)"
    and sm: "vb.same_map (dmem_map mm1) (fmem_map mm1) (vma_map mm1) (X @ (a, w) # Y)"
    and w: "vma_in (dmem_map mm1) (fmem_map mm1) a w" "vma_size w = s" "map_of (X @ (a, w) # Y) a = Some w"
    by (rule vb.carve_ok [OF wfin v1(1,2) a(2) v1(3)])
  have cv: "CarveVMA (vma_map mm1) a s = Some (X @ (a, w) # Y, a)"
    using c CarveVMA_eq [OF wf1 v1(1,2) a(2) v1(3)] by simp
  have wfX: "vma_wf_in (dmem_map mm1) (fmem_map mm1) (X @ (a, w) # Y)" using sm by (simp add: vb.same_map_def)
  have "om_put a (new_area ty prot flags name w) (X @ (a, w) # Y) = X @ (a, new_area ty prot flags name w) # Y"
    by (rule om_put_at [OF ivl_wf_om_wf [OF wfX]])
  then have "CreateArea a s prot flags ty name mm = Some (a, mm1\<lparr>vma_map := X @ (a, new_area ty prot flags name w) # Y\<rparr>)"
    using fl pre v1(4,5) isf cv w(3) by (simp add: CreateArea_def new_area_def FindVMA_def Let_def)
  then show thesis
    by (rule that [OF _ u(2,3) wfX]) (use sm w in \<open>auto simp: vb.same_map_def vma_in_def vma_ok_def\<close>)
qed

section \<open>The new area in the map\<close>

definition new_byte :: "VMAType \<Rightarrow> flags32 \<Rightarrow> flags32 \<Rightarrow> string \<Rightarrow> PhysMap \<Rightarrow> nat \<Rightarrow> byte_info" where
  "new_byte ty prot flags name l i =
     (ty, add_read prot, name, has_flag flags MapFlag_NoCoalesce, iview pa_size backing_byte l i)"

text \<open>
  The physical memory a new area of type \<open>ty\<close> takes from the direct map (the bytes \<open>D\<close>) or the flexible map (the
  bytes \<open>E\<close>), with the recorded areas \<open>l\<close>.
\<close>

definition takes :: "PhysMap \<Rightarrow> PhysMap \<Rightarrow> VMAType \<Rightarrow> u64 \<Rightarrow> u64 set \<Rightarrow> u64 set \<Rightarrow> PhysMap \<Rightarrow> PhysMap \<Rightarrow> PhysMap \<Rightarrow> bool" where
  "takes d f ty s D E l d' f' \<longleftrightarrow>
     gives_back d D PMapped d' \<and> gives_back f E PFlexible f'
     \<and> (\<forall>y\<in>D. \<exists>mt. phys_view d y = Some (PAllocated, mt)) \<and> E \<subseteq> free_flexible f
     \<and> (if ty = VDirect then backs PMapped d' l s \<and> backing_inj l \<and> backing_range l 0 s = D \<and> E = {}
        else if ty = VFlexible then backs PFlexible f' l s \<and> backing_inj l \<and> backing_range l 0 s = E \<and> D = {}
        else l = [] \<and> D = {} \<and> E = {})"

lemma takes_area:
  assumes t: "takes d f ty s D E l d' f'" and ty: "ty \<noteq> VPooled"
    and w: "vma_base w = a" "vma_size w = s" "0 < s" "a + s < U64_MOD"
  shows "vma_in d' f' a ((new_area ty prot flags name w)\<lparr>vma_phys_areas := l\<rparr>)"
  using t ty w
  by (auto simp: takes_def vma_in_def vma_ok_def new_area_def HasPhysicalBacking_def backs_def backed_def split: if_splits)

lemma new_mapped:
  assumes vw: "\<forall>x. vma_view m' x = (if a \<le> x \<and> x < a + s then Some (new_byte ty prot flags name l (x - a)) else vma_view m x)"
  shows "mapped_to m' T x y \<longleftrightarrow> (if a \<le> x \<and> x < a + s then ty \<in> T \<and> backing_at l (x - a) = Some y else mapped_to m T x y)"
  by (auto simp: mapped_to_def vw new_byte_def backing_at_def)

lemma no_alias_new:
  assumes vw: "\<forall>x. vma_view m' x = (if a \<le> x \<and> x < a + s then Some (new_byte ty prot flags name l (x - a)) else vma_view m x)"
    and na: "no_alias m T" and inj: "backing_inj l"
    and dis: "\<And>i x y. ty \<in> T \<Longrightarrow> i < s \<Longrightarrow> backing_at l i = Some y \<Longrightarrow> mapped_to m T x y \<Longrightarrow> False"
  shows "no_alias m' T"
  unfolding no_alias_def
proof (intro allI impI)
  fix x x' y assume x: "mapped_to m' T x y" and x': "mapped_to m' T x' y"
  note X = x [unfolded new_mapped [OF vw]] and X' = x' [unfolded new_mapped [OF vw]]
  show "x = x'"
  proof (cases "(a \<le> x \<and> x < a + s) = (a \<le> x' \<and> x' < a + s)")
    case True
    show ?thesis
    proof (cases "a \<le> x \<and> x < a + s")
      case in_new: True
      then have "x - a = x' - a" using X X' True inj unfolding backing_inj_def by auto
      then show ?thesis using in_new True by auto
    next
      case False
      then show ?thesis using X X' True na unfolding no_alias_def by auto
    qed
  next
    case False
    then consider "a \<le> x \<and> x < a + s" "\<not> (a \<le> x' \<and> x' < a + s)" | "\<not> (a \<le> x \<and> x < a + s)" "a \<le> x' \<and> x' < a + s" by blast
    then show ?thesis
    proof cases
      case 1
      then have "x - a < s" by auto
      then show ?thesis using dis [of "x - a" y x'] X X' 1 by simp
    next
      case 2
      then have "x' - a < s" by auto
      then show ?thesis using dis [of "x' - a" y x] X X' 2 by simp
    qed
  qed
qed

lemma new_area_ok:
  assumes inv: "mm_inv mm" and t: "takes (dmem_map mm) (fmem_map mm) ty s D E l d' f'" and ty: "ty \<noteq> VPooled" and s: "0 < s"
    and wfX: "vma_wf_in (dmem_map mm) (fmem_map mm) (X @ (a, w) # Y)"
    and same: "vma_view (X @ (a, w) # Y) = vma_view (vma_map mm)" and w: "vma_base w = a" "vma_size w = s"
  obtains m' k' where
    "MergeAdjacent_vma (X @ (a, (new_area ty prot flags name w)\<lparr>vma_phys_areas := l\<rparr>) # Y) a = Some (m', k')"
    "\<forall>m. m = m' \<or> m = X @ (a, (new_area ty prot flags name w)\<lparr>vma_phys_areas := l\<rparr>) # Y \<longrightarrow> vma_wf_in d' f' m
       \<and> (\<forall>x. vma_view m x = (if a \<le> x \<and> x < a + s then Some (new_byte ty prot flags name l (x - a)) else vma_view (vma_map mm) x))
       \<and> (\<forall>lo hi. ivl_contig vma_size (X @ (a, w) # Y) lo hi \<longrightarrow> ivl_contig vma_size m lo hi)"
proof -
  let ?w = "(new_area ty prot flags name w)\<lparr>vma_phys_areas := l\<rparr>"
  have kinds: "kinds_agree (dmem_map mm) (fmem_map mm) (vma_map mm)" using inv by (simp add: mm_inv_def)
  have gb: "gives_back (dmem_map mm) D PMapped d'" "gives_back (fmem_map mm) E PFlexible f'"
    and DE: "\<forall>y\<in>D. \<exists>mt. phys_view (dmem_map mm) y = Some (PAllocated, mt)" "E \<subseteq> free_flexible (fmem_map mm)"
    using t by (auto simp: takes_def)
  have notD: "y \<notin> D" if "mapped_to (vma_map mm) {VDirect, VPooled} x y" for x y
    using that kinds DE(1) unfolding kinds_agree_def mapped_to_def by fastforce
  have notE: "y \<notin> E" if "mapped_to (vma_map mm) {VFlexible} x y" for x y
    using that kinds DE(2) unfolding kinds_agree_def mapped_to_def free_flexible_def by fastforce
  have eqm: "mapped_to (X @ (a, w) # Y) = mapped_to (vma_map mm)" by (simp add: fun_eq_iff mapped_to_def same)
  have wf1: "vma_wf_in d' f' (X @ (a, w) # Y)"
    by (rule vma_wf_in_change [OF wfX, where D = D and E = E])
      (use gb notD notE in \<open>auto simp: gives_back_def eqm\<close>)
  have "vma_in d' f' a w" using wf1 by (auto simp: ivl_wf_append)
  then have lim: "a + s < U64_MOD" using w by (auto simp: vma_in_def vma_ok_def)
  have wok: "vma_in d' f' a ?w" by (rule takes_area [OF t ty w s lim])
  have sz: "vma_size ?w = vma_size w" by (simp add: new_area_def)
  note rep = vb.replace_at [OF wf1 wok sz]
  have vw: "vma_view (X @ (a, ?w) # Y) x = (if a \<le> x \<and> x < a + s then Some (new_byte ty prot flags name l (x - a)) else vma_view (vma_map mm) x)" for x
    using rep(2) [of x] w(2) same by (simp add: vma_byte_def new_byte_def new_area_def)
  obtain m' k' v' where mg: "ivl_merge VMA_CanMergeWith vma_grow (X @ (a, ?w) # Y) a = Some (m', k')"
    and co: "vb.coarsens d' f' (X @ (a, ?w) # Y) m'"
    by (rule vb.merge_ok [OF rep(1) vb.keyed_touching [OF vb_keyed], of a ?w], simp, rule that)
  have sm: "vma_wf_in d' f' m'" "vma_view m' = vma_view (X @ (a, ?w) # Y)"
    "\<And>lo hi. ivl_contig vma_size (X @ (a, ?w) # Y) lo hi \<Longrightarrow> ivl_contig vma_size m' lo hi"
    using vb.coarsens_same [OF co] by (auto simp: vb.same_map_def)
  show thesis
    by (rule that [of m' k']) (use mg sm rep(1,3) vw in \<open>auto simp: MergeAdjacent_vma_eq\<close>)
qed

lemma map_finish:
  assumes inv: "mm_inv mm" and t: "takes (dmem_map mm) (fmem_map mm) ty s D E l d' f'"
    and wf: "vma_wf_in d' f' m'"
    and vw: "\<forall>x. vma_view m' x = (if a \<le> x \<and> x < a + s then Some (new_byte ty prot flags name l (x - a)) else vma_view (vma_map mm) x)"
    and mm': "dmem_map mm' = d'" "fmem_map mm' = f'" "vma_map mm' = m'" "flexible_usage mm' = card (used_flexible f')"
    and ty: "ty \<noteq> VPooled"
  shows "mm_inv mm'"
proof -
  have kinds: "kinds_agree (dmem_map mm) (fmem_map mm) (vma_map mm)"
    and na: "no_alias (vma_map mm) {VDirect, VPooled}" "no_alias (vma_map mm) {VFlexible}" using inv by (auto simp: mm_inv_def)
  have gb: "gives_back (dmem_map mm) D PMapped d'" "gives_back (fmem_map mm) E PFlexible f'"
    and DE: "\<forall>y\<in>D. \<exists>mt. phys_view (dmem_map mm) y = Some (PAllocated, mt)" "E \<subseteq> free_flexible (fmem_map mm)"
    using t by (auto simp: takes_def)
  note mp = new_mapped [OF vw]
  have notD: "y \<notin> D" if "mapped_to (vma_map mm) {VDirect, VPooled} x y" for x y
    using that kinds DE(1) unfolding kinds_agree_def mapped_to_def by fastforce
  have notE: "y \<notin> E" if "mapped_to (vma_map mm) {VFlexible} x y" for x y
    using that kinds DE(2) unfolding kinds_agree_def mapped_to_def free_flexible_def by fastforce
  have inj: "backing_inj l" using t by (auto simp: takes_def backing_inj_def backing_at_def split: if_splits)
  have newD: "y \<in> D" if "ty \<in> {VDirect, VPooled}" "backing_at l i = Some y" "i < s" for i y
    using t that ty by (auto simp: takes_def backing_range_def)
  have newE: "y \<in> E" if "ty \<in> {VFlexible}" "backing_at l i = Some y" "i < s" for i y
    using t that by (auto simp: takes_def backing_range_def)
  have "no_alias m' {VDirect, VPooled}"
    by (rule no_alias_new [OF vw na(1) inj]) (use newD notD in blast)
  moreover have "no_alias m' {VFlexible}"
    by (rule no_alias_new [OF vw na(2) inj]) (use newE notE in blast)
  moreover have "kinds_agree d' f' m'"
    unfolding kinds_agree_def
  proof (intro allI impI)
    fix x ty' pr nm dm y mt dt
    assume v: "vma_view m' x = Some (ty', pr, nm, dm, Some (y, mt, dt))"
    show "(ty' = VDirect \<longrightarrow> phys_view d' y = Some (PMapped, mt)) \<and> (ty' = VPooled \<longrightarrow> phys_view d' y = Some (PCommitted, mt))
        \<and> (ty' = VFlexible \<longrightarrow> phys_view f' y = Some (PFlexible, mt))"
    proof (cases "a \<le> x \<and> x < a + s")
      case True
      then have b: "ty' = ty" "iview pa_size backing_byte l (x - a) = Some (y, mt, dt)"
        using v vw by (auto simp: new_byte_def)
      have "phys_view d' y = Some (PMapped, mt)" if "ty = VDirect"
      proof -
        have "backs PMapped d' l s" using t that by (simp add: takes_def)
        then show ?thesis using b(2) unfolding backs_def by blast
      qed
      moreover have "phys_view f' y = Some (PFlexible, mt)" if "ty = VFlexible"
      proof -
        have "backs PFlexible f' l s" using t that by (simp add: takes_def)
        then show ?thesis using b(2) unfolding backs_def by blast
      qed
      ultimately show ?thesis using ty b(1) by simp
    next
      case False
      then have old: "vma_view (vma_map mm) x = Some (ty', pr, nm, dm, Some (y, mt, dt))"
        using v unfolding vw [rule_format] by (simp split: if_splits)
      then have k: "ty' = VDirect \<longrightarrow> phys_view (dmem_map mm) y = Some (PMapped, mt)"
        "ty' = VPooled \<longrightarrow> phys_view (dmem_map mm) y = Some (PCommitted, mt)"
        "ty' = VFlexible \<longrightarrow> phys_view (fmem_map mm) y = Some (PFlexible, mt)"
        using kinds unfolding kinds_agree_def by blast+
      have m1: "mapped_to (vma_map mm) T x y" if "ty' \<in> T" for T unfolding mapped_to_def old using that by blast
      have "phys_view d' y = phys_view (dmem_map mm) y" if "ty' \<in> {VDirect, VPooled}"
        using notD [OF m1 [OF that]] gives_back_view [OF gb(1)] by simp
      moreover have "phys_view f' y = phys_view (fmem_map mm) y" if "ty' \<in> {VFlexible}"
        using notE [OF m1 [OF that]] gives_back_view [OF gb(2)] by simp
      ultimately show ?thesis using k by auto
    qed
  qed
  ultimately show ?thesis using wf gb by (simp add: mm_inv_def mm' gives_back_def)
qed

lemma flexible_room:
  assumes wf: "phys_wf f" and ok: "flex_ok f tot"
  shows "tot \<le> card (used_flexible f) + card (free_flexible f)" "tot < U64_MOD"
proof -
  let ?D = "{y. phys_view f y \<noteq> None}"
  have sub: "?D \<subseteq> {..<U64_MOD - 1}" using view_bound [OF wf] by blast
  have fin: "finite ?D" by (rule finite_subset [OF sub]) simp
  have cd: "card ?D \<le> U64_MOD - 1" using card_mono [OF _ sub] by simp
  have "?D = used_flexible f \<union> free_flexible f"
    using ok by (fastforce simp: flex_ok_def used_flexible_def free_flexible_def)
  then have "card ?D \<le> card (used_flexible f) + card (free_flexible f)" by (simp add: card_Un_le)
  then show "tot \<le> card (used_flexible f) + card (free_flexible f)" "tot < U64_MOD"
    using ok cd by (auto simp: flex_ok_def)
qed

section \<open>Taking the physical memory\<close>

lemma backing_inj_card:
  assumes "card (backing_range l 0 s) = s" "\<And>i. backing_at l i \<noteq> None \<Longrightarrow> i < s"
  shows "backing_inj l"
proof -
  have "backing_range l 0 s \<subseteq> (\<lambda>i. the (backing_at l i)) ` {..<s}"
    unfolding backing_range_def by (auto simp: image_iff) (metis lessThan_iff option.sel)
  then have le: "s \<le> card ((\<lambda>i. the (backing_at l i)) ` {..<s})" using assms(1) card_mono by (metis finite_imageI finite_lessThan)
  then have "inj_on (\<lambda>i. the (backing_at l i)) {..<s}"
    by (intro eq_card_imp_inj_on) (use card_image_le [of "{..<s}" "\<lambda>i. the (backing_at l i)"] in auto)
  then show ?thesis using assms(2) unfolding backing_inj_def inj_on_def by (metis lessThan_iff option.distinct(1) option.sel)
qed

lemma attach_ok:
  assumes wf: "phys_wf (dmem_map mm)" "phys_wf (fmem_map mm)" and s: "0 < s" "a + s < U64_MOD"
    and D: "ty = VDirect \<Longrightarrow> phys + s < U64_MOD \<and> (\<forall>y. phys \<le> y \<and> y < phys + s \<longrightarrow> (\<exists>mt. phys_view (dmem_map mm) y = Some (PAllocated, mt)))"
    and F: "ty = VFlexible \<Longrightarrow> s \<le> card (free_flexible (fmem_map mm)) \<and> flexible_usage mm + s < U64_MOD"
  obtains l d' f' u tr D E where
    "attach_backing ty s phys a ex mm = Some (0, l, mm\<lparr>dmem_map := d', fmem_map := f', flexible_usage := u, trace := tr\<rparr>)"
    "takes (dmem_map mm) (fmem_map mm) ty s D E l d' f'" "u = flexible_usage mm + card E"
    "ty = VDirect \<Longrightarrow> (\<forall>i. i < s \<longrightarrow> backing_at l i = Some (phys + i))" "ty = VFlexible \<Longrightarrow> card E = s"
    "ty = VDirect \<Longrightarrow> D = {phys..<phys + s}" "ty \<noteq> VDirect \<Longrightarrow> D = {}" "ty \<noteq> VFlexible \<Longrightarrow> E = {}"
proof -
  consider "ty = VDirect" | "ty = VFlexible" | "ty \<noteq> VDirect" "ty \<noteq> VFlexible" by blast
  then show thesis
  proof cases
    case 1
    note D = D [OF 1]
    have "phys_view (dmem_map mm) phys \<noteq> None" using D s by fastforce
    then obtain h where h: "om_floor (dmem_map mm) phys = Some h"
      using iview_floorE [OF wf(1)] by metis
    have "\<exists>l' d'. direct_map_loop (Some h) (s - 0) (phys + 0) phys [] mm = Some (0, l', mm\<lparr>dmem_map := d'\<rparr>)
       \<and> gives_back (dmem_map mm) {phys + 0..<phys + s} PMapped d' \<and> backs PMapped d' l' s
       \<and> (\<forall>i. i < s \<longrightarrow> backing_at l' i = Some (phys + i))"
      by (rule direct_loop_ok) (use wf(1) backs_Nil D h in auto)
    then obtain l d' where r: "direct_map_loop (Some h) s phys phys [] mm = Some (0, l, mm\<lparr>dmem_map := d'\<rparr>)"
      "gives_back (dmem_map mm) {phys..<phys + s} PMapped d'" "backs PMapped d' l s" "\<forall>i. i < s \<longrightarrow> backing_at l i = Some (phys + i)"
      by auto
    have inj: "backing_inj l" "backing_range l 0 s = {phys..<phys + s}"
    proof -
      have "y \<in> backing_range l 0 s \<longleftrightarrow> phys \<le> y \<and> y < phys + s" for y
      proof
        assume "phys \<le> y \<and> y < phys + s"
        then have "y - phys < s" "backing_at l (y - phys) = Some y" using r(4) by auto
        then show "y \<in> backing_range l 0 s" unfolding backing_range_def by blast
      qed (use r(4) in \<open>auto simp: backing_range_def\<close>)
      then show rg: "backing_range l 0 s = {phys..<phys + s}" by (simp add: set_eq_iff)
      then have "card (backing_range l 0 s) = s" by simp
      then show "backing_inj l" using backs_bounds [OF r(3)] backing_inj_card [of l s] by blast
    qed
    have A: "attach_backing ty s phys a ex mm = Some (0, l, mm\<lparr>dmem_map := d', fmem_map := fmem_map mm, flexible_usage := flexible_usage mm, trace := trace mm\<rparr>)"
      using r(1) h 1 by (simp add: attach_backing_def FindDmemArea_def)
    have B: "takes (dmem_map mm) (fmem_map mm) ty s {phys..<phys + s} {} l d' (fmem_map mm)"
      using r(2,3) inj D 1 gives_back_refl [OF wf(2)] by (auto simp: takes_def)
    show thesis by (rule that [OF A B]) (use 1 r(4) in auto)
  next
    case 2
    note F = F [OF 2]
    have la: "loop_at (fmem_map mm) (om_begin (fmem_map mm))"
    proof (cases "fmem_map mm")
      case Nil
      then show ?thesis by (simp add: loop_at_def om_begin_def free_flexible_def)
    next
      case (Cons p r)
      have "fst p \<le> y" if "phys_view (p # r) y = Some z" for y z
        using wf(2) that [THEN iview_SomeD] unfolding Cons by (fastforce elim: iview_SomeE)
      then show ?thesis by (auto simp: loop_at_def om_begin_def free_flexible_def Cons simp del: iview.simps)
    qed
    have "\<exists>l' f' tr S. flexible_map_loop (om_begin (fmem_map mm)) s (a + 0) a ex [] mm
       = Some (0, l', mm\<lparr>fmem_map := f', flexible_usage := flexible_usage mm + s, trace := tr\<rparr>)
     \<and> S \<subseteq> free_flexible (fmem_map mm) \<and> card S = s
     \<and> gives_back (fmem_map mm) S PFlexible f' \<and> backs PFlexible f' l' (0 + s)
     \<and> (\<forall>i. i < 0 \<longrightarrow> backing_at l' i = backing_at [] i) \<and> backing_range l' 0 (0 + s) = S"
      by (rule flexible_loop_ok) (use wf(2) backs_Nil la F s in auto)
    then obtain l f' tr S where r: "flexible_map_loop (om_begin (fmem_map mm)) s a a ex [] mm
       = Some (0, l, mm\<lparr>fmem_map := f', flexible_usage := flexible_usage mm + s, trace := tr\<rparr>)"
      "S \<subseteq> free_flexible (fmem_map mm)" "card S = s" "gives_back (fmem_map mm) S PFlexible f'" "backs PFlexible f' l s"
      "backing_range l 0 s = S" unfolding add_0 add_0_right by (elim exE conjE) (rule that)
    have "card (backing_range l 0 s) = s" using r(3,6) by simp
    then have inj: "backing_inj l" by (rule backing_inj_card) (rule backs_bounds [OF r(5), THEN iffD1])
    have A: "attach_backing ty s phys a ex mm = Some (0, l, mm\<lparr>dmem_map := dmem_map mm, fmem_map := f', flexible_usage := flexible_usage mm + s, trace := tr\<rparr>)"
      using r(1) 2 by (simp add: attach_backing_def)
    have B: "takes (dmem_map mm) (fmem_map mm) ty s {} S l (dmem_map mm) f'"
      using r inj 2 gives_back_refl [OF wf(1)] by (auto simp: takes_def)
    show thesis by (rule that [OF A B]) (use 2 r(3) in auto)
  next
    case 3
    have A: "attach_backing ty s phys a ex mm = Some (0, [], mm\<lparr>dmem_map := dmem_map mm, fmem_map := fmem_map mm, flexible_usage := flexible_usage mm, trace := trace mm\<rparr>)"
      using 3 by (simp add: attach_backing_def)
    have B: "takes (dmem_map mm) (fmem_map mm) ty s {} {} [] (dmem_map mm) (fmem_map mm)"
      using 3 gives_back_refl wf by (simp add: takes_def)
    show thesis by (rule that [OF A B]) (use 3 in auto)
  qed
qed

section \<open>The check of the direct memory\<close>

lemma validate_loop_ok:
  assumes "\<forall>p\<in>set l. pa_base (snd p) < e \<longrightarrow> pa_dma_type (snd p) = PAllocated"
  shows "validate_dmem_loop l e b = ORBIS_OK"
  using assms by (induction l) auto

lemma validate_phys_ok:
  assumes wf: "phys_wf (dmem_map mm)" and c: "ivl_contig pa_size (dmem_map mm) 0 (total_direct_size mm)"
    and p: "phys + s \<le> total_direct_size mm" "0 < s"
    and al: "\<forall>y. phys \<le> y \<and> y < phys + s \<longrightarrow> (\<exists>mt. phys_view (dmem_map mm) y = Some (PAllocated, mt))"
  shows "validate_phys mm phys s b = Some ORBIS_OK" "phys + s < U64_MOD"
proof -
  have v: "phys_view (dmem_map mm) (phys + s - 1) \<noteq> None" using al [rule_format, of "phys + s - 1"] p(2) by (cases s) auto
  then have lim: "phys + s < U64_MOD" using view_bound [OF wf v] by simp
  then show "phys + s < U64_MOD" .
  have "phys_view (dmem_map mm) phys \<noteq> None" using al [rule_format, of phys] p(2) by auto
  then obtain xs k v ys where k: "dmem_map mm = xs @ (k, v) # ys" "k \<le> phys" "phys < k + pa_size v"
    "om_floor (dmem_map mm) phys = Some k" "om_from (dmem_map mm) k = (k, v) # ys"
    using iview_floorE [OF wf] by metis
  have "pa_dma_type w = PAllocated" if q: "(h, w) \<in> set ((k, v) # ys)" and lt: "pa_base w < phys + s" for h w
  proof -
    have mem: "(h, w) \<in> set (dmem_map mm)" using q by (auto simp: k(1))
    have ok: "phys_ok h w" using ivl_wf_ok [OF wf mem] by simp
    then have h: "pa_base w = h" "0 < pa_size w" by (auto simp: phys_ok_def)
    have "k \<le> h" using q wf unfolding k(1) by (auto simp: ivl_wf_append)
    moreover have "phys < h + pa_size w"
      using q k(2,3) wf h unfolding k(1) by (auto simp: ivl_wf_append)
    ultimately have "max h phys < h + pa_size w" "h \<le> max h phys" "phys \<le> max h phys" "max h phys < phys + s"
      using h lt p(2) by auto
    moreover from this have "phys_view (dmem_map mm) (max h phys) = Some (pa_dma_type w, pa_memory_type w)"
      using iview_mem [OF wf mem, of "max h phys" phys_kind] by (simp add: phys_kind_def)
    ultimately show ?thesis using al by fastforce
  qed
  then have "validate_dmem_loop ((k, v) # ys) (phys + s) b = ORBIS_OK"
    by (intro validate_loop_ok ballI) (metis prod.collapse)
  then show "validate_phys mm phys s b = Some ORBIS_OK"
    using lim p k(4,5) by (simp add: validate_phys_def u64_minus_one_def FindDmemArea_def)
qed

section \<open>The whole call\<close>

lemma late_gpu_map_ok:
  assumes "rasterizer mm"
  obtains tr where "late_gpu_map a s mm = Some (mm\<lparr>trace := tr\<rparr>)"
proof (cases "IsValidGpuMapping a s")
  case True
  then show thesis using assms by (intro that [of "trace mm @ [GpuMap a s]"]) (simp add: late_gpu_map_def gpu_call_def emit_def)
next
  case False
  then show thesis by (intro that [of "trace mm"]) (simp add: late_gpu_map_def)
qed

lemma used_after:
  assumes gb: "gives_back f E PFlexible f'" and E: "E \<subseteq> free_flexible f" and wf: "phys_wf f"
  shows "card (used_flexible f') = card (used_flexible f) + card E"
proof -
  have "y \<in> used_flexible f' \<longleftrightarrow> y \<in> used_flexible f \<union> E" for y
    using gives_back_view [OF gb, of y] E by (auto simp: used_flexible_def free_flexible_def)
  then have "used_flexible f' = used_flexible f \<union> E" by blast
  moreover have "used_flexible f \<inter> E = {}" using E by (auto simp: used_flexible_def free_flexible_def)
  moreover have "finite E" using finite_subset [OF E free_flexible_sub [OF wf]] .
  ultimately show ?thesis using finite_used [OF wf] by (simp add: card_Un_disjoint)
qed

text \<open>
  The outcome of a mapping of \<open>s\<close> bytes at \<open>a\<close>: by address, exactly the range changes, and it is backed by the
  areas \<open>l\<close>.
\<close>

lemma map_area_ok:
  assumes ok: "mm_ok mm" and mem: "(k, v) \<in> set (vma_map mm)" and a: "k \<le> a" "0 < s" "a + s \<le> k + vma_size v"
    and fx: "vma_type v = VFree \<or> has_flag flags MapFlag_Fixed \<and> vma_type v \<noteq> VPooled" and ty: "ty \<noteq> VPooled"
    and D: "ty = VDirect \<longrightarrow> phys + s < U64_MOD \<and> (\<forall>y. phys \<le> y \<and> y < phys + s \<longrightarrow> (\<exists>mt. phys_view (dmem_map mm) y = Some (PAllocated, mt)))"
    and F: "ty = VFlexible \<longrightarrow> flexible_usage mm + s \<le> total_flexible_size mm"
  obtains mm2 w l mm3 vm' mm4 where
    "CreateArea a s prot flags ty name mm = Some (a, mm2)" "map_of (vma_map mm2) a = Some w" "vma_base w = a"
    "attach_backing ty s phys a ex mm2 = Some (0, l, mm3)"
    "(if b then map_option fst (MergeAdjacent_vma (om_put a (w\<lparr>vma_phys_areas := l\<rparr>) (vma_map mm3)) a)
      else Some (om_put a (w\<lparr>vma_phys_areas := l\<rparr>) (vma_map mm3))) = Some vm'"
    "mm_ok (mm3\<lparr>vma_map := vm'\<rparr>)"
    "\<forall>x. vma_view vm' x = (if a \<le> x \<and> x < a + s then Some (new_byte ty prot flags name l (x - a)) else vma_view (vma_map mm) x)"
    "ty = VDirect \<longrightarrow> (\<forall>i. i < s \<longrightarrow> backing_at l i = Some (phys + i))"
    "mapping_generation mm3 = mapping_generation mm" "rasterizer mm3 = rasterizer mm" "sdk_version mm3 = sdk_version mm"
proof -
  have inv: "mm_inv mm" using ok by (simp add: mm_ok_def)
  obtain mm1 X w Y where c: "CreateArea a s prot flags ty name mm = Some (a, mm1\<lparr>vma_map := X @ (a, new_area ty prot flags name w) # Y\<rparr>)"
    "mm_inv mm1" "unmapped mm a s mm1" "vma_wf_in (dmem_map mm1) (fmem_map mm1) (X @ (a, w) # Y)"
    "vma_view (X @ (a, w) # Y) = vma_view (vma_map mm1)" "vma_base w = a" "vma_size w = s"
    by (rule create_area_ok [OF inv mem a fx], rule that)
  define mm2 where "mm2 = mm1\<lparr>vma_map := X @ (a, new_area ty prot flags name w) # Y\<rparr>"
  have ok1: "mm_ok mm1" by (rule mm_ok_unmapped [OF ok c(2,3)])
  have wf: "phys_wf (dmem_map mm1)" "phys_wf (fmem_map mm1)" "flexible_usage mm1 = card (used_flexible (fmem_map mm1))"
    using c(2) by (auto simp: mm_inv_def)
  have lim: "a + s < U64_MOD" using ivl_wf_ok [OF vma_wf_inv [OF inv] mem] a by (auto simp: vma_ok_def)
  have same: "total_flexible_size mm1 = total_flexible_size mm" "mapping_generation mm1 = mapping_generation mm"
      "rasterizer mm1 = rasterizer mm" "sdk_version mm1 = sdk_version mm"
    and rt: "retyped (dmem_map mm) (released (vma_map mm) {VDirect} a s) PAllocated (dmem_map mm1)"
      "retyped (fmem_map mm) (released (vma_map mm) {VFlexible} a s) PFree (fmem_map mm1)"
    using c(3) by (auto simp: unmapped_def same_config_def)
  have D1: "phys + s < U64_MOD \<and> (\<forall>y. phys \<le> y \<and> y < phys + s \<longrightarrow> (\<exists>mt. phys_view (dmem_map mm2) y = Some (PAllocated, mt)))"
    if "ty = VDirect" using D [rule_format, OF that] rt(1) by (fastforce simp: mm2_def retyped_def)
  have F1: "s \<le> card (free_flexible (fmem_map mm2)) \<and> flexible_usage mm2 + s < U64_MOD" if "ty = VFlexible"
  proof -
    have "card (used_flexible (fmem_map mm1)) \<le> card (used_flexible (fmem_map mm))"
      using rt(2) inv finite_used by (intro card_mono) (auto simp: mm_inv_def used_flexible_def retyped_def split: if_splits)
    then have "flexible_usage mm1 \<le> flexible_usage mm" using wf(3) inv by (simp add: mm_inv_def)
    moreover have "total_flexible_size mm1 \<le> flexible_usage mm1 + card (free_flexible (fmem_map mm1))" "total_flexible_size mm1 < U64_MOD"
      using flexible_room [OF wf(2)] ok1 wf(3) by (auto simp: mm_ok_def)
    ultimately show ?thesis using F [rule_format, OF that] same by (simp add: mm2_def)
  qed
  have m2: "dmem_map mm2 = dmem_map mm1" "fmem_map mm2 = fmem_map mm1" "flexible_usage mm2 = flexible_usage mm1" by (simp_all add: mm2_def)
  obtain l d' f' u tr D' E where at: "attach_backing ty s phys a ex mm2
        = Some (0, l, mm2\<lparr>dmem_map := d', fmem_map := f', flexible_usage := u, trace := tr\<rparr>)"
    and tk: "takes (dmem_map mm2) (fmem_map mm2) ty s D' E l d' f'" and u: "u = flexible_usage mm2 + card E"
    and bat: "ty = VDirect \<Longrightarrow> (\<forall>i. i < s \<longrightarrow> backing_at l i = Some (phys + i))"
    by (rule attach_ok [of mm2 s a ty phys ex]) (use wf a(2) lim D1 F1 m2 in \<open>simp, simp, simp, simp, blast, blast, blast\<close>)
  define mm3 where "mm3 = mm2\<lparr>dmem_map := d', fmem_map := f', flexible_usage := u, trace := tr\<rparr>"
  let ?w = "new_area ty prot flags name w"
  have tk1: "takes (dmem_map mm1) (fmem_map mm1) ty s D' E l d' f'" using tk by (simp add: m2)
  then have gb: "gives_back (dmem_map mm1) D' PMapped d'" "gives_back (fmem_map mm1) E PFlexible f'" "E \<subseteq> free_flexible (fmem_map mm1)"
    by (auto simp: takes_def)
  note om = ivl_wf_om_wf [OF c(4)]
  have om': "om_wf (X @ (a, ?w) # Y)" using om by (simp add: om_wf_append)
  have vm3: "vma_map mm3 = X @ (a, ?w) # Y" by (simp add: mm3_def mm2_def)
  have lk: "map_of (vma_map mm2) a = Some ?w" unfolding mm2_def using map_of_at [OF om'] by simp
  have pt: "om_put a (?w\<lparr>vma_phys_areas := l\<rparr>) (vma_map mm3) = X @ (a, ?w\<lparr>vma_phys_areas := l\<rparr>) # Y"
    unfolding vm3 by (rule om_put_at [OF om'])
  obtain m' k' where mg: "MergeAdjacent_vma (X @ (a, ?w\<lparr>vma_phys_areas := l\<rparr>) # Y) a = Some (m', k')"
    and res: "\<forall>m. m = m' \<or> m = X @ (a, ?w\<lparr>vma_phys_areas := l\<rparr>) # Y \<longrightarrow> vma_wf_in d' f' m
       \<and> (\<forall>x. vma_view m x = (if a \<le> x \<and> x < a + s then Some (new_byte ty prot flags name l (x - a)) else vma_view (vma_map mm1) x))
       \<and> (\<forall>lo hi. ivl_contig vma_size (X @ (a, w) # Y) lo hi \<longrightarrow> ivl_contig vma_size m lo hi)"
    by (rule new_area_ok [where prot = prot and flags = flags and name = name, OF c(2) tk1 ty a(2) c(4-7)])
  define vm' where "vm' = (if b then m' else X @ (a, ?w\<lparr>vma_phys_areas := l\<rparr>) # Y)"
  have vm: "vma_wf_in d' f' vm'"
    "\<forall>x. vma_view vm' x = (if a \<le> x \<and> x < a + s then Some (new_byte ty prot flags name l (x - a)) else vma_view (vma_map mm1) x)"
    using res by (auto simp: vm'_def)
  have inv4: "mm_inv (mm3\<lparr>vma_map := vm'\<rparr>)"
    by (rule map_finish [OF c(2) tk1 vm])
      (use ty u used_after [OF gb(2,3) wf(2)] wf(3) in \<open>simp_all add: mm3_def m2\<close>)
  have "flex_ok f' (total_flexible_size mm1)"
    by (rule flex_ok_retyped [of "fmem_map mm1" _ E PFlexible]) (use ok1 gb in \<open>auto simp: mm_ok_def gives_back_def\<close>)
  then have ok4: "mm_ok (mm3\<lparr>vma_map := vm'\<rparr>)"
    using inv4 ok1 gb(1) by (simp add: mm_ok_def mm3_def mm2_def gives_back_def)
  have "vma_view vm' x = (if a \<le> x \<and> x < a + s then Some (new_byte ty prot flags name l (x - a)) else vma_view (vma_map mm) x)" for x
    using vm(2) c(3) by (simp add: unmapped_def)
  then have vw4: "\<forall>x. vma_view vm' x = (if a \<le> x \<and> x < a + s then Some (new_byte ty prot flags name l (x - a)) else vma_view (vma_map mm) x)"
    by blast
  have base: "vma_base ?w = a" using c(6) by (simp add: new_area_def)
  have mrg: "(if b then map_option fst (MergeAdjacent_vma (om_put a (?w\<lparr>vma_phys_areas := l\<rparr>) (vma_map mm3)) a)
      else Some (om_put a (?w\<lparr>vma_phys_areas := l\<rparr>) (vma_map mm3))) = Some vm'"
    unfolding pt vm'_def using mg by simp
  show thesis
    by (rule that [OF c(1) [folded mm2_def] lk base at [folded mm3_def] mrg ok4 vw4 impI [OF bat]])
      (use same in \<open>simp_all add: mm3_def mm2_def\<close>)
qed

lemma MapMemory_ok:
  assumes ok: "mm_ok mm" and gpu: "rasterizer mm" and ty: "ty \<noteq> VPooled"
    and addr: "choose_address mm va s flags al = Some (Inr a)"
    and area: "(k, v) \<in> set (vma_map mm)" "k \<le> a" "0 < s" "a + s \<le> k + vma_size v"
      "vma_type v = VFree \<or> has_flag flags MapFlag_Fixed \<and> vma_type v \<noteq> VPooled"
    and direct: "ty = VDirect \<longrightarrow> phys + s \<le> total_direct_size mm
        \<and> (\<forall>y. phys \<le> y \<and> y < phys + s \<longrightarrow> (\<exists>mt. phys_view (dmem_map mm) y = Some (PAllocated, mt)))"
    and other: "ty \<noteq> VDirect \<longrightarrow> phys = u64_minus_one"
    and flexible: "ty = VFlexible \<longrightarrow> flexible_usage mm + s \<le> total_flexible_size mm"
  shows "\<exists>mm' l. MapMemory va s prot flags ty name vd phys al mm = Some (ORBIS_OK, Some a, mm') \<and> mm_ok mm'
     \<and> mapping_generation mm' = add64 (add64 (mapping_generation mm) 1) 1
     \<and> (\<forall>x. vma_view (vma_map mm') x = (if a \<le> x \<and> x < a + s then Some (new_byte ty prot flags name l (x - a))
           else vma_view (vma_map mm) x))
     \<and> (ty = VDirect \<longrightarrow> (\<forall>i. i < s \<longrightarrow> backing_at l i = Some (phys + i)))"
proof -
  have inv: "mm_inv mm" and contig: "ivl_contig pa_size (dmem_map mm) 0 (total_direct_size mm)" using ok by (auto simp: mm_ok_def)
  have wf: "phys_wf (dmem_map mm)" "phys_wf (fmem_map mm)" using inv by (auto simp: mm_inv_def)
  have lim: "a + s < U64_MOD" using ivl_wf_ok [OF vma_wf_inv [OF inv] area(1)] area(3,4) by (auto simp: vma_ok_def)
  have val: "validate_phys mm phys s vd = Some ORBIS_OK"
    using other validate_phys_ok(1) [OF wf(1) contig _ area(3)] direct
    by (cases "ty = VDirect") (auto simp: validate_phys_def)
  have "total_flexible_size mm < U64_MOD" using flexible_room(2) [OF wf(2)] ok by (auto simp: mm_ok_def)
  then have room: "\<not> (ty = VFlexible \<and> add64 (flexible_usage mm) s > total_flexible_size mm)"
    using flexible by auto
  obtain tr where e: "early_gpu_unmap a s mm = Some (mm\<lparr>trace := tr\<rparr>)" by (rule early_gpu_unmap_ok [OF gpu])
  define mm1 where "mm1 = BeginMutation (mm\<lparr>trace := tr\<rparr>)"
  have m1: "vma_map mm1 = vma_map mm" "dmem_map mm1 = dmem_map mm" "fmem_map mm1 = fmem_map mm" "flexible_usage mm1 = flexible_usage mm"
    "total_flexible_size mm1 = total_flexible_size mm" "total_direct_size mm1 = total_direct_size mm" "rasterizer mm1 = rasterizer mm"
    "mapping_generation mm1 = add64 (mapping_generation mm) 1"
    by (simp_all add: mm1_def BeginMutation_def)
  have ok1: "mm_ok mm1" by (rule mm_ok_cong [OF ok]) (simp_all add: m1)
  define b where "b = (ty \<noteq> VDirect \<or> u32_of_s32 (sdk_version mm) \<ge> FW_200)"
  have sdk1: "sdk_version mm1 = sdk_version mm" by (simp add: mm1_def BeginMutation_def)
  have D1: "ty = VDirect \<longrightarrow> phys + s < U64_MOD \<and> (\<forall>y. phys \<le> y \<and> y < phys + s \<longrightarrow> (\<exists>mt. phys_view (dmem_map mm1) y = Some (PAllocated, mt)))"
    using direct validate_phys_ok(2) [OF wf(1) contig _ area(3)] by (auto simp: m1)
  have F1: "ty = VFlexible \<longrightarrow> flexible_usage mm1 + s \<le> total_flexible_size mm1" using flexible by (simp add: m1)
  obtain mm2 w l mm3 vm' where r: "CreateArea a s prot flags ty name mm1 = Some (a, mm2)" "map_of (vma_map mm2) a = Some w" "vma_base w = a"
    "attach_backing ty s phys a (has_flag prot MemoryProt_CpuExec) mm2 = Some (0, l, mm3)"
    "(if b then map_option fst (MergeAdjacent_vma (om_put a (w\<lparr>vma_phys_areas := l\<rparr>) (vma_map mm3)) a)
      else Some (om_put a (w\<lparr>vma_phys_areas := l\<rparr>) (vma_map mm3))) = Some vm'"
    "mm_ok (mm3\<lparr>vma_map := vm'\<rparr>)"
    "\<forall>x. vma_view vm' x = (if a \<le> x \<and> x < a + s then Some (new_byte ty prot flags name l (x - a)) else vma_view (vma_map mm1) x)"
    "ty = VDirect \<longrightarrow> (\<forall>i. i < s \<longrightarrow> backing_at l i = Some (phys + i))"
    "mapping_generation mm3 = mapping_generation mm1" "rasterizer mm3 = rasterizer mm1" "sdk_version mm3 = sdk_version mm1"
    by (rule map_area_ok [where b = b, OF ok1 area(1) [folded m1(1)] area(2-5) ty D1 F1], rule that)
  define mm4 where "mm4 = mm3\<lparr>vma_map := vm'\<rparr>"
  define mm5 where "mm5 = FinishMutation (if ty \<noteq> VReserved \<and> ty \<noteq> VPoolReserved \<and> ty \<noteq> VFlexible
      then emit (HostMap a s phys (has_flag prot MemoryProt_CpuExec)) mm4 else mm4)"
  have "rasterizer mm5" using gpu r(10) m1(7) by (simp add: mm5_def mm4_def emit_def FinishMutation_def)
  then obtain tr' where late: "late_gpu_map a s mm5 = Some (mm5\<lparr>trace := tr'\<rparr>)" by (rule late_gpu_map_ok)
  define mm6 where "mm6 = (if ty \<noteq> VReserved \<and> ty \<noteq> VPoolReserved then mm5\<lparr>trace := tr'\<rparr> else mm5)"
  have f6: "vma_map mm6 = vm'" "mapping_generation mm6 = add64 (mapping_generation mm3) 1"
    by (simp_all add: mm6_def mm5_def mm4_def emit_def FinishMutation_def)
  have ok6: "mm_ok mm6"
    by (rule mm_ok_cong [OF r(6)]) (simp_all add: mm6_def mm5_def mm4_def emit_def FinishMutation_def)
  have mrg: "(if ty \<noteq> VDirect \<or> u32_of_s32 (sdk_version mm3) \<ge> FW_200
      then map_option fst (MergeAdjacent_vma (om_put a (w\<lparr>vma_phys_areas := l\<rparr>) (vma_map mm3)) a)
      else Some (om_put a (w\<lparr>vma_phys_areas := l\<rparr>) (vma_map mm3))) = Some vm'"
    using r(5) by (simp add: b_def r(11) sdk1)
  have fin: "(if ty \<noteq> VReserved \<and> ty \<noteq> VPoolReserved then do {
        let mm5 = (if ty \<noteq> VFlexible then emit (HostMap a s phys (has_flag prot MemoryProt_CpuExec)) mm4 else mm4);
        mm6 \<leftarrow> late_gpu_map a s (FinishMutation mm5);
        Some (ORBIS_OK, Some a, mm6)
      } else Some (ORBIS_OK, Some a, FinishMutation mm4)) = Some (ORBIS_OK, Some a, mm6)"
    using late by (auto simp: mm5_def mm6_def Let_def)
  have run: "MapMemory va s prot flags ty name vd phys al mm = Some (ORBIS_OK, Some a, mm6)"
    unfolding MapMemory_def if_not_P [OF room] val bind.simps addr sum.case e mm1_def [symmetric] r(1) prod.case r(2) Let_def r(3,4) mrg
    using fin [unfolded Let_def mm4_def] by simp
  show ?thesis using run ok6 r(7,8,9) f6 m1 by auto
qed

text \<open>
  C1.  \<^verbatim>\<open>MapMemory\<close>, with a rasterizer attached, for a range inside one area that is free, or inside one area
  that is not pooled and a fixed mapping; direct memory that is allocated and not mapped, or enough
  flexible memory.  The call succeeds and returns the chosen address (every loop ends, no assertion fails), the invariant of the
  manager holds again, exactly the bytes of the range change: they get the type, protection (readable when writable), name and merge flag asked for and
  physical memory of their own, which for direct memory is the memory asked for, byte by byte.
\<close>

theorem MapMemory_correct:
  assumes ok: "mm_ok mm" and gpu: "rasterizer mm" and ty: "ty \<noteq> VPooled"
    and addr: "choose_address mm va s flags al = Some (Inr a)"
    and area: "(k, v) \<in> set (vma_map mm)" "k \<le> a" "0 < s" "a + s \<le> k + vma_size v"
      "vma_type v = VFree \<or> has_flag flags MapFlag_Fixed \<and> vma_type v \<noteq> VPooled"
    and direct: "ty = VDirect \<longrightarrow> phys + s \<le> total_direct_size mm
        \<and> (\<forall>y. phys \<le> y \<and> y < phys + s \<longrightarrow> (\<exists>mt. phys_view (dmem_map mm) y = Some (PAllocated, mt)))"
    and other: "ty \<noteq> VDirect \<longrightarrow> phys = u64_minus_one"
    and flexible: "ty = VFlexible \<longrightarrow> flexible_usage mm + s \<le> total_flexible_size mm"
  shows "\<exists>mm' l. MapMemory va s prot flags ty name vd phys al mm = Some (ORBIS_OK, Some a, mm') \<and> mm_ok mm'
     \<and> mapping_generation mm' = add64 (add64 (mapping_generation mm) 1) 1
     \<and> (\<forall>x. vma_view (vma_map mm') x = (if a \<le> x \<and> x < a + s then Some (new_byte ty prot flags name l (x - a))
           else vma_view (vma_map mm) x))
     \<and> (ty = VDirect \<longrightarrow> (\<forall>i. i < s \<longrightarrow> backing_at l i = Some (phys + i)))"
  by (rule MapMemory_ok [OF assms])

theorem MapMemory_correct_witness:
  "\<exists>mm' l. MapMemory 0x500000 0x8000 2 0x10 VFlexible ''heap'' False u64_minus_one 0 demo_mapped = Some (ORBIS_OK, Some 0x500000, mm')
     \<and> mm_ok mm' \<and> vma_view (vma_map mm') 0x504000 = Some (new_byte VFlexible 2 0x10 ''heap'' l 0x4000)"
proof -
  have ch: "choose_address demo_mapped 0x500000 0x8000 0x10 0 = Some (Inr 0x500000)"
    by (simp add: choose_address_def has_flag_def MapFlag_defs)
  have mem: "(0x408000, free_vma 0x408000 0x7FFBF8000) \<in> set (vma_map demo_mapped)" by (simp add: demo_mapped_simps)
  have tot: "total_flexible_size demo_mapped = 0x20000000"
    by (simp add: demo_mapped_def demo_mm_def MemoryManager_init_def Let_def)
  show ?thesis
    using MapMemory_correct [OF demo_mapped_ok demo_mapped_simps(4) _ ch mem, of VFlexible u64_minus_one 2 "''heap''" False]
    by (auto simp: free_vma_def tot demo_mapped_simps(5))
qed

end
