(* ===== verification/Memory_Attributes.thy ===== *)
theory Memory_Attributes
  imports Map_Correct
begin

text \<open>
  \<^verbatim>\<open>NameVirtualRange\<close>, \<^verbatim>\<open>Protect\<close> and \<^verbatim>\<open>MapFile\<close> (\<^verbatim>\<open>src/core/memory.cpp\<close>): the operations that change attributes of areas, and not
  the physical memory behind them, keep the invariant of the manager; what they do to each byte.
\<close>

section \<open>Changing attributes of areas\<close>

text \<open>The parts of a byte that the invariant of the manager speaks about: the type and the physical byte behind it.\<close>

definition byte_use :: "byte_info \<Rightarrow> VMAType \<times> (u64 \<times> s32 \<times> PhysicalMemoryType) option" where
  "byte_use = (\<lambda>(ty, pr, nm, dm, b). (ty, b))"

text \<open>Only attributes of the range changed: \<open>G\<close> on every byte of it.\<close>

definition relabelled :: "(byte_info \<Rightarrow> byte_info) \<Rightarrow> u64 \<Rightarrow> u64 \<Rightarrow> VMAMap \<Rightarrow> VMAMap \<Rightarrow> bool" where
  "relabelled G a s m m' \<longleftrightarrow>
     (\<forall>x. vma_view m' x = (if a \<le> x \<and> x < a + s then map_option G (vma_view m x) else vma_view m x))"

lemma relabelledD: "relabelled G a s m m' \<Longrightarrow>
    vma_view m' x = (if a \<le> x \<and> x < a + s then map_option G (vma_view m x) else vma_view m x)"
  by (simp add: relabelled_def)

lemma relabelled_trans:
  assumes "relabelled G a s m m1" "relabelled G (a + s) t m1 m2"
  shows "relabelled G a (s + t) m m2"
  unfolding relabelled_def
proof
  fix x
  show "vma_view m2 x = (if a \<le> x \<and> x < a + (s + t) then map_option G (vma_view m x) else vma_view m x)"
    using relabelledD [OF assms(1), of x] relabelledD [OF assms(2), of x] by auto
qed

lemma relabelled_covers:
  assumes "relabelled G a s m m'" "covers vma_size m b t"
  shows "covers vma_size m' b t"
proof -
  have "vma_view m' x = None \<longleftrightarrow> vma_view m x = None" for x
    using relabelledD [OF assms(1), of x] by simp
  then show ?thesis using assms(2) unfolding covers_iff [of _ _ _ _ vma_byte] by blast
qed

lemma relabelled_use:
  assumes "relabelled G a s m m'" "\<And>b. byte_use (G b) = byte_use b"
  shows "map_option byte_use (vma_view m' x) = map_option byte_use (vma_view m x)"
  using relabelledD [OF assms(1), of x] assms(2) by (simp add: option.map_comp comp_def)

text \<open>A change of the areas that keeps the use of every byte with physical memory keeps the invariant.\<close>

definition backed_by :: "VMAMap \<Rightarrow> u64 \<Rightarrow> VMAType \<Rightarrow> u64 \<times> s32 \<times> PhysicalMemoryType \<Rightarrow> bool" where
  "backed_by m x ty c \<longleftrightarrow> map_option byte_use (vma_view m x) = Some (ty, Some c)"

lemma backed_by_iff: "backed_by m x ty c \<longleftrightarrow> (\<exists>pr nm dm. vma_view m x = Some (ty, pr, nm, dm, Some c))"
  by (auto simp: backed_by_def byte_use_def)

lemma same_backing_ok:
  assumes ok: "mm_ok mm" and wf: "vma_wf_in (dmem_map mm) (fmem_map mm) m'"
    and use: "\<And>x ty c. backed_by m' x ty c \<longleftrightarrow> backed_by (vma_map mm) x ty c"
  shows "mm_ok (mm\<lparr>vma_map := m'\<rparr>)"
proof -
  note b = use [unfolded backed_by_iff]
  have mt: "mapped_to m' T x y \<longleftrightarrow> mapped_to (vma_map mm) T x y" for T x y
    unfolding mapped_to_def using b by metis
  have "kinds_agree (dmem_map mm) (fmem_map mm) m'"
    unfolding kinds_agree_def
  proof (intro allI impI)
    fix x ty pr nm dm y mt dt
    assume "vma_view m' x = Some (ty, pr, nm, dm, Some (y, mt, dt))"
    then obtain pr' nm' dm' where "vma_view (vma_map mm) x = Some (ty, pr', nm', dm', Some (y, mt, dt))" using b by metis
    then show "(ty = VDirect \<longrightarrow> phys_view (dmem_map mm) y = Some (PMapped, mt)) \<and> (ty = VPooled \<longrightarrow> phys_view (dmem_map mm) y = Some (PCommitted, mt))
        \<and> (ty = VFlexible \<longrightarrow> phys_view (fmem_map mm) y = Some (PFlexible, mt))"
      using ok unfolding mm_ok_def mm_inv_def kinds_agree_def by blast
  qed
  then show ?thesis using ok wf by (simp add: mm_ok_def mm_inv_def no_alias_def mt)
qed

lemma same_use_ok:
  assumes "mm_ok mm" "vma_wf_in (dmem_map mm) (fmem_map mm) m'"
    and "\<And>x. map_option byte_use (vma_view m' x) = map_option byte_use (vma_view (vma_map mm) x)"
  shows "mm_ok (mm\<lparr>vma_map := m'\<rparr>)"
  by (rule same_backing_ok [OF assms(1,2)]) (simp only: backed_by_def assms(3))

section \<open>Naming a range\<close>

definition name_byte :: "string \<Rightarrow> byte_info \<Rightarrow> byte_info" where
  "name_byte name = (\<lambda>(ty, pr, nm, dm, b). (ty, pr, if ty = VFree then nm else name, dm, b))"

lemma name_byte_use: "byte_use (name_byte name b) = byte_use b"
  by (simp add: byte_use_def name_byte_def split_beta)

lemma merge_vma_ok:
  assumes wf: "vma_wf_in d f m" and mem: "(k, v) \<in> set m"
  obtains m' h v' where "MergeAdjacent_vma m k = Some (m', h)" "vma_wf_in d f m'" "vma_view m' = vma_view m"
    "(h, v') \<in> set m'" "h \<le> k" "k + vma_size v \<le> h + vma_size v'"
  by (rule vb.merge_ok [OF wf vb.keyed_touching [OF vb_keyed] mem])
    (auto simp: MergeAdjacent_vma_eq vb.coarsens_def vb.same_map_def intro: that)

lemma carve_whole:
  assumes wf: "vma_wf m" and mem: "(k, v) \<in> set m"
  shows "CarveVMA m k (vma_size v) = Some (m, k)"
proof -
  have "0 < vma_size v" "map_of m k = Some v" using ivl_wf_ok [OF wf mem] ivl_wf_lookup [OF wf mem] by simp_all
  moreover have "om_floor m k = Some k" using \<open>0 < _\<close> by (intro om_floor_ivl [OF wf mem]) auto
  ultimately show ?thesis using CarveVMA_eq [OF wf mem order_refl, of "vma_size v"] by (simp add: ivl_carve_def)
qed

lemma name_step_ok:
  assumes wf: "vma_wf_in d f m" and mem: "(k, v) \<in> set m" and a: "k \<le> a" "0 < s" "a + s \<le> k + vma_size v"
  obtains m1 h1 m' h v' where "name_step k a s name m = Some (h1, m1)" "MergeAdjacent_vma m1 h1 = Some (m', h)" "vma_wf_in d f m'"
    "relabelled (name_byte name) a s m m'" "(h, v') \<in> set m'" "h \<le> a" "a + s \<le> h + vma_size v'"
proof -
  note vw = vma_wf_in_wf [OF wf]
  have look: "map_of m k = Some v" by (rule ivl_wf_lookup [OF vw mem])
  have at: "vma_view m x = Some (vma_byte v (x - k))" if "a \<le> x" "x < a + s" for x
    using vma_byte_at [OF vw mem, of "x - k"] that a by simp
  show thesis
  proof (cases "vma_type v = VFree")
    case True
    obtain m' h v' where r: "MergeAdjacent_vma m k = Some (m', h)" "vma_wf_in d f m'" "vma_view m' = vma_view m"
      "(h, v') \<in> set m'" "h \<le> k" "k + vma_size v \<le> h + vma_size v'"
      by (rule merge_vma_ok [OF wf mem])
    have "relabelled (name_byte name) a s m m'"
      using at True by (simp add: relabelled_def r(3) name_byte_def vma_byte_def)
    then show thesis using r a True look by (intro that [of k m m' h v']) (auto simp: name_step_def IsFree_def)
  next
    case False
    let ?F = "\<lambda>w. w\<lparr>vma_name := name\<rparr>"
    let ?G = "\<lambda>i :: nat. \<lambda>(ty :: VMAType, pr :: flags32, nm :: string, dm :: bool, b :: (u64 \<times> s32 \<times> PhysicalMemoryType) option). (ty, pr, name, dm, b)"
    obtain m' h v' where r: "retag_vma ?F m a s = Some (m', h)" "vma_wf_in d f m'"
      "\<forall>x. vma_view m' x = (if a \<le> x \<and> x < a + s then map_option (?G (x - a)) (vma_view m x) else vma_view m x)"
      "(h, v') \<in> set m'" "h \<le> a" "a + s \<le> h + vma_size v'"
      by (rule retag_vma_ok [OF wf mem a, where F = ?F and G = ?G])
        (auto simp: vma_in_def vma_ok_def HasPhysicalBacking_def vma_byte_def)
    have "relabelled (name_byte name) a s m m'"
      using at False r(3) by (simp add: relabelled_def name_byte_def vma_byte_def)
    moreover obtain m1 h1 where "name_step k a s name m = Some (h1, m1)" "MergeAdjacent_vma m1 h1 = Some (m', h)"
    proof (cases "s < vma_size v")
      case True
      then show thesis using r(1) look False that
        by (auto simp: name_step_def retag_vma_def IsFree_def bind_eq_Some_conv split: prod.splits)
    next
      case whole: False
      then have "a = k" "s = vma_size v" using a by auto
      then show thesis using r(1) look False that carve_whole [OF vw mem]
        by (auto simp: name_step_def retag_vma_def IsFree_def)
    qed
    ultimately show thesis using r that by blast
  qed
qed


lemma advance_past_ok:
  assumes wf: "vma_wf m" and mem: "(h, v) \<in> set m" and c: "h \<le> c" "c \<le> h + vma_size v" and at: "vma_view m c \<noteq> None"
  obtains k w where "advance_past m h c = Some (Some k)" "(k, w) \<in> set m" "k \<le> c" "c < k + vma_size w"
proof -
  have look: "map_of m h = Some v" by (rule ivl_wf_lookup [OF wf mem])
  have ok: "vma_base v = h" "h + vma_size v < U64_MOD" using ivl_wf_ok [OF wf mem] by (auto simp: vma_ok_def)
  then have e: "add64 (vma_base v) (vma_size v) = h + vma_size v" by simp
  show thesis
  proof (cases "c < h + vma_size v")
    case True
    then show thesis using look e mem c by (intro that [of h v]) (auto simp: advance_past_def)
  next
    case False
    obtain xs ys where m: "m = xs @ (h, v) # ys" using mem by (meson split_list)
    obtain b where "vma_view m c = Some b" using at by auto
    then obtain k w where kw: "(k, w) \<in> set m" "k \<le> c" "c < k + vma_size w" by (rule iview_SomeE)
    have gap: "fst p + vma_size (snd p) \<le> h" if "p \<in> set xs" for p
      using wf that unfolding m by (force simp: ivl_wf_append)
    have "(k, w) \<notin> set xs" "(k, w) \<noteq> (h, v)" using gap [of "(k, w)"] kw False c by auto
    then have y: "(k, w) \<in> set ys" using kw(1) m by auto
    then obtain p r where ys: "ys = p # r" by (cases ys) auto
    have wy: "ivl_wf vma_size vma_ok ((h, v) # ys)" using wf unfolding m by (simp add: ivl_wf_append)
    then have "h + vma_size v \<le> fst p" "\<forall>q\<in>set r. fst p + vma_size (snd p) \<le> fst q" "0 < vma_size (snd p)" by (auto simp: ys)
    then have "p = (k, w)" using y kw c False unfolding ys by fastforce
    then have "om_next m h = Some k" using om_next_at [OF ivl_wf_om_wf [OF wf [unfolded m]]] by (simp add: m ys om_begin_def)
    then show thesis using look e False c kw by (intro that [of k w]) (auto simp: advance_past_def)
  qed
qed

lemma name_loop_ok:
  assumes "vma_wf_in d f m" "(k, v) \<in> set m" "k \<le> a" "a < k + vma_size v" "covers vma_size m a n" "a + n < U64_MOD" "0 < n"
  shows "\<exists>m'. name_loop (Some k) a n name m = Some m' \<and> vma_wf_in d f m' \<and> relabelled (name_byte name) a n m m'"
  using assms
proof (induction n arbitrary: k v a m rule: less_induct)
  case (less n)
  note vw = vma_wf_in_wf [OF less.prems(1)]
  have kb: "vma_base v = k" "k + vma_size v < U64_MOD" "map_of m k = Some v"
    using ivl_wf_ok [OF vw less.prems(2)] ivl_wf_lookup [OF vw less.prems(2)] by (auto simp: vma_ok_def)
  define s where "s = min n (k + vma_size v - a)"
  have s: "0 < s" "a + s \<le> k + vma_size v" "s \<le> n" "s < U64_MOD" using less.prems kb(2) by (auto simp: s_def)
  have se: "min n (sub64 (vma_size v) (sub64 a (vma_base v))) = s" using less.prems(3,4) kb by (simp add: s_def)
  have as: "add64 a s = a + s" "sub64 n s = n - s" using s less.prems(6) by auto
  obtain m1 h1 m' h v' where r: "name_step k a s name m = Some (h1, m1)" "MergeAdjacent_vma m1 h1 = Some (m', h)" "vma_wf_in d f m'"
    "relabelled (name_byte name) a s m m'" "(h, v') \<in> set m'" "h \<le> a" "a + s \<le> h + vma_size v'"
    by (rule name_step_ok [OF less.prems(1-3) s(1,2)])
  note vw' = vma_wf_in_wf [OF r(3)]
  note unf = name_loop.simps [of "Some k" a n name m]
  have step: "name_loop (Some k) a n name m = advance_past m' h (a + s) \<bind> (\<lambda>q. name_loop q (a + s) (n - s) name m')"
    using less.prems(7) r(1,2) unfolding unf by (simp add: kb(3) se as)
  have cov: "covers vma_size m' a n" by (rule relabelled_covers [OF r(4) less.prems(5)])
  show ?case
  proof (cases "s < n")
    case True
    have "vma_view m' (a + s) \<noteq> None" by (rule coversD [OF cov]) (use True in auto)
    then obtain k2 v2 where k2: "advance_past m' h (a + s) = Some (Some k2)" "(k2, v2) \<in> set m'" "k2 \<le> a + s" "a + s < k2 + vma_size v2"
      using advance_past_ok [OF vw' r(5) _ r(7)] r(6) by (metis trans_le_add1)
    have "covers vma_size m' (a + s) (n - s)" using cov s(3) by (simp add: covers_def)
    then obtain m2 where IH: "name_loop (Some k2) (a + s) (n - s) name m' = Some m2" "vma_wf_in d f m2" "relabelled (name_byte name) (a + s) (n - s) m' m2"
      using less.IH [OF _ r(3) k2(2-4), of "n - s"] True s less.prems(6) by auto
    have "relabelled (name_byte name) a (s + (n - s)) m m2" by (rule relabelled_trans [OF r(4) IH(3)])
    then show ?thesis using step k2(1) IH True by simp
  next
    case False
    then have e: "s = n" using s(3) by simp
    have fin: "name_loop q c 0 name m' = Some m'" for q c by (cases q) (simp_all add: name_loop.simps)
    obtain q where "advance_past m' h (a + s) = Some q" using ivl_wf_lookup [OF vw' r(5)] by (simp add: advance_past_def)
    then show ?thesis using step r(3,4) fin by (simp add: e)
  qed
qed

lemma NameVirtualRange_ok:
  fixes v n :: u64
  defines "a \<equiv> AlignDown v KB16" and "s \<equiv> AlignUp n KB16"
  assumes ok: "mm_ok mm" and n: "0 < n" "n + KB16 \<le> U64_MOD"
    and cov: "\<forall>x. a \<le> x \<and> x < a + s \<longrightarrow> vma_view (vma_map mm) x \<noteq> None"
  shows "\<exists>m'. NameVirtualRange v n name mm = Some (FinishMutation (BeginMutation mm\<lparr>vma_map := m'\<rparr>))
     \<and> mm_ok (FinishMutation (BeginMutation mm\<lparr>vma_map := m'\<rparr>)) \<and> relabelled (name_byte name) a s (vma_map mm) m'"
proof -
  have inv: "mm_inv mm" and wfin: "vma_wf_in (dmem_map mm) (fmem_map mm) (vma_map mm)" using ok by (auto simp: mm_ok_def mm_inv_def)
  note vw = vma_wf_inv [OF inv]
  have c: "covers vma_size (vma_map mm) a s" using cov by (simp add: covers_iff [of _ _ _ _ vma_byte])
  have s: "0 < s" using AlignUp_ge [OF _ n(2)] n(1) by (simp add: s_def)
  define mm1 where "mm1 = BeginMutation mm"
  have m1: "dmem_map mm1 = dmem_map mm" "fmem_map mm1 = fmem_map mm" "vma_map mm1 = vma_map mm"
    by (simp_all add: mm1_def BeginMutation_def)
  have ok1: "mm_ok mm1" by (rule mm_ok_cong [OF ok]) (simp_all add: mm1_def BeginMutation_def)
  then have inv1: "mm_inv mm1" by (simp add: mm_ok_def)
  have "vma_view (vma_map mm1) a \<noteq> None" unfolding m1 by (rule coversD [OF c]) (use s in auto)
  then obtain k w where kw: "FindVMA mm1 a = Some k" "(k, w) \<in> set (vma_map mm)" "k \<le> a" "a < k + vma_size w"
    using area_at [OF inv1] m1(3) by metis
  obtain m' where r: "name_loop (Some k) a s name (vma_map mm) = Some m'" "vma_wf_in (dmem_map mm) (fmem_map mm) m'"
    "relabelled (name_byte name) a s (vma_map mm) m'"
    using name_loop_ok [OF wfin kw(2-4) c covers_bound [OF vw c s] s] by blast
  have av: "assert_valid mm1 a s = Some ()" by (rule assert_valid_cov [OF vma_wf_inv [OF inv1] s]) (simp add: m1 c)
  have "NameVirtualRange v n name mm = Some (FinishMutation (mm1\<lparr>vma_map := m'\<rparr>))"
    using av kw(1) r(1) by (simp add: NameVirtualRange_def Let_def a_def [symmetric] s_def [symmetric] mm1_def [symmetric] m1)
  moreover have "mm_ok (mm1\<lparr>vma_map := m'\<rparr>)"
    by (rule same_use_ok [OF ok1]) (use r(2) relabelled_use [OF r(3) name_byte_use] in \<open>simp_all add: m1\<close>)
  then have "mm_ok (FinishMutation (mm1\<lparr>vma_map := m'\<rparr>))" by (rule mm_ok_cong) (simp_all add: FinishMutation_def)
  ultimately show ?thesis using r(3) unfolding mm1_def by blast
qed

section \<open>Protecting a range\<close>

definition protect_prot :: "flags32 \<Rightarrow> VMAType \<Rightarrow> flags32" where
  "protect_prot prot ty = (if ty \<in> {VDirect, VPooled, VFile} then add_read prot AND NOT MemoryProt_CpuExec else add_read prot)"

definition protect_byte :: "flags32 \<Rightarrow> byte_info \<Rightarrow> byte_info" where
  "protect_byte prot = (\<lambda>(ty, pr, nm, dm, b). (ty, if ty = VFree \<or> ty = VPoolReserved then pr else protect_prot prot ty, nm, dm, b))"

lemma protect_byte_use: "byte_use (protect_byte prot b) = byte_use b"
  by (simp add: byte_use_def protect_byte_def split_beta)

text \<open>
  A merge erases at most the element it is called for and the one after it; it erases the element itself
  only into one before it.
\<close>

lemma ivl_merge_keeps:
  assumes om: "om_wf m" and r: "ivl_merge can join m a = Some (m', h)" and v: "map_of m a = Some v"
    and k: "map_of m k \<noteq> None" "k \<le> a"
    and no: "\<And>p vp v1. k = a \<Longrightarrow> p < a \<Longrightarrow> map_of m p = Some vp \<Longrightarrow> v1 = v \<or> (\<exists>v'. v1 = join v v') \<Longrightarrow> can vp v1 \<noteq> Some True"
  shows "map_of m' k \<noteq> None"
proof -
  define m1 where "m1 = (case om_next m a of None \<Rightarrow> Some m | Some k' \<Rightarrow> do {
          v' \<leftarrow> map_of m k'; b \<leftarrow> can v v'; Some (if b then om_erase k' (om_put a (join v v') m) else m) })"
  obtain m2 v1 where m2: "m1 = Some m2" "map_of m2 a = Some v1" and prev: "(case om_prev m2 a of
        None \<Rightarrow> Some (m2, a)
      | Some p \<Rightarrow> do {
          vp \<leftarrow> map_of m2 p;
          b \<leftarrow> can vp v1;
          Some (if b then (om_erase a (om_put p (join vp v1) m2), p) else (m2, a)) }) = Some (m', h)"
    using r v unfolding ivl_merge_def m1_def by (auto simp: bind_eq_Some_conv)
  have nx: "om_next m a = Some k' \<Longrightarrow> a < k'" for k' using om_next_SomeD [OF om] by blast
  have om2: "om_wf m2" and v1: "v1 = v \<or> (\<exists>v'. v1 = join v v')" and low: "p < a \<Longrightarrow> map_of m2 p = map_of m p" for p
    using m2 om v nx unfolding m1_def
    by (auto simp: bind_eq_Some_conv map_of_om_erase map_of_om_put om_wf_put om_wf_erase split: option.splits if_splits dest!: nx)
  show ?thesis
  proof (cases "om_prev m2 a")
    case None
    then show ?thesis using prev m2(2) low k by (cases "k = a") auto
  next
    case (Some p)
    then have p: "p < a" using om_prev_SomeD [OF om2] by blast
    obtain vp b where b: "map_of m2 p = Some vp" "can vp v1 = Some b" "m' = (if b then om_erase a (om_put p (join vp v1) m2) else m2)"
      using prev Some by (auto simp: bind_eq_Some_conv split: if_splits)
    have kk: "map_of m2 k \<noteq> None" using m2(2) low k by (cases "k = a") auto
    show ?thesis
    proof (cases "k = a")
      case True
      then have "\<not> b" using no [OF True p _ v1] b low [OF p] by auto
      then show ?thesis using b kk by simp
    next
      case False
      then show ?thesis using b kk om2 by (auto simp: map_of_om_erase map_of_om_put om_wf_put)
    qed
  qed
qed

lemma retag_vma_keeps:
  assumes wf: "vma_wf_in d f m" and mem: "(k, v) \<in> set m" and a: "k \<le> a" "0 < s" "a + s \<le> k + vma_size v"
    and F: "\<And>w. vma_type (F w) = vma_type w" "\<And>w. vma_base (F w) = vma_base w" and r: "retag_vma F m a s = Some (m', h)"
    and start: "k < a \<or> (\<forall>b. vma_view m (k - 1) = Some b \<longrightarrow> fst b \<noteq> vma_type v)"
  shows "map_of m' k \<noteq> None"
proof -
  note vw = vma_wf_in_wf [OF wf]
  obtain X w Y where c: "ivl_carve vma_size vma_split_parts m a s = Some (X @ (a, w) # Y, a)"
    "vb.same_map d f m (X @ (a, w) # Y)" "vma_in d f a w" "vma_size w = s" "map_of (X @ (a, w) # Y) a = Some w"
    "k \<in> fst ` set (X @ (a, w) # Y)"
    by (rule vb.carve_ok [OF wf mem a]) blast
  let ?m = "X @ (a, w) # Y"
  have wf1: "vma_wf_in d f ?m" and view: "vma_view ?m = vma_view m" using c(2) by (auto simp: vb.same_map_def)
  note om = ivl_wf_om_wf [OF wf1]
  have put: "om_put a (F w) ?m = X @ (a, F w) # Y" by (rule om_put_at [OF om])
  have om': "om_wf (X @ (a, F w) # Y)" using om by (simp add: om_wf_append)
  have look: "map_of (X @ (a, F w) # Y) a = Some (F w)" by (rule map_of_at [OF om'])
  have mg: "ivl_merge VMA_CanMergeWith vma_grow (X @ (a, F w) # Y) a = Some (m', h)"
    using r c(1,5) by (simp add: retag_vma_def CarveVMA_eq [OF vw mem a] MergeAdjacent_vma_eq put)
  have other: "map_of (X @ (a, F w) # Y) p = (if p = a then Some (F w) else map_of ?m p)" for p
    using map_of_om_put [OF om, of a "F w"] unfolding put by (simp add: fun_eq_iff)
  show ?thesis
  proof (rule ivl_merge_keeps [OF om' mg look _ a(1)])
    show "map_of (X @ (a, F w) # Y) k \<noteq> None" using c(6) by (auto simp add: map_of_eq_None_iff image_Un simp del: not_None_eq)
  next
    fix p vp v1
    assume p: "k = a" "p < a" "map_of (X @ (a, F w) # Y) p = Some vp" and v1: "v1 = F w \<or> (\<exists>v'. v1 = vma_grow (F w) v')"
    have ty1: "vma_type v1 = vma_type w" "vma_base v1 = vma_base (F w)" using v1 F by (auto simp: vma_grow_def)
    have vp: "(p, vp) \<in> set ?m" using p other [of p] by (metis map_of_SomeD less_irrefl)
    have okp: "vma_ok p vp" using ivl_wf_ok [OF vma_wf_in_wf [OF wf1] vp] by simp
    show "VMA_CanMergeWith vp v1 \<noteq> Some True"
    proof
      assume can: "VMA_CanMergeWith vp v1 = Some True"
      then have t: "vma_type vp = vma_type w" using VMA_CanMergeWith_TrueD ty1 by metis
      have at: "vma_view m (k + 0) = Some (vma_byte v 0)" by (rule vma_byte_at [OF vw mem]) (use a in simp)
      have at': "vma_view ?m (a + 0) = Some (vma_byte w 0)" by (rule vma_byte_at [OF vma_wf_in_wf [OF wf1]]) (use c(4) a in auto)
      have tw: "vma_type w = vma_type v" using at at' p(1) view by (simp add: vma_byte_def)
      have "add64 (vma_base vp) (vma_size vp) = vma_base w" using VMA_CanMergeWith_TrueD [OF can] ty1(2) F(2) by simp
      moreover have "vma_base w = a" using vma_inD [OF c(3)] by (simp add: vma_ok_def)
      ultimately have e: "p + vma_size vp = a" using okp by (simp add: vma_ok_def)
      have "vma_view ?m (p + (vma_size vp - 1)) = Some (vma_byte vp (vma_size vp - 1))"
        by (rule vma_byte_at [OF vma_wf_in_wf [OF wf1] vp]) (use okp in \<open>simp add: vma_ok_def\<close>)
      moreover have "p + (vma_size vp - 1) = k - 1" using e p(1) okp by (simp add: vma_ok_def)
      ultimately have "vma_view m (k - 1) = Some (vma_byte vp (vma_size vp - 1))" using view by simp
      then show False using start p(1) t tw by (auto simp: vma_byte_def)
    qed
  qed
qed


text \<open>
  \<^verbatim>\<open>ProtectBytes\<close> on the area that contains the address: it sets the protection of the part inside the area, and it
  has a meaning if the area does not disappear into the one before it.
\<close>

definition protect_event :: "VMAType \<Rightarrow> flags32 \<Rightarrow> flags32 \<Rightarrow> u64 \<Rightarrow> u64 \<Rightarrow> effect list" where
  "protect_event ty old prot a s =
     (if ty \<in> {VFree, VPoolReserved, VReserved} \<or> prot = old then [] else [HostProtect a s (protect_perms (add_read prot))])"

lemma mm_unchanged: "mm\<lparr>vma_map := vma_map mm\<rparr> = (mm :: MemoryManager)"
  by simp

lemma ProtectBytes_ok:
  assumes ok: "mm_ok mm" and mem: "(k, v) \<in> set (vma_map mm)" and a: "k \<le> a" "a < k + vma_size v" and n: "0 < n"
  defines "s \<equiv> min (k + vma_size v - a) n"
  obtains m' where "vma_wf_in (dmem_map mm) (fmem_map mm) m'" "relabelled (protect_byte prot) a s (vma_map mm) m'"
    "mm_ok (mm\<lparr>vma_map := m'\<rparr>)"
    "ProtectBytes a k n prot mm = None \<or> (\<exists>tr. ProtectBytes a k n prot mm = Some (s, mm\<lparr>vma_map := m', trace := tr\<rparr>))"
    "k < a \<or> (\<forall>b. vma_view (vma_map mm) (k - 1) = Some b \<longrightarrow> fst b \<noteq> vma_type v) \<Longrightarrow>
     ProtectBytes a k n prot mm = Some (s, mm\<lparr>vma_map := m', trace := trace mm @ protect_event (vma_type v) (vma_prot v) prot a s\<rparr>)"
proof -
  have wfin: "vma_wf_in (dmem_map mm) (fmem_map mm) (vma_map mm)" using ok by (auto simp: mm_ok_def mm_inv_def)
  note vw = vma_wf_in_wf [OF wfin]
  have s: "0 < s" "a + s \<le> k + vma_size v" using a n by (auto simp: s_def)
  have kb: "vma_base v = k" "k + vma_size v < U64_MOD" "map_of (vma_map mm) k = Some v"
    using ivl_wf_ok [OF vw mem] ivl_wf_lookup [OF vw mem] by (auto simp: vma_ok_def)
  have se: "min (sub64 (vma_size v) (sub64 a (vma_base v))) n = s" using a kb by (simp add: s_def)
  have at: "vma_view (vma_map mm) x = Some (vma_byte v (x - k))" if "a \<le> x" "x < a + s" for x
    using vma_byte_at [OF vw mem, of "x - k"] that a s by simp
  show thesis
  proof (cases "vma_type v = VFree \<or> vma_type v = VPoolReserved")
    case True
    then have run: "ProtectBytes a k n prot mm = Some (s, mm\<lparr>vma_map := vma_map mm, trace := trace mm\<rparr>)"
      by (auto simp: ProtectBytes_def kb(3) se Let_def)
    have rel: "relabelled (protect_byte prot) a s (vma_map mm) (vma_map mm)"
      using at True by (auto simp: relabelled_def protect_byte_def vma_byte_def)
    have ev: "protect_event (vma_type v) (vma_prot v) prot a s = []" using True by (auto simp: protect_event_def)
    show thesis
      by (rule that [OF wfin rel]) (use ok run in \<open>simp_all only: ev append_Nil2 mm_unchanged, blast\<close>)
  next
    case False
    let ?F = "\<lambda>w. w\<lparr>vma_prot := protect_prot prot (vma_type v)\<rparr>"
    let ?G = "\<lambda>i :: nat. \<lambda>(ty :: VMAType, pr :: flags32, nm :: string, dm :: bool, b :: (u64 \<times> s32 \<times> PhysicalMemoryType) option).
      (ty, protect_prot prot (vma_type v), nm, dm, b)"
    obtain m' h v' where r: "retag_vma ?F (vma_map mm) a s = Some (m', h)" "vma_wf_in (dmem_map mm) (fmem_map mm) m'"
      "\<forall>x. vma_view m' x = (if a \<le> x \<and> x < a + s then map_option (?G (x - a)) (vma_view (vma_map mm) x) else vma_view (vma_map mm) x)"
      by (rule retag_vma_ok [OF wfin mem a(1) s, where F = ?F and G = ?G])
        (auto simp: vma_in_def vma_ok_def HasPhysicalBacking_def vma_byte_def)
    have rel: "relabelled (protect_byte prot) a s (vma_map mm) m'"
      using at False r(3) by (simp add: relabelled_def protect_byte_def vma_byte_def)
    have ok': "mm_ok (mm\<lparr>vma_map := m'\<rparr>)"
      by (rule same_use_ok [OF ok r(2)]) (rule relabelled_use [OF rel protect_byte_use])
    define Q where "Q e = (if vma_type e = VReserved then mm\<lparr>vma_map := m'\<rparr>
          else if prot \<noteq> vma_prot v then emit (HostProtect a s (protect_perms (add_read prot))) (mm\<lparr>vma_map := m'\<rparr>) else mm\<lparr>vma_map := m'\<rparr>)"
      for e :: VirtualMemoryArea
    have run: "ProtectBytes a k n prot mm = map_of m' k \<bind> (\<lambda>e. Some (s, Q e))"
      using False r(1) unfolding ProtectBytes_def kb(3) Let_def bind.bind_lunit se by (simp add: se protect_prot_def Q_def)
    have Q: "Q e = mm\<lparr>vma_map := m', trace := trace mm @ protect_event (vma_type e) (vma_prot v) prot a s\<rparr>"
      if "vma_type e \<noteq> VFree" "vma_type e \<noteq> VPoolReserved" for e
      using that by (simp add: Q_def protect_event_def emit_def)
    show thesis
    proof (rule that [OF r(2) rel ok'])
      have "\<exists>tr. Q e = mm\<lparr>vma_map := m', trace := tr\<rparr>" for e
        by (rule exI [of _ "trace mm @ (if vma_type e \<noteq> VReserved \<and> prot \<noteq> vma_prot v then [HostProtect a s (protect_perms (add_read prot))] else [])"])
          (simp add: emit_def Q_def)
      then show "ProtectBytes a k n prot mm = None \<or> (\<exists>tr. ProtectBytes a k n prot mm = Some (s, mm\<lparr>vma_map := m', trace := tr\<rparr>))"
        unfolding run by (cases "map_of m' k") auto
    next
      assume "k < a \<or> (\<forall>b. vma_view (vma_map mm) (k - 1) = Some b \<longrightarrow> fst b \<noteq> vma_type v)"
      then obtain e where e: "map_of m' k = Some e"
        using retag_vma_keeps [OF wfin mem a(1) s _ _ r(1)] by auto
      have vw': "vma_wf m'" by (rule vma_wf_in_wf [OF r(2)])
      have em: "(k, e) \<in> set m'" using e by (rule map_of_SomeD)
      have "vma_view m' (k + 0) = Some (vma_byte e 0)" by (rule vma_byte_at [OF vw' em]) (use ivl_wf_ok [OF vw' em] in simp)
      moreover have "vma_view (vma_map mm) (k + 0) = Some (vma_byte v 0)" by (rule vma_byte_at [OF vw mem]) (use a in simp)
      ultimately have "vma_type e = vma_type v" using relabelledD [OF rel, of k] by (auto simp: vma_byte_def protect_byte_def split: if_splits)
      then show "ProtectBytes a k n prot mm = Some (s, mm\<lparr>vma_map := m', trace := trace mm @ protect_event (vma_type v) (vma_prot v) prot a s\<rparr>)"
        unfolding run e using False Q [of e] by simp
    qed
  qed
qed

text \<open>The loop of \<^verbatim>\<open>Protect\<close>: when no reference dangles it protects the whole range.\<close>

lemma mm_ok_trace: "mm_ok (mm\<lparr>trace := tr\<rparr>) \<longleftrightarrow> mm_ok mm"
  by (simp add: mm_ok_def mm_inv_def)

lemma protect_loop_ok:
  assumes "mm_ok mm" "covers vma_size (vma_map mm) (a + u) (n - u)" "u < n" "a + n < U64_MOD" "n < 2 ^ 63"
  shows "protect_loop a n prot u mm = None \<or> (\<exists>m' tr. protect_loop a n prot u mm = Some (ORBIS_OK, mm\<lparr>vma_map := m', trace := tr\<rparr>)
     \<and> mm_ok (mm\<lparr>vma_map := m'\<rparr>) \<and> relabelled (protect_byte prot) (a + u) (n - u) (vma_map mm) m')"
  using assms
proof (induction "n - u" arbitrary: u mm rule: less_induct)
  case less
  have inv: "mm_inv mm" using less.prems(1) by (simp add: mm_ok_def)
  have x: "add64 a u = a + u" "sub64 n u = n - u" using less.prems by auto
  obtain k v where kv: "FindVMA mm (a + u) = Some k" "map_of (vma_map mm) k = Some v" "(k, v) \<in> set (vma_map mm)"
    "k \<le> a + u" "a + u < k + vma_size v"
    by (rule area_at [OF inv coversD [OF less.prems(2), of "a + u" vma_byte]]) (use less.prems(3) in auto)
  have base: "vma_base v = k" using ivl_wf_ok [OF vma_wf_inv [OF inv] kv(3)] by (simp add: vma_ok_def)
  have n: "0 < n - u" using less.prems(3) by simp
  define t where "t = min (k + vma_size v - (a + u)) (n - u)"
  have t: "0 < t" "u + t \<le> n" using kv(5) less.prems(3) by (auto simp: t_def)
  obtain m1 where m1: "relabelled (protect_byte prot) (a + u) t (vma_map mm) m1" "mm_ok (mm\<lparr>vma_map := m1\<rparr>)"
    "ProtectBytes (a + u) k (n - u) prot mm = None \<or> (\<exists>tr. ProtectBytes (a + u) k (n - u) prot mm = Some (t, mm\<lparr>vma_map := m1, trace := tr\<rparr>))"
    unfolding t_def by (rule ProtectBytes_ok [OF less.prems(1) kv(3-5) n, where prot = prot])
  note unf = protect_loop.simps [of a n prot u mm]
  have ut: "add64 u t = u + t" "\<not> 9223372036854775808 \<le> t" using t less.prems(4,5) by auto
  show ?case
  proof (cases "ProtectBytes (a + u) k (n - u) prot mm = None")
    case True
    then show ?thesis using kv(1,2,4) less.prems(3) unfolding unf by (simp add: base x)
  next
    case False
    then obtain tr where "ProtectBytes (a + u) k (n - u) prot mm = Some (t, mm\<lparr>vma_map := m1, trace := tr\<rparr>)" using m1(3) by auto
    then have run: "protect_loop a n prot u mm = protect_loop a n prot (u + t) (mm\<lparr>vma_map := m1, trace := tr\<rparr>)"
      using kv(1,2,4) less.prems(3) ut unfolding unf by (simp add: base x)
    show ?thesis
    proof (cases "u + t < n")
      case True
      let ?mm = "mm\<lparr>vma_map := m1, trace := tr\<rparr>"
      have "mm_ok ?mm" using m1(2) mm_ok_trace [of tr "mm\<lparr>vma_map := m1\<rparr>"] by simp
      moreover have "covers vma_size (vma_map mm) (a + (u + t)) (n - (u + t))"
        using less.prems(2) True by (simp add: covers_def)
      then have "covers vma_size (vma_map ?mm) (a + (u + t)) (n - (u + t))" using relabelled_covers [OF m1(1)] by simp
      moreover have "n - (u + t) < n - u" using t True by simp
      ultimately consider "protect_loop a n prot (u + t) ?mm = None"
        | m' tr' where "protect_loop a n prot (u + t) ?mm = Some (ORBIS_OK, ?mm\<lparr>vma_map := m', trace := tr'\<rparr>)"
          "mm_ok (?mm\<lparr>vma_map := m'\<rparr>)" "relabelled (protect_byte prot) (a + (u + t)) (n - (u + t)) m1 m'"
        using less.hyps [of "u + t" ?mm] True less.prems(4,5) by auto
      then show ?thesis
      proof cases
        case (2 m' tr')
        have "relabelled (protect_byte prot) (a + u) (t + (n - (u + t))) (vma_map mm) m'"
          using relabelled_trans [OF m1(1)] 2(3) by (simp add: add.assoc)
        moreover have "t + (n - (u + t)) = n - u" using True by simp
        moreover have "mm_ok (mm\<lparr>vma_map := m'\<rparr>)"
          by (rule mm_ok_cong [OF 2(2)]) simp_all
        ultimately show ?thesis using run 2(1) by auto
      qed (use run in simp)
    next
      case False
      then have e: "t = n - u" using t by simp
      have "protect_loop a n prot (u + t) (mm\<lparr>vma_map := m1, trace := tr\<rparr>) = Some (ORBIS_OK, mm\<lparr>vma_map := m1, trace := tr\<rparr>)"
        using False by (simp add: protect_loop.simps)
      then show ?thesis using run m1(1,2) e by auto
    qed
  qed
qed

lemma Protect_partial:
  assumes ok: "mm_ok mm" and cov: "\<forall>x. a \<le> x \<and> x < a + n \<longrightarrow> vma_view (vma_map mm) x \<noteq> None" and n: "n < 2 ^ 63"
    and run: "Protect a n prot mm = Some (e, mm')"
  shows "e = ORBIS_OK \<and> mm_ok mm' \<and> relabelled (protect_byte prot) a n (vma_map mm) (vma_map mm')"
proof (cases "n = 0")
  case True
  then show ?thesis using run ok by (auto simp: Protect_def relabelled_def)
next
  case False
  have inv: "mm_inv mm" using ok by (simp add: mm_ok_def)
  have c: "covers vma_size (vma_map mm) a n" using cov by (simp add: covers_iff [of _ _ _ _ vma_byte])
  define mm1 where "mm1 = BeginMutation mm"
  have m1: "vma_map mm1 = vma_map mm" by (simp add: mm1_def BeginMutation_def)
  have ok1: "mm_ok mm1" by (rule mm_ok_cong [OF ok]) (simp_all add: mm1_def BeginMutation_def)
  obtain mm2 where r: "protect_loop a n prot 0 mm1 = Some (e, mm2)" "mm' = FinishMutation mm2"
    using run False by (auto simp: Protect_def mm1_def Let_def bind_eq_Some_conv split: prod.splits)
  obtain m' tr where p: "mm2 = mm1\<lparr>vma_map := m', trace := tr\<rparr>" "e = ORBIS_OK" "mm_ok (mm1\<lparr>vma_map := m'\<rparr>)"
      "relabelled (protect_byte prot) a n (vma_map mm) m'"
    using protect_loop_ok [OF ok1, of a 0 n prot] r(1) c covers_bound [OF vma_wf_inv [OF inv] c] False n by (auto simp: m1)
  have "mm_ok mm'" by (rule mm_ok_cong [OF p(3)]) (simp_all add: r(2) p(1) FinishMutation_def)
  then show ?thesis using p by (simp add: r(2) FinishMutation_def)
qed

text \<open>
  C5.  \<^verbatim>\<open>Protect\<close> on a range inside one area.  When the range starts inside the area, or the byte before the area does not
  belong to an area of the same type, the call returns success and keeps the invariant; every byte of the range
  gets the protection \<open>prot\<close> of the request (with read added to write, and without execute for direct, pooled and file memory) unless it is free
  or pool-reserved, no other byte and no other attribute changes, the generation
  advances by two, and the host is asked to change the protection of exactly the range if the area has host memory and the
  request differs from the old protection.  The protection is the one of the request with all its bits, those outside the flags of
  \<^verbatim>\<open>MemoryProt\<close> included: the code says it restricts the flags and computes \<^verbatim>\<open>valid_flags\<close>, but goes on with the
  unrestricted value; for a request within the mask the two agree.
\<close>

theorem Protect_correct:
  assumes ok: "mm_ok mm" and area: "(k, v) \<in> set (vma_map mm)" "k \<le> a" "0 < n" "a + n \<le> k + vma_size v" "n < 2 ^ 63"
    and start: "k < a \<or> (\<forall>b. vma_view (vma_map mm) (k - 1) = Some b \<longrightarrow> fst b \<noteq> vma_type v)"
  shows "\<exists>mm'. Protect a n prot mm = Some (ORBIS_OK, mm') \<and> mm_ok mm'
     \<and> (\<forall>x. vma_view (vma_map mm') x =
          (if a \<le> x \<and> x < a + n then map_option (protect_byte prot) (vma_view (vma_map mm) x) else vma_view (vma_map mm) x))
     \<and> mapping_generation mm' = add64 (add64 (mapping_generation mm) 1) 1
     \<and> trace mm' = trace mm @ protect_event (vma_type v) (vma_prot v) prot a n"
proof -
  define mm1 where "mm1 = BeginMutation mm"
  have m1: "vma_map mm1 = vma_map mm" "trace mm1 = trace mm" "mapping_generation mm1 = add64 (mapping_generation mm) 1"
    by (simp_all add: mm1_def BeginMutation_def)
  have ok1: "mm_ok mm1" by (rule mm_ok_cong [OF ok]) (simp_all add: mm1_def BeginMutation_def)
  then have inv1: "mm_inv mm1" by (simp add: mm_ok_def)
  note vw = vma_wf_inv [OF inv1]
  have mem: "(k, v) \<in> set (vma_map mm1)" and start1: "k < a \<or> (\<forall>b. vma_view (vma_map mm1) (k - 1) = Some b \<longrightarrow> fst b \<noteq> vma_type v)"
    using area start by (simp_all add: m1)
  have a: "a < k + vma_size v" and t: "min (k + vma_size v - a) n = n" using area by auto
  have kb: "vma_base v = k" "k + vma_size v < U64_MOD" "map_of (vma_map mm1) k = Some v" "om_floor (vma_map mm1) a = Some k"
    using ivl_wf_ok [OF vw mem] ivl_wf_lookup [OF vw mem] om_floor_ivl [OF vw mem area(2) a] by (auto simp: vma_ok_def)
  have c: "covers vma_size (vma_map mm1) a n"
    unfolding covers_iff [of _ _ _ _ vma_byte] using iview_mem [OF vw mem, where c = vma_byte] area by auto
  obtain m' where r: "relabelled (protect_byte prot) a n (vma_map mm1) m'" "mm_ok (mm1\<lparr>vma_map := m'\<rparr>)"
      "ProtectBytes a k n prot mm1 = Some (n, mm1\<lparr>vma_map := m', trace := trace mm1 @ protect_event (vma_type v) (vma_prot v) prot a n\<rparr>)"
    by (rule ProtectBytes_ok [OF ok1 mem area(2) a area(3), where prot = prot]) (use start1 in \<open>auto simp: t intro: that\<close>)
  define mm2 where "mm2 = mm1\<lparr>vma_map := m', trace := trace mm1 @ protect_event (vma_type v) (vma_prot v) prot a n\<rparr>"
  have fin: "protect_loop a n prot n mm2 = Some (ORBIS_OK, mm2)" by (simp add: protect_loop.simps)
  have x: "add64 a 0 = a" "sub64 n 0 = n" "add64 0 n = n" "\<not> 9223372036854775808 \<le> n" using area kb(2) by auto
  have "protect_loop a n prot 0 mm1 = Some (ORBIS_OK, mm2)"
    using r(3) kb area(2,3) fin x by (simp add: protect_loop.simps [of a n prot 0] FindVMA_def mm2_def)
  then have "Protect a n prot mm = Some (ORBIS_OK, FinishMutation mm2)"
    using area(3) assert_valid_cov [OF vw area(3) c] by (simp add: Protect_def mm1_def)
  moreover have "mm_ok (FinishMutation mm2)"
    by (rule mm_ok_cong [OF r(2)]) (simp_all add: mm2_def FinishMutation_def)
  ultimately show ?thesis using relabelledD [OF r(1)] by (simp add: mm2_def FinishMutation_def m1)
qed

theorem Protect_correct_witness:
  "\<exists>mm' mm''. Protect 0x404000 0x4000 0x31 demo_mapped = Some (ORBIS_OK, mm')
     \<and> vma_view (vma_map mm') 0x404000 = Some (VDirect, 0x31, ''anon'', False, Some (0x4000, 3, PMapped))
     \<and> vma_view (vma_map mm') 0x403fff = Some (VDirect, 3, ''anon'', False, Some (0x3fff, 3, PMapped))
     \<and> Protect 0x404000 0x4000 0x101 demo_mapped = Some (ORBIS_OK, mm'')
     \<and> vma_view (vma_map mm'') 0x404000 = Some (VDirect, 0x101, ''anon'', False, Some (0x4000, 3, PMapped))"
proof -
  have p: "protect_prot 0x31 VDirect = 0x31" "protect_prot 0x101 VDirect = 0x101"
    by (simp_all add: protect_prot_def add_read_def has_flag_def MemoryProt_CpuWrite_def MemoryProt_CpuRead_def MemoryProt_CpuExec_def)
  have mem: "(0x400000, snd (hd (vma_map demo_mapped))) \<in> set (vma_map demo_mapped)" by (simp add: demo_mapped_simps)
  show ?thesis
    using Protect_correct [OF demo_mapped_ok mem, where a = "0x404000" and n = "0x4000" and prot = "0x31"]
      Protect_correct [OF demo_mapped_ok mem, where a = "0x404000" and n = "0x4000" and prot = "0x101"]
    by (auto simp: protect_byte_def p demo_mapped_simps(3) vma_byte_def backing_byte_def)
qed

text \<open>
  The condition on the start is needed.  Two neighbouring reserved areas differ in their protection; giving the second the
  protection of the first merges it into the first and erases its element, and \<^verbatim>\<open>ProtectBytes\<close> reads the
  type of the erased element after that.
\<close>

definition reserved_vma :: "u64 \<Rightarrow> u64 \<Rightarrow> flags32 \<Rightarrow> VirtualMemoryArea" where
  "reserved_vma base sz prot = (free_vma base sz)\<lparr>vma_type := VReserved, vma_prot := prot\<rparr>"

definition demo_reserved :: MemoryManager where
  "demo_reserved = demo_mm\<lparr>vma_map := [(0x400000, reserved_vma 0x400000 0x4000 3), (0x404000, reserved_vma 0x404000 0x4000 1)]\<rparr>"

lemma Protect_dangling:
  "mm_ok demo_reserved" "IsValidMapping demo_reserved 0x404000 0x4000 = Some True"
  "Protect 0x404000 0x4000 3 demo_reserved = None"
proof -
  have maps: "vma_map demo_reserved = [(0x400000, reserved_vma 0x400000 0x4000 3), (0x404000, reserved_vma 0x404000 0x4000 1)]"
    "fmem_map demo_reserved = [(0x1F0000000, free_phys 0x1F0000000 0x20000000)]"
    "flexible_usage demo_reserved = 0" "dmem_map demo_reserved = [(0, free_phys 0 0x1F0000000)]"
    by (simp_all add: demo_reserved_def demo_mm_def MemoryManager_init_def Let_def)
  have no: "\<not> mapped_to (vma_map demo_reserved) T x y" for T x y
    by (auto simp: mapped_to_def maps vma_byte_def reserved_vma_def free_vma_def split: if_splits)
  have u: "used_flexible (fmem_map demo_reserved) = {}"
    by (auto simp: used_flexible_def maps phys_kind_def free_phys_def split: if_splits)
  have k: "kinds_agree (dmem_map demo_reserved) (fmem_map demo_reserved) (vma_map demo_reserved)"
    using no [of UNIV] unfolding kinds_agree_def mapped_to_def by blast
  have "phys_wf (dmem_map demo_reserved)" "phys_wf (fmem_map demo_reserved)"
    by (simp_all add: maps phys_ok_def free_phys_def)
  moreover have "vma_wf_in (dmem_map demo_reserved) (fmem_map demo_reserved) (vma_map demo_reserved)"
    by (simp add: maps vma_in_def vma_ok_def HasPhysicalBacking_def reserved_vma_def free_vma_def)
  ultimately have "mm_inv demo_reserved" using no k u by (simp add: mm_inv_def no_alias_def maps(3))
  then show "mm_ok demo_reserved"
    using demo_flex by (simp add: mm_ok_def maps) (simp add: demo_reserved_def demo_mm_def MemoryManager_init_def Let_def free_phys_def)
  show "IsValidMapping demo_reserved 0x404000 0x4000 = Some True"
    by (simp add: IsValidMapping_def FindVMA_def om_from_def maps reserved_vma_def free_vma_def Let_def)
  have rt: "retag_vma (\<lambda>v. v\<lparr>vma_prot := 3\<rparr>) (vma_map demo_reserved) 0x404000 0x4000 = Some ([(0x400000, reserved_vma 0x400000 0x8000 3)], 0x400000)"
    by (simp add: retag_vma_def CarveVMA_def maps reserved_vma_def free_vma_def Let_def MergeAdjacent_vma_def VMA_CanMergeWith_def vma_grow_def
        append_areas_def)
  have b: "vma_map (BeginMutation demo_reserved) = vma_map demo_reserved" by (simp add: BeginMutation_def)
  have look: "map_of (vma_map demo_reserved) 0x404000 = Some (reserved_vma 0x404000 0x4000 1)" "om_floor (vma_map demo_reserved) 0x404000 = Some 0x404000"
    by (simp_all add: maps)
  have vma: "vma_base (reserved_vma p q r) = p" "vma_size (reserved_vma p q r) = q" "vma_type (reserved_vma p q r) = VReserved" for p q r
    by (simp_all add: reserved_vma_def free_vma_def)
  have "add_read 3 = 3" by (simp add: add_read_def has_flag_def MemoryProt_defs)
  then have "ProtectBytes 0x404000 0x404000 0x4000 3 (BeginMutation demo_reserved) = None"
    by (simp add: ProtectBytes_def Let_def b look vma rt)
  then show "Protect 0x404000 0x4000 3 demo_reserved = None"
    by (simp add: Protect_def Let_def protect_loop.simps [of "0x404000" "0x4000" 3 0] FindVMA_def b look vma)
qed

section \<open>Mapping a file\<close>

lemma MapFile_keeps:
  assumes ok: "mm_ok mm" and gpu: "rasterizer mm"
    and addr: "choose_address mm va s flags KB16 = Some (Inr a)"
    and area: "(k, v) \<in> set (vma_map mm)" "k \<le> a" "0 < s" "a + s \<le> k + vma_size v"
      "vma_type v = VFree \<or> has_flag flags MapFlag_Fixed \<and> vma_type v \<noteq> VPooled"
    and run: "MapFile GetFile host_page va s prot0 flags fd off mm = Some (e, out, mm')"
  shows "mm_ok mm'"
proof (cases "\<exists>file. GetFile fd = Some file \<and> file_regular file")
  case False
  then show ?thesis using run ok by (auto simp: MapFile_def split: option.splits if_splits)
next
  case True
  then obtain fi where fi: "GetFile fd = Some fi" "file_regular fi" by blast
  define prot where "prot = (if has_flag (file_prot fi prot0) MemoryProt_CpuExec then file_prot fi prot0 AND NOT MemoryProt_CpuExec else file_prot fi prot0)"
  obtain tr where g: "early_gpu_unmap a s mm = Some (mm\<lparr>trace := tr\<rparr>)" by (rule early_gpu_unmap_ok [OF gpu])
  define mm1 where "mm1 = BeginMutation (mm\<lparr>trace := tr\<rparr>)"
  have m1: "vma_map mm1 = vma_map mm" by (simp add: mm1_def BeginMutation_def)
  have ok1: "mm_ok mm1" by (rule mm_ok_cong [OF ok]) (simp_all add: mm1_def BeginMutation_def)
  have inv1: "mm_inv mm1" using ok1 by (simp add: mm_ok_def)
  obtain mm2 X w Y where c: "CreateArea a s prot flags VFile ''anon'' mm1 = Some (a, mm2\<lparr>vma_map := X @ (a, new_area VFile prot flags ''anon'' w) # Y\<rparr>)"
    "mm_inv mm2" "unmapped mm1 a s mm2" "vma_wf_in (dmem_map mm2) (fmem_map mm2) (X @ (a, w) # Y)"
    "vma_view (X @ (a, w) # Y) = vma_view (vma_map mm2)" "vma_base w = a" "vma_size w = s"
    by (rule create_area_ok [OF inv1 area(1) [folded m1] area(2-5)], rule that)
  define w1 where "w1 = (new_area VFile prot flags ''anon'' w)\<lparr>vma_fd := fd\<rparr>"
  have w1: "vma_type w1 = VFile" "vma_phys_areas w1 = []" "vma_size w1 = vma_size w" by (simp_all add: w1_def new_area_def)
  have "vma_in (dmem_map mm2) (fmem_map mm2) a w" using c(4) by (auto simp: ivl_wf_append)
  then have "vma_in (dmem_map mm2) (fmem_map mm2) a w1"
    by (auto simp: vma_in_def vma_ok_def w1_def new_area_def HasPhysicalBacking_def)
  note rep = vb.replace_at [OF c(4) this w1(3)]
  define mm3 where "mm3 = mm2\<lparr>vma_map := X @ (a, w1) # Y\<rparr>"
  have ok2: "mm_ok mm2" by (rule mm_ok_unmapped [OF ok1 c(2,3)])
  have free: "vma_view (vma_map mm2) x = map_option unmap_byte (vma_view (vma_map mm1) x)" if "a \<le> x" "x < a + s" for x
    using c(3) that by (simp add: unmapped_def)
  note mem1 = area(1) [folded m1]
  have old: "vma_view (vma_map mm1) x = Some (vma_byte v (x - k))" if "a \<le> x" "x < a + s" for x
    using vma_byte_at [OF vma_wf_inv [OF inv1] mem1, of "x - k"] that area by simp
  have empty: "vma_phys_areas v = []" if "vma_type v = VFree"
    using ivl_wf_ok [OF vma_wf_inv [OF inv1] mem1] that by (simp add: vma_ok_def HasPhysicalBacking_def)
  have none: "\<not> backed_by (vma_map mm2) x ty q" if "a \<le> x" "x < a + s" for x ty q
    using free [OF that] old [OF that] empty area(5)
    by (auto simp: backed_by_def vma_byte_def unmap_byte_def free_byte_def byte_use_def split: if_splits)
  have new: "\<not> backed_by (X @ (a, w1) # Y) x ty q" if "a \<le> x" "x < a + s" for x ty q
    using rep(2) [of x] that c(7) w1 by (simp add: backed_by_def byte_use_def vma_byte_def)
  have "backed_by (X @ (a, w1) # Y) x ty q \<longleftrightarrow> backed_by (vma_map mm2) x ty q" for x ty q
  proof (cases "a \<le> x \<and> x < a + s")
    case True
    then show ?thesis using none new by blast
  next
    case False
    then have "vma_view (X @ (a, w1) # Y) x = vma_view (vma_map mm2) x" using rep(2) [of x] c(5,7) by auto
    then show ?thesis by (simp only: backed_by_def)
  qed
  then have ok3: "mm_ok mm3" unfolding mm3_def by (rule same_backing_ok [OF ok2 rep(1)])
  have om: "om_wf (X @ (a, new_area VFile prot flags ''anon'' w) # Y)" using ivl_wf_om_wf [OF c(4)] by (simp add: om_wf_append)
  define L where "L = X @ (a, new_area VFile prot flags ''anon'' w) # Y"
  define mm4 where "mm4 = emit (HostMapFile a s (u64_of_s64 off) prot (file_mapping fi)) mm3"
  have r2: "map_of L a = Some (new_area VFile prot flags ''anon'' w)"
    "om_put a w1 L = X @ (a, w1) # Y" "vma_base (new_area VFile prot flags ''anon'' w) = a"
    using om_put_at [OF om] map_of_at [OF om] c(6) by (simp_all add: new_area_def L_def)
  have "mm' = FinishMutation mm4 \<or> (\<exists>p n. mm' = FinishMutation (emit (HostMap p n u64_minus_one False) mm4))"
    using run fi(2)
    unfolding MapFile_def fi(1) option.case Let_def prot_def [symmetric] addr bind.bind_lunit sum.case g mm1_def [symmetric] c(1) [folded L_def] prod.case
    by (auto simp: r2 w1_def [symmetric] mm3_def [symmetric] mm4_def [symmetric] assert_opt_def split: if_splits)
  then have "dmem_map mm' = dmem_map mm3 \<and> fmem_map mm' = fmem_map mm3 \<and> vma_map mm' = vma_map mm3 \<and> flexible_usage mm' = flexible_usage mm3
      \<and> total_direct_size mm' = total_direct_size mm3 \<and> total_flexible_size mm' = total_flexible_size mm3"
    by (auto simp: mm4_def emit_def FinishMutation_def)
  then show ?thesis by (intro mm_ok_cong [OF ok3]) auto
qed

end
