(* ===== verification/Memory_Reachable.thy ===== *)
theory Memory_Reachable
  imports Memory_Attributes
begin

text \<open>
  The states of the memory manager: the constructor establishes the invariant; the allocators, mappings of memory and
  of files, failed mappings, unmappings, protection changes and names keep it, so it holds in every reachable state.
\<close>

section \<open>The initial state\<close>

text \<open>The regions the host reports: in order, disjoint, not empty.\<close>

definition regions_ok :: "(u64 \<times> u64) list \<Rightarrow> bool" where
  "regions_ok rs \<longleftrightarrow> sorted_wrt (\<lambda>r r'. snd r \<le> fst r') rs \<and> (\<forall>r\<in>set rs. fst r < snd r \<and> snd r < U64_MOD)"

lemma init_vma_map:
  assumes "regions_ok rs"
  shows "foldl (\<lambda>m r. om_emplace (fst r) (free_vma (fst r) (sub64 (snd r) (fst r))) m) [] rs
     = map (\<lambda>r. (fst r, free_vma (fst r) (snd r - fst r))) rs"
  using assms
proof (induction rs rule: rev_induct)
  case (snoc r rs)
  have rs: "regions_ok rs" and r: "fst r < snd r" "snd r < U64_MOD" "\<forall>q\<in>set rs. fst q < fst r"
    using snoc.prems by (fastforce simp: regions_ok_def sorted_wrt_append)+
  let ?m = "map (\<lambda>r. (fst r, free_vma (fst r) (snd r - fst r))) rs"
  have key: "\<forall>p\<in>set ?m. fst p < fst r" using r(3) by auto
  then have none: "map_of ?m (fst r) = None" by (force simp: map_of_eq_None_iff)
  have "sorted_wrt (\<lambda>r r'. fst r < fst r') rs"
    by (rule sorted_wrt_mono_rel [of _ "\<lambda>r r'. snd r \<le> fst r'"]) (use rs in \<open>force simp: regions_ok_def\<close>)+
  then have "om_wf ?m" by (simp add: om_wf_def sorted_wrt_map)
  then have "om_put (fst r) v ?m = ?m @ [(fst r, v)]" for v
    by (rule om_put_snoc [OF _ key])
  then show ?case using snoc.IH [OF rs] none r by (simp add: om_emplace_def)
qed simp

lemma free_vmas_wf:
  assumes "regions_ok rs"
  shows "vma_wf_in d f (map (\<lambda>r. (fst r, free_vma (fst r) (snd r - fst r))) rs)"
  using assms
  by (induction rs) (auto simp: regions_ok_def vma_in_def vma_ok_def free_vma_def HasPhysicalBacking_def)

lemma free_vmas_unmapped: "mapped_to (map (\<lambda>r. (fst r, free_vma (fst r) (snd r - fst r))) rs) T x y \<longleftrightarrow> False"
proof -
  have "\<exists>b. vma_view (map (\<lambda>r. (fst r, free_vma (fst r) (snd r - fst r))) rs) x = Some (VFree, b, '''', False, None)
      \<or> vma_view (map (\<lambda>r. (fst r, free_vma (fst r) (snd r - fst r))) rs) x = None"
    by (induction rs) (auto simp: free_vma_def vma_byte_def)
  then show ?thesis by (auto simp: mapped_to_def)
qed

definition init_total :: "s32 \<Rightarrow> u64" where
  "init_total extra_dmem = ORBIS_KERNEL_TOTAL_MEM_DEV_PRO + nat extra_dmem * MB1"

lemma card_one_area:
  assumes "0 < n"
  shows "card {y. phys_view [(b, free_phys b n)] y \<noteq> None} = n"
proof -
  have "{y. phys_view [(b, free_phys b n)] y \<noteq> None} = {b..<b + n}" by (auto simp: free_phys_def)
  then show ?thesis by simp
qed

lemma MemoryManager_init_ok:
  assumes "regions_ok rs" "0 \<le> extra" "extra < 2 ^ 31"
  shows "mm_ok (MemoryManager_init as rs extra sdk)"
proof -
  let ?mm = "MemoryManager_init as rs extra sdk"
  define t where "t = total_direct_size ?mm"
  have t: "t = init_total extra" "t < 2 ^ 52" "0 < t"
  proof -
    have n: "nat extra < 2 ^ 31" "u64_of_s64 extra = nat extra"
      using assms(2,3) by (auto simp: u64_of_s64_def nat_less_iff)
    then show "t = init_total extra" "t < 2 ^ 52" "0 < t"
      by (auto simp: t_def MemoryManager_init_def Let_def init_total_def)
  qed
  have maps: "dmem_map ?mm = [(0, free_phys 0 t)]" "fmem_map ?mm = [(t, free_phys t 0x20000000)]"
    "vma_map ?mm = map (\<lambda>r. (fst r, free_vma (fst r) (snd r - fst r))) rs" "flexible_usage ?mm = 0" "total_flexible_size ?mm = 0x20000000"
    using init_vma_map [OF assms(1)] by (simp_all add: MemoryManager_init_def Let_def t_def)
  have u: "used_flexible (fmem_map ?mm) = {}"
    by (auto simp: used_flexible_def maps phys_kind_def free_phys_def split: if_splits)
  have k: "kinds_agree (dmem_map ?mm) (fmem_map ?mm) (vma_map ?mm)" 
    using free_vmas_unmapped [of rs UNIV] unfolding kinds_agree_def mapped_to_def maps by blast
  have "no_alias (vma_map ?mm) T" for T using free_vmas_unmapped by (simp add: no_alias_def maps)
  moreover have "phys_wf (dmem_map ?mm)" "phys_wf (fmem_map ?mm)"
    using t(2,3) by (simp_all add: maps phys_ok_def free_phys_def)
  moreover have "flex_ok (fmem_map ?mm) (total_flexible_size ?mm)"
    unfolding flex_ok_def maps card_one_area [OF zero_less_numeral]
    by (auto simp: phys_kind_def free_phys_def split: if_splits)
  moreover have "ivl_contig pa_size (dmem_map ?mm) 0 (total_direct_size ?mm)"
    by (simp add: maps t_def [symmetric] free_phys_def)
  moreover have "vma_wf_in (dmem_map ?mm) (fmem_map ?mm) (vma_map ?mm)" unfolding maps(3) by (rule free_vmas_wf [OF assms(1)])
  ultimately show ?thesis using k u by (simp add: mm_ok_def mm_inv_def maps(4))
qed

section \<open>Allocation\<close>

text \<open>A change of the direct map on bytes that were free keeps the invariant.\<close>

lemma dmem_change_ok:
  assumes ok: "mm_ok mm" and m: "phys_wf m" "ivl_contig pa_size m 0 (total_direct_size mm)"
    and sz: "0 < sz" and free: "\<forall>x. r \<le> x \<and> x < r + sz \<longrightarrow> (\<exists>mt. phys_view (dmem_map mm) x = Some (PFree, mt))"
    and vw: "\<forall>x. phys_view m x = (if r \<le> x \<and> x < r + sz then Some k else phys_view (dmem_map mm) x)"
    and wi: "\<forall>b t. within pa_size (dmem_map mm) b t \<longrightarrow> 0 < t \<longrightarrow> b + t \<le> r \<or> r + sz \<le> b \<longrightarrow> within pa_size m b t"
  shows "mm_ok (mm\<lparr>dmem_map := m\<rparr>)"
proof -
  have inv: "mm_inv mm" using ok by (simp add: mm_ok_def)
  have kinds: "kinds_agree (dmem_map mm) (fmem_map mm) (vma_map mm)" and wf: "vma_wf_in (dmem_map mm) (fmem_map mm) (vma_map mm)"
    using inv by (auto simp: mm_inv_def)
  have out: "\<not> (r \<le> y \<and> y < r + sz)" if "mapped_to (vma_map mm) {VDirect, VPooled} x y" for x y
    using that kinds free unfolding kinds_agree_def mapped_to_def by fastforce
  have wm: "within pa_size m b t" if "within pa_size (dmem_map mm) b t" "0 < t" "{b..<b + t} \<inter> {r..<r + sz} = {}" for b t
    using wi that disjoint_run [OF that(2) sz] by (metis Int_commute)
  have "vma_wf_in m (fmem_map mm) (vma_map mm)"
    by (rule vma_wf_in_change [OF wf, where D = "{r..<r + sz}" and E = "{}"]) (use wm out in auto)
  moreover have "kinds_agree m (fmem_map mm) (vma_map mm)"
    unfolding kinds_agree_def
  proof (intro allI impI)
    fix x ty pr nm dm y mt dt
    assume v: "vma_view (vma_map mm) x = Some (ty, pr, nm, dm, Some (y, mt, dt))"
    have "phys_view m y = phys_view (dmem_map mm) y" if "ty \<in> {VDirect, VPooled}"
      using out [of x y] that vw v by (auto simp: mapped_to_def)
    then show "(ty = VDirect \<longrightarrow> phys_view m y = Some (PMapped, mt)) \<and> (ty = VPooled \<longrightarrow> phys_view m y = Some (PCommitted, mt))
        \<and> (ty = VFlexible \<longrightarrow> phys_view (fmem_map mm) y = Some (PFlexible, mt))"
      using kinds v unfolding kinds_agree_def by fastforce
  qed
  ultimately show ?thesis using ok m by (simp add: mm_ok_def mm_inv_def)
qed

lemma fits_dmem_free:
  assumes "phys_wf m" "fits_dmem m al r sz" "r \<le> x" "x < r + sz"
  shows "\<exists>mt. phys_view m x = Some (PFree, mt)"
proof -
  obtain f a where "(f, a) \<in> set m" "pa_dma_type a = PFree" "f \<le> r" "r + sz \<le> f + pa_size a"
    using assms(2) by (auto simp: fits_dmem_def)
  then show ?thesis using free_range_view [OF assms(1), of f a r sz x] assms(3,4) by auto
qed

lemma mm_ok_dmem: "mm_ok mm \<Longrightarrow> dmem_wf mm"
  by (simp add: mm_ok_def mm_inv_def dmem_wf_def)

lemma Allocate_keeps:
  assumes ok: "mm_ok mm" and r: "ss < total_direct_size mm" "0 < sz"
    and lim: "total_direct_size mm + (if al0 > 0 then al0 else KB16) + sz \<le> U64_MOD"
  shows "\<exists>r mm'. Allocate ss se sz al0 mt mm = Some (r, mm') \<and> mm_ok mm'"
  using Allocate_ok [OF mm_ok_dmem [OF ok] r refl lim, of se mt]
proof (elim disjE exE conjE)
  fix q m
  assume run: "Allocate ss se sz al0 mt mm = Some (q, mm\<lparr>dmem_map := m\<rparr>)"
    and fit: "fits_dmem (dmem_map mm) (if al0 > 0 then al0 else KB16) q sz" and dw: "dmem_wf (mm\<lparr>dmem_map := m\<rparr>)"
    and vw: "\<forall>x. phys_view m x = (if q \<le> x \<and> x < q + sz then Some (PAllocated, mt) else phys_view (dmem_map mm) x)"
    and wi: "\<forall>b t. within pa_size (dmem_map mm) b t \<longrightarrow> 0 < t \<longrightarrow> b + t \<le> q \<or> q + sz \<le> b \<longrightarrow> within pa_size m b t"
  have "mm_ok (mm\<lparr>dmem_map := m\<rparr>)"
    by (rule dmem_change_ok [OF ok _ _ r(2) _ vw wi]) (use dw fits_dmem_free [OF _ fit] mm_ok_dmem [OF ok] in \<open>auto simp: dmem_wf_def\<close>)
  then show ?thesis using run by blast
qed (use ok in blast)

lemma PoolExpand_keeps:
  assumes ok: "mm_ok mm" and r: "ss < total_direct_size mm" "0 < sz"
    and lim: "total_direct_size mm + (if al0 > 0 then al0 else KB64) + sz \<le> U64_MOD"
  shows "\<exists>r mm'. PoolExpand ss se sz al0 mm = Some (r, mm') \<and> mm_ok mm'"
  using PoolExpand_ok [OF mm_ok_dmem [OF ok] r refl lim, of se]
proof (elim disjE exE conjE)
  fix q m
  assume run: "PoolExpand ss se sz al0 mm = Some (q, mm\<lparr>dmem_map := m, pool_budget := add64 (pool_budget mm) sz\<rparr>)"
    and fit: "fits_dmem (dmem_map mm) (if al0 > 0 then al0 else KB64) q sz" and dw: "dmem_wf (mm\<lparr>dmem_map := m\<rparr>)"
    and vw: "\<forall>x. phys_view m x = (if q \<le> x \<and> x < q + sz then Some (PPooled, 3) else phys_view (dmem_map mm) x)"
    and wi: "\<forall>b t. within pa_size (dmem_map mm) b t \<longrightarrow> 0 < t \<longrightarrow> b + t \<le> q \<or> q + sz \<le> b \<longrightarrow> within pa_size m b t"
  have "mm_ok (mm\<lparr>dmem_map := m\<rparr>)"
    by (rule dmem_change_ok [OF ok _ _ r(2) _ vw wi]) (use dw fits_dmem_free [OF _ fit] mm_ok_dmem [OF ok] in \<open>auto simp: dmem_wf_def\<close>)
  then have "mm_ok (mm\<lparr>dmem_map := m, pool_budget := add64 (pool_budget mm) sz\<rparr>)"
    by (rule mm_ok_cong) simp_all
  then show ?thesis using run by blast
qed (use ok in blast)

section \<open>Errors of mapping\<close>

lemma validate_dmem_codes:
  "validate_dmem_loop l e b \<in> {ORBIS_OK, ORBIS_KERNEL_ERROR_ENOMEM, ORBIS_KERNEL_ERROR_EBUSY}"
  by (induction l) auto

lemma choose_address_codes:
  "choose_address mm va s flags al = Some (Inl e) \<Longrightarrow> e = ORBIS_KERNEL_ERROR_ENOMEM"
  by (auto simp: choose_address_def Let_def bind_eq_Some_conv split: if_splits)

lemma MapMemory_unchanged:
  assumes "MapMemory va s prot flags ty name vd phys al mm = Some (e, None, mm')"
  shows "mm' = mm \<and> e \<in> {ORBIS_KERNEL_ERROR_EINVAL, ORBIS_KERNEL_ERROR_ENOMEM, ORBIS_KERNEL_ERROR_EBUSY}"
proof (cases "ty = VFlexible \<and> add64 (flexible_usage mm) s > total_flexible_size mm")
  case True
  then show ?thesis using assms by (auto simp: MapMemory_def)
next
  case False
  then obtain err where err: "validate_phys mm phys s vd = Some err"
    using assms by (auto simp: MapMemory_def bind_eq_Some_conv)
  have codes: "err \<in> {ORBIS_OK, ORBIS_KERNEL_ERROR_ENOMEM, ORBIS_KERNEL_ERROR_EBUSY}"
    using err validate_dmem_codes by (auto simp: validate_phys_def bind_eq_Some_conv split: if_splits)
  show ?thesis
  proof (cases "err = ORBIS_OK")
    case False
    then show ?thesis using assms \<open>\<not> (ty = VFlexible \<and> _)\<close> err codes by (auto simp: MapMemory_def)
  next
    case True
    then obtain ch where ch: "choose_address mm va s flags al = Some ch"
      using assms \<open>\<not> (ty = VFlexible \<and> _)\<close> err by (auto simp: MapMemory_def bind_eq_Some_conv)
    show ?thesis
    proof (cases ch)
      case (Inl c)
      then show ?thesis
        using assms \<open>\<not> (ty = VFlexible \<and> _)\<close> err True ch choose_address_codes by (auto simp: MapMemory_def)
    next
      case (Inr a)
      then show ?thesis
        using assms \<open>\<not> (ty = VFlexible \<and> _)\<close> err True ch
        by (auto simp: MapMemory_def Let_def bind_eq_Some_conv split_beta split: if_splits)
    qed
  qed
qed

text \<open>
  C4.  When \<^verbatim>\<open>MapMemory\<close> does not return an address, it returns one of three error codes and the state of the
  manager is exactly what it was: no area has been carved, no memory taken, no generation consumed.
\<close>

theorem MapMemory_error:
  assumes "MapMemory va s prot flags ty name vd phys al mm = Some (e, None, mm')"
  shows "mm' = mm \<and> e \<in> {ORBIS_KERNEL_ERROR_EINVAL, ORBIS_KERNEL_ERROR_ENOMEM, ORBIS_KERNEL_ERROR_EBUSY}"
  by (rule MapMemory_unchanged [OF assms])

theorem MapMemory_error_witness:
  "MapMemory 0x500000 0x40000000 2 0x10 VFlexible ''heap'' False u64_minus_one 0 demo_mapped
     = Some (ORBIS_KERNEL_ERROR_EINVAL, None, demo_mapped)
   \<and> ORBIS_KERNEL_ERROR_EINVAL \<in> {ORBIS_KERNEL_ERROR_EINVAL, ORBIS_KERNEL_ERROR_ENOMEM, ORBIS_KERNEL_ERROR_EBUSY}"
proof -
  have tot: "total_flexible_size demo_mapped = 0x20000000"
    by (simp add: demo_mapped_def demo_mm_def MemoryManager_init_def Let_def)
  have run: "MapMemory 0x500000 0x40000000 2 0x10 VFlexible ''heap'' False u64_minus_one 0 demo_mapped
     = Some (ORBIS_KERNEL_ERROR_EINVAL, None, demo_mapped)"
    by (simp add: MapMemory_def tot demo_mapped_simps(5))
  with MapMemory_error [OF run] show ?thesis by simp
qed

section \<open>Reachable states\<close>

text \<open>What the check of the direct memory establishes: all of it is allocated, or mapped when the caller did not ask for the full check.\<close>

lemma validate_loop_passed:
  assumes "validate_dmem_loop l e b = ORBIS_OK" "sorted_wrt (\<lambda>p q. pa_base (snd p) \<le> pa_base (snd q)) l"
    "(k, a) \<in> set l" "pa_base a < e"
  shows "pa_dma_type a = PAllocated \<or> \<not> b \<and> pa_dma_type a = PMapped"
  using assms
proof (induction l)
  case (Cons p l)
  have "pa_base (snd p) < e"
    using Cons.prems by fastforce
  then show ?case
    using Cons by (auto simp: orbis_errors split: if_splits)
qed simp

lemma validate_phys_passed:
  assumes ok: "mm_ok mm" and val: "validate_phys mm phys s vd = Some ORBIS_OK"
    and p: "phys + s < U64_MOD" "0 < s" and y: "phys \<le> y" "y < phys + s"
  shows "phys + s \<le> total_direct_size mm"
    "\<exists>mt. phys_view (dmem_map mm) y = Some (PAllocated, mt) \<or> \<not> vd \<and> phys_view (dmem_map mm) y = Some (PMapped, mt)"
proof -
  have wf: "phys_wf (dmem_map mm)" and c: "ivl_contig pa_size (dmem_map mm) 0 (total_direct_size mm)"
    using ok by (auto simp: mm_ok_def mm_inv_def)
  have ne: "phys \<noteq> u64_minus_one"
    using p by (auto simp: u64_minus_one_def)
  show tot: "phys + s \<le> total_direct_size mm"
  proof (rule ccontr)
    assume "\<not> phys + s \<le> total_direct_size mm"
    then have "validate_phys mm phys s vd = Some ORBIS_KERNEL_ERROR_ENOMEM"
      using ne p(1) by (simp add: validate_phys_def)
    then show False
      using val by (simp add: orbis_errors)
  qed
  have cover: "phys_view (dmem_map mm) z \<noteq> None" if "z < total_direct_size mm" for z
    using ivl_contig_view [OF c, of phys_kind z] that by simp
  have "phys_view (dmem_map mm) phys \<noteq> None"
    using cover [of phys] tot p(2) by simp
  then obtain xs h v ys where h: "dmem_map mm = xs @ (h, v) # ys" "h \<le> phys" "phys < h + pa_size v"
      "om_floor (dmem_map mm) phys = Some h" "om_from (dmem_map mm) h = (h, v) # ys"
    using iview_floorE [OF wf] by metis
  have loop: "validate_dmem_loop ((h, v) # ys) (phys + s) vd = ORBIS_OK"
    using val ne tot p(1) h(4,5) by (simp add: validate_phys_def FindDmemArea_def)
  have base: "pa_base a = k" if "(k, a) \<in> set (dmem_map mm)" for k a
    using ivl_wf_ok [OF wf that] by (simp add: phys_ok_def)
  have "sorted_wrt (\<lambda>p q. fst p < fst q) (dmem_map mm)"
    using ivl_wf_om_wf [OF wf] by (simp add: om_wf_def)
  then have "sorted_wrt (\<lambda>p q. fst p < fst q) ((h, v) # ys)"
    unfolding h(1) by (simp add: sorted_wrt_append)
  moreover have "pa_base (snd p) \<le> pa_base (snd q)" if "p \<in> set ((h, v) # ys)" "q \<in> set ((h, v) # ys)" "fst p < fst q" for p q
  proof -
    have "p \<in> set (dmem_map mm)" "q \<in> set (dmem_map mm)"
      using that(1,2) by (auto simp: h(1))
    then show ?thesis
      using base [of "fst p" "snd p"] base [of "fst q" "snd q"] that(3) by simp
  qed
  ultimately have srt: "sorted_wrt (\<lambda>p q. pa_base (snd p) \<le> pa_base (snd q)) ((h, v) # ys)"
    by (rule sorted_wrt_mono_rel [rotated])
  obtain k a where k: "(k, a) \<in> set (dmem_map mm)" "k \<le> y" "y < k + pa_size a"
    using ivl_contig_cover [OF c, of y] tot y by auto
  have "(k, a) \<in> set ((h, v) # ys)"
    using k h(2) y(1) wf unfolding h(1) by (auto simp: ivl_wf_append)
  from validate_loop_passed [OF loop srt this] have "pa_dma_type a = PAllocated \<or> \<not> vd \<and> pa_dma_type a = PMapped"
    using base [OF k(1)] k(2) y(2) by simp
  moreover have "phys_view (dmem_map mm) y = Some (pa_dma_type a, pa_memory_type a)"
    using iview_mem [OF wf k(1), of y phys_kind] k(2,3) by (simp add: phys_kind_def)
  ultimately show "\<exists>mt. phys_view (dmem_map mm) y = Some (PAllocated, mt) \<or> \<not> vd \<and> phys_view (dmem_map mm) y = Some (PMapped, mt)"
    by auto
qed

text \<open>
  One call of the manager: an allocation of direct or pooled memory; a mapping, whether it fails or not, of a range
  that lies in one area which is free or, for a fixed address, not pooled; the unmapping and the naming of ranges all of whose pages lie
  in areas; a change of protection on such a range; the mapping of a file; the change of a PRT aperture; the start of the rasterizer.
  Sums of addresses and sizes do not wrap.  For direct memory either \<open>vd\<close> is true, so that the code itself makes sure that the memory is
  not mapped yet, or it is a condition of the rule that it is not: without the check the manager accepts memory that
  is mapped already (\<open>MapMemory_alias\<close> below).
\<close>

inductive mm_call :: "MemoryManager \<Rightarrow> MemoryManager \<Rightarrow> bool" where
  allocate: "ss < total_direct_size mm \<Longrightarrow> 0 < sz \<Longrightarrow>
     total_direct_size mm + (if al0 > 0 then al0 else KB16) + sz \<le> U64_MOD \<Longrightarrow>
     Allocate ss se sz al0 mt mm = Some (r, mm') \<Longrightarrow> mm_call mm mm'"
| pool_expand: "ss < total_direct_size mm \<Longrightarrow> 0 < sz \<Longrightarrow>
     total_direct_size mm + (if al0 > 0 then al0 else KB64) + sz \<le> U64_MOD \<Longrightarrow>
     PoolExpand ss se sz al0 mm = Some (r, mm') \<Longrightarrow> mm_call mm mm'"
| map: "rasterizer mm \<Longrightarrow> ty \<noteq> VPooled \<Longrightarrow> choose_address mm va s flags al = Some (Inr a) \<Longrightarrow>
     (k, v) \<in> set (vma_map mm) \<Longrightarrow> k \<le> a \<Longrightarrow> 0 < s \<Longrightarrow> a + s \<le> k + vma_size v \<Longrightarrow>
     vma_type v = VFree \<or> has_flag flags MapFlag_Fixed \<and> vma_type v \<noteq> VPooled \<Longrightarrow>
     ty = VDirect \<longrightarrow> phys + s < U64_MOD
        \<and> (vd \<or> (\<forall>y mt. phys \<le> y \<and> y < phys + s \<longrightarrow> phys_view (dmem_map mm) y \<noteq> Some (PMapped, mt))) \<Longrightarrow>
     ty \<noteq> VDirect \<longrightarrow> phys = u64_minus_one \<Longrightarrow>
     flexible_usage mm + s < U64_MOD \<Longrightarrow>
     MapMemory va s prot flags ty name vd phys al mm = Some (e, out, mm') \<Longrightarrow> mm_call mm mm'"
| map_error: "MapMemory va s prot flags ty name vd phys al mm = Some (e, None, mm') \<Longrightarrow> mm_call mm mm'"
| unmap: "rasterizer mm \<Longrightarrow> n + KB16 \<le> U64_MOD \<Longrightarrow>
     (\<forall>x. AlignDown v KB16 \<le> x \<and> x < AlignDown v KB16 + AlignUp n KB16 \<longrightarrow> vma_view (vma_map mm) x \<noteq> None) \<Longrightarrow>
     UnmapMemory v n mm = Some (e, mm') \<Longrightarrow> mm_call mm mm'"
| protect: "n < 2 ^ 63 \<Longrightarrow> (\<forall>x. a \<le> x \<and> x < a + n \<longrightarrow> vma_view (vma_map mm) x \<noteq> None) \<Longrightarrow>
     Protect a n prot mm = Some (e, mm') \<Longrightarrow> mm_call mm mm'"
| name_range: "0 < n \<Longrightarrow> n + KB16 \<le> U64_MOD \<Longrightarrow>
     (\<forall>x. AlignDown v KB16 \<le> x \<and> x < AlignDown v KB16 + AlignUp n KB16 \<longrightarrow> vma_view (vma_map mm) x \<noteq> None) \<Longrightarrow>
     NameVirtualRange v n name mm = Some mm' \<Longrightarrow> mm_call mm mm'"
| map_file: "rasterizer mm \<Longrightarrow> choose_address mm va s flags KB16 = Some (Inr a) \<Longrightarrow>
     (k, v) \<in> set (vma_map mm) \<Longrightarrow> k \<le> a \<Longrightarrow> 0 < s \<Longrightarrow> a + s \<le> k + vma_size v \<Longrightarrow>
     vma_type v = VFree \<or> has_flag flags MapFlag_Fixed \<and> vma_type v \<noteq> VPooled \<Longrightarrow>
     MapFile GetFile host_page va s prot flags fd off mm = Some (e, out, mm') \<Longrightarrow> mm_call mm mm'"
| prt: "SetPrtArea i address sz mm = Some mm' \<Longrightarrow> mm_call mm mm'"
| attach: "mm_call mm (SetRasterizer True mm)"

inductive_cases mm_callE: "mm_call mm mm'"

inductive reachable :: "MemoryManager \<Rightarrow> bool" where
  init: "regions_ok rs \<Longrightarrow> 0 \<le> extra \<Longrightarrow> extra < 2 ^ 31 \<Longrightarrow> reachable (MemoryManager_init as rs extra sdk)"
| call: "reachable mm \<Longrightarrow> mm_call mm mm' \<Longrightarrow> reachable mm'"

lemma MapMemory_checked:
  assumes "MapMemory va s prot flags ty name vd phys al mm = Some (e, Some a, mm')" "flexible_usage mm + s < U64_MOD"
  shows "validate_phys mm phys s vd = Some ORBIS_OK" "ty = VFlexible \<longrightarrow> flexible_usage mm + s \<le> total_flexible_size mm"
proof -
  show "ty = VFlexible \<longrightarrow> flexible_usage mm + s \<le> total_flexible_size mm"
    using assms by (auto simp: MapMemory_def split: if_splits)
  then have "\<not> (ty = VFlexible \<and> add64 (flexible_usage mm) s > total_flexible_size mm)"
    using assms(2) by auto
  then show "validate_phys mm phys s vd = Some ORBIS_OK"
    using assms(1) unfolding MapMemory_def by (auto simp: bind_eq_Some_conv split: if_splits)
qed

lemma map_keeps:
  assumes ok: "mm_ok mm" and gpu: "rasterizer mm" and ty: "ty \<noteq> VPooled" and ch: "choose_address mm va s flags al = Some (Inr a)"
    and area: "(k, v) \<in> set (vma_map mm)" "k \<le> a" "0 < s" "a + s \<le> k + vma_size v"
      "vma_type v = VFree \<or> has_flag flags MapFlag_Fixed \<and> vma_type v \<noteq> VPooled"
    and direct: "ty = VDirect \<longrightarrow> phys + s < U64_MOD
        \<and> (vd \<or> (\<forall>y mt. phys \<le> y \<and> y < phys + s \<longrightarrow> phys_view (dmem_map mm) y \<noteq> Some (PMapped, mt)))"
    and other: "ty \<noteq> VDirect \<longrightarrow> phys = u64_minus_one" and lim: "flexible_usage mm + s < U64_MOD"
    and run: "MapMemory va s prot flags ty name vd phys al mm = Some (e, out, mm')"
  shows "mm_ok mm'"
proof (cases out)
  case None
  then show ?thesis
    using MapMemory_unchanged run ok by blast
next
  case (Some b)
  note checked = MapMemory_checked [OF run [unfolded Some] lim]
  have "ty = VDirect \<longrightarrow> phys + s \<le> total_direct_size mm
      \<and> (\<forall>y. phys \<le> y \<and> y < phys + s \<longrightarrow> (\<exists>mt. phys_view (dmem_map mm) y = Some (PAllocated, mt)))"
  proof (intro impI conjI allI; (elim conjE)?)
    assume d: "ty = VDirect"
    then have p: "phys + s < U64_MOD"
      using direct by simp
    show "phys + s \<le> total_direct_size mm"
      by (rule validate_phys_passed(1) [OF ok checked(1) p area(3), of phys]) (use area(3) in auto)
    fix y assume y: "phys \<le> y" "y < phys + s"
    show "\<exists>mt. phys_view (dmem_map mm) y = Some (PAllocated, mt)"
      using validate_phys_passed(2) [OF ok checked(1) p area(3) y] direct d y by blast
  qed
  from MapMemory_ok [OF ok gpu ty ch area this other checked(2), of prot name vd] show ?thesis
    using run by auto
qed

lemma call_keeps:
  assumes "mm_call mm mm'" "mm_ok mm"
  shows "mm_ok mm'"
  using assms
proof (induction rule: mm_call.induct)
  case (allocate ss mm sz al0 se mt r mm')
  then show ?case using Allocate_keeps [of mm ss sz al0 se mt] by auto
next
  case (pool_expand ss mm sz al0 se r mm')
  then show ?case using PoolExpand_keeps [of mm ss sz al0 se] by auto
next
  case (map mm ty va s flags al a k v phys prot name vd e out mm')
  then show ?case
    using map_keeps [OF map(13,1-12)] by blast
next
  case (map_error va s prot flags ty name vd phys al mm e mm')
  then show ?case using MapMemory_unchanged [OF map_error(1)] by simp
next
  case (unmap mm n v e mm')
  show ?case
  proof (cases "n = 0")
    case True
    then show ?thesis using unmap by (simp add: UnmapMemory_def)
  next
    case False
    then show ?thesis using UnmapMemory_ok [OF unmap(5,1) _ unmap(2,3)] unmap(4) by auto
  qed
next
  case (protect n a mm prot e mm')
  then show ?case using Protect_partial by blast
next
  case (name_range n v mm name mm')
  then show ?case using NameVirtualRange_ok [OF name_range(5,1-3), of name] name_range(4) by auto
next
  case (map_file mm va s flags a k v GetFile host_page prot fd off e out mm')
  then show ?case using MapFile_keeps [OF map_file(9,1-8)] by blast
next
  case (prt i address sz mm mm')
  then show ?case
    by (intro mm_ok_cong [OF prt(2)]) (auto simp: SetPrtArea_def Let_def gpu_call_def emit_def bind_eq_Some_conv split: if_splits)
next
  case (attach mm)
  then show ?case by (intro mm_ok_cong [OF attach]) (simp_all add: SetRasterizer_def)
qed

text \<open>
  C3.  In every state the manager can reach by the calls of \<open>mm_call\<close> the invariant holds: the maps are well formed and the direct map has no gap,
  every mapped byte has physical memory of the kind its area asks for, no two addresses share a byte
  of physical memory, and the count of flexible memory in use is exact.  The calls are those listed with the relation, with two limits:
  a mapping of direct memory without the check (\<^verbatim>\<open>validate_dmem\<close> false: SDK versions before 2.50, and callers that do not set it)
  is among them only for memory that is not mapped yet, since the code allows to map it twice, and then two addresses do share a byte
  (\<open>MapMemory_alias\<close>); the pools' commits and the release of direct memory are not among them (\<open>Free_unchecked_overrun\<close>).
\<close>

theorem reachable_ok:
  assumes "reachable mm"
  shows "mm_ok mm"
  using assms
proof (induction rule: reachable.induct)
  case (init rs extra as sdk)
  then show ?case by (rule MemoryManager_init_ok)
next
  case (call mm mm')
  then show ?case using call_keeps by blast
qed

theorem reachable_ok_witness:
  "\<exists>r mm mm'. Allocate 0 0x10000 0x8000 0 3 (SetRasterizer True demo_mm) = Some (r, mm)
     \<and> MapMemory 0x500000 0x4000 3 0x10 VFlexible ''heap'' False u64_minus_one 0 mm = Some (ORBIS_OK, Some 0x500000, mm')
     \<and> mm_ok mm \<and> mm_ok mm'"
proof -
  let ?mm0 = "SetRasterizer True demo_mm"
  have r0: "reachable ?mm0"
  proof (rule reachable.call)
    show "reachable demo_mm"
      unfolding demo_mm_def by (rule reachable.init) (simp_all add: regions_ok_def)
  qed (rule mm_call.attach)
  have tot: "total_direct_size ?mm0 = 0x1F0000000"
    by (simp add: SetRasterizer_def demo_mm_def MemoryManager_init_def Let_def)
  obtain r mm where al: "Allocate 0 0x10000 0x8000 0 3 ?mm0 = Some (r, mm)"
    using Allocate_keeps [OF reachable_ok [OF r0], of 0 "0x8000" 0 "0x10000" 3] by (auto simp: tot)
  have r1: "reachable mm"
    by (rule reachable.call [OF r0 mm_call.allocate [OF _ _ _ al]]) (simp_all add: tot)
  obtain d where mm: "mm = ?mm0\<lparr>dmem_map := d\<rparr>"
  proof -
    have lim: "0 < total_direct_size ?mm0" "(0 :: u64) < 0x8000"
        "total_direct_size ?mm0 + (if (0 :: u64) > 0 then 0 else KB16) + 0x8000 \<le> U64_MOD"
      by (simp_all add: tot)
    show thesis
      using Allocate_ok [OF mm_ok_dmem [OF reachable_ok [OF r0]] lim(1,2) refl lim(3), of "0x10000" 3] al that
      by (auto intro: that [of "dmem_map demo_mm"] simp: SetRasterizer_def)
  qed
  have v: "vma_map mm = [(0x400000, free_vma 0x400000 0x7FFC00000), (0x1000000000, free_vma 0x1000000000 0x1000000000)]" "rasterizer mm" "flexible_usage mm = 0" "total_flexible_size mm = 0x20000000"
    by (simp_all add: mm SetRasterizer_def demo_mm_def MemoryManager_init_def Let_def om_emplace_def)
  have ch: "choose_address mm 0x500000 0x4000 0x10 0 = Some (Inr 0x500000)"
    by (simp add: choose_address_def has_flag_def MapFlag_Fixed_def MapFlag_NoOverwrite_def)
  obtain mm' where run: "MapMemory 0x500000 0x4000 3 0x10 VFlexible ''heap'' False u64_minus_one 0 mm = Some (ORBIS_OK, Some 0x500000, mm')"
    using MapMemory_ok [OF reachable_ok [OF r1] v(2) _ ch, where ty = VFlexible and k = "0x400000"
      and v = "free_vma 0x400000 0x7FFC00000" and phys = u64_minus_one and prot = 3 and name = "''heap''" and vd = False]
    by (auto simp: v free_vma_def)
  have "reachable mm'"
    by (rule reachable.call [OF r1 mm_call.map [OF v(2) _ ch _ _ _ _ _ _ _ _ run, where k = "0x400000" and v = "free_vma 0x400000 0x7FFC00000"]])
      (simp_all add: v free_vma_def)
  then show ?thesis
    using al run reachable_ok [OF r1] reachable_ok by blast
qed

section \<open>Mapping direct memory twice\<close>

text \<open>
  Without the full check the manager maps memory that is mapped already: the page at \<open>0x408000\<close> gets the physical memory of the one at
  \<open>0x400000\<close>.  That is why such calls are not among those above.
\<close>

definition demo_fixed :: MemoryManager where
  "demo_fixed = BeginMutation (emit (GpuUnmap 0x408000 0x4000) demo_mapped)"

lemma demo_fixed_maps:
  "dmem_map demo_fixed = dmem_map demo_mapped" "vma_map demo_fixed = vma_map demo_mapped"
  by (simp_all add: demo_fixed_def BeginMutation_def emit_def)

lemma alias_validate: "validate_phys demo_mapped 0 0x4000 False = Some ORBIS_OK"
  by (simp add: validate_phys_def demo_mapped_def demo_mm_def MemoryManager_init_def Let_def FindDmemArea_def om_from_def u64_minus_one_def free_phys_def)
lemma alias_choose: "choose_address demo_mapped 0x408000 0x4000 0x10 0 = Some (Inr 0x408000)"
  by (simp add: choose_address_def has_flag_def MapFlag_Fixed_def MapFlag_NoOverwrite_def)
lemma alias_early: "early_gpu_unmap 0x408000 0x4000 demo_mapped = Some (emit (GpuUnmap 0x408000 0x4000) demo_mapped)"
  by (simp add: early_gpu_unmap_def IsValidGpuMapping_def gpu_call_def demo_mapped_simps)
lemma alias_unmap_loop: "create_unmap_loop 0x408000 0x4000 (free_vma 0x408000 0x7FFBF8000) demo_fixed = Some demo_fixed"
  by (subst create_unmap_loop.simps, simp add: UnmapBytesFromEntry_def free_vma_def FindVMA_def demo_fixed_maps demo_mapped_simps, subst create_unmap_loop.simps, simp)

definition new_alias :: "PhysMap \<Rightarrow> VirtualMemoryArea" where
  "new_alias l = (free_vma 0x408000 0x4000)\<lparr>vma_type := VDirect, vma_prot := 3, vma_name := ''b'', vma_phys_areas := l\<rparr>"

lemma alias_CreateArea: "CreateArea 0x408000 0x4000 3 0x10 VDirect ''b'' demo_fixed =
   Some (0x408000, demo_fixed\<lparr>vma_map := [hd (vma_map demo_mapped), (0x408000, new_alias []), (0x40C000, free_vma 0x40C000 0x7FFBF4000)]\<rparr>)"
proof -
  have fl: "has_flag 0x10 MapFlag_Fixed" "\<not> has_flag 0x10 MapFlag_NoCoalesce" "add_read 3 = 3"
    by (simp_all add: has_flag_def MapFlag_Fixed_def MapFlag_NoCoalesce_def add_read_def MemoryProt_CpuWrite_def MemoryProt_CpuRead_def)
  have at: "map_of (vma_map demo_fixed) 0x408000 = Some (free_vma 0x408000 0x7FFBF8000)" "FindVMA demo_fixed 0x408000 = Some 0x408000"
    by (simp_all add: demo_fixed_maps demo_mapped_simps FindVMA_def)
  show ?thesis
   by (simp add: CreateArea_def at alias_unmap_loop fl) (simp add: demo_fixed_maps demo_mapped_simps CarveVMA_def Split_vma_def vma_split_parts_def free_vma_def IsFree_def HasPhysicalBacking_def om_emplace_def new_alias_def)
qed


lemma alias_backing: "attach_backing VDirect 0x4000 0 0x408000 b (demo_fixed\<lparr>vma_map := V\<rparr>) =
   Some (0, [(0, \<lparr>pa_base = 0, pa_size = 0x4000, pa_memory_type = 3, pa_dma_type = PMapped\<rparr>)], demo_fixed\<lparr>vma_map := V\<rparr>)"
proof -
  have d: "dmem_map (demo_fixed\<lparr>vma_map := V\<rparr>) = [(0, \<lparr>pa_base = 0, pa_size = 0x8000, pa_memory_type = 3, pa_dma_type = PMapped\<rparr>),
                  (0x8000, free_phys 0x8000 0x1EFFF8000)]"
    by (simp add: demo_fixed_maps demo_mapped_simps)
  have r: "retag_phys (set_dma PMapped) [(0, \<lparr>pa_base = 0, pa_size = 0x8000, pa_memory_type = 3, pa_dma_type = PMapped\<rparr>),
                  (0x8000, free_phys 0x8000 0x1EFFF8000)] 0 0x4000
     = Some ([(0, \<lparr>pa_base = 0, pa_size = 0x8000, pa_memory_type = 3, pa_dma_type = PMapped\<rparr>),
                  (0x8000, free_phys 0x8000 0x1EFFF8000)], \<lparr>pa_base = 0, pa_size = 0x4000, pa_memory_type = 3, pa_dma_type = PMapped\<rparr>, 0)"
    by (simp add: retag_phys_def CarvePhysArea_def free_phys_def Split_phys_def MergeAdjacent_phys_def Phys_CanMergeWith_def
        phys_grow_def set_dma_def GetEnd_def om_emplace_def)
  have id: "demo_fixed\<lparr>vma_map := V, dmem_map := [(0, \<lparr>pa_base = 0, pa_size = 0x8000, pa_memory_type = 3, pa_dma_type = PMapped\<rparr>),
                  (0x8000, free_phys 0x8000 0x1EFFF8000)]\<rparr> = demo_fixed\<lparr>vma_map := V\<rparr>"
    using d by (cases demo_fixed) simp
  have e: "direct_map_loop (Some 0) 0 0x4000 0 l m = Some (0, l, m)" for l m
    by (simp add: direct_map_loop.simps)
  show ?thesis
    unfolding attach_backing_def FindDmemArea_def d
    by (simp add: direct_map_loop.simps [of "Some 0" "0x4000"] d r e add_backing_def MergeAdjacent_phys_def id)
qed

definition alias_vmas :: VMAMap where
  "alias_vmas = [hd (vma_map demo_mapped),
     (0x408000, new_alias [(0, \<lparr>pa_base = 0, pa_size = 0x4000, pa_memory_type = 3, pa_dma_type = PMapped\<rparr>)]),
     (0x40C000, free_vma 0x40C000 0x7FFBF4000)]"

lemma alias_merge: "MergeAdjacent_vma alias_vmas 0x408000 = Some (alias_vmas, 0x408000)"
  by (simp add: alias_vmas_def demo_mapped_simps new_alias_def free_vma_def MergeAdjacent_vma_def VMA_CanMergeWith_def last_area_def first_area_def)

lemma MapMemory_alias:
  "\<exists>mm'. MapMemory 0x408000 0x4000 3 0x10 VDirect ''b'' False 0 0 demo_mapped = Some (ORBIS_OK, Some 0x408000, mm')
     \<and> vma_view (vma_map mm') 0x400000 = Some (VDirect, 3, ''anon'', False, Some (0, 3, PMapped))
     \<and> vma_view (vma_map mm') 0x408000 = Some (VDirect, 3, ''b'', False, Some (0, 3, PMapped)) \<and> \<not> mm_ok mm'"
proof -
  have f: "BeginMutation (emit (GpuUnmap 0x408000 0x4000) demo_mapped) = demo_fixed" "\<not> has_flag 3 MemoryProt_CpuExec"
    by (simp_all add: demo_fixed_def has_flag_def MemoryProt_CpuExec_def)
  have g: "late_gpu_map 0x408000 0x4000 mm = gpu_call (GpuMap 0x408000 0x4000) mm" for mm
    by (simp add: late_gpu_map_def IsValidGpuMapping_def)
  have at: "vma_base (new_alias l) = 0x408000" "(new_alias [])\<lparr>vma_phys_areas := l\<rparr> = new_alias l" for l
    by (simp_all add: new_alias_def free_vma_def)
  define mm4 where "mm4 = FinishMutation (emit (HostMap 0x408000 0x4000 0 False) (demo_fixed\<lparr>vma_map := alias_vmas\<rparr>))"
  have hd: "fst (hd (vma_map demo_mapped)) = 0x400000"
    by (simp add: demo_mapped_simps)
  have ras: "rasterizer mm4"
    by (simp add: mm4_def demo_fixed_def FinishMutation_def BeginMutation_def emit_def demo_mapped_simps(4))
  have m4: "gpu_call (GpuMap 0x408000 0x4000) mm4 = Some (emit (GpuMap 0x408000 0x4000) mm4)"
    using ras by (simp add: gpu_call_def)
  define mm' where "mm' = emit (GpuMap 0x408000 0x4000) mm4"
  have run: "MapMemory 0x408000 0x4000 3 0x10 VDirect ''b'' False 0 0 demo_mapped = Some (ORBIS_OK, Some 0x408000, mm')"
    using m4 alias_merge unfolding mm4_def alias_vmas_def
    by (simp add: MapMemory_def alias_validate alias_choose alias_early f alias_CreateArea alias_backing at g hd Let_def mm'_def mm4_def alias_vmas_def)
  have vm: "vma_map mm' = alias_vmas"
    by (simp add: mm'_def mm4_def emit_def FinishMutation_def)
  have views: "vma_view (vma_map mm') 0x400000 = Some (VDirect, 3, ''anon'', False, Some (0, 3, PMapped))"
    "vma_view (vma_map mm') 0x408000 = Some (VDirect, 3, ''b'', False, Some (0, 3, PMapped))"
    by (simp_all add: vm alias_vmas_def demo_mapped_simps new_alias_def free_vma_def vma_byte_def backing_byte_def)
  then have "\<not> no_alias (vma_map mm') {VDirect, VPooled}"
    unfolding no_alias_def mapped_to_def by force
  then show ?thesis
    using run views by (auto simp: mm_ok_def mm_inv_def)
qed
section \<open>Releasing direct memory\<close>

text \<open>
  The release without the check skips free areas without counting their size, so it goes on into the memory behind the range:
  here it frees memory that stays mapped.  That is why the release is not one of the calls above.
\<close>

definition demo_gap :: MemoryManager where
  "demo_gap = demo_mm\<lparr>
     dmem_map := [(0, free_phys 0 0x4000),
                  (0x4000, \<lparr>pa_base = 0x4000, pa_size = 0x8000, pa_memory_type = 3, pa_dma_type = PMapped\<rparr>),
                  (0xC000, free_phys 0xC000 0x1EFFF4000)],
     vma_map := [(0x400000, \<lparr>vma_base = 0x400000, vma_size = 0x8000,
                    vma_phys_areas = [(0, \<lparr>pa_base = 0x4000, pa_size = 0x8000, pa_memory_type = 3, pa_dma_type = PMapped\<rparr>)],
                    vma_type = VDirect, vma_prot = 3, vma_name = ''anon'', vma_fd = 0, vma_disallow_merge = False\<rparr>)]\<rparr>"

lemma demo_gap_maps:
  "dmem_map demo_gap = [(0, free_phys 0 0x4000),
                  (0x4000, \<lparr>pa_base = 0x4000, pa_size = 0x8000, pa_memory_type = 3, pa_dma_type = PMapped\<rparr>),
                  (0xC000, free_phys 0xC000 0x1EFFF4000)]"
  "fmem_map demo_gap = [(0x1F0000000, free_phys 0x1F0000000 0x20000000)]"
  "vma_map demo_gap = [(0x400000, \<lparr>vma_base = 0x400000, vma_size = 0x8000,
                    vma_phys_areas = [(0, \<lparr>pa_base = 0x4000, pa_size = 0x8000, pa_memory_type = 3, pa_dma_type = PMapped\<rparr>)],
                    vma_type = VDirect, vma_prot = 3, vma_name = ''anon'', vma_fd = 0, vma_disallow_merge = False\<rparr>)]"
  "flexible_usage demo_gap = 0" "total_direct_size demo_gap = 0x1F0000000"
  by (simp_all add: demo_gap_def demo_mm_def MemoryManager_init_def Let_def)

lemma demo_gap_ok: "mm_ok demo_gap"
proof -
  have a: "no_alias (vma_map demo_gap) T" for T
    by (auto simp: no_alias_def mapped_to_def demo_gap_maps vma_byte_def backing_byte_def split: if_splits)
  have k: "kinds_agree (dmem_map demo_gap) (fmem_map demo_gap) (vma_map demo_gap)"
    by (auto simp: kinds_agree_def demo_gap_maps vma_byte_def backing_byte_def phys_kind_def free_phys_def split: if_splits)
  have u: "used_flexible (fmem_map demo_gap) = {}"
    by (auto simp: used_flexible_def demo_gap_maps phys_kind_def free_phys_def split: if_splits)
  have w: "phys_wf (dmem_map demo_gap)" "phys_wf (fmem_map demo_gap)"
    by (simp_all add: demo_gap_maps phys_ok_def free_phys_def)
  have "vma_wf_in (dmem_map demo_gap) (fmem_map demo_gap) (vma_map demo_gap)"
    by (simp add: demo_gap_maps vma_in_def vma_ok_def HasPhysicalBacking_def backing_wf_def backing_ok_def backed_def within_def free_phys_def)
  with a k u w have inv: "mm_inv demo_gap" by (simp add: mm_inv_def demo_gap_maps(4))
  then show ?thesis using demo_flex
    by (simp add: mm_ok_def demo_gap_maps free_phys_def)
      (simp add: demo_gap_def demo_mm_def MemoryManager_init_def Let_def)
qed

lemma Free_unchecked_overrun:
  "\<exists>mm'. Free 0 0x4000 False demo_gap = Some (ORBIS_OK, mm') \<and> phys_view (dmem_map mm') 0x4000 = Some (PFree, 0)
     \<and> vma_view (vma_map mm') 0x400000 = Some (VDirect, 3, ''anon'', False, Some (0x4000, 3, PMapped)) \<and> \<not> mm_ok mm'"
proof -
  have scan: "free_scan (om_from (dmem_map demo_gap) 0) 0 0x4000 False = Some [(0x4000, 0x4000)]"
    by (simp add: demo_gap_maps free_phys_def om_from_def)
  have rem: "remove_list (vma_map demo_gap) 0 0x4000 = []"
    by (simp add: remove_list_def remove_ranges_of_def demo_gap_maps List.map_filter_def)
  define d :: PhysMap where "d = [(0, free_phys 0 0x8000),
                  (0x8000, \<lparr>pa_base = 0x8000, pa_size = 0x4000, pa_memory_type = 3, pa_dma_type = PMapped\<rparr>),
                  (0xC000, free_phys 0xC000 0x1EFFF4000)]"
  have fr: "free_all [(0x4000, 0x4000)] (dmem_map demo_gap) = Some d"
    by (simp add: retag_phys_def CarvePhysArea_def demo_gap_maps free_phys_def Split_phys_def MergeAdjacent_phys_def Phys_CanMergeWith_def
        phys_grow_def make_phys_free_def GetEnd_def om_emplace_def d_def)
  define mm' where "mm' = FinishMutation (BeginMutation demo_gap\<lparr>dmem_map := d\<rparr>)"
  have run: "Free 0 0x4000 False demo_gap = Some (ORBIS_OK, mm')"
  proof -
    have fl: "om_floor (dmem_map demo_gap) 0 = Some 0" by (simp add: demo_gap_maps)
    have dm: "dmem_map (BeginMutation demo_gap) = dmem_map demo_gap" by (simp add: BeginMutation_def)
    show ?thesis
      unfolding Free_def FindDmemArea_def fl bind.bind_lunit scan option.case rem Let_def gpu_unmap_all.simps unmap_all.simps dm fr
      by (simp add: demo_gap_maps(5) mm'_def)
  qed
  have m': "dmem_map mm' = d" "vma_map mm' = vma_map demo_gap" by (simp_all add: mm'_def BeginMutation_def FinishMutation_def)
  have p: "phys_view (dmem_map mm') 0x4000 = Some (PFree, 0)" by (simp add: m' d_def free_phys_def phys_kind_def)
  have v: "vma_view (vma_map mm') 0x400000 = Some (VDirect, 3, ''anon'', False, Some (0x4000, 3, PMapped))"
    by (simp add: m' demo_gap_maps vma_byte_def backing_byte_def)
  have "\<not> kinds_agree (dmem_map mm') (fmem_map mm') (vma_map mm')"
    using p v unfolding kinds_agree_def by force
  then show ?thesis using run p v by (auto simp: mm_ok_def mm_inv_def)
qed

end
