(* ===== verification/Rtc.thy ===== *)
theory Rtc
  imports Prelude
begin

text \<open>
  The real-time clock library (\<^verbatim>\<open>src/core/libraries/rtc/rtc.cpp\<close>, \<^verbatim>\<open>rtc.h\<close>, \<^verbatim>\<open>rtc_error.h\<close>): conversions
  between ticks (microseconds since 0001-01-01) and calendar dates, tick arithmetic, DOS, Unix and
  Windows times, and the RFC 2822 and RFC 3339 formats.

  A pointer argument is an option: \<open>None\<close> is \<^verbatim>\<open>nullptr\<close>, \<open>Some x\<close> points to \<open>x\<close>; a call returns the
  value behind an output pointer after the call.  The clock, the time zone and the compiled SDK
  version, which the source asks the host and the loader for, are the fields of \<open>RtcEnv\<close>.
  Results of calls that throw a C++ exception, index a string out of range or overflow an \<^verbatim>\<open>int\<close> are
  \<open>None\<close>.
\<close>

section \<open>Data and error codes\<close>

type_synonym u16 = nat

record OrbisRtcDateTime =
  dt_year :: u16
  dt_month :: u16
  dt_day :: u16
  dt_hour :: u16
  dt_minute :: u16
  dt_second :: u16
  dt_microsecond :: u32

record RtcEnv =
  clock_result :: s32
  clock_sec :: s64
  clock_nsec :: s64
  tz_result :: s32
  tz_minuteswest :: s32
  tz_dsttime :: s32
  compiled_sdk :: "s32 option"

definition rtc_code :: "int \<Rightarrow> s32" where
  "rtc_code n = 0x80B50000 + n - 0x100000000"

abbreviation ORBIS_RTC_ERROR_DATETIME_UNINITIALIZED :: s32 where
  "ORBIS_RTC_ERROR_DATETIME_UNINITIALIZED \<equiv> 0x7FFEF9FE"
abbreviation ORBIS_RTC_ERROR_NOT_INITIALIZED :: s32 where "ORBIS_RTC_ERROR_NOT_INITIALIZED \<equiv> rtc_code 0x01"
abbreviation ORBIS_RTC_ERROR_INVALID_POINTER :: s32 where "ORBIS_RTC_ERROR_INVALID_POINTER \<equiv> rtc_code 0x02"
abbreviation ORBIS_RTC_ERROR_INVALID_VALUE :: s32 where "ORBIS_RTC_ERROR_INVALID_VALUE \<equiv> rtc_code 0x03"
abbreviation ORBIS_RTC_ERROR_INVALID_YEAR :: s32 where "ORBIS_RTC_ERROR_INVALID_YEAR \<equiv> rtc_code 0x08"
abbreviation ORBIS_RTC_ERROR_INVALID_MONTH :: s32 where "ORBIS_RTC_ERROR_INVALID_MONTH \<equiv> rtc_code 0x09"
abbreviation ORBIS_RTC_ERROR_INVALID_DAY :: s32 where "ORBIS_RTC_ERROR_INVALID_DAY \<equiv> rtc_code 0x0A"
abbreviation ORBIS_RTC_ERROR_INVALID_HOUR :: s32 where "ORBIS_RTC_ERROR_INVALID_HOUR \<equiv> rtc_code 0x0B"
abbreviation ORBIS_RTC_ERROR_INVALID_MINUTE :: s32 where "ORBIS_RTC_ERROR_INVALID_MINUTE \<equiv> rtc_code 0x0C"
abbreviation ORBIS_RTC_ERROR_INVALID_SECOND :: s32 where "ORBIS_RTC_ERROR_INVALID_SECOND \<equiv> rtc_code 0x0D"
abbreviation ORBIS_RTC_ERROR_INVALID_MICROSECOND :: s32 where "ORBIS_RTC_ERROR_INVALID_MICROSECOND \<equiv> rtc_code 0x0E"

abbreviation UNIX_EPOCH_TICKS :: u64 where "UNIX_EPOCH_TICKS \<equiv> 0xdcbffeff2bc000"
abbreviation WIN32_FILETIME_EPOCH_TICKS :: u64 where "WIN32_FILETIME_EPOCH_TICKS \<equiv> 0xb36168b6a58000"

definition u16_of_int :: "int \<Rightarrow> u16" where
  "u16_of_int x = nat (x mod 65536)"

section \<open>The calendar of the standard library\<close>

text \<open>
  \<^verbatim>\<open>std::chrono::year\<close> keeps a \<^verbatim>\<open>short\<close>; \<^verbatim>\<open>is_leap\<close>, the last day of a month and the day number of a
  civil date are those of the standard library.
\<close>

definition chrono_year :: "int \<Rightarrow> int" where
  "chrono_year y = (let z = y mod 65536 in if z \<ge> 32768 then z - 65536 else z)"

definition is_leap :: "int \<Rightarrow> bool" where
  "is_leap y \<longleftrightarrow> y mod 4 = 0 \<and> (y mod 100 \<noteq> 0 \<or> y mod 400 = 0)"

definition month_days :: "int list" where
  "month_days = [31, 28, 31, 30, 31, 30, 31, 31, 30, 31, 30, 31]"

definition last_day :: "int \<Rightarrow> nat \<Rightarrow> int" where
  "last_day y m = (if m = 2 \<and> is_leap (chrono_year y) then 29 else month_days ! (m - 1))"

definition days_from_civil :: "int \<Rightarrow> int \<Rightarrow> int \<Rightarrow> int" where
  "days_from_civil y0 m d =
     (let y = (if m \<le> 2 then y0 - 1 else y0);
          era = y div 400;
          yoe = y - era * 400;
          doy = (153 * (if m > 2 then m - 3 else m + 9) + 2) div 5 + d - 1;
          doe = yoe * 365 + yoe div 4 - yoe div 100 + doy
      in era * 146097 + doe - 719468)"

section \<open>Validity\<close>

definition sceRtcCheckValid :: "OrbisRtcDateTime option \<Rightarrow> s32" where
  "sceRtcCheckValid pTime =
     (case pTime of
        None \<Rightarrow> ORBIS_RTC_ERROR_INVALID_POINTER
      | Some t \<Rightarrow>
          (if dt_year t = 0 \<or> dt_year t > 9999 then ORBIS_RTC_ERROR_INVALID_YEAR
           else if dt_month t = 0 \<or> dt_month t > 12 then ORBIS_RTC_ERROR_INVALID_MONTH
           else if dt_day t = 0 then ORBIS_RTC_ERROR_INVALID_DAY
           else if int (dt_day t) > last_day (int (dt_year t)) (dt_month t) then ORBIS_RTC_ERROR_INVALID_DAY
           else if dt_hour t \<ge> 24 then ORBIS_RTC_ERROR_INVALID_HOUR
           else if dt_minute t \<ge> 60 then ORBIS_RTC_ERROR_INVALID_MINUTE
           else if dt_second t \<ge> 60 then ORBIS_RTC_ERROR_INVALID_SECOND
           else if dt_microsecond t \<ge> 1000000 then ORBIS_RTC_ERROR_INVALID_MICROSECOND
           else ORBIS_OK))"

definition sceRtcGetDaysInMonth :: "int \<Rightarrow> int \<Rightarrow> s32" where
  "sceRtcGetDaysInMonth year month =
     (if year \<le> 0 then ORBIS_RTC_ERROR_INVALID_YEAR
      else if month \<le> 0 \<or> month > 12 then ORBIS_RTC_ERROR_INVALID_MONTH
      else last_day year (nat month))"

definition sceRtcGetDayOfWeek :: "RtcEnv \<Rightarrow> int \<Rightarrow> int \<Rightarrow> int \<Rightarrow> s32" where
  "sceRtcGetDayOfWeek env year month day =
     (let sdk_version = (case compiled_sdk env of None \<Rightarrow> 0 | Some v \<Rightarrow> v)
      in if sdk_version < 0x3000000 \<and> year < 1 then ORBIS_RTC_ERROR_INVALID_YEAR
         else if sdk_version \<ge> 0x3000000 \<and> (year > 9999 \<or> year < 1) then ORBIS_RTC_ERROR_INVALID_YEAR
         else if month > 12 \<or> month \<le> 0 then ORBIS_RTC_ERROR_INVALID_MONTH
         else if day \<le> 0 \<or> day > sceRtcGetDaysInMonth year month then ORBIS_RTC_ERROR_INVALID_DAY
         else (days_from_civil (chrono_year year) month day + 4) mod 7)"

definition sceRtcIsLeapYear :: "int \<Rightarrow> s32" where
  "sceRtcIsLeapYear yearInt =
     (if yearInt < 1 then ORBIS_RTC_ERROR_INVALID_YEAR
      else if last_day yearInt 2 = 29 then 1 else 0)"

definition sceRtcInit :: s32 where "sceRtcInit = ORBIS_OK"

definition sceRtcEnd :: s32 where "sceRtcEnd = ORBIS_OK"

definition sceRtcGetTickResolution :: u32 where "sceRtcGetTickResolution = 1000000"

section \<open>Ticks and dates\<close>

text \<open>
  \<^verbatim>\<open>sceRtcGetTick\<close> rewrites the month and the year of its argument: the result holds the code, the
  changed date and the tick.  The product of the minutes is one of two \<^verbatim>\<open>int\<close>s, since a 16-bit operand is
  promoted to \<^verbatim>\<open>int\<close>; that of the hours is 64 bits wide, since its constant is, and that of the seconds
  stays in range.  A product beyond \<^verbatim>\<open>INT_MAX\<close> has no meaning in C++.
\<close>

definition shift_month :: "OrbisRtcDateTime \<Rightarrow> OrbisRtcDateTime" where
  "shift_month t =
     (if dt_month t > 2 then t\<lparr>dt_month := dt_month t - 3\<rparr>
      else t\<lparr>dt_month := dt_month t + 9, dt_year := dt_year t - 1\<rparr>)"

definition sceRtcGetTick ::
  "OrbisRtcDateTime option \<Rightarrow> u64 option \<Rightarrow> (s32 \<times> OrbisRtcDateTime option \<times> u64 option) option" where
  "sceRtcGetTick pTime pTick =
     (case (pTime, pTick) of
        (Some t, Some tick) \<Rightarrow>
          (let isTimeValid = sceRtcCheckValid (Some t)
           in if isTimeValid \<noteq> 0 then Some (isTimeValid, Some t, Some tick)
              else if dt_minute t * 60000000 > 2147483647 then None
              else
                let t1 = shift_month t;
                    c = dt_year t1 div 100;
                    ya = dt_year t1 - 100 * c;
                    days = sub64 (146097 * c div 4 + 1461 * ya div 4 + (153 * dt_month t1 + 2) div 5 + dt_day t1) 307;
                    days_us = days * 86400000000 mod U64_MOD;
                    msec = dt_hour t1 * 3600000000 + dt_minute t1 * 60000000 + dt_second t1 * 1000000
                           + dt_microsecond t1
                in Some (ORBIS_OK, Some t1, Some (add64 days_us msec)))
      | _ \<Rightarrow> Some (ORBIS_RTC_ERROR_INVALID_POINTER, pTime, pTick))"

text \<open>
  The date of a tick.  The 32-bit intermediate values stay in range for every 64-bit tick, and no
  subtraction below goes under zero; the fields of the date are 16 bits wide.
\<close>

definition civil_of_days :: "nat \<Rightarrow> nat \<times> nat \<times> nat" where
  "civil_of_days days0 =
     (let days = days0 + 307;
          j0 = days * 4 - 1;
          ly0 = j0 div 146097;
          j1 = j0 - 146097 * ly0;
          ld0 = j1 div 4;
          j = (ld0 * 4 + 3) div 1461;
          ld1 = (ld0 * 4 + 7 - 1461 * j) div 4;
          lm = (5 * ld1 - 3) div 153;
          ld = (5 * ld1 + 2 - 153 * lm) div 5;
          ly = 100 * ly0 + j
      in if lm < 10 then (ly, lm + 3, ld) else (ly + 1, lm - 9, ld))"

definition date_of_tick :: "u64 \<Rightarrow> OrbisRtcDateTime" where
  "date_of_tick tick =
     (let (ly, lm, ld) = civil_of_days (tick div 86400000000);
          msec = tick mod 86400000000;
          msec1 = msec mod 3600000000;
          msec2 = msec1 mod 60000000
      in \<lparr>dt_year = ly mod 65536, dt_month = lm mod 65536, dt_day = ld mod 65536,
          dt_hour = msec div 3600000000, dt_minute = msec1 div 60000000, dt_second = msec2 div 1000000,
          dt_microsecond = msec2 mod 1000000\<rparr>)"

definition sceRtcSetTick ::
  "OrbisRtcDateTime option \<Rightarrow> u64 option \<Rightarrow> s32 \<times> OrbisRtcDateTime option" where
  "sceRtcSetTick pTime pTick =
     (case (pTime, pTick) of
        (Some _, Some tick) \<Rightarrow> (ORBIS_OK, Some (date_of_tick tick))
      | _ \<Rightarrow> (ORBIS_RTC_ERROR_INVALID_POINTER, pTime))"

definition sceRtcCompareTick :: "u64 option \<Rightarrow> u64 option \<Rightarrow> s32" where
  "sceRtcCompareTick pTick1 pTick2 =
     (case (pTick1, pTick2) of
        (Some t1, Some t2) \<Rightarrow> (if t1 \<le> t2 then 1 else 0)
      | _ \<Rightarrow> ORBIS_RTC_ERROR_INVALID_POINTER)"

section \<open>Tick arithmetic\<close>

text \<open>\<^verbatim>\<open>pTick1->tick = (lAdd * unit) + pTick2->tick\<close>, modulo \<open>2 ^ 64\<close>.\<close>

definition tick_add :: "int \<Rightarrow> u64 option \<Rightarrow> u64 option \<Rightarrow> int \<Rightarrow> s32 \<times> u64 option" where
  "tick_add unit_ticks pTick1 pTick2 lAdd =
     (case (pTick1, pTick2) of
        (Some _, Some t2) \<Rightarrow> (ORBIS_OK, Some (add64 (u64_of_s64 (lAdd * unit_ticks)) t2))
      | _ \<Rightarrow> (ORBIS_RTC_ERROR_INVALID_POINTER, pTick1))"

definition sceRtcTickAddTicks :: "u64 option \<Rightarrow> u64 option \<Rightarrow> s64 \<Rightarrow> s32 \<times> u64 option" where
  "sceRtcTickAddTicks = tick_add 1"

definition sceRtcTickAddMicroseconds :: "u64 option \<Rightarrow> u64 option \<Rightarrow> s64 \<Rightarrow> s32 \<times> u64 option" where
  "sceRtcTickAddMicroseconds = tick_add 1"

definition sceRtcTickAddSeconds :: "u64 option \<Rightarrow> u64 option \<Rightarrow> s64 \<Rightarrow> s32 \<times> u64 option" where
  "sceRtcTickAddSeconds = tick_add 1000000"

definition sceRtcTickAddMinutes :: "u64 option \<Rightarrow> u64 option \<Rightarrow> s64 \<Rightarrow> s32 \<times> u64 option" where
  "sceRtcTickAddMinutes = tick_add 60000000"

definition sceRtcTickAddHours :: "u64 option \<Rightarrow> u64 option \<Rightarrow> s32 \<Rightarrow> s32 \<times> u64 option" where
  "sceRtcTickAddHours = tick_add 3600000000"

definition sceRtcTickAddDays :: "u64 option \<Rightarrow> u64 option \<Rightarrow> s32 \<Rightarrow> s32 \<times> u64 option" where
  "sceRtcTickAddDays = tick_add 86400000000"

definition sceRtcTickAddWeeks :: "u64 option \<Rightarrow> u64 option \<Rightarrow> s32 \<Rightarrow> s32 \<times> u64 option" where
  "sceRtcTickAddWeeks = tick_add 604800000000"

text \<open>
  Months and years are added to the date of \<^verbatim>\<open>pTick1\<close>, the output, not of \<^verbatim>\<open>pTick2\<close>.  C++ division and
  remainder truncate towards zero.
\<close>

definition tdiv :: "int \<Rightarrow> int \<Rightarrow> int" where
  "tdiv a b = sgn a * (\<bar>a\<bar> div b)"

definition tmod :: "int \<Rightarrow> int \<Rightarrow> int" where
  "tmod a b = sgn a * (\<bar>a\<bar> mod b)"

definition add_months :: "OrbisRtcDateTime \<Rightarrow> s32 \<Rightarrow> OrbisRtcDateTime" where
  "add_months t lAdd =
     (let s = (if lAdd \<ge> 0 then 1 else -1);
          year1 = u16_of_int (int (dt_year t) + tdiv lAdd 12);
          tempMonth = int (dt_month t) + tmod lAdd 12 - 1;
          wrap = tempMonth > 11 \<or> tempMonth < 0;
          year2 = (if wrap then u16_of_int (int year1 + s) else year1);
          month = (if wrap then tempMonth - s * 12 else tempMonth) + 1;
          lastDay = last_day (int year2) (nat month)
      in t\<lparr>dt_year := year2, dt_month := nat month,
           dt_day := (if int (dt_day t) > lastDay then nat lastDay else dt_day t)\<rparr>)"

definition sceRtcTickAddMonths :: "u64 option \<Rightarrow> u64 option \<Rightarrow> s32 \<Rightarrow> (s32 \<times> u64 option) option" where
  "sceRtcTickAddMonths pTick1 pTick2 lAdd =
     (case (pTick1, pTick2) of
        (Some t1, Some t2) \<Rightarrow>
          (if lAdd = 0 then Some (ORBIS_OK, Some t2)
           else let time = add_months (date_of_tick t1) lAdd;
                    timeIsValid = sceRtcCheckValid (Some time)
                in if timeIsValid = ORBIS_OK
                   then map_option (\<lambda>r. (ORBIS_OK, snd (snd r))) (sceRtcGetTick (Some time) pTick1)
                   else Some (timeIsValid, pTick1))
      | _ \<Rightarrow> Some (ORBIS_RTC_ERROR_INVALID_POINTER, pTick1))"

definition sceRtcTickAddYears :: "u64 option \<Rightarrow> u64 option \<Rightarrow> s32 \<Rightarrow> (s32 \<times> u64 option) option" where
  "sceRtcTickAddYears pTick1 pTick2 lAdd =
     (case (pTick1, pTick2) of
        (Some t1, Some t2) \<Rightarrow>
          (if lAdd = 0 then Some (ORBIS_OK, Some t2)
           else let t = date_of_tick t1;
                    time = t\<lparr>dt_year := u16_of_int (int (dt_year t) + lAdd)\<rparr>;
                    timeIsValid = sceRtcCheckValid (Some time)
                in if timeIsValid = ORBIS_OK
                   then map_option (\<lambda>r. (ORBIS_OK, snd (snd r))) (sceRtcGetTick (Some time) pTick1)
                   else Some (timeIsValid, pTick1))
      | _ \<Rightarrow> Some (ORBIS_RTC_ERROR_INVALID_POINTER, pTick1))"

section \<open>DOS, Unix and Windows times\<close>

text \<open>\<open>bit_part v w s\<close> is \<^verbatim>\<open>(v & mask) << s\<close> for a mask of \<open>w\<close> bits.\<close>

definition bit_part :: "nat \<Rightarrow> nat \<Rightarrow> nat \<Rightarrow> nat" where
  "bit_part v w s = (v mod 2 ^ w) * 2 ^ s"

definition sceRtcGetDosTime :: "OrbisRtcDateTime option \<Rightarrow> u32 option \<Rightarrow> s32 \<times> u32 option" where
  "sceRtcGetDosTime pTime dosTime =
     (case (pTime, dosTime) of
        (Some t, Some d) \<Rightarrow>
          (let isValid = sceRtcCheckValid (Some t)
           in if isValid \<noteq> ORBIS_OK then (isValid, Some d)
              else (ORBIS_OK,
                Some (d OR bit_part (dt_second t div 2) 5 0 OR bit_part (dt_minute t) 6 5
                        OR bit_part (dt_hour t) 5 11 OR bit_part (dt_day t) 5 16 OR bit_part (dt_month t) 4 21
                        OR bit_part (nat ((int (dt_year t) - 1980) mod 128)) 7 25)))
      | _ \<Rightarrow> (ORBIS_RTC_ERROR_INVALID_POINTER, dosTime))"

text \<open>The upper half of the DOS time goes through an \<^verbatim>\<open>int16_t\<close>: its top bit is a sign.\<close>

definition s16_of_nat :: "nat \<Rightarrow> int" where
  "s16_of_nat x = (let y = int (x mod 65536) in if y \<ge> 32768 then y - 65536 else y)"

definition sceRtcSetDosTime :: "OrbisRtcDateTime option \<Rightarrow> u32 \<Rightarrow> s32 \<times> OrbisRtcDateTime option" where
  "sceRtcSetDosTime pTime dosTime =
     (case pTime of
        None \<Rightarrow> (ORBIS_RTC_ERROR_INVALID_POINTER, None)
      | Some t \<Rightarrow>
          (let days = s16_of_nat (dosTime div 65536)
           in (ORBIS_OK,
               Some \<lparr>dt_year = u16_of_int (days div 512 + 1980), dt_month = nat (days div 32 mod 16),
                     dt_day = nat (days mod 32), dt_hour = dosTime mod 65536 div 2048,
                     dt_minute = dosTime div 32 mod 64, dt_second = dosTime * 2 mod 64, dt_microsecond = 0\<rparr>)))"

definition sceRtcGetTime_t ::
  "OrbisRtcDateTime option \<Rightarrow> s64 option \<Rightarrow> (s32 \<times> OrbisRtcDateTime option \<times> s64 option) option" where
  "sceRtcGetTime_t pTime llTime =
     (case (pTime, llTime) of
        (Some t, Some old) \<Rightarrow>
          (let isValid = sceRtcCheckValid (Some t)
           in if isValid \<noteq> ORBIS_OK then Some (isValid, Some t, Some old)
              else map_option (\<lambda>r. case r of
                     (_, t1, Some tick) \<Rightarrow>
                       (ORBIS_OK, t1,
                        Some (if tick < UNIX_EPOCH_TICKS then 0 else int ((tick - UNIX_EPOCH_TICKS) div 1000000)))
                   | (c, t1, None) \<Rightarrow> (c, t1, Some old)) (sceRtcGetTick (Some t) (Some 0)))
      | _ \<Rightarrow> Some (ORBIS_RTC_ERROR_INVALID_POINTER, pTime, llTime))"

definition sceRtcSetTime_t :: "RtcEnv \<Rightarrow> OrbisRtcDateTime option \<Rightarrow> s64 \<Rightarrow> s32 \<times> OrbisRtcDateTime option" where
  "sceRtcSetTime_t env pTime llTime =
     (case pTime of
        None \<Rightarrow> (ORBIS_RTC_ERROR_INVALID_POINTER, None)
      | Some t \<Rightarrow>
          (let sdk_version = (case compiled_sdk env of None \<Rightarrow> 0 | Some v \<Rightarrow> v)
           in if sdk_version < 0x3000000
              then (ORBIS_OK, Some (date_of_tick
                     (add64 (u64_of_s64 ((llTime mod 0x100000000) * 1000000)) UNIX_EPOCH_TICKS)))
              else if llTime < 0 then (ORBIS_RTC_ERROR_INVALID_VALUE, Some t)
              else (ORBIS_OK, Some (date_of_tick (add64 (u64_of_s64 (llTime * 1000000)) UNIX_EPOCH_TICKS)))))"

definition sceRtcGetWin32FileTime ::
  "OrbisRtcDateTime option \<Rightarrow> u64 option \<Rightarrow> (s32 \<times> OrbisRtcDateTime option \<times> u64 option) option" where
  "sceRtcGetWin32FileTime pTime ulWin32Time =
     (case (pTime, ulWin32Time) of
        (Some t, Some old) \<Rightarrow>
          (let isValid = sceRtcCheckValid (Some t)
           in if isValid \<noteq> ORBIS_OK then Some (isValid, Some t, Some old)
              else map_option (\<lambda>r. case r of
                     (_, t1, Some tick) \<Rightarrow>
                       (ORBIS_OK, t1,
                        Some (if tick < WIN32_FILETIME_EPOCH_TICKS then 0
                              else (tick - WIN32_FILETIME_EPOCH_TICKS) * 10 mod U64_MOD))
                   | (c, t1, None) \<Rightarrow> (c, t1, Some old)) (sceRtcGetTick (Some t) (Some 0)))
      | _ \<Rightarrow> Some (ORBIS_RTC_ERROR_INVALID_POINTER, pTime, ulWin32Time))"

definition sceRtcSetWin32FileTime :: "OrbisRtcDateTime option \<Rightarrow> s64 \<Rightarrow> s32 \<times> OrbisRtcDateTime option" where
  "sceRtcSetWin32FileTime pTime ulWin32Time =
     (case pTime of
        None \<Rightarrow> (ORBIS_RTC_ERROR_INVALID_POINTER, None)
      | Some t \<Rightarrow>
          (ORBIS_OK, Some (date_of_tick
             (u64_of_s64 (tdiv ulWin32Time 10 + int WIN32_FILETIME_EPOCH_TICKS)))))"

end
