(* ===== verification/Rtc_Format.thy ===== *)
theory Rtc_Format
  imports Rtc
begin

text \<open>
  The second half of \<^verbatim>\<open>src/core/libraries/rtc/rtc.cpp\<close>: reading and setting the clocks, conversion
  between local time and UTC, and the RFC 2822 and RFC 3339 text formats.
\<close>

section \<open>Clocks\<close>

definition clock_tick :: "RtcEnv \<Rightarrow> u64" where
  "clock_tick env = u64_of_s64 (tdiv (clock_nsec env) 1000 + clock_sec env * 1000000 + int UNIX_EPOCH_TICKS)"

definition network_tick :: "RtcEnv \<Rightarrow> u64 option \<Rightarrow> s32 \<times> u64 option" where
  "network_tick env pTick =
     (case pTick of
        None \<Rightarrow> (ORBIS_RTC_ERROR_INVALID_POINTER, None)
      | Some t \<Rightarrow>
          (if clock_result env = ORBIS_OK then (ORBIS_OK, Some (clock_tick env))
           else (ORBIS_RTC_ERROR_NOT_INITIALIZED, Some t)))"

definition sceRtcGetCurrentAdNetworkTick :: "RtcEnv \<Rightarrow> u64 option \<Rightarrow> s32 \<times> u64 option" where
  "sceRtcGetCurrentAdNetworkTick = network_tick"

definition sceRtcGetCurrentDebugNetworkTick :: "RtcEnv \<Rightarrow> u64 option \<Rightarrow> s32 \<times> u64 option" where
  "sceRtcGetCurrentDebugNetworkTick = network_tick"

definition sceRtcGetCurrentNetworkTick :: "RtcEnv \<Rightarrow> u64 option \<Rightarrow> s32 \<times> u64 option" where
  "sceRtcGetCurrentNetworkTick = network_tick"

definition sceRtcGetCurrentRawNetworkTick :: "RtcEnv \<Rightarrow> u64 option \<Rightarrow> s32 \<times> u64 option" where
  "sceRtcGetCurrentRawNetworkTick = network_tick"

definition sceRtcGetCurrentTick :: "RtcEnv \<Rightarrow> u64 option \<Rightarrow> s32 \<times> u64 option" where
  "sceRtcGetCurrentTick env pTick =
     (case pTick of
        None \<Rightarrow> (ORBIS_RTC_ERROR_DATETIME_UNINITIALIZED, None)
      | Some t \<Rightarrow> (ORBIS_OK, Some (if clock_result env \<ge> 0 then clock_tick env else t)))"

definition add_minutes :: "u64 \<Rightarrow> s64 \<Rightarrow> u64" where
  "add_minutes t m = add64 (u64_of_s64 (m * 60000000)) t"

definition sceRtcGetCurrentClock ::
  "RtcEnv \<Rightarrow> OrbisRtcDateTime option \<Rightarrow> s32 \<Rightarrow> s32 \<times> OrbisRtcDateTime option" where
  "sceRtcGetCurrentClock env pTime timeZone =
     (case pTime of
        None \<Rightarrow> (ORBIS_RTC_ERROR_DATETIME_UNINITIALIZED, None)
      | Some t \<Rightarrow>
          (clock_result env,
           Some (if clock_result env = ORBIS_OK then date_of_tick (add_minutes (clock_tick env) timeZone) else t)))"

definition tz_offset :: "RtcEnv \<Rightarrow> s32" where
  "tz_offset env = - (tz_minuteswest env - tz_dsttime env * 60)"

text \<open>\<open>garbage\<close> is the value of the uninitialised tick that is used when the clock cannot be read.\<close>

definition sceRtcGetCurrentClockLocalTime ::
  "RtcEnv \<Rightarrow> u64 \<Rightarrow> OrbisRtcDateTime option \<Rightarrow> s32 \<times> OrbisRtcDateTime option" where
  "sceRtcGetCurrentClockLocalTime env garbage pTime =
     (case pTime of
        None \<Rightarrow> (ORBIS_RTC_ERROR_DATETIME_UNINITIALIZED, None)
      | Some t \<Rightarrow>
          (tz_result env,
           Some (if tz_result env \<ge> 0
                 then date_of_tick (add_minutes (if clock_result env \<ge> 0 then clock_tick env else garbage)
                        (tz_offset env))
                 else t)))"

definition sceRtcConvertUtcToLocalTime :: "RtcEnv \<Rightarrow> u64 option \<Rightarrow> u64 option \<Rightarrow> s32 \<times> u64 option" where
  "sceRtcConvertUtcToLocalTime env pTickUtc pTickLocal =
     (case pTickUtc of
        None \<Rightarrow> (ORBIS_RTC_ERROR_INVALID_POINTER, pTickLocal)
      | Some _ \<Rightarrow> (0, snd (sceRtcTickAddMinutes pTickLocal pTickUtc (tz_offset env))))"

text \<open>\<^verbatim>\<open>sceKernelConvertLocaltimeToUtc\<close> is called with a time zone to fill and succeeds.\<close>

definition sceRtcConvertLocalTimeToUtc :: "RtcEnv \<Rightarrow> u64 option \<Rightarrow> u64 option \<Rightarrow> s32 \<times> u64 option" where
  "sceRtcConvertLocalTimeToUtc env pTickLocal pTickUtc =
     (case pTickLocal of
        None \<Rightarrow> (ORBIS_RTC_ERROR_INVALID_POINTER, pTickUtc)
      | Some _ \<Rightarrow> sceRtcTickAddMinutes pTickUtc pTickLocal
                    (- (tz_dsttime env * 60 - tz_minuteswest env)))"

text \<open>
  Setting a clock: \<open>settime\<close> stands for \<^verbatim>\<open>posix_clock_settime\<close> and gives its result and \<^verbatim>\<open>errno\<close>.  The
  argument is dereferenced before it is compared with \<^verbatim>\<open>nullptr\<close>.
\<close>

definition set_network_tick :: "(u32 \<Rightarrow> u64 \<times> u64 \<Rightarrow> s32 \<times> s32) \<Rightarrow> u32 \<Rightarrow> u64 option \<Rightarrow> s32 option" where
  "set_network_tick settime clock_id pTick = do {
     tick \<leftarrow> pTick;
     Some (if UNIX_EPOCH_TICKS \<ge> tick then ORBIS_RTC_ERROR_INVALID_VALUE
           else let temp = tick - UNIX_EPOCH_TICKS;
                    (ret, err) = settime clock_id (temp div 1000000, temp mod 1000000)
                in if ret < 0 then err + ORBIS_KERNEL_ERROR_UNKNOWN else ret)
   }"

definition sceRtcSetCurrentAdNetworkTick :: "(u32 \<Rightarrow> u64 \<times> u64 \<Rightarrow> s32 \<times> s32) \<Rightarrow> u64 option \<Rightarrow> s32 option" where
  "sceRtcSetCurrentAdNetworkTick settime = set_network_tick settime 0x12"

definition sceRtcSetCurrentDebugNetworkTick :: "(u32 \<Rightarrow> u64 \<times> u64 \<Rightarrow> s32 \<times> s32) \<Rightarrow> u64 option \<Rightarrow> s32 option" where
  "sceRtcSetCurrentDebugNetworkTick settime = set_network_tick settime 0x11"

definition sceRtcSetCurrentNetworkTick :: "(u32 \<Rightarrow> u64 \<times> u64 \<Rightarrow> s32 \<times> s32) \<Rightarrow> u64 option \<Rightarrow> s32 option" where
  "sceRtcSetCurrentNetworkTick settime = set_network_tick settime 0x10"

text \<open>\<open>settimeofday\<close> stands for \<^verbatim>\<open>sceKernelSettimeofday\<close> and gives its result.\<close>

definition sceRtcSetCurrentTick :: "(s64 \<times> s64 \<Rightarrow> s32) \<Rightarrow> u64 option \<Rightarrow> s32" where
  "sceRtcSetCurrentTick settimeofday pTick =
     (case pTick of
        None \<Rightarrow> ORBIS_RTC_ERROR_INVALID_POINTER
      | Some tick \<Rightarrow>
          (if UNIX_EPOCH_TICKS \<ge> tick then ORBIS_RTC_ERROR_INVALID_VALUE
           else let temp = s64_of_u64 (tick - UNIX_EPOCH_TICKS)
                in settimeofday (tdiv temp 1000000, tmod temp 1000000)))"

section \<open>Decimal text\<close>

definition digit_char :: "nat \<Rightarrow> char" where
  "digit_char d = char_of (48 + d)"

text \<open>\<^verbatim>\<open>std::to_string\<close> of an unsigned value.\<close>

fun to_string :: "nat \<Rightarrow> string" where
  "to_string n = (if n < 10 then [digit_char n] else to_string (n div 10) @ [digit_char (n mod 10)])"

declare to_string.simps [simp del]

definition two_digits :: "nat \<Rightarrow> string" where
  "two_digits n = (if n < 10 then ''0'' @ to_string n else to_string n)"

text \<open>\<^verbatim>\<open>s.substr(pos, n)\<close>, which throws when \<open>pos\<close> is beyond the end, and \<^verbatim>\<open>s[i]\<close>.\<close>

definition substr :: "string \<Rightarrow> nat \<Rightarrow> nat \<Rightarrow> string option" where
  "substr s pos n = (if pos \<le> length s then Some (take n (drop pos s)) else None)"

definition char_at :: "string \<Rightarrow> nat \<Rightarrow> char option" where
  "char_at s i = (if i < length s then Some (s ! i) else if i = length s then Some (char_of (0::nat)) else None)"

definition is_digit :: "char \<Rightarrow> bool" where
  "is_digit c \<longleftrightarrow> 48 \<le> (of_char c :: nat) \<and> (of_char c :: nat) \<le> 57"

definition is_space :: "char \<Rightarrow> bool" where
  "is_space c \<longleftrightarrow> (of_char c :: nat) = 32 \<or> (9 \<le> (of_char c :: nat) \<and> (of_char c :: nat) \<le> 13)"

definition digits_value :: "string \<Rightarrow> int" where
  "digits_value ds = foldl (\<lambda>acc c. acc * 10 + (of_char c - 48)) 0 ds"

text \<open>\<^verbatim>\<open>std::stoi\<close>: leading white space, a sign, digits; no digit is an exception.\<close>

definition stoi :: "string \<Rightarrow> int option" where
  "stoi s0 =
     (let s = dropWhile is_space s0;
          neg = (s \<noteq> [] \<and> hd s = CHR ''-'');
          s1 = (if s \<noteq> [] \<and> (hd s = CHR ''-'' \<or> hd s = CHR ''+'') then tl s else s);
          ds = takeWhile is_digit s1
      in if ds = [] then None else Some (if neg then - digits_value ds else digits_value ds))"

definition stoi_at :: "string \<Rightarrow> nat \<Rightarrow> nat \<Rightarrow> int option" where
  "stoi_at s pos n = substr s pos n \<bind> stoi"

section \<open>Formatting\<close>

definition format_tick :: "RtcEnv \<Rightarrow> u64 \<Rightarrow> u64 option \<Rightarrow> u64" where
  "format_tick env garbage pTickUtc =
     (case pTickUtc of
        Some t \<Rightarrow> t
      | None \<Rightarrow> (if clock_result env \<ge> 0 then clock_tick env else garbage))"

definition weekday_text :: "int \<Rightarrow> string" where
  "weekday_text d =
     (if d = 0 then ''Sun, '' else if d = 1 then ''Mon, '' else if d = 2 then ''Tue, '' else if d = 3 then ''Wed, ''
      else if d = 4 then ''Thu, '' else if d = 5 then ''Fri, '' else if d = 6 then ''Sat, '' else '''')"

definition month_text :: "nat \<Rightarrow> string" where
  "month_text m =
     (if m = 1 then ''Jan '' else if m = 2 then ''Feb '' else if m = 3 then ''Mar '' else if m = 4 then ''Apr ''
      else if m = 5 then ''May '' else if m = 6 then ''Jun '' else if m = 7 then ''Jul '' else if m = 8 then ''Aug ''
      else if m = 9 then ''Sep '' else if m = 10 then ''Oct '' else if m = 11 then ''Nov ''
      else if m = 12 then ''Dec '' else '''')"

text \<open>Sign, hours and minutes of a non-zero zone; \<open>sep\<close> stands between them.\<close>

definition zone_text :: "string \<Rightarrow> s32 \<Rightarrow> string" where
  "zone_text sep iTimeZoneMinutes =
     (let timeZoneHours = tdiv iTimeZoneMinutes 60;
          timeZoneRemainder = tmod iTimeZoneMinutes 60
      in (if timeZoneHours < 0 then ''-'' else ''+'') @ two_digits (nat \<bar>timeZoneHours\<bar>) @ sep
         @ (if timeZoneRemainder = 0 then ''00'' else to_string (nat \<bar>timeZoneRemainder\<bar>)))"

text \<open>The text is written to \<open>pszDateTime\<close> only when the date is valid; \<open>old\<close> is what was there.\<close>

definition sceRtcFormatRFC2822 ::
  "RtcEnv \<Rightarrow> u64 \<Rightarrow> string option \<Rightarrow> u64 option \<Rightarrow> s32 \<Rightarrow> s32 \<times> string option" where
  "sceRtcFormatRFC2822 env garbage pszDateTime pTickUtc iTimeZoneMinutes =
     (case pszDateTime of
        None \<Rightarrow> (ORBIS_RTC_ERROR_INVALID_POINTER, None)
      | Some old \<Rightarrow>
          (let t = date_of_tick (add_minutes (format_tick env garbage pTickUtc) iTimeZoneMinutes)
           in if sceRtcCheckValid (Some t) \<ge> 0
              then (ORBIS_OK, Some
                (weekday_text (sceRtcGetDayOfWeek env (int (dt_year t)) (int (dt_month t)) (int (dt_day t)))
                 @ two_digits (dt_day t) @ '' '' @ month_text (dt_month t) @ to_string (dt_year t) @ '' ''
                 @ two_digits (dt_hour t) @ '':'' @ two_digits (dt_minute t) @ '':'' @ two_digits (dt_second t) @ '' ''
                 @ (if iTimeZoneMinutes = 0 then ''+0000'' else zone_text '''' iTimeZoneMinutes)))
              else (ORBIS_OK, Some old)))"

definition sceRtcFormatRFC2822LocalTime ::
  "RtcEnv \<Rightarrow> u64 \<Rightarrow> string option \<Rightarrow> u64 option \<Rightarrow> s32 \<times> string option" where
  "sceRtcFormatRFC2822LocalTime env garbage pszDateTime pTickUtc =
     sceRtcFormatRFC2822 env garbage pszDateTime pTickUtc (tz_offset env)"

definition sceRtcFormatRFC3339Precise ::
  "RtcEnv \<Rightarrow> u64 \<Rightarrow> string option \<Rightarrow> u64 option \<Rightarrow> s32 \<Rightarrow> s32 \<times> string option" where
  "sceRtcFormatRFC3339Precise env garbage pszDateTime pTickUtc iTimeZoneMinutes =
     (case pszDateTime of
        None \<Rightarrow> (ORBIS_RTC_ERROR_INVALID_POINTER, None)
      | Some old \<Rightarrow>
          (let t = date_of_tick (add_minutes (format_tick env garbage pTickUtc) iTimeZoneMinutes)
           in (ORBIS_OK, Some
                (to_string (dt_year t) @ ''-'' @ two_digits (dt_month t) @ ''-'' @ two_digits (dt_day t) @ ''T''
                 @ two_digits (dt_hour t) @ '':'' @ two_digits (dt_minute t) @ '':'' @ two_digits (dt_second t)
                 @ (if dt_microsecond t \<noteq> 0 then ''.'' @ take 2 (to_string (dt_microsecond t div 1000)) else ''.00'')
                 @ (if iTimeZoneMinutes = 0 then ''Z'' else zone_text '':'' iTimeZoneMinutes)))))"

definition sceRtcFormatRFC3339 ::
  "RtcEnv \<Rightarrow> u64 \<Rightarrow> string option \<Rightarrow> u64 option \<Rightarrow> s32 \<Rightarrow> s32 \<times> string option" where
  "sceRtcFormatRFC3339 = sceRtcFormatRFC3339Precise"

definition sceRtcFormatRFC3339LocalTime ::
  "RtcEnv \<Rightarrow> u64 \<Rightarrow> string option \<Rightarrow> u64 option \<Rightarrow> s32 \<times> string option" where
  "sceRtcFormatRFC3339LocalTime env garbage pszDateTime pTickUtc =
     sceRtcFormatRFC3339 env garbage pszDateTime pTickUtc (tz_offset env)"

definition sceRtcFormatRFC3339PreciseLocalTime ::
  "RtcEnv \<Rightarrow> u64 \<Rightarrow> string option \<Rightarrow> u64 option \<Rightarrow> s32 \<times> string option" where
  "sceRtcFormatRFC3339PreciseLocalTime env garbage pszDateTime pTickUtc =
     sceRtcFormatRFC3339Precise env garbage pszDateTime pTickUtc (tz_offset env)"

section \<open>Parsing\<close>

definition GetMonthFromString :: "string \<Rightarrow> int" where
  "GetMonthFromString s =
     (if s = ''Jan'' then 1 else if s = ''Feb'' then 2 else if s = ''Mar'' then 3 else if s = ''Apr'' then 4
      else if s = ''May'' then 5 else if s = ''Jun'' then 6 else if s = ''Jul'' then 7 else if s = ''Aug'' then 8
      else if s = ''Sep'' then 9 else if s = ''Oct'' then 10 else if s = ''Nov'' then 11
      else if s = ''Dec'' then 12 else 1)"

text \<open>The date read from the text, its fields cut to their width, and the tick it stands for.\<close>

definition parsed_date :: "int \<Rightarrow> int \<Rightarrow> int \<Rightarrow> int \<Rightarrow> int \<Rightarrow> int \<Rightarrow> int \<Rightarrow> OrbisRtcDateTime" where
  "parsed_date y mo d h mi s us =
     \<lparr>dt_year = u16_of_int y, dt_month = u16_of_int mo, dt_day = u16_of_int d, dt_hour = u16_of_int h,
      dt_minute = u16_of_int mi, dt_second = u16_of_int s, dt_microsecond = u32_of_s32 us\<rparr>"

definition tick_of_parsed :: "OrbisRtcDateTime \<Rightarrow> u64 \<Rightarrow> u64 option" where
  "tick_of_parsed t old =
     map_option (\<lambda>r. case snd (snd r) of None \<Rightarrow> old | Some tick \<Rightarrow> tick) (sceRtcGetTick (Some t) (Some old))"

text \<open>The zone at position \<open>pos\<close>, its minutes \<open>gap\<close> characters after the sign.\<close>

definition add_zone :: "string \<Rightarrow> nat \<Rightarrow> nat \<Rightarrow> u64 \<Rightarrow> u64 option" where
  "add_zone s pos gap tick = do {
     c \<leftarrow> char_at s pos;
     (if c = CHR ''-'' \<or> c = CHR ''+'' then do {
        h \<leftarrow> stoi_at s (pos + 1) 2;
        m \<leftarrow> stoi_at s (pos + gap) 2;
        Some (add_minutes tick (if c = CHR ''-'' then - (h * 60 + m) else h * 60 + m))
      } else Some tick)
   }"

definition sceRtcParseRFC3339 :: "u64 option \<Rightarrow> string option \<Rightarrow> (s32 \<times> u64 option) option" where
  "sceRtcParseRFC3339 pTickUtc pszDateTime =
     (case (pTickUtc, pszDateTime) of
        (Some old, Some s) \<Rightarrow> do {
          y \<leftarrow> stoi_at s 0 4;
          mo \<leftarrow> stoi_at s 5 2;
          d \<leftarrow> stoi_at s 8 2;
          h \<leftarrow> stoi_at s 11 2;
          mi \<leftarrow> stoi_at s 14 2;
          sec \<leftarrow> stoi_at s 17 2;
          c \<leftarrow> char_at s 19;
          (us, timezone_pos) \<leftarrow>
            (if c = CHR ''.'' then map_option (\<lambda>u. (u, 22)) (stoi_at s 20 2) else Some (0, 19));
          z \<leftarrow> char_at s timezone_pos;
          tick \<leftarrow> tick_of_parsed (parsed_date y mo d h mi sec us) old;
          tick' \<leftarrow> (if z \<noteq> CHR ''Z'' then add_zone s timezone_pos 4 tick else Some tick);
          Some (ORBIS_OK, Some tick')
        }
      | _ \<Rightarrow> Some (ORBIS_RTC_ERROR_INVALID_POINTER, pTickUtc))"

definition sceRtcParseDateTime :: "u64 option \<Rightarrow> string option \<Rightarrow> (s32 \<times> u64 option) option" where
  "sceRtcParseDateTime pTickUtc pszDateTime =
     (case (pTickUtc, pszDateTime) of
        (Some old, Some s) \<Rightarrow> do {
          formatKey \<leftarrow> char_at s 19;
          (if formatKey = CHR ''Z'' \<or> formatKey = CHR ''-'' \<or> formatKey = CHR ''+'' \<or> formatKey = CHR ''.''
           then map_option (\<lambda>r. (ORBIS_OK, snd r)) (sceRtcParseRFC3339 (Some old) (Some s))
           else if formatKey = CHR '':'' then do {
             d \<leftarrow> stoi_at s 5 2;
             mo \<leftarrow> substr s 8 3;
             y \<leftarrow> stoi_at s 12 4;
             h \<leftarrow> stoi_at s 17 2;
             mi \<leftarrow> stoi_at s 20 2;
             sec \<leftarrow> stoi_at s 23 2;
             tick \<leftarrow> tick_of_parsed (parsed_date y (GetMonthFromString mo) d h mi sec 0) old;
             tick' \<leftarrow> add_zone s 26 3 tick;
             Some (ORBIS_OK, Some tick')
           } else do {
             mo \<leftarrow> substr s 4 3;
             d \<leftarrow> stoi_at s 8 2;
             h \<leftarrow> stoi_at s 11 2;
             mi \<leftarrow> stoi_at s 14 2;
             sec \<leftarrow> stoi_at s 17 2;
             y \<leftarrow> stoi_at s 20 4;
             tick \<leftarrow> tick_of_parsed (parsed_date y (GetMonthFromString mo) d h mi sec 0) old;
             Some (ORBIS_OK, Some tick)
           })
        }
      | _ \<Rightarrow> Some (ORBIS_RTC_ERROR_INVALID_POINTER, pTickUtc))"

end
