(* ===== verification/Rtc_Correct.thy ===== *)
theory Rtc_Correct
  imports Rtc_Format
begin

text \<open>
  Correctness of the real-time clock library of \<open>Rtc\<close> and \<open>Rtc_Format\<close> against a calendar written
  independently of the code: the days before a year by recursion on the year, the days before a
  month as the sum of the month lengths.  A tick is the number of microseconds since midnight of
  1 January of year 1, and the conversions are inverse to each other.
\<close>

section \<open>A reference calendar\<close>

fun days_before_year :: "nat \<Rightarrow> nat" where
  "days_before_year 0 = 0"
| "days_before_year (Suc y) = (if y = 0 then 0 else days_before_year y + (if is_leap (int y) then 366 else 365))"

definition month_length :: "nat \<Rightarrow> nat \<Rightarrow> nat" where
  "month_length y m = nat (last_day (int y) m)"

definition ordinal_day :: "nat \<Rightarrow> nat \<Rightarrow> nat \<Rightarrow> nat" where
  "ordinal_day y m d = days_before_year y + (\<Sum>i\<leftarrow>[1..<m]. month_length y i) + (d - 1)"

definition leaps :: "nat \<Rightarrow> nat" where
  "leaps y = y div 4 - y div 100 + y div 400"

lemma leap_nat: "is_leap (int n) \<longleftrightarrow> 4 dvd n \<and> (\<not> 100 dvd n \<or> 400 dvd n)"
  unfolding is_leap_def by presburger

lemma div_Suc_dvd: "0 < k \<Longrightarrow> Suc y div k = y div k + (if k dvd Suc y then 1 else 0)"
  by (simp add: div_Suc dvd_eq_mod_eq_0)

lemma leaps_Suc: "leaps (Suc y) = leaps y + (if is_leap (int (Suc y)) then 1 else 0)"
proof -
  have le: "y div 100 \<le> y div 4"
    by (rule div_le_mono2) simp_all
  have d: "400 dvd Suc y \<Longrightarrow> 100 dvd Suc y" "100 dvd Suc y \<Longrightarrow> 4 dvd Suc y"
    by (rule dvd_trans; simp)+
  show ?thesis
    unfolding leaps_def leap_nat using le d
    by (cases "400 dvd Suc y"; cases "100 dvd Suc y"; cases "4 dvd Suc y") (simp_all add: div_Suc_dvd Suc_diff_le)
qed

lemma days_before_year_eq: "0 < y \<Longrightarrow> days_before_year y = 365 * (y - 1) + leaps (y - 1)"
proof (induction y)
  case (Suc y)
  show ?case
  proof (cases y)
    case 0
    then show ?thesis by (simp add: leaps_def)
  next
    case (Suc z)
    with Suc.IH have "days_before_year y = 365 * z + leaps z" by simp
    moreover have "leaps y = leaps z + (if is_leap (int y) then 1 else 0)"
      using leaps_Suc [of z] Suc by simp
    ultimately show ?thesis using Suc by simp
  qed
qed simp

lemma chrono_year_small: "y < 32768 \<Longrightarrow> chrono_year (int y) = int y"
  by (simp add: chrono_year_def Let_def)

lemma month_cases: "0 < (m::nat) \<Longrightarrow> m \<le> 12 \<Longrightarrow>
   m = 1 \<or> m = 2 \<or> m = 3 \<or> m = 4 \<or> m = 5 \<or> m = 6 \<or> m = 7 \<or> m = 8 \<or> m = 9 \<or> m = 10 \<or> m = 11 \<or> m = 12"
  by presburger

text \<open>The shifted form of a date: years begin in March.\<close>

definition march_days :: "nat \<Rightarrow> nat \<Rightarrow> nat \<Rightarrow> nat" where
  "march_days Y mp d =
     146097 * (Y div 100) div 4 + 1461 * (Y - 100 * (Y div 100)) div 4 + (153 * mp + 2) div 5 + d"

lemma march_years: "146097 * (Y div 100) div 4 + 1461 * (Y - 100 * (Y div 100)) div 4 = 365 * Y + leaps Y"
proof -
  define c where "c = Y div 100"
  define ya where "ya = Y mod 100"
  have Y: "Y = 100 * c + ya" by (simp add: c_def ya_def)
  have ya: "ya < 100" by (simp add: ya_def)
  have "146097 * c div 4 = 36524 * c + c div 4" "1461 * ya div 4 = 365 * ya + ya div 4"
    by presburger+
  moreover have "Y div 4 = 25 * c + ya div 4" unfolding Y by presburger
  moreover have "Y div 400 = c div 4" unfolding c_def by (simp add: div_mult2_eq [of Y 100 4, simplified])
  moreover have "Y - 100 * c = ya" using Y by simp
  ultimately show ?thesis
    unfolding leaps_def c_def [symmetric] using Y by simp
qed

lemma upt_months:
  "[1..<1::nat] = []" "[1..<2::nat] = [1]" "[1..<3::nat] = [1, 2]" "[1..<4::nat] = [1, 2, 3]"
  "[1..<5::nat] = [1, 2, 3, 4]" "[1..<6::nat] = [1, 2, 3, 4, 5]" "[1..<7::nat] = [1, 2, 3, 4, 5, 6]"
  "[1..<8::nat] = [1, 2, 3, 4, 5, 6, 7]" "[1..<9::nat] = [1, 2, 3, 4, 5, 6, 7, 8]"
  "[1..<10::nat] = [1, 2, 3, 4, 5, 6, 7, 8, 9]" "[1..<11::nat] = [1, 2, 3, 4, 5, 6, 7, 8, 9, 10]"
  "[1..<12::nat] = [1, 2, 3, 4, 5, 6, 7, 8, 9, 10, 11]"
  by (simp_all add: upt_rec)

lemma month_length_values:
  assumes "y < 32768"
  shows "month_length y 1 = 31" "month_length y 2 = (if is_leap (int y) then 29 else 28)"
    "month_length y 3 = 31" "month_length y 4 = 30" "month_length y 5 = 31" "month_length y 6 = 30"
    "month_length y 7 = 31" "month_length y 8 = 31" "month_length y 9 = 30" "month_length y 10 = 31"
    "month_length y 11 = 30" "month_length y 12 = 31"
  using assms by (simp_all add: month_length_def last_day_def chrono_year_small month_days_def)

lemma march_days_ordinal:
  assumes "0 < y" "y < 32768" "0 < m" "m \<le> 12" "0 < d"
  shows "(if m > 2 then march_days y (m - 3) d else march_days (y - 1) (m + 9) d) = ordinal_day y m d + 307"
proof -
  obtain z where z: "y - 1 = z" "y = Suc z" using assms(1) by (cases y) auto
  have ly: "leaps y = leaps z + (if is_leap (int y) then 1 else 0)"
    using leaps_Suc [of z] z by simp
  have db: "days_before_year y = 365 * z + leaps z" using days_before_year_eq [OF assms(1)] z by simp
  have y365: "365 * y = 365 * z + 365" using z by simp
  note facts = march_days_def march_years ordinal_day_def db ly y365 z(1) upt_months month_length_values [OF assms(2)]
  show ?thesis
    using month_cases [OF assms(3,4)] assms(5)
    by (elim disjE; simp only: facts;
        simp add: month_length_values [OF assms(2)] month_length_values(1) [OF assms(2), unfolded One_nat_def])
qed

section \<open>From dates to ticks\<close>

text \<open>A sample date: 29 February 2024, 12:30:15.250000.\<close>

definition leap_noon :: OrbisRtcDateTime where
  "leap_noon = \<lparr>dt_year = 2024, dt_month = 2, dt_day = 29, dt_hour = 12, dt_minute = 30, dt_second = 15,
     dt_microsecond = 250000\<rparr>"

lemma leap_noon_valid: "sceRtcCheckValid (Some leap_noon) = ORBIS_OK"
  by (simp add: leap_noon_def sceRtcCheckValid_def last_day_def is_leap_def chrono_year_def month_days_def)

lemma valid_date_iff:
  "sceRtcCheckValid (Some t) = ORBIS_OK \<longleftrightarrow>
     0 < dt_year t \<and> dt_year t \<le> 9999 \<and> 0 < dt_month t \<and> dt_month t \<le> 12 \<and> 0 < dt_day t
     \<and> dt_day t \<le> month_length (dt_year t) (dt_month t)
     \<and> dt_hour t < 24 \<and> dt_minute t < 60 \<and> dt_second t < 60 \<and> dt_microsecond t < 1000000"
  by (auto simp: sceRtcCheckValid_def rtc_code_def ORBIS_OK_def month_length_def nat_le_iff not_less
      le_nat_iff)

lemma month_length_bound:
  assumes "0 < m" "m \<le> 12" "y < 32768"
  shows "month_length y m \<le> 31"
  using month_cases [OF assms(1,2)] assms(3)
  by (elim disjE; simp add: month_length_values month_length_values(1) [unfolded One_nat_def])

definition time_of_day :: "OrbisRtcDateTime \<Rightarrow> nat" where
  "time_of_day t =
     dt_hour t * 3600000000 + dt_minute t * 60000000 + dt_second t * 1000000 + dt_microsecond t"

lemma time_of_day_bound:
  "dt_hour t < 24 \<Longrightarrow> dt_minute t < 60 \<Longrightarrow> dt_second t < 60 \<Longrightarrow> dt_microsecond t < 1000000 \<Longrightarrow>
     time_of_day t < 86400000000"
  by (simp add: time_of_day_def)

lemma march_days_bound: "Y \<le> 9999 \<Longrightarrow> mp \<le> 11 \<Longrightarrow> d \<le> 31 \<Longrightarrow> march_days Y mp d \<le> 4000000"
proof -
  assume a: "Y \<le> 9999" "mp \<le> 11" "d \<le> 31"
  have "leaps Y \<le> Y div 4 + Y div 400" by (simp add: leaps_def)
  also have "\<dots> \<le> 9999 + 9999"
    using a(1) by (intro add_mono order_trans [OF div_le_dividend]) simp_all
  finally have "leaps Y \<le> 19998" by simp
  moreover have "(153 * mp + 2) div 5 \<le> 153 * mp + 2" by (rule div_le_dividend)
  ultimately show ?thesis
    using a unfolding march_days_def march_years by linarith
qed

lemma sceRtcGetTick_value:
  assumes "sceRtcCheckValid (Some t) = ORBIS_OK" "dt_minute t < 36"
  shows "sceRtcGetTick (Some t) (Some old) = Some (ORBIS_OK, Some (shift_month t),
     Some (ordinal_day (dt_year t) (dt_month t) (dt_day t) * 86400000000 + time_of_day t))"
proof -
  have v: "0 < dt_year t" "dt_year t \<le> 9999" "0 < dt_month t" "dt_month t \<le> 12" "0 < dt_day t"
    "dt_day t \<le> month_length (dt_year t) (dt_month t)" and tod: "time_of_day t < 86400000000"
    using assms(1) by (auto simp: valid_date_iff intro: time_of_day_bound)
  have d31: "dt_day t \<le> 31" using v month_length_bound [of "dt_month t" "dt_year t"] by simp
  let ?Y = "dt_year (shift_month t)" and ?mp = "dt_month (shift_month t)"
  have sh: "dt_day (shift_month t) = dt_day t" "time_of_day (shift_month t) = time_of_day t"
    by (simp_all add: shift_month_def time_of_day_def)
  have eq: "march_days ?Y ?mp (dt_day t) = ordinal_day (dt_year t) (dt_month t) (dt_day t) + 307"
    using march_days_ordinal [of "dt_year t" "dt_month t" "dt_day t"] v by (simp add: shift_month_def split: if_splits)
  have "march_days ?Y ?mp (dt_day t) \<le> 4000000"
    using v d31 by (intro march_days_bound) (auto simp: shift_month_def)
  then have lim: "march_days ?Y ?mp (dt_day t) < U64_MOD"
      "ordinal_day (dt_year t) (dt_month t) (dt_day t) \<le> 4000000"
    using eq by simp_all
  have days: "sub64 (march_days ?Y ?mp (dt_day t)) 307 = ordinal_day (dt_year t) (dt_month t) (dt_day t)"
    using eq lim by simp
  have us: "ordinal_day (dt_year t) (dt_month t) (dt_day t) * 86400000000 mod U64_MOD
      = ordinal_day (dt_year t) (dt_month t) (dt_day t) * 86400000000"
    using lim(2) by (intro mod_less) simp
  have "add64 (ordinal_day (dt_year t) (dt_month t) (dt_day t) * 86400000000) (time_of_day t)
      = ordinal_day (dt_year t) (dt_month t) (dt_day t) * 86400000000 + time_of_day t"
    using lim(2) tod by (intro add64_exact) simp
  moreover have "\<not> dt_minute t * 60000000 > 2147483647"
    using assms(2) by simp
  ultimately show ?thesis
    using days us unfolding sceRtcGetTick_def Let_def prod.case option.case assms(1) ORBIS_OK_def
      march_days_def [symmetric] time_of_day_def [symmetric] sh
    by simp
qed

lemma sceRtcGetTick_overflow:
  assumes "sceRtcCheckValid (Some t) = ORBIS_OK" "36 \<le> dt_minute t"
  shows "sceRtcGetTick (Some t) (Some old) = None"
  using assms by (simp add: sceRtcGetTick_def ORBIS_OK_def)

text \<open>
  C32. For a valid date whose minute is below 36, \<^verbatim>\<open>sceRtcGetTick\<close> succeeds and the tick is the ordinal
  number of the day, by the reference calendar, in days of 86400000000 microseconds plus the time of
  day.  For the minutes 36 to 59 the call has no defined result: \<^verbatim>\<open>pTime->minute * 60000000\<close> is a product
  of two \<^verbatim>\<open>int\<close>s and overflows.
\<close>

theorem sceRtcGetTick_ordinal:
  assumes "sceRtcCheckValid (Some t) = ORBIS_OK"
  shows "sceRtcGetTick (Some t) (Some old) =
    (if dt_minute t < 36
     then Some (ORBIS_OK, Some (shift_month t),
       Some (ordinal_day (dt_year t) (dt_month t) (dt_day t) * 86400000000 + time_of_day t))
     else None)"
  using assms by (simp add: sceRtcGetTick_value sceRtcGetTick_overflow)

theorem sceRtcGetTick_ordinal_witness:
  "sceRtcCheckValid (Some leap_noon) = ORBIS_OK \<and>
   sceRtcGetTick (Some leap_noon) (Some 0) = Some (ORBIS_OK, Some (shift_month leap_noon),
     Some (ordinal_day 2024 2 29 * 86400000000 + time_of_day leap_noon)) \<and>
   sceRtcCheckValid (Some (leap_noon\<lparr>dt_minute := 45\<rparr>)) = ORBIS_OK \<and>
   sceRtcGetTick (Some (leap_noon\<lparr>dt_minute := 45\<rparr>)) (Some 0) = None"
proof -
  have v: "sceRtcCheckValid (Some (leap_noon\<lparr>dt_minute := 45\<rparr>)) = ORBIS_OK"
    by (simp add: leap_noon_def sceRtcCheckValid_def last_day_def is_leap_def chrono_year_def month_days_def)
  show ?thesis
    using sceRtcGetTick_ordinal [OF leap_noon_valid, of 0] sceRtcGetTick_ordinal [OF v, of 0] leap_noon_valid v
    by (simp add: leap_noon_def)
qed

section \<open>From ticks to dates\<close>

lemma month_of_doy:
  fixes mp d :: nat
  assumes "mp \<le> 11" "0 < d" "d \<le> 31" "mp \<in> {1, 3, 6, 8, 11} \<Longrightarrow> d \<le> 30"
  defines "doy \<equiv> (153 * mp + 2) div 5 + d"
  shows "(5 * doy - 3) div 153 = mp" "(5 * doy + 2 - 153 * mp) div 5 = d"
proof -
  define e where "e = (153 * mp + 2) mod 5"
  have K: "5 * ((153 * mp + 2) div 5) + e = 153 * mp + 2" "e \<le> 4"
    unfolding e_def by (simp_all add: less_Suc_eq_le [symmetric])
  have "mp = 0 \<or> mp = 1 \<or> mp = 2 \<or> mp = 3 \<or> mp = 4 \<or> mp = 5 \<or> mp = 6 \<or> mp = 7 \<or> mp = 8 \<or> mp = 9 \<or> mp = 10 \<or> mp = 11"
    using assms(1) by presburger
  then have e2: "d \<le> 30 \<or> 2 \<le> e"
    using assms(4) unfolding e_def by (elim disjE; simp)
  have doy: "5 * doy + e = 153 * mp + 2 + 5 * d"
    using K(1) unfolding doy_def by simp
  show "(5 * doy - 3) div 153 = mp"
  proof (rule div_nat_eqI)
    show "153 * mp \<le> 5 * doy - 3" using doy K(2) assms(2) by linarith
    show "5 * doy - 3 < 153 * Suc mp" using e2 doy assms(2,3) unfolding mult_Suc_right by (elim disjE) linarith+
  qed
  show "(5 * doy + 2 - 153 * mp) div 5 = d"
  proof (rule div_nat_eqI)
    show "5 * d \<le> 5 * doy + 2 - 153 * mp" using doy K(2) by linarith
    show "5 * doy + 2 - 153 * mp < 5 * Suc d" using doy unfolding mult_Suc_right by linarith
  qed
qed

lemma mod4_factor: "(4 * k + 1) * c mod 4 = c mod (4::nat)"
proof -
  have "(4 * k + 1) * c = c + 4 * (k * c)" by (simp add: algebra_simps)
  then show ?thesis by (simp only: mod_mult_self2)
qed

lemma civil_core:
  fixes c ya doy :: nat
  assumes ya: "ya < 100" and doy: "0 < doy" "doy \<le> 366" "doy = 366 \<Longrightarrow> ya mod 4 = 3"
    and cent: "doy = 366 \<Longrightarrow> ya = 99 \<Longrightarrow> c mod 4 = 3"
  defines "N \<equiv> 146097 * c div 4 + 1461 * ya div 4 + doy"
  defines "ld0 \<equiv> (N * 4 - 1 - 146097 * ((N * 4 - 1) div 146097)) div 4"
  shows "(N * 4 - 1) div 146097 = c" "(ld0 * 4 + 3) div 1461 = ya" "(ld0 * 4 + 7 - 1461 * ya) div 4 = doy"
proof -
  define r where "r = c mod 4"
  define s where "s = ya mod 4"
  have rs: "r \<le> 3" "s \<le> 3" by (simp_all add: r_def s_def less_Suc_eq_le [symmetric])
  define a4 where "a4 = 146097 * c div 4"
  define b4 where "b4 = 1461 * ya div 4"
  have A: "4 * a4 + r = 146097 * c"
    using mod4_factor [of 36524 c] mult_div_mod_eq [of 4 "146097 * c"] by (simp add: r_def a4_def)
  have B: "4 * b4 + s = 1461 * ya"
    using mod4_factor [of 365 ya] mult_div_mod_eq [of 4 "1461 * ya"] by (simp add: s_def b4_def)
  have N: "N = a4 + b4 + doy" by (simp add: N_def a4_def b4_def)
  have up: "4 * doy \<le> 1461 + s" using doy rs unfolding s_def by (cases "doy = 366") auto
  have top: "1461 * ya + 4 * doy \<le> 146097 + s + r"
  proof (cases "ya = 99")
    case True
    then have "s = 3" by (simp add: s_def)
    then show ?thesis using True up doy cent unfolding r_def by (cases "doy = 366") auto
  next
    case False
    then have "ya \<le> 98" using ya by simp
    then show ?thesis using up by simp
  qed
  have N4: "N * 4 + r + s = 146097 * c + 1461 * ya + 4 * doy"
    using A B by (simp add: N)
  show q1: "(N * 4 - 1) div 146097 = c"
  proof (rule div_nat_eqI)
    show "146097 * c \<le> N * 4 - 1" using N4 B doy rs by linarith
    show "N * 4 - 1 < 146097 * Suc c" using N4 top doy unfolding mult_Suc_right by linarith
  qed
  have "N * 4 - 1 - 146097 * c = 4 * (b4 + doy - 1) + (3 - r)"
    using N4 B doy rs by linarith
  then have ld0: "ld0 = b4 + doy - 1"
    unfolding ld0_def q1 using rs by simp
  have l4: "ld0 * 4 + s + 4 = 1461 * ya + 4 * doy" using ld0 B doy by simp
  show "(ld0 * 4 + 3) div 1461 = ya"
  proof (rule div_nat_eqI)
    show "1461 * ya \<le> ld0 * 4 + 3" using l4 doy rs by linarith
    show "ld0 * 4 + 3 < 1461 * Suc ya" using l4 up doy unfolding mult_Suc_right by linarith
  qed
  have "ld0 * 4 + 7 - 1461 * ya = 4 * doy + (3 - s)" using l4 doy rs by linarith
  then show "(ld0 * 4 + 7 - 1461 * ya) div 4 = doy" using rs by simp
qed

lemma civil_of_ordinal:
  assumes y: "0 < y" "y \<le> 9999" and m: "0 < m" "m \<le> 12" and d: "0 < d" "d \<le> month_length y m"
  shows "civil_of_days (ordinal_day y m d) = (y, m, d)"
proof -
  define Y where "Y = (if m > 2 then y else y - 1)"
  define mp where "mp = (if m > 2 then m - 3 else m + 9)"
  define c where "c = Y div 100"
  define ya where "ya = Y - 100 * c"
  define doy where "doy = (153 * mp + 2) div 5 + d"
  have Yc: "Y = 100 * c + ya" "ya < 100"
    unfolding ya_def c_def by (simp_all add: minus_mult_div_eq_mod)
  have N: "ordinal_day y m d + 307 = 146097 * c div 4 + 1461 * ya div 4 + doy"
    using march_days_ordinal [of y m d] y m d
    by (simp add: march_days_def Y_def mp_def c_def ya_def doy_def split: if_splits)
  have y15: "y < 32768" using y by simp
  note ml = month_length_values [OF y15]
  have d31: "d \<le> 31" using d(2) month_length_bound [OF m y15] by simp
  have d30: "d \<le> 30" if "m \<in> {4, 6, 9, 11}" using that d(2) ml by auto
  have feb: "d \<le> 29 \<and> (d = 29 \<longrightarrow> is_leap (int y))" if "m = 2" using that d(2) ml by (auto split: if_splits)
  have m11: "m = 2 \<and> Y = y - 1" if "mp = 11" using that m unfolding mp_def Y_def by (auto split: if_splits)
  have mp: "mp \<le> 11" using m unfolding mp_def by auto
  have mp30: "d \<le> 30" if "mp \<in> {1, 3, 6, 8, 11}"
  proof (cases "mp = 11")
    case True
    then show ?thesis using feb m11 by simp
  next
    case False
    then have "m \<in> {4, 6, 9, 11}" using that unfolding mp_def by (auto split: if_splits)
    then show ?thesis by (rule d30)
  qed
  have small: "doy \<le> 365" if "mp \<noteq> 11"
  proof -
    have "(153 * mp + 2) div 5 \<le> (153 * 10 + 2) div 5"
      using that mp by (intro div_le_mono) simp
    then show ?thesis using d31 by (simp add: doy_def)
  qed
  have doy: "0 < doy" "doy \<le> 366" "doy = 366 \<Longrightarrow> mp = 11 \<and> is_leap (int y)"
  proof -
    show "0 < doy" using d by (simp add: doy_def)
    have big: "doy = 337 + d" "d \<le> 29" "d = 29 \<longrightarrow> is_leap (int y)" if "mp = 11"
      using that feb m11 by (simp_all add: doy_def)
    show "doy \<le> 366" using small big by (cases "mp = 11") simp_all
    show "mp = 11 \<and> is_leap (int y)" if "doy = 366"
      using small big that by (cases "mp = 11") simp_all
  qed
  have leap: "4 dvd y \<and> (\<not> 100 dvd y \<or> 400 dvd y) \<and> y = Suc Y" if "doy = 366"
    using doy(3) [OF that] m11 y(1) by (simp add: leap_nat)
  have l4: "ya mod 4 = 3" if "doy = 366"
  proof -
    have y4: "4 dvd y" and ye: "y = 4 * (25 * c) + Suc ya" using leap [OF that] Yc by (blast, simp)
    have "4 dvd 4 * (25 * c) + Suc ya" by (rule y4 [unfolded ye])
    then have "4 dvd Suc ya" by (simp only: dvd_add_right_iff dvd_triv_left)
    then show ?thesis by presburger
  qed
  have l400: "c mod 4 = 3" if "doy = 366" "ya = 99"
  proof -
    have "y = 100 * Suc c" using leap [OF that(1)] Yc that(2) by simp
    then have "400 dvd 100 * Suc c" using leap [OF that(1)] by auto
    then have "4 dvd Suc c" by presburger
    then show ?thesis by presburger
  qed
  note core = civil_core [OF Yc(2) doy(1,2) l4 l400, folded N]
  have mon: "(5 * doy - 3) div 153 = mp" "(5 * doy + 2 - 153 * mp) div 5 = d"
    unfolding doy_def by (rule month_of_doy [OF mp d(1) d31]; erule mp30)+
  let ?N = "ordinal_day y m d + 307"
  let ?ld0 = "(?N * 4 - 1 - 146097 * c) div 4"
  have q1: "(?N * 4 - 1) div 146097 = c" by (rule core(1))
  have q2: "(?ld0 * 4 + 3) div 1461 = ya" using core(2) unfolding q1 .
  have q3: "(?ld0 * 4 + 7 - 1461 * ya) div 4 = doy" using core(3) unfolding q1 .
  have "civil_of_days (ordinal_day y m d) =
      (if mp < 10 then (100 * c + ya, mp + 3, d) else (100 * c + ya + 1, mp - 9, d))"
    unfolding civil_of_days_def Let_def q1 q2 q3 mon ..
  then show ?thesis
    using Yc(1) y(1) m unfolding Y_def mp_def by (auto split: if_splits)
qed

lemma split_time:
  fixes h mi s us :: nat
  assumes "mi < 60" "s < 60" "us < 1000000"
  defines "t \<equiv> h * 3600000000 + mi * 60000000 + s * 1000000 + us"
  shows "t div 3600000000 = h" "t mod 3600000000 div 60000000 = mi"
    "t mod 3600000000 mod 60000000 div 1000000 = s" "t mod 3600000000 mod 60000000 mod 1000000 = us"
proof -
  have a: "t = 3600000000 * h + (mi * 60000000 + s * 1000000 + us)"
    "mi * 60000000 + s * 1000000 + us < 3600000000"
    using assms(1-3) by (simp_all add: t_def)
  have b: "mi * 60000000 + s * 1000000 + us = 60000000 * mi + (s * 1000000 + us)" "s * 1000000 + us < 60000000"
    using assms(2,3) by simp_all
  have c: "s * 1000000 + us = 1000000 * s + us" by simp
  have m1: "t mod 3600000000 = mi * 60000000 + s * 1000000 + us"
    unfolding a(1) using a(2) by (simp only: mod_mult_self4 mod_less)
  have m2: "(mi * 60000000 + s * 1000000 + us) mod 60000000 = s * 1000000 + us"
    unfolding b(1) using b(2) by (simp only: mod_mult_self4 mod_less)
  show "t div 3600000000 = h"
    unfolding a(1) using a(2) by simp
  show "t mod 3600000000 div 60000000 = mi"
    unfolding m1 b(1) using b(2) by simp
  show "t mod 3600000000 mod 60000000 div 1000000 = s" "t mod 3600000000 mod 60000000 mod 1000000 = us"
    unfolding m1 m2 c using assms(3) by simp_all
qed

lemma set_tick_of_get_tick:
  assumes "sceRtcCheckValid (Some t) = ORBIS_OK" "sceRtcGetTick (Some t) (Some old) = Some (r, t', Some tick)"
  shows "sceRtcSetTick (Some u) (Some tick) = (ORBIS_OK, Some t)"
proof -
  have v: "0 < dt_year t" "dt_year t \<le> 9999" "0 < dt_month t" "dt_month t \<le> 12" "0 < dt_day t"
    "dt_day t \<le> month_length (dt_year t) (dt_month t)" and tm: "dt_minute t < 60" "dt_second t < 60" "dt_microsecond t < 1000000"
    and tod: "time_of_day t < 86400000000"
    using assms(1) by (auto simp: valid_date_iff intro: time_of_day_bound)
  have tick: "tick = ordinal_day (dt_year t) (dt_month t) (dt_day t) * 86400000000 + time_of_day t"
    using assms(2) sceRtcGetTick_value [OF assms(1)] sceRtcGetTick_overflow [OF assms(1)]
    by (cases "dt_minute t < 36") auto
  have d: "tick div 86400000000 = ordinal_day (dt_year t) (dt_month t) (dt_day t)"
    "tick mod 86400000000 = time_of_day t"
    unfolding tick using tod by simp_all
  have d31: "dt_day t \<le> 31" using v month_length_bound [of "dt_month t" "dt_year t"] by simp
  have st: "time_of_day t div 3600000000 = dt_hour t" "time_of_day t mod 3600000000 div 60000000 = dt_minute t"
    "time_of_day t mod 3600000000 mod 60000000 div 1000000 = dt_second t"
    "time_of_day t mod 3600000000 mod 60000000 mod 1000000 = dt_microsecond t"
    unfolding time_of_day_def by (rule split_time [OF tm])+
  have small: "dt_year t mod 65536 = dt_year t" "dt_month t mod 65536 = dt_month t" "dt_day t mod 65536 = dt_day t"
    using v d31 by simp_all
  have "date_of_tick tick = t"
    unfolding date_of_tick_def d civil_of_ordinal [OF v] Let_def prod.case st small by simp
  then show ?thesis by (simp add: sceRtcSetTick_def)
qed

text \<open>
  C33. \<^verbatim>\<open>sceRtcSetTick\<close> takes the tick that \<^verbatim>\<open>sceRtcGetTick\<close> computed for a valid date back to that date.  A
  tick is computed exactly for the valid dates whose minute is below 36, the others overflow an \<^verbatim>\<open>int\<close>.
\<close>

theorem rtc_date_roundtrip:
  assumes "sceRtcCheckValid (Some t) = ORBIS_OK"
  shows "(dt_minute t < 36 \<longleftrightarrow> sceRtcGetTick (Some t) (Some old) \<noteq> None) \<and>
    (\<forall>r t' tick. sceRtcGetTick (Some t) (Some old) = Some (r, t', Some tick) \<longrightarrow>
       sceRtcSetTick (Some u) (Some tick) = (ORBIS_OK, Some t))"
proof -
  have "sceRtcSetTick (Some u) (Some tick) = (ORBIS_OK, Some t)"
    if "sceRtcGetTick (Some t) (Some old) = Some (r, t', Some tick)" for r t' tick
    using set_tick_of_get_tick [OF assms that] .
  then show ?thesis
    using sceRtcGetTick_value [OF assms] sceRtcGetTick_overflow [OF assms] by (cases "dt_minute t < 36") auto
qed

theorem rtc_date_roundtrip_witness:
  "\<exists>tick. sceRtcGetTick (Some leap_noon) (Some 0) = Some (ORBIS_OK, Some (shift_month leap_noon), Some tick) \<and>
   sceRtcSetTick (Some leap_noon) (Some tick) = (ORBIS_OK, Some leap_noon)"
  using rtc_date_roundtrip [OF leap_noon_valid, of 0 leap_noon] sceRtcGetTick_value [OF leap_noon_valid, of 0]
  by (simp add: leap_noon_def)

end
