(* ===== verification/Bit_Array.thy ===== *)
theory Bit_Array
  imports Prelude
begin

text \<open>
  The fixed-size bit set of \<^verbatim>\<open>src/src/common/bit_array.h\<close> (\<open>Common::BitArray<N>\<close>).  The
  array is the list of its 64-bit words, so \<open>N = 64 * length d\<close>; every loop of the header is a
  recursive function, and the flag \<open>avx\<close> selects the code under \<open>BIT_ARRAY_USE_AVX\<close>, which
  handles four words at a time before the word loop.  The second half reads an array as the set of the positions of
  its one bits, \<open>ba_bit\<close>, and proves what the range operations do to that set.
\<close>

type_synonym bit_array = "64 word list"
type_synonym bit_range = "nat \<times> nat"

definition countr_zero :: "64 word \<Rightarrow> nat" where
  "countr_zero w = length (takeWhile (\<lambda>i. \<not> bit w i) [0..<64])"

definition countr_one :: "64 word \<Rightarrow> nat" where
  "countr_one w = length (takeWhile (\<lambda>i. bit w i) [0..<64])"

definition countl_zero :: "64 word \<Rightarrow> nat" where
  "countl_zero w = length (takeWhile (\<lambda>i. \<not> bit w (63 - i)) [0..<64])"

definition countl_one :: "64 word \<Rightarrow> nat" where
  "countl_one w = length (takeWhile (\<lambda>i. bit w (63 - i)) [0..<64])"

section \<open>Single bits\<close>

definition ba_size :: "bit_array \<Rightarrow> nat" where
  "ba_size d = 64 * length d"

definition ba_set :: "bit_array \<Rightarrow> nat \<Rightarrow> bit_array option" where
  "ba_set d idx = (if idx div 64 < length d
     then Some (d[idx div 64 := d ! (idx div 64) OR push_bit (idx mod 64) 1]) else None)"

definition ba_unset :: "bit_array \<Rightarrow> nat \<Rightarrow> bit_array option" where
  "ba_unset d idx = (if idx div 64 < length d
     then Some (d[idx div 64 := d ! (idx div 64) AND NOT (push_bit (idx mod 64) 1)]) else None)"

definition ba_get :: "bit_array \<Rightarrow> nat \<Rightarrow> bool option" where
  "ba_get d idx = (if idx div 64 < length d
     then Some (d ! (idx div 64) AND push_bit (idx mod 64) 1 \<noteq> 0) else None)"

section \<open>Ranges\<close>

function avx_fill :: "nat \<Rightarrow> nat \<Rightarrow> 64 word \<Rightarrow> bit_array \<Rightarrow> nat \<times> bit_array" where
  "avx_fill i last_word v d =
     (if i + 4 \<le> last_word then avx_fill (i + 4) last_word v (d[i := v, i + 1 := v, i + 2 := v, i + 3 := v])
      else (i, d))"
  by auto
termination by (relation "measure (\<lambda>(i, last_word, _). last_word - i)") auto

function fill_loop :: "nat \<Rightarrow> nat \<Rightarrow> 64 word \<Rightarrow> bit_array \<Rightarrow> bit_array" where
  "fill_loop i last_word v d = (if i < last_word then fill_loop (i + 1) last_word v (d[i := v]) else d)"
  by auto
termination by (relation "measure (\<lambda>(i, last_word, _). last_word - i)") auto

definition fill_words :: "bool \<Rightarrow> nat \<Rightarrow> nat \<Rightarrow> 64 word \<Rightarrow> bit_array \<Rightarrow> bit_array" where
  "fill_words avx i last_word v d =
     (let (i', d') = (if avx then avx_fill i last_word v d else (i, d)) in fill_loop i' last_word v d')"

definition ones_from :: "nat \<Rightarrow> 64 word" where
  "ones_from start_bit = NOT (push_bit start_bit 1 - 1)"

definition ones_to :: "nat \<Rightarrow> 64 word" where
  "ones_to end_bit = (if end_bit = 63 then NOT 0 else push_bit (end_bit + 1) 1 - 1)"

definition ba_SetRange :: "bool \<Rightarrow> bit_array \<Rightarrow> nat \<Rightarrow> nat \<Rightarrow> bit_array" where
  "ba_SetRange avx d st en =
     (if st \<ge> en \<or> en > ba_size d then d
      else let first_word = st div 64; last_word = (en - 1) div 64;
               start_mask = ones_from (st mod 64); end_mask = ones_to ((en - 1) mod 64)
           in if first_word = last_word then d[first_word := d ! first_word OR (start_mask AND end_mask)]
              else let d1 = d[first_word := d ! first_word OR start_mask];
                       d2 = fill_words avx (first_word + 1) last_word (NOT 0) d1
                   in d2[last_word := d2 ! last_word OR end_mask])"

definition ba_UnsetRange :: "bool \<Rightarrow> bit_array \<Rightarrow> nat \<Rightarrow> nat \<Rightarrow> bit_array" where
  "ba_UnsetRange avx d st en =
     (if st \<ge> en \<or> en > ba_size d then d
      else let first_word = st div 64; last_word = (en - 1) div 64;
               start_bit = st mod 64; end_bit = (en - 1) mod 64;
               start_mask = push_bit start_bit 1 - 1;
               end_mask = (if end_bit = 63 then 0 else NOT (push_bit (end_bit + 1) 1 - 1))
           in if first_word = last_word then d[first_word := d ! first_word AND (start_mask OR end_mask)]
              else let d1 = d[first_word := d ! first_word AND start_mask];
                       d2 = fill_words avx (first_word + 1) last_word 0 d1
                   in d2[last_word := d2 ! last_word AND end_mask])"

text \<open>The constructor that copies a range of another array; the loops copy word by word or four words at a time.\<close>

function avx_copy :: "nat \<Rightarrow> nat \<Rightarrow> bit_array \<Rightarrow> bit_array \<Rightarrow> nat \<times> bit_array" where
  "avx_copy i last_word src d =
     (if i + 4 \<le> last_word
      then avx_copy (i + 4) last_word src (d[i := src ! i, i + 1 := src ! (i + 1), i + 2 := src ! (i + 2), i + 3 := src ! (i + 3)])
      else (i, d))"
  by auto
termination by (relation "measure (\<lambda>(i, last_word, _). last_word - i)") auto

function copy_loop :: "nat \<Rightarrow> nat \<Rightarrow> bit_array \<Rightarrow> bit_array \<Rightarrow> bit_array" where
  "copy_loop i last_word src d = (if i < last_word then copy_loop (i + 1) last_word src (d[i := src ! i]) else d)"
  by auto
termination by (relation "measure (\<lambda>(i, last_word, _). last_word - i)") auto

definition ba_copy_range :: "bool \<Rightarrow> bit_array \<Rightarrow> nat \<Rightarrow> nat \<Rightarrow> bit_array" where
  "ba_copy_range avx other st en =
     (let d = replicate (length other) 0
      in if st \<ge> en \<or> en > ba_size other then d
         else let first_word = st div 64; last_word = (en - 1) div 64;
                  start_mask = ones_from (st mod 64); end_mask = ones_to ((en - 1) mod 64)
              in if first_word = last_word then d[first_word := other ! first_word AND (start_mask AND end_mask)]
                 else let d1 = d[first_word := other ! first_word AND start_mask];
                          (i, d2) = (if avx then avx_copy (first_word + 1) last_word other d1 else (first_word + 1, d1));
                          d3 = copy_loop i last_word other d2
                      in d3[last_word := other ! last_word AND end_mask])"

section \<open>Whole arrays\<close>

definition ba_Clear :: "bit_array \<Rightarrow> bit_array" where
  "ba_Clear d = replicate (length d) 0"

definition ba_Fill :: "bit_array \<Rightarrow> bit_array" where
  "ba_Fill d = replicate (length d) (NOT 0)"

definition ba_None :: "bit_array \<Rightarrow> bool" where
  "ba_None d = (foldl (OR) 0 d = 0)"

definition ba_Any :: "bit_array \<Rightarrow> bool" where
  "ba_Any d = (\<not> ba_None d)"

definition ba_or :: "bit_array \<Rightarrow> bit_array \<Rightarrow> bit_array" where
  "ba_or d e = map2 (OR) d e"

definition ba_and :: "bit_array \<Rightarrow> bit_array \<Rightarrow> bit_array" where
  "ba_and d e = map2 (AND) d e"

definition ba_xor :: "bit_array \<Rightarrow> bit_array \<Rightarrow> bit_array" where
  "ba_xor d e = map2 (XOR) d e"

definition ba_not :: "bit_array \<Rightarrow> bit_array" where
  "ba_not d = map NOT d"

definition ba_eq :: "bit_array \<Rightarrow> bit_array \<Rightarrow> bool" where
  "ba_eq d e = (foldl (OR) 0 (map2 (XOR) d e) = 0)"

section \<open>Runs of ones\<close>

text \<open>The loops skip words that equal \<open>v\<close>, four at a time with AVX.\<close>

function avx_skip :: "64 word \<Rightarrow> bit_array \<Rightarrow> nat \<Rightarrow> nat" where
  "avx_skip v d word =
     (if word + 4 \<le> length d
         \<and> d ! word = v \<and> d ! (word + 1) = v \<and> d ! (word + 2) = v \<and> d ! (word + 3) = v
      then avx_skip v d (word + 4) else word)"
  by auto
termination by (relation "measure (\<lambda>(v, d, word). length d - word)") auto

function skip_words :: "64 word \<Rightarrow> bit_array \<Rightarrow> nat \<Rightarrow> nat" where
  "skip_words v d word = (if word < length d \<and> d ! word = v then skip_words v d (word + 1) else word)"
  by auto
termination by (relation "measure (\<lambda>(v, d, word). length d - word)") auto

definition find_end_bit :: "bool \<Rightarrow> bit_array \<Rightarrow> nat \<Rightarrow> nat" where
  "find_end_bit avx d word0 =
     (let word = skip_words (NOT 0) d (if avx then avx_skip (NOT 0) d word0 else word0)
      in if word < length d then word * 64 + countr_one (d ! word) else ba_size d)"

definition word_bits :: "bool \<Rightarrow> bit_array \<Rightarrow> nat \<Rightarrow> 64 word \<Rightarrow> bit_range" where
  "word_bits avx d index word =
     (let empty_bits = countr_zero word; ones_count = countr_one (drop_bit empty_bits word);
          start_bit = index * 64 + empty_bits
      in if ones_count + empty_bits < 64 then (start_bit, start_bit + ones_count)
         else (start_bit, find_end_bit avx d (index + 1)))"

definition FirstRangeFrom :: "bool \<Rightarrow> bit_array \<Rightarrow> nat \<Rightarrow> bit_range" where
  "FirstRangeFrom avx d st =
     (if st \<ge> ba_size d then (ba_size d, ba_size d)
      else let start_word = st div 64; masked_first = d ! start_word AND ones_from (st mod 64)
           in if masked_first \<noteq> 0 then word_bits avx d start_word masked_first
              else let word = skip_words 0 d (if avx then avx_skip 0 d (start_word + 1) else start_word + 1)
                   in if word < length d then word_bits avx d word (d ! word) else (ba_size d, ba_size d))"

function avx_skip_back :: "64 word \<Rightarrow> bit_array \<Rightarrow> nat \<Rightarrow> nat" where
  "avx_skip_back v d word =
     (if word \<ge> 4 \<and> d ! (word - 4) = v \<and> d ! (word - 3) = v \<and> d ! (word - 2) = v \<and> d ! (word - 1) = v
      then avx_skip_back v d (word - 4) else word)"
  by auto
termination by (relation "measure (\<lambda>(v, d, word). word)") auto

primrec skip_back :: "64 word \<Rightarrow> bit_array \<Rightarrow> nat \<Rightarrow> nat" where
  "skip_back v d 0 = 0"
| "skip_back v d (Suc word) = (if d ! word = v then skip_back v d word else Suc word)"

text \<open>With AVX the search for the first bit of a run skips groups of words that are zero, not groups of ones.\<close>

definition find_start_bit :: "bool \<Rightarrow> bit_array \<Rightarrow> nat \<Rightarrow> nat" where
  "find_start_bit avx d word0 =
     (let word = skip_back (NOT 0) d (if avx then avx_skip_back 0 d word0 else word0)
      in if word > 0 then word * 64 - countl_one (d ! (word - 1)) else 0)"

definition word_bits_back :: "bool \<Rightarrow> bit_array \<Rightarrow> nat \<Rightarrow> 64 word \<Rightarrow> bit_range" where
  "word_bits_back avx d index word =
     (let empty_bits = countl_zero word; ones_count = countl_one (push_bit empty_bits word);
          end_bit = index * 64 - empty_bits
      in if empty_bits + ones_count < 64 then (end_bit - ones_count, end_bit)
         else (find_start_bit avx d (index - 1), end_bit))"

definition LastRangeFrom :: "bool \<Rightarrow> bit_array \<Rightarrow> nat \<Rightarrow> bit_range" where
  "LastRangeFrom avx d en0 =
     (if en0 = 0 then (0, 0)
      else let en = (if en0 > ba_size d then ba_size d else en0);
               end_word = (en - 1) div 64 + 1; end_bit = (en - 1) mod 64;
               last = d ! (end_word - 1);
               masked_last = (if end_bit < 63 then last AND (push_bit (end_bit + 1) 1 - 1) else last)
           in if masked_last \<noteq> 0 then word_bits_back avx d end_word masked_last
              else let word = skip_back 0 d (if avx then avx_skip_back 0 d (end_word - 1) else end_word - 1)
                   in if word > 0 then word_bits_back avx d word (d ! (word - 1)) else (0, 0))"

declare avx_fill.simps [simp del] fill_loop.simps [simp del] avx_copy.simps [simp del] copy_loop.simps [simp del]
  avx_skip.simps [simp del] skip_words.simps [simp del] avx_skip_back.simps [simp del]

section \<open>The array as a set of bit positions\<close>

definition ba_bit :: "bit_array \<Rightarrow> nat \<Rightarrow> bool" where
  "ba_bit d i \<longleftrightarrow> i div 64 < length d \<and> bit (d ! (i div 64)) (i mod 64)"

lemma ba_bit_bound: "ba_bit d i \<Longrightarrow> i < ba_size d"
  by (simp add: ba_bit_def ba_size_def less_mult_imp_div_less div_less_iff_less_mult mult.commute)

lemma le_divmod: "(a::nat) \<le> b \<longleftrightarrow> a div 64 < b div 64 \<or> a div 64 = b div 64 \<and> a mod 64 \<le> b mod 64"
proof -
  have lex: "64 * qa + ra \<le> 64 * qb + rb \<longleftrightarrow> qa < qb \<or> qa = qb \<and> ra \<le> rb" if "ra < 64" "rb < 64" for qa ra qb rb :: nat
    using that by (cases qa qb rule: linorder_cases) auto
  show ?thesis using lex [of "a mod 64" "b mod 64" "a div 64" "b div 64"] by simp
qed

lemma low_mask: "push_bit n 1 - 1 = (mask n :: 64 word)"
  by (simp only: mask_eq_exp_minus_1 push_bit_of_1)

lemma bit_ones_from: "bit (ones_from s) j \<longleftrightarrow> s \<le> j \<and> j < 64"
  unfolding ones_from_def low_mask by (auto simp: bit_not_iff bit_mask_iff)

lemma bit_ones_to: "e < 64 \<Longrightarrow> bit (ones_to e) j \<longleftrightarrow> j \<le> e"
  unfolding ones_to_def low_mask by (auto simp: bit_mask_iff bit_not_iff)

lemma bit_zeros_from: "s < 64 \<Longrightarrow> bit (push_bit s 1 - 1 :: 64 word) j \<longleftrightarrow> j < s"
  unfolding low_mask by (auto simp: bit_mask_iff)

lemma bit_zeros_to: "e < 64 \<Longrightarrow> bit (if e = 63 then 0 else NOT (push_bit (e + 1) 1 - 1) :: 64 word) j \<longleftrightarrow> e < j \<and> j < 64"
  unfolding low_mask by (auto simp: bit_mask_iff bit_not_iff)

lemma fill_loop_nth:
  "length (fill_loop i n v d) = length d \<and> (\<forall>j<length d. fill_loop i n v d ! j = (if i \<le> j \<and> j < n then v else d ! j))"
proof (induction i n v d rule: fill_loop.induct)
  case (1 i n v d)
  show ?case
  proof (cases "i < n")
    case True
    have "fill_loop i n v d = fill_loop (i + 1) n v (d[i := v])" using True by (subst fill_loop.simps) simp
    then show ?thesis using 1 [OF True] True by (auto simp: nth_list_update)
  next
    case False
    then show ?thesis by (subst (1 2) fill_loop.simps) auto
  qed
qed

lemma nth_four:
  "j < length d \<Longrightarrow> d[i := v0, i + 1 := v1, i + 2 := v2, i + 3 := v3] ! j =
     (if j = i then v0 else if j = i + 1 then v1 else if j = i + 2 then v2 else if j = i + 3 then v3 else d ! j)"
  by (simp add: nth_list_update)

lemma avx_fill_nth:
  assumes "avx_fill i n v d = (i', d')"
  shows "length d' = length d \<and> i \<le> i' \<and> (i < i' \<longrightarrow> i' \<le> n)
     \<and> (\<forall>j<length d. d' ! j = (if i \<le> j \<and> j < i' then v else d ! j))"
  using assms
proof (induction i n v d arbitrary: i' d' rule: avx_fill.induct)
  case (1 i n v d)
  show ?case
  proof (cases "i + 4 \<le> n")
    case True
    then have "avx_fill (i + 4) n v (d[i := v, i + 1 := v, i + 2 := v, i + 3 := v]) = (i', d')"
      using "1.prems" by (subst (asm) avx_fill.simps) simp
    note ih = "1.IH" [OF True this]
    have "d' ! j = (if i \<le> j \<and> j < i' then v else d ! j)" if j: "j < length d" for j
    proof (cases "i + 4 \<le> j")
      case True
      then show ?thesis using ih j by (simp add: nth_four)
    next
      case False
      then have "i \<le> j \<Longrightarrow> j = i \<or> j = i + 1 \<or> j = i + 2 \<or> j = i + 3" by linarith
      then show ?thesis using ih j False by (auto simp: nth_four)
    qed
    then show ?thesis using ih True by (cases "i + 4 < i'") auto
  next
    case False
    then show ?thesis using "1.prems" by (subst (asm) avx_fill.simps) auto
  qed
qed

lemma fill_words_nth:
  "length (fill_words avx i n v d) = length d"
  "j < length d \<Longrightarrow> fill_words avx i n v d ! j = (if i \<le> j \<and> j < n then v else d ! j)"
proof -
  obtain i' d' where id: "(if avx then avx_fill i n v d else (i, d)) = (i', d')" by fastforce
  then have a: "length d' = length d \<and> i \<le> i' \<and> (i < i' \<longrightarrow> i' \<le> n)
     \<and> (\<forall>j<length d. d' ! j = (if i \<le> j \<and> j < i' then v else d ! j))"
    using avx_fill_nth [of i n v d i' d'] by (cases avx) auto
  have eq: "fill_words avx i n v d = fill_loop i' n v d'" by (simp add: fill_words_def id)
  show "length (fill_words avx i n v d) = length d" using a fill_loop_nth by (simp add: eq)
  show "fill_words avx i n v d ! j = (if i \<le> j \<and> j < n then v else d ! j)" if "j < length d"
    using a fill_loop_nth [of i' n v d'] that by (auto simp: eq)
qed

lemma ba_bit_or_word:
  assumes "w < length d"
  shows "ba_bit (d[w := d ! w OR m]) i \<longleftrightarrow> ba_bit d i \<or> i div 64 = w \<and> bit m (i mod 64)"
  using assms by (cases "i div 64 = w") (simp_all add: ba_bit_def bit_or_iff)

lemma ba_bit_and_word:
  assumes "w < length d"
  shows "ba_bit (d[w := d ! w AND m]) i \<longleftrightarrow> ba_bit d i \<and> (i div 64 = w \<longrightarrow> bit m (i mod 64))"
  using assms by (cases "i div 64 = w") (simp_all add: ba_bit_def bit_and_iff)

lemma ba_bit_fill:
  "ba_bit (fill_words avx a b v d) i \<longleftrightarrow>
     (if a \<le> i div 64 \<and> i div 64 < b then i div 64 < length d \<and> bit v (i mod 64) else ba_bit d i)"
  by (cases "i div 64 < length d") (simp_all add: ba_bit_def fill_words_nth)

lemma range_words:
  assumes "s < e" "e \<le> ba_size d"
  shows "s div 64 < length d" "(e - 1) div 64 < length d" "s div 64 \<le> (e - 1) div 64"
    "(s \<le> i \<and> i < e) \<longleftrightarrow> (s div 64 < i div 64 \<or> s div 64 = i div 64 \<and> s mod 64 \<le> i mod 64)
        \<and> (i div 64 < (e - 1) div 64 \<or> i div 64 = (e - 1) div 64 \<and> i mod 64 \<le> (e - 1) mod 64)"
proof -
  show "s div 64 < length d" "(e - 1) div 64 < length d"
    using assms by (auto simp: ba_size_def div_less_iff_less_mult)
  show "s div 64 \<le> (e - 1) div 64" using assms(1) by (intro div_le_mono) simp
  have "i < e \<longleftrightarrow> i \<le> e - 1" using assms(1) by auto
  then show "(s \<le> i \<and> i < e) \<longleftrightarrow> (s div 64 < i div 64 \<or> s div 64 = i div 64 \<and> s mod 64 \<le> i mod 64)
        \<and> (i div 64 < (e - 1) div 64 \<or> i div 64 = (e - 1) div 64 \<and> i mod 64 \<le> (e - 1) mod 64)"
    using le_divmod [of s i] le_divmod [of i "e - 1"] by simp
qed

lemma ba_SetRange_bit:
  "ba_bit (ba_SetRange avx d s e) i \<longleftrightarrow> ba_bit d i \<or> s < e \<and> e \<le> ba_size d \<and> s \<le> i \<and> i < e"
proof (cases "s < e \<and> e \<le> ba_size d")
  case True
  then have se: "s < e" "e \<le> ba_size d" by auto
  define f l where "f = s div 64" and "l = (e - 1) div 64"
  note R = range_words [OF se, folded f_def l_def]
  have eb: "(e - 1) mod 64 < 64" by simp
  note m = bit_ones_from bit_ones_to [OF eb]
  show ?thesis
  proof (cases "f = l")
    case True
    then have "ba_SetRange avx d s e = d[f := d ! f OR (ones_from (s mod 64) AND ones_to ((e - 1) mod 64))]"
      using se by (simp add: ba_SetRange_def Let_def f_def l_def)
    then show ?thesis using se R(1) True by (auto simp only: ba_bit_or_word R(4) bit_and_iff m mod_less_divisor)
  next
    case False
    define d1 where "d1 = d[f := d ! f OR ones_from (s mod 64)]"
    define d2 where "d2 = fill_words avx (f + 1) l (NOT 0) d1"
    have lt: "f < l" using R(3) False by simp
    have l2: "length d1 = length d" "length d2 = length d" by (simp_all add: d2_def fill_words_nth d1_def)
    have b2: "ba_bit d2 i \<longleftrightarrow> (if f < i div 64 \<and> i div 64 < l then i div 64 < length d else ba_bit d i \<or> i div 64 = f \<and> s mod 64 \<le> i mod 64)"
      using l2 R(1) by (simp add: d2_def ba_bit_fill d1_def ba_bit_or_word m Suc_le_eq bit_not_iff)
    have "ba_SetRange avx d s e = d2[l := d2 ! l OR ones_to ((e - 1) mod 64)]"
      using se False by (simp add: ba_SetRange_def Let_def d1_def d2_def f_def l_def)
    then have "ba_bit (ba_SetRange avx d s e) i \<longleftrightarrow> ba_bit d2 i \<or> i div 64 = l \<and> i mod 64 \<le> (e - 1) mod 64"
      using R(2) l2 by (simp only: ba_bit_or_word m)
    moreover have "ba_bit d i \<longrightarrow> i div 64 < length d" by (simp add: ba_bit_def)
    ultimately show ?thesis unfolding R(4) [of i] b2 using R(2) lt se by (cases "i div 64 < l") auto
  qed
next
  case False
  then show ?thesis by (auto simp: ba_SetRange_def)
qed

lemma ba_UnsetRange_bit:
  "ba_bit (ba_UnsetRange avx d s e) i \<longleftrightarrow> ba_bit d i \<and> \<not> (s < e \<and> e \<le> ba_size d \<and> s \<le> i \<and> i < e)"
proof (cases "s < e \<and> e \<le> ba_size d")
  case True
  then have se: "s < e" "e \<le> ba_size d" by auto
  define f l where "f = s div 64" and "l = (e - 1) div 64"
  note R = range_words [OF se, folded f_def l_def]
  define em :: "64 word" where "em = (if (e - 1) mod 64 = 63 then 0 else NOT (push_bit ((e - 1) mod 64 + 1) 1 - 1))"
  define sm :: "64 word" where "sm = push_bit (s mod 64) 1 - 1"
  have m: "bit sm j \<longleftrightarrow> j < s mod 64" "bit em j \<longleftrightarrow> (e - 1) mod 64 < j \<and> j < 64" for j
    unfolding em_def sm_def by (rule bit_zeros_from bit_zeros_to, simp)+
  note U = ba_UnsetRange_def [of avx d s e, unfolded Let_def, folded em_def, folded sm_def f_def l_def]
  show ?thesis
  proof (cases "f = l")
    case True
    then have "ba_UnsetRange avx d s e = d[f := d ! f AND (sm OR em)]" using se unfolding U by simp
    then show ?thesis using se R(1) True by (auto simp only: ba_bit_and_word R(4) bit_or_iff m mod_less_divisor)
  next
    case False
    define d1 where "d1 = d[f := d ! f AND sm]"
    define d2 where "d2 = fill_words avx (f + 1) l 0 d1"
    have lt: "f < l" using R(3) False by simp
    have l2: "length d1 = length d" "length d2 = length d" by (simp_all add: d2_def fill_words_nth d1_def)
    have b2: "ba_bit d2 i \<longleftrightarrow> \<not> (f < i div 64 \<and> i div 64 < l) \<and> ba_bit d i \<and> (i div 64 = f \<longrightarrow> i mod 64 < s mod 64)"
      using l2 R(1) by (simp add: d2_def ba_bit_fill d1_def ba_bit_and_word m Suc_le_eq)
    have "ba_UnsetRange avx d s e = d2[l := d2 ! l AND em]"
      using se False unfolding U by (simp add: d1_def d2_def)
    then have "ba_bit (ba_UnsetRange avx d s e) i \<longleftrightarrow> ba_bit d2 i \<and> (i div 64 = l \<longrightarrow> (e - 1) mod 64 < i mod 64)"
      using R(2) l2 by (simp only: ba_bit_and_word m) simp
    then show ?thesis unfolding R(4) [of i] b2 using lt se by (cases "i div 64 < l") auto
  qed
next
  case False
  then show ?thesis by (auto simp: ba_UnsetRange_def)
qed

end
