(* ===== verification/Bit_Runs.thy ===== *)
theory Bit_Runs
  imports Bit_Array
begin

text \<open>
  Runs of one bits in a \<open>Common::BitArray\<close>: \<open>FirstRangeFrom\<close>, \<open>LastRangeFrom\<close> and the iterator, against
  specifications that fix their results, then the whole-array operations on the set of one bits, and the
  properties of the component.
\<close>

section \<open>Runs of set bits\<close>

definition first_run :: "bit_array \<Rightarrow> nat \<Rightarrow> bit_range \<Rightarrow> bool" where
  "first_run d st r \<longleftrightarrow>
     (if \<exists>i. st \<le> i \<and> ba_bit d i
      then st \<le> fst r \<and> fst r < snd r \<and> (\<forall>i. st \<le> i \<and> i < fst r \<longrightarrow> \<not> ba_bit d i)
           \<and> (\<forall>i. fst r \<le> i \<and> i < snd r \<longrightarrow> ba_bit d i) \<and> \<not> ba_bit d (snd r)
      else r = (ba_size d, ba_size d))"

lemma ba_bit_word: "j < 64 \<Longrightarrow> ba_bit d (64 * q + j) \<longleftrightarrow> q < length d \<and> bit (d ! q) j"
  by (simp add: ba_bit_def)

lemma takeWhile_upt:
  "length (takeWhile P [0..<n]) \<le> n"
  "i < length (takeWhile P [0..<n]) \<Longrightarrow> P i"
  "length (takeWhile P [0..<n]) < n \<Longrightarrow> \<not> P (length (takeWhile P [0..<n]))"
proof -
  let ?k = "length (takeWhile P [0..<n])"
  show kn: "?k \<le> n" using length_takeWhile_le [of P "[0..<n]"] by simp
  show "P i" if "i < ?k"
    using that kn takeWhile_nth [of i P "[0..<n]"] nth_mem [of i "takeWhile P [0..<n]"]
    by (auto dest: set_takeWhileD)
  show "\<not> P ?k" if "?k < n" using that nth_length_takeWhile [of P "[0..<n]"] by simp
qed

lemma word_bit_less: "bit (w :: 64 word) j \<Longrightarrow> j < 64"
  using bit_imp_le_length [of w j] by simp

lemma countr_zero_spec:
  assumes "w \<noteq> 0"
  shows "bit w (countr_zero w)" "i < countr_zero w \<Longrightarrow> \<not> bit w i" "countr_zero w < 64"
proof -
  note T = takeWhile_upt [where P = "\<lambda>i. \<not> bit w i" and n = 64, folded countr_zero_def]
  obtain j where j: "bit w j" using assms by (metis bit_eq_iff bit_0_eq bot_apply bot_bool_def)
  then have "\<not> j < countr_zero w" using T(2) by blast
  then show l: "countr_zero w < 64" using word_bit_less [OF j] by simp
  show "bit w (countr_zero w)" using T(3) [OF l] by simp
  show "\<not> bit w i" if "i < countr_zero w" using T(2) [OF that] .
qed

lemma countr_one_spec:
  "i < countr_one w \<Longrightarrow> bit w i" "\<not> bit w (countr_one w)" "countr_one w \<le> 64"
proof -
  note T = takeWhile_upt [where P = "\<lambda>i. bit w i" and n = 64, folded countr_one_def]
  show "bit w i" if "i < countr_one w" using T(2) [OF that] .
  show "countr_one w \<le> 64" using T(1) .
  show "\<not> bit w (countr_one w)" using T(3) word_bit_less [of w "countr_one w"] by blast
qed

lemma avx_skip_spec:
  "w \<le> avx_skip v d w \<and> (avx_skip v d w = w \<or> avx_skip v d w \<le> length d)
     \<and> (\<forall>j. w \<le> j \<and> j < avx_skip v d w \<longrightarrow> d ! j = v)"
proof (induction v d w rule: avx_skip.induct)
  case (1 v d w)
  show ?case
  proof (cases "w + 4 \<le> length d \<and> d ! w = v \<and> d ! (w + 1) = v \<and> d ! (w + 2) = v \<and> d ! (w + 3) = v")
    case True
    then have e: "avx_skip v d w = avx_skip v d (w + 4)" by (subst avx_skip.simps) simp
    have "d ! j = v" if "w \<le> j" "j < avx_skip v d (w + 4)" for j
    proof (cases "w + 4 \<le> j")
      case False
      then have "j = w \<or> j = w + 1 \<or> j = w + 2 \<or> j = w + 3" using that(1) by linarith
      then show ?thesis using True by blast
    qed (use 1 [OF True] that in blast)
    then show ?thesis unfolding e using 1 [OF True] True by auto
  next
    case False
    then have "avx_skip v d w = w" by (subst avx_skip.simps) (simp only: if_False)
    then show ?thesis by auto
  qed
qed

lemma skip_words_spec:
  "w \<le> skip_words v d w \<and> (skip_words v d w = w \<or> skip_words v d w \<le> length d)
     \<and> (\<forall>j. w \<le> j \<and> j < skip_words v d w \<longrightarrow> d ! j = v)
     \<and> (skip_words v d w < length d \<longrightarrow> d ! skip_words v d w \<noteq> v)"
proof (induction v d w rule: skip_words.induct)
  case (1 v d w)
  show ?case
  proof (cases "w < length d \<and> d ! w = v")
    case True
    then have e: "skip_words v d w = skip_words v d (w + 1)" by (subst skip_words.simps) simp
    have "d ! j = v" if "w \<le> j" "j < skip_words v d (w + 1)" for j
      using 1 [OF True] that True by (cases "w = j") auto
    then show ?thesis unfolding e using 1 [OF True] True by auto
  next
    case False
    then have "skip_words v d w = w" by (subst skip_words.simps) (simp only: if_False)
    then show ?thesis using False by auto
  qed
qed

definition skip_all :: "bool \<Rightarrow> 64 word \<Rightarrow> bit_array \<Rightarrow> nat \<Rightarrow> nat" where
  "skip_all avx v d w = skip_words v d (if avx then avx_skip v d w else w)"

lemma skip_all_spec:
  assumes "w \<le> length d"
  shows "w \<le> skip_all avx v d w" "skip_all avx v d w \<le> length d"
    "w \<le> j \<Longrightarrow> j < skip_all avx v d w \<Longrightarrow> d ! j = v"
    "skip_all avx v d w < length d \<Longrightarrow> d ! skip_all avx v d w \<noteq> v"
proof -
  define x where "x = (if avx then avx_skip v d w else w)"
  have x: "w \<le> x" "x \<le> length d" "w \<le> j \<Longrightarrow> j < x \<Longrightarrow> d ! j = v" for j
    using avx_skip_spec [of w v d] assms unfolding x_def by (cases avx; auto)+
  note s = skip_words_spec [of x v d]
  have e: "skip_all avx v d w = skip_words v d x" by (simp add: skip_all_def x_def)
  show "w \<le> skip_all avx v d w" "skip_all avx v d w \<le> length d" using x(1,2) s by (auto simp: e)
  show "d ! j = v" if "w \<le> j" "j < skip_all avx v d w"
    using x(3) s that by (cases "j < x") (auto simp: e)
  show "d ! skip_all avx v d w \<noteq> v" if "skip_all avx v d w < length d" using s that by (simp add: e)
qed

lemma find_end_bit_spec:
  assumes "w \<le> length d"
  shows "64 * w \<le> find_end_bit avx d w" "\<not> ba_bit d (find_end_bit avx d w)"
    "64 * w \<le> i \<Longrightarrow> i < find_end_bit avx d w \<Longrightarrow> ba_bit d i"
proof -
  define r where "r = skip_all avx (NOT 0) d w"
  note S = skip_all_spec [OF assms, where avx = avx and v = "NOT 0", folded r_def]
  have e: "find_end_bit avx d w = (if r < length d then 64 * r + countr_one (d ! r) else ba_size d)"
    by (simp add: find_end_bit_def r_def skip_all_def Let_def)
  have c: "countr_one (d ! r) < 64" if "r < length d"
  proof (rule ccontr)
    assume "\<not> countr_one (d ! r) < 64"
    then have "\<forall>i<64. bit (d ! r) i" using countr_one_spec(1) [of _ "d ! r"] by auto
    then have "d ! r = NOT 0" by (auto intro!: bit_word_eqI simp: bit_not_iff)
    then show False using S(4) [OF that] by simp
  qed
  show "64 * w \<le> find_end_bit avx d w" using S(1) assms by (auto simp: e ba_size_def)
  show "\<not> ba_bit d (find_end_bit avx d w)"
  proof (cases "r < length d")
    case True
    then show ?thesis using c countr_one_spec(2) by (simp add: e ba_bit_word)
  next
    case False
    then show ?thesis using ba_bit_bound [of d "ba_size d"] by (auto simp: e)
  qed
  show "ba_bit d i" if i: "64 * w \<le> i" "i < find_end_bit avx d w"
  proof -
    define q j where "q = i div 64" and "j = i mod 64"
    have ij: "i = 64 * q + j" "j < 64" by (simp_all add: q_def j_def)
    have wq: "w \<le> q" using i(1) ij by linarith
    show ?thesis
    proof (cases "q < r")
      case True
      then show ?thesis using S(2,3) wq ij by (simp add: ba_bit_word bit_not_iff)
    next
      case False
      then have "r < length d \<and> q = r \<and> j < countr_one (d ! r)"
        using i(2) ij c S(2) by (auto simp: e ba_size_def split: if_splits)
      then show ?thesis using ij countr_one_spec(1) by (simp add: ba_bit_word)
    qed
  qed
qed

lemma word_bits_run:
  assumes idx: "index < length d" and w: "word \<noteq> 0"
    and bits: "\<forall>j. bit word j \<longleftrightarrow> bit (d ! index) j \<and> s \<le> j"
  shows "first_run d (64 * index + s) (word_bits avx d index word)"
proof -
  define z k where "z = countr_zero word" and "k = countr_one (drop_bit z word)"
  note Z = countr_zero_spec [OF w, folded z_def]
  have K: "bit word (z + i)" if "i < k" for i
    using countr_one_spec(1) [of i "drop_bit z word"] that by (simp add: k_def bit_drop_bit_eq)
  have K': "\<not> bit word (z + k)" using countr_one_spec(2) [of "drop_bit z word"] by (simp add: k_def bit_drop_bit_eq)
  have sz: "s \<le> z" using Z(1) bits by blast
  have k0: "0 < k" using K' Z(1) by (cases k) auto
  have zk: "z + k \<le> 64" using word_bit_less [OF K [of "k - 1"]] k0 by linarith
  have db: "ba_bit d (64 * index + j) \<longleftrightarrow> bit word j" if "s \<le> j" "j < 64" for j
    using that idx bits by (simp add: ba_bit_word)
  have ex: "\<exists>i. 64 * index + s \<le> i \<and> ba_bit d i"
    using db [of z] sz Z by (intro exI [of _ "64 * index + z"]) simp
  have low: "\<not> ba_bit d i" if "64 * index + s \<le> i" "i < 64 * index + z" for i
    using db [of "i - 64 * index"] Z(2) [of "i - 64 * index"] that Z(3) by auto
  have ones: "ba_bit d i" if "64 * index + z \<le> i" "i < 64 * index + z + k" for i
    using db [of "i - 64 * index"] K [of "i - 64 * index - z"] that sz zk by simp
  show ?thesis
  proof (cases "k + z < 64")
    case True
    then have e: "word_bits avx d index word = (64 * index + z, 64 * index + z + k)"
      by (simp add: word_bits_def Let_def z_def k_def mult.commute)
    have "\<not> ba_bit d (64 * index + z + k)" using db [of "z + k"] K' sz True by (simp add: add.assoc add.commute)
    then show ?thesis unfolding first_run_def e using ex low ones k0 sz by simp
  next
    case False
    then have e: "word_bits avx d index word = (64 * index + z, find_end_bit avx d (index + 1))"
      by (simp add: word_bits_def Let_def z_def k_def mult.commute)
    have "index + 1 \<le> length d" using idx by simp
    note F = find_end_bit_spec [OF this, where avx = avx]
    have zk: "z + k = 64" using zk False by simp
    have "ba_bit d i" if "64 * index + z \<le> i" "i < find_end_bit avx d (index + 1)" for i
      using ones [of i] F(3) [of i] that zk by (cases "i < 64 * index + 64") simp_all
    then show ?thesis unfolding first_run_def e using ex low F(1,2) sz Z(3) by simp
  qed
qed

lemma first_run_none: "\<forall>i. st \<le> i \<longrightarrow> \<not> ba_bit d i \<Longrightarrow> first_run d st (ba_size d, ba_size d)"
  by (simp add: first_run_def)

lemma first_run_skip:
  assumes run: "first_run d st' r" and le: "st \<le> st'" and gap: "\<forall>i. st \<le> i \<and> i < st' \<longrightarrow> \<not> ba_bit d i"
  shows "first_run d st r"
proof -
  have ex: "(\<exists>i. st \<le> i \<and> ba_bit d i) \<longleftrightarrow> (\<exists>i. st' \<le> i \<and> ba_bit d i)"
    using le gap by (meson le_trans not_le)
  show ?thesis
  proof (cases "\<exists>i. st' \<le> i \<and> ba_bit d i")
    case True
    note R = run [unfolded first_run_def if_P [OF True]]
    have "\<forall>i. st \<le> i \<and> i < fst r \<longrightarrow> \<not> ba_bit d i" using R gap by (meson not_le)
    then show ?thesis using R le unfolding first_run_def ex if_P [OF True] by (meson le_trans)
  next
    case False
    show ?thesis using run unfolding first_run_def ex if_not_P [OF False] .
  qed
qed

lemma FirstRangeFrom_run: "first_run d st (FirstRangeFrom avx d st)"
proof (cases "st < ba_size d")
  case False
  then have "\<forall>i. st \<le> i \<longrightarrow> \<not> ba_bit d i" using ba_bit_bound [of d] by fastforce
  then show ?thesis using False by (simp add: FirstRangeFrom_def first_run_none)
next
  case True
  define q s where "q = st div 64" and "s = st mod 64"
  have st: "st = 64 * q + s" "s < 64" by (simp_all add: q_def s_def)
  have q: "q < length d" using True by (simp add: q_def ba_size_def div_less_iff_less_mult)
  define m where "m = d ! q AND ones_from s"
  have m: "\<forall>j. bit m j \<longleftrightarrow> bit (d ! q) j \<and> s \<le> j"
    using word_bit_less by (auto simp: m_def bit_and_iff bit_ones_from)
  define r where "r = skip_all avx 0 d (q + 1)"
  have "q + 1 \<le> length d" using q by simp
  note S = skip_all_spec [OF this, where avx = avx and v = 0, folded r_def]
  have e: "FirstRangeFrom avx d st = (if m \<noteq> 0 then word_bits avx d q m
      else if r < length d then word_bits avx d r (d ! r) else (ba_size d, ba_size d))"
    using True by (simp add: FirstRangeFrom_def Let_def q_def [symmetric] s_def [symmetric] m_def [symmetric] r_def skip_all_def)
  show ?thesis
  proof (cases "m = 0")
    case False
    have "first_run d st (word_bits avx d q m)" unfolding st(1) by (rule word_bits_run [OF q False m])
    then show ?thesis using False by (simp add: e)
  next
    case m0: True
    have none: "\<not> ba_bit d i" if "st \<le> i" "i < 64 * r" for i
    proof -
      define p j where "p = i div 64" and "j = i mod 64"
      have ij: "i = 64 * p + j" "j < 64" by (simp_all add: p_def j_def)
      have "p < r" "q \<le> p" using that ij st by linarith+
      show ?thesis
      proof (cases "p = q")
        case True
        then show ?thesis using m m0 that(1) ij st q by (auto simp: ba_bit_word)
      next
        case False
        then show ?thesis using S(3) [of p] \<open>p < r\<close> \<open>q \<le> p\<close> ij by (simp add: ba_bit_word)
      qed
    qed
    show ?thesis
    proof (cases "r < length d")
      case True
      have "first_run d (64 * r + 0) (word_bits avx d r (d ! r))"
        by (rule word_bits_run) (use True S(4) in auto)
      then have "first_run d (64 * r) (FirstRangeFrom avx d st)" using True m0 by (simp add: e)
      moreover have "st \<le> 64 * r" using st S(1) by linarith
      moreover have "\<forall>i. st \<le> i \<and> i < 64 * r \<longrightarrow> \<not> ba_bit d i" using none by blast
      ultimately show ?thesis by (rule first_run_skip)
    next
      case False
      then have "64 * r = ba_size d" using S(2) by (simp add: ba_size_def)
      then have "\<forall>i. st \<le> i \<longrightarrow> \<not> ba_bit d i" using none ba_bit_bound [of d] by fastforce
      then show ?thesis using False m0 first_run_none by (simp add: e)
    qed
  qed
qed

lemma first_run_unique:
  assumes "first_run d st r" "first_run d st r'"
  shows "r = r'"
proof (cases "\<exists>i. st \<le> i \<and> ba_bit d i")
  case True
  obtain a b a' b' where r: "r = (a, b)" "r' = (a', b')" by (cases r, cases r')
  have A: "st \<le> a" "a < b" "\<forall>i. st \<le> i \<and> i < a \<longrightarrow> \<not> ba_bit d i" "\<forall>i. a \<le> i \<and> i < b \<longrightarrow> ba_bit d i" "\<not> ba_bit d b"
    and B: "st \<le> a'" "a' < b'" "\<forall>i. st \<le> i \<and> i < a' \<longrightarrow> \<not> ba_bit d i" "\<forall>i. a' \<le> i \<and> i < b' \<longrightarrow> ba_bit d i" "\<not> ba_bit d b'"
    using assms unfolding first_run_def if_P [OF True] r fst_conv snd_conv by blast+
  have "ba_bit d a" "ba_bit d a'" using A B by simp_all
  then have "\<not> a < a'" "\<not> a' < a" using A B by blast+
  then have a: "a = a'" by simp
  have "\<not> b < b'" "\<not> b' < b" using A B a by (metis less_imp_le)+
  then show ?thesis using a r by simp
next
  case False
  show ?thesis using assms unfolding first_run_def if_not_P [OF False] by simp
qed

definition last_end :: "bit_array \<Rightarrow> nat \<Rightarrow> nat \<Rightarrow> bool" where
  "last_end d en b \<longleftrightarrow> b \<le> en \<and> (\<forall>i. b \<le> i \<and> i < en \<longrightarrow> \<not> ba_bit d i) \<and> (0 < b \<longrightarrow> ba_bit d (b - 1))"

definition last_start :: "bit_array \<Rightarrow> nat \<Rightarrow> nat \<Rightarrow> bool" where
  "last_start d b a \<longleftrightarrow> a \<le> b \<and> (\<forall>i. a \<le> i \<and> i < b \<longrightarrow> ba_bit d i) \<and> (0 < a \<longrightarrow> \<not> ba_bit d (a - 1))"

lemma last_end_unique: "last_end d en b \<Longrightarrow> last_end d en b' \<Longrightarrow> b = b'"
proof (rule ccontr)
  assume B: "last_end d en b" "last_end d en b'" "b \<noteq> b'"
  show False
  proof (cases "b < b'")
    case True
    then show False using B(1,2) by (auto simp: last_end_def dest!: spec [of _ "b' - 1"])
  next
    case False
    then have "b' < b" using B(3) by simp
    then show False using B(1,2) by (auto simp: last_end_def dest!: spec [of _ "b - 1"])
  qed
qed

lemma countl_zero_spec:
  assumes "w \<noteq> 0"
  shows "countl_zero w < 64" "bit w (63 - countl_zero w)" "63 - countl_zero w < i \<Longrightarrow> \<not> bit w i"
proof -
  note T = takeWhile_upt [where P = "\<lambda>i. \<not> bit w (63 - i)" and n = 64, folded countl_zero_def]
  obtain j where j: "bit w j" using assms by (metis bit_eq_iff bit_0_eq bot_apply bot_bool_def)
  have "\<not> 63 - j < countl_zero w" using T(2) [of "63 - j"] j word_bit_less [OF j] by auto
  then show l: "countl_zero w < 64" by simp
  show "bit w (63 - countl_zero w)" using T(3) [OF l] by simp
  show "\<not> bit w i" if "63 - countl_zero w < i"
    using T(2) [of "63 - i"] that l word_bit_less [of w i] by (cases "i < 64") auto
qed

lemma countl_one_spec:
  "i < countl_one w \<Longrightarrow> bit w (63 - i)" "countl_one w < 64 \<Longrightarrow> \<not> bit w (63 - countl_one w)" "countl_one w \<le> 64"
proof -
  note T = takeWhile_upt [where P = "\<lambda>i. bit w (63 - i)" and n = 64, folded countl_one_def]
  show "bit w (63 - i)" if "i < countl_one w" using T(2) [OF that] .
  show "countl_one w \<le> 64" using T(1) .
  show "\<not> bit w (63 - countl_one w)" if "countl_one w < 64" using T(3) [OF that] .
qed

lemma avx_skip_back_spec:
  "avx_skip_back v d w \<le> w \<and> (\<forall>j. avx_skip_back v d w \<le> j \<and> j < w \<longrightarrow> d ! j = v)"
proof (induction v d w rule: avx_skip_back.induct)
  case (1 v d w)
  show ?case
  proof (cases "w \<ge> 4 \<and> d ! (w - 4) = v \<and> d ! (w - 3) = v \<and> d ! (w - 2) = v \<and> d ! (w - 1) = v")
    case True
    then have e: "avx_skip_back v d w = avx_skip_back v d (w - 4)" by (subst avx_skip_back.simps) simp
    have "d ! j = v" if "avx_skip_back v d (w - 4) \<le> j" "j < w" for j
    proof (cases "j < w - 4")
      case False
      then have "j = w - 4 \<or> j = w - 3 \<or> j = w - 2 \<or> j = w - 1" using that(2) by linarith
      then show ?thesis using True by blast
    qed (use 1 [OF True] that in blast)
    then show ?thesis unfolding e using 1 [OF True] by auto
  next
    case False
    then have "avx_skip_back v d w = w" by (subst avx_skip_back.simps) (simp only: if_False)
    then show ?thesis by auto
  qed
qed

lemma skip_back_spec:
  "skip_back v d w \<le> w \<and> (\<forall>j. skip_back v d w \<le> j \<and> j < w \<longrightarrow> d ! j = v)
     \<and> (0 < skip_back v d w \<longrightarrow> d ! (skip_back v d w - 1) \<noteq> v)"
proof (induction w)
  case 0
  then show ?case by simp
next
  case (Suc w)
  then show ?case by (auto simp: less_Suc_eq)
qed

lemma skip_back_all:
  fixes avx v d w defines "r \<equiv> skip_back v d (if avx then avx_skip_back v d w else w)"
  shows "r \<le> w" "r \<le> j \<Longrightarrow> j < w \<Longrightarrow> d ! j = v" "0 < r \<Longrightarrow> d ! (r - 1) \<noteq> v"
proof -
  define x where "x = (if avx then avx_skip_back v d w else w)"
  have x: "x \<le> w" "x \<le> j \<Longrightarrow> j < w \<Longrightarrow> d ! j = v" for j
    using avx_skip_back_spec [of v d w] unfolding x_def by (cases avx; auto)+
  have r: "r = skip_back v d x" by (simp add: r_def x_def)
  note s = skip_back_spec [of v d x, folded r]
  show "r \<le> w" using s x(1) by simp
  show "d ! j = v" if "r \<le> j" "j < w" using s x(2) that by (cases "j < x") auto
  show "d ! (r - 1) \<noteq> v" if "0 < r" using s that by simp
qed

lemma find_start_bit_spec:
  assumes "w \<le> length d"
  shows "last_start d (64 * w) (find_start_bit False d w)"
proof -
  define r where "r = skip_back (NOT 0) d w"
  note S = skip_back_all [where avx = False and v = "NOT 0" and d = d and w = w, simplified if_False, folded r_def]
  define c where "c = countl_one (d ! (r - 1))"
  note C = countl_one_spec [where w = "d ! (r - 1)", folded c_def]
  have e: "find_start_bit False d w = (if 0 < r then 64 * (r - 1) + (64 - c) else 0)"
    unfolding find_start_bit_def Let_def if_False r_def [symmetric] c_def [symmetric] using C(3) by (cases r) auto
  have full: "ba_bit d i" if "64 * r \<le> i" "i < 64 * w" for i
  proof -
    have "i div 64 < w" "r \<le> i div 64" using that by linarith+
    then show ?thesis using S(2) [of "i div 64"] assms by (simp add: ba_bit_def bit_not_iff)
  qed
  show ?thesis
  proof (cases "0 < r")
    case True
    have c64: "c < 64"
    proof (rule ccontr)
      assume "\<not> c < 64"
      have "bit (d ! (r - 1)) i" if "i < 64" for i
        using C(1) [of "63 - i"] \<open>\<not> c < 64\<close> that by simp
      then have "d ! (r - 1) = NOT 0" by (auto intro!: bit_word_eqI simp: bit_not_iff)
      then show False using S(3) True by simp
    qed
    have r1: "r - 1 < length d" "64 * (r - 1) + 64 = 64 * r" using True S(1) assms by auto
    have "ba_bit d i" if "64 * (r - 1) + (64 - c) \<le> i" "i < 64 * w" for i
    proof (cases "64 * r \<le> i")
      case False
      define j where "j = i - 64 * (r - 1)"
      have j: "i = 64 * (r - 1) + j" "j < 64" "63 - j < c" using False that r1(2) c64 by (auto simp: j_def)
      then show ?thesis using C(1) [OF j(3)] r1(1) by (simp add: ba_bit_word)
    qed (use full that in blast)
    moreover have "\<not> ba_bit d (64 * (r - 1) + (63 - c))"
      using C(2) [OF c64] ba_bit_word [of "63 - c" d "r - 1"] by simp
    moreover have "64 * (r - 1) + (64 - c) \<le> 64 * w" using r1(2) S(1) by linarith
    moreover have "64 * (r - 1) + (63 - c) = 64 * (r - 1) + (64 - c) - 1" using c64 by linarith
    ultimately show ?thesis using True by (simp only: last_start_def e if_True) blast
  next
    case False
    then show ?thesis using full by (simp add: last_start_def e)
  qed
qed

lemma word_bits_back_run:
  assumes idx: "0 < index" "index \<le> length d" and w: "word \<noteq> 0" and s: "s \<le> 64"
    and bits: "\<forall>j. bit word j \<longleftrightarrow> bit (d ! (index - 1)) j \<and> j < s"
  shows "last_end d (64 * (index - 1) + s) (snd (word_bits_back avx d index word))"
    "last_start d (snd (word_bits_back False d index word)) (fst (word_bits_back False d index word))"
proof -
  define z k where "z = countl_zero word" and "k = countl_one (push_bit z word)"
  note Z = countl_zero_spec [OF w, folded z_def]
  define p where "p = 64 * (index - 1)"
  have p: "64 * index = p + 64" using idx(1) by (simp add: p_def diff_mult_distrib2)
  have zs: "63 - z < s" using Z(2) bits by blast
  have K: "bit word (63 - z - i)" if "i < k" "i + z < 64" for i
    using countl_one_spec(1) [of i "push_bit z word"] that Z(1) by (auto simp: k_def bit_push_bit_iff diff_diff_left add.commute)
  have K': "\<not> bit word (63 - z - k)" if "k + z < 64"
    using countl_one_spec(2) [of "push_bit z word"] that by (auto simp: k_def bit_push_bit_iff diff_diff_left add.commute)
  have k0: "0 < k" using K' Z by (cases k) auto
  have db: "ba_bit d (p + j) \<longleftrightarrow> bit word j" if "j < s" for j
  proof -
    have "index - 1 < length d" "j < 64" using idx that s by linarith+
    then show ?thesis using that bits [rule_format, of j] unfolding p_def by (simp only: ba_bit_word) simp
  qed
  have snd: "snd (word_bits_back avx d index word) = p + (64 - z)" for avx
    using Z(1) p by (simp add: word_bits_back_def Let_def z_def [symmetric] mult.commute)
  have "\<not> ba_bit d i" if "p + (64 - z) \<le> i" "i < p + s" for i
    using db [of "i - p"] Z(3) [of "i - p"] that Z(1) by auto
  moreover have "p + (64 - z) - 1 = p + (63 - z)" using Z(1) by linarith
  then have "ba_bit d (p + (64 - z) - 1)" using db [of "63 - z"] Z(1,2) zs by simp
  ultimately show "last_end d (64 * (index - 1) + s) (snd (word_bits_back avx d index word))"
    unfolding snd p_def [symmetric] last_end_def using zs by auto
  have ones: "ba_bit d i" if "p \<le> i" "p + (64 - z) \<le> i + k" "i < p + (64 - z)" for i
    using db [of "i - p"] K [of "63 - z - (i - p)"] that zs Z(1) by auto
  show "last_start d (snd (word_bits_back False d index word)) (fst (word_bits_back False d index word))"
  proof (cases "z + k < 64")
    case True
    have f: "fst (word_bits_back False d index word) = p + (64 - z - k)"
      using True p by (simp add: word_bits_back_def Let_def z_def [symmetric] k_def [symmetric] mult.commute)
    have "p + (64 - z - k) - 1 = p + (63 - z - k)" using True by linarith
    then have "\<not> ba_bit d (p + (64 - z - k) - 1)" using db [of "63 - z - k"] K' True zs k0 by (simp add: add.commute)
    then show ?thesis unfolding last_start_def snd f using ones True by auto
  next
    case False
    then have f: "fst (word_bits_back False d index word) = find_start_bit False d (index - 1)"
      by (simp add: word_bits_back_def Let_def z_def [symmetric] k_def [symmetric])
    have "last_start d p (find_start_bit False d (index - 1))"
      using find_start_bit_spec [of "index - 1" d] idx by (simp add: p_def)
    then have a: "find_start_bit False d (index - 1) \<le> p"
        "\<forall>i. find_start_bit False d (index - 1) \<le> i \<and> i < p \<longrightarrow> ba_bit d i"
        "0 < find_start_bit False d (index - 1) \<longrightarrow> \<not> ba_bit d (find_start_bit False d (index - 1) - 1)"
      by (simp_all add: last_start_def)
    have "ba_bit d i" if "find_start_bit False d (index - 1) \<le> i" "i < p + (64 - z)" for i
      using a(2) ones [of i] that False by (cases "i < p") auto
    then show ?thesis unfolding last_start_def snd f using a(1,3) by auto
  qed
qed

lemma last_end_clip:
  assumes "last_end d e b" "e \<le> en" "\<forall>i. e \<le> i \<and> i < en \<longrightarrow> \<not> ba_bit d i"
  shows "last_end d en b"
proof -
  have "\<not> ba_bit d i" if "b \<le> i" "i < en" for i
    using assms(1,3) that unfolding last_end_def by (cases "i < e") auto
  then show ?thesis using assms(1,2) unfolding last_end_def by auto
qed

lemma LastRangeFrom_run:
  assumes ne: "d \<noteq> []"
  shows "last_end d en (snd (LastRangeFrom avx d en)) \<and>
    last_start d (snd (LastRangeFrom False d en)) (fst (LastRangeFrom False d en))"
proof (cases "en = 0")
  case True
  then show ?thesis by (simp add: LastRangeFrom_def last_end_def last_start_def)
next
  case False
  define e where "e = (if en > ba_size d then ba_size d else en)"
  have e: "0 < e" "e \<le> en" "e \<le> ba_size d" using False ne by (auto simp: e_def ba_size_def)
  have tail: "\<forall>i. e \<le> i \<and> i < en \<longrightarrow> \<not> ba_bit d i" unfolding e_def by (auto dest: ba_bit_bound split: if_splits)
  define w s where "w = (e - 1) div 64 + 1" and "s = (e - 1) mod 64 + 1"
  have es: "e = 64 * (w - 1) + s" "s \<le> 64" "0 < w" using e(1) unfolding w_def s_def by auto
  have w: "w \<le> length d" using e unfolding w_def ba_size_def by linarith
  define m where "m = (if (e - 1) mod 64 < 63 then d ! (w - 1) AND (push_bit ((e - 1) mod 64 + 1) 1 - 1) else d ! (w - 1))"
  have m: "\<forall>j. bit m j \<longleftrightarrow> bit (d ! (w - 1)) j \<and> j < s"
  proof (cases "(e - 1) mod 64 < 63")
    case True
    then show ?thesis unfolding m_def s_def low_mask by (auto simp: bit_and_iff bit_mask_iff)
  next
    case False
    then have "s = 64" using es(2) unfolding s_def by linarith
    then show ?thesis using False word_bit_less unfolding m_def by auto
  qed
  define r where "r avx = skip_back 0 d (if avx then avx_skip_back 0 d (w - 1) else w - 1)" for avx
  note S = skip_back_all [where v = 0 and d = d and w = "w - 1", folded r_def]
  have L: "LastRangeFrom avx d en = (if m \<noteq> 0 then word_bits_back avx d w m
      else if r avx > 0 then word_bits_back avx d (r avx) (d ! (r avx - 1)) else (0, 0))" for avx
    unfolding LastRangeFrom_def Let_def if_not_P [OF False] e_def [symmetric] w_def [symmetric]
    unfolding m_def [symmetric] r_def by (rule refl)
  show ?thesis
  proof (cases "m = 0")
    case False
    note W = word_bits_back_run [OF es(3) w False es(2) m, folded es(1)]
    have "last_end d en (snd (LastRangeFrom avx d en))" using last_end_clip [OF W(1) e(2) tail] False by (simp add: L)
    then show ?thesis using W(2) False by (simp add: L)
  next
    case True
    have none: "\<not> ba_bit d i" if "64 * r avx \<le> i" "i < e" for i avx
    proof -
      define q j where "q = i div 64" and "j = i mod 64"
      have ij: "i = 64 * q + j" "j < 64" by (simp_all add: q_def j_def)
      show ?thesis
      proof (cases "q < w - 1")
        case True
        have "r avx \<le> q" using that(1) ij by linarith
        then show ?thesis using S(2) [OF _ True] ij by (simp add: ba_bit_word)
      next
        case False
        then have "q = w - 1" "j < s" using that(2) ij es by linarith+
        then show ?thesis using m True ij by (auto simp: ba_bit_word)
      qed
    qed
    have R: "last_end d en (snd (LastRangeFrom avx d en)) \<and>
      (\<not> avx \<longrightarrow> last_start d (snd (LastRangeFrom avx d en)) (fst (LastRangeFrom avx d en)))" for avx
    proof (cases "0 < r avx")
      case r0: True
      have rw: "r avx \<le> w - 1" by (rule S(1))
      then have rl: "r avx \<le> length d" using w by simp
      have b: "\<forall>j. bit (d ! (r avx - 1)) j \<longleftrightarrow> bit (d ! (r avx - 1)) j \<and> j < 64" using word_bit_less by blast
      note W = word_bits_back_run [OF r0 rl S(3) [OF r0] order_refl b]
      have r64: "64 * (r avx - 1) + 64 = 64 * r avx" using r0 by simp
      have "64 * r avx \<le> e" using es rw by linarith
      moreover have "\<forall>i. 64 * r avx \<le> i \<and> i < e \<longrightarrow> \<not> ba_bit d i" using none by blast
      ultimately have "last_end d e (snd (word_bits_back avx d (r avx) (d ! (r avx - 1))))"
        by (rule last_end_clip [OF W(1) [unfolded r64]])
      then have "last_end d e (snd (LastRangeFrom avx d en))" using True r0 by (simp add: L)
      then show ?thesis using last_end_clip [OF _ e(2) tail] W(2) True r0 by (cases avx) (simp_all add: L)
    next
      case False
      have "\<not> ba_bit d i" if "i < en" for i
        using none [of avx i] tail False that by (cases "i < e") auto
      then show ?thesis using False True by (cases avx) (simp_all add: L last_end_def last_start_def)
    qed
    show ?thesis using R [of avx] R [of False] by blast
  qed
qed

lemma copy_loop_nth:
  "length (copy_loop i n src d) = length d \<and> (\<forall>j<length d. copy_loop i n src d ! j = (if i \<le> j \<and> j < n then src ! j else d ! j))"
proof (induction i n src d rule: copy_loop.induct)
  case (1 i n src d)
  show ?case
  proof (cases "i < n")
    case True
    have "copy_loop i n src d = copy_loop (i + 1) n src (d[i := src ! i])" using True by (subst copy_loop.simps) simp
    moreover have "Suc i \<le> j \<longleftrightarrow> i \<le> j \<and> j \<noteq> i" for j by auto
    ultimately show ?thesis using 1 [OF True] True by (simp add: nth_list_update)
  next
    case False
    then show ?thesis by (subst (1 2) copy_loop.simps) auto
  qed
qed

lemma avx_copy_nth:
  assumes "avx_copy i n src d = (i', d')"
  shows "length d' = length d \<and> i \<le> i' \<and> (i < i' \<longrightarrow> i' \<le> n)
     \<and> (\<forall>j<length d. d' ! j = (if i \<le> j \<and> j < i' then src ! j else d ! j))"
  using assms
proof (induction i n src d arbitrary: i' d' rule: avx_copy.induct)
  case (1 i n src d)
  show ?case
  proof (cases "i + 4 \<le> n")
    case True
    then have "avx_copy (i + 4) n src (d[i := src ! i, i + 1 := src ! (i + 1), i + 2 := src ! (i + 2), i + 3 := src ! (i + 3)]) = (i', d')"
      using "1.prems" by (subst (asm) avx_copy.simps) simp
    note ih = "1.IH" [OF True this]
    have "d' ! j = (if i \<le> j \<and> j < i' then src ! j else d ! j)" if j: "j < length d" for j
    proof (cases "i + 4 \<le> j")
      case True
      then show ?thesis using ih j by (simp add: nth_four)
    next
      case False
      then have "i \<le> j \<Longrightarrow> j = i \<or> j = i + 1 \<or> j = i + 2 \<or> j = i + 3" by linarith
      then show ?thesis using ih j False by (auto simp: nth_four)
    qed
    then show ?thesis using ih True by (cases "i + 4 < i'") auto
  next
    case False
    then show ?thesis using "1.prems" by (subst (asm) avx_copy.simps) auto
  qed
qed

lemma ba_copy_range_bit:
  "ba_bit (ba_copy_range avx d s e) i \<longleftrightarrow> s < e \<and> e \<le> ba_size d \<and> s \<le> i \<and> i < e \<and> ba_bit d i"
  "length (ba_copy_range avx d s e) = length d"
proof -
  let ?z = "replicate (length d) (0 :: 64 word)"
  have z: "\<not> ba_bit ?z i" by (simp add: ba_bit_def)
  have "(ba_bit (ba_copy_range avx d s e) i \<longleftrightarrow> s < e \<and> e \<le> ba_size d \<and> s \<le> i \<and> i < e \<and> ba_bit d i)
    \<and> length (ba_copy_range avx d s e) = length d"
  proof (cases "s < e \<and> e \<le> ba_size d")
    case True
    then have se: "s < e" "e \<le> ba_size d" by auto
    define f l where "f = s div 64" and "l = (e - 1) div 64"
    note R = range_words [OF se, folded f_def l_def]
    have eb: "(e - 1) mod 64 < 64" by simp
    note m = bit_ones_from bit_ones_to [OF eb]
    have i: "bit (d ! (i div 64)) (i mod 64) \<and> i div 64 < length d \<longleftrightarrow> ba_bit d i" by (auto simp: ba_bit_def)
    show ?thesis
    proof (cases "f = l")
      case True
      then have c: "ba_copy_range avx d s e = ?z[f := d ! f AND (ones_from (s mod 64) AND ones_to ((e - 1) mod 64))]"
        using se by (simp add: ba_copy_range_def Let_def f_def l_def)
      have "ba_bit (ba_copy_range avx d s e) i \<longleftrightarrow> i div 64 = f \<and> ba_bit d i \<and> s mod 64 \<le> i mod 64 \<and> i mod 64 \<le> (e - 1) mod 64"
        unfolding c ba_bit_def using R(1) m by (cases "i div 64 = f") (simp_all add: bit_and_iff)
      moreover have "s \<le> i \<and> i < e \<longleftrightarrow> i div 64 = f \<and> s mod 64 \<le> i mod 64 \<and> i mod 64 \<le> (e - 1) mod 64"
        unfolding R(4) [of i] using True by auto
      moreover have "length (ba_copy_range avx d s e) = length d" by (simp add: c)
      ultimately show ?thesis using se by blast
    next
      case False
      define d1 where "d1 = ?z[f := d ! f AND ones_from (s mod 64)]"
      obtain k d2 where kd: "(if avx then avx_copy (f + 1) l d d1 else (f + 1, d1)) = (k, d2)" by fastforce
      define d3 where "d3 = copy_loop k l d d2"
      have lt: "f < l" using R(3) False by simp
      have l1: "length d1 = length d" by (simp add: d1_def)
      have d2': "length d2 = length d1 \<and> f + 1 \<le> k \<and> (f + 1 < k \<longrightarrow> k \<le> l)
        \<and> (\<forall>j<length d1. d2 ! j = (if f + 1 \<le> j \<and> j < k then d ! j else d1 ! j))"
      proof (cases avx)
        case True
        then show ?thesis using kd by (intro avx_copy_nth) simp
      next
        case False
        then show ?thesis using kd by auto
      qed
      then have d2: "length d2 = length d" "f + 1 \<le> k" "f + 1 < k \<longrightarrow> k \<le> l"
        "\<forall>j<length d. d2 ! j = (if f + 1 \<le> j \<and> j < k then d ! j else d1 ! j)"
        unfolding l1 by blast+
      have d3: "length d3 = length d" "\<forall>j<length d. d3 ! j = (if k \<le> j \<and> j < l then d ! j else d2 ! j)"
        using copy_loop_nth [of k l d d2] d2(1) by (simp_all add: d3_def)
      have c: "ba_copy_range avx d s e = d3[l := d ! l AND ones_to ((e - 1) mod 64)]"
        using se False unfolding ba_copy_range_def Let_def f_def [symmetric] l_def [symmetric] d1_def [symmetric] kd d3_def by simp
      have w: "ba_copy_range avx d s e ! q = (if q = l then d ! l AND ones_to ((e - 1) mod 64)
          else if f < q \<and> q < l then d ! q else if q = f then d ! f AND ones_from (s mod 64) else 0)" if "q < length d" for q
        using that d3 d2 lt R(1,2) unfolding c d1_def by (auto simp: nth_list_update)
      have "ba_bit (ba_copy_range avx d s e) i \<longleftrightarrow> ba_bit d i \<and> f \<le> i div 64 \<and> i div 64 \<le> l
          \<and> (i div 64 = f \<longrightarrow> s mod 64 \<le> i mod 64) \<and> (i div 64 = l \<longrightarrow> i mod 64 \<le> (e - 1) mod 64)"
      proof (cases "i div 64 < length d")
        case True
        then show ?thesis unfolding ba_bit_def w [OF True] using lt d3(1) m [simplified]
          by (auto simp: bit_and_iff c)
      qed (simp add: ba_bit_def c d3(1))
      moreover have "s \<le> i \<and> i < e \<longleftrightarrow> f \<le> i div 64 \<and> i div 64 \<le> l
          \<and> (i div 64 = f \<longrightarrow> s mod 64 \<le> i mod 64) \<and> (i div 64 = l \<longrightarrow> i mod 64 \<le> (e - 1) mod 64)"
        unfolding R(4) [of i] using lt by auto
      moreover have "length (ba_copy_range avx d s e) = length d" by (simp add: c d3(1))
      ultimately show ?thesis using se by blast
    qed
  next
    case False
    then show ?thesis using z by (auto simp: ba_copy_range_def)
  qed
  then show "ba_bit (ba_copy_range avx d s e) i \<longleftrightarrow> s < e \<and> e \<le> ba_size d \<and> s \<le> i \<and> i < e \<and> ba_bit d i"
    "length (ba_copy_range avx d s e) = length d" by blast+
qed

lemma foldl_or_zero: "foldl (OR) a xs = (0 :: 64 word) \<longleftrightarrow> a = 0 \<and> (\<forall>x\<in>set xs. x = 0)"
proof (induction xs arbitrary: a)
  case (Cons x xs)
  have "a OR x = 0 \<longleftrightarrow> a = 0 \<and> x = 0" by (auto simp: or_eq_0_iff)
  then show ?case using Cons by auto
qed simp

lemma ba_None_bits: "ba_None d \<longleftrightarrow> (\<forall>i. \<not> ba_bit d i)"
proof -
  have "(\<forall>x\<in>set d. x = 0) \<longleftrightarrow> (\<forall>i. \<not> ba_bit d i)"
  proof safe
    fix i assume "\<forall>x\<in>set d. x = 0" "ba_bit d i"
    then have "d ! (i div 64) = 0" by (simp add: ba_bit_def)
    then show False using \<open>ba_bit d i\<close> by (simp add: ba_bit_def)
  next
    fix x assume none: "\<forall>i. \<not> ba_bit d i" and "x \<in> set d"
    then obtain q where "q < length d" "x = d ! q" by (auto simp: in_set_conv_nth)
    then have "\<not> bit x j" if "j < 64" for j using none ba_bit_word [OF that, of d q] by simp
    then show "x = 0" by (auto intro!: bit_word_eqI)
  qed
  then show ?thesis by (simp add: ba_None_def foldl_or_zero)
qed

lemma ba_op_bits:
  assumes "length e = length d"
  shows "ba_bit (ba_or d e) i \<longleftrightarrow> ba_bit d i \<or> ba_bit e i"
    "ba_bit (ba_and d e) i \<longleftrightarrow> ba_bit d i \<and> ba_bit e i"
    "ba_bit (ba_xor d e) i \<longleftrightarrow> ba_bit d i \<noteq> ba_bit e i"
    "ba_bit (ba_not d) i \<longleftrightarrow> i < ba_size d \<and> \<not> ba_bit d i"
proof -
  have "i div 64 < length d \<longleftrightarrow> i < ba_size d" by (simp add: ba_size_def div_less_iff_less_mult mult.commute)
  then show "ba_bit (ba_or d e) i \<longleftrightarrow> ba_bit d i \<or> ba_bit e i"
    "ba_bit (ba_and d e) i \<longleftrightarrow> ba_bit d i \<and> ba_bit e i"
    "ba_bit (ba_xor d e) i \<longleftrightarrow> ba_bit d i \<noteq> ba_bit e i"
    "ba_bit (ba_not d) i \<longleftrightarrow> i < ba_size d \<and> \<not> ba_bit d i"
    using assms by (auto simp: ba_bit_def ba_or_def ba_and_def ba_xor_def ba_not_def bit_or_iff bit_and_iff bit_xor_iff bit_not_iff)
qed

lemma ba_fill_bits: "ba_bit (ba_Fill d) i \<longleftrightarrow> i < ba_size d" "\<not> ba_bit (ba_Clear d) i"
  by (auto simp: ba_bit_def ba_Fill_def ba_Clear_def ba_size_def bit_not_iff div_less_iff_less_mult mult.commute)

lemma ba_lengths [simp]:
  "length (ba_or d e) = min (length d) (length e)" "length (ba_and d e) = min (length d) (length e)"
  "length (ba_xor d e) = min (length d) (length e)" "length (ba_not d) = length d"
  "length (ba_Fill d) = length d" "length (ba_Clear d) = length d"
  "length (ba_SetRange avx d s t) = length d" "length (ba_UnsetRange avx d s t) = length d"
  "length (ba_copy_range avx d s t) = length d"
  by (simp_all add: ba_or_def ba_and_def ba_xor_def ba_not_def ba_Fill_def ba_Clear_def ba_SetRange_def ba_UnsetRange_def
      Let_def fill_words_nth ba_copy_range_bit)

lemma ba_eqI:
  assumes "length d = length e" "\<And>i. ba_bit d i \<longleftrightarrow> ba_bit e i"
  shows "d = e"
proof (rule nth_equalityI)
  show "length d = length e" by fact
  fix q assume q: "q < length d"
  show "d ! q = e ! q"
  proof (rule bit_word_eqI)
    fix n assume "n < LENGTH(64)"
    then have "n < 64" by simp
    then show "bit (d ! q) n \<longleftrightarrow> bit (e ! q) n" using assms(2) [of "64 * q + n"] q assms(1) by (simp add: ba_bit_word)
  qed
qed

lemma ba_eq_iff: "length d = length e \<Longrightarrow> ba_eq d e \<longleftrightarrow> d = e"
proof
  assume l: "length d = length e" and "ba_eq d e"
  then have "ba_None (ba_xor d e)" by (simp add: ba_eq_def ba_None_def ba_xor_def)
  then have "\<And>i. ba_bit d i \<longleftrightarrow> ba_bit e i" using l by (simp add: ba_None_bits ba_op_bits)
  then show "d = e" by (rule ba_eqI [OF l])
next
  assume "d = e"
  then show "ba_eq d e" by (simp add: ba_eq_def foldl_or_zero zip_same_conv_map)
qed

lemma ba_get_bit: "ba_get d i = (if i < ba_size d then Some (ba_bit d i) else None)"
proof -
  have "d ! (i div 64) AND push_bit (i mod 64) 1 \<noteq> 0 \<longleftrightarrow> bit (d ! (i div 64)) (i mod 64)"
    by (simp add: bit_iff_and_push_bit_not_eq_0)
  then show ?thesis by (simp add: ba_get_def ba_bit_def ba_size_def div_less_iff_less_mult mult.commute)
qed

section \<open>The iterator\<close>

lemma FirstRangeFrom_avx: "FirstRangeFrom True d st = FirstRangeFrom False d st"
  using first_run_unique FirstRangeFrom_run by blast

lemma FirstRangeFrom_end: "FirstRangeFrom avx d (ba_size d) = (ba_size d, ba_size d)"
  by (simp add: FirstRangeFrom_def)

lemma FirstRangeFrom_next:
  assumes "FirstRangeFrom avx d st \<noteq> (ba_size d, ba_size d)"
  shows "st < snd (FirstRangeFrom avx d st)" "st < ba_size d"
    "\<exists>i. st \<le> i \<and> ba_bit d i"
proof -
  note R = FirstRangeFrom_run [of d st avx, unfolded first_run_def]
  show ex: "\<exists>i. st \<le> i \<and> ba_bit d i" using R assms by metis
  show "st < snd (FirstRangeFrom avx d st)" using R [unfolded if_P [OF ex]] by linarith
  show "st < ba_size d" using ex ba_bit_bound [of d] by (meson le_less_trans)
qed

text \<open>A loop over the array: from \<open>begin()\<close>, while the iterator differs from \<open>end()\<close>.\<close>

function ba_ranges :: "bool \<Rightarrow> bit_array \<Rightarrow> nat \<Rightarrow> bit_range list" where
  "ba_ranges avx d st =
     (let range = FirstRangeFrom avx d st
      in if range = FirstRangeFrom avx d (ba_size d) then [] else range # ba_ranges avx d (snd range))"
  by auto
termination
proof (relation "measure (\<lambda>(avx, d, st). ba_size d - st)")
  fix avx d st range
  assume "range = FirstRangeFrom avx d st" "range \<noteq> FirstRangeFrom avx d (ba_size d)"
  then have "FirstRangeFrom avx d st \<noteq> (ba_size d, ba_size d)" "range = FirstRangeFrom avx d st" by (simp_all add: FirstRangeFrom_end)
  then show "((avx, d, snd range), avx, d, st) \<in> measure (\<lambda>(avx, d, st). ba_size d - st)"
    using FirstRangeFrom_next [of avx d st] by simp
qed simp

declare ba_ranges.simps [simp del]

lemma ba_ranges_spec:
  "(\<forall>i. (\<exists>r\<in>set (ba_ranges avx d st). fst r \<le> i \<and> i < snd r) \<longleftrightarrow> st \<le> i \<and> ba_bit d i)
   \<and> sorted_wrt (\<lambda>r s. snd r < fst s) (ba_ranges avx d st)
   \<and> (\<forall>r\<in>set (ba_ranges avx d st). st \<le> fst r \<and> fst r < snd r \<and> snd r \<le> ba_size d)"
proof (induction avx d st rule: ba_ranges.induct)
  case (1 avx d st)
  define r where "r = FirstRangeFrom avx d st"
  note R = FirstRangeFrom_run [of d st avx, folded r_def, unfolded first_run_def]
  show ?case
  proof (cases "r = (ba_size d, ba_size d)")
    case True
    then have e: "ba_ranges avx d st = []"
      by (subst ba_ranges.simps) (simp add: Let_def FirstRangeFrom_end r_def [symmetric])
    have "\<not> (st \<le> i \<and> ba_bit d i)" for i
    proof
      assume "st \<le> i \<and> ba_bit d i"
      then have ex: "\<exists>i. st \<le> i \<and> ba_bit d i" by blast
      show False using R [unfolded if_P [OF ex]] True by simp
    qed
    then show ?thesis by (auto simp: e)
  next
    case False
    then have e: "ba_ranges avx d st = r # ba_ranges avx d (snd r)"
      by (subst ba_ranges.simps) (simp add: Let_def FirstRangeFrom_end r_def [symmetric])
    have ex: "\<exists>i. st \<le> i \<and> ba_bit d i" using FirstRangeFrom_next(3) False by (simp add: r_def)
    note R = R [unfolded if_P [OF ex]]
    have ih: "\<forall>i. (\<exists>q\<in>set (ba_ranges avx d (snd r)). fst q \<le> i \<and> i < snd q) \<longleftrightarrow> snd r \<le> i \<and> ba_bit d i"
        "sorted_wrt (\<lambda>r s. snd r < fst s) (ba_ranges avx d (snd r))"
        "\<forall>q\<in>set (ba_ranges avx d (snd r)). snd r \<le> fst q \<and> fst q < snd q \<and> snd q \<le> ba_size d"
      using 1 [of r] False by (simp_all add: FirstRangeFrom_end r_def [symmetric])
    have lt: "snd r < fst q" if q: "q \<in> set (ba_ranges avx d (snd r))" for q
    proof -
      have "ba_bit d (fst q)" using ih(1,3) q by (metis order_refl)
      then have "fst q \<noteq> snd r" using R by metis
      then show ?thesis using ih(3) q by (metis le_neq_implies_less)
    qed
    have size: "snd r \<le> ba_size d"
    proof -
      have "fst r \<le> snd r - 1" "snd r - 1 < snd r" using R by linarith+
      then have "ba_bit d (snd r - 1)" using R by blast
      then show ?thesis using ba_bit_bound by fastforce
    qed
    have bits: "(\<exists>q\<in>set (ba_ranges avx d st). fst q \<le> i \<and> i < snd q) \<longleftrightarrow> st \<le> i \<and> ba_bit d i" for i
    proof -
      have "(\<exists>q\<in>set (ba_ranges avx d st). fst q \<le> i \<and> i < snd q) \<longleftrightarrow> fst r \<le> i \<and> i < snd r \<or> snd r \<le> i \<and> ba_bit d i"
        using ih(1) by (simp add: e)
      also have "\<dots> \<longleftrightarrow> st \<le> i \<and> ba_bit d i" using R by (meson le_trans not_le less_imp_le)
      finally show ?thesis .
    qed
    have "\<forall>q\<in>set (ba_ranges avx d st). st \<le> fst q \<and> fst q < snd q \<and> snd q \<le> ba_size d"
      using ih(3) R size by (auto simp: e)
    then show ?thesis using bits ih(2) lt by (simp add: e)
  qed
qed

lemma ba_ranges_avx: "ba_ranges True d st = ba_ranges False d st"
proof (induction True d st rule: ba_ranges.induct)
  case (1 d st)
  then show ?case by (subst (1 2) ba_ranges.simps) (simp add: Let_def FirstRangeFrom_avx)
qed

section \<open>Properties\<close>

text \<open>
  C35. The range operations are the set operations they stand for: setting, clearing and copying \<open>[s, e)\<close>
  add, remove and keep exactly the positions of the range, for every position of every word, with and without
  AVX; a range that is empty or does not lie in the array changes nothing (and copies nothing).
\<close>

theorem ba_range_operations_correct:
  "(ba_bit (ba_SetRange avx d s e) i \<longleftrightarrow> ba_bit d i \<or> (s < e \<and> e \<le> ba_size d \<and> s \<le> i \<and> i < e))
   \<and> (ba_bit (ba_UnsetRange avx d s e) i \<longleftrightarrow> ba_bit d i \<and> \<not> (s < e \<and> e \<le> ba_size d \<and> s \<le> i \<and> i < e))
   \<and> (ba_bit (ba_copy_range avx d s e) i \<longleftrightarrow> (s < e \<and> e \<le> ba_size d \<and> s \<le> i \<and> i < e) \<and> ba_bit d i)"
  by (simp add: ba_SetRange_bit ba_UnsetRange_bit ba_copy_range_bit)

text \<open>
  C36. The AVX code and the word-by-word code compute the same arrays and the same runs: the two builds of
  \<open>SetRange\<close>, \<open>UnsetRange\<close>, the copying constructor, \<open>FirstRangeFrom\<close> and the iteration
  over all runs are equal functions.
\<close>

theorem ba_avx_equivalence:
  "ba_SetRange True d s e = ba_SetRange False d s e
   \<and> ba_UnsetRange True d s e = ba_UnsetRange False d s e
   \<and> ba_copy_range True d s e = ba_copy_range False d s e
   \<and> FirstRangeFrom True d s = FirstRangeFrom False d s
   \<and> ba_ranges True d s = ba_ranges False d s"
proof (intro conjI)
  show "ba_SetRange True d s e = ba_SetRange False d s e" by (rule ba_eqI) (simp_all add: ba_SetRange_bit)
  show "ba_UnsetRange True d s e = ba_UnsetRange False d s e" by (rule ba_eqI) (simp_all add: ba_UnsetRange_bit)
  show "ba_copy_range True d s e = ba_copy_range False d s e" by (rule ba_eqI) (simp_all add: ba_copy_range_bit)
  show "FirstRangeFrom True d s = FirstRangeFrom False d s" by (rule FirstRangeFrom_avx)
  show "ba_ranges True d s = ba_ranges False d s" by (rule ba_ranges_avx)
qed

text \<open>
  C37. Iterating over an array terminates and visits exactly its one bits: the ranges a loop from \<open>begin()\<close>
  to \<open>end()\<close> yields are non-empty, lie in the array, come in increasing order with a zero bit between
  neighbours (they are maximal runs), and a position is in one of them iff its bit is set.
\<close>

theorem ba_iteration_correct:
  "(\<forall>i. (\<exists>r\<in>set (ba_ranges avx d 0). fst r \<le> i \<and> i < snd r) \<longleftrightarrow> ba_bit d i)
   \<and> sorted_wrt (\<lambda>r s. snd r < fst s) (ba_ranges avx d 0)
   \<and> list_all (\<lambda>r. fst r < snd r \<and> snd r \<le> ba_size d) (ba_ranges avx d 0)"
  using ba_ranges_spec [of avx d 0] by (simp add: list_all_iff)

text \<open>
  \<open>LastRangeFrom\<close> without AVX returns the last maximal run of one bits below its argument; with AVX the end of
  that run is still right, but not its start: the array whose words are ones, five zeros and ones has its last run
  in the last word only, and the AVX code, which skips groups of zero words where it looks for ones, reports the
  whole array.
\<close>

lemma LastRangeFrom_avx_start_wrong:
  "(d \<noteq> [] \<longrightarrow> last_end d en (snd (LastRangeFrom avx d en))
       \<and> last_start d (snd (LastRangeFrom False d en)) (fst (LastRangeFrom False d en)))
   \<and> LastRangeFrom False [NOT 0, 0, 0, 0, 0, NOT 0] 384 = (320, 384)
   \<and> LastRangeFrom True [NOT 0, 0, 0, 0, 0, NOT 0] 384 = (0, 384)"
proof (intro conjI impI)
  show "LastRangeFrom False [NOT 0, 0, 0, 0, 0, NOT 0] 384 = (320, 384)" by code_simp
  show "LastRangeFrom True [NOT 0, 0, 0, 0, 0, NOT 0] 384 = (0, 384)" by code_simp
qed (use LastRangeFrom_run in blast)+

lemma LastRangeFrom_avx_start_wrong_example:
  "last_end [5] 64 3 \<and> last_start [5] 3 2"
proof -
  have "LastRangeFrom False [5] 64 = (2, 3)" by code_simp
  then show ?thesis using LastRangeFrom_avx_start_wrong [of "[5]" 64 False] by simp
qed

end
