(* ===== verification/Page_Manager.thy ===== *)
theory Page_Manager
  imports Bit_Runs Alignment
begin

text \<open>
  The page watchers of the GPU side (\<^verbatim>\<open>src/src/video_core/page_manager.cpp\<close>).  Every 4 KB page counts the clients that watch its
  writes (a 7-bit field) and its reads (a 1-bit field); \<open>UpdatePageWatchers\<close> and \<open>UpdatePageWatchersForRegion\<close>
  change the counts of a range or of the pages of a bit mask and merge the host calls that follow into few ranges.
  A call of the host's \<open>Protect\<close> is recorded in \<open>protect_calls\<close>; \<open>host_perms\<close> is the protection that results.  The operations run
  under the locks of their pages and are single transitions; indexing past \<open>cached_pages\<close> is \<open>None\<close>.
\<close>

section \<open>Page states\<close>

definition PM_PAGE_SIZE :: u64 where "PM_PAGE_SIZE = 4096"
definition PM_PAGE_BITS :: nat where "PM_PAGE_BITS = 12"
definition NUM_ADDRESS_PAGES :: nat where "NUM_ADDRESS_PAGES = 2 ^ 28"
definition PAGES_PER_LOCK :: nat where "PAGES_PER_LOCK = 1024"

definition DivCeil :: "u64 \<Rightarrow> u64 \<Rightarrow> u64" where
  "DivCeil number divisor = sub64 (add64 number divisor) 1 div divisor"

record PageState =
  num_write_watchers :: "7 word"
  num_read_watchers :: "1 word"

definition WritePerm :: "PageState \<Rightarrow> flags32" where
  "WritePerm s = (if num_write_watchers s = 0 then MemoryPermission_Write else 0)"

definition ReadPerm :: "PageState \<Rightarrow> flags32" where
  "ReadPerm s = (if num_read_watchers s = 0 then MemoryPermission_Read else 0)"

definition Perms :: "PageState \<Rightarrow> flags32" where
  "Perms s = ReadPerm s OR WritePerm s"

definition AddDelta :: "int \<Rightarrow> bool \<Rightarrow> PageState \<Rightarrow> (nat \<times> PageState) option" where
  "AddDelta delta is_read s =
     (if is_read
      then if delta = 1 then let c = num_read_watchers s + 1 in Some (unat c, s\<lparr>num_read_watchers := c\<rparr>)
           else if delta = -1
           then do {
             assert_opt (num_read_watchers s > 0);
             let c = num_read_watchers s - 1;
             Some (unat c, s\<lparr>num_read_watchers := c\<rparr>)
           }
           else Some (unat (num_read_watchers s), s)
      else if delta = 1 then let c = num_write_watchers s + 1 in Some (unat c, s\<lparr>num_write_watchers := c\<rparr>)
           else if delta = -1
           then do {
             assert_opt (num_write_watchers s > 0);
             let c = num_write_watchers s - 1;
             Some (unat c, s\<lparr>num_write_watchers := c\<rparr>)
           }
           else Some (unat (num_write_watchers s), s))"

section \<open>Watching pages\<close>

record host_protect =
  hp_address :: u64
  hp_size :: u64
  hp_perms :: flags32

record PageManager =
  cached_pages :: "nat \<Rightarrow> PageState"
  protect_calls :: "host_protect list"

definition pm_Protect :: "u64 \<Rightarrow> u64 \<Rightarrow> flags32 \<Rightarrow> PageManager \<Rightarrow> PageManager option" where
  "pm_Protect address sz perms pm = do {
     assert_opt (perms \<noteq> MemoryPermission_Write);
     Some (pm\<lparr>protect_calls := protect_calls pm @ [\<lparr>hp_address = address, hp_size = sz, hp_perms = perms\<rparr>]\<rparr>)
   }"

record pending_range =
  pr_perms :: flags32
  range_begin :: u64
  range_bytes :: u64
  potential_range_bytes :: u64

definition release_pending :: "pending_range \<Rightarrow> PageManager \<Rightarrow> (pending_range \<times> PageManager) option" where
  "release_pending pr pm =
     (if range_bytes pr > 0
      then do {
        pm' \<leftarrow> pm_Protect (push_bit PM_PAGE_BITS (range_begin pr)) (range_bytes pr) (pr_perms pr) pm;
        Some (pr\<lparr>range_bytes := 0, potential_range_bytes := 0\<rparr>, pm')
      }
      else Some (pr, pm))"

definition watch_page :: "bool \<Rightarrow> bool \<Rightarrow> bool \<Rightarrow> nat \<Rightarrow> pending_range \<times> PageManager \<Rightarrow> (pending_range \<times> PageManager) option" where
  "watch_page track is_read update page = (\<lambda>(pr, pm). do {
     assert_opt (page < NUM_ADDRESS_PAGES);
     (new_count, state) \<leftarrow> AddDelta (if update then (if track then 1 else -1) else 0) is_read (cached_pages pm page);
     let pm1 = pm\<lparr>cached_pages := (cached_pages pm)(page := state)\<rparr>;
     let new_perms = Perms state;
     (pr2, pm2) \<leftarrow>
       (if new_perms \<noteq> pr_perms pr
        then do {
          (pr', pm') \<leftarrow> release_pending pr pm1;
          Some (pr'\<lparr>pr_perms := new_perms\<rparr>, pm')
        }
        else if range_bytes pr \<noteq> 0
        then Some (pr\<lparr>potential_range_bytes := potential_range_bytes pr + PM_PAGE_SIZE\<rparr>, pm1)
        else Some (pr, pm1));
     if update \<and> ((new_count = 0 \<and> \<not> track) \<or> (new_count = 1 \<and> track))
     then let pr3 = (if range_bytes pr2 = 0 then pr2\<lparr>range_begin := page, potential_range_bytes := PM_PAGE_SIZE\<rparr> else pr2)
          in Some (pr3\<lparr>range_bytes := potential_range_bytes pr3\<rparr>, pm2)
     else Some (pr2, pm2)
   })"

function watch_loop :: "bool \<Rightarrow> bool \<Rightarrow> nat \<Rightarrow> nat \<Rightarrow> pending_range \<times> PageManager \<Rightarrow> (pending_range \<times> PageManager) option" where
  "watch_loop track is_read page page_end st =
     (if page = page_end then Some st
      else if page \<ge> NUM_ADDRESS_PAGES then None
      else do {
        st' \<leftarrow> watch_page track is_read True page st;
        watch_loop track is_read (page + 1) page_end st'
      })"
  by auto
termination by (relation "measure (\<lambda>(_, _, page, _). NUM_ADDRESS_PAGES - page)") auto

definition no_pending :: "flags32 \<Rightarrow> pending_range" where
  "no_pending perms = \<lparr>pr_perms = perms, range_begin = 0, range_bytes = 0, potential_range_bytes = 0\<rparr>"

definition UpdatePageWatchers :: "bool \<Rightarrow> bool \<Rightarrow> u64 \<Rightarrow> u64 \<Rightarrow> PageManager \<Rightarrow> PageManager option" where
  "UpdatePageWatchers track is_read addr sz pm = do {
     let page = drop_bit PM_PAGE_BITS addr;
     let page_end = DivCeil (add64 addr sz) PM_PAGE_SIZE;
     assert_opt (page < NUM_ADDRESS_PAGES);
     (pr, pm') \<leftarrow> watch_loop track is_read page page_end (no_pending (Perms (cached_pages pm page)), pm);
     (_, pm'') \<leftarrow> release_pending pr pm';
     Some pm''
   }"

primrec watch_mask_loop ::
  "bool \<Rightarrow> bool \<Rightarrow> bit_array \<Rightarrow> nat \<Rightarrow> nat list \<Rightarrow> pending_range \<times> PageManager \<Rightarrow> (pending_range \<times> PageManager) option" where
  "watch_mask_loop track is_read mask_bits base_page [] st = Some st"
| "watch_mask_loop track is_read mask_bits base_page (page # pages) st = do {
     update \<leftarrow> ba_get mask_bits page;
     st' \<leftarrow> watch_page track is_read update (base_page + page) st;
     watch_mask_loop track is_read mask_bits base_page pages st'
   }"

definition UpdatePageWatchersForRegion :: "bool \<Rightarrow> bool \<Rightarrow> bool \<Rightarrow> u64 \<Rightarrow> bit_array \<Rightarrow> PageManager \<Rightarrow> PageManager option" where
  "UpdatePageWatchersForRegion avx track is_read base_addr mask_bits pm =
     (let start_range = FirstRangeFrom avx mask_bits 0; end_range = LastRangeFrom avx mask_bits (ba_size mask_bits)
      in if snd start_range = snd end_range
         then UpdatePageWatchers track is_read (add64 base_addr (push_bit PM_PAGE_BITS (fst start_range)))
                (push_bit PM_PAGE_BITS (snd start_range - fst start_range)) pm
         else do {
           let base_page = drop_bit PM_PAGE_BITS base_addr;
           assert_opt (base_page mod PAGES_PER_LOCK = 0);
           assert_opt (base_page + fst start_range < NUM_ADDRESS_PAGES);
           (pr, pm') \<leftarrow> watch_mask_loop track is_read mask_bits base_page [fst start_range..<snd end_range]
             (no_pending (Perms (cached_pages pm (base_page + fst start_range))), pm);
           (_, pm'') \<leftarrow> release_pending pr pm';
           Some pm''
         })"

declare watch_loop.simps [simp del]

definition watch_pre :: "bool \<Rightarrow> bool \<Rightarrow> PageState \<Rightarrow> bool" where
  "watch_pre track is_read s \<longleftrightarrow>
     (if is_read then (num_read_watchers s = 0) = track
      else if track then unat (num_write_watchers s) < 127 else num_write_watchers s \<noteq> 0)"

definition watched :: "bool \<Rightarrow> bool \<Rightarrow> PageState \<Rightarrow> PageState" where
  "watched track is_read s =
     (if is_read then s\<lparr>num_read_watchers := (if track then 1 else 0)\<rparr>
      else s\<lparr>num_write_watchers := (if track then num_write_watchers s + 1 else num_write_watchers s - 1)\<rparr>)"

definition host_apply :: "(nat \<Rightarrow> flags32) \<Rightarrow> host_protect \<Rightarrow> nat \<Rightarrow> flags32" where
  "host_apply h c p =
     (if hp_address c \<le> p * 4096 \<and> p * 4096 < hp_address c + hp_size c then hp_perms c else h p)"

definition host_perms :: "PageManager \<Rightarrow> nat \<Rightarrow> flags32" where
  "host_perms pm = foldl host_apply (\<lambda>_. MemoryPermission_ReadWrite) (protect_calls pm)"

definition pages_protected :: "PageManager \<Rightarrow> bool" where
  "pages_protected pm \<longleftrightarrow> (\<forall>p. host_perms pm p = Perms (cached_pages pm p))"

definition pending_ok :: "nat \<Rightarrow> pending_range \<Rightarrow> PageManager \<Rightarrow> bool" where
  "pending_ok i pr pm \<longleftrightarrow>
     (\<forall>p. host_perms pm p = Perms (cached_pages pm p)
        \<or> (range_begin pr \<le> p \<and> p * 4096 < range_begin pr * 4096 + range_bytes pr))
   \<and> (0 < range_bytes pr \<longrightarrow>
        range_bytes pr \<le> potential_range_bytes pr
      \<and> range_begin pr * 4096 + potential_range_bytes pr = i * 4096
      \<and> (\<forall>p. range_begin pr \<le> p \<and> p < i \<longrightarrow> Perms (cached_pages pm p) = pr_perms pr)
      \<and> pr_perms pr \<noteq> MemoryPermission_Write)"

lemma one_bit_word: "(w :: 1 word) = 0 \<or> w = 1"
  by (metis (full_types) bit_eq_iff bit_1_iff bit_0_eq bot_apply bot_bool_def bit_imp_le_length len_num1 less_one)

lemma AddDelta_update:
  assumes "watch_pre track is_read s"
  shows "\<exists>c. AddDelta (if track then 1 else -1) is_read s = Some (c, watched track is_read s)
     \<and> (\<not> ((c = 0 \<and> \<not> track) \<or> (c = 1 \<and> track)) \<longrightarrow> Perms (watched track is_read s) = Perms s)"
proof (cases is_read)
  case True
  then show ?thesis using assms one_bit_word [of "num_read_watchers s"]
    by (cases track) (auto simp: AddDelta_def watch_pre_def watched_def Let_def word_gt_0)
next
  case False
  let ?w = "num_write_watchers s"
  show ?thesis
  proof (cases track)
    case True
    have "unat (?w + 1) = unat ?w + 1" using assms False True by (subst unat_add_lem [THEN iffD1]) (auto simp: watch_pre_def)
    then have "?w + 1 \<noteq> 0" "unat (?w + 1) \<noteq> 1 \<longrightarrow> ?w \<noteq> 0" by (auto simp: unat_eq_0 [symmetric])
    then show ?thesis using False True by (auto simp: AddDelta_def watched_def Let_def Perms_def ReadPerm_def WritePerm_def)
  next
    case tr: False
    then have "?w \<noteq> 0" using assms False by (simp add: watch_pre_def)
    then show ?thesis using False tr
      by (auto simp: AddDelta_def watched_def Let_def Perms_def ReadPerm_def WritePerm_def word_gt_0 unat_eq_0)
  qed
qed

lemma host_perms_snoc:
  "host_perms (pm\<lparr>protect_calls := protect_calls pm @ [c]\<rparr>) = host_apply (host_perms pm) c"
  by (simp add: host_perms_def)

lemma host_perms_pages [simp]: "host_perms (pm\<lparr>cached_pages := f\<rparr>) = host_perms pm"
  by (simp add: host_perms_def)

lemma release_pending_ok:
  assumes "pending_ok i pr pm"
  shows "\<exists>pm'. release_pending pr pm = Some (pr\<lparr>range_bytes := 0, potential_range_bytes := (if range_bytes pr > 0 then 0 else potential_range_bytes pr)\<rparr>, pm')
    \<and> cached_pages pm' = cached_pages pm \<and> pages_protected pm'"
proof (cases "range_bytes pr > 0")
  case False
  then have "pages_protected pm" using assms by (auto simp: pending_ok_def pages_protected_def)
  then show ?thesis using False by (auto simp: release_pending_def)
next
  case True
  define c where "c = \<lparr>hp_address = range_begin pr * 4096, hp_size = range_bytes pr, hp_perms = pr_perms pr\<rparr>"
  define pm' where "pm' = pm\<lparr>protect_calls := protect_calls pm @ [c]\<rparr>"
  note A = assms [unfolded pending_ok_def]
  have r: "release_pending pr pm = Some (pr\<lparr>range_bytes := 0, potential_range_bytes := 0\<rparr>, pm')"
    using A True by (simp add: release_pending_def pm_Protect_def pm'_def c_def PM_PAGE_BITS_def push_bit_eq_mult)
  have "host_perms pm' p = Perms (cached_pages pm p)" for p
  proof (cases "range_begin pr \<le> p \<and> p * 4096 < range_begin pr * 4096 + range_bytes pr")
    case pin: True
    then have "p < i" using A True by linarith
    then show ?thesis using pin A True by (simp add: pm'_def host_perms_snoc host_apply_def c_def)
  next
    case False
    then show ?thesis using A by (auto simp: pm'_def host_perms_snoc host_apply_def c_def)
  qed
  then have "pages_protected pm'" by (simp add: pages_protected_def pm'_def)
  then show ?thesis using r True by (auto simp: pm'_def)
qed

lemma release_pending_pages:
  "release_pending pr (pm\<lparr>cached_pages := f\<rparr>) = map_option (\<lambda>(pr', pm'). (pr', pm'\<lparr>cached_pages := f\<rparr>)) (release_pending pr pm)"
  by (auto simp: release_pending_def pm_Protect_def assert_opt_def)

lemma watch_page_ok:
  assumes inv: "pending_ok i pr pm" and i: "i < NUM_ADDRESS_PAGES"
    and pre: "update \<longrightarrow> watch_pre track is_read (cached_pages pm i)
      \<and> Perms (watched track is_read (cached_pages pm i)) \<noteq> MemoryPermission_Write"
  shows "\<exists>pr' pm'. watch_page track is_read update i (pr, pm) = Some (pr', pm') \<and> pending_ok (i + 1) pr' pm'
    \<and> cached_pages pm' = (cached_pages pm)(i := if update then watched track is_read (cached_pages pm i) else cached_pages pm i)"
proof -
  define s where "s = (if update then watched track is_read (cached_pages pm i) else cached_pages pm i)"
  obtain c where add: "AddDelta (if update then (if track then 1 else -1) else 0) is_read (cached_pages pm i) = Some (c, s)"
    and same: "update \<and> \<not> ((c = 0 \<and> \<not> track) \<or> (c = 1 \<and> track)) \<or> \<not> update \<longrightarrow> Perms s = Perms (cached_pages pm i)"
  proof (cases update)
    case True
    then show ?thesis using AddDelta_update [of track is_read "cached_pages pm i"] pre that by (auto simp: s_def)
  next
    case False
    then show ?thesis using that [of "if is_read then unat (num_read_watchers (cached_pages pm i)) else unat (num_write_watchers (cached_pages pm i))"]
      by (simp add: s_def AddDelta_def)
  qed
  define hit where "hit \<longleftrightarrow> update \<and> ((c = 0 \<and> \<not> track) \<or> (c = 1 \<and> track))"
  define pm1 where "pm1 = pm\<lparr>cached_pages := (cached_pages pm)(i := s)\<rparr>"
  note A = inv [unfolded pending_ok_def]
  have perm: "hit \<longrightarrow> Perms s \<noteq> MemoryPermission_Write" using pre by (auto simp: hit_def s_def)
  have other: "\<forall>p. p \<noteq> i \<longrightarrow> cached_pages pm1 p = cached_pages pm p" "cached_pages pm1 i = s" by (simp_all add: pm1_def)
  have hi: "host_perms pm i = Perms (cached_pages pm i)" using A by fastforce
  have hit0: "\<not> hit \<Longrightarrow> host_perms pm i = Perms s" using same hi by (auto simp: hit_def)
  define fin where "fin pr2 = (if hit then (let pr3 = (if range_bytes pr2 = 0 then pr2\<lparr>range_begin := i, potential_range_bytes := PM_PAGE_SIZE\<rparr> else pr2)
      in pr3\<lparr>range_bytes := potential_range_bytes pr3\<rparr>) else pr2)" for pr2 :: pending_range
  have F: "(if update \<and> ((c = 0 \<and> \<not> track) \<or> (c = 1 \<and> track))
     then let pr3 = (if range_bytes pr2 = 0 then pr2\<lparr>range_begin := i, potential_range_bytes := PM_PAGE_SIZE\<rparr> else pr2)
          in Some (pr3\<lparr>range_bytes := potential_range_bytes pr3\<rparr>, pm2)
     else Some (pr2, pm2)) = Some (fin pr2, pm2)" for pr2 :: pending_range and pm2 :: PageManager
    by (simp add: fin_def hit_def [symmetric] Let_def del: One_nat_def)
  have W: "watch_page track is_read update i (pr, pm) = do {
       (pr2, pm2) \<leftarrow> (if Perms s \<noteq> pr_perms pr
        then do { (pr', pm') \<leftarrow> release_pending pr pm1; Some (pr'\<lparr>pr_perms := Perms s\<rparr>, pm') }
        else if range_bytes pr \<noteq> 0
        then Some (pr\<lparr>potential_range_bytes := potential_range_bytes pr + PM_PAGE_SIZE\<rparr>, pm1)
        else Some (pr, pm1));
       Some (fin pr2, pm2) }"
    using i unfolding watch_page_def prod.case add
    by (simp only: assert_opt_simps Option.bind.simps prod.case Let_def [of s] Let_def [of "Perms s"] F pm1_def [symmetric]
        Let_def [of pm1])
  have pm1: "host_perms pm1 = host_perms pm" by (simp add: pm1_def)
  consider (diff) "Perms s \<noteq> pr_perms pr" | (ext) "Perms s = pr_perms pr" "range_bytes pr \<noteq> 0"
    | (none) "Perms s = pr_perms pr" "range_bytes pr = 0" by blast
  then show ?thesis
  proof cases
    case diff
    obtain pr' pm' where r: "release_pending pr pm = Some (pr', pm')" "range_bytes pr' = 0"
      "cached_pages pm' = cached_pages pm" "pages_protected pm'"
      using release_pending_ok [OF inv] by auto
    define pm2 where "pm2 = pm'\<lparr>cached_pages := (cached_pages pm)(i := s)\<rparr>"
    have w: "watch_page track is_read update i (pr, pm) = Some (fin (pr'\<lparr>pr_perms := Perms s\<rparr>), pm2)"
      unfolding W using diff r by (simp add: pm1_def release_pending_pages pm2_def)
    have h: "host_perms pm2 p = Perms (cached_pages pm p)" for p using r(3,4) by (simp add: pm2_def pages_protected_def)
    have "pending_ok (i + 1) (fin (pr'\<lparr>pr_perms := Perms s\<rparr>)) pm2"
    proof (cases hit)
      case True
      have "host_perms pm2 p = Perms (cached_pages pm2 p) \<or> i \<le> p \<and> p * 4096 < i * 4096 + 4096" for p
        using h [of p] by (cases "p = i") (auto simp: pm2_def)
      then show ?thesis using True perm r(2) by (simp add: pending_ok_def fin_def Let_def PM_PAGE_SIZE_def pm2_def)
    next
      case False
      have "host_perms pm2 p = Perms (cached_pages pm2 p)" for p
        using h [of p] hit0 [OF False] hi by (cases "p = i") (auto simp: pm2_def)
      then show ?thesis using False r(2) by (simp add: pending_ok_def fin_def)
    qed
    then show ?thesis unfolding w by (auto simp: pm2_def s_def)
  next
    case ext
    define pr2 where "pr2 = pr\<lparr>potential_range_bytes := potential_range_bytes pr + PM_PAGE_SIZE\<rparr>"
    have w: "watch_page track is_read update i (pr, pm) = Some (fin pr2, pm1)"
      unfolding W using ext by (simp add: pr2_def)
    have rb: "range_begin pr \<le> i" "range_begin pr * 4096 + potential_range_bytes pr = i * 4096"
        "range_bytes pr \<le> potential_range_bytes pr" "pr_perms pr \<noteq> MemoryPermission_Write"
        "\<forall>p. range_begin pr \<le> p \<and> p < i \<longrightarrow> Perms (cached_pages pm p) = pr_perms pr"
      using A ext(2) by auto
    have f: "range_begin (fin pr2) = range_begin pr" "pr_perms (fin pr2) = pr_perms pr"
        "potential_range_bytes (fin pr2) = potential_range_bytes pr + 4096"
        "range_bytes (fin pr2) = (if hit then potential_range_bytes pr + 4096 else range_bytes pr)"
      using ext(2) by (simp_all add: fin_def pr2_def PM_PAGE_SIZE_def Let_def)
    have "host_perms pm1 p = Perms (cached_pages pm1 p)
        \<or> range_begin pr \<le> p \<and> p * 4096 < range_begin pr * 4096 + range_bytes (fin pr2)" for p
    proof (cases "p = i")
      case True
      then show ?thesis using rb hit0 other(2) by (cases hit) (auto simp: pm1 f)
    next
      case False
      then have "host_perms pm p = Perms (cached_pages pm1 p) \<or> range_begin pr \<le> p \<and> p * 4096 < range_begin pr * 4096 + range_bytes pr"
        using A other(1) by auto
      then show ?thesis using rb(3) by (auto simp: pm1 f)
    qed
    moreover have "Perms (cached_pages pm1 p) = pr_perms pr" if "range_begin pr \<le> p" "p < i + 1" for p
      using that other rb(5) ext(1) by (cases "p = i") auto
    ultimately have "pending_ok (i + 1) (fin pr2) pm1"
      unfolding pending_ok_def f(1,2,3) using rb f(4) by (auto split: if_splits)
    then show ?thesis unfolding w by (auto simp: pm1_def s_def)
  next
    case none
    have w: "watch_page track is_read update i (pr, pm) = Some (fin pr, pm1)" unfolding W using none by simp
    have h: "host_perms pm1 p = Perms (cached_pages pm p)" for p using A none(2) by (auto simp: pm1)
    have "pending_ok (i + 1) (fin pr) pm1"
    proof (cases hit)
      case True
      have "host_perms pm1 p = Perms (cached_pages pm1 p) \<or> i \<le> p \<and> p * 4096 < i * 4096 + 4096" for p
        using h [of p] other by (cases "p = i") auto
      moreover have "\<forall>p. i \<le> p \<and> p < i + 1 \<longrightarrow> Perms (cached_pages pm1 p) = pr_perms pr"
        using other(2) none(1) by (auto simp: less_Suc_eq_le dest: le_antisym)
      ultimately show ?thesis using True perm none by (simp add: pending_ok_def fin_def Let_def PM_PAGE_SIZE_def)
    next
      case False
      have "host_perms pm1 p = Perms (cached_pages pm1 p)" for p
        using h [of p] hit0 [OF False] hi other by (cases "p = i") auto
      then show ?thesis using False none(2) by (simp add: pending_ok_def fin_def)
    qed
    then show ?thesis unfolding w by (auto simp: pm1_def s_def)
  qed
qed

lemma pending_ok_start: "pages_protected pm \<Longrightarrow> pending_ok i (no_pending perms) pm"
  by (simp add: pages_protected_def pending_ok_def no_pending_def)

definition watch_all :: "bool \<Rightarrow> bool \<Rightarrow> (nat \<Rightarrow> bool) \<Rightarrow> (nat \<Rightarrow> PageState) \<Rightarrow> nat \<Rightarrow> PageState" where
  "watch_all track is_read upd f p = (if upd p then watched track is_read (f p) else f p)"

definition watch_allowed :: "bool \<Rightarrow> bool \<Rightarrow> (nat \<Rightarrow> bool) \<Rightarrow> (nat \<Rightarrow> PageState) \<Rightarrow> bool" where
  "watch_allowed track is_read upd f \<longleftrightarrow> (\<forall>p. upd p \<longrightarrow> watch_pre track is_read (f p)
     \<and> Perms (watched track is_read (f p)) \<noteq> MemoryPermission_Write)"

lemma watch_all_cong: "(\<And>p. upd p \<longleftrightarrow> upd' p) \<Longrightarrow> watch_all track is_read upd f = watch_all track is_read upd' f"
  by (auto simp: watch_all_def fun_eq_iff)

lemma watch_loop_ok:
  assumes "page \<le> page_end" "page_end \<le> NUM_ADDRESS_PAGES" "pending_ok page pr pm"
    "watch_allowed track is_read (\<lambda>p. page \<le> p \<and> p < page_end) (cached_pages pm)"
  shows "\<exists>pr' pm'. watch_loop track is_read page page_end (pr, pm) = Some (pr', pm') \<and> pending_ok page_end pr' pm'
    \<and> cached_pages pm' = watch_all track is_read (\<lambda>p. page \<le> p \<and> p < page_end) (cached_pages pm)"
  using assms
proof (induction "page_end - page" arbitrary: page pr pm)
  case 0
  then have "page = page_end" by simp
  then show ?case using 0 by (subst watch_loop.simps) (auto simp: watch_all_def fun_eq_iff)
next
  case (Suc n)
  have lt: "page < page_end" "page < NUM_ADDRESS_PAGES" using Suc.hyps(2) Suc.prems(2) by linarith+
  have "watch_pre track is_read (cached_pages pm page) \<and> Perms (watched track is_read (cached_pages pm page)) \<noteq> MemoryPermission_Write"
    using Suc.prems(4) lt unfolding watch_allowed_def by blast
  then obtain pr1 pm1 where w: "watch_page track is_read True page (pr, pm) = Some (pr1, pm1)" "pending_ok (page + 1) pr1 pm1"
    "cached_pages pm1 = (cached_pages pm)(page := watched track is_read (cached_pages pm page))"
    using watch_page_ok [OF Suc.prems(3) lt(2), of True track is_read] by auto
  have "watch_allowed track is_read (\<lambda>p. page + 1 \<le> p \<and> p < page_end) (cached_pages pm1)"
    using Suc.prems(4) unfolding watch_allowed_def w(3) by simp
  moreover have "n = page_end - (page + 1)" "page + 1 \<le> page_end" using Suc.hyps(2) by linarith+
  ultimately obtain pr' pm' where l: "watch_loop track is_read (page + 1) page_end (pr1, pm1) = Some (pr', pm')"
    "pending_ok page_end pr' pm'"
    "cached_pages pm' = watch_all track is_read (\<lambda>p. page + 1 \<le> p \<and> p < page_end) (cached_pages pm1)"
    using Suc.hyps(1) [of "page + 1" pr1 pm1] w(2) Suc.prems(2) by blast
  have "watch_loop track is_read page page_end (pr, pm) = Some (pr', pm')"
    using lt w(1) l(1) by (subst watch_loop.simps) simp
  moreover have "cached_pages pm' = watch_all track is_read (\<lambda>p. page \<le> p \<and> p < page_end) (cached_pages pm)"
    unfolding l(3) w(3) using lt(1) by (auto simp: watch_all_def fun_eq_iff)
  ultimately show ?case using l(2) by blast
qed

lemma watch_mask_loop_ok:
  assumes "a \<le> b" "b \<le> ba_size m" "base + b \<le> NUM_ADDRESS_PAGES" "pending_ok (base + a) pr pm"
    "watch_allowed track is_read (\<lambda>p. base + a \<le> p \<and> p < base + b \<and> ba_bit m (p - base)) (cached_pages pm)"
  shows "\<exists>pr' pm'. watch_mask_loop track is_read m base [a..<b] (pr, pm) = Some (pr', pm') \<and> pending_ok (base + b) pr' pm'
    \<and> cached_pages pm' = watch_all track is_read (\<lambda>p. base + a \<le> p \<and> p < base + b \<and> ba_bit m (p - base)) (cached_pages pm)"
  using assms
proof (induction "b - a" arbitrary: a pr pm)
  case 0
  then have "a = b" by simp
  then show ?case using 0 by (auto simp: watch_all_def fun_eq_iff)
next
  case (Suc n)
  let ?u = "ba_bit m a"
  have lt: "a < b" "base + a < NUM_ADDRESS_PAGES" using Suc.hyps(2) Suc.prems(3) by linarith+
  have "?u \<longrightarrow> watch_pre track is_read (cached_pages pm (base + a)) \<and> Perms (watched track is_read (cached_pages pm (base + a))) \<noteq> MemoryPermission_Write"
    using Suc.prems(5) lt unfolding watch_allowed_def by (metis add_diff_cancel_left' add_less_cancel_left order_refl)
  then obtain pr1 pm1 where w: "watch_page track is_read ?u (base + a) (pr, pm) = Some (pr1, pm1)" "pending_ok (base + (a + 1)) pr1 pm1"
    "cached_pages pm1 = (cached_pages pm)(base + a := if ?u then watched track is_read (cached_pages pm (base + a)) else cached_pages pm (base + a))"
    using watch_page_ok [OF Suc.prems(4) lt(2)] unfolding add.assoc by blast
  have "watch_allowed track is_read (\<lambda>p. base + (a + 1) \<le> p \<and> p < base + b \<and> ba_bit m (p - base)) (cached_pages pm1)"
    using Suc.prems(5) unfolding watch_allowed_def w(3) by simp
  moreover have "n = b - (a + 1)" "a + 1 \<le> b" using Suc.hyps(2) by linarith+
  ultimately obtain pr' pm' where l: "watch_mask_loop track is_read m base [a + 1..<b] (pr1, pm1) = Some (pr', pm')"
    "pending_ok (base + b) pr' pm'"
    "cached_pages pm' = watch_all track is_read (\<lambda>p. base + (a + 1) \<le> p \<and> p < base + b \<and> ba_bit m (p - base)) (cached_pages pm1)"
    using Suc.hyps(1) [of "a + 1" pr1 pm1] w(2) Suc.prems(2,3) by blast
  have g: "ba_get m a = Some ?u" using lt(1) Suc.prems(2) by (simp add: ba_get_bit)
  have "[a..<b] = a # [a + 1..<b]" using lt(1) by (simp add: upt_conv_Cons)
  then have "watch_mask_loop track is_read m base [a..<b] (pr, pm) = Some (pr', pm')"
    using w(1) l(1) g by simp
  moreover have "cached_pages pm' = watch_all track is_read (\<lambda>p. base + a \<le> p \<and> p < base + b \<and> ba_bit m (p - base)) (cached_pages pm)"
  proof
    fix p show "cached_pages pm' p = watch_all track is_read (\<lambda>p. base + a \<le> p \<and> p < base + b \<and> ba_bit m (p - base)) (cached_pages pm) p"
      unfolding l(3) w(3) using lt(1) by (cases "p = base + a") (auto simp: watch_all_def)
  qed
  ultimately show ?case using l(2) by blast
qed

lemma DivCeil_exact: "n + 4095 < U64_MOD \<Longrightarrow> DivCeil n PM_PAGE_SIZE = (n + 4095) div 4096"
proof (cases "n + 4096 < U64_MOD")
  case True
  then show ?thesis by (simp add: DivCeil_def PM_PAGE_SIZE_def)
next
  case False
  moreover assume "n + 4095 < U64_MOD"
  ultimately have n: "n = U64_MOD - 4096" by simp
  show ?thesis unfolding n by (simp add: DivCeil_def PM_PAGE_SIZE_def add64_def sub64_def)
qed

definition page_in :: "u64 \<Rightarrow> u64 \<Rightarrow> nat \<Rightarrow> bool" where
  "page_in addr sz p \<longleftrightarrow> addr div 4096 \<le> p \<and> p < (addr + sz + 4095) div 4096"

lemma UpdatePageWatchers_ok:
  assumes range: "addr + sz \<le> 2 ^ 40" "addr < 2 ^ 40"
    and pm: "pages_protected pm" "watch_allowed track is_read (page_in addr sz) (cached_pages pm)"
  shows "\<exists>pm'. UpdatePageWatchers track is_read addr sz pm = Some pm'
    \<and> cached_pages pm' = watch_all track is_read (page_in addr sz) (cached_pages pm) \<and> pages_protected pm'"
proof -
  define a b where "a = addr div 4096" and "b = (addr + sz + 4095) div 4096"
  have p: "page_in addr sz = (\<lambda>p. a \<le> p \<and> p < b)" by (simp add: page_in_def a_def b_def fun_eq_iff)
  have ab: "a \<le> b" "a < NUM_ADDRESS_PAGES" "b \<le> NUM_ADDRESS_PAGES"
    using range by (auto simp: a_def b_def NUM_ADDRESS_PAGES_def intro: div_le_mono)
  have e: "drop_bit PM_PAGE_BITS addr = a" "DivCeil (add64 addr sz) PM_PAGE_SIZE = b"
    using range by (simp_all add: a_def b_def PM_PAGE_BITS_def drop_bit_eq_div DivCeil_exact)
  obtain pr1 pm1 where l: "watch_loop track is_read a b (no_pending (Perms (cached_pages pm a)), pm) = Some (pr1, pm1)"
    "pending_ok b pr1 pm1" "cached_pages pm1 = watch_all track is_read (page_in addr sz) (cached_pages pm)"
    using watch_loop_ok [OF ab(1,3) pending_ok_start [OF pm(1)], of track is_read] pm(2) unfolding p by blast
  obtain pr2 pm2 where r: "release_pending pr1 pm1 = Some (pr2, pm2)" "cached_pages pm2 = cached_pages pm1" "pages_protected pm2"
    using release_pending_ok [OF l(2)] by blast
  have "UpdatePageWatchers track is_read addr sz pm = Some pm2"
    using ab(2) l(1) r(1) unfolding UpdatePageWatchers_def e Let_def by simp
  then show ?thesis using r l(3) by auto
qed

definition mask_pages :: "u64 \<Rightarrow> bit_array \<Rightarrow> nat \<Rightarrow> bool" where
  "mask_pages base_addr m p \<longleftrightarrow> base_addr div 4096 \<le> p \<and> ba_bit m (p - base_addr div 4096)"

lemma mask_bounds:
  fixes avx :: bool and m :: bit_array
  assumes "ba_bit m i" "m \<noteq> []"
  defines "a \<equiv> fst (FirstRangeFrom avx m 0)" and "b \<equiv> snd (FirstRangeFrom avx m 0)"
    and "e \<equiv> snd (LastRangeFrom avx m (ba_size m))"
  shows "a < b" "a \<le> e" "e \<le> ba_size m" "\<forall>i. ba_bit m i \<longrightarrow> a \<le> i \<and> i < e" "\<forall>i. a \<le> i \<and> i < b \<longrightarrow> ba_bit m i"
proof -
  have ex: "\<exists>i. 0 \<le> i \<and> ba_bit m i" using assms(1) by blast
  note F = FirstRangeFrom_run [of m 0 avx, unfolded first_run_def if_P [OF ex], folded a_def b_def]
  note L = LastRangeFrom_run [OF assms(2), of "ba_size m" avx, THEN conjunct1, folded e_def, unfolded last_end_def]
  show ab: "a < b" "\<forall>i. a \<le> i \<and> i < b \<longrightarrow> ba_bit m i" using F by blast+
  show "e \<le> ba_size m" using L by blast
  show all: "\<forall>i. ba_bit m i \<longrightarrow> a \<le> i \<and> i < e"
    using F L ba_bit_bound [of m] by (metis le0 not_le)
  have "ba_bit m a" using ab by auto
  then show "a \<le> e" using all by auto
qed

lemma UpdatePageWatchersForRegion_ok:
  assumes m: "ba_Any m" and base: "2 ^ 22 dvd base_addr" "base_addr + 4096 * ba_size m \<le> 2 ^ 40"
    and pm: "pages_protected pm" "watch_allowed track is_read (mask_pages base_addr m) (cached_pages pm)"
  shows "\<exists>pm'. UpdatePageWatchersForRegion avx track is_read base_addr m pm = Some pm'
    \<and> cached_pages pm' = watch_all track is_read (mask_pages base_addr m) (cached_pages pm) \<and> pages_protected pm'"
proof -
  obtain i0 where i0: "ba_bit m i0" using m by (auto simp: ba_Any_def ba_None_bits)
  have ne: "m \<noteq> []" using i0 by (auto simp: ba_bit_def)
  define a b e where "a = fst (FirstRangeFrom avx m 0)" and "b = snd (FirstRangeFrom avx m 0)"
    and "e = snd (LastRangeFrom avx m (ba_size m))"
  note B = mask_bounds [OF i0 ne, of avx, folded a_def b_def e_def]
  obtain r where r: "base_addr = 2 ^ 22 * r" using base(1) by blast
  define p0 where "p0 = base_addr div 4096"
  have p0: "base_addr = 4096 * p0" "p0 mod PAGES_PER_LOCK = 0" by (simp_all add: p0_def r PAGES_PER_LOCK_def)
  have bound: "p0 + ba_size m \<le> NUM_ADDRESS_PAGES" using base(2) by (simp add: p0(1) NUM_ADDRESS_PAGES_def)
  show ?thesis
  proof (cases "b = e")
    case True
    have bits: "ba_bit m i \<longleftrightarrow> a \<le> i \<and> i < b" for i using B(4,5) True by blast
    have pg: "page_in (base_addr + 4096 * a) (4096 * (b - a)) = mask_pages base_addr m"
      using B(1) by (auto simp: page_in_def mask_pages_def bits p0(1) fun_eq_iff)
    have lim: "base_addr + 4096 * b \<le> 2 ^ 40" using base(2) B(3) True by simp
    then have "base_addr + 4096 * a + 4096 * (b - a) \<le> 2 ^ 40" "base_addr + 4096 * a < 2 ^ 40" using B(1) by auto
    note U = UpdatePageWatchers_ok [OF this pm(1), of track is_read, unfolded pg, OF pm(2)]
    have "UpdatePageWatchersForRegion avx track is_read base_addr m pm
        = UpdatePageWatchers track is_read (base_addr + 4096 * a) (4096 * (b - a)) pm"
      using True lim B(1) unfolding UpdatePageWatchersForRegion_def Let_def a_def [symmetric] b_def [symmetric] e_def [symmetric]
      by (simp add: PM_PAGE_BITS_def push_bit_eq_mult mult.commute)
    then show ?thesis using U by simp
  next
    case False
    have mp: "mask_pages base_addr m = (\<lambda>p. p0 + a \<le> p \<and> p < p0 + e \<and> ba_bit m (p - p0))"
    proof
      fix p show "mask_pages base_addr m p \<longleftrightarrow> p0 + a \<le> p \<and> p < p0 + e \<and> ba_bit m (p - p0)"
        using B(4) [rule_format, of "p - p0"] unfolding mask_pages_def p0_def [symmetric] by auto
    qed
    have be: "p0 + e \<le> NUM_ADDRESS_PAGES" "p0 + a < NUM_ADDRESS_PAGES" using bound B(3,4) i0 by (auto dest!: spec [of _ i0])
    obtain pr1 pm1 where l: "watch_mask_loop track is_read m p0 [a..<e] (no_pending (Perms (cached_pages pm (p0 + a))), pm) = Some (pr1, pm1)"
      "pending_ok (p0 + e) pr1 pm1" "cached_pages pm1 = watch_all track is_read (mask_pages base_addr m) (cached_pages pm)"
      using watch_mask_loop_ok [OF B(2,3) be(1) pending_ok_start [OF pm(1)], of track is_read] pm(2) unfolding mp by blast
    obtain pr2 pm2 where r: "release_pending pr1 pm1 = Some (pr2, pm2)" "cached_pages pm2 = cached_pages pm1" "pages_protected pm2"
      using release_pending_ok [OF l(2)] by blast
    have "drop_bit PM_PAGE_BITS base_addr = p0" by (simp add: p0(1) PM_PAGE_BITS_def drop_bit_eq_div)
    then have "UpdatePageWatchersForRegion avx track is_read base_addr m pm = Some pm2"
      using False l(1) r(1) be(2) p0(2) unfolding UpdatePageWatchersForRegion_def Let_def a_def [symmetric] b_def [symmetric] e_def [symmetric]
      by simp
    then show ?thesis using r l(3) by auto
  qed
qed

section \<open>Properties\<close>

text \<open>
  C34. If the host protection of every page agrees with its watch counts, and the pages of the mask may be
  (un)watched, then \<open>UpdatePageWatchersForRegion\<close> returns, changes the counts of exactly the pages of the mask by one and
  leaves the host protection of every page in agreement again: merging neighbouring pages into
  one host call never gives a page the protection of another.
\<close>

theorem UpdatePageWatchersForRegion_correct:
  assumes "ba_Any m" "2 ^ 22 dvd base_addr" "base_addr + 4096 * ba_size m \<le> 2 ^ 40"
    and "pages_protected pm" "watch_allowed track is_read (mask_pages base_addr m) (cached_pages pm)"
  shows "\<exists>pm'. UpdatePageWatchersForRegion avx track is_read base_addr m pm = Some pm'
    \<and> cached_pages pm' = watch_all track is_read (mask_pages base_addr m) (cached_pages pm) \<and> pages_protected pm'"
  by (rule UpdatePageWatchersForRegion_ok [OF assms])

theorem UpdatePageWatchersForRegion_correct_witness:
  "\<exists>pm'. UpdatePageWatchersForRegion True True False 4194304 [5, 0]
       \<lparr>cached_pages = (\<lambda>_. \<lparr>num_write_watchers = 0, num_read_watchers = 0\<rparr>), protect_calls = []\<rparr> = Some pm' \<and> pages_protected pm'"
proof -
  let ?pm = "\<lparr>cached_pages = (\<lambda>_. \<lparr>num_write_watchers = 0, num_read_watchers = 0\<rparr>), protect_calls = []\<rparr>"
  have m: "ba_Any [5, 0]" by code_simp
  have pm: "pages_protected ?pm"
    by (simp add: pages_protected_def host_perms_def Perms_def ReadPerm_def WritePerm_def MemoryPermission_defs)
  have w: "watch_allowed True False (mask_pages 4194304 [5, 0]) (cached_pages ?pm)"
    by (simp add: watch_allowed_def watch_pre_def watched_def Perms_def ReadPerm_def WritePerm_def MemoryPermission_defs)
  show ?thesis using UpdatePageWatchersForRegion_correct [OF m _ _ pm w, of True] by (auto simp: ba_size_def)
qed

text \<open>
  The counters are bounded: watching a page for writing 127 times already makes the next watch wrap the 7-bit count to
  zero, which gives the page back its write permission although it is watched; taking a watch off a page that
  has none is caught by the assertion.
\<close>

lemma AddDelta_bounds:
  "(unat (num_write_watchers s) < 127 \<longrightarrow> (\<exists>s'. AddDelta 1 False s = Some (unat (num_write_watchers s) + 1, s') \<and> WritePerm s' = 0))
   \<and> (unat (num_write_watchers s) = 127 \<longrightarrow> (\<exists>s'. AddDelta 1 False s = Some (0, s') \<and> WritePerm s' = MemoryPermission_Write))
   \<and> (num_write_watchers s = 0 \<longrightarrow> AddDelta (-1) False s = None)"
proof (intro conjI impI)
  let ?w = "num_write_watchers s"
  assume l: "unat ?w < 127"
  have u: "unat (?w + 1) = unat ?w + 1" using l by (subst unat_add_lem [THEN iffD1]) auto
  then have "?w + 1 \<noteq> 0" by (metis add_is_0 one_neq_zero unat_0)
  then show "\<exists>s'. AddDelta 1 False s = Some (unat ?w + 1, s') \<and> WritePerm s' = 0"
    using u by (simp add: AddDelta_def Let_def WritePerm_def)
next
  let ?w = "num_write_watchers s"
  assume "unat ?w = 127"
  then have "of_nat (unat ?w) = (127 :: 7 word)" by simp
  then have "?w = 127" by simp
  then have "?w + 1 = 0" by simp
  then show "\<exists>s'. AddDelta 1 False s = Some (0, s') \<and> WritePerm s' = MemoryPermission_Write"
    by (simp add: AddDelta_def Let_def WritePerm_def)
next
  assume "num_write_watchers s = 0"
  then show "AddDelta (-1) False s = None" by (simp add: AddDelta_def)
qed

end
