(* ===== verification/Memory_Tracker.thy ===== *)
theory Memory_Tracker
  imports Page_Manager
begin

text \<open>
  Tracking of CPU and GPU modifications of guest memory: \<open>RegionManager\<close>
  (\<^verbatim>\<open>src/src/video_core/buffer_cache/region_manager.h\<close>), four bit arrays over the 1024 pages of a 4 MB region, and
  \<open>MemoryTracker\<close> (\<^verbatim>\<open>memory_tracker.h\<close>), which creates a manager per region on demand and splits a
  range of guest memory into the parts of its regions.  The template parameters of the source are
  arguments; \<open>tracker_env\<close> holds what the code reads from its build and from the settings.  A callback that the
  source invokes (\<open>func\<close>, \<open>on_upload\<close>) is a recorded call; the lock of a manager is a flag, and taking a lock that is held is \<open>None\<close>.
\<close>

section \<open>Regions\<close>

definition TRACKER_BYTES_PER_PAGE :: u64 where "TRACKER_BYTES_PER_PAGE = 4096"
definition TRACKER_HIGHER_PAGE_BITS :: nat where "TRACKER_HIGHER_PAGE_BITS = 22"
definition TRACKER_HIGHER_PAGE_SIZE :: u64 where "TRACKER_HIGHER_PAGE_SIZE = 2 ^ 22"
definition NUM_PAGES_PER_REGION :: nat where "NUM_PAGES_PER_REGION = TRACKER_HIGHER_PAGE_SIZE div TRACKER_BYTES_PER_PAGE"

datatype Type = Type_CPU | Type_GPU
datatype GpuReadbacksMode = Readbacks_Disabled | Readbacks_Relaxed | Readbacks_Precise

record tracker_env =
  use_avx :: bool
  readbacks_mode :: GpuReadbacksMode

record RegionManager =
  rm_cpu_addr :: u64
  rm_cpu :: bit_array
  rm_gpu :: bit_array
  rm_writeable :: bit_array
  rm_readable :: bit_array
  rm_lock :: bool

definition empty_bits :: bit_array where
  "empty_bits = replicate (NUM_PAGES_PER_REGION div 64) 0"

definition RegionManager_init :: "u64 \<Rightarrow> RegionManager" where
  "RegionManager_init cpu_addr =
     \<lparr>rm_cpu_addr = cpu_addr, rm_cpu = ba_Fill empty_bits, rm_gpu = ba_Clear empty_bits,
      rm_writeable = ba_Fill empty_bits, rm_readable = ba_Fill empty_bits, rm_lock = False\<rparr>"

definition SanitizeAddress :: "u64 \<Rightarrow> u64" where
  "SanitizeAddress address = nat (max (s64_of_u64 address) 0)"

definition GetRegionBits :: "Type \<Rightarrow> RegionManager \<Rightarrow> bit_array" where
  "GetRegionBits type rm = (case type of Type_CPU \<Rightarrow> rm_cpu rm | Type_GPU \<Rightarrow> rm_gpu rm)"

definition set_region_bits :: "Type \<Rightarrow> bit_array \<Rightarrow> RegionManager \<Rightarrow> RegionManager" where
  "set_region_bits type bits rm = (case type of Type_CPU \<Rightarrow> rm\<lparr>rm_cpu := bits\<rparr> | Type_GPU \<Rightarrow> rm\<lparr>rm_gpu := bits\<rparr>)"

definition start_page :: "u64 \<Rightarrow> nat" where
  "start_page offset = SanitizeAddress offset div TRACKER_BYTES_PER_PAGE"

definition end_page :: "u64 \<Rightarrow> u64 \<Rightarrow> nat" where
  "end_page offset sz = DivCeil (SanitizeAddress (add64 offset sz)) TRACKER_BYTES_PER_PAGE"

definition UpdateProtection :: "tracker_env \<Rightarrow> bool \<Rightarrow> bool \<Rightarrow> RegionManager \<times> PageManager \<Rightarrow> (RegionManager \<times> PageManager) option" where
  "UpdateProtection env track is_read = (\<lambda>(rm, pm).
     let bits = (if is_read then ba_xor (ba_not (rm_gpu rm)) (rm_readable rm) else ba_xor (rm_cpu rm) (rm_writeable rm))
     in if ba_None bits then Some (rm, pm)
        else let rm' = (if is_read then rm\<lparr>rm_readable := ba_not (rm_gpu rm)\<rparr> else rm\<lparr>rm_writeable := rm_cpu rm\<rparr>)
             in do {
               pm' \<leftarrow> UpdatePageWatchersForRegion (use_avx env) track is_read (rm_cpu_addr rm) bits pm;
               Some (rm', pm')
             })"

definition ChangeRegionState ::
  "tracker_env \<Rightarrow> Type \<Rightarrow> bool \<Rightarrow> u64 \<Rightarrow> u64 \<Rightarrow> RegionManager \<times> PageManager \<Rightarrow> (RegionManager \<times> PageManager) option" where
  "ChangeRegionState env type enable dirty_addr sz = (\<lambda>(rm, pm).
     let offset = sub64 dirty_addr (rm_cpu_addr rm); st = start_page offset; en = end_page offset sz
     in if st \<ge> NUM_PAGES_PER_REGION \<or> en \<le> st then Some (rm, pm)
        else let bits = GetRegionBits type rm;
                 bits' = (if enable then ba_SetRange (use_avx env) bits st en else ba_UnsetRange (use_avx env) bits st en);
                 rm' = set_region_bits type bits' rm
             in if type = Type_CPU then UpdateProtection env (\<not> enable) False (rm', pm)
                else if readbacks_mode env = Readbacks_Precise then UpdateProtection env enable True (rm', pm)
                else Some (rm', pm))"

definition range_call :: "u64 \<Rightarrow> bit_range \<Rightarrow> u64 \<times> u64" where
  "range_call cpu_addr r = (add64 cpu_addr (fst r * TRACKER_BYTES_PER_PAGE), (snd r - fst r) * TRACKER_BYTES_PER_PAGE)"

definition ForEachModifiedRange ::
  "tracker_env \<Rightarrow> Type \<Rightarrow> bool \<Rightarrow> u64 \<Rightarrow> u64 \<Rightarrow> RegionManager \<times> PageManager
     \<Rightarrow> ((u64 \<times> u64) list \<times> RegionManager \<times> PageManager) option" where
  "ForEachModifiedRange env type clear query_cpu_range sz = (\<lambda>(rm, pm).
     let offset = sub64 query_cpu_range (rm_cpu_addr rm); st = start_page offset; en = end_page offset sz
     in if st \<ge> NUM_PAGES_PER_REGION \<or> en \<le> st then Some ([], rm, pm)
        else do {
          let bits = GetRegionBits type rm;
          let modified = ba_copy_range (use_avx env) bits st en;
          (rm', pm') \<leftarrow>
            (if clear
             then let rm1 = set_region_bits type (ba_UnsetRange (use_avx env) bits st en) rm
                  in if type = Type_CPU then UpdateProtection env True False (rm1, pm)
                     else if readbacks_mode env \<noteq> Readbacks_Disabled then UpdateProtection env False True (rm1, pm)
                     else Some (rm1, pm)
             else Some (rm, pm));
          Some (map (range_call (rm_cpu_addr rm')) (ba_ranges (use_avx env) modified 0), rm', pm')
        })"

definition IsRegionModified :: "tracker_env \<Rightarrow> Type \<Rightarrow> u64 \<Rightarrow> u64 \<Rightarrow> RegionManager \<Rightarrow> bool" where
  "IsRegionModified env type offset sz rm =
     (let st = start_page offset; en = end_page offset sz
      in if st \<ge> NUM_PAGES_PER_REGION \<or> en \<le> st then False
         else ba_Any (ba_copy_range (use_avx env) (GetRegionBits type rm) st en))"

section \<open>The tracker\<close>

definition NUM_HIGH_PAGES :: nat where "NUM_HIGH_PAGES = 2 ^ 18"
definition MANAGER_POOL_SIZE :: nat where "MANAGER_POOL_SIZE = 32"

text \<open>\<open>manager_pool\<close> is the deque of pools in one list, and a pointer to a manager is its position there.\<close>

record MemoryTracker =
  manager_pool :: "RegionManager list"
  free_managers :: "nat list"
  top_tier :: "nat \<Rightarrow> nat option"
  page_tracker :: PageManager

definition MemoryTracker_init :: "PageManager \<Rightarrow> MemoryTracker" where
  "MemoryTracker_init pm = \<lparr>manager_pool = [], free_managers = [], top_tier = (\<lambda>_. None), page_tracker = pm\<rparr>"

definition grow_pool :: "MemoryTracker \<Rightarrow> MemoryTracker" where
  "grow_pool mt =
     (if free_managers mt = []
      then mt\<lparr>manager_pool := manager_pool mt @ replicate MANAGER_POOL_SIZE (RegionManager_init 0),
              free_managers := [length (manager_pool mt)..<length (manager_pool mt) + MANAGER_POOL_SIZE]\<rparr>
      else mt)"

definition CreateRegion :: "nat \<Rightarrow> MemoryTracker \<Rightarrow> MemoryTracker" where
  "CreateRegion page_index mt =
     (let base_cpu_addr = push_bit TRACKER_HIGHER_PAGE_BITS page_index;
          mt1 = grow_pool mt; new_manager = last (free_managers mt1)
      in mt1\<lparr>manager_pool := (manager_pool mt1)[new_manager := (manager_pool mt1 ! new_manager)\<lparr>rm_cpu_addr := base_cpu_addr\<rparr>],
             free_managers := butlast (free_managers mt1),
             top_tier := (top_tier mt1)(page_index := Some new_manager)\<rparr>)"

type_synonym 'x region_func = "nat \<Rightarrow> u64 \<Rightarrow> u64 \<Rightarrow> 'x \<times> MemoryTracker \<Rightarrow> (bool \<times> 'x \<times> MemoryTracker) option"

function iterate_loop :: "bool \<Rightarrow> 'x region_func \<Rightarrow> nat \<Rightarrow> u64 \<Rightarrow> u64 \<Rightarrow> 'x \<times> MemoryTracker \<Rightarrow> (bool \<times> 'x \<times> MemoryTracker) option" where
  "iterate_loop create_region_on_fail func page_index page_offset remaining_size st =
     (if remaining_size > 0
      then if page_index \<ge> NUM_HIGH_PAGES then None
      else do {
        let copy_amount = min (TRACKER_HIGHER_PAGE_SIZE - page_offset) remaining_size;
        (stop, st') \<leftarrow>
          (case top_tier (snd st) page_index of
             Some manager \<Rightarrow> func manager page_offset copy_amount st
           | None \<Rightarrow>
               if create_region_on_fail
               then let mt' = CreateRegion page_index (snd st)
                    in func (the (top_tier mt' page_index)) page_offset copy_amount (fst st, mt')
               else Some (False, st));
        if stop then Some (True, st')
        else iterate_loop create_region_on_fail func (page_index + 1) 0 (remaining_size - copy_amount) st'
      }
      else Some (False, st))"
  by auto
termination by (relation "measure (\<lambda>(_, _, page_index, _, _, _). NUM_HIGH_PAGES - page_index)") auto

declare iterate_loop.simps [simp del]

definition IteratePages :: "bool \<Rightarrow> 'x region_func \<Rightarrow> u64 \<Rightarrow> u64 \<Rightarrow> 'x \<times> MemoryTracker \<Rightarrow> (bool \<times> 'x \<times> MemoryTracker) option" where
  "IteratePages create_region_on_fail func cpu_address sz st =
     iterate_loop create_region_on_fail func (drop_bit TRACKER_HIGHER_PAGE_BITS cpu_address)
       (cpu_address AND (TRACKER_HIGHER_PAGE_SIZE - 1)) sz st"

definition lock_manager :: "nat \<Rightarrow> MemoryTracker \<Rightarrow> MemoryTracker option" where
  "lock_manager i mt = do {
     assert_opt (\<not> rm_lock (manager_pool mt ! i));
     Some (mt\<lparr>manager_pool := (manager_pool mt)[i := (manager_pool mt ! i)\<lparr>rm_lock := True\<rparr>]\<rparr>)
   }"

definition unlock_manager :: "nat \<Rightarrow> MemoryTracker \<Rightarrow> MemoryTracker" where
  "unlock_manager i mt = mt\<lparr>manager_pool := (manager_pool mt)[i := (manager_pool mt ! i)\<lparr>rm_lock := False\<rparr>]\<rparr>"

definition put_manager :: "nat \<Rightarrow> RegionManager \<times> PageManager \<Rightarrow> MemoryTracker \<Rightarrow> MemoryTracker" where
  "put_manager i = (\<lambda>(rm, pm) mt. mt\<lparr>manager_pool := (manager_pool mt)[i := rm], page_tracker := pm\<rparr>)"

definition manager_state :: "nat \<Rightarrow> MemoryTracker \<Rightarrow> RegionManager \<times> PageManager" where
  "manager_state i mt = (manager_pool mt ! i, page_tracker mt)"

definition manager_addr :: "nat \<Rightarrow> u64 \<Rightarrow> MemoryTracker \<Rightarrow> u64" where
  "manager_addr i offset mt = add64 (rm_cpu_addr (manager_pool mt ! i)) offset"

definition IsRegion_Modified :: "tracker_env \<Rightarrow> bool \<Rightarrow> Type \<Rightarrow> u64 \<Rightarrow> u64 \<Rightarrow> MemoryTracker \<Rightarrow> (bool \<times> MemoryTracker) option" where
  "IsRegion_Modified env create type query_cpu_addr query_size mt =
     map_option (\<lambda>(b, _, mt'). (b, mt'))
       (IteratePages create
          (\<lambda>manager offset sz (x, mt). do {
             mt1 \<leftarrow> lock_manager manager mt;
             Some (IsRegionModified env type offset sz (manager_pool mt1 ! manager), x, unlock_manager manager mt1)
           })
          query_cpu_addr query_size ((), mt))"

definition IsRegionCpuModified :: "tracker_env \<Rightarrow> u64 \<Rightarrow> u64 \<Rightarrow> MemoryTracker \<Rightarrow> (bool \<times> MemoryTracker) option" where
  "IsRegionCpuModified env query_cpu_addr query_size mt = IsRegion_Modified env True Type_CPU query_cpu_addr query_size mt"

definition IsRegionGpuModified :: "tracker_env \<Rightarrow> u64 \<Rightarrow> u64 \<Rightarrow> MemoryTracker \<Rightarrow> (bool \<times> MemoryTracker) option" where
  "IsRegionGpuModified env query_cpu_addr query_size mt = IsRegion_Modified env False Type_GPU query_cpu_addr query_size mt"

definition change_state :: "tracker_env \<Rightarrow> Type \<Rightarrow> bool \<Rightarrow> nat \<Rightarrow> u64 \<Rightarrow> u64 \<Rightarrow> MemoryTracker \<Rightarrow> MemoryTracker option" where
  "change_state env type enable manager offset sz mt = do {
     s \<leftarrow> ChangeRegionState env type enable (manager_addr manager offset mt) sz (manager_state manager mt);
     Some (put_manager manager s mt)
   }"

definition mark_region :: "tracker_env \<Rightarrow> Type \<Rightarrow> bool \<Rightarrow> u64 \<Rightarrow> u64 \<Rightarrow> MemoryTracker \<Rightarrow> MemoryTracker option" where
  "mark_region env type enable dirty_cpu_addr query_size mt =
     map_option (\<lambda>(_, _, mt'). mt')
       (IteratePages False
          (\<lambda>manager offset sz (x, mt). do {
             mt1 \<leftarrow> lock_manager manager mt;
             mt2 \<leftarrow> change_state env type enable manager offset sz mt1;
             Some (False, x, unlock_manager manager mt2)
           })
          dirty_cpu_addr query_size ((), mt))"

definition MarkRegionAsCpuModified :: "tracker_env \<Rightarrow> u64 \<Rightarrow> u64 \<Rightarrow> MemoryTracker \<Rightarrow> MemoryTracker option" where
  "MarkRegionAsCpuModified env dirty_cpu_addr query_size mt = mark_region env Type_CPU True dirty_cpu_addr query_size mt"

definition UnmarkRegionAsGpuModified :: "tracker_env \<Rightarrow> u64 \<Rightarrow> u64 \<Rightarrow> MemoryTracker \<Rightarrow> MemoryTracker option" where
  "UnmarkRegionAsGpuModified env dirty_cpu_addr query_size mt = mark_region env Type_GPU False dirty_cpu_addr query_size mt"

text \<open>\<open>on_flush\<close> is the caller's function; it runs after the lock of the manager is released and may change the caller's own state.\<close>

definition InvalidateRegion ::
  "tracker_env \<Rightarrow> ('x \<times> MemoryTracker \<Rightarrow> ('x \<times> MemoryTracker) option) \<Rightarrow> u64 \<Rightarrow> u64 \<Rightarrow> 'x \<times> MemoryTracker \<Rightarrow> ('x \<times> MemoryTracker) option" where
  "InvalidateRegion env on_flush cpu_addr sz st =
     map_option snd
       (IteratePages False
          (\<lambda>manager offset sz (x, mt). do {
             mt1 \<leftarrow> lock_manager manager mt;
             (should_flush, mt2) \<leftarrow>
               (if readbacks_mode env \<noteq> Readbacks_Disabled \<and> IsRegionModified env Type_GPU offset sz (manager_pool mt1 ! manager)
                then Some (True, mt1)
                else do {
                  mt' \<leftarrow> change_state env Type_CPU True manager offset sz mt1;
                  Some (False, mt')
                });
             let mt3 = unlock_manager manager mt2;
             st' \<leftarrow> (if should_flush then on_flush (x, mt3) else Some (x, mt3));
             Some (False, st')
           })
          cpu_addr sz st)"

datatype tracker_call = Func u64 u64 | OnUpload

definition for_each_modified ::
  "tracker_env \<Rightarrow> Type \<Rightarrow> bool \<Rightarrow> nat \<Rightarrow> u64 \<Rightarrow> u64 \<Rightarrow> tracker_call list \<times> MemoryTracker \<Rightarrow> (tracker_call list \<times> MemoryTracker) option" where
  "for_each_modified env type clear manager offset sz = (\<lambda>(calls, mt). do {
     (ranges, s) \<leftarrow> ForEachModifiedRange env type clear (manager_addr manager offset mt) sz (manager_state manager mt);
     Some (calls @ map (\<lambda>(a, n). Func a n) ranges, put_manager manager s mt)
   })"

definition upload_pass :: "tracker_env \<Rightarrow> bool \<Rightarrow> tracker_call list region_func" where
  "upload_pass env is_written = (\<lambda>manager offset sz (calls, mt). do {
     mt1 \<leftarrow> lock_manager manager mt;
     (calls', mt2) \<leftarrow> for_each_modified env Type_CPU True manager offset sz (calls, mt1);
     Some (False, calls', if is_written then mt2 else unlock_manager manager mt2)
   })"

definition written_pass :: "tracker_env \<Rightarrow> tracker_call list region_func" where
  "written_pass env = (\<lambda>manager offset sz (calls, mt). do {
     mt1 \<leftarrow> change_state env Type_GPU True manager offset sz mt;
     Some (False, calls, unlock_manager manager mt1)
   })"

definition ForEachUploadRange ::
  "tracker_env \<Rightarrow> u64 \<Rightarrow> u64 \<Rightarrow> bool \<Rightarrow> MemoryTracker \<Rightarrow> (tracker_call list \<times> MemoryTracker) option" where
  "ForEachUploadRange env query_cpu_range query_size is_written mt = do {
     (_, calls, mt1) \<leftarrow> IteratePages True (upload_pass env is_written) query_cpu_range query_size ([], mt);
     let calls1 = calls @ [OnUpload];
     if \<not> is_written then Some (calls1, mt1)
     else do {
       (_, calls2, mt2) \<leftarrow> IteratePages False (written_pass env) query_cpu_range query_size (calls1, mt1);
       Some (calls2, mt2)
     }
   }"

definition ForEachDownloadRange ::
  "tracker_env \<Rightarrow> bool \<Rightarrow> u64 \<Rightarrow> u64 \<Rightarrow> MemoryTracker \<Rightarrow> (tracker_call list \<times> MemoryTracker) option" where
  "ForEachDownloadRange env clear query_cpu_range query_size mt =
     map_option (\<lambda>(_, calls, mt'). (calls, mt'))
       (IteratePages False
          (\<lambda>manager offset sz (calls, mt). do {
             mt1 \<leftarrow> lock_manager manager mt;
             (calls', mt2) \<leftarrow> for_each_modified env Type_GPU clear manager offset sz (calls, mt1);
             Some (False, calls', unlock_manager manager mt2)
           })
          query_cpu_range query_size ([], mt))"

end
