(* ===== verification/Tracker_Regions.thy ===== *)
theory Tracker_Regions
  imports Memory_Tracker
begin

text \<open>
  What the operations of one \<open>RegionManager\<close> do: the bits they change, the watch counts of the pages and the
  agreement of both (\<open>region_state\<close>), for every type, direction and readback mode.
\<close>

definition touched :: "u64 \<Rightarrow> u64 \<Rightarrow> nat \<Rightarrow> bool" where
  "touched addr sz p \<longleftrightarrow> (\<exists>x. addr \<le> x \<and> x < addr + sz \<and> x div 4096 = p)"

definition watch_state :: "tracker_env \<Rightarrow> nat \<Rightarrow> bool \<Rightarrow> bool \<Rightarrow> PageState \<Rightarrow> bool" where
  "watch_state env others c g s \<longleftrightarrow>
     others \<le> 126 \<and> unat (num_write_watchers s) = others + (if c then 0 else 1)
   \<and> num_read_watchers s = (if readbacks_mode env = Readbacks_Precise \<and> g then 1 else 0)
   \<and> \<not> (readbacks_mode env = Readbacks_Precise \<and> g \<and> c)"

definition region_ok :: "tracker_env \<Rightarrow> RegionManager \<Rightarrow> bool" where
  "region_ok env rm \<longleftrightarrow> length (rm_cpu rm) = 16 \<and> length (rm_gpu rm) = 16 \<and> rm_writeable rm = rm_cpu rm
     \<and> rm_readable rm = (if readbacks_mode env = Readbacks_Precise then ba_not (rm_gpu rm) else ba_Fill empty_bits)"

definition region_state :: "tracker_env \<Rightarrow> (nat \<Rightarrow> nat) \<Rightarrow> nat \<Rightarrow> RegionManager \<Rightarrow> PageManager \<Rightarrow> bool" where
  "region_state env others q rm pm \<longleftrightarrow> region_ok env rm \<and> rm_cpu_addr rm = q * 2 ^ 22 \<and> q < 2 ^ 18 \<and> pages_protected pm
     \<and> (\<forall>p. p div 1024 = q \<longrightarrow> watch_state env (others p) (ba_bit (rm_cpu rm) (p mod 1024)) (ba_bit (rm_gpu rm) (p mod 1024)) (cached_pages pm p))"

lemma mask_pages_region:
  assumes "length m = 16"
  shows "mask_pages (q * 2 ^ 22) m p \<longleftrightarrow> p div 1024 = q \<and> ba_bit m (p mod 1024)"
proof -
  have b: "q * 2 ^ 22 div 4096 = q * 1024" by simp
  have lim: "ba_bit m i \<Longrightarrow> i < 1024" for i using ba_bit_bound [of m i] assms by (simp add: ba_size_def)
  show ?thesis
  proof (cases "p div 1024 = q")
    case True
    then have "p = q * 1024 + p mod 1024" by (metis div_mult_mod_eq)
    then show ?thesis using True unfolding mask_pages_def b by (metis add_diff_cancel_left' le_add1)
  next
    case False
    have "\<not> (q * 1024 \<le> p \<and> ba_bit m (p - q * 1024))"
    proof
      assume "q * 1024 \<le> p \<and> ba_bit m (p - q * 1024)"
      then have "q * 1024 \<le> p" "p < q * 1024 + 1024" using lim [of "p - q * 1024"] by auto
      then have "p div 1024 = q" by (intro div_nat_eqI) (simp_all add: mult.commute)
      then show False using False by simp
    qed
    then show ?thesis using False unfolding mask_pages_def b by simp
  qed
qed

lemma ba_None_empty: "ba_None m \<Longrightarrow> mask_pages b m p = False"
  by (simp add: mask_pages_def ba_None_bits)

lemma UpdateProtection_ok:
  assumes rm: "length (rm_cpu rm) = 16" "length (rm_gpu rm) = 16" "length (rm_writeable rm) = 16" "length (rm_readable rm) = 16"
    "rm_cpu_addr rm = q * 2 ^ 22" "q < 2 ^ 18"
    and bits: "bits = (if is_read then ba_xor (ba_not (rm_gpu rm)) (rm_readable rm) else ba_xor (rm_cpu rm) (rm_writeable rm))"
    and pm: "pages_protected pm" "watch_allowed track is_read (\<lambda>p. p div 1024 = q \<and> ba_bit bits (p mod 1024)) (cached_pages pm)"
  shows "\<exists>pm'. UpdateProtection env track is_read (rm, pm) =
      Some (if is_read then rm\<lparr>rm_readable := ba_not (rm_gpu rm)\<rparr> else rm\<lparr>rm_writeable := rm_cpu rm\<rparr>, pm')
    \<and> cached_pages pm' = watch_all track is_read (\<lambda>p. p div 1024 = q \<and> ba_bit bits (p mod 1024)) (cached_pages pm)
    \<and> pages_protected pm'"
proof -
  have l: "length bits = 16" using rm by (simp add: bits)
  have mp: "mask_pages (q * 2 ^ 22) bits = (\<lambda>p. p div 1024 = q \<and> ba_bit bits (p mod 1024))"
    using mask_pages_region [OF l] by (auto simp: fun_eq_iff)
  show ?thesis
  proof (cases "ba_None bits")
    case True
    have no: "\<not> ba_bit bits i" for i using True by (simp add: ba_None_bits)
    have "(if is_read then rm\<lparr>rm_readable := ba_not (rm_gpu rm)\<rparr> else rm\<lparr>rm_writeable := rm_cpu rm\<rparr>) = rm"
    proof (cases is_read)
      case True
      then have "ba_not (rm_gpu rm) = rm_readable rm" using no rm by (intro ba_eqI) (auto simp: bits ba_op_bits)
      then show ?thesis using True by simp
    next
      case False
      then have "rm_cpu rm = rm_writeable rm" using no rm by (intro ba_eqI) (auto simp: bits ba_op_bits)
      then show ?thesis using False by simp
    qed
    moreover have "watch_all track is_read (\<lambda>p. p div 1024 = q \<and> ba_bit bits (p mod 1024)) (cached_pages pm) = cached_pages pm"
      by (simp add: watch_all_def no fun_eq_iff)
    ultimately show ?thesis using True pm(1) by (simp add: UpdateProtection_def bits [symmetric] Let_def)
  next
    case False
    then have any: "ba_Any bits" by (simp add: ba_Any_def)
    have dvd: "2 ^ 22 dvd q * 2 ^ 22" by simp
    have "(q + 1) * 2 ^ 22 \<le> 2 ^ 18 * (2 ^ 22 :: nat)" using rm(6) by (intro mult_right_mono) auto
    then have lim: "q * 2 ^ 22 + 4096 * ba_size bits \<le> 2 ^ 40" by (simp add: ba_size_def l)
    note U = UpdatePageWatchersForRegion_ok [OF any dvd lim pm(1), of track is_read, unfolded mp, OF pm(2), of "use_avx env"]
    then obtain pm' where "UpdatePageWatchersForRegion (use_avx env) track is_read (q * 2 ^ 22) bits pm = Some pm'"
      "cached_pages pm' = watch_all track is_read (\<lambda>p. p div 1024 = q \<and> ba_bit bits (p mod 1024)) (cached_pages pm)" "pages_protected pm'"
      by blast
    then show ?thesis using False rm(5) by (simp add: UpdateProtection_def bits [symmetric] Let_def)
  qed
qed

lemma word7_pos: "unat (w :: 7 word) = n + 1 \<Longrightarrow> w \<noteq> 0" "unat w = 0 \<longleftrightarrow> w = 0"
  by (auto simp: unat_eq_0)

lemma watch_state_cpu:
  assumes s: "watch_state env o1 c g s" and e: "c \<noteq> enable"
    and g: "enable \<longrightarrow> \<not> (readbacks_mode env = Readbacks_Precise \<and> g)"
  shows "watch_pre (\<not> enable) False s" "Perms (watched (\<not> enable) False s) \<noteq> MemoryPermission_Write"
    "watch_state env o1 enable g (watched (\<not> enable) False s)"
proof -
  let ?w = "num_write_watchers s"
  have add: "unat (?w + 1) = unat ?w + 1" if "\<not> enable"
    using s e that by (subst unat_add_lem [THEN iffD1]) (auto simp: watch_state_def)
  have sub: "?w \<noteq> 0" "unat (?w - 1) = unat ?w - 1" if "enable"
  proof -
    show nz: "?w \<noteq> 0" using s e that by (auto simp: watch_state_def)
    then show "unat (?w - 1) = unat ?w - 1" by (simp add: unat_minus_one)
  qed
  show "watch_pre (\<not> enable) False s" using s e sub(1) by (cases enable) (auto simp: watch_pre_def watch_state_def)
  have "?w + 1 \<noteq> 0" if "\<not> enable" using add [OF that] by (metis add_is_0 one_neq_zero unat_0)
  moreover have "num_read_watchers s = 0" if enable using s g that by (auto simp: watch_state_def)
  ultimately show "Perms (watched (\<not> enable) False s) \<noteq> MemoryPermission_Write"
    by (cases enable) (auto simp: watched_def Perms_def ReadPerm_def WritePerm_def MemoryPermission_defs)
  show "watch_state env o1 enable g (watched (\<not> enable) False s)"
    using s e g add sub by (cases enable) (auto simp: watch_state_def watched_def)
qed

lemma watch_state_gpu:
  assumes s: "watch_state env o1 c g s" and e: "g \<noteq> enable" and m: "readbacks_mode env = Readbacks_Precise" and c: "enable \<longrightarrow> \<not> c"
  shows "watch_pre enable True s" "Perms (watched enable True s) \<noteq> MemoryPermission_Write"
    "watch_state env o1 c enable (watched enable True s)"
proof -
  show "watch_pre enable True s" using s e m by (auto simp: watch_pre_def watch_state_def)
  have "num_write_watchers s \<noteq> 0" if enable using s that c by (auto simp: watch_state_def)
  then show "Perms (watched enable True s) \<noteq> MemoryPermission_Write"
    by (cases enable) (auto simp: watched_def Perms_def ReadPerm_def WritePerm_def MemoryPermission_defs)
  show "watch_state env o1 c enable (watched enable True s)"
    using s m c by (cases enable) (auto simp: watch_state_def watched_def)
qed

lemma length_empty_bits [simp]: "length empty_bits = 16"
  by (simp add: empty_bits_def NUM_PAGES_PER_REGION_def TRACKER_BYTES_PER_PAGE_def TRACKER_HIGHER_PAGE_SIZE_def)

lemma cpu_change:
  assumes rs: "region_state env others q rm pm" and l: "length bits = 16"
    and dir: "\<forall>i. ba_bit (rm_cpu rm) i \<noteq> ba_bit bits i \<longrightarrow> (ba_bit bits i \<longleftrightarrow> enable)"
    and g: "enable \<longrightarrow> (\<forall>i. ba_bit bits i \<and> \<not> ba_bit (rm_cpu rm) i \<longrightarrow> \<not> (readbacks_mode env = Readbacks_Precise \<and> ba_bit (rm_gpu rm) i))"
  shows "\<exists>pm'. UpdateProtection env (\<not> enable) False (rm\<lparr>rm_cpu := bits\<rparr>, pm) = Some (rm\<lparr>rm_cpu := bits, rm_writeable := bits\<rparr>, pm')
    \<and> region_state env others q (rm\<lparr>rm_cpu := bits, rm_writeable := bits\<rparr>) pm'
    \<and> (\<forall>p. p div 1024 \<noteq> q \<longrightarrow> cached_pages pm' p = cached_pages pm p)"
proof -
  note R = rs [unfolded region_state_def region_ok_def]
  define x where "x = ba_xor bits (rm_cpu rm)"
  have x: "ba_bit x i \<longleftrightarrow> ba_bit bits i \<noteq> ba_bit (rm_cpu rm) i" for i using R l by (simp add: x_def ba_op_bits)
  define upd where "upd p \<longleftrightarrow> p div 1024 = q \<and> ba_bit x (p mod 1024)" for p
  have w: "watch_pre (\<not> enable) False (cached_pages pm p) \<and> Perms (watched (\<not> enable) False (cached_pages pm p)) \<noteq> MemoryPermission_Write
      \<and> watch_state env (others p) (ba_bit bits (p mod 1024)) (ba_bit (rm_gpu rm) (p mod 1024)) (watched (\<not> enable) False (cached_pages pm p))"
    if "upd p" for p
  proof -
    have d: "ba_bit (rm_cpu rm) (p mod 1024) \<noteq> enable" "ba_bit bits (p mod 1024) = enable" using that dir x by (auto simp: upd_def)
    have s: "watch_state env (others p) (ba_bit (rm_cpu rm) (p mod 1024)) (ba_bit (rm_gpu rm) (p mod 1024)) (cached_pages pm p)"
      using R that by (auto simp: upd_def)
    have "enable \<longrightarrow> \<not> (readbacks_mode env = Readbacks_Precise \<and> ba_bit (rm_gpu rm) (p mod 1024))" using g d by auto
    from watch_state_cpu [OF s d(1) this] show ?thesis unfolding d(2) by blast
  qed
  have "watch_allowed (\<not> enable) False upd (cached_pages pm)" using w by (simp add: watch_allowed_def)
  then obtain pm' where u: "UpdateProtection env (\<not> enable) False (rm\<lparr>rm_cpu := bits\<rparr>, pm) = Some (rm\<lparr>rm_cpu := bits, rm_writeable := bits\<rparr>, pm')"
      "cached_pages pm' = watch_all (\<not> enable) False upd (cached_pages pm)" "pages_protected pm'"
  proof -
    have "length (rm_readable rm) = 16" using R by simp
    moreover have "x = (if False then ba_xor (ba_not (rm_gpu (rm\<lparr>rm_cpu := bits\<rparr>))) (rm_readable (rm\<lparr>rm_cpu := bits\<rparr>))
        else ba_xor (rm_cpu (rm\<lparr>rm_cpu := bits\<rparr>)) (rm_writeable (rm\<lparr>rm_cpu := bits\<rparr>)))" using R by (simp add: x_def)
    moreover assume "watch_allowed (\<not> enable) False upd (cached_pages pm)"
    ultimately show ?thesis
      using UpdateProtection_ok [of "rm\<lparr>rm_cpu := bits\<rparr>" q x False pm "\<not> enable" env] R l that
      unfolding upd_def by auto
  qed
  have out: "\<forall>p. p div 1024 \<noteq> q \<longrightarrow> cached_pages pm' p = cached_pages pm p" by (simp add: u(2) watch_all_def upd_def)
  have "watch_state env (others p) (ba_bit bits (p mod 1024)) (ba_bit (rm_gpu rm) (p mod 1024)) (cached_pages pm' p)" if "p div 1024 = q" for p
  proof (cases "upd p")
    case True
    then show ?thesis using w by (simp add: u(2) watch_all_def)
  next
    case False
    then have "ba_bit bits (p mod 1024) = ba_bit (rm_cpu rm) (p mod 1024)" using that x by (simp add: upd_def)
    then show ?thesis using R that False by (simp add: u(2) watch_all_def)
  qed
  then have "region_state env others q (rm\<lparr>rm_cpu := bits, rm_writeable := bits\<rparr>) pm'"
    using R l u(3) by (simp add: region_state_def region_ok_def)
  then show ?thesis using u(1) out by blast
qed

lemma gpu_change:
  assumes rs: "region_state env others q rm pm" and l: "length bits = 16" and m: "readbacks_mode env = Readbacks_Precise"
    and dir: "\<forall>i. ba_bit (rm_gpu rm) i \<noteq> ba_bit bits i \<longrightarrow> (ba_bit bits i \<longleftrightarrow> enable)"
    and c: "enable \<longrightarrow> (\<forall>i. ba_bit bits i \<and> \<not> ba_bit (rm_gpu rm) i \<longrightarrow> \<not> ba_bit (rm_cpu rm) i)"
  shows "\<exists>pm'. UpdateProtection env enable True (rm\<lparr>rm_gpu := bits\<rparr>, pm) = Some (rm\<lparr>rm_gpu := bits, rm_readable := ba_not bits\<rparr>, pm')
    \<and> region_state env others q (rm\<lparr>rm_gpu := bits, rm_readable := ba_not bits\<rparr>) pm'
    \<and> (\<forall>p. p div 1024 \<noteq> q \<longrightarrow> cached_pages pm' p = cached_pages pm p)"
proof -
  note R = rs [unfolded region_state_def region_ok_def]
  define x where "x = ba_xor (ba_not bits) (ba_not (rm_gpu rm))"
  have x: "ba_bit x i \<longleftrightarrow> ba_bit bits i \<noteq> ba_bit (rm_gpu rm) i" for i
    using R l ba_bit_bound [of bits i] ba_bit_bound [of "rm_gpu rm" i] by (auto simp: x_def ba_op_bits ba_size_def)
  define upd where "upd p \<longleftrightarrow> p div 1024 = q \<and> ba_bit x (p mod 1024)" for p
  have w: "watch_pre enable True (cached_pages pm p) \<and> Perms (watched enable True (cached_pages pm p)) \<noteq> MemoryPermission_Write
      \<and> watch_state env (others p) (ba_bit (rm_cpu rm) (p mod 1024)) (ba_bit bits (p mod 1024)) (watched enable True (cached_pages pm p))"
    if "upd p" for p
  proof -
    have d: "ba_bit (rm_gpu rm) (p mod 1024) \<noteq> enable" "ba_bit bits (p mod 1024) = enable" using that dir x by (auto simp: upd_def)
    have s: "watch_state env (others p) (ba_bit (rm_cpu rm) (p mod 1024)) (ba_bit (rm_gpu rm) (p mod 1024)) (cached_pages pm p)"
      using R that by (auto simp: upd_def)
    have "enable \<longrightarrow> \<not> ba_bit (rm_cpu rm) (p mod 1024)" using c d by auto
    from watch_state_gpu [OF s d(1) m this] show ?thesis unfolding d(2) by blast
  qed
  have "watch_allowed enable True upd (cached_pages pm)" using w by (simp add: watch_allowed_def)
  then obtain pm' where u: "UpdateProtection env enable True (rm\<lparr>rm_gpu := bits\<rparr>, pm) = Some (rm\<lparr>rm_gpu := bits, rm_readable := ba_not bits\<rparr>, pm')"
      "cached_pages pm' = watch_all enable True upd (cached_pages pm)" "pages_protected pm'"
    using UpdateProtection_ok [of "rm\<lparr>rm_gpu := bits\<rparr>" q x True pm enable env] R l m unfolding upd_def x_def by auto
  have out: "\<forall>p. p div 1024 \<noteq> q \<longrightarrow> cached_pages pm' p = cached_pages pm p" by (simp add: u(2) watch_all_def upd_def)
  have "watch_state env (others p) (ba_bit (rm_cpu rm) (p mod 1024)) (ba_bit bits (p mod 1024)) (cached_pages pm' p)" if "p div 1024 = q" for p
  proof (cases "upd p")
    case True
    then show ?thesis using w by (simp add: u(2) watch_all_def)
  next
    case False
    then have "ba_bit bits (p mod 1024) = ba_bit (rm_gpu rm) (p mod 1024)" using that x by (simp add: upd_def)
    then show ?thesis using R that False by (simp add: u(2) watch_all_def)
  qed
  then have "region_state env others q (rm\<lparr>rm_gpu := bits, rm_readable := ba_not bits\<rparr>) pm'"
    using R l m u(3) by (simp add: region_state_def region_ok_def)
  then show ?thesis using u(1) out by blast
qed

lemma touched_iff: "0 < sz \<Longrightarrow> touched addr sz p \<longleftrightarrow> addr < (p + 1) * 4096 \<and> p * 4096 < addr + sz"
proof
  assume sz: "0 < sz" and "addr < (p + 1) * 4096 \<and> p * 4096 < addr + sz"
  then have "max addr (p * 4096) div 4096 = p" "addr \<le> max addr (p * 4096)" "max addr (p * 4096) < addr + sz"
    by (auto simp: max_def intro!: div_nat_eqI)
  then show "touched addr sz p" unfolding touched_def by blast
next
  assume "touched addr sz p"
  then obtain x where x: "addr \<le> x" "x < addr + sz" "x div 4096 = p" unfolding touched_def by blast
  have "x < (p + 1) * 4096" "p * 4096 \<le> x" using x(3) by auto
  then show "addr < (p + 1) * 4096 \<and> p * 4096 < addr + sz" using x by linarith
qed

lemma SanitizeAddress_id: "x < 2 ^ 63 \<Longrightarrow> SanitizeAddress x = x"
  by (simp add: SanitizeAddress_def s64_of_u64_def)

lemma region_range:
  assumes "0 < sz" "off + sz \<le> 2 ^ 22"
  shows "start_page off < NUM_PAGES_PER_REGION" "start_page off < end_page off sz" "end_page off sz \<le> 1024"
    "p div 1024 = q \<Longrightarrow> start_page off \<le> p mod 1024 \<and> p mod 1024 < end_page off sz \<longleftrightarrow> touched (q * 2 ^ 22 + off) sz p"
    "touched (q * 2 ^ 22 + off) sz p \<Longrightarrow> p div 1024 = q"
proof -
  have s: "start_page off = off div 4096" "end_page off sz = (off + sz + 4095) div 4096"
    using assms DivCeil_exact [of "off + sz", unfolded PM_PAGE_SIZE_def]
    by (simp_all add: start_page_def end_page_def SanitizeAddress_id TRACKER_BYTES_PER_PAGE_def)
  show "start_page off < NUM_PAGES_PER_REGION"
    using assms by (simp add: s NUM_PAGES_PER_REGION_def TRACKER_BYTES_PER_PAGE_def TRACKER_HIGHER_PAGE_SIZE_def)
  show "start_page off < end_page off sz" using assms(1) unfolding s by linarith
  have "off + sz + 4095 < 1025 * 4096" using assms(2) by simp
  then have "(off + sz + 4095) div 4096 < 1025" by (simp only: div_less_iff_less_mult)
  then show "end_page off sz \<le> 1024" unfolding s by simp
  show "start_page off \<le> p mod 1024 \<and> p mod 1024 < end_page off sz \<longleftrightarrow> touched (q * 2 ^ 22 + off) sz p" if "p div 1024 = q"
  proof -
    define r where "r = p mod 1024"
    have p: "p = 1024 * q + r" by (simp add: r_def flip: that)
    have "off div 4096 \<le> r \<longleftrightarrow> off < (r + 1) * 4096" "r < (off + sz + 4095) div 4096 \<longleftrightarrow> r * 4096 < off + sz"
      using div_less_iff_less_mult [of 4096 off "r + 1"] div_less_iff_less_mult [of 4096 "off + sz + 4095" "r + 1"] by auto
    then show ?thesis unfolding s touched_iff [OF assms(1)] r_def [symmetric] unfolding p by auto
  qed
  show "p div 1024 = q" if "touched (q * 2 ^ 22 + off) sz p"
  proof -
    have "q * 1024 \<le> p" "p < q * 1024 + 1024" using that assms(2) unfolding touched_iff [OF assms(1)] by auto
    then show ?thesis by (intro div_nat_eqI) (simp_all add: mult.commute)
  qed
qed

text \<open>The manager \<open>rm'\<close> has the bits of one array changed to \<open>v\<close> on the pages \<open>T\<close>.\<close>

definition bits_changed :: "Type \<Rightarrow> bool \<Rightarrow> (nat \<Rightarrow> bool) \<Rightarrow> nat \<Rightarrow> RegionManager \<Rightarrow> RegionManager \<Rightarrow> bool" where
  "bits_changed type v T q rm rm' \<longleftrightarrow> rm_lock rm' = rm_lock rm
     \<and> (\<forall>p. p div 1024 = q \<longrightarrow>
          (ba_bit (rm_cpu rm') (p mod 1024) \<longleftrightarrow> (if type = Type_CPU \<and> T p then v else ba_bit (rm_cpu rm) (p mod 1024)))
        \<and> (ba_bit (rm_gpu rm') (p mod 1024) \<longleftrightarrow> (if type = Type_GPU \<and> T p then v else ba_bit (rm_gpu rm) (p mod 1024))))"

definition change_allowed :: "tracker_env \<Rightarrow> Type \<Rightarrow> bool \<Rightarrow> (nat \<Rightarrow> bool) \<Rightarrow> (nat \<Rightarrow> bool) \<Rightarrow> (nat \<Rightarrow> bool) \<Rightarrow> bool" where
  "change_allowed env type v T c g \<longleftrightarrow>
     (v \<and> readbacks_mode env = Readbacks_Precise \<longrightarrow> (\<forall>p. T p \<longrightarrow> (if type = Type_CPU then \<not> g p else \<not> c p)))"

definition region_bits :: "nat \<Rightarrow> bit_array \<Rightarrow> nat \<Rightarrow> bool" where
  "region_bits q d p \<longleftrightarrow> p div 1024 = q \<and> ba_bit d (p mod 1024)"

lemma set_range_bits:
  assumes l: "length d = 16" and sz: "0 < sz" "off + sz \<le> 2 ^ 22"
    and d': "d' = (if v then ba_SetRange avx d (start_page off) (end_page off sz) else ba_UnsetRange avx d (start_page off) (end_page off sz))"
  shows "length d' = 16" "\<forall>i. ba_bit d i \<noteq> ba_bit d' i \<longrightarrow> (ba_bit d' i \<longleftrightarrow> v)"
    "ba_bit d' i \<noteq> ba_bit d i \<Longrightarrow> i < 1024 \<and> touched (q * 2 ^ 22 + off) sz (q * 1024 + i)"
    "p div 1024 = q \<Longrightarrow> ba_bit d' (p mod 1024) \<longleftrightarrow> (if touched (q * 2 ^ 22 + off) sz p then v else ba_bit d (p mod 1024))"
proof -
  note R = region_range [OF sz]
  have e: "end_page off sz \<le> ba_size d" using R(3) l by (simp add: ba_size_def)
  have b: "ba_bit d' i \<longleftrightarrow> (if start_page off \<le> i \<and> i < end_page off sz then v else ba_bit d i)" for i
    using R(2) e by (auto simp: d' ba_SetRange_bit ba_UnsetRange_bit)
  show "length d' = 16" using l by (simp add: d')
  show "\<forall>i. ba_bit d i \<noteq> ba_bit d' i \<longrightarrow> (ba_bit d' i \<longleftrightarrow> v)" using b by auto
  show "i < 1024 \<and> touched (q * 2 ^ 22 + off) sz (q * 1024 + i)" if "ba_bit d' i \<noteq> ba_bit d i"
  proof -
    have i: "start_page off \<le> i" "i < end_page off sz" "i < 1024" using that b R(3) by (auto split: if_splits)
    have "(q * 1024 + i) div 1024 = q" "(q * 1024 + i) mod 1024 = i" using i(3) by auto
    then show ?thesis using R(4) [of "q * 1024 + i" q] i by simp
  qed
  show "ba_bit d' (p mod 1024) \<longleftrightarrow> (if touched (q * 2 ^ 22 + off) sz p then v else ba_bit d (p mod 1024))" if "p div 1024 = q"
    using R(4) [OF that] by (simp add: b)
qed

lemma protect_cpu:
  assumes rs: "region_state env others q rm pm" and sz: "0 < sz" "off + sz \<le> 2 ^ 22"
    and ok: "change_allowed env Type_CPU v (touched (q * 2 ^ 22 + off) sz) (region_bits q (rm_cpu rm)) (region_bits q (rm_gpu rm))"
    and bits: "bits = (if v then ba_SetRange avx (rm_cpu rm) (start_page off) (end_page off sz)
       else ba_UnsetRange avx (rm_cpu rm) (start_page off) (end_page off sz))"
  shows "\<exists>rm' pm'. UpdateProtection env (\<not> v) False (set_region_bits Type_CPU bits rm, pm) = Some (rm', pm')
    \<and> region_state env others q rm' pm' \<and> bits_changed Type_CPU v (touched (q * 2 ^ 22 + off) sz) q rm rm'
    \<and> (\<forall>p. p div 1024 \<noteq> q \<longrightarrow> cached_pages pm' p = cached_pages pm p)"
proof -
  have l: "length (rm_cpu rm) = 16" using rs by (simp add: region_state_def region_ok_def)
  note B = set_range_bits [OF l sz bits]
  have "v \<longrightarrow> (\<forall>i. ba_bit bits i \<and> \<not> ba_bit (rm_cpu rm) i \<longrightarrow> \<not> (readbacks_mode env = Readbacks_Precise \<and> ba_bit (rm_gpu rm) i))"
  proof (intro impI allI)
    fix i assume v: v "ba_bit bits i \<and> \<not> ba_bit (rm_cpu rm) i"
    then have t: "i < 1024" "touched (q * 2 ^ 22 + off) sz (q * 1024 + i)" using B(3) [of i q] by auto
    show "\<not> (readbacks_mode env = Readbacks_Precise \<and> ba_bit (rm_gpu rm) i)"
      using ok t v(1) by (auto simp: change_allowed_def region_bits_def)
  qed
  then obtain pm' where u: "UpdateProtection env (\<not> v) False (rm\<lparr>rm_cpu := bits\<rparr>, pm) = Some (rm\<lparr>rm_cpu := bits, rm_writeable := bits\<rparr>, pm')"
    "region_state env others q (rm\<lparr>rm_cpu := bits, rm_writeable := bits\<rparr>) pm'"
    "\<forall>p. p div 1024 \<noteq> q \<longrightarrow> cached_pages pm' p = cached_pages pm p"
    using cpu_change [OF rs B(1,2)] by blast
  have "bits_changed Type_CPU v (touched (q * 2 ^ 22 + off) sz) q rm (rm\<lparr>rm_cpu := bits, rm_writeable := bits\<rparr>)"
    using B(4) by (simp add: bits_changed_def)
  then show ?thesis using u by (auto simp: set_region_bits_def)
qed

lemma ChangeRegionState_ok:
  assumes rs: "region_state env others q rm pm" and sz: "0 < sz" "off + sz \<le> 2 ^ 22"
    and ok: "change_allowed env type v (touched (q * 2 ^ 22 + off) sz) (region_bits q (rm_cpu rm)) (region_bits q (rm_gpu rm))"
  shows "\<exists>rm' pm'. ChangeRegionState env type v (add64 (rm_cpu_addr rm) off) sz (rm, pm) = Some (rm', pm')
    \<and> region_state env others q rm' pm' \<and> bits_changed type v (touched (q * 2 ^ 22 + off) sz) q rm rm'
    \<and> (\<forall>p. p div 1024 \<noteq> q \<longrightarrow> cached_pages pm' p = cached_pages pm p)"
proof -
  note R = region_range [OF sz]
  have q: "rm_cpu_addr rm = q * 2 ^ 22" "q < 2 ^ 18" using rs by (simp_all add: region_state_def)
  have off: "sub64 (add64 (rm_cpu_addr rm) off) (rm_cpu_addr rm) = off"
    using q sz by (simp add: sub64_def add64_def)
  define bits where "bits = (if v then ba_SetRange (use_avx env) (GetRegionBits type rm) (start_page off) (end_page off sz)
       else ba_UnsetRange (use_avx env) (GetRegionBits type rm) (start_page off) (end_page off sz))"
  have C: "ChangeRegionState env type v (add64 (rm_cpu_addr rm) off) sz (rm, pm) =
     (if type = Type_CPU then UpdateProtection env (\<not> v) False (set_region_bits type bits rm, pm)
      else if readbacks_mode env = Readbacks_Precise then UpdateProtection env v True (set_region_bits type bits rm, pm)
      else Some (set_region_bits type bits rm, pm))"
    using R(1,2) by (simp add: ChangeRegionState_def Let_def off bits_def)
  show ?thesis
  proof (cases type)
    case Type_CPU
    have "bits = (if v then ba_SetRange (use_avx env) (rm_cpu rm) (start_page off) (end_page off sz)
       else ba_UnsetRange (use_avx env) (rm_cpu rm) (start_page off) (end_page off sz))"
      by (simp add: bits_def Type_CPU GetRegionBits_def)
    from protect_cpu [OF rs sz ok [unfolded Type_CPU] this] show ?thesis
      using C unfolding Type_CPU if_P [OF refl] by (simp only: simp_thms if_True)
  next
    case Type_GPU
    have l: "length (rm_gpu rm) = 16" using rs by (simp add: region_state_def region_ok_def)
    note B = set_range_bits [OF l sz bits_def [unfolded Type_GPU GetRegionBits_def Type.case]]
    show ?thesis
    proof (cases "readbacks_mode env = Readbacks_Precise")
      case True
      have "v \<longrightarrow> (\<forall>i. ba_bit bits i \<and> \<not> ba_bit (rm_gpu rm) i \<longrightarrow> \<not> ba_bit (rm_cpu rm) i)"
      proof (intro impI allI)
        fix i assume v: v "ba_bit bits i \<and> \<not> ba_bit (rm_gpu rm) i"
        then have t: "i < 1024" "touched (q * 2 ^ 22 + off) sz (q * 1024 + i)" using B(3) [of i q] by auto
        show "\<not> ba_bit (rm_cpu rm) i" using ok t v(1) Type_GPU True by (auto simp: change_allowed_def region_bits_def)
      qed
      then obtain pm' where u: "UpdateProtection env v True (rm\<lparr>rm_gpu := bits\<rparr>, pm) = Some (rm\<lparr>rm_gpu := bits, rm_readable := ba_not bits\<rparr>, pm')"
        "region_state env others q (rm\<lparr>rm_gpu := bits, rm_readable := ba_not bits\<rparr>) pm'"
        "\<forall>p. p div 1024 \<noteq> q \<longrightarrow> cached_pages pm' p = cached_pages pm p"
        using gpu_change [OF rs B(1) True B(2)] by blast
      have "bits_changed Type_GPU v (touched (q * 2 ^ 22 + off) sz) q rm (rm\<lparr>rm_gpu := bits, rm_readable := ba_not bits\<rparr>)"
        using B(4) by (simp add: bits_changed_def)
      moreover have "ChangeRegionState env type v (add64 (rm_cpu_addr rm) off) sz (rm, pm)
          = Some (rm\<lparr>rm_gpu := bits, rm_readable := ba_not bits\<rparr>, pm')"
        using C [unfolded Type_GPU] True u(1) unfolding Type_GPU by (simp add: set_region_bits_def)
      ultimately show ?thesis using u(2,3) unfolding Type_GPU by blast
    next
      case False
      have "region_state env others q (rm\<lparr>rm_gpu := bits\<rparr>) pm"
        using rs B(1) False by (auto simp: region_state_def region_ok_def watch_state_def)
      moreover have "bits_changed Type_GPU v (touched (q * 2 ^ 22 + off) sz) q rm (rm\<lparr>rm_gpu := bits\<rparr>)"
        using B(4) by (simp add: bits_changed_def)
      moreover have "ChangeRegionState env type v (add64 (rm_cpu_addr rm) off) sz (rm, pm) = Some (rm\<lparr>rm_gpu := bits\<rparr>, pm)"
        using C [unfolded Type_GPU] False unfolding Type_GPU by (simp add: set_region_bits_def)
      ultimately show ?thesis unfolding Type_GPU by blast
    qed
  qed
qed

section \<open>The pages a loop reports\<close>

definition covers :: "(u64 \<times> u64) list \<Rightarrow> nat \<Rightarrow> bool" where
  "covers calls p \<longleftrightarrow> (\<exists>c\<in>set calls. fst c \<le> p * 4096 \<and> p * 4096 < fst c + snd c)"

definition page_calls :: "(u64 \<times> u64) list \<Rightarrow> bool" where
  "page_calls calls \<longleftrightarrow> (\<forall>c\<in>set calls. 4096 dvd fst c \<and> 4096 dvd snd c \<and> fst c + snd c \<le> 2 ^ 40)"

lemma range_calls_pages:
  assumes l: "length d = 16" and q: "q < 2 ^ 18"
  shows "page_calls (map (range_call (q * 2 ^ 22)) (ba_ranges avx d 0))"
proof -
  have "4096 dvd fst (range_call (q * 2 ^ 22) r) \<and> 4096 dvd snd (range_call (q * 2 ^ 22) r)
      \<and> fst (range_call (q * 2 ^ 22) r) + snd (range_call (q * 2 ^ 22) r) \<le> 2 ^ 40" if "r \<in> set (ba_ranges avx d 0)" for r
  proof -
    have r: "fst r < snd r" "snd r \<le> 1024" using ba_ranges_spec [of avx d 0] that l by (auto simp: ba_size_def)
    have "range_call (q * 2 ^ 22) r = (4096 * (q * 1024 + fst r), 4096 * (snd r - fst r))"
      using r q by (simp add: range_call_def TRACKER_BYTES_PER_PAGE_def)
    moreover have "q * 1024 + fst r + (snd r - fst r) \<le> 2 ^ 28" using r q by simp
    ultimately show ?thesis by simp
  qed
  then show ?thesis by (auto simp: page_calls_def)
qed

lemma range_calls_cover:
  assumes l: "length d = 16" and q: "q < 2 ^ 18"
  shows "covers (map (range_call (q * 2 ^ 22)) (ba_ranges avx d 0)) p \<longleftrightarrow> region_bits q d p"
proof -
  note B = ba_ranges_spec [of avx d 0]
  have N: "ba_size d = 1024" using l by (simp add: ba_size_def)
  have one: "fst (range_call (q * 2 ^ 22) r) \<le> p * 4096 \<and> p * 4096 < fst (range_call (q * 2 ^ 22) r) + snd (range_call (q * 2 ^ 22) r)
      \<longleftrightarrow> p div 1024 = q \<and> fst r \<le> p mod 1024 \<and> p mod 1024 < snd r" if "r \<in> set (ba_ranges avx d 0)" for r
  proof -
    have r: "fst r < snd r" "snd r \<le> 1024" using B that N by auto
    have "range_call (q * 2 ^ 22) r = (q * 2 ^ 22 + fst r * 4096, (snd r - fst r) * 4096)"
      using r q by (simp add: range_call_def TRACKER_BYTES_PER_PAGE_def)
    moreover obtain a b where ab: "p div 1024 = a" "p mod 1024 = b" by blast
    then have "p = 1024 * a + b" "b < 1024" by (metis mult_div_mod_eq, metis mod_less_divisor zero_less_numeral)
    ultimately show ?thesis using r unfolding ab by (cases "a = q") auto
  qed
  have "covers (map (range_call (q * 2 ^ 22)) (ba_ranges avx d 0)) p \<longleftrightarrow> p div 1024 = q \<and> (\<exists>r\<in>set (ba_ranges avx d 0). fst r \<le> p mod 1024 \<and> p mod 1024 < snd r)"
    unfolding covers_def using one by auto
  then show ?thesis using B by (auto simp: region_bits_def)
qed

lemma ForEachModifiedRange_ok:
  assumes rs: "region_state env others q rm pm" and sz: "0 < sz" "off + sz \<le> 2 ^ 22" and t: "clear \<longrightarrow> type = Type_CPU"
  shows "\<exists>calls rm' pm'. ForEachModifiedRange env type clear (add64 (rm_cpu_addr rm) off) sz (rm, pm) = Some (calls, rm', pm')
    \<and> region_state env others q rm' pm' \<and> bits_changed type False (\<lambda>p. clear \<and> touched (q * 2 ^ 22 + off) sz p) q rm rm'
    \<and> (\<forall>p. p div 1024 \<noteq> q \<longrightarrow> cached_pages pm' p = cached_pages pm p)
    \<and> (\<forall>p. covers calls p \<longleftrightarrow> touched (q * 2 ^ 22 + off) sz p \<and> region_bits q (GetRegionBits type rm) p) \<and> page_calls calls"
proof -
  note R = region_range [OF sz]
  have q: "rm_cpu_addr rm = q * 2 ^ 22" "q < 2 ^ 18" using rs by (simp_all add: region_state_def)
  have off: "sub64 (add64 (rm_cpu_addr rm) off) (rm_cpu_addr rm) = off"
    using q sz by (simp add: sub64_def add64_def)
  have l: "length (GetRegionBits type rm) = 16" using rs by (cases type) (simp_all add: region_state_def region_ok_def GetRegionBits_def)
  define mb where "mb = ba_copy_range (use_avx env) (GetRegionBits type rm) (start_page off) (end_page off sz)"
  have mb: "length mb = 16" using l by (simp add: mb_def)
  have mbit: "region_bits q mb p \<longleftrightarrow> touched (q * 2 ^ 22 + off) sz p \<and> region_bits q (GetRegionBits type rm) p" for p
    using R(2,3) R(4) [of p q] l by (auto simp: region_bits_def mb_def ba_copy_range_bit ba_size_def)
  have "\<exists>rm' pm'. (if clear then UpdateProtection env True False (set_region_bits Type_CPU (ba_UnsetRange (use_avx env) (rm_cpu rm) (start_page off) (end_page off sz)) rm, pm)
       else Some (rm, pm)) = Some (rm', pm')
     \<and> region_state env others q rm' pm' \<and> bits_changed type False (\<lambda>p. clear \<and> touched (q * 2 ^ 22 + off) sz p) q rm rm'
    \<and> (\<forall>p. p div 1024 \<noteq> q \<longrightarrow> cached_pages pm' p = cached_pages pm p)"
  proof (cases clear)
    case True
    have "change_allowed env Type_CPU False (touched (q * 2 ^ 22 + off) sz) (region_bits q (rm_cpu rm)) (region_bits q (rm_gpu rm))"
      by (simp add: change_allowed_def)
    from protect_cpu [OF rs sz this, of "ba_UnsetRange (use_avx env) (rm_cpu rm) (start_page off) (end_page off sz)" "use_avx env"]
    show ?thesis using True t by simp
  next
    case False
    then show ?thesis using rs by (simp add: bits_changed_def)
  qed
  then obtain rm' pm' where u: "(if clear then UpdateProtection env True False (set_region_bits Type_CPU (ba_UnsetRange (use_avx env) (rm_cpu rm) (start_page off) (end_page off sz)) rm, pm)
       else Some (rm, pm)) = Some (rm', pm')"
     "region_state env others q rm' pm'" "bits_changed type False (\<lambda>p. clear \<and> touched (q * 2 ^ 22 + off) sz p) q rm rm'"
     "\<forall>p. p div 1024 \<noteq> q \<longrightarrow> cached_pages pm' p = cached_pages pm p" by blast
  have "rm_cpu_addr rm' = q * 2 ^ 22" using u(2) by (simp add: region_state_def)
  then have "ForEachModifiedRange env type clear (add64 (rm_cpu_addr rm) off) sz (rm, pm)
      = Some (map (range_call (q * 2 ^ 22)) (ba_ranges (use_avx env) mb 0), rm', pm')"
    using R(1,2) u(1) t unfolding ForEachModifiedRange_def prod.case Let_def off mb_def [symmetric]
    by (cases clear) (simp_all add: GetRegionBits_def)
  moreover have "\<forall>p. covers (map (range_call (q * 2 ^ 22)) (ba_ranges (use_avx env) mb 0)) p \<longleftrightarrow>
      touched (q * 2 ^ 22 + off) sz p \<and> region_bits q (GetRegionBits type rm) p"
    using range_calls_cover [OF mb q(2)] mbit by simp
  ultimately show ?thesis using u(2-4) range_calls_pages [OF mb q(2)] by blast
qed

lemma IsRegionModified_ok:
  assumes rs: "region_state env others q rm pm" and sz: "0 < sz" "off + sz \<le> 2 ^ 22"
  shows "IsRegionModified env type off sz rm \<longleftrightarrow> (\<exists>p. touched (q * 2 ^ 22 + off) sz p \<and> region_bits q (GetRegionBits type rm) p)"
proof -
  note R = region_range [OF sz]
  have l: "length (GetRegionBits type rm) = 16" using rs by (cases type) (simp_all add: region_state_def region_ok_def GetRegionBits_def)
  have "IsRegionModified env type off sz rm \<longleftrightarrow> (\<exists>i. start_page off \<le> i \<and> i < end_page off sz \<and> ba_bit (GetRegionBits type rm) i)"
    using R(1-3) l by (auto simp: IsRegionModified_def Let_def ba_Any_def ba_None_bits ba_copy_range_bit ba_size_def)
  also have "\<dots> \<longleftrightarrow> (\<exists>p. touched (q * 2 ^ 22 + off) sz p \<and> region_bits q (GetRegionBits type rm) p)"
  proof
    assume "\<exists>i. start_page off \<le> i \<and> i < end_page off sz \<and> ba_bit (GetRegionBits type rm) i"
    then obtain i where i: "start_page off \<le> i" "i < end_page off sz" "ba_bit (GetRegionBits type rm) i" by blast
    have p: "(q * 1024 + i) div 1024 = q" "(q * 1024 + i) mod 1024 = i" using i(2) R(3) by auto
    then have "touched (q * 2 ^ 22 + off) sz (q * 1024 + i)" using R(4) [OF p(1)] i by simp
    then show "\<exists>p. touched (q * 2 ^ 22 + off) sz p \<and> region_bits q (GetRegionBits type rm) p"
      using p i(3) by (intro exI [of _ "q * 1024 + i"]) (simp add: region_bits_def)
  next
    assume "\<exists>p. touched (q * 2 ^ 22 + off) sz p \<and> region_bits q (GetRegionBits type rm) p"
    then obtain p where p: "touched (q * 2 ^ 22 + off) sz p" "p div 1024 = q" "ba_bit (GetRegionBits type rm) (p mod 1024)"
      by (auto simp: region_bits_def)
    then show "\<exists>i. start_page off \<le> i \<and> i < end_page off sz \<and> ba_bit (GetRegionBits type rm) i" using R(4) [OF p(2)] by blast
  qed
  finally show ?thesis .
qed

end
