(* ===== verification/Range_Set.thy ===== *)
theory Range_Set
  imports Alignment
begin

text \<open>
  The set of guest address ranges the GPU has written (\<open>RangeSet\<close> of \<^verbatim>\<open>src/src/video_core/buffer_cache/range_set.h\<close>).  The code wraps
  \<open>boost::icl::interval_set\<close>, which is a parameter of the model: \<open>icl\<close> holds its operations and \<open>icl_ok\<close> states what its documentation
  promises of them: iteration yields non-empty, pairwise disjoint right-open intervals in ascending order, and
  \<open>add\<close> and \<open>subtract\<close> are union and difference of sets of addresses.  The bounds of a search are found with the order of the
  set, under which intervals that overlap are equivalent (\<open>exclusive_less\<close>).  A loop that calls \<open>func\<close> is the list of its calls.
\<close>

type_synonym interval = "u64 \<times> u64"

record 'r icl =
  icl_clear :: 'r
  icl_list :: "'r \<Rightarrow> interval list"
  icl_add :: "interval \<Rightarrow> 'r \<Rightarrow> 'r"
  icl_subtract :: "interval \<Rightarrow> 'r \<Rightarrow> 'r"

definition intervals_ok :: "interval list \<Rightarrow> bool" where
  "intervals_ok xs \<longleftrightarrow> sorted_wrt (\<lambda>i j. snd i \<le> fst j) xs \<and> (\<forall>i\<in>set xs. fst i < snd i)"

definition in_intervals :: "interval list \<Rightarrow> nat \<Rightarrow> bool" where
  "in_intervals xs x \<longleftrightarrow> (\<exists>i\<in>set xs. fst i \<le> x \<and> x < snd i)"

abbreviation in_ranges :: "'r icl \<Rightarrow> 'r \<Rightarrow> nat \<Rightarrow> bool" where
  "in_ranges ops r x \<equiv> in_intervals (icl_list ops r) x"

definition icl_ok :: "'r icl \<Rightarrow> bool" where
  "icl_ok ops \<longleftrightarrow> icl_list ops (icl_clear ops) = [] \<and> (\<forall>r. intervals_ok (icl_list ops r))
   \<and> (\<forall>a b r x. in_ranges ops (icl_add ops (a, b) r) x \<longleftrightarrow> in_ranges ops r x \<or> a \<le> x \<and> x < b)
   \<and> (\<forall>a b r x. in_ranges ops (icl_subtract ops (a, b) r) x \<longleftrightarrow> in_ranges ops r x \<and> \<not> (a \<le> x \<and> x < b))"

definition exclusive_less :: "interval \<Rightarrow> interval \<Rightarrow> bool" where
  "exclusive_less i j \<longleftrightarrow> snd i \<le> fst i \<or> snd j \<le> fst j \<or> snd i \<le> fst j"

section \<open>Operations\<close>

definition rs_Add :: "'r icl \<Rightarrow> u64 \<Rightarrow> u64 \<Rightarrow> 'r \<Rightarrow> 'r" where
  "rs_Add ops base_address sz r = icl_add ops (base_address, add64 base_address sz) r"

definition rs_Subtract :: "'r icl \<Rightarrow> u64 \<Rightarrow> u64 \<Rightarrow> 'r \<Rightarrow> 'r" where
  "rs_Subtract ops base_address sz r = icl_subtract ops (base_address, add64 base_address sz) r"

definition rs_ForEach :: "'r icl \<Rightarrow> 'r \<Rightarrow> interval list" where
  "rs_ForEach ops r = map (\<lambda>i. (fst i, snd i)) (icl_list ops r)"

definition clip :: "u64 \<Rightarrow> u64 \<Rightarrow> interval \<Rightarrow> interval" where
  "clip start_address end_address i =
     (if fst i < start_address then start_address else fst i, if snd i > end_address then end_address else snd i)"

definition rs_ForEachInRange :: "'r icl \<Rightarrow> u64 \<Rightarrow> u64 \<Rightarrow> 'r \<Rightarrow> interval list" where
  "rs_ForEachInRange ops base_addr sz r =
     (let search = (base_addr, add64 base_addr sz);
          it = dropWhile (\<lambda>i. exclusive_less i search) (icl_list ops r)
      in map (clip (fst search) (snd search)) (takeWhile (\<lambda>i. \<not> exclusive_less search i) it))"

fun gaps :: "u64 \<Rightarrow> u64 \<Rightarrow> interval list \<Rightarrow> (u64 \<times> u64) list" where
  "gaps base_addr end_addr [] = (if base_addr \<noteq> end_addr then [(base_addr, sub64 end_addr base_addr)] else [])"
| "gaps base_addr end_addr (i # is) =
     (let gap_size = sub64 (fst i) base_addr
      in (if gap_size \<noteq> 0 then [(base_addr, gap_size)] else []) @ gaps (snd i) end_addr is)"

definition rs_ForEachNotInRange :: "'r icl \<Rightarrow> u64 \<Rightarrow> u64 \<Rightarrow> 'r \<Rightarrow> (u64 \<times> u64) list" where
  "rs_ForEachNotInRange ops base_addr sz r = gaps base_addr (add64 base_addr sz) (rs_ForEachInRange ops base_addr sz r)"

section \<open>Lemmas\<close>

lemma in_intervals_simps [simp]:
  "in_intervals [] = (\<lambda>_. False)" "in_intervals (i # is) x \<longleftrightarrow> fst i \<le> x \<and> x < snd i \<or> in_intervals is x"
  "in_intervals (xs @ ys) x \<longleftrightarrow> in_intervals xs x \<or> in_intervals ys x"
  by (auto simp: in_intervals_def fun_eq_iff)

lemma intervals_ok_simps [simp]:
  "intervals_ok []" "intervals_ok (i # is) \<longleftrightarrow> fst i < snd i \<and> (\<forall>j\<in>set is. snd i \<le> fst j) \<and> intervals_ok is"
  by (auto simp: intervals_ok_def)

lemma icl_okD:
  assumes "icl_ok ops"
  shows "intervals_ok (icl_list ops r)" "icl_list ops (icl_clear ops) = []"
    "in_ranges ops (icl_add ops (a, b) r) x \<longleftrightarrow> in_ranges ops r x \<or> a \<le> x \<and> x < b"
    "in_ranges ops (icl_subtract ops (a, b) r) x \<longleftrightarrow> in_ranges ops r x \<and> \<not> (a \<le> x \<and> x < b)"
  using assms by (simp_all add: icl_ok_def)

lemma search_filter:
  assumes "intervals_ok xs" "a < b"
  shows "takeWhile (\<lambda>i. \<not> exclusive_less (a, b) i) (dropWhile (\<lambda>i. exclusive_less i (a, b)) xs)
    = filter (\<lambda>i. a < snd i \<and> fst i < b) xs"
  using assms(1)
proof (induction xs)
  case (Cons i xs)
  have up: "a < snd j" if "j \<in> set xs" "a < snd i" for j using Cons.prems that by (fastforce simp: intervals_ok_def)
  have take: "takeWhile (\<lambda>i. \<not> exclusive_less (a, b) i) ys = filter (\<lambda>i. a < snd i \<and> fst i < b) ys"
    if "intervals_ok ys" "\<forall>j\<in>set ys. a < snd j" for ys
    using that
  proof (induction ys)
    case (Cons j ys)
    have "filter (\<lambda>i. a < snd i \<and> fst i < b) ys = []" if "b \<le> fst j" using Cons.prems that by (fastforce simp: filter_empty_conv)
    then show ?case using Cons assms(2) by (auto simp: exclusive_less_def)
  qed simp
  show ?case
  proof (cases "snd i \<le> a")
    case True
    then show ?thesis using Cons assms(2) by (simp add: exclusive_less_def)
  next
    case False
    moreover have "dropWhile (\<lambda>i. exclusive_less i (a, b)) (i # xs) = i # xs"
      using False Cons.prems assms(2) by (simp add: exclusive_less_def)
    moreover have "\<forall>j\<in>set (i # xs). a < snd j" using up False by auto
    ultimately show ?thesis using take [OF Cons.prems] by metis
  qed
qed simp

lemma clip_ok:
  assumes "intervals_ok xs" "a < b"
  shows "intervals_ok (map (clip a b) (filter (\<lambda>i. a < snd i \<and> fst i < b) xs))"
    "in_intervals (map (clip a b) (filter (\<lambda>i. a < snd i \<and> fst i < b) xs)) x \<longleftrightarrow> in_intervals xs x \<and> a \<le> x \<and> x < b"
    "i \<in> set (map (clip a b) (filter (\<lambda>i. a < snd i \<and> fst i < b) xs)) \<Longrightarrow> a \<le> fst i \<and> fst i < snd i \<and> snd i \<le> b"
proof -
  have one: "a \<le> fst (clip a b i) \<and> fst (clip a b i) < snd (clip a b i) \<and> snd (clip a b i) \<le> b"
    if "i \<in> set xs" "a < snd i" "fst i < b" for i
    using that assms by (auto simp: clip_def intervals_ok_def)
  then show "i \<in> set (map (clip a b) (filter (\<lambda>i. a < snd i \<and> fst i < b) xs)) \<Longrightarrow> a \<le> fst i \<and> fst i < snd i \<and> snd i \<le> b" by auto
  have mono: "snd (clip a b i) \<le> fst (clip a b j)" if "snd i \<le> fst j" for i j using that by (auto simp: clip_def)
  have "sorted_wrt (\<lambda>i j. snd i \<le> fst j) (map (clip a b) (filter P xs))" if "sorted_wrt (\<lambda>i j. snd i \<le> fst j) xs" for P xs
    using that mono by (induction xs) auto
  then show "intervals_ok (map (clip a b) (filter (\<lambda>i. a < snd i \<and> fst i < b) xs))"
    using assms(1) one unfolding intervals_ok_def by auto
  have part: "fst (clip a b i) \<le> x \<and> x < snd (clip a b i) \<longleftrightarrow> fst i \<le> x \<and> x < snd i \<and> a \<le> x \<and> x < b" for i
    by (auto simp: clip_def)
  show "in_intervals (map (clip a b) (filter (\<lambda>i. a < snd i \<and> fst i < b) xs)) x \<longleftrightarrow> in_intervals xs x \<and> a \<le> x \<and> x < b"
    using part by (induction xs) auto
qed

lemma ForEachInRange_ok:
  assumes "icl_ok ops" "a + n < U64_MOD"
  shows "intervals_ok (rs_ForEachInRange ops a n r)"
    "in_intervals (rs_ForEachInRange ops a n r) x \<longleftrightarrow> in_ranges ops r x \<and> a \<le> x \<and> x < a + n"
    "i \<in> set (rs_ForEachInRange ops a n r) \<Longrightarrow> a \<le> fst i \<and> fst i < snd i \<and> snd i \<le> a + n"
proof -
  have e: "add64 a n = a + n" using assms(2) by simp
  have "rs_ForEachInRange ops a n r = (if n = 0 then [] else map (clip a (a + n)) (filter (\<lambda>i. a < snd i \<and> fst i < a + n) (icl_list ops r)))"
  proof (cases n)
    case 0
    have "dropWhile (\<lambda>i. exclusive_less i (a, a)) (icl_list ops r) = []" by (simp add: exclusive_less_def)
    moreover have "add64 a 0 = a" using e 0 by simp
    ultimately have "rs_ForEachInRange ops a 0 r = []" by (simp only: rs_ForEachInRange_def Let_def takeWhile.simps list.map)
    then show ?thesis using 0 by simp
  next
    case (Suc k)
    then show ?thesis using search_filter [OF icl_okD(1) [OF assms(1)], of a "a + n"] e by (simp add: rs_ForEachInRange_def Let_def)
  qed
  then show "intervals_ok (rs_ForEachInRange ops a n r)"
    "in_intervals (rs_ForEachInRange ops a n r) x \<longleftrightarrow> in_ranges ops r x \<and> a \<le> x \<and> x < a + n"
    "i \<in> set (rs_ForEachInRange ops a n r) \<Longrightarrow> a \<le> fst i \<and> fst i < snd i \<and> snd i \<le> a + n"
    using clip_ok [OF icl_okD(1) [OF assms(1)], of a "a + n"] by (auto split: if_splits)
qed

lemma RangeSet_update:
  assumes "icl_ok ops" "a + n < U64_MOD"
  shows "in_ranges ops (rs_Add ops a n r) x \<longleftrightarrow> in_ranges ops r x \<or> a \<le> x \<and> x < a + n"
    "in_ranges ops (rs_Subtract ops a n r) x \<longleftrightarrow> in_ranges ops r x \<and> \<not> (a \<le> x \<and> x < a + n)"
  using icl_okD(3,4) [OF assms(1)] assms(2) by (simp_all add: rs_Add_def rs_Subtract_def)

text \<open>The gaps are exactly the addresses of the range that are not in the set.\<close>

lemma gaps_ok:
  assumes "intervals_ok is" "\<forall>i\<in>set is. a \<le> fst i \<and> snd i \<le> b" "a \<le> b" "b < U64_MOD"
  shows "(\<exists>g\<in>set (gaps a b is). fst g \<le> x \<and> x < fst g + snd g) \<longleftrightarrow> a \<le> x \<and> x < b \<and> \<not> in_intervals is x"
  using assms
proof (induction "is" arbitrary: a)
  case (Cons i "is")
  have s: "sub64 (fst i) a = fst i - a" using Cons.prems by simp
  have "(\<exists>g\<in>set (gaps (snd i) b is). fst g \<le> x \<and> x < fst g + snd g) \<longleftrightarrow> snd i \<le> x \<and> x < b \<and> \<not> in_intervals is x"
    using Cons by simp
  moreover have "\<not> in_intervals is x" if "x < snd i" using Cons.prems(1) that by (fastforce simp: in_intervals_def)
  ultimately show ?case using Cons.prems s by (auto simp: Let_def)
qed auto

lemma ForEachNotInRange_ok:
  assumes "icl_ok ops" "a + n < U64_MOD"
  shows "(\<exists>g\<in>set (rs_ForEachNotInRange ops a n r). fst g \<le> x \<and> x < fst g + snd g) \<longleftrightarrow> a \<le> x \<and> x < a + n \<and> \<not> in_ranges ops r x"
  unfolding rs_ForEachNotInRange_def
  using gaps_ok [OF ForEachInRange_ok(1) [OF assms], where a = a and b = "a + n"] ForEachInRange_ok(2,3) [OF assms] assms(2) by auto

lemma intervals_card:
  assumes "intervals_ok is"
  shows "finite {x. in_intervals is x}" "(\<Sum>i\<leftarrow>is. snd i - fst i) = card {x. in_intervals is x}"
proof -
  have "finite {x. in_intervals is x} \<and> (\<Sum>i\<leftarrow>is. snd i - fst i) = card {x. in_intervals is x}"
    using assms
  proof (induction "is")
    case (Cons i "is")
    have e: "{x. in_intervals (i # is) x} = {fst i..<snd i} \<union> {x. in_intervals is x}" by auto
    moreover have "{fst i..<snd i} \<inter> {x. in_intervals is x} = {}" using Cons.prems by (fastforce simp: in_intervals_def)
    ultimately show ?case using Cons by (simp add: card_Un_disjoint)
  qed simp
  then show "finite {x. in_intervals is x}" "(\<Sum>i\<leftarrow>is. snd i - fst i) = card {x. in_intervals is x}" by blast+
qed

end
