(* ===== verification/Buffer_Downloads.thy ===== *)
theory Buffer_Downloads
  imports Tracker_Regions Range_Set
begin

text \<open>
  Reading GPU data back to the guest (\<open>BufferCache::DownloadBufferMemory\<close> and \<open>ReadMemory\<close> of
  \<^verbatim>\<open>src/src/video_core/buffer_cache/buffer_cache.cpp\<close>).  The state is \<open>gpu_modified_ranges\<close>, the bytes the GPU has
  written, beside the tracker, which knows its pages.  The callback that collects the copies
  does not touch the tracker, so it runs on the list of the tracker's calls; the result is the list of the copies that \<open>write_data\<close> writes to guest
  memory (the guest address of a copy is the buffer's address plus \<open>srcOffset\<close>).  The address of the buffer, which
  \<open>FindBuffer\<close> selects, is an argument.  \<open>Map\<close> returns a null pointer for more than the 32 MB of the download buffer and the caller does not check it: \<open>None\<close>.
  The scheduler's \<open>Finish\<close> and the GPU's copy are not modelled; the deferred instance (\<open>async\<close>) is only used by a lambda that is never called.
\<close>

record BufferCopy =
  srcOffset :: u64
  dstOffset :: u64
  copy_size :: u64

definition DownloadBufferSize :: u64 where "DownloadBufferSize = 32 * 2 ^ 20"

definition add_copy :: "u64 \<Rightarrow> interval \<Rightarrow> BufferCopy list \<times> u64 \<Rightarrow> BufferCopy list \<times> u64" where
  "add_copy buffer_addr i = (\<lambda>(copies, total_size_bytes).
     let new_offset = sub64 (fst i) buffer_addr; new_size = sub64 (snd i) (fst i); msk = U64_MOD - 64
     in (copies @ [\<lparr>srcOffset = new_offset, dstOffset = total_size_bytes, copy_size = new_size\<rparr>],
         add64 total_size_bytes (sub64 (add64 new_size 64) 1 AND msk)))"

definition download_range :: "'r icl \<Rightarrow> u64 \<Rightarrow> u64 \<times> u64 \<Rightarrow> BufferCopy list \<times> u64 \<times> 'r \<Rightarrow> BufferCopy list \<times> u64 \<times> 'r" where
  "download_range ops buffer_addr c = (\<lambda>(copies, total_size_bytes, r).
     let (copies', tot') = fold (add_copy buffer_addr) (rs_ForEachInRange ops (fst c) (snd c) r) (copies, total_size_bytes)
     in (copies', tot', rs_Subtract ops (fst c) (snd c) r))"

fun call_range :: "tracker_call \<Rightarrow> (u64 \<times> u64) list" where
  "call_range (Func a n) = [(a, n)]"
| "call_range OnUpload = []"

definition DownloadBufferMemory ::
  "tracker_env \<Rightarrow> 'r icl \<Rightarrow> u64 \<Rightarrow> u64 \<Rightarrow> u64 \<Rightarrow> bool \<Rightarrow> 'r \<times> MemoryTracker \<Rightarrow> (BufferCopy list \<times> 'r \<times> MemoryTracker) option" where
  "DownloadBufferMemory env ops buffer_addr device_addr sz is_write = (\<lambda>(r, mt). do {
     (calls, mt1) \<leftarrow> ForEachDownloadRange env False device_addr sz mt;
     let (copies, total_size_bytes, r') = fold (download_range ops buffer_addr) (concat (map call_range calls)) ([], 0, r);
     if total_size_bytes = 0 then Some ([], r', mt1)
     else do {
       assert_opt (total_size_bytes \<le> DownloadBufferSize);
       mt2 \<leftarrow> UnmarkRegionAsGpuModified env device_addr sz mt1;
       mt3 \<leftarrow> (if is_write then MarkRegionAsCpuModified env device_addr sz mt2 else Some mt2);
       Some (copies, r', mt3)
     }
   })"

definition bc_ReadMemory ::
  "tracker_env \<Rightarrow> 'r icl \<Rightarrow> u64 \<Rightarrow> u64 \<Rightarrow> u64 \<Rightarrow> bool \<Rightarrow> 'r \<times> MemoryTracker \<Rightarrow> ('r \<times> MemoryTracker) option" where
  "bc_ReadMemory env ops buffer_addr device_addr sz is_write st =
     map_option snd (DownloadBufferMemory env ops buffer_addr device_addr sz is_write st)"

section \<open>What the copies cover\<close>

definition copied :: "u64 \<Rightarrow> BufferCopy list \<Rightarrow> nat \<Rightarrow> bool" where
  "copied buffer_addr copies x \<longleftrightarrow>
     (\<exists>c\<in>set copies. add64 buffer_addr (srcOffset c) \<le> x \<and> x < add64 buffer_addr (srcOffset c) + copy_size c)"

definition staged :: "BufferCopy list \<Rightarrow> u64 \<Rightarrow> bool" where
  "staged copies tot \<longleftrightarrow> 64 dvd tot \<and> sorted_wrt (\<lambda>c d. dstOffset c + copy_size c \<le> dstOffset d) copies
     \<and> (\<forall>c\<in>set copies. 64 dvd dstOffset c \<and> dstOffset c + copy_size c \<le> tot)"

lemma copied_append [simp]: "copied b (cs @ ds) x \<longleftrightarrow> copied b cs x \<or> copied b ds x" "\<not> copied b [] x"
  by (auto simp: copied_def)

lemma align_mask:
  assumes "0 < n" "n \<le> 2 ^ 40"
  shows "sub64 (add64 n 64) 1 AND (U64_MOD - 64) = (n + 63) div 64 * 64"
proof -
  have m: "U64_MOD - 64 = push_bit 6 (mask 58)" by (simp add: mask_eq_exp_minus_1 push_bit_eq_mult)
  have "x AND push_bit 6 (mask 58) = push_bit 6 (drop_bit 6 x)" if "x < 2 ^ 64" for x :: nat
  proof (rule bit_eqI)
    fix k
    have "k - 6 < 58 \<or> \<not> bit x k"
    proof (cases "64 \<le> k")
      case True
      then show ?thesis using \<open>x < 2 ^ 64\<close> by (metis bit_take_bit_iff leD take_bit_nat_eq_self)
    qed auto
    then show "bit (x AND push_bit 6 (mask 58)) k \<longleftrightarrow> bit (push_bit 6 (drop_bit 6 x)) k"
      by (auto simp: bit_and_iff bit_push_bit_iff bit_mask_iff bit_drop_bit_eq)
  qed
  moreover have "sub64 (add64 n 64) 1 = n + 63" using assms by simp
  ultimately show ?thesis using assms unfolding m by (simp add: push_bit_eq_mult drop_bit_eq_div)
qed

lemma add_copy_one:
  assumes i: "fst i < snd i" "snd i \<le> 2 ^ 40" and b: "buffer_addr < U64_MOD"
    and t: "tot + 64 * (snd i - fst i) < U64_MOD" and s: "staged copies tot"
  obtains c tot' where "add_copy buffer_addr i (copies, tot) = (copies @ [c], tot')" "tot < tot'" "tot' \<le> tot + 64 * (snd i - fst i)"
    "\<And>x. copied buffer_addr [c] x \<longleftrightarrow> fst i \<le> x \<and> x < snd i" "staged (copies @ [c]) tot'"
proof -
  define n where "n = snd i - fst i"
  define k where "k = (n + 63) div 64"
  have n: "0 < n" "n \<le> 2 ^ 40" "sub64 (snd i) (fst i) = n" using i by (simp_all add: n_def)
  have k: "n \<le> k * 64" "k \<le> n" "0 < k" using n(1) by (simp_all add: k_def)
  let ?c = "\<lparr>srcOffset = sub64 (fst i) buffer_addr, dstOffset = tot, copy_size = n\<rparr>"
  have "add64 tot (k * 64) = tot + k * 64" using t k by (simp add: n_def)
  then have e: "add_copy buffer_addr i (copies, tot) = (copies @ [?c], tot + k * 64)"
    using align_mask [OF n(1,2)] n(3) by (simp add: add_copy_def Let_def k_def)
  have "add64 buffer_addr (sub64 (fst i) buffer_addr) = fst i" using i b by (simp add: add64_def sub64_def mod_add_right_eq)
  then have c: "copied buffer_addr [?c] x \<longleftrightarrow> fst i \<le> x \<and> x < snd i" for x using i by (auto simp: copied_def n_def)
  have "staged (copies @ [?c]) (tot + k * 64)"
    using s k unfolding staged_def by (fastforce simp: sorted_wrt_append)
  with e c k show ?thesis using that [of ?c "tot + k * 64"] by (simp add: n_def)
qed

lemma add_copies_ok:
  assumes "intervals_ok is" "\<forall>i\<in>set is. snd i \<le> 2 ^ 40" "buffer_addr < U64_MOD"
    "tot + 64 * (\<Sum>i\<leftarrow>is. snd i - fst i) < U64_MOD" "staged copies tot"
  shows "\<exists>cs tot'. fold (add_copy buffer_addr) is (copies, tot) = (copies @ cs, tot')
    \<and> (\<forall>x. copied buffer_addr cs x \<longleftrightarrow> in_intervals is x) \<and> staged (copies @ cs) tot'
    \<and> tot \<le> tot' \<and> tot' \<le> tot + 64 * (\<Sum>i\<leftarrow>is. snd i - fst i) \<and> (is \<noteq> [] \<longrightarrow> tot < tot') \<and> (is = [] \<longrightarrow> cs = [])"
  using assms
proof (induction "is" arbitrary: copies tot)
  case (Cons i "is")
  have "fst i < snd i" "snd i \<le> 2 ^ 40" "tot + 64 * (snd i - fst i) < U64_MOD" using Cons.prems by (auto simp: algebra_simps)
  from add_copy_one [OF this(1,2) Cons.prems(3) this(3) Cons.prems(5)] obtain c t1 where
    c: "add_copy buffer_addr i (copies, tot) = (copies @ [c], t1)" "tot < t1" "t1 \<le> tot + 64 * (snd i - fst i)"
    "\<And>x. copied buffer_addr [c] x \<longleftrightarrow> fst i \<le> x \<and> x < snd i" "staged (copies @ [c]) t1" by blast
  have "t1 + 64 * (\<Sum>i\<leftarrow>is. snd i - fst i) < U64_MOD" using c(3) Cons.prems(4) by (simp add: algebra_simps)
  from Cons.IH [OF _ _ Cons.prems(3) this c(5)] Cons.prems obtain cs t2 where
    f: "fold (add_copy buffer_addr) is (copies @ [c], t1) = ((copies @ [c]) @ cs, t2)" "\<forall>x. copied buffer_addr cs x \<longleftrightarrow> in_intervals is x"
    "staged ((copies @ [c]) @ cs) t2" "t1 \<le> t2" "t2 \<le> t1 + 64 * (\<Sum>i\<leftarrow>is. snd i - fst i)" by auto
  have "copied buffer_addr (c # cs) x \<longleftrightarrow> in_intervals (i # is) x" for x
    using c(4) f(2) copied_append(1) [of buffer_addr "[c]" cs x] by simp
  moreover have "fold (add_copy buffer_addr) (i # is) (copies, tot) = (copies @ c # cs, t2)" using c(1) f(1) by simp
  moreover have "staged (copies @ c # cs) t2" using f(3) by simp
  ultimately show ?case using c(2,3) f(4,5) by (intro exI [of _ "c # cs"] exI [of _ t2]) (simp add: algebra_simps)
qed (simp add: copied_def)

lemma aligned_range:
  fixes a n x :: nat
  assumes "4096 dvd a" "4096 dvd n"
  shows "a \<le> x div 4096 * 4096 \<and> x div 4096 * 4096 < a + n \<longleftrightarrow> a \<le> x \<and> x < a + n"
proof -
  obtain j k where jk: "a = 4096 * j" "n = 4096 * k" using assms by (auto elim!: dvdE)
  have "a \<le> x div 4096 * 4096 \<longleftrightarrow> a \<le> x" unfolding jk by (simp add: less_eq_div_iff_mult_less_eq mult.commute)
  moreover have "x div 4096 * 4096 < a + n \<longleftrightarrow> x < a + n"
  proof -
    have "y * 4096 < 4096 * j + 4096 * k \<longleftrightarrow> y < j + k" for y :: nat by linarith
    from this [of "x div 4096"] show ?thesis using div_less_iff_less_mult [of 4096 x "j + k"] unfolding jk by (simp add: distrib_right mult.commute)
  qed
  ultimately show ?thesis by blast
qed

lemma download_ranges_ok:
  assumes ops: "icl_ok ops" and b: "buffer_addr < U64_MOD" and "page_calls rs"
    and "tot + 64 * card {x. in_ranges ops r x \<and> covers rs (x div 4096)} < U64_MOD" "staged copies tot"
  shows "\<exists>cs tot' r'. fold (download_range ops buffer_addr) rs (copies, tot, r) = (copies @ cs, tot', r')
    \<and> (\<forall>x. copied buffer_addr cs x \<longleftrightarrow> in_ranges ops r x \<and> covers rs (x div 4096)) \<and> staged (copies @ cs) tot'
    \<and> (\<forall>x. in_ranges ops r' x \<longleftrightarrow> in_ranges ops r x \<and> \<not> covers rs (x div 4096))
    \<and> tot \<le> tot' \<and> tot' \<le> tot + 64 * card {x. in_ranges ops r x \<and> covers rs (x div 4096)}
    \<and> ((\<exists>x. in_ranges ops r x \<and> covers rs (x div 4096)) \<longrightarrow> tot < tot')
    \<and> ((\<forall>x. in_ranges ops r x \<longrightarrow> \<not> covers rs (x div 4096)) \<longrightarrow> tot' = tot \<and> cs = [])"
  using assms(3-5)
proof (induction rs arbitrary: copies tot r)
  case Nil
  then show ?case by (simp add: covers_def)
next
  case (Cons c rs)
  obtain a n where c: "c = (a, n)" by (cases c)
  have pc: "4096 dvd a" "4096 dvd n" "a + n \<le> 2 ^ 40" "page_calls rs" using Cons.prems(1) by (auto simp: page_calls_def c)
  then have lim: "a + n < U64_MOD" by simp
  define ps r1 where "ps = rs_ForEachInRange ops a n r" and "r1 = rs_Subtract ops a n r"
  note P = ForEachInRange_ok [OF ops lim, where r = r, folded ps_def]
  have r1: "in_ranges ops r1 x \<longleftrightarrow> in_ranges ops r x \<and> \<not> (a \<le> x \<and> x < a + n)" for x
    unfolding r1_def by (rule RangeSet_update(2) [OF ops lim])
  have cov: "covers (c # rs) (x div 4096) \<longleftrightarrow> a \<le> x \<and> x < a + n \<or> covers rs (x div 4096)" for x
    using aligned_range [OF pc(1,2), of x] by (simp add: covers_def c)
  define K where "K = {x. in_ranges ops r1 x \<and> covers rs (x div 4096)}"
  have sum: "(\<Sum>i\<leftarrow>ps. snd i - fst i) = card {x. in_ranges ops r x \<and> a \<le> x \<and> x < a + n}"
    using intervals_card(2) [OF P(1)] unfolding P(2) by simp
  have fin: "finite {x. in_ranges ops r x \<and> Q x}" for Q r
    using finite_subset [OF _ intervals_card(1) [OF icl_okD(1) [OF ops, of r]]] by auto
  have "{x. in_ranges ops r x \<and> covers (c # rs) (x div 4096)} = {x. in_ranges ops r x \<and> a \<le> x \<and> x < a + n} \<union> K"
    by (auto simp: cov r1 K_def)
  moreover have "{x. in_ranges ops r x \<and> a \<le> x \<and> x < a + n} \<inter> K = {}" by (auto simp: r1 K_def)
  ultimately have card: "card {x. in_ranges ops r x \<and> covers (c # rs) (x div 4096)} = (\<Sum>i\<leftarrow>ps. snd i - fst i) + card K"
    using fin unfolding sum by (simp add: card_Un_disjoint K_def)
  have ends: "\<forall>i\<in>set ps. snd i \<le> 2 ^ 40" using P(3) pc(3) by fastforce
  have "tot + 64 * (\<Sum>i\<leftarrow>ps. snd i - fst i) < U64_MOD" using Cons.prems(2) card by simp
  from add_copies_ok [OF P(1) ends b this Cons.prems(3)] obtain cs t1 where
    f: "fold (add_copy buffer_addr) ps (copies, tot) = (copies @ cs, t1)" "\<forall>x. copied buffer_addr cs x \<longleftrightarrow> in_intervals ps x"
    "staged (copies @ cs) t1" "tot \<le> t1" "t1 \<le> tot + 64 * (\<Sum>i\<leftarrow>ps. snd i - fst i)" "ps \<noteq> [] \<longrightarrow> tot < t1" "ps = [] \<longrightarrow> cs = []" by blast
  have "t1 + 64 * card K < U64_MOD" using f(5) Cons.prems(2) card by simp
  from Cons.IH [OF pc(4) this [unfolded K_def] f(3)] obtain ds t2 r2 where
    g: "fold (download_range ops buffer_addr) rs (copies @ cs, t1, r1) = ((copies @ cs) @ ds, t2, r2)"
    "\<forall>x. copied buffer_addr ds x \<longleftrightarrow> in_ranges ops r1 x \<and> covers rs (x div 4096)" "staged ((copies @ cs) @ ds) t2"
    "\<forall>x. in_ranges ops r2 x \<longleftrightarrow> in_ranges ops r1 x \<and> \<not> covers rs (x div 4096)" "t1 \<le> t2" "t2 \<le> t1 + 64 * card K"
    "(\<exists>x. in_ranges ops r1 x \<and> covers rs (x div 4096)) \<longrightarrow> t1 < t2"
    "(\<forall>x. in_ranges ops r1 x \<longrightarrow> \<not> covers rs (x div 4096)) \<longrightarrow> t2 = t1 \<and> ds = []"
    unfolding K_def by blast
  have "fold (download_range ops buffer_addr) (c # rs) (copies, tot, r) = (copies @ (cs @ ds), t2, r2)"
    using f(1) g(1) by (simp add: download_range_def c ps_def [symmetric] r1_def [symmetric])
  moreover have "copied buffer_addr (cs @ ds) x \<longleftrightarrow> in_ranges ops r x \<and> covers (c # rs) (x div 4096)" for x
    using f(2) g(2) P(2) r1 cov by auto
  moreover have "staged (copies @ (cs @ ds)) t2" using g(3) by simp
  moreover have "in_ranges ops r2 x \<longleftrightarrow> in_ranges ops r x \<and> \<not> covers (c # rs) (x div 4096)" for x using g(4) r1 cov by auto
  moreover have "t2 \<le> tot + 64 * card {x. in_ranges ops r x \<and> covers (c # rs) (x div 4096)}" using f(5) g(6) card by simp
  moreover have "tot < t2" if "in_ranges ops r x" "covers (c # rs) (x div 4096)" for x
  proof (cases "a \<le> x \<and> x < a + n")
    case True
    then have "in_intervals ps x" using P(2) that(1) by blast
    then have "ps \<noteq> []" by auto
    then show ?thesis using f(6) g(5) by simp
  next
    case False
    then have "in_ranges ops r1 x \<and> covers rs (x div 4096)" using that cov r1 by blast
    then show ?thesis using g(7) f(4) by fastforce
  qed
  moreover have "t2 = tot \<and> cs @ ds = []" if none: "\<forall>x. in_ranges ops r x \<longrightarrow> \<not> covers (c # rs) (x div 4096)"
  proof -
    have "ps = []"
    proof (rule ccontr)
      assume "ps \<noteq> []"
      then obtain i where i: "i \<in> set ps" using hd_in_set by blast
      then have "in_intervals ps (fst i)" using P(3) by (auto simp: in_intervals_def)
      then show False using P(2) none cov by blast
    qed
    moreover have "t2 = t1 \<and> ds = []" using g(8) none r1 cov by blast
    ultimately show ?thesis using f(1,7) by simp
  qed
  ultimately show ?case using f(4) g(5) by (intro exI [of _ "cs @ ds"] exI [of _ t2] exI [of _ r2]) auto
qed

end
