(* ===== verification/Tracker_Correct.thy ===== *)
theory Tracker_Correct
  imports Buffer_Downloads "HOL-Library.FSet"
begin

text \<open>
  The whole tracker: the invariant \<open>tracker_ok\<close> over the pool of managers, the page table and the watch counts, a rule for the loop
  over regions, the effect of every public operation on the sets of CPU- and GPU-modified
  pages, and the states a run reaches.
\<close>

definition cpu_modified :: "MemoryTracker \<Rightarrow> nat \<Rightarrow> bool" where
  "cpu_modified mt p = (case top_tier mt (p div 1024) of None \<Rightarrow> True | Some i \<Rightarrow> ba_bit (rm_cpu (manager_pool mt ! i)) (p mod 1024))"

definition gpu_modified :: "MemoryTracker \<Rightarrow> nat \<Rightarrow> bool" where
  "gpu_modified mt p = (case top_tier mt (p div 1024) of None \<Rightarrow> False | Some i \<Rightarrow> ba_bit (rm_gpu (manager_pool mt ! i)) (p mod 1024))"

definition tracker_ok :: "tracker_env \<Rightarrow> (nat \<Rightarrow> nat) \<Rightarrow> MemoryTracker \<Rightarrow> bool" where
  "tracker_ok env others mt \<longleftrightarrow>
     (\<forall>q i. top_tier mt q = Some i \<longrightarrow> q < 2 ^ 18 \<and> i < length (manager_pool mt) \<and> i \<notin> set (free_managers mt)
        \<and> rm_cpu_addr (manager_pool mt ! i) = q * 2 ^ 22 \<and> region_ok env (manager_pool mt ! i))
   \<and> (\<forall>q q' i. top_tier mt q = Some i \<and> top_tier mt q' = Some i \<longrightarrow> q = q')
   \<and> distinct (free_managers mt)
   \<and> (\<forall>i. i \<in> set (free_managers mt) \<longrightarrow> i < length (manager_pool mt) \<and> manager_pool mt ! i = RegionManager_init 0)
   \<and> pages_protected (page_tracker mt)
   \<and> (\<forall>p. watch_state env (others p) (cpu_modified mt p) (gpu_modified mt p) (cached_pages (page_tracker mt) p))"

definition locks_held :: "(nat \<Rightarrow> bool) \<Rightarrow> MemoryTracker \<Rightarrow> bool" where
  "locks_held L mt \<longleftrightarrow> (\<forall>q i. top_tier mt q = Some i \<longrightarrow> (rm_lock (manager_pool mt ! i) \<longleftrightarrow> L q))"

lemma tracker_region:
  assumes "tracker_ok env others mt" "top_tier mt q = Some i"
  shows "region_state env others q (manager_pool mt ! i) (page_tracker mt)" "i < length (manager_pool mt)"
    "p div 1024 = q \<Longrightarrow> cpu_modified mt p \<longleftrightarrow> ba_bit (rm_cpu (manager_pool mt ! i)) (p mod 1024)"
    "p div 1024 = q \<Longrightarrow> gpu_modified mt p \<longleftrightarrow> ba_bit (rm_gpu (manager_pool mt ! i)) (p mod 1024)"
proof -
  have "watch_state env (others p) (ba_bit (rm_cpu (manager_pool mt ! i)) (p mod 1024)) (ba_bit (rm_gpu (manager_pool mt ! i)) (p mod 1024))
      (cached_pages (page_tracker mt) p)" if "p div 1024 = q" for p
  proof -
    have "watch_state env (others p) (cpu_modified mt p) (gpu_modified mt p) (cached_pages (page_tracker mt) p)"
      using assms(1) by (simp add: tracker_ok_def)
    then show ?thesis using assms(2) that by (simp add: cpu_modified_def gpu_modified_def)
  qed
  then show "region_state env others q (manager_pool mt ! i) (page_tracker mt)" "i < length (manager_pool mt)"
    using assms by (simp_all add: tracker_ok_def region_state_def)
  show "cpu_modified mt p \<longleftrightarrow> ba_bit (rm_cpu (manager_pool mt ! i)) (p mod 1024)" "gpu_modified mt p \<longleftrightarrow> ba_bit (rm_gpu (manager_pool mt ! i)) (p mod 1024)"
    if "p div 1024 = q" using that assms(2) by (simp_all add: cpu_modified_def gpu_modified_def)
qed

lemma put_manager_ok:
  assumes mt: "tracker_ok env others mt" "top_tier mt q = Some i"
    and rs: "region_state env others q rm pm" and out: "\<forall>p. p div 1024 \<noteq> q \<longrightarrow> cached_pages pm p = cached_pages (page_tracker mt) p"
  defines "mt' \<equiv> put_manager i (rm, pm) mt"
  shows "tracker_ok env others mt'" "top_tier mt' = top_tier mt"
    "cpu_modified mt' p = (if p div 1024 = q then ba_bit (rm_cpu rm) (p mod 1024) else cpu_modified mt p)"
    "gpu_modified mt' p = (if p div 1024 = q then ba_bit (rm_gpu rm) (p mod 1024) else gpu_modified mt p)"
    "locks_held L mt \<Longrightarrow> locks_held (L(q := rm_lock rm)) mt'"
    "manager_pool mt' ! i = rm" "page_tracker mt' = pm"
proof -
  note M = mt(1) [unfolded tracker_ok_def]
  have i: "i < length (manager_pool mt)" "i \<notin> set (free_managers mt)" using M mt(2) by blast+
  have mt': "top_tier mt' = top_tier mt" "manager_pool mt' = (manager_pool mt)[i := rm]" "free_managers mt' = free_managers mt"
    "page_tracker mt' = pm" by (simp_all add: mt'_def put_manager_def)
  then show "top_tier mt' = top_tier mt" "manager_pool mt' ! i = rm" "page_tracker mt' = pm" using i by simp_all
  have other: "j \<noteq> i" if "top_tier mt q' = Some j" "q' \<noteq> q" for q' j using M mt(2) that by blast
  have c: "cpu_modified mt' p = (if p div 1024 = q then ba_bit (rm_cpu rm) (p mod 1024) else cpu_modified mt p)" for p
    using mt(2) i other [of "p div 1024"] by (auto simp: cpu_modified_def mt' split: option.split)
  have g: "gpu_modified mt' p = (if p div 1024 = q then ba_bit (rm_gpu rm) (p mod 1024) else gpu_modified mt p)" for p
    using mt(2) i other [of "p div 1024"] by (auto simp: gpu_modified_def mt' split: option.split)
  show "cpu_modified mt' p = (if p div 1024 = q then ba_bit (rm_cpu rm) (p mod 1024) else cpu_modified mt p)"
    "gpu_modified mt' p = (if p div 1024 = q then ba_bit (rm_gpu rm) (p mod 1024) else gpu_modified mt p)" by (fact c g)+
  have w: "watch_state env (others p) (cpu_modified mt' p) (gpu_modified mt' p) (cached_pages (page_tracker mt') p)" for p
    using rs out M unfolding c g mt' region_state_def by (cases "p div 1024 = q") auto
  have r: "region_ok env rm" "rm_cpu_addr rm = q * 2 ^ 22" "pages_protected pm" using rs by (simp_all add: region_state_def)
  have e: "q' < 2 ^ 18 \<and> j < length (manager_pool mt') \<and> j \<notin> set (free_managers mt') \<and> rm_cpu_addr (manager_pool mt' ! j) = q' * 2 ^ 22
      \<and> region_ok env (manager_pool mt' ! j)" if j: "top_tier mt q' = Some j" for q' j
  proof (cases "q' = q")
    case True
    then have "j = i" using j mt(2) by simp
    then show ?thesis using True M j r i by (simp add: mt')
  next
    case False
    then show ?thesis using M j other [OF j False] by (simp add: mt')
  qed
  have f: "\<forall>j. j \<in> set (free_managers mt') \<longrightarrow> j < length (manager_pool mt') \<and> manager_pool mt' ! j = RegionManager_init 0"
    using M i(2) unfolding mt' by (metis length_list_update nth_list_update_neq)
  show "tracker_ok env others mt'" unfolding tracker_ok_def using e f w r(3) M by (simp add: mt')
  show "locks_held (L(q := rm_lock rm)) mt'" if "locks_held L mt"
    unfolding locks_held_def
  proof (intro allI impI)
    fix q' j assume j: "top_tier mt' q' = Some j"
    show "rm_lock (manager_pool mt' ! j) \<longleftrightarrow> (L(q := rm_lock rm)) q'"
    proof (cases "q' = q")
      case True
      then show ?thesis using j mt(2) i by (simp add: mt')
    next
      case False
      then show ?thesis using that j other [of q' j] by (simp add: mt' locks_held_def)
    qed
  qed
qed

lemma region_state_lock: "region_state env others q (rm\<lparr>rm_lock := b\<rparr>) pm \<longleftrightarrow> region_state env others q rm pm"
  by (simp add: region_state_def region_ok_def)

lemma lock_put:
  assumes "tracker_ok env others mt" "top_tier mt q = Some i" "locks_held L mt" "\<not> L q"
  shows "lock_manager i mt = Some (put_manager i ((manager_pool mt ! i)\<lparr>rm_lock := True\<rparr>, page_tracker mt) mt)"
  using assms by (simp add: lock_manager_def locks_held_def put_manager_def)

lemma unlock_put: "unlock_manager i mt = put_manager i ((manager_pool mt ! i)\<lparr>rm_lock := False\<rparr>, page_tracker mt) mt"
  by (simp add: unlock_manager_def put_manager_def)

text \<open>What locking and unlocking keep.\<close>

lemma relock_ok:
  fixes b :: bool
  assumes "tracker_ok env others mt" "top_tier mt q = Some i" "locks_held L mt"
  defines "mt' \<equiv> put_manager i ((manager_pool mt ! i)\<lparr>rm_lock := b\<rparr>, page_tracker mt) mt"
  shows "tracker_ok env others mt'" "top_tier mt' = top_tier mt" "cpu_modified mt' = cpu_modified mt" "gpu_modified mt' = gpu_modified mt"
    "locks_held (L(q := b)) mt'" "manager_pool mt' ! i = (manager_pool mt ! i)\<lparr>rm_lock := b\<rparr>" "page_tracker mt' = page_tracker mt"
proof -
  note T = tracker_region [OF assms(1,2)]
  have "region_state env others q ((manager_pool mt ! i)\<lparr>rm_lock := b\<rparr>) (page_tracker mt)" using T(1) by (simp add: region_state_lock)
  note P = put_manager_ok [OF assms(1,2) this, folded mt'_def]
  show "tracker_ok env others mt'" "top_tier mt' = top_tier mt" "manager_pool mt' ! i = (manager_pool mt ! i)\<lparr>rm_lock := b\<rparr>"
    "page_tracker mt' = page_tracker mt" by (rule P, simp)+
  show "cpu_modified mt' = cpu_modified mt" using P(3) T(3) by (auto simp: fun_eq_iff)
  show "gpu_modified mt' = gpu_modified mt" using P(4) T(4) by (auto simp: fun_eq_iff)
  show "locks_held (L(q := b)) mt'" using P(5) [OF _ assms(3)] by simp
qed

definition modified_changed :: "Type \<Rightarrow> bool \<Rightarrow> (nat \<Rightarrow> bool) \<Rightarrow> MemoryTracker \<Rightarrow> MemoryTracker \<Rightarrow> bool" where
  "modified_changed type v T mt mt' \<longleftrightarrow>
     (\<forall>p. (cpu_modified mt' p \<longleftrightarrow> (if type = Type_CPU \<and> T p then v else cpu_modified mt p))
        \<and> (gpu_modified mt' p \<longleftrightarrow> (if type = Type_GPU \<and> T p then v else gpu_modified mt p)))"

lemma put_changed:
  assumes mt: "tracker_ok env others mt" "top_tier mt q = Some i" "locks_held L mt"
    and rs: "region_state env others q rm pm" and out: "\<forall>p. p div 1024 \<noteq> q \<longrightarrow> cached_pages pm p = cached_pages (page_tracker mt) p"
    and ch: "bits_changed type v T q (manager_pool mt ! i) rm" and T: "\<forall>p. T p \<longrightarrow> p div 1024 = q"
  shows "tracker_ok env others (put_manager i (rm, pm) mt)" "top_tier (put_manager i (rm, pm) mt) = top_tier mt"
    "modified_changed type v T mt (put_manager i (rm, pm) mt)" "locks_held L (put_manager i (rm, pm) mt)"
proof -
  note P = put_manager_ok [OF mt(1,2) rs out]
  note R = tracker_region [OF mt(1,2)]
  show "tracker_ok env others (put_manager i (rm, pm) mt)" "top_tier (put_manager i (rm, pm) mt) = top_tier mt" by (rule P)+
  have b: "p div 1024 = q \<longrightarrow> (ba_bit (rm_cpu rm) (p mod 1024) \<longleftrightarrow> (if type = Type_CPU \<and> T p then v else cpu_modified mt p))
      \<and> (ba_bit (rm_gpu rm) (p mod 1024) \<longleftrightarrow> (if type = Type_GPU \<and> T p then v else gpu_modified mt p))" for p
    using ch R(3,4) by (simp add: bits_changed_def)
  show "modified_changed type v T mt (put_manager i (rm, pm) mt)"
    unfolding modified_changed_def P(3,4) using b T by auto
  have "rm_lock rm \<longleftrightarrow> L q" using ch mt(2,3) by (auto simp: bits_changed_def locks_held_def)
  then show "locks_held L (put_manager i (rm, pm) mt)" using P(5) [OF mt(3)] by (simp add: fun_upd_idem)
qed

lemma change_state_ok:
  assumes mt: "tracker_ok env others mt" "top_tier mt q = Some i" "locks_held L mt" and sz: "0 < sz" "off + sz \<le> 2 ^ 22"
    and ok: "change_allowed env type v (touched (q * 2 ^ 22 + off) sz) (cpu_modified mt) (gpu_modified mt)"
  shows "\<exists>mt'. change_state env type v i off sz mt = Some mt' \<and> tracker_ok env others mt' \<and> top_tier mt' = top_tier mt
    \<and> modified_changed type v (touched (q * 2 ^ 22 + off) sz) mt mt' \<and> locks_held L mt'"
proof -
  note R = tracker_region [OF mt(1,2)]
  have T: "\<forall>p. touched (q * 2 ^ 22 + off) sz p \<longrightarrow> p div 1024 = q" using region_range(5) [OF sz] by blast
  have "change_allowed env type v (touched (q * 2 ^ 22 + off) sz) (region_bits q (rm_cpu (manager_pool mt ! i))) (region_bits q (rm_gpu (manager_pool mt ! i)))"
    using ok R(3,4) T by (auto simp: change_allowed_def region_bits_def)
  from ChangeRegionState_ok [OF R(1) sz this] obtain rm pm where
    c: "ChangeRegionState env type v (add64 (rm_cpu_addr (manager_pool mt ! i)) off) sz (manager_pool mt ! i, page_tracker mt) = Some (rm, pm)"
    "region_state env others q rm pm" "bits_changed type v (touched (q * 2 ^ 22 + off) sz) q (manager_pool mt ! i) rm"
    "\<forall>p. p div 1024 \<noteq> q \<longrightarrow> cached_pages pm p = cached_pages (page_tracker mt) p" by blast
  have "change_state env type v i off sz mt = Some (put_manager i (rm, pm) mt)"
    using c(1) by (simp add: change_state_def manager_addr_def manager_state_def)
  then show ?thesis using put_changed [OF mt c(2,4,3) T] by blast
qed

lemma for_each_modified_ok:
  assumes mt: "tracker_ok env others mt" "top_tier mt q = Some i" "locks_held L mt" and sz: "0 < sz" "off + sz \<le> 2 ^ 22"
    and t: "clear \<longrightarrow> type = Type_CPU"
  shows "\<exists>rs mt'. for_each_modified env type clear i off sz (calls, mt) = Some (calls @ map (\<lambda>(a, n). Func a n) rs, mt')
    \<and> tracker_ok env others mt' \<and> top_tier mt' = top_tier mt
    \<and> modified_changed type False (\<lambda>p. clear \<and> touched (q * 2 ^ 22 + off) sz p) mt mt' \<and> locks_held L mt'
    \<and> (\<forall>p. covers rs p \<longleftrightarrow> touched (q * 2 ^ 22 + off) sz p \<and> (if type = Type_CPU then cpu_modified mt p else gpu_modified mt p))
    \<and> page_calls rs"
proof -
  note R = tracker_region [OF mt(1,2)]
  have T: "\<forall>p. touched (q * 2 ^ 22 + off) sz p \<longrightarrow> p div 1024 = q" using region_range(5) [OF sz] by blast
  from ForEachModifiedRange_ok [OF R(1) sz t] obtain rs rm pm where
    c: "ForEachModifiedRange env type clear (add64 (rm_cpu_addr (manager_pool mt ! i)) off) sz (manager_pool mt ! i, page_tracker mt) = Some (rs, rm, pm)"
    "region_state env others q rm pm" "bits_changed type False (\<lambda>p. clear \<and> touched (q * 2 ^ 22 + off) sz p) q (manager_pool mt ! i) rm"
    "\<forall>p. p div 1024 \<noteq> q \<longrightarrow> cached_pages pm p = cached_pages (page_tracker mt) p"
    "\<forall>p. covers rs p \<longleftrightarrow> touched (q * 2 ^ 22 + off) sz p \<and> region_bits q (GetRegionBits type (manager_pool mt ! i)) p" "page_calls rs" by blast
  have f: "for_each_modified env type clear i off sz (calls, mt) = Some (calls @ map (\<lambda>(a, n). Func a n) rs, put_manager i (rm, pm) mt)"
    using c(1) by (simp add: for_each_modified_def manager_addr_def manager_state_def)
  have cov: "\<forall>p. covers rs p \<longleftrightarrow> touched (q * 2 ^ 22 + off) sz p \<and> (if type = Type_CPU then cpu_modified mt p else gpu_modified mt p)"
    using c(5) T R(3,4) by (cases type) (auto simp: region_bits_def GetRegionBits_def)
  have "\<forall>p. clear \<and> touched (q * 2 ^ 22 + off) sz p \<longrightarrow> p div 1024 = q" using T by blast
  from put_changed [OF mt c(2,4,3) this] show ?thesis using f cov c(6) by blast
qed

lemma RegionManager_init_bits:
  "region_ok env (RegionManager_init a)" "rm_lock (RegionManager_init a) = False" "rm_cpu_addr (RegionManager_init a) = a"
  "(RegionManager_init a)\<lparr>rm_cpu_addr := b\<rparr> = RegionManager_init b"
  "ba_bit (rm_cpu (RegionManager_init a)) i \<longleftrightarrow> i < 1024" "\<not> ba_bit (rm_gpu (RegionManager_init a)) i"
proof -
  have "ba_not (ba_Clear empty_bits) = ba_Fill empty_bits" by (rule ba_eqI) (simp_all add: ba_op_bits(4) [OF refl] ba_fill_bits ba_size_def)
  then show "region_ok env (RegionManager_init a)" by (simp add: region_ok_def RegionManager_init_def)
  show "ba_bit (rm_cpu (RegionManager_init a)) i \<longleftrightarrow> i < 1024" "\<not> ba_bit (rm_gpu (RegionManager_init a)) i"
    by (simp_all add: RegionManager_init_def ba_fill_bits ba_size_def)
qed (simp_all add: RegionManager_init_def)

lemma grow_pool_ok:
  assumes "tracker_ok env others mt"
  shows "tracker_ok env others (grow_pool mt)" "top_tier (grow_pool mt) = top_tier mt" "page_tracker (grow_pool mt) = page_tracker mt"
    "free_managers (grow_pool mt) \<noteq> []" "locks_held L mt \<Longrightarrow> locks_held L (grow_pool mt)"
    "cpu_modified (grow_pool mt) = cpu_modified mt" "gpu_modified (grow_pool mt) = gpu_modified mt"
proof -
  note M = assms [unfolded tracker_ok_def]
  have f: "top_tier (grow_pool mt) = top_tier mt" "page_tracker (grow_pool mt) = page_tracker mt" by (simp_all add: grow_pool_def)
  have nth: "manager_pool (grow_pool mt) ! i = manager_pool mt ! i" if "i < length (manager_pool mt)" for i
    using that by (simp add: grow_pool_def nth_append)
  have len: "length (manager_pool mt) \<le> length (manager_pool (grow_pool mt))" by (simp add: grow_pool_def)
  have bound: "top_tier mt q = Some i \<Longrightarrow> i < length (manager_pool mt)" for q i using M by blast
  show c: "cpu_modified (grow_pool mt) = cpu_modified mt" "gpu_modified (grow_pool mt) = gpu_modified mt"
    using bound nth by (auto simp: cpu_modified_def gpu_modified_def f fun_eq_iff split: option.split)
  show "top_tier (grow_pool mt) = top_tier mt" "page_tracker (grow_pool mt) = page_tracker mt" by (fact f)+
  show "free_managers (grow_pool mt) \<noteq> []" by (simp add: grow_pool_def MANAGER_POOL_SIZE_def)
  show "locks_held L (grow_pool mt)" if "locks_held L mt"
    using that bound nth unfolding locks_held_def f by metis
  have fr: "i \<notin> set (free_managers (grow_pool mt))" if "top_tier mt q = Some i" for q i
  proof (cases "free_managers mt = []")
    case True
    then show ?thesis using bound [OF that] by (simp add: grow_pool_def)
  next
    case False
    then show ?thesis using M that by (simp add: grow_pool_def)
  qed
  have d: "distinct (free_managers (grow_pool mt))" using M by (simp add: grow_pool_def)
  have fi: "\<forall>i. i \<in> set (free_managers (grow_pool mt)) \<longrightarrow> i < length (manager_pool (grow_pool mt)) \<and> manager_pool (grow_pool mt) ! i = RegionManager_init 0"
    using M by (auto simp: grow_pool_def nth_append)
  have t: "q < 2 ^ 18 \<and> i < length (manager_pool (grow_pool mt)) \<and> i \<notin> set (free_managers (grow_pool mt))
        \<and> rm_cpu_addr (manager_pool (grow_pool mt) ! i) = q * 2 ^ 22 \<and> region_ok env (manager_pool (grow_pool mt) ! i)"
    if "top_tier mt q = Some i" for q i
  proof -
    have "i < length (manager_pool (grow_pool mt))" using bound [OF that] len by linarith
    then show ?thesis using M that nth [OF bound [OF that]] fr [OF that] by simp
  qed
  show "tracker_ok env others (grow_pool mt)"
    unfolding tracker_ok_def f c using t d fi M by blast
qed

lemma CreateRegion_ok:
  assumes mt: "tracker_ok env others mt" "top_tier mt q = None" "q < 2 ^ 18"
  shows "\<exists>i. top_tier (CreateRegion q mt) = (top_tier mt)(q := Some i)" "tracker_ok env others (CreateRegion q mt)"
    "cpu_modified (CreateRegion q mt) = cpu_modified mt" "gpu_modified (CreateRegion q mt) = gpu_modified mt"
    "locks_held L mt \<Longrightarrow> \<not> L q \<Longrightarrow> locks_held L (CreateRegion q mt)" "page_tracker (CreateRegion q mt) = page_tracker mt"
proof -
  note G = grow_pool_ok [OF mt(1)]
  define g where "g = grow_pool mt"
  note M = G(1) [folded g_def, unfolded tracker_ok_def]
  define i where "i = last (free_managers g)"
  have i: "i \<in> set (free_managers g)" using G(4) by (simp add: i_def g_def)
  have i': "i < length (manager_pool g)" "manager_pool g ! i = RegionManager_init 0" using M i by blast+
  have gt: "top_tier g = top_tier mt" "page_tracker g = page_tracker mt" using G by (simp_all add: g_def)
  have neq: "j \<noteq> i" "j < length (manager_pool g)" if "top_tier mt q' = Some j" for q' j using M i that gt by metis+
  define c where "c = CreateRegion q mt"
  have c: "top_tier c = (top_tier mt)(q := Some i)" "page_tracker c = page_tracker mt"
    "free_managers c = butlast (free_managers g)" "manager_pool c = (manager_pool g)[i := RegionManager_init (q * 2 ^ 22)]"
    using i' by (simp_all add: c_def CreateRegion_def Let_def g_def [symmetric] i_def [symmetric] gt RegionManager_init_bits
        TRACKER_HIGHER_PAGE_BITS_def push_bit_eq_mult)
  show "\<exists>i. top_tier (CreateRegion q mt) = (top_tier mt)(q := Some i)" "page_tracker (CreateRegion q mt) = page_tracker mt"
    using c by (auto simp: c_def)
  have cp: "cpu_modified c p = cpu_modified g p" "gpu_modified c p = gpu_modified g p" for p
  proof -
    have "manager_pool c ! j = manager_pool g ! j" if "top_tier mt q' = Some j" for q' j using neq [OF that] by (simp add: c)
    then show "cpu_modified c p = cpu_modified g p" "gpu_modified c p = gpu_modified g p"
      using mt(2) i' by (auto simp: cpu_modified_def gpu_modified_def c(1) gt RegionManager_init_bits split: option.split) (simp_all add: c(4) RegionManager_init_bits)
  qed
  show cm: "cpu_modified (CreateRegion q mt) = cpu_modified mt" "gpu_modified (CreateRegion q mt) = gpu_modified mt"
    using cp G(6,7) by (auto simp: c_def g_def fun_eq_iff)
  show "locks_held L (CreateRegion q mt)" if "locks_held L mt" "\<not> L q"
    unfolding c_def [symmetric] locks_held_def
  proof (intro allI impI)
    fix q' j assume j: "top_tier c q' = Some j"
    show "rm_lock (manager_pool c ! j) \<longleftrightarrow> L q'"
    proof (cases "q' = q")
      case True
      then show ?thesis using j that(2) i'(1) by (simp add: c RegionManager_init_bits)
    next
      case False
      then have jt: "top_tier mt q' = Some j" using j c(1) by simp
      then have "rm_lock (manager_pool g ! j) \<longleftrightarrow> L q'" using G(5) [OF that(1)] unfolding locks_held_def g_def [symmetric] gt(1) by blast
      then show ?thesis using neq [OF jt] by (simp add: c)
    qed
  qed
  have split: "free_managers g = butlast (free_managers g) @ [i]" using G(4) by (simp add: i_def g_def)
  have dist: "distinct (butlast (free_managers g))" "i \<notin> set (butlast (free_managers g))"
  proof -
    have d: "distinct (butlast (free_managers g) @ [i])" using M split by simp
    then show "distinct (butlast (free_managers g))" "i \<notin> set (butlast (free_managers g))" by simp_all
  qed
  have t: "q' < 2 ^ 18 \<and> j < length (manager_pool c) \<and> j \<notin> set (free_managers c)
        \<and> rm_cpu_addr (manager_pool c ! j) = q' * 2 ^ 22 \<and> region_ok env (manager_pool c ! j)" if j: "top_tier c q' = Some j" for q' j
  proof (cases "q' = q")
    case True
    then have "j = i" using j c(1) by simp
    then show ?thesis using True mt(3) dist(2) i' by (simp add: c RegionManager_init_bits)
  next
    case False
    then have jt: "top_tier mt q' = Some j" using j c(1) by simp
    have "j \<notin> set (butlast (free_managers g))" using M jt gt by (metis in_set_butlastD)
    then show ?thesis using M jt neq [OF jt] gt(1) by (simp add: c)
  qed
  have inj: "\<forall>q1 q2 j. top_tier c q1 = Some j \<and> top_tier c q2 = Some j \<longrightarrow> q1 = q2"
    using M neq unfolding c(1) gt(1) by (metis fun_upd_apply option.inject)
  have free: "\<forall>j. j \<in> set (free_managers c) \<longrightarrow> j < length (manager_pool c) \<and> manager_pool c ! j = RegionManager_init 0"
    using M dist(2) unfolding c by (metis in_set_butlastD length_list_update nth_list_update_neq)
  have w: "\<forall>p. watch_state env (others p) (cpu_modified c p) (gpu_modified c p) (cached_pages (page_tracker c) p)"
    using M by (simp add: cp c(2) gt(2))
  show "tracker_ok env others (CreateRegion q mt)"
    unfolding c_def [symmetric] tracker_ok_def using t inj free w dist(1) M c(2,3) gt(2) by simp
qed

lemma touched_empty [simp]: "\<not> touched a 0 p"
  by (simp add: touched_def)

lemma touched_split:
  assumes "A \<le> a"
  shows "touched A (a + sz - A) p \<longleftrightarrow> touched A (a - A) p \<or> touched a sz p"
proof -
  have e: "A + (a + sz - A) = a + sz" "A + (a - A) = a" using assms by simp_all
  have "(\<exists>x. A \<le> x \<and> x < a + sz \<and> x div 4096 = p) \<longleftrightarrow> (\<exists>x. A \<le> x \<and> x < a \<and> x div 4096 = p) \<or> (\<exists>x. a \<le> x \<and> x < a + sz \<and> x div 4096 = p)"
    using assms by (metis le_trans not_le trans_less_add1)
  then show ?thesis unfolding touched_def e .
qed

definition chunk :: "nat \<Rightarrow> nat \<Rightarrow> nat \<Rightarrow> nat \<Rightarrow> nat \<Rightarrow> bool" where
  "chunk A E q off sz \<longleftrightarrow> 0 < sz \<and> off + sz \<le> 2 ^ 22 \<and> q < 2 ^ 18 \<and> A \<le> q * 2 ^ 22 + off \<and> q * 2 ^ 22 + off + sz \<le> E
     \<and> (off = 0 \<or> q * 2 ^ 22 + off = A)"

lemma iterate_loop_rule:
  fixes R :: "nat \<Rightarrow> 'x \<times> MemoryTracker \<Rightarrow> bool" and Q :: "'x \<times> MemoryTracker \<Rightarrow> bool"
  assumes step: "\<forall>q off sz x mt i. chunk A E q off sz \<and> R (q * 2 ^ 22 + off) (x, mt) \<and> top_tier mt q = Some i \<longrightarrow>
      (\<exists>b st'. func i off sz (x, mt) = Some (b, st') \<and> (if b then Q st' else R (q * 2 ^ 22 + off + sz) st'))"
    and new: "\<forall>q off sz x mt. chunk A E q off sz \<and> create \<and> R (q * 2 ^ 22 + off) (x, mt) \<and> top_tier mt q = None \<longrightarrow>
      R (q * 2 ^ 22 + off) (x, CreateRegion q mt) \<and> top_tier (CreateRegion q mt) q \<noteq> None"
    and skip: "\<forall>q off sz x mt. chunk A E q off sz \<and> \<not> create \<and> R (q * 2 ^ 22 + off) (x, mt) \<and> top_tier mt q = None \<longrightarrow>
      R (q * 2 ^ 22 + off + sz) (x, mt)"
    and E: "E \<le> 2 ^ 40"
    and cur: "0 < n \<longrightarrow> cur = q * 2 ^ 22 + off \<and> off < 2 ^ 22 \<and> (off = 0 \<or> cur = A)" "cur + n = E" "A \<le> cur" "R cur st"
  shows "\<exists>b st'. iterate_loop create func q off n st = Some (b, st') \<and> (if b then Q st' else R E st')"
  using cur
proof (induction "2 ^ 18 - q" arbitrary: q off n st cur rule: less_induct)
  case less
  show ?case
  proof (cases "0 < n")
    case False
    then have "iterate_loop create func q off n st = Some (False, st)" by (subst iterate_loop.simps) simp
    then show ?thesis using False less.prems by auto
  next
    case True
    have c: "cur = q * 2 ^ 22 + off" "off < 2 ^ 22" "off = 0 \<or> cur = A" using less.prems(1) True by auto
    have q: "q < 2 ^ 18"
    proof (rule ccontr)
      assume "\<not> q < 2 ^ 18"
      then have "2 ^ 18 * 2 ^ 22 \<le> q * 2 ^ 22" by (intro mult_right_mono) auto
      then show False using E less.prems(2) True c(1) by simp
    qed
    define m where "m = min (TRACKER_HIGHER_PAGE_SIZE - off) n"
    have m: "0 < m" "off + m \<le> 2 ^ 22" "m \<le> n" "m < n \<longrightarrow> off + m = 2 ^ 22"
      using True c(2) by (auto simp: m_def TRACKER_HIGHER_PAGE_SIZE_def)
    have ch: "chunk A E q off m" using m q c less.prems(2,3) by (auto simp: chunk_def)
    obtain x mt where st: "st = (x, mt)" by (cases st)
    have R: "R (q * 2 ^ 22 + off) (x, mt)" using less.prems(4) c(1) st by simp
    define res where "res = (case top_tier (snd st) q of
             Some manager \<Rightarrow> func manager off m st
           | None \<Rightarrow>
               if create
               then let mt' = CreateRegion q (snd st)
                    in func (the (top_tier mt' q)) off m (fst st, mt')
               else Some (False, st))"
    have "\<exists>b st'. res = Some (b, st') \<and> (if b then Q st' else R (q * 2 ^ 22 + off + m) st')"
    proof (cases "top_tier mt q")
      case (Some i)
      then show ?thesis using step [rule_format, of q off m x mt i] ch R by (simp add: res_def st)
    next
      case None
      show ?thesis
      proof (cases create)
        case True
        then have n: "R (q * 2 ^ 22 + off) (x, CreateRegion q mt)" "top_tier (CreateRegion q mt) q \<noteq> None"
          using new ch R None by blast+
        then obtain i where "top_tier (CreateRegion q mt) q = Some i" by blast
        then show ?thesis using step [rule_format, of q off m x "CreateRegion q mt" i] ch n(1) None True by (simp add: res_def st)
      next
        case False
        then have "R (q * 2 ^ 22 + off + m) (x, mt)" using skip ch R None by blast
        then show ?thesis using False None by (intro exI [of _ False] exI [of _ st]) (simp add: res_def st)
      qed
    qed
    then obtain b st' where r: "res = Some (b, st')" "if b then Q st' else R (q * 2 ^ 22 + off + m) st'" by blast
    have it: "iterate_loop create func q off n st = (if b then Some (True, st') else iterate_loop create func (q + 1) 0 (n - m) st')"
    proof -
      have "\<not> NUM_HIGH_PAGES \<le> q" using q by (simp add: NUM_HIGH_PAGES_def)
      then have "iterate_loop create func q off n st = res \<bind> (\<lambda>(stop, st').
          if stop then Some (True, st') else iterate_loop create func (q + 1) 0 (n - m) st')"
        using True by (subst iterate_loop.simps) (simp only: if_True if_False m_def [symmetric] Let_def [of m] res_def [symmetric])
      then show ?thesis by (simp add: r(1))
    qed
    show ?thesis
    proof (cases b)
      case True
      then show ?thesis using it r(2) by auto
    next
      case False
      have "2 ^ 18 - (q + 1) < 2 ^ 18 - q" using q by linarith
      moreover have "0 < n - m \<longrightarrow> cur + m = (q + 1) * 2 ^ 22 + 0 \<and> (0 :: nat) < 2 ^ 22 \<and> ((0 :: nat) = 0 \<or> cur + m = A)"
        using m c(1) by auto
      moreover have "cur + m + (n - m) = E" "A \<le> cur + m" "R (cur + m) st'" using less.prems m r(2) False c(1) by auto
      ultimately show ?thesis using less.hyps [of "q + 1" "n - m" "cur + m" 0 st'] it False by simp
    qed
  qed
qed

lemma IteratePages_rule:
  fixes R :: "nat \<Rightarrow> 'x \<times> MemoryTracker \<Rightarrow> bool" and Q :: "'x \<times> MemoryTracker \<Rightarrow> bool"
  assumes step: "\<forall>q off sz x mt i. chunk A (A + S) q off sz \<and> R (q * 2 ^ 22 + off) (x, mt) \<and> top_tier mt q = Some i \<longrightarrow>
      (\<exists>b st'. func i off sz (x, mt) = Some (b, st') \<and> (if b then Q st' else R (q * 2 ^ 22 + off + sz) st'))"
    and new: "\<forall>q off sz x mt. chunk A (A + S) q off sz \<and> create \<and> R (q * 2 ^ 22 + off) (x, mt) \<and> top_tier mt q = None \<longrightarrow>
      R (q * 2 ^ 22 + off) (x, CreateRegion q mt) \<and> top_tier (CreateRegion q mt) q \<noteq> None"
    and skip: "\<forall>q off sz x mt. chunk A (A + S) q off sz \<and> \<not> create \<and> R (q * 2 ^ 22 + off) (x, mt) \<and> top_tier mt q = None \<longrightarrow>
      R (q * 2 ^ 22 + off + sz) (x, mt)"
    and lim: "A + S \<le> 2 ^ 40" and st: "R A st"
  shows "\<exists>b st'. IteratePages create func A S st = Some (b, st') \<and> (if b then Q st' else R (A + S) st')"
proof -
  have q: "drop_bit TRACKER_HIGHER_PAGE_BITS A = A div 2 ^ 22" by (simp add: TRACKER_HIGHER_PAGE_BITS_def drop_bit_eq_div)
  have o: "A AND (TRACKER_HIGHER_PAGE_SIZE - 1) = A mod 2 ^ 22"
    using and_mask_nat [of A 22] by (simp add: TRACKER_HIGHER_PAGE_SIZE_def)
  have "0 < S \<longrightarrow> A = A div 2 ^ 22 * 2 ^ 22 + A mod 2 ^ 22 \<and> A mod 2 ^ 22 < (2 ^ 22 :: nat) \<and> (A mod 2 ^ 22 = 0 \<or> A = A)" by simp
  from iterate_loop_rule [OF step new skip lim this refl order_refl st] show ?thesis
    unfolding IteratePages_def q o .
qed

lemma chunk_facts:
  assumes "chunk A E q off sz"
  shows "0 < sz" "off + sz \<le> 2 ^ 22" "q < 2 ^ 18" "A \<le> q * 2 ^ 22 + off"
    "touched (q * 2 ^ 22 + off) sz p \<Longrightarrow> p div 1024 = q" "touched A (q * 2 ^ 22 + off - A) p \<Longrightarrow> p div 1024 < q"
    "touched A (q * 2 ^ 22 + off + sz - A) p \<longleftrightarrow> touched A (q * 2 ^ 22 + off - A) p \<or> touched (q * 2 ^ 22 + off) sz p"
    "touched (q * 2 ^ 22 + off) sz p \<Longrightarrow> touched A (E - A) p"
    "\<exists>p. touched (q * 2 ^ 22 + off) sz p"
proof -
  show c: "0 < sz" "off + sz \<le> 2 ^ 22" "q < 2 ^ 18" "A \<le> q * 2 ^ 22 + off" using assms by (simp_all add: chunk_def)
  show "p div 1024 = q" if "touched (q * 2 ^ 22 + off) sz p" using region_range(5) [OF c(1,2) that] .
  show "p div 1024 < q" if tch: "touched A (q * 2 ^ 22 + off - A) p"
  proof -
    obtain x where x: "A \<le> x" "x < q * 2 ^ 22 + off" "x div 4096 = p" 
      using tch unfolding touched_def le_add_diff_inverse [OF c(4)] by blast
    moreover have "off = 0 \<or> q * 2 ^ 22 + off = A" using assms by (simp add: chunk_def)
    ultimately have "x < q * 2 ^ 22" by linarith
    then have "x < q * 1024 * 4096" by simp
    then have "p < q * 1024" unfolding x(3) [symmetric] by (simp only: div_less_iff_less_mult)
    then show ?thesis by (simp only: div_less_iff_less_mult)
  qed
  show "touched A (q * 2 ^ 22 + off + sz - A) p \<longleftrightarrow> touched A (q * 2 ^ 22 + off - A) p \<or> touched (q * 2 ^ 22 + off) sz p"
    by (rule touched_split [OF c(4)])
  show "touched A (E - A) p" if tch: "touched (q * 2 ^ 22 + off) sz p"
  proof -
    obtain x where x: "q * 2 ^ 22 + off \<le> x" "x < q * 2 ^ 22 + off + sz" "x div 4096 = p" using tch unfolding touched_def by blast
    have "q * 2 ^ 22 + off + sz \<le> E" using assms by (simp add: chunk_def)
    then have "A \<le> x" "x < A + (E - A)" using x(1,2) c(4) by linarith+
    then show ?thesis unfolding touched_def using x(3) by blast
  qed
  show "\<exists>p. touched (q * 2 ^ 22 + off) sz p" using c(1) unfolding touched_def by (metis le_refl less_add_same_cancel1)
qed

abbreviation unlocked :: "MemoryTracker \<Rightarrow> bool" where
  "unlocked \<equiv> locks_held (\<lambda>_. False)"

lemma IsRegion_Modified_ok:
  assumes mt: "tracker_ok env others mt" "unlocked mt" and lim: "A + S \<le> 2 ^ 40" and t: "create \<longleftrightarrow> type = Type_CPU"
  shows "\<exists>mt'. IsRegion_Modified env create type A S mt =
      Some (\<exists>p. touched A S p \<and> (if type = Type_CPU then cpu_modified mt p else gpu_modified mt p), mt')
    \<and> tracker_ok env others mt' \<and> unlocked mt' \<and> cpu_modified mt' = cpu_modified mt \<and> gpu_modified mt' = gpu_modified mt"
proof -
  define M where "M p = (if type = Type_CPU then cpu_modified mt p else gpu_modified mt p)" for p
  define I where "I mt' \<longleftrightarrow> tracker_ok env others mt' \<and> unlocked mt' \<and> cpu_modified mt' = cpu_modified mt \<and> gpu_modified mt' = gpu_modified mt" for mt'
  define R where "R a st \<longleftrightarrow> I (snd st) \<and> (\<forall>p. touched A (a - A) p \<longrightarrow> \<not> M p)" for a and st :: "unit \<times> MemoryTracker"
  define Q where "Q st \<longleftrightarrow> I (snd st) \<and> (\<exists>p. touched A S p \<and> M p)" for st :: "unit \<times> MemoryTracker"
  define func where "func = (\<lambda>manager offset sz (x :: unit, mt). do {
             mt1 \<leftarrow> lock_manager manager mt;
             Some (IsRegionModified env type offset sz (manager_pool mt1 ! manager), x, unlock_manager manager mt1)
           })"
  have step: "\<exists>b st'. func i off sz (x, m) = Some (b, st') \<and> (if b then Q st' else R (q * 2 ^ 22 + off + sz) st')"
    if ch: "chunk A (A + S) q off sz" and r: "R (q * 2 ^ 22 + off) (x, m)" and i: "top_tier m q = Some i" for q off sz x m i
  proof -
    note C = chunk_facts [OF ch]
    have m: "tracker_ok env others m" "unlocked m" "cpu_modified m = cpu_modified mt" "gpu_modified m = gpu_modified mt"
      using r by (simp_all add: R_def I_def)
    note L = relock_ok [OF m(1) i m(2), of True]
    let ?m1 = "put_manager i ((manager_pool m ! i)\<lparr>rm_lock := True\<rparr>, page_tracker m) m"
    have l: "lock_manager i m = Some ?m1" using lock_put [OF m(1) i m(2)] by simp
    have i1: "top_tier ?m1 q = Some i" using L(2) i by simp
    note T = tracker_region [OF L(1) i1]
    note U = relock_ok [OF L(1) i1 L(5), of False, folded unlock_put]
    let ?m2 = "unlock_manager i ?m1"
    have "unlocked ?m2" using U(5) by (simp add: fun_upd_idem)
    then have I2: "I ?m2" using U(1,3,4) L(3,4) m(3,4) by (simp add: I_def)
    have bit: "IsRegionModified env type off sz (manager_pool ?m1 ! i) \<longleftrightarrow> (\<exists>p. touched (q * 2 ^ 22 + off) sz p \<and> M p)"
    proof -
      have "region_bits q (GetRegionBits type (manager_pool ?m1 ! i)) p \<longleftrightarrow> M p" if "touched (q * 2 ^ 22 + off) sz p" for p
        using C(5) [OF that] T(3,4) L(3,4) m(3,4) by (cases type) (simp_all add: region_bits_def GetRegionBits_def M_def)
      then show ?thesis using IsRegionModified_ok [OF T(1) C(1,2), of type] by blast
    qed
    have f: "func i off sz (x, m) = Some (IsRegionModified env type off sz (manager_pool ?m1 ! i), x, ?m2)"
      by (simp add: func_def l)
    show ?thesis
    proof (cases "\<exists>p. touched (q * 2 ^ 22 + off) sz p \<and> M p")
      case True
      then obtain p where "touched (q * 2 ^ 22 + off) sz p" "M p" by blast
      then have "Q (x, ?m2)" using I2 C(8) [of p] by (auto simp: Q_def)
      then show ?thesis using f bit True by auto
    next
      case False
      then have "R (q * 2 ^ 22 + off + sz) (x, ?m2)" using I2 r C(7) by (auto simp: R_def)
      then show ?thesis using f bit False by auto
    qed
  qed
  have new: "R (q * 2 ^ 22 + off) (x, CreateRegion q m) \<and> top_tier (CreateRegion q m) q \<noteq> None"
    if "chunk A (A + S) q off sz" "R (q * 2 ^ 22 + off) (x, m)" "top_tier m q = None" for q off sz x m
    using CreateRegion_ok [of env others m q] that chunk_facts(3) [OF that(1)] by (auto simp: R_def I_def)
  have skip: "R (q * 2 ^ 22 + off + sz) (x, m)"
    if ch: "chunk A (A + S) q off sz" and c: "\<not> create" and r: "R (q * 2 ^ 22 + off) (x, m)" and n: "top_tier m q = None" for q off sz x m
  proof -
    have "\<not> M p" if "touched (q * 2 ^ 22 + off) sz p" for p
    proof -
      have "\<not> gpu_modified m p" using chunk_facts(5) [OF ch that] n by (simp add: gpu_modified_def)
      then show ?thesis using c t r by (simp add: M_def R_def I_def)
    qed
    then show ?thesis using r chunk_facts(7) [OF ch] by (auto simp: R_def)
  qed
  have "R A ((), mt)" using mt by (simp add: R_def I_def)
  then have "\<exists>b st'. IteratePages create func A S ((), mt) = Some (b, st') \<and> (if b then Q st' else R (A + S) st')"
    using step new skip lim by (intro IteratePages_rule) blast+
  then obtain b st' where it: "IteratePages create func A S ((), mt) = Some (b, st')" "if b then Q st' else R (A + S) st'" by blast
  have b: "b \<longleftrightarrow> (\<exists>p. touched A S p \<and> M p)" "I (snd st')" using it(2) by (auto simp: Q_def R_def split: if_splits)
  have "IsRegion_Modified env create type A S mt = Some (b, snd st')"
    using it(1) by (cases st') (simp add: IsRegion_Modified_def func_def)
  then show ?thesis using b unfolding I_def M_def by auto
qed

lemma modified_changed_step:
  assumes "modified_changed type v (touched A (a - A)) mt m" "modified_changed type v (touched a sz) m m'" "A \<le> a"
  shows "modified_changed type v (touched A (a + sz - A)) mt m'"
  using assms touched_split [OF assms(3), of sz] unfolding modified_changed_def by auto

text \<open>One locked change of a region.\<close>

lemma locked_change:
  assumes m: "tracker_ok env others m" "locks_held L m" and i: "top_tier m q = Some i" and L: "\<not> L q"
    and sz: "0 < sz" "off + sz \<le> 2 ^ 22"
    and ok: "change_allowed env type v (touched (q * 2 ^ 22 + off) sz) (cpu_modified m) (gpu_modified m)"
  shows "\<exists>m'. (do { mt1 \<leftarrow> lock_manager i m; mt2 \<leftarrow> change_state env type v i off sz mt1; Some (unlock_manager i mt2) }) = Some m'
    \<and> tracker_ok env others m' \<and> locks_held L m' \<and> modified_changed type v (touched (q * 2 ^ 22 + off) sz) m m' \<and> top_tier m' = top_tier m"
proof -
  note K = relock_ok [OF m(1) i m(2), of True]
  let ?m1 = "put_manager i ((manager_pool m ! i)\<lparr>rm_lock := True\<rparr>, page_tracker m) m"
  have l: "lock_manager i m = Some ?m1" using lock_put [OF m(1) i m(2)] L by simp
  have i1: "top_tier ?m1 q = Some i" using K(2) i by simp
  obtain m2 where c: "change_state env type v i off sz ?m1 = Some m2" "tracker_ok env others m2" "top_tier m2 = top_tier ?m1"
    "modified_changed type v (touched (q * 2 ^ 22 + off) sz) ?m1 m2" "locks_held (L(q := True)) m2"
    using change_state_ok [OF K(1) i1 K(5) sz, of type v] ok unfolding K(3,4) by blast
  have i2: "top_tier m2 q = Some i" using c(3) i1 by simp
  note U = relock_ok [OF c(2) i2 c(5), of False, folded unlock_put]
  have "locks_held L (unlock_manager i m2)" using U(5) L by (simp add: fun_upd_idem)
  moreover have "modified_changed type v (touched (q * 2 ^ 22 + off) sz) m (unlock_manager i m2)"
    using c(4) U(3,4) K(3,4) by (simp add: modified_changed_def)
  ultimately show ?thesis using l c(1) U(1,2) c(3) K(2) by simp
qed

lemma mark_region_ok:
  assumes mt: "tracker_ok env others mt" "unlocked mt" and lim: "A + S \<le> 2 ^ 40" and t: "v \<longleftrightarrow> type = Type_CPU"
    and ok: "change_allowed env type v (touched A S) (cpu_modified mt) (gpu_modified mt)"
  shows "\<exists>mt'. mark_region env type v A S mt = Some mt' \<and> tracker_ok env others mt' \<and> unlocked mt'
    \<and> modified_changed type v (touched A S) mt mt'"
proof -
  define R where "R a st \<longleftrightarrow> tracker_ok env others (snd st) \<and> unlocked (snd st) \<and> modified_changed type v (touched A (a - A)) mt (snd st)"
    for a and st :: "unit \<times> MemoryTracker"
  define func where "func = (\<lambda>manager offset sz (x :: unit, mt). do {
             mt1 \<leftarrow> lock_manager manager mt;
             mt2 \<leftarrow> change_state env type v manager offset sz mt1;
             Some (False, x, unlock_manager manager mt2)
           })"
  have step: "\<exists>b st'. func i off sz (x, m) = Some (b, st') \<and> (if b then False else R (q * 2 ^ 22 + off + sz) st')"
    if ch: "chunk A (A + S) q off sz" and r: "R (q * 2 ^ 22 + off) (x, m)" and i: "top_tier m q = Some i" for q off sz x m i
  proof -
    note C = chunk_facts [OF ch]
    have m: "tracker_ok env others m" "unlocked m" "modified_changed type v (touched A (q * 2 ^ 22 + off - A)) mt m" using r by (simp_all add: R_def)
    have "change_allowed env type v (touched (q * 2 ^ 22 + off) sz) (cpu_modified m) (gpu_modified m)"
      using ok m(3) C(8) by (cases type) (auto simp: change_allowed_def modified_changed_def)
    from locked_change [OF m(1,2) i _ C(1,2) this] obtain m' where
      l: "(do { mt1 \<leftarrow> lock_manager i m; mt2 \<leftarrow> change_state env type v i off sz mt1; Some (unlock_manager i mt2) }) = Some m'"
      "tracker_ok env others m'" "unlocked m'" "modified_changed type v (touched (q * 2 ^ 22 + off) sz) m m'" by blast
    have "func i off sz (x, m) = Some (False, x, m')" using l(1) by (auto simp: func_def bind_eq_Some_conv)
    moreover have "R (q * 2 ^ 22 + off + sz) (x, m')" using l(2,3) modified_changed_step [OF m(3) l(4) C(4)] by (simp add: R_def)
    ultimately show ?thesis by auto
  qed
  have skip: "R (q * 2 ^ 22 + off + sz) (x, m)"
    if ch: "chunk A (A + S) q off sz" and r: "R (q * 2 ^ 22 + off) (x, m)" and n: "top_tier m q = None" for q off sz x m
  proof -
    have "modified_changed type v (touched (q * 2 ^ 22 + off) sz) m m"
      using chunk_facts(5) [OF ch] n t by (cases type) (auto simp: modified_changed_def cpu_modified_def gpu_modified_def)
    note modified_changed_step [OF _ this chunk_facts(4) [OF ch], of mt]
    then show ?thesis using r by (simp add: R_def)
  qed
  have "R A ((), mt)" using mt by (simp add: R_def modified_changed_def)
  then have "\<exists>b st'. IteratePages False func A S ((), mt) = Some (b, st') \<and> (if b then False else R (A + S) st')"
    using step skip lim by (intro IteratePages_rule) blast+
  then obtain b st' where it: "IteratePages False func A S ((), mt) = Some (b, st')" "R (A + S) st'" by (auto split: if_splits)
  have "mark_region env type v A S mt = Some (snd st')" using it(1) by (cases st') (simp add: mark_region_def func_def)
  then show ?thesis using it(2) by (simp add: R_def)
qed

definition visited :: "nat \<Rightarrow> nat \<Rightarrow> nat \<Rightarrow> bool" where
  "visited A S q \<longleftrightarrow> (\<exists>p. touched A S p \<and> p div 1024 = q)"

lemma visited_empty [simp]: "\<not> visited A 0 q"
  by (simp add: visited_def)

lemma visited_chunk:
  assumes "chunk A E q off sz"
  shows "\<not> visited A (q * 2 ^ 22 + off - A) q"
    "visited A (q * 2 ^ 22 + off + sz - A) q' \<longleftrightarrow> visited A (q * 2 ^ 22 + off - A) q' \<or> q' = q"
  using chunk_facts [OF assms] unfolding visited_def by (metis less_irrefl, metis)

lemma page_calls_append: "page_calls (xs @ ys) \<longleftrightarrow> page_calls xs \<and> page_calls ys"
  by (auto simp: page_calls_def)

lemma covers_append: "covers (xs @ ys) p \<longleftrightarrow> covers xs p \<or> covers ys p"
  by (auto simp: covers_def)

lemma upload_pass_ok:
  assumes mt: "tracker_ok env others mt" "unlocked mt" and lim: "A + S \<le> 2 ^ 40"
  shows "\<exists>rs mt'. IteratePages True (upload_pass env w) A S ([], mt) = Some (False, map (\<lambda>(a, n). Func a n) rs, mt')
    \<and> tracker_ok env others mt' \<and> locks_held (\<lambda>q. w \<and> visited A S q) mt' \<and> modified_changed Type_CPU False (touched A S) mt mt'
    \<and> (\<forall>q. visited A S q \<longrightarrow> top_tier mt' q \<noteq> None) \<and> (\<forall>p. covers rs p \<longleftrightarrow> touched A S p \<and> cpu_modified mt p)"
proof -
  define I where "I a m \<longleftrightarrow> tracker_ok env others m \<and> locks_held (\<lambda>q. w \<and> visited A (a - A) q) m
     \<and> modified_changed Type_CPU False (touched A (a - A)) mt m \<and> (\<forall>q. visited A (a - A) q \<longrightarrow> top_tier m q \<noteq> None)" for a m
  define R where "R a st \<longleftrightarrow> I a (snd st) \<and> (\<exists>rs. fst st = map (\<lambda>(a, n). Func a n) rs \<and> (\<forall>p. covers rs p \<longleftrightarrow> touched A (a - A) p \<and> cpu_modified mt p))"
    for a and st :: "tracker_call list \<times> MemoryTracker"
  have step: "\<exists>b st'. upload_pass env w i off sz (x, m) = Some (b, st') \<and> (if b then False else R (q * 2 ^ 22 + off + sz) st')"
    if ch: "chunk A (A + S) q off sz" and r: "R (q * 2 ^ 22 + off) (x, m)" and i: "top_tier m q = Some i" for q off sz x m i
  proof -
    note C = chunk_facts [OF ch] and V = visited_chunk [OF ch]
    define L where "L = (\<lambda>q'. w \<and> visited A (q * 2 ^ 22 + off - A) q')"
    have m: "tracker_ok env others m" "locks_held L m" "modified_changed Type_CPU False (touched A (q * 2 ^ 22 + off - A)) mt m"
        "\<forall>q'. visited A (q * 2 ^ 22 + off - A) q' \<longrightarrow> top_tier m q' \<noteq> None"
      using r by (simp_all add: R_def I_def L_def)
    obtain rs where rs: "x = map (\<lambda>(a, n). Func a n) rs" "\<forall>p. covers rs p \<longleftrightarrow> touched A (q * 2 ^ 22 + off - A) p \<and> cpu_modified mt p"
      using r by (auto simp: R_def)
    have Lq: "\<not> L q" using V(1) by (simp add: L_def)
    note K = relock_ok [OF m(1) i m(2), of True]
    let ?m1 = "put_manager i ((manager_pool m ! i)\<lparr>rm_lock := True\<rparr>, page_tracker m) m"
    have l: "lock_manager i m = Some ?m1" using lock_put [OF m(1) i m(2) Lq] by simp
    have i1: "top_tier ?m1 q = Some i" using K(2) i by simp
    obtain rs' m2 where f: "for_each_modified env Type_CPU True i off sz (x, ?m1) = Some (x @ map (\<lambda>(a, n). Func a n) rs', m2)"
      "tracker_ok env others m2" "top_tier m2 = top_tier ?m1"
      "modified_changed Type_CPU False (\<lambda>p. True \<and> touched (q * 2 ^ 22 + off) sz p) ?m1 m2" "locks_held (L(q := True)) m2"
      "\<forall>p. covers rs' p \<longleftrightarrow> touched (q * 2 ^ 22 + off) sz p \<and> (if Type_CPU = Type_CPU then cpu_modified ?m1 p else gpu_modified ?m1 p)"
      using for_each_modified_ok [OF K(1) i1 K(5) C(1,2), of True Type_CPU x] by blast
    define m3 where "m3 = (if w then m2 else unlock_manager i m2)"
    have i2: "top_tier m2 q = Some i" using f(3) i1 by simp
    note U = relock_ok [OF f(2) i2 f(5), of False, folded unlock_put]
    have m3: "tracker_ok env others m3" "top_tier m3 = top_tier m" "cpu_modified m3 = cpu_modified m2" "gpu_modified m3 = gpu_modified m2"
      using U(1-4) f(2,3) K(2) by (auto simp: m3_def)
    have "locks_held (L(q := w)) m3" using U(5) f(5) by (cases w) (simp_all add: m3_def)
    moreover have "L(q := w) = (\<lambda>q'. w \<and> visited A (q * 2 ^ 22 + off + sz - A) q')" using V(2) by (auto simp: L_def fun_eq_iff)
    ultimately have lk: "locks_held (\<lambda>q'. w \<and> visited A (q * 2 ^ 22 + off + sz - A) q') m3" by simp
    have "modified_changed Type_CPU False (touched (q * 2 ^ 22 + off) sz) m m3"
      using f(4) K(3,4) m3(3,4) by (simp add: modified_changed_def)
    from modified_changed_step [OF m(3) this C(4)] have "I (q * 2 ^ 22 + off + sz) m3"
      using m3(1,2) lk m(4) V(2) i by (auto simp: I_def)
    moreover have "covers (rs @ rs') p \<longleftrightarrow> touched A (q * 2 ^ 22 + off + sz - A) p \<and> cpu_modified mt p" for p
    proof -
      have "touched (q * 2 ^ 22 + off) sz p \<Longrightarrow> \<not> touched A (q * 2 ^ 22 + off - A) p" using C(5,6) by (metis less_irrefl)
      then have "touched (q * 2 ^ 22 + off) sz p \<Longrightarrow> cpu_modified m p = cpu_modified mt p" using m(3) by (simp add: modified_changed_def)
      then show ?thesis using rs(2) f(6) K(3) C(7) [of p] by (auto simp: covers_append)
    qed
    ultimately have "R (q * 2 ^ 22 + off + sz) (x @ map (\<lambda>(a, n). Func a n) rs', m3)"
      unfolding R_def fst_conv snd_conv rs(1) map_append [symmetric] by blast
    moreover have "upload_pass env w i off sz (x, m) = Some (False, x @ map (\<lambda>(a, n). Func a n) rs', m3)"
      by (simp add: upload_pass_def l f(1) m3_def)
    ultimately show ?thesis by auto
  qed
  have new: "R (q * 2 ^ 22 + off) (x, CreateRegion q m) \<and> top_tier (CreateRegion q m) q \<noteq> None"
    if ch: "chunk A (A + S) q off sz" and r: "R (q * 2 ^ 22 + off) (x, m)" and n: "top_tier m q = None" for q off sz x m
  proof -
    have m: "tracker_ok env others m" "locks_held (\<lambda>q'. w \<and> visited A (q * 2 ^ 22 + off - A) q') m" using r by (simp_all add: R_def I_def)
    note N = CreateRegion_ok [OF m(1) n chunk_facts(3) [OF ch]]
    have "locks_held (\<lambda>q'. w \<and> visited A (q * 2 ^ 22 + off - A) q') (CreateRegion q m)"
      using N(5) [OF m(2)] visited_chunk(1) [OF ch] by simp
    then show ?thesis using r N(1-4) by (auto simp: R_def I_def modified_changed_def)
  qed
  have "R A ([], mt)" using mt by (simp add: R_def I_def modified_changed_def covers_def)
  then have "\<exists>b st'. IteratePages True (upload_pass env w) A S ([], mt) = Some (b, st') \<and> (if b then False else R (A + S) st')"
    using step new lim by (intro IteratePages_rule) blast+
  then obtain st' where it: "IteratePages True (upload_pass env w) A S ([], mt) = Some (False, st')" "R (A + S) st'" by (auto split: if_splits)
  then show ?thesis by (cases st') (auto simp: R_def I_def)
qed

lemma written_pass_ok:
  assumes mt: "tracker_ok env others mt" "locks_held (visited A S) mt" and lim: "A + S \<le> 2 ^ 40"
    and man: "\<forall>q. visited A S q \<longrightarrow> top_tier mt q \<noteq> None" and c: "\<forall>p. touched A S p \<longrightarrow> \<not> cpu_modified mt p"
  shows "\<exists>mt'. IteratePages False (written_pass env) A S (calls, mt) = Some (False, calls, mt')
    \<and> tracker_ok env others mt' \<and> unlocked mt' \<and> modified_changed Type_GPU True (touched A S) mt mt'"
proof -
  define R where "R a st \<longleftrightarrow> fst st = calls \<and> tracker_ok env others (snd st) \<and> locks_held (\<lambda>q. visited A S q \<and> \<not> visited A (a - A) q) (snd st)
     \<and> modified_changed Type_GPU True (touched A (a - A)) mt (snd st) \<and> top_tier (snd st) = top_tier mt"
    for a and st :: "tracker_call list \<times> MemoryTracker"
  have step: "\<exists>b st'. written_pass env i off sz (x, m) = Some (b, st') \<and> (if b then False else R (q * 2 ^ 22 + off + sz) st')"
    if ch: "chunk A (A + S) q off sz" and r: "R (q * 2 ^ 22 + off) (x, m)" and i: "top_tier m q = Some i" for q off sz x m i
  proof -
    note C = chunk_facts [OF ch] and V = visited_chunk [OF ch]
    define L where "L = (\<lambda>q'. visited A S q' \<and> \<not> visited A (q * 2 ^ 22 + off - A) q')"
    have m: "x = calls" "tracker_ok env others m" "locks_held L m" "modified_changed Type_GPU True (touched A (q * 2 ^ 22 + off - A)) mt m"
        "top_tier m = top_tier mt"
      using r by (simp_all add: R_def L_def)
    have "change_allowed env Type_GPU True (touched (q * 2 ^ 22 + off) sz) (cpu_modified m) (gpu_modified m)"
      using c m(4) C(8) by (simp add: change_allowed_def modified_changed_def)
    from change_state_ok [OF m(2) i m(3) C(1,2) this] obtain m2 where
      s: "change_state env Type_GPU True i off sz m = Some m2" "tracker_ok env others m2" "top_tier m2 = top_tier m"
      "modified_changed Type_GPU True (touched (q * 2 ^ 22 + off) sz) m m2" "locks_held L m2" by blast
    have i2: "top_tier m2 q = Some i" using s(3) i by simp
    note U = relock_ok [OF s(2) i2 s(5), of False, folded unlock_put]
    have "L(q := False) = (\<lambda>q'. visited A S q' \<and> \<not> visited A (q * 2 ^ 22 + off + sz - A) q')" using V(2) by (auto simp: L_def fun_eq_iff)
    moreover have "modified_changed Type_GPU True (touched (q * 2 ^ 22 + off) sz) m (unlock_manager i m2)"
      using s(4) U(3,4) by (simp add: modified_changed_def)
    note modified_changed_step [OF m(4) this C(4)]
    ultimately have "R (q * 2 ^ 22 + off + sz) (x, unlock_manager i m2)" using U(1,2,5) m(1,5) s(3) by (simp add: R_def)
    then show ?thesis by (intro exI [of _ False] exI [of _ "(x, unlock_manager i m2)"]) (simp add: written_pass_def s(1))
  qed
  have skip: "R (q * 2 ^ 22 + off + sz) (x, m)"
    if ch: "chunk A (A + S) q off sz" and r: "R (q * 2 ^ 22 + off) (x, m)" and n: "top_tier m q = None" for q off sz x m
  proof -
    obtain p where p: "touched (q * 2 ^ 22 + off) sz p" using chunk_facts(9) [OF ch] by blast
    then have "visited A S q" using chunk_facts(5,8) [OF ch p] unfolding visited_def by auto
    moreover have "top_tier mt q = None" using n r by (simp add: R_def)
    ultimately show ?thesis using man by blast
  qed
  have "R A (calls, mt)" using mt by (simp add: R_def modified_changed_def)
  then have "\<exists>b st'. IteratePages False (written_pass env) A S (calls, mt) = Some (b, st') \<and> (if b then False else R (A + S) st')"
    using step skip lim by (intro IteratePages_rule) blast+
  then obtain st' where it: "IteratePages False (written_pass env) A S (calls, mt) = Some (False, st')" "R (A + S) st'" by (auto split: if_splits)
  then show ?thesis by (cases st') (auto simp: R_def)
qed

lemma ForEachUploadRange_ok:
  assumes mt: "tracker_ok env others mt" "unlocked mt" and lim: "A + S \<le> 2 ^ 40"
  shows "\<exists>rs mt'. ForEachUploadRange env A S w mt = Some (map (\<lambda>(a, n). Func a n) rs @ [OnUpload], mt')
    \<and> tracker_ok env others mt' \<and> unlocked mt'
    \<and> (\<forall>p. covers rs p \<longleftrightarrow> touched A S p \<and> cpu_modified mt p)
    \<and> (\<forall>p. cpu_modified mt' p \<longleftrightarrow> cpu_modified mt p \<and> \<not> touched A S p)
    \<and> (\<forall>p. gpu_modified mt' p \<longleftrightarrow> gpu_modified mt p \<or> w \<and> touched A S p)"
proof -
  obtain rs m1 where u: "IteratePages True (upload_pass env w) A S ([], mt) = Some (False, map (\<lambda>(a, n). Func a n) rs, m1)"
    "tracker_ok env others m1" "locks_held (\<lambda>q. w \<and> visited A S q) m1" "modified_changed Type_CPU False (touched A S) mt m1"
    "\<forall>q. visited A S q \<longrightarrow> top_tier m1 q \<noteq> None" "\<forall>p. covers rs p \<longleftrightarrow> touched A S p \<and> cpu_modified mt p"
    using upload_pass_ok [OF assms] by blast
  show ?thesis
  proof (cases w)
    case False
    then have "ForEachUploadRange env A S w mt = Some (map (\<lambda>(a, n). Func a n) rs @ [OnUpload], m1)"
      using u(1) by (simp add: ForEachUploadRange_def)
    moreover have "unlocked m1" using u(3) False by simp
    ultimately show ?thesis using u(2,4,6) False by (auto simp: modified_changed_def)
  next
    case True
    have "\<forall>p. touched A S p \<longrightarrow> \<not> cpu_modified m1 p" using u(4) by (simp add: modified_changed_def)
    moreover have "locks_held (visited A S) m1" using u(3) True by simp
    ultimately obtain m2 where w: "IteratePages False (written_pass env) A S (map (\<lambda>(a, n). Func a n) rs @ [OnUpload], m1)
        = Some (False, map (\<lambda>(a, n). Func a n) rs @ [OnUpload], m2)"
      "tracker_ok env others m2" "unlocked m2" "modified_changed Type_GPU True (touched A S) m1 m2"
      using written_pass_ok [OF u(2) _ lim u(5)] by blast
    have "ForEachUploadRange env A S w mt = Some (map (\<lambda>(a, n). Func a n) rs @ [OnUpload], m2)"
      using u(1) w(1) True by (simp add: ForEachUploadRange_def)
    then show ?thesis using u(4,6) w(2-4) True by (auto simp: modified_changed_def)
  qed
qed

lemma ForEachDownloadRange_ok:
  assumes mt: "tracker_ok env others mt" "unlocked mt" and lim: "A + S \<le> 2 ^ 40"
  shows "\<exists>rs mt'. ForEachDownloadRange env False A S mt = Some (map (\<lambda>(a, n). Func a n) rs, mt')
    \<and> tracker_ok env others mt' \<and> unlocked mt' \<and> cpu_modified mt' = cpu_modified mt \<and> gpu_modified mt' = gpu_modified mt
    \<and> (\<forall>p. covers rs p \<longleftrightarrow> touched A S p \<and> gpu_modified mt p) \<and> page_calls rs"
proof -
  define R where "R a st \<longleftrightarrow> (tracker_ok env others (snd st) \<and> unlocked (snd st) \<and> cpu_modified (snd st) = cpu_modified mt \<and> gpu_modified (snd st) = gpu_modified mt)
     \<and> (\<exists>rs. fst st = map (\<lambda>(a, n). Func a n) rs \<and> (\<forall>p. covers rs p \<longleftrightarrow> touched A (a - A) p \<and> gpu_modified mt p) \<and> page_calls rs)"
    for a and st :: "tracker_call list \<times> MemoryTracker"
  define func where "func = (\<lambda>manager offset sz (calls, mt). do {
             mt1 \<leftarrow> lock_manager manager mt;
             (calls', mt2) \<leftarrow> for_each_modified env Type_GPU False manager offset sz (calls, mt1);
             Some (False, calls', unlock_manager manager mt2)
           })"
  have step: "\<exists>b st'. func i off sz (x, m) = Some (b, st') \<and> (if b then False else R (q * 2 ^ 22 + off + sz) st')"
    if ch: "chunk A (A + S) q off sz" and r: "R (q * 2 ^ 22 + off) (x, m)" and i: "top_tier m q = Some i" for q off sz x m i
  proof -
    note C = chunk_facts [OF ch]
    have m: "tracker_ok env others m" "unlocked m" "cpu_modified m = cpu_modified mt" "gpu_modified m = gpu_modified mt"
      using r by (simp_all add: R_def)
    obtain rs where rs: "x = map (\<lambda>(a, n). Func a n) rs" "\<forall>p. covers rs p \<longleftrightarrow> touched A (q * 2 ^ 22 + off - A) p \<and> gpu_modified mt p" "page_calls rs"
      using r by (auto simp: R_def)
    note K = relock_ok [OF m(1) i m(2), of True]
    let ?m1 = "put_manager i ((manager_pool m ! i)\<lparr>rm_lock := True\<rparr>, page_tracker m) m"
    have l: "lock_manager i m = Some ?m1" using lock_put [OF m(1) i m(2)] by simp
    have i1: "top_tier ?m1 q = Some i" using K(2) i by simp
    obtain rs' m2 where f: "for_each_modified env Type_GPU False i off sz (x, ?m1) = Some (x @ map (\<lambda>(a, n). Func a n) rs', m2)"
      "tracker_ok env others m2" "top_tier m2 = top_tier ?m1"
      "modified_changed Type_GPU False (\<lambda>p. False \<and> touched (q * 2 ^ 22 + off) sz p) ?m1 m2" "locks_held ((\<lambda>_. False)(q := True)) m2"
      "\<forall>p. covers rs' p \<longleftrightarrow> touched (q * 2 ^ 22 + off) sz p \<and> (if Type_GPU = Type_CPU then cpu_modified ?m1 p else gpu_modified ?m1 p)" "page_calls rs'"
      using for_each_modified_ok [OF K(1) i1 K(5) C(1,2), of False Type_GPU x] by blast
    have i2: "top_tier m2 q = Some i" using f(3) i1 by simp
    note U = relock_ok [OF f(2) i2 f(5), of False, folded unlock_put]
    have lk: "unlocked (unlock_manager i m2)" using U(5) by (simp add: fun_upd_idem)
    have same: "cpu_modified m2 = cpu_modified mt" "gpu_modified m2 = gpu_modified mt"
      using f(4) K(3,4) m(3,4) by (simp_all add: modified_changed_def fun_eq_iff)
    have "covers (rs @ rs') p \<longleftrightarrow> touched A (q * 2 ^ 22 + off + sz - A) p \<and> gpu_modified mt p" for p
      using rs(2) f(6) K(4) m(4) C(7) [of p] by (auto simp: covers_append)
    then have "R (q * 2 ^ 22 + off + sz) (x @ map (\<lambda>(a, n). Func a n) rs', unlock_manager i m2)"
      using U(1) lk page_calls_append [of rs rs'] rs(3) f(7) unfolding R_def fst_conv snd_conv rs(1) map_append [symmetric] U(3,4) same by blast
    moreover have "func i off sz (x, m) = Some (False, x @ map (\<lambda>(a, n). Func a n) rs', unlock_manager i m2)"
      by (simp add: func_def l f(1))
    ultimately show ?thesis by auto
  qed
  have skip: "R (q * 2 ^ 22 + off + sz) (x, m)"
    if ch: "chunk A (A + S) q off sz" and r: "R (q * 2 ^ 22 + off) (x, m)" and n: "top_tier m q = None" for q off sz x m
  proof -
    have "\<not> gpu_modified mt p" if "touched (q * 2 ^ 22 + off) sz p" for p
    proof -
      have "\<not> gpu_modified m p" using chunk_facts(5) [OF ch that] n by (simp add: gpu_modified_def)
      then show ?thesis using r by (simp add: R_def)
    qed
    then show ?thesis using r chunk_facts(7) [OF ch] by (auto simp: R_def)
  qed
  have "R A ([], mt)" using mt by (simp add: R_def covers_def page_calls_def)
  then have "\<exists>b st'. IteratePages False func A S ([], mt) = Some (b, st') \<and> (if b then False else R (A + S) st')"
    using step skip lim by (intro IteratePages_rule) blast+
  then obtain st' where it: "IteratePages False func A S ([], mt) = Some (False, st')" "R (A + S) st'" by (auto split: if_splits)
  then show ?thesis by (cases st') (auto simp: R_def ForEachDownloadRange_def func_def)
qed

section \<open>Reading back\<close>

text \<open>
  The link between the two records of what the GPU has written: every page the tracker holds as GPU-modified has a byte
  in \<open>gpu_modified_ranges\<close>.
\<close>

definition recorded :: "'r icl \<Rightarrow> 'r \<Rightarrow> MemoryTracker \<Rightarrow> bool" where
  "recorded ops r mt \<longleftrightarrow> (\<forall>p. gpu_modified mt p \<longrightarrow> (\<exists>x. x div 4096 = p \<and> in_ranges ops r x))"

definition gpu_bytes :: "'r icl \<Rightarrow> 'r \<Rightarrow> u64 \<Rightarrow> u64 \<Rightarrow> nat" where
  "gpu_bytes ops r addr sz = card {x. in_ranges ops r x \<and> touched addr sz (x div 4096)}"

lemma gpu_bytes_mono:
  assumes "icl_ok ops" "\<And>x. in_ranges ops r' x \<Longrightarrow> in_ranges ops r x"
  shows "gpu_bytes ops r' A S \<le> gpu_bytes ops r A S"
  unfolding gpu_bytes_def
  using assms(2) finite_subset [OF _ intervals_card(1) [OF icl_okD(1) [OF assms(1), of r]]] by (intro card_mono) auto

lemma call_ranges [simp]: "concat (map (call_range \<circ> (\<lambda>(a, n). Func a n)) rs) = rs"
  by (induction rs) auto

lemma finish_download_ok:
  assumes mt: "tracker_ok env others mt" "unlocked mt" and lim: "A + S \<le> 2 ^ 40"
  shows "\<exists>mt2 mt'. UnmarkRegionAsGpuModified env A S mt = Some mt2
    \<and> (if w then MarkRegionAsCpuModified env A S mt2 else Some mt2) = Some mt' \<and> tracker_ok env others mt' \<and> unlocked mt'
    \<and> (\<forall>p. (cpu_modified mt' p \<longleftrightarrow> cpu_modified mt p \<or> w \<and> touched A S p) \<and> (gpu_modified mt' p \<longleftrightarrow> gpu_modified mt p \<and> \<not> touched A S p))"
proof -
  have "change_allowed env Type_GPU False (touched A S) (cpu_modified mt) (gpu_modified mt)" by (simp add: change_allowed_def)
  then obtain m1 where m1: "UnmarkRegionAsGpuModified env A S mt = Some m1" "tracker_ok env others m1" "unlocked m1"
    "modified_changed Type_GPU False (touched A S) mt m1"
    using mark_region_ok [OF mt lim, of False Type_GPU] by (auto simp: UnmarkRegionAsGpuModified_def)
  have "change_allowed env Type_CPU True (touched A S) (cpu_modified m1) (gpu_modified m1)"
    using m1(4) by (simp add: change_allowed_def modified_changed_def)
  then obtain m2 where m2: "MarkRegionAsCpuModified env A S m1 = Some m2" "tracker_ok env others m2" "unlocked m2"
    "modified_changed Type_CPU True (touched A S) m1 m2"
    using mark_region_ok [OF m1(2,3) lim, of True Type_CPU] by (auto simp: MarkRegionAsCpuModified_def)
  show ?thesis using m1 m2 by (cases w) (auto simp: modified_changed_def)
qed

lemma DownloadBufferMemory_ok:
  assumes mt: "tracker_ok env others mt" "unlocked mt" and lim: "A + S \<le> 2 ^ 40" and ops: "icl_ok ops"
    and rec: "recorded ops r mt" and few: "gpu_bytes ops r A S \<le> 2 ^ 19" and b: "b < U64_MOD"
  shows "\<exists>copies r' mt'. DownloadBufferMemory env ops b A S w (r, mt) = Some (copies, r', mt') \<and> tracker_ok env others mt' \<and> unlocked mt'
    \<and> recorded ops r' mt' \<and> staged copies DownloadBufferSize
    \<and> (\<forall>x. copied b copies x \<longleftrightarrow> in_ranges ops r x \<and> touched A S (x div 4096) \<and> gpu_modified mt (x div 4096))
    \<and> (\<forall>x. in_ranges ops r' x \<longleftrightarrow> in_ranges ops r x \<and> \<not> (touched A S (x div 4096) \<and> gpu_modified mt (x div 4096)))
    \<and> (\<forall>p. gpu_modified mt' p \<longleftrightarrow> gpu_modified mt p \<and> \<not> touched A S p)
    \<and> (\<forall>p. cpu_modified mt' p \<longleftrightarrow> cpu_modified mt p \<or> w \<and> touched A S p \<and> (\<exists>p'. touched A S p' \<and> gpu_modified mt p'))
    \<and> (copies = [] \<longleftrightarrow> \<not> (\<exists>p'. touched A S p' \<and> gpu_modified mt p'))"
proof -
  obtain rs m1 where f: "ForEachDownloadRange env False A S mt = Some (map (\<lambda>(a, n). Func a n) rs, m1)" "tracker_ok env others m1" "unlocked m1"
    "cpu_modified m1 = cpu_modified mt" "gpu_modified m1 = gpu_modified mt" "page_calls rs"
    and cov: "covers rs p \<longleftrightarrow> touched A S p \<and> gpu_modified mt p" for p
    using ForEachDownloadRange_ok [OF mt lim] by blast
  let ?K = "{x. in_ranges ops r x \<and> covers rs (x div 4096)}"
  have "card ?K \<le> gpu_bytes ops r A S" unfolding gpu_bytes_def
    using finite_subset [OF _ intervals_card(1) [OF icl_okD(1) [OF ops, of r]]] by (intro card_mono) (auto simp: cov)
  then have k: "card ?K \<le> 2 ^ 19" using few by simp
  have "0 + 64 * card ?K < U64_MOD" "staged [] 0" using k by (simp_all add: staged_def)
  from download_ranges_ok [OF ops b f(6) this] obtain cs tot r' where
    d: "fold (download_range ops b) rs ([], 0, r) = (cs, tot, r')" "\<forall>x. copied b cs x \<longleftrightarrow> in_ranges ops r x \<and> covers rs (x div 4096)" "staged cs tot"
    "\<forall>x. in_ranges ops r' x \<longleftrightarrow> in_ranges ops r x \<and> \<not> covers rs (x div 4096)" "tot \<le> 64 * card ?K"
    "(\<exists>x. in_ranges ops r x \<and> covers rs (x div 4096)) \<longrightarrow> 0 < tot" "(\<forall>x. in_ranges ops r x \<longrightarrow> \<not> covers rs (x div 4096)) \<longrightarrow> tot = 0 \<and> cs = []"
    by auto
  have tot: "tot \<le> DownloadBufferSize" using d(5) k by (simp add: DownloadBufferSize_def)
  have st: "staged cs DownloadBufferSize" using d(3) tot by (fastforce simp: staged_def DownloadBufferSize_def)
  have keep: "recorded ops r' m'" if "\<forall>p. gpu_modified m' p \<longleftrightarrow> gpu_modified mt p \<and> \<not> touched A S p" for m'
    using rec that d(4) unfolding recorded_def cov by metis
  show ?thesis
  proof (cases "\<exists>p. touched A S p \<and> gpu_modified mt p")
    case True
    then obtain x where "in_ranges ops r x" "covers rs (x div 4096)" using rec cov unfolding recorded_def by metis
    then have t: "tot \<noteq> 0" and ne: "cs \<noteq> []" using d(2,6) by (blast, fastforce)
    obtain m2 m3 where m: "UnmarkRegionAsGpuModified env A S m1 = Some m2" "(if w then MarkRegionAsCpuModified env A S m2 else Some m2) = Some m3"
      "tracker_ok env others m3" "unlocked m3"
      "\<forall>p. (cpu_modified m3 p \<longleftrightarrow> cpu_modified mt p \<or> w \<and> touched A S p) \<and> (gpu_modified m3 p \<longleftrightarrow> gpu_modified mt p \<and> \<not> touched A S p)"
      using finish_download_ok [OF f(2,3) lim, of w] unfolding f(4,5) by blast
    have "DownloadBufferMemory env ops b A S w (r, mt) = Some (cs, r', m3)"
      using f(1) d(1) t tot m(1,2) unfolding DownloadBufferMemory_def by (simp add: Let_def)
    then show ?thesis using m(3-5) keep [of m3] st d(2,4) True ne unfolding cov by auto
  next
    case False
    then have "tot = 0 \<and> cs = []" using d(7) cov by blast
    then have "DownloadBufferMemory env ops b A S w (r, mt) = Some ([], r', m1)"
      using f(1) d(1) unfolding DownloadBufferMemory_def by (simp add: Let_def)
    moreover have "\<forall>p. gpu_modified m1 p \<longleftrightarrow> gpu_modified mt p \<and> \<not> touched A S p" using False f(5) by auto
    ultimately show ?thesis using f(2-4) keep [of m1] st d(2,4) False \<open>tot = 0 \<and> cs = []\<close> unfolding cov by auto
  qed
qed

lemma InvalidateRegion_ok:
  assumes mt: "tracker_ok env others mt" "unlocked mt" and lim: "A + S \<le> 2 ^ 40" and ops: "icl_ok ops"
    and rec: "recorded ops r mt" and few: "gpu_bytes ops r A S \<le> 2 ^ 19" and b: "b < U64_MOD"
  shows "\<exists>r' mt'. InvalidateRegion env (bc_ReadMemory env ops b A S True) A S (r, mt) = Some (r', mt') \<and> tracker_ok env others mt' \<and> unlocked mt'
    \<and> recorded ops r' mt'
    \<and> (\<forall>p. cpu_modified mt' p \<longleftrightarrow> cpu_modified mt p \<or> touched A S p)
    \<and> (\<forall>p. gpu_modified mt' p \<longleftrightarrow> gpu_modified mt p \<and> \<not> (touched A S p \<and> readbacks_mode env \<noteq> Readbacks_Disabled))"
proof -
  define D where "D \<longleftrightarrow> readbacks_mode env = Readbacks_Disabled"
  define R where "R a st \<longleftrightarrow> tracker_ok env others (snd st) \<and> unlocked (snd st) \<and> recorded ops (fst st) (snd st)
     \<and> (\<forall>x. in_ranges ops (fst st) x \<longrightarrow> in_ranges ops r x)
     \<and> (\<forall>p. touched A (a - A) p \<longrightarrow> cpu_modified (snd st) p \<and> (D \<or> \<not> gpu_modified (snd st) p))
     \<and> (\<forall>p. \<not> touched A S p \<longrightarrow> cpu_modified (snd st) p = cpu_modified mt p)
     \<and> (\<forall>p. \<not> touched A S p \<or> D \<longrightarrow> gpu_modified (snd st) p = gpu_modified mt p)"
    for a and st :: "'a \<times> MemoryTracker"
  define func where "func = (\<lambda>manager offset sz (x :: 'a, mt). do {
             mt1 \<leftarrow> lock_manager manager mt;
             (should_flush, mt2) \<leftarrow>
               (if readbacks_mode env \<noteq> Readbacks_Disabled \<and> IsRegionModified env Type_GPU offset sz (manager_pool mt1 ! manager)
                then Some (True, mt1)
                else do {
                  mt' \<leftarrow> change_state env Type_CPU True manager offset sz mt1;
                  Some (False, mt')
                });
             let mt3 = unlock_manager manager mt2;
             st' \<leftarrow> (if should_flush then bc_ReadMemory env ops b A S True (x, mt3) else Some (x, mt3));
             Some (False, st')
           })"
  have step: "\<exists>b st'. func i off sz (x, m) = Some (b, st') \<and> (if b then False else R (q * 2 ^ 22 + off + sz) st')"
    if ch: "chunk A (A + S) q off sz" and r: "R (q * 2 ^ 22 + off) (x, m)" and i: "top_tier m q = Some i" for q off sz x m i
  proof -
    note C = chunk_facts [OF ch]
    have m: "tracker_ok env others m" "unlocked m" "recorded ops x m" "\<forall>y. in_ranges ops x y \<longrightarrow> in_ranges ops r y" using r by (simp_all add: R_def)
    have few': "gpu_bytes ops x A S \<le> 2 ^ 19" using gpu_bytes_mono [OF ops, of x r A S] m(4) few by fastforce
    note K = relock_ok [OF m(1) i m(2), of True]
    let ?m1 = "put_manager i ((manager_pool m ! i)\<lparr>rm_lock := True\<rparr>, page_tracker m) m"
    have l: "lock_manager i m = Some ?m1" using lock_put [OF m(1) i m(2)] by simp
    have i1: "top_tier ?m1 q = Some i" using K(2) i by simp
    note T = tracker_region [OF K(1) i1]
    have bit: "IsRegionModified env Type_GPU off sz (manager_pool ?m1 ! i) \<longleftrightarrow> (\<exists>p. touched (q * 2 ^ 22 + off) sz p \<and> gpu_modified m p)"
    proof -
      have "region_bits q (GetRegionBits Type_GPU (manager_pool ?m1 ! i)) p \<longleftrightarrow> gpu_modified m p" if "touched (q * 2 ^ 22 + off) sz p" for p
        using C(5) [OF that] T(4) K(4) by (simp add: region_bits_def GetRegionBits_def)
      then show ?thesis using IsRegionModified_ok [OF T(1) C(1,2), of Type_GPU] by blast
    qed
    show ?thesis
    proof (cases "\<not> D \<and> (\<exists>p. touched (q * 2 ^ 22 + off) sz p \<and> gpu_modified m p)")
      case True
      note U = relock_ok [OF K(1) i1 K(5), of False, folded unlock_put]
      have u: "unlocked (unlock_manager i ?m1)" using U(5) by (simp add: fun_upd_idem)
      have "recorded ops x (unlock_manager i ?m1)" using m(3) unfolding recorded_def U(4) K(4) .
      from DownloadBufferMemory_ok [OF U(1) u lim ops this few' b, of True, unfolded U(3,4) K(3,4)] obtain cs x' m' where
        d: "DownloadBufferMemory env ops b A S True (x, unlock_manager i ?m1) = Some (cs, x', m')"
        "tracker_ok env others m'" "unlocked m'" "recorded ops x' m'"
        "\<forall>y. in_ranges ops x' y \<longleftrightarrow> in_ranges ops x y \<and> \<not> (touched A S (y div 4096) \<and> gpu_modified m (y div 4096))"
        "\<forall>p. gpu_modified m' p \<longleftrightarrow> gpu_modified m p \<and> \<not> touched A S p"
        "\<forall>p. cpu_modified m' p \<longleftrightarrow> cpu_modified m p \<or> True \<and> touched A S p \<and> (\<exists>p'. touched A S p' \<and> gpu_modified m p')"
        by (elim exE conjE) (rule that)
      have f: "func i off sz (x, m) = Some (False, x', m')" using l bit True d(1) by (simp add: func_def D_def bc_ReadMemory_def)
      have "\<exists>p'. touched A S p' \<and> gpu_modified m p'" using True C(8) by auto
      then have cpu: "\<forall>p. cpu_modified m' p \<longleftrightarrow> cpu_modified m p \<or> touched A S p" using d(7) by blast
      have "touched A S p" if tq: "touched A (q * 2 ^ 22 + off + sz - A) p" for p
      proof -
        have "A + (q * 2 ^ 22 + off + sz - A) \<le> A + S" using ch by (simp add: chunk_def)
        moreover obtain y where "A \<le> y" "y < A + (q * 2 ^ 22 + off + sz - A)" "y div 4096 = p" using tq unfolding touched_def by blast
        ultimately have "A \<le> y \<and> y < A + S \<and> y div 4096 = p" by linarith
        then show ?thesis unfolding touched_def by blast
      qed
      then have "R (q * 2 ^ 22 + off + sz) (x', m')"
        using d(2-6) cpu r m(4) True unfolding R_def fst_conv snd_conv by blast
      then show ?thesis using f by auto
    next
      case False
      have "change_allowed env Type_CPU True (touched (q * 2 ^ 22 + off) sz) (cpu_modified m) (gpu_modified m)"
        using False by (auto simp: change_allowed_def D_def)
      from locked_change [OF m(1,2) i _ C(1,2) this] obtain m' where
        c: "(do { mt1 \<leftarrow> lock_manager i m; mt2 \<leftarrow> change_state env Type_CPU True i off sz mt1; Some (unlock_manager i mt2) }) = Some m'"
        "tracker_ok env others m'" "unlocked m'" "modified_changed Type_CPU True (touched (q * 2 ^ 22 + off) sz) m m'" by blast
      obtain m2 where cs: "change_state env Type_CPU True i off sz ?m1 = Some m2" "m' = unlock_manager i m2"
        using c(1) unfolding l by (auto simp: bind_eq_Some_conv)
      have "\<not> (readbacks_mode env \<noteq> Readbacks_Disabled \<and> IsRegionModified env Type_GPU off sz (manager_pool ?m1 ! i))"
        using False bit by (simp add: D_def)
      then have f: "func i off sz (x, m) = Some (False, x, m')"
        unfolding func_def prod.case l Option.bind.simps cs(2) by (auto simp: Let_def cs(1))
      have "recorded ops x m'" using m(3) c(4) by (simp add: recorded_def modified_changed_def)
      then have "R (q * 2 ^ 22 + off + sz) (x, m')"
        using c(2-4) r False C(7,8) by (auto simp: R_def modified_changed_def)
      then show ?thesis using f by auto
    qed
  qed
  have skip: "R (q * 2 ^ 22 + off + sz) (x, m)"
    if ch: "chunk A (A + S) q off sz" and r: "R (q * 2 ^ 22 + off) (x, m)" and n: "top_tier m q = None" for q off sz x m
  proof -
    have "cpu_modified m p \<and> \<not> gpu_modified m p" if "touched (q * 2 ^ 22 + off) sz p" for p
      using chunk_facts(5) [OF ch that] n by (simp add: cpu_modified_def gpu_modified_def)
    then show ?thesis using r chunk_facts(7) [OF ch] by (auto simp: R_def)
  qed
  have "R A (r, mt)" using mt rec by (simp add: R_def)
  then have "\<exists>b st'. IteratePages False func A S (r, mt) = Some (b, st') \<and> (if b then False else R (A + S) st')"
    using step skip lim by (intro IteratePages_rule) blast+
  then obtain st' where it: "IteratePages False func A S (r, mt) = Some (False, st')" "R (A + S) st'" by (auto split: if_splits)
  have "InvalidateRegion env (bc_ReadMemory env ops b A S True) A S (r, mt) = Some st'"
    using it(1) by (simp add: InvalidateRegion_def func_def)
  then show ?thesis using it(2) by (cases st') (auto simp: R_def D_def)
qed

definition PageManager_init :: PageManager where
  "PageManager_init = \<lparr>cached_pages = (\<lambda>_. \<lparr>num_write_watchers = 0, num_read_watchers = 0\<rparr>), protect_calls = []\<rparr>"

lemma MemoryTracker_init_ok: "tracker_ok env (\<lambda>_. 0) (MemoryTracker_init PageManager_init)" "unlocked (MemoryTracker_init PageManager_init)"
  by (simp_all add: tracker_ok_def MemoryTracker_init_def PageManager_init_def pages_protected_def host_perms_def Perms_def ReadPerm_def
      WritePerm_def MemoryPermission_defs watch_state_def cpu_modified_def gpu_modified_def locks_held_def)

text \<open>
  The states a run of the renderer reaches: the other write watchers of each page, \<open>gpu_modified_ranges\<close> and the tracker.  The
  page manager is shared with the texture cache, which watches and unwatches the ranges of its images between the calls of the
  tracker; it only removes watches it has added, and no page has more than 126 of them, the most the 7-bit counter has room for beside the tracker's own
  (neither is checked by the page manager; \<open>AddDelta_bounds\<close> is what happens otherwise).  A buffer that the GPU writes is
  synchronized and then recorded in \<open>gpu_modified_ranges\<close> (\<open>ObtainBuffer\<close>, \<open>CopyBuffer\<close>).  Each call is one step although the tracker takes one lock per region: interleavings inside a call are not
  modelled.
\<close>

definition watchers_changed :: "bool \<Rightarrow> u64 \<Rightarrow> u64 \<Rightarrow> (nat \<Rightarrow> nat) \<Rightarrow> nat \<Rightarrow> nat" where
  "watchers_changed track addr sz others p =
     (if page_in addr sz p then (if track then others p + 1 else others p - 1) else others p)"

inductive tracker_reachable :: "tracker_env \<Rightarrow> 'r icl \<Rightarrow> (nat \<Rightarrow> nat) \<Rightarrow> 'r \<Rightarrow> MemoryTracker \<Rightarrow> bool" for env ops where
  init: "tracker_reachable env ops (\<lambda>_. 0) (icl_clear ops) (MemoryTracker_init PageManager_init)"
| other_client: "tracker_reachable env ops others r mt \<Longrightarrow> addr + sz \<le> 2 ^ 40 \<Longrightarrow> addr < 2 ^ 40
    \<Longrightarrow> (\<forall>p. page_in addr sz p \<longrightarrow> (if track then others p < 126 else 0 < others p))
    \<Longrightarrow> UpdatePageWatchers track False addr sz (page_tracker mt) = Some pm
    \<Longrightarrow> tracker_reachable env ops (watchers_changed track addr sz others) r (mt\<lparr>page_tracker := pm\<rparr>)"
| query_cpu: "tracker_reachable env ops others r mt \<Longrightarrow> A + S \<le> 2 ^ 40 \<Longrightarrow> IsRegionCpuModified env A S mt = Some (b, mt')
    \<Longrightarrow> tracker_reachable env ops others r mt'"
| query_gpu: "tracker_reachable env ops others r mt \<Longrightarrow> A + S \<le> 2 ^ 40 \<Longrightarrow> IsRegionGpuModified env A S mt = Some (b, mt')
    \<Longrightarrow> tracker_reachable env ops others r mt'"
| upload: "tracker_reachable env ops others r mt \<Longrightarrow> A + S \<le> 2 ^ 40 \<Longrightarrow> ForEachUploadRange env A S w mt = Some (calls, mt')
    \<Longrightarrow> tracker_reachable env ops others (if w then rs_Add ops A S r else r) mt'"
| read_back: "tracker_reachable env ops others r mt \<Longrightarrow> A + S \<le> 2 ^ 40 \<Longrightarrow> gpu_bytes ops r A S \<le> 2 ^ 19 \<Longrightarrow> buffer < U64_MOD
    \<Longrightarrow> bc_ReadMemory env ops buffer A S w (r, mt) = Some (r', mt') \<Longrightarrow> tracker_reachable env ops others r' mt'"
| invalidate: "tracker_reachable env ops others r mt \<Longrightarrow> A + S \<le> 2 ^ 40 \<Longrightarrow> gpu_bytes ops r A S \<le> 2 ^ 19 \<Longrightarrow> buffer < U64_MOD
    \<Longrightarrow> InvalidateRegion env (bc_ReadMemory env ops buffer A S True) A S (r, mt) = Some (r', mt') \<Longrightarrow> tracker_reachable env ops others r' mt'"

text \<open>What another client of the page manager does is invisible to the tracker.\<close>

lemma modified_page_tracker [simp]:
  "cpu_modified (mt\<lparr>page_tracker := pm\<rparr>) = cpu_modified mt" "gpu_modified (mt\<lparr>page_tracker := pm\<rparr>) = gpu_modified mt"
  by (simp_all add: cpu_modified_def gpu_modified_def fun_eq_iff split: option.split)

lemma watch_state_other:
  assumes "watch_state env n c g s" "if track then n < 126 else 0 < n"
  shows "watch_pre track False s" "Perms (watched track False s) \<noteq> MemoryPermission_Write"
    "watch_state env (if track then n + 1 else n - 1) c g (watched track False s)"
proof -
  let ?w = "num_write_watchers s"
  have w: "unat ?w = n + (if c then 0 else 1)" "n \<le> 126" using assms(1) by (simp_all add: watch_state_def)
  have add: "unat (?w + 1) = unat ?w + 1" if track
    using w assms(2) that by (subst unat_add_lem [THEN iffD1]) auto
  have nz: "?w \<noteq> 0" if "\<not> track" using w assms(2) that by auto
  then have sub: "unat (?w - 1) = unat ?w - 1" if "\<not> track" using that by (simp add: unat_minus_one)
  show "watch_pre track False s" using w assms(2) nz by (auto simp: watch_pre_def)
  show ws: "watch_state env (if track then n + 1 else n - 1) c g (watched track False s)"
    using assms w add sub by (cases track) (auto simp: watch_state_def watched_def)
  have "num_read_watchers (watched track False s) = 0 \<or> num_write_watchers (watched track False s) \<noteq> 0"
    using ws by (auto simp: watch_state_def unat_eq_0 split: if_splits)
  then show "Perms (watched track False s) \<noteq> MemoryPermission_Write"
    by (auto simp: Perms_def ReadPerm_def WritePerm_def MemoryPermission_defs)
qed

lemma other_client_ok:
  assumes mt: "tracker_ok env others mt" "unlocked mt" and lim: "addr + sz \<le> 2 ^ 40" "addr < 2 ^ 40"
    and w: "\<forall>p. page_in addr sz p \<longrightarrow> (if track then others p < 126 else 0 < others p)"
  shows "\<exists>pm. UpdatePageWatchers track False addr sz (page_tracker mt) = Some pm
    \<and> tracker_ok env (watchers_changed track addr sz others) (mt\<lparr>page_tracker := pm\<rparr>) \<and> unlocked (mt\<lparr>page_tracker := pm\<rparr>)"
proof -
  have ws: "watch_state env (others p) (cpu_modified mt p) (gpu_modified mt p) (cached_pages (page_tracker mt) p)" for p
    using mt(1) by (simp add: tracker_ok_def)
  have "watch_allowed track False (page_in addr sz) (cached_pages (page_tracker mt))"
    using watch_state_other(1,2) [OF ws] w by (simp add: watch_allowed_def)
  then obtain pm where pm: "UpdatePageWatchers track False addr sz (page_tracker mt) = Some pm"
    "cached_pages pm = watch_all track False (page_in addr sz) (cached_pages (page_tracker mt))" "pages_protected pm"
    using UpdatePageWatchers_ok [OF lim, of "page_tracker mt" track False] mt(1) by (auto simp: tracker_ok_def)
  have "watch_state env (watchers_changed track addr sz others p) (cpu_modified mt p) (gpu_modified mt p) (cached_pages pm p)" for p
    using watch_state_other(3) [OF ws, of track p] ws [of p] w by (auto simp: pm(2) watch_all_def watchers_changed_def)
  then have "tracker_ok env (watchers_changed track addr sz others) (mt\<lparr>page_tracker := pm\<rparr>)"
    using mt(1) pm(3) by (simp add: tracker_ok_def)
  moreover have "unlocked (mt\<lparr>page_tracker := pm\<rparr>)" using mt(2) by (simp add: locks_held_def)
  ultimately show ?thesis using pm(1) by blast
qed

lemma recorded_upload:
  assumes "icl_ok ops" "A + S \<le> 2 ^ 40" "recorded ops r mt" "\<forall>p. gpu_modified mt' p \<longleftrightarrow> gpu_modified mt p \<or> w \<and> touched A S p"
  shows "recorded ops (if w then rs_Add ops A S r else r) mt'"
proof -
  have "in_ranges ops (rs_Add ops A S r) x \<longleftrightarrow> in_ranges ops r x \<or> A \<le> x \<and> x < A + S" for x
    using RangeSet_update(1) [OF assms(1)] assms(2) by simp
  moreover have "\<exists>x. x div 4096 = p \<and> A \<le> x \<and> x < A + S" if "touched A S p" for p using that by (auto simp: touched_def)
  ultimately show ?thesis using assms(3,4) unfolding recorded_def by (cases w) (simp_all, blast)
qed

lemma tracker_reachable_inv:
  assumes "tracker_reachable env ops others r mt" "icl_ok ops"
  shows "tracker_ok env others mt \<and> unlocked mt \<and> recorded ops r mt"
  using assms(1)
proof (induction rule: tracker_reachable.induct)
  case init
  have "recorded ops (icl_clear ops) (MemoryTracker_init PageManager_init)" by (simp add: recorded_def gpu_modified_def MemoryTracker_init_def)
  then show ?case by (simp add: MemoryTracker_init_ok)
next
  case (other_client others r mt addr sz track pm)
  then have "recorded ops r (mt\<lparr>page_tracker := pm\<rparr>)" by (simp add: recorded_def)
  then show ?case using other_client other_client_ok [of env others mt addr sz track] by auto
next
  case (query_cpu others r mt A S b mt')
  then show ?case using IsRegion_Modified_ok [of env others mt A S True Type_CPU] by (auto simp: IsRegionCpuModified_def recorded_def)
next
  case (query_gpu others r mt A S b mt')
  then show ?case using IsRegion_Modified_ok [of env others mt A S False Type_GPU] by (auto simp: IsRegionGpuModified_def recorded_def)
next
  case (upload others r mt A S w calls mt')
  then have "tracker_ok env others mt' \<and> unlocked mt'" "\<forall>p. gpu_modified mt' p \<longleftrightarrow> gpu_modified mt p \<or> w \<and> touched A S p"
    using ForEachUploadRange_ok [of env others mt A S w] by auto
  then show ?case using recorded_upload [OF assms(2)] upload by blast
next
  case (read_back others r mt A S buffer w r' mt')
  then show ?case using DownloadBufferMemory_ok [of env others mt A S ops r buffer w] assms(2) by (auto simp: bc_ReadMemory_def)
next
  case (invalidate others r mt A S buffer r' mt')
  then show ?case using InvalidateRegion_ok [of env others mt A S ops r buffer] assms(2) by auto
qed

lemma tracker_reachable_ok:
  assumes "tracker_reachable env ops others r mt" "icl_ok ops"
  shows "tracker_ok env others mt" "unlocked mt" "recorded ops r mt"
  using tracker_reachable_inv [OF assms] by blast+

section \<open>A sample run\<close>

text \<open>A simple interval set, the finite set of its addresses, meets the laws the model relies on.\<close>

definition sample_icl :: "nat fset icl" where
  "sample_icl = \<lparr>icl_clear = {||}, icl_list = (\<lambda>r. map (\<lambda>x. (x, Suc x)) (sorted_list_of_fset r)),
     icl_add = (\<lambda>(a, b) r. r |\<union>| fset_of_list [a..<b]), icl_subtract = (\<lambda>(a, b) r. r |-| fset_of_list [a..<b])\<rparr>"

lemma sample_icl_ranges: "in_ranges sample_icl r x \<longleftrightarrow> x |\<in>| r"
  by (auto simp: sample_icl_def in_intervals_def sorted_list_of_fset.rep_eq less_Suc_eq_le)

lemma sample_icl_ok: "icl_ok sample_icl"
proof -
  have "intervals_ok (icl_list sample_icl r)" for r
    unfolding intervals_ok_def sample_icl_def
    by (auto simp: sorted_wrt_map sorted_list_of_fset.rep_eq Suc_le_eq)
  moreover have "icl_list sample_icl (icl_clear sample_icl) = []" by (simp add: sample_icl_def sorted_list_of_fset.rep_eq)
  moreover have "x |\<in>| icl_add sample_icl (a, b) r \<longleftrightarrow> x |\<in>| r \<or> a \<le> x \<and> x < b"
    "x |\<in>| icl_subtract sample_icl (a, b) r \<longleftrightarrow> x |\<in>| r \<and> \<not> (a \<le> x \<and> x < b)" for a b r x
    by (auto simp: sample_icl_def fset_of_list_elem)
  ultimately show ?thesis by (simp add: icl_ok_def sample_icl_ranges)
qed

definition demo_env :: tracker_env where "demo_env = \<lparr>use_avx = True, readbacks_mode = Readbacks_Precise\<rparr>"

text \<open>The texture cache watches page 3, and the GPU writes a buffer in page 5.\<close>

lemma tracker_demo:
  obtains mt where "tracker_reachable demo_env sample_icl (watchers_changed True 12288 4096 (\<lambda>_. 0)) (rs_Add sample_icl 20480 4096 (icl_clear sample_icl)) mt"
    "\<forall>p. cpu_modified mt p \<longleftrightarrow> p \<noteq> 5" "\<forall>p. gpu_modified mt p \<longleftrightarrow> p = 5"
proof -
  let ?m0 = "MemoryTracker_init PageManager_init"
  have w: "\<forall>p. page_in 12288 4096 p \<longrightarrow> (if True then (0::nat) < 126 else 0 < (0::nat))" by simp
  have lim: "12288 + 4096 \<le> (2 ^ 40 :: nat)" "12288 < (2 ^ 40 :: nat)" "20480 + 4096 \<le> (2 ^ 40 :: nat)" by simp_all
  obtain pm where pm: "UpdatePageWatchers True False 12288 4096 (page_tracker ?m0) = Some pm"
    using other_client_ok [OF MemoryTracker_init_ok lim(1,2) w] by blast
  let ?m1 = "?m0\<lparr>page_tracker := pm\<rparr>"
  have r1: "tracker_reachable demo_env sample_icl (watchers_changed True 12288 4096 (\<lambda>_. 0)) (icl_clear sample_icl) ?m1"
    by (rule tracker_reachable.other_client [OF tracker_reachable.init lim(1,2) w pm])
  note ok = tracker_reachable_ok [OF r1 sample_icl_ok]
  obtain calls mt where u: "ForEachUploadRange demo_env 20480 4096 True ?m1 = Some (calls, mt)"
    "\<forall>p. cpu_modified mt p \<longleftrightarrow> cpu_modified ?m1 p \<and> \<not> touched 20480 4096 p"
    "\<forall>p. gpu_modified mt p \<longleftrightarrow> gpu_modified ?m1 p \<or> True \<and> touched 20480 4096 p"
    using ForEachUploadRange_ok [OF ok(1,2) lim(3), of True] by blast
  have "touched 20480 4096 p \<longleftrightarrow> p = 5" for p by (auto simp: touched_iff)
  then have "cpu_modified mt p \<longleftrightarrow> p \<noteq> 5" "gpu_modified mt p \<longleftrightarrow> p = 5" for p
    using u(2,3) by (simp_all add: cpu_modified_def gpu_modified_def MemoryTracker_init_def)
  then show ?thesis using that [of mt] tracker_reachable.upload [OF r1 lim(3) u(1)] by simp
qed

section \<open>Properties\<close>

text \<open>
  C6. In every state that the calls of the tracker reach, whatever ranges the texture cache watches in the same page manager, the
  host protection of every page is the one its modification state and its other watchers ask for: a page the GPU has modified (with precise readbacks) is
  inaccessible, a page the CPU has modified and nobody else watches is readable and writable, any other page is read-only, so
  that the first write to it faults; and no region is left locked.  The conditions are those of \<open>tracker_reachable\<close>: calls are atomic, ranges end below
  2^40, the texture cache removes only its own watches and has at most 126 on a page, and the interval set is as documented.
\<close>

theorem tracker_protects_pages:
  assumes "tracker_reachable env ops others r mt" "icl_ok ops"
  shows "host_perms (page_tracker mt) p =
      (if readbacks_mode env = Readbacks_Precise \<and> gpu_modified mt p then 0
       else if cpu_modified mt p \<and> others p = 0 then MemoryPermission_ReadWrite else MemoryPermission_Read)
    \<and> unlocked mt"
proof -
  note ok = tracker_reachable_ok [OF assms]
  have "host_perms (page_tracker mt) p = Perms (cached_pages (page_tracker mt) p)" using ok(1) by (simp add: tracker_ok_def pages_protected_def)
  moreover have w: "watch_state env (others p) (cpu_modified mt p) (gpu_modified mt p) (cached_pages (page_tracker mt) p)"
    using ok(1) by (simp add: tracker_ok_def)
  then have "num_write_watchers (cached_pages (page_tracker mt) p) = 0 \<longleftrightarrow> cpu_modified mt p \<and> others p = 0"
    by (auto simp: watch_state_def unat_eq_0 split: if_splits)
  ultimately show ?thesis using w ok(2) by (auto simp: Perms_def ReadPerm_def WritePerm_def watch_state_def MemoryPermission_defs)
qed

theorem tracker_protects_pages_witness:
  "\<exists>others r mt. tracker_reachable demo_env sample_icl others r mt \<and> others 3 = 1
     \<and> host_perms (page_tracker mt) 3 = MemoryPermission_Read \<and> host_perms (page_tracker mt) 5 = 0
     \<and> host_perms (page_tracker mt) 6 = MemoryPermission_ReadWrite"
proof -
  obtain mt where mt: "tracker_reachable demo_env sample_icl (watchers_changed True 12288 4096 (\<lambda>_. 0)) (rs_Add sample_icl 20480 4096 (icl_clear sample_icl)) mt"
    "\<forall>p. cpu_modified mt p \<longleftrightarrow> p \<noteq> 5" "\<forall>p. gpu_modified mt p \<longleftrightarrow> p = 5" by (rule tracker_demo)
  have o3: "watchers_changed True 12288 4096 (\<lambda>_. 0) 3 = 1" "watchers_changed True 12288 4096 (\<lambda>_. 0) 6 = 0"
    by (simp_all add: watchers_changed_def page_in_def)
  note T = tracker_protects_pages [OF mt(1) sample_icl_ok]
  have "host_perms (page_tracker mt) 3 = MemoryPermission_Read" "host_perms (page_tracker mt) 5 = 0"
    "host_perms (page_tracker mt) 6 = MemoryPermission_ReadWrite"
    using T [of 3] T [of 5] T [of 6] mt(2,3) o3 by (simp_all add: demo_env_def)
  then show ?thesis using mt(1) o3(1) by blast
qed

text \<open>
  C7. From every reachable state, uploading a range ends without a failed assertion or a deadlock, reports to the
  caller exactly the pages of the range that the CPU has modified, calls \<open>on_upload\<close> once after them, leaves those pages
  unmodified by the CPU and, when the buffer is written, marks all pages of the range as modified by the GPU.
\<close>

theorem ForEachUploadRange_correct:
  assumes "tracker_reachable env ops others r mt" "icl_ok ops" "A + S \<le> 2 ^ 40"
  shows "\<exists>rs mt'. ForEachUploadRange env A S w mt = Some (map (\<lambda>(a, n). Func a n) rs @ [OnUpload], mt')
    \<and> (\<forall>p. covers rs p \<longleftrightarrow> touched A S p \<and> cpu_modified mt p)
    \<and> (\<forall>p. cpu_modified mt' p \<longleftrightarrow> cpu_modified mt p \<and> \<not> touched A S p)
    \<and> (\<forall>p. gpu_modified mt' p \<longleftrightarrow> gpu_modified mt p \<or> w \<and> touched A S p)"
  using ForEachUploadRange_ok [OF tracker_reachable_ok(1,2) [OF assms(1,2)] assms(3), of w] by blast

theorem ForEachUploadRange_correct_witness:
  "\<exists>rs mt'. ForEachUploadRange demo_env 12288 8192 True (MemoryTracker_init PageManager_init)
     = Some (map (\<lambda>(a, n). Func a n) rs @ [OnUpload], mt') \<and> gpu_modified mt' 4 \<and> \<not> cpu_modified mt' 4"
proof -
  have "touched 12288 8192 4" by (simp add: touched_iff)
  then show ?thesis
    using ForEachUploadRange_correct [OF tracker_reachable.init sample_icl_ok, of 12288 8192 demo_env True] by auto
qed

text \<open>
  C8. From every reachable state, invalidating a range (the path of a write fault in a range that meets a buffer: \<open>InvalidateRegion\<close>, whose flush is \<open>ReadMemory\<close> with its
  download and its early return when there is nothing to copy) ends, makes every page of the range CPU-modified and leaves none of them GPU-modified
  unless readbacks are disabled; pages outside keep their state.  The early return is never taken here: a page that the tracker
  holds as GPU-modified has bytes in \<open>gpu_modified_ranges\<close>.  At most 512 KB of GPU-written bytes lie on the pages of the range, so that the copies
  fit the download buffer, whose size the code does not check.
\<close>

theorem InvalidateRegion_correct:
  assumes "tracker_reachable env ops others r mt" "icl_ok ops" "A + S \<le> 2 ^ 40" "gpu_bytes ops r A S \<le> 2 ^ 19" "buffer < U64_MOD"
  shows "\<exists>r' mt'. InvalidateRegion env (bc_ReadMemory env ops buffer A S True) A S (r, mt) = Some (r', mt')
    \<and> (\<forall>p. cpu_modified mt' p \<longleftrightarrow> cpu_modified mt p \<or> touched A S p)
    \<and> (\<forall>p. gpu_modified mt' p \<longleftrightarrow> gpu_modified mt p \<and> \<not> (touched A S p \<and> readbacks_mode env \<noteq> Readbacks_Disabled))"
  using InvalidateRegion_ok [OF tracker_reachable_ok(1,2) [OF assms(1,2)] assms(3,2) tracker_reachable_ok(3) [OF assms(1,2)] assms(4,5)] by blast

lemma demo_bytes: "gpu_bytes sample_icl (rs_Add sample_icl 20480 4096 (icl_clear sample_icl)) A S \<le> 2 ^ 19"
proof -
  have "in_ranges sample_icl (rs_Add sample_icl 20480 4096 (icl_clear sample_icl)) x \<longleftrightarrow> x \<in> {20480..<24576}" for x
    using RangeSet_update(1) [OF sample_icl_ok, of 20480 4096 "icl_clear sample_icl"] icl_okD(2) [OF sample_icl_ok] by simp
  then have "{x. in_ranges sample_icl (rs_Add sample_icl 20480 4096 (icl_clear sample_icl)) x \<and> touched A S (x div 4096)} \<subseteq> {20480..<24576}" by blast
  then have "gpu_bytes sample_icl (rs_Add sample_icl 20480 4096 (icl_clear sample_icl)) A S \<le> card {20480..<24576::nat}"
    unfolding gpu_bytes_def by (intro card_mono finite_atLeastLessThan)
  then show ?thesis by simp
qed

theorem InvalidateRegion_correct_witness:
  "\<exists>r mt r' mt'. gpu_modified mt 5 \<and> \<not> cpu_modified mt 5
     \<and> InvalidateRegion demo_env (bc_ReadMemory demo_env sample_icl 16384 20580 8 True) 20580 8 (r, mt) = Some (r', mt')
     \<and> cpu_modified mt' 5 \<and> \<not> gpu_modified mt' 5"
proof -
  obtain mt where mt: "tracker_reachable demo_env sample_icl (watchers_changed True 12288 4096 (\<lambda>_. 0)) (rs_Add sample_icl 20480 4096 (icl_clear sample_icl)) mt"
    "\<forall>p. cpu_modified mt p \<longleftrightarrow> p \<noteq> 5" "\<forall>p. gpu_modified mt p \<longleftrightarrow> p = 5" by (rule tracker_demo)
  have "touched 20580 8 5" by (simp add: touched_iff)
  then show ?thesis
    using InvalidateRegion_correct [OF mt(1) sample_icl_ok _ demo_bytes, of 20580 8 16384] mt(2,3) by (force simp: demo_env_def)
qed

text \<open>
  C40. What \<open>DownloadBufferMemory\<close> reads back, from every reachable state, for a range that ends below 2^40 and whose pages hold at most 512 KB of GPU-written bytes: exactly the bytes that the GPU has written on the
  GPU-modified pages the range touches; each copy has a place of its own in the download buffer, aligned to 64 bytes, no two places overlap and none goes past the
  buffer's end; these bytes are no longer recorded as GPU-written, no touched page stays GPU-modified, and for a write the pages
  become CPU-modified if anything was read back.
\<close>

theorem DownloadBufferMemory_correct:
  assumes "tracker_reachable env ops others r mt" "icl_ok ops" "A + S \<le> 2 ^ 40" "gpu_bytes ops r A S \<le> 2 ^ 19" "buffer < U64_MOD"
  shows "\<exists>copies r' mt'. DownloadBufferMemory env ops buffer A S w (r, mt) = Some (copies, r', mt')
    \<and> (\<forall>x. copied buffer copies x \<longleftrightarrow> in_ranges ops r x \<and> touched A S (x div 4096) \<and> gpu_modified mt (x div 4096))
    \<and> sorted_wrt (\<lambda>c d. dstOffset c + copy_size c \<le> dstOffset d) copies
    \<and> (\<forall>c\<in>set copies. 64 dvd dstOffset c \<and> dstOffset c + copy_size c \<le> DownloadBufferSize)
    \<and> (\<forall>x. in_ranges ops r' x \<longleftrightarrow> in_ranges ops r x \<and> \<not> copied buffer copies x)
    \<and> (\<forall>p. gpu_modified mt' p \<longleftrightarrow> gpu_modified mt p \<and> \<not> touched A S p)
    \<and> (\<forall>p. cpu_modified mt' p \<longleftrightarrow> cpu_modified mt p \<or> w \<and> touched A S p \<and> copies \<noteq> [])"
proof -
  note ok = tracker_reachable_ok [OF assms(1,2)]
  obtain cs r' mt' where d: "DownloadBufferMemory env ops buffer A S w (r, mt) = Some (cs, r', mt')" "staged cs DownloadBufferSize"
    "\<forall>x. copied buffer cs x \<longleftrightarrow> in_ranges ops r x \<and> touched A S (x div 4096) \<and> gpu_modified mt (x div 4096)"
    "\<forall>x. in_ranges ops r' x \<longleftrightarrow> in_ranges ops r x \<and> \<not> (touched A S (x div 4096) \<and> gpu_modified mt (x div 4096))"
    "\<forall>p. gpu_modified mt' p \<longleftrightarrow> gpu_modified mt p \<and> \<not> touched A S p"
    "\<forall>p. cpu_modified mt' p \<longleftrightarrow> cpu_modified mt p \<or> w \<and> touched A S p \<and> (\<exists>p'. touched A S p' \<and> gpu_modified mt p')"
    "cs = [] \<longleftrightarrow> \<not> (\<exists>p'. touched A S p' \<and> gpu_modified mt p')"
    using DownloadBufferMemory_ok [OF ok(1,2) assms(3,2) ok(3) assms(4,5), of w] by (elim exE conjE) (rule that)
  have "\<forall>x. in_ranges ops r' x \<longleftrightarrow> in_ranges ops r x \<and> \<not> copied buffer cs x" using d(3,4) by blast
  moreover have "\<forall>p. cpu_modified mt' p \<longleftrightarrow> cpu_modified mt p \<or> w \<and> touched A S p \<and> cs \<noteq> []" using d(6,7) by blast
  moreover have "sorted_wrt (\<lambda>c d. dstOffset c + copy_size c \<le> dstOffset d) cs"
    "\<forall>c\<in>set cs. 64 dvd dstOffset c \<and> dstOffset c + copy_size c \<le> DownloadBufferSize" using d(2) by (simp_all add: staged_def)
  ultimately show ?thesis using d(1,3,5) by (intro exI [of _ cs] exI [of _ r'] exI [of _ mt'] conjI)
qed

theorem DownloadBufferMemory_correct_witness:
  "\<exists>r mt copies r' mt'. DownloadBufferMemory demo_env sample_icl 16384 20580 8 False (r, mt) = Some (copies, r', mt')
     \<and> copied 16384 copies 24000 \<and> \<not> in_ranges sample_icl r' 24000 \<and> \<not> gpu_modified mt' 5 \<and> \<not> cpu_modified mt' 5"
proof -
  obtain mt where mt: "tracker_reachable demo_env sample_icl (watchers_changed True 12288 4096 (\<lambda>_. 0)) (rs_Add sample_icl 20480 4096 (icl_clear sample_icl)) mt"
    "\<forall>p. cpu_modified mt p \<longleftrightarrow> p \<noteq> 5" "\<forall>p. gpu_modified mt p \<longleftrightarrow> p = 5" by (rule tracker_demo)
  have t: "touched 20580 8 5" by (simp add: touched_iff)
  have x: "in_ranges sample_icl (rs_Add sample_icl 20480 4096 (icl_clear sample_icl)) 24000"
    using RangeSet_update(1) [OF sample_icl_ok, of 20480 4096 "icl_clear sample_icl" 24000] by simp
  show ?thesis
    using DownloadBufferMemory_correct [OF mt(1) sample_icl_ok _ demo_bytes, of 20580 8 16384 False] mt(2,3) t x by fastforce
qed

text \<open>
  From every reachable state the two queries answer whether some page of the range is modified (a range
  the tracker has not seen counts as modified by the CPU and not by the GPU), and a download reports exactly the
  GPU-modified pages; none of them changes what is modified.
\<close>

lemma tracker_queries_correct:
  assumes "tracker_reachable env ops others r mt" "icl_ok ops" "A + S \<le> 2 ^ 40"
  shows "(\<exists>mt'. IsRegionCpuModified env A S mt = Some (\<exists>p. touched A S p \<and> cpu_modified mt p, mt')
      \<and> cpu_modified mt' = cpu_modified mt \<and> gpu_modified mt' = gpu_modified mt)
    \<and> (\<exists>mt'. IsRegionGpuModified env A S mt = Some (\<exists>p. touched A S p \<and> gpu_modified mt p, mt')
      \<and> cpu_modified mt' = cpu_modified mt \<and> gpu_modified mt' = gpu_modified mt)
    \<and> (\<exists>rs mt'. ForEachDownloadRange env False A S mt = Some (map (\<lambda>(a, n). Func a n) rs, mt')
      \<and> (\<forall>p. covers rs p \<longleftrightarrow> touched A S p \<and> gpu_modified mt p)
      \<and> cpu_modified mt' = cpu_modified mt \<and> gpu_modified mt' = gpu_modified mt)"
proof (intro conjI)
  note ok = tracker_reachable_ok(1,2) [OF assms(1,2)]
  show "\<exists>mt'. IsRegionCpuModified env A S mt = Some (\<exists>p. touched A S p \<and> cpu_modified mt p, mt')
      \<and> cpu_modified mt' = cpu_modified mt \<and> gpu_modified mt' = gpu_modified mt"
    using IsRegion_Modified_ok [OF ok assms(3), of True Type_CPU] by (auto simp: IsRegionCpuModified_def)
  show "\<exists>mt'. IsRegionGpuModified env A S mt = Some (\<exists>p. touched A S p \<and> gpu_modified mt p, mt')
      \<and> cpu_modified mt' = cpu_modified mt \<and> gpu_modified mt' = gpu_modified mt"
    using IsRegion_Modified_ok [OF ok assms(3), of False Type_GPU] by (auto simp: IsRegionGpuModified_def)
  show "\<exists>rs mt'. ForEachDownloadRange env False A S mt = Some (map (\<lambda>(a, n). Func a n) rs, mt')
      \<and> (\<forall>p. covers rs p \<longleftrightarrow> touched A S p \<and> gpu_modified mt p)
      \<and> cpu_modified mt' = cpu_modified mt \<and> gpu_modified mt' = gpu_modified mt"
    using ForEachDownloadRange_ok [OF ok assms(3)] by blast
qed

end
