(* ===== verification/Transition_System.thy ===== *)
theory Transition_System
  imports Prelude
begin

text \<open>
  Labelled transition systems for the components whose operations interleave: the states reached from an initial
  one, and the interface through which a component shows that an invariant holds in all of them.
\<close>

inductive reach :: "('s \<Rightarrow> bool) \<Rightarrow> ('s \<Rightarrow> 'e \<Rightarrow> 's \<Rightarrow> bool) \<Rightarrow> 's \<Rightarrow> bool" for init step where
  reach_init: "init s \<Longrightarrow> reach init step s"
| reach_step: "reach init step s \<Longrightarrow> step s e s' \<Longrightarrow> reach init step s'"

inductive steps :: "('s \<Rightarrow> 'e \<Rightarrow> 's \<Rightarrow> bool) \<Rightarrow> 's \<Rightarrow> 'e list \<Rightarrow> 's \<Rightarrow> bool" for step where
  steps_nil: "steps step s [] s"
| steps_cons: "step s e s' \<Longrightarrow> steps step s' es s'' \<Longrightarrow> steps step s (e # es) s''"

inductive_simps steps_nil_simp [simp]: "steps step s [] s'"
inductive_simps steps_cons_simp [simp]: "steps step s (e # es) s'"

lemma steps_append: "steps step s (es @ es') s'' \<longleftrightarrow> (\<exists>s'. steps step s es s' \<and> steps step s' es' s'')"
  by (induction es arbitrary: s) auto

lemma steps_reach:
  assumes "steps step s es s'" "reach init step s"
  shows "reach init step s'"
  using assms by (induction) (auto intro: reach.intros)

locale invariant_system =
  fixes init :: "'s \<Rightarrow> bool" and step :: "'s \<Rightarrow> 'e \<Rightarrow> 's \<Rightarrow> bool" and inv :: "'s \<Rightarrow> bool"
  assumes init_inv: "init s \<Longrightarrow> inv s"
    and step_inv: "inv s \<Longrightarrow> step s e s' \<Longrightarrow> inv s'"
begin

lemma reach_inv: "reach init step s \<Longrightarrow> inv s"
  by (induction rule: reach.induct) (auto intro: init_inv step_inv)

lemma steps_inv: "steps step s es s' \<Longrightarrow> inv s \<Longrightarrow> inv s'"
  by (induction rule: steps.induct) (auto intro: step_inv)

end

end
