(* ===== verification/Event_Flag.thy ===== *)
theory Event_Flag
  imports Transition_System "HOL-Library.Monad_Syntax"
begin

text \<open>
  Event flags (\<open>core/libraries/kernel/threads/event_flag.cpp\<close>): the object, the pieces of its operations that run under
  its mutex, the kernel calls, and the interleaving of any number of threads over one object as a step relation.
\<close>

section \<open>The event flag\<close>

datatype ClearMode = Clear_None | Clear_All | Clear_Bits
datatype WaitMode = Wait_And | Wait_Or
datatype ThreadMode = Thread_Single | Thread_Multi
datatype QueueMode = Queue_Fifo | Queue_ThreadPrio
datatype EvfStatus = Status_Set | Status_Canceled | Status_Deleted

record EventFlagInternal =
  m_status :: EvfStatus
  m_waiting_threads :: nat
  m_name :: string
  m_thread_mode :: ThreadMode
  m_queue_mode :: QueueMode
  m_bits :: "64 word"

definition EventFlagInternal_init :: "string \<Rightarrow> ThreadMode \<Rightarrow> QueueMode \<Rightarrow> 64 word \<Rightarrow> EventFlagInternal" where
  "EventFlagInternal_init name thread_mode queue_mode bits =
     \<lparr>m_status = Status_Set, m_waiting_threads = 0, m_name = name, m_thread_mode = thread_mode,
      m_queue_mode = queue_mode, m_bits = bits\<rparr>"

definition waitFunc :: "64 word \<Rightarrow> WaitMode \<Rightarrow> EventFlagInternal \<Rightarrow> bool" where
  "waitFunc bits wait_mode ef \<longleftrightarrow>
     m_status ef = Status_Canceled \<or> m_status ef = Status_Deleted
   \<or> (wait_mode = Wait_And \<and> m_bits ef AND bits = bits)
   \<or> (wait_mode = Wait_Or \<and> m_bits ef AND bits \<noteq> 0)"

text \<open>
  A call of \<open>Wait\<close> in three pieces, each of which runs under the mutex: up to the wait on the condition variable,
  the return after a timeout, and the return after the wait succeeded.
\<close>

definition Wait_begin :: "EventFlagInternal \<Rightarrow> s32 + EventFlagInternal" where
  "Wait_begin ef =
     (if m_thread_mode ef = Thread_Single \<and> m_waiting_threads ef > 0 then Inl ORBIS_KERNEL_ERROR_EPERM
      else Inr (ef\<lparr>m_waiting_threads := m_waiting_threads ef + 1\<rparr>))"

record wait_return =
  wr_code :: s32
  wr_result :: "64 word"
  wr_micros :: "u32 option"

definition Wait_timeout :: "EventFlagInternal \<Rightarrow> wait_return \<times> EventFlagInternal" where
  "Wait_timeout ef =
     (\<lparr>wr_code = ORBIS_KERNEL_ERROR_ETIMEDOUT, wr_result = m_bits ef, wr_micros = Some 0\<rparr>,
      ef\<lparr>m_waiting_threads := m_waiting_threads ef - 1\<rparr>)"

definition Wait_end :: "64 word \<Rightarrow> ClearMode \<Rightarrow> u32 option \<Rightarrow> nat \<Rightarrow> EventFlagInternal \<Rightarrow> wait_return \<times> EventFlagInternal" where
  "Wait_end bits clear_mode ptr_micros elapsed ef0 =
     (let ef = ef0\<lparr>m_waiting_threads := m_waiting_threads ef0 - 1\<rparr>;
          micros' = map_option (\<lambda>micros. if elapsed \<ge> micros then 0 else micros - elapsed) ptr_micros;
          ret = (\<lambda>code. \<lparr>wr_code = code, wr_result = m_bits ef, wr_micros = micros'\<rparr>)
      in if m_status ef = Status_Canceled then (ret ORBIS_KERNEL_ERROR_ECANCELED, ef)
         else if m_status ef = Status_Deleted then (ret ORBIS_KERNEL_ERROR_EACCES, ef)
         else (ret ORBIS_OK,
               if clear_mode = Clear_All then ef\<lparr>m_bits := 0\<rparr>
               else if clear_mode = Clear_Bits then ef\<lparr>m_bits := m_bits ef AND NOT bits\<rparr> else ef))"

definition Poll_code :: "s32 \<Rightarrow> s32" where
  "Poll_code ret = (if ret = ORBIS_KERNEL_ERROR_ETIMEDOUT then ORBIS_KERNEL_ERROR_EBUSY else ret)"

text \<open>\<open>Set\<close>, \<open>Clear\<close> and \<open>Cancel\<close> sleep and retry while the status is not \<open>Set\<close>; these are their effects once it is.\<close>

definition Evf_Set :: "64 word \<Rightarrow> EventFlagInternal \<Rightarrow> EventFlagInternal" where
  "Evf_Set bits ef = ef\<lparr>m_bits := m_bits ef OR bits\<rparr>"

definition Evf_Clear :: "64 word \<Rightarrow> EventFlagInternal \<Rightarrow> EventFlagInternal" where
  "Evf_Clear bits ef = ef\<lparr>m_bits := m_bits ef AND bits\<rparr>"

definition Cancel_begin :: "64 word \<Rightarrow> EventFlagInternal \<Rightarrow> nat \<times> EventFlagInternal" where
  "Cancel_begin setPattern ef = (m_waiting_threads ef, ef\<lparr>m_status := Status_Canceled, m_bits := setPattern\<rparr>)"

definition Cancel_end :: "EventFlagInternal \<Rightarrow> EventFlagInternal" where
  "Cancel_end ef = ef\<lparr>m_status := Status_Set\<rparr>"

section \<open>The kernel calls\<close>

definition evf_queue_mode :: "32 word \<Rightarrow> QueueMode option" where
  "evf_queue_mode attr =
     (if attr AND 0xf = 0x01 then Some Queue_Fifo else if attr AND 0xf = 0x02 then Some Queue_ThreadPrio
      else if attr AND 0xf = 0 then Some Queue_Fifo else None)"

definition evf_thread_mode :: "32 word \<Rightarrow> ThreadMode option" where
  "evf_thread_mode attr =
     (if attr AND 0xf0 = 0x10 then Some Thread_Single else if attr AND 0xf0 = 0x20 then Some Thread_Multi
      else if attr AND 0xf0 = 0 then Some Thread_Single else None)"

text \<open>The first argument says whether the pointer for the result is given, \<open>pOptParam\<close> whether the last one is.\<close>

definition sceKernelCreateEventFlag ::
  "bool \<Rightarrow> string option \<Rightarrow> 32 word \<Rightarrow> 64 word \<Rightarrow> bool \<Rightarrow> (s32 + EventFlagInternal) option" where
  "sceKernelCreateEventFlag ef pName attr initPattern pOptParam =
     (case pName of
        None \<Rightarrow> Some (Inl ORBIS_KERNEL_ERROR_EINVAL)
      | Some name \<Rightarrow>
          if \<not> ef then Some (Inl ORBIS_KERNEL_ERROR_EINVAL)
          else if pOptParam \<or> attr > 0x22 then Some (Inl ORBIS_KERNEL_ERROR_EINVAL)
          else if length name \<ge> 32 then Some (Inl ORBIS_KERNEL_ERROR_ENAMETOOLONG)
          else do {
            queue_mode \<leftarrow> evf_queue_mode attr;
            thread_mode \<leftarrow> evf_thread_mode attr;
            Some (Inr (EventFlagInternal_init name thread_mode queue_mode initPattern))
          })"

definition evf_wait_mode :: "32 word \<Rightarrow> WaitMode option" where
  "evf_wait_mode waitMode =
     (if waitMode AND 0xf = 0x01 then Some Wait_And else if waitMode AND 0xf = 0x02 then Some Wait_Or else None)"

definition evf_clear_mode :: "32 word \<Rightarrow> ClearMode option" where
  "evf_clear_mode waitMode =
     (if waitMode AND 0xf0 = 0 then Some Clear_None else if waitMode AND 0xf0 = 0x10 then Some Clear_All
      else if waitMode AND 0xf0 = 0x20 then Some Clear_Bits else None)"

text \<open>What a kernel call asks of the object, once its arguments are checked.\<close>

datatype evf_request =
    Req_Wait "64 word" WaitMode ClearMode "u32 option"
  | Req_Poll "64 word" WaitMode ClearMode
  | Req_Set "64 word"
  | Req_Clear "64 word"
  | Req_Cancel "64 word"
  | Req_Delete

definition sceKernelWaitEventFlag :: "bool \<Rightarrow> 64 word \<Rightarrow> 32 word \<Rightarrow> u32 option \<Rightarrow> (s32 + evf_request) option" where
  "sceKernelWaitEventFlag ef bitPattern waitMode pTimeout =
     (if \<not> ef then Some (Inl ORBIS_KERNEL_ERROR_ESRCH)
      else if bitPattern = 0 then Some (Inl ORBIS_KERNEL_ERROR_EINVAL)
      else do {
        wait \<leftarrow> evf_wait_mode waitMode;
        clear \<leftarrow> evf_clear_mode waitMode;
        Some (Inr (Req_Wait bitPattern wait clear pTimeout))
      })"

definition sceKernelPollEventFlag :: "bool \<Rightarrow> 64 word \<Rightarrow> 32 word \<Rightarrow> (s32 + evf_request) option" where
  "sceKernelPollEventFlag ef bitPattern waitMode =
     (if \<not> ef then Some (Inl ORBIS_KERNEL_ERROR_ESRCH)
      else if bitPattern = 0 then Some (Inl ORBIS_KERNEL_ERROR_EINVAL)
      else do {
        wait \<leftarrow> evf_wait_mode waitMode;
        clear \<leftarrow> evf_clear_mode waitMode;
        Some (Inr (Req_Poll bitPattern wait clear))
      })"

definition sceKernelSetEventFlag :: "bool \<Rightarrow> 64 word \<Rightarrow> s32 + evf_request" where
  "sceKernelSetEventFlag ef bitPattern = (if \<not> ef then Inl ORBIS_KERNEL_ERROR_ESRCH else Inr (Req_Set bitPattern))"

definition sceKernelClearEventFlag :: "bool \<Rightarrow> 64 word \<Rightarrow> s32 + evf_request" where
  "sceKernelClearEventFlag ef bitPattern = (if \<not> ef then Inl ORBIS_KERNEL_ERROR_ESRCH else Inr (Req_Clear bitPattern))"

definition sceKernelCancelEventFlag :: "bool \<Rightarrow> 64 word \<Rightarrow> s32 + evf_request" where
  "sceKernelCancelEventFlag ef setPattern = (if \<not> ef then Inl ORBIS_KERNEL_ERROR_ESRCH else Inr (Req_Cancel setPattern))"

definition sceKernelDeleteEventFlag :: "bool \<Rightarrow> s32 + evf_request" where
  "sceKernelDeleteEventFlag ef = (if \<not> ef then Inl ORBIS_KERNEL_ERROR_ESRCH else Inr Req_Delete)"

definition sceKernelOpenEventFlag :: s32 where "sceKernelOpenEventFlag = ORBIS_OK"
definition sceKernelCloseEventFlag :: s32 where "sceKernelCloseEventFlag = ORBIS_OK"

section \<open>Threads\<close>

text \<open>
  A thread is outside the object, asleep on the condition variable (or woken and about to take the mutex again), or in
  the loop in which \<open>Cancel\<close> lets the waiting threads go.
\<close>

datatype evf_thread =
    Outside
  | Waiting (w_bits: "64 word") (w_mode: WaitMode) (w_clear: ClearMode) (w_micros: "u32 option") (w_woken: bool)
  | Cancelling

record evf_system =
  es_flag :: EventFlagInternal
  es_threads :: "nat \<Rightarrow> evf_thread"

definition notify_all :: "(nat \<Rightarrow> evf_thread) \<Rightarrow> nat \<Rightarrow> evf_thread" where
  "notify_all ths t = (case ths t of Waiting b m c us w \<Rightarrow> Waiting b m c us True | th \<Rightarrow> th)"

datatype evf_event =
    Ev_Return nat "64 word" WaitMode ClearMode wait_return
  | Ev_Refused nat s32
  | Ev_Internal

inductive evf_step :: "evf_system \<Rightarrow> evf_event \<Rightarrow> evf_system \<Rightarrow> bool" where
  wait_refused:
    "es_threads s t = Outside \<Longrightarrow> Wait_begin (es_flag s) = Inl err \<Longrightarrow> evf_step s (Ev_Refused t err) s"
| wait_now:
    "es_threads s t = Outside \<Longrightarrow> Wait_begin (es_flag s) = Inr ef \<Longrightarrow> waitFunc b m ef \<Longrightarrow>
     Wait_end b c us elapsed ef = (r, ef') \<Longrightarrow> evf_step s (Ev_Return t b m c r) (s\<lparr>es_flag := ef'\<rparr>)"
| wait_sleep:
    "es_threads s t = Outside \<Longrightarrow> Wait_begin (es_flag s) = Inr ef \<Longrightarrow> \<not> waitFunc b m ef \<Longrightarrow>
     evf_step s Ev_Internal (s\<lparr>es_flag := ef, es_threads := (es_threads s)(t := Waiting b m c us False)\<rparr>)"
| wake_spurious:
    "es_threads s t = Waiting b m c us w \<Longrightarrow>
     evf_step s Ev_Internal (s\<lparr>es_threads := (es_threads s)(t := Waiting b m c us True)\<rparr>)"
| recheck_sleep:
    "es_threads s t = Waiting b m c us True \<Longrightarrow> \<not> waitFunc b m (es_flag s) \<Longrightarrow>
     evf_step s Ev_Internal (s\<lparr>es_threads := (es_threads s)(t := Waiting b m c us False)\<rparr>)"
| recheck_return:
    "es_threads s t = Waiting b m c us True \<Longrightarrow> waitFunc b m (es_flag s) \<Longrightarrow> Wait_end b c us elapsed (es_flag s) = (r, ef') \<Longrightarrow>
     evf_step s (Ev_Return t b m c r) (s\<lparr>es_flag := ef', es_threads := (es_threads s)(t := Outside)\<rparr>)"
| timeout:
    "es_threads s t = Waiting b m c (Some us) w \<Longrightarrow> \<not> waitFunc b m (es_flag s) \<Longrightarrow> Wait_timeout (es_flag s) = (r, ef') \<Longrightarrow>
     evf_step s (Ev_Return t b m c r) (s\<lparr>es_flag := ef', es_threads := (es_threads s)(t := Outside)\<rparr>)"
| set:
    "es_threads s t = Outside \<Longrightarrow> m_status (es_flag s) = Status_Set \<Longrightarrow>
     evf_step s Ev_Internal (s\<lparr>es_flag := Evf_Set b (es_flag s), es_threads := notify_all (es_threads s)\<rparr>)"
| clear:
    "es_threads s t = Outside \<Longrightarrow> m_status (es_flag s) = Status_Set \<Longrightarrow>
     evf_step s Ev_Internal (s\<lparr>es_flag := Evf_Clear b (es_flag s)\<rparr>)"
| cancel_begin:
    "es_threads s t = Outside \<Longrightarrow> m_status (es_flag s) = Status_Set \<Longrightarrow> Cancel_begin p (es_flag s) = (n, ef') \<Longrightarrow>
     evf_step s Ev_Internal (s\<lparr>es_flag := ef', es_threads := (notify_all (es_threads s))(t := Cancelling)\<rparr>)"
| cancel_end:
    "es_threads s t = Cancelling \<Longrightarrow> m_waiting_threads (es_flag s) = 0 \<Longrightarrow>
     evf_step s Ev_Internal (s\<lparr>es_flag := Cancel_end (es_flag s), es_threads := (es_threads s)(t := Outside)\<rparr>)"

inductive_cases evf_stepE: "evf_step s e s'"

definition evf_init :: "EventFlagInternal \<Rightarrow> evf_system \<Rightarrow> bool" where
  "evf_init ef0 s \<longleftrightarrow> m_status ef0 = Status_Set \<and> m_waiting_threads ef0 = 0 \<and> s = \<lparr>es_flag = ef0, es_threads = (\<lambda>_. Outside)\<rparr>"

abbreviation evf_reachable :: "EventFlagInternal \<Rightarrow> evf_system \<Rightarrow> bool" where
  "evf_reachable ef0 \<equiv> reach (evf_init ef0) evf_step"

section \<open>The invariant\<close>

definition is_waiting :: "evf_thread \<Rightarrow> bool" where
  "is_waiting th \<longleftrightarrow> (case th of Waiting b m c us w \<Rightarrow> True | _ \<Rightarrow> False)"

definition evf_waiters :: "evf_system \<Rightarrow> nat set" where
  "evf_waiters s = {t. is_waiting (es_threads s t)}"

definition evf_inv :: "evf_system \<Rightarrow> bool" where
  "evf_inv s \<longleftrightarrow>
     finite (evf_waiters s) \<and> card (evf_waiters s) = m_waiting_threads (es_flag s)
   \<and> (m_thread_mode (es_flag s) = Thread_Single \<longrightarrow> m_waiting_threads (es_flag s) \<le> 1)
   \<and> (\<forall>t b m c us. es_threads s t = Waiting b m c us False \<longrightarrow> \<not> waitFunc b m (es_flag s))
   \<and> m_status (es_flag s) \<noteq> Status_Deleted
   \<and> (\<forall>t. es_threads s t = Cancelling \<longrightarrow> m_status (es_flag s) = Status_Canceled)
   \<and> (\<forall>t t'. es_threads s t = Cancelling \<and> es_threads s t' = Cancelling \<longrightarrow> t = t')
   \<and> (m_status (es_flag s) = Status_Canceled \<longrightarrow> (\<exists>t. es_threads s t = Cancelling))"

end
