(* ===== verification/Event_Flag_Correct.thy ===== *)
theory Event_Flag_Correct
  imports Event_Flag
begin

text \<open>
  Event flags: the invariant of every reachable state, what a wait returns, and that a cancellation completes.
\<close>

lemma and_sub_and: "(x :: 64 word) AND y = x \<Longrightarrow> x AND b = b \<Longrightarrow> y AND b = b"
  by (metis and.assoc and.commute)

lemma and_sub_or: "(x :: 64 word) AND y = x \<Longrightarrow> y AND b = 0 \<Longrightarrow> x AND b = 0"
  by (metis and.assoc and_zero_eq)

lemma waitFunc_mono:
  assumes "waitFunc b m ef'" "m_status ef' = m_status ef" "m_bits ef' AND m_bits ef = m_bits ef'"
  shows "waitFunc b m ef"
  using assms and_sub_and [OF assms(3), of b] and_sub_or [OF assms(3), of b] by (auto simp: waitFunc_def)

lemma waitFunc_count [simp]: "waitFunc b m (ef\<lparr>m_waiting_threads := n\<rparr>) \<longleftrightarrow> waitFunc b m ef"
  by (simp add: waitFunc_def)

lemma Wait_begin_Inr:
  "Wait_begin ef = Inr ef' \<longleftrightarrow> (m_thread_mode ef = Thread_Single \<longrightarrow> m_waiting_threads ef = 0) \<and> ef' = ef\<lparr>m_waiting_threads := m_waiting_threads ef + 1\<rparr>"
  by (auto simp: Wait_begin_def)

lemma Wait_end_flag:
  assumes "Wait_end b c us el ef = (r, ef')"
  shows "m_status ef' = m_status ef" "m_waiting_threads ef' = m_waiting_threads ef - 1" "m_thread_mode ef' = m_thread_mode ef"
    "m_bits ef' AND m_bits ef = m_bits ef'" "\<not> waitFunc b' m ef \<Longrightarrow> \<not> waitFunc b' m ef'"
proof -
  show f: "m_status ef' = m_status ef" "m_waiting_threads ef' = m_waiting_threads ef - 1" "m_thread_mode ef' = m_thread_mode ef"
    "m_bits ef' AND m_bits ef = m_bits ef'"
    using assms by (auto simp: Wait_end_def Let_def and.assoc [symmetric] and.commute [of "m_bits ef"] split: if_splits)
  show "\<not> waitFunc b' m ef \<Longrightarrow> \<not> waitFunc b' m ef'" using waitFunc_mono f(1,4) by blast
qed

lemma Wait_timeout_flag:
  assumes "Wait_timeout ef = (r, ef')"
  shows "ef' = ef\<lparr>m_waiting_threads := m_waiting_threads ef - 1\<rparr>" "wr_code r = ORBIS_KERNEL_ERROR_ETIMEDOUT"
  using assms by (auto simp: Wait_timeout_def)

lemma is_waiting_simps [simp]:
  "is_waiting (Waiting b m c us w)" "\<not> is_waiting Outside" "\<not> is_waiting Cancelling"
  by (simp_all add: is_waiting_def)

lemma is_waitingE: "is_waiting th \<Longrightarrow> (\<And>b m c us w. th = Waiting b m c us w \<Longrightarrow> P) \<Longrightarrow> P"
  by (cases th) (auto simp: is_waiting_def)

lemma notify_all_simps:
  "is_waiting (notify_all ths t) \<longleftrightarrow> is_waiting (ths t)" "notify_all ths t = Cancelling \<longleftrightarrow> ths t = Cancelling"
  "notify_all ths t \<noteq> Waiting b m c us False" "notify_all ths t = Outside \<longleftrightarrow> ths t = Outside"
  by (cases "ths t"; simp add: notify_all_def)+

lemma waiters_update:
  "evf_waiters (s\<lparr>es_flag := ef, es_threads := (es_threads s)(t := th)\<rparr>) = (if is_waiting th then insert t (evf_waiters s) else evf_waiters s - {t})"
  "evf_waiters (s\<lparr>es_threads := (es_threads s)(t := th)\<rparr>) = (if is_waiting th then insert t (evf_waiters s) else evf_waiters s - {t})"
  "evf_waiters (s\<lparr>es_flag := ef\<rparr>) = evf_waiters s"
  "evf_waiters (s\<lparr>es_flag := ef, es_threads := notify_all (es_threads s)\<rparr>) = evf_waiters s"
  by (auto simp: evf_waiters_def notify_all_simps)

lemma evf_invD:
  assumes "evf_inv s"
  shows "finite (evf_waiters s)" "card (evf_waiters s) = m_waiting_threads (es_flag s)"
    "m_thread_mode (es_flag s) = Thread_Single \<Longrightarrow> m_waiting_threads (es_flag s) \<le> 1"
    "es_threads s t = Waiting b m c us False \<Longrightarrow> \<not> waitFunc b m (es_flag s)"
    "m_status (es_flag s) \<noteq> Status_Deleted" "es_threads s t = Cancelling \<Longrightarrow> m_status (es_flag s) = Status_Canceled"
    "es_threads s t = Cancelling \<Longrightarrow> es_threads s t' = Cancelling \<Longrightarrow> t = t'"
    "m_status (es_flag s) = Status_Canceled \<Longrightarrow> \<exists>t. es_threads s t = Cancelling"
  using assms unfolding evf_inv_def by blast+

lemma canceller_kept:
  "es_threads s t \<noteq> Cancelling \<Longrightarrow> th \<noteq> Cancelling \<Longrightarrow> ((es_threads s)(t := th)) t' = Cancelling \<longleftrightarrow> es_threads s t' = Cancelling"
  by simp

text \<open>A thread changes its state and neither the old nor the new one is that of a canceller.\<close>

lemma evf_inv_thread:
  assumes inv: "evf_inv s" and t: "es_threads s t \<noteq> Cancelling" "th \<noteq> Cancelling"
    and ef: "m_status ef = m_status (es_flag s)" "m_thread_mode ef = m_thread_mode (es_flag s)"
      "\<forall>b m. \<not> waitFunc b m (es_flag s) \<longrightarrow> \<not> waitFunc b m ef"
    and th: "\<forall>b m c us. th = Waiting b m c us False \<longrightarrow> \<not> waitFunc b m ef"
    and w: "card (if is_waiting th then insert t (evf_waiters s) else evf_waiters s - {t}) = m_waiting_threads ef"
      "m_thread_mode ef = Thread_Single \<longrightarrow> m_waiting_threads ef \<le> 1"
  shows "evf_inv (s\<lparr>es_flag := ef, es_threads := (es_threads s)(t := th)\<rparr>)"
proof -
  note I = evf_invD [OF inv]
  have fin: "finite (if is_waiting th then insert t (evf_waiters s) else evf_waiters s - {t})" using I(1) by simp
  have sl: "\<forall>t' b m c us. ((es_threads s)(t := th)) t' = Waiting b m c us False \<longrightarrow> \<not> waitFunc b m ef"
    using I(4) th ef(3) by auto
  show ?thesis
    unfolding evf_inv_def waiters_update using fin w sl I(5-8) ef(1) canceller_kept [of s t th, OF t] by simp
qed

lemma waiting_leaves:
  assumes inv: "evf_inv s" and t: "es_threads s t = Waiting b m c us w"
    and ef: "m_status ef = m_status (es_flag s)" "m_waiting_threads ef = m_waiting_threads (es_flag s) - 1"
      "m_thread_mode ef = m_thread_mode (es_flag s)" "\<forall>b m. \<not> waitFunc b m (es_flag s) \<longrightarrow> \<not> waitFunc b m ef"
  shows "evf_inv (s\<lparr>es_flag := ef, es_threads := (es_threads s)(t := Outside)\<rparr>)"
proof -
  note I = evf_invD [OF inv]
  have tw: "t \<in> evf_waiters s" using t by (simp add: evf_waiters_def)
  then have "card (evf_waiters s - {t}) = m_waiting_threads ef" using I(1,2) ef(2) by (simp add: card_Diff_singleton)
  moreover have "m_thread_mode ef = Thread_Single \<longrightarrow> m_waiting_threads ef \<le> 1" using I(3) ef(2,3) by auto
  ultimately show ?thesis using t ef by (intro evf_inv_thread [OF inv]) simp_all
qed

lemma evf_step_inv: "evf_step s e s' \<Longrightarrow> evf_inv s \<Longrightarrow> evf_inv s'"
proof (induction rule: evf_step.induct)
  case (wait_refused s t err)
  then show ?case by blast
next
  case (wait_now s t ef b m c us elapsed r ef')
  note I = evf_invD [OF wait_now.prems] and W = Wait_end_flag [OF wait_now.hyps(4)]
  have ef: "ef = (es_flag s)\<lparr>m_waiting_threads := m_waiting_threads (es_flag s) + 1\<rparr>" using wait_now.hyps(2) by (simp add: Wait_begin_Inr)
  have "\<not> waitFunc b m (es_flag s) \<longrightarrow> \<not> waitFunc b m ef'" for b m using W(5) [of b m] by (simp add: ef)
  then show ?case using I W(1-3) unfolding evf_inv_def waiters_update by (auto simp: ef)
next
  case (wait_sleep s t ef b m c us)
  note I = evf_invD [OF wait_sleep.prems]
  have ef: "ef = (es_flag s)\<lparr>m_waiting_threads := m_waiting_threads (es_flag s) + 1\<rparr>"
    and z: "m_thread_mode (es_flag s) = Thread_Single \<longrightarrow> m_waiting_threads (es_flag s) = 0"
    using wait_sleep.hyps(2) by (simp_all add: Wait_begin_Inr)
  have "t \<notin> evf_waiters s" using wait_sleep.hyps(1) by (simp add: evf_waiters_def)
  then have "card (insert t (evf_waiters s)) = m_waiting_threads ef" using I(1,2) by (simp add: ef)
  then show ?case using z wait_sleep.hyps(1,3) by (intro evf_inv_thread [OF wait_sleep.prems]) (auto simp: ef)
next
  case (wake_spurious s t b m c us w)
  note I = evf_invD [OF wake_spurious.prems]
  have "insert t (evf_waiters s) = evf_waiters s" using wake_spurious.hyps by (auto simp: evf_waiters_def)
  then show ?case using I(2,3) wake_spurious.hyps evf_inv_thread [OF wake_spurious.prems, of t "Waiting b m c us True" "es_flag s"] by simp
next
  case (recheck_sleep s t b m c us)
  note I = evf_invD [OF recheck_sleep.prems]
  have "insert t (evf_waiters s) = evf_waiters s" using recheck_sleep.hyps(1) by (auto simp: evf_waiters_def)
  then show ?case using I(2,3) recheck_sleep.hyps evf_inv_thread [OF recheck_sleep.prems, of t "Waiting b m c us False" "es_flag s"] by simp
next
  case (recheck_return s t b m c us elapsed r ef')
  note W = Wait_end_flag [OF recheck_return.hyps(3)]
  show ?case by (rule waiting_leaves [OF recheck_return.prems recheck_return.hyps(1) W(1,2,3)]) (use W(5) in blast)
next
  case (timeout s t b m c us w r ef')
  note W = Wait_timeout_flag [OF timeout.hyps(3)]
  show ?case by (rule waiting_leaves [OF timeout.prems timeout.hyps(1)]) (simp_all add: W)
next
  case (set s t b)
  note I = evf_invD [OF set.prems]
  show ?case using I set.hyps(2) unfolding evf_inv_def waiters_update by (auto simp: Evf_Set_def notify_all_simps)
next
  case (clear s t b)
  note I = evf_invD [OF clear.prems]
  have "\<not> waitFunc b' m (es_flag s) \<longrightarrow> \<not> waitFunc b' m (Evf_Clear b (es_flag s))" for b' m
    using waitFunc_mono [of b' m "Evf_Clear b (es_flag s)" "es_flag s"] by (auto simp: Evf_Clear_def ac_simps)
  then show ?case using I clear.hyps(2) unfolding evf_inv_def waiters_update by (auto simp: Evf_Clear_def)
next
  case (cancel_begin s t p n ef')
  note I = evf_invD [OF cancel_begin.prems]
  have nc: "es_threads s t' \<noteq> Cancelling" for t' using I(6) [of t'] cancel_begin.hyps(2) by auto
  have ef': "ef' = (es_flag s)\<lparr>m_status := Status_Canceled, m_bits := p\<rparr>" using cancel_begin.hyps(3) by (simp add: Cancel_begin_def)
  have w: "evf_waiters (s\<lparr>es_flag := ef', es_threads := (notify_all (es_threads s))(t := Cancelling)\<rparr>) = evf_waiters s"
    using cancel_begin.hyps(1) by (auto simp: evf_waiters_def notify_all_simps)
  show ?case unfolding evf_inv_def w using I nc by (auto simp: ef' notify_all_simps split: if_splits)
next
  case (cancel_end s t)
  note I = evf_invD [OF cancel_end.prems]
  have none: "evf_waiters s = {}" using I(1,2) cancel_end.hyps(2) by simp
  then have nw: "es_threads s t' \<noteq> Waiting b m c us w" for t' b m c us w
    by (metis (no_types) empty_iff evf_waiters_def is_waiting_simps(1) mem_Collect_eq)
  have oc: "es_threads s t' = Cancelling \<longleftrightarrow> t' = t" for t' using I(7) cancel_end.hyps(1) by blast
  show ?case using I(3) cancel_end.hyps(2) none nw oc unfolding evf_inv_def waiters_update by (auto simp: Cancel_end_def)
qed

interpretation evf: invariant_system "evf_init ef0" evf_step evf_inv for ef0
  by unfold_locales (simp add: evf_init_def evf_inv_def evf_waiters_def, rule evf_step_inv)

section \<open>What a wait returns\<close>

lemma evf_return_cases:
  assumes "evf_step s (Ev_Return t b m c r) s'" "evf_inv s"
  shows "(wr_code r = ORBIS_OK \<and> m_status (es_flag s) = Status_Set
        \<and> (if m = Wait_And then wr_result r AND b = b else wr_result r AND b \<noteq> 0)
        \<and> wr_result r = m_bits (es_flag s)
        \<and> m_bits (es_flag s') = (case c of Clear_None \<Rightarrow> wr_result r | Clear_All \<Rightarrow> 0 | Clear_Bits \<Rightarrow> wr_result r AND NOT b))
    \<or> (wr_code r = ORBIS_KERNEL_ERROR_ECANCELED \<and> m_status (es_flag s) = Status_Canceled \<and> m_bits (es_flag s') = m_bits (es_flag s))
    \<or> (wr_code r = ORBIS_KERNEL_ERROR_ETIMEDOUT \<and> \<not> waitFunc b m (es_flag s) \<and> m_bits (es_flag s') = m_bits (es_flag s))"
proof -
  have fin: ?thesis if w: "waitFunc b m ef" "Wait_end b c us el ef = (r, ef')" and ef: "m_status ef = m_status (es_flag s)" "m_bits ef = m_bits (es_flag s)"
    and s': "m_bits (es_flag s') = m_bits ef'" for ef us el ef'
    using w ef s' evf_invD(5) [OF assms(2)] by (cases c; cases m; cases "m_status (es_flag s)") (auto simp: Wait_end_def Let_def waitFunc_def split: if_splits)
  from assms(1) show ?thesis
  proof (cases rule: evf_step.cases)
    case (wait_now ef us elapsed ef')
    then show ?thesis using fin [of ef us elapsed ef'] by (auto simp: Wait_begin_Inr)
  next
    case (recheck_return us elapsed ef')
    then show ?thesis using fin [of "es_flag s" us elapsed ef'] by simp
  next
    case (timeout us w ef')
    then show ?thesis using Wait_timeout_flag [OF timeout(4)] by simp
  qed
qed

definition cancel_return :: "evf_system \<Rightarrow> evf_system \<Rightarrow> bool" where
  "cancel_return s s' \<longleftrightarrow> (\<exists>t b m c r. evf_step s (Ev_Return t b m c r) s' \<and> wr_code r = ORBIS_KERNEL_ERROR_ECANCELED)"

lemma cancel_drains:
  assumes "evf_inv s" "es_threads s t = Cancelling"
  shows "\<exists>s'. (cancel_return ^^ m_waiting_threads (es_flag s)) s s' \<and> evf_inv s' \<and> m_waiting_threads (es_flag s') = 0
    \<and> es_threads s' t = Cancelling"
  using assms
proof (induction "m_waiting_threads (es_flag s)" arbitrary: s)
  case 0
  then show ?case by (metis relpowp_0_I)
next
  case (Suc n)
  note I = evf_invD [OF Suc.prems(1)]
  have can: "m_status (es_flag s) = Status_Canceled" using I(6) Suc.prems(2) by blast
  have "evf_waiters s \<noteq> {}" using I(1,2) Suc.hyps(2) by auto
  then obtain u where "is_waiting (es_threads s u)" by (auto simp: evf_waiters_def)
  then obtain b m c us w where u: "es_threads s u = Waiting b m c us w" by (rule is_waitingE)
  have wf: "waitFunc b m (es_flag s)" using can by (simp add: waitFunc_def)
  have w: "w = True" using I(4) [of u b m c us] u wf by (cases w) auto
  obtain r ef' where r: "Wait_end b c us 0 (es_flag s) = (r, ef')" by (metis surj_pair)
  define s1 where "s1 = s\<lparr>es_flag := ef', es_threads := (es_threads s)(u := Outside)\<rparr>"
  have st: "evf_step s (Ev_Return u b m c r) s1" unfolding s1_def by (rule evf_step.recheck_return) (use u w wf r in simp_all)
  have "wr_code r = ORBIS_KERNEL_ERROR_ECANCELED" using r can by (auto simp: Wait_end_def Let_def)
  then have c1: "cancel_return s s1" using st unfolding cancel_return_def by blast
  have "n = m_waiting_threads (es_flag s1)" using Wait_end_flag(2) [OF r] Suc.hyps(2) by (simp add: s1_def)
  moreover have "evf_inv s1" using evf_step_inv [OF st Suc.prems(1)] .
  moreover have "es_threads s1 t = Cancelling" using Suc.prems(2) u by (auto simp: s1_def)
  ultimately obtain s' where "(cancel_return ^^ n) s1 s'" "evf_inv s'" "m_waiting_threads (es_flag s') = 0" "es_threads s' t = Cancelling"
    using Suc.hyps(1) by blast
  then show ?case using c1 Suc.hyps(2) by (metis relpowp_Suc_I2)
qed

section \<open>Properties\<close>

text \<open>
  C20. In every state that any number of threads reach by calling \<open>Wait\<close>, \<open>Poll\<close>, \<open>Set\<close>, \<open>Clear\<close> and \<open>Cancel\<close> in any interleaving,
  the counter of waiting threads is their number, a flag for a single thread has at most one, and no
  wake-up is lost: a thread asleep on the condition variable has a condition that does not hold.
\<close>

theorem event_flag_invariant:
  assumes "evf_reachable (EventFlagInternal_init name thread_mode queue_mode bits) s"
  shows "card (evf_waiters s) = m_waiting_threads (es_flag s)
    \<and> (m_thread_mode (es_flag s) = Thread_Single \<longrightarrow> card (evf_waiters s) \<le> 1)
    \<and> (es_threads s t = Waiting b m c us False \<longrightarrow> \<not> waitFunc b m (es_flag s))"
proof -
  have inv: "evf_inv s" by (rule evf.reach_inv [OF assms])
  show ?thesis using evf_invD(2,3) [OF inv] evf_invD(4) [OF inv, of t b m c us] by simp
qed

theorem event_flag_invariant_witness:
  "\<exists>s. evf_reachable (EventFlagInternal_init ''evf'' Thread_Single Queue_Fifo 0) s
     \<and> es_threads s 7 = Waiting 5 Wait_And Clear_All None False \<and> \<not> waitFunc 5 Wait_And (es_flag s) \<and> card (evf_waiters s) = 1"
proof -
  let ?ef = "EventFlagInternal_init ''evf'' Thread_Single Queue_Fifo 0"
  define s where "s = \<lparr>es_flag = ?ef, es_threads = (\<lambda>_. Outside)\<rparr>"
  define s' where "s' = s\<lparr>es_flag := ?ef\<lparr>m_waiting_threads := 1\<rparr>, es_threads := (es_threads s)(7 := Waiting 5 Wait_And Clear_All None False)\<rparr>"
  have "evf_step s Ev_Internal s'" unfolding s'_def
    by (rule evf_step.wait_sleep) (simp_all add: s_def Wait_begin_def EventFlagInternal_init_def waitFunc_def)
  moreover have "evf_reachable ?ef s" by (rule reach_init) (simp add: evf_init_def s_def EventFlagInternal_init_def)
  ultimately have r: "evf_reachable ?ef s'" by (rule reach_step [rotated])
  have w: "es_threads s' 7 = Waiting 5 Wait_And Clear_All None False" "m_waiting_threads (es_flag s') = 1"
    by (simp_all add: s'_def)
  from event_flag_invariant [OF r, of 7 5 Wait_And Clear_All None] have "\<not> waitFunc 5 Wait_And (es_flag s')" "card (evf_waiters s') = 1"
    using w by simp_all
  then show ?thesis using r w by blast
qed

text \<open>
  C21. What a wait returns: \<open>OK\<close> only when its condition holds for the bits it reports, which are then cleared as asked; the cancel code
  only while a \<open>Cancel\<close> is under way; the timeout code only when the condition does not hold. No wait ever
  returns \<open>EACCES\<close>, the code for a deleted flag: nothing sets that status.
\<close>

theorem event_flag_wait_result:
  assumes "evf_reachable (EventFlagInternal_init name thread_mode queue_mode bits) s" "evf_step s (Ev_Return t b m c r) s'"
  shows "(wr_code r = ORBIS_OK \<and> m_status (es_flag s) = Status_Set
        \<and> (if m = Wait_And then wr_result r AND b = b else wr_result r AND b \<noteq> 0)
        \<and> wr_result r = m_bits (es_flag s)
        \<and> m_bits (es_flag s') = (case c of Clear_None \<Rightarrow> wr_result r | Clear_All \<Rightarrow> 0 | Clear_Bits \<Rightarrow> wr_result r AND NOT b))
    \<or> (wr_code r = ORBIS_KERNEL_ERROR_ECANCELED \<and> m_status (es_flag s) = Status_Canceled \<and> m_bits (es_flag s') = m_bits (es_flag s))
    \<or> (wr_code r = ORBIS_KERNEL_ERROR_ETIMEDOUT \<and> \<not> waitFunc b m (es_flag s) \<and> m_bits (es_flag s') = m_bits (es_flag s))"
proof -
  have "evf_inv s" by (rule evf.reach_inv [OF assms(1)])
  then show ?thesis using evf_return_cases [OF assms(2)] by blast
qed

theorem event_flag_wait_result_witness:
  "\<exists>s s' r. evf_step s (Ev_Return 1 6 Wait_Or Clear_Bits r) s' \<and> wr_code r = ORBIS_OK \<and> wr_result r = 3 \<and> m_bits (es_flag s') = 1"
proof -
  let ?ef = "EventFlagInternal_init ''evf'' Thread_Multi Queue_Fifo 3"
  define s where "s = \<lparr>es_flag = ?ef, es_threads = (\<lambda>_. Outside)\<rparr>"
  define r where "r = \<lparr>wr_code = ORBIS_OK, wr_result = 3, wr_micros = None\<rparr>"
  define s' where "s' = s\<lparr>es_flag := ?ef\<lparr>m_bits := 1\<rparr>\<rparr>"
  have st: "evf_step s (Ev_Return 1 6 Wait_Or Clear_Bits r) s'" unfolding s'_def
    by (rule evf_step.wait_now [where ef = "?ef\<lparr>m_waiting_threads := 1\<rparr>" and us = None and elapsed = 0])
      (simp_all add: s_def r_def Wait_begin_def EventFlagInternal_init_def waitFunc_def Wait_end_def)
  have r: "wr_code r = ORBIS_OK" "wr_result r = 3" by (simp_all add: r_def)
  have "evf_reachable ?ef s" by (rule reach_init) (simp add: evf_init_def s_def EventFlagInternal_init_def)
  from event_flag_wait_result [OF this st] have "m_bits (es_flag s') = wr_result r AND NOT 6"
    using r(1) by (simp add: orbis_errors)
  then have "m_bits (es_flag s') = 1" using r(2) by simp
  then show ?thesis using st r by blast
qed

text \<open>
  C22. \<open>Cancel\<close> can always finish: from every reachable state with a thread in its loop, the waiting threads leave one after the
  other with the cancel code, one step each, after which the canceller's own step restores the status and leaves.
\<close>

theorem event_flag_cancel_completes:
  assumes "evf_reachable (EventFlagInternal_init name thread_mode queue_mode bits) s" "es_threads s t = Cancelling"
  shows "\<exists>s1 s2. (cancel_return ^^ card (evf_waiters s)) s s1 \<and> evf_step s1 Ev_Internal s2
    \<and> es_threads s2 t = Outside \<and> m_status (es_flag s2) = Status_Set \<and> evf_waiters s2 = {}"
proof -
  have inv: "evf_inv s" by (rule evf.reach_inv [OF assms(1)])
  obtain s1 where s1: "(cancel_return ^^ m_waiting_threads (es_flag s)) s s1" "evf_inv s1" "m_waiting_threads (es_flag s1) = 0" "es_threads s1 t = Cancelling"
    using cancel_drains [OF inv assms(2)] by blast
  let ?s2 = "s1\<lparr>es_flag := Cancel_end (es_flag s1), es_threads := (es_threads s1)(t := Outside)\<rparr>"
  have "evf_step s1 Ev_Internal ?s2" by (rule evf_step.cancel_end [OF s1(4,3)])
  moreover have "evf_waiters ?s2 = {}" using evf_invD(1,2) [OF s1(2)] s1(3) by (simp add: waiters_update)
  ultimately show ?thesis using s1(1) evf_invD(2) [OF inv] by (intro exI [of _ s1] exI [of _ ?s2]) (simp add: Cancel_end_def)
qed

theorem event_flag_cancel_completes_witness:
  "\<exists>s s1 s2. es_threads s 2 = Cancelling \<and> (cancel_return ^^ card (evf_waiters s)) s s1 \<and> evf_step s1 Ev_Internal s2
    \<and> es_threads s2 2 = Outside \<and> m_status (es_flag s2) = Status_Set"
proof -
  let ?ef = "EventFlagInternal_init ''evf'' Thread_Multi Queue_Fifo 0"
  define s where "s = \<lparr>es_flag = ?ef, es_threads = (\<lambda>_. Outside)\<rparr>"
  define s' where "s' = s\<lparr>es_flag := ?ef\<lparr>m_status := Status_Canceled, m_bits := 9\<rparr>, es_threads := (notify_all (es_threads s))(2 := Cancelling)\<rparr>"
  have "evf_step s Ev_Internal s'" unfolding s'_def
    by (rule evf_step.cancel_begin [where n = 0 and p = 9]) (simp_all add: s_def Cancel_begin_def EventFlagInternal_init_def)
  moreover have "evf_reachable ?ef s" by (rule reach_init) (simp add: evf_init_def s_def EventFlagInternal_init_def)
  ultimately have r: "evf_reachable ?ef s'" by (rule reach_step [rotated])
  have c: "es_threads s' 2 = Cancelling" by (simp add: s'_def)
  show ?thesis using event_flag_cancel_completes [OF r c] c by blast
qed

text \<open>
  Argument checks of the kernel calls: a creation with valid pointers and a short name aborts the emulator, instead of
  returning an error, exactly for the attributes up to 0x22 whose low nibble is none of the queue modes; otherwise it
  returns a flag in its initial state or an error code. A wait with no flag or an empty pattern returns its error code whatever the mode.
\<close>

lemma event_flag_arguments:
  "sceKernelCreateEventFlag True (Some name) attr bits False =
     (if attr > 0x22 then Some (Inl ORBIS_KERNEL_ERROR_EINVAL)
      else if length name \<ge> 32 then Some (Inl ORBIS_KERNEL_ERROR_ENAMETOOLONG)
      else if attr AND 0xf \<in> {0, 1, 2}
      then Some (Inr (EventFlagInternal_init name (if attr AND 0xf0 = 0x20 then Thread_Multi else Thread_Single)
             (if attr AND 0xf = 2 then Queue_ThreadPrio else Queue_Fifo) bits))
      else None)
   \<and> sceKernelWaitEventFlag False pattern mode timeout = Some (Inl ORBIS_KERNEL_ERROR_ESRCH)
   \<and> sceKernelWaitEventFlag True 0 mode timeout = Some (Inl ORBIS_KERNEL_ERROR_EINVAL)"
proof -
  have nib: "attr AND 0xf0 = 0 \<or> attr AND 0xf0 = 0x10 \<or> attr AND 0xf0 = 0x20" if "\<not> attr > 0x22"
  proof -
    have "unat attr \<le> 34" using that by (simp add: word_le_nat_alt not_less)
    then have "unat attr \<in> set [0..<35]" by simp
    moreover have "attr = of_nat (unat attr)" by simp
    ultimately have "attr \<in> set (map of_nat [0..<35])" by (metis image_eqI list.set_map)
    moreover have "list_all (\<lambda>a :: 32 word. a AND 0xf0 = 0 \<or> a AND 0xf0 = 0x10 \<or> a AND 0xf0 = 0x20) (map of_nat [0..<35])" by code_simp
    ultimately show ?thesis unfolding list_all_iff by blast
  qed
  then show ?thesis
    by (auto simp: sceKernelCreateEventFlag_def sceKernelWaitEventFlag_def evf_queue_mode_def evf_thread_mode_def)
qed

end
