(* ===== verification/Slot_Vector.thy ===== *)
theory Slot_Vector
  imports Bit_Array "HOL-Library.Monad_Syntax"
begin

text \<open>
  The slot vector (\<^verbatim>\<open>src/src/common/slot_vector.h\<close>): the container with its bit set and its free list, the interface
  its users rely on, and the proof that the container implements it.
\<close>

section \<open>The container\<close>

text \<open>
  An entry of \<open>values\<close> is \<open>None\<close> while no object lives in it; \<open>values_capacity\<close> is the length of the list. Reading an entry
  without an object, or a word past the end of the bit set, is undefined in the source: the operation is then \<open>None\<close>.
\<close>

record 'a slot_vector =
  sv_values :: "'a option list"
  sv_stored :: "64 word list"
  sv_free :: "u32 list"

definition values_capacity :: "'a slot_vector \<Rightarrow> nat" where
  "values_capacity v = length (sv_values v)"

definition SetStorageBit :: "u32 \<Rightarrow> 'a slot_vector \<Rightarrow> 'a slot_vector option" where
  "SetStorageBit index v = (let k = index div 64 in
     if k < length (sv_stored v)
     then Some (v\<lparr>sv_stored := (sv_stored v)[k := sv_stored v ! k OR push_bit (index mod 64) 1]\<rparr>) else None)"

definition ResetStorageBit :: "u32 \<Rightarrow> 'a slot_vector \<Rightarrow> 'a slot_vector option" where
  "ResetStorageBit index v = (let k = index div 64 in
     if k < length (sv_stored v)
     then Some (v\<lparr>sv_stored := (sv_stored v)[k := sv_stored v ! k AND NOT (push_bit (index mod 64) 1)]\<rparr>) else None)"

definition ReadStorageBit :: "u32 \<Rightarrow> 'a slot_vector \<Rightarrow> bool option" where
  "ReadStorageBit index v = (let k = index div 64 in
     if k < length (sv_stored v) then Some (drop_bit (index mod 64) (sv_stored v ! k) AND 1 \<noteq> 0) else None)"

function reserve_bits :: "'a option list \<Rightarrow> nat \<Rightarrow> nat \<Rightarrow> 64 word \<Rightarrow> 'a option list \<Rightarrow> 'a option list option" where
  "reserve_bits vals index b bits new_values =
     (if bits = 0 then Some new_values
      else if bits AND 1 = 0 then reserve_bits vals index (b + 1) (drop_bit 1 bits) new_values
      else if index + b < length vals \<and> vals ! (index + b) \<noteq> None \<and> index + b < length new_values
      then reserve_bits vals index (b + 1) (drop_bit 1 bits) (new_values[index + b := vals ! (index + b)])
      else None)"
  by pat_completeness auto
termination
proof (relation "measure (\<lambda>(_, _, _, bits, _). unat bits)")
  have "unat (drop_bit 1 w) < unat w" if "w \<noteq> 0" for w :: "64 word"
    using that by (simp only: unat_drop_bit_eq) (simp add: drop_bit_eq_div unat_gt_0)
  then show "bits \<noteq> 0 \<Longrightarrow> ((vals, index, b + 1, drop_bit 1 bits, nv), (vals, index, b, bits, nv'))
      \<in> measure (\<lambda>(_, _, _, bits, _). unat bits)" for bits :: "64 word" and vals :: "'a option list" and index b nv nv' by simp
  then show "bits \<noteq> 0 \<Longrightarrow> ((vals, index, b + 1, drop_bit 1 bits, nv), (vals, index, b, bits, nv'))
      \<in> measure (\<lambda>(_, _, _, bits, _). unat bits)" for bits :: "64 word" and vals :: "'a option list" and index b nv nv' by simp
qed simp

declare reserve_bits.simps [simp del]

primrec reserve_words :: "'a option list \<Rightarrow> nat \<Rightarrow> 64 word list \<Rightarrow> 'a option list \<Rightarrow> 'a option list option" where
  "reserve_words vals index [] new_values = Some new_values"
| "reserve_words vals index (bits # ws) new_values =
     reserve_bits vals index 0 bits new_values \<bind> reserve_words vals (index + 64) ws"

definition vec_resize :: "nat \<Rightarrow> 'b \<Rightarrow> 'b list \<Rightarrow> 'b list" where
  "vec_resize n x xs = take n xs @ replicate (n - length xs) x"

definition Reserve :: "nat \<Rightarrow> 'a slot_vector \<Rightarrow> 'a slot_vector option" where
  "Reserve new_capacity v =
     (if new_capacity < values_capacity v then None
      else do {
        new_values \<leftarrow> reserve_words (sv_values v) 0 (sv_stored v) (replicate new_capacity None);
        Some \<lparr>sv_values = new_values, sv_stored = vec_resize ((new_capacity + 63) div 64) 0 (sv_stored v),
              sv_free = sv_free v @ rev (map u32_of_u64 [values_capacity v..<new_capacity])\<rparr>
      })"

definition FreeValueIndex :: "'a slot_vector \<Rightarrow> (u32 \<times> 'a slot_vector) option" where
  "FreeValueIndex v = do {
     v1 \<leftarrow> (if sv_free v = [] then Reserve (if values_capacity v \<noteq> 0 then 2 * values_capacity v else 1) v else Some v);
     (if sv_free v1 = [] then None else Some (last (sv_free v1), v1\<lparr>sv_free := butlast (sv_free v1)\<rparr>))
   }"

definition InitialCapacity :: nat where "InitialCapacity = 2048"

definition SlotVector_init :: "'a slot_vector option" where
  "SlotVector_init = Reserve InitialCapacity \<lparr>sv_values = [], sv_stored = [], sv_free = []\<rparr>"

definition is_allocated :: "u32 \<Rightarrow> 'a slot_vector \<Rightarrow> bool option" where
  "is_allocated slot v = ReadStorageBit slot v"

definition sv_at :: "u32 \<Rightarrow> 'a slot_vector \<Rightarrow> 'a option" where
  "sv_at slot v = (if slot < values_capacity v then sv_values v ! slot else None)"

definition sv_put :: "u32 \<Rightarrow> 'a \<Rightarrow> 'a slot_vector \<Rightarrow> 'a slot_vector" where
  "sv_put slot x v = v\<lparr>sv_values := (sv_values v)[slot := Some x]\<rparr>"

definition sv_insert :: "'a \<Rightarrow> 'a slot_vector \<Rightarrow> (u32 \<times> 'a slot_vector) option" where
  "sv_insert x v = do {
     (index, v1) \<leftarrow> FreeValueIndex v;
     v2 \<leftarrow> (if index < values_capacity v1 then SetStorageBit index (sv_put index x v1) else None);
     Some (index, v2)
   }"

definition sv_erase :: "u32 \<Rightarrow> 'a slot_vector \<Rightarrow> 'a slot_vector option" where
  "sv_erase slot v = do {
     _ \<leftarrow> sv_at slot v;
     ResetStorageBit slot (v\<lparr>sv_values := (sv_values v)[slot := None], sv_free := sv_free v @ [slot]\<rparr>)
   }"

definition sv_size :: "'a slot_vector \<Rightarrow> nat" where
  "sv_size v = values_capacity v - length (sv_free v)"

section \<open>Iteration\<close>

function AdvanceToValid :: "'a slot_vector \<Rightarrow> u32 \<Rightarrow> u32 option" where
  "AdvanceToValid v slot =
     (if slot < values_capacity v
      then (case ReadStorageBit slot v of None \<Rightarrow> None | Some b \<Rightarrow> if b then Some slot else AdvanceToValid v (slot + 1))
      else Some slot)"
  by pat_completeness auto
termination by (relation "measure (\<lambda>(v, slot). values_capacity v - slot)") auto

declare AdvanceToValid.simps [simp del]

lemma AdvanceToValid_ge: "AdvanceToValid v slot = Some s \<Longrightarrow> slot \<le> s"
  by (induction v slot rule: AdvanceToValid.induct) (subst (asm) (2) AdvanceToValid.simps, fastforce split: if_splits option.splits)

text \<open>The slots a loop from \<open>begin\<close> to \<open>end\<close> visits.\<close>

function sv_slots :: "'a slot_vector \<Rightarrow> u32 \<Rightarrow> u32 list option" where
  "sv_slots v slot =
     (case AdvanceToValid v slot of
        None \<Rightarrow> None
      | Some s \<Rightarrow> if s < values_capacity v then map_option (Cons s) (sv_slots v (s + 1)) else Some [])"
  by pat_completeness auto
termination
  by (relation "measure (\<lambda>(v, slot). values_capacity v - slot)") (auto dest: AdvanceToValid_ge)

declare sv_slots.simps [simp del]

section \<open>The invariant\<close>

definition sv_ok :: "'a slot_vector \<Rightarrow> bool" where
  "sv_ok v \<longleftrightarrow>
     0 < values_capacity v \<and> values_capacity v \<le> 4294967296 \<and> length (sv_stored v) = (values_capacity v + 63) div 64
   \<and> (\<forall>i. ba_bit (sv_stored v) i \<longleftrightarrow> sv_at i v \<noteq> None)
   \<and> distinct (sv_free v) \<and> set (sv_free v) = {i. i < values_capacity v \<and> sv_at i v = None}"

lemma sv_okD:
  assumes "sv_ok v"
  shows "0 < values_capacity v" "values_capacity v \<le> 4294967296" "length (sv_stored v) = (values_capacity v + 63) div 64"
    "ba_bit (sv_stored v) i \<longleftrightarrow> sv_at i v \<noteq> None" "distinct (sv_free v)"
    "set (sv_free v) = {i. i < values_capacity v \<and> sv_at i v = None}"
  using assms unfolding sv_ok_def by blast+

lemma sv_at_bound: "sv_at i v = Some x \<Longrightarrow> i < values_capacity v"
  by (simp add: sv_at_def split: if_splits)

lemma stored_word: "i < n \<Longrightarrow> i div 64 < (n + 63) div (64 :: nat)"
  using div_le_mono [of "i + 64" "n + 63" 64] by simp

lemma ReadStorageBit_eq: "ReadStorageBit i v = (if i div 64 < length (sv_stored v) then Some (ba_bit (sv_stored v) i) else None)"
  by (simp add: ReadStorageBit_def ba_bit_def and_one_eq bit_iff_odd_drop_bit odd_iff_mod_2_eq_one)

lemma storage_bit_sv_at [simp]: "sv_at i (v\<lparr>sv_stored := s\<rparr>) = sv_at i v" "values_capacity (v\<lparr>sv_stored := s\<rparr>) = values_capacity v"
  "sv_at i (v\<lparr>sv_free := f\<rparr>) = sv_at i v" "values_capacity (v\<lparr>sv_free := f\<rparr>) = values_capacity v"
  "values_capacity (v\<lparr>sv_values := vs\<rparr>) = length vs" "values_capacity (sv_put i x v) = values_capacity v"
  "sv_stored (sv_put i x v) = sv_stored v" "sv_free (sv_put i x v) = sv_free v"
  by (simp_all add: sv_at_def values_capacity_def sv_put_def)

lemma sv_at_put: "i < values_capacity v \<Longrightarrow> (\<lambda>j. sv_at j (sv_put i x v)) = (\<lambda>j. sv_at j v)(i \<mapsto> x)"
  by (rule ext) (simp add: sv_at_def sv_put_def values_capacity_def nth_list_update)

lemma sv_at_clear: "i < values_capacity v \<Longrightarrow> sv_at j (v\<lparr>sv_values := (sv_values v)[i := None]\<rparr>) = (if j = i then None else sv_at j v)"
  by (simp add: sv_at_def values_capacity_def nth_list_update)

lemma SetStorageBit_bit:
  assumes "i div 64 < length (sv_stored v)"
  shows "\<exists>s. SetStorageBit i v = Some (v\<lparr>sv_stored := s\<rparr>) \<and> length s = length (sv_stored v)
    \<and> (\<forall>j. ba_bit s j \<longleftrightarrow> j = i \<or> ba_bit (sv_stored v) j)"
proof -
  have "j = i \<longleftrightarrow> j div 64 = i div 64 \<and> j mod 64 = i mod 64" for j by (metis div_mult_mod_eq)
  then show ?thesis using assms
    by (intro exI [of _ "(sv_stored v)[i div 64 := sv_stored v ! (i div 64) OR push_bit (i mod 64) 1]"])
      (auto simp: SetStorageBit_def Let_def ba_bit_def nth_list_update bit_or_iff bit_push_bit_iff bit_exp_iff bit_1_iff)
qed

lemma ResetStorageBit_bit:
  assumes "i div 64 < length (sv_stored v)"
  shows "\<exists>s. ResetStorageBit i v = Some (v\<lparr>sv_stored := s\<rparr>) \<and> length s = length (sv_stored v)
    \<and> (\<forall>j. ba_bit s j \<longleftrightarrow> j \<noteq> i \<and> ba_bit (sv_stored v) j)"
proof -
  have "j = i \<longleftrightarrow> j div 64 = i div 64 \<and> j mod 64 = i mod 64" for j by (metis div_mult_mod_eq)
  then show ?thesis using assms
    by (intro exI [of _ "(sv_stored v)[i div 64 := sv_stored v ! (i div 64) AND NOT (push_bit (i mod 64) 1)]"])
      (auto simp: ResetStorageBit_def Let_def ba_bit_def nth_list_update bit_and_iff bit_not_iff bit_push_bit_iff bit_exp_iff bit_1_iff)
qed

section \<open>Growing\<close>

lemma reserve_bits_spec:
  assumes "\<forall>j. bit bits j \<longrightarrow> index + b + j < length vals \<and> vals ! (index + b + j) \<noteq> None" "length vals \<le> length nv"
  shows "\<exists>nv'. reserve_bits vals index b bits nv = Some nv' \<and> length nv' = length nv
     \<and> (\<forall>i<length nv. nv' ! i = (if index + b \<le> i \<and> bit bits (i - (index + b)) then vals ! i else nv ! i))"
  using assms
proof (induction vals index b bits nv rule: reserve_bits.induct)
  case (1 vals index b bits nv)
  have sh: "bit (drop_bit 1 bits) j = bit bits (Suc j)" for j by (simp add: bit_drop_bit_eq)
  have pre: "\<forall>j. bit (drop_bit 1 bits) j \<longrightarrow> index + (b + 1) + j < length vals \<and> vals ! (index + (b + 1) + j) \<noteq> None"
    using "1.prems"(1) unfolding sh by (metis add.assoc plus_1_eq_Suc)
  have low: "bits AND 1 = 0 \<longleftrightarrow> \<not> bit bits 0" by (simp add: and_one_eq odd_iff_mod_2_eq_one bit_0)
  have split: "(index + b \<le> i \<and> bit bits (i - (index + b))) \<longleftrightarrow> (i = index + b \<and> bit bits 0) \<or> (index + (b + 1) \<le> i \<and> bit (drop_bit 1 bits) (i - (index + (b + 1))))" for i
    unfolding sh by (cases "i = index + b") (auto simp: Suc_diff_Suc)
  consider "bits = 0" | "bits \<noteq> 0" "\<not> bit bits 0" | "bits \<noteq> 0" "bit bits 0" by blast
  then show ?case
  proof cases
    case 1
    then show ?thesis by (simp add: reserve_bits.simps)
  next
    case 2
    then have "reserve_bits vals index b bits nv = reserve_bits vals index (b + 1) (drop_bit 1 bits) nv"
      using low by (subst reserve_bits.simps) simp
    with "1.IH"(1) [OF 2(1) _ pre "1.prems"(2)] 2 low show ?thesis by (simp add: split)
  next
    case 3
    have here: "index + b < length vals" "vals ! (index + b) \<noteq> None" using "1.prems"(1) 3(2) by auto
    then have eq: "reserve_bits vals index b bits nv = reserve_bits vals index (b + 1) (drop_bit 1 bits) (nv[index + b := vals ! (index + b)])"
      using low 3 "1.prems"(2) by (subst reserve_bits.simps) simp
    have "\<exists>nv'. reserve_bits vals index (b + 1) (drop_bit 1 bits) (nv[index + b := vals ! (index + b)]) = Some nv' \<and> length nv' = length nv
      \<and> (\<forall>i<length nv. nv' ! i = (if index + (b + 1) \<le> i \<and> bit (drop_bit 1 bits) (i - (index + (b + 1))) then vals ! i else nv[index + b := vals ! (index + b)] ! i))"
      using "1.IH"(2) [OF 3(1) _ _ pre] 3(2) low here "1.prems"(2) by simp
    then obtain nv' where "reserve_bits vals index b bits nv = Some nv'" "length nv' = length nv"
      and n: "\<forall>i<length nv. nv' ! i = (if index + (b + 1) \<le> i \<and> bit (drop_bit 1 bits) (i - (index + (b + 1))) then vals ! i else nv[index + b := vals ! (index + b)] ! i)"
      unfolding eq by blast
    moreover have "\<forall>i<length nv. nv' ! i = (if index + b \<le> i \<and> bit bits (i - (index + b)) then vals ! i else nv ! i)"
      unfolding split using n 3(2) by (auto simp: nth_list_update)
    ultimately show ?thesis by blast
  qed
qed

lemma reserve_words_spec:
  assumes "\<forall>j. ba_bit ws j \<longrightarrow> index + j < length vals \<and> vals ! (index + j) \<noteq> None" "length vals \<le> length nv"
  shows "\<exists>nv'. reserve_words vals index ws nv = Some nv' \<and> length nv' = length nv
     \<and> (\<forall>i<length nv. nv' ! i = (if index \<le> i \<and> ba_bit ws (i - index) then vals ! i else nv ! i))"
  using assms
proof (induction ws arbitrary: index nv)
  case Nil
  then show ?case by (simp add: ba_bit_def)
next
  case (Cons w ws)
  have bit_cons: "ba_bit (w # ws) j \<longleftrightarrow> (if j < 64 then bit w j else ba_bit ws (j - 64))" for j
  proof (cases "j < 64")
    case False
    then have "j div 64 = Suc ((j - 64) div 64)" "j mod 64 = (j - 64) mod 64" by (simp_all add: le_div_geq le_mod_geq)
    with False show ?thesis by (simp add: ba_bit_def)
  qed (simp add: ba_bit_def)
  have w64: "bit w j \<Longrightarrow> j < 64" for j using bit_imp_le_length [of w j] by simp
  have "\<forall>j. bit w j \<longrightarrow> index + 0 + j < length vals \<and> vals ! (index + 0 + j) \<noteq> None"
    using Cons.prems(1) w64 by (simp add: bit_cons)
  from reserve_bits_spec [OF this Cons.prems(2)] obtain nv1 where nv1: "reserve_bits vals index 0 w nv = Some nv1" "length nv1 = length nv"
    "\<forall>i<length nv. nv1 ! i = (if index \<le> i \<and> bit w (i - index) then vals ! i else nv ! i)" by auto
  have "index + 64 + j < length vals \<and> vals ! (index + 64 + j) \<noteq> None" if "ba_bit ws j" for j
    using Cons.prems(1) [rule_format, of "j + 64"] that by (simp add: bit_cons add.assoc add.commute [of 64])
  from Cons.IH [of "index + 64" nv1] this Cons.prems(2) nv1(2) obtain nv2 where nv2: "reserve_words vals (index + 64) ws nv1 = Some nv2" "length nv2 = length nv"
    "\<forall>i<length nv. nv2 ! i = (if index + 64 \<le> i \<and> ba_bit ws (i - (index + 64)) then vals ! i else nv1 ! i)" by auto
  have "nv2 ! i = (if index \<le> i \<and> ba_bit (w # ws) (i - index) then vals ! i else nv ! i)" if "i < length nv" for i
    using that nv1(3) nv2(3) w64 [of "i - index"] by (auto simp: bit_cons)
  then show ?case using nv1(1) nv2(1,2) by auto
qed

lemma ba_bit_resize: "length ws \<le> n \<Longrightarrow> ba_bit (vec_resize n 0 ws) j \<longleftrightarrow> ba_bit ws j"
  by (auto simp: ba_bit_def vec_resize_def nth_append)

lemma u32_list: "n \<le> 4294967296 \<Longrightarrow> map u32_of_u64 [m..<n] = [m..<n]"
  by (rule map_idI) (simp add: u32_of_u64_def)

text \<open>The state before the constructor reserves its first slots is the only one without any.\<close>

definition sv_empty :: "'a slot_vector" where
  "sv_empty = \<lparr>sv_values = [], sv_stored = [], sv_free = []\<rparr>"

lemma Reserve_spec:
  assumes "sv_ok v \<or> v = sv_empty" "values_capacity v \<le> n" "0 < n" "n \<le> 4294967296"
  shows "\<exists>v'. Reserve n v = Some v' \<and> values_capacity v' = n \<and> (\<forall>i. sv_at i v' = sv_at i v)
    \<and> sv_free v' = sv_free v @ rev [values_capacity v..<n] \<and> sv_ok v'"
proof -
  have "(\<forall>i. ba_bit (sv_stored v) i \<longleftrightarrow> sv_at i v \<noteq> None) \<and> length (sv_stored v) = (values_capacity v + 63) div 64
    \<and> distinct (sv_free v) \<and> set (sv_free v) = {i. i < values_capacity v \<and> sv_at i v = None}"
  proof -
    have "sv_ok v \<Longrightarrow> ?thesis" using sv_okD [of v] by blast
    moreover have "v = sv_empty \<Longrightarrow> ?thesis" by (simp add: sv_empty_def ba_bit_def sv_at_def values_capacity_def)
    ultimately show ?thesis using assms(1) by blast
  qed
  then have wf: "ba_bit (sv_stored v) i \<longleftrightarrow> sv_at i v \<noteq> None" "length (sv_stored v) = (values_capacity v + 63) div 64" "distinct (sv_free v)"
    "set (sv_free v) = {i. i < values_capacity v \<and> sv_at i v = None}" for i by blast+
  have bits: "\<forall>j. ba_bit (sv_stored v) j \<longrightarrow> 0 + j < length (sv_values v) \<and> sv_values v ! (0 + j) \<noteq> None"
    using wf(1) by (auto simp: sv_at_def values_capacity_def split: if_splits)
  have "length (sv_values v) \<le> length (replicate n (None :: 'a option))" using assms(2) by (simp add: values_capacity_def)
  from reserve_words_spec [OF bits this] obtain nv where nv: "reserve_words (sv_values v) 0 (sv_stored v) (replicate n None) = Some nv" "length nv = n"
    "\<forall>i<n. nv ! i = (if ba_bit (sv_stored v) i then sv_values v ! i else None)" by auto
  let ?v = "\<lparr>sv_values = nv, sv_stored = vec_resize ((n + 63) div 64) 0 (sv_stored v), sv_free = sv_free v @ rev [values_capacity v..<n]\<rparr>"
  have R: "Reserve n v = Some ?v" using assms(2,4) nv(1) by (simp add: Reserve_def u32_list)
  have c: "values_capacity ?v = n" using nv(2) by (simp add: values_capacity_def)
  have at: "sv_at i ?v = sv_at i v" for i
    using nv(2,3) assms(2) wf(1) [of i] by (cases "i < n") (auto simp: sv_at_def values_capacity_def)
  have len: "length (sv_stored v) \<le> (n + 63) div 64" unfolding wf(2) using assms(2) by (simp add: div_le_mono)
  have "length (sv_stored ?v) = (n + 63) div 64" using len by (simp add: vec_resize_def)
  moreover have "\<forall>i. ba_bit (sv_stored ?v) i \<longleftrightarrow> sv_at i v \<noteq> None" using wf(1) ba_bit_resize [OF len] by simp
  moreover have "distinct (sv_free ?v)" using wf(3) by (simp add: wf(4)) auto
  moreover have "set (sv_free ?v) = {i. i < n \<and> sv_at i v = None}" using assms(2) by (simp add: wf(4)) (auto simp: sv_at_def)
  ultimately have "sv_ok ?v" unfolding sv_ok_def c at using assms(3,4) by blast
  then show ?thesis using R c at by auto
qed

section \<open>The interface of the container\<close>

text \<open>
  What the users of the container rely on: it stores values under handles that it chooses, a handle names its value until the
  value is erased, whatever happens to the other handles.
\<close>

locale slot_store =
  fixes ok :: "'s \<Rightarrow> bool" and room :: "'s \<Rightarrow> bool" and look :: "nat \<Rightarrow> 's \<Rightarrow> 'a option"
    and ins :: "'a \<Rightarrow> 's \<Rightarrow> (nat \<times> 's) option" and put :: "nat \<Rightarrow> 'a \<Rightarrow> 's \<Rightarrow> 's" and del :: "nat \<Rightarrow> 's \<Rightarrow> 's option"
  assumes ins_law: "ok s \<Longrightarrow> room s \<Longrightarrow>
      \<exists>i s'. ins x s = Some (i, s') \<and> look i s = None \<and> (\<lambda>j. look j s') = (\<lambda>j. look j s)(i \<mapsto> x) \<and> ok s'"
    and put_law: "ok s \<Longrightarrow> look i s = Some y \<Longrightarrow> (\<lambda>j. look j (put i x s)) = (\<lambda>j. look j s)(i \<mapsto> x) \<and> ok (put i x s)"
    and del_law: "ok s \<Longrightarrow> look i s = Some y \<Longrightarrow> \<exists>s'. del i s = Some s' \<and> (\<lambda>j. look j s') = (\<lambda>j. look j s)(i := None) \<and> ok s'"
begin

lemma put_look: "ok s \<Longrightarrow> look i s = Some y \<Longrightarrow> look j (put i x s) = (if j = i then Some x else look j s)"
  using put_law [of s i y x] by (metis fun_upd_apply)

lemma del_look: "ok s \<Longrightarrow> look i s = Some y \<Longrightarrow> del i s = Some s' \<Longrightarrow> look j s' = (if j = i then None else look j s)"
  using del_law [of s i y] by (metis fun_upd_apply option.inject)

lemma ins_look: "ok s \<Longrightarrow> room s \<Longrightarrow> ins x s = Some (i, s') \<Longrightarrow> look j s' = (if j = i then Some x else look j s) \<and> look i s = None \<and> ok s'"
  using ins_law [of s x] by (metis fun_upd_apply option.inject prod.inject)

lemma del_ins:
  assumes "ok s" "room s" "ins x s = Some (i, s')" "del i s' = Some s''"
  shows "(\<lambda>j. look j s'') = (\<lambda>j. look j s)" "ok s''"
proof -
  have l: "look j s' = (if j = i then Some x else look j s)" "look i s = None" "ok s'" for j
    using ins_look [OF assms(1-3)] by blast+
  have si: "look i s' = Some x" using l(1) by simp
  show "(\<lambda>j. look j s'') = (\<lambda>j. look j s)" using del_look [OF l(3) si assms(4)] l(1,2) by auto
  show "ok s''" using del_law [OF l(3) si] assms(4) by auto
qed

end

section \<open>The container implements it\<close>

definition sv_room :: "'a slot_vector \<Rightarrow> bool" where
  "sv_room v \<longleftrightarrow> sv_free v \<noteq> [] \<or> values_capacity v \<le> 2147483648"

lemma FreeValueIndex_spec:
  assumes "sv_ok v" "sv_room v"
  shows "\<exists>i v'. FreeValueIndex v = Some (i, v') \<and> i < values_capacity v' \<and> values_capacity v' \<le> 4294967296
    \<and> (\<forall>j. sv_at j v' = sv_at j v) \<and> sv_at i v = None
    \<and> length (sv_stored v') = (values_capacity v' + 63) div 64 \<and> (\<forall>j. ba_bit (sv_stored v') j \<longleftrightarrow> sv_at j v \<noteq> None)
    \<and> distinct (sv_free v') \<and> set (sv_free v') = {j. j < values_capacity v' \<and> sv_at j v = None} - {i}"
proof -
  have pop: ?thesis if v1: "(if sv_free v = [] then Reserve (if values_capacity v \<noteq> 0 then 2 * values_capacity v else 1) v else Some v) = Some v1"
      "sv_ok v1" "sv_free v1 \<noteq> []" "\<forall>j. sv_at j v1 = sv_at j v" for v1
  proof -
    note D = sv_okD [OF v1(2)]
    obtain xs i where f: "sv_free v1 = xs @ [i]" using v1(3) by (metis rev_exhaust)
    have "FreeValueIndex v = Some (i, v1\<lparr>sv_free := xs\<rparr>)" unfolding FreeValueIndex_def v1(1) by (simp add: f)
    moreover have "i < values_capacity v1" "sv_at i v1 = None" using D(6) by (auto simp: f)
    moreover have "distinct xs" "set xs = {j. j < values_capacity v1 \<and> sv_at j v = None} - {i}"
      using D(5,6) v1(4) by (auto simp: f)
    ultimately show ?thesis using D(2,3,4) v1(4) by (intro exI [of _ i] exI [of _ "v1\<lparr>sv_free := xs\<rparr>"]) simp
  qed
  show ?thesis
  proof (cases "sv_free v = []")
    case True
    note D = sv_okD [OF assms(1)]
    have "2 * values_capacity v \<le> 4294967296" using assms(2) True by (simp add: sv_room_def)
    then obtain v1 where "Reserve (2 * values_capacity v) v = Some v1" "\<forall>i. sv_at i v1 = sv_at i v" "sv_ok v1"
        "sv_free v1 = rev [values_capacity v..<2 * values_capacity v]"
      using Reserve_spec [of v "2 * values_capacity v"] assms(1) D(1) True by auto
    then show ?thesis using D(1) True by (intro pop) auto
  next
    case False
    then show ?thesis using assms(1) by (intro pop) auto
  qed
qed

lemma sv_insert_spec:
  assumes "sv_ok v" "sv_room v"
  shows "\<exists>i v'. sv_insert x v = Some (i, v') \<and> sv_at i v = None \<and> (\<lambda>j. sv_at j v') = (\<lambda>j. sv_at j v)(i \<mapsto> x) \<and> sv_ok v'"
proof -
  obtain i v1 where F: "FreeValueIndex v = Some (i, v1)" "i < values_capacity v1" "values_capacity v1 \<le> 4294967296"
    "\<forall>j. sv_at j v1 = sv_at j v" "sv_at i v = None" "length (sv_stored v1) = (values_capacity v1 + 63) div 64"
    "\<forall>j. ba_bit (sv_stored v1) j \<longleftrightarrow> sv_at j v \<noteq> None"
    "distinct (sv_free v1)" "set (sv_free v1) = {j. j < values_capacity v1 \<and> sv_at j v = None} - {i}"
    using FreeValueIndex_spec [OF assms] by blast
  define v2 where "v2 = sv_put i x v1"
  have at: "sv_at j v2 = (if j = i then Some x else sv_at j v)" for j
    unfolding v2_def using fun_cong [OF sv_at_put [OF F(2), of x], of j] F(4) by simp
  have "i div 64 < length (sv_stored v2)" using stored_word [OF F(2)] F(6) by (simp add: v2_def)
  then obtain s where s: "SetStorageBit i v2 = Some (v2\<lparr>sv_stored := s\<rparr>)" "length s = length (sv_stored v2)"
    "\<forall>j. ba_bit s j \<longleftrightarrow> j = i \<or> ba_bit (sv_stored v2) j"
    using SetStorageBit_bit [of i v2] by blast
  have "sv_insert x v = Some (i, v2\<lparr>sv_stored := s\<rparr>)" unfolding sv_insert_def F(1) using F(2) s(1) by (simp add: v2_def)
  moreover have "sv_ok (v2\<lparr>sv_stored := s\<rparr>)" unfolding sv_ok_def
    using F(2,3,6-9) s(2,3) at by (auto simp: v2_def)
  ultimately show ?thesis using F(5) at by auto
qed

lemma sv_erase_spec:
  assumes "sv_ok v" "sv_at i v = Some y"
  shows "\<exists>v'. sv_erase i v = Some v' \<and> (\<lambda>j. sv_at j v') = (\<lambda>j. sv_at j v)(i := None) \<and> sv_ok v'"
proof -
  note D = sv_okD [OF assms(1)]
  have i: "i < values_capacity v" by (rule sv_at_bound [OF assms(2)])
  define v2 where "v2 = v\<lparr>sv_values := (sv_values v)[i := None], sv_free := sv_free v @ [i]\<rparr>"
  have f: "sv_stored v2 = sv_stored v" "sv_free v2 = sv_free v @ [i]" "values_capacity v2 = values_capacity v"
    by (simp_all add: v2_def values_capacity_def)
  have at: "sv_at j v2 = (if j = i then None else sv_at j v)" for j unfolding v2_def using sv_at_clear [OF i, of j] by simp
  have "i div 64 < length (sv_stored v2)" using stored_word [OF i] D(3) f(1) by simp
  then obtain s where s: "ResetStorageBit i v2 = Some (v2\<lparr>sv_stored := s\<rparr>)" "length s = length (sv_stored v2)"
    "\<forall>j. ba_bit s j \<longleftrightarrow> j \<noteq> i \<and> ba_bit (sv_stored v2) j"
    using ResetStorageBit_bit [of i v2] by blast
  have "sv_erase i v = Some (v2\<lparr>sv_stored := s\<rparr>)" using s(1) by (simp add: sv_erase_def assms(2) v2_def)
  moreover have "sv_ok (v2\<lparr>sv_stored := s\<rparr>)" unfolding sv_ok_def
    using D(1-5) s(2,3) at i f assms(2) by (auto simp: D(6))
  ultimately show ?thesis using at by auto
qed

lemma sv_put_spec:
  assumes "sv_ok v" "sv_at i v = Some y"
  shows "(\<lambda>j. sv_at j (sv_put i x v)) = (\<lambda>j. sv_at j v)(i \<mapsto> x) \<and> sv_ok (sv_put i x v)"
proof -
  note D = sv_okD [OF assms(1)]
  have at: "(\<lambda>j. sv_at j (sv_put i x v)) = (\<lambda>j. sv_at j v)(i \<mapsto> x)" by (rule sv_at_put [OF sv_at_bound [OF assms(2)]])
  then have "sv_at j (sv_put i x v) = None \<longleftrightarrow> sv_at j v = None" for j using assms(2) by (metis fun_upd_apply option.distinct(1))
  then show ?thesis using at D unfolding sv_ok_def by simp
qed

interpretation sv: slot_store sv_ok sv_room sv_at sv_insert sv_put sv_erase
  by unfold_locales (fact sv_insert_spec sv_put_spec sv_erase_spec)+

lemma SlotVector_init_spec: "\<exists>v. SlotVector_init = Some v \<and> sv_ok v \<and> sv_room v \<and> values_capacity v = 2048 \<and> (\<forall>i. sv_at i v = None)"
proof -
  have e: "values_capacity (sv_empty :: 'a slot_vector) = 0" "sv_at i (sv_empty :: 'a slot_vector) = None" for i
    by (simp_all add: sv_empty_def values_capacity_def sv_at_def)
  obtain v :: "'a slot_vector" where "Reserve 2048 sv_empty = Some v" "values_capacity v = 2048" "\<forall>i. sv_at i v = None" "sv_ok v"
    using Reserve_spec [of "sv_empty :: 'a slot_vector" 2048] by (auto simp: e)
  then show ?thesis by (auto simp: SlotVector_init_def InitialCapacity_def sv_empty_def sv_room_def)
qed

lemma is_allocated_eq:
  assumes "sv_ok v" "i < values_capacity v"
  shows "is_allocated i v = Some (sv_at i v \<noteq> None)"
  using stored_word [OF assms(2)] sv_okD(3,4) [OF assms(1)] by (simp add: is_allocated_def ReadStorageBit_eq)

lemma is_allocated_bits:
  assumes "sv_ok v"
  shows "is_allocated i v = (if i div 64 < length (sv_stored v) then Some (sv_at i v \<noteq> None) else None)"
  using sv_okD(4) [OF assms] by (simp add: is_allocated_def ReadStorageBit_eq)

section \<open>Iteration and size\<close>

lemma AdvanceToValid_spec:
  assumes "sv_ok v" "slot \<le> values_capacity v"
  shows "\<exists>s. AdvanceToValid v slot = Some s \<and> slot \<le> s \<and> s \<le> values_capacity v \<and> (\<forall>j. slot \<le> j \<and> j < s \<longrightarrow> sv_at j v = None)
    \<and> (s < values_capacity v \<longrightarrow> sv_at s v \<noteq> None)"
  using assms
proof (induction v slot rule: AdvanceToValid.induct)
  case (1 v slot)
  show ?case
  proof (cases "slot < values_capacity v")
    case lt: True
    have R: "ReadStorageBit slot v = Some (sv_at slot v \<noteq> None)" using is_allocated_eq [OF "1.prems"(1) lt] by (simp add: is_allocated_def)
    show ?thesis
    proof (cases "sv_at slot v")
      case None
      then obtain s where s: "AdvanceToValid v (slot + 1) = Some s" "slot + 1 \<le> s" "s \<le> values_capacity v"
        "\<forall>j. slot + 1 \<le> j \<and> j < s \<longrightarrow> sv_at j v = None" "s < values_capacity v \<longrightarrow> sv_at s v \<noteq> None"
        using "1.IH" [OF lt R] "1.prems" lt by auto
      moreover have "AdvanceToValid v slot = Some s" using lt R None s(1) by (subst AdvanceToValid.simps) simp
      moreover have "\<forall>j. slot \<le> j \<and> j < s \<longrightarrow> sv_at j v = None"
        using s(4) None by (metis Suc_eq_plus1 le_antisym not_less_eq_eq)
      ultimately show ?thesis by auto
    next
      case (Some x)
      then have "AdvanceToValid v slot = Some slot" using lt R by (subst AdvanceToValid.simps) simp
      then show ?thesis using Some lt by auto
    qed
  next
    case False
    then have "AdvanceToValid v slot = Some slot" by (subst AdvanceToValid.simps) simp
    then show ?thesis using "1.prems" False by auto
  qed
qed

lemma sv_slots_spec:
  assumes "sv_ok v" "slot \<le> values_capacity v"
  shows "\<exists>ss. sv_slots v slot = Some ss \<and> sorted_wrt (<) ss \<and> set ss = {j. slot \<le> j \<and> sv_at j v \<noteq> None}"
  using assms
proof (induction v slot rule: sv_slots.induct)
  case (1 v slot)
  obtain s where s: "AdvanceToValid v slot = Some s" "slot \<le> s" "s \<le> values_capacity v" "\<forall>j. slot \<le> j \<and> j < s \<longrightarrow> sv_at j v = None"
    "s < values_capacity v \<longrightarrow> sv_at s v \<noteq> None" using AdvanceToValid_spec [OF "1.prems"] by blast
  show ?case
  proof (cases "s < values_capacity v")
    case True
    then obtain ss where ss: "sv_slots v (s + 1) = Some ss" "sorted_wrt (<) ss" "set ss = {j. s + 1 \<le> j \<and> sv_at j v \<noteq> None}"
      using "1.IH" [OF s(1)] "1.prems"(1) by auto
    have "sv_slots v slot = Some (s # ss)" using s(1) True ss(1) by (subst sv_slots.simps) simp
    moreover have "sorted_wrt (<) (s # ss)" using ss(2) by (simp add: ss(3))
    moreover have "set (s # ss) = {j. slot \<le> j \<and> sv_at j v \<noteq> None}"
    proof -
      have "(j = s \<or> s + 1 \<le> j) \<longleftrightarrow> \<not> j < s" for j by auto
      then show ?thesis using s(2,4) s(5) True by (auto simp: ss(3))
    qed
    ultimately show ?thesis by blast
  next
    case False
    then have "sv_slots v slot = Some []" using s(1) by (subst sv_slots.simps) simp
    moreover have "sv_at j v = None" if "slot \<le> j" for j
      using s(3,4) that False by (cases "j < s") (auto simp: sv_at_def)
    ultimately show ?thesis by auto
  qed
qed

lemma sv_size_eq:
  assumes "sv_ok v"
  shows "sv_size v = card {i. sv_at i v \<noteq> None}"
proof -
  note D = sv_okD [OF assms]
  have split: "{..<values_capacity v} = {i. sv_at i v \<noteq> None} \<union> set (sv_free v)"
    using sv_at_bound [of _ v] by (auto simp: D(6))
  have fin: "finite {i. sv_at i v \<noteq> None}" using finite_lessThan [of "values_capacity v"] unfolding split by simp
  have "card {..<values_capacity v} = card {i. sv_at i v \<noteq> None} + card (set (sv_free v))"
    unfolding split by (rule card_Un_disjoint [OF fin]) (auto simp: D(6))
  then show ?thesis using D(5) by (simp add: sv_size_def distinct_card)
qed

section \<open>Properties\<close>

text \<open>
  C25. The slot vector implements a finite map from handles to objects, whatever the order of the operations: the constructor
  makes it empty; an insertion, also one that grows the storage, returns a handle that was not in use and adds exactly its object; an erase
  removes exactly the object of its handle; \<open>is_allocated\<close> tells the handles in use for every handle whose word is in the bit set and
  has no defined result for the others, whose word it reads past the end of the bit set; \<open>size\<close> counts the handles in use, and a loop
  over the container visits each of them once in ascending order.
\<close>

theorem slot_vector_refines_map:
  fixes v :: "'a slot_vector"
  assumes "sv_ok v"
  shows "(\<exists>v0 :: 'a slot_vector. SlotVector_init = Some v0 \<and> sv_ok v0 \<and> sv_room v0 \<and> (\<lambda>j. sv_at j v0) = Map.empty)
    \<and> (sv_room v \<longrightarrow> (\<exists>i v'. sv_insert x v = Some (i, v') \<and> sv_at i v = None \<and> (\<lambda>j. sv_at j v') = (\<lambda>j. sv_at j v)(i \<mapsto> x) \<and> sv_ok v'))
    \<and> (sv_at i v \<noteq> None \<longrightarrow> (\<exists>v'. sv_erase i v = Some v' \<and> (\<lambda>j. sv_at j v') = (\<lambda>j. sv_at j v)(i := None) \<and> sv_ok v'))
    \<and> is_allocated i v = (if i div 64 < length (sv_stored v) then Some (sv_at i v \<noteq> None) else None)
    \<and> sv_size v = card {i. sv_at i v \<noteq> None}
    \<and> sv_slots v 0 = Some (sorted_list_of_set {i. sv_at i v \<noteq> None})"
proof (intro conjI impI)
  show "\<exists>i v'. sv_insert x v = Some (i, v') \<and> sv_at i v = None \<and> (\<lambda>j. sv_at j v') = (\<lambda>j. sv_at j v)(i \<mapsto> x) \<and> sv_ok v'" if "sv_room v"
    by (rule sv.ins_law [OF assms that])
  show "\<exists>v'. sv_erase i v = Some v' \<and> (\<lambda>j. sv_at j v') = (\<lambda>j. sv_at j v)(i := None) \<and> sv_ok v'" if "sv_at i v \<noteq> None"
    using that sv.del_law [OF assms] by blast
  show "\<exists>v0 :: 'a slot_vector. SlotVector_init = Some v0 \<and> sv_ok v0 \<and> sv_room v0 \<and> (\<lambda>j. sv_at j v0) = Map.empty"
    using SlotVector_init_spec by blast
  show "is_allocated i v = (if i div 64 < length (sv_stored v) then Some (sv_at i v \<noteq> None) else None)"
    by (rule is_allocated_bits [OF assms])
  show "sv_size v = card {i. sv_at i v \<noteq> None}" by (rule sv_size_eq [OF assms])
  obtain ss where ss: "sv_slots v 0 = Some ss" "sorted_wrt (<) ss" "set ss = {j. sv_at j v \<noteq> None}"
    using sv_slots_spec [OF assms, of 0] by auto
  have "sorted_list_of_set (set ss) = ss" using ss(2) by (simp add: strict_sorted_iff sorted_list_of_set.idem_if_sorted_distinct)
  then show "sv_slots v 0 = Some (sorted_list_of_set {i. sv_at i v \<noteq> None})" using ss(1,3) by simp
qed

theorem slot_vector_refines_map_witness:
  "\<exists>v v' i. SlotVector_init = Some v \<and> sv_insert (42 :: nat) v = Some (i, v') \<and> sv_at i v' = Some 42 \<and> sv_at (i + 1) v' = None
     \<and> is_allocated 5 v = Some False \<and> is_allocated 4096 v = None"
proof -
  obtain v :: "nat slot_vector" where v: "SlotVector_init = Some v" "sv_ok v" "sv_room v" "\<forall>i. sv_at i v = None" "values_capacity v = 2048"
    using SlotVector_init_spec by blast
  from slot_vector_refines_map [OF v(2)] v(3) obtain i v' where "sv_insert 42 v = Some (i, v')" "(\<lambda>j. sv_at j v') = (\<lambda>j. sv_at j v)(i \<mapsto> 42)"
    by blast
  moreover have "is_allocated 5 v = Some False" "is_allocated 4096 v = None"
    using slot_vector_refines_map [OF v(2), of _ 5] slot_vector_refines_map [OF v(2), of _ 4096] sv_okD(3) [OF v(2)] v(4,5) by simp_all
  ultimately show ?thesis using v(1,4) by (metis fun_upd_apply n_not_Suc_n Suc_eq_plus1)
qed

end
