(* ===== verification/Semaphore.thy ===== *)
theory Semaphore
  imports Slot_Vector Transition_System
begin

text \<open>
  Kernel semaphores (\<^verbatim>\<open>src/src/core/libraries/kernel/threads/semaphore.cpp\<close>, \<open>OrbisSem\<close> and the \<open>sceKernel\<close> calls): the object and
  its waiting threads, the table of semaphores, and the interleaving of threads over one object as a step relation.
\<close>

section \<open>The semaphore\<close>

text \<open>Arithmetic on an atomic \<open>s32\<close> wraps.\<close>

definition wrap32 :: "int \<Rightarrow> s32" where
  "wrap32 x = (x + 2147483648) mod 4294967296 - 2147483648"

record WaitingThread =
  wt_sem :: nat
  wt_priority :: u32
  wt_need_count :: s32
  wt_name :: string
  wt_was_signaled :: bool
  wt_was_deleted :: bool
  wt_was_canceled :: bool

text \<open>
  The waiting threads are objects on the stacks of their threads; the list holds pointers to them. A pointer is the number of the thread,
  which waits on at most one semaphore at a time.
\<close>

record OrbisSem =
  wait_list :: "nat list"
  sem_name :: string
  token_count :: s32
  max_count :: s32
  init_count :: s32
  is_fifo :: bool

type_synonym waiters = "nat \<Rightarrow> WaitingThread option"

definition OrbisSem_init :: "s32 \<Rightarrow> s32 \<Rightarrow> string \<Rightarrow> bool \<Rightarrow> OrbisSem" where
  "OrbisSem_init initial maximum name fifo =
     \<lparr>wait_list = [], sem_name = name, token_count = initial, max_count = maximum, init_count = initial, is_fifo = fifo\<rparr>"

definition WaitingThread_init :: "s32 \<Rightarrow> bool \<Rightarrow> u32 \<Rightarrow> string \<Rightarrow> WaitingThread" where
  "WaitingThread_init need_count fifo prio name =
     \<lparr>wt_sem = 0, wt_priority = (if fifo then 0 else prio), wt_need_count = need_count, wt_name = name,
      wt_was_signaled = False, wt_was_deleted = False, wt_was_canceled = False\<rparr>"

definition GetResult :: "WaitingThread \<Rightarrow> s32" where
  "GetResult w =
     (if wt_was_signaled w then ORBIS_OK
      else if wt_was_deleted w then ORBIS_KERNEL_ERROR_EACCES
      else if wt_was_canceled w then ORBIS_KERNEL_ERROR_ECANCELED
      else ORBIS_KERNEL_ERROR_ETIMEDOUT)"

text \<open>Reading through a pointer of the list: the object must be there.\<close>

definition waiter :: "waiters \<Rightarrow> nat \<Rightarrow> WaitingThread" where
  "waiter ws p = (case ws p of Some w \<Rightarrow> w | None \<Rightarrow> WaitingThread_init 0 True 0 [])"

primrec insert_by_priority :: "waiters \<Rightarrow> nat \<Rightarrow> nat list \<Rightarrow> nat list" where
  "insert_by_priority ws p [] = [p]"
| "insert_by_priority ws p (q # qs) =
     (if wt_priority (waiter ws q) \<le> wt_priority (waiter ws p) then q # insert_by_priority ws p qs else p # q # qs)"

definition AddWaiter :: "waiters \<Rightarrow> nat \<Rightarrow> OrbisSem \<Rightarrow> OrbisSem" where
  "AddWaiter ws p sem =
     sem\<lparr>wait_list := (if is_fifo sem then wait_list sem @ [p] else insert_by_priority ws p (wait_list sem))\<rparr>"

text \<open>\<open>Wait\<close> up to the point where the thread would block: \<open>Some\<close> when it returns before.\<close>

definition Sem_Wait_try :: "bool \<Rightarrow> s32 \<Rightarrow> u32 option \<Rightarrow> OrbisSem \<Rightarrow> s32 option \<times> OrbisSem" where
  "Sem_Wait_try can_block need_count timeout sem =
     (if token_count sem \<ge> need_count
      then (Some ORBIS_OK, sem\<lparr>token_count := wrap32 (token_count sem - need_count)\<rparr>)
      else if \<not> can_block then (Some ORBIS_KERNEL_ERROR_EBUSY, sem)
      else if timeout = Some 0 then (Some ORBIS_KERNEL_ERROR_ETIMEDOUT, sem)
      else (None, sem))"

text \<open>The end of \<open>Wait\<close>, once the thread has the mutex again: the result, the rest of the timeout, and the list without a waiter that timed out.\<close>

definition Sem_Wait_finish :: "nat \<Rightarrow> WaitingThread \<Rightarrow> u32 option \<Rightarrow> nat \<Rightarrow> OrbisSem \<Rightarrow> s32 \<times> u32 option \<times> OrbisSem" where
  "Sem_Wait_finish p w timeout time sem =
     (let result = GetResult w in
      (result,
       map_option (\<lambda>us. if wt_was_signaled w then nat ((int us - int time) mod 4294967296) else 0) timeout,
       if result = ORBIS_KERNEL_ERROR_ETIMEDOUT then sem\<lparr>wait_list := remove1 p (wait_list sem)\<rparr> else sem))"

definition release_signaled :: "WaitingThread \<Rightarrow> WaitingThread" where
  "release_signaled w = w\<lparr>wt_was_signaled := True, wt_sem := wt_sem w + 1\<rparr>"

primrec signal_loop :: "waiters \<Rightarrow> s32 \<Rightarrow> nat list \<Rightarrow> s32 \<times> nat list \<times> waiters" where
  "signal_loop ws tokens [] = (tokens, [], ws)"
| "signal_loop ws tokens (p # ps) =
     (if wt_need_count (waiter ws p) > tokens
      then (let (t, rest, ws') = signal_loop ws tokens ps in (t, p # rest, ws'))
      else signal_loop (ws(p := map_option release_signaled (ws p))) (wrap32 (tokens - wt_need_count (waiter ws p))) ps)"

definition Sem_Signal :: "s32 \<Rightarrow> OrbisSem \<Rightarrow> waiters \<Rightarrow> bool \<times> OrbisSem \<times> waiters" where
  "Sem_Signal signal_count sem ws =
     (if wrap32 (token_count sem + signal_count) > max_count sem then (False, sem, ws)
      else (let (t, rest, ws') = signal_loop ws (wrap32 (token_count sem + signal_count)) (wait_list sem)
            in (True, sem\<lparr>token_count := t, wait_list := rest\<rparr>, ws')))"

primrec cancel_loop :: "waiters \<Rightarrow> nat list \<Rightarrow> waiters" where
  "cancel_loop ws [] = ws"
| "cancel_loop ws (p # ps) = cancel_loop (ws(p := map_option (\<lambda>w. w\<lparr>wt_was_canceled := True, wt_sem := wt_sem w + 1\<rparr>) (ws p))) ps"

definition Sem_Cancel :: "s32 \<Rightarrow> OrbisSem \<Rightarrow> waiters \<Rightarrow> nat \<times> OrbisSem \<times> waiters" where
  "Sem_Cancel set_count sem ws =
     (length (wait_list sem),
      sem\<lparr>wait_list := [], token_count := (if set_count < 0 then init_count sem else set_count)\<rparr>,
      cancel_loop ws (wait_list sem))"

primrec delete_loop :: "waiters \<Rightarrow> nat list \<Rightarrow> waiters" where
  "delete_loop ws [] = ws"
| "delete_loop ws (p # ps) = delete_loop (ws(p := map_option (\<lambda>w. w\<lparr>wt_was_deleted := True, wt_sem := wt_sem w + 1\<rparr>) (ws p))) ps"

definition Sem_Delete :: "OrbisSem \<Rightarrow> waiters \<Rightarrow> OrbisSem \<times> waiters" where
  "Sem_Delete sem ws = (sem\<lparr>wait_list := []\<rparr>, delete_loop ws (wait_list sem))"

section \<open>The kernel calls\<close>

text \<open>
  The table of semaphores is a slot vector; \<open>None\<close> is a read outside its bit set. A blocking call that does not return
  at once leaves the calling thread asleep: the rest of the call is a step of that thread.
\<close>

type_synonym sem_table = "OrbisSem slot_vector"

definition sceKernelCreateSema :: "string option \<Rightarrow> u32 \<Rightarrow> s32 \<Rightarrow> s32 \<Rightarrow> sem_table \<Rightarrow> (s32 \<times> u32 option \<times> sem_table) option" where
  "sceKernelCreateSema pName attr initCount maxCount sems =
     (case pName of
        None \<Rightarrow> Some (ORBIS_KERNEL_ERROR_EINVAL, None, sems)
      | Some name \<Rightarrow>
          if attr > 2 \<or> initCount < 0 \<or> maxCount \<le> 0 \<or> initCount > maxCount then Some (ORBIS_KERNEL_ERROR_EINVAL, None, sems)
          else do {
            (index, sems') \<leftarrow> sv_insert (OrbisSem_init initCount maxCount name (attr = 1)) sems;
            Some (ORBIS_OK, Some index, sems')
          })"

text \<open>The table lookup that opens the other calls.\<close>

definition with_sema :: "u32 \<Rightarrow> sem_table \<Rightarrow> (OrbisSem \<Rightarrow> 'r option) \<Rightarrow> (s32 + 'r) option" where
  "with_sema sem sems f = do {
     allocated \<leftarrow> is_allocated sem sems;
     (if \<not> allocated then Some (Inl ORBIS_KERNEL_ERROR_ESRCH)
      else do { s \<leftarrow> sv_at sem sems; map_option Inr (f s) })
   }"

definition sceKernelWaitSema :: "u32 \<Rightarrow> s32 \<Rightarrow> u32 option \<Rightarrow> sem_table \<Rightarrow> (s32 + s32 option \<times> sem_table) option" where
  "sceKernelWaitSema sem needCount pTimeout sems =
     with_sema sem sems (\<lambda>s. let (r, s') = Sem_Wait_try True needCount pTimeout s in Some (r, sv_put sem s' sems))"

definition sceKernelPollSema :: "u32 \<Rightarrow> s32 \<Rightarrow> sem_table \<Rightarrow> (s32 + s32 option \<times> sem_table) option" where
  "sceKernelPollSema sem needCount sems =
     with_sema sem sems (\<lambda>s. let (r, s') = Sem_Wait_try False needCount None s in Some (r, sv_put sem s' sems))"

definition sceKernelSignalSema :: "u32 \<Rightarrow> s32 \<Rightarrow> sem_table \<Rightarrow> waiters \<Rightarrow> (s32 + s32 \<times> sem_table \<times> waiters) option" where
  "sceKernelSignalSema sem signalCount sems ws =
     with_sema sem sems (\<lambda>s. let (ok, s', ws') = Sem_Signal signalCount s ws
       in Some (if ok then ORBIS_OK else ORBIS_KERNEL_ERROR_EINVAL, sv_put sem s' sems, ws'))"

definition sceKernelCancelSema :: "u32 \<Rightarrow> s32 \<Rightarrow> sem_table \<Rightarrow> waiters \<Rightarrow> (s32 + s32 \<times> nat \<times> sem_table \<times> waiters) option" where
  "sceKernelCancelSema sem setCount sems ws =
     with_sema sem sems (\<lambda>s. let (n, s', ws') = Sem_Cancel setCount s ws in Some (ORBIS_OK, n, sv_put sem s' sems, ws'))"

definition sceKernelDeleteSema :: "u32 \<Rightarrow> sem_table \<Rightarrow> waiters \<Rightarrow> (s32 + s32 \<times> sem_table \<times> waiters) option" where
  "sceKernelDeleteSema sem sems ws =
     with_sema sem sems (\<lambda>s. let (s', ws') = Sem_Delete s ws in do {
       sems' \<leftarrow> sv_erase sem (sv_put sem s' sems);
       Some (ORBIS_OK, sems', ws')
     })"

section \<open>Threads\<close>

text \<open>
  A thread is outside the semaphore, asleep on the binary semaphore of its waiter, or awake again (released, or its timeout ran out)
  but without the mutex yet.
\<close>

datatype sem_thread = Sem_Outside | Sem_Asleep "u32 option" | Sem_Awake "u32 option"

record sem_system =
  ss_sem :: OrbisSem
  ss_waiters :: waiters
  ss_threads :: "nat \<Rightarrow> sem_thread"
  ss_alive :: bool

datatype sem_event =
    Ev_Now nat s32 s32
  | Ev_Sleep nat s32
  | Ev_Wake nat
  | Ev_Finish nat s32 s32
  | Ev_Signal s32 bool
  | Ev_Cancel s32
  | Ev_Delete

inductive sem_step :: "sem_system \<Rightarrow> sem_event \<Rightarrow> sem_system \<Rightarrow> bool" where
  wait_now:
    "ss_alive s \<Longrightarrow> ss_threads s t = Sem_Outside \<Longrightarrow> Sem_Wait_try can_block need timeout (ss_sem s) = (Some r, sem') \<Longrightarrow>
     sem_step s (Ev_Now t need r) (s\<lparr>ss_sem := sem'\<rparr>)"
| wait_sleep:
    "ss_alive s \<Longrightarrow> ss_threads s t = Sem_Outside \<Longrightarrow> Sem_Wait_try can_block need timeout (ss_sem s) = (None, sem') \<Longrightarrow>
     ws' = (ss_waiters s)(t \<mapsto> WaitingThread_init need (is_fifo sem') prio name) \<Longrightarrow>
     sem_step s (Ev_Sleep t need)
       (s\<lparr>ss_sem := AddWaiter ws' t sem', ss_waiters := ws', ss_threads := (ss_threads s)(t := Sem_Asleep timeout)\<rparr>)"
| wake_released:
    "ss_threads s t = Sem_Asleep timeout \<Longrightarrow> ss_waiters s t = Some w \<Longrightarrow> wt_sem w > 0 \<Longrightarrow>
     sem_step s (Ev_Wake t)
       (s\<lparr>ss_waiters := (ss_waiters s)(t \<mapsto> w\<lparr>wt_sem := wt_sem w - 1\<rparr>), ss_threads := (ss_threads s)(t := Sem_Awake timeout)\<rparr>)"
| wake_timeout:
    "ss_threads s t = Sem_Asleep (Some us) \<Longrightarrow> sem_step s (Ev_Wake t) (s\<lparr>ss_threads := (ss_threads s)(t := Sem_Awake (Some us))\<rparr>)"
| finish:
    "ss_alive s \<Longrightarrow> ss_threads s t = Sem_Awake timeout \<Longrightarrow> ss_waiters s t = Some w \<Longrightarrow>
     Sem_Wait_finish t w timeout time (ss_sem s) = (r, timeout', sem') \<Longrightarrow>
     sem_step s (Ev_Finish t (wt_need_count w) r)
       (s\<lparr>ss_sem := sem', ss_waiters := (ss_waiters s)(t := None), ss_threads := (ss_threads s)(t := Sem_Outside)\<rparr>)"
| signal:
    "ss_alive s \<Longrightarrow> Sem_Signal n (ss_sem s) (ss_waiters s) = (ok, sem', ws') \<Longrightarrow>
     sem_step s (Ev_Signal n ok) (s\<lparr>ss_sem := sem', ss_waiters := ws'\<rparr>)"
| cancel:
    "ss_alive s \<Longrightarrow> Sem_Cancel n (ss_sem s) (ss_waiters s) = (k, sem', ws') \<Longrightarrow>
     sem_step s (Ev_Cancel n) (s\<lparr>ss_sem := sem', ss_waiters := ws'\<rparr>)"
| delete:
    "ss_alive s \<Longrightarrow> Sem_Delete (ss_sem s) (ss_waiters s) = (sem', ws') \<Longrightarrow>
     sem_step s Ev_Delete (s\<lparr>ss_sem := sem', ss_waiters := ws', ss_alive := False\<rparr>)"

definition sem_init :: "s32 \<Rightarrow> s32 \<Rightarrow> string \<Rightarrow> bool \<Rightarrow> sem_system \<Rightarrow> bool" where
  "sem_init initCount maxCount name fifo s \<longleftrightarrow> 0 \<le> initCount \<and> initCount \<le> maxCount \<and> 0 < maxCount \<and> maxCount < 2147483648
     \<and> s = \<lparr>ss_sem = OrbisSem_init initCount maxCount name fifo, ss_waiters = (\<lambda>_. None), ss_threads = (\<lambda>_. Sem_Outside), ss_alive = True\<rparr>"

text \<open>
  Calls with the counts the interface is meant for: no negative count of a wait or a signal, no signal that makes
  \<^verbatim>\<open>token_count + signal_count\<close> overflow, and a cancellation within the maximum.  The code checks none of these.
\<close>

fun sem_call_ok :: "OrbisSem \<Rightarrow> sem_event \<Rightarrow> bool" where
  "sem_call_ok sem (Ev_Now t need r) \<longleftrightarrow> 0 \<le> need"
| "sem_call_ok sem (Ev_Signal n ok) \<longleftrightarrow> 0 \<le> n \<and> token_count sem + n < 2147483648"
| "sem_call_ok sem (Ev_Cancel n) \<longleftrightarrow> n \<le> max_count sem"
| "sem_call_ok sem e \<longleftrightarrow> True"

definition sem_step_ok :: "sem_system \<Rightarrow> sem_event \<Rightarrow> sem_system \<Rightarrow> bool" where
  "sem_step_ok s e s' \<longleftrightarrow> sem_step s e s' \<and> sem_call_ok (ss_sem s) e"

end
