(* ===== verification/Semaphore_Invariant.thy ===== *)
theory Semaphore_Invariant
  imports Semaphore
begin

text \<open>
  Kernel semaphores: what the loop of \<open>Signal\<close> does, the order of the wait list, and the invariant that every step keeps.
\<close>

section \<open>Waiters\<close>

definition resolved :: "WaitingThread \<Rightarrow> bool" where
  "resolved w \<longleftrightarrow> wt_was_signaled w \<or> wt_was_deleted w \<or> wt_was_canceled w"

abbreviation need_of :: "waiters \<Rightarrow> nat \<Rightarrow> s32" where "need_of ws p \<equiv> wt_need_count (waiter ws p)"

lemma wrap32_exact: "-2147483648 \<le> x \<Longrightarrow> x < 2147483648 \<Longrightarrow> wrap32 x = x"
  by (simp add: wrap32_def)

lemma waiter_simps [simp]: "ws p = Some w \<Longrightarrow> waiter ws p = w" "waiter (ws(p \<mapsto> w)) q = (if q = p then w else waiter ws q)"
  "q \<noteq> p \<Longrightarrow> waiter (ws(p := x)) q = waiter ws q"
  by (simp_all add: waiter_def)

lemma release_signaled_simps [simp]:
  "wt_need_count (release_signaled w) = wt_need_count w" "wt_priority (release_signaled w) = wt_priority w"
  "wt_sem (release_signaled w) = wt_sem w + 1" "wt_was_signaled (release_signaled w)" "resolved (release_signaled w)"
  by (simp_all add: release_signaled_def resolved_def)

definition signal_spec :: "waiters \<Rightarrow> s32 \<Rightarrow> nat list \<Rightarrow> s32 \<Rightarrow> nat list \<Rightarrow> waiters \<Rightarrow> bool" where
  "signal_spec ws tokens ps t rest ws' \<longleftrightarrow>
     rest = filter (\<lambda>p. p \<in> set rest) ps
   \<and> ws' = (\<lambda>p. if p \<in> set ps - set rest then map_option release_signaled (ws p) else ws p)
   \<and> (\<forall>p\<in>set rest. t < need_of ws p) \<and> 0 \<le> t \<and> t \<le> tokens
   \<and> t + (\<Sum>p \<leftarrow> filter (\<lambda>p. p \<notin> set rest) ps. need_of ws p) = tokens
   \<and> (\<forall>p qs. ps = p # qs \<and> need_of ws p \<le> tokens \<longrightarrow> p \<notin> set rest)"

lemma signal_loop_spec:
  assumes "distinct ps" "\<forall>p\<in>set ps. 0 \<le> need_of ws p" "0 \<le> tokens" "tokens < 2147483648" "signal_loop ws tokens ps = (t, rest, ws')"
  shows "signal_spec ws tokens ps t rest ws'"
  using assms
proof (induction ps arbitrary: ws tokens t rest ws')
  case Nil
  then show ?case by (auto simp: signal_spec_def)
next
  case (Cons p ps)
  have p: "p \<notin> set ps" "distinct ps" "\<forall>q\<in>set ps. 0 \<le> need_of ws q" using Cons.prems(1,2) by auto
  show ?case
  proof (cases "need_of ws p > tokens")
    case True
    then obtain rest1 where r: "rest = p # rest1" "signal_loop ws tokens ps = (t, rest1, ws')"
      using Cons.prems(5) by (auto split: prod.splits)
    have IH: "signal_spec ws tokens ps t rest1 ws'" by (rule Cons.IH [OF p(2,3) Cons.prems(3,4) r(2)])
    have sub: "p \<notin> set rest1" using IH p(1) unfolding signal_spec_def by (metis filter_is_subset subsetD)
    have f: "filter (\<lambda>q. q = p \<or> q \<in> set rest1) ps = filter (\<lambda>q. q \<in> set rest1) ps"
      "filter (\<lambda>q. q \<noteq> p \<and> q \<notin> set rest1) ps = filter (\<lambda>q. q \<notin> set rest1) ps"
      using p(1) by (auto intro: filter_cong)
    show ?thesis using IH True p(1) unfolding signal_spec_def r(1) by (auto simp: f)
  next
    case False
    define ws1 where "ws1 = ws(p := map_option release_signaled (ws p))"
    have nd: "0 \<le> need_of ws p" using Cons.prems(2) by simp
    have w: "wrap32 (tokens - need_of ws p) = tokens - need_of ws p" using False nd Cons.prems(4) by (intro wrap32_exact) auto
    have r: "signal_loop ws1 (tokens - need_of ws p) ps = (t, rest, ws')" using False Cons.prems(5) w by (simp add: ws1_def)
    have same: "need_of ws1 q = need_of ws q" if "q \<noteq> p" for q using that by (simp add: ws1_def)
    have "\<forall>q\<in>set ps. 0 \<le> need_of ws1 q" using p(1,3) same by metis
    then have IH: "signal_spec ws1 (tokens - need_of ws p) ps t rest ws'" using Cons.IH [OF p(2) _ _ _ r] nd False Cons.prems(4) by simp
    have sub: "p \<notin> set rest" using IH p(1) unfolding signal_spec_def by (metis filter_is_subset subsetD)
    have "sum_list (map (need_of ws1) (filter (\<lambda>q. q \<notin> set rest) ps)) = sum_list (map (need_of ws) (filter (\<lambda>q. q \<notin> set rest) ps))"
      by (rule arg_cong [of _ _ sum_list], rule map_cong [OF refl], rule same) (use p(1) in auto)
    moreover have "\<forall>q\<in>set rest. need_of ws1 q = need_of ws q" using sub same by metis
    moreover have "ws' = (\<lambda>q. if q \<in> set (p # ps) - set rest then map_option release_signaled (ws q) else ws q)"
      using IH sub p(1) unfolding signal_spec_def by (auto simp: ws1_def)
    ultimately show ?thesis using IH sub nd unfolding signal_spec_def by auto
  qed
qed

lemma mark_loop:
  fixes f :: "WaitingThread \<Rightarrow> WaitingThread"
  assumes "\<And>ws. loop ws [] = ws" "\<And>ws p ps. loop ws (p # ps) = loop (ws(p := map_option f (ws p))) ps" "distinct ps"
  shows "loop ws ps = (\<lambda>p. if p \<in> set ps then map_option f (ws p) else ws p)"
  using assms(3) by (induction ps arbitrary: ws) (auto simp: assms(1,2) fun_eq_iff)

lemma cancel_loop_eq: "distinct ps \<Longrightarrow> cancel_loop ws ps =
    (\<lambda>p. if p \<in> set ps then map_option (\<lambda>w. w\<lparr>wt_was_canceled := True, wt_sem := wt_sem w + 1\<rparr>) (ws p) else ws p)"
  by (rule mark_loop [OF cancel_loop.simps])

lemma delete_loop_eq: "distinct ps \<Longrightarrow> delete_loop ws ps =
    (\<lambda>p. if p \<in> set ps then map_option (\<lambda>w. w\<lparr>wt_was_deleted := True, wt_sem := wt_sem w + 1\<rparr>) (ws p) else ws p)"
  by (rule mark_loop [OF delete_loop.simps])

section \<open>The order of the list\<close>

abbreviation prio_sorted :: "waiters \<Rightarrow> nat list \<Rightarrow> bool" where
  "prio_sorted ws \<equiv> sorted_wrt (\<lambda>p q. wt_priority (waiter ws p) \<le> wt_priority (waiter ws q))"

lemma insert_by_priority_eq:
  assumes "prio_sorted ws qs"
  shows "insert_by_priority ws p qs =
    filter (\<lambda>q. wt_priority (waiter ws q) \<le> wt_priority (waiter ws p)) qs @ [p]
    @ filter (\<lambda>q. wt_priority (waiter ws p) < wt_priority (waiter ws q)) qs"
  using assms
proof (induction qs)
  case (Cons q qs)
  show ?case
  proof (cases "wt_priority (waiter ws q) \<le> wt_priority (waiter ws p)")
    case False
    then have "\<forall>r\<in>set qs. wt_priority (waiter ws p) < wt_priority (waiter ws r)" using Cons.prems by fastforce
    then have "filter (\<lambda>q. wt_priority (waiter ws q) \<le> wt_priority (waiter ws p)) qs = []"
      "filter (\<lambda>q. wt_priority (waiter ws p) < wt_priority (waiter ws q)) qs = qs" by (auto simp: filter_empty_conv not_le)
    then show ?thesis using False by simp
  qed (use Cons in auto)
qed simp

lemma insert_by_priority_set [simp]: "set (insert_by_priority ws p qs) = insert p (set qs)"
  by (induction qs) auto

lemma insert_by_priority_distinct [simp]: "distinct (insert_by_priority ws p qs) \<longleftrightarrow> distinct qs \<and> p \<notin> set qs"
  by (induction qs) auto

lemma insert_by_priority_sorted: "prio_sorted ws qs \<Longrightarrow> prio_sorted ws (insert_by_priority ws p qs)"
proof -
  assume "prio_sorted ws qs"
  then show ?thesis by (simp add: insert_by_priority_eq) (auto simp: sorted_wrt_append sorted_wrt_filter)
qed

lemma AddWaiter_list: "set (wait_list (AddWaiter ws p sem)) = insert p (set (wait_list sem))"
  "distinct (wait_list (AddWaiter ws p sem)) \<longleftrightarrow> distinct (wait_list sem) \<and> p \<notin> set (wait_list sem)"
  "token_count (AddWaiter ws p sem) = token_count sem" "max_count (AddWaiter ws p sem) = max_count sem"
  "init_count (AddWaiter ws p sem) = init_count sem" "is_fifo (AddWaiter ws p sem) = is_fifo sem"
  by (auto simp: AddWaiter_def)

section \<open>The invariant\<close>

definition sem_counts_ok :: "OrbisSem \<Rightarrow> bool" where
  "sem_counts_ok sem \<longleftrightarrow> 0 \<le> token_count sem \<and> token_count sem \<le> max_count sem \<and> 0 \<le> init_count sem \<and> init_count sem \<le> max_count sem
     \<and> max_count sem < 2147483648"

definition sem_list_ok :: "OrbisSem \<Rightarrow> waiters \<Rightarrow> bool" where
  "sem_list_ok sem ws \<longleftrightarrow> distinct (wait_list sem) \<and> (\<forall>t. t \<in> set (wait_list sem) \<longleftrightarrow> (\<exists>w. ws t = Some w \<and> \<not> resolved w))
     \<and> (\<forall>t\<in>set (wait_list sem). token_count sem < need_of ws t) \<and> prio_sorted ws (wait_list sem)
     \<and> (is_fifo sem \<longrightarrow> (\<forall>t\<in>set (wait_list sem). wt_priority (waiter ws t) = 0))"

definition sem_waiter_ok :: "sem_thread \<Rightarrow> WaitingThread option \<Rightarrow> bool" where
  "sem_waiter_ok th wo \<longleftrightarrow>
     (case wo of
        None \<Rightarrow> th = Sem_Outside
      | Some w \<Rightarrow> th \<noteq> Sem_Outside \<and> wt_sem w \<le> 1 \<and> (\<not> resolved w \<longrightarrow> wt_sem w = 0)
          \<and> ((\<exists>us. th = Sem_Asleep us) \<and> resolved w \<longrightarrow> wt_sem w = 1) \<and> (th = Sem_Awake None \<longrightarrow> resolved w))"

definition sem_inv :: "sem_system \<Rightarrow> bool" where
  "sem_inv s \<longleftrightarrow> sem_counts_ok (ss_sem s) \<and> sem_list_ok (ss_sem s) (ss_waiters s)
     \<and> (\<forall>t. sem_waiter_ok (ss_threads s t) (ss_waiters s t))"


lemma sem_invD:
  assumes "sem_inv s"
  shows "0 \<le> token_count (ss_sem s)" "token_count (ss_sem s) \<le> max_count (ss_sem s)" "max_count (ss_sem s) < 2147483648"
    "distinct (wait_list (ss_sem s))"
    "t \<in> set (wait_list (ss_sem s)) \<longleftrightarrow> (\<exists>w. ss_waiters s t = Some w \<and> \<not> resolved w)"
    "t \<in> set (wait_list (ss_sem s)) \<Longrightarrow> token_count (ss_sem s) < need_of (ss_waiters s) t"
    "prio_sorted (ss_waiters s) (wait_list (ss_sem s))"
    "sem_waiter_ok (ss_threads s t) (ss_waiters s t)"
  using assms unfolding sem_inv_def sem_counts_ok_def sem_list_ok_def by blast+

lemma Sem_Wait_try_cases:
  assumes "Sem_Wait_try cb need timeout sem = (r, sem')"
  shows "(r = Some ORBIS_OK \<and> need \<le> token_count sem \<and> sem' = sem\<lparr>token_count := wrap32 (token_count sem - need)\<rparr>)
    \<or> (token_count sem < need \<and> sem' = sem \<and> r \<noteq> Some ORBIS_OK)"
  using assms by (auto simp: Sem_Wait_try_def orbis_errors split: if_splits)

lemma sem_list_ok_tokens:
  assumes "sem_list_ok sem ws" "n \<le> token_count sem"
  shows "sem_list_ok (sem\<lparr>token_count := n\<rparr>) ws"
  using assms by (force simp: sem_list_ok_def)

lemma AddWaiter_list_ok:
  assumes "sem_list_ok sem ws" "ws t = None" "token_count sem < need" "ws' = ws(t \<mapsto> WaitingThread_init need (is_fifo sem) prio name)"
  shows "sem_list_ok (AddWaiter ws' t sem) ws'"
proof -
  have L: "distinct (wait_list sem)" "\<And>u. u \<in> set (wait_list sem) \<longleftrightarrow> (\<exists>w. ws u = Some w \<and> \<not> resolved w)"
    "\<forall>u\<in>set (wait_list sem). token_count sem < need_of ws u" "prio_sorted ws (wait_list sem)"
    "is_fifo sem \<longrightarrow> (\<forall>u\<in>set (wait_list sem). wt_priority (waiter ws u) = 0)"
    using assms(1) unfolding sem_list_ok_def by blast+
  have t: "t \<notin> set (wait_list sem)" using L(2) assms(2) by auto
  have same: "waiter ws' u = waiter ws u" if "u \<in> set (wait_list sem)" for u using that t assms(4) by auto
  have wt: "waiter ws' t = WaitingThread_init need (is_fifo sem) prio name" using assms(4) by simp
  have srt: "prio_sorted ws' (wait_list sem)" by (rule sorted_wrt_mono_rel [OF _ L(4)]) (simp add: same)
  have "prio_sorted ws' (wait_list (AddWaiter ws' t sem))"
  proof (cases "is_fifo sem")
    case True
    then show ?thesis using srt L(5) by (auto simp: AddWaiter_def sorted_wrt_append same)
  next
    case False
    then show ?thesis using insert_by_priority_sorted [OF srt] by (simp add: AddWaiter_def)
  qed
  moreover have "u \<in> insert t (set (wait_list sem)) \<longleftrightarrow> (\<exists>w. ws' u = Some w \<and> \<not> resolved w)" for u
    using L(2) [of u] assms(4) by (auto simp: resolved_def WaitingThread_init_def)
  moreover have "\<forall>u\<in>insert t (set (wait_list sem)). token_count sem < need_of ws' u"
    using L(3) same wt assms(3) by (auto simp: WaitingThread_init_def)
  moreover have "is_fifo sem \<longrightarrow> (\<forall>u\<in>insert t (set (wait_list sem)). wt_priority (waiter ws' u) = 0)"
    using L(5) same wt by (auto simp: WaitingThread_init_def)
  ultimately show ?thesis unfolding sem_list_ok_def AddWaiter_list using L(1) t by blast
qed

lemma Signal_spec:
  assumes "sem_counts_ok sem" "sem_list_ok sem ws" "0 \<le> n" "token_count sem + n < 2147483648" "Sem_Signal n sem ws = (ok, sem', ws')"
  shows "ok \<longleftrightarrow> token_count sem + n \<le> max_count sem" "\<not> ok \<Longrightarrow> sem' = sem \<and> ws' = ws"
    "ok \<Longrightarrow> \<exists>t rest. sem' = sem\<lparr>token_count := t, wait_list := rest\<rparr> \<and> signal_spec ws (token_count sem + n) (wait_list sem) t rest ws'"
proof -
  have c: "0 \<le> token_count sem" "token_count sem \<le> max_count sem" "max_count sem < 2147483648" using assms(1) by (auto simp: sem_counts_ok_def)
  have w: "wrap32 (token_count sem + n) = token_count sem + n" by (rule wrap32_exact) (use c assms(3,4) in auto)
  show "ok \<longleftrightarrow> token_count sem + n \<le> max_count sem" "\<not> ok \<Longrightarrow> sem' = sem \<and> ws' = ws"
    using assms(5) by (auto simp: Sem_Signal_def w split: if_splits prod.splits)
  assume ok
  then obtain t rest where sl: "signal_loop ws (token_count sem + n) (wait_list sem) = (t, rest, ws')" "sem' = sem\<lparr>token_count := t, wait_list := rest\<rparr>"
    using assms(5) by (auto simp: Sem_Signal_def w split: if_splits prod.splits)
  have "signal_spec ws (token_count sem + n) (wait_list sem) t rest ws'"
  proof (rule signal_loop_spec [OF _ _ _ _ sl(1)])
    show "distinct (wait_list sem)" using assms(2) by (simp add: sem_list_ok_def)
    show "\<forall>p\<in>set (wait_list sem). 0 \<le> need_of ws p" using assms(2) c(1) by (force simp: sem_list_ok_def)
  qed (use c assms(3,4) in auto)
  then show "\<exists>t rest. sem' = sem\<lparr>token_count := t, wait_list := rest\<rparr> \<and> signal_spec ws (token_count sem + n) (wait_list sem) t rest ws'"
    using sl(2) by blast
qed

lemma sem_list_okD:
  assumes "sem_list_ok sem ws"
  shows "distinct (wait_list sem)" "t \<in> set (wait_list sem) \<longleftrightarrow> (\<exists>w. ws t = Some w \<and> \<not> resolved w)"
    "t \<in> set (wait_list sem) \<Longrightarrow> token_count sem < need_of ws t" "prio_sorted ws (wait_list sem)"
    "is_fifo sem \<Longrightarrow> t \<in> set (wait_list sem) \<Longrightarrow> wt_priority (waiter ws t) = 0"
  using assms unfolding sem_list_ok_def by blast+

text \<open>Marking some waiters of the list as released and keeping the others.\<close>

lemma released_list_ok:
  assumes L: "sem_list_ok sem ws" and rest: "rest = filter (\<lambda>p. p \<in> set rest) (wait_list sem)"
    and ws': "ws' = (\<lambda>p. if p \<in> set (wait_list sem) - set rest then map_option f (ws p) else ws p)"
    and res: "\<And>w. resolved (f w)" and tok: "\<forall>p\<in>set rest. tok < need_of ws p"
  shows "sem_list_ok (sem\<lparr>token_count := tok, wait_list := rest\<rparr>) ws'"
proof -
  note D = sem_list_okD [OF L]
  have sub: "set rest \<subseteq> set (wait_list sem)" using arg_cong [OF rest, of set] by auto
  have same: "waiter ws' p = waiter ws p" if "p \<in> set rest" for p using that by (simp add: ws' waiter_def)
  have "distinct rest" by (subst rest) (simp add: D(1))
  moreover have "t \<in> set rest \<longleftrightarrow> (\<exists>w. ws' t = Some w \<and> \<not> resolved w)" for t
    using D(2) [of t] sub res by (auto simp: ws')
  moreover have "\<forall>p\<in>set rest. tok < need_of ws' p" using tok same by simp
  moreover have "prio_sorted ws' rest"
  proof -
    have "prio_sorted ws rest" by (subst rest) (rule sorted_wrt_filter [OF D(4)])
    then show ?thesis by (rule sorted_wrt_mono_rel [rotated]) (simp add: same)
  qed
  moreover have "is_fifo sem \<longrightarrow> (\<forall>p\<in>set rest. wt_priority (waiter ws' p) = 0)" using D(5) sub same by auto
  ultimately show ?thesis unfolding sem_list_ok_def by auto
qed

lemma released_waiter_ok:
  assumes "sem_list_ok sem ws" "\<forall>t. sem_waiter_ok (ths t) (ws t)"
    and "ws' = (\<lambda>p. if p \<in> set (wait_list sem) - R then map_option f (ws p) else ws p)"
    and "\<And>w. resolved (f w) \<and> wt_sem (f w) = wt_sem w + 1"
  shows "\<forall>t. sem_waiter_ok (ths t) (ws' t)"
proof
  fix t
  show "sem_waiter_ok (ths t) (ws' t)"
  proof (cases "t \<in> set (wait_list sem) - R")
    case True
    then obtain w where w: "ws t = Some w" "\<not> resolved w" using sem_list_okD(2) [OF assms(1)] by blast
    then have "wt_sem w = 0" "ths t \<noteq> Sem_Outside" using assms(2) [rule_format, of t] by (auto simp: sem_waiter_ok_def)
    then show ?thesis using True w assms(4) [of w] by (simp add: assms(3) sem_waiter_ok_def)
  next
    case False
    then have "ws' t = ws t" unfolding assms(3) by (rule if_not_P)
    then show ?thesis using assms(2) by simp
  qed
qed

lemma released_inv:
  assumes "sem_inv s" "rest = filter (\<lambda>p. p \<in> set rest) (wait_list (ss_sem s))"
    "ws' = (\<lambda>p. if p \<in> set (wait_list (ss_sem s)) - set rest then map_option f (ss_waiters s p) else ss_waiters s p)"
    "\<And>w. resolved (f w) \<and> wt_sem (f w) = wt_sem w + 1" "\<forall>p\<in>set rest. tok < need_of (ss_waiters s) p" "0 \<le> tok" "tok \<le> max_count (ss_sem s)"
  shows "sem_inv (s\<lparr>ss_sem := ss_sem s\<lparr>token_count := tok, wait_list := rest\<rparr>, ss_waiters := ws', ss_alive := a\<rparr>)"
proof -
  have I: "sem_counts_ok (ss_sem s)" "sem_list_ok (ss_sem s) (ss_waiters s)" "\<forall>t. sem_waiter_ok (ss_threads s t) (ss_waiters s t)"
    using assms(1) unfolding sem_inv_def by blast+
  have "sem_list_ok (ss_sem s\<lparr>token_count := tok, wait_list := rest\<rparr>) ws'"
    by (rule released_list_ok [OF I(2) assms(2,3) _ assms(5)]) (use assms(4) in blast)
  moreover have "\<forall>t. sem_waiter_ok (ss_threads s t) (ws' t)" by (rule released_waiter_ok [OF I(2,3) assms(3,4)])
  moreover have "sem_counts_ok (ss_sem s\<lparr>token_count := tok, wait_list := rest\<rparr>)" using I(1) assms(6,7) by (simp add: sem_counts_ok_def)
  ultimately show ?thesis by (simp add: sem_inv_def)
qed

lemma finish_list_ok:
  assumes L: "sem_list_ok sem ws" and w: "ws t = Some w" and F: "Sem_Wait_finish t w timeout time sem = (r, timeout', sem')"
  shows "sem_list_ok sem' (ws(t := None))"
proof -
  note D = sem_list_okD [OF L]
  have l: "wait_list sem' = filter (\<lambda>p. p \<noteq> t) (wait_list sem)"
  proof (cases "resolved w")
    case True
    then have "GetResult w \<noteq> ORBIS_KERNEL_ERROR_ETIMEDOUT" by (auto simp: GetResult_def resolved_def orbis_errors)
    then have "wait_list sem' = wait_list sem" using F by (auto simp: Sem_Wait_finish_def Let_def)
    moreover have "t \<notin> set (wait_list sem)" using D(2) [of t] w True by auto
    then have "filter (\<lambda>p. p \<noteq> t) (wait_list sem) = wait_list sem" by (intro filter_True) auto
    ultimately show ?thesis by simp
  next
    case False
    then have "GetResult w = ORBIS_KERNEL_ERROR_ETIMEDOUT" by (auto simp: GetResult_def resolved_def)
    then have "wait_list sem' = remove1 t (wait_list sem)" using F by (auto simp: Sem_Wait_finish_def Let_def)
    moreover have "filter (\<lambda>p. t \<noteq> p) (wait_list sem) = filter (\<lambda>p. p \<noteq> t) (wait_list sem)" by (rule filter_cong) auto
    ultimately show ?thesis using D(1) by (simp add: distinct_remove1_removeAll removeAll_filter_not_eq)
  qed
  have f: "token_count sem' = token_count sem" "is_fifo sem' = is_fifo sem" using F by (auto simp: Sem_Wait_finish_def Let_def split: if_splits)
  have same: "waiter (ws(t := None)) p = waiter ws p" if "p \<in> set (wait_list sem')" for p using that by (simp add: l)
  have "prio_sorted (ws(t := None)) (wait_list sem')"
    by (rule sorted_wrt_mono_rel [of _ "\<lambda>p q. wt_priority (waiter ws p) \<le> wt_priority (waiter ws q)"]) (simp add: same, simp add: l sorted_wrt_filter D(4))
  moreover have "u \<in> set (wait_list sem') \<longleftrightarrow> (\<exists>v. (ws(t := None)) u = Some v \<and> \<not> resolved v)" for u using D(2) [of u] by (simp add: l)
  moreover have "distinct (wait_list sem')" using D(1) by (simp add: l)
  moreover have "\<forall>u\<in>set (wait_list sem'). token_count sem' < need_of (ws(t := None)) u" using D(3) same by (simp add: l f)
  moreover have "is_fifo sem' \<longrightarrow> (\<forall>u\<in>set (wait_list sem'). wt_priority (waiter (ws(t := None)) u) = 0)" using D(5) same by (simp add: l f)
  ultimately show ?thesis unfolding sem_list_ok_def by blast
qed

lemma wait_now_inv:
  assumes "sem_inv s" "Sem_Wait_try can_block need timeout (ss_sem s) = (Some r, sem')" "0 \<le> need"
  shows "sem_inv (s\<lparr>ss_sem := sem'\<rparr>)"
proof -
  have I: "sem_counts_ok (ss_sem s)" "sem_list_ok (ss_sem s) (ss_waiters s)" "\<forall>t. sem_waiter_ok (ss_threads s t) (ss_waiters s t)"
    using assms(1) unfolding sem_inv_def by blast+
  from Sem_Wait_try_cases [OF assms(2)] show ?thesis
  proof
    assume A: "Some r = Some ORBIS_OK \<and> need \<le> token_count (ss_sem s) \<and> sem' = ss_sem s\<lparr>token_count := wrap32 (token_count (ss_sem s) - need)\<rparr>"
    have "wrap32 (token_count (ss_sem s) - need) = token_count (ss_sem s) - need"
      by (rule wrap32_exact) (use A assms(3) I(1) in \<open>auto simp: sem_counts_ok_def\<close>)
    then show ?thesis using A assms(3) I sem_list_ok_tokens [OF I(2), of "token_count (ss_sem s) - need"]
      by (simp add: sem_inv_def sem_counts_ok_def)
  next
    assume "token_count (ss_sem s) < need \<and> sem' = ss_sem s \<and> Some r \<noteq> Some ORBIS_OK"
    then show ?thesis using assms(1) by simp
  qed
qed

lemma wait_sleep_inv:
  assumes "sem_inv s" "ss_threads s t = Sem_Outside" "Sem_Wait_try can_block need timeout (ss_sem s) = (None, sem')"
    "ws' = (ss_waiters s)(t \<mapsto> WaitingThread_init need (is_fifo sem') prio name)"
  shows "sem_inv (s\<lparr>ss_sem := AddWaiter ws' t sem', ss_waiters := ws', ss_threads := (ss_threads s)(t := Sem_Asleep timeout)\<rparr>)" "sem' = ss_sem s"
proof -
  have I: "sem_counts_ok (ss_sem s)" "sem_list_ok (ss_sem s) (ss_waiters s)" "\<forall>t. sem_waiter_ok (ss_threads s t) (ss_waiters s t)"
    using assms(1) unfolding sem_inv_def by blast+
  from Sem_Wait_try_cases [OF assms(3)] have A: "token_count (ss_sem s) < need" "sem' = ss_sem s" by auto
  have none: "ss_waiters s t = None" using I(3) [rule_format, of t] assms(2) by (auto simp: sem_waiter_ok_def split: option.splits)
  have "sem_list_ok (AddWaiter ws' t sem') ws'" using AddWaiter_list_ok [OF I(2) none A(1)] assms(4) A(2) by simp
  moreover have "sem_counts_ok (AddWaiter ws' t sem')" using I(1) A(2) by (simp add: sem_counts_ok_def AddWaiter_list)
  ultimately show "sem_inv (s\<lparr>ss_sem := AddWaiter ws' t sem', ss_waiters := ws', ss_threads := (ss_threads s)(t := Sem_Asleep timeout)\<rparr>)"
    using I(3) assms(4) A(2)
    by (simp add: sem_inv_def AddWaiter_list) (auto simp: sem_waiter_ok_def WaitingThread_init_def resolved_def)
  show "sem' = ss_sem s" by (rule A(2))
qed

lemma wake_released_inv:
  assumes "sem_inv s" "ss_threads s t = Sem_Asleep timeout" "ss_waiters s t = Some x" "0 < wt_sem x"
  shows "sem_inv (s\<lparr>ss_waiters := (ss_waiters s)(t \<mapsto> x\<lparr>wt_sem := wt_sem x - 1\<rparr>), ss_threads := (ss_threads s)(t := Sem_Awake timeout)\<rparr>)"
proof -
  have I: "sem_counts_ok (ss_sem s)" "sem_list_ok (ss_sem s) (ss_waiters s)" "\<forall>t. sem_waiter_ok (ss_threads s t) (ss_waiters s t)"
    using assms(1) unfolding sem_inv_def by blast+
  note D = sem_list_okD [OF I(2)]
  have x: "wt_sem x = 1" "resolved x" using I(3) [rule_format, of t] assms(2-4) by (auto simp: sem_waiter_ok_def)
  have nt: "t \<notin> set (wait_list (ss_sem s))" using D(2) [of t] assms(3) x(2) by auto
  have "resolved (x\<lparr>wt_sem := wt_sem x - 1\<rparr>)" using x(2) by (simp add: resolved_def)
  moreover have "prio_sorted ((ss_waiters s)(t \<mapsto> x\<lparr>wt_sem := wt_sem x - 1\<rparr>)) (wait_list (ss_sem s))"
    by (rule sorted_wrt_mono_rel [OF _ D(4)]) (use nt in auto)
  ultimately have "sem_list_ok (ss_sem s) ((ss_waiters s)(t \<mapsto> x\<lparr>wt_sem := wt_sem x - 1\<rparr>))"
    using D(1-3,5) nt unfolding sem_list_ok_def by auto
  then show ?thesis using I(1,3) x by (simp add: sem_inv_def) (auto simp: sem_waiter_ok_def resolved_def)
qed

lemma Sem_Signal_inv:
  assumes "sem_inv s" "Sem_Signal n (ss_sem s) (ss_waiters s) = (ok, sem', ws')" "0 \<le> n" "token_count (ss_sem s) + n < 2147483648"
  shows "sem_inv (s\<lparr>ss_sem := sem', ss_waiters := ws'\<rparr>) \<and> max_count sem' = max_count (ss_sem s)"
proof -
  have I: "sem_counts_ok (ss_sem s)" "sem_list_ok (ss_sem s) (ss_waiters s)" using assms(1) unfolding sem_inv_def by blast+
  note S = Signal_spec [OF I assms(3,4,2)]
  show ?thesis
  proof (cases ok)
    case True
    then obtain t rest where t: "sem' = ss_sem s\<lparr>token_count := t, wait_list := rest\<rparr>"
      and sp: "signal_spec (ss_waiters s) (token_count (ss_sem s) + n) (wait_list (ss_sem s)) t rest ws'" using S(3) by blast
    have r: "rest = filter (\<lambda>p. p \<in> set rest) (wait_list (ss_sem s))"
      "ws' = (\<lambda>p. if p \<in> set (wait_list (ss_sem s)) - set rest then map_option release_signaled (ss_waiters s p) else ss_waiters s p)"
      "\<forall>p\<in>set rest. t < need_of (ss_waiters s) p" "0 \<le> t" "t \<le> token_count (ss_sem s) + n"
      using sp unfolding signal_spec_def by blast+
    have "sem_inv (s\<lparr>ss_sem := sem', ss_waiters := ws', ss_alive := ss_alive s\<rparr>)" unfolding t
      by (rule released_inv [OF assms(1) r(1,2) _ r(3,4)]) (use r(5) S(1) True in simp_all)
    then show ?thesis by (simp add: t)
  qed (use S(2) assms(1) in simp)
qed

lemma Sem_Cancel_inv:
  assumes "sem_inv s" "Sem_Cancel n (ss_sem s) (ss_waiters s) = (k, sem', ws')" "n \<le> max_count (ss_sem s)"
  shows "sem_inv (s\<lparr>ss_sem := sem', ss_waiters := ws'\<rparr>) \<and> max_count sem' = max_count (ss_sem s)"
proof -
  have e: "ws' = (\<lambda>p. if p \<in> set (wait_list (ss_sem s)) - set [] then map_option (\<lambda>w. w\<lparr>wt_was_canceled := True, wt_sem := wt_sem w + 1\<rparr>) (ss_waiters s p) else ss_waiters s p)"
    using assms(2) cancel_loop_eq [OF sem_invD(4) [OF assms(1)], of "ss_waiters s"] by (auto simp: Sem_Cancel_def)
  have s': "sem' = ss_sem s\<lparr>token_count := (if n < 0 then init_count (ss_sem s) else n), wait_list := []\<rparr>" using assms(2) by (auto simp: Sem_Cancel_def)
  have "sem_inv (s\<lparr>ss_sem := sem', ss_waiters := ws', ss_alive := ss_alive s\<rparr>)" unfolding s'
    by (rule released_inv [OF assms(1) _ e]) (use assms(1,3) in \<open>auto simp: resolved_def sem_inv_def sem_counts_ok_def\<close>)
  then show ?thesis by (simp add: s')
qed

lemma Sem_Delete_inv:
  assumes "sem_inv s" "Sem_Delete (ss_sem s) (ss_waiters s) = (sem', ws')"
  shows "sem_inv (s\<lparr>ss_sem := sem', ss_waiters := ws', ss_alive := False\<rparr>) \<and> max_count sem' = max_count (ss_sem s)"
proof -
  have e: "ws' = (\<lambda>p. if p \<in> set (wait_list (ss_sem s)) - set [] then map_option (\<lambda>w. w\<lparr>wt_was_deleted := True, wt_sem := wt_sem w + 1\<rparr>) (ss_waiters s p) else ss_waiters s p)"
    using assms(2) delete_loop_eq [OF sem_invD(4) [OF assms(1)], of "ss_waiters s"] by (auto simp: Sem_Delete_def)
  have s': "sem' = ss_sem s\<lparr>token_count := token_count (ss_sem s), wait_list := []\<rparr>" using assms(2) by (auto simp: Sem_Delete_def)
  have "sem_inv (s\<lparr>ss_sem := sem', ss_waiters := ws', ss_alive := False\<rparr>)" unfolding s'
    by (rule released_inv [OF assms(1) _ e]) (use assms(1) in \<open>auto simp: resolved_def sem_inv_def sem_counts_ok_def\<close>)
  then show ?thesis by (simp add: s')
qed

lemma finish_inv:
  assumes "sem_inv s" "ss_waiters s t = Some w" "Sem_Wait_finish t w timeout time (ss_sem s) = (r, timeout', sem')"
  shows "sem_inv (s\<lparr>ss_sem := sem', ss_waiters := (ss_waiters s)(t := None), ss_threads := (ss_threads s)(t := Sem_Outside)\<rparr>)
    \<and> max_count sem' = max_count (ss_sem s)"
proof -
  have I: "sem_counts_ok (ss_sem s)" "sem_list_ok (ss_sem s) (ss_waiters s)" "\<forall>t. sem_waiter_ok (ss_threads s t) (ss_waiters s t)"
    using assms(1) unfolding sem_inv_def by blast+
  have "sem_list_ok sem' ((ss_waiters s)(t := None))" by (rule finish_list_ok [OF I(2) assms(2,3)])
  moreover have "sem_counts_ok sem' \<and> max_count sem' = max_count (ss_sem s)"
    using I(1) assms(3) by (auto simp: sem_counts_ok_def Sem_Wait_finish_def Let_def split: if_splits)
  ultimately show ?thesis using I(3) by (simp add: sem_inv_def) (simp add: sem_waiter_ok_def)
qed

lemma sem_step_inv:
  assumes "sem_inv s" "sem_step_ok s e s'"
  shows "sem_inv s' \<and> max_count (ss_sem s') = max_count (ss_sem s)"
proof -
  have step: "sem_step s e s'" and call: "sem_call_ok (ss_sem s) e" using assms(2) by (auto simp: sem_step_ok_def)
  from step show ?thesis
  proof (cases rule: sem_step.cases)
    case (wait_now t can_block need timeout r sem')
    then show ?thesis using wait_now_inv [OF assms(1) wait_now(5)] Sem_Wait_try_cases [OF wait_now(5)] call by auto
  next
    case (wait_sleep t can_block need timeout sem' ws' prio name)
    then show ?thesis using wait_sleep_inv [OF assms(1) wait_sleep(4-6)] by (simp add: AddWaiter_list)
  next
    case (wake_released t timeout x)
    then show ?thesis using wake_released_inv [OF assms(1) wake_released(3-5)] by simp
  next
    case (wake_timeout t us)
    have w: "sem_waiter_ok (Sem_Asleep (Some us)) (ss_waiters s t)" using sem_invD(8) [OF assms(1), of t] wake_timeout(3) by simp
    show ?thesis using assms(1) w by (simp add: wake_timeout(2) sem_inv_def) (auto simp: sem_waiter_ok_def split: option.splits)
  next
    case (finish t timeout x time r timeout' sem')
    then show ?thesis using finish_inv [OF assms(1) finish(5,6)] by simp
  next
    case (signal n ok sem' ws')
    then show ?thesis using Sem_Signal_inv [OF assms(1) signal(4)] call by simp
  next
    case (cancel n k sem' ws')
    then show ?thesis using Sem_Cancel_inv [OF assms(1) cancel(4)] call by simp
  next
    case (delete sem' ws')
    then show ?thesis using Sem_Delete_inv [OF assms(1) delete(4)] by simp
  qed
qed

lemma sem_init_inv: "sem_init initCount maxCount name fifo s \<Longrightarrow> sem_inv s"
  by (auto simp: sem_init_def sem_inv_def sem_counts_ok_def sem_list_ok_def sem_waiter_ok_def OrbisSem_init_def)

interpretation sem: invariant_system "sem_init initCount maxCount name fifo" sem_step_ok sem_inv for initCount maxCount name fifo
  by unfold_locales (fact sem_init_inv, use sem_step_inv in blast)

end
