(* ===== verification/Semaphore_Correct.thy ===== *)
theory Semaphore_Correct
  imports Semaphore_Invariant
begin

text \<open>
  Kernel semaphores: the accounting of tokens, the properties of the reachable states and of the handles, and what the code does not protect against.
\<close>

section \<open>Accounting\<close>

text \<open>Tokens that come in with a signal, and tokens that leave with a wait that returns \<open>OK\<close>; tokens handed to a waiter that has not returned yet are pending.\<close>

fun tokens_in :: "sem_event \<Rightarrow> s32" where
  "tokens_in (Ev_Signal n ok) = (if ok then n else 0)"
| "tokens_in e = 0"

fun tokens_out :: "sem_event \<Rightarrow> s32" where
  "tokens_out (Ev_Now t need r) = (if r = ORBIS_OK then need else 0)"
| "tokens_out (Ev_Finish t need r) = (if r = ORBIS_OK then need else 0)"
| "tokens_out e = 0"

fun is_cancel :: "sem_event \<Rightarrow> bool" where
  "is_cancel (Ev_Cancel n) = True"
| "is_cancel e = False"

definition signaled :: "waiters \<Rightarrow> nat set" where
  "signaled ws = {t. \<exists>w. ws t = Some w \<and> wt_was_signaled w}"

definition pending :: "waiters \<Rightarrow> s32" where
  "pending ws = (\<Sum>t\<in>signaled ws. need_of ws t)"

lemma signaled_finite: "finite (dom ws) \<Longrightarrow> finite (signaled ws)"
  by (rule finite_subset [of _ "dom ws"]) (auto simp: signaled_def)

lemma pending_cong:
  assumes "\<And>t. (\<exists>w. ws' t = Some w \<and> wt_was_signaled w) \<longleftrightarrow> (\<exists>w. ws t = Some w \<and> wt_was_signaled w)"
    "\<And>t w. ws t = Some w \<Longrightarrow> wt_was_signaled w \<Longrightarrow> need_of ws' t = wt_need_count w"
  shows "pending ws' = pending ws"
proof -
  have "signaled ws' = signaled ws" using assms(1) by (auto simp: signaled_def)
  then show ?thesis unfolding pending_def by (intro sum.cong) (auto simp: signaled_def assms(2))
qed

lemma pending_upd_unsignaled:
  assumes "\<not> wt_was_signaled w" "\<forall>v. ws t = Some v \<longrightarrow> \<not> wt_was_signaled v"
  shows "pending (ws(t \<mapsto> w)) = pending ws"
  by (rule pending_cong) (use assms in \<open>auto split: if_splits\<close>)

lemma pending_upd_same:
  assumes "ws t = Some w" "wt_was_signaled w' = wt_was_signaled w" "wt_need_count w' = wt_need_count w"
  shows "pending (ws(t \<mapsto> w')) = pending ws"
  by (rule pending_cong) (use assms in \<open>auto split: if_splits\<close>)

lemma pending_remove:
  assumes "finite (dom ws)" "ws t = Some w"
  shows "pending ws = pending (ws(t := None)) + (if wt_was_signaled w then wt_need_count w else 0)"
proof -
  have s: "signaled (ws(t := None)) = signaled ws - {t}" by (auto simp: signaled_def)
  have e: "pending (ws(t := None)) = (\<Sum>u\<in>signaled ws - {t}. need_of ws u)" unfolding pending_def s by (rule sum.cong) auto
  show ?thesis
  proof (cases "t \<in> signaled ws")
    case True
    then have "wt_was_signaled w" using assms(2) by (simp add: signaled_def)
    then show ?thesis using sum.remove [OF signaled_finite [OF assms(1)] True, of "need_of ws"] assms(2) unfolding e pending_def [of ws] by simp
  next
    case False
    then have "\<not> wt_was_signaled w" using assms(2) by (simp add: signaled_def)
    then show ?thesis using False unfolding e pending_def [of ws] by simp
  qed
qed

lemma pending_release:
  assumes "finite (dom ws)" "distinct ps" "\<forall>p\<in>set ps. \<exists>w. ws p = Some w \<and> \<not> wt_was_signaled w"
    "ws' = (\<lambda>p. if p \<in> set ps then map_option release_signaled (ws p) else ws p)"
  shows "pending ws' = pending ws + (\<Sum>p\<leftarrow>ps. need_of ws p)"
proof -
  have s: "signaled ws' = signaled ws \<union> set ps" "signaled ws \<inter> set ps = {}" using assms(3) by (fastforce simp: signaled_def assms(4))+
  have n: "need_of ws' p = need_of ws p" for p by (simp add: assms(4) waiter_def split: option.splits)
  have "pending ws' = (\<Sum>p\<in>signaled ws. need_of ws p) + (\<Sum>p\<in>set ps. need_of ws p)"
    unfolding pending_def s(1) n by (rule sum.union_disjoint) (use signaled_finite [OF assms(1)] s(2) in auto)
  then show ?thesis using assms(2) by (simp add: pending_def sum_list_distinct_conv_sum_set)
qed

lemma GetResult_OK: "GetResult w = ORBIS_OK \<longleftrightarrow> wt_was_signaled w"
  by (auto simp: GetResult_def orbis_errors)

lemma Signal_accounting:
  assumes "sem_inv s" "finite (dom (ss_waiters s))" "Sem_Signal n (ss_sem s) (ss_waiters s) = (ok, sem', ws')" "0 \<le> n" "token_count (ss_sem s) + n < 2147483648"
  shows "token_count sem' + pending ws' = token_count (ss_sem s) + (if ok then n else 0) + pending (ss_waiters s) \<and> dom ws' = dom (ss_waiters s)"
proof -
  have I: "sem_counts_ok (ss_sem s)" "sem_list_ok (ss_sem s) (ss_waiters s)" using assms(1) unfolding sem_inv_def by blast+
  note S = Signal_spec [OF I assms(4,5,3)]
  show ?thesis
  proof (cases ok)
    case True
    let ?ps = "wait_list (ss_sem s)"
    obtain t rest where t: "sem' = ss_sem s\<lparr>token_count := t, wait_list := rest\<rparr>"
      and sp: "signal_spec (ss_waiters s) (token_count (ss_sem s) + n) ?ps t rest ws'" using S(3) [OF True] by blast
    let ?rel = "filter (\<lambda>p. p \<notin> set rest) ?ps"
    have r: "ws' = (\<lambda>p. if p \<in> set ?rel then map_option release_signaled (ss_waiters s p) else ss_waiters s p)"
      "t + (\<Sum>p\<leftarrow>?rel. need_of (ss_waiters s) p) = token_count (ss_sem s) + n" using sp by (auto simp: signal_spec_def)
    have "\<forall>p\<in>set ?rel. \<exists>w. ss_waiters s p = Some w \<and> \<not> wt_was_signaled w"
      using sem_invD(5) [OF assms(1)] by (auto simp: resolved_def)
    from pending_release [OF assms(2) _ this r(1)] have "pending ws' = pending (ss_waiters s) + (\<Sum>p\<leftarrow>?rel. need_of (ss_waiters s) p)"
      using sem_invD(4) [OF assms(1)] by simp
    moreover have "dom ws' = dom (ss_waiters s)" by (auto simp: r(1) split: if_splits)
    ultimately show ?thesis using r(2) True by (simp add: t)
  qed (use S(2) in simp)
qed

lemma sem_step_accounting:
  assumes "sem_inv s" "finite (dom (ss_waiters s))" "sem_step_ok s e s'" "\<not> is_cancel e"
  shows "token_count (ss_sem s') + pending (ss_waiters s') + tokens_out e = token_count (ss_sem s) + pending (ss_waiters s) + tokens_in e
    \<and> finite (dom (ss_waiters s'))"
proof -
  have step: "sem_step s e s'" and call: "sem_call_ok (ss_sem s) e" using assms(3) by (auto simp: sem_step_ok_def)
  from step show ?thesis
  proof (cases rule: sem_step.cases)
    case (wait_now t can_block need timeout r sem')
    have n: "0 \<le> need" using call wait_now(1) by simp
    have "wrap32 (token_count (ss_sem s) - need) = token_count (ss_sem s) - need" if "need \<le> token_count (ss_sem s)"
      by (rule wrap32_exact) (use that n sem_invD(2,3) [OF assms(1)] in auto)
    then show ?thesis using Sem_Wait_try_cases [OF wait_now(5)] assms(2) by (auto simp: wait_now(1,2))
  next
    case (wait_sleep t can_block need timeout sem' ws' prio name)
    have none: "ss_waiters s t = None" using sem_invD(8) [OF assms(1), of t] wait_sleep(4) by (auto simp: sem_waiter_ok_def split: option.splits)
    have "pending ws' = pending (ss_waiters s)" unfolding wait_sleep(6)
      by (rule pending_upd_unsignaled) (use none in \<open>auto simp: WaitingThread_init_def\<close>)
    then show ?thesis using Sem_Wait_try_cases [OF wait_sleep(5)] assms(2) by (auto simp: wait_sleep(1,2,6) AddWaiter_list)
  next
    case (wake_released t timeout x)
    have "pending ((ss_waiters s)(t \<mapsto> x\<lparr>wt_sem := wt_sem x - 1\<rparr>)) = pending (ss_waiters s)"
      by (rule pending_upd_same [of _ _ x]) (simp_all add: wake_released(4))
    then show ?thesis using assms(2) by (simp add: wake_released(1,2))
  next
    case (wake_timeout t us)
    then show ?thesis using assms(2) by simp
  next
    case (finish t timeout x time r timeout' sem')
    have "token_count sem' = token_count (ss_sem s)" "r = GetResult x" using finish(6) by (auto simp: Sem_Wait_finish_def Let_def split: if_splits)
    then show ?thesis using pending_remove [OF assms(2) finish(5)] assms(2) by (simp add: finish(1,2) GetResult_OK)
  next
    case (signal n ok sem' ws')
    have n: "0 \<le> n" "token_count (ss_sem s) + n < 2147483648" using call signal(1) by auto
    show ?thesis using Signal_accounting [OF assms(1,2) signal(4) n] assms(2) by (simp add: signal(1,2))
  next
    case (cancel n k sem' ws')
    then show ?thesis using assms(4) by simp
  next
    case (delete sem' ws')
    have e: "ws' = (\<lambda>p. if p \<in> set (wait_list (ss_sem s)) then map_option (\<lambda>w. w\<lparr>wt_was_deleted := True, wt_sem := wt_sem w + 1\<rparr>) (ss_waiters s p) else ss_waiters s p)"
      using delete(4) delete_loop_eq [OF sem_invD(4) [OF assms(1)], of "ss_waiters s"] by (auto simp: Sem_Delete_def)
    have "pending ws' = pending (ss_waiters s)" by (rule pending_cong) (auto simp: e waiter_def split: if_splits)
    moreover have "dom ws' = dom (ss_waiters s)" by (auto simp: e split: if_splits)
    ultimately show ?thesis using delete(4) assms(2) by (auto simp: delete(1,2) Sem_Delete_def)
  qed
qed

lemma sem_run_accounting:
  assumes "steps sem_step_ok s es s'" "sem_inv s" "finite (dom (ss_waiters s))" "\<forall>e\<in>set es. \<not> is_cancel e"
  shows "token_count (ss_sem s') + pending (ss_waiters s') + (\<Sum>e\<leftarrow>es. tokens_out e)
    = token_count (ss_sem s) + pending (ss_waiters s) + (\<Sum>e\<leftarrow>es. tokens_in e)"
  using assms
proof (induction rule: steps.induct)
  case (steps_cons s e s1 es s2)
  have "sem_inv s1" using sem_step_inv [OF steps_cons.prems(1) steps_cons.hyps(1)] by blast
  moreover note A = sem_step_accounting [OF steps_cons.prems(1,2) steps_cons.hyps(1)]
  ultimately show ?case using steps_cons.IH steps_cons.prems(3) by simp
qed simp

section \<open>Properties\<close>

text \<open>A semaphore with one token on which thread 7 sleeps, which needs two.\<close>

definition sem_demo_start :: sem_system where
  "sem_demo_start = \<lparr>ss_sem = OrbisSem_init 1 4 ''sem'' False, ss_waiters = (\<lambda>_. None), ss_threads = (\<lambda>_. Sem_Outside), ss_alive = True\<rparr>"

definition sem_demo :: sem_system where
  "sem_demo = (let ws = [7 \<mapsto> WaitingThread_init 2 False 700 ''t''] in
     sem_demo_start\<lparr>ss_sem := AddWaiter ws 7 (ss_sem sem_demo_start), ss_waiters := ws, ss_threads := (\<lambda>_. Sem_Outside)(7 := Sem_Asleep None)\<rparr>)"

lemma sem_demo_start_reach: "reach (sem_init 1 4 ''sem'' False) sem_step_ok sem_demo_start"
  by (rule reach_init) (simp add: sem_init_def sem_demo_start_def)

lemma sem_demo_reach: "reach (sem_init 1 4 ''sem'' False) sem_step_ok sem_demo"
proof (rule reach_step [OF sem_demo_start_reach])
  define ws where "ws = (ss_waiters sem_demo_start)(7 \<mapsto> WaitingThread_init 2 False 700 ''t'')"
  have "sem_step sem_demo_start (Ev_Sleep 7 2) (sem_demo_start\<lparr>ss_sem := AddWaiter ws 7 (ss_sem sem_demo_start), ss_waiters := ws,
      ss_threads := (ss_threads sem_demo_start)(7 := Sem_Asleep None)\<rparr>)"
    by (rule sem_step.wait_sleep [where can_block = True]) (simp_all add: sem_demo_start_def ws_def Sem_Wait_try_def OrbisSem_init_def)
  then show "sem_step_ok sem_demo_start (Ev_Sleep 7 2) sem_demo"
    by (simp add: sem_step_ok_def sem_demo_def ws_def Let_def) (simp add: sem_demo_start_def)
qed

lemma sem_demo_facts:
  "wait_list (ss_sem sem_demo) = [7]" "ss_alive sem_demo" "ss_threads sem_demo 7 = Sem_Asleep None" "need_of (ss_waiters sem_demo) 7 = 2"
  "token_count (ss_sem sem_demo) = 1" "max_count (ss_sem sem_demo) = 4"
  by (simp_all add: sem_demo_def sem_demo_start_def AddWaiter_def OrbisSem_init_def WaitingThread_init_def)

text \<open>
  C16. A semaphore used by any number of threads in any interleaving, with counts in range, is always consistent: the token count stays
  between 0 and the maximum; the wait list holds, once each and in order of priority, exactly the waiters without a result, all of them live objects of
  threads inside \<open>Wait\<close> (so no pointer of the list dangles and a timed-out waiter that removes itself is in the list);
  no waiter in the list could be served with the tokens there are; and a sleeping waiter with a result has its wake-up.
\<close>

theorem semaphore_invariant:
  assumes "reach (sem_init initCount maxCount name fifo) sem_step_ok s"
  shows "0 \<le> token_count (ss_sem s) \<and> token_count (ss_sem s) \<le> max_count (ss_sem s)
    \<and> distinct (wait_list (ss_sem s)) \<and> prio_sorted (ss_waiters s) (wait_list (ss_sem s))
    \<and> (t \<in> set (wait_list (ss_sem s)) \<longleftrightarrow> (\<exists>w. ss_waiters s t = Some w \<and> GetResult w = ORBIS_KERNEL_ERROR_ETIMEDOUT))
    \<and> (t \<in> set (wait_list (ss_sem s)) \<longrightarrow> ss_threads s t \<noteq> Sem_Outside \<and> token_count (ss_sem s) < need_of (ss_waiters s) t)
    \<and> (\<forall>us w. ss_threads s t = Sem_Asleep us \<and> ss_waiters s t = Some w \<and> GetResult w \<noteq> ORBIS_KERNEL_ERROR_ETIMEDOUT \<longrightarrow> wt_sem w = 1)"
proof -
  have inv: "sem_inv s" by (rule sem.reach_inv [OF assms])
  have res: "GetResult w = ORBIS_KERNEL_ERROR_ETIMEDOUT \<longleftrightarrow> \<not> resolved w" for w by (auto simp: GetResult_def resolved_def orbis_errors)
  have "t \<in> set (wait_list (ss_sem s)) \<Longrightarrow> ss_threads s t \<noteq> Sem_Outside"
    using sem_invD(5,8) [OF inv, of t] by (auto simp: sem_waiter_ok_def)
  moreover have "wt_sem w = 1" if "ss_threads s t = Sem_Asleep us" "ss_waiters s t = Some w" "resolved w" for us w
    using sem_invD(8) [OF inv, of t] that by (simp add: sem_waiter_ok_def)
  ultimately show ?thesis using sem_invD(1,2,4,5,6,7) [OF inv] by (simp add: res)
qed

theorem semaphore_invariant_witness:
  "reach (sem_init 1 4 ''sem'' False) sem_step_ok sem_demo \<and> wait_list (ss_sem sem_demo) = [7]
     \<and> token_count (ss_sem sem_demo) < need_of (ss_waiters sem_demo) 7"
  using semaphore_invariant [OF sem_demo_reach, of 7] sem_demo_reach by (simp add: sem_demo_facts)

text \<open>
  C17. What \<open>Signal\<close> does in every state that is reached with counts in range, for a count that is not negative and does not make the sum with
  the tokens overflow (neither is checked by the code, and \<open>signal_overflow\<close> below shows what happens then): it fails and changes nothing exactly when the tokens would pass the maximum; otherwise the tokens it
  adds are split without loss between the count and the waiters it releases, which are marked signaled and woken once each;
  the others stay in their order, none of them servable with what is left, and the first waiter of the list is served whenever the
  tokens suffice for it.
\<close>

theorem semaphore_signal_correct:
  assumes "reach (sem_init initCount maxCount name fifo) sem_step_ok s" "0 \<le> n" "token_count (ss_sem s) + n < 2147483648"
    "Sem_Signal n (ss_sem s) (ss_waiters s) = (ok, sem', ws')"
  shows "(ok \<longleftrightarrow> token_count (ss_sem s) + n \<le> max_count (ss_sem s)) \<and> (\<not> ok \<longrightarrow> sem' = ss_sem s \<and> ws' = ss_waiters s)
    \<and> (ok \<longrightarrow>
        token_count sem' + (\<Sum>p \<leftarrow> filter (\<lambda>p. p \<notin> set (wait_list sem')) (wait_list (ss_sem s)). need_of (ss_waiters s) p) = token_count (ss_sem s) + n
      \<and> wait_list sem' = filter (\<lambda>p. p \<in> set (wait_list sem')) (wait_list (ss_sem s))
      \<and> (\<forall>p. p \<in> set (wait_list (ss_sem s)) \<and> p \<notin> set (wait_list sem') \<longrightarrow> GetResult (waiter ws' p) = ORBIS_OK \<and> wt_sem (waiter ws' p) = 1)
      \<and> (\<forall>p\<in>set (wait_list sem'). token_count sem' < need_of (ss_waiters s) p)
      \<and> (\<forall>p ps. wait_list (ss_sem s) = p # ps \<and> need_of (ss_waiters s) p \<le> token_count (ss_sem s) + n \<longrightarrow> p \<notin> set (wait_list sem')))"
proof -
  have inv: "sem_inv s" by (rule sem.reach_inv [OF assms(1)])
  then have I: "sem_counts_ok (ss_sem s)" "sem_list_ok (ss_sem s) (ss_waiters s)" unfolding sem_inv_def by blast+
  note S = Signal_spec [OF I assms(2-4)]
  show ?thesis
  proof (cases ok)
    case True
    then obtain t rest where t: "sem' = ss_sem s\<lparr>token_count := t, wait_list := rest\<rparr>"
      and sp: "signal_spec (ss_waiters s) (token_count (ss_sem s) + n) (wait_list (ss_sem s)) t rest ws'" using S(3) by blast
    have rel: "GetResult (waiter ws' p) = ORBIS_OK \<and> wt_sem (waiter ws' p) = 1" if p: "p \<in> set (wait_list (ss_sem s))" "p \<notin> set rest" for p
    proof -
      obtain w where w: "ss_waiters s p = Some w" "\<not> resolved w" using sem_invD(5) [OF inv] p(1) by blast
      then have "wt_sem w = 0" using sem_invD(8) [OF inv, of p] by (simp add: sem_waiter_ok_def)
      moreover have "ws' p = Some (release_signaled w)" using sp p w(1) by (simp add: signal_spec_def)
      ultimately show ?thesis by (simp add: GetResult_OK)
    qed
    have wr: "wait_list sem' = rest" "token_count sem' = t" by (simp_all add: t)
    show ?thesis using S(1) sp rel True unfolding wr signal_spec_def by blast
  qed (use S in blast)
qed

theorem semaphore_signal_correct_witness:
  "\<exists>sem' ws'. wait_list (ss_sem sem_demo) = [7] \<and> Sem_Signal 2 (ss_sem sem_demo) (ss_waiters sem_demo) = (True, sem', ws')
     \<and> wait_list sem' = [] \<and> token_count sem' = 1 \<and> GetResult (waiter ws' 7) = ORBIS_OK \<and> wt_sem (waiter ws' 7) = 1"
proof -
  obtain ok sem' ws' where S: "Sem_Signal 2 (ss_sem sem_demo) (ss_waiters sem_demo) = (ok, sem', ws')" by (metis prod_cases3)
  have P: "(0::int) \<le> 2" "token_count (ss_sem sem_demo) + 2 < 2147483648" by (simp_all add: sem_demo_facts)
  note T = semaphore_signal_correct [OF sem_demo_reach P S]
  have ok using conjunct1 [OF T] by (simp add: sem_demo_facts)
  have "\<forall>p ps. wait_list (ss_sem sem_demo) = p # ps \<and> need_of (ss_waiters sem_demo) p \<le> token_count (ss_sem sem_demo) + 2 \<longrightarrow> p \<notin> set (wait_list sem')"
    and f: "wait_list sem' = filter (\<lambda>p. p \<in> set (wait_list sem')) (wait_list (ss_sem sem_demo))"
    and r: "\<forall>p. p \<in> set (wait_list (ss_sem sem_demo)) \<and> p \<notin> set (wait_list sem') \<longrightarrow> GetResult (waiter ws' p) = ORBIS_OK \<and> wt_sem (waiter ws' p) = 1"
    and s: "token_count sem' + (\<Sum>p \<leftarrow> filter (\<lambda>p. p \<notin> set (wait_list sem')) (wait_list (ss_sem sem_demo)). need_of (ss_waiters sem_demo) p)
      = token_count (ss_sem sem_demo) + 2"
    using T \<open>ok\<close> by blast+
  then have n: "7 \<notin> set (wait_list sem')" by (simp add: sem_demo_facts)
  have "wait_list sem' = []" using f n by (metis (no_types, lifting) filter.simps sem_demo_facts(1))
  with r s \<open>ok\<close> S show ?thesis by (simp add: sem_demo_facts)
qed

text \<open>
  C18. No token is lost or created: along any run without a cancellation in which no wait and no signal has a negative count and no signal makes
  the sum with the tokens overflow, the initial tokens and those of the successful signals are the
  tokens that are left, those of the waits that returned \<open>OK\<close>, and those already granted to waiters that have not returned yet. In
  particular a waiter that is signaled after its timeout ran out still returns \<open>OK\<close> with its tokens.  The code does not check the
  counts, and the two excluded kinds of calls do create tokens (\<open>negative_need\<close>, \<open>signal_overflow\<close>).
\<close>

theorem semaphore_token_conservation:
  assumes "sem_init initCount maxCount name fifo s" "steps sem_step_ok s es s'" "\<forall>e\<in>set es. \<not> is_cancel e"
  shows "initCount + (\<Sum>e\<leftarrow>es. tokens_in e) = token_count (ss_sem s') + pending (ss_waiters s') + (\<Sum>e\<leftarrow>es. tokens_out e)"
proof -
  have f: "token_count (ss_sem s) = initCount" "ss_waiters s = (\<lambda>_. None)" using assms(1) by (auto simp: sem_init_def OrbisSem_init_def)
  then have "pending (ss_waiters s) = 0" by (simp add: pending_def signaled_def)
  then show ?thesis using sem_run_accounting [OF assms(2) sem_init_inv [OF assms(1)] _ assms(3)] f by simp
qed

theorem semaphore_token_conservation_witness:
  "\<exists>s s'. steps sem_step_ok s [Ev_Now 3 2 ORBIS_OK, Ev_Signal 1 True] s' \<and> token_count (ss_sem s') + pending (ss_waiters s') = 1"
proof -
  define s where "s = \<lparr>ss_sem = OrbisSem_init 2 4 ''sem'' True, ss_waiters = (\<lambda>_. None), ss_threads = (\<lambda>_. Sem_Outside), ss_alive = True\<rparr>"
  define s1 where "s1 = s\<lparr>ss_sem := ss_sem s\<lparr>token_count := 0\<rparr>\<rparr>"
  define s2 where "s2 = s1\<lparr>ss_sem := ss_sem s1\<lparr>token_count := 1\<rparr>, ss_waiters := ss_waiters s1\<rparr>"
  have "sem_step s (Ev_Now 3 2 ORBIS_OK) s1" unfolding s1_def
    by (rule sem_step.wait_now [where can_block = True and timeout = None]) (simp_all add: s_def Sem_Wait_try_def OrbisSem_init_def wrap32_def)
  moreover have "sem_step s1 (Ev_Signal 1 True) s2" unfolding s2_def
    by (rule sem_step.signal) (simp_all add: s1_def s_def Sem_Signal_def OrbisSem_init_def wrap32_def)
  ultimately have st: "steps sem_step_ok s [Ev_Now 3 2 ORBIS_OK, Ev_Signal 1 True] s2"
    by (auto simp: sem_step_ok_def s1_def s_def OrbisSem_init_def)
  have "sem_init 2 4 ''sem'' True s" by (simp add: sem_init_def s_def)
  from semaphore_token_conservation [OF this st] show ?thesis using st by auto
qed

text \<open>
  C19. A waiter is not forgotten: in a state reached with counts in range, when a thread sleeps at the head of the list of a semaphore that is not deleted and a signal, with a count that
  is not negative, brings enough tokens for it without passing the maximum, the signal succeeds, and then
  the thread's own two steps, waking up and taking the mutex, are enabled and return \<open>OK\<close>.  (A signal that would pass the maximum fails even
  when a waiter could take the tokens at once.)
\<close>

theorem semaphore_signal_wakes:
  assumes "reach (sem_init initCount maxCount name fifo) sem_step_ok s" "ss_alive s" "wait_list (ss_sem s) = t # ts" "ss_threads s t = Sem_Asleep timeout"
    "need_of (ss_waiters s) t \<le> token_count (ss_sem s) + n" "0 \<le> n" "token_count (ss_sem s) + n \<le> max_count (ss_sem s)"
  shows "\<exists>s'. steps sem_step s [Ev_Signal n True, Ev_Wake t, Ev_Finish t (need_of (ss_waiters s) t) ORBIS_OK] s' \<and> ss_threads s' t = Sem_Outside
    \<and> ss_waiters s' t = None \<and> t \<notin> set (wait_list (ss_sem s'))"
proof -
  have inv: "sem_inv s" by (rule sem.reach_inv [OF assms(1)])
  then have I: "sem_counts_ok (ss_sem s)" "sem_list_ok (ss_sem s) (ss_waiters s)" unfolding sem_inv_def by blast+
  obtain ok sem1 ws1 where S: "Sem_Signal n (ss_sem s) (ss_waiters s) = (ok, sem1, ws1)" by (metis prod_cases3)
  have lim: "token_count (ss_sem s) + n < 2147483648" using assms(7) sem_invD(3) [OF inv] by simp
  note sig = Signal_spec [OF I assms(6) lim S]
  have ok: ok using sig(1) assms(7) by simp
  obtain k rest where k: "sem1 = ss_sem s\<lparr>token_count := k, wait_list := rest\<rparr>"
    and sp: "signal_spec (ss_waiters s) (token_count (ss_sem s) + n) (wait_list (ss_sem s)) k rest ws1" using sig(3) [OF ok] by blast
  have tr: "t \<notin> set rest" using sp assms(3,5) unfolding signal_spec_def by blast
  obtain w where w: "ss_waiters s t = Some w" "\<not> resolved w" using sem_invD(5) [OF inv, of t] assms(3) by auto
  have w1: "ws1 t = Some (release_signaled w)" using sp tr assms(3) w(1) unfolding signal_spec_def by auto
  define s1 where "s1 = s\<lparr>ss_sem := sem1, ss_waiters := ws1\<rparr>"
  define w2 where "w2 = (release_signaled w)\<lparr>wt_sem := wt_sem (release_signaled w) - 1\<rparr>"
  define s2 where "s2 = s1\<lparr>ss_waiters := (ss_waiters s1)(t \<mapsto> w2), ss_threads := (ss_threads s1)(t := Sem_Awake timeout)\<rparr>"
  obtain r timeout' sem3 where F: "Sem_Wait_finish t w2 timeout 0 (ss_sem s2) = (r, timeout', sem3)" by (metis prod_cases3)
  define s3 where "s3 = s2\<lparr>ss_sem := sem3, ss_waiters := (ss_waiters s2)(t := None), ss_threads := (ss_threads s2)(t := Sem_Outside)\<rparr>"
  have st1: "sem_step s (Ev_Signal n True) s1" unfolding s1_def using sem_step.signal [OF assms(2) S] ok by simp
  have st2: "sem_step s1 (Ev_Wake t) s2" unfolding s2_def w2_def
    by (rule sem_step.wake_released) (simp_all add: s1_def assms(4) w1)
  have r: "r = ORBIS_OK" "sem3 = ss_sem s2"
    using F by (auto simp: Sem_Wait_finish_def Let_def GetResult_def w2_def release_signaled_def orbis_errors split: if_splits)
  have st3: "sem_step s2 (Ev_Finish t (wt_need_count w2) r) s3" unfolding s3_def
    by (rule sem_step.finish [OF _ _ _ F]) (simp_all add: s2_def s1_def assms(2))
  have n: "wt_need_count w2 = need_of (ss_waiters s) t" using w(1) by (simp add: w2_def)
  have l3: "wait_list (ss_sem s3) = rest" by (simp add: s3_def r(2) s2_def s1_def k)
  have "steps sem_step s [Ev_Signal n True, Ev_Wake t, Ev_Finish t (need_of (ss_waiters s) t) ORBIS_OK] s3"
    using st1 st2 st3 unfolding n r(1) by auto
  moreover have "ss_threads s3 t = Sem_Outside" "ss_waiters s3 t = None" by (simp_all add: s3_def)
  ultimately show ?thesis using tr l3 by blast
qed

theorem semaphore_signal_wakes_witness:
  "\<exists>s'. wait_list (ss_sem sem_demo) = [7] \<and> steps sem_step sem_demo [Ev_Signal 1 True, Ev_Wake 7, Ev_Finish 7 2 ORBIS_OK] s' \<and> ss_threads s' 7 = Sem_Outside"
  using semaphore_signal_wakes [OF sem_demo_reach sem_demo_facts(2,1,3), of 1] by (auto simp: sem_demo_facts)

text \<open>A signal of two tokens to a waiter that needs four of four, when three are there, fails.\<close>

lemma signal_past_maximum:
  "Sem_Signal 2 (OrbisSem_init 3 4 ''sem'' True\<lparr>wait_list := [7]\<rparr>) [7 \<mapsto> WaitingThread_init 4 True 700 ''t''] =
     (False, OrbisSem_init 3 4 ''sem'' True\<lparr>wait_list := [7]\<rparr>, [7 \<mapsto> WaitingThread_init 4 True 700 ''t''])"
  by (simp add: Sem_Signal_def OrbisSem_init_def wrap32_def)

section \<open>The table of semaphores\<close>

text \<open>
  C39. Handles: a creation with valid arguments returns a handle that no live semaphore has and leaves the others as they are; a call with a handle that is not in
  use fails with \<open>ESRCH\<close> if the bit set of the table has a word for it, and reads past the bit set, with no defined result, if not: the handle of the
  guest is not compared with the size of the table; and deleting a semaphore frees exactly its handle, so that every later call with it fails
  until the handle is given out again.
\<close>

theorem semaphore_handles:
  assumes "sv_ok sems"
  shows "(sv_room sems \<and> attr \<le> 2 \<and> 0 \<le> initCount \<and> 0 < maxCount \<and> initCount \<le> maxCount \<longrightarrow>
      (\<exists>h sems'. sceKernelCreateSema (Some name) attr initCount maxCount sems = Some (ORBIS_OK, Some h, sems') \<and> sv_ok sems'
        \<and> sv_at h sems = None \<and> sv_at h sems' = Some (OrbisSem_init initCount maxCount name (attr = 1)) \<and> (\<forall>g. g \<noteq> h \<longrightarrow> sv_at g sems' = sv_at g sems)))
    \<and> (h div 64 \<ge> length (sv_stored sems) \<longrightarrow>
        sceKernelWaitSema h need timeout sems = None \<and> sceKernelPollSema h need sems = None
      \<and> sceKernelSignalSema h n sems ws = None \<and> sceKernelCancelSema h n sems ws = None \<and> sceKernelDeleteSema h sems ws = None)
    \<and> (h div 64 < length (sv_stored sems) \<and> sv_at h sems = None \<longrightarrow>
        sceKernelWaitSema h need timeout sems = Some (Inl ORBIS_KERNEL_ERROR_ESRCH) \<and> sceKernelPollSema h need sems = Some (Inl ORBIS_KERNEL_ERROR_ESRCH)
      \<and> sceKernelSignalSema h n sems ws = Some (Inl ORBIS_KERNEL_ERROR_ESRCH) \<and> sceKernelCancelSema h n sems ws = Some (Inl ORBIS_KERNEL_ERROR_ESRCH)
      \<and> sceKernelDeleteSema h sems ws = Some (Inl ORBIS_KERNEL_ERROR_ESRCH))
    \<and> (sv_at h sems = Some s \<longrightarrow>
        (\<exists>sems'. sceKernelDeleteSema h sems ws = Some (Inr (ORBIS_OK, sems', snd (Sem_Delete s ws))) \<and> sv_ok sems'
          \<and> (\<forall>g. sv_at g sems' = (if g = h then None else sv_at g sems))))"
proof (intro conjI impI)
  assume A: "sv_room sems \<and> attr \<le> 2 \<and> 0 \<le> initCount \<and> 0 < maxCount \<and> initCount \<le> maxCount"
  obtain h sems' where i: "sv_insert (OrbisSem_init initCount maxCount name (attr = 1)) sems = Some (h, sems')"
    using sv.ins_law [OF assms] A by blast
  have "sceKernelCreateSema (Some name) attr initCount maxCount sems = Some (ORBIS_OK, Some h, sems')"
    using A i by (simp add: sceKernelCreateSema_def)
  then show "\<exists>h sems'. sceKernelCreateSema (Some name) attr initCount maxCount sems = Some (ORBIS_OK, Some h, sems') \<and> sv_ok sems'
        \<and> sv_at h sems = None \<and> sv_at h sems' = Some (OrbisSem_init initCount maxCount name (attr = 1)) \<and> (\<forall>g. g \<noteq> h \<longrightarrow> sv_at g sems' = sv_at g sems)"
    using sv.ins_look [OF assms _ i] A by simp
next
  assume "length (sv_stored sems) \<le> h div 64"
  then have "is_allocated h sems = None" using is_allocated_bits [OF assms, of h] by simp
  then have e: "with_sema h sems f = None" for f :: "OrbisSem \<Rightarrow> 'r option" by (simp add: with_sema_def)
  show "sceKernelWaitSema h need timeout sems = None" "sceKernelPollSema h need sems = None" "sceKernelSignalSema h n sems ws = None"
    "sceKernelCancelSema h n sems ws = None" "sceKernelDeleteSema h sems ws = None"
    by (simp_all add: sceKernelWaitSema_def sceKernelPollSema_def sceKernelSignalSema_def sceKernelCancelSema_def sceKernelDeleteSema_def e)
next
  assume A: "h div 64 < length (sv_stored sems) \<and> sv_at h sems = None"
  have "is_allocated h sems = Some False" using is_allocated_bits [OF assms, of h] A by simp
  then have e: "with_sema h sems f = Some (Inl ORBIS_KERNEL_ERROR_ESRCH)" for f :: "OrbisSem \<Rightarrow> 'r option" by (simp add: with_sema_def)
  show "sceKernelWaitSema h need timeout sems = Some (Inl ORBIS_KERNEL_ERROR_ESRCH)" "sceKernelPollSema h need sems = Some (Inl ORBIS_KERNEL_ERROR_ESRCH)"
    "sceKernelSignalSema h n sems ws = Some (Inl ORBIS_KERNEL_ERROR_ESRCH)" "sceKernelCancelSema h n sems ws = Some (Inl ORBIS_KERNEL_ERROR_ESRCH)"
    "sceKernelDeleteSema h sems ws = Some (Inl ORBIS_KERNEL_ERROR_ESRCH)"
    by (simp_all add: sceKernelWaitSema_def sceKernelPollSema_def sceKernelSignalSema_def sceKernelCancelSema_def sceKernelDeleteSema_def e)
next
  assume A: "sv_at h sems = Some s"
  have al: "is_allocated h sems = Some True" using is_allocated_eq [OF assms sv_at_bound [OF A]] A by simp
  obtain s' ws' where D: "Sem_Delete s ws = (s', ws')" by (metis surj_pair)
  have p: "sv_ok (sv_put h s' sems)" "sv_at g (sv_put h s' sems) = (if g = h then Some s' else sv_at g sems)" for g
    using sv.put_law [OF assms A] sv.put_look [OF assms A] by blast+
  have ph: "sv_at h (sv_put h s' sems) = Some s'" by (simp add: p(2))
  obtain sems' where e: "sv_erase h (sv_put h s' sems) = Some sems'" "sv_ok sems'" using sv.del_law [OF p(1) ph] by blast
  have "sceKernelDeleteSema h sems ws = Some (Inr (ORBIS_OK, sems', ws'))" using al A D e(1) by (simp add: sceKernelDeleteSema_def with_sema_def)
  moreover have "\<forall>g. sv_at g sems' = (if g = h then None else sv_at g sems)" using sv.del_look [OF p(1) ph e(1)] p(2) by simp
  ultimately show "\<exists>sems'. sceKernelDeleteSema h sems ws = Some (Inr (ORBIS_OK, sems', snd (Sem_Delete s ws))) \<and> sv_ok sems'
          \<and> (\<forall>g. sv_at g sems' = (if g = h then None else sv_at g sems))" using e(2) D by auto
qed

theorem semaphore_handles_witness:
  "\<exists>sems h sems'. SlotVector_init = Some sems \<and> sceKernelCreateSema (Some ''sem'') 1 0 3 sems = Some (ORBIS_OK, Some h, sems')
    \<and> sceKernelSignalSema 5 1 sems (\<lambda>_. None) = Some (Inl ORBIS_KERNEL_ERROR_ESRCH) \<and> sceKernelSignalSema 4096 1 sems (\<lambda>_. None) = None"
proof -
  obtain sems :: sem_table where v: "SlotVector_init = Some sems" "sv_ok sems" "sv_room sems" "values_capacity sems = 2048" "\<forall>i. sv_at i sems = None"
    using SlotVector_init_spec by blast
  have h: "sv_room sems \<and> (1::u32) \<le> 2 \<and> (0::s32) \<le> 0 \<and> (0::s32) < 3 \<and> (0::s32) \<le> 3" using v(3) by simp
  have l: "length (sv_stored sems) = 32" using sv_okD(3) [OF v(2)] v(4) by simp
  have "\<exists>h sems'. sceKernelCreateSema (Some ''sem'') 1 0 3 sems = Some (ORBIS_OK, Some h, sems')"
    using semaphore_handles [OF v(2), of 1 0 3 "''sem''" 5 0 None 1 "\<lambda>_. None"] h by blast
  moreover have "sceKernelSignalSema 5 1 sems (\<lambda>_. None) = Some (Inl ORBIS_KERNEL_ERROR_ESRCH)"
    using semaphore_handles [OF v(2), of 1 0 3 "''sem''" 5 0 None 1 "\<lambda>_. None"] l v(5) by simp
  moreover have "sceKernelSignalSema 4096 1 sems (\<lambda>_. None) = None"
    using semaphore_handles [OF v(2), of 1 0 3 "''sem''" 4096 0 None 1 "\<lambda>_. None"] l by simp
  ultimately show ?thesis using v(1) by blast
qed

section \<open>What the code does not protect against\<close>

text \<open>
  \<open>sceKernelDeleteSema\<close> destroys the semaphore right after it woke the waiters, which still have to lock its mutex: a state with a
  thread inside a destroyed semaphore is reachable with two calls.
\<close>

lemma delete_leaves_thread_inside:
  "\<exists>s. reach (sem_init 0 1 ''sem'' True) sem_step_ok s \<and> \<not> ss_alive s \<and> ss_threads s 7 = Sem_Asleep None
     \<and> GetResult (waiter (ss_waiters s) 7) = ORBIS_KERNEL_ERROR_EACCES \<and> wt_sem (waiter (ss_waiters s) 7) = 1"
proof -
  define s where "s = \<lparr>ss_sem = OrbisSem_init 0 1 ''sem'' True, ss_waiters = (\<lambda>_. None), ss_threads = (\<lambda>_. Sem_Outside), ss_alive = True\<rparr>"
  define ws where "ws = (ss_waiters s)(7 \<mapsto> WaitingThread_init 1 True 700 ''t'')"
  define s1 where "s1 = s\<lparr>ss_sem := AddWaiter ws 7 (ss_sem s), ss_waiters := ws, ss_threads := (ss_threads s)(7 := Sem_Asleep None)\<rparr>"
  define s2 where "s2 = s1\<lparr>ss_sem := fst (Sem_Delete (ss_sem s1) (ss_waiters s1)), ss_waiters := snd (Sem_Delete (ss_sem s1) (ss_waiters s1)), ss_alive := False\<rparr>"
  have "sem_step s (Ev_Sleep 7 1) s1" unfolding s1_def
    by (rule sem_step.wait_sleep [where can_block = True]) (simp_all add: s_def ws_def Sem_Wait_try_def OrbisSem_init_def)
  moreover have "sem_step s1 Ev_Delete s2" unfolding s2_def by (rule sem_step.delete) (simp_all add: s1_def s_def)
  ultimately have "steps sem_step_ok s [Ev_Sleep 7 1, Ev_Delete] s2" by (auto simp: sem_step_ok_def)
  moreover have "reach (sem_init 0 1 ''sem'' True) sem_step_ok s" by (rule reach_init) (simp add: sem_init_def s_def)
  ultimately have "reach (sem_init 0 1 ''sem'' True) sem_step_ok s2" by (rule steps_reach)
  then show ?thesis
    by (intro exI [of _ s2]) (simp add: s2_def s1_def s_def ws_def Sem_Delete_def AddWaiter_def OrbisSem_init_def WaitingThread_init_def GetResult_def waiter_def)
qed

text \<open>A wait that is signaled after more than its timeout reports the remaining time wrapped around instead of 0.\<close>

lemma timeout_underflow:
  assumes "wt_was_signaled w" "us < time" "time < 4294967296"
  shows "fst (snd (Sem_Wait_finish p w (Some us) time sem)) = Some (4294967296 + us - time)"
proof -
  have "(int us - int time) mod 4294967296 = 4294967296 + int us - int time"
    using mod_pos_pos_trivial [of "int us - int time + 4294967296" 4294967296] assms(2,3) by simp
  then show ?thesis using assms by (simp add: Sem_Wait_finish_def Let_def nat_diff_distrib' of_nat_diff)
qed

text \<open>A signal whose sum overflows passes the check against the maximum and makes the token count negative.\<close>

lemma signal_overflow:
  "Sem_Signal 2147483647 (OrbisSem_init 1 2147483647 ''sem'' True) (\<lambda>_. None) =
     (True, OrbisSem_init 1 2147483647 ''sem'' True\<lparr>token_count := -2147483648, wait_list := []\<rparr>, (\<lambda>_. None))"
  by (simp add: Sem_Signal_def OrbisSem_init_def wrap32_def)

text \<open>Counts are not validated: a negative need of a poll adds tokens, past the maximum, and serves nobody.\<close>

lemma negative_need:
  "Sem_Wait_try False (-5) None (OrbisSem_init 1 2 ''sem'' True) = (Some ORBIS_OK, OrbisSem_init 1 2 ''sem'' True\<lparr>token_count := 6\<rparr>)"
  by (simp add: Sem_Wait_try_def OrbisSem_init_def wrap32_def)

end
