(* ===== verification/Posix_Semaphore.thy ===== *)
theory Posix_Semaphore
  imports Transition_System
begin

text \<open>
  POSIX semaphores (\<^verbatim>\<open>src/src/core/libraries/kernel/threads/semaphore.cpp\<close>, \<open>PthreadSem\<close>): the calls, their interleaving at the
  atomic operations, and the invariant that ties the reported value to the count of the host semaphore.
\<close>

section \<open>The object and the calls\<close>

definition ORBIS_KERNEL_SEM_VALUE_MAX :: s32 where "ORBIS_KERNEL_SEM_VALUE_MAX = 0x7FFFFFFF"

record PthreadSem =
  ps_semaphore :: nat
  ps_value :: s32

definition PthreadSem_new :: "s32 \<Rightarrow> PthreadSem" where
  "PthreadSem_new v = \<lparr>ps_semaphore = nat v, ps_value = v\<rparr>"

text \<open>
  A call on its own, with no other thread inside the object: \<open>Inl\<close> is the error number left in \<open>errno\<close> when the call returns -1. The outer
  \<open>None\<close> of a pointer argument is a null pointer, the inner one a pointer to null. \<open>None\<close> as the result of a wait is a thread that blocks.
\<close>

type_synonym sem_pointer = "PthreadSem option option"

definition psem_deref :: "sem_pointer \<Rightarrow> s32 + PthreadSem" where
  "psem_deref sem = (case sem of Some (Some p) \<Rightarrow> Inr p | _ \<Rightarrow> Inl POSIX_EINVAL)"

definition posix_sem_init :: "sem_pointer \<Rightarrow> u32 \<Rightarrow> s32 + sem_pointer" where
  "posix_sem_init sem v =
     (if int v > ORBIS_KERNEL_SEM_VALUE_MAX then Inl POSIX_EINVAL
      else if sem \<noteq> None then Inr (Some (Some (PthreadSem_new (int v)))) else Inr None)"

definition posix_sem_destroy :: "sem_pointer \<Rightarrow> s32 + sem_pointer" where
  "posix_sem_destroy sem = (case psem_deref sem of Inl e \<Rightarrow> Inl e | Inr p \<Rightarrow> Inr (Some None))"

definition psem_take :: "PthreadSem \<Rightarrow> PthreadSem" where
  "psem_take p = p\<lparr>ps_semaphore := ps_semaphore p - 1, ps_value := ps_value p - 1\<rparr>"

definition posix_sem_wait :: "sem_pointer \<Rightarrow> (s32 + PthreadSem) option" where
  "posix_sem_wait sem =
     (case psem_deref sem of Inl e \<Rightarrow> Some (Inl e) | Inr p \<Rightarrow> if ps_semaphore p = 0 then None else Some (Inr (psem_take p)))"

definition posix_sem_trywait :: "sem_pointer \<Rightarrow> s32 + PthreadSem" where
  "posix_sem_trywait sem =
     (case psem_deref sem of Inl e \<Rightarrow> Inl e | Inr p \<Rightarrow> if ps_semaphore p = 0 then Inl POSIX_EAGAIN else Inr (psem_take p))"

definition posix_sem_timedwait :: "sem_pointer \<Rightarrow> s32 + PthreadSem" where
  "posix_sem_timedwait sem =
     (case psem_deref sem of Inl e \<Rightarrow> Inl e | Inr p \<Rightarrow> if ps_semaphore p = 0 then Inl POSIX_ETIMEDOUT else Inr (psem_take p))"

definition posix_sem_post :: "sem_pointer \<Rightarrow> s32 + PthreadSem" where
  "posix_sem_post sem =
     (case psem_deref sem of
        Inl e \<Rightarrow> Inl e
      | Inr p \<Rightarrow> if ps_value p = ORBIS_KERNEL_SEM_VALUE_MAX then Inl POSIX_EOVERFLOW
                else Inr (p\<lparr>ps_value := ps_value p + 1, ps_semaphore := ps_semaphore p + 1\<rparr>))"

definition posix_sem_getvalue :: "sem_pointer \<Rightarrow> s32 + s32" where
  "posix_sem_getvalue sem = (case psem_deref sem of Inl e \<Rightarrow> Inl e | Inr p \<Rightarrow> Inr (ps_value p))"

text \<open>The \<open>scePthreadSem\<close> calls translate the error number to a kernel code.\<close>

definition scePthreadSem_result :: "s32 + 'r \<Rightarrow> s32" where
  "scePthreadSem_result res = (case res of Inl e \<Rightarrow> ErrnoToSceKernelError e | Inr _ \<Rightarrow> ORBIS_OK)"

definition scePthreadSemInit :: "sem_pointer \<Rightarrow> s32 \<Rightarrow> u32 \<Rightarrow> s32 \<times> sem_pointer" where
  "scePthreadSemInit sem flag v =
     (if flag \<noteq> 0 then (ORBIS_KERNEL_ERROR_EINVAL, sem)
      else (scePthreadSem_result (posix_sem_init sem v), case posix_sem_init sem v of Inl _ \<Rightarrow> sem | Inr sem' \<Rightarrow> sem'))"

definition scePthreadSemDestroy :: "sem_pointer \<Rightarrow> s32" where "scePthreadSemDestroy sem = scePthreadSem_result (posix_sem_destroy sem)"
definition scePthreadSemWait :: "sem_pointer \<Rightarrow> s32 option" where "scePthreadSemWait sem = map_option scePthreadSem_result (posix_sem_wait sem)"
definition scePthreadSemTrywait :: "sem_pointer \<Rightarrow> s32" where "scePthreadSemTrywait sem = scePthreadSem_result (posix_sem_trywait sem)"
definition scePthreadSemPost :: "sem_pointer \<Rightarrow> s32" where "scePthreadSemPost sem = scePthreadSem_result (posix_sem_post sem)"
definition scePthreadSemGetvalue :: "sem_pointer \<Rightarrow> s32" where "scePthreadSemGetvalue sem = scePthreadSem_result (posix_sem_getvalue sem)"

text \<open>The deadline of a timed wait, from the clock's seconds and nanoseconds.\<close>

definition timedwait_deadline :: "s64 \<Rightarrow> s64 \<Rightarrow> u32 \<Rightarrow> s64 \<times> s64" where
  "timedwait_deadline tv_sec tv_nsec usec =
     (let total_nsec = tv_nsec + int (usec mod 1000000) * 1000
      in (tv_sec + int (usec div 1000000) + total_nsec div 1000000000, total_nsec mod 1000000000))"

definition scePthreadSemTimedwait :: "sem_pointer \<Rightarrow> s32" where
  "scePthreadSemTimedwait sem = scePthreadSem_result (posix_sem_timedwait sem)"

section \<open>Threads\<close>

text \<open>
  The calls interleave at their atomic operations: a wait takes from the semaphore and then decrements the value; a post reads the value, increments it with a
  compare-and-exchange that may fail, also spuriously, and reload it, and then releases the semaphore.
\<close>

datatype psem_thread = P_Outside | P_Acquired | P_Posting s32 | P_Releasing

record psem_system =
  py_sem :: PthreadSem
  py_threads :: "nat \<Rightarrow> psem_thread"

datatype psem_event = Psem_Internal | Psem_Returned nat "s32 + unit"

definition psem_set :: "psem_system \<Rightarrow> nat \<Rightarrow> psem_thread \<Rightarrow> PthreadSem \<Rightarrow> psem_system" where
  "psem_set s t th p = s\<lparr>py_sem := p, py_threads := (py_threads s)(t := th)\<rparr>"

inductive psem_step :: "psem_system \<Rightarrow> psem_event \<Rightarrow> psem_system \<Rightarrow> bool" where
  acquire:
    "py_threads s t = P_Outside \<Longrightarrow> ps_semaphore (py_sem s) > 0 \<Longrightarrow>
     psem_step s Psem_Internal (psem_set s t P_Acquired ((py_sem s)\<lparr>ps_semaphore := ps_semaphore (py_sem s) - 1\<rparr>))"
| acquire_failed:
    "py_threads s t = P_Outside \<Longrightarrow> e = POSIX_EAGAIN \<or> e = POSIX_ETIMEDOUT \<Longrightarrow> psem_step s (Psem_Returned t (Inl e)) s"
| taken:
    "py_threads s t = P_Acquired \<Longrightarrow>
     psem_step s (Psem_Returned t (Inr ())) (psem_set s t P_Outside ((py_sem s)\<lparr>ps_value := ps_value (py_sem s) - 1\<rparr>))"
| post_load:
    "py_threads s t = P_Outside \<Longrightarrow> psem_step s Psem_Internal (psem_set s t (P_Posting (ps_value (py_sem s))) (py_sem s))"
| post_full:
    "py_threads s t = P_Posting ORBIS_KERNEL_SEM_VALUE_MAX \<Longrightarrow> psem_step s (Psem_Returned t (Inl POSIX_EOVERFLOW)) (psem_set s t P_Outside (py_sem s))"
| post_exchange:
    "py_threads s t = P_Posting current \<Longrightarrow> current \<noteq> ORBIS_KERNEL_SEM_VALUE_MAX \<Longrightarrow> ps_value (py_sem s) = current \<Longrightarrow>
     psem_step s Psem_Internal (psem_set s t P_Releasing ((py_sem s)\<lparr>ps_value := current + 1\<rparr>))"
| post_retry:
    "py_threads s t = P_Posting current \<Longrightarrow> current \<noteq> ORBIS_KERNEL_SEM_VALUE_MAX \<Longrightarrow>
     psem_step s Psem_Internal (psem_set s t (P_Posting (ps_value (py_sem s))) (py_sem s))"
| release:
    "py_threads s t = P_Releasing \<Longrightarrow>
     psem_step s (Psem_Returned t (Inr ())) (psem_set s t P_Outside ((py_sem s)\<lparr>ps_semaphore := ps_semaphore (py_sem s) + 1\<rparr>))"

definition psem_init :: "u32 \<Rightarrow> psem_system \<Rightarrow> bool" where
  "psem_init v s \<longleftrightarrow> (\<exists>p. posix_sem_init (Some None) v = Inr (Some (Some p)) \<and> s = \<lparr>py_sem = p, py_threads = (\<lambda>_. P_Outside)\<rparr>)"

section \<open>The invariant\<close>

definition in_flight :: "psem_system \<Rightarrow> nat set" where
  "in_flight s = {t. py_threads s t = P_Acquired \<or> py_threads s t = P_Releasing}"

definition psem_inv :: "psem_system \<Rightarrow> bool" where
  "psem_inv s \<longleftrightarrow> finite (in_flight s) \<and> ps_value (py_sem s) = int (ps_semaphore (py_sem s)) + int (card (in_flight s))
     \<and> ps_value (py_sem s) \<le> ORBIS_KERNEL_SEM_VALUE_MAX"

lemma psem_set_simps [simp]: "py_sem (psem_set s t th p) = p" "py_threads (psem_set s t th p) = (py_threads s)(t := th)"
  by (simp_all add: psem_set_def)

lemma in_flight_set:
  "in_flight (psem_set s t th p) = (if th = P_Acquired \<or> th = P_Releasing then insert t (in_flight s) else in_flight s - {t})"
  by (auto simp: in_flight_def)

lemma psem_step_inv:
  assumes "psem_inv s" "psem_step s e s'"
  shows "psem_inv s'"
proof -
  have I: "finite (in_flight s)" "ps_value (py_sem s) = int (ps_semaphore (py_sem s)) + int (card (in_flight s))"
    "ps_value (py_sem s) \<le> ORBIS_KERNEL_SEM_VALUE_MAX" using assms(1) by (auto simp: psem_inv_def)
  have out: "t \<notin> in_flight s" if "py_threads s t = P_Outside \<or> (\<exists>c. py_threads s t = P_Posting c)" for t using that by (auto simp: in_flight_def)
  have ins: "t \<in> in_flight s \<and> card (in_flight s) > 0 \<and> card (in_flight s - {t}) = card (in_flight s) - 1"
    if "py_threads s t = P_Acquired \<or> py_threads s t = P_Releasing" for t
  proof -
    have "t \<in> in_flight s" using that by (simp add: in_flight_def)
    then show ?thesis using I(1) by (auto simp: card_gt_0_iff)
  qed
  from assms(2) show ?thesis
  proof cases
    case (acquire t)
    then show ?thesis using I out [of t] by (simp add: psem_inv_def in_flight_set of_nat_diff)
  next
    case (acquire_failed t e)
    then show ?thesis using assms(1) by simp
  next
    case (taken t)
    then show ?thesis using I ins [of t] by (simp add: psem_inv_def in_flight_set of_nat_diff)
  next
    case (post_load t)
    then show ?thesis using I out [of t] by (simp add: psem_inv_def in_flight_set)
  next
    case (post_full t)
    then show ?thesis using I out [of t] by (simp add: psem_inv_def in_flight_set)
  next
    case (post_exchange t current)
    then show ?thesis using I out [of t] by (simp add: psem_inv_def in_flight_set)
  next
    case (post_retry t current)
    then show ?thesis using I out [of t] by (simp add: psem_inv_def in_flight_set)
  next
    case (release t)
    then show ?thesis using I ins [of t] by (simp add: psem_inv_def in_flight_set of_nat_diff)
  qed
qed

lemma psem_init_inv: "psem_init v s \<Longrightarrow> psem_inv s"
  by (auto simp: psem_init_def posix_sem_init_def PthreadSem_new_def psem_inv_def in_flight_def split: if_splits)

interpretation psem: invariant_system "psem_init v" psem_step psem_inv for v
  by unfold_locales (fact psem_init_inv, rule psem_step_inv)

text \<open>A call on its own is a run of these steps.\<close>

lemma posix_sem_post_run:
  assumes "posix_sem_post (Some (Some p)) = Inr p'" "py_sem s = p" "py_threads s t = P_Outside"
  shows "\<exists>s'. steps psem_step s [Psem_Internal, Psem_Internal, Psem_Returned t (Inr ())] s' \<and> py_sem s' = p' \<and> py_threads s' = py_threads s"
proof -
  have v: "ps_value p \<noteq> ORBIS_KERNEL_SEM_VALUE_MAX" "p' = p\<lparr>ps_value := ps_value p + 1, ps_semaphore := ps_semaphore p + 1\<rparr>"
    using assms(1) by (auto simp: posix_sem_post_def psem_deref_def split: if_splits)
  define s1 where "s1 = psem_set s t (P_Posting (ps_value (py_sem s))) (py_sem s)"
  define s2 where "s2 = psem_set s1 t P_Releasing ((py_sem s1)\<lparr>ps_value := ps_value p + 1\<rparr>)"
  define s3 where "s3 = psem_set s2 t P_Outside ((py_sem s2)\<lparr>ps_semaphore := ps_semaphore (py_sem s2) + 1\<rparr>)"
  have "psem_step s Psem_Internal s1" unfolding s1_def by (rule psem_step.post_load [OF assms(3)])
  moreover have "psem_step s1 Psem_Internal s2" unfolding s2_def by (rule psem_step.post_exchange) (simp_all add: s1_def assms(2) v(1))
  moreover have "psem_step s2 (Psem_Returned t (Inr ())) s3" unfolding s3_def by (rule psem_step.release) (simp add: s2_def)
  moreover have "py_sem s3 = p'" "py_threads s3 = py_threads s" using assms(2,3) v(2) by (simp_all add: s3_def s2_def s1_def fun_upd_idem)
  ultimately show ?thesis by auto
qed

lemma posix_sem_trywait_run:
  assumes "posix_sem_trywait (Some (Some p)) = Inr p'" "py_sem s = p" "py_threads s t = P_Outside"
  shows "\<exists>s'. steps psem_step s [Psem_Internal, Psem_Returned t (Inr ())] s' \<and> py_sem s' = p' \<and> py_threads s' = py_threads s"
proof -
  have v: "ps_semaphore p > 0" "p' = psem_take p" using assms(1) by (auto simp: posix_sem_trywait_def psem_deref_def split: if_splits)
  define s1 where "s1 = psem_set s t P_Acquired ((py_sem s)\<lparr>ps_semaphore := ps_semaphore (py_sem s) - 1\<rparr>)"
  define s2 where "s2 = psem_set s1 t P_Outside ((py_sem s1)\<lparr>ps_value := ps_value (py_sem s1) - 1\<rparr>)"
  have "psem_step s Psem_Internal s1" unfolding s1_def by (rule psem_step.acquire) (simp_all add: assms(2,3) v(1))
  moreover have "psem_step s1 (Psem_Returned t (Inr ())) s2" unfolding s2_def by (rule psem_step.taken) (simp add: s1_def)
  moreover have "py_sem s2 = p'" "py_threads s2 = py_threads s" using assms(2,3) v(2) by (simp_all add: s2_def s1_def psem_take_def fun_upd_idem)
  ultimately show ?thesis by auto
qed

section \<open>Properties\<close>

text \<open>
  C38. A POSIX semaphore used by any number of threads: the reported value is the count of the semaphore plus the calls between their two atomic operations, so
  it lies between 0 and the maximum and equals the count when no call is under way; and a post that is about to release finds
  room, so the release of the host semaphore never exceeds its maximum.
\<close>

theorem posix_semaphore_invariant:
  assumes "reach (psem_init v) psem_step s"
  shows "0 \<le> ps_value (py_sem s) \<and> ps_value (py_sem s) \<le> ORBIS_KERNEL_SEM_VALUE_MAX
    \<and> ps_value (py_sem s) = int (ps_semaphore (py_sem s)) + int (card (in_flight s))
    \<and> ((\<forall>t. py_threads s t = P_Outside) \<longrightarrow> ps_value (py_sem s) = int (ps_semaphore (py_sem s)))
    \<and> (py_threads s t = P_Releasing \<longrightarrow> int (ps_semaphore (py_sem s)) < ORBIS_KERNEL_SEM_VALUE_MAX)"
proof -
  have inv: "psem_inv s" by (rule psem.reach_inv [OF assms])
  have "card (in_flight s) > 0" if "py_threads s t = P_Releasing"
    using inv that by (auto simp: psem_inv_def card_gt_0_iff in_flight_def)
  moreover have "in_flight s = {}" if "\<forall>t. py_threads s t = P_Outside" using that by (simp add: in_flight_def)
  ultimately show ?thesis using inv by (auto simp: psem_inv_def)
qed

theorem posix_semaphore_invariant_witness:
  "\<exists>s. reach (psem_init 3) psem_step s \<and> ps_semaphore (py_sem s) = 2 \<and> ps_value (py_sem s) = 3 \<and> card (in_flight s) = 1"
proof -
  define s where "s = \<lparr>py_sem = PthreadSem_new 3, py_threads = (\<lambda>_. P_Outside)\<rparr>"
  define s' where "s' = psem_set s 1 P_Acquired ((py_sem s)\<lparr>ps_semaphore := ps_semaphore (py_sem s) - 1\<rparr>)"
  have "psem_step s Psem_Internal s'" unfolding s'_def by (rule psem_step.acquire) (simp_all add: s_def PthreadSem_new_def)
  moreover have "reach (psem_init 3) psem_step s"
    by (rule reach_init) (simp add: psem_init_def posix_sem_init_def s_def ORBIS_KERNEL_SEM_VALUE_MAX_def)
  ultimately have r: "reach (psem_init 3) psem_step s'" by (rule reach_step [rotated])
  have f: "ps_semaphore (py_sem s') = 2" "ps_value (py_sem s') = 3" by (simp_all add: s'_def s_def PthreadSem_new_def)
  from posix_semaphore_invariant [OF r] have "card (in_flight s') = 1" using f by simp
  then show ?thesis using r f by blast
qed

lemma deadline_arith:
  "(u::int) = q * 1000000 + r \<Longrightarrow> d * 1000000000 + n = ns + r * 1000 \<Longrightarrow> (s + q + d) * 1000000000 + n = s * 1000000000 + ns + u * 1000"
  by simp

lemma timedwait_deadline_correct:
  assumes "timedwait_deadline sec nsec usec = (sec', nsec')"
  shows "0 \<le> nsec'" "nsec' < 1000000000" "sec' * 1000000000 + nsec' = sec * 1000000000 + nsec + int usec * 1000"
proof -
  have e: "sec' = sec + int (usec div 1000000) + (nsec + int (usec mod 1000000) * 1000) div 1000000000"
    "nsec' = (nsec + int (usec mod 1000000) * 1000) mod 1000000000" using assms by (auto simp: timedwait_deadline_def Let_def)
  show "0 \<le> nsec'" "nsec' < 1000000000" by (simp_all add: e)
  have "int usec = int (usec div 1000000) * 1000000 + int (usec mod 1000000)"
    by (simp only: zdiv_int zmod_int of_nat_numeral div_mult_mod_eq)
  moreover have "(nsec + int (usec mod 1000000) * 1000) div 1000000000 * 1000000000 + nsec' = nsec + int (usec mod 1000000) * 1000"
    unfolding e by (rule div_mult_mod_eq)
  ultimately show "sec' * 1000000000 + nsec' = sec * 1000000000 + nsec + int usec * 1000" unfolding e(1) by (rule deadline_arith)
qed

end
