(* ===== verification/Psf.thy ===== *)
theory Psf
  imports Prelude "HOL-Library.Monad_Syntax"
begin

text \<open>
  Parameter files (\<^verbatim>\<open>src/src/core/file_format/psf.cpp\<close>): the byte layout, the reader, the writer and the operations on
  entries. A read past the end of the buffer and a failed assertion are \<open>None\<close>.
\<close>

section \<open>Bytes\<close>

type_synonym bytes = "8 word list"

definition le16 :: "nat \<Rightarrow> bytes" where "le16 n = [of_nat n, of_nat (n div 256)]"
definition le32 :: "nat \<Rightarrow> bytes" where "le32 n = [of_nat n, of_nat (n div 256), of_nat (n div 65536), of_nat (n div 16777216)]"

definition slice :: "bytes \<Rightarrow> nat \<Rightarrow> nat \<Rightarrow> bytes" where
  "slice buf off len = take len (drop off buf)"

definition put_bytes :: "nat \<Rightarrow> bytes \<Rightarrow> bytes \<Rightarrow> bytes" where
  "put_bytes off bs buf = take off buf @ bs @ drop (off + length bs) buf"

text \<open>Reads are \<open>None\<close> past the end of the buffer.\<close>

definition read_bytes :: "bytes \<Rightarrow> nat \<Rightarrow> nat \<Rightarrow> bytes option" where
  "read_bytes buf off len = (if off + len \<le> length buf then Some (slice buf off len) else None)"

fun of_le :: "bytes \<Rightarrow> nat" where
  "of_le [] = 0"
| "of_le (b # bs) = unat b + 256 * of_le bs"

definition read_le16 :: "bytes \<Rightarrow> nat \<Rightarrow> nat option" where "read_le16 buf off = map_option of_le (read_bytes buf off 2)"
definition read_le32 :: "bytes \<Rightarrow> nat \<Rightarrow> nat option" where "read_le32 buf off = map_option of_le (read_bytes buf off 4)"
definition read_be32 :: "bytes \<Rightarrow> nat \<Rightarrow> nat option" where "read_be32 buf off = map_option (\<lambda>bs. of_le (rev bs)) (read_bytes buf off 4)"

definition read_cstr :: "bytes \<Rightarrow> nat \<Rightarrow> bytes option" where
  "read_cstr buf off = (if 0 \<in> set (drop off buf) then Some (takeWhile (\<lambda>b. b \<noteq> 0) (drop off buf)) else None)"

definition s32_of_u32 :: "u32 \<Rightarrow> s32" where
  "s32_of_u32 n = (if n mod 4294967296 < 2147483648 then int (n mod 4294967296) else int (n mod 4294967296) - 4294967296)"

section \<open>The file\<close>

definition PSF_MAGIC :: nat where "PSF_MAGIC = 0x00505346"
definition PSF_VERSION_1_1 :: nat where "PSF_VERSION_1_1 = 0x00000101"
definition PSF_VERSION_1_0 :: nat where "PSF_VERSION_1_0 = 0x00000100"

record PSFHeader =
  magic :: nat
  version :: nat
  key_table_offset :: nat
  data_table_offset :: nat
  index_table_entries :: nat

record PSFRawEntry =
  raw_key_offset :: nat
  raw_param_fmt :: nat
  raw_param_len :: nat
  raw_param_max_len :: nat
  raw_data_offset :: nat

definition sizeof_PSFHeader :: nat where "sizeof_PSFHeader = 0x14"
definition sizeof_PSFRawEntry :: nat where "sizeof_PSFRawEntry = 0x10"

datatype PSFEntryFmt = Binary | Text | Integer

definition fmt_code :: "PSFEntryFmt \<Rightarrow> nat" where
  "fmt_code f = (case f of Binary \<Rightarrow> 0x0004 | Text \<Rightarrow> 0x0204 | Integer \<Rightarrow> 0x0404)"

definition fmt_of_code :: "nat \<Rightarrow> PSFEntryFmt option" where
  "fmt_of_code c = (if c = 0x0004 then Some Binary else if c = 0x0204 then Some Text else if c = 0x0404 then Some Integer else None)"

record PSF_Entry =
  ent_key :: bytes
  param_fmt :: PSFEntryFmt
  max_len :: u32

record PSF =
  entry_list :: "PSF_Entry list"
  map_binaries :: "nat \<Rightarrow> bytes option"
  map_strings :: "nat \<Rightarrow> bytes option"
  map_integers :: "nat \<Rightarrow> s32 option"

definition PSF_empty :: PSF where
  "PSF_empty = \<lparr>entry_list = [], map_binaries = (\<lambda>_. None), map_strings = (\<lambda>_. None), map_integers = (\<lambda>_. None)\<rparr>"

definition map_emplace :: "nat \<Rightarrow> 'v \<Rightarrow> (nat \<Rightarrow> 'v option) \<Rightarrow> nat \<Rightarrow> 'v option" where
  "map_emplace i v m = (if m i = None then m(i \<mapsto> v) else m)"

section \<open>Reading\<close>

definition read_header :: "bytes \<Rightarrow> PSFHeader option" where
  "read_header buf = do {
     m \<leftarrow> read_be32 buf 0; v \<leftarrow> read_le32 buf 4; k \<leftarrow> read_le32 buf 8; d \<leftarrow> read_le32 buf 12; n \<leftarrow> read_le32 buf 16;
     Some \<lparr>magic = m, version = v, key_table_offset = k, data_table_offset = d, index_table_entries = n\<rparr>
   }"

definition read_raw_entry :: "bytes \<Rightarrow> nat \<Rightarrow> PSFRawEntry option" where
  "read_raw_entry buf off = do {
     k \<leftarrow> read_le16 buf off; f \<leftarrow> read_le16 buf (off + 2); l \<leftarrow> read_le32 buf (off + 4); m \<leftarrow> read_le32 buf (off + 8); d \<leftarrow> read_le32 buf (off + 12);
     Some \<lparr>raw_key_offset = k, raw_param_fmt = f, raw_param_len = l, raw_param_max_len = m, raw_data_offset = d\<rparr>
   }"

definition open_entry :: "bytes \<Rightarrow> PSFHeader \<Rightarrow> nat \<Rightarrow> PSF \<Rightarrow> PSF option" where
  "open_entry buf header i p = do {
     raw \<leftarrow> read_raw_entry buf (sizeof_PSFHeader + i * sizeof_PSFRawEntry);
     k \<leftarrow> read_cstr buf (key_table_offset header + raw_key_offset raw);
     fmt \<leftarrow> fmt_of_code (raw_param_fmt raw);
     let p1 = p\<lparr>entry_list := entry_list p @ [\<lparr>ent_key = k, param_fmt = fmt, max_len = raw_param_max_len raw\<rparr>]\<rparr>;
     let data = data_table_offset header + raw_data_offset raw;
     (case fmt of
        Binary \<Rightarrow> do {
          v \<leftarrow> read_bytes buf data (raw_param_len raw);
          Some (p1\<lparr>map_binaries := map_emplace i v (map_binaries p1)\<rparr>)
        }
      | Text \<Rightarrow> do {
          c_str \<leftarrow> read_cstr buf data;
          Some (p1\<lparr>map_strings := map_emplace i c_str (map_strings p1)\<rparr>)
        }
      | Integer \<Rightarrow> do {
          _ \<leftarrow> assert_opt (raw_param_len raw = 4);
          integer \<leftarrow> read_le32 buf data;
          Some (p1\<lparr>map_integers := map_emplace i (s32_of_u32 integer) (map_integers p1)\<rparr>)
        })
   }"

primrec open_loop :: "bytes \<Rightarrow> PSFHeader \<Rightarrow> nat \<Rightarrow> nat \<Rightarrow> PSF \<Rightarrow> PSF option" where
  "open_loop buf header 0 i p = Some p"
| "open_loop buf header (Suc n) i p = open_entry buf header i p \<bind> open_loop buf header n (i + 1)"

definition PSF_Open :: "bytes \<Rightarrow> PSF \<Rightarrow> (bool \<times> PSF) option" where
  "PSF_Open buf p = do {
     header \<leftarrow> read_header buf;
     (if magic header \<noteq> PSF_MAGIC then Some (False, PSF_empty)
      else if version header \<noteq> PSF_VERSION_1_1 \<and> version header \<noteq> PSF_VERSION_1_0 then Some (False, PSF_empty)
      else map_option (Pair True) (open_loop buf header (index_table_entries header) 0 PSF_empty))
   }"

section \<open>Writing\<close>

definition raw_entry_at :: "nat \<Rightarrow> nat" where
  "raw_entry_at i = sizeof_PSFHeader + i * sizeof_PSFRawEntry"

primrec encode_keys :: "nat \<Rightarrow> PSF_Entry list \<Rightarrow> nat \<Rightarrow> bytes \<Rightarrow> bytes" where
  "encode_keys kto [] i buf = buf"
| "encode_keys kto (e # es) i buf =
     (let buf1 = put_bytes (raw_entry_at i) (le16 (length buf - kto)) buf;
          buf2 = put_bytes (raw_entry_at i + 2) (le16 (fmt_code (param_fmt e))) buf1;
          buf3 = put_bytes (raw_entry_at i + 8) (le32 (max_len e)) buf2
      in encode_keys kto es (i + 1) (buf3 @ ent_key e @ [0]))"

definition pad4 :: "bytes \<Rightarrow> bytes" where
  "pad4 buf = (if length buf mod 4 \<noteq> 0 then buf @ replicate (4 - length buf mod 4) 0 else buf)"

text \<open>The bytes an entry stores.\<close>

definition entry_data :: "PSF \<Rightarrow> nat \<Rightarrow> PSFEntryFmt \<Rightarrow> bytes option" where
  "entry_data p i fmt =
     (case fmt of
        Binary \<Rightarrow> map_binaries p i
      | Text \<Rightarrow> map_option (\<lambda>v. v @ [0]) (map_strings p i)
      | Integer \<Rightarrow> map_option (\<lambda>v. le32 (u32_of_s32 v)) (map_integers p i))"

definition encode_entry :: "PSF \<Rightarrow> nat \<Rightarrow> nat \<Rightarrow> PSF_Entry \<Rightarrow> bytes \<Rightarrow> bytes option" where
  "encode_entry p dto i e buf0 = do {
     let buf = pad4 buf0;
     let buf1 = put_bytes (raw_entry_at i + 12) (le32 (length buf - dto)) buf;
     param_max_len \<leftarrow> read_le32 buf1 (raw_entry_at i + 8);
     v \<leftarrow> entry_data p i (param_fmt e);
     let buf2 = put_bytes (raw_entry_at i + 4) (le32 (length v)) buf1;
     let additional_padding = s32_of_u32 param_max_len - s32_of_u32 (length v);
     _ \<leftarrow> assert_opt (additional_padding \<ge> 0);
     Some (buf2 @ v @ replicate (nat additional_padding) 0)
   }"

primrec encode_data :: "PSF \<Rightarrow> nat \<Rightarrow> PSF_Entry list \<Rightarrow> nat \<Rightarrow> bytes \<Rightarrow> bytes option" where
  "encode_data p dto [] i buf = Some buf"
| "encode_data p dto (e # es) i buf = encode_entry p dto i e buf \<bind> encode_data p dto es (i + 1)"

definition PSF_Encode :: "PSF \<Rightarrow> bytes \<Rightarrow> bytes option" where
  "PSF_Encode p psf_buffer =
     (let n = length (entry_list p);
          size0 = sizeof_PSFHeader + sizeof_PSFRawEntry * n;
          buf0 = take size0 psf_buffer @ replicate (size0 - length psf_buffer) 0;
          buf1 = put_bytes 0 (rev (le32 PSF_MAGIC)) buf0;
          buf2 = put_bytes 4 (le32 PSF_VERSION_1_1) buf1;
          buf3 = put_bytes 16 (le32 n) buf2;
          kto = length buf3;
          buf4 = encode_keys kto (entry_list p) 0 (put_bytes 8 (le32 kto) buf3);
          dto = length buf4
      in encode_data p dto (entry_list p) 0 (put_bytes 12 (le32 dto) buf4))"

section \<open>Entries\<close>

definition str :: "string \<Rightarrow> bytes" where "str s = map of_char s"

definition psf_known_max_sizes :: "(bytes \<times> u32) list" where
  "psf_known_max_sizes =
     [(str ''ACCOUNT_ID'', 8), (str ''CATEGORY'', 4), (str ''DETAIL'', 1024), (str ''FORMAT'', 4),
      (str ''MAINTITLE'', 128), (str ''PARAMS'', 1024), (str ''SAVEDATA_BLOCKS'', 8), (str ''SAVEDATA_DIRECTORY'', 32),
      (str ''SUBTITLE'', 128), (str ''TITLE_ID'', 12)]"

definition get_max_size :: "bytes \<Rightarrow> u32 \<Rightarrow> u32" where
  "get_max_size k default_value = (case map_of psf_known_max_sizes k of Some v \<Rightarrow> v | None \<Rightarrow> default_value)"

primrec find_from :: "bytes \<Rightarrow> PSF_Entry list \<Rightarrow> nat \<Rightarrow> nat option" where
  "find_from k [] i = None"
| "find_from k (e # es) i = (if ent_key e = k then Some i else find_from k es (i + 1))"

definition FindEntry :: "bytes \<Rightarrow> PSF \<Rightarrow> nat option" where
  "FindEntry k p = find_from k (entry_list p) 0"

text \<open>A getter: \<open>None\<close> is a failed assertion or the exception of \<open>at\<close>, \<open>Some None\<close> a key that is not there.\<close>

definition get_value :: "PSFEntryFmt \<Rightarrow> (PSF \<Rightarrow> nat \<Rightarrow> 'v option) \<Rightarrow> bytes \<Rightarrow> PSF \<Rightarrow> 'v option option" where
  "get_value fmt values_of k p =
     (case FindEntry k p of
        None \<Rightarrow> Some None
      | Some index \<Rightarrow> if param_fmt (entry_list p ! index) = fmt then map_option Some (values_of p index) else None)"

definition GetBinary :: "bytes \<Rightarrow> PSF \<Rightarrow> bytes option option" where "GetBinary = get_value Binary map_binaries"
definition GetString :: "bytes \<Rightarrow> PSF \<Rightarrow> bytes option option" where "GetString = get_value Text map_strings"
definition GetInteger :: "bytes \<Rightarrow> PSF \<Rightarrow> s32 option option" where "GetInteger = get_value Integer map_integers"

definition set_max_len :: "nat \<Rightarrow> u32 \<Rightarrow> PSF \<Rightarrow> PSF" where
  "set_max_len index len p = p\<lparr>entry_list := (entry_list p)[index := (entry_list p ! index)\<lparr>max_len := len\<rparr>]\<rparr>"

definition add_entry :: "bytes \<Rightarrow> PSFEntryFmt \<Rightarrow> u32 \<Rightarrow> PSF \<Rightarrow> PSF" where
  "add_entry k fmt len p = p\<lparr>entry_list := entry_list p @ [\<lparr>ent_key = k, param_fmt = fmt, max_len = len\<rparr>]\<rparr>"

definition AddBinary :: "bytes \<Rightarrow> bytes \<Rightarrow> bool \<Rightarrow> PSF \<Rightarrow> PSF option" where
  "AddBinary k v update p =
     (case FindEntry k p of
        Some index \<Rightarrow>
          if \<not> update then Some p
          else if param_fmt (entry_list p ! index) \<noteq> Binary \<or> map_binaries p index = None then None
          else Some ((set_max_len index (get_max_size k (u32_of_u64 (length v))) p)\<lparr>map_binaries := (map_binaries p)(index \<mapsto> v)\<rparr>)
      | None \<Rightarrow>
          (let p1 = add_entry k Binary (get_max_size k (u32_of_u64 (length v))) p
           in Some (p1\<lparr>map_binaries := map_emplace (length (entry_list p1) - 1) v (map_binaries p1)\<rparr>)))"

definition AddBinary_u64 :: "bytes \<Rightarrow> u64 \<Rightarrow> bool \<Rightarrow> PSF \<Rightarrow> PSF option" where
  "AddBinary_u64 k v update p = AddBinary k (le32 v @ le32 (v div 4294967296)) update p"

definition AddString :: "bytes \<Rightarrow> bytes \<Rightarrow> bool \<Rightarrow> PSF \<Rightarrow> PSF option" where
  "AddString k v update p =
     (case FindEntry k p of
        Some index \<Rightarrow>
          if \<not> update then Some p
          else if param_fmt (entry_list p ! index) \<noteq> Text \<or> map_strings p index = None then None
          else Some ((set_max_len index (get_max_size k (u32_of_u64 (length v + 1))) p)\<lparr>map_strings := (map_strings p)(index \<mapsto> v)\<rparr>)
      | None \<Rightarrow>
          (let p1 = add_entry k Text (get_max_size k (u32_of_u64 (length v + 1))) p
           in Some (p1\<lparr>map_strings := map_emplace (length (entry_list p1) - 1) v (map_strings p1)\<rparr>)))"

definition AddInteger :: "bytes \<Rightarrow> s32 \<Rightarrow> bool \<Rightarrow> PSF \<Rightarrow> PSF option" where
  "AddInteger k v update p =
     (case FindEntry k p of
        Some index \<Rightarrow>
          if \<not> update then Some p
          else if param_fmt (entry_list p ! index) \<noteq> Integer \<or> map_integers p index = None then None
          else Some ((set_max_len index 4 p)\<lparr>map_integers := (map_integers p)(index \<mapsto> v)\<rparr>)
      | None \<Rightarrow>
          (let p1 = add_entry k Integer 4 p
           in Some (p1\<lparr>map_integers := map_emplace (length (entry_list p1) - 1) v (map_integers p1)\<rparr>)))"

end
