(* ===== verification/Psf_Tables.thy ===== *)
theory Psf_Tables
  imports Psf
begin

text \<open>
  Parameter files: what the loops of the writer leave in the key table and in the data table, as statements about slices of the buffer.
\<close>

section \<open>Slices\<close>

lemma length_put [simp]: "off + length bs \<le> length buf \<Longrightarrow> length (put_bytes off bs buf) = length buf"
  by (simp add: put_bytes_def)

lemma length_le [simp]: "length (le16 n) = 2" "length (le32 n) = 4"
  by (simp_all add: le16_def le32_def)

lemma slice_put_same: "off + length bs \<le> length buf \<Longrightarrow> slice (put_bytes off bs buf) off (length bs) = bs"
  by (simp add: slice_def put_bytes_def)

lemma nth_put: "off + length bs \<le> length buf \<Longrightarrow> i < length buf \<Longrightarrow>
    put_bytes off bs buf ! i = (if off \<le> i \<and> i < off + length bs then bs ! (i - off) else buf ! i)"
  by (auto simp: put_bytes_def nth_append)

lemma nth_slice: "off + len \<le> length buf \<Longrightarrow> i < len \<Longrightarrow> slice buf off len ! i = buf ! (off + i)"
  by (simp add: slice_def)

lemma length_slice: "off + len \<le> length buf \<Longrightarrow> length (slice buf off len) = len"
  by (simp add: slice_def)

lemma slice_put_other:
  assumes "off + length bs \<le> length buf" "o' + l \<le> length buf" "o' + l \<le> off \<or> off + length bs \<le> o'"
  shows "slice (put_bytes off bs buf) o' l = slice buf o' l"
proof (rule nth_equalityI)
  show "length (slice (put_bytes off bs buf) o' l) = length (slice buf o' l)" using assms(1,2) by (simp add: length_slice)
  fix i
  assume "i < length (slice (put_bytes off bs buf) o' l)"
  then have i: "i < l" using assms(1,2) by (simp add: length_slice)
  then have "slice (put_bytes off bs buf) o' l ! i = put_bytes off bs buf ! (o' + i)" using assms(1,2) by (simp add: nth_slice)
  also have "\<dots> = buf ! (o' + i)" using assms i by (auto simp: nth_put)
  also have "\<dots> = slice buf o' l ! i" using assms(2) i by (simp add: nth_slice)
  finally show "slice (put_bytes off bs buf) o' l ! i = slice buf o' l ! i" .
qed

lemma slice_append: "off + len \<le> length buf \<Longrightarrow> slice (buf @ x) off len = slice buf off len"
  by (simp add: slice_def)

lemma slice_append_new: "slice (buf @ x @ y) (length buf) (length x) = x"
  by (simp add: slice_def)

lemma slice_prefix: "slice buf off (m + n) = slice buf off m @ slice buf (off + m) n"
  by (simp add: slice_def take_add add.commute)

section \<open>Integers\<close>

lemma unat_byte: "unat (of_nat n :: 8 word) = n mod 256"
  by (simp add: unat_of_nat)

lemma of_le_le16: "of_le (le16 n) = n mod 65536"
proof -
  have "n mod 65536 = n mod 256 + 256 * (n div 256 mod 256)" using mod_mult2_eq [of n 256 256] by simp
  then show ?thesis by (simp add: le16_def unat_byte)
qed

lemma of_le_le32: "of_le (le32 n) = n mod 4294967296"
proof -
  have "n mod 4294967296 = n mod 65536 + 65536 * (n div 65536 mod 65536)" using mod_mult2_eq [of n 65536 65536] by simp
  moreover have "le32 n = le16 n @ le16 (n div 65536)" by (simp add: le32_def le16_def div_mult2_eq [symmetric])
  moreover have "of_le (le16 a @ bs) = of_le (le16 a) + 65536 * of_le bs" for a bs by (simp add: le16_def)
  ultimately show ?thesis by (simp add: of_le_le16)
qed

lemma s32_roundtrip: "-2147483648 \<le> v \<Longrightarrow> v < 2147483648 \<Longrightarrow> s32_of_u32 (u32_of_s32 v) = v"
proof -
  assume v: "-2147483648 \<le> v" "v < 2147483648"
  show ?thesis
  proof (cases "0 \<le> v")
    case True
    then have "v mod 4294967296 = v" using v by simp
    then show ?thesis using True v by (simp add: s32_of_u32_def u32_of_s32_def nat_less_iff nat_mod_distrib)
  next
    case False
    then have "v mod 4294967296 = v + 4294967296" using v mod_pos_pos_trivial [of "v + 4294967296" 4294967296] by simp
    then show ?thesis using False v by (simp add: s32_of_u32_def u32_of_s32_def nat_less_iff)
  qed
qed

lemma read_le16_slice: "slice buf off 2 = le16 n \<Longrightarrow> off + 2 \<le> length buf \<Longrightarrow> n < 65536 \<Longrightarrow> read_le16 buf off = Some n"
  by (simp add: read_le16_def read_bytes_def of_le_le16)

lemma read_le32_slice: "slice buf off 4 = le32 n \<Longrightarrow> off + 4 \<le> length buf \<Longrightarrow> n < 4294967296 \<Longrightarrow> read_le32 buf off = Some n"
  by (simp add: read_le32_def read_bytes_def of_le_le32)

lemma read_be32_slice: "slice buf off 4 = rev (le32 n) \<Longrightarrow> off + 4 \<le> length buf \<Longrightarrow> n < 4294967296 \<Longrightarrow> read_be32 buf off = Some n"
  by (simp add: read_be32_def read_bytes_def of_le_le32)

lemma read_cstr_slice:
  assumes "slice buf off (length k + 1) = k @ [0]" "off + length k + 1 \<le> length buf" "0 \<notin> set k"
  shows "read_cstr buf off = Some k"
proof -
  have "drop off buf = (k @ [0]) @ drop (length k + 1) (drop off buf)" using assms(1) by (metis append_take_drop_id slice_def)
  then obtain r where "drop off buf = k @ 0 # r" by auto
  moreover have "\<forall>b\<in>set k. b \<noteq> 0" using assms(3) by metis
  ultimately show ?thesis by (simp add: read_cstr_def takeWhile_append)
qed

lemma fmt_roundtrip [simp]: "fmt_of_code (fmt_code f) = Some f" "fmt_code f < 65536"
  by (cases f; simp add: fmt_of_code_def fmt_code_def)+

section \<open>The key table\<close>

text \<open>What the buffer says about the key of entry \<open>i\<close>.\<close>

definition key_stored :: "bytes \<Rightarrow> nat \<Rightarrow> nat \<Rightarrow> PSF_Entry \<Rightarrow> bool" where
  "key_stored buf kto i e \<longleftrightarrow> (\<exists>k. k < 65536 \<and> slice buf (raw_entry_at i) 2 = le16 k \<and> slice buf (raw_entry_at i + 2) 2 = le16 (fmt_code (param_fmt e))
     \<and> slice buf (raw_entry_at i + 8) 4 = le32 (max_len e)
     \<and> kto + k + length (ent_key e) + 1 \<le> length buf \<and> raw_entry_at (i + 1) \<le> kto
     \<and> slice buf (kto + k) (length (ent_key e) + 1) = ent_key e @ [0])"

lemma raw_entry_at_simps: "raw_entry_at (i + 1) = raw_entry_at i + 16" "raw_entry_at i = 20 + 16 * i"
  by (simp_all add: raw_entry_at_def sizeof_PSFHeader_def sizeof_PSFRawEntry_def)

abbreviation keys_size :: "PSF_Entry list \<Rightarrow> nat" where
  "keys_size es \<equiv> (\<Sum>e\<leftarrow>es. length (ent_key e) + 1)"

lemma encode_keys_spec:
  assumes "raw_entry_at (i + length es) \<le> kto" "kto \<le> length buf" "length buf + keys_size es \<le> kto + 65536"
  shows "length (encode_keys kto es i buf) = length buf + keys_size es
    \<and> (\<forall>off l. off + l \<le> raw_entry_at i \<or> raw_entry_at (i + length es) \<le> off \<longrightarrow> off + l \<le> length buf \<longrightarrow> slice (encode_keys kto es i buf) off l = slice buf off l)
    \<and> (\<forall>j<length es. key_stored (encode_keys kto es i buf) kto (i + j) (es ! j))"
  using assms
proof (induction es arbitrary: i buf)
  case Nil
  then show ?case by simp
next
  case (Cons e es)
  let ?r = "raw_entry_at i"
  define buf3 where "buf3 = put_bytes (?r + 8) (le32 (max_len e)) (put_bytes (?r + 2) (le16 (fmt_code (param_fmt e))) (put_bytes ?r (le16 (length buf - kto)) buf))"
  define buf4 where "buf4 = buf3 @ ent_key e @ [0]"
  have ri: "?r + 16 \<le> kto" "raw_entry_at (i + 1 + length es) \<le> kto" "raw_entry_at (i + 1) = ?r + 16" using Cons.prems(1) by (simp_all add: raw_entry_at_simps)
  have l3: "length buf3 = length buf" using ri Cons.prems(2) by (simp add: buf3_def)
  have l4: "length buf4 = length buf + (length (ent_key e) + 1)" by (simp add: buf4_def l3)
  define out where "out = encode_keys kto es (i + 1) buf4"
  have out: "encode_keys kto (e # es) i buf = out" by (simp add: out_def buf4_def buf3_def Let_def)
  have IH: "length out = length buf4 + keys_size es"
    "\<And>off l. off + l \<le> ?r + 16 \<or> raw_entry_at (i + 1 + length es) \<le> off \<Longrightarrow> off + l \<le> length buf4 \<Longrightarrow> slice out off l = slice buf4 off l"
    "\<And>j. j < length es \<Longrightarrow> key_stored out kto (i + 1 + j) (es ! j)"
    using Cons.IH [of "i + 1" buf4] ri(2) Cons.prems(2,3) l4 unfolding out_def ri(3) by auto
  have f3: "slice buf3 off l = slice buf off l" if "off + l \<le> ?r \<or> ?r + 16 \<le> off" "off + l \<le> length buf" for off l
    using that ri Cons.prems(2) by (auto simp: buf3_def slice_put_other)
  have w3: "slice buf3 ?r 2 = le16 (length buf - kto)" "slice buf3 (?r + 2) 2 = le16 (fmt_code (param_fmt e))" "slice buf3 (?r + 8) 4 = le32 (max_len e)"
    using ri Cons.prems(2) slice_put_same [of ?r "le16 (length buf - kto)" buf]
      slice_put_same [of "?r + 2" "le16 (fmt_code (param_fmt e))" "put_bytes ?r (le16 (length buf - kto)) buf"]
      slice_put_same [of "?r + 8" "le32 (max_len e)" "put_bytes (?r + 2) (le16 (fmt_code (param_fmt e))) (put_bytes ?r (le16 (length buf - kto)) buf)"]
    by (simp_all add: buf3_def slice_put_other)
  have "slice out off l = slice buf off l" if "off + l \<le> ?r \<or> raw_entry_at (i + length (e # es)) \<le> off" "off + l \<le> length buf" for off l
  proof -
    have "slice out off l = slice buf4 off l" using that l4 by (intro IH(2)) auto
    also have "\<dots> = slice buf3 off l" using that(2) l3 by (simp add: buf4_def slice_append)
    also have "\<dots> = slice buf off l" using that by (intro f3) (auto simp: raw_entry_at_simps)
    finally show ?thesis .
  qed
  moreover have "key_stored out kto i e"
  proof -
    have o: "slice out (?r + d) l = slice buf3 (?r + d) l" if "d + l \<le> 16" for d l
      using IH(2) [of "?r + d" l] that ri(1) Cons.prems(2) l3 l4 by (simp add: buf4_def slice_append)
    have "slice out (length buf) (length (ent_key e) + 1) = slice buf4 (length buf) (length (ent_key e) + 1)"
      using l4 ri(2) Cons.prems(2) by (intro IH(2)) auto
    also have "\<dots> = ent_key e @ [0]" using slice_append_new [of buf3 "ent_key e @ [0]" "[]"] l3 by (simp add: buf4_def)
    finally have kk: "slice out (kto + (length buf - kto)) (length (ent_key e) + 1) = ent_key e @ [0]" using Cons.prems(2) by simp
    have "length buf - kto < 65536" "kto + (length buf - kto) + length (ent_key e) + 1 \<le> length out" using Cons.prems(2,3) IH(1) l4 by simp_all
    then show ?thesis unfolding key_stored_def using o [of 0 2] o [of 2 2] o [of 8 4] w3 kk ri(1,3) by (intro exI [of _ "length buf - kto"]) simp
  qed
  ultimately show ?case using IH(1,3) l4 unfolding out by (auto simp: less_Suc_eq_0_disj)
qed

section \<open>The data table\<close>

definition data_stored :: "bytes \<Rightarrow> nat \<Rightarrow> PSF \<Rightarrow> nat \<Rightarrow> PSF_Entry \<Rightarrow> bool" where
  "data_stored buf dto p i e \<longleftrightarrow> (\<exists>v d. entry_data p i (param_fmt e) = Some v \<and> d < 4294967296 \<and> length v < 4294967296
     \<and> slice buf (raw_entry_at i + 4) 4 = le32 (length v) \<and> slice buf (raw_entry_at i + 12) 4 = le32 d
     \<and> dto + d + length v \<le> length buf \<and> slice buf (dto + d) (length v) = v)"

text \<open>Slices that writing the data of \<open>n\<close> entries from \<open>i\<close> on does not touch: the loop writes two fields of each raw entry and appends.\<close>

definition untouched :: "nat \<Rightarrow> nat \<Rightarrow> nat \<Rightarrow> nat \<Rightarrow> bool" where
  "untouched i n off l \<longleftrightarrow> (\<forall>j<n. (off + l \<le> raw_entry_at (i + j) + 4 \<or> raw_entry_at (i + j) + 8 \<le> off)
      \<and> (off + l \<le> raw_entry_at (i + j) + 12 \<or> raw_entry_at (i + j) + 16 \<le> off))"

lemma untouched_Suc: "untouched i (Suc n) off l \<longleftrightarrow>
    (off + l \<le> raw_entry_at i + 4 \<or> raw_entry_at i + 8 \<le> off) \<and> (off + l \<le> raw_entry_at i + 12 \<or> raw_entry_at i + 16 \<le> off) \<and> untouched (i + 1) n off l"
  unfolding untouched_def by (auto simp: less_Suc_eq_0_disj)

lemma untouched_after: "raw_entry_at (i + n) \<le> off \<Longrightarrow> untouched i n off l"
  by (auto simp: untouched_def raw_entry_at_simps)

lemma untouched_before: "off + l \<le> raw_entry_at i \<Longrightarrow> untouched i n off l"
  by (auto simp: untouched_def raw_entry_at_simps)

abbreviation data_bound :: "PSF_Entry list \<Rightarrow> nat" where
  "data_bound es \<equiv> (\<Sum>e\<leftarrow>es. max_len e + 3)"

lemma pad4_spec: "\<exists>z. pad4 buf = buf @ z \<and> length z \<le> 3"
proof -
  have "4 - length buf mod 4 \<le> 3" if "length buf mod 4 \<noteq> 0" using that by linarith
  then show ?thesis by (auto simp: pad4_def)
qed

lemma s32_of_u32_small: "n < 2147483648 \<Longrightarrow> s32_of_u32 n = int n"
  by (simp add: s32_of_u32_def)

lemma encode_entry_spec:
  assumes "raw_entry_at (i + 1) \<le> dto" "dto \<le> length buf" "entry_data p i (param_fmt e) = Some v" "length v \<le> max_len e" "max_len e < 2147483648"
    "slice buf (raw_entry_at i + 8) 4 = le32 (max_len e)" "length buf + max_len e + 3 < 4294967296"
  shows "\<exists>out. encode_entry p dto i e buf = Some out \<and> length buf \<le> length out \<and> length out \<le> length buf + max_len e + 3
    \<and> (\<forall>off l. untouched i 1 off l \<longrightarrow> off + l \<le> length buf \<longrightarrow> slice out off l = slice buf off l)
    \<and> data_stored out dto p i e"
proof -
  let ?r = "raw_entry_at i"
  obtain z where z: "pad4 buf = buf @ z" "length z \<le> 3" using pad4_spec by blast
  define b where "b = buf @ z"
  define b1 where "b1 = put_bytes (?r + 12) (le32 (length b - dto)) b"
  define b2 where "b2 = put_bytes (?r + 4) (le32 (length v)) b1"
  define out where "out = b2 @ v @ replicate (max_len e - length v) 0"
  have r: "?r + 16 \<le> dto" using assms(1) by (simp add: raw_entry_at_simps)
  have lb: "length b = length buf + length z" "length b1 = length b" "length b2 = length b" using r assms(2) by (simp_all add: b_def b1_def b2_def)
  have lo: "length out = length b + max_len e" using assms(4) lb by (simp add: out_def)
  have "slice b1 (?r + 8) 4 = le32 (max_len e)"
  proof -
    have "slice b1 (?r + 8) 4 = slice b (?r + 8) 4" unfolding b1_def using r assms(2) lb(1) by (intro slice_put_other) auto
    also have "\<dots> = slice buf (?r + 8) 4" unfolding b_def using r assms(2) by (intro slice_append) auto
    finally show ?thesis using assms(6) by simp
  qed
  then have m: "read_le32 b1 (?r + 8) = Some (max_len e)" using r assms(2,5) lb by (intro read_le32_slice) auto
  have "encode_entry p dto i e buf = Some out"
    using m assms(3-5) s32_of_u32_small [of "max_len e"] s32_of_u32_small [of "length v"]
    by (simp add: encode_entry_def z(1) flip: b_def) (simp add: out_def b2_def nat_diff_distrib' flip: b1_def)
  moreover have "slice out off l = slice buf off l" if u: "untouched i 1 off l" "off + l \<le> length buf" for off l
  proof -
    have "slice out off l = slice b2 off l" unfolding out_def using u(2) lb by (intro slice_append) auto
    also have "\<dots> = slice b1 off l" unfolding b2_def using u r assms(2) lb by (intro slice_put_other) (auto simp: untouched_def)
    also have "\<dots> = slice b off l" unfolding b1_def using u r assms(2) lb by (intro slice_put_other) (auto simp: untouched_def)
    also have "\<dots> = slice buf off l" unfolding b_def using u(2) by (rule slice_append)
    finally show ?thesis .
  qed
  moreover have "data_stored out dto p i e"
  proof -
    have "slice out (?r + 4) 4 = slice b2 (?r + 4) 4" unfolding out_def using r assms(2) lb by (intro slice_append) auto
    also have "\<dots> = le32 (length v)" unfolding b2_def using slice_put_same [of "?r + 4" "le32 (length v)" b1] r assms(2) lb by simp
    finally have a: "slice out (?r + 4) 4 = le32 (length v)" .
    have "slice out (?r + 12) 4 = slice b2 (?r + 12) 4" unfolding out_def using r assms(2) lb by (intro slice_append) auto
    also have "\<dots> = slice b1 (?r + 12) 4" unfolding b2_def using r assms(2) lb by (intro slice_put_other) auto
    also have "\<dots> = le32 (length b - dto)" unfolding b1_def using slice_put_same [of "?r + 12" "le32 (length b - dto)" b] r assms(2) lb by simp
    finally have d: "slice out (?r + 12) 4 = le32 (length b - dto)" .
    have "slice out (dto + (length b - dto)) (length v) = v" using slice_append_new [of b2 v] assms(2) lb by (simp add: out_def)
    moreover have "length b - dto < 4294967296" "length v < 4294967296" "dto + (length b - dto) + length v \<le> length out"
      using assms(2,4,7) z(2) lb lo by auto
    ultimately show ?thesis unfolding data_stored_def using assms(3) a d by blast
  qed
  ultimately show ?thesis using lo lb z(2) by (intro exI [of _ out]) auto
qed

lemma encode_data_spec:
  assumes "raw_entry_at (i + length es) \<le> dto" "dto \<le> length buf" "length buf + data_bound es < 4294967296"
    "\<forall>j<length es. max_len (es ! j) < 2147483648 \<and> (\<exists>v. entry_data p (i + j) (param_fmt (es ! j)) = Some v \<and> length v \<le> max_len (es ! j))"
    "\<forall>j<length es. slice buf (raw_entry_at (i + j) + 8) 4 = le32 (max_len (es ! j))"
  shows "\<exists>out. encode_data p dto es i buf = Some out \<and> length buf \<le> length out
    \<and> (\<forall>off l. untouched i (length es) off l \<longrightarrow> off + l \<le> length buf \<longrightarrow> slice out off l = slice buf off l)
    \<and> (\<forall>j<length es. data_stored out dto p (i + j) (es ! j))"
  using assms
proof (induction es arbitrary: i buf)
  case Nil
  then show ?case by simp
next
  case (Cons e es)
  have r: "raw_entry_at (i + 1) \<le> dto" "raw_entry_at (i + 1 + length es) \<le> dto" using Cons.prems(1) by (simp_all add: raw_entry_at_simps)
  obtain v where v: "entry_data p i (param_fmt e) = Some v" "length v \<le> max_len e" "max_len e < 2147483648" using Cons.prems(4) by fastforce
  have "slice buf (raw_entry_at i + 8) 4 = le32 (max_len e)" using Cons.prems(5) by fastforce
  from encode_entry_spec [OF r(1) Cons.prems(2) v this] Cons.prems(3) obtain b where b: "encode_entry p dto i e buf = Some b"
    "length buf \<le> length b" "length b \<le> length buf + max_len e + 3" "data_stored b dto p i e"
    "\<And>off l. untouched i 1 off l \<Longrightarrow> off + l \<le> length buf \<Longrightarrow> slice b off l = slice buf off l" by auto
  have "slice b (raw_entry_at (i + 1 + j) + 8) 4 = le32 (max_len (es ! j))" if "j < length es" for j
  proof -
    have "slice b (raw_entry_at (i + 1 + j) + 8) 4 = slice buf (raw_entry_at (i + 1 + j) + 8) 4"
      using that r(2) Cons.prems(2) by (intro b(5)) (auto simp: untouched_def raw_entry_at_simps)
    then show ?thesis using Cons.prems(5) that by (metis Suc_less_eq add.assoc length_Cons nth_Cons_Suc plus_1_eq_Suc)
  qed
  moreover have "\<forall>j<length es. max_len (es ! j) < 2147483648 \<and> (\<exists>v. entry_data p (i + 1 + j) (param_fmt (es ! j)) = Some v \<and> length v \<le> max_len (es ! j))"
    using Cons.prems(4) by (metis Suc_less_eq add.assoc length_Cons nth_Cons_Suc plus_1_eq_Suc)
  ultimately obtain out where out: "encode_data p dto es (i + 1) b = Some out" "length b \<le> length out"
    "\<And>off l. untouched (i + 1) (length es) off l \<Longrightarrow> off + l \<le> length b \<Longrightarrow> slice out off l = slice b off l"
    "\<And>j. j < length es \<Longrightarrow> data_stored out dto p (i + 1 + j) (es ! j)"
    using Cons.IH [of "i + 1" b] r(2) Cons.prems(2,3) b(2,3) by auto
  have "encode_data p dto (e # es) i buf = Some out" using b(1) out(1) by simp
  moreover have "slice out off l = slice buf off l" if "untouched i (length (e # es)) off l" "off + l \<le> length buf" for off l
  proof -
    have u: "untouched (i + 1) (length es) off l" "untouched i 1 off l" using that(1) by (auto simp: untouched_Suc untouched_def)
    show ?thesis using out(3) [OF u(1)] b(5) [OF u(2)] that(2) b(2) by simp
  qed
  moreover have "data_stored out dto p i e"
  proof -
    obtain w d where w: "entry_data p i (param_fmt e) = Some w" "d < 4294967296" "length w < 4294967296"
      "slice b (raw_entry_at i + 4) 4 = le32 (length w)" "slice b (raw_entry_at i + 12) 4 = le32 d" "dto + d + length w \<le> length b" "slice b (dto + d) (length w) = w"
      using b(4) unfolding data_stored_def by blast
    have "slice out (raw_entry_at i + 4) 4 = slice b (raw_entry_at i + 4) 4" "slice out (raw_entry_at i + 12) 4 = slice b (raw_entry_at i + 12) 4"
      using r(1) Cons.prems(2) b(2) by (auto intro!: out(3) untouched_before simp: raw_entry_at_simps)
    moreover have "slice out (dto + d) (length w) = slice b (dto + d) (length w)"
      using w(6) r(2) by (intro out(3) untouched_after) auto
    ultimately show ?thesis unfolding data_stored_def using w out(2) by (intro exI [of _ w] exI [of _ d]) simp
  qed
  ultimately show ?case using out(2,4) b(2) by (intro exI [of _ out]) (auto simp: less_Suc_eq_0_disj)
qed

end
