(* ===== verification/Psf_Correct.thy ===== *)
theory Psf_Correct
  imports Psf_Tables
begin

text \<open>
  Parameter files: the round trip of encoding and opening, the typing of the values, and additions and lookups.
\<close>

section \<open>Files that can be written\<close>

text \<open>
  Every entry has a value of its format, no longer than its maximal length, there are no other values, keys and
  texts contain no zero byte, and the tables are within the reach of their 16-bit and 32-bit offsets.
\<close>

definition entry_ok :: "PSF \<Rightarrow> nat \<Rightarrow> bool" where
  "entry_ok p i \<longleftrightarrow> (let e = entry_list p ! i in
     0 \<notin> set (ent_key e) \<and> max_len e < 2147483648
   \<and> (case param_fmt e of
        Binary \<Rightarrow> (\<exists>v. map_binaries p i = Some v \<and> length v \<le> max_len e) \<and> map_strings p i = None \<and> map_integers p i = None
      | Text \<Rightarrow> (\<exists>v. map_strings p i = Some v \<and> 0 \<notin> set v \<and> length v + 1 \<le> max_len e) \<and> map_binaries p i = None \<and> map_integers p i = None
      | Integer \<Rightarrow> (\<exists>v. map_integers p i = Some v \<and> -2147483648 \<le> v \<and> v < 2147483648 \<and> 4 \<le> max_len e) \<and> map_binaries p i = None \<and> map_strings p i = None))"

definition psf_ok :: "PSF \<Rightarrow> bool" where
  "psf_ok p \<longleftrightarrow> (\<forall>i<length (entry_list p). entry_ok p i)
   \<and> (\<forall>i\<ge>length (entry_list p). map_binaries p i = None \<and> map_strings p i = None \<and> map_integers p i = None)
   \<and> keys_size (entry_list p) \<le> 65536 \<and> raw_entry_at (length (entry_list p)) + keys_size (entry_list p) + data_bound (entry_list p) < 4294967296"

lemma entry_ok_data:
  assumes "entry_ok p i"
  shows "max_len (entry_list p ! i) < 2147483648" "\<exists>v. entry_data p i (param_fmt (entry_list p ! i)) = Some v \<and> length v \<le> max_len (entry_list p ! i)"
  using assms by (auto simp: entry_ok_def entry_data_def Let_def split: PSFEntryFmt.splits)

lemma key_stored_frame:
  assumes "key_stored b kto j e" "length b \<le> length out" "kto \<le> length b"
    "\<And>d l. d + l \<le> 4 \<or> 8 \<le> d \<and> d + l \<le> 12 \<Longrightarrow> slice out (raw_entry_at j + d) l = slice b (raw_entry_at j + d) l"
    "\<And>off l. kto \<le> off \<Longrightarrow> off + l \<le> length b \<Longrightarrow> slice out off l = slice b off l"
  shows "key_stored out kto j e"
  using assms(1,2) assms(4) [of 0 2] assms(4) [of 2 2] assms(4) [of 8 4] assms(5) [of "kto + _" "length (ent_key e) + 1"]
  unfolding key_stored_def by (auto intro: order_trans)

lemma untouched_field:
  assumes "d + l \<le> 4 \<or> 8 \<le> d \<and> d + l \<le> 12"
  shows "untouched i n (raw_entry_at j + d) l"
  unfolding untouched_def
proof (intro allI impI)
  fix m
  consider "i + m = j" | "i + m + 1 \<le> j" | "j + 1 \<le> i + m" by linarith
  then show "(raw_entry_at j + d + l \<le> raw_entry_at (i + m) + 4 \<or> raw_entry_at (i + m) + 8 \<le> raw_entry_at j + d)
      \<and> (raw_entry_at j + d + l \<le> raw_entry_at (i + m) + 12 \<or> raw_entry_at (i + m) + 16 \<le> raw_entry_at j + d)"
  proof cases
    case 1
    then show ?thesis using assms by auto
  next
    case 2
    then have "raw_entry_at (i + m) + 16 \<le> raw_entry_at j" by (simp add: raw_entry_at_simps)
    then show ?thesis by simp
  next
    case 3
    then have "raw_entry_at j + 16 \<le> raw_entry_at (i + m)" by (simp add: raw_entry_at_simps)
    then show ?thesis using assms by auto
  qed
qed

lemma PSF_Encode_spec:
  assumes "psf_ok p"
  shows "\<exists>out dto. PSF_Encode p psf_buffer = Some out \<and> 20 \<le> length out \<and> dto < 4294967296
    \<and> slice out 0 4 = rev (le32 PSF_MAGIC) \<and> slice out 4 4 = le32 PSF_VERSION_1_1 \<and> slice out 8 4 = le32 (raw_entry_at (length (entry_list p)))
    \<and> slice out 12 4 = le32 dto \<and> slice out 16 4 = le32 (length (entry_list p))
    \<and> (\<forall>i<length (entry_list p). key_stored out (raw_entry_at (length (entry_list p))) i (entry_list p ! i) \<and> data_stored out dto p i (entry_list p ! i))"
proof -
  let ?es = "entry_list p" let ?n = "length (entry_list p)" let ?kto = "raw_entry_at (length (entry_list p))"
  have ok: "\<forall>i<?n. entry_ok p i" "keys_size ?es \<le> 65536" "?kto + keys_size ?es + data_bound ?es < 4294967296" using assms by (auto simp: psf_ok_def)
  have k20: "20 \<le> ?kto" "raw_entry_at 0 = 20" by (simp_all add: raw_entry_at_simps)
  have size0: "sizeof_PSFHeader + sizeof_PSFRawEntry * ?n = ?kto" by (simp add: raw_entry_at_def mult.commute)
  define b0 where "b0 = take ?kto psf_buffer @ replicate (?kto - length psf_buffer) 0"
  define b1 where "b1 = put_bytes 0 (rev (le32 PSF_MAGIC)) b0"
  define b2 where "b2 = put_bytes 4 (le32 PSF_VERSION_1_1) b1"
  define b3 where "b3 = put_bytes 16 (le32 ?n) b2"
  define b4 where "b4 = put_bytes 8 (le32 ?kto) b3"
  define b5 where "b5 = encode_keys ?kto ?es 0 b4"
  define dto where "dto = length b5"
  define b6 where "b6 = put_bytes 12 (le32 dto) b5"
  have l: "length b0 = ?kto" "length b1 = ?kto" "length b2 = ?kto" "length b3 = ?kto" "length b4 = ?kto"
    using k20 by (simp_all add: b0_def b1_def b2_def b3_def b4_def)
  have enc: "PSF_Encode p psf_buffer = encode_data p dto ?es 0 b6"
    unfolding PSF_Encode_def Let_def size0 using l(4)
    by (simp add: b6_def dto_def b5_def b4_def b3_def b2_def b1_def b0_def)
  have h4: "slice b4 0 4 = rev (le32 PSF_MAGIC)" "slice b4 4 4 = le32 PSF_VERSION_1_1" "slice b4 8 4 = le32 ?kto" "slice b4 16 4 = le32 ?n"
    using k20 l slice_put_same [of 0 "rev (le32 PSF_MAGIC)" b0] slice_put_same [of 4 "le32 PSF_VERSION_1_1" b1]
      slice_put_same [of 16 "le32 ?n" b2] slice_put_same [of 8 "le32 ?kto" b3]
    by (simp_all add: b4_def b3_def b2_def b1_def slice_put_other)
  have K: "length b5 = ?kto + keys_size ?es" "\<And>off len. off + len \<le> 20 \<Longrightarrow> slice b5 off len = slice b4 off len"
      "\<And>j. j < ?n \<Longrightarrow> key_stored b5 ?kto j (?es ! j)"
    using encode_keys_spec [of 0 ?es ?kto b4] ok(2) l(5) k20 unfolding b5_def by auto
  have l6: "length b6 = dto" using K(1) k20 by (simp add: b6_def dto_def)
  have f6: "slice b6 off len = slice b5 off len" if "off + len \<le> 12 \<or> 16 \<le> off" "off + len \<le> dto" for off len
    using that K(1) k20 by (auto simp: b6_def dto_def slice_put_other)
  have dk: "?kto \<le> dto" using K(1) by (simp add: dto_def)
  have h6: "slice b6 0 4 = rev (le32 PSF_MAGIC)" "slice b6 4 4 = le32 PSF_VERSION_1_1" "slice b6 8 4 = le32 ?kto" "slice b6 16 4 = le32 ?n" "slice b6 12 4 = le32 dto"
    using f6 K(2) h4 dk k20(1) slice_put_same [of 12 "le32 dto" b5] by (simp_all add: b6_def dto_def)
  have m6: "\<forall>j<?n. slice b6 (raw_entry_at (0 + j) + 8) 4 = le32 (max_len (?es ! j))"
  proof (intro allI impI)
    fix j assume j: "j < ?n"
    have "slice b6 (raw_entry_at j + 8) 4 = slice b5 (raw_entry_at j + 8) 4" using dk j by (intro f6) (auto simp: raw_entry_at_simps)
    then show "slice b6 (raw_entry_at (0 + j) + 8) 4 = le32 (max_len (?es ! j))" using K(3) [OF j] by (auto simp: key_stored_def)
  qed
  obtain out where out: "encode_data p dto ?es 0 b6 = Some out" "dto \<le> length out"
    "\<And>off len. untouched 0 ?n off len \<Longrightarrow> off + len \<le> dto \<Longrightarrow> slice out off len = slice b6 off len"
    "\<And>j. j < ?n \<Longrightarrow> data_stored out dto p j (?es ! j)"
    using encode_data_spec [of 0 ?es dto b6 p] m6 dk l6 ok entry_ok_data K(1) by (auto simp: dto_def)
  have H: "slice out off 4 = slice b6 off 4" if "off \<le> 16" for off using that dk k20 by (intro out(3) untouched_before) auto
  have "key_stored out ?kto j (?es ! j)" if j: "j < ?n" for j
  proof (rule key_stored_frame [OF K(3) [OF j]])
    show "length b5 \<le> length out" "?kto \<le> length b5" using out(2) dk by (simp_all add: dto_def)
    fix d len :: nat assume dl: "d + len \<le> 4 \<or> 8 \<le> d \<and> d + len \<le> 12"
    have le: "raw_entry_at j + d + len \<le> dto" using dl dk j by (auto simp: raw_entry_at_simps)
    have "slice out (raw_entry_at j + d) len = slice b6 (raw_entry_at j + d) len" by (rule out(3) [OF untouched_field [OF dl] le])
    also have "\<dots> = slice b5 (raw_entry_at j + d) len" using le by (intro f6) (auto simp: raw_entry_at_simps)
    finally show "slice out (raw_entry_at j + d) len = slice b5 (raw_entry_at j + d) len" .
  next
    fix off len assume o: "?kto \<le> off" "off + len \<le> length b5"
    have "slice out off len = slice b6 off len" using o by (intro out(3) untouched_after) (auto simp: dto_def)
    also have "\<dots> = slice b5 off len" using o k20 by (intro f6) (auto simp: dto_def)
    finally show "slice out off len = slice b5 off len" .
  qed
  moreover have "dto < 4294967296" using ok(3) K(1) by (simp add: dto_def)
  ultimately show ?thesis using out(1,2,4) enc h6 H [of 0] H [of 4] H [of 8] H [of 12] H [of 16] dk k20(1)
    by (intro exI [of _ out] exI [of _ dto]) simp
qed

section \<open>Reading back\<close>

definition psf_prefix :: "PSF \<Rightarrow> nat \<Rightarrow> PSF" where
  "psf_prefix p i = \<lparr>entry_list = take i (entry_list p), map_binaries = map_binaries p |` {..<i}, map_strings = map_strings p |` {..<i},
     map_integers = map_integers p |` {..<i}\<rparr>"

lemma restrict_Suc_None: "m i = None \<Longrightarrow> m |` {..<Suc i} = m |` {..<i}"
  by (auto simp: restrict_map_def fun_eq_iff less_Suc_eq)

lemma restrict_Suc_Some: "m i = Some v \<Longrightarrow> map_emplace i v (m |` {..<i}) = m |` {..<Suc i}"
  by (auto simp: map_emplace_def restrict_map_def fun_eq_iff less_Suc_eq)

lemma read_raw_entry_stored:
  assumes "key_stored buf kto i e" "data_stored buf dto p i e" "max_len e < 4294967296"
  shows "\<exists>k d v. read_raw_entry buf (raw_entry_at i) = Some \<lparr>raw_key_offset = k, raw_param_fmt = fmt_code (param_fmt e), raw_param_len = length v, raw_param_max_len = max_len e, raw_data_offset = d\<rparr>
     \<and> entry_data p i (param_fmt e) = Some v
     \<and> kto + k + length (ent_key e) + 1 \<le> length buf \<and> slice buf (kto + k) (length (ent_key e) + 1) = ent_key e @ [0]
     \<and> dto + d + length v \<le> length buf \<and> slice buf (dto + d) (length v) = v"
proof -
  obtain k where k: "k < 65536" "slice buf (raw_entry_at i) 2 = le16 k" "slice buf (raw_entry_at i + 2) 2 = le16 (fmt_code (param_fmt e))"
    "slice buf (raw_entry_at i + 8) 4 = le32 (max_len e)" "kto + k + length (ent_key e) + 1 \<le> length buf" "raw_entry_at (i + 1) \<le> kto"
    "slice buf (kto + k) (length (ent_key e) + 1) = ent_key e @ [0]" using assms(1) unfolding key_stored_def by blast
  obtain v d where v: "entry_data p i (param_fmt e) = Some v" "d < 4294967296" "length v < 4294967296"
    "slice buf (raw_entry_at i + 4) 4 = le32 (length v)" "slice buf (raw_entry_at i + 12) 4 = le32 d" "dto + d + length v \<le> length buf" "slice buf (dto + d) (length v) = v"
    using assms(2) unfolding data_stored_def by blast
  have in_buf: "raw_entry_at i + 16 \<le> length buf" using k(5,6) by (simp add: raw_entry_at_simps)
  have "read_le16 buf (raw_entry_at i) = Some k" "read_le16 buf (raw_entry_at i + 2) = Some (fmt_code (param_fmt e))"
    "read_le32 buf (raw_entry_at i + 4) = Some (length v)" "read_le32 buf (raw_entry_at i + 8) = Some (max_len e)" "read_le32 buf (raw_entry_at i + 12) = Some d"
    using k(1-4) v(2-5) in_buf assms(3) by (auto intro!: read_le16_slice read_le32_slice)
  then show ?thesis using k(5,7) v(1,6,7) by (intro exI [of _ k] exI [of _ d] exI [of _ v]) (simp add: read_raw_entry_def)
qed

lemma open_entry_prefix:
  assumes ok: "entry_ok p i" and i: "i < length (entry_list p)" and K: "key_stored buf kto i (entry_list p ! i)" and D: "data_stored buf dto p i (entry_list p ! i)"
    and h: "key_table_offset header = kto" "data_table_offset header = dto"
  shows "open_entry buf header i (psf_prefix p i) = Some (psf_prefix p (i + 1))"
proof -
  let ?e = "entry_list p ! i"
  have ok': "0 \<notin> set (ent_key ?e)" "max_len ?e < 2147483648" using ok by (auto simp: entry_ok_def Let_def)
  have ml: "max_len ?e < 4294967296" using ok'(2) by simp
  obtain k d v where raw: "read_raw_entry buf (raw_entry_at i) = Some \<lparr>raw_key_offset = k, raw_param_fmt = fmt_code (param_fmt ?e), raw_param_len = length v, raw_param_max_len = max_len ?e, raw_data_offset = d\<rparr>"
    and v: "entry_data p i (param_fmt ?e) = Some v" and ks: "kto + k + length (ent_key ?e) + 1 \<le> length buf" "slice buf (kto + k) (length (ent_key ?e) + 1) = ent_key ?e @ [0]"
    and ds: "dto + d + length v \<le> length buf" "slice buf (dto + d) (length v) = v"
    using read_raw_entry_stored [OF K D ml] by blast
  have c: "read_cstr buf (kto + k) = Some (ent_key ?e)" by (rule read_cstr_slice [OF ks(2) ks(1) ok'(1)])
  have tk: "take i (entry_list p) @ [\<lparr>ent_key = ent_key ?e, param_fmt = param_fmt ?e, max_len = max_len ?e\<rparr>] = take (Suc i) (entry_list p)"
    using i by (simp add: take_Suc_conv_app_nth)
  have raw': "read_raw_entry buf (sizeof_PSFHeader + i * sizeof_PSFRawEntry) = read_raw_entry buf (raw_entry_at i)" by (simp add: raw_entry_at_def)
  show ?thesis
  proof (cases "param_fmt ?e")
    case Binary
    have m: "map_binaries p i = Some v" "map_strings p i = None" "map_integers p i = None" using ok v Binary by (auto simp: entry_ok_def Let_def entry_data_def)
    have "read_bytes buf (dto + d) (length v) = Some v" using ds by (simp add: read_bytes_def)
    then show ?thesis unfolding open_entry_def raw' raw using c tk m Binary fmt_roundtrip(1) [of Binary]
      by (simp add: h psf_prefix_def restrict_Suc_None restrict_Suc_Some)
  next
    case Text
    obtain s where m: "map_strings p i = Some s" "0 \<notin> set s" "v = s @ [0]" "map_binaries p i = None" "map_integers p i = None"
      using ok v Text by (auto simp: entry_ok_def Let_def entry_data_def)
    have "read_cstr buf (dto + d) = Some s" using ds m(2,3) by (intro read_cstr_slice) auto
    then show ?thesis unfolding open_entry_def raw' raw using c tk m Text fmt_roundtrip(1) [of Text]
      by (simp add: h psf_prefix_def restrict_Suc_None restrict_Suc_Some)
  next
    case Integer
    obtain x where m: "map_integers p i = Some x" "-2147483648 \<le> x" "x < 2147483648" "v = le32 (u32_of_s32 x)" "map_binaries p i = None" "map_strings p i = None"
      using ok v Integer by (auto simp: entry_ok_def Let_def entry_data_def)
    have "u32_of_s32 x < 4294967296" by (simp add: u32_of_s32_def nat_less_iff)
    then have "read_le32 buf (dto + d) = Some (u32_of_s32 x)" using ds m(4) by (intro read_le32_slice) auto
    then show ?thesis unfolding open_entry_def raw' raw using c tk m Integer fmt_roundtrip(1) [of Integer] s32_roundtrip [OF m(2,3)]
      by (simp add: h psf_prefix_def restrict_Suc_None restrict_Suc_Some)
  qed
qed

lemma open_loop_prefix:
  assumes "\<forall>i<length (entry_list p). entry_ok p i \<and> key_stored buf kto i (entry_list p ! i) \<and> data_stored buf dto p i (entry_list p ! i)"
    "key_table_offset header = kto" "data_table_offset header = dto" "i + n \<le> length (entry_list p)"
  shows "open_loop buf header n i (psf_prefix p i) = Some (psf_prefix p (i + n))"
  using assms(4)
proof (induction n arbitrary: i)
  case (Suc n)
  have "open_entry buf header i (psf_prefix p i) = Some (psf_prefix p (i + 1))"
    using Suc.prems assms(1) by (intro open_entry_prefix [OF _ _ _ _ assms(2,3)]) auto
  then show ?case using Suc.IH [of "i + 1"] Suc.prems by simp
qed simp

lemma psf_prefix_all:
  assumes "psf_ok p"
  shows "psf_prefix p (length (entry_list p)) = p"
proof -
  have n: "map_binaries p i = None" "map_strings p i = None" "map_integers p i = None" if "\<not> i < length (entry_list p)" for i
    using assms that unfolding psf_ok_def by (meson not_less)+
  have "m |` {..<l} = m" if "\<And>i. \<not> i < l \<Longrightarrow> m i = None" for m :: "nat \<Rightarrow> 'v option" and l using that by (auto simp: restrict_map_def fun_eq_iff)
  from this [OF n(1)] this [OF n(2)] this [OF n(3)] show ?thesis unfolding psf_prefix_def by (simp flip: PSF.surjective)
qed

section \<open>Properties\<close>

text \<open>
  C23. Encoding and opening are inverse: a file whose entries fit their maximal lengths and whose tables fit their offsets is encoded without an assertion failing,
  whatever the buffer held before, and opening the result gives the same entries, in the same order, with
  the same keys, formats, maximal lengths and values.
\<close>

theorem psf_roundtrip:
  assumes "psf_ok p"
  shows "\<exists>out. PSF_Encode p psf_buffer = Some out \<and> PSF_Open out q = Some (True, p)"
proof -
  let ?n = "length (entry_list p)"
  obtain out dto where o: "PSF_Encode p psf_buffer = Some out" "20 \<le> length out" "dto < 4294967296"
    "slice out 0 4 = rev (le32 PSF_MAGIC)" "slice out 4 4 = le32 PSF_VERSION_1_1" "slice out 8 4 = le32 (raw_entry_at ?n)"
    "slice out 12 4 = le32 dto" "slice out 16 4 = le32 ?n"
    "\<forall>i<?n. key_stored out (raw_entry_at ?n) i (entry_list p ! i) \<and> data_stored out dto p i (entry_list p ! i)"
    using PSF_Encode_spec [OF assms] by metis
  have ok: "\<forall>i<?n. entry_ok p i" "raw_entry_at ?n < 4294967296" using assms by (auto simp: psf_ok_def)
  then have n: "?n < 4294967296" by (simp add: raw_entry_at_simps)
  define header where "header = \<lparr>magic = PSF_MAGIC, version = PSF_VERSION_1_1, key_table_offset = raw_entry_at ?n, data_table_offset = dto, index_table_entries = ?n\<rparr>"
  have "read_be32 out 0 = Some PSF_MAGIC" "read_le32 out 4 = Some PSF_VERSION_1_1" "read_le32 out 8 = Some (raw_entry_at ?n)"
    "read_le32 out 12 = Some dto" "read_le32 out 16 = Some ?n"
    using o(2-8) ok(2) n by (auto intro!: read_be32_slice read_le32_slice simp: PSF_MAGIC_def PSF_VERSION_1_1_def)
  then have "read_header out = Some header" by (simp add: read_header_def header_def)
  moreover have "open_loop out header ?n 0 (psf_prefix p 0) = Some (psf_prefix p (0 + ?n))"
    by (rule open_loop_prefix [of p out "raw_entry_at ?n" dto]) (use o(9) ok(1) in \<open>auto simp: header_def\<close>)
  moreover have "psf_prefix p 0 = PSF_empty" by (simp add: psf_prefix_def PSF_empty_def restrict_map_def)
  ultimately have "PSF_Open out q = Some (True, p)"
    using psf_prefix_all [OF assms] by (simp add: PSF_Open_def header_def PSF_VERSION_1_1_def)
  then show ?thesis using o(1) by blast
qed

theorem psf_roundtrip_witness:
  "\<exists>p out. length (entry_list p) = 3 \<and> PSF_Encode p [7, 7] = Some out \<and> PSF_Open out PSF_empty = Some (True, p)"
proof -
  define p where "p = \<lparr>entry_list = [\<lparr>ent_key = str ''A'', param_fmt = Text, max_len = 12\<rparr>, \<lparr>ent_key = str ''BC'', param_fmt = Integer, max_len = 4\<rparr>,
      \<lparr>ent_key = str ''D'', param_fmt = Binary, max_len = 3\<rparr>],
    map_binaries = [2 \<mapsto> [1, 0, 255]], map_strings = [0 \<mapsto> str ''hi''], map_integers = [1 \<mapsto> -5]\<rparr>"
  have "\<forall>i<3. entry_ok p i" by (simp add: p_def entry_ok_def less_Suc_eq numeral_3_eq_3 str_def)
  then have "psf_ok p" by (auto simp: psf_ok_def raw_entry_at_simps p_def str_def)
  from psf_roundtrip [OF this] show ?thesis by (intro exI [of _ p]) (simp add: p_def)
qed

section \<open>Looking up and adding entries\<close>

lemma find_from_append: "find_from k (es @ [e]) i =
    (case find_from k es i of Some r \<Rightarrow> Some r | None \<Rightarrow> if ent_key e = k then Some (i + length es) else None)"
  by (induction es arbitrary: i) (auto split: option.splits)

lemma find_from_keys: "map ent_key es = map ent_key es' \<Longrightarrow> find_from k es i = find_from k es' i"
proof (induction es arbitrary: es' i)
  case (Cons e es)
  then show ?case by (cases es') auto
qed simp

lemma find_from_Some: "find_from k es i = Some r \<Longrightarrow> i \<le> r \<and> r < i + length es \<and> ent_key (es ! (r - i)) = k"
proof (induction es arbitrary: i)
  case (Cons e es)
  show ?case
  proof (cases "ent_key e = k")
    case False
    then have "find_from k es (i + 1) = Some r" using Cons.prems by simp
    from Cons.IH [OF this] show ?thesis by (simp add: nth_Cons')
  qed (use Cons.prems in auto)
qed simp

lemma FindEntry_Some: "FindEntry k p = Some i \<Longrightarrow> i < length (entry_list p) \<and> ent_key (entry_list p ! i) = k"
  using find_from_Some [of k "entry_list p" 0 i] by (simp add: FindEntry_def)

lemma find_from_first:
  assumes "j < length es" "ent_key (es ! j) = k" "\<forall>m<j. ent_key (es ! m) \<noteq> k"
  shows "find_from k es i = Some (i + j)"
  using assms
proof (induction es arbitrary: i j)
  case (Cons e es)
  show ?case
  proof (cases j)
    case (Suc m)
    moreover have "\<forall>n<m. ent_key (es ! n) \<noteq> k" using Cons.prems(3) Suc by (metis Suc_less_eq nth_Cons_Suc)
    moreover have "ent_key e \<noteq> k" using Cons.prems(3) Suc by auto
    ultimately show ?thesis using Cons.IH [of m "i + 1"] Cons.prems(1,2) by simp
  qed (use Cons.prems in simp)
qed simp

lemma FindEntry_first:
  "i < length (entry_list p) \<Longrightarrow> ent_key (entry_list p ! i) = k \<Longrightarrow> \<forall>j<i. ent_key (entry_list p ! j) \<noteq> k \<Longrightarrow> FindEntry k p = Some i"
  using find_from_first [of i "entry_list p" k 0] by (simp add: FindEntry_def)

lemma FindEntry_absent: "\<forall>e\<in>set (entry_list p). ent_key e \<noteq> k \<Longrightarrow> FindEntry k p = None"
  by (metis FindEntry_Some nth_mem option.exhaust)

lemma FindEntry_maps [simp]:
  "FindEntry k (p\<lparr>map_binaries := b\<rparr>) = FindEntry k p" "FindEntry k (p\<lparr>map_strings := s\<rparr>) = FindEntry k p" "FindEntry k (p\<lparr>map_integers := m\<rparr>) = FindEntry k p"
  by (simp_all add: FindEntry_def)

lemma FindEntry_add: "FindEntry k p = None \<Longrightarrow> FindEntry k' (add_entry k f l p) = (if k' = k then Some (length (entry_list p)) else FindEntry k' p)"
  by (auto simp: FindEntry_def add_entry_def find_from_append split: option.splits)

lemma FindEntry_set_max [simp]: "FindEntry k (set_max_len i l p) = FindEntry k p"
proof -
  have "map ent_key ((entry_list p)[i := (entry_list p ! i)\<lparr>max_len := l\<rparr>]) = map ent_key (entry_list p)"
    by (cases "i < length (entry_list p)") (simp add: map_update, metis list_update_id nth_map, simp add: list_update_beyond)
  from find_from_keys [OF this] show ?thesis unfolding FindEntry_def set_max_len_def by simp
qed

lemma set_max_simps [simp]:
  "length (entry_list (set_max_len i l p)) = length (entry_list p)" "map_binaries (set_max_len i l p) = map_binaries p"
  "map_strings (set_max_len i l p) = map_strings p" "map_integers (set_max_len i l p) = map_integers p"
  by (simp_all add: set_max_len_def list_update_beyond)

lemma set_max_fmt [simp]: "param_fmt (entry_list (set_max_len i l p) ! j) = param_fmt (entry_list p ! j)"
  by (cases "i < length (entry_list p)"; cases "i = j") (simp_all add: set_max_len_def list_update_beyond)

lemma add_entry_simps [simp]:
  "length (entry_list (add_entry k f l p)) = Suc (length (entry_list p))" "map_binaries (add_entry k f l p) = map_binaries p"
  "map_strings (add_entry k f l p) = map_strings p" "map_integers (add_entry k f l p) = map_integers p"
  "j < length (entry_list p) \<Longrightarrow> entry_list (add_entry k f l p) ! j = entry_list p ! j"
  "param_fmt (entry_list (add_entry k f l p) ! length (entry_list p)) = f"
  by (simp_all add: add_entry_def nth_append)

text \<open>The typing of a file: an entry has a value of its own format and of no other, and there is no value without an entry.\<close>

definition psf_typed :: "PSF \<Rightarrow> bool" where
  "psf_typed p \<longleftrightarrow> (\<forall>i.
     (map_binaries p i \<noteq> None \<longleftrightarrow> i < length (entry_list p) \<and> param_fmt (entry_list p ! i) = Binary)
   \<and> (map_strings p i \<noteq> None \<longleftrightarrow> i < length (entry_list p) \<and> param_fmt (entry_list p ! i) = Text)
   \<and> (map_integers p i \<noteq> None \<longleftrightarrow> i < length (entry_list p) \<and> param_fmt (entry_list p ! i) = Integer))"

lemma psf_typedD:
  assumes "psf_typed p"
  shows "map_binaries p i \<noteq> None \<longleftrightarrow> i < length (entry_list p) \<and> param_fmt (entry_list p ! i) = Binary"
    "map_strings p i \<noteq> None \<longleftrightarrow> i < length (entry_list p) \<and> param_fmt (entry_list p ! i) = Text"
    "map_integers p i \<noteq> None \<longleftrightarrow> i < length (entry_list p) \<and> param_fmt (entry_list p ! i) = Integer"
  using assms unfolding psf_typed_def by blast+

lemma typed_empty: "psf_typed PSF_empty"
  by (simp add: psf_typed_def PSF_empty_def)

lemma emplace_fresh: "m i = None \<Longrightarrow> map_emplace i v m = m(i \<mapsto> v)"
  by (simp add: map_emplace_def)

lemma typed_fresh:
  assumes "psf_typed p"
  shows "map_binaries p (length (entry_list p)) = None" "map_strings p (length (entry_list p)) = None" "map_integers p (length (entry_list p)) = None"
  using psf_typedD [OF assms, of "length (entry_list p)"] by auto

lemma typed_add:
  assumes "psf_typed p"
  shows "psf_typed ((add_entry k Binary l p)\<lparr>map_binaries := (map_binaries p)(length (entry_list p) \<mapsto> b)\<rparr>)"
    "psf_typed ((add_entry k Text l p)\<lparr>map_strings := (map_strings p)(length (entry_list p) \<mapsto> s)\<rparr>)"
    "psf_typed ((add_entry k Integer l p)\<lparr>map_integers := (map_integers p)(length (entry_list p) \<mapsto> n)\<rparr>)"
  using psf_typedD [OF assms] typed_fresh [OF assms] unfolding psf_typed_def by (auto simp: less_Suc_eq)

lemma typed_update:
  assumes "psf_typed p" "i < length (entry_list p)"
  shows "param_fmt (entry_list p ! i) = Binary \<Longrightarrow> psf_typed ((set_max_len i l p)\<lparr>map_binaries := (map_binaries p)(i \<mapsto> b)\<rparr>)"
    "param_fmt (entry_list p ! i) = Text \<Longrightarrow> psf_typed ((set_max_len i l p)\<lparr>map_strings := (map_strings p)(i \<mapsto> s)\<rparr>)"
    "param_fmt (entry_list p ! i) = Integer \<Longrightarrow> psf_typed ((set_max_len i l p)\<lparr>map_integers := (map_integers p)(i \<mapsto> n)\<rparr>)"
  using psf_typedD [OF assms(1)] assms(2) unfolding psf_typed_def by auto

lemma open_entry_typed:
  assumes "psf_typed p" "length (entry_list p) = i" "open_entry buf header i p = Some p'"
  shows "psf_typed p' \<and> length (entry_list p') = i + 1"
proof -
  note fresh = typed_fresh [OF assms(1)]
  obtain raw k fmt where r: "read_raw_entry buf (sizeof_PSFHeader + i * sizeof_PSFRawEntry) = Some raw"
    "read_cstr buf (key_table_offset header + raw_key_offset raw) = Some k" "fmt_of_code (raw_param_fmt raw) = Some fmt"
    using assms(3) unfolding open_entry_def by (auto simp: bind_eq_Some_conv)
  show ?thesis
  proof (cases fmt)
    case Binary
    then obtain b where "p' = (add_entry k Binary (raw_param_max_len raw) p)\<lparr>map_binaries := (map_binaries p)(i \<mapsto> b)\<rparr>"
      using assms(2,3) r fresh by (auto simp: open_entry_def add_entry_def Let_def bind_eq_Some_conv emplace_fresh)
    then show ?thesis using typed_add(1) [OF assms(1)] assms(2) by auto
  next
    case Text
    then obtain b where "p' = (add_entry k Text (raw_param_max_len raw) p)\<lparr>map_strings := (map_strings p)(i \<mapsto> b)\<rparr>"
      using assms(2,3) r fresh by (auto simp: open_entry_def add_entry_def Let_def bind_eq_Some_conv emplace_fresh)
    then show ?thesis using typed_add(2) [OF assms(1)] assms(2) by auto
  next
    case Integer
    then obtain b where "p' = (add_entry k Integer (raw_param_max_len raw) p)\<lparr>map_integers := (map_integers p)(i \<mapsto> b)\<rparr>"
      using assms(2,3) r fresh by (auto simp: open_entry_def add_entry_def Let_def bind_eq_Some_conv emplace_fresh)
    then show ?thesis using typed_add(3) [OF assms(1)] assms(2) by auto
  qed
qed

lemma open_loop_typed:
  assumes "psf_typed p" "length (entry_list p) = i" "open_loop buf header n i p = Some p'"
  shows "psf_typed p' \<and> length (entry_list p') = i + n"
  using assms
proof (induction n arbitrary: i p)
  case (Suc n)
  then obtain p1 where p1: "open_entry buf header i p = Some p1" "open_loop buf header n (i + 1) p1 = Some p'" by (auto simp: bind_eq_Some_conv)
  then show ?case using Suc.IH [of p1 "i + 1"] open_entry_typed [OF Suc.prems(1,2) p1(1)] by simp
qed simp

lemma AddBinary_cases:
  assumes "psf_typed p" "AddBinary k v u p = Some p'"
  obtains (kept) i where "FindEntry k p = Some i" "\<not> u" "p' = p"
  | (updated) i l where "FindEntry k p = Some i" "u" "i < length (entry_list p)" "param_fmt (entry_list p ! i) = Binary"
      "p' = (set_max_len i l p)\<lparr>map_binaries := (map_binaries p)(i \<mapsto> v)\<rparr>"
  | (added) l where "FindEntry k p = None" "p' = (add_entry k Binary l p)\<lparr>map_binaries := (map_binaries p)(length (entry_list p) \<mapsto> v)\<rparr>"
  using assms(2) typed_fresh(1) [OF assms(1)]
  by (auto simp: AddBinary_def Let_def emplace_fresh dest: FindEntry_Some split: option.splits if_splits)

lemma AddString_cases:
  assumes "psf_typed p" "AddString k v u p = Some p'"
  obtains (kept) i where "FindEntry k p = Some i" "\<not> u" "p' = p"
  | (updated) i l where "FindEntry k p = Some i" "u" "i < length (entry_list p)" "param_fmt (entry_list p ! i) = Text"
      "p' = (set_max_len i l p)\<lparr>map_strings := (map_strings p)(i \<mapsto> v)\<rparr>"
  | (added) l where "FindEntry k p = None" "p' = (add_entry k Text l p)\<lparr>map_strings := (map_strings p)(length (entry_list p) \<mapsto> v)\<rparr>"
  using assms(2) typed_fresh(2) [OF assms(1)]
  by (auto simp: AddString_def Let_def emplace_fresh dest: FindEntry_Some split: option.splits if_splits)

lemma AddInteger_cases:
  assumes "psf_typed p" "AddInteger k v u p = Some p'"
  obtains (kept) i where "FindEntry k p = Some i" "\<not> u" "p' = p"
  | (updated) i l where "FindEntry k p = Some i" "u" "i < length (entry_list p)" "param_fmt (entry_list p ! i) = Integer"
      "p' = (set_max_len i l p)\<lparr>map_integers := (map_integers p)(i \<mapsto> v)\<rparr>"
  | (added) l where "FindEntry k p = None" "p' = (add_entry k Integer l p)\<lparr>map_integers := (map_integers p)(length (entry_list p) \<mapsto> v)\<rparr>"
  using assms(2) typed_fresh(3) [OF assms(1)]
  by (auto simp: AddInteger_def Let_def emplace_fresh dest: FindEntry_Some split: option.splits if_splits)

lemma Add_typed:
  assumes "psf_typed p"
  shows "AddBinary k b u p = Some p' \<Longrightarrow> psf_typed p'" "AddString k s u p = Some p' \<Longrightarrow> psf_typed p'" "AddInteger k n u p = Some p' \<Longrightarrow> psf_typed p'"
proof -
  show "psf_typed p'" if "AddBinary k b u p = Some p'"
    by (cases rule: AddBinary_cases [OF assms that]) (simp_all add: assms typed_add typed_update)
  show "psf_typed p'" if "AddString k s u p = Some p'"
    by (cases rule: AddString_cases [OF assms that]) (simp_all add: assms typed_add typed_update)
  show "psf_typed p'" if "AddInteger k n u p = Some p'"
    by (cases rule: AddInteger_cases [OF assms that]) (simp_all add: assms typed_add typed_update)
qed

lemma PSF_Open_typed: "PSF_Open buf q = Some (b, p) \<Longrightarrow> psf_typed p"
proof -
  assume "PSF_Open buf q = Some (b, p)"
  moreover have "length (entry_list PSF_empty) = 0" by (simp add: PSF_empty_def)
  note open_loop_typed [OF typed_empty this]
  ultimately show ?thesis by (auto simp: PSF_Open_def typed_empty bind_eq_Some_conv split: if_splits)
qed

lemma get_value_found:
  assumes "FindEntry k p = Some i"
  shows "get_value f vs k p = (if param_fmt (entry_list p ! i) = f then map_option Some (vs p i) else None)"
  using assms by (simp add: get_value_def)

text \<open>
  Adding and reading: after a value was added under a new key, or under an existing one with \<open>update\<close>, the getter returns it; every
  other key keeps its value; and adding under an existing key without \<open>update\<close> changes nothing.
\<close>

lemma psf_add_get:
  assumes "psf_typed p" "FindEntry k p = None \<or> u" "k' \<noteq> k"
  shows "(AddBinary k bin u p = Some p' \<longrightarrow> GetBinary k p' = Some (Some bin) \<and> GetBinary k' p' = GetBinary k' p \<and> GetString k' p' = GetString k' p \<and> GetInteger k' p' = GetInteger k' p)
    \<and> (AddString k s u p = Some p' \<longrightarrow> GetString k p' = Some (Some s) \<and> GetBinary k' p' = GetBinary k' p \<and> GetString k' p' = GetString k' p \<and> GetInteger k' p' = GetInteger k' p)
    \<and> (AddInteger k n u p = Some p' \<longrightarrow> GetInteger k p' = Some (Some n) \<and> GetBinary k' p' = GetBinary k' p \<and> GetString k' p' = GetString k' p \<and> GetInteger k' p' = GetInteger k' p)
    \<and> (FindEntry k p \<noteq> None \<longrightarrow> AddBinary k bin False p = Some p \<and> AddString k s False p = Some p \<and> AddInteger k n False p = Some p)"
proof (intro conjI impI)
  have other: "FindEntry k' p = Some j \<Longrightarrow> FindEntry k p = Some i \<Longrightarrow> j \<noteq> i" for i j using FindEntry_Some [of k p i] FindEntry_Some [of k' p j] assms(3) by auto
  have old: "FindEntry k' p = Some j \<Longrightarrow> j < length (entry_list p)" for j using FindEntry_Some by blast
  note G = GetBinary_def GetString_def GetInteger_def get_value_def FindEntry_add
  show "GetBinary k p' = Some (Some bin)" and "GetBinary k' p' = GetBinary k' p" and "GetString k' p' = GetString k' p" and "GetInteger k' p' = GetInteger k' p"
    if "AddBinary k bin u p = Some p'"
    by (cases rule: AddBinary_cases [OF assms(1) that]; use assms(2,3) in \<open>auto simp: G dest: other old split: option.splits\<close>)+
  show "GetString k p' = Some (Some s)" and "GetBinary k' p' = GetBinary k' p" and "GetString k' p' = GetString k' p" and "GetInteger k' p' = GetInteger k' p"
    if "AddString k s u p = Some p'"
    by (cases rule: AddString_cases [OF assms(1) that]; use assms(2,3) in \<open>auto simp: G dest: other old split: option.splits\<close>)+
  show "GetInteger k p' = Some (Some n)" and "GetBinary k' p' = GetBinary k' p" and "GetString k' p' = GetString k' p" and "GetInteger k' p' = GetInteger k' p"
    if "AddInteger k n u p = Some p'"
    by (cases rule: AddInteger_cases [OF assms(1) that]; use assms(2,3) in \<open>auto simp: G dest: other old split: option.splits\<close>)+
  show "AddBinary k bin False p = Some p" "AddString k s False p = Some p" "AddInteger k n False p = Some p" if "FindEntry k p \<noteq> None"
    using that by (auto simp: AddBinary_def AddString_def AddInteger_def)
qed

text \<open>
  C24. Typing: the empty file, a file that was opened and every file reached from one by additions and updates have for each entry a value of
  its format and no other value.  So a getter returns nothing for an absent key, and for a key that is present the value stored for the first entry with that key if
  the entry has the getter's format; the only failure left is its assertion on an entry of another format: a lookup by index never throws.  And after a
  value was added under a new key, or under any key with \<open>update\<close>, its getter returns that value while the getters of every other key return what they
  returned before.
\<close>

theorem psf_type_safety:
  "psf_typed PSF_empty
   \<and> (PSF_Open buf q = Some (b, p) \<longrightarrow> psf_typed p)
   \<and> (psf_typed p \<longrightarrow>
       (AddBinary k bin u p = Some p' \<or> AddString k s u p = Some p' \<or> AddInteger k n u p = Some p' \<longrightarrow> psf_typed p')
     \<and> ((\<forall>e\<in>set (entry_list p). ent_key e \<noteq> k) \<longrightarrow> GetBinary k p = Some None \<and> GetString k p = Some None \<and> GetInteger k p = Some None)
     \<and> (\<forall>i. i < length (entry_list p) \<and> ent_key (entry_list p ! i) = k \<and> (\<forall>j<i. ent_key (entry_list p ! j) \<noteq> k) \<longrightarrow>
          (case param_fmt (entry_list p ! i) of
             Binary \<Rightarrow> (\<exists>v. map_binaries p i = Some v \<and> GetBinary k p = Some (Some v)) \<and> GetString k p = None \<and> GetInteger k p = None
           | Text \<Rightarrow> (\<exists>v. map_strings p i = Some v \<and> GetString k p = Some (Some v)) \<and> GetBinary k p = None \<and> GetInteger k p = None
           | Integer \<Rightarrow> (\<exists>v. map_integers p i = Some v \<and> GetInteger k p = Some (Some v)) \<and> GetBinary k p = None \<and> GetString k p = None))
     \<and> ((FindEntry k p = None \<or> u) \<and> k' \<noteq> k \<longrightarrow>
          (AddBinary k bin u p = Some p' \<longrightarrow> GetBinary k p' = Some (Some bin)) \<and> (AddString k s u p = Some p' \<longrightarrow> GetString k p' = Some (Some s))
        \<and> (AddInteger k n u p = Some p' \<longrightarrow> GetInteger k p' = Some (Some n))
        \<and> (AddBinary k bin u p = Some p' \<or> AddString k s u p = Some p' \<or> AddInteger k n u p = Some p' \<longrightarrow>
             GetBinary k' p' = GetBinary k' p \<and> GetString k' p' = GetString k' p \<and> GetInteger k' p' = GetInteger k' p)))"
proof -
  have one: "case param_fmt (entry_list p ! i) of
             Binary \<Rightarrow> (\<exists>v. map_binaries p i = Some v \<and> GetBinary k p = Some (Some v)) \<and> GetString k p = None \<and> GetInteger k p = None
           | Text \<Rightarrow> (\<exists>v. map_strings p i = Some v \<and> GetString k p = Some (Some v)) \<and> GetBinary k p = None \<and> GetInteger k p = None
           | Integer \<Rightarrow> (\<exists>v. map_integers p i = Some v \<and> GetInteger k p = Some (Some v)) \<and> GetBinary k p = None \<and> GetString k p = None"
    if T: "psf_typed p" and i: "i < length (entry_list p) \<and> ent_key (entry_list p ! i) = k \<and> (\<forall>j<i. ent_key (entry_list p ! j) \<noteq> k)" for i
  proof -
    have F: "FindEntry k p = Some i" using FindEntry_first i by blast
    show ?thesis
      using psf_typedD [OF T, of i] i by (auto simp: GetBinary_def GetString_def GetInteger_def get_value_found [OF F] split: PSFEntryFmt.splits)
  qed
  have absent: "GetBinary k p = Some None \<and> GetString k p = Some None \<and> GetInteger k p = Some None" if "\<forall>e\<in>set (entry_list p). ent_key e \<noteq> k"
    using FindEntry_absent [OF that] by (simp add: GetBinary_def GetString_def GetInteger_def get_value_def)
  have add: "psf_typed p'" if "psf_typed p" "AddBinary k bin u p = Some p' \<or> AddString k s u p = Some p' \<or> AddInteger k n u p = Some p'"
    using that Add_typed [OF that(1)] by blast
  note get = psf_add_get [of p k u k' bin p' s n]
  show ?thesis
    by (intro conjI impI allI; (fact typed_empty | erule PSF_Open_typed | erule (1) add | erule (1) one | (drule absent, blast) | (use get in blast)))
qed

theorem psf_type_safety_witness:
  "\<exists>p'. AddInteger (str ''N'') 3 False PSF_empty = Some p' \<and> psf_typed p' \<and> GetInteger (str ''N'') p' = Some (Some 3) \<and> GetString (str ''N'') p' = None"
proof -
  obtain p' where A: "AddInteger (str ''N'') 3 False PSF_empty = Some p'" "length (entry_list p') = 1" "ent_key (entry_list p' ! 0) = str ''N''"
    "param_fmt (entry_list p' ! 0) = Integer" and F: "FindEntry (str ''N'') PSF_empty = None"
    by (simp add: AddInteger_def FindEntry_def PSF_empty_def add_entry_def)
  note S = psf_type_safety [of "[]" PSF_empty False PSF_empty "str ''N''" "[]" False p' "[]" 3 "str ''M''"]
  have T: "psf_typed p'" "GetInteger (str ''N'') p' = Some (Some 3)" using S A(1) F by (simp_all add: str_def)
  moreover have "GetString (str ''N'') p' = None"
    using psf_type_safety [of "[]" PSF_empty False p' "str ''N''" "[]" False p' "[]" 3 "str ''M''"] T A(2-4) by auto
  ultimately show ?thesis using A(1) by blast
qed

text \<open>The reader trusts the sizes in the file: a buffer shorter than the header is read past its end.\<close>

lemma PSF_Open_short:
  assumes "length buf < 20"
  shows "PSF_Open buf q = None"
proof -
  have "read_le32 buf 16 = None" using assms by (simp add: read_le32_def read_bytes_def)
  then have "read_header buf = None" by (auto simp: read_header_def bind_eq_None_conv)
  then show ?thesis by (simp add: PSF_Open_def)
qed

end
