(* ===== verification/Page_Table.thy ===== *)
theory Page_Table
  imports Prelude
begin

text \<open>
  \<^verbatim>\<open>VideoCore::MultiLevelPageTable\<close> (\<^verbatim>\<open>src/video_core/multi_level_page_table.h\<close>): a table of two levels over the pages of the guest, whose second level is made on demand.
  It is shown to be a map from pages to entries, which the interface \<open>page_store\<close> states for its users.
\<close>

section \<open>The table\<close>

record Traits =
  AddressSpaceBits :: nat
  FirstLevelBits :: nat
  PageBits :: nat

definition FirstLevelShift :: "Traits \<Rightarrow> nat" where
  "FirstLevelShift tr = AddressSpaceBits tr - FirstLevelBits tr"

definition SecondLevelBits :: "Traits \<Rightarrow> nat" where
  "SecondLevelBits tr = FirstLevelShift tr - PageBits tr"

definition NumEntriesPerL1Page :: "Traits \<Rightarrow> nat" where
  "NumEntriesPerL1Page tr = push_bit (SecondLevelBits tr) 1"

text \<open>A first-level entry is a null pointer (\<open>None\<close>) or a page of entries.\<close>

type_synonym 'e MultiLevelPageTable = "'e list option list"

definition mlpt_init :: "Traits \<Rightarrow> 'e MultiLevelPageTable" where
  "mlpt_init tr = replicate (push_bit (FirstLevelBits tr) 1) None"

definition l1_page :: "Traits \<Rightarrow> nat \<Rightarrow> nat" where
  "l1_page tr page = drop_bit (SecondLevelBits tr) page"

definition l2_page :: "Traits \<Rightarrow> nat \<Rightarrow> nat" where
  "l2_page tr page = (page AND (NumEntriesPerL1Page tr - 1))"

text \<open>
  \<open>mlpt_find\<close>: the outer \<open>None\<close> is an access past the end of the first level, \<open>Some None\<close> the null pointer.
  \<open>mlpt_modify\<close>: an access through \<^verbatim>\<open>operator[]\<close> that changes the entry with \<open>f\<close>; \<open>dflt\<close> is the value of a new entry.
\<close>

definition mlpt_find :: "Traits \<Rightarrow> nat \<Rightarrow> 'e MultiLevelPageTable \<Rightarrow> 'e option option" where
  "mlpt_find tr page t =
     (if l1_page tr page < length t then
        (case t ! l1_page tr page of None \<Rightarrow> Some None | Some entries \<Rightarrow> Some (Some (entries ! l2_page tr page)))
      else None)"

definition mlpt_modify :: "Traits \<Rightarrow> 'e \<Rightarrow> nat \<Rightarrow> ('e \<Rightarrow> 'e) \<Rightarrow> 'e MultiLevelPageTable \<Rightarrow> 'e MultiLevelPageTable option" where
  "mlpt_modify tr dflt page f t =
     (if l1_page tr page < length t then
        let entries = (case t ! l1_page tr page of None \<Rightarrow> replicate (NumEntriesPerL1Page tr) dflt | Some entries \<Rightarrow> entries)
        in Some (t[l1_page tr page := Some (entries[l2_page tr page := f (entries ! l2_page tr page)])])
      else None)"

section \<open>The table is a map from pages to entries\<close>

definition mlpt_ok :: "Traits \<Rightarrow> 'e MultiLevelPageTable \<Rightarrow> bool" where
  "mlpt_ok tr t \<longleftrightarrow> length t = 2 ^ FirstLevelBits tr \<and> (\<forall>entries. Some entries \<in> set t \<longrightarrow> length entries = 2 ^ SecondLevelBits tr)"

definition mlpt_entry :: "Traits \<Rightarrow> 'e \<Rightarrow> 'e MultiLevelPageTable \<Rightarrow> nat \<Rightarrow> 'e" where
  "mlpt_entry tr dflt t page =
     (case t ! l1_page tr page of None \<Rightarrow> dflt | Some entries \<Rightarrow> entries ! l2_page tr page)"

definition mlpt_pages :: "Traits \<Rightarrow> nat" where
  "mlpt_pages tr = 2 ^ FirstLevelBits tr * 2 ^ SecondLevelBits tr"

lemma l1_l2: "l1_page tr page = page div 2 ^ SecondLevelBits tr" "l2_page tr page = page mod 2 ^ SecondLevelBits tr"
proof -
  show "l1_page tr page = page div 2 ^ SecondLevelBits tr" by (simp add: l1_page_def drop_bit_eq_div)
  have "NumEntriesPerL1Page tr - 1 = mask (SecondLevelBits tr)"
    by (simp add: NumEntriesPerL1Page_def push_bit_eq_mult mask_eq_exp_minus_1)
  then show "l2_page tr page = page mod 2 ^ SecondLevelBits tr"
    by (simp add: l2_page_def take_bit_eq_mask [symmetric] take_bit_eq_mod)
qed

lemma mlpt_init_ok: "mlpt_ok tr (mlpt_init tr)" "page < mlpt_pages tr \<Longrightarrow> mlpt_entry tr dflt (mlpt_init tr) page = dflt"
proof -
  show "mlpt_ok tr (mlpt_init tr)" by (auto simp: mlpt_ok_def mlpt_init_def push_bit_eq_mult)
  assume "page < mlpt_pages tr"
  then have "l1_page tr page < 2 ^ FirstLevelBits tr" by (simp add: l1_l2 mlpt_pages_def less_mult_imp_div_less)
  then show "mlpt_entry tr dflt (mlpt_init tr) page = dflt" by (simp add: mlpt_entry_def mlpt_init_def push_bit_eq_mult)
qed

lemma l1_bound: "mlpt_ok tr t \<Longrightarrow> page < mlpt_pages tr \<Longrightarrow> l1_page tr page < length t"
  by (simp add: l1_l2 mlpt_pages_def mlpt_ok_def less_mult_imp_div_less)

lemma mlpt_find_ok:
  assumes "mlpt_ok tr t" "page < mlpt_pages tr"
  shows "mlpt_find tr page t = Some None \<and> mlpt_entry tr dflt t page = dflt \<or> mlpt_find tr page t = Some (Some (mlpt_entry tr dflt t page))"
  using l1_bound [OF assms] by (auto simp: mlpt_find_def mlpt_entry_def split: option.splits)

lemma page_split: "p = q \<longleftrightarrow> l1_page tr p = l1_page tr q \<and> l2_page tr p = l2_page tr q"
  unfolding l1_l2 by (metis div_mult_mod_eq)

lemma mlpt_modify_ok:
  assumes ok: "mlpt_ok tr t" and p: "page < mlpt_pages tr"
  obtains t' where "mlpt_modify tr dflt page f t = Some t'" "mlpt_ok tr t'"
    "\<And>q. q < mlpt_pages tr \<Longrightarrow> mlpt_entry tr dflt t' q = (if q = page then f (mlpt_entry tr dflt t page) else mlpt_entry tr dflt t q)"
    "mlpt_find tr page t' = Some (Some (f (mlpt_entry tr dflt t page)))"
    "\<And>q. mlpt_find tr q t = Some (Some e) \<Longrightarrow> \<exists>e'. mlpt_find tr q t' = Some (Some e')"
proof -
  note b = l1_bound [OF ok p]
  let ?i = "l1_page tr page" and ?j = "l2_page tr page"
  define entries where "entries = (case t ! ?i of None \<Rightarrow> replicate (NumEntriesPerL1Page tr) dflt | Some entries \<Rightarrow> entries)"
  have n: "NumEntriesPerL1Page tr = 2 ^ SecondLevelBits tr" by (simp add: NumEntriesPerL1Page_def push_bit_eq_mult)
  have len: "length entries = 2 ^ SecondLevelBits tr"
    using ok nth_mem [OF b] by (auto simp: entries_def n mlpt_ok_def split: option.splits)
  have j: "l2_page tr q < 2 ^ SecondLevelBits tr" for q by (simp add: l1_l2)
  have e: "entries ! l2_page tr q = mlpt_entry tr dflt t q" if "l1_page tr q = ?i" for q
    using that j [of q] by (auto simp: entries_def n mlpt_entry_def split: option.splits)
  define t' where "t' = t[?i := Some (entries[?j := f (entries ! ?j)])]"
  have run: "mlpt_modify tr dflt page f t = Some t'" using b by (simp add: mlpt_modify_def t'_def entries_def Let_def)
  have ok': "mlpt_ok tr t'" unfolding mlpt_ok_def
  proof (intro conjI allI impI)
    show "length t' = 2 ^ FirstLevelBits tr" using ok by (simp add: t'_def mlpt_ok_def)
    fix es assume "Some es \<in> set t'"
    then have "Some es \<in> insert (Some (entries[?j := f (entries ! ?j)])) (set t)" unfolding t'_def using set_update_subset_insert by fast
    then show "length es = 2 ^ SecondLevelBits tr" using ok len by (auto simp: mlpt_ok_def)
  qed
  have view: "mlpt_entry tr dflt t' q = (if q = page then f (mlpt_entry tr dflt t page) else mlpt_entry tr dflt t q)" for q
  proof (cases "l1_page tr q = ?i")
    case True
    then have "mlpt_entry tr dflt t' q = entries[?j := f (entries ! ?j)] ! l2_page tr q" using b by (simp add: mlpt_entry_def t'_def)
    moreover have "q = page \<longleftrightarrow> l2_page tr q = ?j" using page_split [of q page tr] True by simp
    ultimately show ?thesis using e [of q] e [of page] True j [of q] len by (simp add: nth_list_update)
  next
    case False
    then show ?thesis by (auto simp: mlpt_entry_def t'_def)
  qed
  have at: "mlpt_find tr page t' = Some (Some (f (mlpt_entry tr dflt t page)))"
    using b j [of page] len e [of page] by (simp add: mlpt_find_def t'_def)
  have keep: "\<exists>e'. mlpt_find tr q t' = Some (Some e')" if "mlpt_find tr q t = Some (Some e)" for q
    using that b by (cases "l1_page tr q = ?i") (auto simp: mlpt_find_def t'_def split: if_splits option.splits)
  show thesis using that [OF run ok' view at keep] by blast
qed

section \<open>Loops over pages\<close>

primrec for_pages :: "(nat \<Rightarrow> 's \<Rightarrow> 's option) \<Rightarrow> nat list \<Rightarrow> 's \<Rightarrow> 's option" where
  "for_pages f [] s = Some s"
| "for_pages f (p # ps) s = f p s \<bind> for_pages f ps"

text \<open>What the users of a page table rely on: it finds entries, and an access changes one entry and no other.\<close>

locale page_store =
  fixes ok :: "'s \<Rightarrow> bool" and pages :: nat and dflt :: 'e and entry :: "'s \<Rightarrow> nat \<Rightarrow> 'e"
    and find :: "nat \<Rightarrow> 's \<Rightarrow> 'e option option" and modify :: "nat \<Rightarrow> ('e \<Rightarrow> 'e) \<Rightarrow> 's \<Rightarrow> 's option"
  assumes find_law: "ok s \<Longrightarrow> p < pages \<Longrightarrow> find p s = Some None \<and> entry s p = dflt \<or> find p s = Some (Some (entry s p))"
    and modify_law: "ok s \<Longrightarrow> p < pages \<Longrightarrow>
      \<exists>s'. modify p f s = Some s' \<and> ok s' \<and> (\<forall>q. q < pages \<longrightarrow> entry s' q = (if q = p then f (entry s p) else entry s q))"
begin

text \<open>A change of every page of a list; the step may first look at the entry.\<close>

lemma change_pages:
  assumes "ok s" "distinct ps" "\<And>p. p \<in> set ps \<Longrightarrow> p < pages"
    and "\<And>p s. ok s \<Longrightarrow> p \<in> set ps \<Longrightarrow> P (entry s p) \<Longrightarrow> step p s = modify p f s" "\<And>p. p \<in> set ps \<Longrightarrow> P (entry s p)"
  shows "\<exists>s'. for_pages step ps s = Some s' \<and> ok s' \<and> (\<forall>q. q < pages \<longrightarrow> entry s' q = (if q \<in> set ps then f (entry s q) else entry s q))"
  using assms
proof (induction ps arbitrary: s)
  case (Cons p ps)
  obtain s1 where s1: "modify p f s = Some s1" "ok s1" "\<forall>q. q < pages \<longrightarrow> entry s1 q = (if q = p then f (entry s p) else entry s q)"
    using modify_law [of s p f] Cons.prems by auto
  have "\<exists>s'. for_pages step ps s1 = Some s' \<and> ok s' \<and> (\<forall>q. q < pages \<longrightarrow> entry s' q = (if q \<in> set ps then f (entry s1 q) else entry s1 q))"
    by (rule Cons.IH) (use Cons.prems s1 in auto)
  moreover have "step p s = Some s1" using Cons.prems s1(1) by simp
  ultimately show ?case using s1(3) Cons.prems(2) by auto
qed simp

lemma found: "ok s \<Longrightarrow> p < pages \<Longrightarrow> entry s p \<noteq> dflt \<Longrightarrow> find p s = Some (Some (entry s p))"
  using find_law by blast

end

interpretation pt: page_store "mlpt_ok tr" "mlpt_pages tr" dflt "mlpt_entry tr dflt" "mlpt_find tr" "mlpt_modify tr dflt" for tr and dflt :: 'e
proof
  fix s :: "'e MultiLevelPageTable" and p and f :: "'e \<Rightarrow> 'e"
  assume a: "mlpt_ok tr s" "p < mlpt_pages tr"
  show "mlpt_find tr p s = Some None \<and> mlpt_entry tr dflt s p = dflt \<or> mlpt_find tr p s = Some (Some (mlpt_entry tr dflt s p))"
    by (rule mlpt_find_ok [OF a])
  show "\<exists>s'. mlpt_modify tr dflt p f s = Some s' \<and> mlpt_ok tr s'
     \<and> (\<forall>q. q < mlpt_pages tr \<longrightarrow> mlpt_entry tr dflt s' q = (if q = p then f (mlpt_entry tr dflt s p) else mlpt_entry tr dflt s q))"
    using mlpt_modify_ok [OF a, of dflt f] by metis
qed

end
