(* ===== verification/Lru_Cache.thy ===== *)
theory Lru_Cache
  imports Prelude
begin

text \<open>
  \<^verbatim>\<open>Common::LeastRecentlyUsedCache\<close> (\<^verbatim>\<open>src/common/lru_cache.h\<close>): items in a pool, linked in both directions in the order of their use,
  with a list of free places.  The cache is shown to be a list, and the interface \<open>recency_cache\<close> states what its clients, the texture cache and the
  buffer cache, rely on.
\<close>

section \<open>The cache\<close>

text \<open>
  The items live in a \<^verbatim>\<open>std::deque\<close>, which keeps its elements in place when it grows: a pointer to an item is the
  index of the item.  The ticks are \<^verbatim>\<open>u64\<close> values.
\<close>

record 'o Item =
  it_obj :: 'o
  it_tick :: u64
  it_next :: "nat option"
  it_prev :: "nat option"

record 'o LeastRecentlyUsedCache =
  item_pool :: "'o Item list"
  free_items :: "nat list"
  first_item :: "nat option"
  last_item :: "nat option"

definition lru_empty :: "'o LeastRecentlyUsedCache" where
  "lru_empty = \<lparr>item_pool = [], free_items = [], first_item = None, last_item = None\<rparr>"

definition set_item :: "nat \<Rightarrow> ('o Item \<Rightarrow> 'o Item) \<Rightarrow> 'o LeastRecentlyUsedCache \<Rightarrow> 'o LeastRecentlyUsedCache" where
  "set_item i f c = c\<lparr>item_pool := (item_pool c)[i := f (item_pool c ! i)]\<rparr>"

text \<open>
  \<^verbatim>\<open>emplace_back\<close> makes a default object; the caller of \<open>Build\<close> overwrites object and tick at once, so the new element is made from \<open>obj\<close>.
\<close>

definition Build :: "'o \<Rightarrow> 'o LeastRecentlyUsedCache \<Rightarrow> nat \<times> 'o LeastRecentlyUsedCache" where
  "Build obj c =
     (case free_items c of
        [] \<Rightarrow> (length (item_pool c), c\<lparr>item_pool := item_pool c @ [\<lparr>it_obj = obj, it_tick = 0, it_next = None, it_prev = None\<rparr>]\<rparr>)
      | item_id # rest \<Rightarrow> (item_id, set_item item_id (\<lambda>item. item\<lparr>it_next := None, it_prev := None\<rparr>) (c\<lparr>free_items := rest\<rparr>)))"

definition Attach :: "nat \<Rightarrow> 'o LeastRecentlyUsedCache \<Rightarrow> 'o LeastRecentlyUsedCache" where
  "Attach i c =
     (let c1 = (if first_item c = None then c\<lparr>first_item := Some i\<rparr> else c)
      in case last_item c1 of
           None \<Rightarrow> c1\<lparr>last_item := Some i\<rparr>
         | Some l \<Rightarrow> (let c2 = set_item i (\<lambda>item. item\<lparr>it_prev := Some l\<rparr>) c1;
                          c3 = set_item l (\<lambda>item. item\<lparr>it_next := Some i\<rparr>) c2;
                          c4 = set_item i (\<lambda>item. item\<lparr>it_next := None\<rparr>) c3
                      in c4\<lparr>last_item := Some i\<rparr>))"

definition opt_item :: "nat option \<Rightarrow> ('o Item \<Rightarrow> 'o Item) \<Rightarrow> 'o LeastRecentlyUsedCache \<Rightarrow> 'o LeastRecentlyUsedCache" where
  "opt_item p f c = (case p of None \<Rightarrow> c | Some i \<Rightarrow> set_item i f c)"

definition Detach :: "nat \<Rightarrow> 'o LeastRecentlyUsedCache \<Rightarrow> 'o LeastRecentlyUsedCache" where
  "Detach i c =
     (let c1 = opt_item (it_prev (item_pool c ! i)) (\<lambda>item. item\<lparr>it_next := it_next (item_pool c ! i)\<rparr>) c;
          c2 = opt_item (it_next (item_pool c1 ! i)) (\<lambda>item. item\<lparr>it_prev := it_prev (item_pool c1 ! i)\<rparr>) c1;
          c3 = (if first_item c2 = Some i
                then (let p = it_next (item_pool c2 ! i)
                      in opt_item p (\<lambda>item. item\<lparr>it_prev := None\<rparr>) (c2\<lparr>first_item := p\<rparr>))
                else c2)
      in if last_item c3 = Some i
         then (let p = it_prev (item_pool c3 ! i)
               in opt_item p (\<lambda>item. item\<lparr>it_next := None\<rparr>) (c3\<lparr>last_item := p\<rparr>))
         else c3)"

definition lru_Insert :: "'o \<Rightarrow> u64 \<Rightarrow> 'o LeastRecentlyUsedCache \<Rightarrow> nat \<times> 'o LeastRecentlyUsedCache" where
  "lru_Insert obj tick c =
     (let (new_id, c1) = Build obj c
      in (new_id, Attach new_id (set_item new_id (\<lambda>item. item\<lparr>it_obj := obj, it_tick := tick\<rparr>) c1)))"

text \<open>An index past the end of the pool has no meaning: \<open>None\<close>.\<close>

definition lru_Touch :: "nat \<Rightarrow> u64 \<Rightarrow> 'o LeastRecentlyUsedCache \<Rightarrow> 'o LeastRecentlyUsedCache option" where
  "lru_Touch i tick c =
     (if i < length (item_pool c) then
        (if it_tick (item_pool c ! i) \<ge> tick then Some c
         else let c1 = set_item i (\<lambda>item. item\<lparr>it_tick := tick\<rparr>) c
              in if last_item c1 = Some i then Some c1 else Some (Attach i (Detach i c1)))
      else None)"

definition lru_Free :: "nat \<Rightarrow> 'o LeastRecentlyUsedCache \<Rightarrow> 'o LeastRecentlyUsedCache option" where
  "lru_Free i c =
     (if i < length (item_pool c)
      then let c1 = set_item i (\<lambda>item. item\<lparr>it_prev := None, it_next := None\<rparr>) (Detach i c)
           in Some (c1\<lparr>free_items := free_items c1 @ [i]\<rparr>)
      else None)"

text \<open>
  The loop that visits old items.  The cast of \<^verbatim>\<open>std::invoke_result\<close> without \<^verbatim>\<open>::type\<close> is never \<^verbatim>\<open>bool\<close>, so the result of the
  callback does not stop the loop: it is dropped.  The callback may change the cache and a state of its own.
\<close>

definition s64_sub :: "u64 \<Rightarrow> u64 \<Rightarrow> int option" where
  "s64_sub a b = (let d = s64_of_u64 a - s64_of_u64 b in if - (2 ^ 63) \<le> d \<and> d < 2 ^ 63 then Some d else None)"

partial_function (option) lru_visit ::
  "u64 \<Rightarrow> ('o \<Rightarrow> 'o LeastRecentlyUsedCache \<times> 's \<Rightarrow> (bool \<times> 'o LeastRecentlyUsedCache \<times> 's) option) \<Rightarrow> nat option
     \<Rightarrow> 'o LeastRecentlyUsedCache \<times> 's \<Rightarrow> ('o LeastRecentlyUsedCache \<times> 's) option" where
  "lru_visit tick func iterator st =
     (case iterator of
        None \<Rightarrow> Some st
      | Some i \<Rightarrow> do {
          d \<leftarrow> s64_sub tick (it_tick (item_pool (fst st) ! i));
          (if d < 0 then Some st
           else do {
             r \<leftarrow> func (it_obj (item_pool (fst st) ! i)) st;
             lru_visit tick func (it_next (item_pool (fst st) ! i)) (snd r)
           })
        })"

definition lru_ForEachItemBelow ::
  "u64 \<Rightarrow> ('o \<Rightarrow> 'o LeastRecentlyUsedCache \<times> 's \<Rightarrow> (bool \<times> 'o LeastRecentlyUsedCache \<times> 's) option)
     \<Rightarrow> 'o LeastRecentlyUsedCache \<times> 's \<Rightarrow> ('o LeastRecentlyUsedCache \<times> 's) option" where
  "lru_ForEachItemBelow tick func st = lru_visit tick func (first_item (fst st)) st"

section \<open>Doubly linked segments\<close>

definition head_or :: "nat list \<Rightarrow> nat option \<Rightarrow> nat option" where
  "head_or xs n = (case xs of [] \<Rightarrow> n | x # _ \<Rightarrow> Some x)"

definition last_or :: "nat list \<Rightarrow> nat option \<Rightarrow> nat option" where
  "last_or xs p = (if xs = [] then p else Some (last xs))"

lemma head_or_simps [simp]: "head_or [] n = n" "head_or (x # xs) n = Some x"
  by (simp_all add: head_or_def)

lemma last_or_simps [simp]: "last_or [] p = p" "last_or (x # xs) p = last_or xs (Some x)" "last_or (xs @ [x]) p = Some x"
  by (simp_all add: last_or_def)

text \<open>\<open>xs\<close> is linked in both directions; before it comes \<open>p\<close>, after it \<open>n\<close>.\<close>

primrec dseg :: "'o Item list \<Rightarrow> nat option \<Rightarrow> nat list \<Rightarrow> nat option \<Rightarrow> bool" where
  "dseg pool p [] n \<longleftrightarrow> True"
| "dseg pool p (x # xs) n \<longleftrightarrow>
     x < length pool \<and> it_prev (pool ! x) = p \<and> it_next (pool ! x) = head_or xs n \<and> dseg pool (Some x) xs n"

lemma head_or_append [simp]: "head_or (xs @ ys) n = head_or xs (head_or ys n)"
  by (cases xs) simp_all

lemma dseg_append: "dseg pool p (xs @ ys) n \<longleftrightarrow> dseg pool p xs (head_or ys n) \<and> dseg pool (last_or xs p) ys n"
  by (induction xs arbitrary: p) auto

lemma dseg_bound: "dseg pool p xs n \<Longrightarrow> x \<in> set xs \<Longrightarrow> x < length pool"
  by (induction xs arbitrary: p) auto

lemma dseg_cong:
  assumes "length pool' = length pool" "\<And>x. x \<in> set xs \<Longrightarrow> it_prev (pool' ! x) = it_prev (pool ! x) \<and> it_next (pool' ! x) = it_next (pool ! x)"
  shows "dseg pool' p xs n \<longleftrightarrow> dseg pool p xs n"
  using assms(2) by (induction xs arbitrary: p) (auto simp: assms(1))

lemma dseg_mono: "dseg pool p xs n \<Longrightarrow> dseg (pool @ ys) p xs n"
  by (induction xs arbitrary: p) (auto simp: nth_append)

lemma dseg_frame: "i \<notin> set xs \<Longrightarrow> dseg (pool[i := v]) p xs n \<longleftrightarrow> dseg pool p xs n"
  by (rule dseg_cong) (simp, metis nth_list_update_neq)

text \<open>The two ends of a segment can be linked anew.\<close>

lemma dseg_set_next:
  assumes "dseg pool p (xs @ [x]) n" "x \<notin> set xs"
  shows "dseg (pool[x := (pool ! x)\<lparr>it_next := n'\<rparr>]) p (xs @ [x]) n'"
  using assms dseg_frame [OF assms(2), of pool "(pool ! x)\<lparr>it_next := n'\<rparr>" p "Some x"] by (simp add: dseg_append)

lemma dseg_set_prev:
  assumes "dseg pool p (x # xs) n" "x \<notin> set xs"
  shows "dseg (pool[x := (pool ! x)\<lparr>it_prev := p'\<rparr>]) p' (x # xs) n"
  using assms by (simp add: dseg_frame)

section \<open>The cache as a list in order of use\<close>

text \<open>
  \<open>l\<close> lists the items in use from the first to the last; the other items of the pool are free.
\<close>

definition lru_rep :: "'o LeastRecentlyUsedCache \<Rightarrow> nat list \<Rightarrow> bool" where
  "lru_rep c l \<longleftrightarrow> distinct (l @ free_items c) \<and> set (l @ free_items c) = {..<length (item_pool c)}
     \<and> dseg (item_pool c) None l None \<and> first_item c = head_or l None \<and> last_item c = last_or l None"

lemma lru_rep_empty: "lru_rep lru_empty []"
  by (simp add: lru_rep_def lru_empty_def)

lemma set_item_simps [simp]:
  "length (item_pool (set_item i f c)) = length (item_pool c)" "free_items (set_item i f c) = free_items c"
  "first_item (set_item i f c) = first_item c" "last_item (set_item i f c) = last_item c"
  "i < length (item_pool c) \<Longrightarrow> item_pool (set_item i f c) ! j = (if j = i then f (item_pool c ! i) else item_pool c ! j)"
  by (simp_all add: set_item_def nth_list_update)

text \<open>\<open>Attach\<close> puts an item that is in no list at the end.\<close>

lemma Attach_ok:
  assumes d: "dseg (item_pool c) None l None" and ends: "first_item c = head_or l None" "last_item c = last_or l None"
    and i: "i \<notin> set l" "i < length (item_pool c)" and dl: "distinct l"
    and alone: "l = [] \<Longrightarrow> it_next (item_pool c ! i) = None \<and> it_prev (item_pool c ! i) = None"
  shows "dseg (item_pool (Attach i c)) None (l @ [i]) None" "first_item (Attach i c) = head_or (l @ [i]) None"
    "last_item (Attach i c) = Some i" "free_items (Attach i c) = free_items c" "length (item_pool (Attach i c)) = length (item_pool c)"
    "it_obj (item_pool (Attach i c) ! j) = it_obj (item_pool c ! j)" "it_tick (item_pool (Attach i c) ! j) = it_tick (item_pool c ! j)"
proof -
  have all: "dseg (item_pool (Attach i c)) None (l @ [i]) None \<and> first_item (Attach i c) = head_or (l @ [i]) None
    \<and> last_item (Attach i c) = Some i \<and> free_items (Attach i c) = free_items c \<and> length (item_pool (Attach i c)) = length (item_pool c)
    \<and> it_obj (item_pool (Attach i c) ! j) = it_obj (item_pool c ! j) \<and> it_tick (item_pool (Attach i c) ! j) = it_tick (item_pool c ! j)"
  proof (cases l rule: rev_cases)
    case Nil
    then show ?thesis using ends alone i by (simp add: Attach_def)
  next
    case (snoc xs x)
    have x: "x \<noteq> i" "x < length (item_pool c)" "x \<notin> set xs" "i \<notin> set xs" using i d dl by (auto simp: snoc dseg_append)
    let ?p = "item_pool c"
    have first: "\<exists>f. first_item c = Some f" using ends(1) by (simp add: snoc head_or_def split: list.splits)
    define p1 where "p1 = ?p[x := (?p ! x)\<lparr>it_next := Some i\<rparr>]"
    define p2 where "p2 = p1[i := (?p ! i)\<lparr>it_prev := Some x, it_next := None\<rparr>]"
    have pool: "item_pool (Attach i c) = p2"
    proof (rule nth_equalityI)
      fix j
      show "item_pool (Attach i c) ! j = p2 ! j"
        using first ends(2) i(2) x by (auto simp: Attach_def snoc Let_def p2_def p1_def nth_list_update)
    qed (use first ends(2) in \<open>auto simp: Attach_def snoc Let_def p2_def p1_def\<close>)
    have "dseg p1 None (xs @ [x]) (Some i)"
      unfolding p1_def by (rule dseg_set_next) (use d x in \<open>simp_all add: snoc\<close>)
    then have "dseg p2 None (xs @ [x]) (Some i)"
      unfolding p2_def using x by (subst dseg_frame) auto
    moreover have "dseg p2 (Some x) [i] None" using i(2) by (simp add: p2_def p1_def)
    ultimately have "dseg p2 None (l @ [i]) None" by (simp add: snoc dseg_append)
    moreover have "first_item (Attach i c) = first_item c" "last_item (Attach i c) = Some i" "free_items (Attach i c) = free_items c"
      using first ends(2) by (auto simp: Attach_def snoc Let_def)
    moreover have "it_obj (p2 ! j) = it_obj (?p ! j)" "it_tick (p2 ! j) = it_tick (?p ! j)" "length p2 = length ?p"
      using i(2) x by (simp_all add: p2_def p1_def nth_list_update)
    moreover have "head_or (l @ [i]) None = head_or l None" by (cases xs) (simp_all add: snoc)
    ultimately show ?thesis using ends(1) pool by simp
  qed
  then show "dseg (item_pool (Attach i c)) None (l @ [i]) None" "first_item (Attach i c) = head_or (l @ [i]) None"
    "last_item (Attach i c) = Some i" "free_items (Attach i c) = free_items c" "length (item_pool (Attach i c)) = length (item_pool c)"
    "it_obj (item_pool (Attach i c) ! j) = it_obj (item_pool c ! j)" "it_tick (item_pool (Attach i c) ! j) = it_tick (item_pool c ! j)"
    by blast+
qed

text \<open>\<open>Detach\<close> takes an item out of the list and closes the gap.\<close>

lemma Detach_ok:
  assumes d: "dseg (item_pool c) None (xs @ i # ys) None" and dl: "distinct (xs @ i # ys)"
    and ends: "first_item c = head_or (xs @ i # ys) None" "last_item c = last_or (xs @ i # ys) None"
  shows "dseg (item_pool (Detach i c)) None (xs @ ys) None \<and> first_item (Detach i c) = head_or (xs @ ys) None
    \<and> last_item (Detach i c) = last_or (xs @ ys) None \<and> free_items (Detach i c) = free_items c
    \<and> length (item_pool (Detach i c)) = length (item_pool c)
    \<and> (\<forall>j. it_obj (item_pool (Detach i c) ! j) = it_obj (item_pool c ! j) \<and> it_tick (item_pool (Detach i c) ! j) = it_tick (item_pool c ! j))"
proof -
  let ?p = "item_pool c"
  have dx: "dseg ?p None xs (Some i)" and iv: "it_prev (?p ! i) = last_or xs None" "it_next (?p ! i) = head_or ys None" "i < length ?p"
    and dy: "dseg ?p (Some i) ys None" using d by (auto simp: dseg_append)
  define p1 where "p1 = (if xs = [] then ?p else ?p[last xs := (?p ! last xs)\<lparr>it_next := head_or ys None\<rparr>])"
  define p2 where "p2 = (if ys = [] then p1 else p1[hd ys := (p1 ! hd ys)\<lparr>it_prev := last_or xs None\<rparr>])"
  have len: "length p1 = length ?p" "length p2 = length ?p" by (simp_all add: p1_def p2_def)
  have neq: "xs \<noteq> [] \<Longrightarrow> last xs \<noteq> i" "ys \<noteq> [] \<Longrightarrow> hd ys \<noteq> i" "xs \<noteq> [] \<Longrightarrow> ys \<noteq> [] \<Longrightarrow> last xs \<noteq> hd ys"
    "ys \<noteq> [] \<Longrightarrow> last ys \<noteq> i" "xs \<noteq> [] \<Longrightarrow> hd xs \<noteq> i" "xs \<noteq> [] \<Longrightarrow> last xs \<notin> set ys" "ys \<noteq> [] \<Longrightarrow> hd ys \<notin> set xs"
  proof -
    have xy: "set xs \<inter> set ys = {}" "i \<notin> set xs" "i \<notin> set ys" using dl by auto
    have m: "xs \<noteq> [] \<Longrightarrow> last xs \<in> set xs" "ys \<noteq> [] \<Longrightarrow> hd ys \<in> set ys" "ys \<noteq> [] \<Longrightarrow> last ys \<in> set ys" "xs \<noteq> [] \<Longrightarrow> hd xs \<in> set xs"
      by simp_all
    show "xs \<noteq> [] \<Longrightarrow> last xs \<noteq> i" "ys \<noteq> [] \<Longrightarrow> hd ys \<noteq> i" "xs \<noteq> [] \<Longrightarrow> ys \<noteq> [] \<Longrightarrow> last xs \<noteq> hd ys"
      "ys \<noteq> [] \<Longrightarrow> last ys \<noteq> i" "xs \<noteq> [] \<Longrightarrow> hd xs \<noteq> i" "xs \<noteq> [] \<Longrightarrow> last xs \<notin> set ys" "ys \<noteq> [] \<Longrightarrow> hd ys \<notin> set xs"
      using xy m by (metis disjoint_iff)+
  qed
  have bnd: "xs \<noteq> [] \<Longrightarrow> last xs < length ?p" "ys \<noteq> [] \<Longrightarrow> hd ys < length ?p"
    using dseg_bound [OF d, of "last xs"] dseg_bound [OF d, of "hd ys"] by auto
  have item: "p2 ! j = (if ys \<noteq> [] \<and> j = hd ys then (?p ! j)\<lparr>it_prev := last_or xs None\<rparr>
      else if xs \<noteq> [] \<and> j = last xs then (?p ! j)\<lparr>it_next := head_or ys None\<rparr> else ?p ! j)" for j
    using neq bnd by (auto simp: p1_def p2_def nth_list_update)
  have d1: "dseg p1 None xs (head_or ys None)" "dseg p1 (Some i) ys None"
  proof -
    show "dseg p1 None xs (head_or ys None)"
    proof (cases xs rule: rev_cases)
      case (snoc us u)
      then show ?thesis using dseg_set_next [of ?p None us u "Some i"] dx dl by (simp add: p1_def)
    qed simp
    show "dseg p1 (Some i) ys None" using dy neq(6) by (auto simp: p1_def dseg_frame)
  qed
  have d2: "dseg p2 None xs (head_or ys None)" "dseg p2 (last_or xs None) ys None"
  proof -
    show "dseg p2 None xs (head_or ys None)" using d1(1) neq(7) by (auto simp: p2_def dseg_frame)
    show "dseg p2 (last_or xs None) ys None"
    proof (cases ys)
      case (Cons u us)
      then show ?thesis using dseg_set_prev [of p1 "Some i" u us None] d1(2) dl by (simp add: p2_def)
    qed simp
  qed
  have pool: "item_pool (Detach i c) = p2 \<and> first_item (Detach i c) = head_or (xs @ ys) None
      \<and> last_item (Detach i c) = last_or (xs @ ys) None \<and> free_items (Detach i c) = free_items c"
  proof -
    define c1 where "c1 = opt_item (it_prev (?p ! i)) (\<lambda>item. item\<lparr>it_next := it_next (?p ! i)\<rparr>) c"
    define c2 where "c2 = opt_item (it_next (item_pool c1 ! i)) (\<lambda>item. item\<lparr>it_prev := it_prev (item_pool c1 ! i)\<rparr>) c1"
    have 1: "c1 = c\<lparr>item_pool := p1\<rparr>" using iv by (simp add: c1_def opt_item_def p1_def last_or_def set_item_def)
    have "item_pool c1 ! i = ?p ! i" using neq(1) by (simp add: 1 p1_def)
    then have 2: "c2 = c\<lparr>item_pool := p2\<rparr>" using iv by (cases ys) (simp_all add: c2_def opt_item_def p2_def set_item_def 1)
    have i2: "p2 ! i = ?p ! i" using neq(1,2) by (auto simp: item)
    have noop: "p2[j := (p2 ! j)\<lparr>it_prev := None\<rparr>] = p2" if "xs = []" "ys = j # zs" for j zs
    proof -
      have "(p2 ! j)\<lparr>it_prev := None\<rparr> = p2 ! j" using item [of j] that by simp
      then show ?thesis by (simp only: list_update_id)
    qed
    have noop': "p2[j := (p2 ! j)\<lparr>it_next := None\<rparr>] = p2" if "ys = []" "xs = zs @ [j]" for j zs
    proof -
      have "(p2 ! j)\<lparr>it_next := None\<rparr> = p2 ! j" using item [of j] that by simp
      then show ?thesis by (simp only: list_update_id)
    qed
    have run: "Detach i c = (let c3 = (if first_item c2 = Some i
                then (let p = it_next (item_pool c2 ! i) in opt_item p (\<lambda>item. item\<lparr>it_prev := None\<rparr>) (c2\<lparr>first_item := p\<rparr>)) else c2)
      in if last_item c3 = Some i
         then (let p = it_prev (item_pool c3 ! i) in opt_item p (\<lambda>item. item\<lparr>it_next := None\<rparr>) (c3\<lparr>last_item := p\<rparr>)) else c3)"
      unfolding Detach_def Let_def c1_def c2_def ..
    define c3 where "c3 = (if xs = [] then c2\<lparr>first_item := head_or ys None\<rparr> else c2)"
    have f2: "first_item c2 = Some i \<longleftrightarrow> xs = []" using ends(1) neq(5) by (cases xs) (auto simp: 2)
    have l3: "last_item c3 = Some i \<longleftrightarrow> ys = []" using ends(2) neq(4) by (cases ys rule: rev_cases) (auto simp: 2 c3_def last_or_def)
    have p3: "item_pool c3 = p2" by (simp add: c3_def 2)
    have "(if first_item c2 = Some i
                then (let p = it_next (item_pool c2 ! i) in opt_item p (\<lambda>item. item\<lparr>it_prev := None\<rparr>) (c2\<lparr>first_item := p\<rparr>)) else c2) = c3"
      using f2 i2 iv(2) noop by (cases ys) (simp_all add: c3_def 2 opt_item_def set_item_def)
    then have run3: "Detach i c = (if ys = [] then opt_item (last_or xs None) (\<lambda>item. item\<lparr>it_next := None\<rparr>) (c3\<lparr>last_item := last_or xs None\<rparr>) else c3)"
      unfolding run Let_def using l3 p3 i2 iv(1) by simp
    have "opt_item (last_or xs None) (\<lambda>item. item\<lparr>it_next := None\<rparr>) (c3\<lparr>last_item := last_or xs None\<rparr>) = c3\<lparr>last_item := last_or xs None\<rparr>" if "ys = []"
      using noop' [OF that] p3 by (cases xs rule: rev_cases) (simp_all add: opt_item_def set_item_def)
    then have fin: "Detach i c = (if ys = [] then c3\<lparr>last_item := last_or xs None\<rparr> else c3)" using run3 by simp
    have "first_item c3 = head_or (xs @ ys) None" using ends(1) by (cases xs) (simp_all add: c3_def 2)
    moreover have "last_item c3 = last_or (xs @ ys) None" if "ys \<noteq> []" using ends(2) that by (simp add: c3_def 2 last_or_def)
    moreover have "free_items c3 = free_items c" by (simp add: c3_def 2)
    ultimately show ?thesis unfolding fin using p3 by simp
  qed
  then show ?thesis using d2 by (simp add: dseg_append len item)
qed

type_synonym 'o entry = "nat \<times> 'o \<times> u64"

definition entry_of :: "'o LeastRecentlyUsedCache \<Rightarrow> nat \<Rightarrow> 'o entry" where
  "entry_of c i = (i, it_obj (item_pool c ! i), it_tick (item_pool c ! i))"

text \<open>The abstract view: the items in use with their objects and ticks, from the least to the most recently used.\<close>

definition lru_rel :: "'o LeastRecentlyUsedCache \<Rightarrow> 'o entry list \<Rightarrow> bool" where
  "lru_rel c A \<longleftrightarrow> (\<exists>l. lru_rep c l \<and> A = map (entry_of c) l)"

lemma lru_rel_empty: "lru_rel lru_empty []"
  using lru_rep_empty by (auto simp: lru_rel_def)

lemma entry_map_cong:
  assumes "\<And>j. j \<in> set l \<Longrightarrow> it_obj (item_pool c' ! j) = it_obj (item_pool c ! j) \<and> it_tick (item_pool c' ! j) = it_tick (item_pool c ! j)"
  shows "map (entry_of c') l = map (entry_of c) l"
  using assms by (simp add: entry_of_def)

lemma lru_rel_distinct: "lru_rel c A \<Longrightarrow> distinct (map fst A)"
  by (auto simp: lru_rel_def lru_rep_def entry_of_def comp_def)

lemma lru_repE:
  assumes "lru_rel c A" "(i, obj, t) \<in> set A"
  obtains xs ys where "lru_rep c (xs @ i # ys)" "A = map (entry_of c) (xs @ i # ys)" "it_obj (item_pool c ! i) = obj" "it_tick (item_pool c ! i) = t"
    "i < length (item_pool c)" "i \<notin> set xs" "i \<notin> set ys"
proof -
  obtain l where l: "lru_rep c l" "A = map (entry_of c) l" using assms(1) by (auto simp: lru_rel_def)
  then have v: "i \<in> set l" "it_obj (item_pool c ! i) = obj" "it_tick (item_pool c ! i) = t" using assms(2) by (auto simp: entry_of_def)
  then obtain xs ys where s: "l = xs @ i # ys" by (meson split_list)
  have "distinct l" "i < length (item_pool c)" using l(1) v(1) by (auto simp: lru_rep_def)
  then show thesis using that [of xs ys] l v(2,3) unfolding s by auto
qed

lemma filter_entries:
  assumes "i \<notin> set xs" "i \<notin> set ys"
  shows "filter (\<lambda>e. fst e \<noteq> i) (map (entry_of c) (xs @ i # ys)) = map (entry_of c) (xs @ ys)"
proof -
  have "filter (\<lambda>e. fst e \<noteq> i) (map (entry_of c) zs) = map (entry_of c) zs" if "i \<notin> set zs" for zs
    using that by (induction zs) (auto simp: entry_of_def)
  then show ?thesis using assms by (simp add: entry_of_def)
qed

lemma lru_Insert_rel:
  assumes rel: "lru_rel c A" and run: "lru_Insert obj tick c = (i, c')"
  shows "i \<notin> fst ` set A" "lru_rel c' (A @ [(i, obj, tick)])"
proof -
  obtain l where l: "lru_rep c l" "A = map (entry_of c) l" using rel by (auto simp: lru_rel_def)
  obtain c1 where b: "Build obj c = (i, c1)" using run by (auto simp: lru_Insert_def split: prod.splits)
  define c2 where "c2 = set_item i (\<lambda>item. item\<lparr>it_obj := obj, it_tick := tick\<rparr>) c1"
  have c': "c' = Attach i c2" using run b by (simp add: lru_Insert_def c2_def)
  have rep: "distinct (l @ free_items c)" "set (l @ free_items c) = {..<length (item_pool c)}" "dseg (item_pool c) None l None"
    "first_item c = head_or l None" "last_item c = last_or l None" using l(1) by (auto simp: lru_rep_def)
  have c1: "i \<notin> set l" "i < length (item_pool c1)" "dseg (item_pool c1) None l None" "first_item c1 = first_item c" "last_item c1 = last_item c"
    "it_next (item_pool c1 ! i) = None" "it_prev (item_pool c1 ! i) = None" "distinct (l @ i # free_items c1)"
    "set (l @ i # free_items c1) = {..<length (item_pool c1)}"
    "\<And>j. j \<in> set l \<Longrightarrow> it_obj (item_pool c1 ! j) = it_obj (item_pool c ! j) \<and> it_tick (item_pool c1 ! j) = it_tick (item_pool c ! j)"
  proof -
    have "i \<notin> set l \<and> i < length (item_pool c1) \<and> dseg (item_pool c1) None l None \<and> first_item c1 = first_item c \<and> last_item c1 = last_item c
      \<and> it_next (item_pool c1 ! i) = None \<and> it_prev (item_pool c1 ! i) = None \<and> distinct (l @ i # free_items c1)
      \<and> set (l @ i # free_items c1) = {..<length (item_pool c1)}
      \<and> (\<forall>j\<in>set l. it_obj (item_pool c1 ! j) = it_obj (item_pool c ! j) \<and> it_tick (item_pool c1 ! j) = it_tick (item_pool c ! j))"
    proof (cases "free_items c")
      case Nil
      then have "i = length (item_pool c)" "c1 = c\<lparr>item_pool := item_pool c @ [\<lparr>it_obj = obj, it_tick = 0, it_next = None, it_prev = None\<rparr>]\<rparr>"
        using b by (auto simp: Build_def)
      moreover have "j < length (item_pool c)" if "j \<in> set l" for j using that rep(2) by auto
      ultimately show ?thesis using rep Nil dseg_mono [OF rep(3)] by (auto simp: nth_append)
    next
      case (Cons f rest)
      then have i: "i = f" "c1 = set_item f (\<lambda>item. item\<lparr>it_next := None, it_prev := None\<rparr>) (c\<lparr>free_items := rest\<rparr>)"
        using b by (auto simp: Build_def)
      have f: "f \<notin> set l" "f < length (item_pool c)" using rep(1,2) Cons by auto
      have "dseg (item_pool c1) None l None" unfolding i set_item_def using rep(3) f(1) by (simp add: dseg_frame)
      moreover have "distinct (l @ f # rest)" "set (l @ f # rest) = {..<length (item_pool c)}" using rep(1,2) unfolding Cons by blast+
      ultimately show ?thesis using f i by auto
    qed
    then show "i \<notin> set l" "i < length (item_pool c1)" "dseg (item_pool c1) None l None" "first_item c1 = first_item c" "last_item c1 = last_item c"
      "it_next (item_pool c1 ! i) = None" "it_prev (item_pool c1 ! i) = None" "distinct (l @ i # free_items c1)"
      "set (l @ i # free_items c1) = {..<length (item_pool c1)}"
      "\<And>j. j \<in> set l \<Longrightarrow> it_obj (item_pool c1 ! j) = it_obj (item_pool c ! j) \<and> it_tick (item_pool c1 ! j) = it_tick (item_pool c ! j)"
      by blast+
  qed
  have dl: "distinct l" using rep(1) by simp
  have d2: "dseg (item_pool c2) None l None" using c1(1,3) by (simp add: c2_def set_item_def dseg_frame)
  have c2: "first_item c2 = head_or l None" "last_item c2 = last_or l None" "i < length (item_pool c2)"
    "it_next (item_pool c2 ! i) = None" "it_prev (item_pool c2 ! i) = None" "free_items c2 = free_items c1" "length (item_pool c2) = length (item_pool c1)"
    using c1(2,4-7) rep(4,5) by (simp_all add: c2_def)
  note at = Attach_ok [OF d2 c2(1,2) c1(1) c2(3) dl, folded c']
  have rep': "lru_rep c' (l @ [i])"
    using at c2 c1(8,9) by (auto simp: lru_rep_def)
  have old: "map (entry_of c') l = A"
    unfolding l(2) by (rule entry_map_cong) (use at c2(4,5) c1(1,2,10) in \<open>auto simp: c2_def\<close>)
  have new: "entry_of c' i = (i, obj, tick)" using at c2(4,5) c1(2) by (simp add: entry_of_def c2_def)
  show "i \<notin> fst ` set A" using c1(1) l(2) by (auto simp: entry_of_def)
  show "lru_rel c' (A @ [(i, obj, tick)])"
    unfolding lru_rel_def by (rule exI [of _ "l @ [i]"]) (use rep' old new in simp)
qed


lemma Detach_rep:
  assumes "lru_rep c (xs @ i # ys)"
  shows "dseg (item_pool (Detach i c)) None (xs @ ys) None" "first_item (Detach i c) = head_or (xs @ ys) None"
    "last_item (Detach i c) = last_or (xs @ ys) None" "free_items (Detach i c) = free_items c" "length (item_pool (Detach i c)) = length (item_pool c)"
    "it_obj (item_pool (Detach i c) ! j) = it_obj (item_pool c ! j)" "it_tick (item_pool (Detach i c) ! j) = it_tick (item_pool c ! j)"
  using Detach_ok [of c xs i ys] assms by (auto simp: lru_rep_def)

lemma lru_Free_rel:
  assumes rel: "lru_rel c A" and e: "(i, obj, t) \<in> set A"
  obtains c' where "lru_Free i c = Some c'" "lru_rel c' (filter (\<lambda>e. fst e \<noteq> i) A)"
proof -
  obtain xs ys where l: "lru_rep c (xs @ i # ys)" "A = map (entry_of c) (xs @ i # ys)" "i < length (item_pool c)" "i \<notin> set xs" "i \<notin> set ys"
    by (rule lru_repE [OF rel e])
  note d = Detach_rep [OF l(1)]
  define c1 where "c1 = set_item i (\<lambda>item. item\<lparr>it_prev := None, it_next := None\<rparr>) (Detach i c)"
  define c' where "c' = c1\<lparr>free_items := free_items c1 @ [i]\<rparr>"
  have "dseg (item_pool c1) None (xs @ ys) None" unfolding c1_def set_item_def using d(1) l(4,5) by (simp add: dseg_frame)
  then have "lru_rep c' (xs @ ys)"
    using l d(2-5) by (auto simp: lru_rep_def c'_def c1_def)
  moreover have "map (entry_of c') (xs @ ys) = map (entry_of c) (xs @ ys)"
    by (rule entry_map_cong) (use d l(3) in \<open>auto simp: c'_def c1_def\<close>)
  ultimately have "lru_rel c' (filter (\<lambda>e. fst e \<noteq> i) A)"
    unfolding lru_rel_def l(2) filter_entries [OF l(4,5)] by metis
  moreover have "lru_Free i c = Some c'" using l(3) by (simp add: lru_Free_def c'_def c1_def Let_def)
  ultimately show thesis using that by blast
qed

lemma lru_Touch_rel:
  assumes rel: "lru_rel c A" and e: "(i, obj, t) \<in> set A"
  obtains c' where "lru_Touch i tick c = Some c'"
    "lru_rel c' (if tick \<le> t then A else filter (\<lambda>e. fst e \<noteq> i) A @ [(i, obj, tick)])"
proof -
  obtain xs ys where l: "lru_rep c (xs @ i # ys)" "A = map (entry_of c) (xs @ i # ys)" "it_obj (item_pool c ! i) = obj" "it_tick (item_pool c ! i) = t"
    "i < length (item_pool c)" "i \<notin> set xs" "i \<notin> set ys"
    by (rule lru_repE [OF rel e])
  show thesis
  proof (cases "tick \<le> t")
    case True
    then show thesis using that [of c] rel l(4,5) by (simp add: lru_Touch_def)
  next
    case False
    define c1 where "c1 = set_item i (\<lambda>item. item\<lparr>it_tick := tick\<rparr>) c"
    have r1: "lru_rep c1 (xs @ i # ys)"
    proof -
      have "dseg (item_pool c1) None (xs @ i # ys) None \<longleftrightarrow> dseg (item_pool c) None (xs @ i # ys) None"
        by (rule dseg_cong) (use l(5) in \<open>auto simp: c1_def\<close>)
      then show ?thesis using l(1) by (simp add: lru_rep_def c1_def)
    qed
    have o1: "map (entry_of c1) (xs @ ys) = map (entry_of c) (xs @ ys)" "entry_of c1 i = (i, obj, tick)"
      using l by (auto simp: entry_of_def c1_def)
    define B where "B = filter (\<lambda>e. fst e \<noteq> i) A @ [(i, obj, tick)]"
    have B: "B = map (entry_of c1) (xs @ ys) @ [(i, obj, tick)]" unfolding B_def l(2) filter_entries [OF l(6,7)] o1(1) ..
    obtain c' where "lru_Touch i tick c = Some c'" "lru_rel c' B"
    proof (cases "last_item c1 = Some i")
      case True
      then have "ys = []" using r1 l(7) by (auto simp: lru_rep_def last_or_def split: if_splits)
      then have "lru_rel c1 B" using r1 o1(2) B unfolding lru_rel_def by (intro exI [of _ "xs @ [i]"]) simp
      then show thesis using that [of c1] True False l(4,5) by (simp add: lru_Touch_def c1_def Let_def)
    next
      case nl: False
      then have ne: "xs @ ys \<noteq> []" using r1 by (auto simp: lru_rep_def)
      note d = Detach_rep [OF r1]
      have i: "i \<notin> set (xs @ ys)" "i < length (item_pool (Detach i c1))" "distinct (xs @ ys)" using l(5-7) r1 d(5) by (auto simp: lru_rep_def c1_def)
      note at = Attach_ok [OF d(1-3) i, simplified ne]
      have "lru_rep (Attach i (Detach i c1)) ((xs @ ys) @ [i])"
        using r1 at d(4,5) ne by (auto simp: lru_rep_def last_or_def)
      moreover have "map (entry_of (Attach i (Detach i c1))) ((xs @ ys) @ [i]) = B"
        using at d(6,7) o1(2) B ne by (simp add: entry_of_def)
      ultimately have "lru_rel (Attach i (Detach i c1)) B" unfolding lru_rel_def by metis
      then show thesis using that [of "Attach i (Detach i c1)"] nl False l(4,5) by (simp add: lru_Touch_def c1_def Let_def)
    qed
    then show thesis using that [of c'] False by (simp add: B_def)
  qed
qed

section \<open>The interface of the caches\<close>

text \<open>What a client of the cache relies on, and what follows from it for a client whose ticks never go back.\<close>

definition tick_of :: "'o entry \<Rightarrow> u64" where
  "tick_of e = snd (snd e)"

definition obj_of :: "'o entry \<Rightarrow> 'o" where
  "obj_of e = fst (snd e)"

lemma entry_sel [simp]: "tick_of (i, obj, t) = t" "obj_of (i, obj, t) = obj"
  by (simp_all add: tick_of_def obj_of_def)

definition aged :: "u64 \<Rightarrow> 'o entry list \<Rightarrow> bool" where
  "aged now A \<longleftrightarrow> sorted (map tick_of A) \<and> (\<forall>e\<in>set A. tick_of e \<le> now)"

locale recency_cache =
  fixes rel :: "'c \<Rightarrow> 'o entry list \<Rightarrow> bool"
    and insert :: "'o \<Rightarrow> u64 \<Rightarrow> 'c \<Rightarrow> nat \<times> 'c"
    and touch :: "nat \<Rightarrow> u64 \<Rightarrow> 'c \<Rightarrow> 'c option"
    and free :: "nat \<Rightarrow> 'c \<Rightarrow> 'c option"
  assumes distinct: "rel c A \<Longrightarrow> distinct (map fst A)"
    and insert_new: "rel c A \<Longrightarrow> insert obj tick c = (i, c') \<Longrightarrow> i \<notin> fst ` set A"
    and insert_rel: "rel c A \<Longrightarrow> insert obj tick c = (i, c') \<Longrightarrow> rel c' (A @ [(i, obj, tick)])"
    and touch_rel: "rel c A \<Longrightarrow> (i, obj, t) \<in> set A \<Longrightarrow>
       \<exists>c'. touch i tick c = Some c' \<and> rel c' (if tick \<le> t then A else filter (\<lambda>e. fst e \<noteq> i) A @ [(i, obj, tick)])"
    and free_rel: "rel c A \<Longrightarrow> (i, obj, t) \<in> set A \<Longrightarrow> \<exists>c'. free i c = Some c' \<and> rel c' (filter (\<lambda>e. fst e \<noteq> i) A)"
begin

text \<open>With a clock that does not go back, the order of the list is the order of the ticks.\<close>

lemma insert_aged:
  assumes "rel c A" "aged now A" "insert obj now c = (i, c')"
  shows "rel c' (A @ [(i, obj, now)])" "aged now (A @ [(i, obj, now)])"
  using assms insert_rel by (auto simp: aged_def sorted_append)

lemma filter_aged: "aged now A \<Longrightarrow> aged now (filter P A)"
  by (auto simp: aged_def sorted_filter)

lemma touch_aged:
  assumes "rel c A" "aged now A" "(i, obj, t) \<in> set A"
  obtains c' B where "touch i now c = Some c'" "rel c' B" "aged now B" "fst ` set B = fst ` set A" "(i, obj, now) \<in> set B"
proof -
  have t: "t \<le> now" using assms(2,3) by (auto simp: aged_def)
  obtain c' where c': "touch i now c = Some c'" "rel c' (if now \<le> t then A else filter (\<lambda>e. fst e \<noteq> i) A @ [(i, obj, now)])"
    using touch_rel [OF assms(1,3)] by blast
  show thesis
  proof (cases "now \<le> t")
    case True
    then show thesis using that c' assms t by auto
  next
    case False
    have "aged now (filter (\<lambda>e. fst e \<noteq> i) A)" by (rule filter_aged [OF assms(2)])
    then have "aged now (filter (\<lambda>e. fst e \<noteq> i) A @ [(i, obj, now)])" by (auto simp: aged_def sorted_append)
    moreover have "fst ` set (filter (\<lambda>e. fst e \<noteq> i) A @ [(i, obj, now)]) = fst ` set A" using assms(3) by force
    ultimately show thesis using that [of c' "filter (\<lambda>e. fst e \<noteq> i) A @ [(i, obj, now)]"] c' False by auto
  qed
qed

lemma free_aged:
  assumes "rel c A" "aged now A" "(i, obj, t) \<in> set A"
  obtains c' where "free i c = Some c'" "rel c' (filter (\<lambda>e. fst e \<noteq> i) A)" "aged now (filter (\<lambda>e. fst e \<noteq> i) A)"
  using free_rel [OF assms(1,3)] filter_aged [OF assms(2)] that by blast

end

interpretation lru: recency_cache lru_rel lru_Insert lru_Touch lru_Free
proof
  show "distinct (map fst A)" if "lru_rel c A" for c and A :: "'a entry list" by (rule lru_rel_distinct [OF that])
  show "i \<notin> fst ` set A" "lru_rel c' (A @ [(i, obj, tick)])" if "lru_rel c A" "lru_Insert obj tick c = (i, c')"
    for c c' i obj tick and A :: "'a entry list"
    using lru_Insert_rel [OF that] by blast+
  show "\<exists>c'. lru_Touch i tick c = Some c' \<and> lru_rel c' (if tick \<le> t then A else filter (\<lambda>e. fst e \<noteq> i) A @ [(i, obj, tick)])"
    if "lru_rel c A" "(i, obj, t) \<in> set A" for c i obj t tick and A :: "'a entry list"
    using lru_Touch_rel [OF that] by blast
  show "\<exists>c'. lru_Free i c = Some c' \<and> lru_rel c' (filter (\<lambda>e. fst e \<noteq> i) A)"
    if "lru_rel c A" "(i, obj, t) \<in> set A" for c i obj t and A :: "'a entry list"
    using lru_Free_rel [OF that] by blast
qed

section \<open>Visiting the old items\<close>

primrec visit_all :: "('o \<Rightarrow> 's \<Rightarrow> (bool \<times> 's) option) \<Rightarrow> 'o list \<Rightarrow> 's \<Rightarrow> 's option" where
  "visit_all func [] st = Some st"
| "visit_all func (obj # objs) st = func obj st \<bind> (\<lambda>r. visit_all func objs (snd r))"

text \<open>The callback may change what was visited, the item it is called for included, but not the items after it; \<open>I\<close> is an invariant of its own.\<close>

definition visitor ::
  "('o LeastRecentlyUsedCache \<times> 's \<Rightarrow> bool) \<Rightarrow> ('o \<Rightarrow> 'o LeastRecentlyUsedCache \<times> 's \<Rightarrow> (bool \<times> 'o LeastRecentlyUsedCache \<times> 's) option) \<Rightarrow> bool" where
  "visitor I func \<longleftrightarrow> (\<forall>c x before i obj t rest. I (c, x) \<and> lru_rel c (before @ (i, obj, t) # rest) \<longrightarrow>
     (\<exists>b c' x' before'. func obj (c, x) = Some (b, c', x') \<and> I (c', x') \<and> lru_rel c' (before' @ rest)))"

lemma s64_sub_small: "a < 2 ^ 63 \<Longrightarrow> b < 2 ^ 63 \<Longrightarrow> s64_sub a b = Some (int a - int b)"
  by (auto simp: s64_sub_def s64_of_u64_def Let_def)

lemma lru_rel_item:
  assumes "lru_rel c (before @ (i, obj, t) # rest)"
  shows "it_obj (item_pool c ! i) = obj" "it_tick (item_pool c ! i) = t" "it_next (item_pool c ! i) = head_or (map fst rest) None"
proof -
  obtain l where l: "lru_rep c l" "before @ (i, obj, t) # rest = map (entry_of c) l" using assms by (auto simp: lru_rel_def)
  have "map fst (map (entry_of c) l) = l" by (simp add: entry_of_def comp_def)
  then have s: "l = map fst before @ i # map fst rest" using l(2) by (metis map_append list.simps(9) fst_conv)
  have "entry_of c i = (i, obj, t)" using l(2) unfolding s by (auto simp: append_eq_append_conv)
  then show "it_obj (item_pool c ! i) = obj" "it_tick (item_pool c ! i) = t" by (auto simp: entry_of_def)
  show "it_next (item_pool c ! i) = head_or (map fst rest) None" using l(1) unfolding s by (auto simp: lru_rep_def dseg_append)
qed

lemma lru_visit_all:
  assumes "lru_rel c (before @ rest)" "I (c, x)" "visitor I func" "\<forall>e\<in>set rest. tick_of e < 2 ^ 63" "tick < 2 ^ 63"
  shows "\<exists>c' x' before'. lru_visit tick func (head_or (map fst rest) None) (c, x) = Some (c', x')
      \<and> visit_all func (map obj_of (takeWhile (\<lambda>e. tick_of e \<le> tick) rest)) (c, x) = Some (c', x')
      \<and> I (c', x') \<and> lru_rel c' (before' @ dropWhile (\<lambda>e. tick_of e \<le> tick) rest)"
  using assms(1,2,4)
proof (induction rest arbitrary: c x before)
  case Nil
  then show ?case by (intro exI [of _ c] exI [of _ x] exI [of _ before]) (simp add: lru_visit.simps)
next
  case (Cons e rest)
  obtain i obj t where e: "e = (i, obj, t)" by (cases e) auto
  note rel = Cons.prems(1) [unfolded e]
  note it = lru_rel_item [OF rel]
  have d: "s64_sub tick t = Some (int tick - int t)" using Cons.prems(3) assms(5) by (simp add: e s64_sub_small)
  obtain b c1 x1 before1 where f: "func obj (c, x) = Some (b, c1, x1)" "I (c1, x1)" "lru_rel c1 (before1 @ rest)"
    using assms(3) rel Cons.prems(2) unfolding visitor_def by blast
  have run: "lru_visit tick func (head_or (map fst (e # rest)) None) (c, x) =
      (if tick < t then Some (c, x) else lru_visit tick func (head_or (map fst rest) None) (c1, x1))"
    using it d f(1) by (subst lru_visit.simps) (simp add: e)
  show ?case
  proof (cases "tick < t")
    case True
    then show ?thesis using run Cons.prems(1,2) by (intro exI [of _ c] exI [of _ x] exI [of _ before]) (simp add: e)
  next
    case False
    then show ?thesis using run f(1) Cons.IH [OF f(3,2)] Cons.prems(3) by (simp add: e)
  qed
qed

lemma sorted_takeWhile: "sorted (map tick_of A) \<Longrightarrow> takeWhile (\<lambda>e. tick_of e \<le> tick) A = filter (\<lambda>e. tick_of e \<le> tick) A"
  by (induction A) (auto intro!: filter_False [symmetric])

lemma sorted_dropWhile:
  "sorted (map tick_of A) \<Longrightarrow> dropWhile (\<lambda>e. tick_of e \<le> tick) A = filter (\<lambda>e. \<not> tick_of e \<le> tick) A"
  by (induction A) (auto intro!: filter_True [symmetric])

lemma dseg_unique: "dseg pool p l None \<Longrightarrow> dseg pool p l' None \<Longrightarrow> head_or l None = head_or l' None \<Longrightarrow> l = l'"
proof (induction l arbitrary: p l')
  case Nil
  then show ?case by (cases l') auto
next
  case (Cons x xs)
  then show ?case by (cases l') auto
qed

lemma lru_rel_unique: "lru_rel c A \<Longrightarrow> lru_rel c B \<Longrightarrow> A = B"
  unfolding lru_rel_def lru_rep_def using dseg_unique by metis

section \<open>The properties\<close>

text \<open>
  C14.  The least-recently-used cache, a doubly linked list threaded through a pool of items, behaves like a plain list in order of use, which it
  determines.  An insertion returns an index that no item in use has and appends the object; a touch with a later tick moves the item to the end with
  that tick, one that is not later changes nothing; freeing an item removes exactly it.  None of them dereferences an item that does not exist.
\<close>

theorem lru_cache_refines_list:
  assumes rel: "lru_rel c A"
  shows "(\<forall>B. lru_rel c B \<longrightarrow> B = A)
     \<and> (\<forall>obj tick i c'. lru_Insert obj tick c = (i, c') \<longrightarrow> i \<notin> fst ` set A \<and> lru_rel c' (A @ [(i, obj, tick)]))
     \<and> (\<forall>i obj t tick. (i, obj, t) \<in> set A \<longrightarrow>
          (\<exists>c'. lru_Touch i tick c = Some c' \<and> lru_rel c' (if tick \<le> t then A else filter (\<lambda>e. fst e \<noteq> i) A @ [(i, obj, tick)])))
     \<and> (\<forall>i obj t. (i, obj, t) \<in> set A \<longrightarrow> (\<exists>c'. lru_Free i c = Some c' \<and> lru_rel c' (filter (\<lambda>e. fst e \<noteq> i) A)))"
proof (intro conjI allI impI)
  show "B = A" if "lru_rel c B" for B by (rule lru_rel_unique [OF that rel])
  show "i \<notin> fst ` set A" "lru_rel c' (A @ [(i, obj, tick)])" if "lru_Insert obj tick c = (i, c')" for obj tick i c'
    using lru.insert_new [OF rel that] lru.insert_rel [OF rel that] by blast+
  show "\<exists>c'. lru_Touch i tick c = Some c' \<and> lru_rel c' (if tick \<le> t then A else filter (\<lambda>e. fst e \<noteq> i) A @ [(i, obj, tick)])"
    if "(i, obj, t) \<in> set A" for i obj t tick by (rule lru.touch_rel [OF rel that])
  show "\<exists>c'. lru_Free i c = Some c' \<and> lru_rel c' (filter (\<lambda>e. fst e \<noteq> i) A)" if "(i, obj, t) \<in> set A" for i obj t
    by (rule lru.free_rel [OF rel that])
qed

definition demo_lru :: "string LeastRecentlyUsedCache" where
  "demo_lru = snd (lru_Insert ''b'' 7 (snd (lru_Insert ''a'' 5 lru_empty)))"

lemma demo_lru_rel: "lru_rel demo_lru [(0, ''a'', 5), (1, ''b'', 7)]"
proof -
  obtain i c where 1: "lru_Insert ''a'' 5 lru_empty = (i, c)" by force
  then have i: "i = 0" by (auto simp: lru_Insert_def Build_def lru_empty_def Let_def)
  obtain j c' where 2: "lru_Insert ''b'' 7 c = (j, c')" by force
  have "length (item_pool c) = 1" "free_items c = []"
    using 1 by (auto simp: lru_Insert_def Build_def lru_empty_def Let_def Attach_def set_item_def split: option.splits)
  then have "j = 1" using 2 by (auto simp: lru_Insert_def Build_def Let_def)
  then show ?thesis using lru.insert_rel [OF lru.insert_rel [OF lru_rel_empty 1] 2] i by (simp add: demo_lru_def 1 2)
qed

theorem lru_cache_refines_list_witness:
  "\<exists>c'. lru_Touch 0 9 demo_lru = Some c' \<and> lru_rel c' [(1, ''b'', 7), (0, ''a'', 9)]"
  using lru_cache_refines_list [OF demo_lru_rel, THEN conjunct2, THEN conjunct2, THEN conjunct1, rule_format, of 0 "''a''" 5 9] by simp

text \<open>The caches that a client makes whose clock does not go back.\<close>

inductive lru_use :: "u64 \<Rightarrow> 'o LeastRecentlyUsedCache \<Rightarrow> bool" where
  new: "lru_use now lru_empty"
| insert: "lru_use now c \<Longrightarrow> now \<le> now' \<Longrightarrow> lru_Insert obj now' c = (i, c') \<Longrightarrow> lru_use now' c'"
| touch: "lru_use now c \<Longrightarrow> now \<le> now' \<Longrightarrow> lru_rel c A \<Longrightarrow> i \<in> fst ` set A \<Longrightarrow> lru_Touch i now' c = Some c' \<Longrightarrow> lru_use now' c'"
| free: "lru_use now c \<Longrightarrow> lru_rel c A \<Longrightarrow> i \<in> fst ` set A \<Longrightarrow> lru_Free i c = Some c' \<Longrightarrow> lru_use now c'"

lemma aged_mono: "aged now A \<Longrightarrow> now \<le> now' \<Longrightarrow> aged now' A"
  by (fastforce simp: aged_def)

lemma lru_use_aged:
  assumes "lru_use now c"
  obtains A where "lru_rel c A" "aged now A"
proof -
  have "\<exists>A. lru_rel c A \<and> aged now A"
    using assms
  proof (induction rule: lru_use.induct)
    case (new now)
    then show ?case using lru_rel_empty by (auto simp: aged_def)
  next
    case (insert now c now' obj i c')
    then show ?case using lru.insert_aged [OF _ _ insert(3)] aged_mono by blast
  next
    case (touch now c now' A i c')
    then obtain obj t where e: "(i, obj, t) \<in> set A" by auto
    have "aged now' A" using touch lru_rel_unique aged_mono by metis
    then show ?case using lru.touch_aged [OF touch(3) _ e] touch(5) by (metis option.inject)
  next
    case (free now c A i c')
    then obtain obj t where e: "(i, obj, t) \<in> set A" by auto
    have "aged now A" using free lru_rel_unique by metis
    then show ?case using lru.free_aged [OF free(2) _ e] free(4) by (metis option.inject)
  qed
  then show thesis using that by blast
qed

lemma lru_foreach_ok:
  assumes A: "lru_rel c A" "aged now A" "now < 2 ^ 63" "tick < 2 ^ 63" and func: "visitor I func" "I (c, x)"
  obtains c' x' B where "lru_ForEachItemBelow tick func (c, x) = Some (c', x')"
     "visit_all func (map obj_of (filter (\<lambda>e. tick_of e \<le> tick) A)) (c, x) = Some (c', x')"
     "I (c', x')" "lru_rel c' (B @ filter (\<lambda>e. \<not> tick_of e \<le> tick) A)"
proof -
  have s: "sorted (map tick_of A)" and small: "\<forall>e\<in>set A. tick_of e < 2 ^ 63" using A(2,3) by (auto simp: aged_def)
  have first: "first_item c = head_or (map fst A) None"
    using A(1) by (auto simp: lru_rel_def lru_rep_def entry_of_def comp_def)
  have rel: "lru_rel c ([] @ A)" using A(1) by simp
  show thesis
    using lru_visit_all [OF rel func(2,1) small A(4), unfolded sorted_takeWhile [OF s] sorted_dropWhile [OF s], folded first] that
    unfolding lru_ForEachItemBelow_def by auto
qed

text \<open>
  C15.  \<^verbatim>\<open>ForEachItemBelow\<close> on a cache whose client's clock does not go back, with ticks below \<open>2 ^ 63\<close> and a callback that keeps an invariant of its own and leaves the items after the current
  one alone (it may free the current item): the loop ends, and it calls the callback for exactly the objects whose tick is at most the given one, from the least recently used on.
  The result of the callback, with which the callers mean to stop the loop, has no influence.
\<close>

theorem lru_ForEachItemBelow_correct:
  assumes use: "lru_use now c" "now < 2 ^ 63" "tick < 2 ^ 63" and func: "visitor I func" "I (c, x)"
  shows "\<exists>A c' x' B. lru_rel c A \<and> lru_ForEachItemBelow tick func (c, x) = Some (c', x')
     \<and> visit_all func (map obj_of (filter (\<lambda>e. tick_of e \<le> tick) A)) (c, x) = Some (c', x')
     \<and> I (c', x') \<and> lru_rel c' (B @ filter (\<lambda>e. \<not> tick_of e \<le> tick) A)"
proof -
  obtain A where A: "lru_rel c A" "aged now A" by (rule lru_use_aged [OF use(1)])
  show ?thesis by (rule lru_foreach_ok [OF A use(2,3) func]) (use A(1) in blast)
qed

theorem lru_ForEachItemBelow_correct_witness:
  "\<exists>c'. lru_ForEachItemBelow 6 (\<lambda>obj (c, x). Some (True, c, x @ [obj])) (demo_lru, []) = Some (c', [''a''])"
proof -
  have "\<exists>before'. lru_rel c (before' @ rest)" if "lru_rel c (before @ e # rest)" for c :: "string LeastRecentlyUsedCache" and before e rest
    using that by (intro exI [of _ "before @ [e]"]) simp
  then have v: "visitor (\<lambda>_. True) (\<lambda>obj (c :: string LeastRecentlyUsedCache, x). Some (True, c, x @ [obj]))" by (auto simp: visitor_def)
  obtain i c where 1: "lru_Insert ''a'' 5 lru_empty = (i, c)" by force
  obtain j c' where 2: "lru_Insert ''b'' 7 c = (j, c')" by force
  have "lru_use 7 demo_lru"
    using lru_use.insert [OF lru_use.insert [OF lru_use.new [of 0] _ 1] _ 2] by (simp add: demo_lru_def 1 2)
  from lru_ForEachItemBelow_correct [OF this _ _ v TrueI, of 6 "[]"] show ?thesis
    using lru_rel_unique [OF demo_lru_rel] by fastforce
qed

end
