(* ===== verification/Texture_Cache.thy ===== *)
theory Texture_Cache
  imports Page_Table Lru_Cache Slot_Vector Page_Manager
begin

text \<open>
  The registry of the texture cache (\<^verbatim>\<open>src/video_core/texture_cache/texture_cache.cpp\<close>, \<^verbatim>\<open>texture_cache.h\<close>, \<^verbatim>\<open>image.h\<close>): the images in a slot vector, the page table that finds the
  images of a region, the cache of recent use, the tracking of writes of the CPU, the metadata surfaces and the garbage collector.  A failed assertion, a slot that is not in use and an index out of range
  are \<open>None\<close>.  Calls of the page manager and downloads are recorded in a trace; operations deferred to the scheduler are a queue.  Of the null images (\<^verbatim>\<open>GetNullImage\<close> makes one per format) only the one of the constructor, in
  slot 0, is modelled.
\<close>

section \<open>State\<close>

text \<open>
  What the registry keeps of an image.  Of its description: where its contents lie in guest memory (the size is a \<^verbatim>\<open>u32\<close>), whether its tiling mode is not linear (\<open>guest_tiled\<close>,
  \<^verbatim>\<open>IsTiled()\<close>) and the property \<^verbatim>\<open>is_tiled\<close>, what the check for modifications needs, and the addresses of its metadata.  Of its state: the flags (one field each), its place in the
  cache of recent use, the range that is tracked for writes of the CPU and the hash.
\<close>

record ImageInfo =
  guest_address :: u64
  guest_size :: u64
  guest_tiled :: bool
  is_tiled :: bool
  is_block :: bool
  size_width :: u32
  size_height :: u32
  num_bits :: u32
  num_samples :: u32
  pitch :: u32
  res_layers :: u32
  cmask_addr :: u64
  fmask_addr :: u64
  htile_addr :: u64

record TexImage = ImageInfo +
  fl_MaybeCpuDirty :: bool
  fl_CpuDirty :: bool
  fl_GpuDirty :: bool
  fl_GpuModified :: bool
  fl_Registered :: bool
  fl_Picked :: bool
  lru_id :: nat
  track_addr :: u64
  track_addr_end :: u64
  img_hash :: u64

definition Overlaps :: "TexImage \<Rightarrow> u64 \<Rightarrow> u64 \<Rightarrow> bool" where
  "Overlaps img overlap_cpu_addr overlap_size \<longleftrightarrow>
     guest_address img < add64 overlap_cpu_addr overlap_size
     \<and> overlap_cpu_addr < add64 (guest_address img) (guest_size img)"

definition IsTracked :: "TexImage \<Rightarrow> bool" where
  "IsTracked img \<longleftrightarrow> track_addr img \<noteq> 0 \<and> track_addr_end img \<noteq> 0"

definition SafeToDownload :: "TexImage \<Rightarrow> bool" where
  "SafeToDownload img \<longleftrightarrow> fl_GpuModified img \<and> \<not> (fl_MaybeCpuDirty img \<or> fl_CpuDirty img \<or> fl_GpuDirty img)"

text \<open>Calls of the page manager and downloads.\<close>

datatype tex_effect = Watch u64 u64 | Unwatch u64 u64 | DownloadMemory u32

record TextureCache =
  slot_images :: "TexImage slot_vector"
  total_used_memory :: u64
  trigger_gc_memory :: u64
  pressure_gc_memory :: u64
  critical_gc_memory :: u64
  gc_tick :: u64
  lru_cache :: "u32 LeastRecentlyUsedCache"
  page_table :: "u32 list MultiLevelPageTable"
  surface_metas :: "u64 \<Rightarrow> 32 word option"
  download_images :: "u32 list"
  readback_linear_images :: bool
  deferred_ops :: "u32 list"
  tex_trace :: "tex_effect list"

definition TexTraits :: Traits where
  "TexTraits = \<lparr>AddressSpaceBits = 40, FirstLevelBits = 10, PageBits = 20\<rparr>"

definition tex_emit :: "tex_effect \<Rightarrow> TextureCache \<Rightarrow> TextureCache" where
  "tex_emit e tc = tc\<lparr>tex_trace := tex_trace tc @ [e]\<rparr>"

definition put_image :: "u32 \<Rightarrow> TexImage \<Rightarrow> TextureCache \<Rightarrow> TextureCache" where
  "put_image image_id img tc = tc\<lparr>slot_images := sv_put image_id img (slot_images tc)\<rparr>"

text \<open>The pages of a range; the end is computed at 64 bits.\<close>

definition pages_of :: "u64 \<Rightarrow> u64 \<Rightarrow> nat list" where
  "pages_of addr sz = [drop_bit (PageBits TexTraits) addr..<drop_bit (PageBits TexTraits) (sub64 (add64 addr sz) 1) + 1]"

text \<open>The limits of the garbage collector; \<open>budget\<close> is the memory budget of the device, if the Vulkan instance reports one.  The arithmetic is signed (the budget is below \<open>2 ^ 63\<close>); a negative limit becomes a large \<^verbatim>\<open>u64\<close> value.\<close>

definition gc_limits :: "nat option \<Rightarrow> u64 \<times> u64 \<times> u64" where
  "gc_limits budget = (case budget of
      None \<Rightarrow> (0, 0x60000000, 0xC0000000)
    | Some total_budget \<Rightarrow>
        (let device_local_memory = int total_budget;
             min_spacing_expected = device_local_memory - 0x40000000;
             min_spacing_critical = device_local_memory - 0x20000000;
             mem_threshold = min device_local_memory 0x200000000;
             min_vacancy_expected = 6 * mem_threshold div 10;
             min_vacancy_critical = 2 * mem_threshold div 10
         in (u64_of_s64 ((device_local_memory - mem_threshold) div 2),
             max (u64_of_s64 (min (device_local_memory - min_vacancy_expected) min_spacing_expected)) 0x60000000,
             max (u64_of_s64 (min (device_local_memory - min_vacancy_critical) min_spacing_critical)) 0xC0000000)))"

text \<open>A new image is dirty; the null image at slot 0, one pixel with a size of 256 bytes and no place in guest memory, is not, and it is never registered.\<close>

definition new_image :: "ImageInfo \<Rightarrow> TexImage" where
  "new_image info = ImageInfo.extend info
     \<lparr>fl_MaybeCpuDirty = True, fl_CpuDirty = True, fl_GpuDirty = True, fl_GpuModified = False, fl_Registered = False, fl_Picked = False,
      lru_id = 0, track_addr = 0, track_addr_end = 0, img_hash = 0\<rparr>"

definition null_info :: ImageInfo where
  "null_info = \<lparr>guest_address = 0, guest_size = 256, guest_tiled = True, is_tiled = False, is_block = False, size_width = 1, size_height = 1, num_bits = 32, num_samples = 1, pitch = 0, res_layers = 1,
     cmask_addr = 0, fmask_addr = 0, htile_addr = 0\<rparr>"

definition null_image :: TexImage where
  "null_image = (new_image null_info)\<lparr>fl_MaybeCpuDirty := False, fl_CpuDirty := False, fl_GpuDirty := False, track_addr := 0, track_addr_end := 256\<rparr>"

definition TextureCache_init :: "nat option \<Rightarrow> bool \<Rightarrow> TextureCache option" where
  "TextureCache_init budget readback = do {
     v \<leftarrow> SlotVector_init;
     (null_id, v1) \<leftarrow> sv_insert null_image v;
     (if null_id = 0 then Some () else None);
     let (trigger, pressure, critical) = gc_limits budget;
     Some \<lparr>slot_images = v1, total_used_memory = 0, trigger_gc_memory = trigger, pressure_gc_memory = pressure,
           critical_gc_memory = critical, gc_tick = 0, lru_cache = lru_empty, page_table = mlpt_init TexTraits,
           surface_metas = (\<lambda>_. None), download_images = [], readback_linear_images = readback, deferred_ops = [], tex_trace = []\<rparr>
   }"

section \<open>Registration\<close>

definition RegisterImage :: "u32 \<Rightarrow> TextureCache \<Rightarrow> TextureCache option" where
  "RegisterImage image_id tc = do {
     img \<leftarrow> sv_at image_id (slot_images tc);
     (if fl_Registered img then None else Some ());
     let tc1 = tc\<lparr>total_used_memory := add64 (total_used_memory tc) (AlignUp (guest_size img) 1024 mod 2 ^ 32)\<rparr>;
     let (id, lru) = lru_Insert image_id (gc_tick tc1) (lru_cache tc1);
     let tc2 = put_image image_id (img\<lparr>fl_Registered := True, lru_id := id\<rparr>) (tc1\<lparr>lru_cache := lru\<rparr>);
     table \<leftarrow> for_pages (\<lambda>page. mlpt_modify TexTraits [] page (\<lambda>ids. ids @ [image_id]))
                (pages_of (guest_address img) (guest_size img)) (page_table tc2);
     Some (tc2\<lparr>page_table := table\<rparr>)
   }"

definition unregister_page :: "u32 \<Rightarrow> nat \<Rightarrow> u32 list MultiLevelPageTable \<Rightarrow> u32 list MultiLevelPageTable option" where
  "unregister_page image_id page table = do {
     page_it \<leftarrow> mlpt_find TexTraits page table;
     (case page_it of
        None \<Rightarrow> None
      | Some image_ids \<Rightarrow>
          (if image_id \<in> set image_ids then mlpt_modify TexTraits [] page (remove1 image_id) table else None))
   }"

definition UnregisterImage :: "u32 \<Rightarrow> TextureCache \<Rightarrow> TextureCache option" where
  "UnregisterImage image_id tc = do {
     img \<leftarrow> sv_at image_id (slot_images tc);
     (if fl_Registered img then Some () else None);
     let tc1 = put_image image_id (img\<lparr>fl_Registered := False\<rparr>) tc;
     lru \<leftarrow> lru_Free (lru_id img) (lru_cache tc1);
     let tc2 = tc1\<lparr>lru_cache := lru, total_used_memory := sub64 (total_used_memory tc1) (AlignUp (guest_size img) 1024 mod 2 ^ 32)\<rparr>;
     table \<leftarrow> for_pages (unregister_page image_id) (pages_of (guest_address img) (guest_size img)) (page_table tc2);
     Some (tc2\<lparr>page_table := table\<rparr>)
   }"

definition TouchImage :: "TexImage \<Rightarrow> TextureCache \<Rightarrow> TextureCache option" where
  "TouchImage img tc = do {
     lru \<leftarrow> lru_Touch (lru_id img) (gc_tick tc) (lru_cache tc);
     Some (tc\<lparr>lru_cache := lru\<rparr>)
   }"

definition GetImage :: "u32 \<Rightarrow> TextureCache \<Rightarrow> TextureCache option" where
  "GetImage image_id tc = do {
     img \<leftarrow> sv_at image_id (slot_images tc);
     TouchImage img tc
   }"

text \<open>How an image enters the cache: inserted, registered and touched.\<close>

definition create_image :: "ImageInfo \<Rightarrow> TextureCache \<Rightarrow> (u32 \<times> TextureCache) option" where
  "create_image info tc = do {
     (image_id, v) \<leftarrow> sv_insert (new_image info) (slot_images tc);
     tc1 \<leftarrow> RegisterImage image_id (tc\<lparr>slot_images := v\<rparr>);
     tc2 \<leftarrow> GetImage image_id tc1;
     Some (image_id, tc2)
   }"

section \<open>Tracking\<close>

definition TrackImageHead :: "u32 \<Rightarrow> TextureCache \<Rightarrow> TextureCache option" where
  "TrackImageHead image_id tc = do {
     img \<leftarrow> sv_at image_id (slot_images tc);
     let image_begin = guest_address img;
     (if \<not> fl_Registered img \<or> image_begin = track_addr img then Some tc
      else if track_addr img \<noteq> 0 \<and> image_begin < track_addr img then
        Some (tex_emit (Watch image_begin (sub64 (track_addr img) image_begin)) (put_image image_id (img\<lparr>track_addr := image_begin\<rparr>) tc))
      else None)
   }"

definition TrackImageTail :: "u32 \<Rightarrow> TextureCache \<Rightarrow> TextureCache option" where
  "TrackImageTail image_id tc = do {
     img \<leftarrow> sv_at image_id (slot_images tc);
     let image_end = add64 (guest_address img) (guest_size img);
     (if \<not> fl_Registered img \<or> image_end = track_addr_end img then Some tc
      else if track_addr_end img \<noteq> 0 \<and> track_addr_end img < image_end then
        Some (tex_emit (Watch (track_addr_end img) (sub64 image_end (track_addr_end img)))
               (put_image image_id (img\<lparr>track_addr_end := image_end\<rparr>) tc))
      else None)
   }"

definition TrackImage :: "u32 \<Rightarrow> TextureCache \<Rightarrow> TextureCache option" where
  "TrackImage image_id tc = do {
     img \<leftarrow> sv_at image_id (slot_images tc);
     let image_begin = guest_address img;
     let image_end = add64 (guest_address img) (guest_size img);
     (if \<not> fl_Registered img \<or> (image_begin = track_addr img \<and> image_end = track_addr_end img) then Some tc
      else if \<not> IsTracked img then
        Some (tex_emit (Watch image_begin (guest_size img))
               (put_image image_id (img\<lparr>track_addr := image_begin, track_addr_end := image_end\<rparr>) tc))
      else do {
        tc1 \<leftarrow> (if image_begin < track_addr img then TrackImageHead image_id tc else Some tc);
        img1 \<leftarrow> sv_at image_id (slot_images tc1);
        (if track_addr_end img1 < image_end then TrackImageTail image_id tc1 else Some tc1)
      })
   }"

definition UntrackImage :: "u32 \<Rightarrow> TextureCache \<Rightarrow> TextureCache option" where
  "UntrackImage image_id tc = do {
     img \<leftarrow> sv_at image_id (slot_images tc);
     (if \<not> IsTracked img then Some tc
      else let sz = sub64 (track_addr_end img) (track_addr img);
               tc1 = put_image image_id (img\<lparr>track_addr := 0, track_addr_end := 0\<rparr>) tc
           in Some (if sz \<noteq> 0 then tex_emit (Unwatch (track_addr img) sz) tc1 else tc1))
   }"

text \<open>The hash of the contents of a guest range is a function of the host's library and of guest memory: a parameter.\<close>

definition MarkAsMaybeDirty :: "(u64 \<Rightarrow> u64 \<Rightarrow> u64) \<Rightarrow> u32 \<Rightarrow> TextureCache \<Rightarrow> TextureCache option" where
  "MarkAsMaybeDirty xxh image_id tc = do {
     img \<leftarrow> sv_at image_id (slot_images tc);
     let img1 = (if img_hash img = 0 then img\<lparr>img_hash := xxh (guest_address img) (guest_size img)\<rparr> else img);
     UntrackImage image_id (put_image image_id (img1\<lparr>fl_MaybeCpuDirty := True\<rparr>) tc)
   }"

definition UntrackImageHead :: "(u64 \<Rightarrow> u64 \<Rightarrow> u64) \<Rightarrow> u32 \<Rightarrow> TextureCache \<Rightarrow> TextureCache option" where
  "UntrackImageHead xxh image_id tc = do {
     img \<leftarrow> sv_at image_id (slot_images tc);
     let image_begin = guest_address img;
     (if \<not> IsTracked img \<or> image_begin < track_addr img then Some tc
      else do {
        let addr = AlignUp (add64 image_begin 1) PM_PAGE_SIZE;
        let sz = sub64 addr image_begin;
        let tc1 = put_image image_id (img\<lparr>track_addr := addr\<rparr>) tc;
        tc2 \<leftarrow> (if addr = track_addr_end img then MarkAsMaybeDirty xxh image_id tc1 else Some tc1);
        Some (tex_emit (Unwatch image_begin sz) tc2)
      })
   }"

definition UntrackImageTail :: "(u64 \<Rightarrow> u64 \<Rightarrow> u64) \<Rightarrow> u32 \<Rightarrow> TextureCache \<Rightarrow> TextureCache option" where
  "UntrackImageTail xxh image_id tc = do {
     img \<leftarrow> sv_at image_id (slot_images tc);
     let image_end = add64 (guest_address img) (guest_size img);
     (if \<not> IsTracked img \<or> track_addr_end img < image_end then Some tc
      else if track_addr_end img = 0 then None
      else do {
        let addr = AlignDown image_end PM_PAGE_SIZE;
        let sz = sub64 image_end addr;
        let tc1 = put_image image_id (img\<lparr>track_addr_end := addr\<rparr>) tc;
        tc2 \<leftarrow> (if track_addr img = addr then MarkAsMaybeDirty xxh image_id tc1 else Some tc1);
        Some (tex_emit (Unwatch addr sz) tc2)
      })
   }"

text \<open>
  \<^verbatim>\<open>RefreshImage\<close> uploads the contents unless a hash of the first pixels shows that they did not change; what it does to the flags and the hash.
  The hashes of the mip levels and the commands for the GPU are not modelled: whether or not there is anything to copy, the image is not dirty afterwards.
\<close>

definition check_size :: "TexImage \<Rightarrow> u64" where
  "check_size img =
     (let w = min (size_width img) 8; h = min (size_height img) 8;
          s_w = (if is_block img then (w + 3) div 4 else w);
          s_h = (if is_block img then (h + 3) div 4 else h)
      in s_w * s_h * (num_bits img div 8) mod 2 ^ 32)"

definition RefreshImage :: "(u64 \<Rightarrow> u64 \<Rightarrow> u64) \<Rightarrow> TexImage \<Rightarrow> TexImage" where
  "RefreshImage xxh img =
     (if \<not> (fl_MaybeCpuDirty img \<or> fl_CpuDirty img \<or> fl_GpuDirty img) \<or> num_samples img > 1 then img
      else let maybe = (fl_MaybeCpuDirty img \<and> \<not> fl_CpuDirty img);
               hash = xxh (guest_address img) (check_size img)
           in if maybe \<and> img_hash img = hash then img\<lparr>fl_MaybeCpuDirty := False\<rparr>
              else (if maybe then img\<lparr>img_hash := hash\<rparr> else img)\<lparr>fl_MaybeCpuDirty := False, fl_CpuDirty := False, fl_GpuDirty := False\<rparr>)"

definition UpdateImage :: "(u64 \<Rightarrow> u64 \<Rightarrow> u64) \<Rightarrow> u32 \<Rightarrow> TextureCache \<Rightarrow> TextureCache option" where
  "UpdateImage xxh image_id tc = do {
     tc1 \<leftarrow> TrackImage image_id tc;
     tc2 \<leftarrow> GetImage image_id tc1;
     img \<leftarrow> sv_at image_id (slot_images tc2);
     Some (put_image image_id (RefreshImage xxh img) tc2)
   }"

definition add_download :: "u32 \<Rightarrow> TextureCache \<Rightarrow> TextureCache" where
  "add_download image_id tc = tc\<lparr>download_images := List.insert image_id (download_images tc)\<rparr>"

definition FindTexture :: "(u64 \<Rightarrow> u64 \<Rightarrow> u64) \<Rightarrow> bool \<Rightarrow> u32 \<Rightarrow> TextureCache \<Rightarrow> TextureCache option" where
  "FindTexture xxh is_storage image_id tc = do {
     img \<leftarrow> sv_at image_id (slot_images tc);
     let tc1 = (if is_storage then
                  let tc0 = put_image image_id (img\<lparr>fl_GpuModified := True\<rparr>) tc
                  in if readback_linear_images tc0 \<and> \<not> is_tiled img \<and> guest_address img \<noteq> 0 then add_download image_id tc0 else tc0
                else tc);
     UpdateImage xxh image_id tc1
   }"

definition emplace_meta :: "u64 \<Rightarrow> 32 word \<Rightarrow> (u64 \<Rightarrow> 32 word option) \<Rightarrow> (u64 \<Rightarrow> 32 word option)" where
  "emplace_meta addr clear_mask m = (if m addr = None then m(addr \<mapsto> clear_mask) else m)"

definition FindRenderTarget :: "(u64 \<Rightarrow> u64 \<Rightarrow> u64) \<Rightarrow> u64 \<Rightarrow> u64 \<Rightarrow> u32 \<Rightarrow> TextureCache \<Rightarrow> TextureCache option" where
  "FindRenderTarget xxh desc_cmask desc_fmask image_id tc = do {
     img \<leftarrow> sv_at image_id (slot_images tc);
     let tc0 = put_image image_id (img\<lparr>fl_GpuModified := True\<rparr>) tc;
     let tc1 = (if readback_linear_images tc0 \<and> \<not> is_tiled img then add_download image_id tc0 else tc0);
     tc2 \<leftarrow> UpdateImage xxh image_id tc1;
     img2 \<leftarrow> sv_at image_id (slot_images tc2);
     let (img3, metas3) = (if desc_cmask \<noteq> 0 then (img2\<lparr>cmask_addr := desc_cmask\<rparr>, emplace_meta desc_cmask (- 1) (surface_metas tc2)) else (img2, surface_metas tc2));
     let (img4, metas4) = (if desc_fmask \<noteq> 0 then (img3\<lparr>fmask_addr := desc_fmask\<rparr>, emplace_meta desc_fmask (- 1) metas3) else (img3, metas3));
     Some ((put_image image_id img4 tc2)\<lparr>surface_metas := metas4\<rparr>)
   }"

text \<open>
  The download of an image: nothing for an image that the GPU has not modified; otherwise its size (a product of \<^verbatim>\<open>u32\<close> values, which wraps) is asserted not to exceed
  the size in guest memory.  A download buffer (32 MB) that is too small yields a null pointer, which is not checked: \<open>None\<close>.  The copy on the GPU and the deferred write are the recorded effect.
\<close>

definition download_size :: "TexImage \<Rightarrow> u32" where
  "download_size img = pitch img * size_height img * res_layers img * (num_bits img div 8) mod 2 ^ 32"

definition DownloadImageMemory :: "u32 \<Rightarrow> TextureCache \<Rightarrow> TextureCache option" where
  "DownloadImageMemory image_id tc = do {
     img \<leftarrow> sv_at image_id (slot_images tc);
     if \<not> fl_GpuModified img then Some tc
     else do {
       assert_opt (download_size img \<le> guest_size img);
       assert_opt (download_size img \<le> 32 * 2 ^ 20);
       Some (tex_emit (DownloadMemory image_id) tc)
     }
   }"

primrec process_downloads :: "u32 list \<Rightarrow> TextureCache \<Rightarrow> TextureCache option" where
  "process_downloads [] tc = Some tc"
| "process_downloads (image_id # ids) tc = DownloadImageMemory image_id tc \<bind> process_downloads ids"

definition ProcessDownloadImages :: "TextureCache \<Rightarrow> TextureCache option" where
  "ProcessDownloadImages tc = map_option (\<lambda>tc'. tc'\<lparr>download_images := []\<rparr>) (process_downloads (download_images tc) tc)"

section \<open>Deletion\<close>

definition erase_meta :: "u64 \<Rightarrow> (u64 \<Rightarrow> 32 word option) \<Rightarrow> (u64 \<Rightarrow> 32 word option)" where
  "erase_meta addr m = (if addr \<noteq> 0 then m(addr := None) else m)"

definition DeleteImage :: "u32 \<Rightarrow> TextureCache \<Rightarrow> TextureCache option" where
  "DeleteImage image_id tc = do {
     img \<leftarrow> sv_at image_id (slot_images tc);
     (if IsTracked img \<or> fl_Registered img then None
      else Some (tc\<lparr>surface_metas := erase_meta (htile_addr img) (erase_meta (fmask_addr img) (erase_meta (cmask_addr img) (surface_metas tc))),
                    deferred_ops := deferred_ops tc @ [image_id]\<rparr>))
   }"

text \<open>The scheduler runs the oldest deferred operation; the views of the image are not modelled.\<close>

definition run_deferred :: "TextureCache \<Rightarrow> TextureCache option" where
  "run_deferred tc = (case deferred_ops tc of
      [] \<Rightarrow> Some tc
    | image_id # rest \<Rightarrow> map_option (\<lambda>v. tc\<lparr>slot_images := v, deferred_ops := rest\<rparr>) (sv_erase image_id (slot_images tc)))"

definition FreeImage :: "u32 \<Rightarrow> TextureCache \<Rightarrow> TextureCache option" where
  "FreeImage image_id tc = UntrackImage image_id tc \<bind> UnregisterImage image_id \<bind> DeleteImage image_id"

section \<open>Images of a region\<close>

text \<open>
  The callback gets the id and reads the image from its slot; it has a state of its own, of type \<open>'s\<close>.  It does not change the page table, whose lists
  the loop runs over.
\<close>

type_synonym 's image_callback = "u32 \<Rightarrow> 's \<times> TextureCache \<Rightarrow> ('s \<times> TextureCache) option"

primrec pick_images ::
  "u64 \<Rightarrow> u64 \<Rightarrow> 's image_callback \<Rightarrow> u32 list \<Rightarrow> u32 list \<times> 's \<times> TextureCache \<Rightarrow> (u32 list \<times> 's \<times> TextureCache) option" where
  "pick_images cpu_addr sz func [] st = Some st"
| "pick_images cpu_addr sz func (image_id # ids) st = (case st of (images, s, tc) \<Rightarrow> do {
     img \<leftarrow> sv_at image_id (slot_images tc);
     (if fl_Picked img \<or> \<not> Overlaps img cpu_addr sz then pick_images cpu_addr sz func ids st
      else do {
        st1 \<leftarrow> func image_id (s, put_image image_id (img\<lparr>fl_Picked := True\<rparr>) tc);
        pick_images cpu_addr sz func ids (images @ [image_id], st1)
      })
   })"

primrec unpick_images :: "u32 list \<Rightarrow> TextureCache \<Rightarrow> TextureCache option" where
  "unpick_images [] tc = Some tc"
| "unpick_images (image_id # ids) tc = do {
     img \<leftarrow> sv_at image_id (slot_images tc);
     unpick_images ids (put_image image_id (img\<lparr>fl_Picked := False\<rparr>) tc)
   }"

definition pick_page ::
  "u64 \<Rightarrow> u64 \<Rightarrow> 's image_callback \<Rightarrow> nat \<Rightarrow> u32 list \<times> 's \<times> TextureCache \<Rightarrow> (u32 list \<times> 's \<times> TextureCache) option" where
  "pick_page cpu_addr sz func page st = do {
     it \<leftarrow> mlpt_find TexTraits page (page_table (snd (snd st)));
     (case it of None \<Rightarrow> Some st | Some ids \<Rightarrow> pick_images cpu_addr sz func ids st)
   }"

definition ForEachImageInRegion :: "u64 \<Rightarrow> u64 \<Rightarrow> 's image_callback \<Rightarrow> 's \<times> TextureCache \<Rightarrow> ('s \<times> TextureCache) option" where
  "ForEachImageInRegion cpu_addr sz func st = do {
     (images, s, tc1) \<leftarrow> for_pages (pick_page cpu_addr sz func) (pages_of cpu_addr sz) ([], st);
     tc2 \<leftarrow> unpick_images images tc1;
     Some (s, tc2)
   }"

definition invalidate_image :: "(u64 \<Rightarrow> u64 \<Rightarrow> u64) \<Rightarrow> u64 \<Rightarrow> u64 \<Rightarrow> u64 \<Rightarrow> u64 \<Rightarrow> u32 \<Rightarrow> TextureCache \<Rightarrow> TextureCache option" where
  "invalidate_image xxh addr sz pages_start pages_end image_id tc = do {
     img \<leftarrow> sv_at image_id (slot_images tc);
     (if Overlaps img addr sz then UntrackImage image_id (put_image image_id (img\<lparr>fl_CpuDirty := True\<rparr>) tc)
      else if pages_end < add64 (guest_address img) (guest_size img) then UntrackImageHead xxh image_id tc
      else if guest_address img < pages_start then UntrackImageTail xxh image_id tc
      else MarkAsMaybeDirty xxh image_id tc)
   }"

definition tex_InvalidateMemory :: "(u64 \<Rightarrow> u64 \<Rightarrow> u64) \<Rightarrow> u64 \<Rightarrow> u64 \<Rightarrow> TextureCache \<Rightarrow> TextureCache option" where
  "tex_InvalidateMemory xxh addr sz tc =
     (let pages_start = AlignDown addr PM_PAGE_SIZE;
          pages_end = AlignUp (add64 (sub64 (add64 addr sz) 1) 1) PM_PAGE_SIZE
      in map_option snd (ForEachImageInRegion pages_start (sub64 pages_end pages_start)
           (\<lambda>image_id (u, tc). map_option (Pair u) (invalidate_image xxh addr sz pages_start pages_end image_id tc)) ((), tc)))"

definition InvalidateMemoryFromGPU :: "u64 \<Rightarrow> u64 \<Rightarrow> TextureCache \<Rightarrow> TextureCache option" where
  "InvalidateMemoryFromGPU address max_size tc =
     map_option snd (ForEachImageInRegion address max_size (\<lambda>image_id (u, tc). do {
         img \<leftarrow> sv_at image_id (slot_images tc);
         Some (u, if guest_address img \<noteq> address then tc else put_image image_id (img\<lparr>fl_GpuDirty := True\<rparr>) tc)
       }) ((), tc))"

definition FindImageFromRange :: "u64 \<Rightarrow> u64 \<Rightarrow> bool \<Rightarrow> TextureCache \<Rightarrow> (u32 option \<times> TextureCache) option" where
  "FindImageFromRange address sz ensure_valid tc = do {
     (image_ids, tc1) \<leftarrow> ForEachImageInRegion address sz (\<lambda>image_id (image_ids, tc). do {
         img \<leftarrow> sv_at image_id (slot_images tc);
         Some (if guest_address img \<noteq> address \<or> (ensure_valid \<and> \<not> SafeToDownload img) then image_ids else image_ids @ [image_id], tc)
       }) ([], tc);
     Some (if length image_ids = 1 then Some (last image_ids)
           else find (\<lambda>i. map_option guest_size (sv_at i (slot_images tc1)) = Some sz) image_ids, tc1)
   }"

primrec free_images :: "u32 list \<Rightarrow> TextureCache \<Rightarrow> TextureCache option" where
  "free_images [] tc = Some tc"
| "free_images (image_id # ids) tc = FreeImage image_id tc \<bind> free_images ids"

definition tex_UnmapMemory :: "u64 \<Rightarrow> u64 \<Rightarrow> TextureCache \<Rightarrow> TextureCache option" where
  "tex_UnmapMemory cpu_addr sz tc = do {
     (deleted_images, tc1) \<leftarrow> ForEachImageInRegion cpu_addr sz (\<lambda>image_id (ids, tc). Some (ids @ [image_id], tc)) ([], tc);
     free_images deleted_images tc1
   }"

section \<open>Garbage collection\<close>

record gc_state =
  gc_pressured :: bool
  gc_aggresive :: bool
  ticks_to_destroy :: u64
  num_deletions :: nat

definition gc_configure :: "bool \<Rightarrow> TextureCache \<Rightarrow> gc_state" where
  "gc_configure allow_aggressive tc =
     (let pressured = (total_used_memory tc \<ge> pressure_gc_memory tc);
          aggresive = (allow_aggressive \<and> total_used_memory tc \<ge> critical_gc_memory tc)
      in \<lparr>gc_pressured = pressured, gc_aggresive = aggresive,
          ticks_to_destroy = min (if aggresive then 160 else if pressured then 80 else 16) (gc_tick tc),
          num_deletions = (if aggresive then 40 else if pressured then 20 else 10)\<rparr>)"

text \<open>The boolean is the result of the callback.\<close>

definition clean_up :: "u32 \<Rightarrow> TextureCache \<times> gc_state \<Rightarrow> (bool \<times> TextureCache \<times> gc_state) option" where
  "clean_up image_id = (\<lambda>(tc, g).
     if num_deletions g = 0 then Some (True, tc, g)
     else do {
       let g1 = g\<lparr>num_deletions := num_deletions g - 1\<rparr>;
       img \<leftarrow> sv_at image_id (slot_images tc);
       let download = SafeToDownload img;
       (if guest_tiled img \<and> download then Some (False, tc, g1)
        else if download \<and> \<not> gc_pressured g1 then Some (False, tc, g1)
        else do {
          tc1 \<leftarrow> (if download then DownloadImageMemory image_id tc else Some tc);
          tc2 \<leftarrow> FreeImage image_id tc1;
          Some (if total_used_memory tc2 < critical_gc_memory tc2 then
                  (if gc_aggresive g1 then (False, tc2, g1\<lparr>num_deletions := num_deletions g1 div 4, gc_aggresive := False\<rparr>)
                   else if gc_pressured g1 \<and> total_used_memory tc2 < pressure_gc_memory tc2
                   then (False, tc2, g1\<lparr>num_deletions := num_deletions g1 div 2, gc_pressured := False\<rparr>)
                   else (False, tc2, g1))
                else (False, tc2, g1))
        })
     })"

text \<open>The callback of the traversal: the cache it traverses is the one inside the state.\<close>

definition gc_callback ::
  "u32 \<Rightarrow> u32 LeastRecentlyUsedCache \<times> TextureCache \<times> gc_state \<Rightarrow> (bool \<times> u32 LeastRecentlyUsedCache \<times> TextureCache \<times> gc_state) option" where
  "gc_callback image_id = (\<lambda>(lru, tc, g).
     map_option (\<lambda>(b, tc', g'). (b, lru_cache tc', tc', g')) (clean_up image_id (tc\<lparr>lru_cache := lru\<rparr>, g)))"

definition gc_pass :: "bool \<Rightarrow> TextureCache \<Rightarrow> TextureCache option" where
  "gc_pass allow_aggressive tc =
     (let g = gc_configure allow_aggressive tc
      in map_option (fst \<circ> snd) (lru_ForEachItemBelow (sub64 (gc_tick tc) (ticks_to_destroy g)) gc_callback (lru_cache tc, tc, g)))"

text \<open>\<open>device_usage\<close> is what the Vulkan instance reports, if it can.\<close>

definition RunGarbageCollector :: "u64 option \<Rightarrow> TextureCache \<Rightarrow> TextureCache option" where
  "RunGarbageCollector device_usage tc = do {
     let tc0 = (case device_usage of None \<Rightarrow> tc | Some usage \<Rightarrow> tc\<lparr>total_used_memory := usage\<rparr>);
     tc1 \<leftarrow> (if total_used_memory tc0 < trigger_gc_memory tc0 then Some tc0
            else do {
              tc1 \<leftarrow> gc_pass False tc0;
              (if total_used_memory tc1 \<ge> critical_gc_memory tc1 then gc_pass True tc1 else Some tc1)
            });
     Some (tc1\<lparr>gc_tick := add64 (gc_tick tc1) 1\<rparr>)
   }"

section \<open>Metadata surfaces\<close>

definition IsMeta :: "u64 \<Rightarrow> TextureCache \<Rightarrow> bool" where
  "IsMeta address tc \<longleftrightarrow> surface_metas tc address \<noteq> None"

text \<open>A shift by 32 or more is undefined: \<open>None\<close>.\<close>

definition IsMetaCleared :: "u64 \<Rightarrow> nat \<Rightarrow> TextureCache \<Rightarrow> bool option" where
  "IsMetaCleared address slc tc =
     (case surface_metas tc address of
        None \<Rightarrow> Some False
      | Some clear_mask \<Rightarrow> (if slc < 32 then Some (clear_mask AND push_bit slc 1 \<noteq> 0) else None))"

definition ClearMeta :: "u64 \<Rightarrow> TextureCache \<Rightarrow> bool \<times> TextureCache" where
  "ClearMeta address tc =
     (case surface_metas tc address of
        None \<Rightarrow> (False, tc)
      | Some _ \<Rightarrow> (True, tc\<lparr>surface_metas := (surface_metas tc)(address \<mapsto> - 1)\<rparr>))"

definition TouchMeta :: "u64 \<Rightarrow> nat \<Rightarrow> bool \<Rightarrow> TextureCache \<Rightarrow> (bool \<times> TextureCache) option" where
  "TouchMeta address slc is_clear tc =
     (case surface_metas tc address of
        None \<Rightarrow> Some (False, tc)
      | Some clear_mask \<Rightarrow>
          (if slc < 32 then
             Some (True, tc\<lparr>surface_metas := (surface_metas tc)(address \<mapsto>
               (if is_clear then clear_mask OR push_bit slc 1 else clear_mask AND NOT (push_bit slc 1)))\<rparr>)
           else None))"

end
