(* ===== verification/Texture_Index.thy ===== *)
theory Texture_Index
  imports Texture_Cache
begin

text \<open>
  What the page table and the cache of recent use say about the images, and the loop over the images of a region behind the interface \<open>image_visitor\<close>.
\<close>

section \<open>The index\<close>

text \<open>Where an image lies, whether it is registered and its place in the cache of recent use: what the page table and that cache mirror.\<close>

definition place :: "TexImage \<Rightarrow> u64 \<times> u64 \<times> bool \<times> nat" where
  "place img = (guest_address img, guest_size img, fl_Registered img, lru_id img)"

definition img_at :: "TextureCache \<Rightarrow> u32 \<Rightarrow> TexImage option" where
  "img_at tc i = sv_at i (slot_images tc)"

definition registered :: "TextureCache \<Rightarrow> u32 \<Rightarrow> bool" where
  "registered tc i \<longleftrightarrow> (case img_at tc i of None \<Rightarrow> False | Some img \<Rightarrow> fl_Registered img)"

definition in_space :: "u64 \<Rightarrow> u64 \<Rightarrow> bool" where
  "in_space addr sz \<longleftrightarrow> 0 < sz \<and> addr + sz \<le> 2 ^ 40"

definition lists_images :: "TextureCache \<Rightarrow> nat \<Rightarrow> bool" where
  "lists_images tc p \<longleftrightarrow> (let ids = mlpt_entry TexTraits [] (page_table tc) p in
     distinct ids \<and> set ids = {i. \<exists>img. img_at tc i = Some img \<and> fl_Registered img \<and> p \<in> set (pages_of (guest_address img) (guest_size img))})"

definition pages_ok :: "TextureCache \<Rightarrow> bool" where
  "pages_ok tc \<longleftrightarrow> mlpt_ok TexTraits (page_table tc) \<and> (\<forall>p < 2 ^ 20. lists_images tc p)"

definition lru_ok :: "TextureCache \<Rightarrow> u32 entry list \<Rightarrow> bool" where
  "lru_ok tc A \<longleftrightarrow> lru_rel (lru_cache tc) A \<and> aged (gc_tick tc) A
     \<and> (\<forall>(l, i, t) \<in> set A. \<exists>img. img_at tc i = Some img \<and> fl_Registered img \<and> lru_id img = l)
     \<and> (\<forall>i img. img_at tc i = Some img \<and> fl_Registered img \<longrightarrow> (\<exists>t. (lru_id img, i, t) \<in> set A))"

definition deferred_ok :: "TextureCache \<Rightarrow> bool" where
  "deferred_ok tc \<longleftrightarrow> distinct (deferred_ops tc) \<and> 0 \<notin> set (deferred_ops tc)
     \<and> (\<forall>i \<in> set (deferred_ops tc). \<exists>img. img_at tc i = Some img \<and> \<not> fl_Registered img)
     \<and> (\<exists>img. img_at tc 0 = Some img \<and> \<not> fl_Registered img \<and> lru_id img = 0)"

definition index_ok :: "TextureCache \<Rightarrow> bool" where
  "index_ok tc \<longleftrightarrow> sv_ok (slot_images tc) \<and> pages_ok tc \<and> (\<exists>A. lru_ok tc A) \<and> deferred_ok tc
     \<and> (\<forall>i img. img_at tc i = Some img \<and> fl_Registered img \<longrightarrow> 0 < guest_address img \<and> in_space (guest_address img) (guest_size img))"

section \<open>Pages of a range\<close>

lemma TexTraits_simps [simp]:
  "PageBits TexTraits = 20" "mlpt_pages TexTraits = 2 ^ 20"
  by (simp_all add: TexTraits_def mlpt_pages_def SecondLevelBits_def FirstLevelShift_def)

lemma pages_of_in_space:
  assumes "in_space addr sz"
  shows "pages_of addr sz = [addr div 2 ^ 20..<(addr + sz - 1) div 2 ^ 20 + 1]" "p \<in> set (pages_of addr sz) \<Longrightarrow> p < 2 ^ 20"
proof -
  have b: "0 < sz" "addr + sz \<le> 1099511627776" using assms by (auto simp: in_space_def)
  have "add64 addr sz = addr + sz" using b by (intro add64_exact) simp
  moreover have "sub64 (addr + sz) 1 = addr + sz - 1" using b by (intro sub64_exact) auto
  ultimately show eq: "pages_of addr sz = [addr div 2 ^ 20..<(addr + sz - 1) div 2 ^ 20 + 1]"
    by (simp add: pages_of_def drop_bit_eq_div)
  have "(addr + sz - 1) div 2 ^ 20 < 2 ^ 20" using b by (simp add: less_mult_imp_div_less)
  then show "p < 2 ^ 20" if "p \<in> set (pages_of addr sz)" using that unfolding eq by auto
qed

lemma pages_of_distinct [simp]: "distinct (pages_of addr sz)"
  by (simp add: pages_of_def)

lemma Overlaps_eq:
  assumes "in_space (guest_address img) (guest_size img)" "in_space a n"
  shows "Overlaps img a n \<longleftrightarrow> guest_address img < a + n \<and> a < guest_address img + guest_size img"
proof -
  have "add64 a n = a + n" "add64 (guest_address img) (guest_size img) = guest_address img + guest_size img"
    using assms by (auto simp: in_space_def intro!: add64_exact)
  then show ?thesis by (simp add: Overlaps_def)
qed

text \<open>Two ranges that overlap share a page.\<close>

lemma common_page:
  assumes "in_space a n" "in_space b m" "b < a + n" "a < b + m"
  shows "\<exists>p. p \<in> set (pages_of a n) \<and> p \<in> set (pages_of b m)"
proof -
  define x where "x = max a b"
  have "a \<le> x" "x \<le> a + n - 1" "b \<le> x" "x \<le> b + m - 1" using assms by (auto simp: x_def in_space_def)
  then have "a div 2 ^ 20 \<le> x div 2 ^ 20" "x div 2 ^ 20 \<le> (a + n - 1) div 2 ^ 20" "b div 2 ^ 20 \<le> x div 2 ^ 20" "x div 2 ^ 20 \<le> (b + m - 1) div 2 ^ 20"
    by (simp_all add: div_le_mono)
  then show ?thesis using pages_of_in_space(1) [OF assms(1)] pages_of_in_space(1) [OF assms(2)] by (intro exI [of _ "x div 2 ^ 20"]) auto
qed

section \<open>Changing one image\<close>

lemma img_at_put:
  assumes "sv_ok (slot_images tc)" "img_at tc i = Some img"
  shows "img_at (put_image i img' tc) j = (if j = i then Some img' else img_at tc j)" "sv_ok (slot_images (put_image i img' tc))"
  using sv.put_look [of "slot_images tc" i img j img'] sv.put_law [of "slot_images tc" i img img'] assms
  by (auto simp: img_at_def put_image_def)

lemma put_image_simps [simp]:
  "page_table (put_image i img tc) = page_table tc" "lru_cache (put_image i img tc) = lru_cache tc" "gc_tick (put_image i img tc) = gc_tick tc"
  "deferred_ops (put_image i img tc) = deferred_ops tc" "tex_trace (put_image i img tc) = tex_trace tc"
  "surface_metas (put_image i img tc) = surface_metas tc" "total_used_memory (put_image i img tc) = total_used_memory tc"
  "trigger_gc_memory (put_image i img tc) = trigger_gc_memory tc" "pressure_gc_memory (put_image i img tc) = pressure_gc_memory tc"
  "critical_gc_memory (put_image i img tc) = critical_gc_memory tc"
  by (simp_all add: put_image_def)

lemma tex_emit_simps [simp]:
  "page_table (tex_emit e tc) = page_table tc" "lru_cache (tex_emit e tc) = lru_cache tc" "gc_tick (tex_emit e tc) = gc_tick tc"
  "deferred_ops (tex_emit e tc) = deferred_ops tc" "tex_trace (tex_emit e tc) = tex_trace tc @ [e]" "slot_images (tex_emit e tc) = slot_images tc"
  "surface_metas (tex_emit e tc) = surface_metas tc" "total_used_memory (tex_emit e tc) = total_used_memory tc" "img_at (tex_emit e tc) = img_at tc"
  "trigger_gc_memory (tex_emit e tc) = trigger_gc_memory tc" "pressure_gc_memory (tex_emit e tc) = pressure_gc_memory tc"
  "critical_gc_memory (tex_emit e tc) = critical_gc_memory tc"
  by (simp_all add: tex_emit_def img_at_def fun_eq_iff)

text \<open>The index does not depend on flags, tracking and hashes: it is kept when every image keeps its place.\<close>

definition same_index :: "TextureCache \<Rightarrow> TextureCache \<Rightarrow> bool" where
  "same_index tc tc' \<longleftrightarrow> page_table tc' = page_table tc \<and> lru_cache tc' = lru_cache tc \<and> gc_tick tc' = gc_tick tc
     \<and> deferred_ops tc' = deferred_ops tc \<and> sv_ok (slot_images tc') \<and> (\<forall>i. map_option place (img_at tc' i) = map_option place (img_at tc i))"

lemma same_index_refl: "sv_ok (slot_images tc) \<Longrightarrow> same_index tc tc"
  by (simp add: same_index_def)

lemma same_index_trans: "same_index tc1 tc2 \<Longrightarrow> same_index tc2 tc3 \<Longrightarrow> same_index tc1 tc3"
  by (simp add: same_index_def)

lemma same_index_emit [simp]: "same_index tc (tex_emit e tc') \<longleftrightarrow> same_index tc tc'"
  by (simp add: same_index_def)

lemma same_index_put:
  assumes "same_index tc0 tc" "img_at tc i = Some img" "place img' = place img"
  shows "same_index tc0 (put_image i img' tc)"
proof -
  have ok: "sv_ok (slot_images tc)" using assms(1) by (simp add: same_index_def)
  note at = img_at_put [OF ok assms(2), of img']
  have "map_option place (img_at (put_image i img' tc) j) = map_option place (img_at tc j)" for j using at(1) [of j] assms(2,3) by simp
  then show ?thesis using assms(1) at(2) by (simp add: same_index_def)
qed

lemma same_index_img:
  assumes "same_index tc tc'" "img_at tc' i = Some img'"
  obtains img where "img_at tc i = Some img" "place img = place img'"
  using assms by (auto simp: same_index_def) (metis (no_types, lifting) map_option_eq_Some option.simps(9))

lemma same_index_img':
  assumes "same_index tc tc'" "img_at tc i = Some img"
  obtains img' where "img_at tc' i = Some img'" "place img' = place img"
  using assms by (auto simp: same_index_def) (metis (no_types, lifting) map_option_eq_Some option.simps(9))

lemma same_index_place:
  assumes "same_index tc tc'"
  shows "(\<exists>img. img_at tc' i = Some img \<and> P (place img)) \<longleftrightarrow> (\<exists>img. img_at tc i = Some img \<and> P (place img))"
  using assms same_index_img same_index_img' by metis

lemma placeD: "place img' = place img \<Longrightarrow> guest_address img' = guest_address img \<and> guest_size img' = guest_size img \<and> fl_Registered img' = fl_Registered img \<and> lru_id img' = lru_id img"
  by (simp add: place_def)

lemma lru_ok_same:
  assumes A: "lru_ok tc A" and s: "same_index tc tc'"
  shows "lru_ok tc' A"
  unfolding lru_ok_def
proof (intro conjI allI impI ballI)
  show "lru_rel (lru_cache tc') A" "aged (gc_tick tc') A" using A s by (simp_all add: lru_ok_def same_index_def)
  fix x assume x: "x \<in> set A"
  obtain l i t where e: "x = (l, i, t)" by (cases x) auto
  have "\<exists>img. img_at tc i = Some img \<and> fl_Registered img \<and> lru_id img = l" using A x by (auto simp: lru_ok_def e)
  then show "case x of (l, i, t) \<Rightarrow> \<exists>img. img_at tc' i = Some img \<and> fl_Registered img \<and> lru_id img = l"
    using same_index_place [OF s, of i "\<lambda>(a, n, r, l'). r \<and> l' = l"] by (simp add: e place_def)
next
  fix i img' assume i: "img_at tc' i = Some img' \<and> fl_Registered img'"
  obtain img where img: "img_at tc i = Some img" "place img = place img'" using same_index_img [OF s] i by blast
  then have "fl_Registered img" "lru_id img = lru_id img'" using i placeD [OF img(2)] by simp_all
  then show "\<exists>t. (lru_id img', i, t) \<in> set A" using A img(1) unfolding lru_ok_def by metis
qed

lemma index_same:
  assumes ix: "index_ok tc" and s: "same_index tc tc'"
  shows "index_ok tc'"
proof -
  note eq = s [unfolded same_index_def]
  have pl: "lists_images tc' p = lists_images tc p" for p
    using same_index_place [OF s, of _ "\<lambda>(a, n, r, l). r \<and> p \<in> set (pages_of a n)"] eq by (simp add: lists_images_def place_def)
  have "lru_ok tc' A" if "lru_ok tc A" for A by (rule lru_ok_same [OF that s])
  moreover have "deferred_ok tc'"
    using ix eq same_index_place [OF s, of _ "\<lambda>(a, n, r, l). \<not> r"] same_index_place [OF s, of 0 "\<lambda>(a, n, r, l). \<not> r \<and> l = 0"]
    by (simp add: index_ok_def deferred_ok_def place_def)
  moreover have "0 < guest_address img' \<and> in_space (guest_address img') (guest_size img')" if i: "img_at tc' i = Some img'" "fl_Registered img'" for i img'
  proof -
    obtain img where "img_at tc i = Some img" "place img = place img'" using same_index_img [OF s] i by blast
    then show ?thesis using ix i placeD by (metis index_ok_def)
  qed
  ultimately show ?thesis using ix eq by (simp add: index_ok_def pages_ok_def pl) blast
qed

section \<open>Visiting the images of a region\<close>

definition unpicked :: "TextureCache \<Rightarrow> bool" where
  "unpicked tc \<longleftrightarrow> (\<forall>i img. img_at tc i = Some img \<longrightarrow> \<not> fl_Picked img)"

definition picked :: "TextureCache \<Rightarrow> u32 \<Rightarrow> bool option" where
  "picked tc i = map_option fl_Picked (img_at tc i)"

definition overlapping :: "TextureCache \<Rightarrow> u64 \<Rightarrow> u64 \<Rightarrow> u32 set" where
  "overlapping tc a n = {i. \<exists>img. img_at tc i = Some img \<and> fl_Registered img \<and> Overlaps img a n}"

lemma Overlaps_place: "place img' = place img \<Longrightarrow> Overlaps img' a n = Overlaps img a n"
  by (simp add: Overlaps_def place_def)

lemma overlapping_same: "same_index tc tc' \<Longrightarrow> overlapping tc' a n = overlapping tc a n"
  using same_index_place [of tc tc' _ "\<lambda>(ga, gs, r, l). r \<and> ga < add64 a n \<and> a < add64 ga gs"]
  by (simp add: overlapping_def Overlaps_def place_def)

text \<open>The state inside the loops: \<open>ids\<close> were visited and are marked.\<close>

definition visiting :: "u64 \<Rightarrow> u64 \<Rightarrow> TextureCache \<Rightarrow> (u32 list \<Rightarrow> 's \<times> TextureCache \<Rightarrow> bool) \<Rightarrow> u32 list \<times> 's \<times> TextureCache \<Rightarrow> bool" where
  "visiting a n tc0 R = (\<lambda>(ids, s, tc). R ids (s, tc) \<and> distinct ids \<and> set ids \<subseteq> overlapping tc0 a n
     \<and> (\<forall>i img. img_at tc i = Some img \<longrightarrow> (fl_Picked img \<longleftrightarrow> i \<in> set ids)))"

text \<open>
  The contract of a callback of \<open>ForEachImageInRegion\<close>: \<open>R ids\<close> holds of the state when the callback was called for \<open>ids\<close>, in this order; it does not depend on
  the marks \<open>fl_Picked\<close>, and a call keeps the index and these marks.
\<close>

locale image_visitor =
  fixes a n :: nat and tc0 :: TextureCache and func :: "'s image_callback" and R :: "u32 list \<Rightarrow> 's \<times> TextureCache \<Rightarrow> bool"
  assumes R_same: "R ids (s, tc) \<Longrightarrow> same_index tc0 tc"
    and R_pick: "R ids (s, tc) \<Longrightarrow> img_at tc i = Some img \<Longrightarrow> R ids (s, put_image i (img\<lparr>fl_Picked := b\<rparr>) tc)"
    and R_call: "R ids (s, tc) \<Longrightarrow> i \<notin> set ids \<Longrightarrow> i \<in> overlapping tc0 a n \<Longrightarrow>
      \<exists>s' tc'. func i (s, tc) = Some (s', tc') \<and> R (ids @ [i]) (s', tc') \<and> picked tc' = picked tc"
begin

lemma visit_one:
  assumes v: "visiting a n tc0 R (ids, s, tc)" and img: "img_at tc i = Some img" "\<not> fl_Picked img" "i \<in> overlapping tc0 a n"
  shows "\<exists>s' tc'. func i (s, put_image i (img\<lparr>fl_Picked := True\<rparr>) tc) = Some (s', tc') \<and> visiting a n tc0 R (ids @ [i], s', tc')"
proof -
  have R: "R ids (s, tc)" and new: "i \<notin> set ids" using v img by (auto simp: visiting_def)
  let ?tc = "put_image i (img\<lparr>fl_Picked := True\<rparr>) tc"
  have ok: "sv_ok (slot_images tc)" using R_same [OF R] by (simp add: same_index_def)
  obtain s' tc' where f: "func i (s, ?tc) = Some (s', tc')" "R (ids @ [i]) (s', tc')" "picked tc' = picked ?tc"
    using R_call [OF R_pick [OF R img(1), of True] new img(3)] by blast
  have "fl_Picked jmg \<longleftrightarrow> j \<in> set (ids @ [i])" if j: "img_at tc' j = Some jmg" for j jmg
  proof -
    have "picked ?tc j = Some (fl_Picked jmg)" using f(3) j by (metis picked_def option.simps(9))
    then show ?thesis using v by (auto simp: picked_def img_at_put [OF ok img(1)] visiting_def split: if_splits)
  qed
  then show ?thesis using f v new img(3) by (auto simp: visiting_def)
qed

lemma pick_images_ok:
  assumes "visiting a n tc0 R (ids, s, tc)" "\<And>i. i \<in> set js \<Longrightarrow> registered tc0 i"
  shows "\<exists>ids' s' tc'. pick_images a n func js (ids, s, tc) = Some (ids', s', tc') \<and> visiting a n tc0 R (ids', s', tc')
     \<and> set ids' = set ids \<union> (set js \<inter> overlapping tc0 a n)"
  using assms
proof (induction js arbitrary: ids s tc)
  case (Cons i js)
  have S: "same_index tc0 tc" using Cons.prems(1) R_same by (auto simp: visiting_def)
  obtain img0 where i0: "img_at tc0 i = Some img0" "fl_Registered img0"
    using Cons.prems(2) [of i] by (auto simp: registered_def split: option.splits)
  obtain img where img: "img_at tc i = Some img" "place img = place img0" using same_index_img' [OF S i0(1)] by blast
  have ov: "i \<in> overlapping tc0 a n \<longleftrightarrow> Overlaps img a n" using i0 Overlaps_place [OF img(2)] by (simp add: overlapping_def)
  have at: "sv_at i (slot_images tc) = Some img" using img(1) by (simp add: img_at_def)
  show ?case
  proof (cases "fl_Picked img \<or> \<not> Overlaps img a n")
    case True
    then have "set js \<inter> overlapping tc0 a n \<union> set ids = set (i # js) \<inter> overlapping tc0 a n \<union> set ids"
      using Cons.prems(1) img(1) ov by (auto simp: visiting_def)
    then show ?thesis using Cons.IH [OF Cons.prems(1)] Cons.prems(2) True at by (auto simp: Un_commute)
  next
    case False
    then obtain s1 tc1 where f: "func i (s, put_image i (img\<lparr>fl_Picked := True\<rparr>) tc) = Some (s1, tc1)" "visiting a n tc0 R (ids @ [i], s1, tc1)"
      using visit_one [OF Cons.prems(1) img(1)] ov by blast
    obtain ids' s' tc' where r: "pick_images a n func js (ids @ [i], s1, tc1) = Some (ids', s', tc')" "visiting a n tc0 R (ids', s', tc')"
      "set ids' = set (ids @ [i]) \<union> (set js \<inter> overlapping tc0 a n)" using Cons.IH [OF f(2)] Cons.prems(2) by auto
    have "pick_images a n func (i # js) (ids, s, tc) = Some (ids', s', tc')" using False at f(1) r(1) by simp
    then show ?thesis using r(2,3) False ov by auto
  qed
qed auto

lemma pick_page_ok:
  assumes ix: "index_ok tc0" and p: "p < 2 ^ 20" and v: "visiting a n tc0 R (ids, s, tc)"
  shows "\<exists>ids' s' tc'. pick_page a n func p (ids, s, tc) = Some (ids', s', tc') \<and> visiting a n tc0 R (ids', s', tc')
     \<and> set ids' = set ids \<union> (set (mlpt_entry TexTraits [] (page_table tc0) p) \<inter> overlapping tc0 a n)"
proof -
  have "page_table tc = page_table tc0" using v R_same by (auto simp: visiting_def same_index_def)
  moreover have "mlpt_ok TexTraits (page_table tc0)" "lists_images tc0 p" using ix p by (auto simp: index_ok_def pages_ok_def)
  moreover have "registered tc0 i" if "i \<in> set (mlpt_entry TexTraits [] (page_table tc0) p)" for i
    using calculation(3) that by (auto simp: lists_images_def Let_def registered_def)
  ultimately show ?thesis
    using pt.find_law [of TexTraits "page_table tc0" p "[]"] p v pick_images_ok [OF v, of "mlpt_entry TexTraits [] (page_table tc0) p"]
    by (auto simp: pick_page_def)
qed

lemma pick_pages_ok:
  assumes ix: "index_ok tc0" and v: "visiting a n tc0 R (ids, s, tc)" "\<And>p. p \<in> set ps \<Longrightarrow> p < 2 ^ 20"
  shows "\<exists>ids' s' tc'. for_pages (pick_page a n func) ps (ids, s, tc) = Some (ids', s', tc') \<and> visiting a n tc0 R (ids', s', tc')
     \<and> set ids' = set ids \<union> ((\<Union>p\<in>set ps. set (mlpt_entry TexTraits [] (page_table tc0) p)) \<inter> overlapping tc0 a n)"
  using v
proof (induction ps arbitrary: ids s tc)
  case (Cons p ps)
  obtain ids1 s1 tc1 where 1: "pick_page a n func p (ids, s, tc) = Some (ids1, s1, tc1)" "visiting a n tc0 R (ids1, s1, tc1)"
    "set ids1 = set ids \<union> (set (mlpt_entry TexTraits [] (page_table tc0) p) \<inter> overlapping tc0 a n)"
    using pick_page_ok [OF ix _ Cons.prems(1), of p] Cons.prems(2) by auto
  obtain ids2 s2 tc2 where 2: "for_pages (pick_page a n func) ps (ids1, s1, tc1) = Some (ids2, s2, tc2)" "visiting a n tc0 R (ids2, s2, tc2)"
    "set ids2 = set ids1 \<union> ((\<Union>p\<in>set ps. set (mlpt_entry TexTraits [] (page_table tc0) p)) \<inter> overlapping tc0 a n)"
    using Cons.IH [OF 1(2)] Cons.prems(2) by auto
  have "for_pages (pick_page a n func) (p # ps) (ids, s, tc) = Some (ids2, s2, tc2)" using 1(1) 2(1) by simp
  then show ?case using 2(2,3) 1(3) by auto
qed simp

lemma unpick_ok:
  assumes "R ids (s, tc)" "distinct js" "\<And>i. i \<in> set js \<Longrightarrow> img_at tc i \<noteq> None"
    "\<And>i img. img_at tc i = Some img \<Longrightarrow> (fl_Picked img \<longleftrightarrow> i \<in> set js)"
  shows "\<exists>tc'. unpick_images js tc = Some tc' \<and> R ids (s, tc') \<and> unpicked tc'"
  using assms
proof (induction js arbitrary: tc)
  case (Cons i js)
  obtain img where img: "img_at tc i = Some img" using Cons.prems(3) by auto
  let ?tc = "put_image i (img\<lparr>fl_Picked := False\<rparr>) tc"
  have ok: "sv_ok (slot_images tc)" using R_same [OF Cons.prems(1)] by (simp add: same_index_def)
  note at = img_at_put(1) [OF ok img, of "img\<lparr>fl_Picked := False\<rparr>"]
  have "\<exists>tc'. unpick_images js ?tc = Some tc' \<and> R ids (s, tc') \<and> unpicked tc'"
  proof (rule Cons.IH)
    show "R ids (s, ?tc)" by (rule R_pick [OF Cons.prems(1) img])
    show "distinct js" using Cons.prems(2) by simp
    show "img_at ?tc j \<noteq> None" if "j \<in> set js" for j using that Cons.prems(3) by (auto simp: at)
    show "fl_Picked jmg \<longleftrightarrow> j \<in> set js" if "img_at ?tc j = Some jmg" for j jmg
      using that Cons.prems(2,4) by (auto simp: at split: if_splits)
  qed
  then show ?case using img by (simp add: img_at_def)
qed (auto simp: unpicked_def)

lemma for_each_ok:
  assumes ix: "index_ok tc0" and r: "in_space a n" and R0: "R [] (s, tc0)" "unpicked tc0"
  obtains ids s' tc' where "ForEachImageInRegion a n func (s, tc0) = Some (s', tc')" "distinct ids" "set ids = overlapping tc0 a n"
    "R ids (s', tc')" "unpicked tc'"
proof -
  have v: "visiting a n tc0 R ([], s, tc0)" using R0 by (auto simp: visiting_def unpicked_def)
  obtain ids s' tc1 where 1: "for_pages (pick_page a n func) (pages_of a n) ([], s, tc0) = Some (ids, s', tc1)" "visiting a n tc0 R (ids, s', tc1)"
    "set ids = (\<Union>p\<in>set (pages_of a n). set (mlpt_entry TexTraits [] (page_table tc0) p)) \<inter> overlapping tc0 a n"
    using pick_pages_ok [OF ix v, of "pages_of a n"] pages_of_in_space(2) [OF r] by auto
  have "overlapping tc0 a n \<subseteq> (\<Union>p\<in>set (pages_of a n). set (mlpt_entry TexTraits [] (page_table tc0) p))"
  proof
    fix i assume "i \<in> overlapping tc0 a n"
    then obtain img where img: "img_at tc0 i = Some img" "fl_Registered img" "Overlaps img a n" by (auto simp: overlapping_def)
    have sp: "in_space (guest_address img) (guest_size img)" using ix img by (auto simp: index_ok_def)
    obtain p where p: "p \<in> set (pages_of a n)" "p \<in> set (pages_of (guest_address img) (guest_size img))"
      using common_page [OF r sp] img(3) Overlaps_eq [OF sp r] by blast
    have "lists_images tc0 p" using ix pages_of_in_space(2) [OF r p(1)] by (simp add: index_ok_def pages_ok_def)
    then show "i \<in> (\<Union>p\<in>set (pages_of a n). set (mlpt_entry TexTraits [] (page_table tc0) p))"
      using p img by (auto simp: lists_images_def Let_def)
  qed
  then have ids: "set ids = overlapping tc0 a n" using 1(3) by auto
  have S: "same_index tc0 tc1" using 1(2) R_same by (auto simp: visiting_def)
  have "img_at tc1 i \<noteq> None" if "i \<in> set ids" for i
    using that overlapping_same [OF S, of a n] unfolding ids by (auto simp: overlapping_def)
  then obtain tc2 where "unpick_images ids tc1 = Some tc2" "R ids (s', tc2)" "unpicked tc2"
    using unpick_ok [of ids s' tc1 ids] 1(2) by (auto simp: visiting_def)
  then show thesis using that [of s' tc2 ids] 1(1,2) ids by (auto simp: ForEachImageInRegion_def visiting_def)
qed

end

end
