(* ===== verification/Texture_Tracking.thy ===== *)
theory Texture_Tracking
  imports Texture_Index
begin

text \<open>
  The tracked range of an image: each operation on it is a step that changes one image, and its calls of the page manager match the pages that the image watches before and after.
\<close>

section \<open>Tracking\<close>

text \<open>The pages that a call of the page manager covers, and how often a page is img_watches after a sequence of calls.\<close>

definition covers :: "u64 \<Rightarrow> u64 \<Rightarrow> nat \<Rightarrow> bool" where
  "covers addr sz p \<longleftrightarrow> addr div PM_PAGE_SIZE \<le> p \<and> p < DivCeil (add64 addr sz) PM_PAGE_SIZE"

definition watch_change :: "tex_effect \<Rightarrow> nat \<Rightarrow> int" where
  "watch_change e p = (case e of
      Watch addr sz \<Rightarrow> of_bool (covers addr sz p)
    | Unwatch addr sz \<Rightarrow> - of_bool (covers addr sz p)
    | DownloadMemory _ \<Rightarrow> 0)"

definition net_watch :: "tex_effect list \<Rightarrow> nat \<Rightarrow> int" where
  "net_watch es p = sum_list (map (\<lambda>e. watch_change e p) es)"

lemma net_watch_simps [simp]:
  "net_watch [] p = 0" "net_watch (e # es) p = watch_change e p + net_watch es p" "net_watch (es @ fs) p = net_watch es p + net_watch fs p"
  by (simp_all add: net_watch_def)

definition img_watches :: "TexImage \<Rightarrow> nat \<Rightarrow> bool" where
  "img_watches img p \<longleftrightarrow> IsTracked img \<and> track_addr img div PM_PAGE_SIZE \<le> p \<and> p < DivCeil (track_addr_end img) PM_PAGE_SIZE"

definition next_page :: "u64 \<Rightarrow> u64" where
  "next_page x = (x div PM_PAGE_SIZE + 1) * PM_PAGE_SIZE"

definition page_start :: "u64 \<Rightarrow> u64" where
  "page_start x = x div PM_PAGE_SIZE * PM_PAGE_SIZE"

text \<open>An image is untracked, or tracked up to its first page and up to its last page, which may be left out.\<close>

definition image_end :: "TexImage \<Rightarrow> u64" where
  "image_end img = guest_address img + guest_size img"

definition track_ok :: "TexImage \<Rightarrow> bool" where
  "track_ok img \<longleftrightarrow> track_addr img = 0 \<and> track_addr_end img = 0
     \<or> \<not> fl_Registered img \<and> track_addr img = 0 \<and> track_addr_end img < 2 ^ 32
     \<or> (fl_Registered img \<and> track_addr img < track_addr_end img
        \<and> track_addr img \<in> {guest_address img, next_page (guest_address img)}
        \<and> track_addr_end img \<in> {image_end img, page_start (image_end img)})"

definition track_inv :: "TextureCache \<Rightarrow> bool" where
  "track_inv tc \<longleftrightarrow> (\<forall>i img. img_at tc i = Some img \<longrightarrow> track_ok img)
     \<and> (\<forall>p. net_watch (tex_trace tc) p = int (card {i. \<exists>img. img_at tc i = Some img \<and> img_watches img p}))"

section \<open>Steps that change one image\<close>

definition do_image :: "u32 \<Rightarrow> TexImage \<Rightarrow> tex_effect list \<Rightarrow> TextureCache \<Rightarrow> TextureCache" where
  "do_image i img es tc = (put_image i img tc)\<lparr>tex_trace := tex_trace tc @ es\<rparr>"

lemma put_image_put [simp]: "put_image i img' (put_image i img tc) = put_image i img' tc"
  by (simp add: put_image_def sv_put_def)

lemma do_image_do [simp]: "do_image i img' es' (do_image i img es tc) = do_image i img' (es @ es') tc"
  by (simp add: do_image_def put_image_def sv_put_def)

lemma put_do: "put_image i img tc = do_image i img [] tc" "tex_emit e (do_image i img es tc) = do_image i img (es @ [e]) tc"
  by (simp_all add: do_image_def tex_emit_def)

lemma do_image_same [simp]: "img_at tc i = Some img \<Longrightarrow> do_image i img [] tc = tc"
proof -
  assume "img_at tc i = Some img"
  then have "(sv_values (slot_images tc))[i := Some img] = sv_values (slot_images tc)"
    by (auto simp: img_at_def sv_at_def values_capacity_def list_update_same_conv split: if_splits)
  then show ?thesis by (simp add: do_image_def put_image_def sv_put_def)
qed

lemma do_image_simps [simp]:
  "page_table (do_image i img es tc) = page_table tc" "lru_cache (do_image i img es tc) = lru_cache tc" "gc_tick (do_image i img es tc) = gc_tick tc"
  "deferred_ops (do_image i img es tc) = deferred_ops tc" "tex_trace (do_image i img es tc) = tex_trace tc @ es"
  "surface_metas (do_image i img es tc) = surface_metas tc" "total_used_memory (do_image i img es tc) = total_used_memory tc"
  "slot_images (do_image i img es tc) = slot_images (put_image i img tc)" "img_at (do_image i img es tc) = img_at (put_image i img tc)"
  "critical_gc_memory (do_image i img es tc) = critical_gc_memory tc" "pressure_gc_memory (do_image i img es tc) = pressure_gc_memory tc"
  by (simp_all add: do_image_def img_at_def fun_eq_iff)

lemma at_put [simp]: "img_at tc i = Some img \<Longrightarrow> img_at (put_image i img' tc) i = Some img'"
  by (auto simp: img_at_def put_image_def sv_put_def sv_at_def values_capacity_def split: if_splits)

text \<open>What a change of one image has to keep: its place, its mark, a well-formed tracked range, and the calls of the page manager match the change of that range.\<close>

definition image_step :: "TexImage \<Rightarrow> TexImage \<Rightarrow> tex_effect list \<Rightarrow> bool" where
  "image_step img img' es \<longleftrightarrow> place img' = place img \<and> fl_Picked img' = fl_Picked img \<and> track_ok img'
     \<and> (\<forall>p. net_watch es p = of_bool (img_watches img' p) - of_bool (img_watches img p))"

lemma finite_watching: "finite {i. \<exists>img. img_at tc i = Some img \<and> Q img}"
  by (rule finite_subset [of _ "{..<values_capacity (slot_images tc)}"]) (auto simp: img_at_def dest: sv_at_bound)

lemma card_change:
  assumes "img_at tc i = Some img" "\<And>j. img_at tc' j = (if j = i then Some img' else img_at tc j)"
  shows "int (card {j. \<exists>x. img_at tc' j = Some x \<and> Q x}) = int (card {j. \<exists>x. img_at tc j = Some x \<and> Q x}) + of_bool (Q img') - of_bool (Q img)"
proof -
  let ?S = "{j. j \<noteq> i \<and> (\<exists>x. img_at tc j = Some x \<and> Q x)}"
  have fin: "finite ?S" by (rule finite_subset [OF _ finite_watching [of tc Q]]) auto
  have "{j. \<exists>x. img_at tc' j = Some x \<and> Q x} = (if Q img' then insert i ?S else ?S)" using assms(2) by auto
  moreover have "{j. \<exists>x. img_at tc j = Some x \<and> Q x} = (if Q img then insert i ?S else ?S)" using assms(1) by auto
  ultimately show ?thesis using fin by simp
qed

lemma track_inv_step:
  assumes t: "track_inv tc" "sv_ok (slot_images tc)" and img: "img_at tc i = Some img" and s: "image_step img img' es"
  shows "track_inv (do_image i img' es tc)"
proof -
  note at = img_at_put(1) [OF t(2) img, of img']
  have "track_ok jmg" if "img_at (put_image i img' tc) j = Some jmg" for j jmg
    using that t(1) s by (auto simp: at track_inv_def image_step_def split: if_splits)
  moreover have "net_watch es p = of_bool (img_watches img' p) - of_bool (img_watches img p)" for p using s by (simp add: image_step_def)
  ultimately show ?thesis
    using t(1) card_change [OF img at, of "\<lambda>x. img_watches x p" for p] by (simp add: track_inv_def)
qed

lemma same_index_do: "same_index tc0 tc \<Longrightarrow> img_at tc i = Some img \<Longrightarrow> image_step img img' es \<Longrightarrow> same_index tc0 (do_image i img' es tc)"
  using same_index_put [of tc0 tc i img img'] by (simp add: image_step_def same_index_def)

lemma picked_do:
  assumes "sv_ok (slot_images tc)" "img_at tc i = Some img" "image_step img img' es"
  shows "picked (do_image i img' es tc) = picked tc"
  using assms img_at_put(1) [OF assms(1,2), of img'] by (auto simp: picked_def image_step_def fun_eq_iff)

lemma image_step_flags:
  assumes "track_ok img" "place img' = place img" "fl_Picked img' = fl_Picked img" "track_addr img' = track_addr img" "track_addr_end img' = track_addr_end img"
  shows "image_step img img' []"
  using assms by (simp add: image_step_def track_ok_def img_watches_def IsTracked_def place_def image_end_def)

lemma image_step_trans:
  assumes "image_step img img1 es" "image_step img1 img2 fs"
  shows "image_step img img2 (es @ fs)"
  using assms by (simp add: image_step_def)

section \<open>Operations on the tracked range\<close>

definition good_image :: "TexImage \<Rightarrow> bool" where
  "good_image img \<longleftrightarrow> track_ok img \<and> (fl_Registered img \<longrightarrow> 0 < guest_address img \<and> in_space (guest_address img) (guest_size img))"

lemma page_4096: "PM_PAGE_SIZE = 4096" "next_page x = (x div 4096 + 1) * 4096" "page_start x = x div 4096 * 4096"
  by (simp_all add: PM_PAGE_SIZE_def next_page_def page_start_def)

lemma ceil_page: "((k + 1) * 4096 + 4095) div 4096 = k + (1 :: nat)" "(k * 4096 + 4095) div 4096 = (k :: nat)"
  by auto

lemma covers_exact: "a + n < 2 ^ 41 \<Longrightarrow> covers a n p \<longleftrightarrow> a div 4096 \<le> p \<and> p < (a + n + 4095) div 4096"
  by (simp add: covers_def page_4096 DivCeil_exact [unfolded page_4096])

lemma watched_exact: "track_addr_end img < 2 ^ 41 \<Longrightarrow> img_watches img p \<longleftrightarrow> IsTracked img \<and> track_addr img div 4096 \<le> p \<and> p < (track_addr_end img + 4095) div 4096"
  by (simp add: img_watches_def page_4096 DivCeil_exact [unfolded page_4096])

lemma good_imageD:
  assumes "good_image img" "IsTracked img"
  shows "fl_Registered img" "track_addr img < track_addr_end img" "track_addr_end img \<le> image_end img" "image_end img \<le> 2 ^ 40" "guest_address img \<le> track_addr img"
    "track_addr img \<in> {guest_address img, next_page (guest_address img)}" "track_addr_end img \<in> {image_end img, page_start (image_end img)}" "0 < guest_address img"
proof -
  have t: "fl_Registered img \<and> track_addr img < track_addr_end img
        \<and> track_addr img \<in> {guest_address img, next_page (guest_address img)}
        \<and> track_addr_end img \<in> {image_end img, page_start (image_end img)}"
    using assms unfolding good_image_def track_ok_def IsTracked_def by blast
  then show "fl_Registered img" "track_addr img < track_addr_end img" "track_addr img \<in> {guest_address img, next_page (guest_address img)}"
    "track_addr_end img \<in> {image_end img, page_start (image_end img)}" by blast+
  show "track_addr_end img \<le> image_end img" using t by (auto simp: page_4096)
  show "image_end img \<le> 2 ^ 40" "0 < guest_address img" using t assms(1) by (auto simp: good_image_def in_space_def image_end_def)
  have "guest_address img \<le> next_page (guest_address img)" by (simp add: page_4096)
  then show "guest_address img \<le> track_addr img" using t by auto
qed

lemma track_okI: "track_addr img = 0 \<Longrightarrow> track_addr_end img = 0 \<Longrightarrow> track_ok img"
  by (simp add: track_ok_def)

definition untracked :: "TexImage \<Rightarrow> TexImage" where
  "untracked img = (if IsTracked img then img\<lparr>track_addr := 0, track_addr_end := 0\<rparr> else img)"

definition unwatch :: "TexImage \<Rightarrow> tex_effect list" where
  "unwatch img = (if IsTracked img \<and> track_addr_end img \<noteq> track_addr img then [Unwatch (track_addr img) (track_addr_end img - track_addr img)] else [])"

lemma untracked_simps [simp]:
  "place (untracked img) = place img" "fl_Picked (untracked img) = fl_Picked img" "fl_CpuDirty (untracked img) = fl_CpuDirty img"
  "fl_MaybeCpuDirty (untracked img) = fl_MaybeCpuDirty img" "fl_Registered (untracked img) = fl_Registered img"
  "guest_address (untracked img) = guest_address img" "guest_size (untracked img) = guest_size img" "lru_id (untracked img) = lru_id img"
  "\<not> IsTracked (untracked img)" "\<not> img_watches (untracked img) p" "SafeToDownload (untracked img) = SafeToDownload img"
  by (auto simp: untracked_def place_def IsTracked_def img_watches_def SafeToDownload_def)

lemma UntrackImage_eq:
  assumes "img_at tc i = Some img" "track_addr img \<le> track_addr_end img" "track_addr_end img < 2 ^ 64"
  shows "UntrackImage i tc = Some (do_image i (untracked img) (unwatch img) tc)"
proof -
  have "sub64 (track_addr_end img) (track_addr img) = track_addr_end img - track_addr img" using assms by (intro sub64_exact) auto
  moreover have "do_image i img [] tc = tc" using assms(1) by simp
  ultimately show ?thesis using assms(1,2)
    by (cases "track_addr_end img = track_addr img")
      (simp_all add: UntrackImage_def img_at_def [symmetric] untracked_def unwatch_def do_image_def tex_emit_def Let_def)
qed

lemma untracked_step:
  assumes "good_image img"
  shows "image_step img (untracked img) (unwatch img)" "track_addr img \<le> track_addr_end img" "track_addr_end img < 2 ^ 64"
proof -
  have "image_step img (untracked img) (unwatch img) \<and> track_addr img \<le> track_addr_end img \<and> track_addr_end img < 2 ^ 64"
  proof (cases "IsTracked img")
    case True
    note D = good_imageD [OF assms True]
    have b: "track_addr_end img < 2 ^ 41" using D(3,4) by simp
    have "net_watch (unwatch img) p = of_bool (img_watches (untracked img) p) - of_bool (img_watches img p)" for p
      using D(2) b watched_exact [OF b, of p] True covers_exact [of "track_addr img" "track_addr_end img - track_addr img" p]
      by (simp add: unwatch_def watch_change_def)
    moreover have "track_ok (untracked img)" using True by (simp add: untracked_def track_ok_def)
    ultimately show ?thesis using D(2) b by (simp add: image_step_def)
  next
    case False
    have tok: "track_ok img" using assms by (simp add: good_image_def)
    then have z: "track_addr img \<le> track_addr_end img \<and> track_addr_end img < 2 ^ 64"
    proof (cases "track_addr img = 0 \<and> track_addr_end img < 2 ^ 32")
      case nz: False
      then have "fl_Registered img" "track_addr img < track_addr_end img" "track_addr_end img \<in> {image_end img, page_start (image_end img)}"
        using tok by (auto simp: track_ok_def)
      moreover then have "image_end img \<le> 2 ^ 40" using assms by (auto simp: good_image_def in_space_def image_end_def)
      moreover have "page_start (image_end img) \<le> image_end img" by (simp add: page_4096)
      ultimately show ?thesis by auto
    qed simp
    moreover have "image_step img img []" by (rule image_step_flags) (use tok in auto)
    ultimately show ?thesis using False by (simp add: untracked_def unwatch_def)
  qed
  then show "image_step img (untracked img) (unwatch img)" "track_addr img \<le> track_addr_end img" "track_addr_end img < 2 ^ 64" by blast+
qed

lemma UntrackImage_ok:
  assumes "img_at tc i = Some img" "good_image img"
  shows "UntrackImage i tc = Some (do_image i (untracked img) (unwatch img) tc)"
  using UntrackImage_eq [OF assms(1)] untracked_step [OF assms(2)] by blast

definition maybe_dirty :: "(u64 \<Rightarrow> u64 \<Rightarrow> u64) \<Rightarrow> TexImage \<Rightarrow> TexImage" where
  "maybe_dirty xxh img = (if img_hash img = 0 then img\<lparr>img_hash := xxh (guest_address img) (guest_size img)\<rparr> else img)\<lparr>fl_MaybeCpuDirty := True\<rparr>"

lemma maybe_dirty_simps [simp]:
  "place (maybe_dirty xxh img) = place img" "fl_Picked (maybe_dirty xxh img) = fl_Picked img" "fl_MaybeCpuDirty (maybe_dirty xxh img)"
  "track_addr (maybe_dirty xxh img) = track_addr img" "track_addr_end (maybe_dirty xxh img) = track_addr_end img"
  "fl_CpuDirty (maybe_dirty xxh img) = fl_CpuDirty img" "IsTracked (maybe_dirty xxh img) = IsTracked img" "unwatch (maybe_dirty xxh img) = unwatch img"
  by (auto simp: maybe_dirty_def place_def IsTracked_def unwatch_def)

lemma MarkAsMaybeDirty_eq:
  assumes "img_at tc i = Some img" "track_addr img \<le> track_addr_end img" "track_addr_end img < 2 ^ 64"
  shows "MarkAsMaybeDirty xxh i tc = Some (do_image i (untracked (maybe_dirty xxh img)) (unwatch img) tc)"
proof -
  have "img_at (do_image i (maybe_dirty xxh img) [] tc) i = Some (maybe_dirty xxh img)" using assms(1) by simp
  from UntrackImage_eq [OF this] assms
  have "UntrackImage i (do_image i (maybe_dirty xxh img) [] tc) = Some (do_image i (untracked (maybe_dirty xxh img)) (unwatch img) tc)" by simp
  moreover have "MarkAsMaybeDirty xxh i tc = UntrackImage i (put_image i (maybe_dirty xxh img) tc)"
    using assms(1) by (simp add: MarkAsMaybeDirty_def img_at_def [symmetric] maybe_dirty_def Let_def)
  ultimately show ?thesis by (simp add: put_do)
qed

text \<open>Leaving the first page, or the last page, of an image untracked.\<close>

definition head_cut :: "(u64 \<Rightarrow> u64 \<Rightarrow> u64) \<Rightarrow> TexImage \<Rightarrow> TexImage" where
  "head_cut xxh img = (let a = next_page (guest_address img) in
     if \<not> IsTracked img \<or> guest_address img < track_addr img then img
     else if a = track_addr_end img then untracked (maybe_dirty xxh (img\<lparr>track_addr := a\<rparr>))
     else img\<lparr>track_addr := a\<rparr>)"

definition head_unwatch :: "TexImage \<Rightarrow> tex_effect list" where
  "head_unwatch img = (if \<not> IsTracked img \<or> guest_address img < track_addr img then []
     else [Unwatch (guest_address img) (next_page (guest_address img) - guest_address img)])"

definition tail_cut :: "(u64 \<Rightarrow> u64 \<Rightarrow> u64) \<Rightarrow> TexImage \<Rightarrow> TexImage" where
  "tail_cut xxh img = (let a = page_start (image_end img) in
     if \<not> IsTracked img \<or> track_addr_end img < image_end img then img
     else if track_addr img = a then untracked (maybe_dirty xxh (img\<lparr>track_addr_end := a\<rparr>))
     else img\<lparr>track_addr_end := a\<rparr>)"

definition tail_unwatch :: "TexImage \<Rightarrow> tex_effect list" where
  "tail_unwatch img = (if \<not> IsTracked img \<or> track_addr_end img < image_end img then []
     else [Unwatch (page_start (image_end img)) (image_end img - page_start (image_end img))])"

lemma align_next: "x < 2 ^ 41 \<Longrightarrow> AlignUp (add64 x 1) PM_PAGE_SIZE = next_page x"
proof -
  assume x: "x < 2 ^ 41"
  have e: "add64 x 1 = x + 1" using x by (intro add64_exact) simp
  have b: "0 < (4096 :: nat)" "x + 1 + 4096 \<le> U64_MOD" using x by simp_all
  have le: "AlignUp (x + 1) 4096 \<le> next_page x"
    using x by (intro AlignUp_least) (simp_all add: page_4096)
  have "4096 dvd AlignUp (x + 1) 4096" "x + 1 \<le> AlignUp (x + 1) 4096"
    using AlignUp_dvd [of 4096 "x + 1"] AlignUp_ge [of 4096 "x + 1"] x by simp_all
  then obtain k where k: "AlignUp (x + 1) 4096 = 4096 * k" "x + 1 \<le> 4096 * k" by (auto elim!: dvdE)
  have "x div 4096 + 1 \<le> k" using k(2) by simp
  then have "next_page x \<le> AlignUp (x + 1) 4096" using k(1) by (simp add: page_4096)
  then show ?thesis using le e by (simp add: page_4096)
qed

lemma align_down: "AlignDown x PM_PAGE_SIZE = page_start x"
  by (simp add: AlignDown_def page_4096 minus_mod_eq_div_mult)

lemma aligned_le_start: "k * 4096 \<le> e \<Longrightarrow> k * 4096 \<le> page_start e"
  using div_le_mono [of "k * 4096" e 4096] by (simp add: page_4096)

lemma head_step:
  assumes g: "good_image img" and fits: "IsTracked img \<Longrightarrow> next_page (guest_address img) \<le> image_end img"
  shows "image_step img (head_cut xxh img) (head_unwatch img)"
proof (cases "\<not> IsTracked img \<or> guest_address img < track_addr img")
  case True
  then show ?thesis using g image_step_flags [of img img] by (simp add: head_cut_def head_unwatch_def good_image_def)
next
  case False
  note D = good_imageD [OF g]
  have t: "track_addr img = guest_address img" "IsTracked img" using False D(5) by auto
  let ?k = "guest_address img div 4096" and ?e = "track_addr_end img"
  have n: "next_page (guest_address img) = (?k + 1) * 4096" by (simp add: page_4096)
  have le: "(?k + 1) * 4096 \<le> ?e" using D(7) [OF t(2)] fits [OF t(2)] aligned_le_start [of "?k + 1" "image_end img"] unfolding n by (metis insertE singletonD)
  have b: "?e < 2 ^ 41" using D(3,4) t(2) by simp
  have w: "img_watches img p \<longleftrightarrow> ?k \<le> p \<and> p < (?e + 4095) div 4096" for p using watched_exact [OF b, of p] t by simp
  have lt: "guest_address img < (?k + 1) * 4096" by simp
  have c: "covers (guest_address img) ((?k + 1) * 4096 - guest_address img) p \<longleftrightarrow> ?k \<le> p \<and> p < ?k + 1" for p
    using covers_exact [of "guest_address img" "(?k + 1) * 4096 - guest_address img" p] lt le b ceil_page(1) [of ?k] by simp
  show ?thesis
  proof (cases "(?k + 1) * 4096 = ?e")
    case True
    have h: "head_cut xxh img = untracked (maybe_dirty xxh (img\<lparr>track_addr := ?e\<rparr>))"
      using False True by (simp add: head_cut_def n)
    have "track_ok (head_cut xxh img)" unfolding h using t D(8) le by (simp add: untracked_def track_ok_def IsTracked_def True)
    moreover have "(?e + 4095) div 4096 = ?k + 1" using ceil_page(1) [of ?k] True by simp
    ultimately show ?thesis unfolding image_step_def using t w c by (simp add: h head_unwatch_def n watch_change_def place_def [of "img\<lparr>track_addr := ?e\<rparr>"] place_def [of img])
  next
    case ne: False
    have h: "head_cut xxh img = img\<lparr>track_addr := (?k + 1) * 4096\<rparr>" using False ne by (simp add: head_cut_def n)
    have e: "(?k + 1) * 4096 < ?e" using ne le by simp
    have "(?e + 4095) div 4096 \<ge> ?k + 1" using div_le_mono [OF le [THEN add_le_mono1, of 4095], of 4096] ceil_page(1) [of ?k] by simp
    moreover have "img_watches (head_cut xxh img) p \<longleftrightarrow> ?k + 1 \<le> p \<and> p < (?e + 4095) div 4096" for p
      using watched_exact [of "head_cut xxh img" p] b e by (simp add: h IsTracked_def)
    moreover have "track_ok (head_cut xxh img)" using D(1,7) t e by (simp add: h track_ok_def image_end_def n)
    ultimately show ?thesis unfolding image_step_def using t w c by (auto simp: h head_unwatch_def n watch_change_def place_def)
  qed
qed

lemma tail_step:
  assumes g: "good_image img" and fits: "IsTracked img \<Longrightarrow> guest_address img < page_start (image_end img)"
  shows "image_step img (tail_cut xxh img) (tail_unwatch img)"
proof (cases "\<not> IsTracked img \<or> track_addr_end img < image_end img")
  case True
  then show ?thesis using g image_step_flags [of img img] by (simp add: tail_cut_def tail_unwatch_def good_image_def)
next
  case False
  note D = good_imageD [OF g]
  have t: "track_addr_end img = image_end img" "IsTracked img" using False D(3) by auto
  let ?k = "image_end img div 4096" and ?e = "image_end img" and ?a = "track_addr img"
  have s: "page_start ?e = ?k * 4096" by (simp add: page_4096)
  have le: "?a \<le> ?k * 4096"
  proof (cases "?a = guest_address img")
    case True
    then show ?thesis using fits [OF t(2)] s by simp
  next
    case False
    then have "?a = (guest_address img div 4096 + 1) * 4096" using D(6) [OF t(2)] by (simp add: page_4096)
    moreover have "guest_address img div 4096 < ?k" using fits [OF t(2)] unfolding s by (simp add: less_mult_imp_div_less)
    ultimately show ?thesis by simp
  qed
  have b: "?e < 2 ^ 41" using D(4) t(2) by simp
  have w: "img_watches img p \<longleftrightarrow> ?a div 4096 \<le> p \<and> p < (?e + 4095) div 4096" for p using watched_exact [of img p] b t by simp
  have ke: "?k * 4096 \<le> ?e" by simp
  have c: "covers (?k * 4096) (?e - ?k * 4096) p \<longleftrightarrow> ?k \<le> p \<and> p < (?e + 4095) div 4096" for p
    using covers_exact [of "?k * 4096" "?e - ?k * 4096" p] ke b by simp
  have kk: "?k \<le> (?e + 4095) div 4096" "?a div 4096 \<le> ?k" using div_le_mono [OF le, of 4096] by (simp_all add: div_le_mono)
  have a0: "0 < ?a" "0 < ?k" using D(5,8) [OF t(2)] le by (auto intro: gr0I)
  show ?thesis
  proof (cases "?a = ?k * 4096")
    case True
    have h: "tail_cut xxh img = untracked (maybe_dirty xxh (img\<lparr>track_addr_end := ?k * 4096\<rparr>))"
      using False True by (simp add: tail_cut_def s)
    have "track_ok (tail_cut xxh img)" unfolding h using t a0 by (simp add: untracked_def track_ok_def IsTracked_def)
    moreover have "?a div 4096 = ?k" using True by simp
    ultimately show ?thesis unfolding image_step_def using t w c
      by (simp add: h tail_unwatch_def s watch_change_def place_def [of "img\<lparr>track_addr_end := ?k * 4096\<rparr>"] place_def [of img])
  next
    case ne: False
    have h: "tail_cut xxh img = img\<lparr>track_addr_end := ?k * 4096\<rparr>" using False ne by (simp add: tail_cut_def s)
    have "img_watches (tail_cut xxh img) p \<longleftrightarrow> ?a div 4096 \<le> p \<and> p < ?k" for p
      using watched_exact [of "tail_cut xxh img" p] b a0 ke ceil_page(2) [of ?k] by (simp add: h IsTracked_def)
    moreover have "track_ok (tail_cut xxh img)" using D(1,6) t ne le by (simp add: h track_ok_def image_end_def page_4096)
    ultimately show ?thesis unfolding image_step_def using t w c kk by (auto simp: h tail_unwatch_def s watch_change_def place_def)
  qed
qed

lemma UntrackImageHead_ok:
  assumes at: "img_at tc i = Some img" and g: "good_image img" and fits: "IsTracked img \<Longrightarrow> next_page (guest_address img) \<le> image_end img"
  shows "UntrackImageHead xxh i tc = Some (do_image i (head_cut xxh img) (head_unwatch img) tc)"
proof (cases "\<not> IsTracked img \<or> guest_address img < track_addr img")
  case True
  then show ?thesis using at by (simp add: UntrackImageHead_def img_at_def [symmetric] head_cut_def head_unwatch_def Let_def)
next
  case False
  note D = good_imageD [OF g]
  let ?a = "next_page (guest_address img)" and ?g = "guest_address img"
  let ?img = "img\<lparr>track_addr := ?a\<rparr>"
  have b: "?g < 2 ^ 41" "?g < ?a" "?a \<le> 2 ^ 40" using D(2,3,4,5) False fits by (auto simp: page_4096)
  have sub: "sub64 ?a ?g = ?a - ?g" using b by (intro sub64_exact) auto
  have at': "img_at (do_image i ?img [] tc) i = Some ?img" using at by simp
  have dirty: "MarkAsMaybeDirty xxh i (do_image i ?img [] tc) = Some (do_image i (untracked (maybe_dirty xxh ?img)) [] tc)" if "?a = track_addr_end img"
    using MarkAsMaybeDirty_eq [OF at', of xxh] b that by (simp add: unwatch_def)
  show ?thesis using False at dirty sub
    by (simp add: UntrackImageHead_def img_at_def [symmetric] align_next [OF b(1), unfolded One_nat_def] head_cut_def head_unwatch_def Let_def put_do(1) del: do_image_simps)
      (simp add: put_do(2))
qed

lemma UntrackImageTail_ok:
  assumes at: "img_at tc i = Some img" and g: "good_image img" and fits: "IsTracked img \<Longrightarrow> guest_address img < page_start (image_end img)"
  shows "UntrackImageTail xxh i tc = Some (do_image i (tail_cut xxh img) (tail_unwatch img) tc)"
proof (cases "IsTracked img")
  case False
  then show ?thesis using at by (simp add: UntrackImageTail_def img_at_def [symmetric] tail_cut_def tail_unwatch_def Let_def)
next
  case tr: True
  note D = good_imageD [OF g tr]
  have e: "add64 (guest_address img) (guest_size img) = image_end img" using D(4) by (auto simp: image_end_def intro!: add64_exact)
  show ?thesis
  proof (cases "track_addr_end img < image_end img")
    case True
    then show ?thesis using at e by (simp add: UntrackImageTail_def img_at_def [symmetric] tail_cut_def tail_unwatch_def Let_def)
  next
    case False
    let ?a = "page_start (image_end img)"
    let ?img = "img\<lparr>track_addr_end := ?a\<rparr>"
    have le: "?a \<le> image_end img" by (simp add: page_4096)
    have sub: "sub64 (image_end img) ?a = image_end img - ?a" using D(4) le by (intro sub64_exact) auto
    have at': "img_at (do_image i ?img [] tc) i = Some ?img" using at by simp
    have dirty: "MarkAsMaybeDirty xxh i (do_image i ?img [] tc) = Some (do_image i (untracked (maybe_dirty xxh ?img)) [] tc)" if "track_addr img = ?a"
      using MarkAsMaybeDirty_eq [OF at', of xxh] that le D(4) by (simp add: unwatch_def)
    show ?thesis using False at dirty sub tr e D(2)
      by (simp add: UntrackImageTail_def img_at_def [symmetric] align_down tail_cut_def tail_unwatch_def Let_def put_do(1) del: do_image_simps)
        (simp add: put_do(2))
  qed
qed

section \<open>Tracking the whole image\<close>

definition track_all :: "TexImage \<Rightarrow> TexImage" where
  "track_all img = (if fl_Registered img then img\<lparr>track_addr := guest_address img, track_addr_end := image_end img\<rparr> else img)"

definition watch_rest :: "TexImage \<Rightarrow> tex_effect list" where
  "watch_rest img =
     (if \<not> fl_Registered img then []
      else if \<not> IsTracked img then [Watch (guest_address img) (guest_size img)]
      else (if guest_address img < track_addr img then [Watch (guest_address img) (track_addr img - guest_address img)] else [])
         @ (if track_addr_end img < image_end img then [Watch (track_addr_end img) (image_end img - track_addr_end img)] else []))"

lemma ceil_dvd: "4096 dvd a \<Longrightarrow> (a + 4095) div 4096 = a div (4096 :: nat)"
  by (auto elim!: dvdE)

lemma split_pages:
  fixes g a e E p :: nat
  assumes "g \<le> a" "a < e" "e \<le> E" "a = g \<or> 4096 dvd a" "e = E \<or> 4096 dvd e"
  shows "of_bool (g div 4096 \<le> p \<and> p < (E + 4095) div 4096) - (of_bool (a div 4096 \<le> p \<and> p < (e + 4095) div 4096) :: int)
    = (if g < a then of_bool (g div 4096 \<le> p \<and> p < (a + 4095) div 4096) else 0)
    + (if e < E then of_bool (e div 4096 \<le> p \<and> p < (E + 4095) div 4096) else 0)"
proof -
  have o: "g div 4096 \<le> a div 4096" "(e + 4095) div 4096 \<le> (E + 4095) div 4096" "a div 4096 < (e + 4095) div 4096" "e div 4096 \<le> (e + 4095) div 4096"
    using assms(1-3) by (auto intro!: div_le_mono)
  have A: "(a + 4095) div 4096 = a div 4096" if "g < a" using that assms(4) ceil_dvd by auto
  have B: "(e + 4095) div 4096 = e div 4096" if "e < E" using that assms(5) ceil_dvd by auto
  have "a = g" if "\<not> g < a" using that assms(1) by simp
  moreover have "e = E" if "\<not> e < E" using that assms(3) by simp
  ultimately show ?thesis using o A B by (cases "g < a"; cases "e < E") auto
qed

lemma watched_all:
  assumes "good_image img" "fl_Registered img"
  shows "img_watches (track_all img) p \<longleftrightarrow> guest_address img div 4096 \<le> p \<and> p < (image_end img + 4095) div 4096" "track_ok (track_all img)" "image_end img \<le> 2 ^ 40"
    "guest_address img < image_end img" "IsTracked (track_all img)"
proof -
  have g: "0 < guest_address img" "guest_address img < image_end img" "image_end img \<le> 2 ^ 40"
    using assms by (auto simp: good_image_def in_space_def image_end_def)
  then show "img_watches (track_all img) p \<longleftrightarrow> guest_address img div 4096 \<le> p \<and> p < (image_end img + 4095) div 4096"
    using assms(2) watched_exact [of "track_all img" p] by (simp add: track_all_def IsTracked_def)
  show "track_ok (track_all img)" using assms(2) g by (simp add: track_all_def track_ok_def image_end_def)
  show "image_end img \<le> 2 ^ 40" "guest_address img < image_end img" "IsTracked (track_all img)" using g assms(2) by (simp_all add: track_all_def IsTracked_def)
qed

lemma track_step:
  assumes g: "good_image img"
  shows "image_step img (track_all img) (watch_rest img)"
proof (cases "fl_Registered img")
  case False
  then show ?thesis using g image_step_flags [of img img] by (simp add: track_all_def watch_rest_def good_image_def)
next
  case reg: True
  note W = watched_all [OF g reg]
  have pl: "place (track_all img) = place img" "fl_Picked (track_all img) = fl_Picked img" by (simp_all add: track_all_def place_def)
  show ?thesis
  proof (cases "IsTracked img")
    case False
    have "covers (guest_address img) (guest_size img) p \<longleftrightarrow> guest_address img div 4096 \<le> p \<and> p < (image_end img + 4095) div 4096" for p
      using covers_exact [of "guest_address img" "guest_size img" p] W(3) by (simp add: image_end_def)
    then show ?thesis using False reg W(1,2) pl by (simp add: image_step_def watch_rest_def watch_change_def img_watches_def [of img])
  next
    case True
    note D = good_imageD [OF g True]
    have "net_watch (watch_rest img) p =
       (if guest_address img < track_addr img then of_bool (guest_address img div 4096 \<le> p \<and> p < (track_addr img + 4095) div 4096) else 0)
     + (if track_addr_end img < image_end img then of_bool (track_addr_end img div 4096 \<le> p \<and> p < (image_end img + 4095) div 4096) else 0)" for p
      using covers_exact [of "guest_address img" "track_addr img - guest_address img" p] covers_exact [of "track_addr_end img" "image_end img - track_addr_end img" p] D(2-5) True reg
      by (simp add: watch_rest_def watch_change_def)
    moreover have "img_watches img p \<longleftrightarrow> track_addr img div 4096 \<le> p \<and> p < (track_addr_end img + 4095) div 4096" for p
      using watched_exact [of img p] D(3,4) True by simp
    moreover have "track_addr img = guest_address img \<or> 4096 dvd track_addr img" "track_addr_end img = image_end img \<or> 4096 dvd track_addr_end img"
      using D(6,7) unfolding page_4096 by auto
    ultimately show ?thesis using W(1,2) pl split_pages [OF D(5,2,3)] by (simp add: image_step_def)
  qed
qed

lemma TrackImage_ok:
  assumes at: "img_at tc i = Some img" and g: "good_image img"
  shows "TrackImage i tc = Some (do_image i (track_all img) (watch_rest img) tc)"
proof (cases "fl_Registered img")
  case False
  then show ?thesis using at by (simp add: TrackImage_def img_at_def [symmetric] track_all_def watch_rest_def Let_def)
next
  case reg: True
  note W = watched_all [OF g reg]
  have e: "add64 (guest_address img) (guest_size img) = image_end img" using W(3) by (auto simp: image_end_def intro!: add64_exact)
  note def = TrackImage_def img_at_def [symmetric] track_all_def watch_rest_def Let_def
  show ?thesis
  proof (cases "IsTracked img")
    case False
    then have "track_addr img \<noteq> guest_address img \<or> track_addr_end img \<noteq> image_end img"
      using W(4) g reg by (auto simp: IsTracked_def good_image_def)
    then show ?thesis using False reg at e by (auto simp: def do_image_def tex_emit_def)
  next
    case True
    note D = good_imageD [OF g True]
    have sub: "sub64 (track_addr img) (guest_address img) = track_addr img - guest_address img"
        "sub64 (image_end img) (track_addr_end img) = image_end img - track_addr_end img" using D(2-5) by (intro sub64_exact; simp)+
    define img1 where "img1 = img\<lparr>track_addr := guest_address img\<rparr>"
    define es1 where "es1 = (if guest_address img < track_addr img then [Watch (guest_address img) (track_addr img - guest_address img)] else [])"
    have h: "(if guest_address img < track_addr img then TrackImageHead i tc else Some tc) = Some (do_image i img1 es1 tc)"
    proof (cases "guest_address img < track_addr img")
      case lt: True
      then show ?thesis using at reg D(8) sub(1) by (simp add: TrackImageHead_def img_at_def [symmetric] img1_def es1_def do_image_def tex_emit_def Let_def)
    next
      case False
      then have "img1 = img" using D(5) by (simp add: img1_def)
      then show ?thesis using False at by (simp add: es1_def)
    qed
    let ?tc1 = "do_image i img1 es1 tc"
    have at1: "img_at ?tc1 i = Some img1" using at by simp
    have tl: "(if track_addr_end img1 < image_end img then TrackImageTail i ?tc1 else Some ?tc1) = Some (do_image i (track_all img) (watch_rest img) tc)"
    proof (cases "track_addr_end img < image_end img")
      case lt: True
      have e1: "add64 (guest_address img1) (guest_size img1) = image_end img" using e by (simp add: img1_def)
      have "TrackImageTail i ?tc1 = Some (do_image i (img1\<lparr>track_addr_end := image_end img\<rparr>) [Watch (track_addr_end img) (image_end img - track_addr_end img)] ?tc1)"
        using at1 lt reg D(2) sub(2) e1 unfolding TrackImageTail_def img_at_def [symmetric]
        by (simp add: img1_def do_image_def tex_emit_def Let_def del: do_image_simps)
      then show ?thesis using lt True reg by (simp add: track_all_def watch_rest_def img1_def es1_def)
    next
      case False
      then have "track_all img = img1" using D(3) reg by (simp add: track_all_def img1_def)
      then show ?thesis using False True reg by (simp add: img1_def watch_rest_def es1_def)
    qed
    show ?thesis
    proof (cases "guest_address img = track_addr img \<and> image_end img = track_addr_end img")
      case True
      then have "track_all img = img" "watch_rest img = []" using reg \<open>IsTracked img\<close> by (simp_all add: track_all_def watch_rest_def)
      then show ?thesis using True at e by (simp add: TrackImage_def img_at_def [symmetric] Let_def)
    next
      case False
      then have "TrackImage i tc = do { tc1 \<leftarrow> (if guest_address img < track_addr img then TrackImageHead i tc else Some tc);
        img1 \<leftarrow> img_at tc1 i;
        (if track_addr_end img1 < image_end img then TrackImageTail i tc1 else Some tc1) }"
        using reg True at e by (auto simp: TrackImage_def img_at_def Let_def)
      then show ?thesis using h at1 tl by simp
    qed
  qed
qed

end
