(* ===== verification/Texture_Regions.thy ===== *)
theory Texture_Regions
  imports Texture_Tracking
begin

text \<open>
  The invariant of the texture cache, the callbacks that its operations on regions use as interpretations of \<open>image_visitor\<close>, and what these operations do.
\<close>

section \<open>The invariant\<close>

definition tex_inv :: "TextureCache \<Rightarrow> bool" where
  "tex_inv tc \<longleftrightarrow> index_ok tc \<and> track_inv tc \<and> unpicked tc"

lemma tex_invD:
  assumes "tex_inv tc"
  shows "index_ok tc" "track_inv tc" "unpicked tc" "sv_ok (slot_images tc)" "img_at tc i = Some img \<Longrightarrow> good_image img"
proof -
  show "index_ok tc" "track_inv tc" "unpicked tc" using assms by (simp_all add: tex_inv_def)
  then show "sv_ok (slot_images tc)" unfolding index_ok_def by blast
  show "good_image img" if "img_at tc i = Some img"
    using that assms unfolding tex_inv_def good_image_def index_ok_def track_inv_def by blast
qed

lemma good_at: "index_ok tc \<Longrightarrow> track_inv tc \<Longrightarrow> img_at tc i = Some img \<Longrightarrow> good_image img"
  unfolding good_image_def index_ok_def track_inv_def by blast

lemma tex_inv_step:
  assumes "tex_inv tc" "img_at tc i = Some img" "image_step img img' es"
  shows "tex_inv (do_image i img' es tc)"
proof -
  note D = tex_invD(1-4) [OF assms(1)]
  have "same_index tc (do_image i img' es tc)" by (rule same_index_do [OF same_index_refl [OF D(4)] assms(2,3)])
  moreover have "picked (do_image i img' es tc) = picked tc" by (rule picked_do [OF D(4) assms(2,3)])
  then have "unpicked (do_image i img' es tc)" using D(3) unfolding unpicked_def picked_def by (metis (no_types, lifting) map_option_eq_Some option.simps(9))
  ultimately show ?thesis using index_same [OF D(1)] track_inv_step [OF D(2,4) assms(2,3)] by (simp add: tex_inv_def)
qed

section \<open>Callbacks that change the image they get\<close>

text \<open>The states that visiting the images \<open>ids\<close> with such a callback makes; the marks of the loop are ignored.\<close>

definition unmark :: "TexImage \<Rightarrow> TexImage" where
  "unmark img = img\<lparr>fl_Picked := False\<rparr>"

lemma unmark_pick [simp]: "unmark (img\<lparr>fl_Picked := b\<rparr>) = unmark img"
  by (simp add: unmark_def)

definition applied :: "(TexImage \<Rightarrow> TexImage) \<Rightarrow> TextureCache \<Rightarrow> u32 list \<Rightarrow> 's \<times> TextureCache \<Rightarrow> bool" where
  "applied f tc0 ids = (\<lambda>(_, tc). index_ok tc0 \<and> same_index tc0 tc \<and> track_inv tc
     \<and> (\<forall>i. map_option unmark (img_at tc i) = map_option (\<lambda>img. unmark (if i \<in> set ids then f img else img)) (img_at tc0 i)))"

lemma pick_step: "good_image img \<Longrightarrow> place (img\<lparr>fl_Picked := b\<rparr>) = place img \<and> track_ok (img\<lparr>fl_Picked := b\<rparr>) \<and> (\<forall>p. img_watches (img\<lparr>fl_Picked := b\<rparr>) p = img_watches img p)"
  by (simp add: good_image_def place_def track_ok_def image_end_def img_watches_def IsTracked_def)

lemma applied_pick:
  assumes "applied f tc0 ids (s, tc)" "img_at tc i = Some img"
  shows "applied f tc0 ids (s, put_image i (img\<lparr>fl_Picked := b\<rparr>) tc)"
proof -
  let ?img = "img\<lparr>fl_Picked := b\<rparr>" and ?tc = "put_image i (img\<lparr>fl_Picked := b\<rparr>) tc"
  have S: "index_ok tc0" "same_index tc0 tc" "track_inv tc" using assms(1) by (auto simp: applied_def)
  have ok: "sv_ok (slot_images tc)" using S(2) by (simp add: same_index_def)
  note at = img_at_put(1) [OF ok assms(2), of ?img]
  note ps = pick_step [OF good_at [OF index_same [OF S(1,2)] S(3) assms(2)], of b]
  have "track_inv ?tc"
  proof -
    have "track_ok jmg" if "img_at ?tc j = Some jmg" for j jmg using that S(3) ps by (auto simp: at track_inv_def split: if_splits)
    then show ?thesis using S(3) ps card_change [OF assms(2) at, of "\<lambda>x. img_watches x p" for p] by (simp add: track_inv_def)
  qed
  moreover have "same_index tc0 ?tc" using same_index_put [OF S(2) assms(2)] ps by blast
  moreover have "map_option unmark (img_at ?tc j) = map_option unmark (img_at tc j)" for j using assms(2) by (simp add: at)
  ultimately show ?thesis using assms(1) by (simp add: applied_def)
qed

lemma applied_call:
  assumes a: "applied f tc0 ids (s, tc)" and new: "i \<notin> set ids" and at: "img_at tc i = Some img"
    and step: "image_step img (f img) es" and f: "\<And>x b. f (x\<lparr>fl_Picked := b\<rparr>) = (f x)\<lparr>fl_Picked := b\<rparr>"
  shows "applied f tc0 (ids @ [i]) (s', do_image i (f img) es tc)" "picked (do_image i (f img) es tc) = picked tc"
proof -
  have S: "index_ok tc0" "same_index tc0 tc" "track_inv tc" using a by (auto simp: applied_def)
  have ok: "sv_ok (slot_images tc)" using S(2) by (simp add: same_index_def)
  show "picked (do_image i (f img) es tc) = picked tc" by (rule picked_do [OF ok at step])
  obtain img0 where img0: "img_at tc0 i = Some img0" using same_index_img [OF S(2) at] by blast
  moreover have "map_option unmark (img_at tc i) = map_option (\<lambda>img. unmark (if i \<in> set ids then f img else img)) (img_at tc0 i)"
    using a by (simp add: applied_def)
  ultimately have "unmark img = unmark img0" using new at by simp
  then have "unmark (f img) = unmark (f img0)" by (metis unmark_def f)
  then have "map_option unmark (img_at (do_image i (f img) es tc) j)
      = map_option (\<lambda>img. unmark (if j \<in> set (ids @ [i]) then f img else img)) (img_at tc0 j)" for j
    using a img0 by (simp add: img_at_put(1) [OF ok at] applied_def)
  then show "applied f tc0 (ids @ [i]) (s', do_image i (f img) es tc)"
    using S same_index_do [OF S(2) at step] track_inv_step [OF S(3) ok at step] by (simp add: applied_def)
qed

lemma unmark_unpicked: "\<not> fl_Picked img \<Longrightarrow> unmark img = img"
  by (simp add: unmark_def)

lemma applied_end:
  assumes "applied f tc0 ids (s, tc)" "unpicked tc" "unpicked tc0" "\<And>x b. f (x\<lparr>fl_Picked := b\<rparr>) = (f x)\<lparr>fl_Picked := b\<rparr>"
  shows "tex_inv tc" "img_at tc i = map_option (\<lambda>img. if i \<in> set ids then f img else img) (img_at tc0 i)"
proof -
  have S: "index_ok tc0" "same_index tc0 tc" "track_inv tc" using assms(1) by (auto simp: applied_def)
  show "tex_inv tc" using index_same [OF S(1,2)] S(3) assms(2) by (simp add: tex_inv_def)
  have "map_option unmark (img_at tc i) = img_at tc i"
    using assms(2) by (cases "img_at tc i") (auto simp: unpicked_def unmark_unpicked)
  moreover have "unmark (f x) = f x" if "\<not> fl_Picked x" for x using assms(4) [where x = x and b = False] unmark_unpicked [OF that] unfolding unmark_def by metis
  then have "map_option (\<lambda>img. unmark (if i \<in> set ids then f img else img)) (img_at tc0 i) = map_option (\<lambda>img. if i \<in> set ids then f img else img) (img_at tc0 i)"
    using assms(3) by (cases "img_at tc0 i") (auto simp: unpicked_def unmark_unpicked)
  ultimately show "img_at tc i = map_option (\<lambda>img. if i \<in> set ids then f img else img) (img_at tc0 i)"
    using assms(1) by (simp add: applied_def)
qed

lemma applied_start: "tex_inv tc \<Longrightarrow> applied f tc [] (s, tc)"
  using tex_invD(1-4) [of tc] by (simp add: applied_def same_index_refl)

section \<open>The callbacks of the texture cache\<close>

text \<open>A callback that only looks at the images and collects some of them.\<close>

definition collected :: "(TexImage \<Rightarrow> bool) \<Rightarrow> TextureCache \<Rightarrow> u32 list \<Rightarrow> u32 list \<times> TextureCache \<Rightarrow> bool" where
  "collected Q tc0 ids st \<longleftrightarrow> applied (\<lambda>img. img) tc0 ids st \<and> (snd st)\<lparr>slot_images := slot_images tc0\<rparr> = tc0
     \<and> fst st = filter (\<lambda>i. \<exists>img. img_at tc0 i = Some img \<and> Q img) ids"

definition collect :: "(TexImage \<Rightarrow> bool) \<Rightarrow> u32 list image_callback" where
  "collect Q image_id = (\<lambda>(ids, tc). do {
     img \<leftarrow> sv_at image_id (slot_images tc);
     Some (if Q img then ids @ [image_id] else ids, tc)
   })"

lemma applied_at:
  assumes "applied f tc0 ids (s, tc)" "i \<in> overlapping tc0 a n"
  obtains img img0 where "img_at tc i = Some img" "img_at tc0 i = Some img0" "place img = place img0" "fl_Registered img" "Overlaps img a n"
    "good_image img" "i \<notin> set ids \<Longrightarrow> unmark img = unmark img0"
proof -
  have S: "index_ok tc0" "same_index tc0 tc" "track_inv tc" using assms(1) by (auto simp: applied_def)
  obtain img0 where 0: "img_at tc0 i = Some img0" "fl_Registered img0" "Overlaps img0 a n" using assms(2) by (auto simp: overlapping_def)
  obtain img where 1: "img_at tc i = Some img" "place img = place img0" using same_index_img' [OF S(2) 0(1)] by blast
  have "map_option unmark (img_at tc i) = map_option (\<lambda>img. unmark (if i \<in> set ids then f img else img)) (img_at tc0 i)"
    using assms(1) by (simp add: applied_def)
  then have "unmark img = unmark img0" if "i \<notin> set ids" using that 0(1) 1(1) by simp
  then show thesis using that [OF 1(1) 0(1) 1(2)] 0 placeD [OF 1(2)] Overlaps_place [OF 1(2)] good_at [OF index_same [OF S(1,2)] S(3) 1(1)] by blast
qed

interpretation look: image_visitor a n tc0 "collect (\<lambda>img. Q (unmark img))" "collected (\<lambda>img. Q (unmark img)) tc0" for a n tc0 Q
proof
  show "same_index tc0 tc" if "collected (\<lambda>img. Q (unmark img)) tc0 ids (s, tc)" for ids s tc using that by (simp add: collected_def applied_def)
  show "collected (\<lambda>img. Q (unmark img)) tc0 ids (s, put_image i (img\<lparr>fl_Picked := b\<rparr>) tc)"
    if "collected (\<lambda>img. Q (unmark img)) tc0 ids (s, tc)" "img_at tc i = Some img" for ids s tc i img b
    using that applied_pick by (auto simp: collected_def put_image_def)
  fix ids s tc i
  assume c: "collected (\<lambda>img. Q (unmark img)) tc0 ids (s, tc)" and i: "i \<notin> set ids" "i \<in> overlapping tc0 a n"
  have A: "applied (\<lambda>img. img) tc0 ids (s, tc)" using c unfolding collected_def by blast
  obtain img img0 where img: "img_at tc i = Some img" "img_at tc0 i = Some img0" "unmark img = unmark img0" "good_image img" by (rule applied_at [OF A i(2)]) (use i(1) in blast)
  have "image_step img img []" using img(4) by (intro image_step_flags) (auto simp: good_image_def)
  from applied_call(1) [OF A i(1) img(1) this]
  have "applied (\<lambda>img. img) tc0 (ids @ [i]) (s', tc)" for s' using img(1) by simp
  then show "\<exists>s' tc'. collect (\<lambda>img. Q (unmark img)) i (s, tc) = Some (s', tc') \<and> collected (\<lambda>img. Q (unmark img)) tc0 (ids @ [i]) (s', tc') \<and> picked tc' = picked tc"
    using c img(1,2,3) by (auto simp: collect_def collected_def img_at_def [symmetric])
qed

definition visited :: "TextureCache \<Rightarrow> u32 list \<Rightarrow> u32 list \<times> TextureCache \<Rightarrow> bool" where
  "visited tc0 ids st \<longleftrightarrow> applied (\<lambda>img. img) tc0 ids st \<and> (snd st)\<lparr>slot_images := slot_images tc0\<rparr> = tc0 \<and> fst st = ids"

interpretation all: image_visitor a n tc0 "\<lambda>image_id (ids, tc). Some (ids @ [image_id], tc)" "visited tc0" for a n tc0
proof
  show "same_index tc0 tc" if "visited tc0 ids (s, tc)" for ids s tc using that by (simp add: visited_def applied_def)
  show "visited tc0 ids (s, put_image i (img\<lparr>fl_Picked := b\<rparr>) tc)" if "visited tc0 ids (s, tc)" "img_at tc i = Some img" for ids s tc i img b
    using that applied_pick by (auto simp: visited_def put_image_def)
  fix ids s tc i
  assume c: "visited tc0 ids (s, tc)" and i: "i \<notin> set ids" "i \<in> overlapping tc0 a n"
  have A: "applied (\<lambda>img. img) tc0 ids (s, tc)" using c unfolding visited_def by blast
  obtain img where img: "img_at tc i = Some img" "good_image img" by (rule applied_at [OF A i(2)]) blast
  have "image_step img img []" using img(2) by (intro image_step_flags) (auto simp: good_image_def)
  from applied_call(1) [OF A i(1) img(1) this]
  have "applied (\<lambda>img. img) tc0 (ids @ [i]) (s', tc)" for s' using img(1) by simp
  then show "\<exists>s' tc'. (case (s, tc) of (ids, tc) \<Rightarrow> Some (ids @ [i], tc)) = Some (s', tc') \<and> visited tc0 (ids @ [i]) (s', tc') \<and> picked tc' = picked tc"
    using c by (auto simp: visited_def)
qed

text \<open>Callbacks that change the image: the invalidation by the GPU, and by the CPU.\<close>

definition gpu_dirty :: "u64 \<Rightarrow> TexImage \<Rightarrow> TexImage" where
  "gpu_dirty address img = (if guest_address img \<noteq> address then img else img\<lparr>fl_GpuDirty := True\<rparr>)"

interpretation gpu: image_visitor a n tc0
  "\<lambda>image_id (u :: unit, tc). do {
     img \<leftarrow> sv_at image_id (slot_images tc);
     Some (u, if guest_address img \<noteq> address then tc else put_image image_id (img\<lparr>fl_GpuDirty := True\<rparr>) tc)
   }" "applied (gpu_dirty address) tc0" for a n tc0 address
proof
  show "same_index tc0 tc" if "applied (gpu_dirty address) tc0 ids (s, tc)" for ids s tc using that by (simp add: applied_def)
  show "applied (gpu_dirty address) tc0 ids (s, put_image i (img\<lparr>fl_Picked := b\<rparr>) tc)"
    if "applied (gpu_dirty address) tc0 ids (s, tc)" "img_at tc i = Some img" for ids s tc i img b by (rule applied_pick [OF that])
  fix ids s tc i
  assume A: "applied (gpu_dirty address) tc0 ids (s, tc)" and i: "i \<notin> set ids" "i \<in> overlapping tc0 a n"
  obtain img where img: "img_at tc i = Some img" "good_image img" by (rule applied_at [OF A i(2)]) blast
  have st: "image_step img (gpu_dirty address img) []"
    using img(2) by (intro image_step_flags) (auto simp: good_image_def gpu_dirty_def place_def)
  have f: "gpu_dirty address (x\<lparr>fl_Picked := b\<rparr>) = (gpu_dirty address x)\<lparr>fl_Picked := b\<rparr>" for x b by (simp add: gpu_dirty_def)
  have "(if guest_address img \<noteq> address then tc else put_image i (img\<lparr>fl_GpuDirty := True\<rparr>) tc) = do_image i (gpu_dirty address img) [] tc"
    unfolding put_do(1) using img(1) by (simp add: gpu_dirty_def)
  then show "\<exists>s' tc'. (case (s, tc) of (u, tc) \<Rightarrow> do {
     img \<leftarrow> sv_at i (slot_images tc);
     Some (u, if guest_address img \<noteq> address then tc else put_image i (img\<lparr>fl_GpuDirty := True\<rparr>) tc)
   }) = Some (s', tc') \<and> applied (gpu_dirty address) tc0 (ids @ [i]) (s', tc') \<and> picked tc' = picked tc"
    using applied_call [OF A i(1) img(1) st f] img(1) by (simp add: img_at_def [symmetric])
qed

section \<open>Invalidation by the CPU\<close>

definition invalidated :: "(u64 \<Rightarrow> u64 \<Rightarrow> u64) \<Rightarrow> u64 \<Rightarrow> u64 \<Rightarrow> TexImage \<Rightarrow> TexImage" where
  "invalidated xxh addr sz img =
     (if Overlaps img addr sz then untracked (img\<lparr>fl_CpuDirty := True\<rparr>)
      else if next_page (addr + sz - 1) < image_end img then head_cut xxh img
      else if guest_address img < page_start addr then tail_cut xxh img
      else untracked (maybe_dirty xxh img))"

definition invalidate_effects :: "u64 \<Rightarrow> u64 \<Rightarrow> TexImage \<Rightarrow> tex_effect list" where
  "invalidate_effects addr sz img =
     (if Overlaps img addr sz then unwatch img
      else if next_page (addr + sz - 1) < image_end img then head_unwatch img
      else if guest_address img < page_start addr then tail_unwatch img
      else unwatch img)"

text \<open>The whole pages of the range.\<close>

lemma page_range:
  assumes "in_space addr sz"
  shows "page_start addr \<le> addr" "addr + sz \<le> next_page (addr + sz - 1)" "next_page (addr + sz - 1) \<le> 2 ^ 40"
    "in_space (page_start addr) (next_page (addr + sz - 1) - page_start addr)" "page_start addr < next_page (addr + sz - 1)"
proof -
  have b: "0 < sz" "addr + sz \<le> 2 ^ 40" using assms by (auto simp: in_space_def)
  show 1: "page_start addr \<le> addr" by (simp add: page_4096)
  have "addr + sz - 1 < next_page (addr + sz - 1)" by (simp add: page_4096)
  then show 2: "addr + sz \<le> next_page (addr + sz - 1)" using b by simp
  have "(addr + sz - 1) div 4096 < 268435456" using b by (simp add: less_mult_imp_div_less)
  then show 3: "next_page (addr + sz - 1) \<le> 2 ^ 40" by (simp add: page_4096)
  show "page_start addr < next_page (addr + sz - 1)" using 1 2 b by simp
  then show "in_space (page_start addr) (next_page (addr + sz - 1) - page_start addr)" using 3 by (simp add: in_space_def)
qed

lemma head_place:
  assumes "addr + sz \<le> g" "g < next_page (addr + sz - 1)" "0 < sz"
  shows "next_page g = next_page (addr + sz - 1)"
proof -
  have "g < ((addr + sz - 1) div 4096 + 1) * 4096" using assms(2) by (simp only: page_4096)
  then have "g div 4096 < (addr + sz - 1) div 4096 + 1" by (rule less_mult_imp_div_less)
  then have a: "g div 4096 \<le> (addr + sz - 1) div 4096" by simp
  have "(addr + sz - 1) div 4096 \<le> g div 4096" using assms(1,3) by (intro div_le_mono) simp
  then show ?thesis using a by (simp add: page_4096)
qed

lemma tail_place:
  assumes "page_start addr < e" "e \<le> addr"
  shows "page_start e = page_start addr"
proof -
  have "e div 4096 \<le> addr div 4096" by (rule div_le_mono [OF assms(2)])
  moreover have "addr div 4096 * 4096 < e" using assms(1) by (simp only: page_4096)
  then have "addr div 4096 \<le> e div 4096" using div_le_mono [of "addr div 4096 * 4096" e 4096] by simp
  ultimately show ?thesis by (simp add: page_4096)
qed

lemma Overlaps_end:
  assumes "good_image img" "fl_Registered img" "in_space a n"
  shows "Overlaps img a n \<longleftrightarrow> guest_address img < a + n \<and> a < image_end img"
  using Overlaps_eq [OF _ assms(3)] assms(1,2) by (simp add: good_image_def image_end_def)

text \<open>An image on one of these pages.\<close>

definition touched :: "u64 \<Rightarrow> u64 \<Rightarrow> TexImage \<Rightarrow> bool" where
  "touched addr sz img \<longleftrightarrow> in_space addr sz \<and> good_image img \<and> fl_Registered img
     \<and> Overlaps img (page_start addr) (next_page (addr + sz - 1) - page_start addr)"

lemma touchedD:
  assumes "touched addr sz img"
  shows "in_space addr sz" "good_image img" "fl_Registered img" "guest_address img < next_page (addr + sz - 1)" "page_start addr < image_end img"
    "Overlaps img addr sz \<longleftrightarrow> guest_address img < addr + sz \<and> addr < image_end img"
proof -
  show t: "in_space addr sz" "good_image img" "fl_Registered img" using assms by (simp_all add: touched_def)
  show "guest_address img < next_page (addr + sz - 1)" "page_start addr < image_end img"
    using Overlaps_end [OF t(2,3) page_range(4) [OF t(1)]] page_range(5) [OF t(1)] assms by (simp_all add: touched_def)
  show "Overlaps img addr sz \<longleftrightarrow> guest_address img < addr + sz \<and> addr < image_end img" by (rule Overlaps_end [OF t(2,3,1)])
qed

lemma head_case:
  assumes t: "touched addr sz img" and c: "\<not> Overlaps img addr sz" "next_page (addr + sz - 1) < image_end img"
  shows "next_page (guest_address img) = next_page (addr + sz - 1)"
  using c touchedD [OF t] page_range(2) [OF touchedD(1) [OF t]] by (intro head_place) (auto simp: in_space_def)

lemma tail_case:
  assumes t: "touched addr sz img" and c: "\<not> Overlaps img addr sz" "guest_address img < page_start addr"
  shows "page_start (image_end img) = page_start addr"
  using c touchedD [OF t] page_range(1) [OF touchedD(1) [OF t]] by (intro tail_place) auto

lemma unwatch_cpu [simp]: "unwatch (img\<lparr>fl_CpuDirty := b\<rparr>) = unwatch img"
  by (simp add: unwatch_def IsTracked_def)

lemma cpu_dirty_step: "good_image img \<Longrightarrow> image_step img (untracked (img\<lparr>fl_CpuDirty := True\<rparr>)) (unwatch img)"
proof -
  assume g: "good_image img"
  have 1: "image_step img (img\<lparr>fl_CpuDirty := True\<rparr>) []" by (rule image_step_flags) (use g in \<open>auto simp: good_image_def place_def\<close>)
  have "good_image (img\<lparr>fl_CpuDirty := True\<rparr>)" using g 1 by (simp add: good_image_def image_step_def)
  from image_step_trans [OF 1 untracked_step(1) [OF this]] show ?thesis by simp
qed

lemma maybe_dirty_step: "good_image img \<Longrightarrow> image_step img (untracked (maybe_dirty xxh img)) (unwatch img)"
proof -
  assume g: "good_image img"
  have 1: "image_step img (maybe_dirty xxh img) []" by (rule image_step_flags) (use g in \<open>auto simp: good_image_def\<close>)
  have "place (maybe_dirty xxh img) = place img" by simp
  then have "good_image (maybe_dirty xxh img)" using g 1 placeD [of "maybe_dirty xxh img" img] by (simp add: good_image_def image_step_def)
  from image_step_trans [OF 1 untracked_step(1) [OF this]] show ?thesis by simp
qed

lemma invalidated_step:
  assumes t: "touched addr sz img"
  shows "image_step img (invalidated xxh addr sz img) (invalidate_effects addr sz img)"
proof -
  note D = touchedD [OF t]
  have "image_step img (head_cut xxh img) (head_unwatch img)" if "\<not> Overlaps img addr sz" "next_page (addr + sz - 1) < image_end img"
    using head_step [OF D(2)] head_case [OF t that] that(2) by simp
  moreover have "image_step img (tail_cut xxh img) (tail_unwatch img)" if "\<not> Overlaps img addr sz" "guest_address img < page_start addr"
    using tail_step [OF D(2)] tail_case [OF t that] that(2) by simp
  ultimately show ?thesis using cpu_dirty_step [OF D(2)] maybe_dirty_step [OF D(2)] by (simp add: invalidated_def invalidate_effects_def)
qed

lemma invalidate_image_ok:
  assumes at: "img_at tc i = Some img" and t: "touched addr sz img"
  shows "invalidate_image xxh addr sz (page_start addr) (next_page (addr + sz - 1)) i tc
    = Some (do_image i (invalidated xxh addr sz img) (invalidate_effects addr sz img) tc)"
proof -
  note D = touchedD [OF t]
  have e: "add64 (guest_address img) (guest_size img) = image_end img"
    using D(2,3) by (auto simp: good_image_def in_space_def image_end_def intro!: add64_exact)
  have m: "MarkAsMaybeDirty xxh i tc = Some (do_image i (untracked (maybe_dirty xxh img)) (unwatch img) tc)"
    by (rule MarkAsMaybeDirty_eq [OF at untracked_step(2,3) [OF D(2)]])
  have g': "good_image (img\<lparr>fl_CpuDirty := True\<rparr>)" using D(2) by (simp add: good_image_def track_ok_def image_end_def)
  have at': "img_at (do_image i (img\<lparr>fl_CpuDirty := True\<rparr>) [] tc) i = Some (img\<lparr>fl_CpuDirty := True\<rparr>)" using at by simp
  have c: "UntrackImage i (do_image i (img\<lparr>fl_CpuDirty := True\<rparr>) [] tc) = Some (do_image i (untracked (img\<lparr>fl_CpuDirty := True\<rparr>)) (unwatch img) tc)"
    using UntrackImage_ok [OF at' g'] by (simp only: do_image_do unwatch_cpu append_Nil)
  have h: "UntrackImageHead xxh i tc = Some (do_image i (head_cut xxh img) (head_unwatch img) tc)"
    if "\<not> Overlaps img addr sz" "next_page (addr + sz - 1) < image_end img"
    by (rule UntrackImageHead_ok [OF at D(2)]) (use head_case [OF t that] that(2) in simp)
  have tl: "UntrackImageTail xxh i tc = Some (do_image i (tail_cut xxh img) (tail_unwatch img) tc)"
    if "\<not> Overlaps img addr sz" "guest_address img < page_start addr"
    by (rule UntrackImageTail_ok [OF at D(2)]) (use tail_case [OF t that] that(2) in simp)
  show ?thesis unfolding invalidate_image_def img_at_def [symmetric] at invalidated_def invalidate_effects_def
    using e m c h tl by (simp add: put_do(1) del: do_image_simps)
qed

text \<open>Afterwards the image watches none of the pages.\<close>

lemma invalidated_unwatched:
  assumes t: "touched addr sz img" and p: "page_start addr \<le> p * 4096" "p * 4096 < next_page (addr + sz - 1)"
  shows "\<not> img_watches (invalidated xxh addr sz img) p"
proof -
  note D = touchedD [OF t]
  let ?img = "invalidated xxh addr sz img"
  have st: "image_step img ?img (invalidate_effects addr sz img)" by (rule invalidated_step [OF t])
  have pl: "place ?img = place img" using st by (simp add: image_step_def)
  have ok: "good_image ?img" using D(2) st placeD [OF pl] by (simp add: good_image_def image_step_def)
  have c: "\<not> IsTracked ?img" if "Overlaps img addr sz \<or> \<not> next_page (addr + sz - 1) < image_end img \<and> \<not> guest_address img < page_start addr"
    using that by (auto simp: invalidated_def)
  consider (clear) "\<not> IsTracked ?img" | (head) "IsTracked ?img" "\<not> Overlaps img addr sz" "next_page (addr + sz - 1) < image_end img"
    | (tail) "IsTracked ?img" "\<not> Overlaps img addr sz" "guest_address img < page_start addr" "\<not> next_page (addr + sz - 1) < image_end img"
    using c by blast
  then show ?thesis
  proof cases
    case clear
    then show ?thesis by (simp add: img_watches_def)
  next
    case head
    note n = head_case [OF t head(2,3)]
    have h: "?img = head_cut xxh img" using head by (simp add: invalidated_def)
    have "IsTracked img" using head(1) by (auto simp: h head_cut_def Let_def split: if_splits)
    then have "track_addr img \<in> {guest_address img, next_page (guest_address img)}" using good_imageD(6) [OF D(2)] by blast
    then have "track_addr ?img = next_page (addr + sz - 1)"
      using head(1) unfolding h head_cut_def Let_def n by (auto split: if_splits)
    then have "track_addr ?img div 4096 = (addr + sz - 1) div 4096 + 1" by (simp add: page_4096)
    moreover have "p < (addr + sz - 1) div 4096 + 1" using p(2) by (simp add: page_4096)
    ultimately show ?thesis by (simp add: img_watches_def page_4096)
  next
    case tail
    note n = tail_case [OF t tail(2,3)]
    have h: "?img = tail_cut xxh img" using tail by (simp add: invalidated_def)
    have "IsTracked img" using tail(1) by (auto simp: h tail_cut_def Let_def split: if_splits)
    then have "track_addr_end img \<in> {image_end img, page_start (image_end img)}" using good_imageD(7) [OF D(2)] by blast
    then have e: "track_addr_end ?img = page_start addr"
      using tail(1) unfolding h tail_cut_def Let_def n by (auto split: if_splits)
    then have "track_addr_end ?img = addr div 4096 * 4096" by (simp add: page_4096)
    moreover have "track_addr_end ?img < 2 ^ 41" using good_imageD(3,4) [OF ok tail(1)] by simp
    ultimately have "img_watches ?img p \<Longrightarrow> p < addr div 4096" using watched_exact [of ?img p] ceil_page(2) [of "addr div 4096"] by simp
    then show ?thesis using p(1) by (auto simp: page_4096)
  qed
qed

lemma watched_touched:
  assumes g: "good_image img" and r: "in_space addr sz" and w: "img_watches img p" and p: "page_start addr \<le> p * 4096" "p * 4096 < next_page (addr + sz - 1)"
  shows "touched addr sz img"
proof -
  have t: "IsTracked img" using w by (simp add: img_watches_def)
  note D = good_imageD [OF g t]
  have b: "track_addr_end img < 2 ^ 41" using D(3,4) by simp
  have wp: "track_addr img div 4096 \<le> p" "p < (track_addr_end img + 4095) div 4096" using w watched_exact [OF b] by simp_all
  obtain k where k: "next_page (addr + sz - 1) = (k + 1) * 4096" by (simp add: page_4096)
  have "p < k + 1" using p(2) unfolding k by simp
  then have "(p + 1) * 4096 \<le> next_page (addr + sz - 1)" unfolding k by simp
  moreover have "track_addr img < (p + 1) * 4096" using wp(1) by simp
  ultimately have "guest_address img < next_page (addr + sz - 1)" using D(5) by simp
  moreover have "p * 4096 < image_end img" using wp(2) D(3) by simp
  ultimately have "Overlaps img (page_start addr) (next_page (addr + sz - 1) - page_start addr)"
    using Overlaps_end [OF g D(1) page_range(4) [OF r]] page_range(5) [OF r] p(1) by simp
  then show ?thesis using g r D(1) by (simp add: touched_def)
qed

lemma invalidated_pick: "invalidated xxh addr sz (x\<lparr>fl_Picked := b\<rparr>) = (invalidated xxh addr sz x)\<lparr>fl_Picked := b\<rparr>"
  by (simp add: invalidated_def Overlaps_def head_cut_def tail_cut_def untracked_def maybe_dirty_def IsTracked_def image_end_def Let_def)

interpretation cpu: image_visitor "page_start addr" "next_page (addr + sz - 1) - page_start addr" tc0
  "\<lambda>image_id (u :: unit, tc). map_option (Pair u) (invalidate_image xxh addr sz (page_start addr) (next_page (addr + sz - 1)) image_id tc)"
  "\<lambda>ids st. in_space addr sz \<and> applied (invalidated xxh addr sz) tc0 ids st" for addr sz tc0 xxh
proof
  let ?f = "invalidated xxh addr sz"
  show "same_index tc0 tc" if "in_space addr sz \<and> applied ?f tc0 ids (s, tc)" for ids s tc using that by (simp add: applied_def)
  show "in_space addr sz \<and> applied ?f tc0 ids (s, put_image i (img\<lparr>fl_Picked := b\<rparr>) tc)"
    if "in_space addr sz \<and> applied ?f tc0 ids (s, tc)" "img_at tc i = Some img" for ids s tc i img b
    using that(1) applied_pick [OF that(1) [THEN conjunct2] that(2)] by simp
  fix ids s tc i
  assume A: "in_space addr sz \<and> applied ?f tc0 ids (s, tc)" and i: "i \<notin> set ids" "i \<in> overlapping tc0 (page_start addr) (next_page (addr + sz - 1) - page_start addr)"
  note A2 = A [THEN conjunct2]
  obtain img where img: "img_at tc i = Some img" "touched addr sz img" by (rule applied_at [OF A2 i(2)]) (use A in \<open>simp add: touched_def\<close>)
  show "\<exists>s' tc'. (case (s, tc) of (u, tc) \<Rightarrow> map_option (Pair u) (invalidate_image xxh addr sz (page_start addr) (next_page (addr + sz - 1)) i tc)) = Some (s', tc')
      \<and> (in_space addr sz \<and> applied ?f tc0 (ids @ [i]) (s', tc')) \<and> picked tc' = picked tc"
    using applied_call [OF A2 i(1) img(1) invalidated_step [OF img(2)] invalidated_pick] invalidate_image_ok [OF img] A by simp
qed

section \<open>What the operations on regions do\<close>

lemma tex_InvalidateMemory_ok:
  assumes inv: "tex_inv tc" and r: "in_space addr sz"
  obtains tc' where "tex_InvalidateMemory xxh addr sz tc = Some tc'" "tex_inv tc'" "same_index tc tc'"
    "\<And>i img. img_at tc i = Some img \<Longrightarrow> img_at tc' i = Some (if touched addr sz img then invalidated xxh addr sz img else img)"
proof -
  let ?a = "page_start addr" and ?e = "next_page (addr + sz - 1)"
  note P = page_range [OF r]
  have b: "0 < sz" "addr + sz \<le> 2 ^ 40" using r by (simp_all add: in_space_def)
  have 1: "add64 addr sz = addr + sz" using b by (intro add64_exact) simp
  have "sub64 (addr + sz) 1 = addr + sz - 1" using b by (intro sub64_exact) auto
  then have pe: "AlignUp (add64 (sub64 (add64 addr sz) 1) 1) PM_PAGE_SIZE = ?e" using align_next [of "addr + sz - 1"] 1 b by simp
  have sub: "sub64 ?e ?a = ?e - ?a" using P(3,5) by (intro sub64_exact) auto
  have run: "tex_InvalidateMemory xxh addr sz tc = map_option snd (ForEachImageInRegion ?a (?e - ?a)
      (\<lambda>image_id (u :: unit, tc). map_option (Pair u) (invalidate_image xxh addr sz ?a ?e image_id tc)) ((), tc))"
    unfolding tex_InvalidateMemory_def pe align_down Let_def sub ..
  obtain ids s' tc' where F: "ForEachImageInRegion ?a (?e - ?a)
      (\<lambda>image_id (u :: unit, tc). map_option (Pair u) (invalidate_image xxh addr sz ?a ?e image_id tc)) ((), tc) = Some (s', tc')"
      "set ids = overlapping tc ?a (?e - ?a)" "applied (invalidated xxh addr sz) tc ids (s', tc')" "unpicked tc'"
    by (rule cpu.for_each_ok [OF tex_invD(1) [OF inv] P(4) conjI [OF r applied_start [OF inv]] tex_invD(3) [OF inv], of xxh "()"]) blast
  have S: "same_index tc tc'" using F(3) by (simp add: applied_def)
  note E = applied_end [OF F(3,4) tex_invD(3) [OF inv] invalidated_pick]
  have "img_at tc' i = Some (if touched addr sz img then invalidated xxh addr sz img else img)" if at: "img_at tc i = Some img" for i img
  proof -
    have "i \<in> set ids \<longleftrightarrow> touched addr sz img" using at tex_invD(5) [OF inv at] r by (simp add: F(2) overlapping_def touched_def)
    then show ?thesis using E(2) [of i] at by simp
  qed
  then show thesis using that [of tc'] run F(1) E(1) S by simp
qed

text \<open>Collecting images changes nothing.\<close>

definition same_view :: "TextureCache \<Rightarrow> TextureCache \<Rightarrow> bool" where
  "same_view tc tc' \<longleftrightarrow> img_at tc' = img_at tc \<and> tc'\<lparr>slot_images := slot_images tc\<rparr> = tc \<and> sv_ok (slot_images tc')"

lemma collect_ok:
  assumes inv: "tex_inv tc" and r: "in_space a n"
  obtains ids tc' where "ForEachImageInRegion a n (collect (\<lambda>img. Q (unmark img))) ([], tc) = Some (filter (\<lambda>i. \<exists>img. img_at tc i = Some img \<and> Q img) ids, tc')"
    "distinct ids" "set ids = overlapping tc a n" "tex_inv tc'" "same_view tc tc'"
proof -
  have c0: "collected (\<lambda>img. Q (unmark img)) tc [] ([], tc)" using applied_start [OF inv] by (simp add: collected_def)
  obtain ids s' tc' where F: "ForEachImageInRegion a n (collect (\<lambda>img. Q (unmark img))) ([], tc) = Some (s', tc')" "distinct ids" "set ids = overlapping tc a n"
      "collected (\<lambda>img. Q (unmark img)) tc ids (s', tc')" "unpicked tc'"
    by (rule look.for_each_ok [OF tex_invD(1) [OF inv] r c0 tex_invD(3) [OF inv]])
  have A: "applied (\<lambda>img. img) tc ids (s', tc')" "tc'\<lparr>slot_images := slot_images tc\<rparr> = tc"
    and s': "s' = filter (\<lambda>i. \<exists>img. img_at tc i = Some img \<and> Q (unmark img)) ids" using F(4) by (auto simp: collected_def)
  note E = applied_end [OF A(1) F(5) tex_invD(3) [OF inv]]
  have q: "(\<exists>img. img_at tc i = Some img \<and> Q (unmark img)) \<longleftrightarrow> (\<exists>img. img_at tc i = Some img \<and> Q img)" for i
    using tex_invD(3) [OF inv] unmark_unpicked unfolding unpicked_def by metis
  have "img_at tc' i = img_at tc i" for i using E(2) [of i] by (cases "img_at tc i") simp_all
  then have "same_view tc tc'" using A(2) E(1) tex_invD(4) by (auto simp: same_view_def)
  then show thesis using that [of ids tc'] F(1,2,3) E(1) unfolding s' q by blast
qed

lemma visit_ok:
  assumes inv: "tex_inv tc" and r: "in_space a n"
  obtains ids tc' where "ForEachImageInRegion a n (\<lambda>image_id (ids, tc). Some (ids @ [image_id], tc)) ([], tc) = Some (ids, tc')"
    "distinct ids" "set ids = overlapping tc a n" "tex_inv tc'" "same_view tc tc'"
proof -
  have c0: "visited tc [] ([], tc)" using applied_start [OF inv] by (simp add: visited_def)
  obtain ids s' tc' where F: "ForEachImageInRegion a n (\<lambda>image_id (ids, tc). Some (ids @ [image_id], tc)) ([], tc) = Some (s', tc')" "distinct ids"
      "set ids = overlapping tc a n" "visited tc ids (s', tc')" "unpicked tc'"
    by (rule all.for_each_ok [OF tex_invD(1) [OF inv] r c0 tex_invD(3) [OF inv]])
  have A: "applied (\<lambda>img. img) tc ids (s', tc')" "tc'\<lparr>slot_images := slot_images tc\<rparr> = tc" "s' = ids" using F(4) unfolding visited_def by auto
  note E = applied_end [OF A(1) F(5) tex_invD(3) [OF inv]]
  have "img_at tc' i = img_at tc i" for i using E(2) [of i] by (cases "img_at tc i") simp_all
  then have "same_view tc tc'" using A(2) E(1) tex_invD(4) by (auto simp: same_view_def)
  then show thesis using that [of ids tc'] F(1,2,3) E(1) A(3) by simp
qed

lemma overlapping_at: "i \<in> overlapping tc a n \<longleftrightarrow> (\<exists>img. img_at tc i = Some img \<and> fl_Registered img \<and> Overlaps img a n)"
  by (simp add: overlapping_def)

lemma InvalidateMemoryFromGPU_ok:
  assumes inv: "tex_inv tc" and r: "in_space address max_size"
  obtains tc' where "InvalidateMemoryFromGPU address max_size tc = Some tc'" "tex_inv tc'"
    "\<And>i img. img_at tc i = Some img \<Longrightarrow> img_at tc' i = Some (if i \<in> overlapping tc address max_size \<and> guest_address img = address then img\<lparr>fl_GpuDirty := True\<rparr> else img)"
proof -
  let ?func = "\<lambda>image_id (u :: unit, tc). do {
       img \<leftarrow> sv_at image_id (slot_images tc);
       Some (u, if guest_address img \<noteq> address then tc else put_image image_id (img\<lparr>fl_GpuDirty := True\<rparr>) tc)
     }"
  have f: "gpu_dirty address (x\<lparr>fl_Picked := b\<rparr>) = (gpu_dirty address x)\<lparr>fl_Picked := b\<rparr>" for x b by (simp add: gpu_dirty_def)
  obtain ids s' tc' where F: "ForEachImageInRegion address max_size ?func ((), tc) = Some (s', tc')" "set ids = overlapping tc address max_size"
      "applied (gpu_dirty address) tc ids (s', tc')" "unpicked tc'"
    by (rule gpu.for_each_ok [OF tex_invD(1) [OF inv] r applied_start [OF inv] tex_invD(3) [OF inv], of address "()"])
  note E = applied_end [OF F(3,4) tex_invD(3) [OF inv] f]
  have "img_at tc' i = Some (if i \<in> overlapping tc address max_size \<and> guest_address img = address then img\<lparr>fl_GpuDirty := True\<rparr> else img)"
    if "img_at tc i = Some img" for i img using E(2) [of i] that by (simp add: F(2) gpu_dirty_def)
  moreover have "InvalidateMemoryFromGPU address max_size tc = Some tc'" using F(1) by (simp add: InvalidateMemoryFromGPU_def)
  ultimately show thesis using that E(1) by blast
qed

lemma FindImageFromRange_ok:
  assumes inv: "tex_inv tc" and r: "in_space address sz"
  obtains res tc' where "FindImageFromRange address sz ensure_valid tc = Some (res, tc')" "tex_inv tc'" "same_view tc tc'"
    "\<And>i. res = Some i \<Longrightarrow> \<exists>img. img_at tc i = Some img \<and> fl_Registered img \<and> guest_address img = address \<and> (ensure_valid \<longrightarrow> SafeToDownload img)"
    "res = None \<Longrightarrow> \<not> (\<exists>i img. img_at tc i = Some img \<and> fl_Registered img \<and> guest_address img = address \<and> guest_size img = sz \<and> (ensure_valid \<longrightarrow> SafeToDownload img))"
proof -
  define Q where "Q img \<longleftrightarrow> guest_address img = address \<and> (ensure_valid \<longrightarrow> SafeToDownload img)" for img
  have Qu: "Q (unmark img) = Q img" for img by (simp add: Q_def unmark_def SafeToDownload_def)
  have cb: "(\<lambda>image_id (image_ids, tc). do {
         img \<leftarrow> sv_at image_id (slot_images tc);
         Some (if guest_address img \<noteq> address \<or> (ensure_valid \<and> \<not> SafeToDownload img) then image_ids else image_ids @ [image_id], tc)
       }) = collect (\<lambda>img. Q (unmark img))" unfolding Qu by (intro ext) (auto simp: collect_def Q_def split: bind_splits)
  obtain ids tc' where F: "ForEachImageInRegion address sz (collect (\<lambda>img. Q (unmark img))) ([], tc) = Some (filter (\<lambda>i. \<exists>img. img_at tc i = Some img \<and> Q img) ids, tc')"
    "set ids = overlapping tc address sz" "tex_inv tc'" "same_view tc tc'" by (rule collect_ok [OF inv r])
  define L where "L = filter (\<lambda>i. \<exists>img. img_at tc i = Some img \<and> Q img) ids"
  define res where "res = (if length L = 1 then Some (last L) else find (\<lambda>i. map_option guest_size (sv_at i (slot_images tc')) = Some sz) L)"
  have run: "FindImageFromRange address sz ensure_valid tc = Some (res, tc')"
    unfolding FindImageFromRange_def cb F(1) L_def [symmetric] by (simp add: res_def)
  have L: "i \<in> set L \<longleftrightarrow> (\<exists>img. img_at tc i = Some img \<and> Q img \<and> fl_Registered img \<and> Overlaps img address sz)" for i
    by (auto simp: L_def F(2) overlapping_def)
  have in_L: "i \<in> set L" if "res = Some i" for i
    using that unfolding res_def by (auto split: if_splits simp: find_Some_iff intro!: last_in_set)
  have av: "map_option guest_size (sv_at i (slot_images tc')) = map_option guest_size (img_at tc i)" for i
    using F(4) by (simp add: same_view_def img_at_def fun_eq_iff)
  have "\<not> (img_at tc i = Some img \<and> fl_Registered img \<and> guest_address img = address \<and> guest_size img = sz \<and> (ensure_valid \<longrightarrow> SafeToDownload img))" if none: "res = None" for i img
  proof
    assume a: "img_at tc i = Some img \<and> fl_Registered img \<and> guest_address img = address \<and> guest_size img = sz \<and> (ensure_valid \<longrightarrow> SafeToDownload img)"
    have "in_space (guest_address img) (guest_size img)" using r a by simp
    then have "Overlaps img address sz" using Overlaps_eq [OF _ r] a r by (simp add: in_space_def)
    then have "i \<in> set L" using a L by (auto simp: Q_def)
    then show False using none a unfolding res_def av by (auto simp: find_None_iff split: if_splits)
  qed
  then show thesis using that [OF run F(3,4)] in_L L unfolding Q_def by metis
qed

end
