(* ===== verification/Texture_Images.thy ===== *)
theory Texture_Images
  imports Texture_Regions
begin

text \<open>
  The life of an image: registering, unregistering, using, freeing, and the work that is deferred to the scheduler.
\<close>

section \<open>Registering\<close>

lemma untracked_zero: "good_image img \<Longrightarrow> fl_Registered img \<Longrightarrow> \<not> IsTracked img \<Longrightarrow> track_addr img = 0 \<and> track_addr_end img = 0"
  by (auto simp: good_image_def track_ok_def IsTracked_def page_4096)

lemma index_okD:
  assumes "index_ok tc"
  shows "sv_ok (slot_images tc)" "pages_ok tc" "deferred_ok tc"
    "img_at tc i = Some img \<Longrightarrow> fl_Registered img \<Longrightarrow> 0 < guest_address img \<and> in_space (guest_address img) (guest_size img)"
  using assms unfolding index_ok_def by blast+

lemma register_lru:
  assumes A: "lru_ok tc A" and ins: "lru_Insert i (gc_tick tc) (lru_cache tc) = (l, lru)" and at: "img_at tc i = Some img" "\<not> fl_Registered img"
    and tc': "img_at tc' = (img_at tc)(i \<mapsto> img')" "fl_Registered img'" "lru_id img' = l" "lru_cache tc' = lru" "gc_tick tc' = gc_tick tc"
  shows "lru_ok tc' (A @ [(l, i, gc_tick tc)])"
proof -
  have a: "lru_rel (lru_cache tc) A" "aged (gc_tick tc) A" using A by (simp_all add: lru_ok_def)
  have o: "\<exists>img. img_at tc j = Some img \<and> fl_Registered img \<and> lru_id img = k" if "(k, j, t) \<in> set A" for k j t
    using that A unfolding lru_ok_def by blast
  have n: "\<exists>t. (lru_id jmg, j, t) \<in> set A" if "img_at tc j = Some jmg" "fl_Registered jmg" for j jmg
    using that A unfolding lru_ok_def by blast
  show ?thesis unfolding lru_ok_def
  proof (intro conjI ballI allI impI)
    show "lru_rel (lru_cache tc') (A @ [(l, i, gc_tick tc)])" "aged (gc_tick tc') (A @ [(l, i, gc_tick tc)])"
      using lru.insert_aged [OF a ins] tc'(4,5) by simp_all
    fix x assume x: "x \<in> set (A @ [(l, i, gc_tick tc)])"
    obtain k j t where e: "x = (k, j, t)" by (cases x) auto
    show "case x of (k, j, t) \<Rightarrow> \<exists>img. img_at tc' j = Some img \<and> fl_Registered img \<and> lru_id img = k"
    proof (cases "j = i")
      case True
      have "(k, j, t) \<notin> set A" using o [of k j t] at True by auto
      then show ?thesis using x tc'(1,2,3) by (auto simp: e)
    next
      case False
      then show ?thesis using x o [of k j t] tc'(1) by (auto simp: e)
    qed
  next
    fix j jmg assume "img_at tc' j = Some jmg \<and> fl_Registered jmg"
    then show "\<exists>t. (lru_id jmg, j, t) \<in> set (A @ [(l, i, gc_tick tc)])" using n [of j jmg] tc'(1,3) by (auto split: if_splits)
  qed
qed

lemma RegisterImage_ok:
  assumes ix: "index_ok tc" and at: "img_at tc i = Some img" "\<not> fl_Registered img" and sp: "0 < guest_address img" "in_space (guest_address img) (guest_size img)"
    and i: "i \<noteq> 0" "i \<notin> set (deferred_ops tc)"
  obtains tc' l where "RegisterImage i tc = Some tc'" "index_ok tc'" "img_at tc' = (img_at tc)(i \<mapsto> img\<lparr>fl_Registered := True, lru_id := l\<rparr>)"
    "tex_trace tc' = tex_trace tc" "deferred_ops tc' = deferred_ops tc" "gc_tick tc' = gc_tick tc"
proof -
  note D = index_okD [OF ix]
  obtain l lru where ins: "lru_Insert i (gc_tick tc) (lru_cache tc) = (l, lru)" by force
  let ?img = "img\<lparr>fl_Registered := True, lru_id := l\<rparr>" and ?ps = "pages_of (guest_address img) (guest_size img)"
  define tc2 where "tc2 = put_image i ?img (tc\<lparr>total_used_memory := add64 (total_used_memory tc) (AlignUp (guest_size img) 1024 mod 2 ^ 32), lru_cache := lru\<rparr>)"
  have tbl: "mlpt_ok TexTraits (page_table tc)" "\<And>p. p < 2 ^ 20 \<Longrightarrow> lists_images tc p" using D(2) by (auto simp: pages_ok_def)
  obtain table where T: "for_pages (\<lambda>page. mlpt_modify TexTraits [] page (\<lambda>ids. ids @ [i])) ?ps (page_table tc) = Some table" "mlpt_ok TexTraits table"
    "\<And>q. q < 2 ^ 20 \<Longrightarrow> mlpt_entry TexTraits [] table q = (if q \<in> set ?ps then mlpt_entry TexTraits [] (page_table tc) q @ [i] else mlpt_entry TexTraits [] (page_table tc) q)"
    using pt.change_pages [OF tbl(1), where dflt = "[]" and ps = ?ps and P = "\<lambda>_. True" and f = "\<lambda>ids. ids @ [i]"
        and step = "\<lambda>page. mlpt_modify TexTraits [] page (\<lambda>ids. ids @ [i])"]
      pages_of_in_space(2) [OF sp(2)] by auto
  define tc' where "tc' = tc2\<lparr>page_table := table\<rparr>"
  have run: "RegisterImage i tc = Some tc'"
    using at T(1) ins by (simp add: RegisterImage_def img_at_def [symmetric] tc'_def tc2_def put_image_def)
  have put: "slot_images tc' = sv_put i ?img (slot_images tc)" by (simp add: tc'_def tc2_def put_image_def)
  have ok': "sv_ok (slot_images tc')" and v: "img_at tc' = (img_at tc)(i \<mapsto> ?img)"
    using sv.put_law [of "slot_images tc" i img ?img] D(1) at(1) by (simp_all add: put img_at_def [abs_def])
  have f: "page_table tc' = table" "lru_cache tc' = lru" "gc_tick tc' = gc_tick tc" "deferred_ops tc' = deferred_ops tc" "tex_trace tc' = tex_trace tc"
    by (simp_all add: tc'_def tc2_def put_image_def)
  obtain A where A: "lru_ok tc A" using ix unfolding index_ok_def by blast
  have "lru_ok tc' (A @ [(l, i, gc_tick tc)])" by (rule register_lru [OF A ins at v]) (simp_all add: f)
  moreover have "lists_images tc' p" if p: "p < 2 ^ 20" for p
  proof -
    have "i \<notin> set (mlpt_entry TexTraits [] (page_table tc) p)" using tbl(2) [OF p] at by (auto simp: lists_images_def Let_def)
    then show ?thesis using tbl(2) [OF p] T(3) [OF p] at by (auto simp: lists_images_def Let_def f(1) v)
  qed
  moreover have "deferred_ok tc'" using D(3) i unfolding deferred_ok_def f(4) v by auto
  ultimately have "index_ok tc'" using ok' T(2) D(4) sp unfolding index_ok_def pages_ok_def f(1) v by (auto split: if_splits)
  then show thesis using that run v f by blast
qed

section \<open>Unregistering and freeing\<close>

lemma unregister_lru:
  assumes A: "lru_ok tc A" and at: "img_at tc i = Some img" "fl_Registered img"
    and tc': "img_at tc' = (img_at tc)(i \<mapsto> img')" "\<not> fl_Registered img'" "gc_tick tc' = gc_tick tc"
    and free: "lru_rel (lru_cache tc') (filter (\<lambda>e. fst e \<noteq> lru_id img) A)" "aged (gc_tick tc) (filter (\<lambda>e. fst e \<noteq> lru_id img) A)"
  shows "lru_ok tc' (filter (\<lambda>e. fst e \<noteq> lru_id img) A)"
proof -
  have o: "\<exists>img. img_at tc j = Some img \<and> fl_Registered img \<and> lru_id img = k" if "(k, j, t) \<in> set A" for k j t
    using that A unfolding lru_ok_def by blast
  have n: "\<exists>t. (lru_id jmg, j, t) \<in> set A" if "img_at tc j = Some jmg" "fl_Registered jmg" for j jmg
    using that A unfolding lru_ok_def by blast
  have d: "distinct (map fst A)" using A lru.distinct by (auto simp: lru_ok_def)
  show ?thesis unfolding lru_ok_def
  proof (intro conjI ballI allI impI)
    show "lru_rel (lru_cache tc') (filter (\<lambda>e. fst e \<noteq> lru_id img) A)" "aged (gc_tick tc') (filter (\<lambda>e. fst e \<noteq> lru_id img) A)"
      using free tc'(3) by simp_all
    fix x assume x: "x \<in> set (filter (\<lambda>e. fst e \<noteq> lru_id img) A)"
    obtain k j t where e: "x = (k, j, t)" by (cases x) auto
    then show "case x of (k, j, t) \<Rightarrow> \<exists>img. img_at tc' j = Some img \<and> fl_Registered img \<and> lru_id img = k"
      using x o [of k j t] at tc'(1) by (auto simp: e)
  next
    fix j jmg assume "img_at tc' j = Some jmg \<and> fl_Registered jmg"
    then have j: "j \<noteq> i" "img_at tc j = Some jmg" "fl_Registered jmg" using tc'(1,2) by (auto split: if_splits)
    obtain t where t: "(lru_id jmg, j, t) \<in> set A" using n [OF j(2,3)] by blast
    obtain u where u: "(lru_id img, i, u) \<in> set A" using n [OF at] by blast
    have "lru_id jmg \<noteq> lru_id img" using d t u j(1) eq_key_imp_eq_value [OF d, of "lru_id img"] by auto
    then show "\<exists>t. (lru_id jmg, j, t) \<in> set (filter (\<lambda>e. fst e \<noteq> lru_id img) A)" using t by auto
  qed
qed

lemma UnregisterImage_ok:
  assumes ix: "index_ok tc" "i \<noteq> 0" and at: "img_at tc i = Some img" "fl_Registered img"
  obtains tc' where "UnregisterImage i tc = Some tc'" "index_ok tc'" "img_at tc' = (img_at tc)(i \<mapsto> img\<lparr>fl_Registered := False\<rparr>)"
    "tex_trace tc' = tex_trace tc" "deferred_ops tc' = deferred_ops tc" "gc_tick tc' = gc_tick tc"
    "\<And>A. lru_ok tc A \<Longrightarrow> lru_ok tc' (filter (\<lambda>e. fst e \<noteq> lru_id img) A)" "surface_metas tc' = surface_metas tc"
    "critical_gc_memory tc' = critical_gc_memory tc" "pressure_gc_memory tc' = pressure_gc_memory tc"
proof -
  note D = index_okD [OF ix(1)]
  note sp = D(4) [OF at, THEN conjunct2]
  let ?img = "img\<lparr>fl_Registered := False\<rparr>" and ?ps = "pages_of (guest_address img) (guest_size img)"
  obtain A where A: "lru_ok tc A" using ix unfolding index_ok_def by blast
  obtain t where t: "(lru_id img, i, t) \<in> set A" using A at unfolding lru_ok_def by blast
  obtain lru where free: "lru_Free (lru_id img) (lru_cache tc) = Some lru" "lru_rel lru (filter (\<lambda>e. fst e \<noteq> lru_id img) A)"
    "aged (gc_tick tc) (filter (\<lambda>e. fst e \<noteq> lru_id img) A)"
    using lru.free_aged [OF _ _ t] A unfolding lru_ok_def by blast
  have tbl: "mlpt_ok TexTraits (page_table tc)" "\<And>p. p < 2 ^ 20 \<Longrightarrow> lists_images tc p" using D(2) by (auto simp: pages_ok_def)
  have on: "i \<in> set (mlpt_entry TexTraits [] (page_table tc) p)" if "p \<in> set ?ps" for p
    using tbl(2) [OF pages_of_in_space(2) [OF sp that]] at that by (auto simp: lists_images_def Let_def)
  have step: "unregister_page i p s = mlpt_modify TexTraits [] p (remove1 i) s"
    if "mlpt_ok TexTraits s" "p \<in> set ?ps" "i \<in> set (mlpt_entry TexTraits [] s p)" for p s
  proof -
    have "mlpt_find TexTraits p s = Some (Some (mlpt_entry TexTraits [] s p))"
      using that pages_of_in_space(2) [OF sp that(2)] by (intro pt.found) auto
    then show ?thesis using that(3) by (simp add: unregister_page_def)
  qed
  obtain table where T: "for_pages (unregister_page i) ?ps (page_table tc) = Some table" "mlpt_ok TexTraits table"
    "\<And>q. q < 2 ^ 20 \<Longrightarrow> mlpt_entry TexTraits [] table q = (if q \<in> set ?ps then remove1 i (mlpt_entry TexTraits [] (page_table tc) q) else mlpt_entry TexTraits [] (page_table tc) q)"
    using pt.change_pages [OF tbl(1), where dflt = "[]" and ps = ?ps and P = "\<lambda>e. i \<in> set e" and f = "remove1 i" and step = "unregister_page i"]
      pages_of_in_space(2) [OF sp] step on by auto
  define tc' where "tc' = (put_image i ?img tc)\<lparr>lru_cache := lru, total_used_memory := sub64 (total_used_memory tc) (AlignUp (guest_size img) 1024 mod 2 ^ 32), page_table := table\<rparr>"
  have run: "UnregisterImage i tc = Some tc'"
    using at T(1) free(1) by (simp add: UnregisterImage_def img_at_def [symmetric] tc'_def put_image_def)
  have put: "slot_images tc' = sv_put i ?img (slot_images tc)" by (simp add: tc'_def put_image_def)
  have ok': "sv_ok (slot_images tc')" and v: "img_at tc' = (img_at tc)(i \<mapsto> ?img)"
    using sv.put_law [of "slot_images tc" i img ?img] D(1) at(1) by (simp_all add: put img_at_def [abs_def])
  have f: "page_table tc' = table" "lru_cache tc' = lru" "gc_tick tc' = gc_tick tc" "deferred_ops tc' = deferred_ops tc" "tex_trace tc' = tex_trace tc"
    "surface_metas tc' = surface_metas tc" "critical_gc_memory tc' = critical_gc_memory tc" "pressure_gc_memory tc' = pressure_gc_memory tc"
    by (simp_all add: tc'_def)
  have L: "lru_ok tc' (filter (\<lambda>e. fst e \<noteq> lru_id img) B)" if B: "lru_ok tc B" for B
  proof -
    have "B = A" using A B lru_rel_unique unfolding lru_ok_def by blast
    then show ?thesis using unregister_lru [OF A at v] free f by simp
  qed
  have "lists_images tc' p" if p: "p < 2 ^ 20" for p
  proof -
    have "i \<in> set (mlpt_entry TexTraits [] (page_table tc) p) \<longleftrightarrow> p \<in> set ?ps" using tbl(2) [OF p] at by (auto simp: lists_images_def Let_def)
    then show ?thesis using tbl(2) [OF p] T(3) [OF p] at by (auto simp: lists_images_def Let_def f(1) v)
  qed
  moreover have "deferred_ok tc'" using D(3) at unfolding deferred_ok_def f(4) v by auto
  ultimately have "index_ok tc'" using ok' T(2) D(4) L [OF A] unfolding index_ok_def pages_ok_def f(1) v by (auto split: if_splits)
  then show thesis using that [OF run _ v f(5,4,3) L f(6,7,8)] by blast
qed

lemma track_inv_new:
  assumes "track_inv tc" "img_at tc' = (img_at tc)(i \<mapsto> img)" "track_addr img = 0" "track_addr_end img = 0" "\<And>p. \<not> (\<exists>x. img_at tc i = Some x \<and> img_watches x p)"
    "tex_trace tc' = tex_trace tc"
  shows "track_inv tc'"
proof -
  have "\<not> img_watches img p" for p using assms(3) by (simp add: img_watches_def IsTracked_def)
  then have "{j. \<exists>x. img_at tc' j = Some x \<and> img_watches x p} = {j. \<exists>x. img_at tc j = Some x \<and> img_watches x p}" for p
    using assms(5) [of p] unfolding assms(2) by auto
  then show ?thesis using assms(1,3,4) unfolding track_inv_def assms(2,6) by (auto intro: track_okI)
qed

lemma FreeImage_ok:
  assumes inv: "tex_inv tc" and at: "img_at tc i = Some img" "fl_Registered img"
  obtains tc' where "FreeImage i tc = Some tc'" "tex_inv tc'" "img_at tc' = (img_at tc)(i \<mapsto> (untracked img)\<lparr>fl_Registered := False\<rparr>)"
    "deferred_ops tc' = deferred_ops tc @ [i]" "gc_tick tc' = gc_tick tc" "tex_trace tc' = tex_trace tc @ unwatch img"
    "\<And>A. lru_ok tc A \<Longrightarrow> lru_ok tc' (filter (\<lambda>e. fst e \<noteq> lru_id img) A)"
    "critical_gc_memory tc' = critical_gc_memory tc" "pressure_gc_memory tc' = pressure_gc_memory tc"
proof -
  note g = tex_invD(5) [OF inv at(1)]
  let ?tc1 = "do_image i (untracked img) (unwatch img) tc"
  have i0: "i \<noteq> 0" using tex_invD(1) [OF inv] at unfolding index_ok_def deferred_ok_def by (metis option.inject)
  have inv1: "tex_inv ?tc1" by (rule tex_inv_step [OF inv at(1) untracked_step(1) [OF g]])
  have v1: "img_at ?tc1 = (img_at tc)(i \<mapsto> untracked img)" using img_at_put(1) [OF tex_invD(4) [OF inv] at(1)] by auto
  have at1: "img_at ?tc1 i = Some (untracked img)" "fl_Registered (untracked img)" using at v1 by simp_all
  have S: "same_index tc ?tc1" by (rule same_index_do [OF same_index_refl [OF tex_invD(4) [OF inv]] at(1) untracked_step(1) [OF g]])
  obtain tc2 where U: "UnregisterImage i ?tc1 = Some tc2" "index_ok tc2" "img_at tc2 = (img_at ?tc1)(i \<mapsto> (untracked img)\<lparr>fl_Registered := False\<rparr>)"
    "tex_trace tc2 = tex_trace ?tc1" "deferred_ops tc2 = deferred_ops ?tc1" "gc_tick tc2 = gc_tick ?tc1"
    "\<And>A. lru_ok ?tc1 A \<Longrightarrow> lru_ok tc2 (filter (\<lambda>e. fst e \<noteq> lru_id (untracked img)) A)"
    "critical_gc_memory tc2 = critical_gc_memory ?tc1" "pressure_gc_memory tc2 = pressure_gc_memory ?tc1"
    by (rule UnregisterImage_ok [OF tex_invD(1) [OF inv1] i0 at1]) blast
  let ?img = "(untracked img)\<lparr>fl_Registered := False\<rparr>"
  have v2: "img_at tc2 = (img_at tc)(i \<mapsto> ?img)" using U(3) v1 by simp
  have nt: "\<not> IsTracked ?img" using untracked_simps(9) [of img] by (simp add: IsTracked_def)
  have z: "track_addr ?img = 0 \<and> track_addr_end ?img = 0" using untracked_zero [OF tex_invD(5) [OF inv1 at1(1)]] at(2) by simp
  define tc3 where "tc3 = tc2\<lparr>surface_metas := erase_meta (htile_addr ?img) (erase_meta (fmask_addr ?img) (erase_meta (cmask_addr ?img) (surface_metas tc2))),
      deferred_ops := deferred_ops tc2 @ [i]\<rparr>"
  have at2: "sv_at i (slot_images tc2) = Some ?img" using v2 by (simp add: img_at_def fun_eq_iff)
  have run: "FreeImage i tc = Some tc3"
    using UntrackImage_ok [OF at(1) g] U(1) nt at2 unfolding FreeImage_def by (simp add: DeleteImage_def tc3_def)
  have v3: "img_at tc3 = img_at tc2" by (simp add: tc3_def img_at_def [abs_def])
  have f: "page_table tc3 = page_table tc2" "lru_cache tc3 = lru_cache tc2" "gc_tick tc3 = gc_tick tc2" "slot_images tc3 = slot_images tc2"
    "deferred_ops tc3 = deferred_ops tc @ [i]" "tex_trace tc3 = tex_trace tc @ unwatch img" "gc_tick tc2 = gc_tick tc"
    using U(4,5,6) by (simp_all add: tc3_def)
  have L: "lru_ok tc3 A \<longleftrightarrow> lru_ok tc2 A" for A unfolding lru_ok_def v3 f ..
  have "deferred_ok tc" using tex_invD(1) [OF inv] unfolding index_ok_def by blast
  then have "deferred_ok tc3" using at i0 unfolding deferred_ok_def f(5) v3 v2 by auto
  then have ix: "index_ok tc3" using U(2) unfolding index_ok_def pages_ok_def lists_images_def L v3 f(1,4) by blast
  have v13: "img_at tc3 = (img_at ?tc1)(i \<mapsto> ?img)" using v3 v2 v1 by simp
  have "track_inv tc3" by (rule track_inv_new [OF tex_invD(2) [OF inv1] v13]) (use z f(6) v1 in simp_all)
  moreover have "unpicked tc3" using tex_invD(3) [OF inv] at(1) unfolding unpicked_def v3 v2 by auto
  ultimately have inv3: "tex_inv tc3" using ix by (simp add: tex_inv_def)
  have L3: "lru_ok tc3 (filter (\<lambda>e. fst e \<noteq> lru_id img) A)" if "lru_ok tc A" for A
  proof -
    from U(7) [OF lru_ok_same [OF that S]] show ?thesis by (simp add: L)
  qed
  show thesis by (rule that [OF run inv3 _ f(5) _ f(6) L3]) (use U(8,9) f v3 v2 in \<open>simp_all add: tc3_def\<close>)
qed

section \<open>Creating, touching, freeing many, and the deferred work\<close>

lemma GetImage_ok:
  assumes inv: "tex_inv tc" and at: "img_at tc i = Some img" "fl_Registered img"
  obtains tc' where "GetImage i tc = Some tc'" "tex_inv tc'" "img_at tc' = img_at tc" "tex_trace tc' = tex_trace tc" "deferred_ops tc' = deferred_ops tc" "gc_tick tc' = gc_tick tc"
    "\<exists>A. lru_ok tc' A \<and> (lru_id img, i, gc_tick tc) \<in> set A"
proof -
  obtain A where A: "lru_ok tc A" using tex_invD(1) [OF inv] unfolding index_ok_def by blast
  have a: "lru_rel (lru_cache tc) A" "aged (gc_tick tc) A" using A by (simp_all add: lru_ok_def)
  have o: "\<exists>img. img_at tc j = Some img \<and> fl_Registered img \<and> lru_id img = k" if "(k, j, t) \<in> set A" for k j t
    using that A unfolding lru_ok_def by blast
  have n: "\<exists>t. (lru_id jmg, j, t) \<in> set A" if "img_at tc j = Some jmg" "fl_Registered jmg" for j jmg
    using that A unfolding lru_ok_def by blast
  obtain t where t: "(lru_id img, i, t) \<in> set A" using n [OF at] by blast
  obtain lru where touch: "lru_Touch (lru_id img) (gc_tick tc) (lru_cache tc) = Some lru"
    "lru_rel lru (if gc_tick tc \<le> t then A else filter (\<lambda>e. fst e \<noteq> lru_id img) A @ [(lru_id img, i, gc_tick tc)])"
    using lru.touch_rel [OF a(1) t] by blast
  let ?B = "if gc_tick tc \<le> t then A else filter (\<lambda>e. fst e \<noteq> lru_id img) A @ [(lru_id img, i, gc_tick tc)]"
  have tt: "t \<le> gc_tick tc" using a(2) t by (auto simp: aged_def)
  have aged: "aged (gc_tick tc) ?B"
    using a(2) lru.filter_aged [OF a(2), of "\<lambda>e. fst e \<noteq> lru_id img"] by (auto simp: aged_def sorted_append)
  have new: "(lru_id img, i, gc_tick tc) \<in> set ?B" using t tt by auto
  define tc' where "tc' = tc\<lparr>lru_cache := lru\<rparr>"
  have run: "GetImage i tc = Some tc'" using at(1) touch(1) by (simp add: GetImage_def TouchImage_def img_at_def [symmetric] tc'_def)
  have v: "img_at tc' = img_at tc" by (simp add: tc'_def img_at_def [abs_def])
  have "lru_ok tc' ?B" unfolding lru_ok_def v
  proof (intro conjI ballI allI impI)
    show "lru_rel (lru_cache tc') ?B" "aged (gc_tick tc') ?B" using touch(2) aged by (simp_all add: tc'_def)
    fix x assume x: "x \<in> set ?B"
    obtain k j u where e: "x = (k, j, u)" by (cases x) auto
    show "case x of (k, j, t) \<Rightarrow> \<exists>img. img_at tc j = Some img \<and> fl_Registered img \<and> lru_id img = k"
      using x o [of k j u] at by (auto simp: e split: if_splits)
  next
    fix j jmg assume j: "img_at tc j = Some jmg \<and> fl_Registered jmg"
    then obtain u where u: "(lru_id jmg, j, u) \<in> set A" using n by blast
    show "\<exists>t. (lru_id jmg, j, t) \<in> set ?B"
    proof (cases "j = i")
      case True
      then show ?thesis using new j at by auto
    next
      case False
      have "lru_id jmg \<noteq> lru_id img" using False t u eq_key_imp_eq_value [OF lru.distinct [OF a(1)], of "lru_id img"] by auto
      then show ?thesis using u by auto
    qed
  qed
  then have "index_ok tc'" "\<exists>A. lru_ok tc' A \<and> (lru_id img, i, gc_tick tc) \<in> set A"
    using tex_invD(1) [OF inv] new unfolding index_ok_def pages_ok_def lists_images_def deferred_ok_def v by (auto simp: tc'_def)
  moreover have "track_inv tc'" "unpicked tc'" using tex_invD(2,3) [OF inv] unfolding track_inv_def unpicked_def v by (auto simp: tc'_def)
  ultimately show thesis using that [OF run _ v] by (simp add: tex_inv_def tc'_def)
qed

text \<open>Images that are not registered are no part of the index.\<close>

lemma lru_frame:
  assumes "\<And>j jmg. (img_at tc' j = Some jmg \<and> fl_Registered jmg) = (img_at tc j = Some jmg \<and> fl_Registered jmg)"
    "lru_cache tc' = lru_cache tc" "gc_tick tc' = gc_tick tc"
  shows "lru_ok tc' A = lru_ok tc A"
proof -
  have "(\<exists>img. img_at tc' i = Some img \<and> fl_Registered img \<and> lru_id img = l) = (\<exists>img. img_at tc i = Some img \<and> fl_Registered img \<and> lru_id img = l)" for i l
    using assms(1) by blast
  then show ?thesis unfolding lru_ok_def assms(1) by (simp add: assms(2,3))
qed

lemma pages_frame:
  assumes "\<And>j jmg. (img_at tc' j = Some jmg \<and> fl_Registered jmg) = (img_at tc j = Some jmg \<and> fl_Registered jmg)" "page_table tc' = page_table tc"
  shows "pages_ok tc' = pages_ok tc"
proof -
  have "(\<exists>img. img_at tc' j = Some img \<and> fl_Registered img \<and> Q img) = (\<exists>img. img_at tc j = Some img \<and> fl_Registered img \<and> Q img)" for j Q
    using assms(1) by blast
  then show ?thesis by (simp add: pages_ok_def lists_images_def assms(2))
qed

lemma create_image_ok:
  assumes inv: "tex_inv tc" and room: "sv_room (slot_images tc)" and sp: "0 < guest_address info" "in_space (guest_address info) (guest_size info)"
  obtains i tc' l where "create_image info tc = Some (i, tc')" "tex_inv tc'" "img_at tc i = None"
    "img_at tc' = (img_at tc)(i \<mapsto> (new_image info)\<lparr>fl_Registered := True, lru_id := l\<rparr>)" "deferred_ops tc' = deferred_ops tc" "gc_tick tc' = gc_tick tc"
proof -
  let ?info = "new_image info"
  note D = index_okD [OF tex_invD(1) [OF inv]]
  obtain i v where ins: "sv_insert ?info (slot_images tc) = Some (i, v)" "sv_at i (slot_images tc) = None" "(\<lambda>j. sv_at j v) = (\<lambda>j. sv_at j (slot_images tc))(i \<mapsto> ?info)" "sv_ok v"
    using sv.ins_law [OF D(1) room] by blast
  define tc1 where "tc1 = tc\<lparr>slot_images := v\<rparr>"
  have none: "img_at tc i = None" using ins(2) by (simp add: img_at_def)
  have v1: "img_at tc1 = (img_at tc)(i \<mapsto> ?info)" using ins(3) by (simp add: tc1_def img_at_def [abs_def])
  have nd: "i \<noteq> 0" "i \<notin> set (deferred_ops tc)" using D(3) none unfolding deferred_ok_def by (metis option.distinct(1))+
  have nr: "\<not> fl_Registered ?info" by (simp add: new_image_def ImageInfo.defs)
  have same: "(img_at tc1 j = Some jmg \<and> fl_Registered jmg) = (img_at tc j = Some jmg \<and> fl_Registered jmg)" for j jmg
    using none nr unfolding v1 by auto
  have L: "lru_ok tc1 A" if "lru_ok tc A" for A
    using that lru_frame [OF same] by (simp add: tc1_def)
  have "pages_ok tc1" using D(2) pages_frame [OF same] by (simp add: tc1_def)
  moreover have "deferred_ok tc1" using D(3) nd none unfolding deferred_ok_def v1 by (auto simp: tc1_def)
  moreover have "\<exists>A. lru_ok tc1 A" using L tex_invD(1) [OF inv] unfolding index_ok_def by blast
  moreover have "sv_ok (slot_images tc1)" using ins(4) by (simp add: tc1_def)
  ultimately have ix: "index_ok tc1" using D(4) nr unfolding index_ok_def v1 by (auto split: if_splits)
  have at1: "img_at tc1 i = Some ?info" "i \<notin> set (deferred_ops tc1)" using v1 nd(2) by (simp_all add: tc1_def)
  have sp1: "0 < guest_address ?info" "in_space (guest_address ?info) (guest_size ?info)" using sp by (simp_all add: new_image_def ImageInfo.defs)
  obtain tc2 l where R: "RegisterImage i tc1 = Some tc2" "index_ok tc2" "img_at tc2 = (img_at tc1)(i \<mapsto> ?info\<lparr>fl_Registered := True, lru_id := l\<rparr>)"
    "tex_trace tc2 = tex_trace tc1" "deferred_ops tc2 = deferred_ops tc1" "gc_tick tc2 = gc_tick tc1"
    by (rule RegisterImage_ok [OF ix at1(1) nr sp1 nd(1) at1(2)])
  let ?img = "?info\<lparr>fl_Registered := True, lru_id := l\<rparr>"
  have v2: "img_at tc2 = (img_at tc)(i \<mapsto> ?img)" using R(3) v1 by simp
  have "track_inv tc2" by (rule track_inv_new [OF tex_invD(2) [OF inv] v2]) (use R(4) none in \<open>simp_all add: new_image_def ImageInfo.defs tc1_def\<close>)
  moreover have "unpicked tc2" using tex_invD(3) [OF inv] unfolding unpicked_def v2 by (auto simp: new_image_def ImageInfo.defs)
  ultimately have inv2: "tex_inv tc2" using R(2) by (simp add: tex_inv_def)
  obtain tc3 where G: "GetImage i tc2 = Some tc3" "tex_inv tc3" "img_at tc3 = img_at tc2" "deferred_ops tc3 = deferred_ops tc2" "gc_tick tc3 = gc_tick tc2"
    by (rule GetImage_ok [OF inv2, of i ?img]) (use v2 in \<open>auto simp: new_image_def ImageInfo.defs\<close>)
  have "create_image info tc = Some (i, tc3)" using ins(1) R(1) G(1) by (simp add: create_image_def tc1_def)
  then show thesis using that [OF _ G(2) none, of l] G(3,4,5) v2 R(5,6) by (simp add: tc1_def)
qed

lemma run_deferred_ok:
  assumes inv: "tex_inv tc"
  obtains tc' where "run_deferred tc = Some tc'" "tex_inv tc'" "\<And>j. registered tc' j = registered tc j" "gc_tick tc' = gc_tick tc"
    "\<And>j. img_at tc' j = (if deferred_ops tc \<noteq> [] \<and> j = hd (deferred_ops tc) then None else img_at tc j)"
proof (cases "deferred_ops tc")
  case Nil
  then show thesis using that [of tc] inv by (simp add: run_deferred_def)
next
  case (Cons i rest)
  note D = index_okD [OF tex_invD(1) [OF inv]]
  obtain img where img: "img_at tc i = Some img" "\<not> fl_Registered img" using D(3) Cons by (auto simp: deferred_ok_def)
  obtain v where v: "sv_erase i (slot_images tc) = Some v" "(\<lambda>j. sv_at j v) = (\<lambda>j. sv_at j (slot_images tc))(i := None)" "sv_ok v"
    using sv.del_law [OF D(1)] img(1) unfolding img_at_def by blast
  define tc' where "tc' = tc\<lparr>slot_images := v, deferred_ops := rest\<rparr>"
  have v1: "img_at tc' = (img_at tc)(i := None)" using v(2) by (simp add: tc'_def img_at_def [abs_def])
  have same: "(img_at tc' j = Some jmg \<and> fl_Registered jmg) = (img_at tc j = Some jmg \<and> fl_Registered jmg)" for j jmg
    using img unfolding v1 by auto
  have L: "lru_ok tc' A" if "lru_ok tc A" for A
    using that lru_frame [OF same] by (simp add: tc'_def)
  have "pages_ok tc'" using D(2) pages_frame [OF same] by (simp add: tc'_def)
  moreover have "deferred_ok tc'" using D(3) Cons unfolding deferred_ok_def v1 by (auto simp: tc'_def)
  moreover have "\<exists>A. lru_ok tc' A" using L tex_invD(1) [OF inv] unfolding index_ok_def by blast
  ultimately have ix: "index_ok tc'" using D(4) v(3) unfolding index_ok_def v1 by (auto simp: tc'_def split: if_splits)
  have "\<not> IsTracked img" using good_imageD(1) [OF tex_invD(5) [OF inv img(1)]] img(2) by blast
  then have "\<not> img_watches img p" for p by (simp add: img_watches_def)
  then have "{j. \<exists>x. img_at tc' j = Some x \<and> img_watches x p} = {j. \<exists>x. img_at tc j = Some x \<and> img_watches x p}" for p
    using img(1) unfolding v1 by auto
  then have "track_inv tc'" using tex_invD(2) [OF inv] unfolding track_inv_def by (auto simp: v1) (simp add: tc'_def)
  moreover have "unpicked tc'" using tex_invD(3) [OF inv] unfolding unpicked_def v1 by auto
  ultimately have "tex_inv tc'" using ix by (simp add: tex_inv_def)
  moreover have "run_deferred tc = Some tc'" using Cons v(1) by (simp add: run_deferred_def tc'_def)
  moreover have "registered tc' j = registered tc j" for j using img by (simp add: registered_def v1)
  ultimately show thesis using that [of tc'] Cons v1 by (simp add: tc'_def)
qed

lemma free_images_ok:
  assumes "tex_inv tc" "distinct ids" "\<And>i. i \<in> set ids \<Longrightarrow> registered tc i"
  shows "\<exists>tc'. free_images ids tc = Some tc' \<and> tex_inv tc' \<and> deferred_ops tc' = deferred_ops tc @ ids \<and> gc_tick tc' = gc_tick tc
    \<and> (\<forall>j. img_at tc' j = (if j \<in> set ids then map_option (\<lambda>img. (untracked img)\<lparr>fl_Registered := False\<rparr>) (img_at tc j) else img_at tc j))"
  using assms
proof (induction ids arbitrary: tc)
  case (Cons i ids)
  obtain img where img: "img_at tc i = Some img" "fl_Registered img" using Cons.prems(3) [of i] by (auto simp: registered_def split: option.splits)
  obtain tc1 where F: "FreeImage i tc = Some tc1" "tex_inv tc1" "img_at tc1 = (img_at tc)(i \<mapsto> (untracked img)\<lparr>fl_Registered := False\<rparr>)"
    "deferred_ops tc1 = deferred_ops tc @ [i]" "gc_tick tc1 = gc_tick tc" by (rule FreeImage_ok [OF Cons.prems(1) img])
  have "registered tc1 j" if "j \<in> set ids" for j using that Cons.prems(2,3) by (auto simp: registered_def F(3))
  then obtain tc' where "free_images ids tc1 = Some tc'" "tex_inv tc'" "deferred_ops tc' = deferred_ops tc1 @ ids" "gc_tick tc' = gc_tick tc1"
    "\<forall>j. img_at tc' j = (if j \<in> set ids then map_option (\<lambda>img. (untracked img)\<lparr>fl_Registered := False\<rparr>) (img_at tc1 j) else img_at tc1 j)"
    using Cons.IH [OF F(2)] Cons.prems(2) by auto
  moreover have "i \<notin> set ids" using Cons.prems(2) by simp
  ultimately show ?case using F img by auto
qed simp

lemma tex_UnmapMemory_ok:
  assumes inv: "tex_inv tc" and r: "in_space cpu_addr sz"
  obtains ids tc' where "tex_UnmapMemory cpu_addr sz tc = Some tc'" "tex_inv tc'" "distinct ids" "set ids = overlapping tc cpu_addr sz"
    "deferred_ops tc' = deferred_ops tc @ ids" "gc_tick tc' = gc_tick tc"
    "\<And>j. img_at tc' j = (if j \<in> set ids then map_option (\<lambda>img. (untracked img)\<lparr>fl_Registered := False\<rparr>) (img_at tc j) else img_at tc j)"
proof -
  obtain ids tc1 where C: "ForEachImageInRegion cpu_addr sz (\<lambda>image_id (ids, tc). Some (ids @ [image_id], tc)) ([], tc) = Some (ids, tc1)"
    "distinct ids" "set ids = overlapping tc cpu_addr sz" "tex_inv tc1" "same_view tc tc1" by (rule visit_ok [OF inv r])
  have v: "img_at tc1 = img_at tc" and d: "tc1\<lparr>slot_images := slot_images tc\<rparr> = tc" using C(5) by (simp_all add: same_view_def)
  have f: "deferred_ops tc1 = deferred_ops tc" "gc_tick tc1 = gc_tick tc" by (metis d TextureCache.ext_inject TextureCache.surjective TextureCache.update_convs(1))+
  have "registered tc1 i" if "i \<in> set ids" for i using that C(3) by (auto simp: registered_def v overlapping_def)
  then obtain tc' where "free_images ids tc1 = Some tc'" "tex_inv tc'" "deferred_ops tc' = deferred_ops tc1 @ ids" "gc_tick tc' = gc_tick tc1"
    "\<forall>j. img_at tc' j = (if j \<in> set ids then map_option (\<lambda>img. (untracked img)\<lparr>fl_Registered := False\<rparr>) (img_at tc1 j) else img_at tc1 j)"
    using free_images_ok [OF C(4,2)] by blast
  then show thesis using that [of tc' ids] C(1,2,3) f v by (simp add: tex_UnmapMemory_def)
qed

end
