(* ===== verification/Texture_Correct.thy ===== *)
theory Texture_Correct
  imports Texture_Images Transition_System
begin

text \<open>
  The garbage collector, the states that the texture cache reaches, and the properties.
\<close>

section \<open>Garbage collection\<close>

lemma tex_inv_download:
  assumes "tex_inv tc"
  shows "tex_inv (tex_emit (DownloadMemory i) tc)" "lru_ok tc A \<Longrightarrow> lru_ok (tex_emit (DownloadMemory i) tc) A"
proof -
  let ?tc = "tex_emit (DownloadMemory i) tc"
  have S: "same_index tc ?tc" using same_index_refl [OF tex_invD(4) [OF assms]] by simp
  moreover have "track_inv ?tc" using tex_invD(2) [OF assms] by (simp add: track_inv_def watch_change_def)
  moreover have "unpicked ?tc" using tex_invD(3) [OF assms] by (simp add: unpicked_def)
  ultimately show "tex_inv ?tc" using index_same [OF tex_invD(1) [OF assms]] by (simp add: tex_inv_def)
  show "lru_ok tc A \<Longrightarrow> lru_ok ?tc A" by (rule lru_ok_same [OF _ S])
qed

text \<open>What a collection that started in \<open>tc0\<close> has done when it has freed \<open>ids\<close>: nothing else changed, and the images that are safe to download were downloaded.\<close>

definition collected_from :: "TextureCache \<Rightarrow> u32 list \<Rightarrow> TextureCache \<Rightarrow> bool" where
  "collected_from tc0 ids tc \<longleftrightarrow> tex_inv tc \<and> gc_tick tc = gc_tick tc0 \<and> deferred_ops tc = deferred_ops tc0 @ ids
     \<and> (\<exists>es. tex_trace tc = tex_trace tc0 @ es)
     \<and> (\<forall>i \<in> set ids. \<exists>img. img_at tc0 i = Some img \<and> fl_Registered img \<and> (SafeToDownload img \<longrightarrow> DownloadMemory i \<in> set (tex_trace tc)))
     \<and> (\<forall>j. img_at tc j = (if j \<in> set ids then map_option (\<lambda>img. (untracked img)\<lparr>fl_Registered := False\<rparr>) (img_at tc0 j) else img_at tc0 j))
     \<and> critical_gc_memory tc = critical_gc_memory tc0 \<and> pressure_gc_memory tc = pressure_gc_memory tc0"

lemma collected_from_refl: "tex_inv tc \<Longrightarrow> collected_from tc [] tc"
  by (simp add: collected_from_def)

lemma collect_one:
  assumes c: "collected_from tc0 ids tc" and at: "img_at tc i = Some img" "fl_Registered img" and dl: "dl = SafeToDownload img"
  obtains tc' where "FreeImage i (if dl then tex_emit (DownloadMemory i) tc else tc) = Some tc'" "collected_from tc0 (ids @ [i]) tc'"
    "\<And>A. lru_ok tc A \<Longrightarrow> lru_ok tc' (filter (\<lambda>e. fst e \<noteq> lru_id img) A)"
proof -
  let ?tc = "if dl then tex_emit (DownloadMemory i) tc else tc"
  have inv: "tex_inv tc" using c by (simp add: collected_from_def)
  have inv1: "tex_inv ?tc" and L1: "\<And>A. lru_ok tc A \<Longrightarrow> lru_ok ?tc A" using inv tex_inv_download by simp_all
  have at1: "img_at ?tc i = Some img" using at by simp
  obtain tc' where F: "FreeImage i ?tc = Some tc'" "tex_inv tc'" "img_at tc' = (img_at ?tc)(i \<mapsto> (untracked img)\<lparr>fl_Registered := False\<rparr>)"
    "deferred_ops tc' = deferred_ops ?tc @ [i]" "gc_tick tc' = gc_tick ?tc" "tex_trace tc' = tex_trace ?tc @ unwatch img"
    "\<And>A. lru_ok ?tc A \<Longrightarrow> lru_ok tc' (filter (\<lambda>e. fst e \<noteq> lru_id img) A)"
    "critical_gc_memory tc' = critical_gc_memory ?tc" "pressure_gc_memory tc' = pressure_gc_memory ?tc"
    by (rule FreeImage_ok [OF inv1 at1 at(2)]) blast
  have v: "img_at tc j = (if j \<in> set ids then map_option (\<lambda>img. (untracked img)\<lparr>fl_Registered := False\<rparr>) (img_at tc0 j) else img_at tc0 j)" for j
    using c by (simp add: collected_from_def)
  have new: "i \<notin> set ids" using at v [of i] by auto
  have at0: "img_at tc0 i = Some img" using at(1) v [of i] new by simp
  have tr: "\<exists>es. tex_trace tc' = tex_trace tc0 @ es" using c F(6) by (auto simp: collected_from_def)
  have mono: "set (tex_trace tc) \<subseteq> set (tex_trace tc')" using F(6) by auto
  have "\<exists>img. img_at tc0 j = Some img \<and> fl_Registered img \<and> (SafeToDownload img \<longrightarrow> DownloadMemory j \<in> set (tex_trace tc'))" if "j \<in> set (ids @ [i])" for j
  proof (cases "j = i")
    case True
    then show ?thesis using at0 at(2) F(6) dl by auto
  next
    case False
    then have "j \<in> set ids" using that by simp
    then show ?thesis using c mono unfolding collected_from_def by blast
  qed
  moreover have "img_at tc' j = (if j \<in> set (ids @ [i]) then map_option (\<lambda>img. (untracked img)\<lparr>fl_Registered := False\<rparr>) (img_at tc0 j) else img_at tc0 j)" for j
    using F(3) v [of j] at0 by simp
  ultimately have "collected_from tc0 (ids @ [i]) tc'"
    using c F(2,4,5,8,9) tr unfolding collected_from_def by simp
  then show thesis using that [OF F(1)] F(7) L1 by blast
qed

text \<open>The images that a collection may download pass the check of the download.\<close>

definition downloadable :: "TexImage \<Rightarrow> bool" where
  "downloadable img \<longleftrightarrow> download_size img \<le> guest_size img \<and> download_size img \<le> 32 * 2 ^ 20"

definition gc_sound :: "TextureCache \<Rightarrow> bool" where
  "gc_sound tc = list_all (\<lambda>i. case sv_at i (slot_images tc) of None \<Rightarrow> True
     | Some img \<Rightarrow> fl_Registered img \<and> SafeToDownload img \<and> \<not> guest_tiled img \<longrightarrow> downloadable img) [0..<values_capacity (slot_images tc)]"

lemma gc_sound_iff:
  "gc_sound tc \<longleftrightarrow> (\<forall>i img. img_at tc i = Some img \<and> fl_Registered img \<and> SafeToDownload img \<and> \<not> guest_tiled img \<longrightarrow> downloadable img)"
  unfolding gc_sound_def list_all_iff img_at_def using sv_at_bound [of _ "slot_images tc"] by (fastforce split: option.splits)

lemma DownloadImageMemory_eq:
  assumes "img_at tc i = Some img"
  shows "DownloadImageMemory i tc = (if \<not> fl_GpuModified img then Some tc else if downloadable img then Some (tex_emit (DownloadMemory i) tc) else None)"
  using assms by (simp add: DownloadImageMemory_def img_at_def downloadable_def assert_opt_def)

definition gc_inv :: "TextureCache \<Rightarrow> nat \<Rightarrow> u32 LeastRecentlyUsedCache \<times> TextureCache \<times> gc_state \<Rightarrow> bool" where
  "gc_inv tc0 N = (\<lambda>(lru, tc, g). lru = lru_cache tc \<and> (\<exists>ids. collected_from tc0 ids tc \<and> length ids + num_deletions g \<le> N))"

lemma gc_visitor:
  assumes sound: "gc_sound tc0"
  shows "visitor (gc_inv tc0 N) gc_callback"
  unfolding visitor_def
proof (intro allI impI)
  fix c x before l i t rest
  assume a: "gc_inv tc0 N (c, x) \<and> lru_rel c (before @ (l, i, t) # rest)"
  obtain tc g where x: "x = (tc, g)" by (cases x) auto
  have c: "c = lru_cache tc" using a by (simp add: gc_inv_def x)
  obtain ids where C: "collected_from tc0 ids tc" "length ids + num_deletions g \<le> N" using a by (auto simp: gc_inv_def x)
  have inv: "tex_inv tc" using C(1) by (simp add: collected_from_def)
  obtain A where A: "lru_ok tc A" using tex_invD(1) [OF inv] unfolding index_ok_def by blast
  have rel: "lru_rel (lru_cache tc) (before @ (l, i, t) # rest)" using a c by simp
  have eA: "A = before @ (l, i, t) # rest" by (rule lru_rel_unique [OF _ rel]) (use A in \<open>simp add: lru_ok_def\<close>)
  obtain img where img: "img_at tc i = Some img" "fl_Registered img" "lru_id img = l" using A unfolding eA lru_ok_def by auto
  have call: "gc_callback i (c, x) = map_option (\<lambda>(b, tc', g'). (b, lru_cache tc', tc', g')) (clean_up i (tc, g))"
    by (simp add: gc_callback_def x c)
  have at: "sv_at i (slot_images tc) = Some img" using img(1) by (simp add: img_at_def)
  have keep: "\<exists>b c' x' before'. gc_callback i (c, x) = Some (b, c', x') \<and> gc_inv tc0 N (c', x') \<and> lru_rel c' (before' @ rest)" if "clean_up i (tc, g) = Some (b, tc, g')" "num_deletions g' \<le> num_deletions g" for b g'
  proof -
    have "gc_inv tc0 N (lru_cache tc, tc, g')" using C that(2) by (auto simp: gc_inv_def)
    moreover have "lru_rel (lru_cache tc) ((before @ [(l, i, t)]) @ rest)" using rel by simp
    ultimately show ?thesis unfolding call that(1) by (intro exI [of _ b] exI [of _ "lru_cache tc"] exI [of _ "(tc, g')"] exI [of _ "before @ [(l, i, t)]"]) simp
  qed
  let ?dl = "SafeToDownload img"
  show "\<exists>b c' x' before'. gc_callback i (c, x) = Some (b, c', x') \<and> gc_inv tc0 N (c', x') \<and> lru_rel c' (before' @ rest)"
  proof (cases "num_deletions g = 0 \<or> (guest_tiled img \<and> ?dl) \<or> (?dl \<and> \<not> gc_pressured g)")
    case True
    let ?g1 = "g\<lparr>num_deletions := num_deletions g - 1\<rparr>"
    consider "clean_up i (tc, g) = Some (True, tc, g)" | "clean_up i (tc, g) = Some (False, tc, ?g1)"
      using True at by (cases "num_deletions g = 0") (auto simp: clean_up_def Let_def)
    then show ?thesis by cases (rule keep, assumption, simp)+
  next
    case False
    obtain tc' where F: "FreeImage i (if ?dl then tex_emit (DownloadMemory i) tc else tc) = Some tc'" "collected_from tc0 (ids @ [i]) tc'"
      "lru_ok tc' (filter (\<lambda>e. fst e \<noteq> lru_id img) A)"
      by (rule collect_one [OF C(1) img(1,2) refl]) (use A in blast)
    have "img_at tc0 i = Some img" using C(1) img(1,2) unfolding collected_from_def by (auto split: if_splits)
    then have "downloadable img" if ?dl using sound that img(2) False unfolding gc_sound_iff by blast
    then have "(if ?dl then DownloadImageMemory i tc else Some tc) = Some (if ?dl then tex_emit (DownloadMemory i) tc else tc)"
      using DownloadImageMemory_eq [OF img(1)] by (simp add: SafeToDownload_def)
    then have "\<exists>g'. clean_up i (tc, g) = Some (False, tc', g') \<and> num_deletions g' \<le> num_deletions g - 1"
      using False at F(1) unfolding clean_up_def Let_def prod.case by auto
    then obtain g' where r: "clean_up i (tc, g) = Some (False, tc', g')" "num_deletions g' \<le> num_deletions g - 1" by blast
    have "distinct (map fst A)" using A lru.distinct by (auto simp: lru_ok_def)
    then have "filter (\<lambda>e. fst e \<noteq> lru_id img) A = filter (\<lambda>e. fst e \<noteq> l) before @ rest"
      unfolding eA img(3) by (auto simp: filter_id_conv image_iff)
    then have "lru_rel (lru_cache tc') (filter (\<lambda>e. fst e \<noteq> l) before @ rest)" using F(3) by (simp add: lru_ok_def)
    moreover have "length (ids @ [i]) + num_deletions g' \<le> N" using C(2) r(2) False by auto
    then have "gc_inv tc0 N (lru_cache tc', tc', g')" using F(2) unfolding gc_inv_def by blast
    ultimately show ?thesis unfolding call r(1) by (intro exI [of _ False] exI [of _ "lru_cache tc'"] exI [of _ "(tc', g')"]) auto
  qed
qed

lemma gc_pass_ok:
  assumes inv: "tex_inv tc" and t: "gc_tick tc < 2 ^ 63" and A: "lru_ok tc A" and sound: "gc_sound tc"
  obtains ids tc' where "gc_pass aggr tc = Some tc'" "collected_from tc ids tc'" "length ids \<le> num_deletions (gc_configure aggr tc)"
    "\<And>l i u. (l, i, u) \<in> set A \<Longrightarrow> gc_tick tc - ticks_to_destroy (gc_configure aggr tc) < u \<Longrightarrow> i \<notin> set ids"
    "\<And>l i u A'. (l, i, u) \<in> set A \<Longrightarrow> gc_tick tc - ticks_to_destroy (gc_configure aggr tc) < u \<Longrightarrow> lru_ok tc' A' \<Longrightarrow> (l, i, u) \<in> set A'"
proof -
  let ?g = "gc_configure aggr tc"
  let ?lim = "gc_tick tc - ticks_to_destroy ?g"
  have le: "ticks_to_destroy ?g \<le> gc_tick tc" by (simp add: gc_configure_def Let_def)
  have sub: "sub64 (gc_tick tc) (ticks_to_destroy ?g) = ?lim" using le t by (intro sub64_exact) auto
  have lim: "?lim < 2 ^ 63" using t by simp
  have I0: "gc_inv tc (num_deletions ?g) (lru_cache tc, tc, ?g)" using collected_from_refl [OF inv] by (auto simp: gc_inv_def)
  have a: "lru_rel (lru_cache tc) A" "aged (gc_tick tc) A" using A by (simp_all add: lru_ok_def)
  obtain c' x' B where V: "lru_ForEachItemBelow ?lim gc_callback (lru_cache tc, tc, ?g) = Some (c', x')" "gc_inv tc (num_deletions ?g) (c', x')"
      "lru_rel c' (B @ filter (\<lambda>e. \<not> tick_of e \<le> ?lim) A)"
    by (rule lru_foreach_ok [OF a t lim gc_visitor [OF sound] I0])
  obtain tc' g' where x: "x' = (tc', g')" by (cases x') auto
  obtain ids where C: "c' = lru_cache tc'" "collected_from tc ids tc'" "length ids + num_deletions g' \<le> num_deletions ?g"
    using V(2) by (auto simp: gc_inv_def x)
  have run: "gc_pass aggr tc = Some tc'" unfolding gc_pass_def Let_def sub V(1) by (simp add: x)
  have old: "A' = B @ filter (\<lambda>e. \<not> tick_of e \<le> ?lim) A" if "lru_ok tc' A'" for A'
    by (rule lru_rel_unique [OF _ V(3) [unfolded C(1)]]) (use that in \<open>simp add: lru_ok_def\<close>)
  have young: "i \<notin> set ids" if e: "(l, i, u) \<in> set A" "?lim < u" for l i u
  proof -
    have "tex_inv tc'" using C(2) by (simp add: collected_from_def)
    then obtain A' where A': "lru_ok tc' A'" using tex_invD(1) unfolding index_ok_def by blast
    have "(l, i, u) \<in> set A'" using e old [OF A'] by simp
    then obtain img where "img_at tc' i = Some img" "fl_Registered img" using A' unfolding lru_ok_def by blast
    then show ?thesis using C(2) unfolding collected_from_def by auto
  qed
  have kept: "(l, i, u) \<in> set A'" if "(l, i, u) \<in> set A" "?lim < u" "lru_ok tc' A'" for l i u A'
    using that(1,2) old [OF that(3)] by simp
  show thesis by (rule that [OF run C(2)]) (use C(3) in simp, fact young, fact kept)
qed

lemma collected_fromD:
  assumes "collected_from tc0 ids tc"
  shows "i \<in> set ids \<Longrightarrow> \<exists>img. img_at tc0 i = Some img \<and> fl_Registered img \<and> (SafeToDownload img \<longrightarrow> DownloadMemory i \<in> set (tex_trace tc))"
    "img_at tc j = (if j \<in> set ids then map_option (\<lambda>img. (untracked img)\<lparr>fl_Registered := False\<rparr>) (img_at tc0 j) else img_at tc0 j)"
    "\<exists>es. tex_trace tc = tex_trace tc0 @ es"
  using assms by (simp_all add: collected_from_def)

lemma collected_from_trans:
  assumes 1: "collected_from tc0 ids tc1" and 2: "collected_from tc1 js tc2"
  shows "collected_from tc0 (ids @ js) tc2"
proof -
  note v1 = collected_fromD(2) [OF 1] and v2 = collected_fromD(2) [OF 2]
  obtain es fs where tr: "tex_trace tc1 = tex_trace tc0 @ es" "tex_trace tc2 = tex_trace tc1 @ fs"
    using collected_fromD(3) [OF 1] collected_fromD(3) [OF 2] by blast
  have j: "j \<notin> set ids \<and> img_at tc0 j = img_at tc1 j" if "j \<in> set js" for j
    using collected_fromD(1) [OF 2 that] v1 [of j] by auto
  have "\<exists>img. img_at tc0 j = Some img \<and> fl_Registered img \<and> (SafeToDownload img \<longrightarrow> DownloadMemory j \<in> set (tex_trace tc2))" if "j \<in> set (ids @ js)" for j
  proof (cases "j \<in> set js")
    case True
    then show ?thesis using collected_fromD(1) [OF 2 True] j [OF True] by auto
  next
    case False
    then have "j \<in> set ids" using that by simp
    then have "\<exists>img. img_at tc0 j = Some img \<and> fl_Registered img \<and> (SafeToDownload img \<longrightarrow> DownloadMemory j \<in> set (tex_trace tc1))"
      by (rule collected_fromD(1) [OF 1])
    then show ?thesis unfolding tr(2) by auto
  qed
  moreover have "img_at tc2 k = (if k \<in> set (ids @ js) then map_option (\<lambda>img. (untracked img)\<lparr>fl_Registered := False\<rparr>) (img_at tc0 k) else img_at tc0 k)" for k
    using v1 [of k] v2 [of k] j [of k] by auto
  ultimately show ?thesis using 1 2 tr unfolding collected_from_def by simp
qed

lemma collected_sound: "collected_from tc0 ids tc \<Longrightarrow> gc_sound tc0 \<Longrightarrow> gc_sound tc"
  using collected_fromD(2) [of tc0 ids tc] unfolding gc_sound_iff by (auto split: if_splits)

text \<open>Memory counters, limits and the clock are no part of the invariant.\<close>

lemma tex_inv_frame:
  assumes "slot_images tc' = slot_images tc" "page_table tc' = page_table tc" "lru_cache tc' = lru_cache tc" "deferred_ops tc' = deferred_ops tc"
    "tex_trace tc' = tex_trace tc" "gc_tick tc \<le> gc_tick tc'"
  shows "img_at tc' = img_at tc" "lru_ok tc A \<Longrightarrow> lru_ok tc' A" "tex_inv tc \<Longrightarrow> tex_inv tc'"
proof -
  show v: "img_at tc' = img_at tc" using assms(1) by (simp add: img_at_def [abs_def])
  have L: "lru_ok tc' A" if "lru_ok tc A" for A using that aged_mono [OF _ assms(6)] unfolding lru_ok_def v assms(3) by blast
  then show "lru_ok tc A \<Longrightarrow> lru_ok tc' A" .
  show "tex_inv tc'" if "tex_inv tc"
    using that L unfolding tex_inv_def index_ok_def pages_ok_def lists_images_def deferred_ok_def track_inv_def unpicked_def v assms by blast
qed

lemma RunGarbageCollector_ok:
  assumes inv: "tex_inv tc" and t: "gc_tick tc + 1 < 2 ^ 63" and A: "lru_ok tc A" and sound: "gc_sound tc"
  obtains ids tc' where "RunGarbageCollector usage tc = Some tc'" "tex_inv tc'" "gc_tick tc' = gc_tick tc + 1" "length ids \<le> 60"
    "deferred_ops tc' = deferred_ops tc @ ids"
    "\<And>i. i \<in> set ids \<Longrightarrow> \<exists>img. img_at tc i = Some img \<and> fl_Registered img \<and> (SafeToDownload img \<longrightarrow> DownloadMemory i \<in> set (tex_trace tc'))"
    "\<And>j. img_at tc' j = (if j \<in> set ids then map_option (\<lambda>img. (untracked img)\<lparr>fl_Registered := False\<rparr>) (img_at tc j) else img_at tc j)"
    "\<And>l i u. (l, i, u) \<in> set A \<Longrightarrow> gc_tick tc - min 16 (gc_tick tc) < u \<Longrightarrow> i \<notin> set ids"
proof -
  define tc0 where "tc0 = (case usage of None \<Rightarrow> tc | Some usage \<Rightarrow> tc\<lparr>total_used_memory := usage\<rparr>)"
  have f0: "slot_images tc0 = slot_images tc" "page_table tc0 = page_table tc" "lru_cache tc0 = lru_cache tc" "deferred_ops tc0 = deferred_ops tc"
    "tex_trace tc0 = tex_trace tc" "gc_tick tc0 = gc_tick tc" by (simp_all add: tc0_def split: option.splits)
  note T0 = tex_inv_frame [OF f0(1-5) eq_refl [OF f0(6) [symmetric]]]
  have t0: "gc_tick tc0 < 2 ^ 63" using t f0(6) by simp
  have sound0: "gc_sound tc0" using sound by (simp add: gc_sound_def f0(1))
  have lim: "gc_tick x - ticks_to_destroy (gc_configure b x) \<le> gc_tick x - min 16 (gc_tick x)" for b x
    by (simp add: gc_configure_def Let_def) linarith
  have num: "num_deletions (gc_configure False x) \<le> 20" "num_deletions (gc_configure b x) \<le> 40" for b x by (simp_all add: gc_configure_def Let_def)
  have passes: "\<exists>ids tc1. (if total_used_memory tc0 < trigger_gc_memory tc0 then Some tc0
            else do {
              tc1 \<leftarrow> gc_pass False tc0;
              (if total_used_memory tc1 \<ge> critical_gc_memory tc1 then gc_pass True tc1 else Some tc1)
            }) = Some tc1 \<and> collected_from tc0 ids tc1 \<and> length ids \<le> 60 \<and> (\<forall>(l, i, u) \<in> set A. gc_tick tc - min 16 (gc_tick tc) < u \<longrightarrow> i \<notin> set ids)"
  proof (cases "total_used_memory tc0 < trigger_gc_memory tc0")
    case True
    then show ?thesis using collected_from_refl [OF T0(3) [OF inv]] by (intro exI [of _ "[]"] exI [of _ tc0]) auto
  next
    case False
    obtain ids tc1 where P: "gc_pass False tc0 = Some tc1" "collected_from tc0 ids tc1" "length ids \<le> num_deletions (gc_configure False tc0)"
      "\<And>l i u. (l, i, u) \<in> set A \<Longrightarrow> gc_tick tc0 - ticks_to_destroy (gc_configure False tc0) < u \<Longrightarrow> i \<notin> set ids"
      "\<And>l i u A'. (l, i, u) \<in> set A \<Longrightarrow> gc_tick tc0 - ticks_to_destroy (gc_configure False tc0) < u \<Longrightarrow> lru_ok tc1 A' \<Longrightarrow> (l, i, u) \<in> set A'"
      by (rule gc_pass_ok [OF T0(3) [OF inv] t0 T0(2) [OF A] sound0, of False]) blast
    have y: "gc_tick tc0 - ticks_to_destroy (gc_configure False tc0) < u" if "gc_tick tc - min 16 (gc_tick tc) < u" for u
      using le_less_trans [OF lim [of tc0 False]] that f0(6) by simp
    show ?thesis
    proof (cases "total_used_memory tc1 \<ge> critical_gc_memory tc1")
      case over: True
      have inv1: "tex_inv tc1" and tk: "gc_tick tc1 = gc_tick tc0" using P(2) by (simp_all add: collected_from_def)
      obtain A1 where A1: "lru_ok tc1 A1" using tex_invD(1) [OF inv1] unfolding index_ok_def by blast
      have t1: "gc_tick tc1 < 2 ^ 63" using t0 tk by simp
      obtain js tc2 where Q: "gc_pass True tc1 = Some tc2" "collected_from tc1 js tc2" "length js \<le> num_deletions (gc_configure True tc1)"
        "\<And>l i u. (l, i, u) \<in> set A1 \<Longrightarrow> gc_tick tc1 - ticks_to_destroy (gc_configure True tc1) < u \<Longrightarrow> i \<notin> set js"
        by (rule gc_pass_ok [OF inv1 t1 A1 collected_sound [OF P(2) sound0], of True]) blast
      have y1: "gc_tick tc1 - ticks_to_destroy (gc_configure True tc1) < u" if "gc_tick tc - min 16 (gc_tick tc) < u" for u
        using le_less_trans [OF lim [of tc1 True]] that f0(6) tk by simp
      have "length (ids @ js) \<le> 60" using P(3) Q(3) num(1) [of tc0] num(2) [of True tc1] by simp
      moreover have "i \<notin> set (ids @ js)" if "(l, i, u) \<in> set A" "gc_tick tc - min 16 (gc_tick tc) < u" for l i u
        using P(4) [OF that(1) y [OF that(2)]] Q(4) [OF P(5) [OF that(1) y [OF that(2)] A1] y1 [OF that(2)]] by simp
      ultimately show ?thesis
        using False over P(1) Q(1) collected_from_trans [OF P(2) Q(2)] by (intro exI [of _ "ids @ js"] exI [of _ tc2]) auto
    next
      case False2: False
      have "length ids \<le> 60" using P(3) num(1) [of tc0] by simp
      then show ?thesis using False False2 P(1,2,4) y by (intro exI [of _ ids] exI [of _ tc1]) auto
    qed
  qed
  then obtain ids tc1 where P: "(if total_used_memory tc0 < trigger_gc_memory tc0 then Some tc0
            else do {
              tc1 \<leftarrow> gc_pass False tc0;
              (if total_used_memory tc1 \<ge> critical_gc_memory tc1 then gc_pass True tc1 else Some tc1)
            }) = Some tc1" "collected_from tc0 ids tc1" "length ids \<le> 60" "\<forall>(l, i, u) \<in> set A. gc_tick tc - min 16 (gc_tick tc) < u \<longrightarrow> i \<notin> set ids" by blast
  define tc' where "tc' = tc1\<lparr>gc_tick := add64 (gc_tick tc1) 1\<rparr>"
  have tk1: "gc_tick tc1 = gc_tick tc" using P(2) f0(6) by (simp add: collected_from_def)
  have tk: "gc_tick tc' = gc_tick tc + 1" using t tk1 add64_exact [of "gc_tick tc" 1] by (simp add: tc'_def)
  have run: "RunGarbageCollector usage tc = Some tc'" unfolding RunGarbageCollector_def tc0_def [symmetric] Let_def P(1) by (simp add: tc'_def)
  have le: "gc_tick tc1 \<le> gc_tick tc'" using tk tk1 by simp
  note T1 = tex_inv_frame [of tc' tc1, OF _ _ _ _ _ le]
  have v: "img_at tc' = img_at tc1" by (rule T1(1)) (simp_all add: tc'_def)
  have inv': "tex_inv tc'" by (rule T1(3)) (use P(2) in \<open>simp_all add: tc'_def collected_from_def\<close>)
  show thesis
    by (rule that [OF run inv' tk P(3)]) (use P(2,4) f0 v in \<open>auto simp: tc'_def collected_from_def T0(1)\<close>)
qed

section \<open>Using images\<close>

lemma refresh_step: "good_image img \<Longrightarrow> image_step img (RefreshImage xxh img) []"
  by (rule image_step_flags) (simp_all add: good_image_def RefreshImage_def place_def Let_def)

lemma good_step: "good_image img \<Longrightarrow> image_step img img' es \<Longrightarrow> good_image img'"
  using placeD [of img' img] by (simp add: good_image_def image_step_def)

lemma UpdateImage_ok:
  assumes inv: "tex_inv tc" and at: "img_at tc i = Some img" "fl_Registered img"
  obtains tc' where "UpdateImage xxh i tc = Some tc'" "tex_inv tc'" "img_at tc' = (img_at tc)(i \<mapsto> RefreshImage xxh (track_all img))"
proof -
  note g = tex_invD(5) [OF inv at(1)]
  let ?img = "track_all img"
  let ?tc1 = "do_image i ?img (watch_rest img) tc"
  have inv1: "tex_inv ?tc1" by (rule tex_inv_step [OF inv at(1) track_step [OF g]])
  have v1: "img_at ?tc1 = (img_at tc)(i \<mapsto> ?img)" using img_at_put(1) [OF tex_invD(4) [OF inv] at(1)] by auto
  have at1: "img_at ?tc1 i = Some ?img" "fl_Registered ?img" using at v1 by (simp_all add: track_all_def)
  obtain tc2 where G: "GetImage i ?tc1 = Some tc2" "tex_inv tc2" "img_at tc2 = img_at ?tc1" by (rule GetImage_ok [OF inv1 at1])
  have at2: "img_at tc2 i = Some ?img" using G(3) at1 by simp
  have st: "image_step ?img (RefreshImage xxh ?img) []" by (rule refresh_step [OF good_step [OF g track_step [OF g]]])
  let ?tc3 = "do_image i (RefreshImage xxh ?img) [] tc2"
  have "UpdateImage xxh i tc = Some ?tc3"
    using TrackImage_ok [OF at(1) g] G(1) at2 by (simp add: UpdateImage_def img_at_def [symmetric] do_image_def [of i _ "[]"])
  moreover have "tex_inv ?tc3" by (rule tex_inv_step [OF G(2) at2 st])
  moreover have "img_at ?tc3 = (img_at tc)(i \<mapsto> RefreshImage xxh ?img)"
    using img_at_put(1) [OF tex_invD(4) [OF G(2)] at2] G(3) v1 by auto
  ultimately show thesis using that by blast
qed

lemma gpu_modified_ok:
  assumes inv: "tex_inv tc" and at: "img_at tc i = Some img"
  defines "tc' \<equiv> put_image i (img\<lparr>fl_GpuModified := True\<rparr>) tc"
  shows "tex_inv tc'" "tex_inv (add_download i tc')" "img_at tc' = (img_at tc)(i \<mapsto> img\<lparr>fl_GpuModified := True\<rparr>)" "img_at (add_download i tc') = img_at tc'"
proof -
  have "image_step img (img\<lparr>fl_GpuModified := True\<rparr>) []"
    by (rule image_step_flags) (use tex_invD(5) [OF inv at] in \<open>simp_all add: good_image_def place_def\<close>)
  from tex_inv_step [OF inv at this] show inv': "tex_inv tc'" by (simp only: tc'_def put_do(1))
  show "img_at tc' = (img_at tc)(i \<mapsto> img\<lparr>fl_GpuModified := True\<rparr>)" using img_at_put(1) [OF tex_invD(4) [OF inv] at] by (auto simp: tc'_def)
  show "img_at (add_download i tc') = img_at tc'" by (simp add: add_download_def img_at_def [abs_def])
  show "tex_inv (add_download i tc')" by (rule tex_inv_frame(3) [OF _ _ _ _ _ _ inv']) (simp_all add: add_download_def)
qed

lemma FindTexture_ok:
  assumes inv: "tex_inv tc" and at: "img_at tc i = Some img" "fl_Registered img"
  obtains tc' where "FindTexture xxh is_storage i tc = Some tc'" "tex_inv tc'"
    "img_at tc' = (img_at tc)(i \<mapsto> RefreshImage xxh (track_all (if is_storage then img\<lparr>fl_GpuModified := True\<rparr> else img)))"
proof -
  note M = gpu_modified_ok [OF inv at(1)]
  define tc1 where "tc1 = (if is_storage then
      let tc0 = put_image i (img\<lparr>fl_GpuModified := True\<rparr>) tc
      in if readback_linear_images tc0 \<and> \<not> is_tiled img \<and> guest_address img \<noteq> 0 then add_download i tc0 else tc0 else tc)"
  define img1 where "img1 = (if is_storage then img\<lparr>fl_GpuModified := True\<rparr> else img)"
  have 1: "tex_inv tc1" "img_at tc1 = (img_at tc)(i \<mapsto> img1)" using M inv at(1) by (auto simp: tc1_def img1_def Let_def)
  have at1: "img_at tc1 i = Some img1" "fl_Registered img1" using 1(2) at(2) by (simp_all add: img1_def)
  obtain tc' where U: "UpdateImage xxh i tc1 = Some tc'" "tex_inv tc'" "img_at tc' = (img_at tc1)(i \<mapsto> RefreshImage xxh (track_all img1))"
    by (rule UpdateImage_ok [OF 1(1) at1])
  have "FindTexture xxh is_storage i tc = Some tc'" using at(1) U(1) by (simp add: FindTexture_def img_at_def [symmetric] tc1_def)
  then show thesis using that U(2,3) 1(2) by (simp add: img1_def)
qed

lemma FindRenderTarget_ok:
  assumes inv: "tex_inv tc" and at: "img_at tc i = Some img" "fl_Registered img"
  obtains tc' where "FindRenderTarget xxh cm fm i tc = Some tc'" "tex_inv tc'"
proof -
  note M = gpu_modified_ok [OF inv at(1)]
  define tc1 where "tc1 = (let tc0 = put_image i (img\<lparr>fl_GpuModified := True\<rparr>) tc in if readback_linear_images tc0 \<and> \<not> is_tiled img then add_download i tc0 else tc0)"
  let ?img = "img\<lparr>fl_GpuModified := True\<rparr>"
  have 1: "tex_inv tc1" "img_at tc1 = (img_at tc)(i \<mapsto> ?img)" using M by (auto simp: tc1_def Let_def)
  have at1: "img_at tc1 i = Some ?img" "fl_Registered ?img" using 1(2) at(2) by simp_all
  obtain tc2 where U: "UpdateImage xxh i tc1 = Some tc2" "tex_inv tc2" "img_at tc2 = (img_at tc1)(i \<mapsto> RefreshImage xxh (track_all ?img))"
    by (rule UpdateImage_ok [OF 1(1) at1])
  define img2 where "img2 = RefreshImage xxh (track_all ?img)"
  have at2: "img_at tc2 i = Some img2" using U(3) by (simp add: img2_def)
  have "\<exists>img4 metas. FindRenderTarget xxh cm fm i tc = Some ((put_image i img4 tc2)\<lparr>surface_metas := metas\<rparr>) \<and> image_step img2 img4 []"
    using at(1) U(1) at2 tex_invD(5) [OF U(2) at2]
    by (simp add: FindRenderTarget_def img_at_def [symmetric] tc1_def [symmetric, unfolded Let_def] Let_def)
      (auto intro!: image_step_flags simp: good_image_def place_def)
  then obtain img4 metas where F: "FindRenderTarget xxh cm fm i tc = Some ((put_image i img4 tc2)\<lparr>surface_metas := metas\<rparr>)" "image_step img2 img4 []" by blast
  have inv4: "tex_inv (do_image i img4 [] tc2)" by (rule tex_inv_step [OF U(2) at2 F(2)])
  have "tex_inv ((put_image i img4 tc2)\<lparr>surface_metas := metas\<rparr>)" by (rule tex_inv_frame(3) [OF _ _ _ _ _ _ inv4]) (simp_all add: do_image_def)
  then show thesis using that F(1) by blast
qed

lemma process_downloads_ok:
  assumes "tex_inv tc" "\<And>i. i \<in> set ids \<Longrightarrow> \<exists>img. img_at tc i = Some img \<and> (fl_GpuModified img \<longrightarrow> downloadable img)"
  shows "\<exists>tc'. process_downloads ids tc = Some tc' \<and> tex_inv tc'"
  using assms
proof (induction ids arbitrary: tc)
  case (Cons i ids)
  obtain img where img: "img_at tc i = Some img" "fl_GpuModified img \<longrightarrow> downloadable img" using Cons.prems(2) [of i] by auto
  let ?tc = "if fl_GpuModified img then tex_emit (DownloadMemory i) tc else tc"
  have "\<exists>tc'. process_downloads ids ?tc = Some tc' \<and> tex_inv tc'"
    by (rule Cons.IH) (use Cons.prems tex_inv_download(1) in auto)
  moreover have "DownloadImageMemory i tc = Some ?tc" using DownloadImageMemory_eq [OF img(1)] img(2) by simp
  ultimately show ?case by simp
qed simp

lemma ProcessDownloadImages_ok:
  assumes "tex_inv tc" "\<forall>i \<in> set (download_images tc). \<exists>img. img_at tc i = Some img \<and> (fl_GpuModified img \<longrightarrow> downloadable img)"
  obtains tc' where "ProcessDownloadImages tc = Some tc'" "tex_inv tc'"
proof -
  obtain tc1 where 1: "process_downloads (download_images tc) tc = Some tc1" "tex_inv tc1" using process_downloads_ok [OF assms(1)] assms(2) by blast
  have "tex_inv (tc1\<lparr>download_images := []\<rparr>)" by (rule tex_inv_frame(3) [OF _ _ _ _ _ _ 1(2)]) simp_all
  then show thesis using that 1(1) by (simp add: ProcessDownloadImages_def)
qed

section \<open>The null image\<close>

text \<open>Touching the null image touches item 0 of the cache of recent use, which is harmless when the item belongs to an image or is as young as the tick.\<close>

definition null_safe :: "TextureCache \<Rightarrow> bool" where
  "null_safe tc \<longleftrightarrow> item_pool (lru_cache tc) \<noteq> []
     \<and> (0 \<notin> set (free_items (lru_cache tc)) \<or> gc_tick tc \<le> it_tick (item_pool (lru_cache tc) ! 0))"

lemma null_touch_ok:
  assumes inv: "tex_inv tc" and safe: "null_safe tc"
  obtains lru where "lru_Touch 0 (gc_tick tc) (lru_cache tc) = Some lru" "tex_inv (tc\<lparr>lru_cache := lru\<rparr>)" "img_at (tc\<lparr>lru_cache := lru\<rparr>) = img_at tc"
proof (cases "gc_tick tc \<le> it_tick (item_pool (lru_cache tc) ! 0)")
  case True
  then have "lru_Touch 0 (gc_tick tc) (lru_cache tc) = Some (lru_cache tc)" using safe by (simp add: lru_Touch_def null_safe_def)
  then show thesis using that [of "lru_cache tc"] inv by simp
next
  case False
  obtain A where A: "lru_ok tc A" using tex_invD(1) [OF inv] unfolding index_ok_def by blast
  then obtain l where l: "lru_rep (lru_cache tc) l" "A = map (entry_of (lru_cache tc)) l" by (auto simp: lru_ok_def lru_rel_def)
  have "0 \<in> set l" using l(1) safe False by (auto simp: lru_rep_def null_safe_def)
  then have "entry_of (lru_cache tc) 0 \<in> set A" using l(2) by simp
  then obtain i img where i: "img_at tc i = Some img" "fl_Registered img" "lru_id img = 0" using A by (fastforce simp: lru_ok_def entry_of_def)
  obtain tc' where G: "GetImage i tc = Some tc'" "tex_inv tc'" "img_at tc' = img_at tc" by (rule GetImage_ok [OF inv i(1,2)])
  then obtain lru where "lru_Touch 0 (gc_tick tc) (lru_cache tc) = Some lru" "tc' = tc\<lparr>lru_cache := lru\<rparr>"
    using i by (auto simp: GetImage_def TouchImage_def img_at_def [symmetric] bind_eq_Some_conv)
  then show thesis using that G(2,3) by blast
qed

lemma null_img:
  assumes "tex_inv tc"
  obtains img where "img_at tc 0 = Some img" "\<not> fl_Registered img" "lru_id img = 0"
  using index_okD(3) [OF tex_invD(1) [OF assms]] by (auto simp: deferred_ok_def)

lemma GetImage_null_ok:
  assumes inv: "tex_inv tc" and safe: "null_safe tc"
  obtains tc' where "GetImage 0 tc = Some tc'" "tex_inv tc'" "img_at tc' = img_at tc"
proof -
  obtain img where n: "img_at tc 0 = Some img" "lru_id img = 0" by (rule null_img [OF inv])
  obtain lru where "lru_Touch 0 (gc_tick tc) (lru_cache tc) = Some lru" "tex_inv (tc\<lparr>lru_cache := lru\<rparr>)" "img_at (tc\<lparr>lru_cache := lru\<rparr>) = img_at tc"
    by (rule null_touch_ok [OF assms])
  then show thesis using that n by (simp add: GetImage_def TouchImage_def img_at_def)
qed

lemma FindTexture_null_ok:
  assumes inv: "tex_inv tc" and safe: "null_safe tc"
  obtains tc' where "FindTexture xxh is_storage 0 tc = Some tc'" "tex_inv tc'"
proof -
  obtain img where n: "img_at tc 0 = Some img" "\<not> fl_Registered img" "lru_id img = 0" by (rule null_img [OF inv])
  note M = gpu_modified_ok [OF inv n(1)]
  define tc1 where "tc1 = (if is_storage then
      let tc0 = put_image 0 (img\<lparr>fl_GpuModified := True\<rparr>) tc
      in if readback_linear_images tc0 \<and> \<not> is_tiled img \<and> guest_address img \<noteq> 0 then add_download 0 tc0 else tc0 else tc)"
  have 1: "tex_inv tc1" "\<exists>img1. img_at tc1 0 = Some img1 \<and> \<not> fl_Registered img1"
    using M inv n by (auto simp: tc1_def Let_def)
  have "null_safe tc1" using safe by (simp add: null_safe_def tc1_def Let_def put_image_def add_download_def)
  then obtain tc2 where G: "GetImage 0 tc1 = Some tc2" "tex_inv tc2" "img_at tc2 = img_at tc1" by (rule GetImage_null_ok [OF 1(1)])
  obtain img1 where at1: "img_at tc1 0 = Some img1" "\<not> fl_Registered img1" using 1(2) by blast
  have at2: "img_at tc2 0 = Some img1" using G(3) at1 by simp
  have "TrackImage 0 tc1 = Some tc1" using at1 by (simp add: TrackImage_def img_at_def [symmetric])
  then have "UpdateImage xxh 0 tc1 = Some (do_image 0 (RefreshImage xxh img1) [] tc2)"
    using G(1) at2 by (simp add: UpdateImage_def img_at_def [symmetric] do_image_def [of 0 _ "[]"])
  then have "FindTexture xxh is_storage 0 tc = Some (do_image 0 (RefreshImage xxh img1) [] tc2)"
    using n(1) by (simp add: FindTexture_def img_at_def [symmetric] tc1_def)
  moreover have "tex_inv (do_image 0 (RefreshImage xxh img1) [] tc2)"
    by (rule tex_inv_step [OF G(2) at2 refresh_step [OF tex_invD(5) [OF G(2) at2]]])
  ultimately show thesis using that by blast
qed

section \<open>The reachable states\<close>

lemma fresh_slots:
  "\<exists>v. SlotVector_init = Some (v :: 'a slot_vector) \<and> sv_ok v \<and> values_capacity v = 2048 \<and> sv_free v = rev [0..<2048] \<and> (\<forall>i. sv_at i v = None)"
proof -
  have e: "values_capacity (sv_empty :: 'a slot_vector) = 0" "sv_at i (sv_empty :: 'a slot_vector) = None" "sv_free (sv_empty :: 'a slot_vector) = []" for i
    by (simp_all add: sv_empty_def values_capacity_def sv_at_def)
  obtain v :: "'a slot_vector" where "Reserve 2048 sv_empty = Some v" "values_capacity v = 2048" "\<forall>i. sv_at i v = None" "sv_ok v" "sv_free v = rev [0..<2048]"
    using Reserve_spec [of "sv_empty :: 'a slot_vector" 2048] by (auto simp: e)
  then show ?thesis by (auto simp: SlotVector_init_def InitialCapacity_def sv_empty_def)
qed

lemma first_slot:
  obtains v v1 where "SlotVector_init = Some v" "sv_insert x v = Some (0, v1)" "sv_ok v1" "(\<lambda>j. sv_at j v1) = (\<lambda>_. None)(0 \<mapsto> x)"
proof -
  obtain v :: "'a slot_vector" where v: "SlotVector_init = Some v" "sv_ok v" "values_capacity v = 2048" "sv_free v = rev [0..<2048]" "\<forall>i. sv_at i v = None"
    using fresh_slots by blast
  have room: "sv_room v" using v(3) by (simp add: sv_room_def)
  obtain i v1 where I: "sv_insert x v = Some (i, v1)" "(\<lambda>j. sv_at j v1) = (\<lambda>j. sv_at j v)(i \<mapsto> x)" "sv_ok v1" using sv.ins_law [OF v(2) room] by blast
  have "sv_free v \<noteq> []" "last (sv_free v) = 0" by (simp_all add: v(4) last_rev)
  then have "fst (the (FreeValueIndex v)) = 0" by (simp add: FreeValueIndex_def)
  then have "i = 0" using I(1) by (auto simp: sv_insert_def split: bind_splits prod.splits if_splits)
  then show thesis using that [OF v(1)] I v(5) by simp
qed

lemma room_if_few:
  assumes "sv_ok v" "card {i. sv_at i v \<noteq> None} \<le> 2147483648"
  shows "sv_room v"
proof (cases "sv_free v = []")
  case True
  have "sv_size v = values_capacity v" using True by (simp add: sv_size_def)
  then show ?thesis using sv_size_eq [OF assms(1)] assms(2) by (simp add: sv_room_def)
qed (simp add: sv_room_def)

lemma TextureCache_init_ok:
  obtains tc where "TextureCache_init budget rb = Some tc" "tex_inv tc" "img_at tc = (\<lambda>_. None)(0 \<mapsto> null_image)" "sv_room (slot_images tc)" "gc_tick tc = 0" "lru_ok tc []"
    "lru_cache tc = lru_empty" "download_images tc = []" "deferred_ops tc = []"
proof -
  obtain v v1 where V: "SlotVector_init = Some v" "sv_insert null_image v = Some (0, v1)" "sv_ok v1" "(\<lambda>j. sv_at j v1) = (\<lambda>_. None)(0 \<mapsto> null_image)"
    by (rule first_slot)
  obtain tr pr cr where L: "gc_limits budget = (tr, pr, cr)" by (metis prod_cases3)
  define tc where "tc = \<lparr>slot_images = v1, total_used_memory = 0, trigger_gc_memory = tr, pressure_gc_memory = pr,
           critical_gc_memory = cr, gc_tick = 0, lru_cache = lru_empty, page_table = mlpt_init TexTraits,
           surface_metas = (\<lambda>_. None), download_images = [], readback_linear_images = rb, deferred_ops = [], tex_trace = []\<rparr>"
  have run: "TextureCache_init budget rb = Some tc" unfolding TextureCache_init_def tc_def V(1) Option.bind.simps V(2) by (simp add: L)
  have at: "img_at tc = (\<lambda>_. None)(0 \<mapsto> null_image)" using V(4) by (simp add: img_at_def [abs_def] tc_def)
  have l0: "lru_id null_image = 0" by (simp add: null_image_def new_image_def ImageInfo.defs)
  have n: "\<not> fl_Registered null_image" "\<not> fl_Picked null_image" "track_addr null_image = 0" "track_addr_end null_image = 256"
    by (simp_all add: null_image_def new_image_def ImageInfo.defs)
  have "mlpt_entry TexTraits [] (mlpt_init TexTraits) p = ([] :: u32 list)" if "p < 2 ^ 20" for p using mlpt_init_ok(2) [of p TexTraits] that by simp
  then have "pages_ok tc" using mlpt_init_ok(1) at n(1) by (auto simp: pages_ok_def lists_images_def Let_def tc_def)
  moreover have lru: "lru_ok tc []" using lru_rel_empty at n(1) by (auto simp: lru_ok_def aged_def tc_def)
  moreover have "deferred_ok tc" using at n(1) l0 by (auto simp: deferred_ok_def tc_def)
  moreover have "sv_ok (slot_images tc)" using V(3) by (simp add: tc_def)
  ultimately have "index_ok tc" using at n(1) unfolding index_ok_def by (auto split: if_splits)
  moreover have "\<not> img_watches null_image p" for p using n(3) by (simp add: img_watches_def IsTracked_def)
  then have "track_inv tc" using at n by (auto simp: track_inv_def track_ok_def tc_def split: if_splits)
  moreover have "unpicked tc" using at n(2) by (auto simp: unpicked_def split: if_splits)
  ultimately have inv: "tex_inv tc" by (simp add: tex_inv_def)
  have "{i. sv_at i v1 \<noteq> None} = {0}" using V(4) by (auto simp: fun_eq_iff split: if_splits)
  then have "sv_room (slot_images tc)" using room_if_few [OF V(3)] by (simp add: tc_def)
  then show thesis using that run inv at lru by (simp add: tc_def)
qed

text \<open>The calls of the renderer, of the fault handler, of the memory manager and of the scheduler, and when they may be made.\<close>

datatype tex_call =
    Create ImageInfo
  | Use u32
  | Bind "u64 \<Rightarrow> u64 \<Rightarrow> u64" bool u32
  | Target "u64 \<Rightarrow> u64 \<Rightarrow> u64" u64 u64 u32
  | Invalidate "u64 \<Rightarrow> u64 \<Rightarrow> u64" u64 u64
  | GpuWrite u64 u64
  | Unmap u64 u64
  | Lookup u64 u64 bool
  | Free u32
  | Collect "u64 option"
  | Downloads
  | Deferred

definition tex_run :: "tex_call \<Rightarrow> TextureCache \<Rightarrow> TextureCache option" where
  "tex_run call tc = (case call of
      Create info \<Rightarrow> map_option snd (create_image info tc)
    | Use i \<Rightarrow> GetImage i tc
    | Bind xxh is_storage i \<Rightarrow> FindTexture xxh is_storage i tc
    | Target xxh cm fm i \<Rightarrow> FindRenderTarget xxh cm fm i tc
    | Invalidate xxh addr sz \<Rightarrow> tex_InvalidateMemory xxh addr sz tc
    | GpuWrite addr sz \<Rightarrow> InvalidateMemoryFromGPU addr sz tc
    | Unmap addr sz \<Rightarrow> tex_UnmapMemory addr sz tc
    | Lookup addr sz valid \<Rightarrow> map_option snd (FindImageFromRange addr sz valid tc)
    | Free i \<Rightarrow> FreeImage i tc
    | Collect usage \<Rightarrow> RunGarbageCollector usage tc
    | Downloads \<Rightarrow> ProcessDownloadImages tc
    | Deferred \<Rightarrow> run_deferred tc)"

definition tex_allowed :: "tex_call \<Rightarrow> TextureCache \<Rightarrow> bool" where
  "tex_allowed call tc = (case call of
      Create info \<Rightarrow> sv_room (slot_images tc) \<and> 0 < guest_address info \<and> in_space (guest_address info) (guest_size info)
    | Use i \<Rightarrow> registered tc i \<or> i = 0 \<and> null_safe tc
    | Bind _ _ i \<Rightarrow> registered tc i \<or> i = 0 \<and> null_safe tc
    | Target _ _ _ i \<Rightarrow> registered tc i
    | Invalidate _ addr sz \<Rightarrow> in_space addr sz
    | GpuWrite addr sz \<Rightarrow> in_space addr sz
    | Unmap addr sz \<Rightarrow> in_space addr sz
    | Lookup addr sz _ \<Rightarrow> in_space addr sz
    | Free i \<Rightarrow> registered tc i
    | Collect _ \<Rightarrow> gc_tick tc + 1 < 2 ^ 63 \<and> gc_sound tc
    | Downloads \<Rightarrow> list_all (\<lambda>i. case img_at tc i of None \<Rightarrow> False | Some img \<Rightarrow> fl_GpuModified img \<longrightarrow> downloadable img) (download_images tc)
    | Deferred \<Rightarrow> True)"

lemma registered_img: "registered tc i \<Longrightarrow> (\<And>img. img_at tc i = Some img \<Longrightarrow> fl_Registered img \<Longrightarrow> thesis) \<Longrightarrow> thesis"
  by (auto simp: registered_def split: option.splits)

lemma tex_run_ok:
  assumes inv: "tex_inv tc" and a: "tex_allowed call tc"
  shows "\<exists>tc'. tex_run call tc = Some tc' \<and> tex_inv tc'"
proof (cases call)
  case (Create info)
  then have c: "sv_room (slot_images tc)" "0 < guest_address info" "in_space (guest_address info) (guest_size info)" using a by (simp_all add: tex_allowed_def)
  show ?thesis by (rule create_image_ok [OF inv c]) (use Create in \<open>simp add: tex_run_def\<close>)
next
  case (Use i)
  then consider "registered tc i" | "i = 0" "null_safe tc" using a by (auto simp: tex_allowed_def)
  then show ?thesis
  proof cases
    case 1
    then obtain img where img: "img_at tc i = Some img" "fl_Registered img" by (rule registered_img)
    show ?thesis by (rule GetImage_ok [OF inv img]) (use Use in \<open>simp add: tex_run_def\<close>)
  next
    case 2
    show ?thesis by (rule GetImage_null_ok [OF inv 2(2)]) (use Use 2(1) in \<open>simp add: tex_run_def\<close>)
  qed
next
  case (Bind xxh st i)
  then consider "registered tc i" | "i = 0" "null_safe tc" using a by (auto simp: tex_allowed_def)
  then show ?thesis
  proof cases
    case 1
    then obtain img where img: "img_at tc i = Some img" "fl_Registered img" by (rule registered_img)
    show ?thesis by (rule FindTexture_ok [OF inv img, of xxh st]) (use Bind in \<open>simp add: tex_run_def\<close>)
  next
    case 2
    show ?thesis by (rule FindTexture_null_ok [OF inv 2(2), of xxh st]) (use Bind 2(1) in \<open>simp add: tex_run_def\<close>)
  qed
next
  case (Target xxh cm fm i)
  then have "registered tc i" using a by (simp add: tex_allowed_def)
  then obtain img where img: "img_at tc i = Some img" "fl_Registered img" by (rule registered_img)
  show ?thesis by (rule FindRenderTarget_ok [OF inv img, of xxh cm fm]) (use Target in \<open>simp add: tex_run_def\<close>)
next
  case (Invalidate xxh addr sz)
  then have r: "in_space addr sz" using a by (simp add: tex_allowed_def)
  show ?thesis by (rule tex_InvalidateMemory_ok [OF inv r, of xxh]) (use Invalidate in \<open>simp add: tex_run_def\<close>)
next
  case (GpuWrite addr sz)
  then have r: "in_space addr sz" using a by (simp add: tex_allowed_def)
  show ?thesis by (rule InvalidateMemoryFromGPU_ok [OF inv r]) (use GpuWrite in \<open>simp add: tex_run_def\<close>)
next
  case (Unmap addr sz)
  then have r: "in_space addr sz" using a by (simp add: tex_allowed_def)
  show ?thesis by (rule tex_UnmapMemory_ok [OF inv r]) (use Unmap in \<open>simp add: tex_run_def\<close>)
next
  case (Lookup addr sz valid)
  then have r: "in_space addr sz" using a by (simp add: tex_allowed_def)
  show ?thesis by (rule FindImageFromRange_ok [OF inv r, of valid]) (use Lookup in \<open>simp add: tex_run_def\<close>)
next
  case (Free i)
  then have "registered tc i" using a by (simp add: tex_allowed_def)
  then obtain img where img: "img_at tc i = Some img" "fl_Registered img" by (rule registered_img)
  show ?thesis by (rule FreeImage_ok [OF inv img]) (use Free in \<open>simp add: tex_run_def\<close>)
next
  case (Collect usage)
  then have t: "gc_tick tc + 1 < 2 ^ 63" and sound: "gc_sound tc" using a by (simp_all add: tex_allowed_def)
  obtain A where A: "lru_ok tc A" using tex_invD(1) [OF inv] unfolding index_ok_def by blast
  show ?thesis by (rule RunGarbageCollector_ok [OF inv t A sound, of usage]) (use Collect in \<open>simp add: tex_run_def\<close>)
next
  case Downloads
  then have d: "\<forall>i \<in> set (download_images tc). \<exists>img. img_at tc i = Some img \<and> (fl_GpuModified img \<longrightarrow> downloadable img)"
    using a by (auto simp: tex_allowed_def list_all_iff split: option.splits)
  show ?thesis by (rule ProcessDownloadImages_ok [OF inv d]) (use Downloads in \<open>simp add: tex_run_def\<close>)
next
  case Deferred
  show ?thesis by (rule run_deferred_ok [OF inv]) (use Deferred in \<open>simp add: tex_run_def\<close>)
qed

definition tex_init :: "TextureCache \<Rightarrow> bool" where
  "tex_init tc \<longleftrightarrow> (\<exists>budget readback. TextureCache_init budget readback = Some tc)"

definition tex_step :: "TextureCache \<Rightarrow> tex_call \<Rightarrow> TextureCache \<Rightarrow> bool" where
  "tex_step tc call tc' \<longleftrightarrow> tex_allowed call tc \<and> tex_run call tc = Some tc'"

interpretation tex: invariant_system tex_init tex_step tex_inv
proof
  show "tex_inv s" if t: "tex_init s" for s
  proof -
    obtain budget rb where "TextureCache_init budget rb = Some s" using t unfolding tex_init_def by blast
    then show ?thesis using TextureCache_init_ok [of budget rb] by (metis option.inject)
  qed
  show "tex_inv s'" if "tex_inv s" "tex_step s e s'" for s e s' using that tex_run_ok unfolding tex_step_def by (metis option.inject)
qed

section \<open>The properties\<close>

definition demo_info :: ImageInfo where
  "demo_info = null_info\<lparr>guest_address := 0x100800, guest_size := 0x2000\<rparr>"

lemma demo_state:
  obtains tc i l where "reach tex_init tex_step tc" "img_at tc i = Some ((new_image demo_info)\<lparr>fl_Registered := True, lru_id := l\<rparr>)" "gc_tick tc = 0" "deferred_ops tc = []"
    "\<And>j. j \<noteq> i \<Longrightarrow> img_at tc j = (if j = 0 then Some null_image else None)"
proof -
  obtain tc where I: "TextureCache_init None False = Some tc" "tex_inv tc" "img_at tc = (\<lambda>_. None)(0 \<mapsto> null_image)" "sv_room (slot_images tc)" "gc_tick tc = 0" "deferred_ops tc = []"
    by (rule TextureCache_init_ok)
  have sp: "0 < guest_address demo_info" "in_space (guest_address demo_info) (guest_size demo_info)" by (simp_all add: demo_info_def null_info_def in_space_def)
  obtain i tc' l where C: "create_image demo_info tc = Some (i, tc')" "img_at tc' = (img_at tc)(i \<mapsto> (new_image demo_info)\<lparr>fl_Registered := True, lru_id := l\<rparr>)"
    "deferred_ops tc' = deferred_ops tc" "gc_tick tc' = gc_tick tc" by (rule create_image_ok [OF I(2,4) sp])
  have "reach tex_init tex_step tc" using I(1) by (intro reach_init) (auto simp: tex_init_def)
  moreover have "tex_step tc (Create demo_info) tc'" using I(4) C(1) sp by (simp add: tex_step_def tex_allowed_def tex_run_def)
  ultimately have "reach tex_init tex_step tc'" by (rule reach_step)
  then show thesis using that [of tc' i l] C(2,3,4) I(3,5,6) by simp
qed

text \<open>
  C9. In every state that the texture cache reaches by calls that \<open>tex_allowed\<close> admits, in any order: a page of the page table lists exactly the registered images that lie on it, each once; the registered images are
  exactly the objects in the cache of recent use, each under the index that the image keeps; every page is watched exactly as many times as there are images that track it; an image
  whose deletion is pending is neither registered nor pending twice.  And every admitted call returns: none of its assertions fails.

  What is not admitted, although the code does not exclude it: using an image that is not registered, except the null image when item 0 of the cache of recent use belongs to an image or is as young as the
  tick (the other cases break the cache, \<open>null_image_touch\<close> below); downloads from the list of readbacks when an image of the list was reclaimed
  (\<open>ProcessDownloadImages_stale\<close>); downloads, in the list or by the collector, of an image that is larger than its size in guest memory or than
  the download buffer (\<open>DownloadImageMemory_fails\<close>); an image at address 0 or beyond the 40-bit space; a full slot vector or clock.
\<close>

theorem texture_cache_invariant:
  assumes "reach tex_init tex_step tc"
  shows "(\<forall>p < 2 ^ 20. let ids = mlpt_entry TexTraits [] (page_table tc) p in
        distinct ids \<and> set ids = {i. \<exists>img. img_at tc i = Some img \<and> fl_Registered img \<and> p \<in> set (pages_of (guest_address img) (guest_size img))})
    \<and> (\<exists>A. lru_rel (lru_cache tc) A \<and> (\<forall>l i. (\<exists>t. (l, i, t) \<in> set A) \<longleftrightarrow> (\<exists>img. img_at tc i = Some img \<and> fl_Registered img \<and> lru_id img = l)))
    \<and> (\<forall>p. net_watch (tex_trace tc) p = int (card {i. \<exists>img. img_at tc i = Some img \<and> img_watches img p}))
    \<and> distinct (deferred_ops tc) \<and> (\<forall>i \<in> set (deferred_ops tc). img_at tc i \<noteq> None \<and> \<not> registered tc i)
    \<and> (\<forall>call. tex_allowed call tc \<longrightarrow> (\<exists>tc'. tex_run call tc = Some tc'))"
proof (intro conjI)
  have inv: "tex_inv tc" by (rule tex.reach_inv [OF assms])
  note D = index_okD [OF tex_invD(1) [OF inv]]
  show "\<forall>p < 2 ^ 20. let ids = mlpt_entry TexTraits [] (page_table tc) p in
        distinct ids \<and> set ids = {i. \<exists>img. img_at tc i = Some img \<and> fl_Registered img \<and> p \<in> set (pages_of (guest_address img) (guest_size img))}"
    using D(2) by (simp add: pages_ok_def lists_images_def)
  obtain A where A: "lru_ok tc A" using tex_invD(1) [OF inv] unfolding index_ok_def by blast
  then have "(\<exists>t. (l, i, t) \<in> set A) \<longleftrightarrow> (\<exists>img. img_at tc i = Some img \<and> fl_Registered img \<and> lru_id img = l)" for l i unfolding lru_ok_def by blast
  then show "\<exists>A. lru_rel (lru_cache tc) A \<and> (\<forall>l i. (\<exists>t. (l, i, t) \<in> set A) \<longleftrightarrow> (\<exists>img. img_at tc i = Some img \<and> fl_Registered img \<and> lru_id img = l))"
    using A unfolding lru_ok_def by blast
  show "\<forall>p. net_watch (tex_trace tc) p = int (card {i. \<exists>img. img_at tc i = Some img \<and> img_watches img p})"
    using tex_invD(2) [OF inv] by (simp add: track_inv_def)
  show "distinct (deferred_ops tc)" "\<forall>i \<in> set (deferred_ops tc). img_at tc i \<noteq> None \<and> \<not> registered tc i"
    using D(3) by (auto simp: deferred_ok_def registered_def)
  show "\<forall>call. tex_allowed call tc \<longrightarrow> (\<exists>tc'. tex_run call tc = Some tc')" using tex_run_ok [OF inv] by blast
qed

theorem texture_cache_invariant_witness:
  "\<exists>tc i tc'. reach tex_init tex_step tc \<and> registered tc i \<and> tex_run (Free i) tc = Some tc'"
proof -
  obtain tc i l where S: "reach tex_init tex_step tc" "img_at tc i = Some ((new_image demo_info)\<lparr>fl_Registered := True, lru_id := l\<rparr>)" by (rule demo_state)
  have r: "registered tc i" using S(2) by (simp add: registered_def)
  moreover have "tex_allowed (Free i) tc" using r by (simp add: tex_allowed_def)
  ultimately show ?thesis using texture_cache_invariant [OF S(1)] S(1) by blast
qed

lemma invalidated_dirty:
  assumes "touched addr sz img" "IsTracked img" "\<not> IsTracked (invalidated xxh addr sz img)"
  shows "fl_CpuDirty (invalidated xxh addr sz img) \<or> fl_MaybeCpuDirty (invalidated xxh addr sz img)"
proof -
  note D = touchedD [OF assms(1)]
  have h: "fl_MaybeCpuDirty (head_cut xxh img)" if "\<not> IsTracked (head_cut xxh img)"
    using that assms(2) by (auto simp: head_cut_def Let_def IsTracked_def page_4096 split: if_splits)
  have "fl_MaybeCpuDirty (tail_cut xxh img)" if "\<not> IsTracked (tail_cut xxh img)" "\<not> Overlaps img addr sz" "guest_address img < page_start addr"
    using that assms(2) tail_case [OF assms(1) that(2,3)] by (auto simp: tail_cut_def Let_def IsTracked_def split: if_splits)
  then show ?thesis using assms(3) h unfolding invalidated_def by (auto split: if_splits)
qed

text \<open>
  C10. Invalidation by the CPU, which the fault handler calls when the guest writes to a protected page.  From every reachable state it returns; afterwards none of the pages of the written range
  is watched for the texture cache, so the guest can write; every registered image that overlaps the range is dirty and untracked; an image that loses its tracking is marked dirty or
  possibly dirty; images that are on none of these pages do not change, and no image changes its place.
\<close>

theorem tex_InvalidateMemory_correct:
  assumes "reach tex_init tex_step tc" "in_space addr sz"
  shows "\<exists>tc'. tex_InvalidateMemory xxh addr sz tc = Some tc'
    \<and> (\<forall>p. addr div 4096 \<le> p \<and> p \<le> (addr + sz - 1) div 4096 \<longrightarrow> net_watch (tex_trace tc') p = 0)
    \<and> (\<forall>i img. img_at tc i = Some img \<and> fl_Registered img \<longrightarrow> (\<exists>img'. img_at tc' i = Some img' \<and> place img' = place img
          \<and> (Overlaps img addr sz \<longrightarrow> fl_CpuDirty img' \<and> \<not> IsTracked img')
          \<and> (IsTracked img \<and> \<not> IsTracked img' \<longrightarrow> fl_CpuDirty img' \<or> fl_MaybeCpuDirty img')
          \<and> (\<not> Overlaps img (page_start addr) (next_page (addr + sz - 1) - page_start addr) \<longrightarrow> img' = img)))"
proof -
  have inv: "tex_inv tc" by (rule tex.reach_inv [OF assms(1)])
  obtain tc' where I: "tex_InvalidateMemory xxh addr sz tc = Some tc'" "tex_inv tc'" "same_index tc tc'"
    "\<And>i img. img_at tc i = Some img \<Longrightarrow> img_at tc' i = Some (if touched addr sz img then invalidated xxh addr sz img else img)"
    by (rule tex_InvalidateMemory_ok [OF inv assms(2)]) blast
  have quiet: "net_watch (tex_trace tc') p = 0" if p: "addr div 4096 \<le> p \<and> p \<le> (addr + sz - 1) div 4096" for p
  proof -
    have pp: "page_start addr \<le> p * 4096" "p * 4096 < next_page (addr + sz - 1)" using p by (auto simp: page_4096)
    have "\<not> img_watches img' p" if at': "img_at tc' i = Some img'" for i img'
    proof -
      obtain img where at: "img_at tc i = Some img" using same_index_img [OF I(3) at'] by blast
      show ?thesis using I(4) [OF at] at' invalidated_unwatched [OF _ pp] watched_touched [OF tex_invD(5) [OF inv at] assms(2) _ pp]
        by (cases "touched addr sz img") auto
    qed
    then have "{i. \<exists>img. img_at tc' i = Some img \<and> img_watches img p} = {}" by blast
    moreover have "net_watch (tex_trace tc') p = int (card {i. \<exists>img. img_at tc' i = Some img \<and> img_watches img p})"
      using tex_invD(2) [OF I(2)] unfolding track_inv_def by blast
    ultimately show ?thesis by (simp only: card.empty of_nat_0)
  qed
  have "\<exists>img'. img_at tc' i = Some img' \<and> place img' = place img \<and> (Overlaps img addr sz \<longrightarrow> fl_CpuDirty img' \<and> \<not> IsTracked img')
      \<and> (IsTracked img \<and> \<not> IsTracked img' \<longrightarrow> fl_CpuDirty img' \<or> fl_MaybeCpuDirty img')
      \<and> (\<not> Overlaps img (page_start addr) (next_page (addr + sz - 1) - page_start addr) \<longrightarrow> img' = img)"
    if at: "img_at tc i = Some img" "fl_Registered img" for i img
  proof -
    note g = tex_invD(5) [OF inv at(1)]
    have t: "touched addr sz img" if "Overlaps img addr sz"
      using that Overlaps_end [OF g at(2) assms(2)] Overlaps_end [OF g at(2) page_range(4) [OF assms(2)]] page_range [OF assms(2)] g at(2) assms(2)
      by (simp add: touched_def)
    show ?thesis
    proof (cases "touched addr sz img")
      case True
      have "place (invalidated xxh addr sz img) = place img" using invalidated_step [OF True] by (simp add: image_step_def)
      moreover have "fl_CpuDirty (invalidated xxh addr sz img)" "\<not> IsTracked (invalidated xxh addr sz img)" if "Overlaps img addr sz"
        using that by (simp_all add: invalidated_def)
      ultimately show ?thesis using I(4) [OF at(1)] True invalidated_dirty [OF True] by (auto simp: touched_def)
    next
      case False
      then show ?thesis using I(4) [OF at(1)] t by auto
    qed
  qed
  then show ?thesis using I(1) quiet by blast
qed

theorem tex_InvalidateMemory_correct_witness:
  "\<exists>tc tc' i img'. tex_InvalidateMemory (\<lambda>_ _. 7) 0x101000 8 tc = Some tc' \<and> img_at tc' i = Some img' \<and> fl_CpuDirty img' \<and> \<not> IsTracked img'"
proof -
  obtain tc i l where S: "reach tex_init tex_step tc" "img_at tc i = Some ((new_image demo_info)\<lparr>fl_Registered := True, lru_id := l\<rparr>)" by (rule demo_state)
  have "in_space 0x101000 8" by (simp add: in_space_def)
  from tex_InvalidateMemory_correct [OF S(1) this, of "\<lambda>_ _. 7"] S(2) show ?thesis
    by (fastforce simp: Overlaps_def new_image_def demo_info_def null_info_def ImageInfo.defs)
qed

text \<open>
  C11. Unmapping guest memory.  From every reachable state it returns; the images that are deleted are exactly the registered images that overlap the range, each once, although an
  image may lie on many pages; afterwards no registered image overlaps the range, the deleted ones are untracked and wait for the scheduler, and all other images are as before.
\<close>

theorem tex_UnmapMemory_correct:
  assumes "reach tex_init tex_step tc" "in_space cpu_addr sz"
  shows "\<exists>tc' ids. tex_UnmapMemory cpu_addr sz tc = Some tc' \<and> deferred_ops tc' = deferred_ops tc @ ids \<and> distinct ids
    \<and> set ids = {i. \<exists>img. img_at tc i = Some img \<and> fl_Registered img \<and> Overlaps img cpu_addr sz}
    \<and> (\<forall>i \<in> set ids. \<exists>img. img_at tc' i = Some img \<and> \<not> fl_Registered img \<and> \<not> IsTracked img)
    \<and> (\<forall>j. j \<notin> set ids \<longrightarrow> img_at tc' j = img_at tc j)
    \<and> (\<forall>i img. img_at tc' i = Some img \<and> fl_Registered img \<longrightarrow> \<not> Overlaps img cpu_addr sz)"
proof -
  have inv: "tex_inv tc" by (rule tex.reach_inv [OF assms(1)])
  obtain ids tc' where U: "tex_UnmapMemory cpu_addr sz tc = Some tc'" "distinct ids" "set ids = overlapping tc cpu_addr sz" "deferred_ops tc' = deferred_ops tc @ ids"
    "\<And>j. img_at tc' j = (if j \<in> set ids then map_option (\<lambda>img. (untracked img)\<lparr>fl_Registered := False\<rparr>) (img_at tc j) else img_at tc j)"
    by (rule tex_UnmapMemory_ok [OF inv assms(2)]) blast
  have o: "set ids = {i. \<exists>img. img_at tc i = Some img \<and> fl_Registered img \<and> Overlaps img cpu_addr sz}" using U(3) by (simp add: overlapping_def)
  have "\<exists>img. img_at tc' i = Some img \<and> \<not> fl_Registered img \<and> \<not> IsTracked img" if i: "i \<in> set ids" for i
  proof -
    obtain img where "img_at tc i = Some img" using i o by blast
    then have "img_at tc' i = Some ((untracked img)\<lparr>fl_Registered := False\<rparr>)" using U(5) [of i] i by simp
    moreover have "\<not> IsTracked ((untracked img)\<lparr>fl_Registered := False\<rparr>)" using untracked_simps(9) [of img] by (simp add: IsTracked_def)
    ultimately show ?thesis by simp
  qed
  moreover have "\<not> Overlaps img cpu_addr sz" if at: "img_at tc' i = Some img" "fl_Registered img" for i img
  proof
    assume ov: "Overlaps img cpu_addr sz"
    have "i \<notin> set ids" using at U(5) [of i] by (auto split: if_splits)
    then have "img_at tc i = Some img" using at(1) U(5) [of i] by simp
    then show False using ov at(2) o \<open>i \<notin> set ids\<close> by blast
  qed
  moreover have "img_at tc' j = img_at tc j" if "j \<notin> set ids" for j using U(5) [of j] that by simp
  ultimately show ?thesis using U(1,2,4) o by blast
qed

theorem tex_UnmapMemory_correct_witness:
  "\<exists>tc tc' i. tex_UnmapMemory 0x100000 0x1000 tc = Some tc' \<and> registered tc i \<and> deferred_ops tc' = [i] \<and> \<not> registered tc' i"
proof -
  obtain tc i l where S: "reach tex_init tex_step tc" "img_at tc i = Some ((new_image demo_info)\<lparr>fl_Registered := True, lru_id := l\<rparr>)" "deferred_ops tc = []"
    "\<And>j. j \<noteq> i \<Longrightarrow> img_at tc j = (if j = 0 then Some null_image else None)" by (rule demo_state) blast
  let ?img = "(new_image demo_info)\<lparr>fl_Registered := True, lru_id := l\<rparr>"
  have n: "\<not> fl_Registered null_image" by (simp add: null_image_def new_image_def ImageInfo.defs)
  have ov: "Overlaps ?img 0x100000 0x1000" by (simp add: Overlaps_def new_image_def demo_info_def null_info_def ImageInfo.defs)
  have "(\<exists>img. img_at tc j = Some img \<and> fl_Registered img \<and> Overlaps img 0x100000 0x1000) \<longleftrightarrow> j = i" for j
    using S(2,4) n ov by (cases "j = i") auto
  then have only: "{j. \<exists>img. img_at tc j = Some img \<and> fl_Registered img \<and> Overlaps img 0x100000 0x1000} = {i}" by simp
  have "in_space 0x100000 0x1000" by (simp add: in_space_def)
  from tex_UnmapMemory_correct [OF S(1) this] obtain tc' ids where U: "tex_UnmapMemory 0x100000 0x1000 tc = Some tc'" "deferred_ops tc' = deferred_ops tc @ ids" "distinct ids"
    "set ids = {i}" "\<forall>i \<in> set ids. \<exists>img. img_at tc' i = Some img \<and> \<not> fl_Registered img \<and> \<not> IsTracked img" unfolding only by blast
  have "ids = [i]" using U(3,4) by (cases ids) (auto simp: subset_singleton_iff)
  then have "deferred_ops tc' = [i]" "\<not> registered tc' i" using U(2,5) S(3) by (auto simp: registered_def)
  moreover have "registered tc i" using S(2) by (simp add: registered_def)
  ultimately show ?thesis using U(1) by blast
qed

text \<open>
  C12. A run of the garbage collector, from every reachable state whose clock does not overflow and whose images pass the check of the download: it returns and advances the clock; it deletes at most 60 images, all of them registered before and no longer
  registered afterwards; a deleted image that is safe to download, which is modified by the GPU and in no way dirty, is downloaded (one that is modified by the GPU and also possibly dirty is deleted without a download);
  an image that was used less than 16 ticks ago is kept once the clock has reached 16; before that, an image is kept when it was used after tick 0.  All other images are as before.
\<close>

theorem RunGarbageCollector_correct:
  assumes "reach tex_init tex_step tc" "gc_tick tc + 1 < 2 ^ 63"
    "\<forall>i img. img_at tc i = Some img \<and> fl_Registered img \<and> SafeToDownload img \<and> \<not> guest_tiled img \<longrightarrow> downloadable img"
  shows "\<exists>tc' ids. RunGarbageCollector usage tc = Some tc' \<and> gc_tick tc' = gc_tick tc + 1
    \<and> deferred_ops tc' = deferred_ops tc @ ids \<and> length ids \<le> 60
    \<and> (\<forall>i \<in> set ids. registered tc i \<and> \<not> registered tc' i)
    \<and> (\<forall>i img. i \<in> set ids \<and> img_at tc i = Some img \<and> SafeToDownload img \<longrightarrow> DownloadMemory i \<in> set (tex_trace tc'))
    \<and> (\<forall>A l i u. lru_rel (lru_cache tc) A \<and> (l, i, u) \<in> set A \<and> gc_tick tc - min 16 (gc_tick tc) < u \<longrightarrow> i \<notin> set ids)
    \<and> (\<forall>j. j \<notin> set ids \<longrightarrow> img_at tc' j = img_at tc j)"
proof -
  have inv: "tex_inv tc" by (rule tex.reach_inv [OF assms(1)])
  obtain A where A: "lru_ok tc A" using tex_invD(1) [OF inv] unfolding index_ok_def by blast
  obtain ids tc' where G: "RunGarbageCollector usage tc = Some tc'" "tex_inv tc'" "gc_tick tc' = gc_tick tc + 1" "length ids \<le> 60"
    "deferred_ops tc' = deferred_ops tc @ ids"
    "\<And>i. i \<in> set ids \<Longrightarrow> \<exists>img. img_at tc i = Some img \<and> fl_Registered img \<and> (SafeToDownload img \<longrightarrow> DownloadMemory i \<in> set (tex_trace tc'))"
    "\<And>j. img_at tc' j = (if j \<in> set ids then map_option (\<lambda>img. (untracked img)\<lparr>fl_Registered := False\<rparr>) (img_at tc j) else img_at tc j)"
    "\<And>l i u. (l, i, u) \<in> set A \<Longrightarrow> gc_tick tc - min 16 (gc_tick tc) < u \<Longrightarrow> i \<notin> set ids"
    by (rule RunGarbageCollector_ok [OF inv assms(2) A gc_sound_iff [THEN iffD2, OF assms(3)], of usage]) blast
  have reg: "registered tc i \<and> \<not> registered tc' i" if i: "i \<in> set ids" for i
    using G(6) [OF i] G(7) [of i] i by (auto simp: registered_def)
  have dl: "DownloadMemory i \<in> set (tex_trace tc')" if "i \<in> set ids" "img_at tc i = Some img" "SafeToDownload img" for i img
    using G(6) [OF that(1)] that(2,3) by auto
  have young: "i \<notin> set ids" if B: "lru_rel (lru_cache tc) B" "(l, i, u) \<in> set B" "gc_tick tc - min 16 (gc_tick tc) < u" for B l i u
  proof -
    have "B = A" by (rule lru_rel_unique [OF B(1)]) (use A in \<open>simp add: lru_ok_def\<close>)
    then show ?thesis using G(8) B(2,3) by blast
  qed
  have other: "img_at tc' j = img_at tc j" if "j \<notin> set ids" for j using G(7) [of j] that by simp
  show ?thesis using G(1,3,4,5) reg dl young other by (intro exI [of _ tc'] exI [of _ ids]) blast
qed

theorem RunGarbageCollector_correct_witness:
  "\<exists>tc tc'. RunGarbageCollector (Some 0x100000000) tc = Some tc' \<and> gc_tick tc = 0 \<and> gc_tick tc' = 1"
proof -
  obtain tc i l where S: "reach tex_init tex_step tc" "img_at tc i = Some ((new_image demo_info)\<lparr>fl_Registered := True, lru_id := l\<rparr>)" "gc_tick tc = 0"
    "\<And>j. j \<noteq> i \<Longrightarrow> img_at tc j = (if j = 0 then Some null_image else None)" by (rule demo_state) blast
  have t: "gc_tick tc + 1 < 2 ^ 63" using S(3) by simp
  have "\<not> SafeToDownload img" if "img_at tc j = Some img" for j img
    using that S(2,4) by (cases "j = i") (auto simp: SafeToDownload_def new_image_def null_image_def ImageInfo.defs split: if_splits)
  then have "\<forall>j img. img_at tc j = Some img \<and> fl_Registered img \<and> SafeToDownload img \<and> \<not> guest_tiled img \<longrightarrow> downloadable img" by blast
  from RunGarbageCollector_correct [OF S(1) t this, of "Some 0x100000000"] S(3) show ?thesis by auto
qed

section \<open>What goes wrong\<close>

text \<open>Touching an item that is free puts it into the list, where it stays free: the cache is no list any more.\<close>

lemma Attach_ends: "last_item (Attach i c) = Some i" "free_items (Attach i c) = free_items c"
  by (simp_all add: Attach_def Let_def split: option.splits)

lemma Detach_free: "free_items (Detach i c) = free_items c"
  by (simp add: Detach_def opt_item_def Let_def split: option.splits)

lemma touch_free_item:
  assumes rel: "lru_rel c A" and i: "i \<in> set (free_items c)" "it_tick (item_pool c ! i) < tick"
  shows "\<exists>c'. lru_Touch i tick c = Some c' \<and> \<not> (\<exists>B. lru_rel c' B)"
proof -
  obtain l where l: "lru_rep c l" using rel by (auto simp: lru_rel_def)
  have li: "i \<notin> set l" "i < length (item_pool c)" using l i(1) by (auto simp: lru_rep_def)
  have "last_item c \<noteq> Some i" using l li(1) by (auto simp: lru_rep_def last_or_def split: if_splits)
  then have "lru_Touch i tick c = Some (Attach i (Detach i (set_item i (\<lambda>item. item\<lparr>it_tick := tick\<rparr>) c)))"
    using li(2) i(2) by (simp add: lru_Touch_def)
  moreover have "\<not> lru_rel c' B" if "last_item c' = Some i" "free_items c' = free_items c" for c' :: "'a LeastRecentlyUsedCache" and B
    using i(1) that by (auto simp: lru_rel_def lru_rep_def last_or_def split: if_splits) (meson last_in_set disjoint_iff)
  then have "\<not> lru_rel (Attach i (Detach i (set_item i (\<lambda>item. item\<lparr>it_tick := tick\<rparr>) c))) B" for B by (simp add: Attach_ends Detach_free)
  ultimately show ?thesis by blast
qed

lemma FindTexture_null:
  assumes "tex_inv tc"
  shows "FindTexture xxh False 0 tc = (case lru_Touch 0 (gc_tick tc) (lru_cache tc) of None \<Rightarrow> None
     | Some lru \<Rightarrow> Some (put_image 0 (RefreshImage xxh (the (img_at tc 0))) (tc\<lparr>lru_cache := lru\<rparr>)))"
proof -
  obtain img where n: "img_at tc 0 = Some img" "\<not> fl_Registered img" "lru_id img = 0" using index_okD(3) [OF tex_invD(1) [OF assms]] by (auto simp: deferred_ok_def)
  have "TrackImage 0 tc = Some tc" using n by (simp add: TrackImage_def img_at_def [symmetric])
  then show ?thesis using n by (simp add: FindTexture_def UpdateImage_def GetImage_def TouchImage_def img_at_def split: option.splits)
qed

text \<open>
  C13. The null image, which the renderer binds when a shader reads an empty texture slot, is not registered, but binding it touches item 0 of the cache of recent use all the same.
  As long as nothing was registered this reads past the end of the pool of items; when item 0 is free and older than the current tick, it is linked into the list although
  it is free, and the cache is no list any more.
\<close>

theorem null_image_touch:
  assumes "reach tex_init tex_step tc"
  shows "(item_pool (lru_cache tc) = [] \<longrightarrow> FindTexture xxh False 0 tc = None)
    \<and> (0 \<in> set (free_items (lru_cache tc)) \<and> it_tick (item_pool (lru_cache tc) ! 0) < gc_tick tc
         \<longrightarrow> (\<exists>tc'. FindTexture xxh False 0 tc = Some tc' \<and> \<not> (\<exists>A. lru_rel (lru_cache tc') A)))"
proof -
  have inv: "tex_inv tc" by (rule tex.reach_inv [OF assms])
  note F = FindTexture_null [OF inv, of xxh]
  obtain A where A: "lru_rel (lru_cache tc) A" using tex_invD(1) [OF inv] unfolding index_ok_def lru_ok_def by blast
  have 1: "FindTexture xxh False 0 tc = None" if "item_pool (lru_cache tc) = []" using F that by (simp add: lru_Touch_def)
  have 2: "\<exists>tc'. FindTexture xxh False 0 tc = Some tc' \<and> \<not> (\<exists>A. lru_rel (lru_cache tc') A)"
    if c: "0 \<in> set (free_items (lru_cache tc))" "it_tick (item_pool (lru_cache tc) ! 0) < gc_tick tc"
  proof -
    obtain lru where "lru_Touch 0 (gc_tick tc) (lru_cache tc) = Some lru" "\<not> (\<exists>B. lru_rel lru B)" using touch_free_item [OF A c] by blast
    then show ?thesis using F by simp
  qed
  show ?thesis using 1 2 by blast
qed

theorem null_image_touch_witness:
  "\<exists>tc. TextureCache_init None False = Some tc \<and> FindTexture (\<lambda>_ _. 0) False 0 tc = None"
proof -
  obtain tc where I: "TextureCache_init None False = Some tc" "lru_cache tc = lru_empty" by (rule TextureCache_init_ok)
  have "reach tex_init tex_step tc" using I(1) by (intro reach_init) (auto simp: tex_init_def)
  from null_image_touch [OF this, of "\<lambda>_ _. 0"] show ?thesis using I by (simp add: lru_empty_def)
qed

text \<open>An image that is marked for download, freed and reclaimed is still on the list of downloads, which then reads a slot that is not in use.\<close>

lemma ProcessDownloadImages_stale:
  assumes "i \<in> set (download_images tc)" "img_at tc i = None"
  shows "ProcessDownloadImages tc = None"
proof -
  have at: "img_at tc' i = img_at tc i" if "DownloadImageMemory j tc = Some tc'" for j tc tc'
    using that by (auto simp: DownloadImageMemory_def img_at_def tex_emit_def bind_eq_Some_conv split: if_splits)
  have "process_downloads ids tc = None" if "i \<in> set ids" "img_at tc i = None" for ids tc
    using that
  proof (induction ids arbitrary: tc)
    case (Cons j ids)
    then show ?case
    proof (cases "DownloadImageMemory j tc")
      case (Some tc')
      then have "j \<noteq> i" using Cons.prems(2) by (auto simp: DownloadImageMemory_def img_at_def)
      then show ?thesis using Some Cons at [OF Some] by simp
    qed simp
  qed simp
  then show ?thesis using assms by (simp add: ProcessDownloadImages_def)
qed

text \<open>An image whose pitch, height, layers and bits give more bytes than it has in guest memory cannot be downloaded: the assertion fails.\<close>

lemma DownloadImageMemory_fails:
  assumes "img_at tc i = Some img" "fl_GpuModified img" "guest_size img < download_size img"
  shows "DownloadImageMemory i tc = None"
  using assms by (simp add: DownloadImageMemory_eq downloadable_def)

text \<open>While the clock is below 16 the limit of the first pass is tick 0, so that an image registered and used in the very first tick is old enough to be collected in it.\<close>

lemma gc_first_tick: "gc_tick tc = 0 \<Longrightarrow> sub64 (gc_tick tc) (ticks_to_destroy (gc_configure False tc)) = 0"
  by (simp add: gc_configure_def Let_def)

text \<open>The hash that an image first gets is over its whole size, the one it is compared with over its first pixels only: unless they are the same, the image is uploaded again.\<close>

lemma first_check_misses:
  assumes "img_hash img = 0" "\<not> fl_CpuDirty img" "num_samples img = 1"
    and "xxh (guest_address img) (guest_size img) \<noteq> xxh (guest_address img) (check_size img)"
  shows "\<not> fl_GpuDirty (RefreshImage xxh (maybe_dirty xxh img)) \<and> img_hash (RefreshImage xxh (maybe_dirty xxh img)) = xxh (guest_address img) (check_size img)"
proof -
  define m where "m = maybe_dirty xxh img"
  have "fl_MaybeCpuDirty m" "\<not> fl_CpuDirty m" "img_hash m = xxh (guest_address img) (guest_size img)" "num_samples m = 1" "guest_address m = guest_address img"
    "check_size m = check_size img"
    using assms(1-3) by (simp_all add: m_def maybe_dirty_def check_size_def)
  then show ?thesis using assms(4) unfolding m_def [symmetric] RefreshImage_def by (simp add: Let_def)
qed

text \<open>With less than 1 GB of memory a limit is negative, and as an unsigned number larger than any amount of memory.\<close>

lemma gc_limits_small:
  assumes "budget < 0x40000000"
  shows "2 ^ 63 \<le> fst (snd (gc_limits (Some budget)))"
proof -
  define d where "d = int budget - 0x40000000"
  define v where "v = 6 * min (int budget) 0x200000000 div 10"
  have d: "- 0x40000000 \<le> d" "d < 0" using assms by (simp_all add: d_def)
  have v: "v \<le> int budget" using assms by (simp add: v_def)
  have "(d + 18446744073709551616) mod 18446744073709551616 = d + 18446744073709551616" using d by (intro mod_pos_pos_trivial) simp_all
  then have m: "d mod 18446744073709551616 = d + 18446744073709551616" by simp
  have "2 ^ 63 \<le> u64_of_s64 d" unfolding u64_of_s64_def using m d by simp
  moreover have "min (int budget - v) d = d" using v d(2) by simp
  moreover have "fst (snd (gc_limits (Some budget))) = max (u64_of_s64 (min (int budget - v) d)) 0x60000000"
    by (simp add: gc_limits_def Let_def v_def d_def)
  ultimately show ?thesis by simp
qed

end
