(* ===== verification/Spec2Isabelle.thy ===== *)
theory Spec2Isabelle
  imports Kernel_Memory Memory_Reachable Rtc_Correct Tracker_Correct Event_Flag_Correct Semaphore_Correct Posix_Semaphore
    Psf_Correct Texture_Correct
begin

text \<open>
  Verification of the core of PS4Droid, an emulator of the PlayStation 4 in C++ (a port of shadPS4).

  \<^bold>\<open>The program.\<close> A guest program calls kernel and system library functions that the emulator implements on the
  host. \<^verbatim>\<open>src/src/core/\<close> holds the emulated machine: the memory manager (\<^verbatim>\<open>memory.cpp\<close>), which owns the virtual address
  space of the guest and the physical memory behind it; the guest's kernel library (\<^verbatim>\<open>libraries/kernel/\<close>), whose memory
  calls check their arguments and call the manager and whose synchronisation objects are used by guest threads that run as
  host threads; the other system libraries, among them the real-time clock (\<^verbatim>\<open>libraries/rtc/\<close>); and file formats
  (\<^verbatim>\<open>file_format/\<close>). \<^verbatim>\<open>src/src/video_core/\<close> emulates the GPU; its buffer cache must know which guest memory the CPU and the GPU
  changed, which it learns by protecting pages of the host, and its texture cache keeps the images that the GPU uses, finds them by their guest addresses and throws old ones away. \<^verbatim>\<open>src/src/common/\<close> has the containers they share.

  \<^bold>\<open>Conventions.\<close> A structure is a record with its fields, an enumeration a datatype, and each function a definition
  with the name it has in the source, prefixed when HOL has that name already. 64-bit values are
  natural numbers with explicit wrap-around (\<open>add64\<close>, \<open>sub64\<close>), flags and bit sets are words. A failed assertion, an unreachable branch or a read that the
  language leaves undefined is \<open>None\<close>, so a theorem that a function returns \<open>Some\<close> shows that none of them happens; an error code is an ordinary value. Loops
  are recursive functions with a termination proof; no fuel is used anywhere. What an operation does outside the model, calls of the host address space,
  of the rasterizer and of the callbacks of the tracker, is a trace of effects in the state.
  An operation of a synchronisation object is cut where its lock is released, and the pieces are steps of a labelled transition system (\<^verbatim>\<open>Transition_System\<close>) that interleaves any number
  of threads. The operations of the memory manager, the page manager, the memory tracker and the texture cache are one transition each; for the tracker this is coarser than the code, which locks one region of a
  range at a time, and interleavings inside one of its calls are not modelled.

  \<^bold>\<open>Theories.\<close>

  \<^item> \<^verbatim>\<open>Prelude\<close>, \<^verbatim>\<open>Alignment\<close>: machine integers, error codes, the option monad, \<^verbatim>\<open>common/alignment.h\<close>.

  \<^item> \<^verbatim>\<open>Ordered_Map\<close>, \<^verbatim>\<open>Interval_Map\<close>: \<open>std::map\<close> as a sorted association list behind the interface \<open>ordered_map\<close>; maps of adjacent intervals that can
  be split, carved and merged behind the interfaces \<open>merging\<close> and \<open>carving\<close>, in which the effect of these operations on the content of every byte is proved once.

  \<^item> \<^verbatim>\<open>Physical_Memory\<close>, \<^verbatim>\<open>Virtual_Memory\<close>: \<open>PhysicalMemoryArea\<close> and \<open>VirtualMemoryArea\<close> with \<open>Split\<close>, \<open>CarvePhysArea\<close>, \<open>CarveVMA\<close>, \<open>MergeAdjacent\<close>,
  which interpret those interfaces; the refinement properties say that they change the map byte by byte as they should.

  \<^item> \<^verbatim>\<open>Memory_Manager\<close>, \<^verbatim>\<open>Memory_Mapping\<close>, \<^verbatim>\<open>Memory_Operations\<close>, \<^verbatim>\<open>Memory_Queries\<close>, \<^verbatim>\<open>Kernel_Memory\<close>: \<open>MemoryManager\<close> with all its operations and the kernel's memory calls.
  \<^verbatim>\<open>Memory_Queries\<close> also has what the searches, allocators and checks promise.

  \<^item> \<^verbatim>\<open>Memory_Invariant\<close>, \<^verbatim>\<open>Physical_Runs\<close>, \<^verbatim>\<open>Release_Memory\<close>, \<^verbatim>\<open>Take_Memory\<close>, \<^verbatim>\<open>Unmap_Correct\<close>, \<^verbatim>\<open>Map_Correct\<close>, \<^verbatim>\<open>Memory_Attributes\<close>, \<^verbatim>\<open>Memory_Reachable\<close>:
  the invariant that ties the virtual and the physical maps together (every mapped byte has memory of the right kind, no physical byte is mapped twice, the
  count of flexible memory is exact), what mapping, unmapping, protecting and naming do, and that the invariant holds in all states reached by allocating,
  mapping (files too), unmapping, protecting and naming. Two kinds of calls are not among these, although the code allows them: \<open>Free\<close>, as \<open>Free_unchecked_overrun\<close> shows that it can free memory that is still mapped,
  and mapping direct memory that is mapped already without the check \<open>validate_dmem\<close>, as \<open>MapMemory_alias\<close> shows that two addresses then share a byte.

  \<^item> \<^verbatim>\<open>Rtc\<close>, \<^verbatim>\<open>Rtc_Format\<close>, \<^verbatim>\<open>Rtc_Correct\<close>: \<^verbatim>\<open>libraries/rtc/rtc.cpp\<close>; ticks against the proleptic Gregorian calendar, the round trip between dates and ticks; both
  hold for minutes below 36 only, because a 32-bit product overflows from there on.

  \<^item> \<^verbatim>\<open>Bit_Array\<close>, \<^verbatim>\<open>Bit_Runs\<close>: \<^verbatim>\<open>common/bit_array.h\<close> with and without AVX, against the set of its one bits.

  \<^item> \<^verbatim>\<open>Page_Manager\<close>, \<^verbatim>\<open>Memory_Tracker\<close>, \<^verbatim>\<open>Tracker_Regions\<close>, \<^verbatim>\<open>Range_Set\<close>, \<^verbatim>\<open>Buffer_Downloads\<close>, \<^verbatim>\<open>Tracker_Correct\<close>: \<^verbatim>\<open>video_core/page_manager.cpp\<close> and \<^verbatim>\<open>buffer_cache/\<close>'s region manager, memory
  tracker, set of GPU-written ranges and read-back: the host protection of every page agrees with what is tracked and with what the texture cache watches, uploads and invalidations see every modified page,
  a read-back copies exactly the bytes that the GPU wrote. \<open>boost::icl::interval_set\<close> is a parameter with the laws \<open>icl_ok\<close>.

  \<^item> \<^verbatim>\<open>Lru_Cache\<close>, \<^verbatim>\<open>Page_Table\<close>: \<^verbatim>\<open>common/lru_cache.h\<close> is a list in order of use, \<^verbatim>\<open>video_core/multi_level_page_table.h\<close> a map from pages; the interfaces
  \<open>recency_cache\<close> and \<open>page_store\<close> state what their users rely on.

  \<^item> \<^verbatim>\<open>Texture_Cache\<close>: the registry of \<^verbatim>\<open>video_core/texture_cache/\<close>, which composes the slot vector, the page table and the cache of recent use.
  \<^verbatim>\<open>Texture_Index\<close>, \<^verbatim>\<open>Texture_Tracking\<close>, \<^verbatim>\<open>Texture_Regions\<close>, \<^verbatim>\<open>Texture_Images\<close>, \<^verbatim>\<open>Texture_Correct\<close>: these structures always agree, the pages that are watched are those of the tracked images,
  invalidation and unmapping reach exactly the images they should, the garbage collector is bounded and downloads what is safe to download (images that are modified by the GPU and also possibly dirty are freed without a download). The loop over
  the images of a region is verified once, for every callback that keeps the interface \<open>image_visitor\<close>.

  \<^item> \<^verbatim>\<open>Transition_System\<close>: reachable states, runs, and the interface \<open>invariant_system\<close>, interpreted by every synchronisation object and by the texture cache.

  \<^item> \<^verbatim>\<open>Event_Flag\<close>, \<^verbatim>\<open>Event_Flag_Correct\<close>: \<^verbatim>\<open>libraries/kernel/threads/event_flag.cpp\<close>; no lost wake-up, what a wait returns, a cancellation completes.

  \<^item> \<^verbatim>\<open>Slot_Vector\<close>: \<^verbatim>\<open>common/slot_vector.h\<close> implements a finite map, stated as the interface \<open>slot_store\<close>, whose laws the table of semaphores and the images of the texture cache rest on.

  \<^item> \<^verbatim>\<open>Semaphore\<close>, \<^verbatim>\<open>Semaphore_Invariant\<close>, \<^verbatim>\<open>Semaphore_Correct\<close>, \<^verbatim>\<open>Posix_Semaphore\<close>: \<^verbatim>\<open>libraries/kernel/threads/semaphore.cpp\<close>; the wait list never dangles, is in order
  of priority and never holds a waiter that could be served, tokens are conserved, a signal wakes; the POSIX value is bounded and agrees with the count.

  \<^item> \<^verbatim>\<open>Psf\<close>, \<^verbatim>\<open>Psf_Tables\<close>, \<^verbatim>\<open>Psf_Correct\<close>: \<^verbatim>\<open>file_format/psf.cpp\<close>; encoding and opening are inverse, values are typed by their entries.

  \<^bold>\<open>Hypotheses.\<close> The theorems about mapping assume sizes and addresses that are aligned, inside the regions of the host and free of overflow, most of which the code asserts or its callers check; what
  nobody checks is said at the theorem: for the reachable states, that direct memory which is mapped already is mapped again only with \<open>validate_dmem\<close>. The tracker theorems assume ranges that end below \<open>2 ^ 40\<close>, at most 126 watches of the texture
  cache on a page and, for read-backs, at most 512 KB of GPU-written bytes on the pages of the range. The texture cache theorems assume ranges inside the 40 bits that its page table covers, images that are not at address 0, and the conditions
  of \<open>tex_allowed\<close> on the null image and on downloads, which the code does not check; the clock of the
  garbage collector stays below \<open>2 ^ 63\<close>. The semaphore theorems assume counts that are not negative and sums that do not overflow; the
  lemmas at the end of \<^verbatim>\<open>Semaphore_Correct\<close> show what happens otherwise. Every property with a hypothesis has a witness that
  applies it to a concrete state.

  \<^bold>\<open>Not modelled.\<close> Host system calls (\<^verbatim>\<open>core/address_space.cpp\<close>, host threads, files, the Vulkan driver) are outside; their effect on the modelled state is
  a parameter, a nondeterministic step or an effect in the trace. Of the texture cache, the choice and the merging of images for a request (\<open>FindImage\<close>, \<open>ResolveOverlap\<close>), depth targets, views and samplers,
  which depend on formats and on the driver, are left out. The shader recompiler, the command processor, the renderer, the guest CPU backend, the linker, the remaining system
  libraries and the front end are not modelled. Mutexes, condition variables, read-write locks and event queues of the kernel are not modelled either; of the memory manager,
  the preservation of the invariant by \<open>Free\<close> (see above) and by the memory pools is not proved.
\<close>

end
